(* ===== verification/AxPrelude.thy ===== *)
theory AxPrelude
  imports Main "HOL-Library.Word"
begin

unbundle bit_operations_syntax

section \<open>Shared types, byte encodings and small lemmas\<close>

text \<open>
  The machine types of the C sources, the little- and big-endian byte encodings that the file
  system, the virtual machine, the heap canaries and the network headers share, reads and writes
  of a byte memory, and the fact collections the component theories extend.
\<close>

type_synonym u8 = "8 word"
type_synonym u16 = "16 word"
type_synonym u32 = "32 word"
type_synonym u64 = "64 word"

text \<open>A byte-addressed memory; addresses are natural numbers.\<close>
type_synonym bmem = "nat \<Rightarrow> u8"

named_theorems mem_simps \<open>reads over writes of a byte memory\<close>

subsection \<open>Unsigned arithmetic on naturals with the wrap-around written out\<close>

definition wrap32 :: "nat \<Rightarrow> nat" where
  "wrap32 n = n mod 4294967296"

lemma wrap32_id [simp]: "n < 4294967296 \<Longrightarrow> wrap32 n = n"
  by (simp add: wrap32_def)

lemma wrap32_less [simp]: "wrap32 n < 4294967296"
  by (simp add: wrap32_def)

subsection \<open>Little-endian encoding of words\<close>

primrec le_bytes :: "nat \<Rightarrow> 'a::len word \<Rightarrow> u8 list" where
  "le_bytes 0 w = []"
| "le_bytes (Suc n) w = ucast w # le_bytes n (drop_bit 8 w)"

primrec le_word :: "u8 list \<Rightarrow> 'a::len word" where
  "le_word [] = 0"
| "le_word (b # bs) = ucast b OR push_bit 8 (le_word bs)"

lemma length_le_bytes [simp]: "length (le_bytes n w) = n"
  by (induction n arbitrary: w) auto

lemma low_byte_or_rest:
  fixes w :: "'a::len word"
  shows "ucast (ucast w :: u8) OR push_bit 8 (take_bit n (drop_bit 8 w)) = take_bit (8 + n) w"
  by (rule bit_word_eqI) (auto simp: bit_simps)

lemma le_word_le_bytes_take:
  fixes w :: "'a::len word"
  shows "le_word (le_bytes n w) = take_bit (8 * n) w"
proof (induction n arbitrary: w)
  case 0
  then show ?case by simp
next
  case (Suc n)
  then show ?case
    using low_byte_or_rest [of w "8 * n"] by simp
qed

lemma le_word_le_bytes:
  fixes w :: "'a::len word"
  assumes "LENGTH('a) \<le> 8 * n"
  shows "le_word (le_bytes n w) = w"
proof -
  have "take_bit (8 * n) w = w"
    using assms by (auto simp: bit_simps intro!: bit_word_eqI)
  then show ?thesis by (simp add: le_word_le_bytes_take)
qed

lemma le_bytes_inj:
  fixes v w :: "'a::len word"
  assumes "LENGTH('a) \<le> 8 * n" and "le_bytes n v = le_bytes n w"
  shows "v = w"
  using assms by (metis le_word_le_bytes)

lemma unat_byte: "unat (b :: u8) < 256"
proof -
  have "unat b < 2 ^ LENGTH(8)" by (rule unsigned_less)
  then show ?thesis by simp
qed

subsection \<open>Byte memories\<close>

definition mem_read :: "bmem \<Rightarrow> nat \<Rightarrow> nat \<Rightarrow> u8 list" where
  "mem_read m a n = map (\<lambda>i. m (a + i)) [0..<n]"

text \<open>Writes a list of bytes from address \<open>a\<close> upwards.\<close>

definition mem_write :: "bmem \<Rightarrow> nat \<Rightarrow> u8 list \<Rightarrow> bmem" where
  "mem_write m a bs = (\<lambda>x. if a \<le> x \<and> x < a + length bs then bs ! (x - a) else m x)"

lemma length_mem_read [simp]: "length (mem_read m a n) = n"
  by (simp add: mem_read_def)

lemma mem_read_nth [simp]: "i < n \<Longrightarrow> mem_read m a n ! i = m (a + i)"
  by (simp add: mem_read_def)

lemma mem_read_0 [simp]: "mem_read m a 0 = []"
  by (simp add: mem_read_def)

lemma mem_read_eqI: "(\<And>i. i < n \<Longrightarrow> m (a + i) = m' (a + i)) \<Longrightarrow> mem_read m a n = mem_read m' a n"
  by (simp add: mem_read_def)

lemma mem_write_in [mem_simps]: "i < length bs \<Longrightarrow> mem_write m a bs (a + i) = bs ! i"
  by (simp add: mem_write_def)

lemma mem_write_out [mem_simps]: "x < a \<or> a + length bs \<le> x \<Longrightarrow> mem_write m a bs x = m x"
  by (auto simp: mem_write_def)

lemma mem_write_Nil [simp]: "mem_write m a [] = m"
  unfolding mem_write_def by (rule ext) (simp, linarith)

lemma mem_read_write_same [mem_simps]:
  "n = length bs \<Longrightarrow> mem_read (mem_write m a bs) a n = bs"
  by (rule nth_equalityI) (auto simp: mem_write_in)

lemma mem_read_write_other [mem_simps]:
  "b + n \<le> a \<or> a + length bs \<le> b \<Longrightarrow> mem_read (mem_write m a bs) b n = mem_read m b n"
  by (rule mem_read_eqI) (auto simp: mem_write_def)

lemma mem_read_write_inside [mem_simps]:
  "k + n \<le> length bs \<Longrightarrow> mem_read (mem_write m a bs) (a + k) n = take n (drop k bs)"
  by (rule nth_equalityI) (auto simp: mem_write_def)

lemma mem_read_append: "mem_read m a (k + n) = mem_read m a k @ mem_read m (a + k) n"
  by (rule nth_equalityI) (auto simp: nth_append ac_simps)

lemma mem_write_append:
  "mem_write (mem_write m a xs) (a + length xs) ys = mem_write m a (xs @ ys)"
  by (rule ext) (auto simp: mem_write_def nth_append)

text \<open>A value read back from where it was written.\<close>

lemma le_word_read_write:
  fixes w :: "'a::len word"
  assumes "LENGTH('a) \<le> 8 * n"
  shows "le_word (mem_read (mem_write m a (le_bytes n w)) a n) = w"
  using assms by (simp add: mem_simps le_word_le_bytes)

subsection \<open>Text\<close>

definition str :: "string \<Rightarrow> u8 list" where
  "str cs = map of_char cs"

definition hex_digit :: "nat \<Rightarrow> u8" where
  "hex_digit d = (if d < 10 then 0x30 + word_of_nat d else 0x41 + word_of_nat (d - 10))"

subsection \<open>First elements of lists\<close>

lemma find_Some_split:
  "find P xs = Some x \<Longrightarrow> \<exists>ys zs. xs = ys @ x # zs \<and> P x \<and> (\<forall>y\<in>set ys. \<not> P y)"
proof (induction xs)
  case Nil
  then show ?case by simp
next
  case (Cons a xs)
  show ?case
  proof (cases "P a")
    case True
    with Cons.prems show ?thesis by (auto intro: exI [of _ "[]"])
  next
    case False
    with Cons obtain ys zs where "xs = ys @ x # zs" "P x" "\<forall>y\<in>set ys. \<not> P y"
      by auto
    then have "a # xs = (a # ys) @ x # zs" "P x" "\<forall>y\<in>set (a # ys). \<not> P y"
      using False by auto
    then show ?thesis by blast
  qed
qed

lemma find_append:
  "find P (xs @ ys) = (case find P xs of None \<Rightarrow> find P ys | Some x \<Rightarrow> Some x)"
  by (induction xs) auto

end
