(* ===== verification/PtrLists.thy ===== *)
theory PtrLists
  imports AxPrelude
begin

section \<open>Linked structures in a store of objects\<close>

text \<open>
  The kernel links its heap blocks into a null-terminated list and its tasks into a ring. Both
  are walked by C loops over \<open>next\<close> pointers. Here a store maps an address to an object, the
  function \<open>nx\<close> reads an object's \<open>next\<close> field and address 0 is \<open>NULL\<close>. The loops are
  \<^theory_text>\<open>partial_function (option)\<close>: \<open>None\<close> means that the loop follows a dangling pointer or
  never returns, so that a lemma saying the loop yields \<open>Some\<close> is its termination.
  \<open>path nx h a bs z\<close> says that following \<open>next\<close> from \<open>a\<close> visits exactly the objects \<open>bs\<close>
  and arrives at \<open>z\<close>.
\<close>

primrec path :: "('n \<Rightarrow> nat) \<Rightarrow> (nat \<rightharpoonup> 'n) \<Rightarrow> nat \<Rightarrow> nat list \<Rightarrow> nat \<Rightarrow> bool" where
  "path nx h a [] z \<longleftrightarrow> a = z"
| "path nx h a (b # bs) z \<longleftrightarrow>
     a = b \<and> b \<noteq> 0 \<and> (\<exists>n. h b = Some n \<and> path nx h (nx n) bs z)"

lemma path_append:
  "path nx h a (xs @ ys) z \<longleftrightarrow> (\<exists>m. path nx h a xs m \<and> path nx h m ys z)"
  by (induction xs arbitrary: a) auto

lemma path_cong:
  "(\<And>x. x \<in> set xs \<Longrightarrow> map_option nx (h' x) = map_option nx (h x)) \<Longrightarrow>
    path nx h' a xs z = path nx h a xs z"
proof (induction xs arbitrary: a)
  case Nil
  then show ?case by simp
next
  case (Cons x xs)
  from Cons.prems have "map_option nx (h' x) = map_option nx (h x)" by simp
  then show ?case
    using Cons by (cases "h x"; cases "h' x") auto
qed

lemma path_upd_notin [simp]: "u \<notin> set xs \<Longrightarrow> path nx (h(u := v)) a xs z = path nx h a xs z"
  by (rule path_cong) auto

lemma path_mapped: "path nx h a xs z \<Longrightarrow> x \<in> set xs \<Longrightarrow> x \<noteq> 0 \<and> (\<exists>n. h x = Some n)"
  by (induction xs arbitrary: a) auto

lemma path_hd: "path nx h a xs z \<Longrightarrow> xs \<noteq> [] \<Longrightarrow> hd xs = a"
  by (cases xs) auto

subsection \<open>Null-terminated lists\<close>

text \<open>
  \<^verbatim>\<open>while (cur) { if (P(cur)) return cur; cur = cur->next; } return 0;\<close>
\<close>

partial_function (option) chain_find ::
  "('n \<Rightarrow> nat) \<Rightarrow> (nat \<rightharpoonup> 'n) \<Rightarrow> ('n \<Rightarrow> bool) \<Rightarrow> nat \<Rightarrow> nat option" where
  "chain_find nx h P a =
     (if a = 0 then Some 0
      else case h a of None \<Rightarrow> None
           | Some n \<Rightarrow> if P n then Some a else chain_find nx h P (nx n))"

lemma chain_find_path:
  assumes "path nx h a xs 0"
  shows "chain_find nx h P a =
    Some (case find (\<lambda>x. P (the (h x))) xs of None \<Rightarrow> 0 | Some x \<Rightarrow> x)"
  using assms
proof (induction xs arbitrary: a)
  case Nil
  then show ?case by (simp add: chain_find.simps)
next
  case (Cons x xs)
  then obtain n where "a = x" "x \<noteq> 0" "h x = Some n" "path nx h (nx n) xs 0"
    by auto
  with Cons.IH [of "nx n"] show ?case
    by (subst chain_find.simps) auto
qed

subsection \<open>Rings\<close>

text \<open>
  \<^verbatim>\<open>t = start; do { if (P(t)) return t; t = t->next; } while (t != start); return 0;\<close>
\<close>

partial_function (option) ring_find ::
  "('n \<Rightarrow> nat) \<Rightarrow> (nat \<rightharpoonup> 'n) \<Rightarrow> ('n \<Rightarrow> bool) \<Rightarrow> nat \<Rightarrow> nat \<Rightarrow> nat option" where
  "ring_find nx h P start t =
     (case h t of None \<Rightarrow> None
      | Some n \<Rightarrow> if P n then Some t
                  else if nx n = start then Some 0
                  else ring_find nx h P start (nx n))"

text \<open>\<^verbatim>\<open>t = start; do { body(t); t = t->next; } while (t != start);\<close>\<close>

partial_function (option) ring_update ::
  "('n \<Rightarrow> nat) \<Rightarrow> ('n \<Rightarrow> 'n) \<Rightarrow> nat \<Rightarrow> (nat \<rightharpoonup> 'n) \<Rightarrow> nat \<Rightarrow> (nat \<rightharpoonup> 'n) option" where
  "ring_update nx f start h t =
     (case h t of None \<Rightarrow> None
      | Some n \<Rightarrow>
          if nx (f n) = start then Some (h(t \<mapsto> f n))
          else ring_update nx f start (h(t \<mapsto> f n)) (nx (f n)))"

definition ring :: "('n \<Rightarrow> nat) \<Rightarrow> (nat \<rightharpoonup> 'n) \<Rightarrow> nat \<Rightarrow> nat list \<Rightarrow> bool" where
  "ring nx h a xs \<longleftrightarrow> xs \<noteq> [] \<and> distinct xs \<and> path nx h a xs a"

lemma ring_find_path:
  assumes "path nx h t xs start" "xs \<noteq> []" "start \<notin> set (tl xs)"
  shows "ring_find nx h P start t =
    Some (case find (\<lambda>x. P (the (h x))) xs of None \<Rightarrow> 0 | Some x \<Rightarrow> x)"
  using assms
proof (induction xs arbitrary: t)
  case Nil
  then show ?case by simp
next
  case (Cons x xs)
  then obtain n where n: "t = x" "x \<noteq> 0" "h x = Some n" "path nx h (nx n) xs start"
    by auto
  show ?case
  proof (cases "xs = []")
    case True
    with n show ?thesis by (subst ring_find.simps) auto
  next
    case False
    with n Cons.prems have "nx n \<noteq> start"
      using path_hd [OF n(4)] by (cases xs) auto
    moreover have "start \<notin> set (tl xs)"
      using Cons.prems False by (cases xs) auto
    ultimately show ?thesis
      using n False Cons.IH [of "nx n"] by (subst ring_find.simps) auto
  qed
qed

lemma ring_find_ring:
  assumes "ring nx h a xs"
  shows "ring_find nx h P a a =
    Some (case find (\<lambda>x. P (the (h x))) xs of None \<Rightarrow> 0 | Some x \<Rightarrow> x)"
proof -
  from assms have "xs \<noteq> []" "path nx h a xs a" "a \<notin> set (tl xs)"
    by (auto simp: ring_def neq_Nil_conv)
  then show ?thesis by (intro ring_find_path) auto
qed

lemma ring_update_path:
  assumes "path nx h t xs start" "xs \<noteq> []" "start \<notin> set (tl xs)" "distinct xs"
    and nx: "\<And>n. nx (f n) = nx n"
  shows "ring_update nx f start h t =
    Some (\<lambda>a. if a \<in> set xs then map_option f (h a) else h a)"
  using assms(1-4)
proof (induction xs arbitrary: t h)
  case Nil
  then show ?case by simp
next
  case (Cons x xs)
  then obtain n where n: "t = x" "x \<noteq> 0" "h x = Some n" "path nx h (nx n) xs start"
    by auto
  show ?case
  proof (cases "xs = []")
    case True
    with n show ?thesis by (subst ring_update.simps) (auto simp: nx fun_eq_iff)
  next
    case False
    with n Cons.prems have ne: "nx n \<noteq> start"
      using path_hd [OF n(4)] by (cases xs) auto
    have nin: "start \<notin> set (tl xs)" and x: "x \<notin> set xs" and d: "distinct xs"
      using Cons.prems False by (cases xs; auto)+
    have p: "path nx (h(x \<mapsto> f n)) (nx n) xs start"
      using n(4) x by simp
    have "ring_update nx f start (h(x \<mapsto> f n)) (nx n) =
        Some (\<lambda>a. if a \<in> set xs then map_option f ((h(x \<mapsto> f n)) a) else (h(x \<mapsto> f n)) a)"
      by (rule Cons.IH [OF p False nin d])
    then show ?thesis
      using n ne x by (subst ring_update.simps) (auto simp: nx fun_eq_iff)
  qed
qed

lemma ring_update_ring:
  assumes "ring nx h a xs" and "\<And>n. nx (f n) = nx n"
  shows "ring_update nx f a h a =
    Some (\<lambda>x. if x \<in> set xs then map_option f (h x) else h x)"
proof -
  from assms(1) have "xs \<noteq> []" "path nx h a xs a" "a \<notin> set (tl xs)" "distinct xs"
    by (auto simp: ring_def neq_Nil_conv)
  then show ?thesis using assms(2) by (intro ring_update_path) auto
qed

text \<open>Rings stay rings under updates that keep \<open>next\<close>, and can be entered anywhere.\<close>

lemma ring_cong:
  "(\<And>x. x \<in> set xs \<Longrightarrow> map_option nx (h' x) = map_option nx (h x)) \<Longrightarrow>
    ring nx h' a xs = ring nx h a xs"
  unfolding ring_def using path_cong [of xs nx h' h a a] by auto

lemma ring_hd: "ring nx h a xs \<Longrightarrow> hd xs = a"
  by (auto simp: ring_def dest: path_hd)

lemma ring_mapped: "ring nx h a xs \<Longrightarrow> x \<in> set xs \<Longrightarrow> x \<noteq> 0 \<and> (\<exists>n. h x = Some n)"
  by (auto simp: ring_def dest: path_mapped)

lemma ring_rotate:
  assumes "ring nx h a (ys @ x # zs)"
  shows "ring nx h x (x # zs @ ys)"
proof -
  from assms obtain m where "path nx h a ys m" "path nx h m (x # zs) a"
    by (auto simp: ring_def path_append)
  then have "path nx h x ((x # zs) @ ys) x"
    unfolding path_append by auto
  with assms show ?thesis by (auto simp: ring_def)
qed

text \<open>Insertion right after the first node: \<^verbatim>\<open>new->next = cur->next; cur->next = new;\<close>\<close>

lemma ring_insert_after:
  assumes r: "ring nx h a (a # xs)" and ha: "h a = Some n"
    and new: "b \<notin> set (a # xs)" "b \<noteq> 0"
    and h': "h' = h(b \<mapsto> nb, a \<mapsto> na)" "nx nb = nx n" "nx na = b"
  shows "ring nx h' a (a # b # xs)"
proof -
  from r ha have "path nx h (nx n) xs a" "a \<notin> set xs" "distinct xs" "a \<noteq> 0"
    by (auto simp: ring_def)
  then have "path nx h' (nx n) xs a"
    using new h'(1) by simp
  then show ?thesis
    using new h' \<open>a \<notin> set xs\<close> \<open>distinct xs\<close> \<open>a \<noteq> 0\<close> by (auto simp: ring_def)
qed

text \<open>Removal of the first node through its predecessor, the last node of the ring.\<close>

lemma ring_remove_first:
  assumes r: "ring nx h a (a # ys @ [p])" and hp: "h p = Some n"
    and h': "h' = h(p \<mapsto> n')" "nx n' = hd (ys @ [p])"
  shows "ring nx h' (hd (ys @ [p])) (ys @ [p])"
proof -
  from r obtain m na where d: "distinct (a # ys @ [p])" "h a = Some na"
      and pm: "path nx h (nx na) ys m" "path nx h m [p] a"
    by (auto simp: ring_def path_append)
  from pm(2) have mp: "m = p" "p \<noteq> 0" by auto
  have p': "path nx h' (nx na) ys p"
    using pm(1) mp d(1) h'(1) by simp
  have hd: "hd (ys @ [p]) = nx na"
    using pm(1) mp by (cases ys) auto
  from p' show ?thesis
    using mp d(1) h' hd by (auto simp: ring_def path_append)
qed

end
