(* ===== verification/Tag144.thy ===== *)
theory Tag144
  imports AxPrelude
begin

section \<open>144-bit block tags and canaries\<close>

text \<open>
  The composite tag shared by the kernel heap (\<^verbatim>\<open>src/src/kernel/heap.c\<close>), the RISC-V kernel heap
  and the user allocators: two 64-bit words and one 16-bit word, generated by three steps of a
  xorshift64 generator. The canary of a block is its tag XORed with a constant pattern and is
  stored as 18 packed bytes.
\<close>

record tag144 =
  tag_lo :: u64
  tag_mid :: u64
  tag_hi :: u16

definition tag144_zero :: tag144 where
  "tag144_zero = \<lparr>tag_lo = 0, tag_mid = 0, tag_hi = 0\<rparr>"

definition tag144_is_zero :: "tag144 \<Rightarrow> bool" where
  "tag144_is_zero t \<longleftrightarrow> tag_lo t = 0 \<and> tag_mid t = 0 \<and> tag_hi t = 0"

definition tag144_eq :: "tag144 \<Rightarrow> tag144 \<Rightarrow> bool" where
  "tag144_eq a b \<longleftrightarrow> tag_lo a = tag_lo b \<and> tag_mid a = tag_mid b \<and> tag_hi a = tag_hi b"

text \<open>
  One step of the generator: \<open>entropy\<close> is the timer counter of the kernel. The result is the
  returned value and the new generator state, which differ only when the state became zero.
\<close>

definition xorshift64_step :: "u64 \<Rightarrow> u64 \<Rightarrow> u64 \<times> u64" where
  "xorshift64_step entropy st =
     (let s0 = (if st = 0
                then (let s = entropy XOR 0x9E3779B97F4A7C15
                      in if s = 0 then 0x9E3779B97F4A7C15 else s)
                else st);
          s1 = s0 XOR entropy;
          s2 = s1 XOR push_bit 13 s1;
          s3 = s2 XOR drop_bit 7 s2;
          s4 = s3 XOR push_bit 17 s3
      in (if s4 = 0 then 1 else s4, s4))"

definition next_tag :: "u64 \<Rightarrow> u64 \<Rightarrow> tag144 \<times> u64" where
  "next_tag entropy st =
     (let (a, st1) = xorshift64_step entropy st;
          (b, st2) = xorshift64_step entropy st1;
          (c, st3) = xorshift64_step entropy st2;
          t = \<lparr>tag_lo = a, tag_mid = b, tag_hi = ucast (c AND 0xFFFF)\<rparr>
      in (if tag144_is_zero t then t\<lparr>tag_lo := 1\<rparr> else t, st3))"

definition tagged_canary144 :: "tag144 \<Rightarrow> tag144" where
  "tagged_canary144 tag =
     \<lparr>tag_lo = 0xACACACACACACACAC XOR tag_lo tag,
      tag_mid = 0xACACACACACACACAC XOR tag_mid tag,
      tag_hi = 0xACAC XOR tag_hi tag\<rparr>"

subsection \<open>The packed 18 bytes of a tag in memory\<close>

definition tag_bytes :: "tag144 \<Rightarrow> u8 list" where
  "tag_bytes t = le_bytes 8 (tag_lo t) @ le_bytes 8 (tag_mid t) @ le_bytes 2 (tag_hi t)"

definition tag_read :: "bmem \<Rightarrow> nat \<Rightarrow> tag144" where
  "tag_read m a =
     \<lparr>tag_lo = le_word (mem_read m a 8),
      tag_mid = le_word (mem_read m (a + 8) 8),
      tag_hi = le_word (mem_read m (a + 16) 2)\<rparr>"

lemma length_tag_bytes [simp]: "length (tag_bytes t) = 18"
  by (simp add: tag_bytes_def)

lemma tag144_eq_iff [simp]: "tag144_eq a b \<longleftrightarrow> a = b"
  by (cases a; cases b) (simp add: tag144_eq_def)

lemma mem_read_18:
  "mem_read m a 18 = mem_read m a 8 @ mem_read m (a + 8) 8 @ mem_read m (a + 16) 2"
  using mem_read_append [of m a 8 10] mem_read_append [of m "a + 8" 8 2]
  by (simp add: add.commute add.left_commute)

lemma tag_read_bytes: "mem_read m a 18 = tag_bytes t \<Longrightarrow> tag_read m a = t"
proof -
  assume "mem_read m a 18 = tag_bytes t"
  then have "mem_read m a 8 = le_bytes 8 (tag_lo t)"
    "mem_read m (a + 8) 8 = le_bytes 8 (tag_mid t)"
    "mem_read m (a + 16) 2 = le_bytes 2 (tag_hi t)"
    by (auto simp: mem_read_18 tag_bytes_def append_eq_append_conv)
  then show ?thesis by (simp add: tag_read_def le_word_le_bytes)
qed

lemma tag_read_write [mem_simps]: "tag_read (mem_write m a (tag_bytes t)) a = t"
  by (rule tag_read_bytes) (simp add: mem_simps)

text \<open>Conversely a read of a tag fixes all 18 bytes, so one changed byte changes the tag.\<close>

lemma le_bytes_le_word: "length bs = n \<Longrightarrow> 8 * n \<le> LENGTH('a::len) \<Longrightarrow>
    le_bytes n (le_word bs :: 'a word) = bs"
proof (induction n arbitrary: bs)
  case 0
  then show ?case by simp
next
  case (Suc n)
  then obtain b cs where bs: "bs = b # cs" "length cs = n" by (cases bs) auto
  let ?r = "le_word cs :: 'a word"
  have len: "8 \<le> LENGTH('a)" using Suc.prems(2) by simp
  have r: "take_bit (8 * n) ?r = ?r"
  proof -
    have "le_word (le_bytes n ?r) = take_bit (8 * n) ?r" by (rule le_word_le_bytes_take)
    then show ?thesis using Suc.IH [of cs] bs Suc.prems(2) by simp
  qed
  have 1: "(ucast (ucast b OR push_bit 8 ?r :: 'a word) :: u8) = b"
    using len by (auto intro!: bit_word_eqI simp: bit_simps)
  have "drop_bit 8 (ucast b OR push_bit 8 ?r :: 'a word) = ?r"
  proof (rule bit_word_eqI)
    fix k
    assume "k < LENGTH('a)"
    have "bit ?r k \<Longrightarrow> k < 8 * n" by (metis r bit_take_bit_iff)
    moreover have "\<not> bit b (8 + k)" by (simp add: bit_word.rep_eq)
    ultimately show "bit (drop_bit 8 (ucast b OR push_bit 8 ?r :: 'a word)) k = bit ?r k"
      using Suc.prems(2) by (auto simp: bit_simps)
  qed
  then show ?case using 1 bs Suc.IH [of cs] Suc.prems(2) by simp
qed

lemma tag_read_eq_iff: "tag_read m a = t \<longleftrightarrow> mem_read m a 18 = tag_bytes t"
proof
  assume "tag_read m a = t"
  then have "tag_bytes t = mem_read m a 8 @ mem_read m (a + 8) 8 @ mem_read m (a + 16) 2"
    by (auto simp: tag_bytes_def tag_read_def le_bytes_le_word)
  then show "mem_read m a 18 = tag_bytes t"
    by (simp add: mem_read_18)
qed (rule tag_read_bytes)

lemma tagged_canary144_inj: "tagged_canary144 s = tagged_canary144 t \<Longrightarrow> s = t"
proof -
  have x: "(k XOR a = k XOR b) = (a = b)" for k a b :: "'a::len word"
    by (metis xor.assoc xor_self_eq xor.left_neutral)
  assume "tagged_canary144 s = tagged_canary144 t"
  then show "s = t" by (cases s; cases t) (simp add: tagged_canary144_def x)
qed

lemma xorshift64_value_nonzero: "fst (xorshift64_step e st) \<noteq> 0"
  by (simp add: xorshift64_step_def Let_def)

text \<open>A generated tag is never the zero tag that marks free blocks.\<close>

lemma next_tag_nonzero: "fst (next_tag e st) \<noteq> tag144_zero"
  using xorshift64_value_nonzero [of e st]
  by (auto simp: next_tag_def tag144_is_zero_def tag144_zero_def Let_def split: prod.splits)

end
