(* ===== verification/KHeap.thy ===== *)
theory KHeap
  imports PtrLists Tag144
begin

section \<open>The x86-64 kernel heap\<close>

text \<open>
  \<^verbatim>\<open>src/src/kernel/heap.c\<close>: a first-fit list of blocks that tile the arena, with a left redzone, a
  tag-dependent canary after the payload and a ring of the last eight freed blocks. Headers are a
  total map from addresses to \<open>block_header\<close> (what a read of a header at that address sees);
  redzones, payloads and canaries are bytes. \<^verbatim>\<open>unsigned int\<close> arithmetic is on naturals with the
  wrap-around written out (\<open>wrap32\<close>, \<open>sub32\<close>). \<open>heap_corrupted\<close> never returns, so a failed
  check of \<open>kfree\<close> is the result \<open>Inl\<close>.
\<close>

record block_header =
  bsize :: nat
  bfree :: bool
  bnext :: nat
  bmagic :: u32
  btag :: tag144

record kheap =
  hdr :: "nat \<Rightarrow> block_header"
  bytes :: bmem
  heap_base :: nat
  heap_head :: nat
  quarantine :: "nat list"
  quarantine_count :: nat
  quarantine_pos :: nat
  tag_prng_state :: u64
  heap_ticks :: u32

definition HEAP_MAGIC_ALLOC :: u32 where "HEAP_MAGIC_ALLOC = 0x4C41434B"
definition HEAP_MAGIC_QUARANTINE :: u32 where "HEAP_MAGIC_QUARANTINE = 0x51524E54"
definition HEAP_MAGIC_FREE :: u32 where "HEAP_MAGIC_FREE = 0x46524545"

lemma magic_distinct [simp]:
  "HEAP_MAGIC_ALLOC \<noteq> HEAP_MAGIC_FREE" "HEAP_MAGIC_FREE \<noteq> HEAP_MAGIC_ALLOC"
  "HEAP_MAGIC_ALLOC \<noteq> HEAP_MAGIC_QUARANTINE" "HEAP_MAGIC_QUARANTINE \<noteq> HEAP_MAGIC_ALLOC"
  "HEAP_MAGIC_FREE \<noteq> HEAP_MAGIC_QUARANTINE" "HEAP_MAGIC_QUARANTINE \<noteq> HEAP_MAGIC_FREE"
  by (simp_all add: HEAP_MAGIC_ALLOC_def HEAP_MAGIC_QUARANTINE_def HEAP_MAGIC_FREE_def)

text \<open>\<^verbatim>\<open>HEADER_SIZE\<close> is 40 (4 + 4 + 8 + 4 + 18 bytes, padded to 8); \<^verbatim>\<open>RZONE_SIZE\<close> 8;
  \<^verbatim>\<open>CANARY_SIZE\<close> 18; \<^verbatim>\<open>KHEAP_SIZE\<close> 32 MB.\<close>

abbreviation HEADER_SIZE :: nat where "HEADER_SIZE \<equiv> 40"
abbreviation RZONE_SIZE :: nat where "RZONE_SIZE \<equiv> 8"
abbreviation CANARY_SIZE :: nat where "CANARY_SIZE \<equiv> 18"
abbreviation MIN_BLOCK_SIZE :: nat where "MIN_BLOCK_SIZE \<equiv> 16"
abbreviation QUARANTINE_CAPACITY :: nat where "QUARANTINE_CAPACITY \<equiv> 8"
abbreviation KHEAP_SIZE :: nat where "KHEAP_SIZE \<equiv> 33554432"

definition sub32 :: "nat \<Rightarrow> nat \<Rightarrow> nat" where
  "sub32 a b = wrap32 (a + 4294967296 - b)"

definition align8 :: "nat \<Rightarrow> nat" where
  "align8 x = 8 * (wrap32 (x + 7) div 8)"

definition reserved_size :: "nat \<Rightarrow> nat" where
  "reserved_size n = wrap32 (RZONE_SIZE + align8 n + CANARY_SIZE)"

lemma sub32_id [simp]: "b \<le> a \<Longrightarrow> a < 4294967296 \<Longrightarrow> sub32 a b = a - b"
proof -
  assume "b \<le> a" "a < 4294967296"
  then have "a + 4294967296 - b = (a - b) + 4294967296" by simp
  moreover have "a - b < 4294967296" using \<open>a < 4294967296\<close> by linarith
  ultimately show ?thesis unfolding sub32_def wrap32_def by (simp only: mod_add_self2 mod_less)
qed

definition init_heap :: "kheap \<Rightarrow> kheap" where
  "init_heap s =
     s\<lparr>heap_head := heap_base s,
       hdr := (hdr s)(heap_base s :=
         \<lparr>bsize = KHEAP_SIZE - HEADER_SIZE, bfree = True, bnext = 0,
          bmagic = HEAP_MAGIC_FREE, btag = tag144_zero\<rparr>),
       quarantine_count := 0, quarantine_pos := 0\<rparr>"

text \<open>The header views as a store for the list walks: every address can be read.\<close>

abbreviation hstore :: "kheap \<Rightarrow> nat \<Rightarrow> block_header option" where
  "hstore s \<equiv> (\<lambda>a. Some (hdr s a))"

text \<open>
  The body of the allocation loop for the block found: an optional split, then the header,
  redzone and canary of the allocated block. The result is the user pointer.
\<close>

definition split_block :: "nat \<Rightarrow> nat \<Rightarrow> kheap \<Rightarrow> kheap" where
  "split_block cur reserved s =
     (let b = hdr s cur; remaining = bsize b - reserved
      in if HEADER_SIZE + MIN_BLOCK_SIZE \<le> remaining
         then let nb = cur + HEADER_SIZE + reserved
              in s\<lparr>hdr := (hdr s)
                    (nb := \<lparr>bsize = remaining - HEADER_SIZE, bfree = True, bnext = bnext b,
                            bmagic = HEAP_MAGIC_FREE, btag = tag144_zero\<rparr>,
                     cur := b\<lparr>bsize := reserved, bnext := nb\<rparr>)\<rparr>
         else s)"

definition mark_alloc :: "nat \<Rightarrow> kheap \<Rightarrow> nat \<times> kheap" where
  "mark_alloc cur s =
     (let (tag, prng) = next_tag (ucast (heap_ticks s)) (tag_prng_state s);
          b = (hdr s cur)\<lparr>bfree := False, bmagic := HEAP_MAGIC_ALLOC, btag := tag\<rparr>;
          lzone = cur + HEADER_SIZE;
          result = lzone + RZONE_SIZE;
          m1 = mem_write (bytes s) lzone (replicate RZONE_SIZE 0xBE);
          m2 = mem_write m1 (result + sub32 (bsize b) (RZONE_SIZE + CANARY_SIZE))
                 (tag_bytes (tagged_canary144 tag))
      in (result, s\<lparr>hdr := (hdr s)(cur := b), tag_prng_state := prng, bytes := m2\<rparr>))"

definition kmalloc :: "nat \<Rightarrow> kheap \<Rightarrow> (nat \<times> kheap) option" where
  "kmalloc n s =
     (if n = 0 then Some (0, s)
      else let reserved = reserved_size n
           in case chain_find bnext (hstore s) (\<lambda>b. bfree b \<and> reserved \<le> bsize b) (heap_head s) of
                None \<Rightarrow> None
              | Some cur \<Rightarrow>
                  if cur = 0 then Some (0, s) else Some (mark_alloc cur (split_block cur reserved s)))"

subsection \<open>Freeing: checks, quarantine and coalescing\<close>

definition poison :: "nat \<Rightarrow> kheap \<Rightarrow> kheap" where
  "poison blk s =
     (let b = hdr s blk; user_size = sub32 (bsize b) (RZONE_SIZE + CANARY_SIZE)
      in s\<lparr>bytes := mem_write (bytes s) (blk + HEADER_SIZE + RZONE_SIZE) (replicate user_size 0xDD),
           hdr := (hdr s)(blk := b\<lparr>bfree := True, bmagic := HEAP_MAGIC_FREE, btag := tag144_zero\<rparr>)\<rparr>)"

definition merge_next :: "nat \<Rightarrow> kheap \<Rightarrow> kheap" where
  "merge_next blk s =
     (let b = hdr s blk; n = hdr s (bnext b)
      in if bnext b \<noteq> 0 \<and> bfree n
         then s\<lparr>hdr := (hdr s)(blk := b\<lparr>bsize := wrap32 (bsize b + HEADER_SIZE + bsize n),
                                        bnext := bnext n\<rparr>)\<rparr>
         else s)"

definition merge_prev :: "nat \<Rightarrow> kheap \<Rightarrow> kheap option" where
  "merge_prev blk s =
     (case chain_find bnext (hstore s) (\<lambda>b. bnext b = blk) (heap_head s) of
        None \<Rightarrow> None
      | Some cur \<Rightarrow>
          if cur \<noteq> 0 \<and> bfree (hdr s cur)
          then Some (s\<lparr>hdr := (hdr s)(cur := (hdr s cur)
                 \<lparr>bsize := wrap32 (bsize (hdr s cur) + HEADER_SIZE + bsize (hdr s blk)),
                  bnext := bnext (hdr s blk)\<rparr>)\<rparr>)
          else Some s)"

definition release_from_quarantine :: "nat \<Rightarrow> kheap \<Rightarrow> kheap option" where
  "release_from_quarantine blk s = merge_prev blk (merge_next blk (poison blk s))"

definition quarantine_push :: "nat \<Rightarrow> kheap \<Rightarrow> kheap option" where
  "quarantine_push blk s =
     (case (if quarantine_count s = QUARANTINE_CAPACITY
            then release_from_quarantine (quarantine s ! quarantine_pos s) s
            else Some (s\<lparr>quarantine_count := quarantine_count s + 1\<rparr>)) of
        None \<Rightarrow> None
      | Some s1 \<Rightarrow>
          Some (s1\<lparr>quarantine := (quarantine s1)[quarantine_pos s1 := blk],
                   quarantine_pos := (quarantine_pos s1 + 1) mod QUARANTINE_CAPACITY\<rparr>))"

datatype heap_error = DoubleFree | ForeignPointer | Underflow | Overflow

definition kfree :: "nat \<Rightarrow> kheap \<Rightarrow> (heap_error + kheap) option" where
  "kfree ptr s =
     (if ptr = 0 then Some (Inr s)
      else let blk = ptr - RZONE_SIZE - HEADER_SIZE; b = hdr s blk
           in if bmagic b = HEAP_MAGIC_FREE \<or> bmagic b = HEAP_MAGIC_QUARANTINE
              then Some (Inl DoubleFree)
              else if bmagic b \<noteq> HEAP_MAGIC_ALLOC then Some (Inl ForeignPointer)
              else if \<exists>i<RZONE_SIZE. bytes s (blk + HEADER_SIZE + i) \<noteq> 0xBE
              then Some (Inl Underflow)
              else let user_size = sub32 (bsize b) (RZONE_SIZE + CANARY_SIZE)
                   in if \<not> tag144_eq (tag_read (bytes s) (ptr + user_size)) (tagged_canary144 (btag b))
                      then Some (Inl Overflow)
                      else map_option Inr
                        (quarantine_push blk
                          (s\<lparr>hdr := (hdr s)(blk := b\<lparr>bmagic := HEAP_MAGIC_QUARANTINE\<rparr>)\<rparr>)))"


subsection \<open>The layout of the arena\<close>

text \<open>
  \<open>seg h a bs e z\<close>: the blocks \<open>bs\<close> lie back to back from \<open>a\<close> to \<open>e\<close>, each header links to
  the next one and the last links to \<open>z\<close>.
\<close>

primrec seg :: "(nat \<Rightarrow> block_header) \<Rightarrow> nat \<Rightarrow> nat list \<Rightarrow> nat \<Rightarrow> nat \<Rightarrow> bool" where
  "seg h a [] e z \<longleftrightarrow> a = e"
| "seg h a (b # bs) e z \<longleftrightarrow>
     b = a \<and> bnext (h b) = (case bs of [] \<Rightarrow> z | c # _ \<Rightarrow> c) \<and>
     seg h (b + HEADER_SIZE + bsize (h b)) bs e z"

lemma seg_append:
  "seg h a (xs @ ys) e z \<longleftrightarrow>
    (\<exists>m. seg h a xs m (case ys of [] \<Rightarrow> z | y # _ \<Rightarrow> y) \<and> seg h m ys e z)"
  by (induction xs arbitrary: a) (auto split: list.splits)

lemma seg_cong: "(\<And>x. x \<in> set bs \<Longrightarrow> h' x = h x) \<Longrightarrow> seg h' a bs e z = seg h a bs e z"
  by (induction bs arbitrary: a) auto

lemma seg_upd [simp]: "x \<notin> set bs \<Longrightarrow> seg (h(x := v)) a bs e z = seg h a bs e z"
  by (rule seg_cong) auto

lemma seg_le: "seg h a bs e z \<Longrightarrow> a \<le> e"
  by (induction bs arbitrary: a) (auto dest: add_leD1)

lemma seg_range:
  "seg h a bs e z \<Longrightarrow> x \<in> set bs \<Longrightarrow> a \<le> x \<and> x + HEADER_SIZE + bsize (h x) \<le> e"
proof (induction bs arbitrary: a)
  case Nil
  then show ?case by simp
next
  case (Cons b bs)
  then have s: "seg h (b + HEADER_SIZE + bsize (h b)) bs e z" "b = a" by auto
  show ?case
  proof (cases "x = b")
    case True
    with s show ?thesis using seg_le [OF s(1)] by simp
  next
    case False
    with Cons.prems Cons.IH [OF s(1)] s(2) show ?thesis by auto
  qed
qed

lemma seg_split:
  assumes "seg h a (xs @ b # ys) e z"
  shows "seg h a xs b b" "bnext (h b) = (case ys of [] \<Rightarrow> z | c # _ \<Rightarrow> c)"
    "seg h (b + HEADER_SIZE + bsize (h b)) ys e z"
  using assms by (auto simp: seg_append)

lemma seg_join:
  assumes "seg h a xs b b" "bnext (h b) = (case ys of [] \<Rightarrow> z | c # _ \<Rightarrow> c)"
    "seg h (b + HEADER_SIZE + bsize (h b)) ys e z"
  shows "seg h a (xs @ b # ys) e z"
  using assms by (auto simp: seg_append)

lemma seg_before: "seg h a (xs @ b # ys) e z \<Longrightarrow> x \<in> set xs \<Longrightarrow> x + HEADER_SIZE + bsize (h x) \<le> b"
  using seg_range seg_split(1) by blast

lemma seg_after: "seg h a (xs @ b # ys) e z \<Longrightarrow> y \<in> set ys \<Longrightarrow> b + HEADER_SIZE + bsize (h b) \<le> y"
  using seg_range seg_split(3) by blast

lemma seg_distinct: "seg h a bs e z \<Longrightarrow> distinct bs"
proof (induction bs arbitrary: a)
  case (Cons b bs)
  then have s: "seg h (b + HEADER_SIZE + bsize (h b)) bs e z" by auto
  then have "b \<notin> set bs" using seg_range [OF s, of b] by auto
  then show ?case using Cons.IH [OF s] by simp
qed simp

text \<open>Two different blocks of a layout do not overlap.\<close>

lemma seg_disjoint:
  assumes "seg h a bs e z" "x \<in> set bs" "y \<in> set bs" "x \<noteq> y"
  shows "x + HEADER_SIZE + bsize (h x) \<le> y \<or> y + HEADER_SIZE + bsize (h y) \<le> x"
proof -
  from assms(2) obtain xs ys where bs: "bs = xs @ x # ys" by (auto dest: split_list)
  with assms have "y \<in> set xs \<or> y \<in> set ys" by auto
  then show ?thesis
    using assms(1) bs seg_before [of h a xs x ys e z y] seg_after [of h a xs x ys e z y] by blast
qed

lemma seg_path: "seg h a bs e z \<Longrightarrow> bs \<noteq> [] \<Longrightarrow> 0 < a \<Longrightarrow> path bnext (\<lambda>x. Some (h x)) a bs z"
proof (induction bs arbitrary: a)
  case (Cons b bs)
  then have s: "seg h (b + HEADER_SIZE + bsize (h b)) bs e z"
    and n: "bnext (h b) = (case bs of [] \<Rightarrow> z | c # _ \<Rightarrow> c)" "b = a" by auto
  show ?case
  proof (cases bs)
    case Nil
    with n Cons.prems show ?thesis by simp
  next
    case (Cons c cs)
    have "path bnext (\<lambda>x. Some (h x)) (b + HEADER_SIZE + bsize (h b)) bs z"
      using Cons.IH [OF s] Cons by simp
    with n Cons s Cons.prems show ?thesis by simp
  qed
qed simp

text \<open>The walk of \<open>merge_prev\<close> finds the block before \<open>b\<close>, if there is one.\<close>

lemma seg_next_gt: "seg h a bs e 0 \<Longrightarrow> x \<in> set bs \<Longrightarrow> bnext (h x) = 0 \<or> x < bnext (h x)"
proof -
  assume s: "seg h a bs e 0" and "x \<in> set bs"
  then obtain xs ys where bs: "bs = xs @ x # ys" by (auto dest: split_list)
  show ?thesis
    using seg_split(2) [OF s [unfolded bs]] seg_after [OF s [unfolded bs], of "bnext (h x)"]
    by (cases ys) auto
qed

lemma seg_find_prev:
  assumes "seg h a (xs @ b # ys) e 0" "0 < a"
  shows "find (\<lambda>x. bnext (h x) = b) (xs @ b # ys) = (if xs = [] then None else Some (last xs))"
  using assms
proof (induction xs arbitrary: a)
  case Nil
  then have s: "seg h a ([] @ b # ys) e 0" "a = b" by auto
  have "bnext (h x) \<noteq> b" if "x \<in> set (b # ys)" for x
    using seg_next_gt [of h a "b # ys" e x] that s seg_after [OF s(1), of x] Nil.prems(2) by auto
  then show ?case by (auto simp: find_None_iff)
next
  case (Cons x xs)
  then have s: "seg h (x + HEADER_SIZE + bsize (h x)) (xs @ b # ys) e 0"
    and n: "bnext (h x) = (case xs @ b # ys of [] \<Rightarrow> 0 | c # _ \<Rightarrow> c)" by auto
  show ?case
  proof (cases xs)
    case Nil
    with n show ?thesis by simp
  next
    case (Cons c cs)
    have "c + HEADER_SIZE + bsize (h c) \<le> b"
      using seg_before [OF s, of c] Cons by simp
    then have "bnext (h x) \<noteq> b" using n Cons by simp
    then show ?thesis using Cons.IH [OF s] Cons by simp
  qed
qed

end
