(* ===== verification/AllocSpec.thy ===== *)
theory AllocSpec
  imports AxPrelude
begin

section \<open>The allocator interface\<close>

text \<open>
  What the scheduler and the system calls rely on when they call \<open>malloc\<close> and \<open>free\<close>: an
  allocation up to \<open>maxreq\<close> bytes always returns, a null result changes nothing, a non-null one
  is a fresh live pointer, and freeing a live pointer succeeds and removes exactly that pointer.
  The kernel heap interprets the locale with its own \<open>kmalloc\<close> and \<open>kfree\<close>.
\<close>

locale allocator =
  fixes alloc :: "nat \<Rightarrow> 'h \<Rightarrow> (nat \<times> 'h) option"
    and dealloc :: "nat \<Rightarrow> 'h \<Rightarrow> ('e + 'h) option"
    and inv :: "'h \<Rightarrow> bool"
    and live :: "'h \<Rightarrow> nat set"
    and maxreq :: nat
  assumes alloc_returns: "inv h \<Longrightarrow> n \<le> maxreq \<Longrightarrow> \<exists>p h'. alloc n h = Some (p, h')"
    and alloc_null: "inv h \<Longrightarrow> n \<le> maxreq \<Longrightarrow> alloc n h = Some (0, h') \<Longrightarrow> h' = h"
    and alloc_inv: "inv h \<Longrightarrow> n \<le> maxreq \<Longrightarrow> alloc n h = Some (p, h') \<Longrightarrow> inv h'"
    and alloc_fresh: "inv h \<Longrightarrow> n \<le> maxreq \<Longrightarrow> alloc n h = Some (p, h') \<Longrightarrow> p \<noteq> 0 \<Longrightarrow>
      p \<notin> live h \<and> live h' = insert p (live h)"
    and dealloc_live: "inv h \<Longrightarrow> p \<in> live h \<Longrightarrow>
      \<exists>h'. dealloc p h = Some (Inr h') \<and> inv h' \<and> live h' = live h - {p}"
begin

lemma live_mono: "inv h \<Longrightarrow> n \<le> maxreq \<Longrightarrow> alloc n h = Some (p, h') \<Longrightarrow> live h \<subseteq> live h'"
  using alloc_fresh [of h n p h'] alloc_null [of h n h'] by (cases "p = 0") auto

lemma alloc_free_roundtrip:
  assumes "inv h" "n \<le> maxreq" "alloc n h = Some (p, h')" "p \<noteq> 0"
  shows "\<exists>h''. dealloc p h' = Some (Inr h'') \<and> inv h'' \<and> live h'' = live h"
proof -
  have "inv h'" "p \<notin> live h" "live h' = insert p (live h)"
    using assms alloc_inv alloc_fresh by blast+
  with dealloc_live [of h' p] show ?thesis by auto
qed

lemma alloc_twice_distinct:
  assumes "inv h" "n \<le> maxreq" "m \<le> maxreq" "alloc n h = Some (p, h1)" "alloc m h1 = Some (q, h2)"
    "p \<noteq> 0" "q \<noteq> 0"
  shows "p \<noteq> q \<and> inv h2 \<and> live h2 = {p, q} \<union> live h"
proof -
  have "inv h1" using assms alloc_inv by blast
  moreover have "live h1 = insert p (live h)" using assms alloc_fresh by blast
  moreover have "q \<notin> live h1 \<and> live h2 = insert q (live h1)"
    using alloc_fresh [OF \<open>inv h1\<close>] assms by blast
  ultimately show ?thesis using alloc_inv [OF \<open>inv h1\<close>] assms by auto
qed

end

end
