(* ===== verification/KHeapInv.thy ===== *)
theory KHeapInv
  imports KHeap AllocSpec
begin

section \<open>The kernel heap: invariant, allocation and freeing\<close>

text \<open>
  The heap invariant of \<^verbatim>\<open>src/src/kernel/heap.c\<close>: the blocks tile the arena, every header is either
  free or allocated or quarantined with a payload large enough for redzone and canary, no two
  neighbouring blocks are both free, and the quarantine ring holds exactly the quarantined blocks.
\<close>

definition block_ok :: "block_header \<Rightarrow> bool" where
  "block_ok b \<longleftrightarrow>
     (if bfree b then bmagic b = HEAP_MAGIC_FREE
      else (bmagic b = HEAP_MAGIC_ALLOC \<or> bmagic b = HEAP_MAGIC_QUARANTINE) \<and>
           RZONE_SIZE + CANARY_SIZE \<le> bsize b)"

definition no_adj :: "bool list \<Rightarrow> bool" where
  "no_adj = successively (\<lambda>x y. \<not> (x \<and> y))"

abbreviation frees :: "(nat \<Rightarrow> block_header) \<Rightarrow> nat list \<Rightarrow> bool list" where
  "frees h bs \<equiv> map (\<lambda>b. bfree (h b)) bs"

text \<open>The layout part of the invariant, with the set \<open>Q\<close> of quarantined blocks.\<close>

definition heap_lay :: "kheap \<Rightarrow> nat list \<Rightarrow> bool" where
  "heap_lay s bs \<longleftrightarrow>
     seg (hdr s) (heap_base s) bs (heap_base s + KHEAP_SIZE) 0 \<and> bs \<noteq> [] \<and>
     0 < heap_base s \<and> heap_head s = heap_base s \<and> (\<forall>b\<in>set bs. block_ok (hdr s b))"

definition heap_core :: "kheap \<Rightarrow> nat list \<Rightarrow> nat set \<Rightarrow> bool" where
  "heap_core s bs Q \<longleftrightarrow>
     heap_lay s bs \<and> no_adj (frees (hdr s) bs) \<and>
     Q = {b \<in> set bs. bmagic (hdr s b) = HEAP_MAGIC_QUARANTINE}"

definition quar_ring :: "kheap \<Rightarrow> nat set \<Rightarrow> bool" where
  "quar_ring s Q \<longleftrightarrow>
     length (quarantine s) = QUARANTINE_CAPACITY \<and> quarantine_count s \<le> QUARANTINE_CAPACITY \<and>
     quarantine_pos s < QUARANTINE_CAPACITY \<and>
     (quarantine_count s < QUARANTINE_CAPACITY \<longrightarrow> quarantine_pos s = quarantine_count s) \<and>
     distinct (take (quarantine_count s) (quarantine s)) \<and>
     Q = set (take (quarantine_count s) (quarantine s))"

definition heap_inv :: "kheap \<Rightarrow> nat list \<Rightarrow> bool" where
  "heap_inv s bs \<longleftrightarrow> (\<exists>Q. heap_core s bs Q \<and> quar_ring s Q)"

text \<open>Blocks handed out by \<open>kmalloc\<close> and not freed since, and the bytes of a block its owner
  may use.\<close>

definition live :: "kheap \<Rightarrow> nat list \<Rightarrow> nat set" where
  "live s bs = {b \<in> set bs. bmagic (hdr s b) = HEAP_MAGIC_ALLOC}"

definition user_bytes :: "kheap \<Rightarrow> nat \<Rightarrow> nat set" where
  "user_bytes s b = {b + HEADER_SIZE + RZONE_SIZE ..< b + HEADER_SIZE + bsize (hdr s b) - CANARY_SIZE}"

lemma no_adj_simps [simp]:
  "no_adj []" "no_adj [x]" "no_adj (x # y # zs) \<longleftrightarrow> \<not> (x \<and> y) \<and> no_adj (y # zs)"
  by (simp_all add: no_adj_def)

lemma no_adj_append:
  "no_adj (xs @ ys) \<longleftrightarrow> no_adj xs \<and> no_adj ys \<and> (xs = [] \<or> ys = [] \<or> \<not> (last xs \<and> hd ys))"
  by (auto simp: no_adj_def successively_append_iff)

lemma no_adj_Cons: "no_adj (x # ys) \<longleftrightarrow> no_adj ys \<and> (ys = [] \<or> \<not> (x \<and> hd ys))"
  by (cases ys) auto

lemma heap_core_lay: "heap_core s bs Q \<Longrightarrow> heap_lay s bs"
  by (simp add: heap_core_def)

lemma heap_lay_block:
  assumes "heap_lay s bs" "b \<in> set bs"
  shows "0 < b" "heap_base s \<le> b" "b + HEADER_SIZE + bsize (hdr s b) \<le> heap_base s + KHEAP_SIZE"
    "bsize (hdr s b) < 4294967296" "block_ok (hdr s b)"
proof -
  from assms have r: "heap_base s \<le> b \<and> b + HEADER_SIZE + bsize (hdr s b) \<le> heap_base s + KHEAP_SIZE"
    unfolding heap_lay_def by (blast dest: seg_range)
  with assms show "0 < b" "heap_base s \<le> b"
    "b + HEADER_SIZE + bsize (hdr s b) \<le> heap_base s + KHEAP_SIZE"
    "bsize (hdr s b) < 4294967296" "block_ok (hdr s b)"
    unfolding heap_lay_def by auto
qed

lemma heap_lay_find:
  assumes "heap_lay s bs"
  shows "chain_find bnext (hstore s) P (heap_head s) =
    Some (case find (\<lambda>x. P (hdr s x)) bs of None \<Rightarrow> 0 | Some x \<Rightarrow> x)"
proof -
  have "path bnext (hstore s) (heap_head s) bs 0"
    using assms unfolding heap_lay_def by (metis seg_path)
  from chain_find_path [OF this, of P] show ?thesis by simp
qed

lemma heap_lay_disjoint:
  "heap_lay s bs \<Longrightarrow> x \<in> set bs \<Longrightarrow> y \<in> set bs \<Longrightarrow> x \<noteq> y \<Longrightarrow>
    x + HEADER_SIZE + bsize (hdr s x) \<le> y \<or> y + HEADER_SIZE + bsize (hdr s y) \<le> x"
  unfolding heap_lay_def by (blast dest: seg_disjoint)

text \<open>A block whose header and bytes an operation leaves alone.\<close>

definition same_block :: "kheap \<Rightarrow> kheap \<Rightarrow> nat \<Rightarrow> bool" where
  "same_block s t c \<longleftrightarrow> hdr t c = hdr s c \<and>
     (\<forall>x. c \<le> x \<and> x < c + HEADER_SIZE + bsize (hdr s c) \<longrightarrow> bytes t x = bytes s x)"

text \<open>The redzone and canary of an allocated block as \<open>kfree\<close> checks them.\<close>

definition guards_ok :: "kheap \<Rightarrow> nat \<Rightarrow> bool" where
  "guards_ok s b \<longleftrightarrow>
     (\<forall>i<RZONE_SIZE. bytes s (b + HEADER_SIZE + i) = 0xBE) \<and>
     tag_read (bytes s) (b + HEADER_SIZE + bsize (hdr s b) - CANARY_SIZE) =
       tagged_canary144 (btag (hdr s b))"

subsection \<open>Initialisation\<close>

lemma init_heap_inv:
  assumes "0 < heap_base s" "length (quarantine s) = QUARANTINE_CAPACITY"
  shows "heap_inv (init_heap s) [heap_base s]"
  unfolding heap_inv_def
proof (intro exI conjI)
  show "heap_core (init_heap s) [heap_base s] {}"
    using assms by (auto simp: heap_core_def heap_lay_def init_heap_def block_ok_def)
  show "quar_ring (init_heap s) {}"
    using assms by (auto simp: quar_ring_def init_heap_def)
qed

subsection \<open>Allocation\<close>

text \<open>Splitting a free block keeps the layout; the block itself is now exactly \<open>reserved\<close>
  bytes or was not split.\<close>

lemma split_block_core:
  assumes c: "heap_core s bs Q" and cur: "cur \<in> set bs" "bfree (hdr s cur)"
    and res: "r \<le> bsize (hdr s cur)"
  shows "\<exists>bs' t. split_block cur r s = t \<and> heap_lay t bs' \<and> cur \<in> set bs' \<and> set bs \<subseteq> set bs' \<and>
    Q = {b \<in> set bs'. bmagic (hdr t b) = HEAP_MAGIC_QUARANTINE} \<and>
    no_adj (frees ((hdr t)(cur := (hdr t cur)\<lparr>bfree := False\<rparr>)) bs') \<and>
    r \<le> bsize (hdr t cur) \<and> bfree (hdr t cur) \<and>
    (\<forall>b \<in> set bs - {cur}. hdr t b = hdr s b) \<and> live t bs' = live s bs \<and>
    (t = s\<lparr>hdr := hdr t\<rparr>)"
proof -
  from cur obtain xs ys where bs: "bs = xs @ cur # ys" by (auto dest: split_list)
  from c have lay: "heap_lay s bs" and na: "no_adj (frees (hdr s) bs)"
    and Q: "Q = {b \<in> set bs. bmagic (hdr s b) = HEAP_MAGIC_QUARANTINE}"
    by (auto simp: heap_core_def)
  note blk = heap_lay_block [OF lay cur(1)]
  have sg: "seg (hdr s) (heap_base s) (xs @ cur # ys) (heap_base s + KHEAP_SIZE) 0"
    using lay bs by (simp add: heap_lay_def)
  have d: "cur \<notin> set xs" "cur \<notin> set ys" using seg_distinct [OF sg] by auto
  show ?thesis
  proof (cases "HEADER_SIZE + MIN_BLOCK_SIZE \<le> bsize (hdr s cur) - r")
    case False
    have fr: "frees ((hdr s)(cur := (hdr s cur)\<lparr>bfree := False\<rparr>)) bs =
        frees (hdr s) xs @ False # frees (hdr s) ys"
      using d unfolding bs by auto
    have "no_adj (frees ((hdr s)(cur := (hdr s cur)\<lparr>bfree := False\<rparr>)) bs)"
      unfolding fr using na unfolding bs by (auto simp: no_adj_append no_adj_Cons)
    then show ?thesis
      using False lay Q cur res by (intro exI [of _ bs] exI [of _ s]) (auto simp: split_block_def)
  next
    case True
    define nb where "nb = cur + HEADER_SIZE + r"
    define rest where "rest = \<lparr>bsize = bsize (hdr s cur) - r - HEADER_SIZE, bfree = True,
      bnext = bnext (hdr s cur), bmagic = HEAP_MAGIC_FREE, btag = tag144_zero\<rparr>"
    define h where "h = (hdr s)(nb := rest, cur := (hdr s cur)\<lparr>bsize := r, bnext := nb\<rparr>)"
    define t where "t = s\<lparr>hdr := h\<rparr>"
    let ?bs = "xs @ cur # nb # ys"
    have t: "split_block cur r s = t"
      using True by (simp add: split_block_def Let_def t_def h_def nb_def rest_def)
    have n: "nb \<noteq> cur" "nb \<notin> set xs" "nb \<notin> set ys"
      using seg_before [OF sg, of nb] seg_after [OF sg, of nb] True by (auto simp: nb_def)
    have hcur: "h cur = (hdr s cur)\<lparr>bsize := r, bnext := nb\<rparr>" "h nb = rest" using n by (auto simp: h_def)
    have hx: "h x = hdr s x" if "x \<in> set xs \<union> set ys" for x using that n d by (auto simp: h_def)
    have seg': "seg h (heap_base s) ?bs (heap_base s + KHEAP_SIZE) 0"
    proof (rule seg_join)
      show "seg h (heap_base s) xs cur cur"
        using seg_split(1) [OF sg] hx by (subst seg_cong [of xs h "hdr s"]) auto
      show "bnext (h cur) = (case nb # ys of [] \<Rightarrow> 0 | c # _ \<Rightarrow> c)" by (simp add: hcur)
      have e0: "cur + HEADER_SIZE + bsize (h cur) = nb" by (simp add: hcur nb_def)
      have e1: "nb + HEADER_SIZE + bsize (h nb) = cur + HEADER_SIZE + bsize (hdr s cur)"
        unfolding hcur rest_def using True by (simp add: nb_def)
      have e2: "bnext (h nb) = bnext (hdr s cur)" by (simp add: hcur rest_def)
      have e3: "seg h (cur + HEADER_SIZE + bsize (hdr s cur)) ys (heap_base s + KHEAP_SIZE) 0"
        using seg_split(3) [OF sg] hx by (subst seg_cong [of ys h "hdr s"]) auto
      show "seg h (cur + HEADER_SIZE + bsize (h cur)) (nb # ys) (heap_base s + KHEAP_SIZE) 0"
        unfolding e0 seg.simps(2) e1 e2 using seg_split(2) [OF sg] e3 by blast
    qed
    have ok: "block_ok (h b)" if "b \<in> set ?bs" for b
    proof -
      consider "b = cur" | "b = nb" | "b \<in> set xs \<union> set ys" using \<open>b \<in> set ?bs\<close> by auto
      then show ?thesis
      proof cases
        case 1
        with blk(5) cur hcur show ?thesis by (simp add: block_ok_def)
      next
        case 2
        with hcur show ?thesis by (simp add: block_ok_def rest_def)
      next
        case 3
        with hx heap_lay_block(5) [OF lay, of b] bs show ?thesis by auto
      qed
    qed
    have lay': "heap_lay t ?bs"
      using seg' ok lay by (auto simp: heap_lay_def t_def)
    have fr: "frees (h(cur := (h cur)\<lparr>bfree := False\<rparr>)) ?bs =
        frees (hdr s) xs @ False # True # frees (hdr s) ys"
      using d n hx by (auto simp: hcur rest_def h_def)
    have na': "no_adj (frees (h(cur := (h cur)\<lparr>bfree := False\<rparr>)) ?bs)"
      unfolding fr using na cur unfolding bs by (auto simp: no_adj_append no_adj_Cons)
    have fm: "bmagic (hdr s cur) = HEAP_MAGIC_FREE" using blk(5) cur by (simp add: block_ok_def)
    have "Q = {b \<in> set ?bs. bmagic (h b) = HEAP_MAGIC_QUARANTINE}"
      using Q fm hx hcur unfolding bs by (auto simp: rest_def)
    moreover have "live t ?bs = live s bs"
      using fm hx hcur unfolding bs by (auto simp: live_def t_def rest_def)
    ultimately show ?thesis
      using t lay' na' hcur cur hx unfolding bs
      by (intro exI [of _ ?bs] exI [of _ t]) (auto simp: t_def)
  qed
qed


text \<open>What a successful allocation gives its caller.\<close>

definition alloc_ok :: "nat \<Rightarrow> kheap \<Rightarrow> nat list \<Rightarrow> nat \<Rightarrow> kheap \<Rightarrow> nat list \<Rightarrow> bool" where
  "alloc_ok n s bs p t bs' \<longleftrightarrow>
     (\<exists>b. p = b + HEADER_SIZE + RZONE_SIZE \<and> b \<in> set bs' \<and> b \<notin> live s bs \<and>
          live t bs' = insert b (live s bs) \<and> {p ..< p + n} \<subseteq> user_bytes t b \<and>
          guards_ok t b \<and> (\<forall>c \<in> live s bs. same_block s t c))"

lemma align8_ge: "n \<le> 4294967264 \<Longrightarrow> n \<le> align8 n \<and> align8 n \<le> n + 7"
  by (simp add: align8_def)

lemma reserved_size_eq: "n \<le> 4294967264 \<Longrightarrow> reserved_size n = RZONE_SIZE + align8 n + CANARY_SIZE"
proof -
  assume n: "n \<le> 4294967264"
  then have "n + 7 < 4294967296" by simp
  then have "align8 n = 8 * ((n + 7) div 8)" by (simp only: align8_def wrap32_id)
  also have "\<dots> \<le> 4294967264" using n by simp
  finally show ?thesis by (simp add: reserved_size_def)
qed

text \<open>\<open>kmalloc\<close> returns: the walk over the block list always ends.\<close>

lemma mark_alloc_simps:
  assumes "mark_alloc cur t = (p, u)"
  shows "p = cur + HEADER_SIZE + RZONE_SIZE"
    "hdr u = (hdr t)(cur := (hdr u cur))"
    "bsize (hdr u cur) = bsize (hdr t cur)" "bnext (hdr u cur) = bnext (hdr t cur)"
    "\<not> bfree (hdr u cur)" "bmagic (hdr u cur) = HEAP_MAGIC_ALLOC"
    "btag (hdr u cur) = fst (next_tag (ucast (heap_ticks t)) (tag_prng_state t))"
    "heap_base u = heap_base t" "heap_head u = heap_head t" "quarantine u = quarantine t"
    "quarantine_count u = quarantine_count t" "quarantine_pos u = quarantine_pos t"
    "bytes u = mem_write (mem_write (bytes t) (cur + HEADER_SIZE) (replicate RZONE_SIZE 0xBE))
       (cur + HEADER_SIZE + RZONE_SIZE + sub32 (bsize (hdr t cur)) (RZONE_SIZE + CANARY_SIZE))
       (tag_bytes (tagged_canary144 (btag (hdr u cur))))"
  using assms by (auto simp: mark_alloc_def Let_def split: prod.splits)

lemma kmalloc_0 [simp]: "kmalloc 0 s = Some (0, s)"
  by (simp add: kmalloc_def)

lemma kmalloc_cases:
  assumes inv: "heap_lay s bs" and n: "n \<noteq> 0"
  obtains "kmalloc n s = Some (0, s)" "\<forall>b\<in>set bs. bfree (hdr s b) \<longrightarrow> bsize (hdr s b) < reserved_size n"
  | cur where "cur \<in> set bs" "bfree (hdr s cur)" "reserved_size n \<le> bsize (hdr s cur)"
      "kmalloc n s = Some (mark_alloc cur (split_block cur (reserved_size n) s))"
proof -
  let ?P = "\<lambda>b. bfree b \<and> reserved_size n \<le> bsize b"
  note f = heap_lay_find [OF inv, of ?P]
  show ?thesis
  proof (cases "find (\<lambda>x. ?P (hdr s x)) bs")
    case None
    then have "kmalloc n s = Some (0, s)" using f n by (simp add: kmalloc_def Let_def)
    moreover have "\<forall>b\<in>set bs. bfree (hdr s b) \<longrightarrow> bsize (hdr s b) < reserved_size n"
      using None by (auto simp: find_None_iff)
    ultimately show ?thesis by (rule that(1))
  next
    case (Some cur)
    then have "cur \<in> set bs" "?P (hdr s cur)" by (auto simp: find_Some_iff)
    moreover have "cur \<noteq> 0" using heap_lay_block(1) [OF inv] \<open>cur \<in> set bs\<close> by auto
    ultimately show ?thesis using that(2) [of cur] Some f n by (simp add: kmalloc_def Let_def)
  qed
qed

lemma kmalloc_core:
  assumes inv: "heap_core s bs Q" and cur: "cur \<in> set bs" "bfree (hdr s cur)"
    and r: "r \<le> bsize (hdr s cur)" "RZONE_SIZE + CANARY_SIZE \<le> r"
    and m: "mark_alloc cur (split_block cur r s) = (p, u)"
  shows "\<exists>bs'. heap_core u bs' Q \<and> p = cur + HEADER_SIZE + RZONE_SIZE \<and> cur \<in> set bs' \<and>
    set bs \<subseteq> set bs' \<and> live u bs' = insert cur (live s bs) \<and> cur \<notin> live s bs \<and> r \<le> bsize (hdr u cur) \<and>
    (\<forall>c \<in> set bs - {cur}. same_block s u c) \<and> guards_ok u cur \<and>
    quarantine u = quarantine s \<and> quarantine_count u = quarantine_count s \<and>
    quarantine_pos u = quarantine_pos s \<and> heap_base u = heap_base s"
proof -
  obtain bs' t where t: "split_block cur r s = t" and lay: "heap_lay t bs'" and
    cur': "cur \<in> set bs'" "set bs \<subseteq> set bs'" "r \<le> bsize (hdr t cur)" "bfree (hdr t cur)" and
    Q: "Q = {b \<in> set bs'. bmagic (hdr t b) = HEAP_MAGIC_QUARANTINE}" and
    na: "no_adj (frees ((hdr t)(cur := (hdr t cur)\<lparr>bfree := False\<rparr>)) bs')" and
    fr: "\<forall>b \<in> set bs - {cur}. hdr t b = hdr s b" "live t bs' = live s bs" "t = s\<lparr>hdr := hdr t\<rparr>"
    using split_block_core [OF inv cur r(1)] by blast
  have st: "heap_base t = heap_base s" "heap_head t = heap_head s" "quarantine t = quarantine s"
    "quarantine_count t = quarantine_count s" "quarantine_pos t = quarantine_pos s"
    by (subst fr(3), simp)+
  note u = mark_alloc_simps [OF m [unfolded t]]
  from cur'(1) obtain xs ys where bs': "bs' = xs @ cur # ys" by (auto dest: split_list)
  have sg: "seg (hdr t) (heap_base t) (xs @ cur # ys) (heap_base t + KHEAP_SIZE) 0"
    using lay bs' by (simp add: heap_lay_def)
  have d: "cur \<notin> set xs" "cur \<notin> set ys" using seg_distinct [OF sg] by auto
  have ux: "hdr u x = hdr t x" if "x \<noteq> cur" for x using that by (subst u(2)) simp
  have "seg (hdr u) (heap_base u) bs' (heap_base u + KHEAP_SIZE) 0"
    unfolding bs' u(8)
  proof (rule seg_join)
    have e: "seg (hdr u) a zs e z = seg (hdr t) a zs e z" if "cur \<notin> set zs" for a zs e z
      using that ux by (intro seg_cong) metis
    show "seg (hdr u) (heap_base t) xs cur cur" using seg_split(1) [OF sg] e d by simp
    show "bnext (hdr u cur) = (case ys of [] \<Rightarrow> 0 | c # _ \<Rightarrow> c)" using seg_split(2) [OF sg] u(4) by simp
    show "seg (hdr u) (cur + HEADER_SIZE + bsize (hdr u cur)) ys (heap_base t + KHEAP_SIZE) 0"
      using seg_split(3) [OF sg] e d u(3) by simp
  qed
  moreover have "block_ok (hdr u b)" if "b \<in> set bs'" for b
  proof (cases "b = cur")
    case True
    with u(3,5,6) cur'(3) r(2) show ?thesis by (simp add: block_ok_def)
  next
    case False
    with heap_lay_block(5) [OF lay that] ux show ?thesis by simp
  qed
  ultimately have lay': "heap_lay u bs'" using lay u(8,9) by (simp add: heap_lay_def)
  have fr': "frees (hdr u) bs' = frees ((hdr t)(cur := (hdr t cur)\<lparr>bfree := False\<rparr>)) bs'"
    using ux u(5) by auto
  have na': "no_adj (frees (hdr u) bs')" unfolding fr' by (rule na)
  have fm: "bmagic (hdr t cur) = HEAP_MAGIC_FREE"
    using heap_lay_block(5) [OF lay cur'(1)] cur'(4) by (simp add: block_ok_def)
  have "Q = {b \<in> set bs'. bmagic (hdr u b) = HEAP_MAGIC_QUARANTINE}"
    unfolding Q using fm u(6) ux by (auto, metis magic_distinct(6), metis magic_distinct(3))
  then have core: "heap_core u bs' Q" using lay' na' by (simp add: heap_core_def)
  have "live u bs' = insert cur (live t bs')"
    by (rule set_eqI, rename_tac x, case_tac "x = cur")
      (auto simp: live_def ux u(6) cur'(1))
  then have lv: "live u bs' = insert cur (live s bs)" by (simp add: fr(2))
  have "cur \<notin> live t bs'" using fm by (simp add: live_def)
  then have "cur \<notin> live s bs" by (simp add: fr(2))
  moreover have sz: "26 \<le> bsize (hdr t cur)" "bsize (hdr t cur) < 4294967296"
    using cur'(3) r(2) heap_lay_block(4) [OF lay cur'(1)] by auto
  have bt: "bytes t = bytes s" by (subst fr(3)) simp
  have "guards_ok u cur"
    unfolding guards_ok_def
  proof
    have "cur + HEADER_SIZE + bsize (hdr u cur) - CANARY_SIZE =
        cur + HEADER_SIZE + RZONE_SIZE + sub32 (bsize (hdr t cur)) (RZONE_SIZE + CANARY_SIZE)"
      using sz u(3) by simp
    then show "tag_read (bytes u) (cur + HEADER_SIZE + bsize (hdr u cur) - CANARY_SIZE) =
        tagged_canary144 (btag (hdr u cur))"
      by (simp only: u(13) tag_read_write)
    show "\<forall>i<RZONE_SIZE. bytes u (cur + HEADER_SIZE + i) = 0xBE"
      using sz by (simp add: u(13) mem_write_def)
  qed
  moreover have "same_block s u c" if "c \<in> set bs - {cur}" for c
  proof -
    from that have c: "c \<in> set bs'" "c \<noteq> cur" "hdr t c = hdr s c" using cur'(2) fr(1) by auto
    have "bytes u x = bytes s x" if "c \<le> x" "x < c + HEADER_SIZE + bsize (hdr s c)" for x
      using heap_lay_disjoint [OF lay c(1) cur'(1) c(2)] that sz c(3)
      by (auto simp: u(13) bt mem_write_def)
    then show ?thesis using c ux by (auto simp: same_block_def)
  qed
  ultimately show ?thesis using core lv u(1,3,8,10-12) cur' st by (intro exI [of _ bs']) auto
qed


lemma kmalloc_ok:
  assumes inv: "heap_inv s bs" and n: "0 < n" "n \<le> 4294967264"
  shows "(kmalloc n s = Some (0, s) \<and> (\<forall>b\<in>set bs. bfree (hdr s b) \<longrightarrow> bsize (hdr s b) < reserved_size n)) \<or>
    (\<exists>p t bs'. kmalloc n s = Some (p, t) \<and> heap_inv t bs' \<and> alloc_ok n s bs p t bs')"
proof -
  from inv obtain Q where core: "heap_core s bs Q" and ring: "quar_ring s Q"
    by (auto simp: heap_inv_def)
  have r: "reserved_size n = RZONE_SIZE + align8 n + CANARY_SIZE" "n \<le> align8 n"
    using n reserved_size_eq align8_ge by auto
  show ?thesis
  proof (rule kmalloc_cases [OF heap_core_lay [OF core], of n])
    show "n \<noteq> 0" using n by simp
  next
    assume "kmalloc n s = Some (0, s)"
      "\<forall>b\<in>set bs. bfree (hdr s b) \<longrightarrow> bsize (hdr s b) < reserved_size n"
    then show ?thesis by blast
  next
    fix cur
    assume cur: "cur \<in> set bs" "bfree (hdr s cur)" "reserved_size n \<le> bsize (hdr s cur)"
      and k: "kmalloc n s = Some (mark_alloc cur (split_block cur (reserved_size n) s))"
    obtain p u where pu: "mark_alloc cur (split_block cur (reserved_size n) s) = (p, u)" by force
    have "RZONE_SIZE + CANARY_SIZE \<le> reserved_size n" using r by simp
    from kmalloc_core [OF core cur this pu] obtain bs' where c: "heap_core u bs' Q"
      "p = cur + HEADER_SIZE + RZONE_SIZE" "cur \<in> set bs'" "live u bs' = insert cur (live s bs)"
      "cur \<notin> live s bs" "reserved_size n \<le> bsize (hdr u cur)" "\<forall>c \<in> set bs - {cur}. same_block s u c"
      "guards_ok u cur"
      and q: "quarantine u = quarantine s" "quarantine_count u = quarantine_count s"
        "quarantine_pos u = quarantine_pos s"
      by blast
    have "heap_inv u bs'"
      using c(1) ring q by (auto simp: heap_inv_def quar_ring_def)
    moreover have "{p ..< p + n} \<subseteq> user_bytes u cur"
      using c(2,6) r by (auto simp: user_bytes_def)
    moreover have "\<forall>c \<in> live s bs. same_block s u c"
      using c(5,7) by (auto simp: live_def)
    ultimately show ?thesis using c k pu by (auto simp: alloc_ok_def)
  qed
qed

subsection \<open>Coalescing\<close>

text \<open>A free block absorbs its free right neighbour; both merges of
  \<open>release_from_quarantine\<close> are instances.\<close>

definition absorb :: "nat \<Rightarrow> nat \<Rightarrow> kheap \<Rightarrow> kheap" where
  "absorb a b s = s\<lparr>hdr := (hdr s)(a := (hdr s a)
     \<lparr>bsize := wrap32 (bsize (hdr s a) + HEADER_SIZE + bsize (hdr s b)), bnext := bnext (hdr s b)\<rparr>)\<rparr>"

lemma absorb_lay:
  assumes lay: "heap_lay s (xs @ a # b # ys)" and fr: "bfree (hdr s a)" "bfree (hdr s b)"
  shows "heap_lay (absorb a b s) (xs @ a # ys)"
    "frees (hdr (absorb a b s)) (xs @ a # ys) = frees (hdr s) xs @ True # frees (hdr s) ys"
    "\<forall>c. c \<noteq> a \<longrightarrow> hdr (absorb a b s) c = hdr s c"
    "bmagic (hdr (absorb a b s) a) = bmagic (hdr s a)"
proof -
  let ?t = "absorb a b s"
  have sg: "seg (hdr s) (heap_base s) (xs @ a # b # ys) (heap_base s + KHEAP_SIZE) 0"
    using lay by (simp add: heap_lay_def)
  have d: "a \<notin> set xs" "a \<notin> set ys" "a \<noteq> b" "b \<notin> set ys" "b \<notin> set xs" using seg_distinct [OF sg] by auto
  show frame: "\<forall>c. c \<noteq> a \<longrightarrow> hdr ?t c = hdr s c"
    and mag: "bmagic (hdr ?t a) = bmagic (hdr s a)" by (simp_all add: absorb_def)
  have sgb: "seg (hdr s) (heap_base s) ((xs @ [a]) @ b # ys) (heap_base s + KHEAP_SIZE) 0" using sg by simp
  have ab: "b = a + HEADER_SIZE + bsize (hdr s a)"
    using seg_split(3) [OF sg] by simp
  have fit: "b + HEADER_SIZE + bsize (hdr s b) \<le> heap_base s + KHEAP_SIZE" "heap_base s \<le> a"
    using heap_lay_block(2,3) [OF lay] by auto
  then have sz: "bsize (hdr ?t a) = bsize (hdr s a) + HEADER_SIZE + bsize (hdr s b)"
    using ab by (simp add: absorb_def)
  have sga: "seg (hdr ?t) (heap_base s) (xs @ a # ys) (heap_base s + KHEAP_SIZE) 0"
  proof (rule seg_join)
    show "seg (hdr ?t) (heap_base s) xs a a" using seg_split(1) [OF sg] d by (simp add: absorb_def)
    show "bnext (hdr ?t a) = (case ys of [] \<Rightarrow> 0 | c # _ \<Rightarrow> c)"
      using seg_split(2) [OF sgb] by (simp add: absorb_def)
    have e: "a + HEADER_SIZE + bsize (hdr ?t a) = b + HEADER_SIZE + bsize (hdr s b)" using sz ab by simp
    have "seg (hdr ?t) (b + HEADER_SIZE + bsize (hdr s b)) ys (heap_base s + KHEAP_SIZE) 0"
      using seg_split(3) [OF sgb] d by (simp add: absorb_def)
    then show "seg (hdr ?t) (a + HEADER_SIZE + bsize (hdr ?t a)) ys (heap_base s + KHEAP_SIZE) 0"
      by (simp only: e)
  qed
  have "block_ok (hdr ?t c)" if "c \<in> set (xs @ a # ys)" for c
  proof (cases "c = a")
    case True
    then show ?thesis using heap_lay_block(5) [OF lay, of a] fr by (simp add: absorb_def block_ok_def)
  next
    case False
    then show ?thesis using heap_lay_block(5) [OF lay, of c] that frame by auto
  qed
  then show "heap_lay ?t (xs @ a # ys)" using sga lay by (auto simp: heap_lay_def absorb_def)
  show "frees (hdr ?t) (xs @ a # ys) = frees (hdr s) xs @ True # frees (hdr s) ys"
    using d fr by (auto simp: absorb_def)
qed

lemma absorb_frame [simp]:
  "heap_base (absorb a b s) = heap_base s" "heap_head (absorb a b s) = heap_head s"
  "quarantine (absorb a b s) = quarantine s" "quarantine_count (absorb a b s) = quarantine_count s"
  "quarantine_pos (absorb a b s) = quarantine_pos s" "bytes (absorb a b s) = bytes s"
  by (simp_all add: absorb_def)


text \<open>The state between the steps of \<open>release_from_quarantine\<close>: \<open>blk\<close> is free and the
  rest of the list has no two free neighbours.\<close>

lemma poison_lay:
  assumes lay: "heap_lay s (xs @ blk # ys)" and nf: "\<not> bfree (hdr s blk)"
  defines "t \<equiv> poison blk s"
  shows "heap_lay t (xs @ blk # ys)" "bfree (hdr t blk)" "bmagic (hdr t blk) = HEAP_MAGIC_FREE"
    "\<forall>c. c \<noteq> blk \<longrightarrow> hdr t c = hdr s c"
    "quarantine t = quarantine s" "quarantine_count t = quarantine_count s"
    "quarantine_pos t = quarantine_pos s" "heap_base t = heap_base s"
proof -
  have sg: "seg (hdr s) (heap_base s) (xs @ blk # ys) (heap_base s + KHEAP_SIZE) 0"
    using lay by (simp add: heap_lay_def)
  have d: "blk \<notin> set xs" "blk \<notin> set ys" using seg_distinct [OF sg] by auto
  have "seg (hdr t) (heap_base s) (xs @ blk # ys) (heap_base s + KHEAP_SIZE) 0"
    by (rule seg_join) (use seg_split [OF sg] d in \<open>auto simp: t_def poison_def Let_def\<close>)
  moreover show "\<forall>c. c \<noteq> blk \<longrightarrow> hdr t c = hdr s c" "bfree (hdr t blk)"
    "bmagic (hdr t blk) = HEAP_MAGIC_FREE"
    "quarantine t = quarantine s" "quarantine_count t = quarantine_count s"
    "quarantine_pos t = quarantine_pos s" "heap_base t = heap_base s"
    by (simp_all add: t_def poison_def Let_def)
  moreover have "block_ok (hdr t c)" if "c \<in> set (xs @ blk # ys)" for c
  proof (cases "c = blk")
    case True
    then show ?thesis by (simp add: t_def poison_def Let_def block_ok_def)
  next
    case False
    then show ?thesis
      using heap_lay_block(5) [OF lay that] by (simp add: t_def poison_def Let_def)
  qed
  ultimately show "heap_lay t (xs @ blk # ys)"
    using lay by (simp add: heap_lay_def t_def poison_def Let_def)
qed

definition lone_free :: "kheap \<Rightarrow> nat list \<Rightarrow> nat \<Rightarrow> nat list \<Rightarrow> bool" where
  "lone_free s xs blk ys \<longleftrightarrow>
     heap_lay s (xs @ blk # ys) \<and> bfree (hdr s blk) \<and>
     no_adj (frees (hdr s) xs) \<and> no_adj (frees (hdr s) ys)"

lemma merge_next_ok:
  assumes l: "lone_free s xs blk ys"
  shows "\<exists>ys' t. merge_next blk s = t \<and> lone_free t xs blk ys' \<and>
    (ys' = [] \<or> \<not> bfree (hdr t (hd ys'))) \<and> set ys' \<subseteq> set ys \<and>
    (\<forall>y \<in> set ys. y \<notin> set ys' \<longrightarrow> bfree (hdr s y)) \<and>
    (\<forall>c. c \<noteq> blk \<longrightarrow> hdr t c = hdr s c) \<and> bmagic (hdr t blk) = bmagic (hdr s blk) \<and>
    quarantine t = quarantine s \<and> quarantine_count t = quarantine_count s \<and>
    quarantine_pos t = quarantine_pos s \<and> heap_base t = heap_base s \<and> bytes t = bytes s"
proof -
  have lay: "heap_lay s (xs @ blk # ys)" and fr: "bfree (hdr s blk)"
    and na: "no_adj (frees (hdr s) xs)" "no_adj (frees (hdr s) ys)"
    using l by (auto simp: lone_free_def)
  have sg: "seg (hdr s) (heap_base s) (xs @ blk # ys) (heap_base s + KHEAP_SIZE) 0"
    using lay by (simp add: heap_lay_def)
  have d: "blk \<notin> set xs" "blk \<notin> set ys" using seg_distinct [OF sg] by auto
  note nxt = seg_split(2) [OF sg]
  show ?thesis
  proof (cases "ys \<noteq> [] \<and> bfree (hdr s (hd ys))")
    case False
    moreover have "0 < hd ys" if "ys \<noteq> []" using heap_lay_block(1) [OF lay, of "hd ys"] that by auto
    ultimately have "merge_next blk s = s"
      using nxt by (cases ys) (auto simp: merge_next_def Let_def)
    then show ?thesis using False l by (intro exI [of _ ys] exI [of _ s]) auto
  next
    case True
    then obtain c cs where ys: "ys = c # cs" "bfree (hdr s c)" by (cases ys) auto
    have "0 < c" using heap_lay_block(1) [OF lay, of c] ys by simp
    then have m: "merge_next blk s = absorb blk c s"
      using nxt ys by (simp add: merge_next_def absorb_def Let_def)
    note a = absorb_lay [OF lay [unfolded ys(1)] fr ys(2)]
    have same: "frees (hdr (absorb blk c s)) zs = frees (hdr s) zs" if "blk \<notin> set zs" for zs
      using that by (auto simp: absorb_def)
    have "lone_free (absorb blk c s) xs blk cs"
      unfolding lone_free_def
    proof (intro conjI)
      have cs: "blk \<notin> set cs" "no_adj (frees (hdr s) cs)" using d na(2) ys by (auto simp: no_adj_Cons)
      show "no_adj (frees (hdr (absorb blk c s)) cs)" unfolding same [OF cs(1)] by (rule cs(2))
      show "no_adj (frees (hdr (absorb blk c s)) xs)" unfolding same [OF d(1)] by (rule na(1))
      show "bfree (hdr (absorb blk c s) blk)" using fr by (simp add: absorb_def)
    qed (rule a(1))
    moreover have "cs = [] \<or> \<not> bfree (hdr (absorb blk c s) (hd cs))"
      using na(2) ys d by (cases cs) (auto simp: absorb_def)
    ultimately show ?thesis using m a(3,4) ys
      by (intro exI [of _ cs] exI [of _ "absorb blk c s"]) auto
  qed
qed

lemma merge_prev_ok:
  assumes l: "lone_free s xs blk ys" and hd: "ys = [] \<or> \<not> bfree (hdr s (hd ys))"
  shows "\<exists>bs t. merge_prev blk s = Some t \<and> heap_lay t bs \<and> no_adj (frees (hdr t) bs) \<and>
    set bs \<subseteq> set (xs @ blk # ys) \<and>
    (\<forall>y \<in> set (xs @ blk # ys). y \<notin> set bs \<longrightarrow> bfree (hdr s y)) \<and>
    (\<forall>c. \<not> bfree (hdr s c) \<longrightarrow> hdr t c = hdr s c) \<and> (\<forall>c. bmagic (hdr t c) = bmagic (hdr s c)) \<and>
    quarantine t = quarantine s \<and> quarantine_count t = quarantine_count s \<and>
    quarantine_pos t = quarantine_pos s \<and> heap_base t = heap_base s \<and> bytes t = bytes s"
proof -
  have lay: "heap_lay s (xs @ blk # ys)" and fr: "bfree (hdr s blk)"
    and na: "no_adj (frees (hdr s) xs)" "no_adj (frees (hdr s) ys)"
    using l by (auto simp: lone_free_def)
  have sg: "seg (hdr s) (heap_base s) (xs @ blk # ys) (heap_base s + KHEAP_SIZE) 0" "0 < heap_base s"
    using lay by (simp_all add: heap_lay_def)
  have f: "chain_find bnext (hstore s) (\<lambda>b. bnext b = blk) (heap_head s) =
      Some (if xs = [] then 0 else last xs)"
    using heap_lay_find [OF lay, of "\<lambda>b. bnext b = blk"] seg_find_prev [OF sg] by simp
  show ?thesis
  proof (cases "xs \<noteq> [] \<and> bfree (hdr s (last xs))")
    case False
    have "merge_prev blk s = Some s" using f False by (auto simp: merge_prev_def)
    moreover have "no_adj (frees (hdr s) (xs @ blk # ys))"
      using na fr hd False by (auto simp: no_adj_append no_adj_Cons last_map hd_map)
    ultimately show ?thesis using lay by (intro exI [of _ "xs @ blk # ys"] exI [of _ s]) auto
  next
    case True
    then obtain ws p where xs: "xs = ws @ [p]" "bfree (hdr s p)" by (cases xs rule: rev_cases) auto
    have "0 < p" using heap_lay_block(1) [OF lay, of p] xs by simp
    then have m: "merge_prev blk s = Some (absorb p blk s)"
      using f xs by (simp add: merge_prev_def absorb_def)
    have lay': "heap_lay s (ws @ p # blk # ys)" using lay xs by simp
    note a = absorb_lay [OF lay' xs(2) fr]
    have "no_adj (frees (hdr s) ws @ True # frees (hdr s) ys)"
      using na hd xs by (auto simp: no_adj_append no_adj_Cons last_map hd_map)
    then have "no_adj (frees (hdr (absorb p blk s)) (ws @ p # ys))" by (simp only: a(2))
    moreover have "\<forall>c. \<not> bfree (hdr s c) \<longrightarrow> hdr (absorb p blk s) c = hdr s c"
      using a(3) xs(2) by metis
    moreover have "\<forall>c. bmagic (hdr (absorb p blk s) c) = bmagic (hdr s c)" using a(3,4) by metis
    ultimately show ?thesis using a(1) m xs fr
      by (intro exI [of _ "ws @ p # ys"] exI [of _ "absorb p blk s"]) auto
  qed
qed


text \<open>Releasing a quarantined block: it becomes free, everything live is untouched.\<close>

lemma release_core:
  assumes core: "heap_core s bs Q" and blk: "blk \<in> Q"
  shows "\<exists>bs' t. release_from_quarantine blk s = Some t \<and> heap_core t bs' (Q - {blk}) \<and>
    live t bs' = live s bs \<and> set bs' \<subseteq> set bs \<and> (\<forall>c \<in> live s bs. same_block s t c) \<and>
    quarantine t = quarantine s \<and> quarantine_count t = quarantine_count s \<and>
    quarantine_pos t = quarantine_pos s \<and> heap_base t = heap_base s"
proof -
  from core have lay: "heap_lay s bs" and na: "no_adj (frees (hdr s) bs)"
    and Q: "Q = {b \<in> set bs. bmagic (hdr s b) = HEAP_MAGIC_QUARANTINE}"
    by (auto simp: heap_core_def)
  from blk Q obtain xs ys where bs: "bs = xs @ blk # ys" by (auto dest: split_list)
  have mq: "bmagic (hdr s blk) = HEAP_MAGIC_QUARANTINE" "blk \<in> set bs" using blk Q by auto
  have nf: "\<not> bfree (hdr s blk)"
    using heap_lay_block(5) [OF lay mq(2)] mq by (auto simp: block_ok_def split: if_splits)
  let ?p = "poison blk s"
  note p = poison_lay [OF lay [unfolded bs] nf]
  have d: "blk \<notin> set xs" "blk \<notin> set ys"
    using seg_distinct lay unfolding bs heap_lay_def by fastforce+
  have same: "frees (hdr ?p) zs = frees (hdr s) zs" if "blk \<notin> set zs" for zs
    using that p(4) by (intro map_cong) auto
  have lone: "lone_free ?p xs blk ys"
    using p(1,2) na unfolding lone_free_def same [OF d(1)] same [OF d(2)] bs
    by (simp add: no_adj_append no_adj_Cons)
  obtain ys' t1 where t1: "merge_next blk ?p = t1" "lone_free t1 xs blk ys'"
      "ys' = [] \<or> \<not> bfree (hdr t1 (hd ys'))" "set ys' \<subseteq> set ys"
      "\<forall>y \<in> set ys. y \<notin> set ys' \<longrightarrow> bfree (hdr ?p y)" "\<forall>c. c \<noteq> blk \<longrightarrow> hdr t1 c = hdr ?p c"
      "bmagic (hdr t1 blk) = bmagic (hdr ?p blk)" and q1:
      "quarantine t1 = quarantine s" "quarantine_count t1 = quarantine_count s"
      "quarantine_pos t1 = quarantine_pos s" "heap_base t1 = heap_base s" "bytes t1 = bytes ?p"
    using merge_next_ok [OF lone] p(5-8) by auto
  obtain bs' t where t: "merge_prev blk t1 = Some t" "heap_lay t bs'" "no_adj (frees (hdr t) bs')"
      "set bs' \<subseteq> set (xs @ blk # ys')"
      "\<forall>y \<in> set (xs @ blk # ys'). y \<notin> set bs' \<longrightarrow> bfree (hdr t1 y)"
      "\<forall>c. \<not> bfree (hdr t1 c) \<longrightarrow> hdr t c = hdr t1 c" "\<forall>c. bmagic (hdr t c) = bmagic (hdr t1 c)" and q2:
      "quarantine t = quarantine s" "quarantine_count t = quarantine_count s"
      "quarantine_pos t = quarantine_pos s" "heap_base t = heap_base s" "bytes t = bytes ?p"
    using merge_prev_ok [OF t1(2,3)] q1 by auto
  have mag: "bmagic (hdr t c) = (if c = blk then HEAP_MAGIC_FREE else bmagic (hdr s c))" for c
    using t(7) t1(6,7) p(3,4) by auto
  have sub: "set bs' \<subseteq> set bs" using t(4) t1(4) bs by auto
  have gone: "bfree (hdr s y)" if "y \<in> set bs" "y \<notin> set bs'" "y \<noteq> blk" for y
  proof (cases "y \<in> set (xs @ blk # ys')")
    case True
    then show ?thesis using t(5) that t1(6) p(4) by auto
  next
    case False
    then have "y \<in> set ys" "y \<notin> set ys'" using that bs by auto
    then show ?thesis using t1(5) p(4) that by auto
  qed
  have kept: "y \<in> set bs'" if "y \<in> set bs" "y \<noteq> blk" "bmagic (hdr s y) \<noteq> HEAP_MAGIC_FREE" for y
    using gone [of y] that heap_lay_block(5) [OF lay that(1)] by (auto simp: block_ok_def split: if_splits)
  have "Q - {blk} = {b \<in> set bs'. bmagic (hdr t b) = HEAP_MAGIC_QUARANTINE}"
    unfolding Q using kept sub mag by auto
  then have "heap_core t bs' (Q - {blk})" using t(2,3) by (simp add: heap_core_def)
  moreover have "live t bs' = live s bs"
    unfolding live_def using kept sub mag mq(1) by auto
  moreover have "\<forall>c \<in> live s bs. same_block s t c"
  proof
    fix c
    assume c: "c \<in> live s bs"
    then have n: "c \<noteq> blk" "c \<in> set bs" "\<not> bfree (hdr s c)"
      using mq(1) heap_lay_block(5) [OF lay, of c] by (auto simp: live_def block_ok_def)
    have "26 \<le> bsize (hdr s blk)" "bsize (hdr s blk) < 4294967296"
      using heap_lay_block(4,5) [OF lay mq(2)] nf by (auto simp: block_ok_def)
    then have "bytes t x = bytes s x" if "c \<le> x" "x < c + HEADER_SIZE + bsize (hdr s c)" for x
      using heap_lay_disjoint [OF lay n(2) mq(2) n(1)] that q2(5)
      by (auto simp: poison_def Let_def mem_write_def)
    then show "same_block s t c" using t(6) t1(6) p(4) n by (auto simp: same_block_def)
  qed
  ultimately show ?thesis using t(1) t1(1) q2 sub
    by (intro exI [of _ bs'] exI [of _ t]) (auto simp: release_from_quarantine_def)
qed

subsection \<open>Freeing\<close>

lemma set_take_update:
  "p < length q \<Longrightarrow> distinct q \<Longrightarrow> x \<notin> set q \<Longrightarrow> set (q[p := x]) = insert x (set q - {q ! p})"
  by (auto simp: set_update_distinct)

lemma quarantine_push_ok:
  assumes core: "heap_core s bs (insert blk Q)" and ring: "quar_ring s Q" and blk: "blk \<notin> Q"
  shows "\<exists>bs' t. quarantine_push blk s = Some t \<and> heap_inv t bs' \<and> live t bs' = live s bs \<and>
    set bs' \<subseteq> set bs \<and> (\<forall>c \<in> live s bs. same_block s t c) \<and>
    blk \<in> set bs' \<and> bmagic (hdr t blk) = HEAP_MAGIC_QUARANTINE"
proof (cases "quarantine_count s = QUARANTINE_CAPACITY")
  case False
  let ?n = "quarantine_count s"
  let ?t = "s\<lparr>quarantine_count := ?n + 1, quarantine := (quarantine s)[?n := blk],
      quarantine_pos := (?n + 1) mod QUARANTINE_CAPACITY\<rparr>"
  have n: "?n < QUARANTINE_CAPACITY" "length (quarantine s) = QUARANTINE_CAPACITY"
    "quarantine_pos s = ?n" "distinct (take ?n (quarantine s))" "Q = set (take ?n (quarantine s))"
    using ring False by (auto simp: quar_ring_def)
  then have p: "quarantine_push blk s = Some ?t" using False by (simp add: quarantine_push_def)
  have tk: "take (Suc ?n) ((quarantine s)[?n := blk]) = take ?n (quarantine s) @ [blk]"
    using n by (simp add: take_Suc_conv_app_nth)
  have "quar_ring ?t (insert blk Q)"
    using n blk tk by (auto simp: quar_ring_def)
  moreover have "heap_core ?t bs (insert blk Q)" using core by (simp add: heap_core_def heap_lay_def)
  moreover have "blk \<in> set bs \<and> bmagic (hdr s blk) = HEAP_MAGIC_QUARANTINE"
    using core by (auto simp: heap_core_def)
  ultimately show ?thesis using p by (auto simp: heap_inv_def live_def same_block_def intro!: exI [of _ bs])
next
  case True
  let ?old = "quarantine s ! quarantine_pos s"
  have n: "length (quarantine s) = QUARANTINE_CAPACITY" "quarantine_pos s < QUARANTINE_CAPACITY"
    "distinct (quarantine s)" "Q = set (quarantine s)"
    using ring True by (auto simp: quar_ring_def)
  have old: "?old \<in> insert blk Q" "?old \<noteq> blk" using n blk by (auto simp: in_set_conv_nth)
  obtain bs' t where t: "release_from_quarantine ?old s = Some t"
      "heap_core t bs' (insert blk Q - {?old})" "live t bs' = live s bs" "set bs' \<subseteq> set bs"
      "\<forall>c \<in> live s bs. same_block s t c" "quarantine t = quarantine s"
      "quarantine_count t = quarantine_count s" "quarantine_pos t = quarantine_pos s"
    using release_core [OF core old(1)] by blast
  let ?u = "t\<lparr>quarantine := (quarantine t)[quarantine_pos t := blk],
      quarantine_pos := (quarantine_pos t + 1) mod QUARANTINE_CAPACITY\<rparr>"
  have p: "quarantine_push blk s = Some ?u" using True t(1) by (simp add: quarantine_push_def)
  have "set ((quarantine s)[quarantine_pos s := blk]) = insert blk Q - {?old}"
    using n blk old by (auto simp: set_take_update)
  moreover have "distinct ((quarantine s)[quarantine_pos s := blk])"
    using n blk by (simp add: distinct_list_update)
  ultimately have "quar_ring ?u (insert blk Q - {?old})"
    using n t True by (simp add: quar_ring_def)
  moreover have "heap_core ?u bs' (insert blk Q - {?old})"
    using t(2) by (simp add: heap_core_def heap_lay_def)
  moreover have "blk \<in> set bs' \<and> bmagic (hdr t blk) = HEAP_MAGIC_QUARANTINE"
    using t(2) old by (auto simp: heap_core_def)
  ultimately show ?thesis using p t(3-5)
    by (auto simp: heap_inv_def live_def same_block_def intro!: exI [of _ bs'])
qed


lemma guards_same_block: "same_block s t b \<Longrightarrow> RZONE_SIZE + CANARY_SIZE \<le> bsize (hdr s b) \<Longrightarrow>
    guards_ok t b = guards_ok s b"
proof -
  assume sb: "same_block s t b" and sz: "RZONE_SIZE + CANARY_SIZE \<le> bsize (hdr s b)"
  have "mem_read (bytes t) a 18 = mem_read (bytes s) a 18"
    if "a = b + HEADER_SIZE + bsize (hdr s b) - CANARY_SIZE" for a
    using that sb sz by (intro mem_read_eqI) (auto simp: same_block_def)
  then have "tag_read (bytes t) a = tag_read (bytes s) a"
    if "a = b + HEADER_SIZE + bsize (hdr s b) - CANARY_SIZE" for a
    using that tag_read_eq_iff by metis
  moreover have "bytes t (b + HEADER_SIZE + i) = bytes s (b + HEADER_SIZE + i)" if "i < RZONE_SIZE" for i
    using that sb sz by (simp add: same_block_def)
  ultimately show ?thesis using sb by (simp add: guards_ok_def same_block_def)
qed

lemma live_block: "heap_inv s bs \<Longrightarrow> b \<in> live s bs \<Longrightarrow>
    b \<in> set bs \<and> 0 < b \<and> \<not> bfree (hdr s b) \<and> bmagic (hdr s b) = HEAP_MAGIC_ALLOC \<and>
    26 \<le> bsize (hdr s b) \<and> bsize (hdr s b) < 4294967296"
  using heap_lay_block [of s bs b]
  by (auto simp: heap_inv_def live_def block_ok_def dest!: heap_core_lay split: if_splits)

text \<open>Every outcome of \<open>kfree\<close> on a live block.\<close>

lemma kfree_live_eq:
  assumes inv: "heap_inv s bs" and b: "b \<in> live s bs"
  shows "kfree (b + HEADER_SIZE + RZONE_SIZE) s =
    (if \<exists>i<RZONE_SIZE. bytes s (b + HEADER_SIZE + i) \<noteq> 0xBE then Some (Inl Underflow)
     else if \<not> guards_ok s b then Some (Inl Overflow)
     else map_option Inr (quarantine_push b
       (s\<lparr>hdr := (hdr s)(b := (hdr s b)\<lparr>bmagic := HEAP_MAGIC_QUARANTINE\<rparr>)\<rparr>)))"
proof -
  note lb = live_block [OF inv b]
  have "b + HEADER_SIZE + RZONE_SIZE + sub32 (bsize (hdr s b)) (RZONE_SIZE + CANARY_SIZE) =
      b + HEADER_SIZE + bsize (hdr s b) - CANARY_SIZE"
    using lb by simp
  then show ?thesis using lb by (auto simp: kfree_def Let_def guards_ok_def)
qed

lemma kfree_ok:
  assumes inv: "heap_inv s bs" and b: "b \<in> live s bs" and g: "guards_ok s b"
  shows "\<exists>t bs'. kfree (b + HEADER_SIZE + RZONE_SIZE) s = Some (Inr t) \<and> heap_inv t bs' \<and>
    live t bs' = live s bs - {b} \<and> (\<forall>c \<in> live s bs - {b}. same_block s t c) \<and>
    b \<in> set bs' \<and> bmagic (hdr t b) = HEAP_MAGIC_QUARANTINE"
proof -
  from inv obtain Q where core: "heap_core s bs Q" and ring: "quar_ring s Q" by (auto simp: heap_inv_def)
  note lb = live_block [OF inv b]
  let ?s = "s\<lparr>hdr := (hdr s)(b := (hdr s b)\<lparr>bmagic := HEAP_MAGIC_QUARANTINE\<rparr>)\<rparr>"
  have nq: "b \<notin> Q" using core lb by (auto simp: heap_core_def)
  obtain xs ys where bs: "bs = xs @ b # ys" using lb by (auto dest: split_list)
  have sg: "seg (hdr s) (heap_base s) (xs @ b # ys) (heap_base s + KHEAP_SIZE) 0"
    using core bs by (simp add: heap_core_def heap_lay_def)
  have d: "b \<notin> set xs" "b \<notin> set ys" using seg_distinct [OF sg] by auto
  have sg': "seg (hdr ?s) (heap_base ?s) bs (heap_base ?s + KHEAP_SIZE) 0"
    unfolding bs by (rule seg_join) (use seg_split [OF sg] d in auto)
  have fr: "frees (hdr ?s) bs = frees (hdr s) bs" by auto
  have ok: "\<forall>c \<in> set bs. block_ok (hdr ?s c)"
    using core lb by (auto simp: heap_core_def heap_lay_def block_ok_def)
  have "heap_core ?s bs (insert b Q)"
    unfolding heap_core_def
  proof (intro conjI)
    show "heap_lay ?s bs" using sg' ok core by (simp add: heap_core_def heap_lay_def)
    show "no_adj (frees (hdr ?s) bs)" using core unfolding fr by (simp add: heap_core_def)
    show "insert b Q = {c \<in> set bs. bmagic (hdr ?s c) = HEAP_MAGIC_QUARANTINE}"
      using core lb by (auto simp: heap_core_def)
  qed
  moreover have "quar_ring ?s Q" using ring by (simp add: quar_ring_def)
  ultimately obtain bs' t where t: "quarantine_push b ?s = Some t" "heap_inv t bs'"
      "live t bs' = live ?s bs" "\<forall>c \<in> live ?s bs. same_block ?s t c"
      "b \<in> set bs'" "bmagic (hdr t b) = HEAP_MAGIC_QUARANTINE"
    using quarantine_push_ok [OF _ _ nq] by blast
  have lv: "live ?s bs = live s bs - {b}" by (auto simp: live_def)
  have "kfree (b + HEADER_SIZE + RZONE_SIZE) s = Some (Inr t)"
    using kfree_live_eq [OF inv b] g t(1) by (auto simp: guards_ok_def)
  moreover have "\<forall>c \<in> live s bs - {b}. same_block s t c"
    using t(4) lv by (auto simp: same_block_def)
  ultimately show ?thesis using t(2,3,5,6) lv by auto
qed


subsection \<open>The kernel heap is an allocator\<close>

definition kh_inv :: "kheap \<Rightarrow> bool" where
  "kh_inv s \<longleftrightarrow> (\<exists>bs. heap_inv s bs \<and> (\<forall>b \<in> live s bs. guards_ok s b))"

definition kh_live :: "kheap \<Rightarrow> nat set" where
  "kh_live s = {b + HEADER_SIZE + RZONE_SIZE | b. \<exists>bs. heap_inv s bs \<and> b \<in> live s bs}"

lemma seg_unique: "seg h a bs e z \<Longrightarrow> seg h a cs e z \<Longrightarrow> bs = cs"
proof (induction bs arbitrary: a cs)
  case Nil
  then show ?case using seg_le by (cases cs) fastforce+
next
  case (Cons b bs)
  then have b: "b = a" "seg h (b + HEADER_SIZE + bsize (h b)) bs e z" by auto
  have "cs \<noteq> []" using seg_le [OF b(2)] Cons.prems(2) b(1) by auto
  then obtain c cs' where cs: "cs = c # cs'" by (cases cs) auto
  then have "c = a" "seg h (c + HEADER_SIZE + bsize (h c)) cs' e z" using Cons.prems(2) by auto
  then show ?case using Cons.IH b cs by auto
qed

lemma heap_inv_unique: "heap_inv s bs \<Longrightarrow> heap_inv s cs \<Longrightarrow> bs = cs"
  by (auto simp: heap_inv_def heap_core_def heap_lay_def dest: seg_unique)

lemma kh_live_eq: "heap_inv s bs \<Longrightarrow> kh_live s = (\<lambda>b. b + HEADER_SIZE + RZONE_SIZE) ` live s bs"
  using heap_inv_unique unfolding kh_live_def by blast

lemma guards_kept:
  assumes "heap_inv s bs" "\<forall>b \<in> live s bs. guards_ok s b" "c \<in> live s bs" "same_block s t c"
  shows "guards_ok t c"
  using guards_same_block [OF assms(4)] live_block [OF assms(1,3)] assms(2,3) by simp

interpretation kh: allocator kmalloc kfree kh_inv kh_live 4294967264
proof
  fix h h' :: kheap and n p :: nat
  assume inv: "kh_inv h"
  then obtain bs where bs: "heap_inv h bs" "\<forall>b \<in> live h bs. guards_ok h b" by (auto simp: kh_inv_def)
  {
    assume n: "n \<le> 4294967264"
    show ret: "\<exists>p h'. kmalloc n h = Some (p, h')"
      using kmalloc_ok [OF bs(1), of n] n by (cases "n = 0") (auto simp: kmalloc_def)
    show "h' = h" if "kmalloc n h = Some (0, h')"
      using kmalloc_ok [OF bs(1), of n] n that
      by (cases "n = 0") (auto simp: kmalloc_def alloc_ok_def)
    show "kh_inv h'" if a: "kmalloc n h = Some (p, h')"
    proof (cases "p = 0")
      case True
      then show ?thesis using kmalloc_ok [OF bs(1), of n] n a inv
        by (cases "n = 0") (auto simp: kmalloc_def alloc_ok_def)
    next
      case False
      with a have "n \<noteq> 0" by (cases "n = 0") auto
      then obtain bs' where b': "heap_inv h' bs'" "alloc_ok n h bs p h' bs'"
        using kmalloc_ok [OF bs(1), of n] n a False by auto
      then obtain b where "live h' bs' = insert b (live h bs)" "guards_ok h' b"
        "\<forall>c \<in> live h bs. same_block h h' c" unfolding alloc_ok_def by blast
      then have "\<forall>c \<in> live h' bs'. guards_ok h' c" using guards_kept [OF bs, of _ h'] by auto
      then show ?thesis using b'(1) by (auto simp: kh_inv_def)
    qed
    show "p \<notin> kh_live h \<and> kh_live h' = insert p (kh_live h)" if a: "kmalloc n h = Some (p, h')" "p \<noteq> 0"
    proof -
      from a have "n \<noteq> 0" by (cases "n = 0") auto
      then obtain bs' where b': "heap_inv h' bs'" "alloc_ok n h bs p h' bs'"
        using kmalloc_ok [OF bs(1), of n] n a by auto
      then show ?thesis unfolding kh_live_eq [OF b'(1)] kh_live_eq [OF bs(1)] alloc_ok_def by auto
    qed
  }
  assume "p \<in> kh_live h"
  then obtain b where b: "p = b + HEADER_SIZE + RZONE_SIZE" "b \<in> live h bs"
    using kh_live_eq [OF bs(1)] by auto
  obtain t bs' where t: "kfree p h = Some (Inr t)" "heap_inv t bs'" "live t bs' = live h bs - {b}"
      "\<forall>c \<in> live h bs - {b}. same_block h t c"
    using kfree_ok [OF bs(1) b(2)] bs(2) b by blast
  have "\<forall>c \<in> live t bs'. guards_ok t c" using guards_kept [OF bs, of _ t] t(3,4) by auto
  then have "kh_inv t" using t(2) by (auto simp: kh_inv_def)
  moreover have "kh_live t = kh_live h - {p}"
    unfolding kh_live_eq [OF t(2)] kh_live_eq [OF bs(1)] t(3) b(1) by auto
  ultimately show "\<exists>h'. kfree p h = Some (Inr h') \<and> kh_inv h' \<and> kh_live h' = kh_live h - {p}"
    using t(1) by blast
qed


subsection \<open>Properties\<close>

text \<open>A booted heap at 6 MB, for the witnesses.\<close>

definition kh_boot :: kheap where
  "kh_boot = init_heap
     \<lparr>hdr = (\<lambda>_. \<lparr>bsize = 0, bfree = False, bnext = 0, bmagic = 0, btag = tag144_zero\<rparr>),
      bytes = (\<lambda>_. 0), heap_base = 0x600000, heap_head = 0, quarantine = replicate 8 0,
      quarantine_count = 0, quarantine_pos = 0, tag_prng_state = 0, heap_ticks = 5\<rparr>"

lemma kh_boot_inv: "heap_inv kh_boot [0x600000]"
  unfolding kh_boot_def
  by (rule init_heap_inv [where s = "\<lparr>hdr = (\<lambda>_. \<lparr>bsize = 0, bfree = False, bnext = 0, bmagic = 0,
      btag = tag144_zero\<rparr>), bytes = (\<lambda>_. 0), heap_base = 0x600000, heap_head = 0,
      quarantine = replicate 8 0, quarantine_count = 0, quarantine_pos = 0, tag_prng_state = 0,
      heap_ticks = 5\<rparr>", simplified]) 

lemma kh_boot_lay: "heap_lay kh_boot [0x600000]"
  using kh_boot_inv by (auto simp: heap_inv_def heap_core_def)

lemma kh_boot_live: "live kh_boot [0x600000] = {}"
  by (simp add: live_def kh_boot_def init_heap_def)

text \<open>On the booted heap every request that fits is served from the first block.\<close>

lemma kh_boot_alloc:
  assumes "0 < n" "n \<le> 1000"
  obtains t where "kmalloc n kh_boot = Some (0x600000 + 48, t)"
proof -
  have r: "reserved_size n = RZONE_SIZE + align8 n + CANARY_SIZE" "align8 n \<le> n + 7"
    using assms reserved_size_eq align8_ge by auto
  have "bfree (hdr kh_boot 0x600000)" "bsize (hdr kh_boot 0x600000) = KHEAP_SIZE - HEADER_SIZE"
    by (simp_all add: kh_boot_def init_heap_def)
  then have "reserved_size n \<le> bsize (hdr kh_boot 0x600000)" using r assms by simp
  moreover obtain p t where "kmalloc n kh_boot = Some (p, t)"
    using kmalloc_ok [OF kh_boot_inv, of n] assms by auto
  ultimately show ?thesis
  proof -
    show thesis
    proof (rule kmalloc_cases [OF kh_boot_lay, of n])
      show "n \<noteq> 0" using assms by simp
    next
      assume "\<forall>b\<in>set [0x600000]. bfree (hdr kh_boot b) \<longrightarrow> bsize (hdr kh_boot b) < reserved_size n"
      then show thesis
        using \<open>bfree _\<close> \<open>reserved_size n \<le> _\<close> by simp
    next
      fix cur
      assume "cur \<in> set [0x600000 :: nat]"
        and k: "kmalloc n kh_boot = Some (mark_alloc cur (split_block cur (reserved_size n) kh_boot))"
      then have "cur = 0x600000" by simp
      with k show thesis using that
        by (cases "mark_alloc cur (split_block cur (reserved_size n) kh_boot)")
          (auto dest: mark_alloc_simps(1))
    qed
  qed
qed

text \<open>C1. A successful kernel \<^verbatim>\<open>malloc\<close> keeps the heap well formed and returns a block that was not
  live before. Its \<open>n\<close> bytes end before the canary of their own block, with redzone and canary in place, lie in the arena and do not overlap the header,
  redzone, data or canary of any live block; every live block's header and bytes are untouched.\<close>

theorem kmalloc_safe:
  assumes "heap_inv s bs" "n \<le> 4294967264" "kmalloc n s = Some (p, t)" "p \<noteq> 0"
  shows "\<exists>bs'. heap_inv t bs' \<and> p - 48 \<notin> live s bs \<and> live t bs' = insert (p - 48) (live s bs) \<and>
    guards_ok t (p - 48) \<and> p + n + CANARY_SIZE \<le> p - 48 + HEADER_SIZE + bsize (hdr t (p - 48)) \<and>
    heap_base t \<le> p \<and> p + n \<le> heap_base t + KHEAP_SIZE \<and>
    (\<forall>c \<in> live s bs. p + n \<le> c \<or> c + HEADER_SIZE + bsize (hdr t c) \<le> p) \<and>
    (\<forall>c \<in> live s bs. same_block s t c)"
proof -
  from assms have n: "0 < n" by (cases "n = 0") auto
  then obtain bs' where t: "heap_inv t bs'" "alloc_ok n s bs p t bs'"
    using kmalloc_ok [OF assms(1) n assms(2)] assms(3,4) by auto
  then obtain b where b: "p = b + HEADER_SIZE + RZONE_SIZE" "b \<in> set bs'" "b \<notin> live s bs"
      "live t bs' = insert b (live s bs)" "{p ..< p + n} \<subseteq> user_bytes t b"
      "\<forall>c \<in> live s bs. same_block s t c" "guards_ok t b" by (auto simp: alloc_ok_def)
  from t(1) have lay: "heap_lay t bs'" by (auto simp: heap_inv_def heap_core_def)
  have "p \<in> user_bytes t b" "p + n - 1 \<in> user_bytes t b" using b(5) n by auto
  then have u: "p + n + CANARY_SIZE \<le> b + HEADER_SIZE + bsize (hdr t b)" using n by (auto simp: user_bytes_def)
  then have r: "p + n \<le> b + HEADER_SIZE + bsize (hdr t b)" by simp
  have "p + n \<le> c \<or> c + HEADER_SIZE + bsize (hdr t c) \<le> p" if "c \<in> live s bs" for c
  proof -
    have "c \<in> set bs'" "c \<noteq> b" using that b(3,4) by (auto simp: live_def)
    then show ?thesis using heap_lay_disjoint [OF lay b(2), of c] r b(1) by auto
  qed
  moreover have "p - 48 = b" using b(1) by simp
  ultimately show ?thesis using t(1) b u r heap_lay_block(2,3) [OF lay b(2)]
    by (intro exI [of _ bs']) auto
qed

theorem kmalloc_safe_witness:
  "\<exists>t bs'. kmalloc 100 kh_boot = Some (0x600030, t) \<and> heap_inv t bs' \<and> live t bs' = {0x600000} \<and>
     166 \<le> bsize (hdr t 0x600000) + 40"
proof -
  obtain t where t: "kmalloc 100 kh_boot = Some (0x600000 + 48, t)" by (rule kh_boot_alloc [of 100]) auto
  from kmalloc_safe [OF kh_boot_inv _ t] kh_boot_live t show ?thesis by auto
qed

text \<open>C22. The verdict of \<^verbatim>\<open>free\<close> on a live block is exact: it reports an underflow iff a byte of
  the left redzone changed, otherwise an overflow iff one of the 18 canary bytes changed,
  otherwise it frees the block, keeps the heap well formed with no two adjacent free blocks and
  leaves every other live block untouched.\<close>

theorem kfree_verdict:
  assumes "heap_inv s bs" "b \<in> live s bs"
  shows "if mem_read (bytes s) (b + HEADER_SIZE) 8 \<noteq> replicate 8 0xBE
         then kfree (b + 48) s = Some (Inl Underflow)
         else if mem_read (bytes s) (b + HEADER_SIZE + bsize (hdr s b) - CANARY_SIZE) 18 \<noteq>
                 tag_bytes (tagged_canary144 (btag (hdr s b)))
         then kfree (b + 48) s = Some (Inl Overflow)
         else \<exists>t bs'. kfree (b + 48) s = Some (Inr t) \<and> heap_inv t bs' \<and> no_adj (frees (hdr t) bs') \<and>
                live t bs' = live s bs - {b} \<and> (\<forall>c \<in> live s bs - {b}. same_block s t c)"
proof -
  have u: "mem_read (bytes s) (b + HEADER_SIZE) 8 \<noteq> replicate 8 0xBE \<longleftrightarrow>
      (\<exists>i<RZONE_SIZE. bytes s (b + HEADER_SIZE + i) \<noteq> 0xBE)"
    by (auto simp: list_eq_iff_nth_eq)
  have na: "no_adj (frees (hdr t) bs')" if "heap_inv t bs'" for t bs'
    using that by (auto simp: heap_inv_def heap_core_def)
  have e: "b + HEADER_SIZE + RZONE_SIZE = b + 48" by simp
  have g: "guards_ok s b \<longleftrightarrow> (\<forall>i<RZONE_SIZE. bytes s (b + HEADER_SIZE + i) = 0xBE) \<and>
      mem_read (bytes s) (b + HEADER_SIZE + bsize (hdr s b) - CANARY_SIZE) 18 =
        tag_bytes (tagged_canary144 (btag (hdr s b)))"
    by (simp only: guards_ok_def tag_read_eq_iff)
  note eq = kfree_live_eq [OF assms, unfolded e]
  note ok = kfree_ok [OF assms, unfolded e]
  show ?thesis
  proof (cases "\<exists>i<RZONE_SIZE. bytes s (b + HEADER_SIZE + i) \<noteq> 0xBE")
    case True
    then show ?thesis unfolding u eq by simp
  next
    case nu: False
    show ?thesis
    proof (cases "guards_ok s b")
      case True
      then show ?thesis using nu ok na unfolding u g by auto
    next
      case False
      then show ?thesis using nu unfolding u g eq by auto
    qed
  qed
qed

theorem kfree_verdict_witness:
  "\<exists>t u bs'. kmalloc 100 kh_boot = Some (0x600030, t) \<and> kfree 0x600030 t = Some (Inr u) \<and>
    heap_inv u bs' \<and> live u bs' = {} \<and>
    kfree 0x600030 (t\<lparr>bytes := (bytes t)(0x60002C := 0)\<rparr>) = Some (Inl Underflow)"
proof -
  obtain t where t: "kmalloc 100 kh_boot = Some (0x600000 + 48, t)" by (rule kh_boot_alloc [of 100]) auto
  obtain bs' where b: "heap_inv t bs'" "alloc_ok 100 kh_boot [0x600000] (0x600000 + 48) t bs'"
    using kmalloc_ok [OF kh_boot_inv, of 100] t by auto
  then have l: "live t bs' = {0x600000}" "guards_ok t 0x600000"
    using kh_boot_live by (auto simp: alloc_ok_def)
  let ?t = "t\<lparr>bytes := (bytes t)(0x60002C := 0)\<rparr>"
  have b': "heap_inv ?t bs'" "live ?t bs' = {0x600000}"
    using b(1) l by (auto simp: heap_inv_def heap_core_def heap_lay_def quar_ring_def live_def)
  have g: "mem_read (bytes t) (0x600000 + HEADER_SIZE) 8 = replicate 8 0xBE"
    "mem_read (bytes t) (0x600000 + HEADER_SIZE + bsize (hdr t 0x600000) - CANARY_SIZE) 18 =
       tag_bytes (tagged_canary144 (btag (hdr t 0x600000)))"
    using l(2) by (auto simp: guards_ok_def list_eq_iff_nth_eq tag_read_eq_iff)
  have "mem_read (bytes ?t) (0x600000 + HEADER_SIZE) 8 ! 4 \<noteq> replicate 8 0xBE ! 4" by simp
  then have u: "mem_read (bytes ?t) (0x600000 + HEADER_SIZE) 8 \<noteq> replicate 8 0xBE" by metis
  show ?thesis
    using kfree_verdict [OF b(1), where b = "0x600000"] kfree_verdict [OF b'(1), where b = "0x600000"] l(1) b'(2) g u t
    by auto
qed


lemma kmalloc_not_quarantined:
  assumes "heap_inv t bs" "b \<in> set bs" "bmagic (hdr t b) = HEAP_MAGIC_QUARANTINE" "kmalloc n t = Some (p, u)"
  shows "p \<noteq> b + 48"
proof (cases "n = 0")
  case False
  have lay: "heap_lay t bs" using assms(1) by (auto simp: heap_inv_def heap_core_def)
  show ?thesis
  proof (rule kmalloc_cases [OF lay False])
    fix cur
    assume c: "cur \<in> set bs" "bfree (hdr t cur)"
      and k: "kmalloc n t = Some (mark_alloc cur (split_block cur (reserved_size n) t))"
    have "cur \<noteq> b" using c assms(3) heap_lay_block(5) [OF lay assms(2)] by (auto simp: block_ok_def)
    moreover have "mark_alloc cur (split_block cur (reserved_size n) t) = (p, u)" using k assms(4) by simp
    ultimately show ?thesis using mark_alloc_simps(1) by fastforce
  qed (use assms(4) in auto)
qed (use assms in auto)

text \<open>A request of 4 GB minus at most 7 bytes wraps to zero in \<^verbatim>\<open>ALIGN8\<close>: \<^verbatim>\<open>malloc\<close> succeeds and
  returns a block of fewer than 82 bytes, redzone and canary included.\<close>

theorem kmalloc_size_wraps:
  assumes "heap_inv s bs" "b \<in> set bs" "bfree (hdr s b)" "26 \<le> bsize (hdr s b)"
    and "4294967289 \<le> n" "n < 4294967296"
  shows "\<exists>c t. kmalloc n s = Some (c + 48, t) \<and> bsize (hdr t c) < 82"
proof -
  have lay: "heap_lay s bs" using assms(1) by (auto simp: heap_inv_def heap_core_def)
  have "wrap32 (n + 7) = n + 7 - 4294967296"
  proof -
    have "n + 7 = (n + 7 - 4294967296) + 4294967296" using assms(5) by simp
    moreover have "n + 7 - 4294967296 < 4294967296" using assms(6) by simp
    ultimately show ?thesis unfolding wrap32_def by (metis mod_add_self2 mod_less)
  qed
  then have "align8 n = 0" using assms(5,6) by (simp add: align8_def)
  then have r: "reserved_size n = 26" by (simp add: reserved_size_def)
  show ?thesis
  proof (rule kmalloc_cases [OF lay, of n])
    show "n \<noteq> 0" using assms(5) by simp
  next
    assume "\<forall>b\<in>set bs. bfree (hdr s b) \<longrightarrow> bsize (hdr s b) < reserved_size n"
    then show ?thesis using assms(2-4) r by fastforce
  next
    fix cur
    assume k: "reserved_size n \<le> bsize (hdr s cur)"
      "kmalloc n s = Some (mark_alloc cur (split_block cur (reserved_size n) s))"
    obtain p t where p: "mark_alloc cur (split_block cur (reserved_size n) s) = (p, t)" by force
    have "bsize (hdr (split_block cur 26 s) cur) < 82"
      by (auto simp: split_block_def Let_def)
    then show ?thesis using k mark_alloc_simps(1,3) [OF p] r p by auto
  qed
qed

theorem kmalloc_size_wraps_witness:
  "\<exists>c t. kmalloc 4294967295 kh_boot = Some (c + 48, t) \<and> bsize (hdr t c) < 82"
  by (rule kmalloc_size_wraps [OF kh_boot_inv, where b = "0x600000"])
    (simp_all add: kh_boot_def init_heap_def)

end
