(* ===== verification/HeapStore.thy ===== *)
theory HeapStore
  imports KHeapInv
begin

section \<open>Allocated memory as storage\<close>

text \<open>
  The second interface of the kernel heap: what its clients rely on when they keep data in the
  blocks they own. \<open>store_allocator\<close> extends \<open>allocator\<close> with the usable size of a live block,
  stores and loads of bytes, and the laws that neither \<open>malloc\<close> and \<open>free\<close> of other blocks nor
  stores into other blocks or below the arena disturb them. The kernel heap interprets it.
\<close>

locale store_allocator = allocator alloc dealloc inv live maxreq
  for alloc :: "nat \<Rightarrow> 'h \<Rightarrow> (nat \<times> 'h) option" and dealloc :: "nat \<Rightarrow> 'h \<Rightarrow> ('e + 'h) option"
    and inv :: "'h \<Rightarrow> bool" and live :: "'h \<Rightarrow> nat set" and maxreq :: nat +
  fixes usable :: "'h \<Rightarrow> nat \<Rightarrow> nat" and store :: "nat \<Rightarrow> u8 list \<Rightarrow> 'h \<Rightarrow> 'h"
    and mem :: "'h \<Rightarrow> bmem" and low :: "'h \<Rightarrow> nat"
  assumes alloc_usable: "inv h \<Longrightarrow> n \<le> maxreq \<Longrightarrow> alloc n h = Some (p, h') \<Longrightarrow> p \<noteq> 0 \<Longrightarrow> n \<le> usable h' p"
    and alloc_frame: "inv h \<Longrightarrow> n \<le> maxreq \<Longrightarrow> alloc n h = Some (p, h') \<Longrightarrow> q \<in> live h \<Longrightarrow>
      usable h' q = usable h q \<and> (\<forall>i < usable h q. mem h' (q + i) = mem h (q + i))"
    and dealloc_frame: "inv h \<Longrightarrow> p \<in> live h \<Longrightarrow> dealloc p h = Some (Inr h') \<Longrightarrow> q \<in> live h - {p} \<Longrightarrow>
      usable h' q = usable h q \<and> (\<forall>i < usable h q. mem h' (q + i) = mem h (q + i))"
    and store_inside: "inv h \<Longrightarrow> p \<in> live h \<Longrightarrow> off + length bs \<le> usable h p \<Longrightarrow>
      inv (store (p + off) bs h) \<and> live (store (p + off) bs h) = live h \<and>
      usable (store (p + off) bs h) = usable h"
    and store_below: "inv h \<Longrightarrow> a + length bs \<le> low h \<Longrightarrow>
      inv (store a bs h) \<and> live (store a bs h) = live h \<and> usable (store a bs h) = usable h"
    and store_mem: "mem (store a bs h) = mem_write (mem h) a bs"
    and live_low: "inv h \<Longrightarrow> p \<in> live h \<Longrightarrow> low h \<le> p \<and> p \<noteq> 0"
    and live_apart: "inv h \<Longrightarrow> p \<in> live h \<Longrightarrow> q \<in> live h \<Longrightarrow> p \<noteq> q \<Longrightarrow>
      p + usable h p \<le> q \<or> q + usable h q \<le> p"
    and low_alloc: "inv h \<Longrightarrow> n \<le> maxreq \<Longrightarrow> alloc n h = Some (p, h') \<Longrightarrow>
      low h' = low h \<and> (\<forall>x < low h. mem h' x = mem h x)"
    and low_dealloc: "inv h \<Longrightarrow> p \<in> live h \<Longrightarrow> dealloc p h = Some (Inr h') \<Longrightarrow>
      low h' = low h \<and> (\<forall>x < low h. mem h' x = mem h x)"
    and low_store: "low (store a bs h) = low h"
begin

text \<open>What a block holds survives stores into another block.\<close>

lemma store_other:
  assumes "inv h" "p \<in> live h" "q \<in> live h" "p \<noteq> q" "off + length bs \<le> usable h p" "i < usable h q"
  shows "mem (store (p + off) bs h) (q + i) = mem h (q + i)"
  using live_apart [OF assms(1-4)] assms(5,6) by (auto simp: store_mem mem_write_def)

lemma store_below_block:
  assumes "inv h" "q \<in> live h" "a + length bs \<le> low h" "i < usable h q"
  shows "mem (store a bs h) (q + i) = mem h (q + i)"
  using live_low [OF assms(1,2)] assms(3) by (auto simp: store_mem mem_write_def)

text \<open>A freshly allocated block can be filled, and reads back what was stored.\<close>

lemma alloc_store:
  assumes "inv h" "n \<le> maxreq" "alloc n h = Some (p, h')" "p \<noteq> 0" "off + length bs \<le> n"
  shows "inv (store (p + off) bs h') \<and> live (store (p + off) bs h') = insert p (live h) \<and>
    mem_read (mem (store (p + off) bs h')) (p + off) (length bs) = bs"
proof -
  note f = alloc_inv [OF assms(1-3)] alloc_fresh [OF assms(1-4)] alloc_usable [OF assms(1-4)]
  then have "off + length bs \<le> usable h' p" using assms(5) by linarith
  then show ?thesis using store_inside [of h' p off bs] f
    by (simp add: store_mem mem_read_write_same)
qed

end

subsection \<open>The kernel heap provides it\<close>

definition kh_usable :: "kheap \<Rightarrow> nat \<Rightarrow> nat" where
  "kh_usable s p = bsize (hdr s (p - HEADER_SIZE - RZONE_SIZE)) - RZONE_SIZE - CANARY_SIZE"

definition kh_store :: "nat \<Rightarrow> u8 list \<Rightarrow> kheap \<Rightarrow> kheap" where
  "kh_store a bs s = s\<lparr>bytes := mem_write (bytes s) a bs\<rparr>"

lemma kh_store_simps [simp]:
  "hdr (kh_store a bs s) = hdr s" "bytes (kh_store a bs s) = mem_write (bytes s) a bs"
  "heap_base (kh_store a bs s) = heap_base s" "heap_head (kh_store a bs s) = heap_head s"
  "quarantine (kh_store a bs s) = quarantine s"
  "quarantine_count (kh_store a bs s) = quarantine_count s"
  "quarantine_pos (kh_store a bs s) = quarantine_pos s" "heap_ticks (kh_store a bs s) = heap_ticks s"
  by (simp_all add: kh_store_def)

lemma kh_store_inv: "heap_inv (kh_store a bs s) xs = heap_inv s xs"
  by (simp add: heap_inv_def heap_core_def heap_lay_def quar_ring_def)

lemma kh_store_live: "live (kh_store a bs s) xs = live s xs"
  by (simp add: live_def)

text \<open>Guards are kept by every store that stays out of them.\<close>

lemma kh_store_guards:
  assumes "guards_ok s c" "26 \<le> bsize (hdr s c)"
    and "\<And>x. a \<le> x \<Longrightarrow> x < a + length bs \<Longrightarrow>
      \<not> (c + 40 \<le> x \<and> x < c + 48) \<and> \<not> (c + 40 + bsize (hdr s c) - 18 \<le> x \<and> x < c + 40 + bsize (hdr s c))"
  shows "guards_ok (kh_store a bs s) c"
proof -
  have out: "bytes (kh_store a bs s) x = bytes s x"
    if "c + 40 \<le> x \<and> x < c + 48 \<or> c + 40 + bsize (hdr s c) - 18 \<le> x \<and> x < c + 40 + bsize (hdr s c)" for x
    using assms(3) [of x] that by (auto simp: mem_write_def)
  let ?e = "c + HEADER_SIZE + bsize (hdr s c) - CANARY_SIZE"
  have "mem_read (bytes (kh_store a bs s)) ?e 18 = mem_read (bytes s) ?e 18"
    by (rule mem_read_eqI) (rule out, use assms(2) in auto)
  then have "tag_read (bytes (kh_store a bs s)) ?e = tag_read (bytes s) ?e"
    using tag_read_eq_iff by metis
  moreover have "bytes (kh_store a bs s) (c + HEADER_SIZE + i) = bytes s (c + HEADER_SIZE + i)"
    if "i < RZONE_SIZE" for i
    using that by (intro out) auto
  ultimately show ?thesis using assms(1) by (simp add: guards_ok_def)
qed

lemma heap_inv_lay: "heap_inv s xs \<Longrightarrow> heap_lay s xs"
  by (auto simp: heap_inv_def dest: heap_core_lay)

lemma kh_store_keeps:
  assumes "kh_inv s" and
    "\<And>xs c x. heap_inv s xs \<Longrightarrow> c \<in> live s xs \<Longrightarrow> a \<le> x \<Longrightarrow> x < a + length bs \<Longrightarrow>
      \<not> (c + 40 \<le> x \<and> x < c + 48) \<and> \<not> (c + 40 + bsize (hdr s c) - 18 \<le> x \<and> x < c + 40 + bsize (hdr s c))"
  shows "kh_inv (kh_store a bs s) \<and> kh_live (kh_store a bs s) = kh_live s \<and>
    kh_usable (kh_store a bs s) = kh_usable s"
proof -
  from assms(1) obtain xs where xs: "heap_inv s xs" "\<forall>b \<in> live s xs. guards_ok s b"
    by (auto simp: kh_inv_def)
  have "guards_ok (kh_store a bs s) c" if "c \<in> live s xs" for c
    using kh_store_guards assms(2) [OF xs(1) that] xs(2) live_block [OF xs(1) that] that by blast
  then have "kh_inv (kh_store a bs s)"
    using xs(1) by (auto simp: kh_inv_def kh_store_inv kh_store_live)
  then show ?thesis by (auto simp: kh_live_def kh_store_inv kh_store_live kh_usable_def fun_eq_iff)
qed

text \<open>Neither \<open>malloc\<close> nor \<open>free\<close> writes below the arena.\<close>

lemma kmalloc_low:
  assumes "heap_lay s bs" "kmalloc n s = Some (p, t)"
  shows "heap_base t = heap_base s \<and> heap_ticks t = heap_ticks s \<and> (\<forall>x < heap_base s. bytes t x = bytes s x)"
proof (cases "n = 0")
  case True
  then show ?thesis using assms(2) by simp
next
  case False
  show ?thesis
  proof (rule kmalloc_cases [OF assms(1) False])
    assume "kmalloc n s = Some (0, s)"
    then show ?thesis using assms(2) by simp
  next
    fix cur assume c: "cur \<in> set bs" and k: "kmalloc n s = Some (mark_alloc cur (split_block cur (reserved_size n) s))"
    let ?t = "split_block cur (reserved_size n) s"
    have m: "mark_alloc cur ?t = (p, t)" using k assms(2) by simp
    have st: "bytes ?t = bytes s" "heap_base ?t = heap_base s" "heap_ticks ?t = heap_ticks s"
      by (simp_all add: split_block_def Let_def)
    have "heap_ticks t = heap_ticks ?t" using m by (auto simp: mark_alloc_def Let_def split: prod.splits)
    moreover have "bytes t x = bytes s x" if "x < heap_base s" for x
      using heap_lay_block(2) [OF assms(1) c] that
      unfolding mark_alloc_simps(13) [OF m] st by (simp add: mem_write_def)
    ultimately show ?thesis using mark_alloc_simps(8) [OF m] st by simp
  qed
qed

lemma release_low:
  assumes "release_from_quarantine b s = Some t" "heap_base s \<le> b"
  shows "heap_base t = heap_base s \<and> heap_ticks t = heap_ticks s \<and> (\<forall>x < heap_base s. bytes t x = bytes s x)"
proof -
  have "bytes t = bytes (poison b s) \<and> heap_base t = heap_base s \<and> heap_ticks t = heap_ticks s"
    using assms(1) unfolding release_from_quarantine_def merge_prev_def merge_next_def
    by (auto simp: poison_def Let_def split: option.splits if_splits)
  then show ?thesis using assms(2) by (auto simp: poison_def Let_def mem_write_def)
qed

lemma kfree_low:
  assumes "heap_inv s bs" "kfree p s = Some (Inr t)"
  shows "heap_base t = heap_base s \<and> heap_ticks t = heap_ticks s \<and> (\<forall>x < heap_base s. bytes t x = bytes s x)"
proof (cases "p = 0")
  case True
  then show ?thesis using assms(2) by (simp add: kfree_def)
next
  case False
  let ?b = "p - RZONE_SIZE - HEADER_SIZE"
  let ?s = "s\<lparr>hdr := (hdr s)(?b := (hdr s ?b)\<lparr>bmagic := HEAP_MAGIC_QUARANTINE\<rparr>)\<rparr>"
  have q: "quarantine_push ?b ?s = Some t"
    using assms(2) False by (auto simp: kfree_def Let_def split: if_splits)
  from assms(1) obtain Q where Q: "heap_core s bs Q" "quar_ring s Q" by (auto simp: heap_inv_def)
  show ?thesis
  proof (cases "quarantine_count s = QUARANTINE_CAPACITY")
    case False
    then show ?thesis using q by (auto simp: quarantine_push_def)
  next
    case True
    then obtain t1 where t1: "release_from_quarantine (quarantine s ! quarantine_pos s) ?s = Some t1"
      "heap_base t = heap_base t1" "heap_ticks t = heap_ticks t1" "bytes t = bytes t1"
      using q by (auto simp: quarantine_push_def split: option.splits)
    have "quarantine s ! quarantine_pos s \<in> Q"
      using Q(2) True by (auto simp: quar_ring_def)
    then have "quarantine s ! quarantine_pos s \<in> set bs" using Q(1) by (auto simp: heap_core_def)
    then have "heap_base s \<le> quarantine s ! quarantine_pos s"
      using heap_lay_block(2) Q(1) heap_core_lay by blast
    then show ?thesis using release_low [OF t1(1)] t1(2-4) by simp
  qed
qed

lemma same_block_usable:
  assumes inv: "heap_inv s bs" and c: "c \<in> live s bs" and "same_block s t c"
  shows "kh_usable t (c + 48) = kh_usable s (c + 48) \<and>
    (\<forall>i < kh_usable s (c + 48). bytes t (c + 48 + i) = bytes s (c + 48 + i))"
  using assms(3) live_block [OF inv c] by (auto simp: same_block_def kh_usable_def)

interpretation ks: store_allocator kmalloc kfree kh_inv kh_live 4294967264 kh_usable kh_store bytes heap_base
proof
  fix h h' :: kheap and n p q off a :: nat and bs :: "u8 list"
  show "bytes (kh_store a bs h) = mem_write (bytes h) a bs" "heap_base (kh_store a bs h) = heap_base h"
    by simp_all
  assume inv: "kh_inv h"
  then obtain xs where xs: "heap_inv h xs" "\<forall>b \<in> live h xs. guards_ok h b" by (auto simp: kh_inv_def)
  have lv: "\<exists>c. r = c + 48 \<and> c \<in> live h xs" if "r \<in> kh_live h" for r
    using that kh_live_eq [OF xs(1)] by auto
  note lay = heap_inv_lay [OF xs(1)]
  {
    assume n: "n \<le> 4294967264" and a: "kmalloc n h = Some (p, h')"
    show "heap_base h' = heap_base h \<and> (\<forall>x<heap_base h. bytes h' x = bytes h x)"
      using kmalloc_low [OF lay a] by simp
    show "n \<le> kh_usable h' p" if p0: "p \<noteq> 0"
    proof -
      from a p0 have n0: "0 < n" by (cases "n = 0") auto
      then obtain bs' where b': "heap_inv h' bs'" "alloc_ok n h xs p h' bs'"
        using kmalloc_ok [OF xs(1), of n] n a p0 by auto
      then obtain b where b: "p = b + 40 + 8" "{p ..< p + n} \<subseteq> user_bytes h' b" unfolding alloc_ok_def by blast
      have "p + n - 1 \<in> user_bytes h' b" using b(2) n0 by auto
      then show ?thesis using n0 b(1) by (auto simp: user_bytes_def kh_usable_def)
    qed
    show "kh_usable h' q = kh_usable h q \<and> (\<forall>i<kh_usable h q. bytes h' (q + i) = bytes h (q + i))"
      if q: "q \<in> kh_live h"
    proof (cases "n = 0 \<or> p = 0")
      case True
      then have "h' = h" using a kh.alloc_null [OF inv n, of h'] by (cases "n = 0") auto
      then show ?thesis by simp
    next
      case False
      obtain c where c: "q = c + 48" "c \<in> live h xs" using lv [OF q] by blast
      obtain bs' where "alloc_ok n h xs p h' bs'"
        using kmalloc_ok [OF xs(1), of n] n a False by auto
      then have "same_block h h' c" using c(2) by (auto simp: alloc_ok_def)
      then show ?thesis using same_block_usable [OF xs(1) c(2)] c(1) by simp
    qed
  }
  {
    assume p: "p \<in> kh_live h"
    then obtain c where c: "p = c + 48" "c \<in> live h xs" using lv by blast
    note lb = live_block [OF xs(1) c(2)] and rb = heap_lay_block [OF lay, of c]
    show "heap_base h \<le> p \<and> p \<noteq> 0" using rb lb c(1) by auto
    {
      assume f: "kfree p h = Some (Inr h')"
      show "heap_base h' = heap_base h \<and> (\<forall>x<heap_base h. bytes h' x = bytes h x)"
        using kfree_low [OF xs(1) f] by simp
      show "kh_usable h' q = kh_usable h q \<and> (\<forall>i<kh_usable h q. bytes h' (q + i) = bytes h (q + i))"
        if q: "q \<in> kh_live h - {p}"
      proof -
        obtain d where d: "q = d + 48" "d \<in> live h xs" using lv q by blast
        have "d \<noteq> c" using q c(1) d(1) by auto
        have "guards_ok h c" using xs(2) c(2) by blast
        then obtain t where "kfree (c + HEADER_SIZE + RZONE_SIZE) h = Some (Inr t)"
          "\<forall>c' \<in> live h xs - {c}. same_block h t c'"
          using kfree_ok [OF xs(1) c(2)] by blast
        then have "kfree p h = Some (Inr t)" "\<forall>c' \<in> live h xs - {c}. same_block h t c'"
          using c(1) by (simp_all add: add.commute)
        then have "same_block h h' d" using f d(2) \<open>d \<noteq> c\<close> by auto
        then show ?thesis using same_block_usable [OF xs(1) d(2)] d(1) by simp
      qed
    }
    show "p + kh_usable h p \<le> q \<or> q + kh_usable h q \<le> p" if q: "q \<in> kh_live h" "p \<noteq> q"
    proof -
      obtain d where d: "q = d + 48" "d \<in> live h xs" using lv q by blast
      have "c + HEADER_SIZE + bsize (hdr h c) \<le> d \<or> d + HEADER_SIZE + bsize (hdr h d) \<le> c"
        using heap_lay_disjoint [OF lay, of c d] c d q by (auto simp: live_def)
      then show ?thesis using c(1) d(1) lb live_block [OF xs(1) d(2)] by (auto simp: kh_usable_def)
    qed
    assume fit: "off + length bs \<le> kh_usable h p"
    show "kh_inv (kh_store (p + off) bs h) \<and> kh_live (kh_store (p + off) bs h) = kh_live h \<and>
        kh_usable (kh_store (p + off) bs h) = kh_usable h"
    proof (rule kh_store_keeps [OF inv])
      fix ys d x assume d: "heap_inv h ys" "d \<in> live h ys" and x: "p + off \<le> x" "x < p + off + length bs"
      have "d \<in> live h xs" using d xs(1) heap_inv_unique by blast
      note db = live_block [OF xs(1) this]
      have in_c: "c + 48 \<le> x" "x < c + 40 + bsize (hdr h c) - 18"
        using x fit c(1) lb by (auto simp: kh_usable_def)
      show "\<not> (d + 40 \<le> x \<and> x < d + 48) \<and>
          \<not> (d + 40 + bsize (hdr h d) - 18 \<le> x \<and> x < d + 40 + bsize (hdr h d))"
      proof (cases "d = c")
        case True
        then show ?thesis using in_c by auto
      next
        case False
        then have "c + HEADER_SIZE + bsize (hdr h c) \<le> d \<or> d + HEADER_SIZE + bsize (hdr h d) \<le> c"
          using heap_lay_disjoint [OF lay, of c d] lb db by auto
        then show ?thesis using in_c db lb by auto
      qed
    qed
  }
  assume fit: "a + length bs \<le> heap_base h"
  show "kh_inv (kh_store a bs h) \<and> kh_live (kh_store a bs h) = kh_live h \<and> kh_usable (kh_store a bs h) = kh_usable h"
  proof (rule kh_store_keeps [OF inv])
    fix ys d x assume d: "heap_inv h ys" "d \<in> live h ys" and x: "a \<le> x" "x < a + length bs"
    have "d \<in> set ys" using d(2) by (simp add: live_def)
    then have "heap_base h \<le> d" using heap_lay_block(2) [OF heap_inv_lay [OF d(1)]] by blast
    then show "\<not> (d + 40 \<le> x \<and> x < d + 48) \<and>
        \<not> (d + 40 + bsize (hdr h d) - 18 \<le> x \<and> x < d + 40 + bsize (hdr h d))"
      using x fit live_block [OF d] by auto
  qed
qed

subsection \<open>The quarantine is a queue\<close>

text \<open>Neither \<open>malloc\<close> nor a store moves the quarantine, and \<open>free\<close> of a live block enters it at the position of the oldest one.\<close>

lemma kmalloc_quarantine:
  assumes "heap_lay s bs" "kmalloc n s = Some (p, t)"
  shows "quarantine t = quarantine s \<and> quarantine_count t = quarantine_count s \<and> quarantine_pos t = quarantine_pos s"
proof (cases "n = 0")
  case True
  then show ?thesis using assms(2) by simp
next
  case False
  show ?thesis
  proof (rule kmalloc_cases [OF assms(1) False])
    fix cur assume k: "kmalloc n s = Some (mark_alloc cur (split_block cur (reserved_size n) s))"
    then have m: "mark_alloc cur (split_block cur (reserved_size n) s) = (p, t)" using assms(2) by simp
    show ?thesis unfolding mark_alloc_simps(10-12) [OF m] by (simp add: split_block_def Let_def)
  qed (use assms(2) in simp)
qed

lemma release_quarantine:
  "release_from_quarantine b s = Some t \<Longrightarrow>
     quarantine t = quarantine s \<and> quarantine_count t = quarantine_count s \<and> quarantine_pos t = quarantine_pos s"
  unfolding release_from_quarantine_def merge_prev_def merge_next_def
  by (auto simp: poison_def Let_def split: option.splits if_splits)

lemma kfree_quarantine:
  assumes "kfree p s = Some (Inr t)" "p \<noteq> 0"
  shows "quarantine t = (quarantine s)[quarantine_pos s := p - 48] \<and> quarantine_pos t = (quarantine_pos s + 1) mod QUARANTINE_CAPACITY \<and>
    quarantine_count t = (if quarantine_count s = QUARANTINE_CAPACITY then quarantine_count s else quarantine_count s + 1)"
proof -
  let ?b = "p - RZONE_SIZE - HEADER_SIZE"
  let ?s = "s\<lparr>hdr := (hdr s)(?b := (hdr s ?b)\<lparr>bmagic := HEAP_MAGIC_QUARANTINE\<rparr>)\<rparr>"
  have q: "quarantine_push ?b ?s = Some t" and b: "?b = p - 48" using assms by (auto simp: kfree_def Let_def split: if_splits)
  show ?thesis
  proof (cases "quarantine_count s = QUARANTINE_CAPACITY")
    case False
    then show ?thesis using q b by (auto simp: quarantine_push_def)
  next
    case True
    then obtain t1 where "release_from_quarantine (quarantine s ! quarantine_pos s) ?s = Some t1"
      "t = t1\<lparr>quarantine := (quarantine t1)[quarantine_pos t1 := ?b], quarantine_pos := (quarantine_pos t1 + 1) mod QUARANTINE_CAPACITY\<rparr>"
      using q by (auto simp: quarantine_push_def split: option.splits)
    then show ?thesis using release_quarantine [of _ ?s t1] True b by auto
  qed
qed

text \<open>\<open>waits k b s\<close>: the block entered the quarantine and \<open>k\<close> blocks entered after it.\<close>

definition waits :: "nat \<Rightarrow> nat \<Rightarrow> kheap \<Rightarrow> bool" where
  "waits k b s \<longleftrightarrow> (\<exists>i < quarantine_count s. quarantine s ! i = b \<and> (i + 1 + k) mod QUARANTINE_CAPACITY = quarantine_pos s)"

lemma kh_inv_ring:
  assumes "kh_inv s"
  shows "length (quarantine s) = QUARANTINE_CAPACITY" "quarantine_count s \<le> QUARANTINE_CAPACITY" "quarantine_pos s < QUARANTINE_CAPACITY"
    "quarantine_count s < QUARANTINE_CAPACITY \<Longrightarrow> quarantine_pos s = quarantine_count s"
  using assms by (auto simp: kh_inv_def heap_inv_def quar_ring_def)

lemma waits_quarantined:
  assumes "kh_inv s" "waits k b s"
  shows "\<exists>bs. heap_inv s bs \<and> b \<in> set bs \<and> bmagic (hdr s b) = HEAP_MAGIC_QUARANTINE"
proof -
  obtain bs Q where h: "heap_inv s bs" "heap_core s bs Q" "quar_ring s Q" using assms(1) by (auto simp: kh_inv_def heap_inv_def)
  have "b \<in> set (take (quarantine_count s) (quarantine s))"
    using assms(2) kh_inv_ring(1,2) [OF assms(1)] by (auto simp: waits_def in_set_conv_nth)
  then have "b \<in> Q" using h(3) by (simp add: quar_ring_def)
  then show ?thesis using h(1,2) by (auto simp: heap_core_def)
qed

lemma waits_detected:
  assumes "kh_inv s" "waits k b s"
  shows "kfree (b + 48) s = Some (Inl DoubleFree)"
  using waits_quarantined [OF assms] by (auto simp: kfree_def Let_def)

lemma waits_malloc:
  assumes i: "kh_inv s" and w: "waits k b s" and m: "kmalloc n s = Some (p, t)"
  shows "waits k b t \<and> p \<noteq> b + 48"
proof -
  obtain bs where bs: "heap_inv s bs" "b \<in> set bs" "bmagic (hdr s b) = HEAP_MAGIC_QUARANTINE" using waits_quarantined [OF i w] by blast
  show ?thesis using kmalloc_quarantine [OF heap_inv_lay [OF bs(1)] m] w kmalloc_not_quarantined [OF bs m] by (simp add: waits_def)
qed

lemma waits_free:
  assumes i: "kh_inv s" and w: "waits k b s" and k: "k + 1 < QUARANTINE_CAPACITY" and f: "kfree p s = Some (Inr t)" "p \<noteq> 0"
  shows "waits (k + 1) b t"
proof -
  note r = kh_inv_ring [OF i] and q = kfree_quarantine [OF f]
  obtain j where j: "j < quarantine_count s" "quarantine s ! j = b" "(j + 1 + k) mod QUARANTINE_CAPACITY = quarantine_pos s"
    using w by (auto simp: waits_def)
  have j8: "j < 8" using j(1) r(2) by simp
  have "j \<noteq> quarantine_pos s"
  proof
    assume "j = quarantine_pos s"
    then have "(j + (1 + k)) mod 8 = j" using j(3) by (simp add: add.assoc)
    moreover have "(j + (1 + k)) mod 8 = (if j + (1 + k) < 8 then j + (1 + k) else j + (1 + k) - 8)" using k j8 by (simp add: mod_if)
    ultimately show False using k by (auto split: if_splits)
  qed
  then have "quarantine t ! j = b" using q j(2) by simp
  moreover have "j < quarantine_count t" using q j(1) by simp
  moreover have "((j + 1 + k) + 1) mod QUARANTINE_CAPACITY = ((j + 1 + k) mod QUARANTINE_CAPACITY + 1) mod QUARANTINE_CAPACITY"
    by (simp only: mod_add_left_eq)
  then have "(j + 1 + (k + 1)) mod QUARANTINE_CAPACITY = quarantine_pos t" unfolding j(3) using q by (simp only: add.assoc)
  ultimately show ?thesis unfolding waits_def by blast
qed

text \<open>What happens on the heap between two calls of \<^verbatim>\<open>free\<close>: the owners of blocks allocate, free and fill their blocks. The result is the list of
  pointers handed out and the heap; \<open>None\<close> is a report of corruption, which halts the machine.\<close>

datatype heap_op = Malloc nat | is_Free: Free nat | Fill nat "u8 list"

primrec heap_ops :: "heap_op list \<Rightarrow> kheap \<Rightarrow> (nat list \<times> kheap) option" where
  "heap_ops [] s = Some ([], s)"
| "heap_ops (op # ops) s =
     (case op of
        Malloc n \<Rightarrow> (case kmalloc n s of None \<Rightarrow> None | Some (p, t) \<Rightarrow> map_option (\<lambda>(ps, u). (p # ps, u)) (heap_ops ops t))
      | Free p \<Rightarrow> (case kfree p s of Some (Inr t) \<Rightarrow> heap_ops ops t | _ \<Rightarrow> None)
      | Fill a bs \<Rightarrow> heap_ops ops (kh_store a bs s))"

text \<open>The owners free only what is live and write only inside their blocks.\<close>

primrec owners_ok :: "heap_op list \<Rightarrow> kheap \<Rightarrow> bool" where
  "owners_ok [] s = True"
| "owners_ok (op # ops) s =
     (case op of
        Malloc n \<Rightarrow> n \<le> 4294967264 \<and> (\<forall>p t. kmalloc n s = Some (p, t) \<longrightarrow> owners_ok ops t)
      | Free p \<Rightarrow> p \<in> kh_live s \<and> (\<forall>t. kfree p s = Some (Inr t) \<longrightarrow> owners_ok ops t)
      | Fill a bs \<Rightarrow> (\<exists>p\<in>kh_live s. p \<le> a \<and> a + length bs \<le> p + kh_usable s p) \<and> owners_ok ops (kh_store a bs s))"

lemma heap_ops_wait:
  "kh_inv s \<Longrightarrow> waits k b s \<Longrightarrow> owners_ok ops s \<Longrightarrow> k + length (filter is_Free ops) < QUARANTINE_CAPACITY \<Longrightarrow>
     \<exists>ps u j. heap_ops ops s = Some (ps, u) \<and> kh_inv u \<and> waits j b u \<and> b + 48 \<notin> set ps"
proof (induction ops arbitrary: s k)
  case (Cons op ops)
  show ?case
  proof (cases op)
    case (Malloc n)
    obtain p t where t: "kmalloc n s = Some (p, t)" using kh.alloc_returns [OF Cons.prems(1), of n] Cons.prems(3) Malloc by auto
    have "kh_inv t" using kh.alloc_inv [OF Cons.prems(1) _ t] Cons.prems(3) Malloc by simp
    moreover have "waits k b t" "p \<noteq> b + 48" using waits_malloc [OF Cons.prems(1,2) t] by simp_all
    ultimately show ?thesis using Cons.IH [of t k] Cons.prems(3,4) Malloc t by fastforce
  next
    case (Free p)
    then have p: "p \<in> kh_live s" using Cons.prems(3) by simp
    obtain t where t: "kfree p s = Some (Inr t)" "kh_inv t" using kh.dealloc_live [OF Cons.prems(1) p] by blast
    have "waits (k + 1) b t"
      by (rule waits_free [OF Cons.prems(1,2) _ t(1)]) (use Cons.prems(4) Free ks.live_low [OF Cons.prems(1) p] in auto)
    then show ?thesis using Cons.IH [of t "k + 1"] Cons.prems(3,4) Free t by fastforce
  next
    case (Fill a bs)
    then obtain p where p: "p \<in> kh_live s" "p \<le> a" "a + length bs \<le> p + kh_usable s p" using Cons.prems(3) by auto
    have "kh_inv (kh_store (p + (a - p)) bs s)" using ks.store_inside [OF Cons.prems(1) p(1), of "a - p" bs] p(2,3) by simp
    then have "kh_inv (kh_store a bs s)" using p(2) by simp
    moreover have "waits k b (kh_store a bs s)" using Cons.prems(2) by (simp add: waits_def)
    ultimately show ?thesis using Cons.IH [of "kh_store a bs s" k] Cons.prems(3,4) Fill by fastforce
  qed
qed auto

text \<open>C23. Freeing a block twice is detected for as long as the quarantine holds it: after the first \<^verbatim>\<open>free\<close>, whatever the owners of other blocks allocate, free and write,
  the block is not handed out again and a second \<^verbatim>\<open>free\<close> of it is reported, until eight more blocks (the capacity of the
  quarantine) have been freed.\<close>

theorem kfree_twice_detected:
  assumes "kh_inv s" "p \<in> kh_live s" "kfree p s = Some (Inr t)" "owners_ok ops t" "length (filter is_Free ops) < QUARANTINE_CAPACITY"
  shows "\<exists>ps u. heap_ops ops t = Some (ps, u) \<and> kh_inv u \<and> p \<notin> set ps \<and> kfree p u = Some (Inl DoubleFree)"
proof -
  obtain bs where bs: "heap_inv s bs" using assms(1) by (auto simp: kh_inv_def)
  obtain b where b: "p = b + 48" using assms(2) kh_live_eq [OF bs] by auto
  have i: "kh_inv t" using kh.dealloc_live [OF assms(1,2)] assms(3) by auto
  note r = kh_inv_ring [OF assms(1)] and q = kfree_quarantine [OF assms(3)]
  have "waits 0 b t"
    unfolding waits_def using q r b by (intro exI [of _ "quarantine_pos s"]) auto
  then obtain ps u j where "heap_ops ops t = Some (ps, u)" "kh_inv u" "waits j b u" "b + 48 \<notin> set ps"
    using heap_ops_wait [OF i _ assms(4), of 0 b] assms(5) by auto
  then show ?thesis using waits_detected b by blast
qed

theorem kfree_twice_detected_witness:
  "\<exists>t u ps v. kmalloc 8 kh_boot = Some (0x600030, t) \<and> kfree 0x600030 t = Some (Inr u) \<and> heap_ops [Malloc 16] u = Some (ps, v) \<and>
    kfree 0x600030 v = Some (Inl DoubleFree)"
proof -
  have "kh_inv kh_boot" using kh_boot_inv kh_boot_live by (auto simp: kh_inv_def)
  moreover obtain t where t: "kmalloc 8 kh_boot = Some (0x600030, t)" using kh_boot_alloc [of 8] by auto
  ultimately have i: "kh_inv t" "0x600030 \<in> kh_live t" using kh.alloc_inv [of kh_boot 8] kh.alloc_fresh [of kh_boot 8] by auto
  then obtain u where u: "kfree 0x600030 t = Some (Inr u)" using kh.dealloc_live by blast
  have "owners_ok [Malloc 16] u" by simp
  from kfree_twice_detected [OF i u this] t u show ?thesis by auto
qed

end
