(* ===== verification/Fat12.thy ===== *)
theory Fat12
  imports AxPrelude
begin

section \<open>The FAT12 driver\<close>

text \<open>
  \<^verbatim>\<open>src/src/fs/fat12.c\<close> and the forwarding layer \<^verbatim>\<open>src/src/kernel/vfs.c\<close>. The volume is a RAM
  copy (\<open>img\<close>, offsets relative to \<^verbatim>\<open>FAT12_BASE\<close>) of the first 4096 sectors of the disk; every
  operation works on the copy and \<^verbatim>\<open>fat12_flush\<close> writes it back. The BPB and directory fields
  are read from their byte offsets, FAT entries are 12 bits packed into byte pairs. Cluster
  numbers and byte offsets are naturals, with the wrap-around of \<^verbatim>\<open>unsigned int\<close> written out where
  the code can wrap. The loops over cluster chains follow entries found on the disk: they are
  \<^theory_text>\<open>partial_function (option)\<close>, so that their termination is a lemma. The IDE driver is the
  device: \<open>disk\<close> holds its sectors and \<open>ide_ok\<close> tells which of them it can transfer.
\<close>

record fat12 =
  img :: bmem
  disk :: bmem
  ide_ok :: "nat \<Rightarrow> bool"
  fat12_ready :: bool
  fat12_locked :: bool

abbreviation IDE_SECTOR_SIZE :: nat where "IDE_SECTOR_SIZE \<equiv> 512"
abbreviation FAT12_TOTAL_SECTORS :: nat where "FAT12_TOTAL_SECTORS \<equiv> 4096"

definition rd16 :: "bmem \<Rightarrow> nat \<Rightarrow> nat" where
  "rd16 m a = unat (le_word (mem_read m a 2) :: u16)"

definition rd32 :: "bmem \<Rightarrow> nat \<Rightarrow> nat" where
  "rd32 m a = unat (le_word (mem_read m a 4) :: u32)"

definition wr16 :: "nat \<Rightarrow> nat \<Rightarrow> bmem \<Rightarrow> bmem" where
  "wr16 a v m = mem_write m a (le_bytes 2 (word_of_nat v :: u16))"

definition wr32 :: "nat \<Rightarrow> nat \<Rightarrow> bmem \<Rightarrow> bmem" where
  "wr32 a v m = mem_write m a (le_bytes 4 (word_of_nat v :: u32))"

subsection \<open>The boot parameter block\<close>

definition bytes_per_sector :: "bmem \<Rightarrow> nat" where "bytes_per_sector m = rd16 m 11"
definition sectors_per_cluster :: "bmem \<Rightarrow> nat" where "sectors_per_cluster m = unat (m 13)"
definition reserved_sectors :: "bmem \<Rightarrow> nat" where "reserved_sectors m = rd16 m 14"
definition num_fats :: "bmem \<Rightarrow> nat" where "num_fats m = unat (m 16)"
definition root_entries :: "bmem \<Rightarrow> nat" where "root_entries m = rd16 m 17"
definition total_sectors :: "bmem \<Rightarrow> nat" where "total_sectors m = rd16 m 19"
definition sectors_per_fat :: "bmem \<Rightarrow> nat" where "sectors_per_fat m = rd16 m 22"

lemmas bpb_defs = bytes_per_sector_def sectors_per_cluster_def reserved_sectors_def num_fats_def
  root_entries_def total_sectors_def sectors_per_fat_def

definition cluster_bytes :: "bmem \<Rightarrow> nat" where
  "cluster_bytes m = sectors_per_cluster m * bytes_per_sector m"

definition fat_base :: "bmem \<Rightarrow> nat" where
  "fat_base m = reserved_sectors m * bytes_per_sector m"

definition fat12_root_dir_offset :: "bmem \<Rightarrow> nat" where
  "fat12_root_dir_offset m =
     wrap32 ((reserved_sectors m + num_fats m * sectors_per_fat m) * bytes_per_sector m)"

definition root_dir_sectors :: "bmem \<Rightarrow> nat" where
  "root_dir_sectors m = (root_entries m * 32) div bytes_per_sector m"

definition fat12_data_offset :: "bmem \<Rightarrow> nat" where
  "fat12_data_offset m = wrap32 (fat12_root_dir_offset m + root_dir_sectors m * bytes_per_sector m)"

text \<open>Unsigned subtraction, whose wrap-around makes a huge cluster count of a corrupt BPB.\<close>

definition fat12_total_clusters :: "bmem \<Rightarrow> nat" where
  "fat12_total_clusters m =
     wrap32 (total_sectors m + 4294967296 - reserved_sectors m
       - num_fats m * sectors_per_fat m - root_dir_sectors m) div sectors_per_cluster m"

subsection \<open>FAT entries\<close>

definition fat12_get_entry :: "bmem \<Rightarrow> nat \<Rightarrow> nat" where
  "fat12_get_entry m cluster =
     (let off = fat_base m + (cluster + cluster div 2);
          v = (ucast (m off) :: u32) OR push_bit 8 (ucast (m (off + 1)))
      in unat (if odd cluster then drop_bit 4 v else v AND 0x0FFF))"

definition fat12_set_entry :: "nat \<Rightarrow> nat \<Rightarrow> bmem \<Rightarrow> bmem" where
  "fat12_set_entry cluster v m =
     (let off = fat_base m + (cluster + cluster div 2); w = (word_of_nat v :: u32)
      in if odd cluster
         then m(off := (m off AND 0x0F) OR ucast (push_bit 4 (w AND 0x0F)),
                off + 1 := ucast (drop_bit 4 w AND 0xFF))
         else m(off := ucast (w AND 0xFF),
                off + 1 := (m (off + 1) AND 0xF0) OR ucast (drop_bit 8 w AND 0x0F)))"

partial_function (option) fat12_free_chain :: "nat \<Rightarrow> bmem \<Rightarrow> bmem option" where
  "fat12_free_chain c m =
     (if 2 \<le> c \<and> c < 0xFF8
      then fat12_free_chain (fat12_get_entry m c) (fat12_set_entry c 0 m)
      else Some m)"

text \<open>The loop of \<^verbatim>\<open>fat12_alloc_chain\<close>, with its locals \<open>first\<close>, \<open>prev\<close> and \<open>allocated\<close>.\<close>

function alloc_loop ::
  "nat \<Rightarrow> nat \<Rightarrow> nat \<Rightarrow> nat \<Rightarrow> nat \<Rightarrow> nat \<Rightarrow> bmem \<Rightarrow> nat \<times> nat \<times> nat \<times> bmem" where
  "alloc_loop tot n c first prev allocated m =
     (if c \<le> wrap32 (tot + 1) \<and> allocated < n
      then if fat12_get_entry m c = 0
           then alloc_loop tot n (c + 1) (if prev \<noteq> 0 then first else c) c (allocated + 1)
                  (if prev \<noteq> 0 then fat12_set_entry prev c m else m)
           else alloc_loop tot n (c + 1) first prev allocated m
      else (first, prev, allocated, m))"
  by auto
termination
  by (relation "measure (\<lambda>(t, n, c, _). Suc (wrap32 (t + 1)) - c)") auto

declare alloc_loop.simps [simp del]

definition fat12_alloc_chain :: "nat \<Rightarrow> bmem \<Rightarrow> (nat \<times> bmem) option" where
  "fat12_alloc_chain n m =
     (if n = 0 then Some (0, m)
      else let (first, prev, allocated, m1) = alloc_loop (fat12_total_clusters m) n 2 0 0 0 m
           in if allocated < n
              then (if first \<noteq> 0
                    then map_option (\<lambda>m2. (0, m2)) (fat12_free_chain first m1)
                    else Some (0, m1))
              else Some (first, fat12_set_entry prev 0xFFF m1))"

subsection \<open>File data\<close>

definition cluster_addr :: "bmem \<Rightarrow> nat \<Rightarrow> nat" where
  "cluster_addr m c = fat12_data_offset m + wrap32 ((c - 2) * cluster_bytes m)"

partial_function (option) fat12_write_chain_data ::
  "nat \<Rightarrow> u8 list \<Rightarrow> nat \<Rightarrow> bmem \<Rightarrow> bmem option" where
  "fat12_write_chain_data c data written m =
     (if 2 \<le> c \<and> c < 0xFF8 \<and> written < length data
      then let chunk = min (cluster_bytes m) (length data - written);
               m1 = mem_write m (cluster_addr m c) (take chunk (drop written data))
           in fat12_write_chain_data (fat12_get_entry m1 c) data (written + chunk) m1
      else Some m)"

text \<open>The loop of \<^verbatim>\<open>fat12_read_file\<close>; \<open>buf\<close> holds the \<open>total_read\<close> bytes read so far.\<close>

partial_function (option) read_chain ::
  "bmem \<Rightarrow> nat \<Rightarrow> nat \<Rightarrow> nat \<Rightarrow> u8 list \<Rightarrow> u8 list option" where
  "read_chain m c remaining max_size buf =
     (if 2 \<le> c \<and> c < 0xFF8 \<and> 0 < remaining \<and> length buf < max_size
      then let chunk = min (min (cluster_bytes m) remaining) (max_size - length buf)
           in read_chain m (fat12_get_entry m c) (remaining - chunk) max_size
                (buf @ mem_read m (cluster_addr m c) chunk)
      else Some buf)"

definition fat12_read_file :: "nat \<Rightarrow> nat \<Rightarrow> bmem \<Rightarrow> u8 list option" where
  "fat12_read_file e max_size m = read_chain m (rd16 m (e + 26)) (rd32 m (e + 28)) max_size []"

subsection \<open>Directory entries\<close>

text \<open>Offsets in \<^verbatim>\<open>struct fat12_dir_entry\<close>: name 0, ext 8, attr 11, reserved 12, time 22, date 24,
  start_cluster 26, file_size 28; an entry is the offset of its 32 bytes.\<close>

abbreviation ent_name :: "bmem \<Rightarrow> nat \<Rightarrow> u8 list" where "ent_name m e \<equiv> mem_read m e 8"
abbreviation ent_ext :: "bmem \<Rightarrow> nat \<Rightarrow> u8 list" where "ent_ext m e \<equiv> mem_read m (e + 8) 3"
abbreviation ent_attr :: "bmem \<Rightarrow> nat \<Rightarrow> u8" where "ent_attr m e \<equiv> m (e + 11)"
abbreviation ent_start :: "bmem \<Rightarrow> nat \<Rightarrow> nat" where "ent_start m e \<equiv> rd16 m (e + 26)"
abbreviation ent_size :: "bmem \<Rightarrow> nat \<Rightarrow> nat" where "ent_size m e \<equiv> rd32 m (e + 28)"

definition dir_entries :: "bmem \<Rightarrow> nat list" where
  "dir_entries m = map (\<lambda>i. fat12_root_dir_offset m + 32 * i) [0..<root_entries m]"

text \<open>The entries before the end marker, deleted ones left out.\<close>

definition used_entries :: "bmem \<Rightarrow> nat list" where
  "used_entries m = filter (\<lambda>e. m e \<noteq> 0xE5) (takeWhile (\<lambda>e. m e \<noteq> 0) (dir_entries m))"

definition fat12_find :: "u8 list \<Rightarrow> u8 list \<Rightarrow> bmem \<Rightarrow> nat option" where
  "fat12_find nm ext m = find (\<lambda>e. ent_name m e = nm \<and> ent_ext m e = ext) (used_entries m)"

definition fat12_find_free_entry :: "bmem \<Rightarrow> nat option" where
  "fat12_find_free_entry m = find (\<lambda>e. m e = 0 \<or> m e = 0xE5) (dir_entries m)"

text \<open>8.3 names: the bytes of a C string up to its terminator, as two padded fields.\<close>

definition upper8 :: "u8 \<Rightarrow> u8" where
  "upper8 c = (if 0x61 \<le> c \<and> c \<le> 0x7A then c - 32 else c)"

fun base_83 :: "nat \<Rightarrow> u8 list \<Rightarrow> u8 list \<times> u8 list" where
  "base_83 n [] = ([], [])"
| "base_83 n (c # cs) =
     (if c = 0x2E \<or> n = 0 then ([], c # cs)
      else let (b, r) = base_83 (n - 1) cs in (upper8 c # b, r))"

definition pad_to :: "nat \<Rightarrow> u8 list \<Rightarrow> u8 list" where
  "pad_to n cs = take n cs @ replicate (n - length cs) 0x20"

definition parse_83 :: "u8 list \<Rightarrow> u8 list \<times> u8 list" where
  "parse_83 input =
     (let (b, r) = base_83 8 input;
          x = (case r of [] \<Rightarrow> [] | c # cs \<Rightarrow> if c = 0x2E then map upper8 (take 3 cs) else [])
      in (pad_to 8 b, pad_to 3 x))"

text \<open>The inverse direction, used by \<^verbatim>\<open>fat12_list\<close> and \<^verbatim>\<open>fat12_readdir\<close>.\<close>

definition show_83 :: "bmem \<Rightarrow> nat \<Rightarrow> u8 list" where
  "show_83 m e =
     takeWhile (\<lambda>c. c \<noteq> 0x20) (ent_name m e) @
     (if m (e + 8) \<noteq> 0x20 then 0x2E # takeWhile (\<lambda>c. c \<noteq> 0x20) (ent_ext m e) else [])"

subsection \<open>Operations\<close>

definition fat12_init :: "fat12 \<Rightarrow> nat \<times> fat12" where
  "fat12_init s =
     (case find (\<lambda>lba. \<not> ide_ok s lba) [0..<FAT12_TOTAL_SECTORS] of
        Some bad \<Rightarrow>
          (0, s\<lparr>fat12_ready := False,
                img := (\<lambda>x. if x < bad * IDE_SECTOR_SIZE then disk s x else img s x)\<rparr>)
      | None \<Rightarrow>
          let m = (\<lambda>x. if x < FAT12_TOTAL_SECTORS * IDE_SECTOR_SIZE then disk s x else img s x)
          in if bytes_per_sector m \<noteq> IDE_SECTOR_SIZE
             then (0, s\<lparr>fat12_ready := False, img := m\<rparr>)
             else (1, s\<lparr>fat12_ready := True, img := m\<rparr>))"

definition fat12_flush :: "fat12 \<Rightarrow> fat12" where
  "fat12_flush s =
     s\<lparr>disk := (\<lambda>x. if x < FAT12_TOTAL_SECTORS * IDE_SECTOR_SIZE \<and> ide_ok s (x div IDE_SECTOR_SIZE)
                     then img s x else disk s x)\<rparr>"

definition fat12_set_locked :: "bool \<Rightarrow> fat12 \<Rightarrow> fat12" where
  "fat12_set_locked l s = s\<lparr>fat12_locked := l\<rparr>"

definition fat12_list :: "fat12 \<Rightarrow> (u8 list \<times> nat) list" where
  "fat12_list s =
     (if fat12_ready s then map (\<lambda>e. (show_83 (img s) e, ent_size (img s) e)) (used_entries (img s))
      else [])"

definition fat12_readdir :: "nat \<Rightarrow> fat12 \<Rightarrow> (u8 list \<times> nat \<times> bool) option" where
  "fat12_readdir index s =
     (if \<not> fat12_ready s then None
      else let m = img s; es = filter (\<lambda>e. ent_attr m e AND 0x08 = 0) (used_entries m)
           in if index < length es
              then let e = es ! index
                   in Some (show_83 m e, ent_size m e, ent_attr m e AND 0x10 \<noteq> 0)
              else None)"

definition fat12_load :: "u8 list \<Rightarrow> nat \<Rightarrow> fat12 \<Rightarrow> u8 list option" where
  "fat12_load filename max_size s =
     (if \<not> fat12_ready s then Some []
      else let (nm, ext) = parse_83 filename; m = img s
           in case fat12_find nm ext m of
                None \<Rightarrow> Some []
              | Some e \<Rightarrow> fat12_read_file e max_size m)"

text \<open>\<^verbatim>\<open>fat12_cat\<close>: what it prints (up to the first zero byte), or nothing.\<close>

definition fat12_cat :: "u8 list \<Rightarrow> fat12 \<Rightarrow> (nat \<times> u8 list) option" where
  "fat12_cat filename s =
     (if \<not> fat12_ready s then Some (0, [])
      else let (nm, ext) = parse_83 filename; m = img s
           in case fat12_find nm ext m of
                None \<Rightarrow> Some (0, [])
              | Some e \<Rightarrow> map_option (\<lambda>bs. (1, takeWhile (\<lambda>c. c \<noteq> 0) bs))
                            (fat12_read_file e 2047 m))"

text \<open>Return codes: 1 done, 0 refused, -1 (\<^verbatim>\<open>FAT12_DELETE_NOTFOUND\<close>, \<^verbatim>\<open>FAT12_MKDIR_EXISTS\<close>), -2
  (\<^verbatim>\<open>FAT12_MKDIR_NOSPACE\<close>).\<close>

definition fat12_delete :: "u8 list \<Rightarrow> fat12 \<Rightarrow> (int \<times> fat12) option" where
  "fat12_delete filename s =
     (if \<not> fat12_ready s \<or> fat12_locked s then Some (0, s)
      else let (nm, ext) = parse_83 filename
           in case fat12_find nm ext (img s) of
                None \<Rightarrow> Some (-1, s)
              | Some e \<Rightarrow>
                  (case (if ent_start (img s) e \<noteq> 0
                         then fat12_free_chain (ent_start (img s) e) (img s) else Some (img s)) of
                     None \<Rightarrow> None
                   | Some m \<Rightarrow> Some (1, fat12_flush (s\<lparr>img := m(e := 0xE5)\<rparr>))))"

definition clear_entry :: "nat \<Rightarrow> bmem \<Rightarrow> bmem" where
  "clear_entry e m = wr32 (e + 28) 0 (wr16 (e + 26) 0 m)"

definition new_entry :: "nat \<Rightarrow> u8 list \<Rightarrow> u8 list \<Rightarrow> u8 \<Rightarrow> bmem \<Rightarrow> bmem" where
  "new_entry e nm ext attr m = mem_write m e (nm @ ext @ [attr] @ replicate 14 0)"

text \<open>The first half of \<^verbatim>\<open>fat12_write\<close>: find or create the entry, release its old chain.\<close>

definition claim_entry :: "u8 list \<Rightarrow> u8 list \<Rightarrow> bmem \<Rightarrow> (nat \<times> bmem) option option" where
  "claim_entry nm ext m =
     (case fat12_find nm ext m of
        None \<Rightarrow>
          (case fat12_find_free_entry m of
             None \<Rightarrow> Some None
           | Some e \<Rightarrow> Some (Some (e, clear_entry e (new_entry e nm ext 0x20 m))))
      | Some e \<Rightarrow>
          (case (if ent_start m e \<noteq> 0 then fat12_free_chain (ent_start m e) m else Some m) of
             None \<Rightarrow> None
           | Some m1 \<Rightarrow> Some (Some (e, clear_entry e m1))))"

definition fat12_write :: "u8 list \<Rightarrow> u8 list \<Rightarrow> fat12 \<Rightarrow> (nat \<times> fat12) option" where
  "fat12_write filename data s =
     (if \<not> fat12_ready s \<or> fat12_locked s then Some (0, s)
      else let (nm, ext) = parse_83 filename
           in case claim_entry nm ext (img s) of
                None \<Rightarrow> None
              | Some None \<Rightarrow> Some (0, s)
              | Some (Some (e, m1)) \<Rightarrow>
                  if data = [] then Some (1, fat12_flush (s\<lparr>img := m1\<rparr>))
                  else let n = wrap32 (length data + cluster_bytes m1 - 1) div cluster_bytes m1
                       in case fat12_alloc_chain n m1 of
                            None \<Rightarrow> None
                          | Some (start, m2) \<Rightarrow>
                              if start = 0 then Some (0, s\<lparr>img := m2\<rparr>)
                              else (case fat12_write_chain_data start data 0 m2 of
                                      None \<Rightarrow> None
                                    | Some m3 \<Rightarrow>
                                        Some (1, fat12_flush (s\<lparr>img :=
                                          wr32 (e + 28) (length data) (wr16 (e + 26) start m3)\<rparr>))))"

text \<open>The \<open>.\<close> and \<open>..\<close> entries of a new directory.\<close>

definition dot_entry :: "u8 list \<Rightarrow> nat \<Rightarrow> u8 list" where
  "dot_entry dots cluster =
     pad_to 8 dots @ replicate 3 0x20 @ [0x10] @ replicate 14 0 @
     le_bytes 2 (word_of_nat cluster :: u16) @ replicate 4 0"

definition fat12_mkdir :: "u8 list \<Rightarrow> fat12 \<Rightarrow> (int \<times> fat12) option" where
  "fat12_mkdir dirname s =
     (if \<not> fat12_ready s \<or> fat12_locked s then Some (0, s)
      else let (nm, ext) = parse_83 dirname
           in if fat12_find nm ext (img s) \<noteq> None then Some (-1, s)
              else (case fat12_find_free_entry (img s) of
                      None \<Rightarrow> Some (-2, s)
                    | Some e \<Rightarrow>
                        (case fat12_alloc_chain 1 (img s) of
                           None \<Rightarrow> None
                         | Some (cluster, m1) \<Rightarrow>
                             if cluster = 0 then Some (-2, s\<lparr>img := m1\<rparr>)
                             else let m2 = wr32 (e + 28) 0
                                        (wr16 (e + 26) cluster (new_entry e nm ext 0x10 m1));
                                      a = cluster_addr m2 cluster;
                                      m3 = mem_write m2 a (replicate (cluster_bytes m2) 0);
                                      m4 = mem_write m3 a (dot_entry [0x2E] cluster @
                                                           dot_entry [0x2E, 0x2E] 0)
                                  in Some (1, fat12_flush (s\<lparr>img := m4\<rparr>)))))"

text \<open>The VFS layer (\<^verbatim>\<open>vfs.c\<close>) forwards every call to the driver of its only root.\<close>

definition vfs_write :: "u8 list \<Rightarrow> u8 list \<Rightarrow> fat12 \<Rightarrow> (nat \<times> fat12) option" where
  "vfs_write filename data s = fat12_write filename data s"

definition vfs_read :: "u8 list \<Rightarrow> nat \<Rightarrow> fat12 \<Rightarrow> u8 list option" where
  "vfs_read filename max_size s = fat12_load filename max_size s"

definition vfs_delete :: "u8 list \<Rightarrow> fat12 \<Rightarrow> (int \<times> fat12) option" where
  "vfs_delete filename s = fat12_delete filename s"

definition vfs_mkdir :: "u8 list \<Rightarrow> fat12 \<Rightarrow> (int \<times> fat12) option" where
  "vfs_mkdir dirname s = fat12_mkdir dirname s"

definition vfs_readdir :: "nat \<Rightarrow> fat12 \<Rightarrow> (u8 list \<times> nat \<times> bool) option" where
  "vfs_readdir index s = fat12_readdir index s"

end
