(* ===== verification/Fat12Inv.thy ===== *)
theory Fat12Inv
  imports Fat12
begin

section \<open>The FAT as a map, chains and allocation\<close>

text \<open>
  A FAT entry after a write to any entry; chains of clusters; the release of a chain, which ends
  on every table, even a cyclic one; allocation, which takes the lowest free clusters or leaves
  the table as it was.
\<close>

subsection \<open>Packing of 12-bit entries\<close>

lemma unat_drop: "unat (drop_bit n w) = unat w div 2 ^ n"
  by (subst unat_drop_bit_eq) (rule drop_bit_eq_div)

lemma unat_pair:
  "unat ((ucast (lo :: u8) :: u32) OR push_bit 8 (ucast (hi :: u8))) = unat lo + 256 * unat hi"
proof -
  have "(ucast lo :: u32) OR push_bit 8 (ucast hi) = ucast lo + push_bit 8 (ucast hi)"
    by (rule disjunctive_add_eq_or [symmetric], rule bit_word_eqI)
      (auto simp: bit_simps dest: bit_imp_le_length)
  then show ?thesis
    using unat_byte [of lo] unat_byte [of hi]
    by (simp add: push_bit_eq_mult unat_word_ariths unsigned_ucast_eq take_bit_eq_mod)
qed

lemma nat_and_masks:
  fixes n :: nat
  shows "n AND 15 = n mod 16" "n AND 255 = n mod 256" "n AND 4095 = n mod 4096"
  using take_bit_eq_mask [of 4 n] take_bit_eq_mask [of 8 n] take_bit_eq_mask [of 12 n]
  by (simp_all add: mask_eq_exp_minus_1 take_bit_eq_mod)

lemma get_entry_nat:
  "fat12_get_entry m c =
    (let off = fat_base m + (c + c div 2); v = unat (m off) + 256 * unat (m (off + 1))
     in if odd c then v div 16 else v mod 4096)"
proof -
  have "unat (if odd c then drop_bit 4 v else v AND 0x0FFF) =
      (if odd c then unat v div 16 else unat v mod 4096)" for v :: u32
    by (simp add: unat_drop unsigned_and_eq nat_and_masks)
  then show ?thesis
    by (simp only: fat12_get_entry_def Let_def unat_pair)
qed

lemma nat_or_low:
  fixes x y :: nat
  assumes "x < 2 ^ n"
  shows "x OR push_bit n y = x + y * 2 ^ n"
proof -
  have "\<not> bit x k" if "n \<le> k" for k
    using assms that take_bit_nat_eq_self [OF assms] by (metis bit_take_bit_iff leD)
  then have "x OR push_bit n y = x + push_bit n y"
    by (intro disjunctive_add_eq_or [symmetric] bit_eqI) (auto simp: bit_simps)
  then show ?thesis by (simp add: push_bit_eq_mult)
qed

lemma byte_lo_nibble:
  fixes b :: u8 and w :: u32
  shows "(b AND 0x0F) OR ucast (push_bit 4 (w AND 0x0F)) =
    word_of_nat (unat b mod 16 + 16 * (unat w mod 16))"
proof -
  have "unat w mod 16 < 16" "unat b mod 16 < 16" by simp_all
  then have "unat ((b AND 0x0F) OR ucast (push_bit 4 (w AND 0x0F))) = unat b mod 16 + 16 * (unat w mod 16)" (is "unat ?x = ?n")
    using nat_or_low [of "unat b mod 16" 4 "unat w mod 16"]
    by (simp add: unsigned_or_eq unsigned_and_eq nat_and_masks unsigned_ucast_eq unsigned_push_bit_eq
        push_bit_eq_mult take_bit_eq_mod mult.commute unat_word_ariths)
  then have "?x = word_of_nat ?n" by (metis of_nat_unat ucast_id)
  then show ?thesis .
qed

lemma byte_hi_nibble:
  fixes b :: u8 and w :: u32
  shows "(b AND 0xF0) OR ucast (drop_bit 8 w AND 0x0F) =
    word_of_nat (16 * (unat b div 16) + unat w div 256 mod 16)"
proof -
  have "unat (b AND 0xF0) = 16 * (unat b div 16)"
  proof -
    have "b AND 0xF0 = push_bit 4 (drop_bit 4 b)"
    proof -
      have m: "(0xF0 :: u8) = NOT (mask 4)" by (simp add: mask_eq_exp_minus_1)
      show ?thesis unfolding m by (rule bit_word_eqI) (auto simp: bit_simps)
    qed
    then show ?thesis
      using unat_byte [of b] by (simp add: push_bit_eq_mult unat_drop unat_word_ariths)
  qed
  moreover have "unat w div 256 mod 16 < 16" by simp
  ultimately have "unat ((b AND 0xF0) OR ucast (drop_bit 8 w AND 0x0F)) =
      16 * (unat b div 16) + unat w div 256 mod 16" (is "unat ?x = ?n")
    using nat_or_low [of "unat w div 256 mod 16" 4 "unat b div 16"]
    by (simp add: unsigned_or_eq unsigned_and_eq nat_and_masks unsigned_ucast_eq unat_drop
        push_bit_eq_mult take_bit_eq_mod or.commute mult.commute mod_mod_cancel)
  then have "?x = word_of_nat ?n" by (metis of_nat_unat ucast_id)
  then show ?thesis .
qed

lemma byte_hi:
  fixes w :: u32
  shows "ucast (drop_bit 4 w AND 0xFF) = (word_of_nat (unat w div 16) :: u8)"
  by (simp add: word_unat_eq_iff unat_of_nat unsigned_ucast_eq take_bit_eq_mod unsigned_and_eq
      nat_and_masks unat_drop)

lemma byte_lo:
  fixes w :: u32
  shows "ucast (w AND 0xFF) = (word_of_nat (unat w) :: u8)"
  by (simp add: word_unat_eq_iff unat_of_nat unsigned_ucast_eq take_bit_eq_mod unsigned_and_eq
      nat_and_masks)

text \<open>Both functions in arithmetic.\<close>

lemma set_entry_nat:
  "fat12_set_entry c v m =
    (let off = fat_base m + (c + c div 2); w = v mod 4294967296
     in if odd c
        then m(off := word_of_nat (unat (m off) mod 16 + 16 * (w mod 16)),
               off + 1 := word_of_nat (w div 16))
        else m(off := word_of_nat w,
               off + 1 := word_of_nat (16 * (unat (m (off + 1)) div 16) + w div 256 mod 16)))"
proof -
  have w: "unat (word_of_nat v :: u32) = v mod 4294967296"
    by (simp add: unat_of_nat)
  show ?thesis
    unfolding fat12_set_entry_def Let_def byte_lo_nibble byte_hi_nibble byte_hi
    unfolding byte_lo w
    by (rule refl)
qed
subsection \<open>Geometry\<close>

definition bpb_same :: "bmem \<Rightarrow> bmem \<Rightarrow> bool" where
  "bpb_same m m' \<longleftrightarrow> (\<forall>x<24. m' x = m x)"

lemma bpb_same_refl [simp]: "bpb_same m m"
  by (simp add: bpb_same_def)

lemma bpb_same_trans: "bpb_same a b \<Longrightarrow> bpb_same b c \<Longrightarrow> bpb_same a c"
  by (simp add: bpb_same_def)

lemma rd16_same: "bpb_same m m' \<Longrightarrow> a \<le> 22 \<Longrightarrow> rd16 m' a = rd16 m a"
proof -
  assume a: "bpb_same m m'" "a \<le> 22"
  have "mem_read m' a 2 = mem_read m a 2"
    by (rule mem_read_eqI) (use a in \<open>simp add: bpb_same_def\<close>)
  then show ?thesis by (simp add: rd16_def)
qed

lemma bpb_fields:
  assumes "bpb_same m m'"
  shows "bytes_per_sector m' = bytes_per_sector m" "sectors_per_cluster m' = sectors_per_cluster m"
    "reserved_sectors m' = reserved_sectors m" "num_fats m' = num_fats m"
    "root_entries m' = root_entries m" "total_sectors m' = total_sectors m"
    "sectors_per_fat m' = sectors_per_fat m"
  using assms rd16_same [OF assms]
  by (simp_all add: bpb_defs) (simp_all add: bpb_same_def)

lemma bpb_derived:
  assumes "bpb_same m m'"
  shows "fat_base m' = fat_base m" "cluster_bytes m' = cluster_bytes m"
    "fat12_root_dir_offset m' = fat12_root_dir_offset m" "fat12_data_offset m' = fat12_data_offset m"
    "fat12_total_clusters m' = fat12_total_clusters m" "cluster_addr m' c = cluster_addr m c"
    "dir_entries m' = dir_entries m"
  by (simp_all add: fat_base_def cluster_bytes_def fat12_root_dir_offset_def fat12_data_offset_def
      fat12_total_clusters_def root_dir_sectors_def cluster_addr_def dir_entries_def
      bpb_fields [OF assms])

text \<open>
  A volume the driver can work on: 512-byte sectors, a FAT of at least 12 sectors, so that all
  entries a 12-bit value can name lie in it, a root directory of whole sectors, and all of it
  inside the 4096 sectors of the RAM copy (what \<^verbatim>\<open>tools/make_fat12.py\<close> writes).
\<close>

definition fs_ok :: "bmem \<Rightarrow> bool" where
  "fs_ok m \<longleftrightarrow>
     bytes_per_sector m = 512 \<and> 0 < sectors_per_cluster m \<and> 0 < reserved_sectors m \<and>
     0 < num_fats m \<and> 12 \<le> sectors_per_fat m \<and> root_entries m mod 16 = 0 \<and>
     reserved_sectors m + num_fats m * sectors_per_fat m + root_entries m div 16 \<le> total_sectors m \<and>
     total_sectors m \<le> 4096 \<and> fat12_total_clusters m \<le> 4085"

lemma fs_ok_same: "bpb_same m m' \<Longrightarrow> fs_ok m' = fs_ok m"
  by (simp add: fs_ok_def bpb_fields bpb_derived)

lemma fs_ok_layout:
  assumes "fs_ok m"
  shows "fat_base m = 512 * reserved_sectors m" "512 \<le> fat_base m"
    "fat12_root_dir_offset m = 512 * (reserved_sectors m + num_fats m * sectors_per_fat m)"
    "fat_base m + 6144 \<le> fat12_root_dir_offset m"
    "fat12_data_offset m = fat12_root_dir_offset m + 32 * root_entries m"
    "fat12_data_offset m \<le> 2097152"
    "fat12_total_clusters m \<le> 4085" "0 < cluster_bytes m"
proof -
  let ?fats = "num_fats m * sectors_per_fat m" and ?r = "root_entries m"
  from assms have bps: "bytes_per_sector m = 512" "0 < sectors_per_cluster m"
    and pos: "0 < reserved_sectors m" "0 < num_fats m" "12 \<le> sectors_per_fat m"
    and fit: "?r mod 16 = 0" "reserved_sectors m + ?fats + ?r div 16 \<le> 4096"
    and tot: "fat12_total_clusters m \<le> 4085"
    unfolding fs_ok_def by auto
  have twelve: "12 \<le> ?fats"
    using pos(2,3) by (metis One_nat_def Suc_leI mult_le_mono nat_mult_1)
  obtain q where q: "?r = 16 * q" using fit(1) by auto
  then have r: "32 * ?r = 512 * (?r div 16)" by simp
  show 1: "fat_base m = 512 * reserved_sectors m" "0 < cluster_bytes m"
    using bps by (simp_all add: fat_base_def cluster_bytes_def)
  show "512 \<le> fat_base m" using 1 pos by simp
  show 2: "fat12_root_dir_offset m = 512 * (reserved_sectors m + ?fats)"
    unfolding fat12_root_dir_offset_def bps using fit(2) by (subst wrap32_id) auto
  show "fat_base m + 6144 \<le> fat12_root_dir_offset m" using 1 2 twelve by simp
  have rds: "root_dir_sectors m * 512 = 32 * ?r"
    unfolding root_dir_sectors_def bps q by simp
  show 3: "fat12_data_offset m = fat12_root_dir_offset m + 32 * ?r"
    unfolding fat12_data_offset_def bps rds 2 r using fit(2) by (subst wrap32_id) auto
  show "fat12_data_offset m \<le> 2097152" unfolding 3 2 r using fit(2) by simp
  show "fat12_total_clusters m \<le> 4085" by (rule tot)
qed

text \<open>Where an entry lies, and that writing it changes these two bytes only.\<close>

definition fat_bytes :: "bmem \<Rightarrow> nat set" where
  "fat_bytes m = {fat_base m ..< fat_base m + 6144}"

definition only_fat :: "bmem \<Rightarrow> bmem \<Rightarrow> bool" where
  "only_fat m m' \<longleftrightarrow> (\<forall>x. x \<notin> fat_bytes m \<longrightarrow> m' x = m x)"

lemma only_fat_refl [simp]: "only_fat m m"
  by (simp add: only_fat_def)

lemma only_fat_same: "only_fat m m' \<Longrightarrow> 512 \<le> fat_base m \<Longrightarrow> bpb_same m m'"
  by (auto simp: only_fat_def bpb_same_def fat_bytes_def)

lemma only_fat_trans:
  "only_fat a b \<Longrightarrow> only_fat b c \<Longrightarrow> 512 \<le> fat_base a \<Longrightarrow> only_fat a c"
  using only_fat_same [of a b] bpb_derived(1) [of a b] by (auto simp: only_fat_def fat_bytes_def)

lemma set_entry_only_fat:
  assumes "c < 4096"
  shows "only_fat m (fat12_set_entry c v m)"
proof -
  have "c + c div 2 + 1 < 6144" using assms by linarith
  then show ?thesis
    by (auto simp: only_fat_def fat_bytes_def fat12_set_entry_def Let_def)
qed

lemma entry_arith:
  fixes v :: nat
  assumes "v < 4096"
  shows "(v mod 256 + 256 * (16 * q + v div 256)) mod 4096 = v"
    "(16 * (M div 16) + v div 256 + 256 * H) div 16 = (M + 256 * H) div 16"
    "(L + 256 * (M mod 16 + 16 * w)) mod 4096 = (L + 256 * M) mod 4096"
    "(r mod 16 + 16 * (v mod 16) + 256 * (v div 16)) div 16 = v"
proof -
  have "v mod 256 + 256 * (16 * q + v div 256) = v + 4096 * q"
    using mult_div_mod_eq [of 256 v] by simp
  then show "(v mod 256 + 256 * (16 * q + v div 256)) mod 4096 = v" using assms by simp
  have "v div 256 < 16" using assms by simp
  moreover have "M + 256 * H = 16 * (M div 16 + 16 * H) + M mod 16"
    using mult_div_mod_eq [of 16 M] by simp
  moreover have "16 * (M div 16) + v div 256 + 256 * H = 16 * (M div 16 + 16 * H) + v div 256"
    by simp
  ultimately show "(16 * (M div 16) + v div 256 + 256 * H) div 16 = (M + 256 * H) div 16"
    by (simp only: div_mult_self4 div_less mod_less_divisor)
  have "L + 256 * (M mod 16 + 16 * w) = (L + 256 * (M mod 16)) + 4096 * w" by simp
  moreover have "L + 256 * M = (L + 256 * (M mod 16)) + 4096 * (M div 16)"
    using mult_div_mod_eq [of 16 M] by linarith
  ultimately show "(L + 256 * (M mod 16 + 16 * w)) mod 4096 = (L + 256 * M) mod 4096"
    by (metis mod_mult_self2)
  have "r mod 16 + 16 * (v mod 16) + 256 * (v div 16) = 16 * v + r mod 16"
    using mult_div_mod_eq [of 16 v] by linarith
  then show "(r mod 16 + 16 * (v mod 16) + 256 * (v div 16)) div 16 = v" by simp
qed

lemma get_set_entry:
  assumes "512 \<le> fat_base m" "c < 4096" "v < 4096"
  shows "fat12_get_entry (fat12_set_entry c v m) d = (if d = c then v else fat12_get_entry m d)"
proof -
  have base: "fat_base (fat12_set_entry c v m) = fat_base m"
    using bpb_derived(1) only_fat_same set_entry_only_fat assms by blast
  have v: "v mod 4294967296 = v" "v div 256 mod 16 = v div 256" using assms by simp_all
  have b: "unat (word_of_nat n :: u8) = n mod 256" for n by (simp add: unat_of_nat)
  obtain j where d: "d = 2 * j \<or> d = 2 * j + 1" by (meson evenE oddE)
  obtain k where c: "c = 2 * k \<or> c = 2 * k + 1" by (meson evenE oddE)
  define B where "B = fat_base m"
  have x: "unat (m a) < 256" for a by (rule unat_byte)
  have div2: "(2 * i + 1) div 2 = i" "2 * i div 2 = i" for i :: nat by simp_all
  have par: "\<not> odd (2 * i)" "odd (2 * i + 1)" for i :: nat by simp_all
  have small: "16 * (unat (m a) div 16) + v div 256 < 256" "unat (m a) mod 16 + 16 * (v mod 16) < 256"
    "v div 16 < 256" for a
  proof -
    have "unat (m a) div 16 < 16" "v div 256 < 16" "unat (m a) mod 16 < 16" "v mod 16 < 16"
      using x [of a] assms(3) by simp_all
    then show "16 * (unat (m a) div 16) + v div 256 < 256"
      "unat (m a) mod 16 + 16 * (v mod 16) < 256" by linarith+
    show "v div 16 < 256" using assms(3) by simp
  qed
  have odd_even: "(L + (256 * (M mod 16) + 4096 * w)) mod 4096 = (L + 256 * M) mod 4096" for L M w :: nat
    using entry_arith(3) [OF assms(3), of L M w] by (simp add: add_mult_distrib2)
  have v4: "v mod 4096 = v" using assms(3) by simp
  show ?thesis
  proof (cases "j = k")
    case True
    with c d show ?thesis
      apply (auto simp: get_entry_nat base B_def [symmetric])
      apply (auto simp: set_entry_nat v B_def [symmetric] b small entry_arith [OF assms(3)] odd_even v4 Let_def simp del: of_nat_add of_nat_mult)
      done
  next
    case False
    then have "3 * j + 2 < 3 * k \<or> 3 * k + 2 < 3 * j" by linarith
    then show ?thesis
      using c d False
      apply (auto simp: get_entry_nat base B_def [symmetric])
      apply (auto simp: set_entry_nat v B_def [symmetric] b small entry_arith [OF assms(3)] odd_even v4 Let_def simp del: of_nat_add of_nat_mult)
      done
  qed
qed

subsection \<open>Chains\<close>

lemma get_entry_bound: "fat12_get_entry m c < 4096"
proof -
  have "unat (m a) + 256 * unat (m b) < 65536" for a b
    using unat_byte [of "m a"] unat_byte [of "m b"] by linarith
  then show ?thesis by (auto simp: get_entry_nat Let_def div_less_iff_less_mult)
qed

text \<open>Following entries from \<open>c\<close> visits \<open>cs\<close> and arrives at \<open>z\<close>.\<close>

primrec chain :: "(nat \<Rightarrow> nat) \<Rightarrow> nat \<Rightarrow> nat list \<Rightarrow> nat \<Rightarrow> bool" where
  "chain f c [] z \<longleftrightarrow> c = z"
| "chain f c (x # xs) z \<longleftrightarrow> c = x \<and> chain f (f x) xs z"

lemma chain_append: "chain f c (xs @ ys) z \<longleftrightarrow> (\<exists>y. chain f c xs y \<and> chain f y ys z)"
  by (induction xs arbitrary: c) auto

lemma chain_cong: "(\<And>x. x \<in> set xs \<Longrightarrow> g x = f x) \<Longrightarrow> chain g c xs z = chain f c xs z"
  by (induction xs arbitrary: c) auto

lemma chain_hd: "chain f c xs z \<Longrightarrow> xs \<noteq> [] \<Longrightarrow> c = hd xs"
  by (cases xs) auto

text \<open>The last link of a chain is redirected: \<^verbatim>\<open>set_entry(prev, z')\<close>.\<close>

lemma chain_set_last:
  assumes "chain f c (xs @ [p]) z" "distinct (xs @ [p])" "g p = z'" "\<And>x. x \<noteq> p \<Longrightarrow> g x = f x"
  shows "chain g c (xs @ [p]) z'"
proof -
  have "chain f c xs p" using assms(1) by (auto simp: chain_append)
  moreover have "chain g c xs p = chain f c xs p"
  proof (rule chain_cong)
    fix x
    assume "x \<in> set xs"
    then have "x \<noteq> p" using assms(2) by auto
    then show "g x = f x" by (rule assms(4))
  qed
  ultimately show ?thesis using assms(3) by (auto simp: chain_append)
qed

abbreviation is_cluster :: "nat \<Rightarrow> bool" where "is_cluster c \<equiv> 2 \<le> c \<and> c < 0xFF8"

lemma free_step:
  "is_cluster c \<Longrightarrow>
    fat12_free_chain c m = fat12_free_chain (fat12_get_entry m c) (fat12_set_entry c 0 m)"
  by (subst fat12_free_chain.simps) auto

lemma free_stop: "\<not> is_cluster c \<Longrightarrow> fat12_free_chain c m = Some m"
  by (subst fat12_free_chain.simps) auto

lemma set_entry_zero:
  assumes "512 \<le> fat_base m" "is_cluster c"
  shows "fat12_get_entry (fat12_set_entry c 0 m) d = (if d = c then 0 else fat12_get_entry m d)"
    "only_fat m (fat12_set_entry c 0 m)" "512 \<le> fat_base (fat12_set_entry c 0 m)"
proof -
  show o: "only_fat m (fat12_set_entry c 0 m)" using assms by (intro set_entry_only_fat) auto
  show "512 \<le> fat_base (fat12_set_entry c 0 m)"
    using bpb_derived(1) [OF only_fat_same [OF o assms(1)]] assms(1) by simp
qed (use assms in \<open>simp add: get_set_entry\<close>)

text \<open>Releasing a chain returns on every table: each round clears an entry that was not zero.\<close>

lemma free_chain_returns:
  assumes "512 \<le> fat_base m"
  shows "\<exists>m'. fat12_free_chain c m = Some m' \<and> only_fat m m' \<and>
    (\<forall>x. fat12_get_entry m' x = fat12_get_entry m x \<or> fat12_get_entry m' x = 0)"
  using assms
proof (induction "card {x. is_cluster x \<and> fat12_get_entry m x \<noteq> 0}" arbitrary: m c rule: less_induct)
  case less
  show ?case
  proof (cases "is_cluster c")
    case False
    then show ?thesis by (auto simp: free_stop)
  next
    case True
    let ?m1 = "fat12_set_entry c 0 m"
    note z = set_entry_zero [OF less.prems True]
    show ?thesis
    proof (cases "fat12_get_entry m c = 0")
      case zero: True
      have "fat12_free_chain c m = Some ?m1"
        using True zero by (simp add: free_step free_stop)
      with z show ?thesis by auto
    next
      case False
      have "{x. is_cluster x \<and> fat12_get_entry ?m1 x \<noteq> 0} \<subset> {x. is_cluster x \<and> fat12_get_entry m x \<noteq> 0}"
        using z(1) True False by auto
      moreover have "finite {x. is_cluster x \<and> fat12_get_entry m x \<noteq> 0}"
        by (rule finite_subset [of _ "{..<0xFF8}"]) auto
      ultimately have "card {x. is_cluster x \<and> fat12_get_entry ?m1 x \<noteq> 0} <
          card {x. is_cluster x \<and> fat12_get_entry m x \<noteq> 0}"
        by (simp add: psubset_card_mono)
      from less.hyps [OF this z(3), of "fat12_get_entry m c"] obtain m'
        where "fat12_free_chain (fat12_get_entry m c) ?m1 = Some m'" "only_fat ?m1 m'"
          "\<forall>x. fat12_get_entry m' x = fat12_get_entry ?m1 x \<or> fat12_get_entry m' x = 0"
        by blast
      moreover from this have "only_fat m m'" using only_fat_trans [OF z(2) _ less.prems] by blast
      moreover have "fat12_get_entry m' x = fat12_get_entry m x \<or> fat12_get_entry m' x = 0" for x
        using calculation(3) z(1) by metis
      ultimately show ?thesis
        using True by (simp add: free_step)
    qed
  qed
qed

lemma free_chain_chain:
  assumes "chain (fat12_get_entry m) c cs z" "distinct cs" "\<forall>x\<in>set cs. is_cluster x"
    "\<not> is_cluster z" "512 \<le> fat_base m"
  shows "\<exists>m'. fat12_free_chain c m = Some m' \<and> only_fat m m' \<and>
    (\<forall>x. fat12_get_entry m' x = (if x \<in> set cs then 0 else fat12_get_entry m x))"
  using assms
proof (induction cs arbitrary: c m)
  case Nil
  then show ?case by (auto simp: free_stop)
next
  case (Cons x xs)
  then have x: "c = x" "is_cluster x" "x \<notin> set xs" by auto
  let ?m1 = "fat12_set_entry x 0 m"
  note z = set_entry_zero [OF Cons.prems(5) x(2)]
  have "chain (fat12_get_entry ?m1) (fat12_get_entry m x) xs z =
      chain (fat12_get_entry m) (fat12_get_entry m x) xs z"
    by (rule chain_cong) (use z(1) x(3) in auto)
  then have "chain (fat12_get_entry ?m1) (fat12_get_entry m x) xs z" using Cons.prems(1) by simp
  from Cons.IH [OF this _ _ Cons.prems(4) z(3)] Cons.prems obtain m'
    where "fat12_free_chain (fat12_get_entry m x) ?m1 = Some m'" "only_fat ?m1 m'"
      "\<forall>y. fat12_get_entry m' y = (if y \<in> set xs then 0 else fat12_get_entry ?m1 y)"
    by auto
  then show ?case
    using x z only_fat_trans [OF z(2) _ Cons.prems(5)] by (auto simp: free_step)
qed

subsection \<open>Allocation\<close>

text \<open>The loop's invariant: the free clusters below \<open>c\<close> are linked in order, the rest is unchanged.\<close>

definition alloc_state :: "bmem \<Rightarrow> nat \<Rightarrow> nat list \<Rightarrow> bmem \<Rightarrow> bool" where
  "alloc_state m0 c cs m \<longleftrightarrow>
     only_fat m0 m \<and> distinct cs \<and> set cs = {x. 2 \<le> x \<and> x < c \<and> fat12_get_entry m0 x = 0} \<and>
     chain (fat12_get_entry m) (if cs = [] then 0 else hd cs) cs 0 \<and>
     (\<forall>x. x \<notin> set cs \<longrightarrow> fat12_get_entry m x = fat12_get_entry m0 x)"

lemma alloc_state_skip:
  "alloc_state m0 c cs m \<Longrightarrow> fat12_get_entry m0 c \<noteq> 0 \<Longrightarrow> alloc_state m0 (Suc c) cs m"
  by (auto simp: alloc_state_def less_Suc_eq)

lemma alloc_state_take:
  assumes st: "alloc_state m0 c cs m" and fb: "512 \<le> fat_base m0"
    and c: "fat12_get_entry m0 c = 0" "2 \<le> c" "c < 4096"
  shows "alloc_state m0 (Suc c) (cs @ [c]) (if cs = [] then m else fat12_set_entry (last cs) c m)"
proof (cases "cs = []")
  case True
  with assms show ?thesis by (auto simp: alloc_state_def less_Suc_eq)
next
  case False
  then obtain ys p where cs: "cs = ys @ [p]" by (metis rev_exhaust)
  let ?m = "fat12_set_entry p c m"
  from st have o: "only_fat m0 m" "512 \<le> fat_base m"
    using bpb_derived(1) [OF only_fat_same] fb by (auto simp: alloc_state_def)
  have p: "p < c" "c \<notin> set cs" using st by (auto simp: alloc_state_def cs)
  have g: "fat12_get_entry ?m x = (if x = p then c else fat12_get_entry m x)" for x
    using o(2) p c by (intro get_set_entry) auto
  have "chain (fat12_get_entry ?m) (hd cs) (ys @ [p]) c"
    by (rule chain_set_last [where f = "fat12_get_entry m" and z = 0])
      (use st g in \<open>auto simp: alloc_state_def cs\<close>)
  then have "chain (fat12_get_entry ?m) (hd (cs @ [c])) (cs @ [c]) 0"
    using st c p g False by (auto simp: chain_append cs alloc_state_def hd_append)
  moreover have "only_fat m0 ?m"
    using only_fat_trans [OF o(1) set_entry_only_fat fb, of p c] p c by auto
  ultimately show ?thesis
    using st c p g False unfolding alloc_state_def by (auto simp: cs less_Suc_eq)
qed

lemma alloc_loop_spec:
  assumes "alloc_state m0 c cs m" "512 \<le> fat_base m0" "tot \<le> 4085" "2 \<le> c" "c \<le> tot + 2"
    "length cs \<le> n"
  shows "\<exists>cs' c' m'. alloc_loop tot n c (if cs = [] then 0 else hd cs) (if cs = [] then 0 else last cs)
      (length cs) m =
      (if cs' = [] then 0 else hd cs', if cs' = [] then 0 else last cs', length cs', m') \<and>
    alloc_state m0 c' cs' m' \<and> c' \<le> tot + 2 \<and>
    (length cs' = n \<or> length cs' < n \<and> c' = tot + 2)"
  using assms
proof (induction "tot + 2 - c" arbitrary: c cs m)
  case 0
  then show ?case by (subst alloc_loop.simps) (intro exI [of _ cs] exI [of _ c] exI [of _ m], auto)
next
  case (Suc k)
  then have c: "c \<le> wrap32 (tot + 1)" "c < 4096" by auto
  show ?case
  proof (cases "length cs < n")
    case False
    with Suc.prems show ?thesis
      by (subst alloc_loop.simps) (intro exI [of _ cs] exI [of _ c] exI [of _ m], auto)
  next
    case lt: True
    have nin: "c \<notin> set cs" and eq: "fat12_get_entry m c = fat12_get_entry m0 c"
      using Suc.prems(1) by (auto simp: alloc_state_def)
    have last: "cs \<noteq> [] \<Longrightarrow> last cs \<noteq> 0"
      using Suc.prems(1) last_in_set [of cs] by (auto simp: alloc_state_def)
    show ?thesis
    proof (cases "fat12_get_entry m0 c = 0")
      case True
      have step: "alloc_loop tot n c (if cs = [] then 0 else hd cs) (if cs = [] then 0 else last cs)
          (length cs) m =
        alloc_loop tot n (Suc c) (hd (cs @ [c])) (last (cs @ [c])) (length (cs @ [c]))
          (if cs = [] then m else fat12_set_entry (last cs) c m)"
        using c lt eq True last by (subst alloc_loop.simps) auto
      show ?thesis
        unfolding step
        using Suc.hyps(1) [OF _ alloc_state_take [OF Suc.prems(1,2) True Suc.prems(4) c(2)]]
          Suc.hyps(2) Suc.prems lt by auto
    next
      case False
      have step: "alloc_loop tot n c (if cs = [] then 0 else hd cs) (if cs = [] then 0 else last cs)
          (length cs) m =
        alloc_loop tot n (Suc c) (if cs = [] then 0 else hd cs) (if cs = [] then 0 else last cs)
          (length cs) m"
        using c lt eq False by (subst alloc_loop.simps) auto
      show ?thesis
        unfolding step
        using Suc.hyps(1) [OF _ alloc_state_skip [OF Suc.prems(1) False]] Suc.hyps(2) Suc.prems c
        by auto
    qed
  qed
qed

definition free_clusters :: "bmem \<Rightarrow> nat set" where
  "free_clusters m = {x. 2 \<le> x \<and> x < fat12_total_clusters m + 2 \<and> fat12_get_entry m x = 0}"

lemma finite_free_clusters [simp]: "finite (free_clusters m)"
  by (rule finite_subset [of _ "{..<fat12_total_clusters m + 2}"]) (auto simp: free_clusters_def)

text \<open>What a successful allocation of \<open>n\<close> clusters makes of the table.\<close>

definition allocated_chain :: "nat \<Rightarrow> bmem \<Rightarrow> nat list \<Rightarrow> bmem \<Rightarrow> bool" where
  "allocated_chain n m cs m' \<longleftrightarrow>
     length cs = n \<and> distinct cs \<and> set cs \<subseteq> free_clusters m \<and>
     chain (fat12_get_entry m') (hd cs) cs 0xFFF \<and>
     (\<forall>x. x \<notin> set cs \<longrightarrow> fat12_get_entry m' x = fat12_get_entry m x)"

lemma alloc_chain_spec:
  assumes ok: "fs_ok m" and n: "0 < n"
  shows "\<exists>start m'. fat12_alloc_chain n m = Some (start, m') \<and> only_fat m m' \<and>
    (if n \<le> card (free_clusters m)
     then start \<noteq> 0 \<and> (\<exists>cs. start = hd cs \<and> allocated_chain n m cs m')
     else start = 0 \<and> fat12_get_entry m' = fat12_get_entry m)"
proof -
  note lay = fs_ok_layout [OF ok]
  define t where "t = fat12_total_clusters m"
  have fr: "free_clusters m = {x. 2 \<le> x \<and> x < t + 2 \<and> fat12_get_entry m x = 0}"
    by (simp add: free_clusters_def t_def)
  have "alloc_state m 2 [] m" by (auto simp: alloc_state_def)
  from alloc_loop_spec [OF this lay(2), of t n] obtain cs c m1
    where run: "alloc_loop t n 2 0 0 0 m =
        (if cs = [] then 0 else hd cs, if cs = [] then 0 else last cs, length cs, m1)"
      and st: "alloc_state m c cs m1" "c \<le> t + 2"
      and len: "length cs = n \<or> length cs < n \<and> c = t + 2"
    using lay(7) n by (auto simp: t_def)
  from st have o: "only_fat m m1" and d: "distinct cs" and sub: "set cs \<subseteq> free_clusters m"
    and rest: "\<And>x. x \<notin> set cs \<Longrightarrow> fat12_get_entry m1 x = fat12_get_entry m x"
    and ch: "chain (fat12_get_entry m1) (if cs = [] then 0 else hd cs) cs 0"
    by (auto simp: alloc_state_def fr)
  have fb: "512 \<le> fat_base m1"
    using bpb_derived(1) [OF only_fat_same [OF o lay(2)]] lay(2) by simp
  have cl: "is_cluster x" if "x \<in> set cs" for x
    using sub that lay(7) by (auto simp: free_clusters_def)
  have zero: "fat12_get_entry m x = 0" if "x \<in> set cs" for x
    using sub that by (auto simp: free_clusters_def)
  show ?thesis
  proof (cases "length cs = n")
    case True
    then have ne: "cs \<noteq> []" using n by auto
    then obtain ys p where cs: "cs = ys @ [p]" by (metis rev_exhaust)
    let ?m = "fat12_set_entry p 0xFFF m1"
    have p: "is_cluster p" "p \<noteq> 0" using cl [of p] cs by auto
    have g: "fat12_get_entry ?m x = (if x = p then 0xFFF else fat12_get_entry m1 x)" for x
      using fb p by (intro get_set_entry) auto
    have "chain (fat12_get_entry ?m) (hd cs) (ys @ [p]) 0xFFF"
      by (rule chain_set_last [where f = "fat12_get_entry m1" and z = 0])
        (use ch d g ne in \<open>auto simp: cs\<close>)
    then have "allocated_chain n m cs ?m"
      using d sub rest g True by (auto simp: allocated_chain_def cs)
    moreover have "only_fat m ?m"
      using only_fat_trans [OF o set_entry_only_fat lay(2)] p by auto
    moreover have "n \<le> card (free_clusters m)"
      using card_mono [OF _ sub] d True by (simp add: distinct_card)
    moreover have "fat12_alloc_chain n m = Some (hd cs, ?m)"
      using n True ne run by (simp add: fat12_alloc_chain_def t_def cs)
    moreover have "hd cs \<noteq> 0" using cl [of "hd cs"] ne by auto
    ultimately show ?thesis by auto
  next
    case False
    with len have lt: "length cs < n" "c = t + 2" by auto
    then have "set cs = free_clusters m" using st(1) by (auto simp: alloc_state_def fr)
    then have few: "\<not> n \<le> card (free_clusters m)"
      using d lt by (metis distinct_card not_le)
    show ?thesis
    proof (cases "cs = []")
      case True
      then have "fat12_get_entry m1 = fat12_get_entry m" using rest by auto
      moreover have "fat12_alloc_chain n m = Some (0, m1)"
        using n lt run True by (simp add: fat12_alloc_chain_def t_def)
      ultimately show ?thesis using o few by auto
    next
      case ne: False
      then have "hd cs \<noteq> 0" using cl [of "hd cs"] by auto
      from free_chain_chain [of m1 "hd cs" cs 0] obtain m2
        where m2: "fat12_free_chain (hd cs) m1 = Some m2" "only_fat m1 m2"
          "\<forall>x. fat12_get_entry m2 x = (if x \<in> set cs then 0 else fat12_get_entry m1 x)"
        using ch d cl fb ne by auto
      have "fat12_get_entry m2 = fat12_get_entry m"
        using m2(3) zero rest by fastforce
      moreover have "fat12_alloc_chain n m = Some (0, m2)"
        using n lt run ne m2(1) \<open>hd cs \<noteq> 0\<close> by (simp add: fat12_alloc_chain_def t_def)
      moreover have "only_fat m m2" using only_fat_trans [OF o m2(2) lay(2)] .
      ultimately show ?thesis using few by auto
    qed
  qed
qed

end
