(* ===== verification/Fat12Files.thy ===== *)
theory Fat12Files
  imports Fat12Inv
begin

section \<open>Files of the FAT12 volume\<close>

text \<open>
  The data of a cluster chain, the directory search, and the properties of the operations: a
  written file reads back, other files keep their contents, every operation returns on every
  table, and a write that finds no space has already released the old contents.
\<close>

subsection \<open>Cluster data\<close>

lemma cluster_addr_wide:
  assumes "fs_ok m" "is_cluster c"
  shows "cluster_addr m c = fat12_data_offset m + (c - 2) * cluster_bytes m"
proof -
  have "sectors_per_cluster m < 256"
    unfolding sectors_per_cluster_def using unat_byte [of "m 13"] by simp
  moreover have "cluster_bytes m = sectors_per_cluster m * 512"
    using assms by (simp add: cluster_bytes_def fs_ok_def)
  ultimately have "cluster_bytes m \<le> 130560" by simp
  then have "(c - 2) * cluster_bytes m \<le> 4086 * 130560"
    using assms by (intro mult_le_mono) auto
  then show ?thesis unfolding cluster_addr_def by (subst wrap32_id) auto
qed

text \<open>Everything below the data area is kept.\<close>

definition above_data :: "bmem \<Rightarrow> bmem \<Rightarrow> bool" where
  "above_data m m' \<longleftrightarrow> (\<forall>x<fat12_data_offset m. m' x = m x)"

lemma above_data_same:
  assumes "above_data m m'" "fs_ok m"
  shows "bpb_same m m'" "fat12_get_entry m' c = fat12_get_entry m c \<or> 4096 \<le> c" "fs_ok m'"
proof -
  note lay = fs_ok_layout [OF assms(2)]
  show b: "bpb_same m m'"
    unfolding bpb_same_def using assms(1) lay(2,4,5) by (simp add: above_data_def)
  show "fs_ok m'" using fs_ok_same [OF b] assms(2) by simp
  have "fat12_get_entry m' c = fat12_get_entry m c" if "c < 4096"
  proof -
    have "fat_base m + (c + c div 2) + 1 < fat12_data_offset m" using that lay(4,5) by simp
    then show ?thesis
      using assms(1) by (simp add: get_entry_nat bpb_derived(1) [OF b] above_data_def)
  qed
  then show "fat12_get_entry m' c = fat12_get_entry m c \<or> 4096 \<le> c" by linarith
qed

lemma above_data_refl [simp]: "above_data m m"
  by (simp add: above_data_def)

lemma above_data_trans: "above_data a b \<Longrightarrow> above_data b c \<Longrightarrow> fs_ok a \<Longrightarrow> above_data a c"
  using above_data_same(1) [of a b] bpb_derived(4) by (simp add: above_data_def)

definition region :: "bmem \<Rightarrow> nat \<Rightarrow> nat set" where
  "region m c = {cluster_addr m c ..< cluster_addr m c + cluster_bytes m}"

lemma region_disjoint:
  assumes "fs_ok m" "is_cluster c" "is_cluster d" "c \<noteq> d"
  shows "region m c \<inter> region m d = {}"
proof -
  have *: "region m c \<inter> region m d = {}" if "c < d" "is_cluster c" "is_cluster d" for c d
  proof -
    have "(c - 2) * cluster_bytes m + cluster_bytes m = Suc (c - 2) * cluster_bytes m" by simp
    also have "\<dots> \<le> (d - 2) * cluster_bytes m"
      using that by (intro mult_le_mono) auto
    finally show ?thesis
      using that assms(1) by (auto simp: region_def cluster_addr_wide)
  qed
  show ?thesis
    using assms * [of c d] * [of d c] by (auto simp: neq_iff Int_commute)
qed

lemma region_above: "fs_ok m \<Longrightarrow> x \<in> region m c \<Longrightarrow> fat12_data_offset m \<le> x"
  by (auto simp: region_def cluster_addr_def)

definition chain_data :: "bmem \<Rightarrow> nat list \<Rightarrow> u8 list" where
  "chain_data m cs = concat (map (\<lambda>c. mem_read m (cluster_addr m c) (cluster_bytes m)) cs)"

lemma chain_data_simps [simp]:
  "chain_data m [] = []"
  "chain_data m (c # cs) = mem_read m (cluster_addr m c) (cluster_bytes m) @ chain_data m cs"
  by (simp_all add: chain_data_def)

lemma take_mem_read: "take k (mem_read m a n) = mem_read m a (min k n)"
  by (rule nth_equalityI) auto

lemma read_chain_spec:
  assumes "chain (fat12_get_entry m) c cs z" "\<forall>x\<in>set cs. is_cluster x" "\<not> is_cluster z"
  shows "read_chain m c remaining max_size buf =
    Some (buf @ take (min remaining (max_size - length buf)) (chain_data m cs))"
  using assms
proof (induction cs arbitrary: c remaining buf)
  case Nil
  then show ?case by (subst read_chain.simps) auto
next
  case (Cons x xs)
  then have c: "c = x" "is_cluster x" "chain (fat12_get_entry m) (fat12_get_entry m x) xs z" by auto
  show ?case
  proof (cases "0 < remaining \<and> length buf < max_size")
    case False
    then show ?thesis by (subst read_chain.simps) auto
  next
    case True
    let ?k = "min (min (cluster_bytes m) remaining) (max_size - length buf)"
    have "read_chain m c remaining max_size buf =
        read_chain m (fat12_get_entry m x) (remaining - ?k) max_size
          (buf @ mem_read m (cluster_addr m x) ?k)"
      using True c by (subst read_chain.simps) (auto simp: Let_def)
    also have "\<dots> = Some ((buf @ mem_read m (cluster_addr m x) ?k) @
        take (min (remaining - ?k) (max_size - (length buf + ?k))) (chain_data m xs))"
      using Cons.IH [OF c(3)] Cons.prems by simp
    also have "\<dots> = Some (buf @ take (min remaining (max_size - length buf)) (chain_data m (x # xs)))"
    proof -
      define M where "M = min remaining (max_size - length buf)"
      have k: "?k = min M (cluster_bytes m)" unfolding M_def by linarith
      have r: "min (remaining - ?k) (max_size - (length buf + ?k)) = M - cluster_bytes m"
        unfolding M_def by linarith
      have "(buf @ mem_read m (cluster_addr m x) (min M (cluster_bytes m))) @
          take (M - cluster_bytes m) (chain_data m xs) = buf @ take M (chain_data m (x # xs))"
        by (simp add: take_mem_read)
      then show ?thesis unfolding r unfolding k M_def [symmetric] by simp
    qed
    finally show ?thesis .
  qed
qed

text \<open>Reading returns on every table, since every round consumes some of the file's size.\<close>

lemma read_chain_returns:
  assumes "0 < cluster_bytes m"
  shows "\<exists>bs. read_chain m c remaining max_size buf = Some bs \<and>
    length bs \<le> length buf + remaining \<and> (length buf \<le> max_size \<longrightarrow> length bs \<le> max_size)"
proof (induction remaining arbitrary: c buf rule: less_induct)
  case (less r)
  show ?case
  proof (cases "is_cluster c \<and> 0 < r \<and> length buf < max_size")
    case False
    then show ?thesis by (subst read_chain.simps) auto
  next
    case True
    let ?k = "min (min (cluster_bytes m) r) (max_size - length buf)"
    have "r - ?k < r" using True assms by auto
    from less.IH [OF this, of "fat12_get_entry m c" "buf @ mem_read m (cluster_addr m c) ?k"]
    show ?thesis
      using True by (subst read_chain.simps) (auto simp: Let_def)
  qed
qed

lemma write_chain_spec:
  assumes "fs_ok m" "chain (fat12_get_entry m) c cs z" "\<forall>x\<in>set cs. is_cluster x" "distinct cs"
    "\<not> is_cluster z" "w \<le> length data" "length data - w \<le> length cs * cluster_bytes m"
  shows "\<exists>m'. fat12_write_chain_data c data w m = Some m' \<and> above_data m m' \<and>
    (\<forall>x. (\<forall>d\<in>set cs. x \<notin> region m d) \<longrightarrow> m' x = m x) \<and>
    take (length data - w) (chain_data m' cs) = drop w data"
  using assms
proof (induction cs arbitrary: c w m)
  case Nil
  then show ?case by (subst fat12_write_chain_data.simps) auto
next
  case (Cons y ys)
  then have c: "c = y" "is_cluster y" "chain (fat12_get_entry m) (fat12_get_entry m y) ys z"
    "y \<notin> set ys" "distinct ys" by auto
  let ?cb = "cluster_bytes m" and ?a = "cluster_addr m y"
  show ?case
  proof (cases "w < length data")
    case False
    with Cons.prems show ?thesis by (subst fat12_write_chain_data.simps) auto
  next
    case True
    let ?k = "min ?cb (length data - w)"
    let ?bs = "take ?k (drop w data)"
    let ?m1 = "mem_write m ?a ?bs"
    have lbs: "length ?bs = ?k" using True by simp
    have run: "fat12_write_chain_data c data w m =
        fat12_write_chain_data (fat12_get_entry ?m1 y) data (w + ?k) ?m1"
      using c True by (subst fat12_write_chain_data.simps) (simp add: Let_def)
    have out: "?m1 x = m x" if "x \<notin> region m y" for x
      using that lbs by (auto simp: mem_write_def region_def)
    have ab: "above_data m ?m1"
      using out region_above [OF Cons.prems(1)] by (fastforce simp: above_data_def)
    note same = above_data_same [OF ab Cons.prems(1)]
    note der = bpb_derived [OF same(1)]
    have entry: "fat12_get_entry ?m1 x = fat12_get_entry m x" if "x < 4096" for x
      using same(2) [of x] that by simp
    have ch1: "chain (fat12_get_entry ?m1) (fat12_get_entry ?m1 y) ys z"
    proof -
      have "chain (fat12_get_entry ?m1) (fat12_get_entry m y) ys z"
        using c(3) Cons.prems(3) entry by (subst chain_cong [of ys _ "fat12_get_entry m"]) auto
      then show ?thesis using entry [of y] c(2) by simp
    qed
    have "length data - (w + ?k) \<le> length ys * cluster_bytes ?m1"
      using Cons.prems(7) by (simp add: der)
    moreover have "\<forall>x\<in>set ys. is_cluster x" "w + ?k \<le> length data"
      using Cons.prems(3) True by auto
    ultimately obtain m'
      where m': "fat12_write_chain_data (fat12_get_entry ?m1 y) data (w + ?k) ?m1 = Some m'"
        "above_data ?m1 m'" "\<And>x. (\<forall>d\<in>set ys. x \<notin> region ?m1 d) \<Longrightarrow> m' x = ?m1 x"
        "take (length data - (w + ?k)) (chain_data m' ys) = drop (w + ?k) data"
      using Cons.IH [OF same(3) ch1 _ c(5) Cons.prems(5)] by blast
    have reg: "region ?m1 d = region m d" for d by (simp add: region_def der)
    note same' = above_data_same(1) [OF m'(2) same(3)]
    have der': "cluster_bytes m' = ?cb" "cluster_addr m' y = ?a"
      by (simp_all only: bpb_derived [OF same'] der)
    have keep: "m' x = m x" if "\<forall>d\<in>set (y # ys). x \<notin> region m d" for x
      using m'(3) [of x] out [of x] that by (simp add: reg)
    have iny: "m' x = ?m1 x" if "x \<in> region m y" for x
    proof (rule m'(3), intro ballI)
      fix d assume "d \<in> set ys"
      then have "region m y \<inter> region m d = {}"
        using c Cons.prems(1,3) by (intro region_disjoint) auto
      then show "x \<notin> region ?m1 d" using that reg by auto
    qed
    have "mem_read m' ?a ?k = mem_read ?m1 ?a ?k"
      by (rule mem_read_eqI, rule iny) (auto simp: region_def)
    then have first: "mem_read m' ?a ?k = ?bs" by (simp add: mem_read_write_same lbs)
    have "take (length data - w) (chain_data m' (y # ys)) = drop w data"
    proof (cases "?cb \<le> length data - w")
      case True
      then have k: "?k = ?cb" by simp
      then show ?thesis
        using first m'(4) True append_take_drop_id [of ?cb "drop w data"]
        by (simp add: der' add.commute diff_diff_add)
    next
      case False
      then have "?k = length data - w" by simp
      then show ?thesis
        using first False by (simp add: der' take_mem_read)
    qed
    moreover have "above_data m m'" using above_data_trans [OF ab m'(2) Cons.prems(1)] .
    ultimately show ?thesis using run m'(1) keep by auto
  qed
qed

subsection \<open>Directory entries\<close>

lemma rd16_wr16 [simp]: "rd16 (wr16 a v m) a = v mod 65536"
  by (simp add: rd16_def wr16_def mem_read_write_same le_word_le_bytes unat_of_nat)

lemma rd32_wr32 [simp]: "rd32 (wr32 a v m) a = v mod 4294967296"
  by (simp add: rd32_def wr32_def mem_read_write_same le_word_le_bytes unat_of_nat)

lemma wr16_out: "x < a \<or> a + 2 \<le> x \<Longrightarrow> wr16 a v m x = m x"
  by (auto simp: wr16_def mem_write_out)

lemma wr32_out: "x < a \<or> a + 4 \<le> x \<Longrightarrow> wr32 a v m x = m x"
  by (auto simp: wr32_def mem_write_out)

lemma rd16_cong: "(\<And>i. i < 2 \<Longrightarrow> m' (a + i) = m (a + i)) \<Longrightarrow> rd16 m' a = rd16 m a"
  by (simp add: rd16_def mem_read_eqI [of 2 m' a m])

lemma rd32_cong: "(\<And>i. i < 4 \<Longrightarrow> m' (a + i) = m (a + i)) \<Longrightarrow> rd32 m' a = rd32 m a"
  by (simp add: rd32_def mem_read_eqI [of 4 m' a m])

lemma dir_entry_range:
  assumes "fs_ok m" "e \<in> set (dir_entries m)"
  shows "fat12_root_dir_offset m \<le> e" "e + 32 \<le> fat12_data_offset m" "fat_base m + 6144 \<le> e"
  using assms(2) fs_ok_layout(4,5) [OF assms(1)] by (auto simp: dir_entries_def)

lemma dir_entry_apart:
  assumes "e \<in> set (dir_entries m)" "e' \<in> set (dir_entries m)" "e \<noteq> e'"
  shows "e + 32 \<le> e' \<or> e' + 32 \<le> e"
  using assms by (auto simp: dir_entries_def)

lemma set_used_entries: "set (used_entries m) \<subseteq> set (dir_entries m)"
  by (auto simp: used_entries_def dest: set_takeWhileD)

definition names_same :: "bmem \<Rightarrow> bmem \<Rightarrow> bool" where
  "names_same m m' \<longleftrightarrow> bpb_same m m' \<and> (\<forall>e\<in>set (dir_entries m). \<forall>k<11. m' (e + k) = m (e + k))"

lemma used_entries_same:
  assumes "names_same m m'"
  shows "used_entries m' = used_entries m"
proof -
  have d: "dir_entries m' = dir_entries m" using assms bpb_derived(7) by (simp add: names_same_def)
  have b: "m' e = m e" if "e \<in> set (dir_entries m)" for e
    using assms that by (auto simp: names_same_def dest!: bspec spec [of _ 0])
  have "takeWhile (\<lambda>e. m' e \<noteq> 0) (dir_entries m) = takeWhile (\<lambda>e. m e \<noteq> 0) (dir_entries m)"
    by (rule takeWhile_cong) (simp_all add: b)
  moreover have "filter (\<lambda>e. m' e \<noteq> 0xE5) (takeWhile (\<lambda>e. m e \<noteq> 0) (dir_entries m)) =
      filter (\<lambda>e. m e \<noteq> 0xE5) (takeWhile (\<lambda>e. m e \<noteq> 0) (dir_entries m))"
    by (rule filter_cong) (auto simp: b dest: set_takeWhileD)
  ultimately show ?thesis by (simp add: used_entries_def d)
qed

lemma find_cong: "(\<And>x. x \<in> set xs \<Longrightarrow> P x = Q x) \<Longrightarrow> find P xs = find Q xs"
  by (induction xs) auto

lemma find_same:
  assumes "names_same m m'"
  shows "fat12_find nm ext m' = fat12_find nm ext m"
proof -
  have "ent_name m' e = ent_name m e \<and> ent_ext m' e = ent_ext m e" if "e \<in> set (used_entries m)" for e
  proof -
    have e: "e \<in> set (dir_entries m)" using that set_used_entries by blast
    have "m' (e + k) = m (e + k)" if "k < 11" for k using assms e that by (auto simp: names_same_def)
    from this [of "8 + _"] this show ?thesis
      by (auto simp: add.assoc intro!: mem_read_eqI)
  qed
  then show ?thesis
    unfolding fat12_find_def used_entries_same [OF assms] by (intro find_cong) auto
qed

lemma find_in_dir: "fat12_find nm ext m = Some e \<Longrightarrow> e \<in> set (used_entries m) \<and> e \<in> set (dir_entries m)"
  unfolding fat12_find_def using set_used_entries by (fastforce dest: find_Some_split)

text \<open>A new entry in the first free slot is the one the search finds.\<close>

lemma find_new:
  assumes none: "fat12_find nm ext m = None" and free: "fat12_find_free_entry m = Some e"
    and b: "bpb_same m m'"
    and other: "\<And>d k. d \<in> set (dir_entries m) \<Longrightarrow> d \<noteq> e \<Longrightarrow> k < 11 \<Longrightarrow> m' (d + k) = m (d + k)"
    and here: "ent_name m' e = nm" "ent_ext m' e = ext" "m' e \<noteq> 0" "m' e \<noteq> 0xE5"
  shows "fat12_find nm ext m' = Some e"
proof -
  from free obtain ys zs where d: "dir_entries m = ys @ e # zs" and ys: "\<forall>y\<in>set ys. m y \<noteq> 0 \<and> m y \<noteq> 0xE5"
    unfolding fat12_find_free_entry_def by (auto dest: find_Some_split)
  have dist: "distinct (dir_entries m)" by (simp add: dir_entries_def distinct_map inj_on_def)
  have same: "m' (y + k) = m (y + k)" if "y \<in> set ys" "k < 11" for y k
    using other [of y k] that d dist by auto
  then have same0: "m' y = m y" if "y \<in> set ys" for y using that same [of y 0] by simp
  have "used_entries m' = ys @ e # filter (\<lambda>e. m' e \<noteq> 0xE5) (takeWhile (\<lambda>e. m' e \<noteq> 0) zs)"
  proof -
    have "takeWhile (\<lambda>e. m' e \<noteq> 0) (ys @ e # zs) = ys @ e # takeWhile (\<lambda>e. m' e \<noteq> 0) zs"
      using ys same0 here by (subst takeWhile_append2) auto
    moreover have "filter (\<lambda>e. m' e \<noteq> 0xE5) ys = ys"
      using ys same0 by (intro filter_True) auto
    ultimately show ?thesis
      using here by (simp add: used_entries_def bpb_derived(7) [OF b] d)
  qed
  moreover have "find (\<lambda>e. ent_name m' e = nm \<and> ent_ext m' e = ext) ys = None"
  proof -
    have "used_entries m = ys @ filter (\<lambda>e. m e \<noteq> 0xE5) (takeWhile (\<lambda>e. m e \<noteq> 0) (e # zs))"
    proof -
      have "filter (\<lambda>e. m e \<noteq> 0xE5) ys = ys" using ys by (intro filter_True) auto
      then show ?thesis using ys unfolding used_entries_def d by (subst takeWhile_append2) auto
    qed
    then have "find (\<lambda>e. ent_name m e = nm \<and> ent_ext m e = ext) ys = None"
      using none by (simp add: fat12_find_def find_append split: option.splits)
    moreover have "ent_name m' y = ent_name m y \<and> ent_ext m' y = ent_ext m y" if "y \<in> set ys" for y
      using same [OF that] same [OF that, of "8 + _"]
      by (auto simp: add.assoc intro!: mem_read_eqI)
    ultimately show ?thesis by (subst find_cong [of ys _ "\<lambda>e. ent_name m e = nm \<and> ent_ext m e = ext"]) auto
  qed
  ultimately show ?thesis using here by (simp add: fat12_find_def find_append)
qed

subsection \<open>Claiming an entry\<close>

definition claimed :: "bmem \<Rightarrow> nat \<Rightarrow> bmem \<Rightarrow> bool" where
  "claimed m e m1 \<longleftrightarrow>
     e \<in> set (dir_entries m) \<and> (\<forall>x. x \<notin> fat_bytes m \<and> (x < e \<or> e + 32 \<le> x) \<longrightarrow> m1 x = m x) \<and>
     ent_start m1 e = 0 \<and> ent_size m1 e = 0 \<and>
     (\<forall>x<4096. fat12_get_entry m1 x = fat12_get_entry m x \<or> fat12_get_entry m1 x = 0)"

lemma entry_write_keeps:
  assumes ok: "fs_ok m" and e: "e \<in> set (dir_entries m)"
    and out: "\<And>x. x < e \<or> e + 32 \<le> x \<Longrightarrow> m' x = m x"
  shows "bpb_same m m'" "c < 4096 \<Longrightarrow> fat12_get_entry m' c = fat12_get_entry m c"
    "\<forall>c\<in>set cs. is_cluster c \<Longrightarrow> chain_data m' cs = chain_data m cs"
proof -
  note r = dir_entry_range [OF ok e] and lay = fs_ok_layout [OF ok]
  show b: "bpb_same m m'" using r lay out by (auto simp: bpb_same_def)
  show "fat12_get_entry m' c = fat12_get_entry m c" if "c < 4096"
  proof -
    have "fat_base m + (c + c div 2) + 1 < e" using that r by simp
    then show ?thesis by (simp add: get_entry_nat bpb_derived(1) [OF b] out)
  qed
  show "chain_data m' cs = chain_data m cs" if "\<forall>c\<in>set cs. is_cluster c"
  proof -
    have "mem_read m' (cluster_addr m c) n = mem_read m (cluster_addr m c) n" for c n
      by (rule mem_read_eqI, rule out) (use r in \<open>simp add: cluster_addr_def\<close>)
    then show ?thesis by (simp add: chain_data_def bpb_derived [OF b])
  qed
qed

lemma clear_entry_facts:
  "ent_start (clear_entry e m) e = 0" "ent_size (clear_entry e m) e = 0"
  "x < e + 26 \<or> e + 32 \<le> x \<Longrightarrow> clear_entry e m x = m x"
proof -
  have "rd16 (wr32 (e + 28) 0 (wr16 (e + 26) 0 m)) (e + 26) = rd16 (wr16 (e + 26) 0 m) (e + 26)"
    by (rule rd16_cong) (auto simp: wr32_out)
  then show "ent_start (clear_entry e m) e = 0" by (simp add: clear_entry_def)
  show "ent_size (clear_entry e m) e = 0" by (simp add: clear_entry_def)
  show "x < e + 26 \<or> e + 32 \<le> x \<Longrightarrow> clear_entry e m x = m x"
    by (auto simp: clear_entry_def wr16_out wr32_out)
qed

lemma only_fat_facts:
  assumes "only_fat m m'" "fs_ok m"
  shows "bpb_same m m'" "fs_ok m'" "names_same m m'"
    "e \<in> set (dir_entries m) \<Longrightarrow> k < 32 \<Longrightarrow> m' (e + k) = m (e + k)"
    "chain_data m' cs = chain_data m cs"
proof -
  note lay = fs_ok_layout [OF assms(2)]
  show b: "bpb_same m m'" using only_fat_same [OF assms(1) lay(2)] .
  show "fs_ok m'" using fs_ok_same [OF b] assms(2) by simp
  have e: "m' (e + k) = m (e + k)" if "e \<in> set (dir_entries m)" for e k
    using assms(1) dir_entry_range(3) [OF assms(2) that] by (auto simp: only_fat_def fat_bytes_def)
  then show "e \<in> set (dir_entries m) \<Longrightarrow> k < 32 \<Longrightarrow> m' (e + k) = m (e + k)" by blast
  show "names_same m m'" using b e by (simp add: names_same_def)
  have "mem_read m' (cluster_addr m c) n = mem_read m (cluster_addr m c) n" for c n
    by (rule mem_read_eqI)
      (use assms(1) lay(4,5) in \<open>auto simp: only_fat_def fat_bytes_def cluster_addr_def\<close>)
  then show "chain_data m' cs = chain_data m cs" by (simp add: chain_data_def bpb_derived [OF b])
qed

lemma length_parse_83: "parse_83 f = (nm, ext) \<Longrightarrow> length nm = 8 \<and> length ext = 3"
  by (auto simp: parse_83_def pad_to_def Let_def split: prod.splits list.splits)

text \<open>The name field that marks an entry deleted or ends the directory.\<close>

definition storable :: "u8 list \<Rightarrow> bool" where
  "storable f \<longleftrightarrow> hd (fst (parse_83 f)) \<noteq> 0 \<and> hd (fst (parse_83 f)) \<noteq> 0xE5"

lemma get_entry_big:
  assumes "fs_ok m" "only_fat m m'" "4096 \<le> x"
  shows "fat12_get_entry m' x = fat12_get_entry m x"
proof -
  have "fat_base m + 6144 \<le> fat_base m + (x + x div 2)" using assms(3) by linarith
  then show ?thesis
    using assms(2) bpb_derived(1) [OF only_fat_facts(1) [OF assms(2,1)]]
    by (simp add: get_entry_nat only_fat_def fat_bytes_def)
qed

lemma claim_existing:
  assumes ok: "fs_ok m" and f: "fat12_find nm ext m = Some e"
  shows "\<exists>m0. claim_entry nm ext m = Some (Some (e, clear_entry e m0)) \<and> only_fat m m0 \<and>
    (if ent_start m e \<noteq> 0 then fat12_free_chain (ent_start m e) m = Some m0 else m0 = m) \<and>
    (\<forall>x. fat12_get_entry m0 x = fat12_get_entry m x \<or> fat12_get_entry m0 x = 0)"
proof (cases "ent_start m e = 0")
  case True
  with f show ?thesis by (auto simp: claim_entry_def)
next
  case False
  from free_chain_returns [OF fs_ok_layout(2) [OF ok], of "ent_start m e"] obtain m0 where
    "fat12_free_chain (ent_start m e) m = Some m0" "only_fat m m0"
    "\<forall>x. fat12_get_entry m0 x = fat12_get_entry m x \<or> fat12_get_entry m0 x = 0" by blast
  with f False show ?thesis by (auto simp: claim_entry_def)
qed

lemma new_entry_facts:
  assumes "length nm = 8" "length ext = 3"
  shows "ent_name (new_entry e nm ext a m) e = nm" "ent_ext (new_entry e nm ext a m) e = ext"
    "x < e \<or> e + 26 \<le> x \<Longrightarrow> new_entry e nm ext a m x = m x"
    "new_entry e nm ext a m e = hd nm"
proof -
  show n: "ent_name (new_entry e nm ext a m) e = nm"
    by (rule nth_equalityI) (auto simp: assms new_entry_def mem_write_def nth_append)
  show "ent_ext (new_entry e nm ext a m) e = ext"
    by (rule nth_equalityI) (auto simp: assms new_entry_def mem_write_def nth_append)
  show "x < e \<or> e + 26 \<le> x \<Longrightarrow> new_entry e nm ext a m x = m x"
    by (auto simp: new_entry_def mem_write_def assms)
  show "new_entry e nm ext a m e = hd nm"
    using assms by (cases nm) (auto simp: new_entry_def mem_write_def)
qed

text \<open>Writing the start cluster and the size of an entry does not disturb the search.\<close>

lemma tail_write_names:
  assumes ok: "fs_ok m" and e: "e \<in> set (dir_entries m)"
    and out: "\<And>x. x < e + 26 \<or> e + 32 \<le> x \<Longrightarrow> m' x = m x"
  shows "names_same m m'"
  unfolding names_same_def
proof (intro conjI ballI allI impI)
  show "bpb_same m m'" by (rule entry_write_keeps(1) [OF ok e], rule out) auto
  fix d k assume "d \<in> set (dir_entries m)" "(k :: nat) < 11"
  then show "m' (d + k) = m (d + k)"
    using dir_entry_apart [OF e, of d] out [of "d + k"] by (cases "d = e") auto
qed

lemma claim_entry_claimed:
  assumes ok: "fs_ok m" and len: "length nm = 8" "length ext = 3"
    and c: "claim_entry nm ext m = Some (Some (e, m1))"
  shows "claimed m e m1 \<and>
    (hd nm \<noteq> 0 \<and> hd nm \<noteq> 0xE5 \<longrightarrow> fat12_find nm ext m1 = Some e)"
proof (cases "fat12_find nm ext m")
  case (Some d)
  from claim_existing [OF ok Some] obtain m0 where
    m0: "claim_entry nm ext m = Some (Some (d, clear_entry d m0))" "only_fat m m0"
      "\<forall>x. fat12_get_entry m0 x = fat12_get_entry m x \<or> fat12_get_entry m0 x = 0" by blast
  with c have m1: "d = e" "m1 = clear_entry e m0" by auto
  note o = only_fat_facts [OF m0(2) ok]
  have e: "e \<in> set (dir_entries m)" using find_in_dir [OF Some] m1 by simp
  then have e0: "e \<in> set (dir_entries m0)" by (simp add: bpb_derived(7) [OF o(1)])
  have out: "m1 x = m0 x" if "x < e + 26 \<or> e + 32 \<le> x" for x
    using that m1 clear_entry_facts(3) by simp
  have n1: "names_same m0 m1" by (rule tail_write_names [OF o(2) e0 out])
  have "fat12_find nm ext m1 = Some e"
    unfolding find_same [OF n1] find_same [OF o(3)] using Some m1(1) by simp
  moreover have "m1 x = m x" if "x \<notin> fat_bytes m" "x < e \<or> e + 32 \<le> x" for x
    using that out [of x] m0(2) by (auto simp: only_fat_def)
  moreover have "fat12_get_entry m1 x = fat12_get_entry m x \<or> fat12_get_entry m1 x = 0" if "x < 4096" for x
  proof -
    have "fat12_get_entry m1 x = fat12_get_entry m0 x"
      by (rule entry_write_keeps(2) [OF o(2) e0 _ that], rule out) auto
    then show ?thesis using m0(3) by metis
  qed
  moreover have "ent_start m1 e = 0" "ent_size m1 e = 0"
    using clear_entry_facts(1,2) m1 by simp_all
  ultimately show ?thesis using e unfolding claimed_def by blast
next
  case None
  with c obtain f where f: "fat12_find_free_entry m = Some f"
    "e = f" "m1 = clear_entry e (new_entry e nm ext 0x20 m)"
    by (auto simp: claim_entry_def split: option.splits)
  have e: "e \<in> set (dir_entries m)"
    using f(1,2) unfolding fat12_find_free_entry_def by (auto dest: find_Some_split)
  note n = new_entry_facts [OF len, where e = e and a = "0x20" and m = m]
  have out: "m1 x = m x" if "x < e \<or> e + 32 \<le> x" for x
  proof -
    have "new_entry e nm ext 0x20 m x = m x" by (rule n(3)) (use that in auto)
    moreover have "m1 x = new_entry e nm ext 0x20 m x"
      unfolding f(3) by (rule clear_entry_facts(3)) (use that in auto)
    ultimately show ?thesis by simp
  qed
  have low: "m1 x = new_entry e nm ext 0x20 m x" if "x < e + 26" for x
    using that f(3) clear_entry_facts(3) by simp
  have keep: "m1 (d + k) = m (d + k)" if "d \<in> set (dir_entries m)" "d \<noteq> e" "k < 11" for d k
    using that dir_entry_apart [OF e that(1)] out [of "d + k"] by auto
  have nm: "ent_name m1 e = nm" "ent_ext m1 e = ext" "m1 e = hd nm"
  proof -
    have "ent_name m1 e = ent_name (new_entry e nm ext 0x20 m) e"
      by (rule mem_read_eqI) (simp add: low)
    then show "ent_name m1 e = nm" by (simp add: n)
    have "ent_ext m1 e = ent_ext (new_entry e nm ext 0x20 m) e"
      by (rule mem_read_eqI) (simp add: low)
    then show "ent_ext m1 e = ext" by (simp add: n)
    show "m1 e = hd nm" by (simp add: low n)
  qed
  have "bpb_same m m1" using entry_write_keeps(1) [OF ok e out] .
  from find_new [OF None _ this keep nm(1,2)]
  have "hd nm \<noteq> 0 \<and> hd nm \<noteq> 0xE5 \<longrightarrow> fat12_find nm ext m1 = Some e"
    using f nm(3) by simp
  moreover have "fat12_get_entry m1 x = fat12_get_entry m x" if "x < 4096" for x
    by (rule entry_write_keeps(2) [OF ok e out that])
  moreover have "ent_start m1 e = 0" "ent_size m1 e = 0"
    using clear_entry_facts(1,2) f(3) by simp_all
  ultimately show ?thesis using e out unfolding claimed_def by blast
qed

lemma claim_entry_returns: "fs_ok m \<Longrightarrow> \<exists>r. claim_entry nm ext m = Some r"
  using claim_existing [of m nm ext]
  by (cases "fat12_find nm ext m") (fastforce simp: claim_entry_def split: option.splits)+

lemma claimed_ok:
  assumes "claimed m e m1" "fs_ok m"
  shows "bpb_same m m1" "fs_ok m1" "e \<in> set (dir_entries m1)"
proof -
  have e: "e \<in> set (dir_entries m)" using assms(1) by (simp add: claimed_def)
  have "m1 x = m x" if "x < 24" for x
    using assms(1) that dir_entry_range(3) [OF assms(2) e] fs_ok_layout(2) [OF assms(2)]
    by (auto simp: claimed_def fat_bytes_def)
  then show b: "bpb_same m m1" by (simp add: bpb_same_def)
  show "fs_ok m1" "e \<in> set (dir_entries m1)"
    using fs_ok_same [OF b] assms(2) e bpb_derived(7) [OF b] by simp_all
qed

subsection \<open>Writing\<close>

text \<open>
  What a successful write with data makes of the claimed volume \<open>m1\<close>: clusters \<open>cs\<close>, free in
  \<open>m1\<close>, hold the data, and the entry names their chain.
\<close>

definition stored :: "bmem \<Rightarrow> nat \<Rightarrow> u8 list \<Rightarrow> nat list \<Rightarrow> bmem \<Rightarrow> bool" where
  "stored m1 e data cs m4 \<longleftrightarrow>
     set cs \<subseteq> free_clusters m1 \<and> distinct cs \<and> bpb_same m1 m4 \<and> names_same m1 m4 \<and>
     chain (fat12_get_entry m4) (ent_start m4 e) cs 0xFFF \<and> ent_size m4 e = length data \<and>
     take (length data) (chain_data m4 cs) = data \<and>
     (\<forall>x<4096. x \<notin> set cs \<longrightarrow> fat12_get_entry m4 x = fat12_get_entry m1 x) \<and>
     (\<forall>x. x \<notin> fat_bytes m1 \<and> (x < e + 26 \<or> e + 32 \<le> x) \<and> (\<forall>c\<in>set cs. x \<notin> region m1 c) \<longrightarrow>
        m4 x = m1 x)"

lemma clusters_needed:
  fixes k cb :: nat
  assumes "0 < cb" "0 < k" "k + cb \<le> 4294967296"
  shows "0 < wrap32 (k + cb - 1) div cb" "k \<le> wrap32 (k + cb - 1) div cb * cb"
proof -
  have w: "wrap32 (k + cb - 1) = k + cb - 1" using assms by simp
  have "cb \<le> k + cb - 1" using assms by simp
  then show "0 < wrap32 (k + cb - 1) div cb" unfolding w using assms(1) by (simp add: div_greater_zero_iff)
  have "k + cb - 1 = (k + cb - 1) div cb * cb + (k + cb - 1) mod cb" by simp
  moreover have "(k + cb - 1) mod cb < cb" using assms(1) by simp
  ultimately show "k \<le> wrap32 (k + cb - 1) div cb * cb" unfolding w by linarith
qed

lemma write_after_alloc:
  assumes ok: "fs_ok m1" and e: "e \<in> set (dir_entries m1)" and al: "allocated_chain n m1 cs m2"
    and o: "only_fat m1 m2" and n: "0 < n" and len: "length data \<le> n * cluster_bytes m1"
    "length data < 4294967296"
  shows "\<exists>m3. fat12_write_chain_data (hd cs) data 0 m2 = Some m3 \<and>
    stored m1 e data cs (wr32 (e + 28) (length data) (wr16 (e + 26) (hd cs) m3))"
proof -
  note lay = fs_ok_layout [OF ok] and f = only_fat_facts [OF o ok] and der2 = bpb_derived [OF only_fat_facts(1) [OF o ok]]
  from al have cs: "length cs = n" "distinct cs" "set cs \<subseteq> free_clusters m1"
    "chain (fat12_get_entry m2) (hd cs) cs 0xFFF"
    and rest: "\<And>x. x \<notin> set cs \<Longrightarrow> fat12_get_entry m2 x = fat12_get_entry m1 x"
    by (auto simp: allocated_chain_def)
  have cl: "is_cluster x" if "x \<in> set cs" for x
    using cs(3) that lay(7) by (auto simp: free_clusters_def)
  from write_chain_spec [OF f(2) cs(4) _ cs(2), of 0 data] obtain m3 where
    m3: "fat12_write_chain_data (hd cs) data 0 m2 = Some m3" "above_data m2 m3"
      "\<And>x. (\<forall>d\<in>set cs. x \<notin> region m2 d) \<Longrightarrow> m3 x = m2 x"
      "take (length data) (chain_data m3 cs) = data"
    using cl len cs(1) der2(2) by auto
  note ab = above_data_same [OF m3(2) f(2)]
  have e3: "e \<in> set (dir_entries m3)"
    using e by (simp add: bpb_derived(7) [OF ab(1)] der2(7))
  let ?m4 = "wr32 (e + 28) (length data) (wr16 (e + 26) (hd cs) m3)"
  have out: "?m4 x = m3 x" if "x < e + 26 \<or> e + 32 \<le> x" for x
    using that by (auto simp: wr16_out wr32_out)
  have out': "?m4 x = m3 x" if "x < e \<or> e + 32 \<le> x" for x by (rule out) (use that in auto)
  have kb: "bpb_same m3 ?m4" by (rule entry_write_keeps(1) [OF ab(3) e3 out'])
  have kg: "fat12_get_entry ?m4 x = fat12_get_entry m3 x" if "x < 4096" for x
    by (rule entry_write_keeps(2) [OF ab(3) e3 out' that])
  have hd: "hd cs \<in> set cs" using cs(1) n by (cases cs) auto
  have b: "bpb_same m1 ?m4"
    using f(1) ab(1) kb bpb_same_trans by blast
  have names3: "names_same m2 m3"
    unfolding names_same_def
  proof (intro conjI ballI allI impI)
    show "bpb_same m2 m3" by (rule ab(1))
    fix d j assume "d \<in> set (dir_entries m2)" "(j :: nat) < 11"
    then show "m3 (d + j) = m2 (d + j)"
      using dir_entry_range(2) [OF f(2)] m3(2) by (force simp: above_data_def)
  qed
  have names: "names_same m1 ?m4"
  proof -
    have "names_same m3 ?m4" by (rule tail_write_names [OF ab(3) e3 out])
    then show ?thesis
      using names3 f(3) b by (simp add: names_same_def bpb_derived(7) [OF ab(1)] der2(7))
  qed
  have start: "ent_start ?m4 e = hd cs"
  proof -
    have "rd16 ?m4 (e + 26) = rd16 (wr16 (e + 26) (hd cs) m3) (e + 26)"
      by (rule rd16_cong) (auto simp: wr32_out)
    then show ?thesis using cl [OF hd] by simp
  qed
  have g: "fat12_get_entry ?m4 x = fat12_get_entry m2 x" if "x < 4096" for x
    using kg [OF that] ab(2) [of x] that by simp
  have "chain (fat12_get_entry ?m4) (hd cs) cs 0xFFF"
    using cs(4) g cl by (subst chain_cong [of cs _ "fat12_get_entry m2"]) force+
  moreover have "take (length data) (chain_data ?m4 cs) = data"
  proof -
    have "chain_data ?m4 cs = chain_data m3 cs"
      by (rule entry_write_keeps(3) [OF ab(3) e3 out']) (use cl in auto)
    then show ?thesis using m3(4) by simp
  qed
  moreover have "fat12_get_entry ?m4 x = fat12_get_entry m1 x" if "x < 4096" "x \<notin> set cs" for x
    using g rest that by simp
  moreover have "?m4 x = m1 x"
    if "x \<notin> fat_bytes m1" "x < e + 26 \<or> e + 32 \<le> x" "\<forall>c\<in>set cs. x \<notin> region m1 c" for x
  proof -
    have "m3 x = m2 x" using m3(3) [of x] that(3) by (simp add: region_def der2)
    then show ?thesis using out [OF that(2)] o that(1) by (simp add: only_fat_def)
  qed
  ultimately show ?thesis
    using m3(1) cs b names start len(2) by (auto simp: stored_def)
qed

text \<open>The outcomes of \<^verbatim>\<open>fat12_write\<close> on a well-formed volume.\<close>

lemma fat12_write_cases:
  assumes ok: "fs_ok (img s)" and rdy: "fat12_ready s" "\<not> fat12_locked s"
    and p: "parse_83 f = (nm, ext)" and len: "length data + cluster_bytes (img s) \<le> 4294967296"
  obtains (full) "claim_entry nm ext (img s) = Some None" "fat12_write f data s = Some (0, s)"
  | (empty) e m1 where "claim_entry nm ext (img s) = Some (Some (e, m1))" "claimed (img s) e m1"
      "data = []" "fat12_write f data s = Some (1, fat12_flush (s\<lparr>img := m1\<rparr>))"
  | (nospace) e m1 m2 where "claim_entry nm ext (img s) = Some (Some (e, m1))" "claimed (img s) e m1"
      "data \<noteq> []" "only_fat m1 m2" "fat12_get_entry m2 = fat12_get_entry m1"
      "card (free_clusters m1) * cluster_bytes (img s) < length data"
      "fat12_write f data s = Some (0, s\<lparr>img := m2\<rparr>)"
  | (stored) e m1 cs m4 where "claim_entry nm ext (img s) = Some (Some (e, m1))"
      "claimed (img s) e m1" "data \<noteq> []" "stored m1 e data cs m4"
      "fat12_write f data s = Some (1, fat12_flush (s\<lparr>img := m4\<rparr>))"
proof -
  from claim_entry_returns [OF ok] obtain r where r: "claim_entry nm ext (img s) = Some r" by blast
  show thesis
  proof (cases r)
    case None
    show thesis by (rule full) (use r None rdy p in \<open>simp_all add: fat12_write_def\<close>)
  next
    case (Some em)
    obtain e m1 where em: "em = (e, m1)" by (cases em)
    have c: "claim_entry nm ext (img s) = Some (Some (e, m1))" using r Some em by simp
    have cd: "claimed (img s) e m1" using claim_entry_claimed [OF ok _ _ c] length_parse_83 [OF p] by blast
    note ok1 = claimed_ok [OF cd ok]
    let ?cb = "cluster_bytes m1"
    have cb: "cluster_bytes (img s) = ?cb" using bpb_derived(2) [OF ok1(1)] by simp
    have cb0: "0 < ?cb" using fs_ok_layout(8) [OF ok1(2)] .
    show thesis
    proof (cases "data = []")
      case True
      show thesis by (rule empty [OF c cd True]) (use c True rdy p in \<open>simp add: fat12_write_def\<close>)
    next
      case False
      let ?n = "wrap32 (length data + ?cb - 1) div ?cb"
      have n: "0 < ?n" "length data \<le> ?n * ?cb"
        using clusters_needed [of ?cb "length data"] cb0 False len cb by simp_all
      from alloc_chain_spec [OF ok1(2) n(1)] obtain start m2 where
        al: "fat12_alloc_chain ?n m1 = Some (start, m2)" "only_fat m1 m2"
          "if ?n \<le> card (free_clusters m1)
           then start \<noteq> 0 \<and> (\<exists>cs. start = hd cs \<and> allocated_chain ?n m1 cs m2)
           else start = 0 \<and> fat12_get_entry m2 = fat12_get_entry m1" by blast
      show thesis
      proof (cases "?n \<le> card (free_clusters m1)")
        case True
        with al(3) obtain cs where cs: "hd cs \<noteq> 0" "start = hd cs" "allocated_chain ?n m1 cs m2" by auto
        have lt: "length data < 4294967296" using len cb cb0 by simp
        from write_after_alloc [OF ok1(2,3) cs(3) al(2) n lt] obtain m3 where
          m3: "fat12_write_chain_data (hd cs) data 0 m2 = Some m3"
            "stored m1 e data cs (wr32 (e + 28) (length data) (wr16 (e + 26) (hd cs) m3))" by blast
        show thesis
          by (rule stored [OF c cd False m3(2)])
            (use c al cs m3 rdy p False in \<open>simp add: fat12_write_def Let_def\<close>)
      next
        case few: False
        have "card (free_clusters m1) * ?cb < length data"
        proof (rule ccontr)
          assume "\<not> card (free_clusters m1) * ?cb < length data"
          then have "length data + ?cb - 1 < card (free_clusters m1) * ?cb + ?cb"
            using cb0 by linarith
          then have "wrap32 (length data + ?cb - 1) < Suc (card (free_clusters m1)) * ?cb"
            using len cb cb0 by simp
          then have "?n < Suc (card (free_clusters m1))"
            using cb0 by (simp only: less_mult_imp_div_less)
          then show False using few by simp
        qed
        then show thesis
          using nospace [OF c cd False al(2)] al few c rdy p False cb
          by (auto simp: fat12_write_def Let_def)
      qed
    qed
  qed
qed

subsection \<open>A file and its contents\<close>

text \<open>
  \<open>file_at m f data\<close>: the search finds an entry for \<open>f\<close> whose chain of clusters of the volume
  holds \<open>data\<close>.
\<close>

definition file_at :: "bmem \<Rightarrow> u8 list \<Rightarrow> u8 list \<Rightarrow> bool" where
  "file_at m f data \<longleftrightarrow>
     (\<exists>e cs z. fat12_find (fst (parse_83 f)) (snd (parse_83 f)) m = Some e \<and>
        chain (fat12_get_entry m) (ent_start m e) cs z \<and> \<not> is_cluster z \<and>
        (\<forall>c\<in>set cs. 2 \<le> c \<and> c < fat12_total_clusters m + 2) \<and> ent_size m e = length data \<and>
        take (length data) (chain_data m cs) = data)"

lemma file_at_read:
  assumes "file_at m f data" "fs_ok m" "length data \<le> max_size"
    "fat12_find (fst (parse_83 f)) (snd (parse_83 f)) m = Some e"
  shows "fat12_read_file e max_size m = Some data"
proof -
  from assms(1,4) obtain cs z where c: "chain (fat12_get_entry m) (ent_start m e) cs z" "\<not> is_cluster z"
      "\<forall>c\<in>set cs. 2 \<le> c \<and> c < fat12_total_clusters m + 2" "ent_size m e = length data"
      "take (length data) (chain_data m cs) = data"
    by (auto simp: file_at_def)
  have "\<forall>c\<in>set cs. is_cluster c" using c(3) fs_ok_layout(7) [OF assms(2)] by auto
  from read_chain_spec [OF c(1) this c(2)] show ?thesis
    using c(4,5) assms(3) by (simp add: fat12_read_file_def min_absorb1)
qed

lemma file_at_load:
  assumes "file_at (img s) f data" "fs_ok (img s)" "fat12_ready s" "length data \<le> max_size"
  shows "fat12_load f max_size s = Some data"
proof -
  from assms(1) obtain e where e: "fat12_find (fst (parse_83 f)) (snd (parse_83 f)) (img s) = Some e"
    by (auto simp: file_at_def)
  from file_at_read [OF assms(1,2,4) e] show ?thesis
    using e assms(3) by (simp add: fat12_load_def split_beta)
qed

lemma stored_file_at:
  assumes "stored m1 e data cs m4" "fs_ok m1"
    "fat12_find (fst (parse_83 f)) (snd (parse_83 f)) m1 = Some e"
  shows "file_at m4 f data"
proof -
  have "fat12_total_clusters m4 = fat12_total_clusters m1"
    using assms(1) bpb_derived(5) by (auto simp: stored_def)
  moreover have "fat12_find (fst (parse_83 f)) (snd (parse_83 f)) m4 = Some e"
  proof -
    have n: "names_same m1 m4" using assms(1) by (simp add: stored_def)
    show ?thesis unfolding find_same [OF n] by (rule assms(3))
  qed
  ultimately show ?thesis
    using assms(1) unfolding stored_def file_at_def free_clusters_def
    by (intro exI [of _ e] exI [of _ cs] exI [of _ "0xFFF"]) auto
qed

lemma write_file_at:
  assumes ok: "fs_ok (img s)" and rdy: "fat12_ready s" "\<not> fat12_locked s" and st: "storable f"
    and len: "length data + cluster_bytes (img s) \<le> 4294967296"
    and w: "fat12_write f data s = Some (1, s')"
  shows "file_at (img s') f data" "fs_ok (img s')" "fat12_ready s'"
    "s' = fat12_flush (s\<lparr>img := img s'\<rparr>)"
proof -
  obtain nm ext where p: "parse_83 f = (nm, ext)" by fastforce
  then have l: "length nm = 8" "length ext = 3" using length_parse_83 by blast+
  have h: "hd nm \<noteq> 0 \<and> hd nm \<noteq> 0xE5" using st p by (simp add: storable_def)
  have "file_at (img s') f data \<and> fs_ok (img s') \<and> s' = fat12_flush (s\<lparr>img := img s'\<rparr>)"
  proof (cases rule: fat12_write_cases [OF ok rdy p len, case_names full empty nospace stored])
    case (empty e m1)
    then have s': "s' = fat12_flush (s\<lparr>img := m1\<rparr>)" using w by simp
    have "fat12_find nm ext m1 = Some e" using claim_entry_claimed [OF ok l empty(1)] h by blast
    moreover have "ent_start m1 e = 0" "ent_size m1 e = 0" using empty(2) by (auto simp: claimed_def)
    ultimately have "file_at m1 f data"
      unfolding file_at_def
      by (intro exI [of _ e] exI [of _ "[]"] exI [of _ 0]) (simp add: p empty(3))
    then show ?thesis
      using claimed_ok(2) [OF empty(2) ok] s' by (simp add: fat12_flush_def)
  next
    case (stored e m1 cs m4)
    then have s': "s' = fat12_flush (s\<lparr>img := m4\<rparr>)" using w by simp
    have "fat12_find nm ext m1 = Some e" using claim_entry_claimed [OF ok l stored(1)] h by blast
    then have "file_at m4 f data"
      using stored_file_at [OF stored(4) claimed_ok(2) [OF stored(2) ok]] p by simp
    moreover have "fs_ok m4"
      using stored(4) fs_ok_same claimed_ok(2) [OF stored(2) ok] by (auto simp: stored_def)
    ultimately show ?thesis using s' by (simp add: fat12_flush_def)
  qed (use w in auto)
  then show "file_at (img s') f data" "fs_ok (img s')" "s' = fat12_flush (s\<lparr>img := img s'\<rparr>)" by blast+
  then have "fat12_ready s' = fat12_ready (fat12_flush (s\<lparr>img := img s'\<rparr>))" by simp
  then show "fat12_ready s'" using rdy by (simp add: fat12_flush_def)
qed

subsection \<open>The image on the disk\<close>

lemma fs_ok_cluster_end:
  assumes "fs_ok m" "2 \<le> c" "c < fat12_total_clusters m + 2"
  shows "cluster_addr m c + cluster_bytes m \<le> 2097152"
proof -
  let ?fats = "num_fats m * sectors_per_fat m" and ?r = "root_entries m div 16"
    and ?spc = "sectors_per_cluster m"
  from assms(1) have bps: "bytes_per_sector m = 512" and spc: "0 < ?spc"
    and fit: "root_entries m mod 16 = 0" "reserved_sectors m + ?fats + ?r \<le> total_sectors m"
      "total_sectors m \<le> 4096"
    unfolding fs_ok_def by auto
  obtain q where q: "root_entries m = 16 * q" using fit(1) by auto
  have rds: "root_dir_sectors m = ?r" unfolding root_dir_sectors_def bps q by simp
  have "total_sectors m + 4294967296 - reserved_sectors m - ?fats - ?r =
      (total_sectors m - reserved_sectors m - ?fats - ?r) + 4294967296"
    using fit by linarith
  then have w: "wrap32 (total_sectors m + 4294967296 - reserved_sectors m - ?fats - ?r) =
      total_sectors m - reserved_sectors m - ?fats - ?r"
    unfolding wrap32_def by (simp only: mod_add_self2) (use fit in simp)
  have tot: "fat12_total_clusters m = (total_sectors m - reserved_sectors m - ?fats - ?r) div ?spc"
    unfolding fat12_total_clusters_def rds w ..
  have "(c - 2) + 1 \<le> fat12_total_clusters m" using assms by simp
  then have "((c - 2) + 1) * ?spc \<le> fat12_total_clusters m * ?spc" by (rule mult_le_mono1)
  also have "\<dots> \<le> total_sectors m - reserved_sectors m - ?fats - ?r" unfolding tot by simp
  finally have le: "((c - 2) + 1) * ?spc \<le> total_sectors m - reserved_sectors m - ?fats - ?r" .
  have cl: "is_cluster c" using assms fs_ok_layout(7) [OF assms(1)] by auto
  have "cluster_addr m c + cluster_bytes m =
      512 * (reserved_sectors m + ?fats) + 32 * root_entries m + 512 * (((c - 2) + 1) * ?spc)"
    using cluster_addr_wide [OF assms(1) cl] fs_ok_layout(3,5) [OF assms(1)]
    by (simp add: cluster_bytes_def bps algebra_simps)
  also have "\<dots> \<le> 512 * (reserved_sectors m + ?fats) + 512 * ?r +
      512 * (total_sectors m - reserved_sectors m - ?fats - ?r)"
    using le q by simp
  also have "\<dots> \<le> 512 * total_sectors m" using fit by simp
  finally show ?thesis using fit by simp
qed

lemma file_at_prefix:
  assumes f: "file_at m f data" and ok: "fs_ok m" and eq: "\<And>x. x < 2097152 \<Longrightarrow> m' x = m x"
  shows "file_at m' f data" "fs_ok m'"
proof -
  note lay = fs_ok_layout [OF ok]
  have b: "bpb_same m m'" using eq by (simp add: bpb_same_def)
  show "fs_ok m'" using fs_ok_same [OF b] ok by simp
  have d: "m' (e + k) = m (e + k)" if "e \<in> set (dir_entries m)" "k < 32" for e k
    using dir_entry_range(2) [OF ok that(1)] lay(6) that(2) by (intro eq) simp
  have n: "names_same m m'" using b d by (simp add: names_same_def)
  from f obtain e cs z where e: "fat12_find (fst (parse_83 f)) (snd (parse_83 f)) m = Some e"
      "chain (fat12_get_entry m) (ent_start m e) cs z" "\<not> is_cluster z"
      "\<forall>c\<in>set cs. 2 \<le> c \<and> c < fat12_total_clusters m + 2" "ent_size m e = length data"
      "take (length data) (chain_data m cs) = data"
    by (auto simp: file_at_def)
  have ed: "e \<in> set (dir_entries m)" using find_in_dir [OF e(1)] by blast
  have s: "ent_start m' e = ent_start m e" "ent_size m' e = ent_size m e"
    using d [OF ed, of "26 + _"] d [OF ed, of "28 + _"]
    by (auto simp: add.assoc intro!: rd16_cong rd32_cong)
  have "above_data m m'" using eq lay(6) by (simp add: above_data_def)
  note ab = above_data_same(2) [OF this ok]
  have "chain (fat12_get_entry m') (ent_start m e) cs z"
    using e(2,4) ab lay(7) by (subst chain_cong [of cs _ "fat12_get_entry m"]) force+
  moreover have "chain_data m' cs = chain_data m cs"
  proof -
    have "mem_read m' (cluster_addr m c) (cluster_bytes m) = mem_read m (cluster_addr m c) (cluster_bytes m)"
      if "c \<in> set cs" for c
      using fs_ok_cluster_end [OF ok] e(4) that by (intro mem_read_eqI eq) force
    then have "map (\<lambda>c. mem_read m' (cluster_addr m c) (cluster_bytes m)) cs =
        map (\<lambda>c. mem_read m (cluster_addr m c) (cluster_bytes m)) cs" by simp
    then show ?thesis by (simp only: chain_data_def bpb_derived [OF b])
  qed
  ultimately show "file_at m' f data"
    unfolding file_at_def bpb_derived [OF b]
    using e find_same [OF n] s by (intro exI [of _ e] exI [of _ cs] exI [of _ z]) simp
qed

subsection \<open>When a write succeeds\<close>

lemma cluster_bytes_bound: "fs_ok m \<Longrightarrow> cluster_bytes m \<le> 130560"
  using unat_byte [of "m 13"] by (simp add: cluster_bytes_def fs_ok_def sectors_per_cluster_def)

lemma free_clusters_bound: "card (free_clusters m) \<le> fat12_total_clusters m"
proof -
  have "free_clusters m \<subseteq> {2..<fat12_total_clusters m + 2}" by (auto simp: free_clusters_def)
  then show ?thesis using card_mono [of "{2..<fat12_total_clusters m + 2}"] by fastforce
qed

lemma fits_bound:
  assumes "fs_ok m" "n \<le> card (free_clusters m) * cluster_bytes m"
  shows "n + cluster_bytes m \<le> 4294967296"
proof -
  have "card (free_clusters m) \<le> 4085"
    using free_clusters_bound [of m] fs_ok_layout(7) [OF assms(1)] by simp
  then have "card (free_clusters m) * cluster_bytes m \<le> 4085 * 130560"
    using cluster_bytes_bound [OF assms(1)] by (intro mult_le_mono) auto
  then show ?thesis using assms cluster_bytes_bound [OF assms(1)] by simp
qed

lemma claimed_free:
  assumes "claimed m e m1" "fs_ok m"
  shows "card (free_clusters m) \<le> card (free_clusters m1)"
proof (rule card_mono)
  have t: "fat12_total_clusters m1 = fat12_total_clusters m"
    using bpb_derived(5) [OF claimed_ok(1) [OF assms]] .
  have "fat12_get_entry m1 x = 0" if "x < fat12_total_clusters m + 2" "fat12_get_entry m x = 0" for x
  proof -
    have "x < 4096" using that fs_ok_layout(7) [OF assms(2)] by simp
    then show ?thesis using assms(1) that(2) unfolding claimed_def by metis
  qed
  then show "free_clusters m \<subseteq> free_clusters m1"
    by (auto simp: free_clusters_def t)
qed simp

lemma fat12_write_succeeds:
  assumes ok: "fs_ok (img s)" and rdy: "fat12_ready s" "\<not> fat12_locked s"
    and p: "parse_83 f = (nm, ext)"
    and slot: "fat12_find nm ext (img s) \<noteq> None \<or> fat12_find_free_entry (img s) \<noteq> None"
    and fits: "length data \<le> card (free_clusters (img s)) * cluster_bytes (img s)"
  shows "\<exists>s'. fat12_write f data s = Some (1, s')"
proof -
  have some: "claim_entry nm ext (img s) \<noteq> Some None"
    using slot by (auto simp: claim_entry_def split: option.splits)
  show ?thesis
  proof (cases rule: fat12_write_cases [OF ok rdy p fits_bound [OF ok fits], case_names full empty nospace stored])
    case full
    then show ?thesis using some by simp
  next
    case (nospace e m1 m2)
    have "card (free_clusters (img s)) * cluster_bytes (img s) \<le> card (free_clusters m1) * cluster_bytes (img s)"
      using claimed_free [OF nospace(2) ok] by (rule mult_le_mono1)
    then show ?thesis using nospace(6) fits by linarith
  qed auto
qed

subsection \<open>Every operation returns\<close>

lemma fat12_write_total:
  assumes ok: "fs_ok (img s)" and len: "length data + cluster_bytes (img s) \<le> 4294967296"
  shows "\<exists>r s'. fat12_write f data s = Some (r, s') \<and> (r = 0 \<or> r = 1) \<and> fs_ok (img s') \<and>
    bpb_same (img s) (img s') \<and> fat12_ready s' = fat12_ready s \<and>
    fat12_locked s' = fat12_locked s \<and> ide_ok s' = ide_ok s"
proof (cases "fat12_ready s \<and> \<not> fat12_locked s")
  case False
  then show ?thesis using ok by (auto simp: fat12_write_def)
next
  case True
  then have rdy: "fat12_ready s" "\<not> fat12_locked s" by auto
  obtain nm ext where p: "parse_83 f = (nm, ext)" by fastforce
  have "\<exists>r m. fat12_write f data s = Some (r, if r = 1 then fat12_flush (s\<lparr>img := m\<rparr>) else s\<lparr>img := m\<rparr>) \<and>
      (r = 0 \<or> r = 1) \<and> bpb_same (img s) m"
  proof (cases rule: fat12_write_cases [OF ok rdy p len, case_names full empty nospace stored])
    case full
    then show ?thesis by (intro exI [of _ 0] exI [of _ "img s"]) simp
  next
    case (empty e m1)
    then show ?thesis
      using claimed_ok(1) [OF empty(2) ok] by (intro exI [of _ 1] exI [of _ m1]) simp
  next
    case (nospace e m1 m2)
    have "bpb_same (img s) m2"
      using bpb_same_trans [OF claimed_ok(1) [OF nospace(2) ok]]
        only_fat_facts(1) [OF nospace(4) claimed_ok(2) [OF nospace(2) ok]] by blast
    then show ?thesis using nospace(7) by (intro exI [of _ 0] exI [of _ m2]) simp
  next
    case (stored e m1 cs m4)
    have "bpb_same (img s) m4"
      using bpb_same_trans [OF claimed_ok(1) [OF stored(2) ok]] stored(4) by (auto simp: stored_def)
    then show ?thesis using stored(5) by (intro exI [of _ 1] exI [of _ m4]) simp
  qed
  then obtain r m where "fat12_write f data s =
      Some (r, if r = 1 then fat12_flush (s\<lparr>img := m\<rparr>) else s\<lparr>img := m\<rparr>)"
    "r = 0 \<or> r = 1" "bpb_same (img s) m" by blast
  moreover from this(3) have "fs_ok m" using fs_ok_same ok by blast
  ultimately show ?thesis by (auto simp: fat12_flush_def)
qed

lemma stored_fits: "stored m1 e data cs m4 \<Longrightarrow> length data \<le> card (free_clusters m1) * cluster_bytes m1"
proof -
  assume s: "stored m1 e data cs m4"
  then have "length data \<le> length (chain_data m4 cs)"
    by (metis length_take min.absorb_iff1 min.commute order_refl stored_def)
  moreover have "length (chain_data m4 cs) = length cs * cluster_bytes m4"
    by (simp add: chain_data_def length_concat comp_def sum_list_triv)
  moreover have "cluster_bytes m4 = cluster_bytes m1"
    using s bpb_derived(2) by (auto simp: stored_def)
  moreover have "length cs \<le> card (free_clusters m1)"
    using s card_mono [OF finite_free_clusters, of "set cs" m1] by (auto simp: stored_def distinct_card)
  ultimately show ?thesis by (metis le_trans mult_le_mono1)
qed

lemma used_name_storable:
  assumes "fat12_find nm ext m = Some e"
  shows "hd nm \<noteq> 0 \<and> hd nm \<noteq> 0xE5" "ent_name m e = nm" "ent_ext m e = ext"
proof -
  from assms have e: "e \<in> set (used_entries m)" and n: "ent_name m e = nm" "ent_ext m e = ext"
    unfolding fat12_find_def by (auto dest: find_Some_split)
  have "hd (ent_name m e) = m e"
    by (simp add: mem_read_def upt_rec [of 0])
  moreover have "m e \<noteq> 0 \<and> m e \<noteq> 0xE5"
    using e by (auto simp: used_entries_def dest: set_takeWhileD)
  ultimately show "hd nm \<noteq> 0 \<and> hd nm \<noteq> 0xE5" using n by simp
  show "ent_name m e = nm" "ent_ext m e = ext" by (rule n)+
qed

subsection \<open>Ownership of clusters\<close>

text \<open>
  \<open>owns m e cs\<close>: the entry's chain is \<open>cs\<close>, ended by an end-of-chain mark (or empty). On a
  consistent volume no two entries share clusters.
\<close>

definition owns :: "bmem \<Rightarrow> nat \<Rightarrow> nat list \<Rightarrow> bool" where
  "owns m e cs \<longleftrightarrow>
     distinct cs \<and> (\<forall>c\<in>set cs. 2 \<le> c \<and> c < fat12_total_clusters m + 2) \<and>
     (if cs = [] then ent_start m e = 0
      else \<exists>z\<ge>0xFF8. chain (fat12_get_entry m) (ent_start m e) cs z)"

definition files_ok :: "bmem \<Rightarrow> bool" where
  "files_ok m \<longleftrightarrow>
     fs_ok m \<and> (\<forall>e\<in>set (used_entries m). \<exists>cs. owns m e cs) \<and>
     (\<forall>e\<in>set (used_entries m). \<forall>d\<in>set (used_entries m). \<forall>cs ds.
        e \<noteq> d \<and> owns m e cs \<and> owns m d ds \<longrightarrow> set cs \<inter> set ds = {})"

lemma chain_entries_nonzero:
  assumes "chain f c cs z" "z \<noteq> 0" "\<forall>x\<in>set cs. x \<noteq> 0" "x \<in> set cs"
  shows "f x \<noteq> 0"
  using assms
proof (induction cs arbitrary: c)
  case (Cons y ys)
  then show ?case by (cases ys) auto
qed simp

lemma owns_nonzero: "owns m e cs \<Longrightarrow> x \<in> set cs \<Longrightarrow> fat12_get_entry m x \<noteq> 0"
  using chain_entries_nonzero [of "fat12_get_entry m" "ent_start m e" cs _ x]
  by (force simp: owns_def split: if_splits)

lemma owns_clusters: "owns m e cs \<Longrightarrow> fs_ok m \<Longrightarrow> \<forall>c\<in>set cs. is_cluster c"
  using fs_ok_layout(7) [of m] by (fastforce simp: owns_def)

text \<open>The contents of an entry depend on its own bytes, entries and clusters only.\<close>

lemma owned_read_same:
  assumes o: "owns m e cs" and ok: "fs_ok m" and b: "bpb_same m m'"
    and ent: "\<And>k. 26 \<le> k \<Longrightarrow> k < 32 \<Longrightarrow> m' (e + k) = m (e + k)"
    and fat: "\<And>c. c \<in> set cs \<Longrightarrow> fat12_get_entry m' c = fat12_get_entry m c"
    and dat: "\<And>c x. c \<in> set cs \<Longrightarrow> x \<in> region m c \<Longrightarrow> m' x = m x"
  shows "fat12_read_file e n m' = fat12_read_file e n m"
proof -
  have s: "ent_start m' e = ent_start m e" "ent_size m' e = ent_size m e"
    using ent [of "26 + _"] ent [of "28 + _"]
    by (auto simp: add.assoc intro!: rd16_cong rd32_cong)
  have cl: "\<forall>c\<in>set cs. is_cluster c" using owns_clusters [OF o ok] .
  obtain z where ch: "chain (fat12_get_entry m) (ent_start m e) cs z" "\<not> is_cluster z"
    using o unfolding owns_def by (cases "cs = []") auto
  have ch': "chain (fat12_get_entry m') (ent_start m e) cs z"
    using ch(1) fat by (subst chain_cong [of cs _ "fat12_get_entry m"]) auto
  have "map (\<lambda>c. mem_read m' (cluster_addr m c) (cluster_bytes m)) cs =
      map (\<lambda>c. mem_read m (cluster_addr m c) (cluster_bytes m)) cs"
    using dat by (auto simp: region_def intro!: mem_read_eqI)
  then have "chain_data m' cs = chain_data m cs"
    by (simp only: chain_data_def bpb_derived [OF b])
  then show ?thesis
    using read_chain_spec [OF ch(1) cl ch(2)] read_chain_spec [OF ch' cl ch(2)]
    by (simp add: fat12_read_file_def s)
qed

text \<open>Claiming one name does not disturb the search for another.\<close>

lemma new_entry_search:
  assumes none: "fat12_find nm ext m = None" and free: "fat12_find_free_entry m = Some e"
    and b: "bpb_same m m'"
    and other: "\<And>d k. d \<in> set (dir_entries m) \<Longrightarrow> d \<noteq> e \<Longrightarrow> k < 11 \<Longrightarrow> m' (d + k) = m (d + k)"
    and here: "ent_name m' e = nm" "ent_ext m' e = ext" "m' e \<noteq> 0"
    and g: "fat12_find gn gx m = Some d" and ne: "(gn, gx) \<noteq> (nm, ext)"
  shows "fat12_find gn gx m' = Some d"
proof -
  let ?P = "\<lambda>m e. ent_name m e = gn \<and> ent_ext m e = gx"
  from free obtain ys zs where d: "dir_entries m = ys @ e # zs" and ys: "\<forall>y\<in>set ys. m y \<noteq> 0 \<and> m y \<noteq> 0xE5"
    and me: "m e = 0 \<or> m e = 0xE5"
    unfolding fat12_find_free_entry_def by (auto dest: find_Some_split)
  have dist: "distinct (dir_entries m)" by (simp add: dir_entries_def distinct_map inj_on_def)
  have same: "m' (y + k) = m (y + k)" if "y \<in> set (ys @ zs)" "k < 11" for y k
    using other [of y k] that d dist by auto
  have same0: "m' y = m y" if "y \<in> set (ys @ zs)" for y using same [OF that, of 0] by simp
  have sameP: "?P m' y = ?P m y" if "y \<in> set (ys @ zs)" for y
  proof -
    have "ent_name m' y = ent_name m y" "ent_ext m' y = ent_ext m y"
      using same [OF that] same [OF that, of "8 + _"]
      by (auto simp: add.assoc intro!: mem_read_eqI)
    then show ?thesis by simp
  qed
  have live: "filter (\<lambda>e. n e \<noteq> 0xE5) (takeWhile (\<lambda>e. n e \<noteq> 0) (ys @ xs)) =
      ys @ filter (\<lambda>e. n e \<noteq> 0xE5) (takeWhile (\<lambda>e. n e \<noteq> 0) xs)"
    if "\<forall>y\<in>set ys. n y = m y" for n :: bmem and xs
  proof -
    have "filter (\<lambda>e. n e \<noteq> 0xE5) ys = ys" using ys that by (intro filter_True) auto
    then show ?thesis using ys that by (subst takeWhile_append2) auto
  qed
  let ?U = "\<lambda>n. filter (\<lambda>e. n e \<noteq> 0xE5) (takeWhile (\<lambda>e. n e \<noteq> 0) zs)"
  have U: "?U m' = ?U m"
  proof -
    have "takeWhile (\<lambda>e. m' e \<noteq> 0) zs = takeWhile (\<lambda>e. m e \<noteq> 0) zs"
      by (rule takeWhile_cong) (simp_all add: same0)
    then show ?thesis
      by (auto simp: same0 intro!: filter_cong dest!: set_takeWhileD)
  qed
  have u: "used_entries m = ys @ (if m e = 0 then [] else ?U m)"
    using live [of m "e # zs"] me by (auto simp: used_entries_def d)
  have u': "used_entries m' = ys @ (if m' e = 0xE5 then [] else [e]) @ ?U m"
    using live [of m' "e # zs"] same0 here(3) U
    by (auto simp: used_entries_def bpb_derived(7) [OF b] d)
  have fy: "find (?P m') ys = find (?P m) ys" by (rule find_cong) (use sameP in simp)
  have fU: "find (?P m') (?U m) = find (?P m) (?U m)"
    by (rule find_cong) (use sameP in \<open>auto dest: set_takeWhileD\<close>)
  have fe: "\<not> ?P m' e" using here ne by auto
  show ?thesis
    using g fe unfolding fat12_find_def u u'
    by (auto simp: find_append fy fU split: option.splits if_splits)
qed

lemma claim_find_other:
  assumes ok: "fs_ok m" and len: "length nm = 8" "length ext = 3" and h: "hd nm \<noteq> 0"
    and c: "claim_entry nm ext m = Some (Some (e, m1))"
    and g: "fat12_find gn gx m = Some d" and ne: "(gn, gx) \<noteq> (nm, ext)"
  shows "fat12_find gn gx m1 = Some d \<and> d \<noteq> e"
proof (cases "fat12_find nm ext m")
  case (Some e')
  from claim_existing [OF ok Some] obtain m0 where
    m0: "claim_entry nm ext m = Some (Some (e', clear_entry e' m0))" "only_fat m m0" by blast
  with c have m1: "e' = e" "m1 = clear_entry e m0" by auto
  note o = only_fat_facts [OF m0(2) ok]
  have e: "e \<in> set (dir_entries m0)"
    using find_in_dir [OF Some] m1 by (simp add: bpb_derived(7) [OF o(1)])
  have n1: "names_same m0 m1"
    by (rule tail_write_names [OF o(2) e]) (use m1 clear_entry_facts(3) in simp)
  have "fat12_find gn gx m1 = Some d"
    unfolding find_same [OF n1] find_same [OF o(3)] by (rule g)
  moreover have "d \<noteq> e"
    using used_name_storable(2,3) [OF g] used_name_storable(2,3) [OF Some] m1 ne by auto
  ultimately show ?thesis ..
next
  case None
  with c obtain f where f: "fat12_find_free_entry m = Some f"
    "e = f" "m1 = clear_entry e (new_entry e nm ext 0x20 m)"
    by (auto simp: claim_entry_def split: option.splits)
  have e: "e \<in> set (dir_entries m)" and me: "m e = 0 \<or> m e = 0xE5"
    using f(1,2) unfolding fat12_find_free_entry_def by (auto dest: find_Some_split)
  note n = new_entry_facts [OF len, where e = e and a = "0x20" and m = m]
  have low: "m1 x = new_entry e nm ext 0x20 m x" if "x < e + 26 \<or> e + 32 \<le> x" for x
    using that f(3) clear_entry_facts(3) by simp
  have out: "m1 x = m x" if "x < e \<or> e + 32 \<le> x" for x
  proof -
    have "new_entry e nm ext 0x20 m x = m x" by (rule n(3)) (use that in auto)
    then show ?thesis using low [of x] that by auto
  qed
  have nm: "ent_name m1 e = nm" "ent_ext m1 e = ext" "m1 e = hd nm"
    using mem_read_eqI [of 8 m1 e "new_entry e nm ext 0x20 m"]
      mem_read_eqI [of 3 m1 "e + 8" "new_entry e nm ext 0x20 m"] n low
    by (simp_all add: add.assoc)
  have b: "bpb_same m m1" by (rule entry_write_keeps(1) [OF ok e out])
  have keep: "m1 (x + k) = m (x + k)" if "x \<in> set (dir_entries m)" "x \<noteq> e" "k < 11" for x k
    using that dir_entry_apart [OF e that(1)] out [of "x + k"] by auto
  have "fat12_find gn gx m1 = Some d"
    by (rule new_entry_search [OF None _ b keep nm(1,2) _ g ne]) (use f h nm(3) in simp_all)
  moreover have "d \<noteq> e"
  proof -
    have "d \<in> set (used_entries m)" using find_in_dir [OF g] by blast
    then have "m d \<noteq> 0 \<and> m d \<noteq> 0xE5" by (auto simp: used_entries_def dest: set_takeWhileD)
    then show ?thesis using me by auto
  qed
  ultimately show ?thesis ..
qed

lemma upper8_nonzero: "c \<noteq> 0 \<Longrightarrow> upper8 c \<noteq> 0"
  by (auto simp: upper8_def)

lemma parse_hd_nonzero:
  assumes "0 \<notin> set f"
  shows "hd (fst (parse_83 f)) \<noteq> 0"
proof (cases f)
  case Nil
  then show ?thesis by (simp add: parse_83_def pad_to_def)
next
  case (Cons c cs)
  show ?thesis
  proof (cases "c = 0x2E")
    case True
    then show ?thesis using Cons by (simp add: parse_83_def pad_to_def)
  next
    case False
    then have "fst (parse_83 f) = pad_to 8 (upper8 c # fst (base_83 7 cs))"
      using Cons by (simp add: parse_83_def split_beta Let_def)
    then show ?thesis
      using assms Cons upper8_nonzero [of c] by (simp add: pad_to_def)
  qed
qed

text \<open>The entries and the clusters of the other files survive the claim.\<close>

lemma claim_keeps_owned:
  assumes ok: "files_ok m" and c: "claim_entry nm ext m = Some (Some (e, m1))"
    and len: "length nm = 8" "length ext = 3"
    and d: "d \<in> set (used_entries m)" "d \<noteq> e" and ow: "owns m d ds" and x: "x \<in> set ds"
  shows "fat12_get_entry m1 x = fat12_get_entry m x"
proof -
  have fo: "fs_ok m" using ok by (simp add: files_ok_def)
  have cl: "is_cluster x" using owns_clusters [OF ow fo] x by blast
  have cd: "claimed m e m1" using claim_entry_claimed [OF fo len c] by blast
  then have e: "e \<in> set (dir_entries m)" by (simp add: claimed_def)
  show ?thesis
  proof (cases "fat12_find nm ext m")
    case (Some e')
    from claim_existing [OF fo Some] obtain m0 where
      m0: "claim_entry nm ext m = Some (Some (e', clear_entry e' m0))" "only_fat m m0"
        "if ent_start m e' \<noteq> 0 then fat12_free_chain (ent_start m e') m = Some m0 else m0 = m" by blast
    with c have m1: "e' = e" "m1 = clear_entry e m0" by auto
    have e_used: "e \<in> set (used_entries m)" using find_in_dir [OF Some] m1 by blast
    obtain cs where cs: "owns m e cs" using ok e_used by (auto simp: files_ok_def)
    have disj: "x \<notin> set cs" using ok e_used d cs ow x unfolding files_ok_def by blast
    have "fat12_get_entry m0 x = fat12_get_entry m x"
    proof (cases "ent_start m e = 0")
      case True
      then show ?thesis using m0(3) m1 by simp
    next
      case False
      then have ne: "cs \<noteq> []" using cs by (auto simp: owns_def)
      obtain z where z: "chain (fat12_get_entry m) (ent_start m e) cs z" "\<not> is_cluster z"
        using cs ne unfolding owns_def by auto
      from free_chain_chain [OF z(1) _ owns_clusters [OF cs fo] z(2) fs_ok_layout(2) [OF fo]] cs
      show ?thesis using m0(3) m1 False disj by (auto simp: owns_def)
    qed
    moreover have "fat12_get_entry m1 x = fat12_get_entry m0 x"
    proof -
      note o = only_fat_facts [OF m0(2) fo]
      have "e \<in> set (dir_entries m0)" using e by (simp add: bpb_derived(7) [OF o(1)])
      then show ?thesis
        by (rule entry_write_keeps(2) [OF o(2)]) (use m1 clear_entry_facts(3) cl in auto)
    qed
    ultimately show ?thesis by simp
  next
    case None
    with c obtain f where f: "e = f" "m1 = clear_entry e (new_entry e nm ext 0x20 m)"
      by (auto simp: claim_entry_def split: option.splits)
    have "m1 y = m y" if "y < e \<or> e + 32 \<le> y" for y
    proof -
      have "new_entry e nm ext 0x20 m y = m y"
        by (rule new_entry_facts(3) [OF len]) (use that in auto)
      moreover have "m1 y = new_entry e nm ext 0x20 m y"
        unfolding f(2) by (rule clear_entry_facts(3)) (use that in auto)
      ultimately show ?thesis by simp
    qed
    then show ?thesis by (rule entry_write_keeps(2) [OF fo e]) (use cl in auto)
  qed
qed

lemma claimed_read_other:
  assumes ok: "files_ok m" and c: "claim_entry nm ext m = Some (Some (e, m1))"
    and len: "length nm = 8" "length ext = 3" and d: "d \<in> set (used_entries m)" "d \<noteq> e"
    and b: "bpb_same m1 m4" and ow: "owns m d ds"
    and fat: "\<And>x. x < 4096 \<Longrightarrow> fat12_get_entry m1 x \<noteq> 0 \<Longrightarrow> fat12_get_entry m4 x = fat12_get_entry m1 x"
    and dat: "\<And>x. x \<notin> fat_bytes m1 \<Longrightarrow> x < e + 26 \<or> e + 32 \<le> x \<Longrightarrow>
      (\<And>c. is_cluster c \<Longrightarrow> fat12_get_entry m1 c = 0 \<Longrightarrow> x \<notin> region m1 c) \<Longrightarrow> m4 x = m1 x"
  shows "fat12_read_file d n m4 = fat12_read_file d n m"
proof -
  have fo: "fs_ok m" using ok by (simp add: files_ok_def)
  have cd: "claimed m e m1" using claim_entry_claimed [OF fo len c] by blast
  note o1 = claimed_ok [OF cd fo] and der = bpb_derived [OF claimed_ok(1) [OF cd fo]]
  have e: "e \<in> set (dir_entries m)" using cd by (simp add: claimed_def)
  have dd: "d \<in> set (dir_entries m)" using d(1) set_used_entries by blast
  note re = dir_entry_range [OF fo e] and rd = dir_entry_range [OF fo dd]
  have keep1: "m1 x = m x" if "x \<notin> fat_bytes m" "x < e \<or> e + 32 \<le> x" for x
    using cd that by (simp add: claimed_def)
  have fb: "fat_bytes m1 = fat_bytes m" by (simp add: fat_bytes_def der)
  have own: "fat12_get_entry m1 x = fat12_get_entry m x" "fat12_get_entry m x \<noteq> 0" "is_cluster x"
    if "x \<in> set ds" for x
    using claim_keeps_owned [OF ok c len d ow that] owns_nonzero [OF ow that]
      owns_clusters [OF ow fo] that by auto
  show ?thesis
  proof (rule owned_read_same [OF ow fo])
    show "bpb_same m m4" using bpb_same_trans [OF o1(1) b] .
    fix k :: nat assume k: "26 \<le> k" "k < 32"
    have out: "d + k < e \<or> e + 32 \<le> d + k" using dir_entry_apart [OF e dd] d(2) k by auto
    have nf: "d + k \<notin> fat_bytes m" using rd(3) by (simp add: fat_bytes_def)
    have "m4 (d + k) = m1 (d + k)"
    proof (rule dat)
      show "d + k \<notin> fat_bytes m1" using nf fb by simp
      show "d + k < e + 26 \<or> e + 32 \<le> d + k" using out by auto
      show "d + k \<notin> region m1 c" for c using region_above [OF o1(2), of "d + k" c] rd(2) k der(4) by auto
    qed
    then show "m4 (d + k) = m (d + k)" using keep1 [OF nf out] by simp
  next
    fix c assume "c \<in> set ds"
    then show "fat12_get_entry m4 c = fat12_get_entry m c"
      using own [of c] fat [of c] by auto
  next
    fix c x assume cx: "c \<in> set ds" "x \<in> region m c"
    have x: "fat12_data_offset m \<le> x" using region_above [OF fo cx(2)] .
    have nf: "x \<notin> fat_bytes m" using x fs_ok_layout(4,5) [OF fo] by (auto simp: fat_bytes_def)
    have "m4 x = m1 x"
    proof (rule dat)
      show "x \<notin> fat_bytes m1" using nf fb by simp
      show "x < e + 26 \<or> e + 32 \<le> x" using x re by auto
      fix c' assume c': "is_cluster c'" "fat12_get_entry m1 c' = 0"
      then have "c \<noteq> c'" using own [OF cx(1)] by auto
      then have "region m c \<inter> region m c' = {}" using region_disjoint [OF fo] own(3) [OF cx(1)] c'(1) by blast
      then show "x \<notin> region m1 c'" using cx(2) by (auto simp: region_def der)
    qed
    then show "m4 x = m x" using keep1 [OF nf] x re by auto
  qed
qed

end
