(* ===== verification/Paging.thy ===== *)
theory Paging
  imports AxPrelude
begin

section \<open>Page tables and the isolation of user programs\<close>

text \<open>
  \<^verbatim>\<open>src/src/kernel/paging.c\<close> with the constants of \<^verbatim>\<open>paging.h\<close> and \<^verbatim>\<open>memmap.h\<close>. Page-table entries
  are 64-bit words stored by physical address. What the processor reports (\<^verbatim>\<open>CPUID\<close>, \<^verbatim>\<open>RDRAND\<close>) and
  the linker symbol \<^verbatim>\<open>_text_end\<close> are parameters of \<open>init_paging\<close>. \<open>mmu_walk\<close> is the hardware's
  four-level translation, against which the tables are judged.
\<close>

record paging =
  pte :: "nat \<Rightarrow> u64"
  g_nx :: bool
  g_kheap_pd_index :: nat
  g_kheap_base :: nat
  g_pool_pd_index :: nat
  g_pool_base :: nat

abbreviation PAE_P :: u64 where "PAE_P \<equiv> 1"
abbreviation PAE_RW :: u64 where "PAE_RW \<equiv> 2"
abbreviation PAE_USER :: u64 where "PAE_USER \<equiv> 4"
abbreviation PAE_PS :: u64 where "PAE_PS \<equiv> 0x80"
abbreviation PAE_XD :: u64 where "PAE_XD \<equiv> 0x8000000000000000"
abbreviation PAGE_SIZE :: nat where "PAGE_SIZE \<equiv> 0x1000"

abbreviation GLOBAL_PML4 :: nat where "GLOBAL_PML4 \<equiv> 0x9C000"
abbreviation GLOBAL_PDPT :: nat where "GLOBAL_PDPT \<equiv> 0x9D000"
abbreviation GLOBAL_PD :: nat where "GLOBAL_PD \<equiv> 0x9E000"
abbreviation GLOBAL_PT0 :: nat where "GLOBAL_PT0 \<equiv> 0x9F000"
abbreviation KHEAP_PAGES :: nat where "KHEAP_PAGES \<equiv> 16"
abbreviation POOL_PDPT_OFF :: nat where "POOL_PDPT_OFF \<equiv> 0x4000"
abbreviation POOL_PD_OFF :: nat where "POOL_PD_OFF \<equiv> 0x8000"
abbreviation POOL_PT_OFF :: nat where "POOL_PT_OFF \<equiv> 0xC000"

abbreviation USER_WINDOW_BASE :: nat where "USER_WINDOW_BASE \<equiv> 0x100000"
abbreviation USER_WINDOW_PAGES :: nat where "USER_WINDOW_PAGES \<equiv> 16"
abbreviation USER_WINDOW_SIZE :: nat where "USER_WINDOW_SIZE \<equiv> 0x10000"
abbreviation USER_PROGRAM_BASE :: nat where "USER_PROGRAM_BASE \<equiv> 0x200000"
abbreviation USER_PROGRAM_SLOT_SIZE :: nat where "USER_PROGRAM_SLOT_SIZE \<equiv> 0x10000"
abbreviation USER_PROGRAM_SLOTS :: nat where "USER_PROGRAM_SLOTS \<equiv> 4"

definition slot_base :: "nat \<Rightarrow> nat" where
  "slot_base i = USER_PROGRAM_BASE + i * USER_PROGRAM_SLOT_SIZE"

text \<open>The two random placements; \<open>r\<close> is what \<^verbatim>\<open>early_random64\<close> returns.\<close>

definition kheap_pick_pd_index :: "u64 \<Rightarrow> nat" where
  "kheap_pick_pd_index r = 3 + unat r mod (223 - 3 - KHEAP_PAGES + 1)"

definition kpool_pick_pd_index :: "u64 \<Rightarrow> nat" where
  "kpool_pick_pd_index r = 223 + unat r mod (255 - 223)"

text \<open>\<^verbatim>\<open>for (i = lo; i < hi; i++) table[i] = f(i);\<close>\<close>

definition fill :: "nat \<Rightarrow> nat \<Rightarrow> nat \<Rightarrow> (nat \<Rightarrow> u64) \<Rightarrow> (nat \<Rightarrow> u64) \<Rightarrow> nat \<Rightarrow> u64" where
  "fill table lo hi f m =
     (\<lambda>a. if table + 8 * lo \<le> a \<and> a < table + 8 * hi \<and> (a - table) mod 8 = 0
          then f ((a - table) div 8) else m a)"

abbreviation addr :: "nat \<Rightarrow> u64" where "addr \<equiv> word_of_nat"

definition pt0_entry :: "nat \<Rightarrow> nat \<Rightarrow> u64" where
  "pt0_entry text_end i =
     (let a = i * PAGE_SIZE;
          flags = (if USER_WINDOW_BASE \<le> a \<and> a < USER_WINDOW_BASE + USER_WINDOW_SIZE
                   then PAE_P OR PAE_USER OR PAE_RW
                   else if 0x1000 \<le> a \<and> a + PAGE_SIZE \<le> text_end then PAE_P
                   else PAE_P OR PAE_RW)
      in addr a OR flags)"

definition nx_flag :: "bool \<Rightarrow> u64" where
  "nx_flag nx = (if nx then PAE_XD else 0)"

definition init_paging :: "bool \<Rightarrow> nat \<Rightarrow> u64 \<Rightarrow> u64 \<Rightarrow> paging \<Rightarrow> paging" where
  "init_paging nx text_end r1 r2 p =
     (let te = text_end div PAGE_SIZE * PAGE_SIZE;
          hi = kheap_pick_pd_index r1; hb = hi * 0x200000;
          pi = kpool_pick_pd_index r2; pb = pi * 0x200000;
          kfl = PAE_P OR PAE_RW OR PAE_PS OR nx_flag nx;
          m = fill GLOBAL_PT0 0 512 (pt0_entry te) (pte p);
          m = m(GLOBAL_PT0 + 8 * 0x8C := 0);
          m = m(GLOBAL_PD := addr GLOBAL_PT0 OR PAE_P OR PAE_RW OR PAE_USER);
          m = m(GLOBAL_PD + 8 := 0x200000 OR kfl);
          m = m(GLOBAL_PD + 16 := 0x400000 OR kfl);
          m = fill GLOBAL_PD 3 512 (\<lambda>_. 0) m;
          m = fill GLOBAL_PD hi (hi + KHEAP_PAGES) (\<lambda>i. addr (hb + (i - hi) * 0x200000) OR kfl) m;
          m = m(GLOBAL_PD + 8 * pi := addr pb OR kfl);
          m = m(GLOBAL_PDPT := addr GLOBAL_PD OR PAE_P OR PAE_RW OR PAE_USER);
          m = fill GLOBAL_PDPT 1 512 (\<lambda>_. 0) m;
          m = m(GLOBAL_PML4 := addr GLOBAL_PDPT OR PAE_P OR PAE_RW OR PAE_USER);
          m = fill GLOBAL_PML4 1 512 (\<lambda>_. 0) m
      in p\<lparr>pte := m, g_nx := nx, g_kheap_pd_index := hi, g_kheap_base := hb,
           g_pool_pd_index := pi, g_pool_base := pb\<rparr>)"

definition window_entry :: "bool \<Rightarrow> nat \<Rightarrow> nat \<Rightarrow> nat \<Rightarrow> nat \<Rightarrow> u64" where
  "window_entry nx phys_slot_base wx_delta wx_data_off i =
     (let entry = addr (phys_slot_base + i * PAGE_SIZE) OR PAE_P OR PAE_USER;
          data_start = wrap32 (wx_delta + wx_data_off)
      in if wx_data_off = 0 \<or> i = USER_WINDOW_PAGES - 1 then entry OR PAE_RW
         else if i * PAGE_SIZE + PAGE_SIZE - 1 < data_start then entry
         else entry OR PAE_RW OR nx_flag nx)"

definition user_pt :: "bool \<Rightarrow> nat \<Rightarrow> nat \<Rightarrow> nat \<Rightarrow> nat \<Rightarrow> (nat \<Rightarrow> u64) \<Rightarrow> nat \<Rightarrow> u64" where
  "user_pt nx pt phys_slot_base wx_delta wx_data_off m =
     (let first_page = USER_WINDOW_BASE div PAGE_SIZE
      in fill pt first_page (first_page + USER_WINDOW_PAGES)
           (\<lambda>i. window_entry nx phys_slot_base wx_delta wx_data_off (i - first_page))
           (fill pt 0 512 (\<lambda>i. m (GLOBAL_PT0 + 8 * i) AND NOT PAE_USER) m))"

definition user_pd :: "nat \<Rightarrow> nat \<Rightarrow> nat \<Rightarrow> nat \<Rightarrow> (nat \<Rightarrow> u64) \<Rightarrow> nat \<Rightarrow> u64" where
  "user_pd kheap_idx pool_idx pd pt m =
     (let m1 = (fill pd 3 512 (\<lambda>_. 0) m)
            (pd := addr pt OR PAE_P OR PAE_RW OR PAE_USER,
             pd + 8 := m (GLOBAL_PD + 8) AND NOT PAE_USER,
             pd + 16 := m (GLOBAL_PD + 16) AND NOT PAE_USER);
          m2 = fill pd kheap_idx (kheap_idx + KHEAP_PAGES)
                 (\<lambda>i. m1 (GLOBAL_PD + 8 * i) AND NOT PAE_USER) m1
      in m2(pd + 8 * pool_idx := m2 (GLOBAL_PD + 8 * pool_idx) AND NOT PAE_USER))"

definition user_top :: "nat \<Rightarrow> nat \<Rightarrow> nat \<Rightarrow> (nat \<Rightarrow> u64) \<Rightarrow> nat \<Rightarrow> u64" where
  "user_top pml4 pdpt pd m =
     fill pml4 1 512 (\<lambda>_. 0)
       ((fill pdpt 1 512 (\<lambda>_. 0) (m(pdpt := addr pd OR PAE_P OR PAE_RW OR PAE_USER)))
          (pml4 := addr pdpt OR PAE_P OR PAE_RW OR PAE_USER))"

definition paging_create_user_directory ::
  "nat \<Rightarrow> nat \<Rightarrow> nat \<Rightarrow> nat \<Rightarrow> paging \<Rightarrow> nat \<times> paging" where
  "paging_create_user_directory slot phys_slot_base wx_delta wx_data_off p =
     (let off = slot * PAGE_SIZE;
          pml4 = g_pool_base p + off;
          pdpt = g_pool_base p + POOL_PDPT_OFF + off;
          pd = g_pool_base p + POOL_PD_OFF + off;
          pt = g_pool_base p + POOL_PT_OFF + off
      in (pml4, p\<lparr>pte :=
            user_top pml4 pdpt pd
             (user_pd (g_kheap_pd_index p) (g_pool_pd_index p) pd pt
               (user_pt (g_nx p) pt phys_slot_base wx_delta wx_data_off (pte p)))\<rparr>))"

subsection \<open>The hardware's translation\<close>

record xlate =
  pa :: nat
  user_ok :: bool
  write_ok :: bool
  exec_ok :: bool

definition frame_of :: "u64 \<Rightarrow> nat" where
  "frame_of e = unat (e AND 0x000FFFFFFFFFF000)"

definition mmu_walk :: "(nat \<Rightarrow> u64) \<Rightarrow> nat \<Rightarrow> nat \<Rightarrow> xlate option" where
  "mmu_walk m cr3 va =
     (let e4 = m (cr3 + 8 * (va div 2 ^ 39 mod 512))
      in if \<not> bit e4 0 then None else
      let e3 = m (frame_of e4 + 8 * (va div 2 ^ 30 mod 512))
      in if \<not> bit e3 0 then None else
      let e2 = m (frame_of e3 + 8 * (va div 2 ^ 21 mod 512))
      in if \<not> bit e2 0 then None
         else if bit e2 7 then
           Some \<lparr>pa = unat (e2 AND 0x000FFFFFFFE00000) + va mod 2 ^ 21,
                 user_ok = bit e4 2 \<and> bit e3 2 \<and> bit e2 2,
                 write_ok = bit e4 1 \<and> bit e3 1 \<and> bit e2 1,
                 exec_ok = (\<not> bit e4 63 \<and> \<not> bit e3 63 \<and> \<not> bit e2 63)\<rparr>
         else
      let e1 = m (frame_of e2 + 8 * (va div 2 ^ 12 mod 512))
      in if \<not> bit e1 0 then None
         else
           Some \<lparr>pa = frame_of e1 + va mod 2 ^ 12,
                 user_ok = bit e4 2 \<and> bit e3 2 \<and> bit e2 2 \<and> bit e1 2,
                 write_ok = bit e4 1 \<and> bit e3 1 \<and> bit e2 1 \<and> bit e1 1,
                 exec_ok = (\<not> bit e4 63 \<and> \<not> bit e3 63 \<and> \<not> bit e2 63 \<and> \<not> bit e1 63)\<rparr>)"

subsection \<open>Lemmas\<close>

lemma fill_in: "lo \<le> i \<Longrightarrow> i < hi \<Longrightarrow> fill t lo hi f m (t + 8 * i) = f i"
  by (simp add: fill_def)

lemma fill_out: "a < t + 8 * lo \<or> t + 8 * hi \<le> a \<Longrightarrow> fill t lo hi f m a = m a"
  by (auto simp: fill_def)

lemma table_mask: "(0x000FFFFFFFFFF000 :: u64) = push_bit 12 (mask 40)"
  by (simp add: mask_eq_exp_minus_1 push_bit_eq_mult)

lemma bit_page:
  fixes a :: nat
  assumes "a mod 4096 = 0" "a < 2 ^ 32"
  shows "bit a n \<Longrightarrow> 12 \<le> n \<and> n < 32"
proof -
  have t: "take_bit 12 a = 0" "take_bit 32 a = a"
    using assms by (simp_all add: take_bit_eq_mod)
  assume b: "bit a n"
  have "\<not> bit (take_bit 12 a) n" unfolding t(1) by simp
  moreover have "bit (take_bit 32 a) n" unfolding t(2) by (rule b)
  ultimately show "12 \<le> n \<and> n < 32" using b by (auto simp: bit_take_bit_iff)
qed

lemma bit_addr: "bit (addr a :: u64) n \<longleftrightarrow> n < 64 \<and> bit a n"
  by (simp add: bit_of_nat_iff)

lemma frame_of_table:
  assumes a: "a mod 4096 = 0" "a < 2 ^ 32" and f: "f AND 0x000FFFFFFFFFF000 = 0"
  shows "frame_of (addr a OR f) = a"
proof -
  have nf: "\<not> bit f n" if "12 \<le> n" "n < 52" for n
  proof -
    have "bit (f AND 0x000FFFFFFFFFF000) n = bit f n"
      unfolding table_mask using that by (auto simp: bit_simps)
    then show ?thesis using f by simp
  qed
  have "(addr a OR f) AND 0x000FFFFFFFFFF000 = (addr a :: u64)"
    unfolding table_mask
    by (rule bit_word_eqI) (use nf bit_page [OF a] in \<open>force simp: bit_simps bit_addr\<close>)
  then show ?thesis using a(2) by (simp add: frame_of_def unat_of_nat)
qed

lemma page_low_bits:
  assumes "a mod 4096 = 0" "a < 2 ^ 32" "n < 12 \<or> 32 \<le> n"
  shows "bit (addr a OR f :: u64) n = bit f n"
  using bit_page [OF assms(1,2), of n] assms(3) by (auto simp: bit_simps bit_addr)

text \<open>A table that \<^verbatim>\<open>paging_create_user_directory\<close> links into the tree.\<close>

lemma link_entry:
  assumes "a mod 4096 = 0" "a < 2 ^ 32"
  shows "frame_of (addr a OR PAE_P OR PAE_RW OR PAE_USER) = a"
    "bit (addr a OR PAE_P OR PAE_RW OR PAE_USER) 0" "bit (addr a OR PAE_P OR PAE_RW OR PAE_USER) 1"
    "bit (addr a OR PAE_P OR PAE_RW OR PAE_USER) 2" "\<not> bit (addr a OR PAE_P OR PAE_RW OR PAE_USER) 7"
    "\<not> bit (addr a OR PAE_P OR PAE_RW OR PAE_USER) 63"
  using frame_of_table [OF assms, of "PAE_P OR PAE_RW OR PAE_USER"]
    page_low_bits [OF assms, of _ "PAE_P OR PAE_RW OR PAE_USER"]
  by (simp_all add: or.assoc)

lemma no_user_bit: "\<not> bit (e AND NOT PAE_USER) 2"
  by (simp add: bit_simps)

lemmas no_user_bit_eval = no_user_bit [simplified]

text \<open>The tables that \<open>init_paging\<close> sets up where the pool may lie.\<close>

definition paging_ok :: "paging \<Rightarrow> bool" where
  "paging_ok p \<longleftrightarrow>
     3 \<le> g_kheap_pd_index p \<and> g_kheap_pd_index p + KHEAP_PAGES \<le> 223 \<and>
     g_kheap_base p = g_kheap_pd_index p * 0x200000 \<and>
     223 \<le> g_pool_pd_index p \<and> g_pool_pd_index p < 255 \<and>
     g_pool_base p = g_pool_pd_index p * 0x200000"

lemma init_paging_ok: "paging_ok (init_paging nx te r1 r2 p)"
proof -
  have "unat r1 mod 205 < 205" "unat r2 mod 32 < 32" by simp_all
  then show ?thesis
    by (simp add: paging_ok_def init_paging_def Let_def kheap_pick_pd_index_def kpool_pick_pd_index_def)
qed

lemma fill_at:
  "fill t lo hi f m (t + 8 * i) = (if lo \<le> i \<and> i < hi then f i else m (t + 8 * i))"
  by (auto simp: fill_def)

lemma fill_away: "a < t \<or> t + 4096 \<le> a \<Longrightarrow> hi \<le> 512 \<Longrightarrow> fill t lo hi f m a = m a"
  by (auto simp: fill_def)

definition pdpt_of :: "paging \<Rightarrow> nat \<Rightarrow> nat" where
  "pdpt_of p slot = g_pool_base p + POOL_PDPT_OFF + slot * PAGE_SIZE"
definition pd_of :: "paging \<Rightarrow> nat \<Rightarrow> nat" where
  "pd_of p slot = g_pool_base p + POOL_PD_OFF + slot * PAGE_SIZE"
definition pt_of :: "paging \<Rightarrow> nat \<Rightarrow> nat" where
  "pt_of p slot = g_pool_base p + POOL_PT_OFF + slot * PAGE_SIZE"

lemma create_dir:
  "paging_create_user_directory slot base d w p = (dir, p') \<Longrightarrow> dir = g_pool_base p + slot * PAGE_SIZE"
  by (auto simp: paging_create_user_directory_def Let_def)

lemma pd_no_user:
  assumes "3 \<le> h" "h + 16 \<le> 512" "i \<noteq> 0" "i < 512"
  shows "\<not> bit (((fill pd h (h + 16) (\<lambda>i. F i AND NOT PAE_USER) ((fill pd 3 512 (\<lambda>_. 0) m)
    (pd := L, pd + 8 := A AND NOT PAE_USER, pd + 16 := B AND NOT PAE_USER)))
    (pd + 8 * gp := C AND NOT PAE_USER)) (pd + 8 * i)) 2"
proof -
  have "i = 1 \<or> i = 2 \<or> 3 \<le> i" using assms(3) by linarith
  then show ?thesis
    using assms(1,2,4)
    by (elim disjE)
      (auto simp: fill_at no_user_bit_eval fill_out simp del: bit_and_iff)
qed

text \<open>What the four tables of a user directory hold.\<close>

lemma user_pd_entry:
  assumes "3 \<le> h" "h + 16 \<le> 512" "3 \<le> gp" "gp < 512" "i < 512"
  shows "i \<noteq> 0 \<Longrightarrow> \<not> bit (user_pd h gp pd pt m (pd + 8 * i)) 2"
    "user_pd h gp pd pt m pd = addr pt OR PAE_P OR PAE_RW OR PAE_USER"
    "a < pd \<or> pd + 4096 \<le> a \<Longrightarrow> user_pd h gp pd pt m a = m a"
proof -
  show "\<not> bit (user_pd h gp pd pt m (pd + 8 * i)) 2" if "i \<noteq> 0"
    unfolding user_pd_def Let_def by (rule pd_no_user [OF assms(1,2) that assms(5)])
  show "user_pd h gp pd pt m pd = addr pt OR PAE_P OR PAE_RW OR PAE_USER"
    unfolding user_pd_def Let_def using assms by (simp add: fill_out)
  show "a < pd \<or> pd + 4096 \<le> a \<Longrightarrow> user_pd h gp pd pt m a = m a"
    unfolding user_pd_def Let_def using assms by (auto simp: fill_away)
qed

lemma user_tables:
  assumes ok: "paging_ok p" and slot: "slot < 4"
    and c: "paging_create_user_directory slot base d w p = (dir, p')"
  shows "pte p' (dir + 8 * i) = (if i = 0 then addr (pdpt_of p slot) OR PAE_P OR PAE_RW OR PAE_USER else 0) \<or> 512 \<le> i"
    "pte p' (pdpt_of p slot + 8 * i) = (if i = 0 then addr (pd_of p slot) OR PAE_P OR PAE_RW OR PAE_USER else 0) \<or> 512 \<le> i"
    "i < 512 \<Longrightarrow> i \<noteq> 0 \<Longrightarrow> \<not> bit (pte p' (pd_of p slot + 8 * i)) 2"
    "pte p' (pd_of p slot) = addr (pt_of p slot) OR PAE_P OR PAE_RW OR PAE_USER"
    "i < 512 \<Longrightarrow> pte p' (pt_of p slot + 8 * i) =
       (if 256 \<le> i \<and> i < 272 then window_entry (g_nx p) base d w (i - 256)
        else pte p (GLOBAL_PT0 + 8 * i) AND NOT PAE_USER)"
proof -
  let ?pml4 = "g_pool_base p + slot * 4096"
  let ?m1 = "user_pt (g_nx p) (pt_of p slot) base d w (pte p)"
  let ?m2 = "user_pd (g_kheap_pd_index p) (g_pool_pd_index p) (pd_of p slot) (pt_of p slot) ?m1"
  have dir: "dir = ?pml4" using create_dir [OF c] .
  have p': "pte p' = user_top ?pml4 (pdpt_of p slot) (pd_of p slot) ?m2"
    using c by (auto simp: paging_create_user_directory_def Let_def pdpt_of_def pd_of_def pt_of_def)
  from ok have h: "3 \<le> g_kheap_pd_index p" "g_kheap_pd_index p + 16 \<le> 512"
    "3 \<le> g_pool_pd_index p" "g_pool_pd_index p < 512"
    by (auto simp: paging_ok_def)
  have ord: "?pml4 + 0x4000 = pdpt_of p slot" "pdpt_of p slot + 0x4000 = pd_of p slot"
    "pd_of p slot + 0x4000 = pt_of p slot"
    by (simp_all add: pdpt_of_def pd_of_def pt_of_def)
  have low: "pte p' a = ?m2 a" if "pd_of p slot \<le> a" for a
    unfolding p' user_top_def using that ord by (auto simp: fill_away)
  show "pte p' (dir + 8 * i) = (if i = 0 then addr (pdpt_of p slot) OR PAE_P OR PAE_RW OR PAE_USER else 0) \<or> 512 \<le> i"
    unfolding p' dir user_top_def by (auto simp: fill_at)
  show "pte p' (pdpt_of p slot + 8 * i) = (if i = 0 then addr (pd_of p slot) OR PAE_P OR PAE_RW OR PAE_USER else 0) \<or> 512 \<le> i"
    unfolding p' user_top_def ord(1) [symmetric] by (auto simp: fill_at fill_away)
  show "\<not> bit (pte p' (pd_of p slot + 8 * i)) 2" if "i < 512" "i \<noteq> 0"
    using user_pd_entry(1) [OF h that] by (simp add: low)
  show "pte p' (pd_of p slot) = addr (pt_of p slot) OR PAE_P OR PAE_RW OR PAE_USER"
    using user_pd_entry(2) [OF h, of 0] by (simp add: low)
  show "pte p' (pt_of p slot + 8 * i) =
       (if 256 \<le> i \<and> i < 272 then window_entry (g_nx p) base d w (i - 256)
        else pte p (GLOBAL_PT0 + 8 * i) AND NOT PAE_USER)" if "i < 512"
  proof -
    have "pte p' (pt_of p slot + 8 * i) = ?m2 (pt_of p slot + 8 * i)"
      using ord by (intro low) simp
    also have "\<dots> = ?m1 (pt_of p slot + 8 * i)"
      using ord h by (intro user_pd_entry(3) [where i = 0]) auto
    also have "\<dots> = (if 256 \<le> i \<and> i < 272 then window_entry (g_nx p) base d w (i - 256)
        else pte p (GLOBAL_PT0 + 8 * i) AND NOT PAE_USER)"
      unfolding user_pt_def Let_def fill_at using that by simp
    finally show ?thesis .
  qed
qed

lemma table_addresses:
  assumes "paging_ok p" "slot < 4"
  shows "pdpt_of p slot mod 4096 = 0" "pdpt_of p slot < 2 ^ 32" "pd_of p slot mod 4096 = 0"
    "pd_of p slot < 2 ^ 32" "pt_of p slot mod 4096 = 0" "pt_of p slot < 2 ^ 32"
proof -
  have B: "g_pool_base p = g_pool_pd_index p * 512 * 4096" "g_pool_pd_index p < 255"
    using assms(1) by (auto simp: paging_ok_def)
  have "(g_pool_pd_index p * 512 + k + slot) * 4096 mod 4096 = 0" for k by simp
  from this [of 4] this [of 8] this [of 12]
  show "pdpt_of p slot mod 4096 = 0" "pd_of p slot mod 4096 = 0" "pt_of p slot mod 4096 = 0"
    by (simp_all add: pdpt_of_def pd_of_def pt_of_def B algebra_simps)
  show "pdpt_of p slot < 2 ^ 32" "pd_of p slot < 2 ^ 32" "pt_of p slot < 2 ^ 32"
    using B assms(2) by (simp_all add: pdpt_of_def pd_of_def pt_of_def)
qed

text \<open>The flags of a window page.\<close>

lemma window_entry_flags:
  assumes "a = base + i * 4096" "base mod 4096 = 0" "a < 2 ^ 32"
  shows "frame_of (window_entry nx base d w i) = a" "bit (window_entry nx base d w i) 0"
    "bit (window_entry nx base d w i) 2"
    "bit (window_entry nx base d w i) 1 \<longleftrightarrow>
       w = 0 \<or> i = 15 \<or> wrap32 (d + w) \<le> i * 4096 + 4095"
    "bit (window_entry nx base d w i) 63 \<longleftrightarrow>
       nx \<and> w \<noteq> 0 \<and> i \<noteq> 15 \<and> wrap32 (d + w) \<le> i * 4096 + 4095"
proof -
  have a: "a mod 4096 = 0" using assms by simp
  obtain f where e: "window_entry nx base d w i = addr a OR f"
    and f: "f = PAE_P OR PAE_USER \<and> \<not> (w = 0 \<or> i = 15 \<or> wrap32 (d + w) \<le> i * 4096 + 4095) \<or>
      f = PAE_P OR PAE_USER OR PAE_RW \<and> (w = 0 \<or> i = 15 \<or> wrap32 (d + w) \<le> i * 4096 + 4095 \<and> \<not> nx) \<or>
      f = PAE_P OR PAE_USER OR PAE_RW OR PAE_XD \<and> w \<noteq> 0 \<and> i \<noteq> 15 \<and>
        wrap32 (d + w) \<le> i * 4096 + 4095 \<and> nx"
    unfolding window_entry_def Let_def assms(1) nx_flag_def
    by (cases "w = 0 \<or> i = 15"; cases "i * 4096 + 4095 < wrap32 (d + w)"; cases nx) (auto simp: or.assoc)
  have "f AND 0x000FFFFFFFFFF000 = 0" using f by (elim disjE conjE) simp_all
  then show "frame_of (window_entry nx base d w i) = a" using frame_of_table [OF a assms(3)] e by simp
  have b: "bit (window_entry nx base d w i) n = bit f n" if "n < 12 \<or> 32 \<le> n" for n
    unfolding e by (rule page_low_bits [OF a assms(3) that])
  show "bit (window_entry nx base d w i) 0" "bit (window_entry nx base d w i) 2"
    "bit (window_entry nx base d w i) 1 \<longleftrightarrow> w = 0 \<or> i = 15 \<or> wrap32 (d + w) \<le> i * 4096 + 4095"
    "bit (window_entry nx base d w i) 63 \<longleftrightarrow>
       nx \<and> w \<noteq> 0 \<and> i \<noteq> 15 \<and> wrap32 (d + w) \<le> i * 4096 + 4095"
    using f by (simp_all add: b) (elim disjE conjE, simp_all)+
qed

text \<open>Every user-accessible translation of a user directory goes through the window.\<close>

lemma user_walk:
  assumes ok: "paging_ok p" and slot: "slot < 4"
    and c: "paging_create_user_directory slot base d w p = (dir, p')"
    and base: "base mod 4096 = 0" "base + USER_WINDOW_SIZE < 2 ^ 32"
    and va: "va < 2 ^ 48" and x: "mmu_walk (pte p') dir va = Some x" "user_ok x"
  shows "USER_WINDOW_BASE \<le> va \<and> va < USER_WINDOW_BASE + USER_WINDOW_SIZE \<and>
    pa x = base + (va - USER_WINDOW_BASE) \<and>
    (let e = window_entry (g_nx p) base d w ((va - USER_WINDOW_BASE) div 4096)
     in write_ok x = bit e 1 \<and> exec_ok x = (\<not> bit e 63))"
proof -
  note T = user_tables [OF ok slot c] and A = table_addresses [OF ok slot]
  note L4 = link_entry [OF A(1,2)] and L3 = link_entry [OF A(3,4)] and L2 = link_entry [OF A(5,6)]
  have i4: "va div 2 ^ 39 = 0"
  proof (rule ccontr)
    assume "va div 2 ^ 39 \<noteq> 0"
    moreover have lt: "va div 2 ^ 39 < 512" using va by (simp add: div_less_iff_less_mult)
    ultimately have "pte p' (dir + 8 * (va div 2 ^ 39 mod 512)) = 0"
      using T(1) [of "va div 2 ^ 39"] by simp
    then show False using x(1) by (simp add: mmu_walk_def Let_def)
  qed
  have "va div 549755813888 = 0" using i4 by simp
  then have e4: "pte p' (dir + 8 * (va div 2 ^ 39 mod 512)) = addr (pdpt_of p slot) OR PAE_P OR PAE_RW OR PAE_USER"
    using T(1) [of 0] by simp
  have i3: "va div 2 ^ 30 = 0"
  proof (rule ccontr)
    assume n: "va div 2 ^ 30 \<noteq> 0"
    have lt: "va div 2 ^ 30 < 512" using i4 by (simp add: div_less_iff_less_mult div_eq_0_iff)
    then have "pte p' (pdpt_of p slot + 8 * (va div 2 ^ 30 mod 512)) = 0"
      using T(2) [of "va div 2 ^ 30"] n by simp
    then show False using x(1) L4 unfolding mmu_walk_def Let_def e4 L4(1) by simp
  qed
  then have "va div 1073741824 = 0" by simp
  then have e3: "pte p' (pdpt_of p slot + 8 * (va div 2 ^ 30 mod 512)) = addr (pd_of p slot) OR PAE_P OR PAE_RW OR PAE_USER"
    using T(2) [of 0] by simp
  have i2: "va div 2 ^ 21 = 0"
  proof (rule ccontr)
    assume n: "va div 2 ^ 21 \<noteq> 0"
    have lt: "va div 2 ^ 21 < 512" using i3 by (simp add: div_less_iff_less_mult div_eq_0_iff)
    then have "\<not> bit (pte p' (pd_of p slot + 8 * (va div 2 ^ 21 mod 512))) 2"
      using T(3) [of "va div 2 ^ 21"] n by simp
    then show False using x L4 L3 unfolding mmu_walk_def Let_def e4 L4(1) e3 L3(1) by (auto split: if_splits)
  qed
  then have "va div 2097152 = 0" by simp
  then have e2: "pte p' (pd_of p slot + 8 * (va div 2 ^ 21 mod 512)) = addr (pt_of p slot) OR PAE_P OR PAE_RW OR PAE_USER"
    using T(4) by simp
  define i where "i = va div 2 ^ 12"
  have i1: "i < 512" "va div 2 ^ 12 mod 512 = i"
    using i2 by (auto simp: i_def div_less_iff_less_mult div_eq_0_iff)
  let ?e = "pte p' (pt_of p slot + 8 * i)"
  have x1: "bit ?e 0" "x = \<lparr>pa = frame_of ?e + va mod 2 ^ 12, user_ok = bit ?e 2, write_ok = bit ?e 1,
      exec_ok = (\<not> bit ?e 63)\<rparr>"
    using x(1) L4 L3 L2 unfolding mmu_walk_def Let_def e4 L4(1) e3 L3(1) e2 L2(1) i1 by (auto split: if_splits)
  have w: "256 \<le> i \<and> i < 272"
  proof (rule ccontr)
    assume "\<not> (256 \<le> i \<and> i < 272)"
    then have "?e = pte p (GLOBAL_PT0 + 8 * i) AND NOT PAE_USER" using T(5) [OF i1(1)] by (simp only: if_False)
    then show False using x(2) x1(2) no_user_bit by simp
  qed
  then have e: "?e = window_entry (g_nx p) base d w (i - 256)" using T(5) [OF i1(1)] by simp
  note F = window_entry_flags [OF refl base(1), of "i - 256" "g_nx p" d w]
  have v: "va = i * 4096 + va mod 4096" "va mod 4096 < 4096" by (simp_all add: i_def)
  define j r where "j = i - 256" and "r = va mod 4096"
  have j: "i = 256 + j" "j < 16" unfolding j_def using w by linarith+
  have va': "va = 1048576 + (j * 4096 + r)" "r < 4096"
    using v j(1) by (simp_all add: r_def)
  then have sub: "va - 1048576 = j * 4096 + r" by simp
  have pos: "(va - 1048576) div 4096 = i - 256" "1048576 \<le> va" "va < 1114112"
    unfolding sub using va'(2) j by (simp_all add: va'(1))
  have "frame_of ?e = base + j * 4096" using F(1) base(2) e j by simp
  then have "pa x = base + (va - 1048576)"
    unfolding sub using x1(2) by (simp add: r_def)
  then show ?thesis using pos x1(2) e by (simp add: Let_def)
qed

lemma window_walk:
  assumes ok: "paging_ok p" and slot: "slot < 4"
    and c: "paging_create_user_directory slot base d w p = (dir, p')"
    and base: "base mod 4096 = 0" "base + USER_WINDOW_SIZE < 2 ^ 32"
    and va: "USER_WINDOW_BASE \<le> va" "va < USER_WINDOW_BASE + USER_WINDOW_SIZE"
  shows "\<exists>x. mmu_walk (pte p') dir va = Some x \<and> user_ok x"
proof -
  note T = user_tables [OF ok slot c] and A = table_addresses [OF ok slot]
  note L4 = link_entry [OF A(1,2)] and L3 = link_entry [OF A(3,4)] and L2 = link_entry [OF A(5,6)]
  define i where "i = va div 2 ^ 12"
  have i: "256 \<le> i" "i < 272" "va div 2 ^ 12 mod 512 = i"
    using va by (auto simp: i_def div_less_iff_less_mult less_eq_div_iff_mult_less_eq)
  have z: "va div 2 ^ 39 mod 512 = 0" "va div 2 ^ 30 mod 512 = 0" "va div 2 ^ 21 mod 512 = 0"
    using va by simp_all
  have e4: "pte p' (dir + 8 * 0) = addr (pdpt_of p slot) OR PAE_P OR PAE_RW OR PAE_USER" using T(1) [of 0] by simp
  have e3: "pte p' (pdpt_of p slot + 8 * 0) = addr (pd_of p slot) OR PAE_P OR PAE_RW OR PAE_USER" using T(2) [of 0] by simp
  have e2: "pte p' (pd_of p slot + 8 * 0) = addr (pt_of p slot) OR PAE_P OR PAE_RW OR PAE_USER" using T(4) by simp
  have e1: "pte p' (pt_of p slot + 8 * i) = window_entry (g_nx p) base d w (i - 256)"
    using T(5) [of i] i by simp
  have lt: "base + (i - 256) * 4096 < 2 ^ 32" using base(2) i by simp
  note F = window_entry_flags [OF refl base(1) lt, of "g_nx p" d w]
  show ?thesis
    unfolding mmu_walk_def Let_def z e4 L4(1) e3 L3(1) e2 L2(1) i(3) e1
    using L4 L3 L2 F by simp
qed

subsection \<open>Properties\<close>

text \<open>
  C4. The tables of an isolated program give ring 3 access to exactly its 64 KB window, and every
  window address translates to the same offset of the program's own physical slot: no program
  reaches kernel memory or the slot of another program.
\<close>

theorem user_directory_isolates:
  assumes "paging_ok p" "slot < USER_PROGRAM_SLOTS" "va < 2 ^ 48"
    "paging_create_user_directory slot (slot_base slot) d w p = (dir, p')"
  shows "((\<exists>x. mmu_walk (pte p') dir va = Some x \<and> user_ok x) \<longleftrightarrow>
      USER_WINDOW_BASE \<le> va \<and> va < USER_WINDOW_BASE + USER_WINDOW_SIZE) \<and>
    (\<forall>x. mmu_walk (pte p') dir va = Some x \<and> user_ok x \<longrightarrow>
      pa x = slot_base slot + (va - USER_WINDOW_BASE))"
proof (intro conjI allI impI)
  have b: "slot_base slot mod 4096 = 0" "slot_base slot + USER_WINDOW_SIZE < 2 ^ 32"
  proof -
    have "slot_base slot = (512 + slot * 16) * 4096" by (simp add: slot_base_def)
    then show "slot_base slot mod 4096 = 0" by (simp only: mod_mult_self2_is_0)
    show "slot_base slot + USER_WINDOW_SIZE < 2 ^ 32" using assms(2) by (simp add: slot_base_def)
  qed
  show "(\<exists>x. mmu_walk (pte p') dir va = Some x \<and> user_ok x) \<longleftrightarrow>
      USER_WINDOW_BASE \<le> va \<and> va < USER_WINDOW_BASE + USER_WINDOW_SIZE"
    using user_walk [OF assms(1,2,4) b assms(3)] window_walk [OF assms(1,2,4) b] by blast
  show "pa x = slot_base slot + (va - USER_WINDOW_BASE)"
    if "mmu_walk (pte p') dir va = Some x \<and> user_ok x" for x
    using user_walk [OF assms(1,2,4) b assms(3)] that by blast
qed

definition demo_paging :: paging where
  "demo_paging = init_paging True 0x40000 7 9
     \<lparr>pte = (\<lambda>_. 0), g_nx = False, g_kheap_pd_index = 0, g_kheap_base = 0, g_pool_pd_index = 0,
      g_pool_base = 0\<rparr>"

theorem user_directory_isolates_witness:
  "(\<exists>x. mmu_walk (pte (snd (paging_create_user_directory 1 (slot_base 1) 0 0x3000 demo_paging)))
      (fst (paging_create_user_directory 1 (slot_base 1) 0 0x3000 demo_paging)) 0x101234 = Some x \<and> user_ok x) \<and>
   \<not> (\<exists>x. mmu_walk (pte (snd (paging_create_user_directory 1 (slot_base 1) 0 0x3000 demo_paging)))
      (fst (paging_create_user_directory 1 (slot_base 1) 0 0x3000 demo_paging)) 0x9C000 = Some x \<and> user_ok x)"
  using user_directory_isolates [where p = demo_paging and slot = 1 and d = 0 and w = "0x3000" and
      va = "0x101234", OF _ _ _ prod.collapse [symmetric]]
    user_directory_isolates [where p = demo_paging and slot = 1 and d = 0 and w = "0x3000" and
      va = "0x9C000", OF _ _ _ prod.collapse [symmetric]]
    init_paging_ok [of True "0x40000" 7 9]
  unfolding demo_paging_def by simp

text \<open>
  W xor X, as far as it goes: when the program has a data boundary and the processor supports
  NX, no window page below the last one is both writable and executable from ring 3. The last
  page, which holds the initial stack and the argument block, is always writable and executable.
\<close>

theorem user_window_wx:
  assumes "paging_ok p" "slot < USER_PROGRAM_SLOTS"
    "paging_create_user_directory slot (slot_base slot) d w p = (dir, p')"
    "USER_WINDOW_BASE \<le> va" "va < USER_WINDOW_BASE + USER_WINDOW_SIZE" "g_nx p" "w \<noteq> 0"
  shows "\<exists>x. mmu_walk (pte p') dir va = Some x \<and>
    (write_ok x \<and> exec_ok x \<longleftrightarrow> USER_WINDOW_BASE + 15 * PAGE_SIZE \<le> va)"
proof -
  have b: "slot_base slot mod 4096 = 0" "slot_base slot + USER_WINDOW_SIZE < 2 ^ 32"
  proof -
    have "slot_base slot = (512 + slot * 16) * 4096" by (simp add: slot_base_def)
    then show "slot_base slot mod 4096 = 0" by (simp only: mod_mult_self2_is_0)
    show "slot_base slot + USER_WINDOW_SIZE < 2 ^ 32" using assms(2) by (simp add: slot_base_def)
  qed
  define i where "i = (va - USER_WINDOW_BASE) div 4096"
  have i: "i < 16" "i = 15 \<longleftrightarrow> USER_WINDOW_BASE + 15 * PAGE_SIZE \<le> va"
    using assms(4,5) by (auto simp: i_def div_less_iff_less_mult)
  have lt: "slot_base slot + i * 4096 < 2 ^ 32" using b(2) i by simp
  note F = window_entry_flags [OF refl b(1) lt, of "g_nx p" d w]
  have "va < 2 ^ 48" using assms(5) by simp
  with window_walk [OF assms(1-3) b assms(4,5)] user_walk [OF assms(1-3) b] obtain x where
    "mmu_walk (pte p') dir va = Some x"
    "let e = window_entry (g_nx p) (slot_base slot) d w i in write_ok x = bit e 1 \<and> exec_ok x = (\<not> bit e 63)"
    unfolding i_def by blast
  then show ?thesis using F(4,5) assms(6,7) i by (auto simp: Let_def)
qed

theorem user_window_wx_witness:
  "\<exists>x. mmu_walk (pte (snd (paging_create_user_directory 1 (slot_base 1) 0 0x3000 demo_paging)))
      (fst (paging_create_user_directory 1 (slot_base 1) 0 0x3000 demo_paging)) 0x10FFF0 = Some x \<and>
    write_ok x \<and> exec_ok x"
proof -
  have "g_nx demo_paging" by (simp add: demo_paging_def init_paging_def Let_def)
  then show ?thesis
    using user_window_wx [where p = demo_paging and slot = 1 and d = 0 and w = "0x3000" and
        va = "0x10FFF0", OF _ _ prod.collapse [symmetric]]
      init_paging_ok [of True "0x40000" 7 9]
    unfolding demo_paging_def by simp
qed

text \<open>
  The randomised placements never collide: for all random values the kernel heap, the pool of
  user tables, the fixed first 6 MB and the end of the 512 MB of memory are pairwise disjoint.
\<close>

theorem kaslr_disjoint:
  "let p = init_paging nx te r1 r2 p0
   in 6 * 2 ^ 20 \<le> g_kheap_base p \<and>
      g_kheap_base p + KHEAP_PAGES * 0x200000 \<le> g_pool_base p \<and>
      g_pool_base p + 0x200000 \<le> 512 * 2 ^ 20"
proof -
  have "unat r1 mod 205 < 205" "unat r2 mod 32 < 32" by simp_all
  then show ?thesis
    by (simp add: init_paging_def Let_def kheap_pick_pd_index_def kpool_pick_pd_index_def)
qed

end
