(* ===== verification/KState.thy ===== *)
theory KState
  imports HeapStore Fat12Files Paging "HOL-Library.Monad_Syntax"
begin

section \<open>The state of the x86-64 kernel\<close>

text \<open>
  The globals of \<^verbatim>\<open>kernel.c\<close> and \<^verbatim>\<open>tasking.c\<close> in one record. \<open>kmem\<close> is the kernel heap, whose
  \<open>bytes\<close> are all of RAM: kernel stacks, file buffers, the physical slots of user programs.
  Task structures are objects of a store indexed by their address. \<open>vol\<close> is the file system,
  \<open>pgt\<close> the page tables, \<open>cr3\<close> and \<open>tss_rsp0\<close> the two processor registers the scheduler sets,
  \<open>klog\<close> what \<^verbatim>\<open>print_string\<close> was given since the last clearing of the screen. An operation is a function to \<open>option\<close>: \<open>None\<close>
  means that the kernel does not come back from it (a heap check halts the machine, a pointer
  dangles, a kernel access faults or a loop never ends).
\<close>

record task =
  rsp :: nat
  kernel_stack_top :: nat
  page_directory :: nat
  tid :: int
  tname :: "u8 list"
  tticks :: u32
  user_slot_index :: int
  exiting :: bool
  mls_level :: nat
  syscall_mask :: u64
  priority :: int
  slice_left :: int
  exit_code :: int
  sleeping :: bool
  wake_tick :: nat
  waiting_pipe :: int
  tnext :: nat

record pipe_buf =
  pdata :: bmem
  plen :: nat
  read_pos :: nat
  writer_done :: bool
  in_use :: bool
  reader_owner :: int

record fd_entry =
  fvalid :: bool
  ftype :: nat
  fflags :: int
  fname :: "u8 list"
  fbuf :: nat
  fsize :: nat
  fpos :: nat
  fpipe_id :: int
  fowner :: int

record kstate =
  kmem :: kheap
  vol :: fat12
  pgt :: paging
  task0_at :: nat
  tasks :: "nat \<rightharpoonup> task"
  current_task :: nat
  next_id :: int
  aslr_prng_state :: u32
  tss_rsp0 :: nat
  cr3 :: nat
  slot_free :: "nat \<Rightarrow> bool"
  slot_exit_code :: "nat \<Rightarrow> int"
  slot_heap_brk :: "nat \<Rightarrow> nat"
  slot_wx_delta :: "nat \<Rightarrow> nat"
  slot_wx_data_off :: "nat \<Rightarrow> nat"
  slot_redir_buf :: "nat \<Rightarrow> nat"
  slot_redir_len :: "nat \<Rightarrow> nat"
  slot_redir_file :: "nat \<Rightarrow> u8 list"
  slot_redir_pipe :: "nat \<Rightarrow> int"
  slot_redir_pipe_is_own :: "nat \<Rightarrow> bool"
  slot_tty :: "nat \<Rightarrow> nat"
  pipe_bufs :: "nat \<Rightarrow> pipe_buf"
  fd_table :: "nat \<Rightarrow> fd_entry"
  fd_table_inited :: bool
  clipboard_buf :: bmem
  clipboard_len :: nat
  clipboard_level :: nat
  tty_last_key :: "nat \<Rightarrow> u8"
  tty_kernel_shell_inhibited :: "nat \<Rightarrow> bool"
  tty_foreground_slot :: "nat \<Rightarrow> int"
  command_len :: "nat \<Rightarrow> nat"
  tty_active :: nat
  klog :: "u8 list"

abbreviation timer_ticks :: "kstate \<Rightarrow> u32" where "timer_ticks s \<equiv> heap_ticks (kmem s)"
abbreviation ram :: "kstate \<Rightarrow> bmem" where "ram s \<equiv> bytes (kmem s)"

abbreviation TASK_STACK_SIZE :: nat where "TASK_STACK_SIZE \<equiv> 4096"
abbreviation KSTACK_SIZE :: nat where "KSTACK_SIZE \<equiv> 4096"
abbreviation SIZEOF_TASK :: nat where "SIZEOF_TASK \<equiv> 112"
abbreviation MAX_NAME_LEN :: nat where "MAX_NAME_LEN \<equiv> 16"
abbreviation PRIORITY_DEFAULT :: int where "PRIORITY_DEFAULT \<equiv> 3"
abbreviation PRIORITY_MIN :: int where "PRIORITY_MIN \<equiv> 1"
abbreviation PRIORITY_MAX :: int where "PRIORITY_MAX \<equiv> 10"
abbreviation MLS_LEVEL_MAX :: nat where "MLS_LEVEL_MAX \<equiv> 15"
abbreviation REDIR_BUF_SIZE :: nat where "REDIR_BUF_SIZE \<equiv> 4096"
abbreviation PIPE_MAX :: nat where "PIPE_MAX \<equiv> 2"
abbreviation PIPE_BUF_SIZE :: nat where "PIPE_BUF_SIZE \<equiv> 2048"
abbreviation MAX_FDS :: nat where "MAX_FDS \<equiv> 4"
abbreviation MAX_FILE_BUF :: nat where "MAX_FILE_BUF \<equiv> 4096"
abbreviation FD_TYPE_FILE :: nat where "FD_TYPE_FILE \<equiv> 0"
abbreviation FD_TYPE_PIPE :: nat where "FD_TYPE_PIPE \<equiv> 1"
abbreviation O_RDONLY :: int where "O_RDONLY \<equiv> 0"

subsection \<open>Memory and console\<close>

definition k_malloc :: "nat \<Rightarrow> kstate \<Rightarrow> (nat \<times> kstate) option" where
  "k_malloc n s = (case kmalloc n (kmem s) of None \<Rightarrow> None | Some (p, h) \<Rightarrow> Some (p, s\<lparr>kmem := h\<rparr>))"

text \<open>\<^verbatim>\<open>heap_corrupted\<close> halts the machine.\<close>

definition k_free :: "nat \<Rightarrow> kstate \<Rightarrow> kstate option" where
  "k_free p s = (case kfree p (kmem s) of Some (Inr h) \<Rightarrow> Some (s\<lparr>kmem := h\<rparr>) | _ \<Rightarrow> None)"

definition poke :: "nat \<Rightarrow> u8 list \<Rightarrow> kstate \<Rightarrow> kstate" where
  "poke a bs s = s\<lparr>kmem := kh_store a bs (kmem s)\<rparr>"

definition kputs :: "u8 list \<Rightarrow> kstate \<Rightarrow> kstate" where
  "kputs cs s = s\<lparr>klog := klog s @ cs\<rparr>"

text \<open>\<^verbatim>\<open>print_uint\<close> and \<^verbatim>\<open>print_hex\<close>: what they hand to \<^verbatim>\<open>print_string\<close>.\<close>

fun digits10 :: "nat \<Rightarrow> u8 list" where
  "digits10 n = (if n < 10 then [0x30 + word_of_nat n] else digits10 (n div 10) @ [0x30 + word_of_nat (n mod 10)])"

declare digits10.simps [simp del]

definition hex32 :: "nat \<Rightarrow> u8 list" where
  "hex32 n = map (\<lambda>i. hex_digit (n div 16 ^ (7 - i) mod 16)) [0..<8]"

definition hex8 :: "u8 \<Rightarrow> u8 list" where
  "hex8 b = [hex_digit (unat b div 16), hex_digit (unat b mod 16)]"

definition red :: "u8 list" where "red = 0x1B # str ''[31m''"
definition yellow :: "u8 list" where "yellow = 0x1B # str ''[33m''"
definition normal :: "u8 list" where "normal = 0x1B # str ''[0m''"

text \<open>A stack frame: the 64-bit words from the lowest address upwards.\<close>

definition frame_bytes :: "u64 list \<Rightarrow> u8 list" where
  "frame_bytes ws = concat (map (le_bytes 8) ws)"

lemma length_frame_bytes [simp]: "length (frame_bytes ws) = 8 * length ws"
  by (induction ws) (auto simp: frame_bytes_def)

subsection \<open>User memory as the kernel reaches it\<close>

text \<open>
  System calls run on the caller's page tables. A kernel access to a virtual address goes
  through \<open>cr3\<close>; since \<^verbatim>\<open>CR0.WP\<close> is set, a write to a read-only page faults in the kernel, and
  \<^verbatim>\<open>page_fault_handler_main\<close> halts the machine on a kernel fault.
\<close>

definition uload :: "kstate \<Rightarrow> nat \<Rightarrow> u8 option" where
  "uload s va = (case mmu_walk (pte (pgt s)) (cr3 s) va of None \<Rightarrow> None | Some x \<Rightarrow> Some (ram s (pa x)))"

definition ustore :: "nat \<Rightarrow> u8 \<Rightarrow> kstate \<Rightarrow> kstate option" where
  "ustore va b s =
     (case mmu_walk (pte (pgt s)) (cr3 s) va of
        None \<Rightarrow> None
      | Some x \<Rightarrow> if write_ok x then Some (poke (pa x) [b] s) else None)"

fun uread :: "kstate \<Rightarrow> nat \<Rightarrow> nat \<Rightarrow> u8 list option" where
  "uread s va 0 = Some []"
| "uread s va (Suc n) =
     (case uload s va of None \<Rightarrow> None
      | Some b \<Rightarrow> (case uread s (va + 1) n of None \<Rightarrow> None | Some bs \<Rightarrow> Some (b # bs)))"

fun uwrite :: "nat \<Rightarrow> u8 list \<Rightarrow> kstate \<Rightarrow> kstate option" where
  "uwrite va [] s = Some s"
| "uwrite va (b # bs) s =
     (case ustore va b s of None \<Rightarrow> None | Some s' \<Rightarrow> uwrite (va + 1) bs s')"

definition uread32 :: "kstate \<Rightarrow> nat \<Rightarrow> nat option" where
  "uread32 s va = (case uread s va 4 of None \<Rightarrow> None | Some bs \<Rightarrow> Some (unat (le_word bs :: u32)))"

definition uwrite32 :: "nat \<Rightarrow> int \<Rightarrow> kstate \<Rightarrow> kstate option" where
  "uwrite32 va v s = uwrite va (le_bytes 4 (word_of_int v :: u32)) s"

text \<open>A C string: the bytes before the first zero byte, at most \<open>fuel\<close> of them. The callers
  have checked that the terminator comes within the user window.\<close>

fun ustring :: "nat \<Rightarrow> kstate \<Rightarrow> nat \<Rightarrow> u8 list option" where
  "ustring 0 s va = None"
| "ustring (Suc n) s va =
     (case uload s va of None \<Rightarrow> None
      | Some b \<Rightarrow> if b = 0 then Some []
                  else (case ustring n s (va + 1) of None \<Rightarrow> None | Some bs \<Rightarrow> Some (b # bs)))"

text \<open>A 32-bit \<^verbatim>\<open>int\<close> read as unsigned.\<close>

definition int32 :: "nat \<Rightarrow> int" where
  "int32 n = sint (word_of_nat n :: u32)"

end
