(* ===== verification/Slots.thy ===== *)
theory Slots
  imports KState
begin

section \<open>Program slots, pipes and file descriptors at the end of a task\<close>

text \<open>
  The part of \<^verbatim>\<open>src/src/kernel/kernel.c\<close> that the scheduler calls: readiness of a pipe, the closing
  of the descriptors of a dead task and \<^verbatim>\<open>on_task_exit\<close>. Arrays indexed by slot, pipe or descriptor
  number are functions; \<open>nat\<close> of a valid \<open>int\<close> index is that index.
\<close>

definition pipe_id_from_name :: "u8 list \<Rightarrow> int" where
  "pipe_id_from_name s =
     (if length s = 6 \<and> take 5 s = [0x50, 0x49, 0x50, 0x45, 0x3A] \<and> 0x30 \<le> s ! 5 \<and> s ! 5 \<le> 0x39
      then let i = uint (s ! 5 - 0x30) in if i < int PIPE_MAX then i else -1
      else -1)"

definition pipe_ready :: "kstate \<Rightarrow> int \<Rightarrow> bool" where
  "pipe_ready s i \<longleftrightarrow>
     (if i < 0 \<or> int PIPE_MAX \<le> i then True
      else let p = pipe_bufs s (nat i) in read_pos p < plen p \<or> writer_done p)"

text \<open>\<^verbatim>\<open>vfs_write\<close> and \<^verbatim>\<open>vfs_delete\<close> on the kernel's volume; the data come from RAM.\<close>

definition k_vfs_write :: "u8 list \<Rightarrow> u8 list \<Rightarrow> kstate \<Rightarrow> (nat \<times> kstate) option" where
  "k_vfs_write f data s =
     (case vfs_write f data (vol s) of None \<Rightarrow> None | Some (r, v) \<Rightarrow> Some (r, s\<lparr>vol := v\<rparr>))"

definition fd_update :: "nat \<Rightarrow> (fd_entry \<Rightarrow> fd_entry) \<Rightarrow> kstate \<Rightarrow> kstate" where
  "fd_update fd f s = s\<lparr>fd_table := (fd_table s)(fd := f (fd_table s fd))\<rparr>"

definition pipe_update :: "nat \<Rightarrow> (pipe_buf \<Rightarrow> pipe_buf) \<Rightarrow> kstate \<Rightarrow> kstate" where
  "pipe_update i f s = s\<lparr>pipe_bufs := (pipe_bufs s)(i := f (pipe_bufs s i))\<rparr>"

text \<open>The end of a descriptor, shared by \<^verbatim>\<open>fd_release_owner\<close> and \<^verbatim>\<open>sys_close\<close>.\<close>

definition pipe_fd_close :: "nat \<Rightarrow> kstate \<Rightarrow> kstate" where
  "pipe_fd_close fd s =
     fd_update fd (\<lambda>e. e\<lparr>fvalid := False\<rparr>)
       (pipe_update (nat (fpipe_id (fd_table s fd))) (\<lambda>p. p\<lparr>in_use := False, reader_owner := -1\<rparr>) s)"

definition file_fd_close :: "nat \<Rightarrow> kstate \<Rightarrow> kstate option" where
  "file_fd_close fd s =
     (let e = fd_table s fd
      in do {
        s1 \<leftarrow> (if fflags e \<noteq> O_RDONLY \<and> 0 < fsize e
               then case k_vfs_write (fname e) (mem_read (ram s) (fbuf e) (fsize e)) s of
                      None \<Rightarrow> None | Some (_, s') \<Rightarrow> Some s'
               else Some s);
        s2 \<leftarrow> k_free (fbuf e) s1;
        Some (fd_update fd (\<lambda>e. e\<lparr>fbuf := 0, fvalid := False\<rparr>) s2)
      })"

definition fd_release_one :: "int \<Rightarrow> nat \<Rightarrow> kstate \<Rightarrow> kstate option" where
  "fd_release_one owner_slot fd s =
     (let e = fd_table s fd
      in if \<not> fvalid e \<or> fowner e \<noteq> owner_slot then Some s
         else if ftype e = FD_TYPE_PIPE then Some (pipe_fd_close fd s)
         else file_fd_close fd s)"

definition fd_release_owner :: "int \<Rightarrow> kstate \<Rightarrow> kstate option" where
  "fd_release_owner owner_slot s =
     fold (\<lambda>fd r. case r of None \<Rightarrow> None | Some s \<Rightarrow> fd_release_one owner_slot fd s) [0..<MAX_FDS] (Some s)"

definition end_redirect :: "nat \<Rightarrow> kstate \<Rightarrow> kstate option" where
  "end_redirect i s =
     (if 0 \<le> slot_redir_pipe s i
      then let s1 = (if slot_redir_pipe_is_own s i
                     then pipe_update (nat (slot_redir_pipe s i)) (\<lambda>p. p\<lparr>writer_done := True\<rparr>) s else s)
           in Some (s1\<lparr>slot_redir_pipe := (slot_redir_pipe s1)(i := -1),
                       slot_redir_pipe_is_own := (slot_redir_pipe_is_own s1)(i := False)\<rparr>)
      else if slot_redir_buf s i \<noteq> 0
      then do {
        (_, s1) \<leftarrow> k_vfs_write (slot_redir_file s i)
                     (mem_read (ram s) (slot_redir_buf s i) (slot_redir_len s i)) s;
        s2 \<leftarrow> k_free (slot_redir_buf s i) s1;
        Some (s2\<lparr>slot_redir_buf := (slot_redir_buf s2)(i := 0),
                 slot_redir_len := (slot_redir_len s2)(i := 0)\<rparr>)
      }
      else Some s)"

definition on_task_exit :: "nat \<Rightarrow> int \<Rightarrow> kstate \<Rightarrow> kstate option" where
  "on_task_exit i code s =
     (let s1 = s\<lparr>slot_free := (slot_free s)(i := True),
                 slot_exit_code := (slot_exit_code s)(i := code),
                 slot_heap_brk := (slot_heap_brk s)(i := 0)\<rparr>
      in case fd_release_owner (int i) s1 of None \<Rightarrow> None | Some s2 \<Rightarrow> end_redirect i s2)"

end
