(* ===== verification/Tasking.thy ===== *)
theory Tasking
  imports Slots
begin

section \<open>Tasks and the scheduler\<close>

text \<open>
  \<^verbatim>\<open>src/src/kernel/tasking.c\<close>. Tasks form a ring through \<open>tnext\<close>; \<open>schedule\<close> is entered with the
  stack pointer of the interrupted task and returns the one to continue with. The time slice, the
  wake-up scan, the unlinking of a dying task and the choice of the next one follow the code.
\<close>

subsection \<open>Creation\<close>

definition aslr_next_random :: "kstate \<Rightarrow> u32 \<times> kstate" where
  "aslr_next_random s =
     (let t = timer_ticks s;
          z0 = aslr_prng_state s;
          z1 = (if z0 = 0 then (if t XOR 0x9E3779B9 = 0 then 0x9E3779B9 else t XOR 0x9E3779B9) else z0);
          z2 = z1 XOR t;
          z3 = z2 XOR push_bit 13 z2;
          z4 = z3 XOR drop_bit 17 z3;
          z5 = z4 XOR push_bit 5 z4
      in (z5, s\<lparr>aslr_prng_state := z5\<rparr>))"

definition copy_name :: "u8 list \<Rightarrow> u8 list" where
  "copy_name src = take (MAX_NAME_LEN - 1) (takeWhile (\<lambda>c. c \<noteq> 0) src)"

text \<open>The fields every creation sets the same way.\<close>

definition fresh_task :: "nat \<Rightarrow> nat \<Rightarrow> nat \<Rightarrow> int \<Rightarrow> u8 list \<Rightarrow> int \<Rightarrow> task" where
  "fresh_task sp kst dir i nm slot =
     \<lparr>rsp = sp, kernel_stack_top = kst, page_directory = dir, tid = i, tname = copy_name nm,
      tticks = 0, user_slot_index = slot, exiting = False, mls_level = 0, syscall_mask = 0,
      priority = PRIORITY_DEFAULT, slice_left = PRIORITY_DEFAULT, exit_code = 0, sleeping = False,
      wake_tick = 0, waiting_pipe = -1, tnext = 0\<rparr>"

definition init_tasking :: "kstate \<Rightarrow> kstate option" where
  "init_tasking s =
     (let a = task0_at s;
          t = (fresh_task 0 0 GLOBAL_PML4 (next_id s) (str ''shell'') (-1))\<lparr>tnext := a\<rparr>
      in do {
        (kstack, s1) \<leftarrow> k_malloc KSTACK_SIZE (s\<lparr>next_id := next_id s + 1\<rparr>);
        let top = kstack + KSTACK_SIZE;
        Some (s1\<lparr>tasks := (tasks s1)(a \<mapsto> t\<lparr>kernel_stack_top := top\<rparr>), tss_rsp0 := top,
                 current_task := a\<rparr>)
      })"

text \<open>\<^verbatim>\<open>new->next = current->next; current->next = new;\<close>\<close>

definition link_task :: "nat \<Rightarrow> task \<Rightarrow> kstate \<Rightarrow> kstate option" where
  "link_task a t s =
     (case tasks s (current_task s) of
        None \<Rightarrow> None
      | Some c \<Rightarrow>
          Some (s\<lparr>tasks := (tasks s)(a \<mapsto> t\<lparr>tnext := tnext c\<rparr>, current_task s \<mapsto> c\<lparr>tnext := a\<rparr>)\<rparr>))"

definition CODE64_SEG :: u64 where "CODE64_SEG = 0x18"
definition DATA_SEG :: u64 where "DATA_SEG = 0x10"
definition USER_CODE32_SEG :: u64 where "USER_CODE32_SEG = 0x20"
definition USER_DATA_SEG :: u64 where "USER_DATA_SEG = 0x28"

text \<open>Frames from the lowest address: RAX, RBX, RCX, RDX, RSI, RDI, RBP, R8 to R15, RIP, CS,
  RFLAGS, RSP, SS.\<close>

definition task_create :: "u8 list \<Rightarrow> nat \<Rightarrow> kstate \<Rightarrow> kstate option" where
  "task_create name entry s =
     do {
       (stack_mem, s1) \<leftarrow> k_malloc TASK_STACK_SIZE s;
       if stack_mem = 0 then Some s1 else do {
         (a, s2) \<leftarrow> k_malloc SIZEOF_TASK s1;
         if a = 0 then Some s2 else do {
           let top = stack_mem + TASK_STACK_SIZE;
           let sp = top - 160;
           let s3 = poke sp (frame_bytes (replicate 15 0 @
                      [word_of_nat entry, CODE64_SEG, 0x202, word_of_nat top, DATA_SEG])) s2;
           (kstack, s4) \<leftarrow> k_malloc KSTACK_SIZE (s3\<lparr>next_id := next_id s3 + 1\<rparr>);
           link_task a (fresh_task sp (kstack + KSTACK_SIZE) GLOBAL_PML4 (next_id s3) name (-1)) s4
         }
       }
     }"

definition task_create_user :: "u8 list \<Rightarrow> nat \<Rightarrow> kstate \<Rightarrow> kstate option" where
  "task_create_user name entry s =
     do {
       (user_stack, s1) \<leftarrow> k_malloc TASK_STACK_SIZE s;
       (kstack, s2) \<leftarrow> k_malloc KSTACK_SIZE s1;
       if user_stack = 0 \<or> kstack = 0 then Some s2 else do {
         (a, s3) \<leftarrow> k_malloc SIZEOF_TASK s2;
         if a = 0 then Some s3 else do {
           let top = kstack + KSTACK_SIZE;
           let sp = top - 160;
           let s4 = poke sp (frame_bytes (replicate 15 0 @
                      [word_of_nat entry, USER_CODE32_SEG OR 3, 0x202,
                       word_of_nat (user_stack + TASK_STACK_SIZE), USER_DATA_SEG OR 3])) s3;
           link_task a (fresh_task sp top GLOBAL_PML4 (next_id s4) name (-1))
             (s4\<lparr>next_id := next_id s4 + 1\<rparr>)
         }
       }
     }"

abbreviation USER_STACK_TOP :: nat where "USER_STACK_TOP \<equiv> 0x110000 - 16"
abbreviation STACK_ASLR_MAX_SHIFT :: nat where "STACK_ASLR_MAX_SHIFT \<equiv> 1024"

text \<open>\<^verbatim>\<open>jmp $\<close> in the last two bytes of the slot, where a killed task spins until it is reaped.\<close>

definition write_spin :: "nat \<Rightarrow> kstate \<Rightarrow> kstate" where
  "write_spin phys_slot_base s = poke (phys_slot_base + USER_WINDOW_SIZE - 2) [0xEB, 0xFE] s"

definition user_directory :: "nat \<Rightarrow> nat \<Rightarrow> nat \<Rightarrow> nat \<Rightarrow> kstate \<Rightarrow> nat \<times> kstate" where
  "user_directory slot base d w s =
     (case paging_create_user_directory slot base d w (pgt s) of (dir, p) \<Rightarrow> (dir, s\<lparr>pgt := p\<rparr>))"

definition stack_shift :: "kstate \<Rightarrow> nat \<times> kstate" where
  "stack_shift s =
     (case aslr_next_random s of (r, s1) \<Rightarrow> (unat r mod (STACK_ASLR_MAX_SHIFT div 16 + 1) * 16, s1))"

definition isolated_frame :: "nat \<Rightarrow> nat \<Rightarrow> nat \<Rightarrow> nat \<Rightarrow> u64 list" where
  "isolated_frame argc argv_vaddr entry_vaddr stack_top =
     [0, word_of_nat argc, word_of_nat argv_vaddr] @ replicate 12 0 @
     [word_of_nat entry_vaddr, USER_CODE32_SEG OR 3, 0x202, word_of_nat stack_top, USER_DATA_SEG OR 3]"

definition task_create_user_isolated ::
  "u8 list \<Rightarrow> nat \<Rightarrow> nat \<Rightarrow> nat \<Rightarrow> nat \<Rightarrow> nat \<Rightarrow> nat \<Rightarrow> nat \<Rightarrow> kstate \<Rightarrow> kstate option" where
  "task_create_user_isolated name phys_slot_base slot argc argv_vaddr entry_vaddr wx_delta wx_data_off s =
     do {
       (kstack, s1) \<leftarrow> k_malloc KSTACK_SIZE s;
       if kstack = 0 then Some s1 else do {
         (a, s2) \<leftarrow> k_malloc SIZEOF_TASK s1;
         if a = 0 then Some s2 else do {
           let (shift, s3) = stack_shift s2;
           let top = kstack + KSTACK_SIZE;
           let sp = top - 160;
           let s4 = poke sp (frame_bytes (isolated_frame argc argv_vaddr entry_vaddr (USER_STACK_TOP - shift))) s3;
           let (dir, s5) = user_directory slot phys_slot_base wx_delta wx_data_off
                             (s4\<lparr>next_id := next_id s4 + 1\<rparr>);
           link_task a (fresh_task sp top dir (next_id s4) name (int slot)) (write_spin phys_slot_base s5)
         }
       }
     }"

text \<open>The child's frame is the live frame of the parent with RAX cleared; -1 is failure.\<close>

definition task_fork_current :: "nat \<Rightarrow> nat \<Rightarrow> nat \<Rightarrow> nat \<Rightarrow> nat \<Rightarrow> kstate \<Rightarrow> (int \<times> kstate) option" where
  "task_fork_current parent_rsp child_phys_base child_slot wx_delta wx_data_off s =
     (if current_task s = 0 then Some (-1, s) else do {
       (kstack, s1) \<leftarrow> k_malloc KSTACK_SIZE s;
       if kstack = 0 then Some (-1, s1) else do {
         (a, s2) \<leftarrow> k_malloc SIZEOF_TASK s1;
         if a = 0 then do { s3 \<leftarrow> k_free kstack s2; Some (-1, s3) } else do {
           let top = kstack + KSTACK_SIZE;
           let sp = top - 160;
           let s3 = poke sp (replicate 8 0 @ drop 8 (mem_read (ram s2) parent_rsp 160)) s2;
           c \<leftarrow> tasks s3 (current_task s3);
           let (dir, s4) = user_directory child_slot child_phys_base wx_delta wx_data_off
                             (s3\<lparr>next_id := next_id s3 + 1\<rparr>);
           let t = (fresh_task sp top dir (next_id s3) (tname c) (int child_slot))
                     \<lparr>mls_level := mls_level c, syscall_mask := syscall_mask c,
                      priority := priority c, slice_left := priority c\<rparr>;
           s5 \<leftarrow> link_task a t (write_spin child_phys_base s4);
           Some (next_id s3, s5)
         }
       }
     })"

subsection \<open>The scheduler\<close>

definition wake :: "kstate \<Rightarrow> task \<Rightarrow> task" where
  "wake s t =
     (let t1 = (if sleeping t \<and> wake_tick t \<le> unat (timer_ticks s) then t\<lparr>sleeping := False\<rparr> else t)
      in if 0 \<le> waiting_pipe t1 \<and> pipe_ready s (waiting_pipe t1) then t1\<lparr>waiting_pipe := -1\<rparr> else t1)"

definition blocked :: "task \<Rightarrow> bool" where
  "blocked t \<longleftrightarrow> sleeping t \<or> 0 \<le> waiting_pipe t"

text \<open>\<^verbatim>\<open>while (pred->next != dying) pred = pred->next;\<close>\<close>

partial_function (option) find_pred :: "(nat \<rightharpoonup> task) \<Rightarrow> nat \<Rightarrow> nat \<Rightarrow> nat option" where
  "find_pred ts dying p =
     (case ts p of None \<Rightarrow> None
      | Some t \<Rightarrow> if tnext t = dying then Some p else find_pred ts dying (tnext t))"

text \<open>The choice of the next task: past the blocked ones, at most one turn of the ring.\<close>

partial_function (option) pick_next :: "(nat \<rightharpoonup> task) \<Rightarrow> nat \<Rightarrow> nat \<Rightarrow> nat option" where
  "pick_next ts immediate_next n =
     (case ts n of None \<Rightarrow> None
      | Some t \<Rightarrow> if blocked t \<and> tnext t \<noteq> immediate_next then pick_next ts immediate_next (tnext t)
                  else Some n)"

text \<open>Unlinking and freeing the dying task.\<close>

definition reap :: "nat \<Rightarrow> task \<Rightarrow> kstate \<Rightarrow> kstate option" where
  "reap a dying s =
     do {
       pred \<leftarrow> find_pred (tasks s) a (tnext dying);
       p \<leftarrow> tasks s pred;
       let s1 = s\<lparr>tasks := (tasks s)(pred \<mapsto> p\<lparr>tnext := tnext dying\<rparr>)\<rparr>;
       s2 \<leftarrow> (if 0 \<le> user_slot_index dying
              then on_task_exit (nat (user_slot_index dying)) (exit_code dying) s1 else Some s1);
       s3 \<leftarrow> k_free (kernel_stack_top dying - KSTACK_SIZE) s2;
       s4 \<leftarrow> k_free a s3;
       Some (s4\<lparr>tasks := (tasks s4)(a := None)\<rparr>)
     }"

text \<open>The switch to the chosen task.\<close>

definition switch_to :: "nat \<Rightarrow> nat \<Rightarrow> kstate \<Rightarrow> (nat \<times> kstate) option" where
  "switch_to n prev_page_directory s =
     (case tasks s n of None \<Rightarrow> None
      | Some t \<Rightarrow>
          Some (rsp t, s\<lparr>tasks := (tasks s)(n \<mapsto> t\<lparr>slice_left := priority t\<rparr>), current_task := n,
                         tss_rsp0 := kernel_stack_top t,
                         cr3 := (if page_directory t \<noteq> prev_page_directory then page_directory t
                                 else cr3 s)\<rparr>))"

text \<open>The accounting of the tick: the slice is only spent by a task that could go on.\<close>

definition account :: "nat \<Rightarrow> task \<Rightarrow> task" where
  "account current_rsp d =
     (let d1 = d\<lparr>rsp := current_rsp, tticks := tticks d + 1\<rparr>
      in if \<not> exiting d1 \<and> \<not> blocked d1 then d1\<lparr>slice_left := slice_left d1 - 1\<rparr> else d1)"

definition schedule :: "nat \<Rightarrow> kstate \<Rightarrow> (nat \<times> kstate) option" where
  "schedule current_rsp s =
     (if current_task s = 0 then Some (current_rsp, s) else do {
       ts \<leftarrow> ring_update tnext (wake s) (current_task s) (tasks s) (current_task s);
       d \<leftarrow> ts (current_task s);
       let d2 = account current_rsp d;
       let s1 = s\<lparr>tasks := ts(current_task s \<mapsto> d2)\<rparr>;
       if \<not> exiting d2 \<and> \<not> blocked d2 \<and> 0 < slice_left d2 then Some (rsp d2, s1) else do {
         s2 \<leftarrow> (if exiting d2 then reap (current_task s) d2 s1 else Some s1);
         n \<leftarrow> pick_next (tasks s2) (tnext d2) (tnext d2);
         switch_to n (page_directory d2) s2
       }
     })"

subsection \<open>Operations on tasks\<close>

definition cur_task :: "kstate \<Rightarrow> task option" where
  "cur_task s = (if current_task s = 0 then None else tasks s (current_task s))"

definition cur_update :: "(task \<Rightarrow> task) \<Rightarrow> kstate \<Rightarrow> kstate" where
  "cur_update f s =
     (case cur_task s of None \<Rightarrow> s | Some t \<Rightarrow> s\<lparr>tasks := (tasks s)(current_task s \<mapsto> f t)\<rparr>)"

text \<open>The first task of the ring, from the current one on, that satisfies \<open>P\<close> is changed by \<open>f\<close>;
  the flag tells whether there was one.\<close>

definition ring_change :: "(task \<Rightarrow> bool) \<Rightarrow> (task \<Rightarrow> task) \<Rightarrow> kstate \<Rightarrow> (bool \<times> kstate) option" where
  "ring_change P f s =
     (if current_task s = 0 then Some (False, s) else do {
       a \<leftarrow> ring_find tnext (tasks s) P (current_task s) (current_task s);
       if a = 0 then Some (False, s) else do {
         t \<leftarrow> tasks s a;
         Some (True, s\<lparr>tasks := (tasks s)(a \<mapsto> f t)\<rparr>)
       }
     })"

definition task_set_priority :: "int \<Rightarrow> int \<Rightarrow> kstate \<Rightarrow> kstate option" where
  "task_set_priority pid p s =
     (let p1 = (if p < PRIORITY_MIN then PRIORITY_MIN else p);
          p2 = (if PRIORITY_MAX < p1 then PRIORITY_MAX else p1)
      in map_option snd (ring_change (\<lambda>t. tid t = pid) (\<lambda>t. t\<lparr>priority := p2\<rparr>) s))"

definition task_mark_current_exiting :: "kstate \<Rightarrow> kstate" where
  "task_mark_current_exiting s = cur_update (\<lambda>t. t\<lparr>exiting := True\<rparr>) s"

definition task_current_is_exiting :: "kstate \<Rightarrow> bool" where
  "task_current_is_exiting s = (case cur_task s of None \<Rightarrow> False | Some t \<Rightarrow> exiting t)"

definition task_current_is_isolated :: "kstate \<Rightarrow> bool" where
  "task_current_is_isolated s = (case cur_task s of None \<Rightarrow> False | Some t \<Rightarrow> 0 \<le> user_slot_index t)"

definition task_current_name :: "kstate \<Rightarrow> u8 list" where
  "task_current_name s = (case cur_task s of None \<Rightarrow> [] | Some t \<Rightarrow> tname t)"

definition task_current_slot_index :: "kstate \<Rightarrow> int" where
  "task_current_slot_index s = (case cur_task s of None \<Rightarrow> -1 | Some t \<Rightarrow> user_slot_index t)"

definition task_current_mls_level :: "kstate \<Rightarrow> nat" where
  "task_current_mls_level s = (case cur_task s of None \<Rightarrow> 0 | Some t \<Rightarrow> mls_level t)"

definition task_set_current_mls_level :: "nat \<Rightarrow> kstate \<Rightarrow> kstate" where
  "task_set_current_mls_level level s =
     (case cur_task s of None \<Rightarrow> s
      | Some t \<Rightarrow>
          let l = (if MLS_LEVEL_MAX < level then MLS_LEVEL_MAX else level)
          in if task_current_is_isolated s \<and> mls_level t < l
             then kputs (red @ str ''avc:  denied  { setlevel }  for comm=\"'' @ tname t @
                    str ''\"  scontext=axos:user_t:s'' @ digits10 (mls_level t) @
                    str ''  tcontext=axos:user_t:s'' @ digits10 l @
                    str ''  (MLS: self-raise forbidden - use kernel-shell \"runlevel\")'' @
                    normal @ [0x0A]) s
             else cur_update (\<lambda>t. t\<lparr>mls_level := l\<rparr>) s)"

definition task_set_mls_level_for_slot :: "int \<Rightarrow> nat \<Rightarrow> kstate \<Rightarrow> kstate option" where
  "task_set_mls_level_for_slot slot level s =
     map_option snd (ring_change (\<lambda>t. user_slot_index t = slot) (\<lambda>t. t\<lparr>mls_level := min level MLS_LEVEL_MAX\<rparr>) s)"

definition task_line :: "task \<Rightarrow> u8 list" where
  "task_line t =
     str ''['' @ digits10 (nat (tid t mod 4294967296)) @ str ''] '' @ tname t @ str '': '' @
     digits10 (unat (tticks t)) @ str '' ticks'' @ [0x0A]"

partial_function (option) ring_lines :: "(nat \<rightharpoonup> task) \<Rightarrow> nat \<Rightarrow> nat \<Rightarrow> u8 list \<Rightarrow> u8 list option" where
  "ring_lines ts start a out =
     (case ts a of None \<Rightarrow> None
      | Some t \<Rightarrow> if tnext t = start then Some (out @ task_line t)
                  else ring_lines ts start (tnext t) (out @ task_line t))"

definition print_task_list :: "kstate \<Rightarrow> kstate option" where
  "print_task_list s =
     (if current_task s = 0 then Some (kputs (str ''Tasking not initialized.'' @ [0x0A]) s)
      else case ring_lines (tasks s) (current_task s) (current_task s) [] of
             None \<Rightarrow> None | Some out \<Rightarrow> Some (kputs out s))"

text \<open>The task at position \<open>index\<close> of the ring, counted from the current one.\<close>

partial_function (option) ring_nth :: "(nat \<rightharpoonup> task) \<Rightarrow> nat \<Rightarrow> nat \<Rightarrow> nat \<Rightarrow> nat option" where
  "ring_nth ts start i a =
     (case ts a of None \<Rightarrow> None
      | Some t \<Rightarrow> if i = 0 then Some a else if tnext t = start then Some 0
                  else ring_nth ts start (i - 1) (tnext t))"

definition task_get_info :: "nat \<Rightarrow> kstate \<Rightarrow> task option option" where
  "task_get_info index s =
     (if current_task s = 0 then Some None else do {
       a \<leftarrow> ring_nth (tasks s) (current_task s) index (current_task s);
       if a = 0 then Some None else do { t \<leftarrow> tasks s a; Some (Some t) }
     })"

definition task_kill_by_slot :: "int \<Rightarrow> kstate \<Rightarrow> kstate option" where
  "task_kill_by_slot slot s =
     (if slot < 0 then Some s
      else map_option snd (ring_change (\<lambda>t. user_slot_index t = slot) (\<lambda>t. t\<lparr>exiting := True, exit_code := -1\<rparr>) s))"

definition task_kill_by_pid :: "int \<Rightarrow> kstate \<Rightarrow> (bool \<times> kstate) option" where
  "task_kill_by_pid pid s =
     ring_change (\<lambda>t. tid t = pid \<and> 0 \<le> user_slot_index t) (\<lambda>t. t\<lparr>exiting := True, exit_code := -1\<rparr>) s"

definition task_set_current_exit_code :: "int \<Rightarrow> kstate \<Rightarrow> kstate" where
  "task_set_current_exit_code code s = cur_update (\<lambda>t. t\<lparr>exit_code := code\<rparr>) s"

text \<open>The wake-up tick is computed in 64 bits.\<close>

definition task_sleep_current :: "nat \<Rightarrow> kstate \<Rightarrow> kstate" where
  "task_sleep_current ms s =
     cur_update (\<lambda>t. t\<lparr>sleeping := True, wake_tick := unat (timer_ticks s) + ms div 10\<rparr>) s"

definition task_wait_pipe_current :: "int \<Rightarrow> kstate \<Rightarrow> kstate" where
  "task_wait_pipe_current i s = cur_update (\<lambda>t. t\<lparr>waiting_pipe := i\<rparr>) s"

definition task_current_wants_resched :: "kstate \<Rightarrow> bool" where
  "task_current_wants_resched s = (case cur_task s of None \<Rightarrow> False | Some t \<Rightarrow> blocked t)"

definition task_set_syscall_mask :: "u64 \<Rightarrow> kstate \<Rightarrow> kstate" where
  "task_set_syscall_mask m s =
     cur_update (\<lambda>t. if syscall_mask t = 0 then t\<lparr>syscall_mask := m\<rparr>
                     else t\<lparr>syscall_mask := syscall_mask t AND m\<rparr>) s"

text \<open>The shift count of the processor is taken modulo 64.\<close>

definition task_syscall_allowed :: "u8 \<Rightarrow> kstate \<Rightarrow> bool" where
  "task_syscall_allowed num s =
     (case cur_task s of None \<Rightarrow> True
      | Some t \<Rightarrow> syscall_mask t = 0 \<or> bit (syscall_mask t) (unat num mod 64))"

end
