(* ===== verification/Security.thy ===== *)
theory Security
  imports Tasking
begin

section \<open>Pointer validation, mandatory access control and levels\<close>

text \<open>
  The checks of \<^verbatim>\<open>src/src/kernel/kernel.c\<close> that every system call goes through: whether a user
  pointer or string lies in the caller's window, the type-enforcement policy of domains and
  classes with its audit line, and the level comparison "no read up". Pointers and sizes are
  \<^verbatim>\<open>unsigned int\<close>, here naturals below \<open>2 ^ 32\<close> with the wrap-around of their sum written out.
\<close>

definition validate_user_ptr :: "kstate \<Rightarrow> nat \<Rightarrow> nat \<Rightarrow> bool" where
  "validate_user_ptr s a n \<longleftrightarrow>
     (if \<not> task_current_is_isolated s then True
      else if wrap32 (a + n) < a then False
      else USER_WINDOW_BASE \<le> a \<and> wrap32 (a + n) \<le> USER_WINDOW_BASE + USER_WINDOW_SIZE)"

text \<open>\<^verbatim>\<open>for (i = 0; i < max; i++) if (s[i] == 0) return 1; return 0;\<close>\<close>

fun has_nul :: "nat \<Rightarrow> kstate \<Rightarrow> nat \<Rightarrow> bool option" where
  "has_nul 0 s va = Some False"
| "has_nul (Suc n) s va =
     (case uload s va of None \<Rightarrow> None
      | Some b \<Rightarrow> if b = 0 then Some True else has_nul n s (va + 1))"

definition validate_user_str :: "kstate \<Rightarrow> nat \<Rightarrow> bool option" where
  "validate_user_str s a =
     (if \<not> task_current_is_isolated s then Some True
      else if a < USER_WINDOW_BASE \<or> USER_WINDOW_BASE + USER_WINDOW_SIZE \<le> a then Some False
      else has_nul (USER_WINDOW_BASE + USER_WINDOW_SIZE - a) s a)"

datatype ax_domain = AX_DOMAIN_KERNEL | AX_DOMAIN_USER

datatype ax_class =
  AX_CLASS_DISK_RAW | AX_CLASS_REBOOT | AX_CLASS_FILE_WRITE | AX_CLASS_FILE_UNLINK |
  AX_CLASS_FS_LOCK | AX_CLASS_EXEC | AX_CLASS_CLIPBOARD | AX_CLASS_TASK_INFO |
  AX_CLASS_PCI_RAW | AX_CLASS_NET

fun ax_policy :: "ax_domain \<Rightarrow> ax_class \<Rightarrow> bool" where
  "ax_policy AX_DOMAIN_KERNEL c = True"
| "ax_policy AX_DOMAIN_USER AX_CLASS_DISK_RAW = False"
| "ax_policy AX_DOMAIN_USER AX_CLASS_REBOOT = False"
| "ax_policy AX_DOMAIN_USER AX_CLASS_FILE_WRITE = True"
| "ax_policy AX_DOMAIN_USER AX_CLASS_FILE_UNLINK = True"
| "ax_policy AX_DOMAIN_USER AX_CLASS_FS_LOCK = True"
| "ax_policy AX_DOMAIN_USER AX_CLASS_EXEC = True"
| "ax_policy AX_DOMAIN_USER AX_CLASS_CLIPBOARD = True"
| "ax_policy AX_DOMAIN_USER AX_CLASS_TASK_INFO = True"
| "ax_policy AX_DOMAIN_USER AX_CLASS_PCI_RAW = False"
| "ax_policy AX_DOMAIN_USER AX_CLASS_NET = True"

fun ax_domain_name :: "ax_domain \<Rightarrow> u8 list" where
  "ax_domain_name AX_DOMAIN_KERNEL = str ''kernel_t''"
| "ax_domain_name AX_DOMAIN_USER = str ''user_t''"

fun ax_class_name :: "ax_class \<Rightarrow> u8 list" where
  "ax_class_name AX_CLASS_DISK_RAW = str ''disk_raw''"
| "ax_class_name AX_CLASS_REBOOT = str ''system_reboot''"
| "ax_class_name AX_CLASS_FILE_WRITE = str ''file_write''"
| "ax_class_name AX_CLASS_FILE_UNLINK = str ''file_unlink''"
| "ax_class_name AX_CLASS_FS_LOCK = str ''fs_lock''"
| "ax_class_name AX_CLASS_EXEC = str ''exec''"
| "ax_class_name AX_CLASS_CLIPBOARD = str ''clipboard''"
| "ax_class_name AX_CLASS_TASK_INFO = str ''task_info''"
| "ax_class_name AX_CLASS_PCI_RAW = str ''pci_raw''"
| "ax_class_name AX_CLASS_NET = str ''net''"

definition ax_current_domain :: "kstate \<Rightarrow> ax_domain" where
  "ax_current_domain s = (if task_current_is_isolated s then AX_DOMAIN_USER else AX_DOMAIN_KERNEL)"

definition ax_mac_check :: "ax_class \<Rightarrow> kstate \<Rightarrow> bool \<times> kstate" where
  "ax_mac_check c s =
     (let d = ax_current_domain s
      in if ax_policy d c then (True, s)
         else (False, kputs (red @ str ''avc:  denied  { '' @ ax_class_name c @
                 str '' }  for comm=\"'' @ task_current_name s @ str ''\"  scontext=axos:'' @
                 ax_domain_name d @ str ''  tclass='' @ ax_class_name c @ normal @ [0x0A]) s))"

definition ax_mls_dominates :: "nat \<Rightarrow> u8 list \<Rightarrow> kstate \<Rightarrow> bool \<times> kstate" where
  "ax_mls_dominates object_level object_class s =
     (if \<not> task_current_is_isolated s then (True, s)
      else let subj = task_current_mls_level s
           in if object_level \<le> subj then (True, s)
              else (False, kputs (red @ str ''avc:  denied  { read }  for comm=\"'' @ task_current_name s @
                      str ''\"  scontext=axos:user_t:s'' @ digits10 subj @
                      str ''  tcontext=axos:object_r:'' @ object_class @ str '':s'' @
                      digits10 object_level @ str ''  (MLS: no read up)'' @ normal @ [0x0A]) s))"

definition caller_tty :: "kstate \<Rightarrow> nat" where
  "caller_tty s =
     (let slot = task_current_slot_index s
      in if 0 \<le> slot \<and> slot < int USER_PROGRAM_SLOTS then slot_tty s (nat slot) else tty_active s)"

end
