(* ===== verification/Files.thy ===== *)
theory Files
  imports Security
begin

section \<open>System calls on files, descriptors and pipes\<close>

text \<open>
  The file half of the system-call handlers of \<^verbatim>\<open>src/src/kernel/kernel.c\<close>. A handler takes the
  value of ESI (an address or a plain value, below \<open>2 ^ 32\<close>) and reads its argument structure
  from user memory; the field offsets are those of \<^verbatim>\<open>src/src/user/syscall.h\<close>, all fields 32 bits
  wide. The IDE controller takes 28 bits of a sector number. A string is read up to its terminator, at most 64 KB of it, which is the whole window.
\<close>

abbreviation user_string :: "kstate \<Rightarrow> nat \<Rightarrow> u8 list option" where
  "user_string s a \<equiv> ustring (Suc USER_WINDOW_SIZE) s a"

text \<open>\<^verbatim>\<open>sys_print_string\<close>: into the caller's pipe, its redirect buffer or the console; what does
  not fit is dropped.\<close>

definition pipe_append :: "u8 list \<Rightarrow> pipe_buf \<Rightarrow> pipe_buf" where
  "pipe_append bs p =
     (let n = min (length bs) (PIPE_BUF_SIZE - 1 - plen p)
      in p\<lparr>pdata := mem_write (pdata p) (plen p) (take n bs), plen := plen p + n\<rparr>)"

definition redir_append :: "nat \<Rightarrow> u8 list \<Rightarrow> kstate \<Rightarrow> kstate" where
  "redir_append i bs s =
     (let n = min (length bs) (REDIR_BUF_SIZE - 1 - slot_redir_len s i)
      in (poke (slot_redir_buf s i + slot_redir_len s i) (take n bs) s)
           \<lparr>slot_redir_len := (slot_redir_len s)(i := slot_redir_len s i + n)\<rparr>)"

definition sys_print_string :: "nat \<Rightarrow> kstate \<Rightarrow> kstate option" where
  "sys_print_string arg s =
     do {
       ok \<leftarrow> validate_user_str s arg;
       if \<not> ok then Some (kputs (str ''[V?]'') s) else do {
         bs \<leftarrow> user_string s arg;
         let slot = task_current_slot_index s;
         let i = nat slot;
         if 0 \<le> slot \<and> slot < int USER_PROGRAM_SLOTS \<and> 0 \<le> slot_redir_pipe s i
         then Some (pipe_update (nat (slot_redir_pipe s i)) (pipe_append bs) s)
         else if 0 \<le> slot \<and> slot < int USER_PROGRAM_SLOTS \<and> slot_redir_buf s i \<noteq> 0
         then Some (redir_append i bs s)
         else Some (kputs bs s)
       }
     }"

definition sys_write_file :: "nat \<Rightarrow> kstate \<Rightarrow> kstate option" where
  "sys_write_file arg s =
     (if \<not> validate_user_ptr s arg 16 then Some s else do {
       fp \<leftarrow> uread32 s arg; dp \<leftarrow> uread32 s (arg + 4); n \<leftarrow> uread32 s (arg + 8);
       ok \<leftarrow> validate_user_str s fp;
       if \<not> ok \<or> \<not> validate_user_ptr s dp n then uwrite32 (arg + 12) 0 s else do {
         let (allow, s1) = ax_mac_check AX_CLASS_FILE_WRITE s;
         if \<not> allow then uwrite32 (arg + 12) 0 s1 else do {
           f \<leftarrow> user_string s1 fp;
           data \<leftarrow> uread s1 dp n;
           (r, s2) \<leftarrow> k_vfs_write f data s1;
           uwrite32 (arg + 12) (int r) s2
         }
       }
     })"

definition sys_read_file :: "nat \<Rightarrow> kstate \<Rightarrow> kstate option" where
  "sys_read_file arg s =
     (if \<not> validate_user_ptr s arg 16 then Some s else do {
       fp \<leftarrow> uread32 s arg; bp \<leftarrow> uread32 s (arg + 4); n \<leftarrow> uread32 s (arg + 8);
       ok \<leftarrow> validate_user_str s fp;
       if \<not> ok \<or> \<not> validate_user_ptr s bp n then uwrite32 (arg + 12) 0 s else do {
         f \<leftarrow> user_string s fp;
         bs \<leftarrow> vfs_read f n (vol s);
         s1 \<leftarrow> uwrite bp bs s;
         uwrite32 (arg + 12) (int (length bs)) s1
       }
     })"

definition sys_readdir :: "nat \<Rightarrow> kstate \<Rightarrow> kstate option" where
  "sys_readdir arg s =
     (if \<not> validate_user_ptr s arg 32 then Some s else do {
       index \<leftarrow> uread32 s arg;
       case vfs_readdir index (vol s) of
         None \<Rightarrow> do { s1 \<leftarrow> uwrite32 (arg + 24) 0 s; uwrite32 (arg + 28) 0 s1 }
       | Some (nm, fsz, is_dir) \<Rightarrow> do {
           s1 \<leftarrow> uwrite (arg + 4) (nm @ [0]) s;
           s2 \<leftarrow> uwrite32 (arg + 20) (int fsz) s1;
           s3 \<leftarrow> uwrite32 (arg + 24) 1 s2;
           uwrite32 (arg + 28) (if is_dir then 1 else 0) s3
         }
     })"

definition sys_mkdir :: "nat \<Rightarrow> kstate \<Rightarrow> kstate option" where
  "sys_mkdir arg s =
     (if \<not> validate_user_ptr s arg 8 then Some s else do {
       dp \<leftarrow> uread32 s arg;
       ok \<leftarrow> validate_user_str s dp;
       if \<not> ok then uwrite32 (arg + 4) 0 s else do {
         let (allow, s1) = ax_mac_check AX_CLASS_FILE_WRITE s;
         if \<not> allow then uwrite32 (arg + 4) 0 s1 else do {
           f \<leftarrow> user_string s1 dp;
           (r, v) \<leftarrow> vfs_mkdir f (vol s1);
           uwrite32 (arg + 4) r (s1\<lparr>vol := v\<rparr>)
         }
       }
     })"

definition sys_unlink :: "nat \<Rightarrow> kstate \<Rightarrow> kstate option" where
  "sys_unlink arg s =
     (if \<not> validate_user_ptr s arg 8 then Some s else do {
       fp \<leftarrow> uread32 s arg;
       ok \<leftarrow> validate_user_str s fp;
       if \<not> ok then uwrite32 (arg + 4) 0 s else do {
         let (allow, s1) = ax_mac_check AX_CLASS_FILE_UNLINK s;
         if \<not> allow then uwrite32 (arg + 4) 0 s1 else do {
           f \<leftarrow> user_string s1 fp;
           (r, v) \<leftarrow> vfs_delete f (vol s1);
           uwrite32 (arg + 4) r (s1\<lparr>vol := v\<rparr>)
         }
       }
     })"

definition sys_fs_lock :: "nat \<Rightarrow> kstate \<Rightarrow> kstate option" where
  "sys_fs_lock arg s =
     (let (allow, s1) = ax_mac_check AX_CLASS_FS_LOCK s
      in Some (if allow then s1\<lparr>vol := fat12_set_locked (arg \<noteq> 0) (vol s1)\<rparr> else s1))"

definition sys_disk_read_sector :: "nat \<Rightarrow> kstate \<Rightarrow> kstate option" where
  "sys_disk_read_sector arg s =
     (if \<not> validate_user_ptr s arg 12 then Some s else do {
       bp \<leftarrow> uread32 s (arg + 4);
       if \<not> validate_user_ptr s bp IDE_SECTOR_SIZE then uwrite32 (arg + 8) 0 s else do {
         let (allow, s1) = ax_mac_check AX_CLASS_DISK_RAW s;
         if \<not> allow then uwrite32 (arg + 8) 0 s1 else do {
           l \<leftarrow> uread32 s1 arg;
           let lba = l mod 2 ^ 28;
           if \<not> ide_ok (vol s1) lba then uwrite32 (arg + 8) 0 s1 else do {
             s2 \<leftarrow> uwrite bp (mem_read (disk (vol s1)) (lba * IDE_SECTOR_SIZE) IDE_SECTOR_SIZE) s1;
             uwrite32 (arg + 8) 1 s2
           }
         }
       }
     })"

definition sys_disk_write_sector :: "nat \<Rightarrow> kstate \<Rightarrow> kstate option" where
  "sys_disk_write_sector arg s =
     (if \<not> validate_user_ptr s arg 12 then Some s else do {
       bp \<leftarrow> uread32 s (arg + 4);
       if \<not> validate_user_ptr s bp IDE_SECTOR_SIZE then uwrite32 (arg + 8) 0 s else do {
         let (allow, s1) = ax_mac_check AX_CLASS_DISK_RAW s;
         if \<not> allow then uwrite32 (arg + 8) 0 s1 else do {
           l \<leftarrow> uread32 s1 arg;
           let lba = l mod 2 ^ 28;
           if \<not> ide_ok (vol s1) lba then uwrite32 (arg + 8) 0 s1 else do {
             bs \<leftarrow> uread s1 bp IDE_SECTOR_SIZE;
             uwrite32 (arg + 8) 1
               (s1\<lparr>vol := (vol s1)\<lparr>disk := mem_write (disk (vol s1)) (lba * IDE_SECTOR_SIZE) bs\<rparr>\<rparr>)
           }
         }
       }
     })"

subsection \<open>Descriptors\<close>

definition fd_table_ensure_init :: "kstate \<Rightarrow> kstate" where
  "fd_table_ensure_init s =
     (if fd_table_inited s then s
      else s\<lparr>fd_table := (\<lambda>i. if i < MAX_FDS then (fd_table s i)\<lparr>fvalid := False\<rparr> else fd_table s i),
             fd_table_inited := True\<rparr>)"

definition fd_owned_by_caller :: "kstate \<Rightarrow> int \<Rightarrow> bool" where
  "fd_owned_by_caller s fd \<longleftrightarrow>
     0 \<le> fd \<and> fd < int MAX_FDS \<and> fvalid (fd_table s (nat fd)) \<and>
     fowner (fd_table s (nat fd)) = task_current_slot_index s"

definition free_fd :: "kstate \<Rightarrow> nat option" where
  "free_fd s = find (\<lambda>i. \<not> fvalid (fd_table s i)) [0..<MAX_FDS]"

text \<open>\<^verbatim>\<open>"PIPE:N"\<close>: only while the pipe is in use, and only for its one reader.\<close>

definition open_pipe :: "nat \<Rightarrow> nat \<Rightarrow> nat \<Rightarrow> kstate \<Rightarrow> kstate option" where
  "open_pipe arg fd i s =
     (let p = pipe_bufs s i; caller = task_current_slot_index s
      in if \<not> in_use p then Some s
         else if reader_owner p \<noteq> -1 \<and> reader_owner p \<noteq> caller then Some s
         else uwrite32 (arg + 8) (int fd)
           (fd_update fd (\<lambda>e. e\<lparr>ftype := FD_TYPE_PIPE, fpipe_id := int i, fflags := O_RDONLY,
                                fowner := caller, fbuf := 0, fvalid := True\<rparr>)
             (pipe_update i (\<lambda>p. p\<lparr>reader_owner := caller\<rparr>) s)))"

definition open_file :: "nat \<Rightarrow> nat \<Rightarrow> u8 list \<Rightarrow> int \<Rightarrow> kstate \<Rightarrow> kstate option" where
  "open_file arg fd name flags s =
     do {
       let nm = take 12 name;
       (buf, s1) \<leftarrow> k_malloc MAX_FILE_BUF
         (fd_update fd (\<lambda>e. e\<lparr>fname := nm, ftype := FD_TYPE_FILE, fflags := flags, fpos := 0,
                              fsize := 0, fowner := task_current_slot_index s\<rparr>) s);
       let s2 = fd_update fd (\<lambda>e. e\<lparr>fbuf := buf\<rparr>) s1;
       if buf = 0 then Some s2
       else if flags = O_RDONLY then do {
         bs \<leftarrow> vfs_read nm MAX_FILE_BUF (vol s2);
         if bs = [] then do {
           s3 \<leftarrow> k_free buf s2;
           Some (fd_update fd (\<lambda>e. e\<lparr>fbuf := 0\<rparr>) s3)
         } else
           uwrite32 (arg + 8) (int fd)
             (fd_update fd (\<lambda>e. e\<lparr>fsize := length bs, fvalid := True\<rparr>) (poke buf bs s2))
       }
       else uwrite32 (arg + 8) (int fd) (fd_update fd (\<lambda>e. e\<lparr>fvalid := True\<rparr>) s2)
     }"

definition sys_open :: "nat \<Rightarrow> kstate \<Rightarrow> kstate option" where
  "sys_open arg s =
     (if \<not> validate_user_ptr s arg 12 then Some s else do {
       s0 \<leftarrow> uwrite32 (arg + 8) (-1) s;
       fp \<leftarrow> uread32 s0 arg;
       ok \<leftarrow> validate_user_str s0 fp;
       if \<not> ok then Some s0 else do {
         fl \<leftarrow> uread32 s0 (arg + 4);
         let flags = int32 fl;
         let (allow, s1) = (if flags \<noteq> O_RDONLY then ax_mac_check AX_CLASS_FILE_WRITE s0 else (True, s0));
         if \<not> allow then Some s1 else do {
           let s2 = fd_table_ensure_init s1;
           case free_fd s2 of
             None \<Rightarrow> Some s2
           | Some fd \<Rightarrow> do {
               name \<leftarrow> user_string s2 fp;
               let i = pipe_id_from_name name;
               if 0 \<le> i then open_pipe arg fd (nat i) s2 else open_file arg fd name flags s2
             }
         }
       }
     })"

definition fread_pipe :: "nat \<Rightarrow> nat \<Rightarrow> nat \<Rightarrow> nat \<Rightarrow> kstate \<Rightarrow> kstate option" where
  "fread_pipe arg buf count i s =
     (let p = pipe_bufs s i
      in if read_pos p < plen p
         then let n = min count (plen p - read_pos p)
              in do {
                s1 \<leftarrow> uwrite buf (mem_read (pdata p) (read_pos p) n) s;
                uwrite32 (arg + 12) (int n) (pipe_update i (\<lambda>p. p\<lparr>read_pos := read_pos p + n\<rparr>) s1)
              }
         else if writer_done p then uwrite32 (arg + 12) 0 s
         else uwrite32 (arg + 12) (-2) (task_wait_pipe_current (int i) s))"

definition sys_fread :: "nat \<Rightarrow> kstate \<Rightarrow> kstate option" where
  "sys_fread arg s =
     (if \<not> validate_user_ptr s arg 16 then Some s else do {
       s0 \<leftarrow> uwrite32 (arg + 12) (-1) s;
       f \<leftarrow> uread32 s0 arg;
       let fd = int32 f; let e = fd_table s0 (nat fd);
       if \<not> fd_owned_by_caller s0 fd then Some s0
       else if fflags e \<noteq> O_RDONLY then Some s0
       else do {
         buf \<leftarrow> uread32 s0 (arg + 4); count \<leftarrow> uread32 s0 (arg + 8);
         if \<not> validate_user_ptr s0 buf count then Some s0
         else if ftype e = FD_TYPE_PIPE then fread_pipe arg buf count (nat (fpipe_id e)) s0
         else do {
           let n = min count (sub32 (fsize e) (fpos e));
           s1 \<leftarrow> uwrite buf (mem_read (ram s0) (fbuf e + fpos e) n) s0;
           uwrite32 (arg + 12) (int n) (fd_update (nat fd) (\<lambda>e. e\<lparr>fpos := fpos e + n\<rparr>) s1)
         }
       }
     })"

definition sys_fwrite :: "nat \<Rightarrow> kstate \<Rightarrow> kstate option" where
  "sys_fwrite arg s =
     (if \<not> validate_user_ptr s arg 16 then Some s else do {
       s0 \<leftarrow> uwrite32 (arg + 12) (-1) s;
       f \<leftarrow> uread32 s0 arg;
       let fd = int32 f; let e = fd_table s0 (nat fd);
       if \<not> fd_owned_by_caller s0 fd then Some s0
       else if fflags e = O_RDONLY then Some s0
       else do {
         buf \<leftarrow> uread32 s0 (arg + 4); count \<leftarrow> uread32 s0 (arg + 8);
         if \<not> validate_user_ptr s0 buf count then Some s0
         else do {
           let n = min count (sub32 MAX_FILE_BUF (fpos e));
           bs \<leftarrow> uread s0 buf n;
           uwrite32 (arg + 12) (int n)
             (fd_update (nat fd) (\<lambda>e. e\<lparr>fpos := fpos e + n, fsize := max (fsize e) (fpos e + n)\<rparr>)
               (poke (fbuf e + fpos e) bs s0))
         }
       }
     })"

definition sys_close :: "nat \<Rightarrow> kstate \<Rightarrow> kstate option" where
  "sys_close arg s =
     (if \<not> validate_user_ptr s arg 4 then Some s else do {
       f \<leftarrow> uread32 s arg;
       let fd = int32 f;
       if \<not> fd_owned_by_caller s fd then Some s
       else if ftype (fd_table s (nat fd)) = FD_TYPE_PIPE then Some (pipe_fd_close (nat fd) s)
       else file_fd_close (nat fd) s
     })"

end
