(* ===== verification/Elf.thy ===== *)
theory Elf
  imports Tasking
begin

section \<open>The ELF loader\<close>

text \<open>
  \<^verbatim>\<open>src/src/kernel/elf.c\<close>: the loader of user programs. The file lies in RAM at \<open>st\<close> (\<^verbatim>\<open>staging_buf\<close>),
  the program is copied to the physical slot at \<open>base\<close>. Offsets are naturals, \<^verbatim>\<open>unsigned int\<close>
  wrap-around is written out where the code does not exclude it. An error leaves what was already
  copied in the slot.
\<close>

datatype elf_error =
  BadMagic | BadClass | BadData | BadMachine | BadType | BadPhnum | Truncated | Bounds | NotLoad

record elf_load_result =
  entry :: nat
  max_vaddr_end :: nat
  aslr_delta :: nat
  wx_data_offset :: nat

abbreviation ELF_MAX_PHNUM :: nat where "ELF_MAX_PHNUM \<equiv> 5"
abbreviation ELF_EHDR_SIZE :: nat where "ELF_EHDR_SIZE \<equiv> 52"
abbreviation ELF_PHDR_SIZE :: nat where "ELF_PHDR_SIZE \<equiv> 32"
abbreviation PT_LOAD :: nat where "PT_LOAD \<equiv> 1"
abbreviation PT_AXOS_RELOC :: nat where "PT_AXOS_RELOC \<equiv> 0x6A584953"
abbreviation PT_AXOS_WX :: nat where "PT_AXOS_WX \<equiv> 0x6A584955"

definition read_u32 :: "bmem \<Rightarrow> nat \<Rightarrow> nat" where
  "read_u32 m p = unat (ucast (m p) OR push_bit 8 (ucast (m (p + 1))) OR
     push_bit 16 (ucast (m (p + 2))) OR push_bit 24 (ucast (m (p + 3))) :: u32)"

definition read_u16 :: "bmem \<Rightarrow> nat \<Rightarrow> nat" where
  "read_u16 m p = unat (ucast (m p) OR push_bit 8 (ucast (m (p + 1))) :: u16)"

lemma read_u32_less [simp]: "read_u32 m p < 4294967296"
  unfolding read_u32_def by (rule order_less_le_trans [OF unsigned_less]) simp

text \<open>The checks of the file header, in their order.\<close>

definition elf_header_check :: "bmem \<Rightarrow> nat \<Rightarrow> nat \<Rightarrow> elf_error option" where
  "elf_header_check m st fsz =
     (if fsz < ELF_EHDR_SIZE then Some Truncated
      else if m st \<noteq> 0x7F \<or> m (st + 1) \<noteq> 0x45 \<or> m (st + 2) \<noteq> 0x4C \<or> m (st + 3) \<noteq> 0x46 then Some BadMagic
      else if m (st + 4) \<noteq> 1 then Some BadClass
      else if m (st + 5) \<noteq> 1 then Some BadData
      else if read_u16 m (st + 16) \<noteq> 2 then Some BadType
      else if read_u16 m (st + 18) \<noteq> 3 then Some BadMachine
      else let phoff = read_u32 m (st + 28); phnum = read_u16 m (st + 44)
           in if phnum = 0 \<or> ELF_MAX_PHNUM < phnum then Some BadPhnum
              else if fsz < phoff \<or> fsz - phoff < phnum * ELF_PHDR_SIZE then Some Truncated
              else None)"

definition elf_phdrs :: "bmem \<Rightarrow> nat \<Rightarrow> nat list" where
  "elf_phdrs m st =
     map (\<lambda>i. st + read_u32 m (st + 28) + i * ELF_PHDR_SIZE) [0..<read_u16 m (st + 44)]"

subsection \<open>First pass\<close>

record elf_scan =
  reloc_data :: nat
  reloc_count :: nat
  code_max_end :: nat
  wx_data_off :: nat
  found_load :: bool

definition table_fits :: "bmem \<Rightarrow> nat \<Rightarrow> nat \<Rightarrow> bool" where
  "table_fits m fsz ph \<longleftrightarrow>
     (let off = read_u32 m (ph + 4); filesz = read_u32 m (ph + 16)
      in off \<le> fsz \<and> 4 \<le> filesz \<and> filesz \<le> fsz - off)"

definition scan_reloc :: "bmem \<Rightarrow> nat \<Rightarrow> nat \<Rightarrow> nat \<Rightarrow> elf_scan \<Rightarrow> elf_scan" where
  "scan_reloc m st fsz ph sc =
     (if table_fits m fsz ph
      then let d = st + read_u32 m (ph + 4); n = read_u32 m d
           in sc\<lparr>reloc_data := d,
                 reloc_count := (if (read_u32 m (ph + 16) - 4) div 4 < n then 0 else n)\<rparr>
      else sc)"

definition scan_wx :: "bmem \<Rightarrow> nat \<Rightarrow> nat \<Rightarrow> nat \<Rightarrow> elf_scan \<Rightarrow> elf_scan" where
  "scan_wx m st fsz ph sc =
     (if table_fits m fsz ph then sc\<lparr>wx_data_off := read_u32 m (st + read_u32 m (ph + 4))\<rparr> else sc)"

fun elf_pass1 :: "bmem \<Rightarrow> nat \<Rightarrow> nat \<Rightarrow> nat \<Rightarrow> nat \<Rightarrow> nat list \<Rightarrow> elf_scan \<Rightarrow> elf_error + elf_scan" where
  "elf_pass1 m st fsz load_base max_end [] sc = Inr sc"
| "elf_pass1 m st fsz load_base max_end (ph # phs) sc =
     (let p_type = read_u32 m ph
      in if p_type = PT_AXOS_RELOC then elf_pass1 m st fsz load_base max_end phs (scan_reloc m st fsz ph sc)
         else if p_type = PT_AXOS_WX then elf_pass1 m st fsz load_base max_end phs (scan_wx m st fsz ph sc)
         else if p_type \<noteq> PT_LOAD then elf_pass1 m st fsz load_base max_end phs sc
         else let vaddr = read_u32 m (ph + 8); filesz = read_u32 m (ph + 16);
                  memsz = read_u32 m (ph + 20); seg_off = vaddr - load_base
              in if memsz < filesz then Inl Bounds
                 else if vaddr < load_base then Inl Bounds
                 else if max_end < seg_off \<or> max_end - seg_off < memsz then Inl Bounds
                 else elf_pass1 m st fsz load_base max_end phs
                        (sc\<lparr>code_max_end := max (code_max_end sc) (seg_off + memsz), found_load := True\<rparr>))"

subsection \<open>Placement, copy, relocation\<close>

definition elf_delta :: "elf_scan \<Rightarrow> nat \<Rightarrow> kstate \<Rightarrow> nat \<times> kstate" where
  "elf_delta sc max_end s =
     (if 0 < reloc_count sc \<and> code_max_end sc < max_end
      then let align_fix = (if wx_data_off sc mod 0x1000 \<noteq> 0 then 0x1000 - wx_data_off sc mod 0x1000 else 0);
               available = max_end - code_max_end sc
           in if align_fix < available
              then let usable = (available - align_fix) - 0x5000; slots = usable div 0x1000
                   in if 0 < slots
                      then case aslr_next_random s of (r, s1) \<Rightarrow> (align_fix + unat r mod slots * 0x1000, s1)
                      else (align_fix, s)
              else (0, s)
      else (0, s))"

text \<open>Second pass. The file is read from RAM before each segment is copied.\<close>

fun elf_pass2 ::
  "nat \<Rightarrow> nat \<Rightarrow> nat \<Rightarrow> nat \<Rightarrow> nat \<Rightarrow> nat \<Rightarrow> nat list \<Rightarrow> nat \<Rightarrow> kstate \<Rightarrow> (elf_error + nat) \<times> kstate" where
  "elf_pass2 st fsz base load_base max_seg delta [] max_end s = (Inr max_end, s)"
| "elf_pass2 st fsz base load_base max_seg delta (ph # phs) max_end s =
     (let m = ram s in
      if read_u32 m ph \<noteq> PT_LOAD then elf_pass2 st fsz base load_base max_seg delta phs max_end s
      else let p_offset = read_u32 m (ph + 4); vaddr = read_u32 m (ph + 8);
               filesz = read_u32 m (ph + 16); memsz = read_u32 m (ph + 20);
               seg = vaddr - load_base + delta
           in if fsz < p_offset \<or> fsz - p_offset < filesz then (Inl Truncated, s)
              else if max_seg < seg \<or> max_seg - seg < memsz then (Inl Bounds, s)
              else elf_pass2 st fsz base load_base max_seg delta phs (max max_end (seg + memsz))
                     (poke (base + seg) (mem_read m (st + p_offset) filesz @ replicate (memsz - filesz) 0) s))"

text \<open>The relocation loop; the check adds in 32 bits, the address does not.\<close>

definition elf_patch :: "nat \<Rightarrow> nat \<Rightarrow> nat \<Rightarrow> nat \<Rightarrow> kstate \<Rightarrow> kstate" where
  "elf_patch base delta code_end off s =
     (if wrap32 (off + 4) \<le> code_end
      then let p = base + delta + off
           in poke p (le_bytes 4 (word_of_nat (read_u32 (ram s) p + delta) :: u32)) s
      else s)"

fun elf_relocate :: "nat \<Rightarrow> nat \<Rightarrow> nat \<Rightarrow> nat list \<Rightarrow> kstate \<Rightarrow> kstate" where
  "elf_relocate base delta code_end [] s = s"
| "elf_relocate base delta code_end (p # ps) s =
     elf_relocate base delta code_end ps (elf_patch base delta code_end (read_u32 (ram s) p) s)"

definition elf_load :: "nat \<Rightarrow> nat \<Rightarrow> nat \<Rightarrow> nat \<Rightarrow> nat \<Rightarrow> kstate \<Rightarrow> (elf_error + elf_load_result) \<times> kstate" where
  "elf_load st fsz base load_base max_seg s =
     (case elf_header_check (ram s) st fsz of
        Some e \<Rightarrow> (Inl e, s)
      | None \<Rightarrow>
          let e_entry = read_u32 (ram s) (st + 24); phs = elf_phdrs (ram s) st
          in case elf_pass1 (ram s) st fsz load_base max_seg phs
                    \<lparr>reloc_data = 0, reloc_count = 0, code_max_end = 0, wx_data_off = 0, found_load = False\<rparr> of
               Inl e \<Rightarrow> (Inl e, s)
             | Inr sc \<Rightarrow>
                 if \<not> found_load sc then (Inl NotLoad, s)
                 else let (delta, s1) = elf_delta sc max_seg s
                      in case elf_pass2 st fsz base load_base max_seg delta phs 0 s1 of
                           (Inl e, s2) \<Rightarrow> (Inl e, s2)
                         | (Inr max_end, s2) \<Rightarrow>
                             let s3 = (if 0 < delta
                                       then elf_relocate base delta (code_max_end sc)
                                              (map (\<lambda>i. reloc_data sc + 4 + 4 * i) [0..<reloc_count sc]) s2
                                       else s2);
                                 entry_d = wrap32 (e_entry + delta)
                             in if entry_d < load_base \<or> max_end \<le> entry_d - load_base then (Inl Bounds, s3)
                                else (Inr \<lparr>entry = entry_d, max_vaddr_end = (max_end + 15) div 16 * 16,
                                           aslr_delta = delta, wx_data_offset = wx_data_off sc\<rparr>, s3))"

end
