(* ===== verification/Syscalls.thy ===== *)
theory Syscalls
  imports Files Elf
begin

section \<open>Programs and the system-call table\<close>

text \<open>
  The rest of the handlers of \<^verbatim>\<open>src/src/kernel/kernel.c\<close>, the dispatcher with its seccomp gate and
  the bridge of \<^verbatim>\<open>syscalls.asm\<close>. What the devices answer is the parameter \<open>devs\<close>: the CMOS
  registers, the mouse, the model string of the disk, the PCI scan, the network card, and the
  handler of \<^verbatim>\<open>SYS_BEEP\<close>, which waits with interrupts on.
\<close>

record pci_device =
  pd_ids :: "nat list"
  pd_class_name :: "u8 list"

record devs =
  cmos :: "nat \<Rightarrow> u8"
  mouse :: "int \<times> int \<times> int"
  ide_model :: "u8 list option"
  pci_devices :: "pci_device list"
  net_ready :: bool
  net_mac :: "u8 list"
  net_send :: "u8 list \<Rightarrow> int"
  net_recv :: "nat \<Rightarrow> u8 list"
  beep :: "nat \<Rightarrow> nat \<Rightarrow> kstate \<Rightarrow> kstate option"

abbreviation USER_ARGS_VADDR :: nat where "USER_ARGS_VADDR \<equiv> 0x10F800"
abbreviation USER_ARGS_OFFSET :: nat where "USER_ARGS_OFFSET \<equiv> 0xF800"
abbreviation USER_ARGS_STR_OFF :: nat where "USER_ARGS_STR_OFF \<equiv> 32"
abbreviation USER_ARGS_MAX_ARGC :: nat where "USER_ARGS_MAX_ARGC \<equiv> 7"
abbreviation USER_HEAP_LIMIT :: nat where "USER_HEAP_LIMIT \<equiv> 0x10F600"
abbreviation ELF_STAGING_BASE :: nat where "ELF_STAGING_BASE \<equiv> 0x150000"
abbreviation ELF_STAGING_SIZE :: nat where "ELF_STAGING_SIZE \<equiv> 0xFA00"
abbreviation CLIPBOARD_MAX_SIZE :: nat where "CLIPBOARD_MAX_SIZE \<equiv> 1024"

subsection \<open>Starting a program\<close>

text \<open>The file name (at most 23 bytes, \<open>.bin\<close> appended) and the rest of the command line.\<close>

definition exec_filename :: "u8 list \<Rightarrow> u8 list" where
  "exec_filename cmd =
     (let f = take 23 (takeWhile (\<lambda>c. c \<noteq> 0x20) cmd)
      in if 0x2E \<notin> set f \<and> length f \<le> 19 then f @ str ''.bin'' else f)"

definition exec_rest :: "u8 list \<Rightarrow> u8 list" where
  "exec_rest cmd = dropWhile (\<lambda>c. c = 0x20) (drop (length (take 23 (takeWhile (\<lambda>c. c \<noteq> 0x20) cmd))) cmd)"

text \<open>The arguments of the loop, which runs while \<^verbatim>\<open>argc <= USER_ARGS_MAX_ARGC\<close>: at most \<open>n\<close> more.\<close>

fun exec_args :: "nat \<Rightarrow> u8 list \<Rightarrow> u8 list list" where
  "exec_args 0 cs = []"
| "exec_args (Suc n) cs =
     (if cs = [] then []
      else takeWhile (\<lambda>c. c \<noteq> 0x20) cs #
           exec_args n (dropWhile (\<lambda>c. c = 0x20) (dropWhile (\<lambda>c. c \<noteq> 0x20) cs)))"

fun arg_offsets :: "nat \<Rightarrow> u8 list list \<Rightarrow> nat list" where
  "arg_offsets a [] = []"
| "arg_offsets a (x # xs) = a # arg_offsets (a + length x + 1) xs"

definition arg_strings :: "u8 list list \<Rightarrow> u8 list" where
  "arg_strings xs = concat (map (\<lambda>x. x @ [0]) xs)"

text \<open>The argument block: strings upwards from offset 32, pointers from offset 0, and last the
  terminating null pointer.\<close>

definition write_args :: "nat \<Rightarrow> u8 list list \<Rightarrow> kstate \<Rightarrow> kstate" where
  "write_args base xs s =
     (let a = base + USER_ARGS_OFFSET;
          s1 = poke (a + USER_ARGS_STR_OFF) (arg_strings xs) s;
          s2 = poke a (concat (map (\<lambda>v. le_bytes 4 (word_of_nat v :: u32))
                 (arg_offsets (USER_ARGS_VADDR + USER_ARGS_STR_OFF) xs))) s1
      in poke (a + 4 * length xs) (le_bytes 4 (0 :: u32)) s2)"

definition heap_start :: "nat \<Rightarrow> nat \<Rightarrow> kstate \<Rightarrow> kstate" where
  "heap_start slot max_end s =
     (let brk = wrap32 (USER_WINDOW_BASE + max_end); (r, s1) = aslr_next_random s; slide = unat r mod 64 * 64
      in s1\<lparr>slot_heap_brk := (slot_heap_brk s1)
             (slot := if wrap32 (brk + slide) < USER_HEAP_LIMIT then wrap32 (brk + slide) else brk)\<rparr>)"

definition first_free_slot :: "kstate \<Rightarrow> nat option" where
  "first_free_slot s = find (slot_free s) [0..<USER_PROGRAM_SLOTS]"

definition report_elf :: "elf_load_result \<Rightarrow> kstate \<Rightarrow> kstate" where
  "report_elf r s =
     (let s1 = (if 0 < aslr_delta r
                then kputs (str ''[ASLR] code entry=0x'' @ hex32 (entry r) @ str '' delta=0x'' @
                       hex32 (aslr_delta r) @ [0x0A]) s else s)
      in if 0 < wx_data_offset r
         then kputs (str ''[W^X] boundary=0x'' @ hex32 (wrap32 (wx_data_offset r + aslr_delta r)) @ [0x0A]) s1
         else s1)"

definition inherit_tty :: "nat \<Rightarrow> kstate \<Rightarrow> kstate" where
  "inherit_tty slot s = s\<lparr>slot_tty := (slot_tty s)(slot := caller_tty s)\<rparr>"

text \<open>\<^verbatim>\<open>do_exec\<close> on the bytes of the command line, read before anything is written. The result is the slot or -1 (no such file), -2
  (no slot), -3 (not a valid ELF file).\<close>

definition do_exec :: "u8 list \<Rightarrow> kstate \<Rightarrow> (int \<times> kstate) option" where
  "do_exec cmd s =
     (if takeWhile (\<lambda>c. c \<noteq> 0x20) cmd = [] then Some (-1, s)
      else let filename = exec_filename cmd
      in case first_free_slot s of
           None \<Rightarrow> Some (-2, s)
         | Some slot \<Rightarrow>
             let base = slot_base slot; s1 = poke base (replicate USER_PROGRAM_SLOT_SIZE 0) s
             in case vfs_read filename ELF_STAGING_SIZE (vol s1) of
                  None \<Rightarrow> None
                | Some file \<Rightarrow>
                    if file = [] then Some (-1, s1)
                    else let s2 = poke ELF_STAGING_BASE file s1
                         in case elf_load ELF_STAGING_BASE (length file) base USER_WINDOW_BASE USER_ARGS_OFFSET s2 of
                              (Inl _, s3) \<Rightarrow> Some (-3, s3)
                            | (Inr r, s3) \<Rightarrow>
                                let args = filename # exec_args USER_ARGS_MAX_ARGC (exec_rest cmd);
                                    s4 = write_args base args (report_elf r s3);
                                    s5 = heap_start slot (max_vaddr_end r) s4;
                                    s6 = inherit_tty slot (s5\<lparr>slot_free := (slot_free s5)(slot := False)\<rparr>);
                                    s7 = s6\<lparr>slot_wx_delta := (slot_wx_delta s6)(slot := aslr_delta r),
                                            slot_wx_data_off := (slot_wx_data_off s6)(slot := wx_data_offset r)\<rparr>
                                in case task_create_user_isolated filename base slot (length args)
                                          USER_ARGS_VADDR (entry r) (aslr_delta r) (wx_data_offset r) s7 of
                                     None \<Rightarrow> None | Some s8 \<Rightarrow> Some (int slot, s8))"

definition sys_exec :: "nat \<Rightarrow> kstate \<Rightarrow> kstate option" where
  "sys_exec arg s =
     (if \<not> validate_user_ptr s arg 8 then Some s else do {
       cp \<leftarrow> uread32 s arg;
       ok \<leftarrow> validate_user_str s cp;
       if \<not> ok then uwrite32 (arg + 4) (-1) s else do {
         let (allow, s1) = ax_mac_check AX_CLASS_EXEC s;
         if \<not> allow then uwrite32 (arg + 4) (-1) s1 else do {
           cmd \<leftarrow> user_string s1 cp;
           (r, s2) \<leftarrow> do_exec cmd s1;
           uwrite32 (arg + 4) r s2
         }
       }
     })"

text \<open>The redirection of a started program: to a free pipe, or to a file through a buffer.\<close>

definition start_redirect :: "nat \<Rightarrow> u8 list \<Rightarrow> kstate \<Rightarrow> kstate option" where
  "start_redirect slot out s =
     (let i = pipe_id_from_name out
      in if 0 \<le> i \<and> \<not> in_use (pipe_bufs s (nat i))
         then Some (pipe_update (nat i)
                (\<lambda>p. p\<lparr>plen := 0, read_pos := 0, writer_done := False, reader_owner := -1, in_use := True\<rparr>)
                (s\<lparr>slot_redir_pipe := (slot_redir_pipe s)(slot := i),
                   slot_redir_pipe_is_own := (slot_redir_pipe_is_own s)(slot := True)\<rparr>))
         else if i < 0
         then (case k_malloc REDIR_BUF_SIZE s of
                 None \<Rightarrow> None
               | Some (buf, s1) \<Rightarrow>
                   Some (if buf = 0 then s1
                         else s1\<lparr>slot_redir_buf := (slot_redir_buf s1)(slot := buf),
                                 slot_redir_len := (slot_redir_len s1)(slot := 0),
                                 slot_redir_file := (slot_redir_file s1)(slot := take 12 out)\<rparr>))
         else Some s)"

definition sys_exec_redir :: "nat \<Rightarrow> kstate \<Rightarrow> kstate option" where
  "sys_exec_redir arg s =
     (if \<not> validate_user_ptr s arg 12 then Some s else do {
       cp \<leftarrow> uread32 s arg;
       rp \<leftarrow> uread32 s (arg + 4);
       ok1 \<leftarrow> validate_user_str s cp;
       ok2 \<leftarrow> (if rp = 0 then Some True else validate_user_str s rp);
       if \<not> ok1 \<or> \<not> ok2 then uwrite32 (arg + 8) (-1) s else do {
         let (allow, s1) = ax_mac_check AX_CLASS_EXEC s;
         if \<not> allow then uwrite32 (arg + 8) (-1) s1 else do {
           cmd \<leftarrow> user_string s1 cp;
           (r, s2) \<leftarrow> do_exec cmd s1;
           s3 \<leftarrow> uwrite32 (arg + 8) r s2;
           rp' \<leftarrow> uread32 s3 (arg + 4);
           if 0 \<le> r \<and> rp' \<noteq> 0 then do {
             out \<leftarrow> user_string s3 rp';
             if out = [] then Some s3 else start_redirect (nat r) out s3
           } else Some s3
         }
       }
     })"

subsection \<open>Fork\<close>

definition set_frame_rax :: "nat \<Rightarrow> int \<Rightarrow> kstate \<Rightarrow> kstate" where
  "set_frame_rax r v s = poke r (le_bytes 8 (word_of_int v :: u64)) s"

definition copy_slot :: "nat \<Rightarrow> nat \<Rightarrow> kstate \<Rightarrow> kstate" where
  "copy_slot from_base to_base s = poke to_base (mem_read (ram s) from_base USER_PROGRAM_SLOT_SIZE) s"

text \<open>What the child inherits of the parent's output redirection.\<close>

definition fork_redirect :: "nat \<Rightarrow> nat \<Rightarrow> kstate \<Rightarrow> kstate option" where
  "fork_redirect parent child s =
     (let s1 = s\<lparr>slot_redir_pipe := (slot_redir_pipe s)(child := slot_redir_pipe s parent),
                 slot_redir_pipe_is_own := (slot_redir_pipe_is_own s)(child := False)\<rparr>
      in if slot_redir_buf s1 parent \<noteq> 0
         then (case k_malloc REDIR_BUF_SIZE s1 of
                 None \<Rightarrow> None
               | Some (buf, s2) \<Rightarrow>
                   if buf = 0
                   then Some (s2\<lparr>slot_redir_buf := (slot_redir_buf s2)(child := 0),
                                 slot_redir_len := (slot_redir_len s2)(child := 0)\<rparr>)
                   else let s3 = poke buf (mem_read (ram s2) (slot_redir_buf s2 parent) (slot_redir_len s2 parent)) s2
                        in Some (s3\<lparr>slot_redir_buf := (slot_redir_buf s3)(child := buf),
                                    slot_redir_len := (slot_redir_len s3)(child := slot_redir_len s3 parent),
                                    slot_redir_file := (slot_redir_file s3)(child := take 12 (slot_redir_file s3 parent))\<rparr>))
         else Some (s1\<lparr>slot_redir_buf := (slot_redir_buf s1)(child := 0),
                       slot_redir_len := (slot_redir_len s1)(child := 0)\<rparr>))"

definition seccomp_kill :: "u8 \<Rightarrow> kstate \<Rightarrow> kstate" where
  "seccomp_kill func s =
     (if task_current_is_isolated s
      then task_mark_current_exiting
             (kputs ([0x0A] @ yellow @ str ''[seccomp] forbidden syscall 0x'' @ hex8 func @ str '' in '' @ [0x27] @
                task_current_name s @ [0x27] @ str '' - killed'' @ normal @ [0x0A]) s)
      else s)"

definition fork_child :: "nat \<Rightarrow> nat \<Rightarrow> nat \<Rightarrow> kstate \<Rightarrow> kstate option" where
  "fork_child parent_rsp parent child s =
     do {
       (pid, s1) \<leftarrow> task_fork_current parent_rsp (slot_base child) child
                     (slot_wx_delta s parent) (slot_wx_data_off s parent)
                     (copy_slot (slot_base parent) (slot_base child) s);
       if pid < 0 then Some (set_frame_rax parent_rsp (-1) s1) else do {
         s2 \<leftarrow> fork_redirect parent child
           (s1\<lparr>slot_free := (slot_free s1)(child := False),
               slot_exit_code := (slot_exit_code s1)(child := 0),
               slot_heap_brk := (slot_heap_brk s1)(child := slot_heap_brk s1 parent),
               slot_wx_delta := (slot_wx_delta s1)(child := slot_wx_delta s1 parent),
               slot_wx_data_off := (slot_wx_data_off s1)(child := slot_wx_data_off s1 parent)\<rparr>);
         Some (set_frame_rax parent_rsp pid (s2\<lparr>slot_tty := (slot_tty s2)(child := slot_tty s2 parent)\<rparr>))
       }
     }"

definition sys_fork_impl :: "nat \<Rightarrow> kstate \<Rightarrow> kstate option" where
  "sys_fork_impl parent_rsp s =
     (if task_current_is_exiting s then Some s
      else if \<not> task_syscall_allowed 0x2A s then Some (seccomp_kill 0x2A s)
      else let parent = task_current_slot_index s
      in if parent < 0 then Some (set_frame_rax parent_rsp (-1) s)
         else case ax_mac_check AX_CLASS_EXEC s of
                (allow, s1) \<Rightarrow>
                  if \<not> allow then Some (set_frame_rax parent_rsp (-1) s1)
                  else (case first_free_slot s1 of
                          None \<Rightarrow> Some (set_frame_rax parent_rsp (-1) s1)
                        | Some child \<Rightarrow> fork_child parent_rsp (nat parent) child s1))"


subsection \<open>Tasks, consoles and time\<close>

definition sys_clear_screen :: "nat \<Rightarrow> kstate \<Rightarrow> kstate option" where
  "sys_clear_screen arg s =
     (let slot = task_current_slot_index s
      in if 0 \<le> slot \<and> slot < int USER_PROGRAM_SLOTS \<and> slot_redir_buf s (nat slot) \<noteq> 0 then Some s
         else Some (s\<lparr>klog := []\<rparr>))"

definition sys_read_key :: "nat \<Rightarrow> kstate \<Rightarrow> kstate option" where
  "sys_read_key arg s =
     (let t = caller_tty s
      in if arg \<noteq> 0 \<and> validate_user_ptr s arg 1
         then (case ustore arg (tty_last_key s t) s of
                 None \<Rightarrow> None | Some s1 \<Rightarrow> Some (s1\<lparr>tty_last_key := (tty_last_key s1)(t := 0)\<rparr>))
         else Some s)"

definition sys_exit :: "nat \<Rightarrow> kstate \<Rightarrow> kstate option" where
  "sys_exit arg s = Some (task_mark_current_exiting (task_set_current_exit_code (int32 arg) s))"

definition sys_task_alive :: "nat \<Rightarrow> kstate \<Rightarrow> kstate option" where
  "sys_task_alive arg s =
     (if \<not> validate_user_ptr s arg 8 then Some s else do {
       v \<leftarrow> uread32 s arg;
       let slot = int32 v;
       uwrite32 (arg + 4)
         (if 0 \<le> slot \<and> slot < int USER_PROGRAM_SLOTS \<and> \<not> slot_free s (nat slot) then 1 else 0) s
     })"

definition sys_shell_claim :: "nat \<Rightarrow> kstate \<Rightarrow> kstate option" where
  "sys_shell_claim arg s =
     (let t = caller_tty s; was_inhibited = tty_kernel_shell_inhibited s t;
          s1 = s\<lparr>tty_kernel_shell_inhibited := (tty_kernel_shell_inhibited s)(t := (arg \<noteq> 0))\<rparr>
      in Some (if was_inhibited \<and> arg = 0
               then kputs ([0x0A] @ str ''AxOS> '') (s1\<lparr>command_len := (command_len s1)(t := 0)\<rparr>)
               else s1))"

definition sys_set_foreground :: "nat \<Rightarrow> kstate \<Rightarrow> kstate option" where
  "sys_set_foreground arg s =
     (if \<not> validate_user_ptr s arg 4 then Some s else do {
       v \<leftarrow> uread32 s arg;
       Some (s\<lparr>tty_foreground_slot := (tty_foreground_slot s)(caller_tty s := int32 v)\<rparr>)
     })"

definition sys_get_ticks :: "nat \<Rightarrow> kstate \<Rightarrow> kstate option" where
  "sys_get_ticks arg s =
     (if \<not> validate_user_ptr s arg 4 then Some s else uwrite32 arg (uint (timer_ticks s)) s)"

definition sys_sleep :: "nat \<Rightarrow> kstate \<Rightarrow> kstate option" where
  "sys_sleep arg s =
     (if \<not> validate_user_ptr s arg 4 then Some s else do {
       ms \<leftarrow> uread32 s arg;
       Some (task_sleep_current ms s)
     })"

definition sys_ps :: "nat \<Rightarrow> kstate \<Rightarrow> kstate option" where
  "sys_ps arg s =
     (if \<not> validate_user_ptr s arg 40 then Some s else do {
       let (allow, s1) = ax_mac_check AX_CLASS_TASK_INFO s;
       if \<not> allow then uwrite32 (arg + 36) 0 s1 else do {
         index \<leftarrow> uread32 s1 arg;
         info \<leftarrow> task_get_info index s1;
         case info of
           None \<Rightarrow> do { s2 \<leftarrow> uwrite32 (arg + 36) 0 s1; uwrite32 (arg + 32) 0 s2 }
         | Some t \<Rightarrow> do {
             s2 \<leftarrow> uwrite32 (arg + 4) (tid t) s1;
             s3 \<leftarrow> uwrite (arg + 8) (take (MAX_NAME_LEN - 1) (tname t) @ [0]) s2;
             s4 \<leftarrow> uwrite32 (arg + 24) (uint (tticks t)) s3;
             s5 \<leftarrow> uwrite32 (arg + 28) (user_slot_index t) s4;
             s6 \<leftarrow> uwrite32 (arg + 36) 1 s5;
             s7 \<leftarrow> uwrite32 (arg + 32)
               (if 0 \<le> user_slot_index t \<and> user_slot_index t < int USER_PROGRAM_SLOTS
                then int (slot_heap_brk s6 (nat (user_slot_index t))) else 0) s6;
             let (dom, s8) = ax_mls_dominates (mls_level t) (str ''task'') s7;
             if dom then Some s8 else do {
               s9 \<leftarrow> uwrite (arg + 8) (str ''<hidden>'' @ [0]) s8;
               s10 \<leftarrow> uwrite32 (arg + 24) 0 s9;
               uwrite32 (arg + 32) 0 s10
             }
           }
       }
     })"

definition sys_sbrk :: "nat \<Rightarrow> kstate \<Rightarrow> kstate option" where
  "sys_sbrk arg s =
     (if \<not> validate_user_ptr s arg 8 then Some s else do {
       let slot = task_current_slot_index s;
       if slot < 0 then uwrite32 (arg + 4) (-1) s else do {
         inc \<leftarrow> uread32 s arg;
         let old_brk = slot_heap_brk s (nat slot);
         let new_brk = wrap32 (old_brk + inc);
         if 0 < int32 inc \<and> USER_HEAP_LIMIT < new_brk then uwrite32 (arg + 4) (-1) s
         else uwrite32 (arg + 4) (int old_brk)
                (s\<lparr>slot_heap_brk := (slot_heap_brk s)(nat slot := new_brk)\<rparr>)
       }
     })"

definition sys_set_level :: "nat \<Rightarrow> kstate \<Rightarrow> kstate option" where
  "sys_set_level arg s =
     (if \<not> validate_user_ptr s arg 4 then Some s else do {
       l \<leftarrow> uread32 s arg;
       Some (task_set_current_mls_level l s)
     })"

definition sys_seccomp :: "nat \<Rightarrow> kstate \<Rightarrow> kstate option" where
  "sys_seccomp arg s =
     (if \<not> validate_user_ptr s arg 8 then Some s else do {
       lo \<leftarrow> uread32 s arg;
       hi \<leftarrow> uread32 s (arg + 4);
       Some (task_set_syscall_mask (word_of_nat lo OR push_bit 32 (word_of_nat hi)) s)
     })"

definition sys_set_priority :: "nat \<Rightarrow> kstate \<Rightarrow> kstate option" where
  "sys_set_priority arg s =
     (if \<not> validate_user_ptr s arg 8 then Some s else do {
       pid \<leftarrow> uread32 s arg;
       p \<leftarrow> uread32 s (arg + 4);
       task_set_priority (int32 pid) (int32 p) s
     })"

definition sys_get_exit_code :: "nat \<Rightarrow> kstate \<Rightarrow> kstate option" where
  "sys_get_exit_code arg s =
     (if \<not> validate_user_ptr s arg 8 then Some s else do {
       v \<leftarrow> uread32 s arg;
       let slot = int32 v;
       uwrite32 (arg + 4)
         (if 0 \<le> slot \<and> slot < int USER_PROGRAM_SLOTS then slot_exit_code s (nat slot) else 0) s
     })"

definition sys_kill :: "nat \<Rightarrow> kstate \<Rightarrow> kstate option" where
  "sys_kill arg s =
     (if \<not> validate_user_ptr s arg 8 then Some s else do {
       pid \<leftarrow> uread32 s arg;
       (hit, s1) \<leftarrow> task_kill_by_pid (int32 pid) s;
       uwrite32 (arg + 4) (if hit then 0 else -1) s1
     })"

subsection \<open>The clipboard\<close>

definition sys_clipboard_set :: "nat \<Rightarrow> kstate \<Rightarrow> kstate option" where
  "sys_clipboard_set arg s =
     (if \<not> validate_user_ptr s arg 8 then Some s else do {
       sz \<leftarrow> uread32 s (arg + 4);
       let n = (if CLIPBOARD_MAX_SIZE < sz then CLIPBOARD_MAX_SIZE else sz);
       dp \<leftarrow> uread32 s arg;
       if \<not> validate_user_ptr s dp n then Some s else do {
         let (allow, s1) = ax_mac_check AX_CLASS_CLIPBOARD s;
         if \<not> allow then Some s1 else do {
           bs \<leftarrow> uread s1 dp n;
           Some (s1\<lparr>clipboard_buf := mem_write (clipboard_buf s1) 0 bs, clipboard_len := n,
                    clipboard_level := (if task_current_is_isolated s1 then task_current_mls_level s1 else 0)\<rparr>)
         }
       }
     })"

definition sys_clipboard_get :: "nat \<Rightarrow> kstate \<Rightarrow> kstate option" where
  "sys_clipboard_get arg s =
     (if \<not> validate_user_ptr s arg 12 then Some s else do {
       let (dom, s1) = ax_mls_dominates (clipboard_level s) (str ''clipboard'') s;
       if \<not> dom then uwrite32 (arg + 8) 0 s1 else do {
         mx \<leftarrow> uread32 s1 (arg + 4);
         let n = (if mx < clipboard_len s1 then mx else clipboard_len s1);
         bp \<leftarrow> uread32 s1 arg;
         if \<not> validate_user_ptr s1 bp n then uwrite32 (arg + 8) 0 s1 else do {
           s2 \<leftarrow> uwrite bp (mem_read (clipboard_buf s1) 0 n) s1;
           uwrite32 (arg + 8) (int n) s2
         }
       }
     })"

subsection \<open>Devices\<close>

definition bcd_to_bin :: "u8 \<Rightarrow> nat" where
  "bcd_to_bin v = unat (v AND 0x0F) + unat (drop_bit 4 v) * 10"

text \<open>Second, minute, hour, day, month, year.\<close>

definition read_rtc :: "(nat \<Rightarrow> u8) \<Rightarrow> nat list" where
  "read_rtc c =
     (if c 0x0B AND 0x04 = 0
      then map bcd_to_bin [c 0x00, c 0x02, c 0x04 AND 0x7F, c 0x07, c 0x08, c 0x09]
      else map unat [c 0x00, c 0x02, c 0x04, c 0x07, c 0x08, c 0x09])"

definition sys_get_datetime :: "devs \<Rightarrow> nat \<Rightarrow> kstate \<Rightarrow> kstate option" where
  "sys_get_datetime dv arg s =
     (if \<not> validate_user_ptr s arg 24 then Some s
      else uwrite arg (concat (map (\<lambda>n. le_bytes 4 (word_of_nat n :: u32)) (read_rtc (cmos dv)))) s)"

text \<open>\<^verbatim>\<open>reboot\<close> does not return.\<close>

definition sys_reboot :: "nat \<Rightarrow> kstate \<Rightarrow> kstate option" where
  "sys_reboot arg s = (case ax_mac_check AX_CLASS_REBOOT s of (allow, s1) \<Rightarrow> if allow then None else Some s1)"

definition sys_get_mouse :: "devs \<Rightarrow> nat \<Rightarrow> kstate \<Rightarrow> kstate option" where
  "sys_get_mouse dv arg s =
     (if \<not> validate_user_ptr s arg 12 then Some s
      else case mouse dv of (x, y, b) \<Rightarrow>
        do { s1 \<leftarrow> uwrite32 arg x s; s2 \<leftarrow> uwrite32 (arg + 4) y s1; uwrite32 (arg + 8) b s2 })"

definition sys_beep :: "devs \<Rightarrow> nat \<Rightarrow> kstate \<Rightarrow> kstate option" where
  "sys_beep dv arg s =
     (if \<not> validate_user_ptr s arg 8 then Some s else do {
       f \<leftarrow> uread32 s arg; d \<leftarrow> uread32 s (arg + 4); beep dv f d s
     })"

definition sys_disk_identify :: "devs \<Rightarrow> nat \<Rightarrow> kstate \<Rightarrow> kstate option" where
  "sys_disk_identify dv arg s =
     (if \<not> validate_user_ptr s arg 8 then Some s else do {
       mp \<leftarrow> uread32 s arg;
       if \<not> validate_user_ptr s mp 41 then uwrite32 (arg + 4) 0 s else do {
         let (allow, s1) = ax_mac_check AX_CLASS_DISK_RAW s;
         if \<not> allow then uwrite32 (arg + 4) 0 s1
         else case ide_model dv of
                None \<Rightarrow> uwrite32 (arg + 4) 0 s1
              | Some m \<Rightarrow> do { s2 \<leftarrow> uwrite mp m s1; uwrite32 (arg + 4) 1 s2 }
       }
     })"

definition sys_pci_get_device :: "devs \<Rightarrow> nat \<Rightarrow> kstate \<Rightarrow> kstate option" where
  "sys_pci_get_device dv arg s =
     (if \<not> validate_user_ptr s arg 68 then Some s else do {
       let (allow, s1) = ax_mac_check AX_CLASS_PCI_RAW s;
       if \<not> allow then uwrite32 (arg + 64) 0 s1 else do {
         index \<leftarrow> uread32 s1 arg;
         if length (pci_devices dv) \<le> index \<or> 32 \<le> index then uwrite32 (arg + 64) 0 s1
         else do {
           let d = pci_devices dv ! index;
           s2 \<leftarrow> uwrite (arg + 4) (concat (map (\<lambda>n. le_bytes 4 (word_of_nat n :: u32)) (pd_ids d))) s1;
           s3 \<leftarrow> uwrite (arg + 32) (take 31 (pd_class_name d) @ [0]) s2;
           uwrite32 (arg + 64) 1 s3
         }
       }
     })"

definition sys_net_mac :: "devs \<Rightarrow> nat \<Rightarrow> kstate \<Rightarrow> kstate option" where
  "sys_net_mac dv arg s =
     (if \<not> validate_user_ptr s arg 8 then Some s else do {
       let (allow, s1) = ax_mac_check AX_CLASS_NET s;
       if \<not> allow then uwrite32 (arg + 4) 0 s1 else do {
         mp \<leftarrow> uread32 s1 arg;
         if \<not> net_ready dv \<or> \<not> validate_user_ptr s1 mp 6 then uwrite32 (arg + 4) 0 s1
         else do { s2 \<leftarrow> uwrite mp (net_mac dv) s1; uwrite32 (arg + 4) 1 s2 }
       }
     })"

definition sys_net_send :: "devs \<Rightarrow> nat \<Rightarrow> kstate \<Rightarrow> kstate option" where
  "sys_net_send dv arg s =
     (if \<not> validate_user_ptr s arg 12 then Some s else do {
       let (allow, s1) = ax_mac_check AX_CLASS_NET s;
       if \<not> allow then uwrite32 (arg + 8) (-1) s1 else do {
         fp \<leftarrow> uread32 s1 arg; n \<leftarrow> uread32 s1 (arg + 4);
         if \<not> net_ready dv \<or> \<not> validate_user_ptr s1 fp n then uwrite32 (arg + 8) (-1) s1
         else do { bs \<leftarrow> uread s1 fp n; uwrite32 (arg + 8) (net_send dv bs) s1 }
       }
     })"

definition sys_net_recv :: "devs \<Rightarrow> nat \<Rightarrow> kstate \<Rightarrow> kstate option" where
  "sys_net_recv dv arg s =
     (if \<not> validate_user_ptr s arg 12 then Some s else do {
       let (allow, s1) = ax_mac_check AX_CLASS_NET s;
       if \<not> allow then uwrite32 (arg + 8) 0 s1 else do {
         bp \<leftarrow> uread32 s1 arg; n \<leftarrow> uread32 s1 (arg + 4);
         if \<not> net_ready dv \<or> \<not> validate_user_ptr s1 bp n then uwrite32 (arg + 8) 0 s1
         else do {
           s2 \<leftarrow> uwrite bp (net_recv dv n) s1;
           uwrite32 (arg + 8) (int (length (net_recv dv n))) s2
         }
       }
     })"

subsection \<open>Dispatch\<close>

text \<open>The table, by function number; entry 0 and the numbers beyond it have no handler.\<close>

definition syscall_table :: "devs \<Rightarrow> (nat \<Rightarrow> kstate \<Rightarrow> kstate option) option list" where
  "syscall_table dv =
     [None, Some sys_print_string, Some sys_clear_screen, Some sys_read_key, Some sys_write_file,
      Some sys_read_file, Some sys_exit, Some sys_open, Some sys_fread, Some sys_fwrite,
      Some sys_close, Some sys_exec, Some sys_task_alive, Some sys_shell_claim,
      Some sys_set_foreground, Some sys_get_ticks, Some sys_sleep, Some sys_readdir, Some sys_sbrk,
      Some sys_ps, Some sys_exec_redir, Some sys_unlink, Some sys_mkdir, Some sys_fs_lock,
      Some (sys_disk_identify dv), Some sys_disk_read_sector, Some sys_disk_write_sector,
      Some (sys_get_datetime dv), Some sys_reboot, Some (sys_get_mouse dv), Some (sys_beep dv),
      Some sys_clipboard_set, Some sys_clipboard_get, Some sys_set_level,
      Some (sys_pci_get_device dv), Some sys_seccomp, Some sys_set_priority, Some (sys_net_mac dv),
      Some (sys_net_send dv), Some (sys_net_recv dv), Some sys_get_exit_code, Some sys_kill]"

definition syscall_dispatch :: "devs \<Rightarrow> u8 \<Rightarrow> nat \<Rightarrow> kstate \<Rightarrow> kstate option" where
  "syscall_dispatch dv func arg s =
     (if task_current_is_exiting s then Some s
      else if func \<noteq> 0x23 \<and> \<not> task_syscall_allowed func s then Some (seccomp_kill func s)
      else if unat func < length (syscall_table dv)
      then (case syscall_table dv ! unat func of None \<Rightarrow> Some s | Some h \<Rightarrow> h arg s)
      else Some s)"

text \<open>\<^verbatim>\<open>syscall_handler\<close>: function number in AH, argument in ESI of the frame at \<open>r\<close>; a task that
  blocked itself is switched away from before the return.\<close>

definition syscall_handler :: "devs \<Rightarrow> nat \<Rightarrow> kstate \<Rightarrow> (nat \<times> kstate) option" where
  "syscall_handler dv r s =
     (let func = ram s (r + 1)
      in do {
        s1 \<leftarrow> (if func = 0x2A then sys_fork_impl r s
               else syscall_dispatch dv func (unat (le_word (mem_read (ram s) (r + 32) 4) :: u32)) s);
        if task_current_wants_resched s1 then schedule r s1 else Some (r, s1)
      })"

text \<open>The timer interrupt: \<^verbatim>\<open>timer_handler_main\<close> counts, then \<open>schedule\<close> decides.\<close>

definition timer_handler_main :: "kstate \<Rightarrow> kstate" where
  "timer_handler_main s = s\<lparr>kmem := (kmem s)\<lparr>heap_ticks := timer_ticks s + 1\<rparr>\<rparr>"

definition timer_interrupt :: "nat \<Rightarrow> kstate \<Rightarrow> (nat \<times> kstate) option" where
  "timer_interrupt r s = schedule r (timer_handler_main s)"

end
