(* ===== verification/TaskRing.thy ===== *)
theory TaskRing
  imports Tasking
begin

section \<open>The loops of the scheduler on a ring of tasks\<close>

text \<open>
  What the pointer loops of \<open>schedule\<close> compute when the tasks form a ring: the wake-up scan updates
  every task once, the search for the predecessor ends at the last task of the ring, and the
  choice of the next task is the first one of the ring that is not blocked. Entered on a task that
  is no longer part of the ring its own \<open>next\<close> leads to, the scan never ends.
\<close>

lemma wake_simps [simp]:
  "tnext (wake s t) = tnext t" "kernel_stack_top (wake s t) = kernel_stack_top t"
  "user_slot_index (wake s t) = user_slot_index t" "exiting (wake s t) = exiting t"
  "page_directory (wake s t) = page_directory t" "tid (wake s t) = tid t" "tname (wake s t) = tname t"
  "tticks (wake s t) = tticks t" "mls_level (wake s t) = mls_level t" "priority (wake s t) = priority t"
  "syscall_mask (wake s t) = syscall_mask t" "slice_left (wake s t) = slice_left t"
  "exit_code (wake s t) = exit_code t" "rsp (wake s t) = rsp t"
  by (simp_all add: wake_def Let_def)

lemma wake_unblocked: "\<not> blocked t \<Longrightarrow> wake s t = t"
  by (simp add: wake_def blocked_def)

lemma blocked_wake:
  "blocked (wake s t) \<longleftrightarrow>
     sleeping t \<and> unat (timer_ticks s) < wake_tick t \<or> 0 \<le> waiting_pipe t \<and> \<not> pipe_ready s (waiting_pipe t)"
  by (auto simp: wake_def blocked_def Let_def)

lemma find_pred_path:
  assumes "path tnext ts p xs d" "xs \<noteq> []" "d \<notin> set (tl xs)"
  shows "find_pred ts d p = Some (last xs)"
  using assms
proof (induction xs arbitrary: p)
  case (Cons x xs)
  then obtain t where t: "p = x" "ts x = Some t" "path tnext ts (tnext t) xs d" by auto
  show ?case
  proof (cases "xs = []")
    case True
    with t show ?thesis by (subst find_pred.simps) simp
  next
    case False
    then have "tnext t \<noteq> d" using path_hd [OF t(3)] Cons.prems(3) by (cases xs) auto
    moreover have "d \<notin> set (tl xs)" using Cons.prems(3) False by (cases xs) auto
    ultimately show ?thesis using t Cons.IH [OF t(3) False] False by (subst find_pred.simps) simp
  qed
qed simp

lemma pick_next_path:
  assumes "path tnext ts n xs imm" "xs \<noteq> []" "imm \<notin> set (tl xs)"
  shows "pick_next ts imm n =
    Some (case find (\<lambda>x. \<not> blocked (the (ts x))) xs of None \<Rightarrow> last xs | Some x \<Rightarrow> x)"
  using assms
proof (induction xs arbitrary: n)
  case (Cons x xs)
  then obtain t where t: "n = x" "ts x = Some t" "path tnext ts (tnext t) xs imm" by auto
  show ?case
  proof (cases "xs = []")
    case True
    with t show ?thesis by (subst pick_next.simps) simp
  next
    case False
    then have "tnext t \<noteq> imm" using path_hd [OF t(3)] Cons.prems(3) by (cases xs) auto
    moreover have "imm \<notin> set (tl xs)" using Cons.prems(3) False by (cases xs) auto
    ultimately show ?thesis using t Cons.IH [OF t(3) False] False
      by (subst pick_next.simps) (simp split: option.splits)
  qed
qed simp

lemma pick_next_ring:
  assumes "ring tnext ts a xs"
  shows "pick_next ts a a =
    Some (case find (\<lambda>x. \<not> blocked (the (ts x))) xs of None \<Rightarrow> last xs | Some x \<Rightarrow> x)"
proof -
  from assms have "xs \<noteq> []" "path tnext ts a xs a" "a \<notin> set (tl xs)"
    by (auto simp: ring_def neq_Nil_conv)
  then show ?thesis by (intro pick_next_path) auto
qed

text \<open>A ring can be entered at any of its nodes; the tail of the list is walked first.\<close>

lemma ring_enter:
  assumes "ring nx h a xs" "x \<in> set xs"
  obtains ys zs where "xs = ys @ x # zs" "ring nx h x (x # zs @ ys)"
  using assms ring_rotate [of nx h a] by (metis split_list)

lemma ring_next_in: "ring nx h a xs \<Longrightarrow> x \<in> set xs \<Longrightarrow> h x = Some n \<Longrightarrow> nx n \<in> set xs"
proof -
  assume r: "ring nx h a xs" and x: "x \<in> set xs" and n: "h x = Some n"
  obtain ys zs where s: "xs = ys @ x # zs" "ring nx h x (x # zs @ ys)" by (rule ring_enter [OF r x])
  from s(2) n have p: "path nx h (nx n) (zs @ ys) x" by (auto simp: ring_def)
  show ?thesis
  proof (cases "zs @ ys = []")
    case True
    then show ?thesis using p x by auto
  next
    case False
    then have "nx n \<in> set (zs @ ys)" using path_hd [OF p] list.set_sel(1) by metis
    then show ?thesis using s(1) by auto
  qed
qed

text \<open>A walk that starts outside a closed set of nodes and can only return to its start from
  outside never ends once it has entered the set.\<close>

lemma ring_update_lost_aux:
  assumes "ring_update nx f start h t = Some y"
  shows "(\<forall>n. nx (f n) = nx n) \<longrightarrow>
    (\<forall>x\<in>R. \<exists>n. h x = Some n \<and> nx n \<in> R) \<longrightarrow> t \<in> R \<longrightarrow> start \<in> R"
proof (rule ring_update.raw_induct [where P = "\<lambda>nx f start h t y. (\<forall>n. nx (f n) = nx n) \<longrightarrow>
    (\<forall>x\<in>R. \<exists>n. h x = Some n \<and> nx n \<in> R) \<longrightarrow> t \<in> R \<longrightarrow> start \<in> R", OF _ assms])
  fix ru :: "('a \<Rightarrow> nat) \<Rightarrow> ('a \<Rightarrow> 'a) \<Rightarrow> nat \<Rightarrow> (nat \<rightharpoonup> 'a) \<Rightarrow> nat \<Rightarrow> (nat \<rightharpoonup> 'a) option"
    and nx f start h t y
  assume 1: "\<And>nx f start h t y. ru nx f start h t = Some y \<Longrightarrow> (\<forall>n. nx (f n) = nx n) \<longrightarrow>
      (\<forall>x\<in>R. \<exists>n. h x = Some n \<and> nx n \<in> R) \<longrightarrow> t \<in> R \<longrightarrow> start \<in> R"
    and 2: "(case h t of None \<Rightarrow> None
      | Some n \<Rightarrow> if nx (f n) = start then Some (h(t \<mapsto> f n))
          else ru nx f start (h(t \<mapsto> f n)) (nx (f n))) = Some y"
  show "(\<forall>n. nx (f n) = nx n) \<longrightarrow> (\<forall>x\<in>R. \<exists>n. h x = Some n \<and> nx n \<in> R) \<longrightarrow> t \<in> R \<longrightarrow> start \<in> R"
  proof (intro impI)
    assume nx: "\<forall>n. nx (f n) = nx n" and cl: "\<forall>x\<in>R. \<exists>n. h x = Some n \<and> nx n \<in> R" and t: "t \<in> R"
    obtain n where n: "h t = Some n" "nx n \<in> R" using cl t by blast
    show "start \<in> R"
    proof (cases "nx (f n) = start")
      case True
      then show ?thesis using nx n by simp
    next
      case False
      then have "ru nx f start (h(t \<mapsto> f n)) (nx (f n)) = Some y" using 2 n by simp
      moreover have "\<forall>x\<in>R. \<exists>m. (h(t \<mapsto> f n)) x = Some m \<and> nx m \<in> R"
        using cl n nx by auto
      moreover have "nx (f n) \<in> R" using nx n by simp
      ultimately show ?thesis using 1 nx by blast
    qed
  qed
qed

lemma ring_update_lost:
  assumes "\<And>x. x \<in> R \<Longrightarrow> \<exists>n. h x = Some n \<and> nx n \<in> R" "\<And>n. nx (f n) = nx n" "start \<notin> R" "t \<in> R"
  shows "ring_update nx f start h t = None"
  using ring_update_lost_aux [of nx f start h t _ R] assms by (cases "ring_update nx f start h t") blast+

end
