(* ===== verification/KInv.thy ===== *)
theory KInv
  imports Syscalls TaskRing
begin

section \<open>The kernel invariant\<close>

text \<open>
  Who owns which heap block: every task its \<^verbatim>\<open>task_t\<close> and its kernel stack, a redirected slot its
  buffer, an open file descriptor its file buffer. \<open>mem_inv\<close> says that the blocks of a set of
  owners are live and pairwise different, which is what makes every \<^verbatim>\<open>free\<close> of the kernel legal.
  The invariant \<open>kinv_at\<close> adds the ring of tasks with its permanent member \<open>task0\<close>, and the state of
  slots and descriptors. The lemmas rest on the two allocator interfaces.
\<close>

datatype owner = TaskBlk nat | StackBlk nat | RedirBlk nat | FdBlk nat

fun blk :: "kstate \<Rightarrow> owner \<Rightarrow> nat" where
  "blk s (TaskBlk a) = a"
| "blk s (StackBlk a) = kernel_stack_top (the (tasks s a)) - KSTACK_SIZE"
| "blk s (RedirBlk i) = slot_redir_buf s i"
| "blk s (FdBlk i) = fbuf (fd_table s i)"

fun need :: "owner \<Rightarrow> nat" where
  "need (TaskBlk a) = SIZEOF_TASK"
| "need (StackBlk a) = KSTACK_SIZE"
| "need (RedirBlk i) = REDIR_BUF_SIZE"
| "need (FdBlk i) = MAX_FILE_BUF"

definition file_fd :: "fd_entry \<Rightarrow> bool" where
  "file_fd e \<longleftrightarrow> fvalid e \<and> ftype e = FD_TYPE_FILE"

definition task_owners :: "kstate \<Rightarrow> nat list \<Rightarrow> owner set" where
  "task_owners s xs = TaskBlk ` (set xs - {task0_at s}) \<union> StackBlk ` (set xs - {task0_at s})"

definition slot_owners :: "kstate \<Rightarrow> owner set" where
  "slot_owners s = {RedirBlk i | i. i < USER_PROGRAM_SLOTS \<and> slot_redir_buf s i \<noteq> 0}"

definition fd_owners :: "kstate \<Rightarrow> owner set" where
  "fd_owners s = {FdBlk i | i. i < MAX_FDS \<and> file_fd (fd_table s i)}"

definition mem_inv :: "kstate \<Rightarrow> owner set \<Rightarrow> bool" where
  "mem_inv s os \<longleftrightarrow>
     kh_inv (kmem s) \<and> 0x600000 \<le> heap_base (kmem s) \<and> inj_on (blk s) os \<and>
     (\<forall>b\<in>os. blk s b \<in> kh_live (kmem s) \<and> need b \<le> kh_usable (kmem s) (blk s b))"

definition slot_ok :: "kstate \<Rightarrow> nat \<Rightarrow> bool" where
  "slot_ok s i \<longleftrightarrow>
     (0 \<le> slot_redir_pipe s i \<longrightarrow> slot_redir_buf s i = 0) \<and>
     -1 \<le> slot_redir_pipe s i \<and> slot_redir_pipe s i < int PIPE_MAX \<and>
     slot_redir_len s i \<le> REDIR_BUF_SIZE"

text \<open>A free slot has no redirection.\<close>

definition free_inv :: "kstate \<Rightarrow> bool" where
  "free_inv s \<longleftrightarrow>
     (\<forall>i < USER_PROGRAM_SLOTS. slot_free s i \<longrightarrow> slot_redir_buf s i = 0 \<and> slot_redir_pipe s i = -1)"

definition fd_ok :: "fd_entry \<Rightarrow> bool" where
  "fd_ok e \<longleftrightarrow>
     (fvalid e \<longrightarrow> ftype e = FD_TYPE_FILE \<or> ftype e = FD_TYPE_PIPE) \<and>
     (fvalid e \<and> ftype e = FD_TYPE_PIPE \<longrightarrow> 0 \<le> fpipe_id e \<and> fpipe_id e < int PIPE_MAX) \<and>
     (file_fd e \<longrightarrow> fsize e \<le> MAX_FILE_BUF \<and> fpos e \<le> MAX_FILE_BUF)"

definition files_inv :: "kstate \<Rightarrow> bool" where
  "files_inv s \<longleftrightarrow>
     fs_ok (img (vol s)) \<and> (\<forall>i < USER_PROGRAM_SLOTS. slot_ok s i) \<and> (\<forall>i < MAX_FDS. fd_ok (fd_table s i))"

definition task_ok :: "kstate \<Rightarrow> task \<Rightarrow> bool" where
  "task_ok s t \<longleftrightarrow>
     -1 \<le> user_slot_index t \<and> user_slot_index t < int USER_PROGRAM_SLOTS \<and>
     (0 \<le> user_slot_index t \<longrightarrow> \<not> slot_free s (nat (user_slot_index t))) \<and>
     PRIORITY_MIN \<le> priority t \<and> priority t \<le> PRIORITY_MAX \<and> mls_level t \<le> MLS_LEVEL_MAX"

definition ring_inv :: "kstate \<Rightarrow> nat \<Rightarrow> nat list \<Rightarrow> bool" where
  "ring_inv s cur xs \<longleftrightarrow>
     ring tnext (tasks s) cur xs \<and> task0_at s \<in> set xs \<and>
     (\<forall>a\<in>set xs. task_ok s (the (tasks s a))) \<and>
     (\<forall>a\<in>set xs. \<forall>b\<in>set xs. 0 \<le> user_slot_index (the (tasks s a)) \<longrightarrow>
        user_slot_index (the (tasks s a)) = user_slot_index (the (tasks s b)) \<longrightarrow> a = b) \<and>
     (let z = the (tasks s (task0_at s)) in user_slot_index z = -1 \<and> \<not> exiting z \<and> \<not> blocked z)"

definition kinv_at :: "kstate \<Rightarrow> nat \<Rightarrow> nat list \<Rightarrow> bool" where
  "kinv_at s cur xs \<longleftrightarrow>
     ring_inv s cur xs \<and> files_inv s \<and> free_inv s \<and> paging_ok (pgt s) \<and>
     mem_inv s (task_owners s xs \<union> slot_owners s \<union> fd_owners s)"

definition kinv :: "kstate \<Rightarrow> bool" where
  "kinv s \<longleftrightarrow> current_task s \<noteq> 0 \<and> (\<exists>xs. kinv_at s (current_task s) xs)"

subsection \<open>Owned blocks\<close>

lemma mem_inv_cong:
  assumes "mem_inv s os" "kmem s' = kmem s" "\<And>b. b \<in> os \<Longrightarrow> blk s' b = blk s b"
  shows "mem_inv s' os"
  using assms unfolding mem_inv_def by (auto simp: inj_on_def)

lemma mem_inv_mono: "mem_inv s os \<Longrightarrow> os' \<subseteq> os \<Longrightarrow> mem_inv s os'"
  unfolding mem_inv_def by (meson inj_on_subset subsetD)

lemma blk_kmem [simp]: "blk (s\<lparr>kmem := h\<rparr>) = blk s"
proof
  show "blk (s\<lparr>kmem := h\<rparr>) b = blk s b" for b by (cases b) auto
qed

text \<open>Freeing an owned block succeeds and leaves the other owners theirs.\<close>

lemma k_free_owned:
  assumes inv: "mem_inv s os" and b: "b \<in> os"
  shows "\<exists>h. k_free (blk s b) s = Some (s\<lparr>kmem := h\<rparr>) \<and> mem_inv (s\<lparr>kmem := h\<rparr>) (os - {b}) \<and>
    heap_base h = heap_base (kmem s) \<and> kh_live h = kh_live (kmem s) - {blk s b} \<and>
    (\<forall>x < heap_base (kmem s). bytes h x = ram s x)"
proof -
  have k: "kh_inv (kmem s)" "blk s b \<in> kh_live (kmem s)" "inj_on (blk s) os"
    using inv b by (auto simp: mem_inv_def)
  from kh.dealloc_live [OF k(1,2)] obtain h where
    h: "kfree (blk s b) (kmem s) = Some (Inr h)" "kh_inv h" "kh_live h = kh_live (kmem s) - {blk s b}"
    by blast
  have low: "heap_base h = heap_base (kmem s)" "\<forall>x < heap_base (kmem s). bytes h x = bytes (kmem s) x"
    using ks.low_dealloc [OF k(1,2) h(1)] by auto
  have "blk s c \<in> kh_live h \<and> need c \<le> kh_usable h (blk s c)" if "c \<in> os - {b}" for c
  proof -
    have "blk s c \<noteq> blk s b" using that b k(3) by (auto simp: inj_on_def)
    moreover have "blk s c \<in> kh_live (kmem s)" "need c \<le> kh_usable (kmem s) (blk s c)"
      using that inv by (auto simp: mem_inv_def)
    ultimately show ?thesis using h(3) ks.dealloc_frame [OF k(1,2) h(1), of "blk s c"] by auto
  qed
  then have "mem_inv (s\<lparr>kmem := h\<rparr>) (os - {b})"
    using h(2) low(1) k(3) inv by (auto simp: mem_inv_def inj_on_diff)
  then show ?thesis using h low by (auto simp: k_free_def)
qed

text \<open>An allocation succeeds or returns null, and takes no block away.\<close>

lemma k_malloc_owned:
  assumes inv: "mem_inv s os" and n: "n \<le> 4294967264"
  shows "\<exists>p h. k_malloc n s = Some (p, s\<lparr>kmem := h\<rparr>) \<and> mem_inv (s\<lparr>kmem := h\<rparr>) os \<and>
    (p = 0 \<longrightarrow> h = kmem s) \<and>
    (p \<noteq> 0 \<longrightarrow> p \<notin> blk s ` os \<and> p \<in> kh_live h \<and> n \<le> kh_usable h p) \<and>
    kh_live (kmem s) \<subseteq> kh_live h \<and>
    heap_base h = heap_base (kmem s) \<and> heap_ticks h = heap_ticks (kmem s) \<and>
    (\<forall>x < heap_base (kmem s). bytes h x = ram s x)"
proof -
  have k: "kh_inv (kmem s)" using inv by (auto simp: mem_inv_def)
  from kh.alloc_returns [OF k n] obtain p h where a: "kmalloc n (kmem s) = Some (p, h)" by blast
  have i: "kh_inv h" by (rule kh.alloc_inv [OF k n a])
  have low: "heap_base h = heap_base (kmem s)" "\<forall>x < heap_base (kmem s). bytes h x = bytes (kmem s) x"
    using ks.low_alloc [OF k n a] by auto
  have mono: "kh_live (kmem s) \<subseteq> kh_live h" by (rule kh.live_mono [OF k n a])
  obtain bs where "heap_inv (kmem s) bs" using k by (auto simp: kh_inv_def)
  then have tick: "heap_ticks h = heap_ticks (kmem s)" using kmalloc_low [OF heap_inv_lay a] by simp
  have "blk s c \<in> kh_live h \<and> need c \<le> kh_usable h (blk s c)" if "c \<in> os" for c
    using that inv mono ks.alloc_frame [OF k n a, of "blk s c"] by (auto simp: mem_inv_def)
  then have m: "mem_inv (s\<lparr>kmem := h\<rparr>) os"
    using i low(1) inv by (auto simp: mem_inv_def)
  have z: "p = 0 \<longrightarrow> h = kmem s" using kh.alloc_null [OF k n, of h] a by auto
  have "p \<noteq> 0 \<longrightarrow> p \<notin> blk s ` os \<and> p \<in> kh_live h \<and> n \<le> kh_usable h p"
  proof
    assume p: "p \<noteq> 0"
    have f: "p \<notin> kh_live (kmem s)" "kh_live h = insert p (kh_live (kmem s))"
      using kh.alloc_fresh [OF k n a p] by auto
    moreover have "p \<notin> blk s ` os" using inv f(1) by (auto simp: mem_inv_def)
    moreover have "n \<le> kh_usable h p" by (rule ks.alloc_usable [OF k n a p])
    ultimately show "p \<notin> blk s ` os \<and> p \<in> kh_live h \<and> n \<le> kh_usable h p" by auto
  qed
  then show ?thesis using a m z mono low tick by (auto simp: k_malloc_def)
qed

text \<open>A new owner of a fresh block.\<close>

lemma mem_inv_insert:
  assumes "mem_inv s os" "blk s b \<notin> blk s ` os" "blk s b \<in> kh_live (kmem s)"
    "need b \<le> kh_usable (kmem s) (blk s b)"
  shows "mem_inv s (insert b os)"
  using assms unfolding mem_inv_def by (auto simp: inj_on_insert)

text \<open>Stores into an owned block or below the arena.\<close>

lemma blk_poke [simp]: "blk (poke a bs s) = blk s"
  by (simp add: poke_def)

lemma poke_owned:
  assumes "mem_inv s os" "b \<in> os" "off + length bs \<le> need b"
  shows "mem_inv (poke (blk s b + off) bs s) os"
proof -
  have k: "kh_inv (kmem s)" "blk s b \<in> kh_live (kmem s)" "off + length bs \<le> kh_usable (kmem s) (blk s b)"
    using assms by (auto simp: mem_inv_def)
  from ks.store_inside [OF k] show ?thesis using assms(1)
    by (auto simp: mem_inv_def poke_def)
qed

lemma poke_low:
  assumes "mem_inv s os" "a + length bs \<le> 0x600000"
  shows "mem_inv (poke a bs s) os"
proof -
  have k: "kh_inv (kmem s)" "a + length bs \<le> heap_base (kmem s)"
    using assms by (auto simp: mem_inv_def)
  from ks.store_below [OF k] show ?thesis using assms(1)
    by (auto simp: mem_inv_def poke_def)
qed

text \<open>Files are written without touching the heap.\<close>

lemma k_vfs_write_ok:
  assumes "fs_ok (img (vol s))" "length data \<le> 4096"
  shows "\<exists>r v. k_vfs_write f data s = Some (r, s\<lparr>vol := v\<rparr>) \<and> fs_ok (img v) \<and> (r = 0 \<or> r = 1)"
proof -
  have "unat (img (vol s) 13) \<le> 255" using unat_byte [of "img (vol s) 13"] by simp
  then have "cluster_bytes (img (vol s)) \<le> 255 * 512"
    using assms(1) by (simp add: cluster_bytes_def fs_ok_def sectors_per_cluster_def)
  then have "length data + cluster_bytes (img (vol s)) \<le> 4294967296" using assms(2) by simp
  from fat12_write_total [OF assms(1) this, of f] show ?thesis
    by (auto simp: k_vfs_write_def vfs_write_def)
qed

end
