(* ===== verification/KSched.thy ===== *)
theory KSched
  imports KInv
begin

section \<open>The scheduler keeps the kernel invariant\<close>

text \<open>
  The end of a task (\<^verbatim>\<open>on_task_exit\<close> and the reaping in \<^verbatim>\<open>schedule\<close>) and the whole of \<^verbatim>\<open>schedule\<close>: every
  step returns and keeps the invariant, so no block is freed twice and no task structure is used
  after it was freed.
\<close>

text \<open>What the end of a task leaves alone.\<close>

definition exit_frame :: "kstate \<Rightarrow> kstate \<Rightarrow> bool" where
  "exit_frame s s' \<longleftrightarrow>
     tasks s' = tasks s \<and> current_task s' = current_task s \<and> task0_at s' = task0_at s \<and>
     pgt s' = pgt s \<and> cr3 s' = cr3 s \<and> tss_rsp0 s' = tss_rsp0 s \<and>
     heap_base (kmem s') = heap_base (kmem s) \<and>
     (\<forall>x < heap_base (kmem s). ram s' x = ram s x)"

lemma exit_frame_refl [simp]: "exit_frame s s"
  by (simp add: exit_frame_def)

lemma exit_frame_trans: "exit_frame s t \<Longrightarrow> exit_frame t u \<Longrightarrow> exit_frame s u"
  by (simp add: exit_frame_def)

text \<open>The owners apart from the tasks, which the end of a task does not touch.\<close>

definition clean :: "owner set \<Rightarrow> kstate \<Rightarrow> bool" where
  "clean T s \<longleftrightarrow>
     T \<subseteq> range TaskBlk \<union> range StackBlk \<and> files_inv s \<and> mem_inv s (T \<union> slot_owners s \<union> fd_owners s)"

definition slots_same :: "kstate \<Rightarrow> kstate \<Rightarrow> bool" where
  "slots_same s s' \<longleftrightarrow>
     slot_free s' = slot_free s \<and> slot_redir_buf s' = slot_redir_buf s \<and>
     slot_redir_pipe s' = slot_redir_pipe s \<and> slot_redir_len s' = slot_redir_len s \<and>
     slot_exit_code s' = slot_exit_code s \<and> slot_redir_pipe_is_own s' = slot_redir_pipe_is_own s \<and>
     slot_redir_file s' = slot_redir_file s"

lemma slots_same_trans: "slots_same s t \<Longrightarrow> slots_same t u \<Longrightarrow> slots_same s u"
  by (simp add: slots_same_def)

lemma clean_cong:
  assumes c: "clean T s"
    and "kmem s' = kmem s" "tasks s' = tasks s" "slot_redir_buf s' = slot_redir_buf s"
    and "\<And>i. i < MAX_FDS \<Longrightarrow> file_fd (fd_table s' i) \<Longrightarrow> file_fd (fd_table s i) \<and> fbuf (fd_table s' i) = fbuf (fd_table s i)"
    and "files_inv s'"
  shows "clean T s'"
proof -
  have "slot_owners s' = slot_owners s" "fd_owners s' \<subseteq> fd_owners s"
    using assms by (auto simp: slot_owners_def fd_owners_def)
  then have "mem_inv s (T \<union> slot_owners s' \<union> fd_owners s')"
    using c unfolding clean_def by (blast intro: mem_inv_mono)
  then have "mem_inv s' (T \<union> slot_owners s' \<union> fd_owners s')"
  proof (rule mem_inv_cong)
    show "kmem s' = kmem s" by fact
    show "blk s' b = blk s b" if "b \<in> T \<union> slot_owners s' \<union> fd_owners s'" for b
      using that assms c by (cases b) (auto simp: slot_owners_def fd_owners_def clean_def)
  qed
  then show ?thesis using c assms by (simp add: clean_def)
qed

text \<open>Writing a file out and freeing its buffer.\<close>

lemma flush_free:
  assumes c: "mem_inv s os" "fs_ok (img (vol s))" and b: "b \<in> os" and n: "n \<le> 4096"
  shows "\<exists>r h v. k_vfs_write f (mem_read (ram s) (blk s b) n) s = Some (r, s\<lparr>vol := v\<rparr>) \<and>
    k_free (blk s b) (s\<lparr>vol := v\<rparr>) = Some (s\<lparr>vol := v, kmem := h\<rparr>) \<and>
    fs_ok (img v) \<and> mem_inv (s\<lparr>vol := v, kmem := h\<rparr>) (os - {b}) \<and> heap_base h = heap_base (kmem s) \<and>
    (\<forall>x < heap_base (kmem s). bytes h x = ram s x)"
proof -
  obtain r v where v: "k_vfs_write f (mem_read (ram s) (blk s b) n) s = Some (r, s\<lparr>vol := v\<rparr>)" "fs_ok (img v)"
    using k_vfs_write_ok [OF c(2), of "mem_read (ram s) (blk s b) n" f] n by auto
  have B: "blk (s\<lparr>vol := v\<rparr>) x = blk s x" for x by (cases x) auto
  have "mem_inv (s\<lparr>vol := v\<rparr>) os" by (rule mem_inv_cong [OF c(1)]) (simp_all add: B)
  from k_free_owned [OF this b] obtain h where
    "k_free (blk s b) (s\<lparr>vol := v\<rparr>) = Some (s\<lparr>vol := v, kmem := h\<rparr>)"
    "mem_inv (s\<lparr>vol := v, kmem := h\<rparr>) (os - {b})" "heap_base h = heap_base (kmem s)"
    "\<forall>x < heap_base (kmem s). bytes h x = ram s x"
    by (auto simp: B)
  then show ?thesis using v by blast
qed

lemma file_fd_close_ok:
  assumes c: "clean T s" and fd: "fd < MAX_FDS" "file_fd (fd_table s fd)"
  shows "\<exists>s'. file_fd_close fd s = Some s' \<and> clean T s' \<and> exit_frame s s' \<and> slots_same s s' \<and>
    pipe_bufs s' = pipe_bufs s \<and>
    fd_table s' = (fd_table s)(fd := (fd_table s fd)\<lparr>fbuf := 0, fvalid := False\<rparr>)"
proof -
  let ?os = "T \<union> slot_owners s \<union> fd_owners s" and ?e = "fd_table s fd"
  have b: "FdBlk fd \<in> ?os" using fd by (simp add: fd_owners_def)
  have m: "mem_inv s ?os" "fs_ok (img (vol s))" "fsize ?e \<le> 4096" "FdBlk fd \<notin> T" "fd_ok ?e"
    using c fd by (auto simp: clean_def files_inv_def fd_ok_def)
  obtain h v where hv: "file_fd_close fd s =
      Some (fd_update fd (\<lambda>e. e\<lparr>fbuf := 0, fvalid := False\<rparr>) (s\<lparr>vol := v, kmem := h\<rparr>))"
    "fs_ok (img v)" "mem_inv (s\<lparr>vol := v, kmem := h\<rparr>) (?os - {FdBlk fd})"
    "heap_base h = heap_base (kmem s)" "\<forall>x < heap_base (kmem s). bytes h x = ram s x"
  proof (cases "fflags ?e \<noteq> O_RDONLY \<and> 0 < fsize ?e")
    case True
    obtain r h v where "k_vfs_write (fname ?e) (mem_read (ram s) (blk s (FdBlk fd)) (fsize ?e)) s = Some (r, s\<lparr>vol := v\<rparr>)"
      "k_free (blk s (FdBlk fd)) (s\<lparr>vol := v\<rparr>) = Some (s\<lparr>vol := v, kmem := h\<rparr>)"
      "fs_ok (img v)" "mem_inv (s\<lparr>vol := v, kmem := h\<rparr>) (?os - {FdBlk fd})"
      "heap_base h = heap_base (kmem s)" "\<forall>x < heap_base (kmem s). bytes h x = ram s x"
      using flush_free [OF m(1,2) b m(3)] by blast
    then show thesis using that [of h v] True by (simp add: file_fd_close_def Let_def)
  next
    case False
    obtain h where "k_free (blk s (FdBlk fd)) s = Some (s\<lparr>kmem := h\<rparr>)"
      "mem_inv (s\<lparr>kmem := h\<rparr>) (?os - {FdBlk fd})" "heap_base h = heap_base (kmem s)"
      "\<forall>x < heap_base (kmem s). bytes h x = ram s x"
      using k_free_owned [OF m(1) b] by blast
    then show thesis using that [of h "vol s"] False m(2) by (auto simp: file_fd_close_def Let_def)
  qed
  let ?s = "fd_update fd (\<lambda>e. e\<lparr>fbuf := 0, fvalid := False\<rparr>) (s\<lparr>vol := v, kmem := h\<rparr>)"
  have o: "slot_owners ?s = slot_owners s" "fd_owners ?s = fd_owners s - {FdBlk fd}"
    by (auto simp: slot_owners_def fd_owners_def fd_update_def file_fd_def)
  have "T \<union> slot_owners s \<union> (fd_owners s - {FdBlk fd}) = ?os - {FdBlk fd}"
    using m(4) by (auto simp: slot_owners_def)
  then have "mem_inv ?s (T \<union> slot_owners ?s \<union> fd_owners ?s)"
    unfolding o
  proof (intro mem_inv_cong [OF hv(3) [folded \<open>T \<union> slot_owners s \<union> (fd_owners s - {FdBlk fd}) = ?os - {FdBlk fd}\<close>]])
    show "kmem ?s = kmem (s\<lparr>vol := v, kmem := h\<rparr>)" by (simp add: fd_update_def)
    show "blk ?s b = blk (s\<lparr>vol := v, kmem := h\<rparr>) b" if "b \<in> T \<union> slot_owners s \<union> (fd_owners s - {FdBlk fd})" for b
      using that m(4) by (cases b) (auto simp: fd_update_def slot_owners_def)
  qed
  moreover have "files_inv ?s"
    using c hv(2) by (auto simp: clean_def files_inv_def slot_ok_def fd_update_def fd_ok_def file_fd_def)
  ultimately have "clean T ?s" using c by (simp add: clean_def)
  then show ?thesis using hv
    by (intro exI [of _ ?s]) (simp add: exit_frame_def slots_same_def fd_update_def)
qed

lemma pipe_fd_close_ok:
  assumes c: "clean T s"
  shows "clean T (pipe_fd_close fd s)" "exit_frame s (pipe_fd_close fd s)" "slots_same s (pipe_fd_close fd s)"
    "fd_table (pipe_fd_close fd s) = (fd_table s)(fd := (fd_table s fd)\<lparr>fvalid := False\<rparr>)"
proof -
  show "fd_table (pipe_fd_close fd s) = (fd_table s)(fd := (fd_table s fd)\<lparr>fvalid := False\<rparr>)"
    by (simp add: pipe_fd_close_def fd_update_def pipe_update_def)
  have fi: "files_inv (pipe_fd_close fd s)"
    using c by (auto simp: clean_def files_inv_def pipe_fd_close_def fd_update_def pipe_update_def
        slot_ok_def fd_ok_def file_fd_def)
  show "clean T (pipe_fd_close fd s)"
    by (rule clean_cong [OF c _ _ _ _ fi])
      (auto simp: pipe_fd_close_def fd_update_def pipe_update_def file_fd_def split: if_splits)
qed (simp_all add: exit_frame_def slots_same_def pipe_fd_close_def fd_update_def pipe_update_def)

lemma fd_release_one_ok:
  assumes c: "clean T s" and fd: "fd < MAX_FDS"
  shows "\<exists>s'. fd_release_one owner fd s = Some s' \<and> clean T s' \<and> exit_frame s s' \<and> slots_same s s' \<and>
    (\<forall>j. fd_table s' j = fd_table s j \<or> \<not> fvalid (fd_table s' j)) \<and>
    \<not> (fvalid (fd_table s' fd) \<and> fowner (fd_table s' fd) = owner)"
proof -
  let ?e = "fd_table s fd"
  consider "\<not> fvalid ?e \<or> fowner ?e \<noteq> owner"
    | "fvalid ?e" "fowner ?e = owner" "ftype ?e = FD_TYPE_PIPE"
    | "fvalid ?e" "fowner ?e = owner" "ftype ?e \<noteq> FD_TYPE_PIPE" by blast
  then show ?thesis
  proof cases
    case 1
    then show ?thesis using c by (auto simp: fd_release_one_def slots_same_def)
  next
    case 2
    then have "fd_release_one owner fd s = Some (pipe_fd_close fd s)" by (simp add: fd_release_one_def)
    then show ?thesis using pipe_fd_close_ok [OF c, of fd] by simp
  next
    case 3
    then have "file_fd ?e" using c fd by (auto simp: clean_def files_inv_def fd_ok_def file_fd_def)
    moreover have "fd_release_one owner fd s = file_fd_close fd s" using 3 by (simp add: fd_release_one_def)
    ultimately show ?thesis using file_fd_close_ok [OF c fd] by auto
  qed
qed

lemma fd_release_fold:
  assumes "clean T s" "\<forall>fd\<in>set fds. fd < MAX_FDS"
  shows "\<exists>s'. fold (\<lambda>fd r. case r of None \<Rightarrow> None | Some s \<Rightarrow> fd_release_one owner fd s) fds (Some s) = Some s' \<and>
    clean T s' \<and> exit_frame s s' \<and> slots_same s s' \<and>
    (\<forall>j. fd_table s' j = fd_table s j \<or> \<not> fvalid (fd_table s' j)) \<and>
    (\<forall>fd\<in>set fds. \<not> (fvalid (fd_table s' fd) \<and> fowner (fd_table s' fd) = owner))"
  using assms
proof (induction fds arbitrary: s)
  case Nil
  then show ?case by (simp add: slots_same_def)
next
  case (Cons fd fds)
  then obtain s1 where s1: "fd_release_one owner fd s = Some s1" "clean T s1" "exit_frame s s1" "slots_same s s1"
    "\<forall>j. fd_table s1 j = fd_table s j \<or> \<not> fvalid (fd_table s1 j)"
    "\<not> (fvalid (fd_table s1 fd) \<and> fowner (fd_table s1 fd) = owner)"
    using fd_release_one_ok [of T s fd owner] by auto
  have "\<forall>fd\<in>set fds. fd < MAX_FDS" using Cons.prems by simp
  from Cons.IH [OF s1(2) this] obtain s' where
    s': "fold (\<lambda>fd r. case r of None \<Rightarrow> None | Some s \<Rightarrow> fd_release_one owner fd s) fds (Some s1) = Some s'"
    "clean T s'" "exit_frame s1 s'" "slots_same s1 s'"
    "\<forall>j. fd_table s' j = fd_table s1 j \<or> \<not> fvalid (fd_table s' j)"
    "\<forall>fd\<in>set fds. \<not> (fvalid (fd_table s' fd) \<and> fowner (fd_table s' fd) = owner)" by blast
  have "fd_table s' j = fd_table s j \<or> \<not> fvalid (fd_table s' j)" for j
    using s1(5) s'(5) by (metis (no_types))
  moreover have "\<not> (fvalid (fd_table s' fd) \<and> fowner (fd_table s' fd) = owner)"
    using s1(6) s'(5) by (metis (no_types))
  ultimately show ?case using s1 s' exit_frame_trans slots_same_trans by auto
qed

text \<open>The redirection of the dying task is flushed or its pipe marked as ended.\<close>

lemma end_redirect_ok:
  assumes c: "clean T s" and i: "i < USER_PROGRAM_SLOTS"
  shows "\<exists>s'. end_redirect i s = Some s' \<and> clean T s' \<and> exit_frame s s' \<and> slot_free s' = slot_free s \<and>
    slot_redir_buf s' i = 0 \<and> slot_redir_pipe s' i = -1 \<and> slot_exit_code s' = slot_exit_code s \<and>
    (\<forall>j. j \<noteq> i \<longrightarrow> slot_redir_buf s' j = slot_redir_buf s j \<and> slot_redir_pipe s' j = slot_redir_pipe s j) \<and>
    fd_table s' = fd_table s"
proof -
  have ok: "slot_ok s i" using c i by (simp add: clean_def files_inv_def)
  consider "0 \<le> slot_redir_pipe s i" | "slot_redir_pipe s i = -1" "slot_redir_buf s i \<noteq> 0"
    | "slot_redir_pipe s i = -1" "slot_redir_buf s i = 0"
    using ok by (fastforce simp: slot_ok_def)
  then show ?thesis
  proof cases
    case 1
    let ?s1 = "if slot_redir_pipe_is_own s i
               then pipe_update (nat (slot_redir_pipe s i)) (\<lambda>p. p\<lparr>writer_done := True\<rparr>) s else s"
    let ?s = "?s1\<lparr>slot_redir_pipe := (slot_redir_pipe ?s1)(i := -1),
                  slot_redir_pipe_is_own := (slot_redir_pipe_is_own ?s1)(i := False)\<rparr>"
    have r: "end_redirect i s = Some ?s" using 1 by (simp add: end_redirect_def Let_def)
    have f: "files_inv ?s"
      using c ok 1 by (auto simp: clean_def files_inv_def slot_ok_def pipe_update_def)
    have "clean T ?s"
      by (rule clean_cong [OF c _ _ _ _ f]) (auto simp: pipe_update_def split: if_splits)
    then show ?thesis using r 1 ok
      by (intro exI [of _ ?s]) (auto simp: exit_frame_def pipe_update_def slot_ok_def)
  next
    case 2
    let ?os = "T \<union> slot_owners s \<union> fd_owners s"
    have b: "RedirBlk i \<in> ?os" using 2 i by (simp add: slot_owners_def)
    have m: "mem_inv s ?os" "fs_ok (img (vol s))" "RedirBlk i \<notin> T" "slot_redir_len s i \<le> 4096"
      using c ok by (auto simp: clean_def files_inv_def slot_ok_def)
    obtain r h v where hv:
      "k_vfs_write (slot_redir_file s i) (mem_read (ram s) (blk s (RedirBlk i)) (slot_redir_len s i)) s = Some (r, s\<lparr>vol := v\<rparr>)"
      "k_free (blk s (RedirBlk i)) (s\<lparr>vol := v\<rparr>) = Some (s\<lparr>vol := v, kmem := h\<rparr>)"
      "fs_ok (img v)" "mem_inv (s\<lparr>vol := v, kmem := h\<rparr>) (?os - {RedirBlk i})"
      "heap_base h = heap_base (kmem s)" "\<forall>x < heap_base (kmem s). bytes h x = ram s x"
      using flush_free [OF m(1,2) b m(4)] by blast
    let ?s = "s\<lparr>vol := v, kmem := h, slot_redir_buf := (slot_redir_buf s)(i := 0),
                slot_redir_len := (slot_redir_len s)(i := 0)\<rparr>"
    have r: "end_redirect i s = Some ?s" using 2 hv(1,2) by (simp add: end_redirect_def)
    have o: "slot_owners ?s = slot_owners s - {RedirBlk i}" "fd_owners ?s = fd_owners s"
      by (auto simp: slot_owners_def fd_owners_def)
    have "T \<union> (slot_owners s - {RedirBlk i}) \<union> fd_owners s \<subseteq> ?os - {RedirBlk i}"
      using m(3) by (auto simp: fd_owners_def)
    from mem_inv_mono [OF hv(4) this] have "mem_inv ?s (T \<union> slot_owners ?s \<union> fd_owners ?s)"
      unfolding o
    proof (rule mem_inv_cong)
      show "kmem ?s = kmem (s\<lparr>vol := v, kmem := h\<rparr>)" by simp
      show "blk ?s b = blk (s\<lparr>vol := v, kmem := h\<rparr>) b" if "b \<in> T \<union> (slot_owners s - {RedirBlk i}) \<union> fd_owners s" for b
        using that m(3) by (cases b) (auto simp: fd_owners_def)
    qed
    moreover have "files_inv ?s" using c hv(3) by (auto simp: clean_def files_inv_def slot_ok_def)
    ultimately have "clean T ?s" using c by (simp add: clean_def)
    then show ?thesis using r hv 2 by (intro exI [of _ ?s]) (auto simp: exit_frame_def)
  next
    case 3
    then show ?thesis using c by (auto simp: end_redirect_def intro!: exI [of _ s])
  qed
qed

text \<open>The whole of \<open>on_task_exit\<close>: the slot is free, without redirection and without descriptors.\<close>

lemma on_task_exit_ok:
  assumes c: "clean T s" and i: "i < USER_PROGRAM_SLOTS"
  shows "\<exists>s'. on_task_exit i code s = Some s' \<and> clean T s' \<and> exit_frame s s' \<and>
    slot_free s' = (slot_free s)(i := True) \<and> slot_exit_code s' = (slot_exit_code s)(i := code) \<and>
    slot_redir_buf s' i = 0 \<and> slot_redir_pipe s' i = -1 \<and>
    (\<forall>j. j \<noteq> i \<longrightarrow> slot_redir_buf s' j = slot_redir_buf s j \<and> slot_redir_pipe s' j = slot_redir_pipe s j) \<and>
    (\<forall>fd < MAX_FDS. \<not> (fvalid (fd_table s' fd) \<and> fowner (fd_table s' fd) = int i))"
proof -
  let ?s1 = "s\<lparr>slot_free := (slot_free s)(i := True), slot_exit_code := (slot_exit_code s)(i := code),
              slot_heap_brk := (slot_heap_brk s)(i := 0)\<rparr>"
  have f: "files_inv ?s1" using c by (auto simp: clean_def files_inv_def slot_ok_def)
  have c1: "clean T ?s1" by (rule clean_cong [OF c _ _ _ _ f]) auto
  have "\<forall>fd\<in>set [0..<MAX_FDS]. fd < MAX_FDS" by simp
  from fd_release_fold [OF c1 this, of "int i"] obtain s2 where
    s2: "fd_release_owner (int i) ?s1 = Some s2" "clean T s2" "exit_frame ?s1 s2" "slots_same ?s1 s2"
    "\<forall>fd\<in>set [0..<MAX_FDS]. \<not> (fvalid (fd_table s2 fd) \<and> fowner (fd_table s2 fd) = int i)"
    unfolding fd_release_owner_def by blast
  obtain s3 where s3: "end_redirect i s2 = Some s3" "clean T s3" "exit_frame s2 s3"
    "slot_free s3 = slot_free s2" "slot_redir_buf s3 i = 0" "slot_redir_pipe s3 i = -1"
    "slot_exit_code s3 = slot_exit_code s2"
    "\<forall>j. j \<noteq> i \<longrightarrow> slot_redir_buf s3 j = slot_redir_buf s2 j \<and> slot_redir_pipe s3 j = slot_redir_pipe s2 j"
    "fd_table s3 = fd_table s2"
    using end_redirect_ok [OF s2(2) i] by blast
  have "on_task_exit i code s = Some s3" using s2(1) s3(1) by (simp add: on_task_exit_def Let_def)
  moreover have "exit_frame s ?s1" by (simp add: exit_frame_def)
  then have "exit_frame s s3" using s2(3) s3(3) exit_frame_trans by blast
  ultimately show ?thesis using s2(4,5) s3 by (intro exI [of _ s3]) (simp add: slots_same_def)
qed

subsection \<open>Reaping\<close>

lemma mem_clean:
  assumes "kinv_at s cur xs"
  shows "clean (task_owners s xs) s"
  using assms by (auto simp: kinv_at_def clean_def task_owners_def)

lemma kinv_at_ring:
  assumes "kinv_at s cur xs" "a \<in> set xs"
  obtains t where "tasks s a = Some t" "a \<noteq> 0" "task_ok s t" "tnext t \<in> set xs"
proof -
  have r: "ring tnext (tasks s) cur xs" using assms(1) by (simp add: kinv_at_def ring_inv_def)
  obtain t where t: "tasks s a = Some t" "a \<noteq> 0" using ring_mapped [OF r assms(2)] by blast
  moreover have "task_ok s t" using assms t by (auto simp: kinv_at_def ring_inv_def)
  moreover have "tnext t \<in> set xs" by (rule ring_next_in [OF r assms(2) t(1)])
  ultimately show thesis by (rule that)
qed

text \<open>Tasks may be updated as long as ring, stacks and slots stay.\<close>

definition task_like :: "task \<Rightarrow> task \<Rightarrow> bool" where
  "task_like t t' \<longleftrightarrow>
     tnext t' = tnext t \<and> kernel_stack_top t' = kernel_stack_top t \<and>
     user_slot_index t' = user_slot_index t \<and>
     PRIORITY_MIN \<le> priority t' \<and> priority t' \<le> PRIORITY_MAX \<and> mls_level t' \<le> MLS_LEVEL_MAX"

lemma kinv_at_tasks:
  assumes k: "kinv_at s cur xs"
    and ts: "\<And>x. x \<in> set xs \<Longrightarrow> \<exists>t'. ts x = Some t' \<and> task_like (the (tasks s x)) t'"
    and z: "\<not> exiting (the (ts (task0_at s)))" "\<not> blocked (the (ts (task0_at s)))"
  shows "kinv_at (s\<lparr>tasks := ts\<rparr>) cur xs"
proof -
  have r: "ring_inv s cur xs" using k by (simp add: kinv_at_def)
  then have ring: "ring tnext (tasks s) cur xs" by (simp add: ring_inv_def)
  have like: "task_like (the (tasks s x)) (the (ts x))" if "x \<in> set xs" for x
    using ts [OF that] by auto
  have "map_option tnext (ts x) = map_option tnext (tasks s x)" if "x \<in> set xs" for x
    using ts [OF that] ring_mapped [OF ring that] by (auto simp: task_like_def)
  then have "ring tnext ts cur xs" using ring_cong [of xs tnext ts "tasks s" cur] ring by blast
  moreover have "task_ok (s\<lparr>tasks := ts\<rparr>) (the (ts x))" if "x \<in> set xs" for x
    using r like [OF that] that by (auto simp: ring_inv_def task_ok_def task_like_def)
  moreover have slot: "user_slot_index (the (ts x)) = user_slot_index (the (tasks s x))" if "x \<in> set xs" for x
    using like [OF that] by (simp add: task_like_def)
  moreover have "task0_at s \<in> set xs" using r by (simp add: ring_inv_def)
  ultimately have "ring_inv (s\<lparr>tasks := ts\<rparr>) cur xs"
    using r z unfolding ring_inv_def by (simp add: Let_def)
  moreover have "files_inv (s\<lparr>tasks := ts\<rparr>)" "free_inv (s\<lparr>tasks := ts\<rparr>)"
    using k by (auto simp: kinv_at_def files_inv_def free_inv_def slot_ok_def)
  moreover have "mem_inv (s\<lparr>tasks := ts\<rparr>) (task_owners (s\<lparr>tasks := ts\<rparr>) xs \<union>
      slot_owners (s\<lparr>tasks := ts\<rparr>) \<union> fd_owners (s\<lparr>tasks := ts\<rparr>))"
  proof (rule mem_inv_cong)
    show "mem_inv s (task_owners (s\<lparr>tasks := ts\<rparr>) xs \<union> slot_owners (s\<lparr>tasks := ts\<rparr>) \<union> fd_owners (s\<lparr>tasks := ts\<rparr>))"
      using k by (simp add: kinv_at_def task_owners_def slot_owners_def fd_owners_def)
    show "blk (s\<lparr>tasks := ts\<rparr>) b = blk s b"
      if "b \<in> task_owners (s\<lparr>tasks := ts\<rparr>) xs \<union> slot_owners (s\<lparr>tasks := ts\<rparr>) \<union> fd_owners (s\<lparr>tasks := ts\<rparr>)" for b
      using that like by (cases b) (auto simp: task_owners_def task_like_def slot_owners_def fd_owners_def)
  qed simp
  ultimately show ?thesis using k by (simp add: kinv_at_def)
qed

lemma relinked:
  "t' = t\<lparr>tnext := n\<rparr> \<Longrightarrow> user_slot_index t' = user_slot_index t \<and> exiting t' = exiting t \<and>
    blocked t' = blocked t \<and> priority t' = priority t \<and> mls_level t' = mls_level t"
  by (simp add: blocked_def)

text \<open>The dying task leaves the ring, its slot, its descriptors and its two blocks.\<close>

lemma reap_ok:
  assumes k: "kinv_at s a xs" and d: "tasks s a = Some d" "exiting d"
  shows "\<exists>s'. reap a d s = Some s' \<and> kinv_at s' (tnext d) (tl xs) \<and> a \<notin> set (tl xs) \<and> tl xs \<noteq> [] \<and>
    cr3 s' = cr3 s \<and> task0_at s' = task0_at s \<and> tasks s' a = None \<and>
    (\<forall>x \<in> set (tl xs). \<exists>t. tasks s x = Some t \<and> (\<exists>n. tasks s' x = Some (t\<lparr>tnext := n\<rparr>))) \<and>
    (0 \<le> user_slot_index d \<longrightarrow> slot_free s' (nat (user_slot_index d)) \<and>
       slot_exit_code s' (nat (user_slot_index d)) = exit_code d \<and>
       (\<forall>fd < MAX_FDS. \<not> (fvalid (fd_table s' fd) \<and> fowner (fd_table s' fd) = user_slot_index d)))"
proof -
  have r: "ring_inv s a xs" and fi: "files_inv s" "free_inv s" "paging_ok (pgt s)"
    and mi: "mem_inv s (task_owners s xs \<union> slot_owners s \<union> fd_owners s)"
    using k by (auto simp: kinv_at_def)
  from r have ring: "ring tnext (tasks s) a xs" and t0: "task0_at s \<in> set xs"
    and tok: "\<And>x. x \<in> set xs \<Longrightarrow> task_ok s (the (tasks s x))"
    and uniq: "\<And>x y. x \<in> set xs \<Longrightarrow> y \<in> set xs \<Longrightarrow> 0 \<le> user_slot_index (the (tasks s x)) \<Longrightarrow>
        user_slot_index (the (tasks s x)) = user_slot_index (the (tasks s y)) \<Longrightarrow> x = y"
    and z: "user_slot_index (the (tasks s (task0_at s))) = -1" "\<not> exiting (the (tasks s (task0_at s)))"
      "\<not> blocked (the (tasks s (task0_at s)))"
    unfolding ring_inv_def Let_def by blast+
  have at0: "a \<noteq> task0_at s" using d z(2) by auto
  have hd: "hd xs = a" "xs \<noteq> []" using ring_hd [OF ring] ring by (auto simp: ring_def)
  then obtain ys0 where xs0: "xs = a # ys0" by (cases xs) auto
  have "ys0 \<noteq> []" using t0 at0 xs0 by auto
  then obtain ys p where xs: "xs = a # ys @ [p]" using xs0 by (metis append_butlast_last_id)
  have dist: "distinct xs" using ring by (simp add: ring_def)
  have ap: "a \<noteq> p" "a \<notin> set (ys @ [p])" using dist xs by auto
  have pth: "path tnext (tasks s) (tnext d) (ys @ [p]) a"
    using ring d xs by (auto simp: ring_def)
  have fp: "find_pred (tasks s) a (tnext d) = Some p"
    using find_pred_path [OF pth] ap(2) list.set_sel(2) [of "ys @ [p]" a] by auto
  obtain pt where pt: "tasks s p = Some pt" using ring_mapped [OF ring, of p] xs by auto
  have nd: "tnext d = hd (ys @ [p])" using path_hd [OF pth] by simp
  let ?ts = "(tasks s)(p \<mapsto> pt\<lparr>tnext := tnext d\<rparr>)"
  let ?s1 = "s\<lparr>tasks := ?ts\<rparr>"
  let ?T = "task_owners s xs"
  have ring': "ring tnext ?ts (tnext d) (ys @ [p])"
    using ring_remove_first [OF ring [unfolded xs] pt refl, of "pt\<lparr>tnext := tnext d\<rparr>"] nd by simp
  have B1: "blk ?s1 b = blk s b" for b using pt by (cases b) auto
  have c1: "clean ?T ?s1"
    using mem_inv_cong [OF mi, of ?s1] mem_clean [OF k] fi(1)
    by (auto simp: clean_def B1 slot_owners_def fd_owners_def files_inv_def slot_ok_def)
  let ?i = "nat (user_slot_index d)"
  have dok: "task_ok s d" using tok [of a] d xs by simp
  obtain s2 where s2: "(if 0 \<le> user_slot_index d then on_task_exit ?i (exit_code d) ?s1 else Some ?s1) = Some s2"
    "clean ?T s2" "exit_frame ?s1 s2"
    "\<forall>j. 0 \<le> user_slot_index d \<longrightarrow> j = ?i \<longrightarrow> slot_free s2 j \<and> slot_redir_buf s2 j = 0 \<and> slot_redir_pipe s2 j = -1 \<and>
       slot_exit_code s2 j = exit_code d"
    "\<forall>j. \<not> (0 \<le> user_slot_index d \<and> j = ?i) \<longrightarrow> slot_free s2 j = slot_free s j \<and>
       slot_redir_buf s2 j = slot_redir_buf s j \<and> slot_redir_pipe s2 j = slot_redir_pipe s j"
    "0 \<le> user_slot_index d \<longrightarrow> (\<forall>fd < MAX_FDS. \<not> (fvalid (fd_table s2 fd) \<and> fowner (fd_table s2 fd) = user_slot_index d))"
  proof (cases "0 \<le> user_slot_index d")
    case True
    then have i: "?i < USER_PROGRAM_SLOTS" "int ?i = user_slot_index d" using dok by (auto simp: task_ok_def)
    from on_task_exit_ok [OF c1 i(1), of "exit_code d"] show thesis
      using that True i by fastforce
  next
    case False
    then show thesis using that [of ?s1] c1 by simp
  qed
  have fr: "tasks s2 = ?ts" "task0_at s2 = task0_at s" "pgt s2 = pgt s" "cr3 s2 = cr3 s"
    using s2(3) by (simp_all add: exit_frame_def)
  let ?os = "?T \<union> slot_owners s2 \<union> fd_owners s2"
  have m2: "mem_inv s2 ?os" "files_inv s2" using s2(2) by (auto simp: clean_def)
  have own: "StackBlk a \<in> ?os" "TaskBlk a \<in> ?os - {StackBlk a}"
    using xs at0 by (auto simp: task_owners_def)
  have ba: "blk s2 (StackBlk a) = kernel_stack_top d - KSTACK_SIZE"
    using fr(1) d ap by simp
  obtain h where h: "k_free (kernel_stack_top d - KSTACK_SIZE) s2 = Some (s2\<lparr>kmem := h\<rparr>)"
    "mem_inv (s2\<lparr>kmem := h\<rparr>) (?os - {StackBlk a})"
    using k_free_owned [OF m2(1) own(1)] unfolding ba by blast
  obtain h' where h': "k_free a (s2\<lparr>kmem := h\<rparr>) = Some (s2\<lparr>kmem := h'\<rparr>)"
    "mem_inv (s2\<lparr>kmem := h'\<rparr>) (?os - {StackBlk a} - {TaskBlk a})"
    using k_free_owned [OF h(2) own(2)] by auto
  let ?s' = "s2\<lparr>kmem := h', tasks := ?ts(a := None)\<rparr>"
  have reap: "reap a d s = Some ?s'"
    using fp pt s2(1) h(1) h'(1) fr(1) by (simp add: reap_def Let_def)
  have tl: "tl xs = ys @ [p]" using xs by simp
  have T': "task_owners ?s' (tl xs) = ?T - {StackBlk a} - {TaskBlk a}"
    using xs ap at0 fr(2) by (auto simp: task_owners_def)
  have mem: "mem_inv ?s' (task_owners ?s' (tl xs) \<union> slot_owners ?s' \<union> fd_owners ?s')"
  proof (rule mem_inv_cong)
    show "mem_inv (s2\<lparr>kmem := h'\<rparr>) (task_owners ?s' (tl xs) \<union> slot_owners ?s' \<union> fd_owners ?s')"
      by (rule mem_inv_mono [OF h'(2)]) (auto simp: T' slot_owners_def fd_owners_def)
    show "blk ?s' b = blk (s2\<lparr>kmem := h'\<rparr>) b" if "b \<in> task_owners ?s' (tl xs) \<union> slot_owners ?s' \<union> fd_owners ?s'" for b
      using that xs ap fr(1) by (cases b) (auto simp: task_owners_def slot_owners_def fd_owners_def)
  qed simp
  have ring2: "ring tnext (tasks ?s') (tnext d) (tl xs)"
    using ring' ap unfolding tl by (simp add: ring_def)
  have look: "the (tasks ?s' x) = (the (tasks s x))\<lparr>tnext := tnext (the (tasks ?s' x))\<rparr>" if "x \<in> set (tl xs)" for x
    using that pt ap tl by auto
  have same: "user_slot_index (the (tasks ?s' x)) = user_slot_index (the (tasks s x))"
    "exiting (the (tasks ?s' x)) = exiting (the (tasks s x))" "blocked (the (tasks ?s' x)) = blocked (the (tasks s x))"
    "priority (the (tasks ?s' x)) = priority (the (tasks s x))" "mls_level (the (tasks ?s' x)) = mls_level (the (tasks s x))"
    if "x \<in> set (tl xs)" for x
    using relinked [OF look [OF that]] by blast+
  have in_xs: "x \<in> set xs" "x \<noteq> a" if "x \<in> set (tl xs)" for x using that xs ap by auto
  have tok': "task_ok ?s' (the (tasks ?s' x))" if "x \<in> set (tl xs)" for x
  proof -
    have "\<not> (0 \<le> user_slot_index d \<and> nat (user_slot_index (the (tasks s x))) = ?i \<and> 0 \<le> user_slot_index (the (tasks s x)))"
      using uniq [of x a] in_xs [OF that] d xs by (auto simp: eq_nat_nat_iff)
    then have "0 \<le> user_slot_index (the (tasks s x)) \<Longrightarrow>
        slot_free s2 (nat (user_slot_index (the (tasks s x)))) = slot_free s (nat (user_slot_index (the (tasks s x))))"
      using s2(5) by blast
    then show ?thesis using tok [OF in_xs(1) [OF that]] same [OF that] by (simp add: task_ok_def)
  qed
  have t0': "task0_at s \<in> set (tl xs)" using t0 at0 xs by auto
  have frees: "slot_redir_buf s2 j = 0 \<and> slot_redir_pipe s2 j = -1"
    if "j < USER_PROGRAM_SLOTS" "slot_free s2 j" for j
  proof (cases "0 \<le> user_slot_index d \<and> j = ?i")
    case True
    then show ?thesis using s2(4) by simp
  next
    case False
    then have "slot_free s2 j = slot_free s j \<and> slot_redir_buf s2 j = slot_redir_buf s j \<and>
        slot_redir_pipe s2 j = slot_redir_pipe s j" using s2(5) by simp
    then show ?thesis using that fi(2) by (simp add: free_inv_def)
  qed
  have "ring_inv ?s' (tnext d) (tl xs)"
    unfolding ring_inv_def Let_def
  proof (intro conjI ballI impI)
    show "ring tnext (tasks ?s') (tnext d) (tl xs)" by (rule ring2)
    show "task0_at ?s' \<in> set (tl xs)" using t0' fr by simp
    show "task_ok ?s' (the (tasks ?s' x))" if "x \<in> set (tl xs)" for x by (rule tok' [OF that])
    show "x = y" if "x \<in> set (tl xs)" "y \<in> set (tl xs)" "0 \<le> user_slot_index (the (tasks ?s' x))"
      "user_slot_index (the (tasks ?s' x)) = user_slot_index (the (tasks ?s' y))" for x y
      using uniq [of x y] in_xs that same by metis
    have e: "task0_at ?s' = task0_at s" using fr by simp
    show "user_slot_index (the (tasks ?s' (task0_at ?s'))) = -1" "\<not> exiting (the (tasks ?s' (task0_at ?s')))"
      "\<not> blocked (the (tasks ?s' (task0_at ?s')))"
      unfolding e using z same [OF t0'] by simp_all
  qed
  moreover have "files_inv ?s'" using m2(2) by (auto simp: files_inv_def slot_ok_def)
  moreover have "free_inv ?s'" using frees by (simp add: free_inv_def)
  ultimately have "kinv_at ?s' (tnext d) (tl xs)" using mem fi(3) fr(3) by (simp add: kinv_at_def)
  moreover have "\<exists>t. tasks s x = Some t \<and> (\<exists>n. tasks ?s' x = Some (t\<lparr>tnext := n\<rparr>))" if "x \<in> set (tl xs)" for x
  proof -
    have "x \<in> set xs" "x \<noteq> a" using in_xs [OF that] by auto
    then obtain t where "tasks s x = Some t" using ring_mapped [OF ring] by blast
    then show ?thesis using \<open>x \<noteq> a\<close> pt by (cases "x = p") (auto intro: exI [of _ "tnext t"])
  qed
  ultimately show ?thesis using reap fr s2(4,6) ap tl by (intro exI [of _ ?s']) simp
qed

subsection \<open>The whole of \<open>schedule\<close>\<close>

text \<open>The state after the wake-up scan and the accounting of the tick.\<close>

abbreviation ticked :: "nat \<Rightarrow> kstate \<Rightarrow> task \<Rightarrow> task" where
  "ticked r s t \<equiv> account r (wake s t)"

definition after_tick :: "nat \<Rightarrow> nat list \<Rightarrow> kstate \<Rightarrow> kstate" where
  "after_tick r xs s =
     s\<lparr>tasks := (\<lambda>x. if x \<in> set xs then map_option (wake s) (tasks s x) else tasks s x)
        (current_task s \<mapsto> ticked r s (the (tasks s (current_task s))))\<rparr>"

lemma account_simps [simp]:
  "tnext (account r t) = tnext t" "kernel_stack_top (account r t) = kernel_stack_top t"
  "user_slot_index (account r t) = user_slot_index t" "exiting (account r t) = exiting t"
  "page_directory (account r t) = page_directory t" "priority (account r t) = priority t"
  "mls_level (account r t) = mls_level t" "rsp (account r t) = r" "tid (account r t) = tid t"
  "exit_code (account r t) = exit_code t" "blocked (account r t) = blocked t"
  by (simp_all add: account_def Let_def blocked_def)

lemma slice_account:
  "slice_left (account r t) = (if exiting t \<or> blocked t then slice_left t else slice_left t - 1)"
  by (simp add: account_def Let_def blocked_def)

lemma schedule_eq:
  fixes r' :: nat
  assumes r: "ring tnext (tasks s) (current_task s) xs" and c: "current_task s \<noteq> 0"
    and t: "tasks s (current_task s) = Some t"
  shows "schedule r' s =
    (let d = ticked r' s t; s1 = after_tick r' xs s in
     if \<not> exiting d \<and> \<not> blocked d \<and> 0 < slice_left d then Some (r', s1)
     else case (if exiting d then reap (current_task s) d s1 else Some s1) of None \<Rightarrow> None
          | Some s2 \<Rightarrow> (case pick_next (tasks s2) (tnext d) (tnext d) of None \<Rightarrow> None
                        | Some n \<Rightarrow> switch_to n (page_directory d) s2))"
proof -
  have cur: "current_task s \<in> set xs" using ring_hd [OF r] r hd_in_set [of xs] by (auto simp: ring_def)
  have u: "ring_update tnext (wake s) (current_task s) (tasks s) (current_task s) =
      Some (\<lambda>x. if x \<in> set xs then map_option (wake s) (tasks s x) else tasks s x)"
    by (rule ring_update_ring [OF r]) simp
  show ?thesis
    unfolding schedule_def using c cur t u
    by (auto simp: Let_def after_tick_def split: option.splits bind_splits)
qed

lemma find_in_set: "find P xs = Some x \<Longrightarrow> x \<in> set xs \<and> P x"
  by (induction xs) (auto split: if_splits)

lemma kinv_current:
  assumes "kinv_at s cur xs"
  obtains t ys where "tasks s cur = Some t" "xs = cur # ys" "task_ok s t" "cur \<noteq> 0" "cur \<in> set xs"
proof -
  have r: "ring tnext (tasks s) cur xs" using assms by (simp add: kinv_at_def ring_inv_def)
  obtain ys where xs: "xs = cur # ys" using ring_hd [OF r] r by (cases xs) (auto simp: ring_def)
  obtain t where "tasks s cur = Some t" "cur \<noteq> 0" "task_ok s t"
    using kinv_at_ring [OF assms, of cur] xs by auto
  then show thesis using that xs by simp
qed

lemma after_tick_look:
  assumes "kinv_at s (current_task s) xs" "x \<in> set xs"
  shows "tasks (after_tick r xs s) x =
    Some (if x = current_task s then ticked r s (the (tasks s x)) else wake s (the (tasks s x)))"
  by (rule kinv_at_ring [OF assms]) (use assms in \<open>auto simp: after_tick_def\<close>)

lemma after_tick_frame [simp]:
  "task0_at (after_tick r xs s) = task0_at s" "current_task (after_tick r xs s) = current_task s"
  "cr3 (after_tick r xs s) = cr3 s" "slot_free (after_tick r xs s) = slot_free s"
  by (simp_all add: after_tick_def)

lemma after_tick_kinv:
  assumes k: "kinv_at s (current_task s) xs"
  shows "kinv_at (after_tick r xs s) (current_task s) xs"
proof -
  have z: "task0_at s \<in> set xs" "\<not> exiting (the (tasks s (task0_at s)))" "\<not> blocked (the (tasks s (task0_at s)))"
    using k by (auto simp: kinv_at_def ring_inv_def Let_def)
  let ?ts = "tasks (after_tick r xs s)"
  have e: "s\<lparr>tasks := ?ts\<rparr> = after_tick r xs s" by (simp add: after_tick_def)
  have "kinv_at (s\<lparr>tasks := ?ts\<rparr>) (current_task s) xs"
  proof (rule kinv_at_tasks [OF k])
    show "\<exists>t'. ?ts x = Some t' \<and> task_like (the (tasks s x)) t'" if x: "x \<in> set xs" for x
    proof -
      obtain t where "tasks s x = Some t" "task_ok s t" using kinv_at_ring [OF k x] by blast
      then show ?thesis using after_tick_look [OF k x, of r] by (auto simp: task_like_def task_ok_def)
    qed
    show "\<not> exiting (the (?ts (task0_at s)))" "\<not> blocked (the (?ts (task0_at s)))"
      using z after_tick_look [OF k z(1), of r] by (auto simp: wake_unblocked)
  qed
  then show ?thesis by (simp only: e)
qed

text \<open>The rotation of the ring and the switch to the chosen task.\<close>

lemma kinv_at_rotate:
  assumes "kinv_at s cur xs" "n \<in> set xs"
  obtains ys zs where "xs = ys @ n # zs" "kinv_at s n (n # zs @ ys)"
proof -
  have r: "ring tnext (tasks s) cur xs" using assms by (simp add: kinv_at_def ring_inv_def)
  obtain ys zs where s: "xs = ys @ n # zs" "ring tnext (tasks s) n (n # zs @ ys)"
    by (rule ring_enter [OF r assms(2)])
  moreover have e: "set (n # zs @ ys) = set xs" using s by auto
  ultimately have "kinv_at s n (n # zs @ ys)"
    using assms(1) unfolding kinv_at_def ring_inv_def task_owners_def e by simp
  then show thesis using that s by blast
qed

lemma kinv_at_regs:
  "kinv_at s cur xs \<Longrightarrow> kinv_at (s\<lparr>current_task := c, tss_rsp0 := r, cr3 := d\<rparr>) cur xs"
proof -
  let ?s = "s\<lparr>current_task := c, tss_rsp0 := r, cr3 := d\<rparr>"
  assume k: "kinv_at s cur xs"
  have B: "blk ?s b = blk s b" for b by (cases b) auto
  have "mem_inv ?s (task_owners s xs \<union> slot_owners s \<union> fd_owners s)"
    by (rule mem_inv_cong [of s]) (use k in \<open>auto simp: kinv_at_def B\<close>)
  then show ?thesis using k
    by (simp add: kinv_at_def ring_inv_def files_inv_def free_inv_def slot_ok_def task_ok_def
        task_owners_def slot_owners_def fd_owners_def Let_def)
qed

lemma switch_ok:
  assumes k: "kinv_at s cur xs" and n: "n \<in> set xs" and t: "tasks s n = Some t"
  shows "\<exists>s'. switch_to n p s = Some (rsp t, s') \<and> current_task s' = n \<and> tss_rsp0 s' = kernel_stack_top t \<and>
    cr3 s' = (if page_directory t \<noteq> p then page_directory t else cr3 s) \<and>
    tasks s' = (tasks s)(n \<mapsto> t\<lparr>slice_left := priority t\<rparr>) \<and> kinv_at s' cur xs \<and>
    (\<exists>ys zs. xs = ys @ n # zs \<and> kinv_at s' n (n # zs @ ys)) \<and>
    s' = s\<lparr>tasks := tasks s', current_task := n, tss_rsp0 := tss_rsp0 s', cr3 := cr3 s'\<rparr>"
proof -
  let ?ts = "(tasks s)(n \<mapsto> t\<lparr>slice_left := priority t\<rparr>)"
  let ?c = "if page_directory t \<noteq> p then page_directory t else cr3 s"
  let ?s = "s\<lparr>tasks := ?ts, current_task := n, tss_rsp0 := kernel_stack_top t, cr3 := ?c\<rparr>"
  have sw: "switch_to n p s = Some (rsp t, ?s)" using t by (simp add: switch_to_def)
  have "kinv_at (s\<lparr>tasks := ?ts\<rparr>) cur xs"
  proof (rule kinv_at_tasks [OF k])
    show "\<exists>t'. ?ts x = Some t' \<and> task_like (the (tasks s x)) t'" if x: "x \<in> set xs" for x
      by (rule kinv_at_ring [OF k x]) (use t in \<open>auto simp: task_like_def task_ok_def\<close>)
    show "\<not> exiting (the (?ts (task0_at s)))" "\<not> blocked (the (?ts (task0_at s)))"
      using k t by (auto simp: kinv_at_def ring_inv_def Let_def blocked_def)
  qed
  then have k': "kinv_at ?s cur xs" using kinv_at_regs [of "s\<lparr>tasks := ?ts\<rparr>" cur xs] by simp
  then obtain ys zs where "xs = ys @ n # zs" "kinv_at ?s n (n # zs @ ys)" by (rule kinv_at_rotate [OF _ n])
  then have rot: "\<exists>ys zs. xs = ys @ n # zs \<and> kinv_at ?s n (n # zs @ ys)" by blast
  show ?thesis
    by (rule exI [of _ ?s]) (intro conjI sw k' rot, simp_all)
qed

text \<open>The choice among the ring entered at \<open>i\<close>: some task is never blocked.\<close>

lemma pick_ok:
  assumes k: "kinv_at s i zs"
  shows "\<exists>n t. pick_next (tasks s) i i = Some n \<and> n \<in> set zs \<and> tasks s n = Some t \<and> \<not> blocked t \<and>
    find (\<lambda>x. \<not> blocked (the (tasks s x))) zs = Some n"
proof -
  have r: "ring tnext (tasks s) i zs" and z: "task0_at s \<in> set zs" "\<not> blocked (the (tasks s (task0_at s)))"
    using k by (auto simp: kinv_at_def ring_inv_def Let_def)
  obtain n where n: "find (\<lambda>x. \<not> blocked (the (tasks s x))) zs = Some n"
    using z by (cases "find (\<lambda>x. \<not> blocked (the (tasks s x))) zs") (auto simp: find_None_iff)
  then have "n \<in> set zs" "\<not> blocked (the (tasks s n))" by (auto simp: find_Some_iff)
  moreover obtain t where "tasks s n = Some t" using kinv_at_ring [OF k \<open>n \<in> set zs\<close>] by blast
  ultimately show ?thesis using pick_next_ring [OF r] n by auto
qed

text \<open>A task that does not exit: it goes on, or the first unblocked task after it gets the CPU.\<close>

lemma schedule_alive:
  fixes r :: nat
  assumes k: "kinv_at s (current_task s) (current_task s # ys)" and t: "tasks s (current_task s) = Some t"
    and e: "\<not> exiting t"
  defines "d \<equiv> ticked r s t" and "s1 \<equiv> after_tick r (current_task s # ys) s"
  shows "if \<not> blocked d \<and> 0 < slice_left d then schedule r s = Some (r, s1)
    else \<exists>n u. find (\<lambda>x. \<not> blocked (the (tasks s1 x))) (ys @ [current_task s]) = Some n \<and>
      tasks s1 n = Some u \<and> schedule r s = switch_to n (page_directory t) s1"
proof -
  let ?c = "current_task s" and ?xs = "current_task s # ys"
  have ring: "ring tnext (tasks s) ?c ?xs" using k by (simp add: kinv_at_def ring_inv_def)
  have c: "?c \<noteq> 0" using ring_mapped [OF ring] by simp
  have k1: "kinv_at s1 ?c ?xs" unfolding s1_def by (rule after_tick_kinv [OF k])
  have t1: "tasks s1 ?c = Some d" unfolding s1_def d_def using after_tick_look [OF k, of ?c r] t by simp
  have ed: "exiting d = exiting t" "tnext d = tnext t" "page_directory d = page_directory t" by (simp_all add: d_def)
  have k2: "kinv_at s1 (tnext t) (ys @ [?c])"
  proof (cases "ys = []")
    case True
    then have "tnext t = ?c" using ring t by (auto simp: ring_def)
    then show ?thesis using k1 True by simp
  next
    case False
    then obtain y zs where ys: "ys = y # zs" by (cases ys) auto
    have "tnext t = y" using ring t ys by (auto simp: ring_def)
    moreover have "kinv_at s1 y (y # zs @ [?c])"
    proof -
      have r1: "ring tnext (tasks s1) ?c ([?c] @ y # zs)" using k1 ys by (simp add: kinv_at_def ring_inv_def)
      have "set (y # zs @ [?c]) = set ?xs" using ys by auto
      then show ?thesis using k1 ring_rotate [OF r1]
        unfolding kinv_at_def ring_inv_def task_owners_def by simp
    qed
    ultimately show ?thesis using ys by simp
  qed
  obtain n u where n: "pick_next (tasks s1) (tnext t) (tnext t) = Some n" "tasks s1 n = Some u"
    "find (\<lambda>x. \<not> blocked (the (tasks s1 x))) (ys @ [?c]) = Some n"
    using pick_ok [OF k2] by blast
  have "schedule r s = (if \<not> exiting d \<and> \<not> blocked d \<and> 0 < slice_left d then Some (r, s1)
     else case (if exiting d then reap ?c d s1 else Some s1) of None \<Rightarrow> None
          | Some s2 \<Rightarrow> (case pick_next (tasks s2) (tnext d) (tnext d) of None \<Rightarrow> None
                        | Some n \<Rightarrow> switch_to n (page_directory d) s2))"
    using schedule_eq [OF ring c t, of r] by (simp only: Let_def d_def s1_def)
  then show ?thesis using e n by (simp add: ed)
qed

text \<open>A task that exits is reaped, and the first unblocked one of the rest gets the CPU.\<close>

lemma schedule_dying:
  assumes k: "kinv_at s (current_task s) xs" and t: "tasks s (current_task s) = Some t" and e: "exiting t"
  shows "\<exists>s2 n u. reap (current_task s) (ticked r s t) (after_tick r xs s) = Some s2 \<and>
    kinv_at s2 (tnext t) (tl xs) \<and> find (\<lambda>x. \<not> blocked (the (tasks s2 x))) (tl xs) = Some n \<and>
    n \<in> set (tl xs) \<and> tasks s2 n = Some u \<and> schedule r s = switch_to n (page_directory t) s2"
proof -
  let ?c = "current_task s" and ?d = "ticked r s t" and ?s1 = "after_tick r xs s"
  have ring: "ring tnext (tasks s) ?c xs" using k by (simp add: kinv_at_def ring_inv_def)
  obtain ys where xs: "xs = ?c # ys" "?c \<noteq> 0" using kinv_current [OF k] by blast
  have k1: "kinv_at ?s1 ?c xs" by (rule after_tick_kinv [OF k])
  have t1: "tasks ?s1 ?c = Some ?d" using after_tick_look [OF k, of ?c r] t xs by simp
  obtain s2 where s2: "reap ?c ?d ?s1 = Some s2" "kinv_at s2 (tnext ?d) (tl xs)"
    using reap_ok [OF k1 t1] e by auto
  then have k2: "kinv_at s2 (tnext t) (tl xs)" by simp
  obtain n u where n: "pick_next (tasks s2) (tnext t) (tnext t) = Some n" "n \<in> set (tl xs)"
    "tasks s2 n = Some u" "find (\<lambda>x. \<not> blocked (the (tasks s2 x))) (tl xs) = Some n"
    using pick_ok [OF k2] by blast
  have "schedule r s = switch_to n (page_directory t) s2"
    using schedule_eq [OF ring xs(2) t, of r] e s2(1) n(1) by (simp add: Let_def)
  then show ?thesis using s2 k2 n by blast
qed

lemma schedule_total:
  assumes "kinv s"
  shows "\<exists>r' s'. schedule r s = Some (r', s') \<and> kinv s'"
proof -
  from assms obtain xs where k: "kinv_at s (current_task s) xs" and c: "current_task s \<noteq> 0"
    by (auto simp: kinv_def)
  obtain t ys where t: "tasks s (current_task s) = Some t" and xs: "xs = current_task s # ys"
    using kinv_current [OF k] by blast
  have sw: "\<exists>r' s'. switch_to n p s2 = Some (r', s') \<and> kinv s'"
    if k2: "kinv_at s2 i zs" and n: "n \<in> set zs" for n p s2 i zs
  proof -
    obtain u where u: "tasks s2 n = Some u" "n \<noteq> 0" using kinv_at_ring [OF k2 n] by blast
    show ?thesis using switch_ok [OF k2 n u(1), of p] u(2) by (auto simp: kinv_def)
  qed
  show ?thesis
  proof (cases "exiting t")
    case True
    then obtain s2 n u where "kinv_at s2 (tnext t) (tl xs)" "n \<in> set (tl xs)"
      "schedule r s = switch_to n (page_directory t) s2"
      using schedule_dying [OF k t] by blast
    then show ?thesis using sw by metis
  next
    case False
    let ?s1 = "after_tick r (current_task s # ys) s"
    have k1: "kinv_at ?s1 (current_task s) (current_task s # ys)" using after_tick_kinv [OF k] xs by simp
    show ?thesis
    proof (cases "\<not> blocked (ticked r s t) \<and> 0 < slice_left (ticked r s t)")
      case True
      then have "schedule r s = Some (r, ?s1)" using schedule_alive [OF k [unfolded xs] t False, of r] by simp
      then show ?thesis using k1 c by (auto simp: kinv_def)
    next
      case nc: False
      then obtain n where n: "find (\<lambda>x. \<not> blocked (the (tasks ?s1 x))) (ys @ [current_task s]) = Some n"
        "schedule r s = switch_to n (page_directory t) ?s1"
        using schedule_alive [OF k [unfolded xs] t False, of r] by (auto split: if_splits)
      have "n \<in> set (current_task s # ys)" using find_in_set [OF n(1)] by auto
      then show ?thesis using sw [OF k1] n(2) by metis
    qed
  qed
qed

end
