(* ===== verification/Fat12Props.thy ===== *)
theory Fat12Props
  imports Fat12Files
begin

section \<open>Properties of the FAT12 driver\<close>

text \<open>
  The guarantees of the driver, each with a witness on an empty volume laid out the way
  \<^verbatim>\<open>tools/make_fat12.py\<close> does (one reserved sector, one FAT of 12 sectors, 64 root entries).
\<close>

definition demo_img :: bmem where
  "demo_img = mem_write (\<lambda>_. 0) 11
     [0x00, 0x02, 0x01, 0x01, 0x00, 0x01, 0x40, 0x00, 0x00, 0x10, 0xF0, 0x0C, 0x00]"

definition demo_fs :: fat12 where
  "demo_fs = \<lparr>img = demo_img, disk = demo_img, ide_ok = (\<lambda>_. True), fat12_ready = True,
              fat12_locked = False\<rparr>"

text \<open>The file name \<^verbatim>\<open>"a.t"\<close>.\<close>

definition demo_name :: "u8 list" where "demo_name = [0x61, 0x2E, 0x74]"

lemma mem_read_2: "mem_read m a 2 = [m a, m (a + 1)]"
  by (simp add: mem_read_def upt_rec numeral_2_eq_2)

lemma demo_bpb:
  "bytes_per_sector demo_img = 512" "sectors_per_cluster demo_img = 1"
  "reserved_sectors demo_img = 1" "num_fats demo_img = 1" "root_entries demo_img = 64"
  "total_sectors demo_img = 4096" "sectors_per_fat demo_img = 12"
  by (simp_all add: bpb_defs rd16_def mem_read_2 demo_img_def mem_write_def)

lemma demo_ok: "fs_ok demo_img"
  by (simp add: fs_ok_def demo_bpb fat12_total_clusters_def root_dir_sectors_def wrap32_def)

lemma demo_zero: "24 \<le> x \<Longrightarrow> demo_img x = 0"
  by (simp add: demo_img_def mem_write_def)

lemma demo_total: "fat12_total_clusters demo_img = 4079"
  by (simp add: demo_bpb fat12_total_clusters_def root_dir_sectors_def wrap32_def)

lemma demo_dir: "dir_entries demo_img = map (\<lambda>i. 6656 + 32 * i) [0..<64]"
  by (simp add: dir_entries_def demo_bpb fs_ok_layout(3) [OF demo_ok])

lemma demo_find: "fat12_find nm ext demo_img = None" "fat12_find_free_entry demo_img = Some 6656"
proof -
  have "dir_entries demo_img = 6656 # map (\<lambda>i. 6656 + 32 * i) [1..<64]"
    by (simp add: demo_dir upt_rec [of 0])
  then show "fat12_find nm ext demo_img = None" "fat12_find_free_entry demo_img = Some 6656"
    by (simp_all add: fat12_find_def used_entries_def fat12_find_free_entry_def demo_zero)
qed

lemma demo_entry: "fat12_get_entry demo_img c = 0"
  by (simp add: get_entry_nat fat_base_def demo_bpb demo_zero)

lemma demo_free: "4079 \<le> card (free_clusters demo_img)"
proof -
  have "free_clusters demo_img = {2..<4081}"
    by (auto simp: free_clusters_def demo_entry demo_total)
  then show ?thesis by simp
qed

lemma demo_name_ok: "storable demo_name"
  "parse_83 demo_name = ([0x41, 0x20, 0x20, 0x20, 0x20, 0x20, 0x20, 0x20], [0x54, 0x20, 0x20])"
  by code_simp+

lemma demo_fits: "n \<le> 4079 * 512 \<Longrightarrow>
    n \<le> card (free_clusters demo_img) * cluster_bytes demo_img"
  using mult_le_mono1 [OF demo_free, of 512] by (simp add: cluster_bytes_def demo_bpb)

subsection \<open>Reading back what was written\<close>

text \<open>
  On a well-formed, unlocked volume \<^verbatim>\<open>fat12_write\<close> of data that fits in the free clusters
  succeeds when the name has an entry or the root directory has a free one, and \<^verbatim>\<open>fat12_load\<close> of
  the same name then yields exactly that data, whether the file existed before or not.
\<close>

theorem fat12_write_load:
  assumes "fs_ok (img s)" "fat12_ready s" "\<not> fat12_locked s" "storable f"
    "fat12_find (fst (parse_83 f)) (snd (parse_83 f)) (img s) \<noteq> None \<or>
     fat12_find_free_entry (img s) \<noteq> None"
    "length data \<le> card (free_clusters (img s)) * cluster_bytes (img s)"
    "length data \<le> max_size"
  shows "\<exists>s'. fat12_write f data s = Some (1, s') \<and> fs_ok (img s') \<and>
    fat12_load f max_size s' = Some data"
proof -
  from fat12_write_succeeds [OF assms(1-3) prod.collapse [symmetric] assms(5,6)] obtain s'
    where w: "fat12_write f data s = Some (1, s')" by blast
  note at = write_file_at [OF assms(1-4) fits_bound [OF assms(1,6)] w]
  show ?thesis using w at(2) file_at_load [OF at(1-3) assms(7)] by blast
qed

theorem fat12_write_load_witness:
  "\<exists>s'. fat12_write demo_name [1, 2, 3] demo_fs = Some (1, s') \<and> fs_ok (img s') \<and>
    fat12_load demo_name 100 s' = Some [1, 2, 3]"
  by (rule fat12_write_load)
    (simp_all add: demo_fs_def demo_ok demo_name_ok demo_find demo_fits)

text \<open>
  A write that reported success survives a restart: once every sector can be transferred,
  \<^verbatim>\<open>fat12_init\<close> on the flushed disk accepts the volume and \<^verbatim>\<open>fat12_load\<close> finds the data again.
\<close>

theorem fat12_survives_restart:
  assumes "fs_ok (img s)" "fat12_ready s" "\<not> fat12_locked s" "storable f"
    "length data + cluster_bytes (img s) \<le> 4294967296" "fat12_write f data s = Some (1, s')"
    "\<forall>lba<FAT12_TOTAL_SECTORS. ide_ok s lba" "disk t = disk s'"
    "\<forall>lba<FAT12_TOTAL_SECTORS. ide_ok t lba" "length data \<le> max_size"
  shows "\<exists>t'. fat12_init t = (1, t') \<and> fat12_load f max_size t' = Some data"
proof -
  note at = write_file_at [OF assms(1-6)]
  let ?m = "\<lambda>x. if x < FAT12_TOTAL_SECTORS * IDE_SECTOR_SIZE then disk t x else img t x"
  have same: "?m x = img s' x" if "x < 2097152" for x
  proof -
    have "x div 512 < 4096" using that by (simp add: div_less_iff_less_mult)
    then have "disk (fat12_flush (s\<lparr>img := img s'\<rparr>)) x = img s' x"
      using assms(7) that by (simp add: fat12_flush_def)
    then show ?thesis using that assms(8) at(4) by simp
  qed
  note f = file_at_prefix [OF at(1,2) same]
  have "find (\<lambda>lba. \<not> ide_ok t lba) [0..<FAT12_TOTAL_SECTORS] = None"
    using assms(9) by (auto simp: find_None_iff)
  moreover have "bytes_per_sector ?m = 512" using f(2) by (simp add: fs_ok_def)
  ultimately have "fat12_init t = (1, t\<lparr>fat12_ready := True, img := ?m\<rparr>)"
    by (simp add: fat12_init_def)
  moreover have "fat12_load f max_size (t\<lparr>fat12_ready := True, img := ?m\<rparr>) = Some data"
    by (rule file_at_load) (use f assms(10) in simp_all)
  ultimately show ?thesis by blast
qed

theorem fat12_survives_restart_witness:
  "\<exists>s' t'. fat12_write demo_name [1, 2, 3] demo_fs = Some (1, s') \<and>
    fat12_init (s'\<lparr>img := (\<lambda>_. 0), fat12_ready := False\<rparr>) = (1, t') \<and>
    fat12_load demo_name 100 t' = Some [1, 2, 3]"
proof -
  obtain nm ext where p: "parse_83 demo_name = (nm, ext)" by fastforce
  from fat12_write_succeeds [OF _ _ _ p, of demo_fs "[1, 2, 3]"] obtain s'
    where w: "fat12_write demo_name [1, 2, 3] demo_fs = Some (1, s')"
    by (auto simp: demo_fs_def demo_ok demo_find demo_fits)
  let ?t = "s'\<lparr>img := (\<lambda>_. 0), fat12_ready := False\<rparr>"
  have "s' = fat12_flush (demo_fs\<lparr>img := img s'\<rparr>)"
    by (rule write_file_at(4) [OF _ _ _ _ _ w])
      (simp_all add: demo_fs_def demo_ok demo_name_ok cluster_bytes_def demo_bpb)
  then have "ide_ok s' = ide_ok (fat12_flush (demo_fs\<lparr>img := img s'\<rparr>))" by simp
  then have "ide_ok ?t = (\<lambda>_. True)" by (simp add: fat12_flush_def demo_fs_def)
  with fat12_survives_restart [OF _ _ _ _ _ w, of ?t 100] w show ?thesis
    by (auto simp: demo_fs_def demo_ok demo_name_ok cluster_bytes_def demo_bpb)
qed

subsection \<open>The table\<close>

text \<open>
  A FAT entry reads back what was stored, for every 12-bit value and both nibble layouts,
  and storing it changes no other entry, although neighbouring entries share a byte.
\<close>

theorem fat12_entry_get_set:
  assumes "fs_ok m" "c < 4096" "v < 4096"
  shows "fat12_get_entry (fat12_set_entry c v m) d = (if d = c then v else fat12_get_entry m d)"
  by (rule get_set_entry [OF fs_ok_layout(2) [OF assms(1)] assms(2,3)])

theorem fat12_entry_get_set_witness:
  "fat12_get_entry (fat12_set_entry 5 0xABC demo_img) 5 = 0xABC \<and>
   fat12_get_entry (fat12_set_entry 5 0xABC demo_img) 4 = 0"
  using fat12_entry_get_set [OF demo_ok, of 5 "0xABC" 5] fat12_entry_get_set [OF demo_ok, of 5 "0xABC" 4]
  by (simp add: demo_entry)

text \<open>
  C33. \<^verbatim>\<open>fat12_free_chain\<close> returns from every start cluster on every table, even one whose chains
  are cyclic or cross; it writes inside the FAT only and every entry is kept or cleared.
\<close>

theorem fat12_free_chain_terminates:
  assumes "fs_ok m"
  shows "\<exists>m'. fat12_free_chain c m = Some m' \<and> only_fat m m' \<and> fs_ok m' \<and>
    (\<forall>x. fat12_get_entry m' x = fat12_get_entry m x \<or> fat12_get_entry m' x = 0)"
  using free_chain_returns [OF fs_ok_layout(2) [OF assms], of c] only_fat_facts(2) [OF _ assms]
  by blast

text \<open>A cyclic table: clusters 2 and 3 point to each other.\<close>

definition cyclic_img :: bmem where
  "cyclic_img = fat12_set_entry 2 3 (fat12_set_entry 3 2 demo_img)"

lemma cyclic_facts: "fs_ok cyclic_img" "fat12_get_entry cyclic_img 2 = 3" "fat12_get_entry cyclic_img 3 = 2"
proof -
  let ?m = "fat12_set_entry 3 2 demo_img"
  have "only_fat demo_img ?m" by (rule set_entry_only_fat) simp
  note m = only_fat_facts(2) [OF this demo_ok]
  have "only_fat ?m cyclic_img" unfolding cyclic_img_def by (rule set_entry_only_fat) simp
  from only_fat_facts(2) [OF this m] show "fs_ok cyclic_img" .
  show "fat12_get_entry cyclic_img 2 = 3" "fat12_get_entry cyclic_img 3 = 2"
    using get_set_entry [OF fs_ok_layout(2) [OF m], of 2 3]
      get_set_entry [OF fs_ok_layout(2) [OF demo_ok], of 3 2]
    by (simp_all add: cyclic_img_def)
qed

theorem fat12_free_chain_terminates_witness:
  "fat12_get_entry cyclic_img 2 = 3 \<and> fat12_get_entry cyclic_img 3 = 2 \<and>
   (\<exists>m'. fat12_free_chain 2 cyclic_img = Some m' \<and> fs_ok m')"
  using fat12_free_chain_terminates [OF cyclic_facts(1), of 2] cyclic_facts by blast

text \<open>
  \<^verbatim>\<open>fat12_alloc_chain\<close> is all or nothing: with \<open>n\<close> free clusters it returns the head of a
  chain of exactly \<open>n\<close> distinct clusters that were free, ended by 0xFFF, and changes no other
  entry; with fewer it returns 0 and every entry is as before.
\<close>

theorem fat12_alloc_all_or_nothing:
  assumes "fs_ok m" "0 < n"
  shows "\<exists>start m'. fat12_alloc_chain n m = Some (start, m') \<and> only_fat m m' \<and>
    (if n \<le> card (free_clusters m)
     then start \<noteq> 0 \<and> (\<exists>cs. start = hd cs \<and> allocated_chain n m cs m')
     else start = 0 \<and> fat12_get_entry m' = fat12_get_entry m)"
  by (rule alloc_chain_spec [OF assms])

theorem fat12_alloc_all_or_nothing_witness:
  "(\<exists>start m'. fat12_alloc_chain 3 demo_img = Some (start, m') \<and> start \<noteq> 0) \<and>
   (\<exists>m'. fat12_alloc_chain 5000 demo_img = Some (0, m'))"
proof -
  have "3 \<le> card (free_clusters demo_img)" "\<not> 5000 \<le> card (free_clusters demo_img)"
    using demo_free free_clusters_bound [of demo_img] demo_total by simp_all
  with fat12_alloc_all_or_nothing [OF demo_ok, of 3] fat12_alloc_all_or_nothing [OF demo_ok, of 5000]
  show ?thesis by auto
qed

subsection \<open>Other files, failing writes, deletion\<close>

lemma free_is_cluster: "fs_ok m \<Longrightarrow> c \<in> free_clusters m \<Longrightarrow> is_cluster c \<and> fat12_get_entry m c = 0"
  using fs_ok_layout(7) [of m] by (auto simp: free_clusters_def)

text \<open>A volume with one file \<^verbatim>\<open>"A.T"\<close> of three bytes in cluster 2.\<close>

definition file_img :: bmem where
  "file_img = mem_write (mem_write (mem_write demo_img 515 [0xFF, 0x0F]) 6656
     ([0x41, 0x20, 0x20, 0x20, 0x20, 0x20, 0x20, 0x20, 0x54, 0x20, 0x20, 0x20] @
      [0, 0, 0, 0, 0, 0, 0, 0, 0, 0, 0, 0, 0, 0] @ [2, 0, 3, 0, 0, 0])) 8704 [7, 8, 9]"

definition file_fs :: fat12 where
  "file_fs = demo_fs\<lparr>img := file_img, disk := file_img\<rparr>"

lemma file_img_low: "x < 515 \<Longrightarrow> file_img x = demo_img x"
  by (simp add: file_img_def mem_write_def)

lemma file_bpb: "bpb_same demo_img file_img"
  by (simp add: bpb_same_def file_img_low)

lemma file_ok: "fs_ok file_img"
  using fs_ok_same [OF file_bpb] demo_ok by simp

lemma file_entry:
  "ent_name file_img 6656 = [0x41, 0x20, 0x20, 0x20, 0x20, 0x20, 0x20, 0x20]"
  "ent_ext file_img 6656 = [0x54, 0x20, 0x20]"
  "ent_start file_img 6656 = 2" "ent_size file_img 6656 = 3"
proof -
  have r: "mem_read file_img (6656 + k) n = take n (drop k
      ([0x41, 0x20, 0x20, 0x20, 0x20, 0x20, 0x20, 0x20, 0x54, 0x20, 0x20, 0x20] @
       [0, 0, 0, 0, 0, 0, 0, 0, 0, 0, 0, 0, 0, 0] @ [2, 0, 3, 0, 0, 0]))" if "k + n \<le> 32" for k n
    unfolding file_img_def using that
    by (subst mem_read_write_other) (simp, subst mem_read_write_inside, simp_all)
  show "ent_name file_img 6656 = [0x41, 0x20, 0x20, 0x20, 0x20, 0x20, 0x20, 0x20]"
    "ent_ext file_img 6656 = [0x54, 0x20, 0x20]"
    using r [of 0 8] r [of 8 3] by simp_all
  show "ent_start file_img 6656 = 2" "ent_size file_img 6656 = 3"
    using r [of 26 2] r [of 28 4] by (simp_all add: rd16_def rd32_def)
qed

lemmas file_entry_eval = file_entry [simplified]

lemma file_used: "used_entries file_img = [6656]"
proof -
  have "[0..<64] = [0, 1] @ [2..<64]" by (simp add: upt_conv_Cons)
  then obtain xs where d: "dir_entries file_img = 6656 # 6688 # xs"
    by (auto simp: bpb_derived(7) [OF file_bpb] demo_dir simp del: upt_rec_numeral)
  have "file_img 6656 = 0x41" "file_img 6688 = 0"
    by (simp_all add: file_img_def mem_write_def demo_zero)
  then show ?thesis by (simp add: used_entries_def d)
qed

lemma file_owns: "owns file_img 6656 [2]"
proof -
  have "fat12_get_entry file_img 2 = 0xFFF"
    by (simp add: get_entry_nat fat_base_def bpb_fields [OF file_bpb] demo_bpb)
      (simp add: file_img_def mem_write_def)
  then show ?thesis
    by (simp add: owns_def file_entry_eval bpb_derived(5) [OF file_bpb] demo_total)
qed

lemma file_files_ok: "files_ok file_img"
  using file_owns by (auto simp: files_ok_def file_ok file_used)

lemma file_find: "fat12_find [0x41, 0x20, 0x20, 0x20, 0x20, 0x20, 0x20, 0x20] [0x54, 0x20, 0x20] file_img
    = Some 6656"
  by (simp add: fat12_find_def file_used file_entry_eval)

lemma file_chain: "chain (fat12_get_entry file_img) 2 [2] 0xFFF"
proof -
  have "fat12_get_entry file_img 2 = 0xFFF"
    by (simp add: get_entry_nat fat_base_def bpb_fields [OF file_bpb] demo_bpb)
      (simp add: file_img_def mem_write_def)
  then show ?thesis by simp
qed

lemma file_load: "fat12_load demo_name 100 file_fs = Some [7, 8, 9]"
proof -
  have a: "cluster_addr file_img 2 = 8704" "cluster_bytes file_img = 512"
    by (simp_all add: bpb_fields [OF file_bpb] cluster_addr_def cluster_bytes_def demo_bpb
        fat12_data_offset_def fat12_root_dir_offset_def root_dir_sectors_def wrap32_def)
  have "take 3 (mem_read file_img 8704 512) = [7, 8, 9]"
    unfolding take_mem_read file_img_def using mem_read_write_same [of 3 "[7, 8, 9]" _ 8704] by simp
  then have "fat12_read_file 6656 100 file_img = Some [7, 8, 9]"
    unfolding fat12_read_file_def file_entry
    using read_chain_spec [OF file_chain, of 3 100 "[]"] a by simp
  then show ?thesis by (simp add: fat12_load_def file_fs_def demo_fs_def demo_name_ok file_find)
qed

lemma file_free_entry: "fat12_find_free_entry file_img \<noteq> None"
proof -
  have "6688 \<in> set (dir_entries file_img)"
    by (auto simp: bpb_derived(7) [OF file_bpb] demo_dir simp del: upt_rec_numeral)
  moreover have "file_img 6688 = 0" by (simp add: file_img_def mem_write_def demo_zero)
  ultimately show ?thesis by (auto simp: fat12_find_free_entry_def find_None_iff)
qed

lemma file_space: "1 \<le> card (free_clusters file_img)" "cluster_bytes file_img = 512"
  "card (free_clusters file_img) \<le> 4079"
proof -
  have "fat12_get_entry file_img 3 = 0"
    by (simp add: get_entry_nat fat_base_def bpb_fields [OF file_bpb] demo_bpb)
      (simp add: file_img_def mem_write_def demo_zero)
  then have "3 \<in> free_clusters file_img"
    by (simp add: free_clusters_def bpb_derived(5) [OF file_bpb] demo_total)
  then show "1 \<le> card (free_clusters file_img)"
    by (metis One_nat_def Suc_leI card_gt_0_iff empty_iff finite_free_clusters)
  show "cluster_bytes file_img = 512"
    by (simp add: cluster_bytes_def bpb_fields [OF file_bpb] demo_bpb)
  show "card (free_clusters file_img) \<le> 4079"
    using free_clusters_bound [of file_img] by (simp add: bpb_derived(5) [OF file_bpb] demo_total)
qed

text \<open>After the entry of \<open>f\<close> was claimed and only free clusters were written, another file loads as before.\<close>

lemma load_other:
  assumes "files_ok (img s)" "fat12_ready s" "length nm = 8" "length ext = 3" "hd nm \<noteq> 0"
    and c: "claim_entry nm ext (img s) = Some (Some (e, m1))" and cd: "claimed (img s) e m1"
    and g: "parse_83 g = (gn, gx)" "fat12_find gn gx (img s) = Some d" "(gn, gx) \<noteq> (nm, ext)"
    and i: "img s' = mx" and r: "fat12_ready s'" and n4: "names_same m1 mx"
    and fat: "\<And>x. x < 4096 \<Longrightarrow> fat12_get_entry m1 x \<noteq> 0 \<Longrightarrow> fat12_get_entry mx x = fat12_get_entry m1 x"
    and dat: "\<And>x. x \<notin> fat_bytes m1 \<Longrightarrow> x < e + 26 \<or> e + 32 \<le> x \<Longrightarrow>
      (\<And>c. is_cluster c \<Longrightarrow> fat12_get_entry m1 c = 0 \<Longrightarrow> x \<notin> region m1 c) \<Longrightarrow> mx x = m1 x"
  shows "fat12_load g n s' = fat12_load g n s"
proof -
  have ok: "fs_ok (img s)" using assms(1) by (simp add: files_ok_def)
  have du: "d \<in> set (used_entries (img s))" using find_in_dir [OF g(2)] by blast
  obtain ds where ds: "owns (img s) d ds" using assms(1) du by (auto simp: files_ok_def)
  from claim_find_other [OF ok assms(3-5) c g(2,3)] have f1: "fat12_find gn gx m1 = Some d" and d: "d \<noteq> e"
    by auto
  have "fat12_find gn gx mx = Some d" using find_same [OF n4] f1 by simp
  moreover have b: "bpb_same m1 mx" using n4 by (simp add: names_same_def)
  moreover have "fat12_read_file d n mx = fat12_read_file d n (img s)"
    by (rule claimed_read_other [OF assms(1) c assms(3,4) du d b ds fat dat])
  ultimately show ?thesis using g i r assms(2) by (simp add: fat12_load_def)
qed

text \<open>
  On a volume whose files share no clusters, \<^verbatim>\<open>fat12_write\<close> of one name, whatever its outcome,
  leaves every other existing file with the same contents.
\<close>

theorem fat12_write_keeps_others:
  assumes "files_ok (img s)" "0 \<notin> set f" "parse_83 g \<noteq> parse_83 f"
    "fat12_find (fst (parse_83 g)) (snd (parse_83 g)) (img s) = Some d"
    "length data + cluster_bytes (img s) \<le> 4294967296" "fat12_write f data s = Some (r, s')"
  shows "fat12_load g n s' = fat12_load g n s"
proof (cases "fat12_ready s \<and> \<not> fat12_locked s")
  case False
  then show ?thesis using assms(6) by (auto simp: fat12_write_def)
next
  case True
  then have rdy: "fat12_ready s" "\<not> fat12_locked s" by auto
  have ok: "fs_ok (img s)" using assms(1) by (simp add: files_ok_def)
  obtain nm ext gn gx where p: "parse_83 f = (nm, ext)" and q: "parse_83 g = (gn, gx)" by fastforce
  have len: "length nm = 8" "length ext = 3" using length_parse_83 [OF p] by auto
  have h: "hd nm \<noteq> 0" using parse_hd_nonzero [OF assms(2)] p by simp
  have g: "fat12_find gn gx (img s) = Some d" using assms(4) q by simp
  have ne: "(gn, gx) \<noteq> (nm, ext)" using assms(3) p q by simp
  note load = load_other [OF assms(1) rdy(1) len h _ _ q g ne]
  show ?thesis
  proof (cases rule: fat12_write_cases [OF ok rdy p assms(5), case_names full empty nospace stored])
    case full
    then show ?thesis using assms(6) by simp
  next
    case (empty e m1)
    then have s': "s' = fat12_flush (s\<lparr>img := m1\<rparr>)" using assms(6) by simp
    show ?thesis
      by (rule load [where mx = m1, OF empty(1,2)]) (use s' rdy in \<open>auto simp: fat12_flush_def names_same_def\<close>)
  next
    case (nospace e m1 m2)
    then have s': "s' = s\<lparr>img := m2\<rparr>" using assms(6) by simp
    note o = only_fat_facts [OF nospace(4) claimed_ok(2) [OF nospace(2) ok]]
    show ?thesis
      by (rule load [where mx = m2, OF nospace(1,2)])
        (use s' rdy o nospace(4,5) in \<open>auto simp: only_fat_def\<close>)
  next
    case (stored e m1 cs m4)
    then have s': "s' = fat12_flush (s\<lparr>img := m4\<rparr>)" using assms(6) by simp
    note ok1 = claimed_ok(2) [OF stored(2) ok]
    have cs: "is_cluster c \<and> fat12_get_entry m1 c = 0" if "c \<in> set cs" for c
      using stored(4) free_is_cluster [OF ok1] that by (auto simp: stored_def)
    show ?thesis
    proof (rule load [OF stored(1,2)])
      show "img s' = m4" "fat12_ready s'" using s' rdy by (simp_all add: fat12_flush_def)
      show "names_same m1 m4" using stored(4) by (simp add: stored_def)
      show "fat12_get_entry m4 x = fat12_get_entry m1 x" if "x < 4096" "fat12_get_entry m1 x \<noteq> 0" for x
      proof -
        have "x \<notin> set cs" using cs [of x] that(2) by auto
        then show ?thesis using stored(4) that(1) by (simp add: stored_def)
      qed
      show "m4 x = m1 x" if "x \<notin> fat_bytes m1" "x < e + 26 \<or> e + 32 \<le> x"
        "\<And>c. is_cluster c \<Longrightarrow> fat12_get_entry m1 c = 0 \<Longrightarrow> x \<notin> region m1 c" for x
      proof -
        have "\<forall>c\<in>set cs. x \<notin> region m1 c" using cs that(3) by (intro ballI) simp
        then show ?thesis using stored(4) that(1,2) by (simp add: stored_def)
      qed
    qed
  qed
qed

theorem fat12_write_keeps_others_witness:
  "\<exists>s'. fat12_write [0x62] [1, 2] file_fs = Some (1, s') \<and>
    fat12_load demo_name 100 s' = Some [7, 8, 9]"
proof -
  have p: "parse_83 [0x62] = ([0x42, 0x20, 0x20, 0x20, 0x20, 0x20, 0x20, 0x20], [0x20, 0x20, 0x20])"
    by code_simp
  have "fat12_find_free_entry (img file_fs) \<noteq> None"
    using file_free_entry by (simp add: file_fs_def)
  moreover have "2 \<le> card (free_clusters (img file_fs)) * cluster_bytes (img file_fs)"
    using file_space by (simp add: file_fs_def)
  ultimately obtain s' where w: "fat12_write [0x62] [1, 2] file_fs = Some (1, s')"
    using fat12_write_succeeds [OF _ _ _ p, of file_fs "[1, 2]"]
    by (auto simp: file_fs_def demo_fs_def file_ok)
  have "fat12_load demo_name 100 s' = fat12_load demo_name 100 file_fs"
    by (rule fat12_write_keeps_others [OF _ _ _ _ _ w, of _ 6656])
      (simp_all add: file_fs_def demo_fs_def file_files_ok p demo_name_ok file_find cluster_bytes_def
        bpb_fields [OF file_bpb] demo_bpb)
  then show ?thesis using w file_load by simp
qed

text \<open>
  When \<^verbatim>\<open>fat12_write\<close> of an existing file runs out of space it returns 0 like every refusal, but
  it has already released the old clusters and cleared the entry: the file now reads as empty,
  while nothing has been flushed to the disk.
\<close>

theorem fat12_write_nospace_loses:
  assumes "fs_ok (img s)" "fat12_ready s" "\<not> fat12_locked s"
    "fat12_find (fst (parse_83 f)) (snd (parse_83 f)) (img s) = Some d"
    "length data + cluster_bytes (img s) \<le> 4294967296" "fat12_write f data s = Some (0, s')"
  shows "fat12_load f n s' = Some [] \<and> disk s' = disk s"
proof -
  obtain nm ext where p: "parse_83 f = (nm, ext)" by fastforce
  have len: "length nm = 8" "length ext = 3" using length_parse_83 [OF p] by auto
  have f: "fat12_find nm ext (img s) = Some d" using assms(4) p by simp
  show ?thesis
  proof (cases rule: fat12_write_cases [OF assms(1-3) p assms(5), case_names full empty nospace stored])
    case full
    then show ?thesis using f by (auto simp: claim_entry_def split: option.splits if_splits)
  next
    case (nospace e m1 m2)
    then have s': "s' = s\<lparr>img := m2\<rparr>" using assms(6) by simp
    note ok1 = claimed_ok [OF nospace(2) assms(1)]
    note o = only_fat_facts [OF nospace(4) ok1(2)]
    have "fat12_find nm ext m1 = Some e"
      using claim_entry_claimed [OF assms(1) len nospace(1)] used_name_storable(1) [OF f] by blast
    then have f2: "fat12_find nm ext m2 = Some e" using find_same [OF o(3)] by simp
    have "ent_start m2 e = ent_start m1 e"
      using o(4) [OF ok1(3), of "26 + _"] by (auto simp: add.assoc intro!: rd16_cong)
    then have "ent_start m2 e = 0" using nospace(2) by (simp add: claimed_def)
    then have "fat12_read_file e n m2 = Some []"
      by (simp add: fat12_read_file_def) (subst read_chain.simps, simp)
    then show ?thesis using s' f2 p assms(2) by (simp add: fat12_load_def)
  qed (use assms(6) in auto)
qed

theorem fat12_write_nospace_loses_witness:
  "\<exists>s'. fat12_load demo_name 100 file_fs = Some [7, 8, 9] \<and>
    fat12_write demo_name (replicate 3000000 0) file_fs = Some (0, s') \<and>
    fat12_load demo_name 100 s' = Some []"
proof -
  let ?d = "replicate 3000000 (0 :: u8)"
  have i: "img file_fs = file_img" "fat12_ready file_fs" "\<not> fat12_locked file_fs"
    by (simp_all add: file_fs_def demo_fs_def)
  have len: "length ?d + cluster_bytes (img file_fs) \<le> 4294967296" by (simp add: i file_space)
  have "\<exists>s'. fat12_write demo_name ?d file_fs = Some (0, s')"
  proof (cases rule: fat12_write_cases [OF _ i(2,3) demo_name_ok(2) len, case_names ok full empty nospace stored])
    case ok
    then show ?case by (simp add: i file_ok)
  next
    case (empty e m1)
    then have "length ?d = 0" by (simp only: list.size)
    then show ?thesis by simp
  next
    case (stored e m1 cs m4)
    have c: "claimed file_img e m1" using stored(2) by (simp add: i)
    have "card (free_clusters m1) \<le> 4079"
      using free_clusters_bound [of m1] bpb_derived(5) [OF claimed_ok(1) [OF c file_ok]]
      by (simp add: bpb_derived(5) [OF file_bpb] demo_total)
    moreover have "cluster_bytes m1 = 512"
      using bpb_derived(2) [OF claimed_ok(1) [OF c file_ok]] file_space by simp
    ultimately show ?thesis using stored_fits [OF stored(4)] by simp
  qed auto
  then obtain s' where w: "fat12_write demo_name ?d file_fs = Some (0, s')" by blast
  then show ?thesis
    using fat12_write_nospace_loses [OF _ i(2,3) _ len w, of 6656 100] file_load
    by (auto simp: i file_ok demo_name_ok file_find)
qed

lemma delete_releases:
  assumes "fs_ok m" "owns m e cs"
  shows "\<exists>m0. (if ent_start m e \<noteq> 0 then fat12_free_chain (ent_start m e) m else Some m) = Some m0 \<and>
    only_fat m m0 \<and> (\<forall>c\<in>set cs. fat12_get_entry m0 c = 0)"
proof (cases "ent_start m e = 0")
  case True
  have "cs = []"
  proof (rule ccontr)
    assume ne: "cs \<noteq> []"
    then have "hd cs = 0" using assms(2) True chain_hd by (fastforce simp: owns_def)
    then show False using assms(2) ne hd_in_set [OF ne] unfolding owns_def by fastforce
  qed
  then show ?thesis using True by (intro exI [of _ m]) simp
next
  case False
  then have ne: "cs \<noteq> []" using assms(2) by (auto simp: owns_def)
  obtain z where z: "chain (fat12_get_entry m) (ent_start m e) cs z" "\<not> is_cluster z"
    using assms(2) ne unfolding owns_def by auto
  have "distinct cs" using assms(2) by (simp add: owns_def)
  from free_chain_chain [OF z(1) this owns_clusters [OF assms(2,1)] z(2) fs_ok_layout(2) [OF assms(1)]]
  show ?thesis using False by auto
qed

text \<open>A directory entry whose first byte is overwritten no longer answers to its name.\<close>

lemma erased_not_found:
  assumes "fs_ok m" "only_fat m m0" "fat12_find nm ext m = Some e"
    and u: "\<forall>d\<in>set (used_entries m). ent_name m d = nm \<and> ent_ext m d = ext \<longrightarrow> d = e"
    and b: "bpb_same m0 (m0(e := 0xE5))"
  shows "fat12_find nm ext (m0(e := 0xE5)) = None"
proof -
  let ?m1 = "m0(e := 0xE5)"
  note o = only_fat_facts [OF assms(2,1)]
  have e: "e \<in> set (dir_entries m)" using find_in_dir [OF assms(3)] by blast
  have u0: "used_entries m0 = used_entries m" using used_entries_same [OF o(3)] .
  have me: "m0 e \<noteq> 0"
    using find_in_dir [OF assms(3)] unfolding u0 [symmetric]
    by (auto simp: used_entries_def dest: set_takeWhileD)
  have "takeWhile (\<lambda>e. ?m1 e \<noteq> 0) (dir_entries m0) = takeWhile (\<lambda>e. m0 e \<noteq> 0) (dir_entries m0)"
    by (rule takeWhile_cong) (use me in auto)
  then have sub: "x \<in> set (used_entries m) \<and> x \<noteq> e" if "x \<in> set (used_entries ?m1)" for x
    using that unfolding used_entries_def bpb_derived(7) [OF b] u0 [unfolded used_entries_def, symmetric]
    by (auto split: if_splits)
  have same: "ent_name ?m1 x = ent_name m x \<and> ent_ext ?m1 x = ent_ext m x"
    if x: "x \<in> set (dir_entries m)" "x \<noteq> e" for x
  proof -
    have "?m1 (x + k) = m (x + k)" if "k < 11" for k
      using dir_entry_apart [OF e x(1)] x(2) that o(4) [OF x(1), of k] by auto
    from this this [of "8 + _"] show ?thesis
      by (auto simp: add.assoc intro!: mem_read_eqI)
  qed
  have "\<not> (ent_name ?m1 x = nm \<and> ent_ext ?m1 x = ext)" if "x \<in> set (used_entries ?m1)" for x
  proof -
    from sub [OF that] have x: "x \<in> set (used_entries m)" "x \<noteq> e" by auto
    then have "x \<in> set (dir_entries m)" using set_used_entries by blast
    from same [OF this x(2)] show ?thesis using u x by auto
  qed
  then show ?thesis unfolding fat12_find_def find_None_iff by blast
qed

text \<open>
  \<^verbatim>\<open>fat12_delete\<close> of a file whose name occurs once returns 1, releases every cluster the file
  owned and makes the name unknown; the volume stays well-formed.
\<close>

theorem fat12_delete_removes:
  assumes "fs_ok (img s)" "fat12_ready s" "\<not> fat12_locked s" "parse_83 f = (nm, ext)"
    "fat12_find nm ext (img s) = Some e" "owns (img s) e cs"
    "\<forall>d\<in>set (used_entries (img s)). ent_name (img s) d = nm \<and> ent_ext (img s) d = ext \<longrightarrow> d = e"
  shows "\<exists>s'. fat12_delete f s = Some (1, s') \<and> fs_ok (img s') \<and>
    fat12_find nm ext (img s') = None \<and> fat12_load f n s' = Some [] \<and>
    (\<forall>c\<in>set cs. fat12_get_entry (img s') c = 0)"
proof -
  let ?m = "img s"
  have e: "e \<in> set (dir_entries ?m)" using find_in_dir [OF assms(5)] by blast
  obtain m0 where m0: "(if ent_start ?m e \<noteq> 0 then fat12_free_chain (ent_start ?m e) ?m else Some ?m) = Some m0"
    "only_fat ?m m0" "\<forall>c\<in>set cs. fat12_get_entry m0 c = 0"
    using delete_releases [OF assms(1,6)] by blast
  note o = only_fat_facts [OF m0(2) assms(1)]
  let ?m1 = "m0(e := 0xE5)"
  have e0: "e \<in> set (dir_entries m0)" using e by (simp add: bpb_derived(7) [OF o(1)])
  have out: "?m1 x = m0 x" if "x < e \<or> e + 32 \<le> x" for x using that by auto
  have b: "bpb_same m0 ?m1" by (rule entry_write_keeps(1) [OF o(2) e0 out])
  have run: "fat12_delete f s = Some (1, fat12_flush (s\<lparr>img := ?m1\<rparr>))"
    using assms(2-5) m0(1) by (simp add: fat12_delete_def)
  have "fat12_find nm ext ?m1 = None" by (rule erased_not_found [OF assms(1) m0(2) assms(5,7) b])
  moreover have "fs_ok ?m1" using fs_ok_same [OF b] o(2) by simp
  moreover have "\<forall>c\<in>set cs. fat12_get_entry ?m1 c = 0"
  proof
    fix c assume c: "c \<in> set cs"
    then have "c < 4096" using owns_clusters [OF assms(6,1)] by auto
    from entry_write_keeps(2) [where m' = ?m1, OF o(2) e0 out this]
    have "fat12_get_entry ?m1 c = fat12_get_entry m0 c" .
    then show "fat12_get_entry ?m1 c = 0" using m0(3) c by simp
  qed
  ultimately show ?thesis
    using run assms(2,4) by (auto simp: fat12_load_def fat12_flush_def)
qed

theorem fat12_delete_removes_witness:
  "\<exists>s'. fat12_delete demo_name file_fs = Some (1, s') \<and> fat12_load demo_name 100 s' = Some [] \<and>
    fat12_get_entry (img s') 2 = 0"
proof -
  have i: "img file_fs = file_img" "fat12_ready file_fs" "\<not> fat12_locked file_fs"
    by (simp_all add: file_fs_def demo_fs_def)
  obtain s' where "fat12_delete demo_name file_fs = Some (1, s')"
    "fat12_load demo_name 100 s' = Some []" "\<forall>c\<in>set [2]. fat12_get_entry (img s') c = 0"
    using fat12_delete_removes [OF _ i(2,3) demo_name_ok(2) _ _ _, of 6656 "[2]" 100]
    unfolding i(1) by (metis empty_iff file_find file_ok file_owns file_used list.set insertE)
  then show ?thesis by (intro exI [of _ s']) simp
qed

end
