(* ===== verification/KDemo.thy ===== *)
theory KDemo
  imports KSched Fat12Props
begin

section \<open>A concrete kernel state\<close>

text \<open>
  The state the witnesses of the kernel properties use: the booted heap after the two allocations
  of a task creation, the ring of the shell task and one user task in slot 0, an empty volume and
  the page tables of boot time. \<open>demo_kinv\<close> shows that the kernel invariant holds of it.
\<close>

definition demo_h1 :: kheap where "demo_h1 = snd (the (kmalloc SIZEOF_TASK kh_boot))"
definition demo_h2 :: kheap where "demo_h2 = snd (the (kmalloc KSTACK_SIZE demo_h1))"
definition demo_kstack :: nat where "demo_kstack = fst (the (kmalloc KSTACK_SIZE demo_h1))"

lemma kh_boot_kh_inv: "kh_inv kh_boot"
  using kh_boot_inv kh_boot_live unfolding kh_inv_def by blast

lemma demo_alloc1:
  "kmalloc SIZEOF_TASK kh_boot = Some (0x600030, demo_h1)" "kh_inv demo_h1"
  "bsize (hdr demo_h1 0x600000) = 138"
  "bfree (hdr demo_h1 0x6000B2)" "bsize (hdr demo_h1 0x6000B2) = 33554214"
proof -
  obtain t where t: "kmalloc 112 kh_boot = Some (0x600000 + 48, t)" by (rule kh_boot_alloc [of 112]) simp_all
  then show a: "kmalloc SIZEOF_TASK kh_boot = Some (0x600030, demo_h1)" by (simp add: demo_h1_def)
  show "kh_inv demo_h1" by (rule kh.alloc_inv [OF kh_boot_kh_inv _ a]) simp
  have r: "reserved_size 112 = 138" by (simp add: reserved_size_def align8_def wrap32_def)
  have h: "hdr kh_boot 0x600000 = \<lparr>bsize = 33554392, bfree = True, bnext = 0, bmagic = HEAP_MAGIC_FREE, btag = tag144_zero\<rparr>"
    by (simp add: kh_boot_def init_heap_def)
  let ?s = "split_block 0x600000 138 kh_boot"
  have s: "hdr ?s 0x600000 = (hdr kh_boot 0x600000)\<lparr>bsize := 138, bnext := 0x6000B2\<rparr>"
    "bfree (hdr ?s 0x6000B2)" "bsize (hdr ?s 0x6000B2) = 33554214"
    by (simp_all add: split_block_def Let_def h)
  have m: "mark_alloc 0x600000 ?s = (0x600030, demo_h1)"
  proof (rule kmalloc_cases [OF kh_boot_lay, of 112])
    show "mark_alloc 0x600000 ?s = (0x600030, demo_h1)"
      if "\<forall>b\<in>set [0x600000]. bfree (hdr kh_boot b) \<longrightarrow> bsize (hdr kh_boot b) < reserved_size 112"
      using that by (simp add: h r)
    show "mark_alloc 0x600000 ?s = (0x600030, demo_h1)"
      if "cur \<in> set [0x600000]" "kmalloc 112 kh_boot = Some (mark_alloc cur (split_block cur (reserved_size 112) kh_boot))"
      for cur using that a r by simp
  qed simp
  note q = mark_alloc_simps [OF m]
  show "bsize (hdr demo_h1 0x600000) = 138" using q(3) s(1) by simp
  have "hdr demo_h1 0x6000B2 = hdr ?s 0x6000B2" using fun_cong [OF q(2), of "0x6000B2"] by simp
  then show "bfree (hdr demo_h1 0x6000B2)" "bsize (hdr demo_h1 0x6000B2) = 33554214" using s(2,3) by simp_all
qed

lemma demo_alloc2:
  "kmalloc KSTACK_SIZE demo_h1 = Some (demo_kstack, demo_h2)" "demo_kstack \<noteq> 0"
proof -
  obtain bs where bs: "heap_inv demo_h1 bs" using demo_alloc1(2) by (auto simp: kh_inv_def)
  then have lay: "heap_lay demo_h1 bs" by (rule heap_inv_lay)
  have base: "heap_base demo_h1 = 0x600000"
    using ks.low_alloc [OF kh_boot_kh_inv _ demo_alloc1(1)] by (simp add: kh_boot_def init_heap_def)
  obtain b cs where bc: "bs = b # cs" "b = 0x600000" "seg (hdr demo_h1) (b + 40 + bsize (hdr demo_h1 b)) cs (0x600000 + KHEAP_SIZE) 0"
    using lay base by (cases bs) (auto simp: heap_lay_def)
  then have m: "0x6000B2 \<in> set bs" using demo_alloc1(3) by (cases cs) auto
  have r: "reserved_size 4096 = 4122" by (simp add: reserved_size_def align8_def wrap32_def)
  have "\<exists>p t. kmalloc 4096 demo_h1 = Some (p, t) \<and> p \<noteq> 0"
  proof (rule kmalloc_cases [OF lay, of 4096])
    show "\<exists>p t. kmalloc 4096 demo_h1 = Some (p, t) \<and> p \<noteq> 0"
      if "\<forall>b\<in>set bs. bfree (hdr demo_h1 b) \<longrightarrow> bsize (hdr demo_h1 b) < reserved_size 4096"
      using that m demo_alloc1(4,5) r by fastforce
    show "\<exists>p t. kmalloc 4096 demo_h1 = Some (p, t) \<and> p \<noteq> 0"
      if "kmalloc 4096 demo_h1 = Some (mark_alloc cur (split_block cur (reserved_size 4096) demo_h1))" for cur
      using that mark_alloc_simps(1) by (cases "mark_alloc cur (split_block cur (reserved_size 4096) demo_h1)") fastforce
  qed simp
  then show "kmalloc KSTACK_SIZE demo_h1 = Some (demo_kstack, demo_h2)" "demo_kstack \<noteq> 0"
    by (auto simp: demo_kstack_def demo_h2_def)
qed


text \<open>\<open>demo_k e\<close>: the user task runs, and is about to end if \<open>e\<close> holds.\<close>

definition demo_task0 :: task where
  "demo_task0 = (fresh_task 0x9C000 0x9D000 GLOBAL_PML4 0 (str ''shell'') (-1))\<lparr>tnext := 0x600030\<rparr>"

definition demo_user :: "bool \<Rightarrow> task" where
  "demo_user e = (fresh_task (demo_kstack + 3936) (demo_kstack + KSTACK_SIZE) 0x9000 1 (str ''user'') 0)
     \<lparr>tnext := 0x8000, exiting := e, exit_code := 7\<rparr>"

definition demo_k :: "bool \<Rightarrow> kstate" where
  "demo_k e =
     \<lparr>kmem = demo_h2, vol = demo_fs, pgt = demo_paging, task0_at = 0x8000,
      tasks = [0x8000 \<mapsto> demo_task0, 0x600030 \<mapsto> demo_user e], current_task = 0x600030, next_id = 2,
      aslr_prng_state = 1, tss_rsp0 = demo_kstack + KSTACK_SIZE, cr3 = 0x9000,
      slot_free = (\<lambda>i. i \<noteq> 0), slot_exit_code = (\<lambda>_. 0), slot_heap_brk = (\<lambda>_. 0),
      slot_wx_delta = (\<lambda>_. 0), slot_wx_data_off = (\<lambda>_. 0), slot_redir_buf = (\<lambda>_. 0),
      slot_redir_len = (\<lambda>_. 0), slot_redir_file = (\<lambda>_. []), slot_redir_pipe = (\<lambda>_. -1),
      slot_redir_pipe_is_own = (\<lambda>_. False), slot_tty = (\<lambda>_. 0),
      pipe_bufs = (\<lambda>_. \<lparr>pdata = (\<lambda>_. 0), plen = 0, read_pos = 0, writer_done = False, in_use = False, reader_owner = -1\<rparr>),
      fd_table = (\<lambda>_. \<lparr>fvalid = False, ftype = 0, fflags = 0, fname = [], fbuf = 0, fsize = 0, fpos = 0,
                       fpipe_id = 0, fowner = 0\<rparr>), fd_table_inited = True,
      clipboard_buf = (\<lambda>_. 0), clipboard_len = 0, clipboard_level = 0, tty_last_key = (\<lambda>_. 0),
      tty_kernel_shell_inhibited = (\<lambda>_. False), tty_foreground_slot = (\<lambda>_. -1), command_len = (\<lambda>_. 0),
      tty_active = 0, klog = []\<rparr>"

lemma demo_owners:
  "task_owners (demo_k e) [0x600030, 0x8000] = {TaskBlk 0x600030, StackBlk 0x600030}"
  "slot_owners (demo_k e) = {}" "fd_owners (demo_k e) = {}"
  by (auto simp: task_owners_def slot_owners_def fd_owners_def demo_k_def file_fd_def)

lemma demo_blk [simp]:
  "blk (demo_k e) (TaskBlk 0x600030) = 0x600030" "blk (demo_k e) (StackBlk 0x600030) = demo_kstack"
  by (simp_all add: demo_k_def demo_user_def fresh_task_def)

lemma demo_mem: "mem_inv (demo_k e) {TaskBlk 0x600030, StackBlk 0x600030}"
proof -
  have i: "kh_inv demo_h2" by (rule kh.alloc_inv [OF demo_alloc1(2) _ demo_alloc2(1)]) simp
  have f1: "0x600030 \<in> kh_live demo_h1" "112 \<le> kh_usable demo_h1 0x600030"
    using kh.alloc_fresh [OF kh_boot_kh_inv _ demo_alloc1(1)] ks.alloc_usable [OF kh_boot_kh_inv _ demo_alloc1(1)] by simp_all
  have f2: "demo_kstack \<notin> kh_live demo_h1" "kh_live demo_h2 = insert demo_kstack (kh_live demo_h1)"
    "4096 \<le> kh_usable demo_h2 demo_kstack"
    using kh.alloc_fresh [OF demo_alloc1(2) _ demo_alloc2] ks.alloc_usable [OF demo_alloc1(2) _ demo_alloc2] by simp_all
  have u: "kh_usable demo_h2 0x600030 = kh_usable demo_h1 0x600030"
    using ks.alloc_frame [OF demo_alloc1(2) _ demo_alloc2(1) f1(1)] by simp
  have b: "heap_base demo_h1 = 0x600000" "heap_base demo_h2 = heap_base demo_h1"
    using ks.low_alloc [OF kh_boot_kh_inv _ demo_alloc1(1)] ks.low_alloc [OF demo_alloc1(2) _ demo_alloc2(1)]
    by (simp_all add: kh_boot_def init_heap_def)
  have "0x600030 \<noteq> demo_kstack" using f1(1) f2(1) by auto
  moreover have k: "kmem (demo_k e) = demo_h2" by (simp add: demo_k_def)
  ultimately show ?thesis using i f1 f2 u b
    by (simp add: mem_inv_def inj_on_def del: blk.simps)
qed

lemma demo_kinv: "kinv_at (demo_k e) 0x600030 [0x600030, 0x8000]"
proof -
  have "ring_inv (demo_k e) 0x600030 [0x600030, 0x8000]"
    by (simp add: ring_inv_def ring_def demo_k_def demo_task0_def demo_user_def fresh_task_def task_ok_def blocked_def)
  moreover have "files_inv (demo_k e)"
    using demo_ok by (simp add: files_inv_def demo_k_def demo_fs_def slot_ok_def fd_ok_def file_fd_def)
  moreover have "free_inv (demo_k e)" by (simp add: free_inv_def demo_k_def)
  moreover have "paging_ok (pgt (demo_k e))" by (simp add: demo_k_def demo_paging_def init_paging_ok)
  ultimately show ?thesis using demo_mem by (simp add: kinv_at_def demo_owners)
qed

lemma demo_current [simp]:
  "current_task (demo_k e) = 0x600030" "tasks (demo_k e) 0x600030 = Some (demo_user e)"
  "tasks (demo_k e) 0x8000 = Some demo_task0" "task0_at (demo_k e) = 0x8000"
  by (simp_all add: demo_k_def)

lemma demo_kinv_ex: "kinv (demo_k e)"
  using demo_kinv by (auto simp: kinv_def)

end
