(* ===== verification/KProps.thy ===== *)
theory KProps
  imports KDemo
begin

section \<open>Properties of the scheduler\<close>

text \<open>
  What \<open>schedule\<close> does to a kernel that satisfies the invariant: it always returns and keeps the
  invariant, it removes a dying task with everything it owned, it gives the processor to the first
  runnable task after the current one, and no runnable task waits longer than the time slices of
  the tasks before it. \<open>schedule_reentered_hangs\<close> shows what happens when the timer interrupts
  \<open>schedule\<close> itself.
\<close>

text \<open>
  C2. The scheduler never fails and never corrupts the kernel: from every state that satisfies the
  kernel invariant it returns a stack pointer, and the invariant holds again. In particular no block
  is freed twice, no freed task is used, and all walks over the ring of tasks end.
\<close>
theorem schedule_keeps_kernel:
  assumes "kinv s"
  shows "\<exists>r' s'. schedule r s = Some (r', s') \<and> kinv s'"
  by (rule schedule_total [OF assms])

theorem schedule_keeps_kernel_witness: "\<exists>r' s'. schedule 0x80F60 (demo_k True) = Some (r', s') \<and> kinv s'"
  by (rule schedule_keeps_kernel [OF demo_kinv_ex])

subsection \<open>The end of a task\<close>

lemma schedule_dying_full:
  assumes k: "kinv_at s (current_task s) xs" and t: "tasks s (current_task s) = Some t" and e: "exiting t"
  obtains s2 n u s' zs where "schedule r s = Some (rsp u, s')" "tasks s2 n = Some u"
    "find (\<lambda>x. \<not> blocked (the (tasks s2 x))) (tl xs) = Some n" "current_task s' = n"
    "kinv_at s' n zs" "set zs = set (tl xs)" "tasks s' (current_task s) = None"
    "kinv_at s2 (tnext t) (tl xs)" "current_task s \<notin> set (tl xs)"
    "0 \<le> user_slot_index t \<longrightarrow> slot_free s' (nat (user_slot_index t)) \<and>
       slot_exit_code s' (nat (user_slot_index t)) = exit_code t \<and>
       (\<forall>fd < MAX_FDS. \<not> (fvalid (fd_table s' fd) \<and> fowner (fd_table s' fd) = user_slot_index t))"
    "\<exists>ys ws. tl xs = ys @ n # ws \<and> zs = n # ws @ ys"
    "tasks s' = (tasks s2)(n \<mapsto> u\<lparr>slice_left := priority u\<rparr>)"
    "\<forall>x \<in> set (tl xs). \<exists>m. tasks s2 x = Some ((wake s (the (tasks s x)))\<lparr>tnext := m\<rparr>)"
proof -
  let ?c = "current_task s" and ?s1 = "after_tick r xs s"
  obtain s2 n u where s2: "reap ?c (ticked r s t) ?s1 = Some s2" "kinv_at s2 (tnext t) (tl xs)"
    "find (\<lambda>x. \<not> blocked (the (tasks s2 x))) (tl xs) = Some n" "n \<in> set (tl xs)" "tasks s2 n = Some u"
    "schedule r s = switch_to n (page_directory t) s2"
    using schedule_dying [OF k t e] by blast
  obtain ys where xs: "xs = ?c # ys" using kinv_current [OF k] by blast
  have k1: "kinv_at ?s1 ?c xs" by (rule after_tick_kinv [OF k])
  have t1: "tasks ?s1 ?c = Some (ticked r s t)" using after_tick_look [OF k, of ?c r] t xs by simp
  have e1: "exiting (ticked r s t)" using e by simp
  have R: "a \<notin> set (tl xs)" "tasks s2 ?c = None" "\<forall>x \<in> set (tl xs). \<exists>t. tasks ?s1 x = Some t \<and> (\<exists>n. tasks s2 x = Some (t\<lparr>tnext := n\<rparr>))"
    "0 \<le> user_slot_index t \<longrightarrow> slot_free s2 (nat (user_slot_index t)) \<and>
       slot_exit_code s2 (nat (user_slot_index t)) = exit_code t \<and>
       (\<forall>fd < MAX_FDS. \<not> (fvalid (fd_table s2 fd) \<and> fowner (fd_table s2 fd) = user_slot_index t))"
    if "a = ?c" for a
    using reap_ok [OF k1 t1 e1] s2(1) that by auto
  obtain s' where s': "switch_to n (page_directory t) s2 = Some (rsp u, s')" "current_task s' = n"
    "tasks s' = (tasks s2)(n \<mapsto> u\<lparr>slice_left := priority u\<rparr>)"
    "\<exists>ys zs. tl xs = ys @ n # zs \<and> kinv_at s' n (n # zs @ ys)"
    "s' = s2\<lparr>tasks := tasks s', current_task := n, tss_rsp0 := tss_rsp0 s', cr3 := cr3 s'\<rparr>"
    using switch_ok [OF s2(2,4,5), of "page_directory t"] by blast
  obtain ys ws where z: "tl xs = ys @ n # ws" "kinv_at s' n (n # ws @ ys)" using s'(4) by blast
  have same: "slot_free s' = slot_free s2" "slot_exit_code s' = slot_exit_code s2" "fd_table s' = fd_table s2"
    by (subst s'(5), simp)+
  have nc: "n \<noteq> ?c" using R(1) [OF refl] s2(4) by auto
  have w: "\<forall>x \<in> set (tl xs). \<exists>m. tasks s2 x = Some ((wake s (the (tasks s x)))\<lparr>tnext := m\<rparr>)"
  proof
    fix x assume x: "x \<in> set (tl xs)"
    then have "x \<noteq> ?c" "x \<in> set xs" using R(1) [OF refl] xs by auto
    then have l: "tasks ?s1 x = Some (wake s (the (tasks s x)))" using after_tick_look [OF k, of x r] by simp
    obtain t' m where "tasks ?s1 x = Some t'" "tasks s2 x = Some (t'\<lparr>tnext := m\<rparr>)" using R(3) [OF refl] x by blast
    then show "\<exists>m. tasks s2 x = Some ((wake s (the (tasks s x)))\<lparr>tnext := m\<rparr>)" using l by auto
  qed
  show thesis
    by (rule that [of u s' s2 n "n # ws @ ys"])
      (use s2 s' z R(1,2,4) [OF refl] same nc w in auto)
qed

text \<open>
  A task that ends disappears completely: one call of \<open>schedule\<close> takes it out of the ring, frees
  its structure and kernel stack, frees its slot with the exit code recorded, and closes all of its
  descriptors, while exactly the other tasks stay in the ring.
\<close>
theorem schedule_reaps:
  assumes "kinv_at s (current_task s) xs" "tasks s (current_task s) = Some t" "exiting t" "user_slot_index t = int i"
  shows "\<exists>r' s' zs. schedule r s = Some (r', s') \<and> kinv_at s' (current_task s') zs \<and>
    set zs = set xs - {current_task s} \<and> tasks s' (current_task s) = None \<and> slot_free s' i \<and>
    slot_exit_code s' i = exit_code t \<and> (\<forall>fd < MAX_FDS. \<not> (fvalid (fd_table s' fd) \<and> fowner (fd_table s' fd) = int i))"
proof -
  obtain ys where xs: "xs = current_task s # ys" using kinv_current [OF assms(1)] by blast
  show ?thesis
  proof (rule schedule_dying_full [OF assms(1-3), of r])
    fix s2 n u s' zs
    assume a: "schedule r s = Some (rsp u, s')" "current_task s' = n" "kinv_at s' n zs" "set zs = set (tl xs)"
      "tasks s' (current_task s) = None" "current_task s \<notin> set (tl xs)"
      "0 \<le> user_slot_index t \<longrightarrow> slot_free s' (nat (user_slot_index t)) \<and>
       slot_exit_code s' (nat (user_slot_index t)) = exit_code t \<and>
       (\<forall>fd < MAX_FDS. \<not> (fvalid (fd_table s' fd) \<and> fowner (fd_table s' fd) = user_slot_index t))"
    then have "set zs = set xs - {current_task s}" using xs by auto
    then show ?thesis using a assms(4) by auto
  qed
qed

theorem schedule_reaps_witness:
  "\<exists>r' s' zs. schedule 0 (demo_k True) = Some (r', s') \<and> kinv_at s' (current_task s') zs \<and> set zs = {0x8000} \<and>
     tasks s' 0x600030 = None \<and> slot_free s' 0 \<and> slot_exit_code s' 0 = 7"
proof -
  have k: "kinv_at (demo_k True) (current_task (demo_k True)) [0x600030, 0x8000]" using demo_kinv by simp
  have t: "tasks (demo_k True) (current_task (demo_k True)) = Some (demo_user True)" by simp
  have f: "exiting (demo_user True)" "user_slot_index (demo_user True) = int 0" "exit_code (demo_user True) = 7"
    by (simp_all add: demo_user_def fresh_task_def)
  have s: "set [0x600030, 0x8000] - {0x600030 :: nat} = {0x8000}" by auto
  from schedule_reaps [OF k t f(1,2), of 0] show ?thesis by (simp add: f(3) s) blast
qed

subsection \<open>The next task\<close>

text \<open>
  Round robin: when the time slice of the current task is over, or it blocked itself, the
  processor goes to the first task after it in the ring that is runnable after the wake-up scan;
  the kernel continues on that task's saved stack pointer, with its kernel stack in the TSS, its page
  tables and a full time slice.
\<close>
theorem schedule_round_robin:
  assumes "kinv_at s (current_task s) (current_task s # ys)" "tasks s (current_task s) = Some t" "\<not> exiting t"
    and "blocked (wake s t) \<or> slice_left t \<le> 1" "cr3 s = page_directory t"
  shows "\<exists>n u s'. find (\<lambda>x. \<not> blocked (wake s (the (tasks s x)))) (ys @ [current_task s]) = Some n \<and>
    tasks s n = Some u \<and> schedule r s = Some (if n = current_task s then r else rsp u, s') \<and> current_task s' = n \<and>
    tss_rsp0 s' = kernel_stack_top u \<and> cr3 s' = page_directory u \<and> slice_left (the (tasks s' n)) = priority u"
proof -
  let ?c = "current_task s" and ?s1 = "after_tick r (current_task s # ys) s"
  have k1: "kinv_at ?s1 ?c (?c # ys)" by (rule after_tick_kinv [OF assms(1)])
  have nc: "\<not> (\<not> blocked (ticked r s t) \<and> 0 < slice_left (ticked r s t))"
    using assms(3,4) by (auto simp: slice_account)
  obtain n u where n: "find (\<lambda>x. \<not> blocked (the (tasks ?s1 x))) (ys @ [?c]) = Some n" "tasks ?s1 n = Some u"
    "schedule r s = switch_to n (page_directory t) ?s1"
    using schedule_alive [OF assms(1-3), of r] if_not_P [OF nc] by metis
  have look: "tasks ?s1 x = Some (if x = ?c then ticked r s (the (tasks s x)) else wake s (the (tasks s x)))"
    if "x \<in> set (?c # ys)" for x
    by (rule after_tick_look [OF assms(1) that])
  have cg: "find (\<lambda>x. \<not> blocked (the (tasks ?s1 x))) (ys @ [?c]) = find (\<lambda>x. \<not> blocked (wake s (the (tasks s x)))) (ys @ [?c])"
    by (rule find_cong) (use look in auto)
  have m: "n \<in> set (?c # ys)" using find_in_set [OF n(1)] by auto
  obtain v where v: "tasks s n = Some v" using kinv_at_ring [OF assms(1) m] by blast
  obtain s' where s': "switch_to n (page_directory t) ?s1 = Some (rsp u, s')" "current_task s' = n"
    "tss_rsp0 s' = kernel_stack_top u" "cr3 s' = (if page_directory u \<noteq> page_directory t then page_directory u else cr3 ?s1)"
    "tasks s' = (tasks ?s1)(n \<mapsto> u\<lparr>slice_left := priority u\<rparr>)"
    using switch_ok [OF k1 m n(2), of "page_directory t"] by blast
  have u: "u = (if n = ?c then ticked r s v else wake s v)" using n(2) look [OF m] v by (cases "n = ?c") simp_all
  have f: "kernel_stack_top u = kernel_stack_top v" "page_directory u = page_directory v" "priority u = priority v"
    "rsp u = (if n = ?c then r else rsp v)" unfolding u by simp_all
  have c: "cr3 s' = page_directory v" using s'(4) assms(5) f(2) by (auto split: if_splits)
  show ?thesis
    by (intro exI [of _ n] exI [of _ v] exI [of _ s'])
      (use n(1) cg v n(3) s' f c in simp)
qed

theorem schedule_round_robin_witness:
  "\<exists>u s'. schedule 0x1234 ((demo_k False)\<lparr>tasks := [0x8000 \<mapsto> demo_task0, 0x600030 \<mapsto> (demo_user False)\<lparr>slice_left := 1\<rparr>]\<rparr>)
     = Some (rsp u, s') \<and> u = demo_task0 \<and> current_task s' = 0x8000"
proof -
  let ?s = "(demo_k False)\<lparr>tasks := [0x8000 \<mapsto> demo_task0, 0x600030 \<mapsto> (demo_user False)\<lparr>slice_left := 1\<rparr>]\<rparr>"
  have k: "kinv_at ?s 0x600030 [0x600030, 0x8000]"
  proof (rule kinv_at_tasks [OF demo_kinv])
    show "\<exists>t'. [0x8000 \<mapsto> demo_task0, 0x600030 \<mapsto> (demo_user False)\<lparr>slice_left := 1\<rparr>] x = Some t' \<and>
        task_like (the (tasks (demo_k False) x)) t'" if "x \<in> set [0x600030, 0x8000]" for x
      using that by (auto simp: task_like_def task_ok_def demo_task0_def demo_user_def fresh_task_def)
  qed (simp_all add: demo_task0_def fresh_task_def blocked_def)
  have w: "\<not> blocked (wake ?s demo_task0)" by (simp add: demo_task0_def fresh_task_def wake_def blocked_def)
  have c: "current_task ?s = 0x600030" by simp
  have "\<exists>n u s'. find (\<lambda>x. \<not> blocked (wake ?s (the (tasks ?s x)))) ([0x8000] @ [current_task ?s]) = Some n \<and>
    tasks ?s n = Some u \<and> schedule 0x1234 ?s = Some (if n = current_task ?s then 0x1234 else rsp u, s') \<and> current_task s' = n \<and>
    tss_rsp0 s' = kernel_stack_top u \<and> cr3 s' = page_directory u \<and> slice_left (the (tasks s' n)) = priority u"
    by (rule schedule_round_robin [where t = "(demo_user False)\<lparr>slice_left := 1\<rparr>"])
      (use k in \<open>simp_all add: demo_user_def fresh_task_def demo_k_def\<close>)
  then show ?thesis using w by auto
qed


subsection \<open>No runnable task starves\<close>

lemma ticks_heap:
  "kh_inv (h\<lparr>heap_ticks := x\<rparr>) = kh_inv h" "kh_live (h\<lparr>heap_ticks := x\<rparr>) = kh_live h"
  "kh_usable (h\<lparr>heap_ticks := x\<rparr>) = kh_usable h"
proof -
  have i: "heap_inv (h\<lparr>heap_ticks := x\<rparr>) = heap_inv h"
    by (rule ext) (simp add: heap_inv_def heap_core_def heap_lay_def quar_ring_def)
  have l: "live (h\<lparr>heap_ticks := x\<rparr>) = live h" by (rule ext) (simp add: live_def)
  have g: "guards_ok (h\<lparr>heap_ticks := x\<rparr>) = guards_ok h" by (rule ext) (simp add: guards_ok_def)
  show "kh_inv (h\<lparr>heap_ticks := x\<rparr>) = kh_inv h" by (simp add: kh_inv_def i l g)
  show "kh_live (h\<lparr>heap_ticks := x\<rparr>) = kh_live h" by (simp add: kh_live_def i l)
  show "kh_usable (h\<lparr>heap_ticks := x\<rparr>) = kh_usable h" by (rule ext) (simp add: kh_usable_def)
qed

lemma timer_simps [simp]:
  "tasks (timer_handler_main s) = tasks s" "current_task (timer_handler_main s) = current_task s"
  by (simp_all add: timer_handler_main_def)

lemma timer_kinv: "kinv_at s cur xs \<Longrightarrow> kinv_at (timer_handler_main s) cur xs"
proof -
  assume k: "kinv_at s cur xs"
  let ?s = "timer_handler_main s"
  have b: "blk ?s = blk s"
  proof
    show "blk ?s x = blk s x" for x by (cases x) (simp_all add: timer_handler_main_def)
  qed
  have m: "mem_inv ?s os = mem_inv s os" for os
    by (simp add: mem_inv_def b) (simp add: timer_handler_main_def ticks_heap)
  show ?thesis using k m
    by (simp add: kinv_at_def ring_inv_def files_inv_def free_inv_def slot_ok_def task_ok_def
        task_owners_def slot_owners_def fd_owners_def Let_def timer_handler_main_def)
qed

text \<open>\<open>waits s ys i y\<close>: the runnable task \<open>y\<close> is the \<open>i\<close>-th after the current one.\<close>

definition waits :: "kstate \<Rightarrow> nat list \<Rightarrow> nat \<Rightarrow> nat \<Rightarrow> bool" where
  "waits s ys i y \<longleftrightarrow>
     kinv_at s (current_task s) (current_task s # ys) \<and> i < length ys \<and> ys ! i = y \<and>
     \<not> blocked (the (tasks s y))"

definition patience :: "kstate \<Rightarrow> nat \<Rightarrow> nat" where
  "patience s i = nat (max 1 (slice_left (the (tasks s (current_task s))))) + 10 * i"

lemma find_before:
  assumes "i < length ys" "P (ys ! i)"
  obtains j where "j \<le> i" "find P (ys @ zs) = Some (ys ! j)"
proof -
  from assms have "\<exists>j \<le> i. find P (ys @ zs) = Some (ys ! j)"
  proof (induction ys arbitrary: i)
    case Nil
    then show ?case by simp
  next
    case (Cons a ys)
    show ?case
    proof (cases "P a")
      case True
      then show ?thesis by (intro exI [of _ 0]) simp
    next
      case False
      then obtain k where "i = Suc k" using Cons.prems by (cases i) auto
      then obtain j where "j \<le> k" "find P (ys @ zs) = Some (ys ! j)" using Cons by auto
      then show ?thesis using False \<open>i = Suc k\<close> by (intro exI [of _ "Suc j"]) simp
    qed
  qed
  then show thesis using that by blast
qed

text \<open>After a switch to the task at position \<open>j\<close> before it, the waiting task has moved up.\<close>

lemma waits_moved_up:
  assumes d: "distinct (c # ys)" and j: "j < i" "i < length ys"
    and sp: "p @ [ys ! j] @ q = c # ys \<or> p @ [ys ! j] @ q = ys"
    and k: "kinv_at s (ys ! j) (ys ! j # q @ p)" "current_task s = ys ! j" "\<not> blocked (the (tasks s (ys ! i)))"
    and sl: "slice_left (the (tasks s (ys ! j))) = priority u" "priority u \<le> PRIORITY_MAX"
  shows "\<exists>ys' i'. waits s ys' i' (ys ! i) \<and> patience s i' \<le> 10 * i"
proof -
  have "p @ [ys ! j] @ q = ys \<or> (\<exists>p'. p = c # p' \<and> p' @ [ys ! j] @ q = ys)"
    using sp by (cases p) (use d j in auto)
  then obtain p' where p': "p' @ [ys ! j] @ q = ys" by blast
  obtain e where e: "e = ys ! j" by blast
  then have yl: "ys = p' @ e # q" using p' by simp
  then have l: "length p' < length ys" "ys ! length p' = e" by simp_all
  then have "length p' = j" using d j e by (simp add: nth_eq_iff_index_eq)
  then have q: "q = drop (Suc j) ys" using yl by simp
  have ij: "i - Suc j < length ys - Suc j" using j by linarith
  have w: "waits s (q @ p) (i - Suc j) (ys ! i)"
    using k j q ij by (simp add: waits_def nth_append)
  have "patience s (i - Suc j) \<le> 10 * i"
    using sl k(2) j by (simp add: patience_def)
  then show ?thesis using w by blast
qed


lemma wait_step:
  assumes w: "waits s ys i y"
  shows "\<exists>r' s'. timer_interrupt r s = Some (r', s') \<and>
    (current_task s' = y \<or> (\<exists>ys' i'. waits s' ys' i' y \<and> patience s' i' < patience s i))"
proof -
  let ?s = "timer_handler_main s" and ?c = "current_task s"
  have k: "kinv_at ?s (current_task ?s) (?c # ys)" and i: "i < length ys" "ys ! i = y" and y: "\<not> blocked (the (tasks s y))"
    using w timer_kinv by (auto simp: waits_def)
  have d: "distinct (?c # ys)" using k by (auto simp: kinv_at_def ring_inv_def ring_def)
  obtain t where t: "tasks ?s (current_task ?s) = Some t" using kinv_current [OF k] by blast
  have wy: "wake ?s (the (tasks s y)) = the (tasks s y)" by (rule wake_unblocked [OF y])
  have ys: "y \<in> set ys" using i nth_mem by blast
  then have yc: "y \<noteq> ?c" "y \<in> set ys" using d by auto
  have slice: "patience s i = nat (max 1 (slice_left t)) + 10 * i" using t by (simp add: patience_def)
  have p0: "10 * i < patience s i" by (simp add: patience_def less_max_iff_disj)
  show ?thesis
  proof (cases "exiting t")
    case True
    show ?thesis
    proof (rule schedule_dying_full [OF k t True, of r])
      fix s2 n u s' zs
      assume a: "schedule r ?s = Some (rsp u, s')" "tasks s2 n = Some u"
        "find (\<lambda>x. \<not> blocked (the (tasks s2 x))) (tl (?c # ys)) = Some n" "current_task s' = n"
        "kinv_at s' n zs" "\<exists>p q. tl (?c # ys) = p @ n # q \<and> zs = n # q @ p"
        "tasks s' = (tasks s2)(n \<mapsto> u\<lparr>slice_left := priority u\<rparr>)"
        "\<forall>x \<in> set (tl (?c # ys)). \<exists>m. tasks s2 x = Some ((wake ?s (the (tasks ?s x)))\<lparr>tnext := m\<rparr>)"
        "kinv_at s2 (tnext t) (tl (?c # ys))"
      obtain m where m: "tasks s2 y = Some ((the (tasks s y))\<lparr>tnext := m\<rparr>)" using a(8) yc(2) wy by auto
      then have uy: "\<not> blocked (the (tasks s2 (ys ! i)))" using y i(2) by (simp add: blocked_def)
      obtain j where j: "j \<le> i" "n = ys ! j"
        using find_before [of i ys "\<lambda>x. \<not> blocked (the (tasks s2 x))" "[]"] i(1) uy a(3) by auto
      show ?thesis
      proof (cases "j = i")
        case True
        then show ?thesis using a(1,4) j i(2) by (auto simp: timer_interrupt_def)
      next
        case False
        then have ji: "j < i" using j by simp
        obtain p q where pq: "ys = p @ n # q" "zs = n # q @ p" using a(6) by auto
        have ny: "n \<noteq> y" using d ji i j(2) by (auto simp: nth_eq_iff_index_eq)
        have u: "priority u \<le> PRIORITY_MAX"
          using kinv_at_ring [OF a(9), of n] pq a(2) by (auto simp: task_ok_def)
        have "\<exists>ys' i'. waits s' ys' i' (ys ! i) \<and> patience s' i' \<le> 10 * i"
        proof (rule waits_moved_up [OF d ji i(1)])
          show "p @ [ys ! j] @ q = ?c # ys \<or> p @ [ys ! j] @ q = ys"
            unfolding j(2) [symmetric] using pq(1) by simp
          show "kinv_at s' (ys ! j) (ys ! j # q @ p)" "current_task s' = ys ! j"
            unfolding j(2) [symmetric] using a(4,5) pq(2) by simp_all
          show "\<not> blocked (the (tasks s' (ys ! i)))" using a(7) uy ny i(2) by simp
          show "slice_left (the (tasks s' (ys ! j))) = priority u" unfolding j(2) [symmetric] using a(7) by simp
        qed (rule u)
        then have "\<exists>ys' i'. waits s' ys' i' y \<and> patience s' i' < patience s i"
          using i(2) p0 by (auto intro: le_less_trans)
        then show ?thesis using a(1) by (auto simp: timer_interrupt_def)
      qed
    qed
  next
    case ex: False
    let ?s1 = "after_tick r (?c # ys) ?s"
    have k1: "kinv_at ?s1 ?c (?c # ys)" using after_tick_kinv [OF k, of r] by simp
    have y1: "tasks ?s1 y = Some (the (tasks s y))"
      using after_tick_look [OF k, of y r] yc wy by simp
    have al: "if \<not> blocked (ticked r ?s t) \<and> 0 < slice_left (ticked r ?s t) then schedule r ?s = Some (r, ?s1)
      else \<exists>n u. find (\<lambda>x. \<not> blocked (the (tasks ?s1 x))) (ys @ [?c]) = Some n \<and>
        tasks ?s1 n = Some u \<and> schedule r ?s = switch_to n (page_directory t) ?s1"
      by (rule schedule_alive [of ?s ys t r, unfolded timer_simps]) (use k t ex in simp_all)
    show ?thesis
    proof (cases "\<not> blocked (ticked r ?s t) \<and> 0 < slice_left (ticked r ?s t)")
      case True
      then have sc: "schedule r ?s = Some (r, ?s1)" using al by simp
      have c1: "tasks ?s1 ?c = Some (ticked r ?s t)" using after_tick_look [OF k, of ?c r] t by simp
      have "waits ?s1 ys i y" using k1 i y1 y by (simp add: waits_def)
      moreover have "patience ?s1 i < patience s i"
      proof -
        have "patience ?s1 i = nat (max 1 (slice_left (ticked r ?s t))) + 10 * i"
          using c1 by (simp add: patience_def)
        moreover have "slice_left (ticked r ?s t) = slice_left t - 1"
          using True ex by (simp add: slice_account)
        moreover have "0 < slice_left (ticked r ?s t)" using True by simp
        ultimately show ?thesis unfolding slice by simp
      qed
      ultimately show ?thesis using sc by (auto simp: timer_interrupt_def)
    next
      case False
      then obtain n u where n: "find (\<lambda>x. \<not> blocked (the (tasks ?s1 x))) (ys @ [?c]) = Some n" "tasks ?s1 n = Some u"
        "schedule r ?s = switch_to n (page_directory t) ?s1" using al by auto
      have uy: "\<not> blocked (the (tasks ?s1 (ys ! i)))" using y1 y i(2) by simp
      obtain j where j: "j \<le> i" "n = ys ! j"
        using find_before [of i ys "\<lambda>x. \<not> blocked (the (tasks ?s1 x))" "[?c]"] i(1) uy n(1) by auto
      have m: "n \<in> set (?c # ys)" using j i(1) by simp
      obtain s' where s': "switch_to n (page_directory t) ?s1 = Some (rsp u, s')" "current_task s' = n"
        "tasks s' = (tasks ?s1)(n \<mapsto> u\<lparr>slice_left := priority u\<rparr>)"
        "\<exists>p q. ?c # ys = p @ n # q \<and> kinv_at s' n (n # q @ p)"
        using switch_ok [OF k1 m n(2), of "page_directory t"] by blast
      show ?thesis
      proof (cases "j = i")
        case True
        then show ?thesis using s'(1,2) n(3) j i(2) by (auto simp: timer_interrupt_def)
      next
        case False
        then have ji: "j < i" using j by simp
        obtain p q where pq: "?c # ys = p @ n # q" "kinv_at s' n (n # q @ p)" using s'(4) by blast
        have ny: "n \<noteq> y" using d ji i j(2) by (auto simp: nth_eq_iff_index_eq)
        have u: "priority u \<le> PRIORITY_MAX" using kinv_at_ring [OF k1 m] n(2) by (auto simp: task_ok_def)
        have "\<exists>ys' i'. waits s' ys' i' (ys ! i) \<and> patience s' i' \<le> 10 * i"
        proof (rule waits_moved_up [OF d ji i(1)])
          show "p @ [ys ! j] @ q = ?c # ys \<or> p @ [ys ! j] @ q = ys"
            unfolding j(2) [symmetric] using pq(1) by simp
          show "kinv_at s' (ys ! j) (ys ! j # q @ p)" "current_task s' = ys ! j"
            unfolding j(2) [symmetric] using s'(2) pq(2) by simp_all
          show "\<not> blocked (the (tasks s' (ys ! i)))" using s'(3) uy ny i(2) by simp
          show "slice_left (the (tasks s' (ys ! j))) = priority u" unfolding j(2) [symmetric] using s'(3) by simp
        qed (rule u)
        then have "\<exists>ys' i'. waits s' ys' i' y \<and> patience s' i' < patience s i"
          using i(2) p0 by (auto intro: le_less_trans)
        then show ?thesis using s'(1) n(3) by (auto simp: timer_interrupt_def)
      qed
    qed
  qed
qed

text \<open>A sequence of timer interrupts, each with the stack pointer it finds.\<close>

fun run_ticks :: "nat list \<Rightarrow> kstate \<Rightarrow> kstate option" where
  "run_ticks [] s = Some s"
| "run_ticks (r # rs) s = (case timer_interrupt r s of None \<Rightarrow> None | Some (_, s') \<Rightarrow> run_ticks rs s')"

lemma wait_ends:
  assumes "waits s ys i y" "patience s i \<le> length rs"
  shows "\<exists>k \<le> patience s i. \<exists>s'. run_ticks (take k rs) s = Some s' \<and> current_task s' = y"
  using assms
proof (induction "patience s i" arbitrary: s ys i rs rule: less_induct)
  case less
  have "0 < patience s i" by (simp add: patience_def less_max_iff_disj)
  then obtain r rs' where rs: "rs = r # rs'" using less.prems(2) by (cases rs) auto
  obtain r' s1 where s1: "timer_interrupt r s = Some (r', s1)"
    "current_task s1 = y \<or> (\<exists>ys' i'. waits s1 ys' i' y \<and> patience s1 i' < patience s i)"
    using wait_step [OF less.prems(1)] by blast
  show ?case
  proof (cases "current_task s1 = y")
    case True
    then show ?thesis using s1(1) rs \<open>0 < patience s i\<close> by (intro exI [of _ 1]) simp
  next
    case False
    then obtain ys' i' where w: "waits s1 ys' i' y" "patience s1 i' < patience s i" using s1(2) by blast
    then have "patience s1 i' \<le> length rs'" using less.prems(2) rs by simp
    from less.hyps [OF w(2,1) this] obtain k s' where
      "k \<le> patience s1 i'" "run_ticks (take k rs') s1 = Some s'" "current_task s' = y" by blast
    then show ?thesis using s1(1) rs w(2) by (intro exI [of _ "Suc k"]) simp
  qed
qed

text \<open>
  C5. No runnable task starves: the \<open>i\<close>-th task after the current one, if it is not blocked, is on
  the processor after at most the rest of the current time slice plus ten ticks (the longest time
  slice) for each task before it, whatever these tasks do between the ticks short of a system call.
\<close>
theorem runnable_task_runs:
  assumes "kinv_at s (current_task s) (current_task s # ys)" "i < length ys" "\<not> blocked (the (tasks s (ys ! i)))"
    and "n = nat (max 1 (slice_left (the (tasks s (current_task s))))) + 10 * i" "length rs = n"
  shows "\<exists>k \<le> n. \<exists>s'. run_ticks (take k rs) s = Some s' \<and> current_task s' = ys ! i"
  using wait_ends [of s ys i "ys ! i" rs] assms by (simp add: waits_def patience_def)

theorem runnable_task_runs_witness:
  "\<exists>k \<le> 3. \<exists>s'. run_ticks (take k [0, 0, 0]) (demo_k False) = Some s' \<and> current_task s' = 0x8000"
proof -
  have "\<exists>k \<le> 3. \<exists>s'. run_ticks (take k [0, 0, 0]) (demo_k False) = Some s' \<and> current_task s' = [0x8000] ! 0"
    by (rule runnable_task_runs)
      (use demo_kinv in \<open>simp_all add: demo_task0_def demo_user_def fresh_task_def blocked_def\<close>)
  then show ?thesis by simp
qed

subsection \<open>A tick inside the scheduler\<close>

lemma schedule_lost:
  assumes c: "current_task s \<noteq> 0" "tasks s (current_task s) = Some t" "tnext t \<in> R" "current_task s \<notin> R"
    and R: "\<And>x. x \<in> R \<Longrightarrow> \<exists>n. tasks s x = Some n \<and> tnext n \<in> R"
  shows "schedule r s = None"
proof -
  let ?c = "current_task s"
  have "ring_update tnext (wake s) ?c ((tasks s)(?c \<mapsto> wake s t)) (tnext t) = None"
  proof (rule ring_update_lost [where R = R])
    show "\<exists>n. ((tasks s)(?c \<mapsto> wake s t)) x = Some n \<and> tnext n \<in> R" if "x \<in> R" for x
      using R [OF that] c(4) that by auto
  qed (use c in simp_all)
  moreover have "tnext t \<noteq> ?c" using c(3,4) by auto
  ultimately have "ring_update tnext (wake s) ?c (tasks s) ?c = None"
    using c(2) by (subst ring_update.simps) simp
  then show ?thesis using c(1) by (simp add: schedule_def)
qed

text \<open>
  C40. A timer tick that arrives while \<open>schedule\<close> writes the files of a dying task back to the disk
  hangs the kernel. The driver waits for the disk with interrupts enabled, the dying task is already
  unlinked but still \<open>current_task\<close>, and the first loop of the nested \<open>schedule\<close> looks for it in
  a ring it has left: it never returns.
\<close>
theorem schedule_reentered_hangs:
  assumes "kinv_at s (current_task s) xs" "tasks s (current_task s) = Some t" "exiting t"
    and "find_pred (tasks s) (current_task s) (tnext t) = Some pred" "tasks s pred = Some p"
  shows "timer_interrupt r (s\<lparr>tasks := (tasks s)(pred \<mapsto> p\<lparr>tnext := tnext t\<rparr>)\<rparr>) = None"
proof -
  let ?c = "current_task s" and ?ts = "(tasks s)(pred \<mapsto> p\<lparr>tnext := tnext t\<rparr>)"
  have r: "ring tnext (tasks s) ?c xs" and z: "task0_at s \<in> set xs" "\<not> exiting (the (tasks s (task0_at s)))"
    using assms(1) by (auto simp: kinv_at_def ring_inv_def Let_def)
  obtain zs where zs: "xs = ?c # zs" "?c \<noteq> 0" using kinv_current [OF assms(1)] by blast
  moreover have "zs \<noteq> []" using z zs assms(2,3) by auto
  ultimately obtain ys q where xs: "xs = ?c # ys @ [q]" by (metis append_butlast_last_id)
  have d: "?c \<notin> set (ys @ [q])" using r xs by (simp add: ring_def)
  have pth: "path tnext (tasks s) (tnext t) (ys @ [q]) ?c" using r xs assms(2) by (simp add: ring_def)
  have "pred = q" using find_pred_path [OF pth] d list.set_sel(2) [of "ys @ [q]" ?c] assms(4) by auto
  then have r': "ring tnext ?ts (tnext t) (ys @ [q])"
    using ring_remove_first [OF r [unfolded xs] _ refl, of p "p\<lparr>tnext := tnext t\<rparr>"] assms(5) path_hd [OF pth] by simp
  have "schedule r (timer_handler_main (s\<lparr>tasks := ?ts\<rparr>)) = None"
  proof (rule schedule_lost [where t = t and R = "set (ys @ [q])"])
    show "tnext t \<in> set (ys @ [q])" using ring_hd [OF r'] list.set_sel(1) [of "ys @ [q]"] by simp
    show "\<exists>n. tasks (timer_handler_main (s\<lparr>tasks := ?ts\<rparr>)) x = Some n \<and> tnext n \<in> set (ys @ [q])"
      if x: "x \<in> set (ys @ [q])" for x
    proof -
      obtain n where n: "?ts x = Some n" using ring_mapped [OF r' x] by blast
      then have "tasks (timer_handler_main (s\<lparr>tasks := ?ts\<rparr>)) x = Some n" by simp
      then show ?thesis using ring_next_in [OF r' x n] by blast
    qed
  qed (use zs(2) d \<open>pred = q\<close> assms(2) in auto)
  then show ?thesis by (simp add: timer_interrupt_def)
qed

theorem schedule_reentered_hangs_witness:
  "timer_interrupt 0x80F60 ((demo_k True)\<lparr>tasks := (tasks (demo_k True))(0x8000 \<mapsto> demo_task0\<lparr>tnext := 0x8000\<rparr>)\<rparr>) = None"
proof -
  have "find_pred (tasks (demo_k True)) 0x600030 0x8000 = Some 0x8000"
    by (subst find_pred.simps) (simp add: demo_task0_def)
  then show ?thesis
    using schedule_reentered_hangs [of "demo_k True" "[0x600030, 0x8000]" "demo_user True" "0x8000" demo_task0 "0x80F60"]
      demo_kinv by (simp add: demo_user_def fresh_task_def)
qed

end
