(* ===== verification/Rv32.thy ===== *)
theory Rv32
  imports AxPrelude "HOL-Library.Monad_Syntax"
begin

section \<open>The RV32IM virtual machine with memory tags and capabilities\<close>

text \<open>
  \<^verbatim>\<open>src/user/rv32i_full.c\<close>: an interpreter for RISC-V programs whose guest memory carries a tag per
  16-byte granule (MTE) and whose register 10 has a capability beside it (CHERI). The record \<open>vm\<close>
  holds the globals of the program; \<open>host\<close> is the state of the kernel behind the file calls, and the
  four file calls themselves are the parameter \<open>io\<close>. A step is a function to \<open>option\<close>: \<open>None\<close> means
  that the interpreter reads or writes outside one of its own arrays, which is undefined in C.
\<close>

record cap =
  cap_base :: u32
  cap_length :: u32
  cap_perms :: u8
  cap_tag :: bool
  cap_sealed :: bool

record 'h vm =
  vm_mem :: bmem
  vm_reg :: "nat \<Rightarrow> u32"
  vm_pc :: u32
  vm_halted :: bool
  vm_tags :: "nat \<Rightarrow> u8"
  vm_alloc_ng :: "nat \<Rightarrow> u32"
  vm_heap_ptr :: u32
  mte_prng :: u32
  cap_regs :: "nat \<Rightarrow> cap"
  vm_fd :: "nat \<Rightarrow> int"
  vm_out :: "u8 list"
  host :: 'h

text \<open>The calls of \<^verbatim>\<open>axiom.h\<close>: the second result of a read is what it put into the buffer.\<close>

record 'h hostio =
  ax_open :: "u8 list \<Rightarrow> int \<Rightarrow> 'h \<Rightarrow> int \<times> 'h"
  ax_fread :: "int \<Rightarrow> nat \<Rightarrow> 'h \<Rightarrow> int \<times> u8 list \<times> 'h"
  ax_fwrite :: "int \<Rightarrow> u8 list \<Rightarrow> 'h \<Rightarrow> int \<times> 'h"
  ax_close :: "int \<Rightarrow> 'h \<Rightarrow> 'h"
  ax_readfile :: "u8 list \<Rightarrow> nat \<Rightarrow> 'h \<Rightarrow> u8 list \<times> 'h"

abbreviation VM_MEM_SIZE :: u32 where "VM_MEM_SIZE \<equiv> 0x4000"
abbreviation MTE_GRANULE :: u32 where "MTE_GRANULE \<equiv> 16"
abbreviation MTE_ADDR_MASK :: u32 where "MTE_ADDR_MASK \<equiv> 0x00FFFFFF"
abbreviation CHERI_PERM_LOAD :: u8 where "CHERI_PERM_LOAD \<equiv> 1"
abbreviation CHERI_PERM_STORE :: u8 where "CHERI_PERM_STORE \<equiv> 2"
abbreviation VM_MAX_FDS :: u32 where "VM_MAX_FDS \<equiv> 8"
abbreviation VM_FD_SCREEN :: int where "VM_FD_SCREEN \<equiv> -2"

subsection \<open>The arrays of the interpreter, accessed within their bounds\<close>

definition vm_ld :: "'h vm \<Rightarrow> u32 \<Rightarrow> u8 option" where
  "vm_ld s a = (if a < VM_MEM_SIZE then Some (vm_mem s (unat a)) else None)"

definition vm_st :: "u32 \<Rightarrow> u8 \<Rightarrow> 'h vm \<Rightarrow> 'h vm option" where
  "vm_st a b s = (if a < VM_MEM_SIZE then Some (s\<lparr>vm_mem := (vm_mem s)(unat a := b)\<rparr>) else None)"

definition tag_ld :: "'h vm \<Rightarrow> u32 \<Rightarrow> u8 option" where
  "tag_ld s i = (if i < 1024 then Some (vm_tags s (unat i)) else None)"

definition tag_st :: "u32 \<Rightarrow> u8 \<Rightarrow> 'h vm \<Rightarrow> 'h vm option" where
  "tag_st i t s = (if i < 1024 then Some (s\<lparr>vm_tags := (vm_tags s)(unat i := t)\<rparr>) else None)"

definition ng_ld :: "'h vm \<Rightarrow> u32 \<Rightarrow> u32 option" where
  "ng_ld s i = (if i < 1024 then Some (vm_alloc_ng s (unat i)) else None)"

definition ng_st :: "u32 \<Rightarrow> u32 \<Rightarrow> 'h vm \<Rightarrow> 'h vm option" where
  "ng_st i n s = (if i < 1024 then Some (s\<lparr>vm_alloc_ng := (vm_alloc_ng s)(unat i := n)\<rparr>) else None)"

definition set_reg :: "nat \<Rightarrow> u32 \<Rightarrow> 'h vm \<Rightarrow> 'h vm" where
  "set_reg r v s = s\<lparr>vm_reg := (vm_reg s)(r := v)\<rparr>"

text \<open>\<^verbatim>\<open>ax_print\<close> of a character buffer stops at a zero byte.\<close>

definition vm_print :: "u8 list \<Rightarrow> 'h vm \<Rightarrow> 'h vm" where
  "vm_print cs s = s\<lparr>vm_out := vm_out s @ takeWhile (\<lambda>c. c \<noteq> 0) cs\<rparr>"

definition vm_fd_init :: "'h vm \<Rightarrow> 'h vm" where
  "vm_fd_init s = s\<lparr>vm_fd := (\<lambda>i. if i = 1 \<or> i = 2 then VM_FD_SCREEN else -1)\<rparr>"

definition sext :: "u32 \<Rightarrow> nat \<Rightarrow> u32" where
  "sext val top_bit =
     (if drop_bit top_bit val AND 1 \<noteq> 0 then val OR NOT (push_bit top_bit 1 - 1) else val)"

definition print_hex8 :: "u32 \<Rightarrow> u8 list" where
  "print_hex8 v = [hex_digit (unat (drop_bit 4 v AND 0xF)), hex_digit (unat (v AND 0xF))]"

definition print_hex32 :: "u32 \<Rightarrow> u8 list" where
  "print_hex32 v = str ''0x'' @ print_hex8 (drop_bit 24 v) @ print_hex8 (drop_bit 16 v) @
     print_hex8 (drop_bit 8 v) @ print_hex8 v"

subsection \<open>Random tags\<close>

definition xorshift32 :: "u32 \<Rightarrow> u32" where
  "xorshift32 x =
     (let x1 = x XOR push_bit 13 x; x2 = x1 XOR drop_bit 17 x1 in x2 XOR push_bit 5 x2)"

definition mte_rand_tag :: "u32 \<Rightarrow> u32 \<times> u32" where
  "mte_rand_tag prng =
     (let p = xorshift32 prng; t = drop_bit 8 p AND 0xFF in (if t \<noteq> 0 then t else 1, p))"

partial_function (option) mte_rand_tag_ne :: "u32 \<Rightarrow> u32 \<Rightarrow> (u32 \<times> u32) option" where
  "mte_rand_tag_ne old prng =
     (let r = mte_rand_tag prng in if fst r \<noteq> old then Some r else mte_rand_tag_ne old (snd r))"

subsection \<open>Faults and checks\<close>

definition ptr_tag :: "u32 \<Rightarrow> u32" where
  "ptr_tag ptr = drop_bit 24 ptr AND 0xFF"

definition vm_mte_fault :: "u32 \<Rightarrow> bool \<Rightarrow> 'h vm \<Rightarrow> 'h vm option" where
  "vm_mte_fault ptr is_write s =
     (let real_a = ptr AND MTE_ADDR_MASK in do {
        mem_tag \<leftarrow> (if real_a < VM_MEM_SIZE then tag_ld s (real_a div MTE_GRANULE) else Some 0);
        Some ((vm_print (0x0A # 0x1B # str ''[41;37m[MTE FAULT] '' @
          (if is_write then str ''STORE'' else str ''LOAD '') @
          str '' addr='' @ print_hex32 ptr @ str '' ptr_tag=0x'' @ print_hex8 (ptr_tag ptr) @
          str '' mem_tag=0x'' @ print_hex8 (ucast mem_tag) @ str '' pc='' @ print_hex32 (vm_pc s) @
          0x1B # str ''[0m'' @ [0x0A]) s)\<lparr>vm_halted := True\<rparr>) })"

definition vm_cheri_fault :: "string \<Rightarrow> u32 \<Rightarrow> u32 \<Rightarrow> u32 \<Rightarrow> 'h vm \<Rightarrow> 'h vm" where
  "vm_cheri_fault kind ea base len s =
     (vm_print (0x0A # 0x1B # str ''[44;37m[CHERI FAULT] '' @ str kind @ str '' addr='' @ print_hex32 ea @
        (if len \<noteq> 0 then str '' bounds=['' @ print_hex32 base @ str '','' @ print_hex32 (base + len) @ str '')'' else []) @
        str '' pc='' @ print_hex32 (vm_pc s) @ 0x1B # str ''[0m'' @ [0x0A]) s)\<lparr>vm_halted := True\<rparr>"

definition cheri_check :: "cap \<Rightarrow> u32 \<Rightarrow> u32 \<Rightarrow> bool \<Rightarrow> 'h vm \<Rightarrow> bool \<times> 'h vm" where
  "cheri_check c off len is_write s =
     (let ea = cap_base c + off; need = if is_write then CHERI_PERM_STORE else CHERI_PERM_LOAD in
      if \<not> cap_tag c then (False, vm_cheri_fault ''TAG: untagged capability'' ea 0 0 s)
      else if cap_sealed c then
        (False, vm_cheri_fault ''SEALED: cannot deref sealed cap'' ea (cap_base c) (cap_length c) s)
      else if cap_perms c AND need = 0 then
        (False, vm_cheri_fault (if is_write then ''PERM: no STORE permission'' else ''PERM: no LOAD permission'')
           ea (cap_base c) (cap_length c) s)
      else if cap_length c \<le> off \<or> cap_length c - off < len then
        (False, vm_cheri_fault ''BOUNDS: out of range'' ea (cap_base c) (cap_length c) s)
      else (True, s))"

definition mte_check :: "u32 \<Rightarrow> bool \<Rightarrow> 'h vm \<Rightarrow> (bool \<times> 'h vm) option" where
  "mte_check ptr is_write s =
     (if ptr_tag ptr = 0 then Some (True, s)
      else let real_a = ptr AND MTE_ADDR_MASK in
        if VM_MEM_SIZE \<le> real_a then do { s' \<leftarrow> vm_mte_fault ptr is_write s; Some (False, s') }
        else do {
          t \<leftarrow> tag_ld s (real_a div MTE_GRANULE);
          if (ucast t :: u32) \<noteq> ptr_tag ptr then do { s' \<leftarrow> vm_mte_fault ptr is_write s; Some (False, s') }
          else Some (True, s) })"

subsection \<open>Memory accesses of guest instructions\<close>

definition mr8 :: "u32 \<Rightarrow> 'h vm \<Rightarrow> (u32 \<times> 'h vm) option" where
  "mr8 a s = do {
     (ok, s) \<leftarrow> mte_check a False s;
     let ra = a AND MTE_ADDR_MASK;
     if \<not> ok \<or> VM_MEM_SIZE \<le> ra then Some (0, s)
     else do { b \<leftarrow> vm_ld s ra; Some (ucast b, s) } }"

definition mr16 :: "u32 \<Rightarrow> 'h vm \<Rightarrow> (u32 \<times> 'h vm) option" where
  "mr16 a s = do {
     (ok, s) \<leftarrow> mte_check a False s;
     let ra = a AND MTE_ADDR_MASK;
     if \<not> ok \<or> VM_MEM_SIZE \<le> ra + 1 then Some (0, s)
     else do { b0 \<leftarrow> vm_ld s ra; b1 \<leftarrow> vm_ld s (ra + 1); Some (ucast b0 OR push_bit 8 (ucast b1), s) } }"

definition vm_word :: "u32 \<Rightarrow> 'h vm \<Rightarrow> u32 option" where
  "vm_word ra s = do {
     b0 \<leftarrow> vm_ld s ra; b1 \<leftarrow> vm_ld s (ra + 1); b2 \<leftarrow> vm_ld s (ra + 2); b3 \<leftarrow> vm_ld s (ra + 3);
     Some (ucast b0 OR push_bit 8 (ucast b1) OR push_bit 16 (ucast b2) OR push_bit 24 (ucast b3)) }"

definition mr32 :: "u32 \<Rightarrow> 'h vm \<Rightarrow> (u32 \<times> 'h vm) option" where
  "mr32 a s = do {
     (ok, s) \<leftarrow> mte_check a False s;
     let ra = a AND MTE_ADDR_MASK;
     if \<not> ok \<or> VM_MEM_SIZE \<le> ra + 3 then Some (0, s)
     else do { w \<leftarrow> vm_word ra s; Some (w, s) } }"

definition mw8 :: "u32 \<Rightarrow> u32 \<Rightarrow> 'h vm \<Rightarrow> 'h vm option" where
  "mw8 a v s = do {
     (ok, s) \<leftarrow> mte_check a True s;
     let ra = a AND MTE_ADDR_MASK;
     if ok \<and> ra < VM_MEM_SIZE then vm_st ra (ucast v) s else Some s }"

definition mw16 :: "u32 \<Rightarrow> u32 \<Rightarrow> 'h vm \<Rightarrow> 'h vm option" where
  "mw16 a v s = do {
     (ok, s) \<leftarrow> mte_check a True s;
     let ra = a AND MTE_ADDR_MASK;
     if ok \<and> ra + 1 < VM_MEM_SIZE
     then do { s \<leftarrow> vm_st ra (ucast v) s; vm_st (ra + 1) (ucast (drop_bit 8 v)) s }
     else Some s }"

definition vm_put_word :: "u32 \<Rightarrow> u32 \<Rightarrow> 'h vm \<Rightarrow> 'h vm option" where
  "vm_put_word ra v s = do {
     s \<leftarrow> vm_st ra (ucast v) s;
     s \<leftarrow> vm_st (ra + 1) (ucast (drop_bit 8 v)) s;
     s \<leftarrow> vm_st (ra + 2) (ucast (drop_bit 16 v)) s;
     vm_st (ra + 3) (ucast (drop_bit 24 v)) s }"

definition mw32 :: "u32 \<Rightarrow> u32 \<Rightarrow> 'h vm \<Rightarrow> 'h vm option" where
  "mw32 a v s = do {
     (ok, s) \<leftarrow> mte_check a True s;
     let ra = a AND MTE_ADDR_MASK;
     if ok \<and> ra + 3 < VM_MEM_SIZE then vm_put_word ra v s else Some s }"

definition vm_ifetch :: "u32 \<Rightarrow> 'h vm \<Rightarrow> u32 option" where
  "vm_ifetch pc s =
     (let ra = pc AND MTE_ADDR_MASK in if VM_MEM_SIZE \<le> ra + 3 then Some 0 else vm_word ra s)"

fun vm_screen_write :: "u32 \<Rightarrow> nat \<Rightarrow> 'h vm \<Rightarrow> 'h vm option" where
  "vm_screen_write ptr 0 s = Some s"
| "vm_screen_write ptr (Suc n) s =
     (if ptr < VM_MEM_SIZE
      then do { b \<leftarrow> vm_ld s ptr; vm_screen_write (ptr + 1) n (vm_print [b] s) }
      else Some s)"

text \<open>The string at \<open>vm_ptr\<close> as \<^verbatim>\<open>vm_copy_str\<close> copies it into a buffer of one byte more than \<open>n\<close>. The source reads and increments
  the index in one assignment, which C does not order; the model takes the old index on both sides, as is meant.\<close>

fun vm_copy_str :: "u32 \<Rightarrow> nat \<Rightarrow> 'h vm \<Rightarrow> u8 list option" where
  "vm_copy_str vm_ptr 0 s = Some []"
| "vm_copy_str vm_ptr (Suc n) s =
     (if vm_ptr < VM_MEM_SIZE then do {
        b \<leftarrow> vm_ld s vm_ptr;
        if b = 0 then Some [] else do { bs \<leftarrow> vm_copy_str (vm_ptr + 1) n s; Some (b # bs) } }
      else Some [])"

subsection \<open>System calls of the guest\<close>

function vm_puts :: "u32 \<Rightarrow> 'h vm \<Rightarrow> 'h vm option" where
  "vm_puts p s =
     (if p < VM_MEM_SIZE then do {
        b \<leftarrow> vm_ld s p;
        if b = 0 then Some s else vm_puts (p + 1) (vm_print [b] s) }
      else Some s)"
  by pat_completeness auto

termination vm_puts
proof (relation "measure (\<lambda>(p, s). 0x4000 - unat p)")
  fix p :: u32 and s :: "'h vm"
  assume p: "p < VM_MEM_SIZE"
  then have "unat p < 0x4000" by (simp add: word_less_nat_alt)
  moreover from this have "unat (p + 1) = unat p + 1" by (simp add: unat_word_ariths)
  ultimately show "((p + 1, t), (p, s)) \<in> measure (\<lambda>(p, s). 0x4000 - unat p)" for t :: "'h vm"
    by simp
qed simp

declare vm_puts.simps [simp del]

text \<open>\<open>n\<close> consecutive tags from granule \<open>g\<close> on; without and with the bound of \<^verbatim>\<open>mte_tag\<close>.\<close>

fun set_tags :: "u32 \<Rightarrow> nat \<Rightarrow> u8 \<Rightarrow> 'h vm \<Rightarrow> 'h vm option" where
  "set_tags g 0 t s = Some s"
| "set_tags g (Suc n) t s = do { s \<leftarrow> tag_st g t s; set_tags (g + 1) n t s }"

fun set_tags_upto :: "u32 \<Rightarrow> nat \<Rightarrow> u8 \<Rightarrow> 'h vm \<Rightarrow> 'h vm option" where
  "set_tags_upto g 0 t s = Some s"
| "set_tags_upto g (Suc n) t s =
     (if g < 1024 then do { s \<leftarrow> tag_st g t s; set_tags_upto (g + 1) n t s } else Some s)"

definition ecall_mte_malloc :: "u32 \<Rightarrow> 'h vm \<Rightarrow> 'h vm option" where
  "ecall_mte_malloc a0 s =
     (if a0 = 0 then Some (set_reg 10 0 s)
      else
        let ng = (a0 + MTE_GRANULE - 1) div MTE_GRANULE; bytes = ng * MTE_GRANULE;
            sp = vm_reg s 2 AND MTE_ADDR_MASK in
        if sp - 64 < vm_heap_ptr s + bytes then Some (set_reg 10 0 s)
        else do {
          let rptr = vm_heap_ptr s;
          let (tag, prng) = mte_rand_tag (mte_prng s);
          s \<leftarrow> set_tags (rptr div MTE_GRANULE) (unat ng) (ucast tag)
                 (s\<lparr>vm_heap_ptr := rptr + bytes, mte_prng := prng\<rparr>);
          s \<leftarrow> ng_st (rptr div MTE_GRANULE) ng s;
          Some (set_reg 10 ((push_bit 24 tag AND 0xFF000000) OR rptr) s) })"

definition ecall_mte_free :: "u32 \<Rightarrow> 'h vm \<Rightarrow> 'h vm option" where
  "ecall_mte_free a0 s =
     (let real_a = a0 AND MTE_ADDR_MASK in
      if ptr_tag a0 = 0 then Some s
      else if VM_MEM_SIZE \<le> real_a then Some s
      else do {
        let gi = real_a div MTE_GRANULE;
        ng \<leftarrow> ng_ld s gi;
        if ng = 0 then Some s
        else do {
          (new_tag, prng) \<leftarrow> mte_rand_tag_ne (ptr_tag a0) (mte_prng s);
          s \<leftarrow> set_tags gi (unat ng) (ucast new_tag) (s\<lparr>mte_prng := prng\<rparr>);
          ng_st gi 0 s } })"

definition ecall_mte_tag :: "u32 \<Rightarrow> u32 \<Rightarrow> u32 \<Rightarrow> 'h vm \<Rightarrow> 'h vm option" where
  "ecall_mte_tag a0 a1 a2 s =
     (let rptr = a0 AND MTE_ADDR_MASK; ng = (a1 + MTE_GRANULE - 1) div MTE_GRANULE in
      set_tags_upto (rptr div MTE_GRANULE) (unat ng) (ucast (a2 AND 0xFF)) s)"

text \<open>The number of bytes a read or write of the guest may touch, as the code computes it.\<close>

definition io_count :: "u32 \<Rightarrow> u32 \<Rightarrow> u32" where
  "io_count a1 a2 = (if VM_MEM_SIZE < a1 + a2 then VM_MEM_SIZE - a1 else a2)"

definition ecall_write :: "'h hostio \<Rightarrow> u32 \<Rightarrow> u32 \<Rightarrow> u32 \<Rightarrow> 'h vm \<Rightarrow> 'h vm option" where
  "ecall_write io a0 a1 a2 s =
     (if a0 < VM_MAX_FDS \<and> a1 < VM_MEM_SIZE then
        let cnt = io_count a1 a2; fd = vm_fd s (unat a0) in
        if fd = VM_FD_SCREEN then do { s \<leftarrow> vm_screen_write a1 (unat cnt) s; Some (set_reg 10 cnt s) }
        else if 0 \<le> fd then
          (if unat a1 + unat cnt \<le> 0x4000 then
             let (r, h) = ax_fwrite io fd (mem_read (vm_mem s) (unat a1) (unat cnt)) (host s) in
             Some (set_reg 10 (if 0 < r then word_of_int r else 0) (s\<lparr>host := h\<rparr>))
           else None)
        else Some (set_reg 10 0 s)
      else Some (set_reg 10 0 s))"

definition ecall_read :: "'h hostio \<Rightarrow> u32 \<Rightarrow> u32 \<Rightarrow> u32 \<Rightarrow> 'h vm \<Rightarrow> 'h vm option" where
  "ecall_read io a0 a1 a2 s =
     (if a0 < VM_MAX_FDS \<and> a1 < VM_MEM_SIZE \<and> 0 \<le> vm_fd s (unat a0) then
        let (r, bs, h) = ax_fread io (vm_fd s (unat a0)) (unat (io_count a1 a2)) (host s) in
        if unat a1 + length bs \<le> 0x4000 then
          Some (set_reg 10 (if 0 < r then word_of_int r else 0)
            (s\<lparr>vm_mem := mem_write (vm_mem s) (unat a1) bs, host := h\<rparr>))
        else None
      else Some (set_reg 10 0 s))"

definition ecall_open :: "'h hostio \<Rightarrow> u32 \<Rightarrow> u32 \<Rightarrow> 'h vm \<Rightarrow> 'h vm option" where
  "ecall_open io a0 a1 s = do {
     name \<leftarrow> vm_copy_str a0 23 s;
     (case find (\<lambda>i. vm_fd s i = -1) [3..<8] of
        None \<Rightarrow> Some (set_reg 10 (- 1) s)
      | Some i \<Rightarrow>
          let (hfd, h) = ax_open io name (sint a1) (host s); s = s\<lparr>host := h\<rparr> in
          if 0 \<le> hfd then Some (set_reg 10 (word_of_nat i) (s\<lparr>vm_fd := (vm_fd s)(i := hfd)\<rparr>))
          else Some (set_reg 10 (- 1) s)) }"

definition ecall_close :: "'h hostio \<Rightarrow> u32 \<Rightarrow> 'h vm \<Rightarrow> 'h vm" where
  "ecall_close io a0 s =
     (let s = (if 3 \<le> a0 \<and> a0 < VM_MAX_FDS \<and> 0 \<le> vm_fd s (unat a0)
               then s\<lparr>host := ax_close io (vm_fd s (unat a0)) (host s), vm_fd := (vm_fd s)(unat a0 := -1)\<rparr>
               else s) in
      set_reg 10 0 s)"

definition set_cap :: "cap \<Rightarrow> 'h vm \<Rightarrow> 'h vm" where
  "set_cap c s = s\<lparr>cap_regs := (cap_regs s)(10 := c)\<rparr>"

definition ecall_cap_malloc :: "u32 \<Rightarrow> 'h vm \<Rightarrow> 'h vm" where
  "ecall_cap_malloc sz s =
     (let aligned = (sz + 7) AND NOT 7; c = cap_regs s 10 in
      if sz = 0 then set_cap (c\<lparr>cap_tag := False\<rparr>) s
      else if vm_reg s 2 - 64 < vm_heap_ptr s + aligned then set_cap (c\<lparr>cap_tag := False\<rparr>) s
      else
        let c' = \<lparr>cap_base = vm_heap_ptr s, cap_length = sz,
                  cap_perms = CHERI_PERM_LOAD OR CHERI_PERM_STORE, cap_tag = True, cap_sealed = False\<rparr> in
        vm_print (str ''[CHERI] cap_malloc('' @ print_hex32 sz @ str '') base='' @ print_hex32 (cap_base c') @
            str '' len='' @ print_hex32 (cap_length c') @ str '' perms=R|W tag=1'' @ [0x0A])
          ((set_cap c' s)\<lparr>vm_heap_ptr := vm_heap_ptr s + aligned\<rparr>))"

definition ecall_cap_free :: "'h vm \<Rightarrow> 'h vm" where
  "ecall_cap_free s = set_cap ((cap_regs s 10)\<lparr>cap_tag := False\<rparr>) s"

definition ecall_cap_restrict :: "u32 \<Rightarrow> 'h vm \<Rightarrow> 'h vm" where
  "ecall_cap_restrict a0 s =
     (let c = cap_regs s 10 in
      if \<not> cap_tag c then vm_cheri_fault ''TAG: restrict on untagged cap'' 0 0 0 s
      else
        let p = cap_perms c AND ucast (a0 AND 0x0F) in
        vm_print (str ''[CHERI] perms restricted to 0x'' @ print_hex8 (ucast p) @ [0x0A])
          (set_cap (c\<lparr>cap_perms := p\<rparr>) s))"

definition ecall_cap_seal :: "'h vm \<Rightarrow> 'h vm" where
  "ecall_cap_seal s =
     (let c = cap_regs s 10 in
      if \<not> cap_tag c then vm_cheri_fault ''TAG: seal on untagged cap'' 0 0 0 s
      else vm_print (str ''[CHERI] capability sealed'' @ [0x0A]) (set_cap (c\<lparr>cap_sealed := True\<rparr>) s))"

definition ecall_cap_load8 :: "u32 \<Rightarrow> 'h vm \<Rightarrow> 'h vm option" where
  "ecall_cap_load8 a0 s =
     (let c = cap_regs s 10; (ok, s') = cheri_check c a0 1 False s; addr = cap_base c + a0 in
      if \<not> ok then Some s'
      else if addr < VM_MEM_SIZE then do { b \<leftarrow> vm_ld s addr; Some (set_reg 10 (ucast b) s) }
      else Some (set_reg 10 0 s))"

definition ecall_cap_store8 :: "u32 \<Rightarrow> u32 \<Rightarrow> 'h vm \<Rightarrow> 'h vm option" where
  "ecall_cap_store8 a0 a1 s =
     (let c = cap_regs s 10; (ok, s') = cheri_check c a0 1 True s; addr = cap_base c + a0 in
      if \<not> ok then Some s'
      else if addr < VM_MEM_SIZE then vm_st addr (ucast a1) s else Some s)"

definition ecall_cap_load32 :: "u32 \<Rightarrow> 'h vm \<Rightarrow> 'h vm option" where
  "ecall_cap_load32 a0 s =
     (let c = cap_regs s 10; (ok, s') = cheri_check c a0 4 False s; addr = cap_base c + a0 in
      if \<not> ok then Some s'
      else if addr + 3 < VM_MEM_SIZE then do { w \<leftarrow> vm_word addr s; Some (set_reg 10 w s) }
      else Some s)"

definition ecall_cap_store32 :: "u32 \<Rightarrow> u32 \<Rightarrow> 'h vm \<Rightarrow> 'h vm option" where
  "ecall_cap_store32 a0 a1 s =
     (let c = cap_regs s 10; (ok, s') = cheri_check c a0 4 True s; addr = cap_base c + a0 in
      if \<not> ok then Some s'
      else if addr + 3 < VM_MEM_SIZE then vm_put_word addr a1 s else Some s)"

definition vm_ecall :: "'h hostio \<Rightarrow> 'h vm \<Rightarrow> 'h vm option" where
  "vm_ecall io s =
     (let nr = vm_reg s 17; a0 = vm_reg s 10; a1 = vm_reg s 11; a2 = vm_reg s 12 in
      if nr = 1 then Some (vm_print [ucast (a0 AND 0xFF)] s)
      else if nr = 4 then vm_puts (a0 AND MTE_ADDR_MASK) s
      else if nr = 10 \<or> nr = 93 then Some (s\<lparr>vm_halted := True\<rparr>)
      else if nr = 20 then ecall_mte_malloc a0 s
      else if nr = 21 then ecall_mte_free a0 s
      else if nr = 22 then ecall_mte_tag a0 a1 a2 s
      else if nr = 64 then ecall_write io a0 a1 a2 s
      else if nr = 63 then ecall_read io a0 a1 a2 s
      else if nr = 1024 then ecall_open io a0 a1 s
      else if nr = 57 then Some (ecall_close io a0 s)
      else if nr = 30 then Some (ecall_cap_malloc a0 s)
      else if nr = 31 then Some (ecall_cap_free s)
      else if nr = 32 then Some (ecall_cap_restrict a0 s)
      else if nr = 33 then Some (set_reg 10 (cap_base (cap_regs s 10)) s)
      else if nr = 34 then Some (set_reg 10 (cap_length (cap_regs s 10)) s)
      else if nr = 35 then Some (set_reg 10 (ucast (cap_perms (cap_regs s 10))) s)
      else if nr = 36 then Some (ecall_cap_seal s)
      else if nr = 38 then ecall_cap_load8 a0 s
      else if nr = 39 then ecall_cap_store8 a0 a1 s
      else if nr = 40 then ecall_cap_load32 a0 s
      else if nr = 41 then ecall_cap_store32 a0 a1 s
      else Some s)"
end
