(* ===== verification/Rv32Step.thy ===== *)
theory Rv32Step
  imports Rv32
begin

section \<open>The instructions of the RV32IM virtual machine\<close>

text \<open>
  \<^verbatim>\<open>vm_step\<close> of \<^verbatim>\<open>src/user/rv32i_full.c\<close>, cut into the parts of its \<^verbatim>\<open>switch\<close>: the fields and the
  immediates of an instruction word, branches, loads and stores, the arithmetic of the base set and
  of the M extension; then the main loop with its bound on the number of instructions.
\<close>

definition f_op :: "u32 \<Rightarrow> u32" where "f_op ins = ins AND 0x7F"
definition f_rd :: "u32 \<Rightarrow> nat" where "f_rd ins = unat (drop_bit 7 ins AND 0x1F)"
definition f_f3 :: "u32 \<Rightarrow> u32" where "f_f3 ins = drop_bit 12 ins AND 0x07"
definition f_rs1 :: "u32 \<Rightarrow> nat" where "f_rs1 ins = unat (drop_bit 15 ins AND 0x1F)"
definition f_rs2 :: "u32 \<Rightarrow> nat" where "f_rs2 ins = unat (drop_bit 20 ins AND 0x1F)"
definition f_f7 :: "u32 \<Rightarrow> u32" where "f_f7 ins = drop_bit 25 ins AND 0x7F"

definition imm_i :: "u32 \<Rightarrow> u32" where
  "imm_i ins = sext (drop_bit 20 ins) 11"

definition imm_s :: "u32 \<Rightarrow> u32" where
  "imm_s ins = sext (push_bit 5 (drop_bit 25 ins) OR (drop_bit 7 ins AND 0x1F)) 11"

definition imm_b :: "u32 \<Rightarrow> u32" where
  "imm_b ins = sext
     (push_bit 12 (drop_bit 31 ins AND 1) OR push_bit 11 (drop_bit 7 ins AND 1) OR
      push_bit 5 (drop_bit 25 ins AND 0x3F) OR push_bit 1 (drop_bit 8 ins AND 0xF)) 12"

definition imm_u :: "u32 \<Rightarrow> u32" where
  "imm_u ins = ins AND 0xFFFFF000"

definition imm_j :: "u32 \<Rightarrow> u32" where
  "imm_j ins = sext
     (push_bit 20 (drop_bit 31 ins AND 1) OR push_bit 12 (drop_bit 12 ins AND 0xFF) OR
      push_bit 11 (drop_bit 20 ins AND 1) OR push_bit 1 (drop_bit 21 ins AND 0x3FF)) 20"

definition branch_taken :: "u32 \<Rightarrow> u32 \<Rightarrow> u32 \<Rightarrow> bool" where
  "branch_taken f3 v1 v2 =
     (if f3 = 0 then v1 = v2
      else if f3 = 1 then v1 \<noteq> v2
      else if f3 = 4 then v1 <s v2
      else if f3 = 5 then v2 \<le>s v1
      else if f3 = 6 then v1 < v2
      else if f3 = 7 then v2 \<le> v1
      else False)"

definition vm_load :: "u32 \<Rightarrow> u32 \<Rightarrow> 'h vm \<Rightarrow> (u32 option \<times> 'h vm) option" where
  "vm_load f3 a s =
     (if f3 = 0 then do { (v, s) \<leftarrow> mr8 a s; Some (Some (sext v 7), s) }
      else if f3 = 1 then do { (v, s) \<leftarrow> mr16 a s; Some (Some (sext v 15), s) }
      else if f3 = 2 then do { (v, s) \<leftarrow> mr32 a s; Some (Some v, s) }
      else if f3 = 4 then do { (v, s) \<leftarrow> mr8 a s; Some (Some v, s) }
      else if f3 = 5 then do { (v, s) \<leftarrow> mr16 a s; Some (Some v, s) }
      else Some (None, s))"

definition vm_store :: "u32 \<Rightarrow> u32 \<Rightarrow> u32 \<Rightarrow> 'h vm \<Rightarrow> 'h vm option" where
  "vm_store f3 a v s =
     (if f3 = 0 then mw8 a v s
      else if f3 = 1 then mw16 a v s
      else if f3 = 2 then mw32 a v s
      else Some s)"

definition alu_imm :: "u32 \<Rightarrow> u32 \<Rightarrow> nat \<Rightarrow> u32 \<Rightarrow> u32 \<Rightarrow> u32" where
  "alu_imm f3 f7 sh v1 imm =
     (if f3 = 0 then v1 + imm
      else if f3 = 1 then push_bit sh v1
      else if f3 = 2 then (if v1 <s imm then 1 else 0)
      else if f3 = 3 then (if v1 < imm then 1 else 0)
      else if f3 = 4 then v1 XOR imm
      else if f3 = 5 then (if f7 AND 0x20 \<noteq> 0 then signed_drop_bit sh v1 else drop_bit sh v1)
      else if f3 = 6 then v1 OR imm
      else v1 AND imm)"

text \<open>The casts of the C code: \<open>sint\<close> where it casts to \<^verbatim>\<open>int\<close>, \<open>uint\<close> where to \<^verbatim>\<open>unsigned int\<close>. C
  division rounds towards zero.\<close>

definition c_div :: "int \<Rightarrow> int \<Rightarrow> int" where
  "c_div a b = sgn a * sgn b * (\<bar>a\<bar> div \<bar>b\<bar>)"

definition c_mod :: "int \<Rightarrow> int \<Rightarrow> int" where
  "c_mod a b = a - c_div a b * b"

definition muldiv :: "u32 \<Rightarrow> u32 \<Rightarrow> u32 \<Rightarrow> u32" where
  "muldiv f3 v1 v2 =
     (if f3 = 0 then v1 * v2
      else if f3 = 1 then word_of_int (drop_bit 32 (sint v1 * sint v2))
      else if f3 = 2 then word_of_int (drop_bit 32 (sint v1 * uint v2))
      else if f3 = 3 then word_of_int (drop_bit 32 (uint v1 * uint v2))
      else if f3 = 4 then
        (if v2 = 0 then - 1 else if v1 = 0x80000000 \<and> v2 = - 1 then 0x80000000
         else word_of_int (c_div (sint v1) (sint v2)))
      else if f3 = 5 then (if v2 = 0 then - 1 else v1 div v2)
      else if f3 = 6 then
        (if v2 = 0 then v1 else if v1 = 0x80000000 \<and> v2 = - 1 then 0
         else word_of_int (c_mod (sint v1) (sint v2)))
      else (if v2 = 0 then v1 else v1 mod v2))"

definition alu_reg :: "u32 \<Rightarrow> u32 \<Rightarrow> u32 \<Rightarrow> u32 \<Rightarrow> u32" where
  "alu_reg f3 f7 v1 v2 =
     (let sh = unat (v2 AND 0x1F) in
      if f7 = 1 then muldiv f3 v1 v2
      else if f3 = 0 then (if f7 AND 0x20 \<noteq> 0 then v1 - v2 else v1 + v2)
      else if f3 = 1 then push_bit sh v1
      else if f3 = 2 then (if v1 <s v2 then 1 else 0)
      else if f3 = 3 then (if v1 < v2 then 1 else 0)
      else if f3 = 4 then v1 XOR v2
      else if f3 = 5 then (if f7 AND 0x20 \<noteq> 0 then signed_drop_bit sh v1 else drop_bit sh v1)
      else if f3 = 6 then v1 OR v2
      else v1 AND v2)"

text \<open>The end of \<^verbatim>\<open>vm_step\<close>: the result register, register 0 and the program counter.\<close>

definition vm_finish :: "nat \<Rightarrow> u32 option \<Rightarrow> u32 \<Rightarrow> 'h vm \<Rightarrow> 'h vm" where
  "vm_finish rd res npc s =
     (let regs = (case res of Some v \<Rightarrow> if rd \<noteq> 0 then (vm_reg s)(rd := v) else vm_reg s | None \<Rightarrow> vm_reg s) in
      s\<lparr>vm_reg := regs(0 := 0), vm_pc := npc\<rparr>)"

definition vm_exec :: "'h hostio \<Rightarrow> u32 \<Rightarrow> 'h vm \<Rightarrow> 'h vm option" where
  "vm_exec io ins s =
     (let op = f_op ins; rd = f_rd ins; f3 = f_f3 ins; f7 = f_f7 ins; npc = vm_pc s + 4;
          v1 = vm_reg s (f_rs1 ins); v2 = vm_reg s (f_rs2 ins) in
      if op = 0x37 then Some (vm_finish rd (Some (imm_u ins)) npc s)
      else if op = 0x17 then Some (vm_finish rd (Some (vm_pc s + imm_u ins)) npc s)
      else if op = 0x6F then Some (vm_finish rd (Some npc) (vm_pc s + imm_j ins) s)
      else if op = 0x67 then Some (vm_finish rd (Some npc) ((v1 + imm_i ins) AND NOT 1) s)
      else if op = 0x63 then
        Some (vm_finish rd None (if branch_taken f3 v1 v2 then vm_pc s + imm_b ins else npc) s)
      else if op = 0x03 then do { (r, s) \<leftarrow> vm_load f3 (v1 + imm_i ins) s; Some (vm_finish rd r npc s) }
      else if op = 0x23 then do { s \<leftarrow> vm_store f3 (v1 + imm_s ins) v2 s; Some (vm_finish rd None npc s) }
      else if op = 0x13 then Some (vm_finish rd (Some (alu_imm f3 f7 (f_rs2 ins) v1 (imm_i ins))) npc s)
      else if op = 0x33 then Some (vm_finish rd (Some (alu_reg f3 f7 v1 v2)) npc s)
      else if op = 0x73 then do { s \<leftarrow> vm_ecall io s; Some (vm_finish rd None npc s) }
      else Some (vm_finish rd None npc (s\<lparr>vm_halted := True\<rparr>)))"

definition vm_step :: "'h hostio \<Rightarrow> 'h vm \<Rightarrow> 'h vm option" where
  "vm_step io s = do {
     ins \<leftarrow> vm_ifetch (vm_pc s) s;
     if vm_halted s then Some s else vm_exec io ins s }"

text \<open>The main loop with at most \<open>n\<close> more instructions; it counts those it executed.\<close>

fun vm_run :: "'h hostio \<Rightarrow> nat \<Rightarrow> 'h vm \<Rightarrow> (nat \<times> 'h vm) option" where
  "vm_run io 0 s = Some (0, s)"
| "vm_run io (Suc n) s =
     (if vm_halted s then Some (0, s)
      else do { s \<leftarrow> vm_step io s; (k, s) \<leftarrow> vm_run io n s; Some (Suc k, s) })"

subsection \<open>The built-in programs and \<^verbatim>\<open>main\<close>\<close>

definition builtin_hello :: "u8 list" where
  "builtin_hello =
    [0x17, 0x04, 0x00, 0x00, 0x13, 0x04, 0x04, 0x04, 0x03, 0x45, 0x04, 0x00, 0x63, 0x0A, 0x05, 0x00,
     0x93, 0x08, 0x10, 0x00, 0x73, 0x00, 0x00, 0x00, 0x13, 0x04, 0x14, 0x00, 0x6F, 0xF0, 0xDF, 0xFE,
     0x93, 0x08, 0xA0, 0x00, 0x73, 0x00, 0x00, 0x00, 0x00, 0x00, 0x00, 0x00, 0x00, 0x00, 0x00, 0x00,
     0x00, 0x00, 0x00, 0x00, 0x00, 0x00, 0x00, 0x00, 0x00, 0x00, 0x00, 0x00, 0x00, 0x00, 0x00, 0x00,
     0x48, 0x65, 0x6C, 0x6C, 0x6F, 0x20, 0x66, 0x72, 0x6F, 0x6D, 0x20, 0x52, 0x56, 0x33, 0x32, 0x49,
     0x21, 0x0A, 0x00]"

definition builtin_mte_test :: "u8 list" where
  "builtin_mte_test =
    [0x93, 0x08, 0x40, 0x01, 0x13, 0x05, 0x00, 0x02, 0x73, 0x00, 0x00, 0x00, 0x33, 0x04, 0x05, 0x00,
     0x93, 0x02, 0x50, 0x05, 0x23, 0x00, 0x54, 0x00, 0x13, 0x05, 0x60, 0x05, 0x93, 0x08, 0x10, 0x00,
     0x73, 0x00, 0x00, 0x00, 0x13, 0x05, 0xA0, 0x00, 0x93, 0x08, 0x10, 0x00, 0x73, 0x00, 0x00, 0x00,
     0x33, 0x05, 0x04, 0x00, 0x93, 0x08, 0x50, 0x01, 0x73, 0x00, 0x00, 0x00, 0x13, 0x05, 0x60, 0x04,
     0x93, 0x08, 0x10, 0x00, 0x73, 0x00, 0x00, 0x00, 0x13, 0x05, 0xA0, 0x00, 0x93, 0x08, 0x10, 0x00,
     0x73, 0x00, 0x00, 0x00, 0x23, 0x00, 0x54, 0x00, 0x93, 0x08, 0xA0, 0x00, 0x73, 0x00, 0x00, 0x00]"

definition builtin_cheri_test :: "u8 list" where
  "builtin_cheri_test =
    [0x93, 0x08, 0xE0, 0x01, 0x13, 0x05, 0x00, 0x01, 0x73, 0x00, 0x00, 0x00, 0x13, 0x05, 0x10, 0x03,
     0x93, 0x08, 0x10, 0x00, 0x73, 0x00, 0x00, 0x00, 0x93, 0x08, 0x70, 0x02, 0x13, 0x05, 0x00, 0x00,
     0x93, 0x05, 0xB0, 0x0A, 0x73, 0x00, 0x00, 0x00, 0x13, 0x05, 0x20, 0x03, 0x93, 0x08, 0x10, 0x00,
     0x73, 0x00, 0x00, 0x00, 0x93, 0x08, 0x70, 0x02, 0x13, 0x05, 0xF0, 0x00, 0x93, 0x05, 0xD0, 0x0C,
     0x73, 0x00, 0x00, 0x00, 0x13, 0x05, 0x30, 0x03, 0x93, 0x08, 0x10, 0x00, 0x73, 0x00, 0x00, 0x00,
     0x93, 0x08, 0x70, 0x02, 0x13, 0x05, 0x00, 0x01, 0x93, 0x05, 0xF0, 0x0F, 0x73, 0x00, 0x00, 0x00,
     0x93, 0x08, 0xA0, 0x00, 0x73, 0x00, 0x00, 0x00]"

definition builtin_cheri_uaf_test :: "u8 list" where
  "builtin_cheri_uaf_test =
    [0x93, 0x08, 0xE0, 0x01, 0x13, 0x05, 0x00, 0x01, 0x73, 0x00, 0x00, 0x00, 0x13, 0x05, 0xD0, 0x04,
     0x93, 0x08, 0x10, 0x00, 0x73, 0x00, 0x00, 0x00, 0x93, 0x08, 0x70, 0x02, 0x13, 0x05, 0x00, 0x00,
     0x93, 0x05, 0x50, 0x05, 0x73, 0x00, 0x00, 0x00, 0x13, 0x05, 0x70, 0x05, 0x93, 0x08, 0x10, 0x00,
     0x73, 0x00, 0x00, 0x00, 0x93, 0x08, 0xF0, 0x01, 0x73, 0x00, 0x00, 0x00, 0x13, 0x05, 0x60, 0x04,
     0x93, 0x08, 0x10, 0x00, 0x73, 0x00, 0x00, 0x00, 0x93, 0x08, 0x70, 0x02, 0x13, 0x05, 0x00, 0x00,
     0x93, 0x05, 0xF0, 0x0F, 0x73, 0x00, 0x00, 0x00, 0x93, 0x08, 0xA0, 0x00, 0x73, 0x00, 0x00, 0x00]"

definition builtin_cheri_perm_test :: "u8 list" where
  "builtin_cheri_perm_test =
    [0x93, 0x08, 0xE0, 0x01, 0x13, 0x05, 0x00, 0x01, 0x73, 0x00, 0x00, 0x00, 0x13, 0x05, 0xD0, 0x04,
     0x93, 0x08, 0x10, 0x00, 0x73, 0x00, 0x00, 0x00, 0x93, 0x08, 0x70, 0x02, 0x13, 0x05, 0x00, 0x00,
     0x93, 0x05, 0x50, 0x05, 0x73, 0x00, 0x00, 0x00, 0x13, 0x05, 0x70, 0x05, 0x93, 0x08, 0x10, 0x00,
     0x73, 0x00, 0x00, 0x00, 0x93, 0x08, 0x00, 0x02, 0x13, 0x05, 0x10, 0x00, 0x73, 0x00, 0x00, 0x00,
     0x13, 0x05, 0x20, 0x05, 0x93, 0x08, 0x10, 0x00, 0x73, 0x00, 0x00, 0x00, 0x93, 0x08, 0x70, 0x02,
     0x13, 0x05, 0x00, 0x00, 0x93, 0x05, 0xF0, 0x0F, 0x73, 0x00, 0x00, 0x00, 0x93, 0x08, 0xA0, 0x00,
     0x73, 0x00, 0x00, 0x00]"

definition builtin_cheri_seal_test :: "u8 list" where
  "builtin_cheri_seal_test =
    [0x93, 0x08, 0xE0, 0x01, 0x13, 0x05, 0x00, 0x01, 0x73, 0x00, 0x00, 0x00, 0x13, 0x05, 0xD0, 0x04,
     0x93, 0x08, 0x10, 0x00, 0x73, 0x00, 0x00, 0x00, 0x93, 0x08, 0x70, 0x02, 0x13, 0x05, 0x00, 0x00,
     0x93, 0x05, 0x20, 0x04, 0x73, 0x00, 0x00, 0x00, 0x13, 0x05, 0x70, 0x05, 0x93, 0x08, 0x10, 0x00,
     0x73, 0x00, 0x00, 0x00, 0x93, 0x08, 0x40, 0x02, 0x73, 0x00, 0x00, 0x00, 0x13, 0x05, 0x30, 0x05,
     0x93, 0x08, 0x10, 0x00, 0x73, 0x00, 0x00, 0x00, 0x93, 0x08, 0x70, 0x02, 0x13, 0x05, 0x00, 0x00,
     0x93, 0x05, 0xF0, 0x0F, 0x73, 0x00, 0x00, 0x00, 0x93, 0x08, 0xA0, 0x00, 0x73, 0x00, 0x00, 0x00]"

fun vm_str_eq :: "u8 list \<Rightarrow> u8 list \<Rightarrow> bool" where
  "vm_str_eq (a # as) (b # bs) = (if a = b then vm_str_eq as bs else False)"
| "vm_str_eq [] [] = True"
| "vm_str_eq _ _ = False"

text \<open>
  \<^verbatim>\<open>main\<close> up to the initialisation: the program to load, its size and whether it is the MTE test.
  \<open>args\<close> are the command line arguments after the program name.
\<close>

definition load_builtin :: "u8 list \<Rightarrow> string \<Rightarrow> 'h vm \<Rightarrow> nat \<times> 'h vm" where
  "load_builtin p msg s =
     (length p, vm_print (str msg @ [0x0A]) (s\<lparr>vm_mem := mem_write (vm_mem s) 0 p\<rparr>))"

definition load_program :: "'h hostio \<Rightarrow> u8 list list \<Rightarrow> 'h vm \<Rightarrow> (nat \<times> bool \<times> 'h vm) option" where
  "load_program io args s =
     (case args of
        [] \<Rightarrow> (let (n, s) = load_builtin builtin_hello ''[RV32I] running built-in hello'' s in Some (n, False, s))
      | a # _ \<Rightarrow>
          if vm_str_eq a (str ''--mte-test'') then
            (let (n, s) = load_builtin builtin_mte_test ''[RV32I+MTE] running built-in MTE test'' s in Some (n, True, s))
          else if vm_str_eq a (str ''--cheri-test'') then
            (let (n, s) = load_builtin builtin_cheri_test ''[RV32I+CHERI] running built-in bounds test'' s
             in Some (n, False, s))
          else if vm_str_eq a (str ''--cheri-uaf'') then
            (let (n, s) = load_builtin builtin_cheri_uaf_test ''[RV32I+CHERI] running built-in UAF test'' s
             in Some (n, False, s))
          else if vm_str_eq a (str ''--cheri-perm'') then
            (let (n, s) = load_builtin builtin_cheri_perm_test ''[RV32I+CHERI] running built-in perm test'' s
             in Some (n, False, s))
          else if vm_str_eq a (str ''--cheri-seal'') then
            (let (n, s) = load_builtin builtin_cheri_seal_test ''[RV32I+CHERI] running built-in seal test''
                (vm_print (0x1B # str ''[H'') s)
             in Some (n, False, s))
          else
            let (bs, h) = ax_readfile io a 0x4000 (host s);
                s = s\<lparr>host := h, vm_mem := mem_write (vm_mem s) 0 bs\<rparr> in
            if 0x4000 < length bs then None
            else if bs = [] then
              Some (0, False, vm_print (str ''rv32i: cannot load '' @ [0x27] @ a @ [0x27, 0x0A]) s)
            else Some (length bs, False, vm_print (str ''[RV32I+MTE] loaded '' @ a @ [0x0A]) s))"

text \<open>The initial machine. \<open>p\<close> is the host address of the guest memory, which seeds the tags.\<close>

definition vm_init :: "nat \<Rightarrow> nat \<Rightarrow> 'h vm \<Rightarrow> 'h vm" where
  "vm_init p prog_size s =
     (let seed = 0xDEADBEEF XOR (word_of_nat p :: u32);
          hp = (word_of_nat prog_size + MTE_GRANULE - 1) AND NOT (MTE_GRANULE - 1) in
      s\<lparr>vm_reg := (\<lambda>i. 0)(2 := VM_MEM_SIZE - 16), vm_pc := 0, vm_halted := False,
        cap_regs := (\<lambda>i. \<lparr>cap_base = 0, cap_length = 0, cap_perms = 0, cap_tag = False, cap_sealed = False\<rparr>),
        vm_tags := (\<lambda>i. 0), vm_alloc_ng := (\<lambda>i. 0),
        mte_prng := (if seed = 0 then 0xDEADBEEF else seed),
        vm_heap_ptr := (if hp < 0x200 then 0x200 else hp)\<rparr>)"

definition vm_report :: "bool \<Rightarrow> nat \<Rightarrow> 'h vm \<Rightarrow> 'h vm" where
  "vm_report is_mte_test cycles s =
     (if \<not> vm_halted s \<and> 2000000 \<le> cycles then
        vm_print (str ''[RV32I] timeout after '' @ print_hex32 (word_of_nat cycles) @ str '' cycles'' @ [0x0A]) s
      else if \<not> is_mte_test then
        vm_print (str ''[RV32I] halted at pc='' @ print_hex32 (vm_pc s) @ str '' after '' @
          print_hex32 (word_of_nat cycles) @ str '' cycles'' @ [0x0A]) s
      else s)"

definition rv_main :: "'h hostio \<Rightarrow> nat \<Rightarrow> u8 list list \<Rightarrow> 'h vm \<Rightarrow> (int \<times> 'h vm) option" where
  "rv_main io p args s =
     (if p = 0 then Some (1, vm_print (str ''rv32i: out of memory'' @ [0x0A]) s)
      else do {
        (prog_size, is_mte_test, s) \<leftarrow> load_program io args (vm_fd_init s);
        if prog_size = 0 then Some (1, s)
        else do {
          let s = vm_init p prog_size s;
          let s = (if is_mte_test
                   then vm_print (str ''[MTE] tag_bits=8  granule=16B  heap_base='' @
                          print_hex32 (vm_heap_ptr s) @ [0x0A]) s else s);
          (cycles, s) \<leftarrow> vm_run io 2000000 s;
          Some (0, vm_report is_mte_test cycles s) } })"

end
