(* ===== verification/Rv32Isa.thy ===== *)
theory Rv32Isa
  imports Rv32Step
begin

section \<open>The RV32IM instruction set as a specification\<close>

text \<open>
  The unprivileged instruction set of the RISC-V manual, independent of the interpreter: abstract
  instructions, their encoding in the six instruction formats, and their meaning in terms of signed
  and unsigned integers. \<open>vm_step_isa\<close> shows that the interpreter, on the encoding of an
  instruction, does what the instruction means. \<^verbatim>\<open>FENCE\<close> and \<^verbatim>\<open>EBREAK\<close> are not part of it: the
  interpreter stops at the first and takes the second for an \<^verbatim>\<open>ECALL\<close>.
\<close>

type_synonym reg = "5 word"
type_synonym imm12 = "12 word"

datatype bop = BEQ | BNE | BLT | BGE | BLTU | BGEU
datatype lop = LB | LH | LW | LBU | LHU
datatype sop = SB | SH | SW
datatype iop = ADDI | SLTI | SLTIU | XORI | ORI | ANDI
datatype shop = SLLI | SRLI | SRAI
datatype rop = ADD | SUB | SLL | SLT | SLTU | XOR_R | SRL | SRA | OR_R | AND_R
  | MUL | MULH | MULHSU | MULHU | DIV_R | DIVU | REM_R | REMU

text \<open>Offsets of branches and jumps are in units of two bytes.\<close>

datatype instr =
    LUI reg "20 word"
  | AUIPC reg "20 word"
  | JAL reg "20 word"
  | JALR reg reg imm12
  | BRANCH bop reg reg imm12
  | LOAD lop reg reg imm12
  | STORE sop reg reg imm12
  | OPI iop reg reg imm12
  | SHI shop reg reg "5 word"
  | OP rop reg reg reg

subsection \<open>Encoding\<close>

definition rtype :: "7 word \<Rightarrow> reg \<Rightarrow> reg \<Rightarrow> 3 word \<Rightarrow> reg \<Rightarrow> 7 word \<Rightarrow> u32" where
  "rtype f7 rs2 rs1 f3 rd opc =
     push_bit 25 (ucast f7) OR push_bit 20 (ucast rs2) OR push_bit 15 (ucast rs1) OR
     push_bit 12 (ucast f3) OR push_bit 7 (ucast rd) OR ucast opc"

definition itype :: "imm12 \<Rightarrow> reg \<Rightarrow> 3 word \<Rightarrow> reg \<Rightarrow> 7 word \<Rightarrow> u32" where
  "itype imm = rtype (ucast (drop_bit 5 imm)) (ucast imm)"

definition stype :: "imm12 \<Rightarrow> reg \<Rightarrow> reg \<Rightarrow> 3 word \<Rightarrow> 7 word \<Rightarrow> u32" where
  "stype imm rs2 rs1 f3 = rtype (ucast (drop_bit 5 imm)) rs2 rs1 f3 (ucast imm)"

definition btype :: "imm12 \<Rightarrow> reg \<Rightarrow> reg \<Rightarrow> 3 word \<Rightarrow> 7 word \<Rightarrow> u32" where
  "btype h rs2 rs1 f3 =
     rtype (push_bit 6 (ucast (drop_bit 11 h)) OR take_bit 6 (ucast (drop_bit 4 h))) rs2 rs1 f3
       (push_bit 1 (ucast (take_bit 4 h)) OR take_bit 1 (ucast (drop_bit 10 h)))"

definition utype :: "20 word \<Rightarrow> reg \<Rightarrow> 7 word \<Rightarrow> u32" where
  "utype imm rd opc = push_bit 12 (ucast imm) OR push_bit 7 (ucast rd) OR ucast opc"

definition jtype :: "20 word \<Rightarrow> reg \<Rightarrow> 7 word \<Rightarrow> u32" where
  "jtype h = utype (push_bit 19 (drop_bit 19 h) OR push_bit 9 (take_bit 10 h) OR
     push_bit 8 (take_bit 1 (drop_bit 10 h)) OR take_bit 8 (drop_bit 11 h))"

fun bop_f3 :: "bop \<Rightarrow> 3 word" where
  "bop_f3 BEQ = 0" | "bop_f3 BNE = 1" | "bop_f3 BLT = 4" | "bop_f3 BGE = 5"
| "bop_f3 BLTU = 6" | "bop_f3 BGEU = 7"

fun lop_f3 :: "lop \<Rightarrow> 3 word" where
  "lop_f3 LB = 0" | "lop_f3 LH = 1" | "lop_f3 LW = 2" | "lop_f3 LBU = 4" | "lop_f3 LHU = 5"

fun sop_f3 :: "sop \<Rightarrow> 3 word" where
  "sop_f3 SB = 0" | "sop_f3 SH = 1" | "sop_f3 SW = 2"

fun iop_f3 :: "iop \<Rightarrow> 3 word" where
  "iop_f3 ADDI = 0" | "iop_f3 SLTI = 2" | "iop_f3 SLTIU = 3" | "iop_f3 XORI = 4"
| "iop_f3 ORI = 6" | "iop_f3 ANDI = 7"

fun shop_f :: "shop \<Rightarrow> 7 word \<times> 3 word" where
  "shop_f SLLI = (0, 1)" | "shop_f SRLI = (0, 5)" | "shop_f SRAI = (0x20, 5)"

fun rop_f :: "rop \<Rightarrow> 7 word \<times> 3 word" where
  "rop_f ADD = (0, 0)" | "rop_f SUB = (0x20, 0)" | "rop_f SLL = (0, 1)" | "rop_f SLT = (0, 2)"
| "rop_f SLTU = (0, 3)" | "rop_f XOR_R = (0, 4)" | "rop_f SRL = (0, 5)" | "rop_f SRA = (0x20, 5)"
| "rop_f OR_R = (0, 6)" | "rop_f AND_R = (0, 7)" | "rop_f MUL = (1, 0)" | "rop_f MULH = (1, 1)"
| "rop_f MULHSU = (1, 2)" | "rop_f MULHU = (1, 3)" | "rop_f DIV_R = (1, 4)" | "rop_f DIVU = (1, 5)"
| "rop_f REM_R = (1, 6)" | "rop_f REMU = (1, 7)"

fun encode :: "instr \<Rightarrow> u32" where
  "encode (LUI rd imm) = utype imm rd 0x37"
| "encode (AUIPC rd imm) = utype imm rd 0x17"
| "encode (JAL rd h) = jtype h rd 0x6F"
| "encode (JALR rd rs1 imm) = itype imm rs1 0 rd 0x67"
| "encode (BRANCH b rs1 rs2 h) = btype h rs2 rs1 (bop_f3 b) 0x63"
| "encode (LOAD l rd rs1 imm) = itype imm rs1 (lop_f3 l) rd 0x03"
| "encode (STORE b rs2 rs1 imm) = stype imm rs2 rs1 (sop_f3 b) 0x23"
| "encode (OPI f rd rs1 imm) = itype imm rs1 (iop_f3 f) rd 0x13"
| "encode (SHI f rd rs1 sh) = rtype (fst (shop_f f)) sh rs1 (snd (shop_f f)) rd 0x13"
| "encode (OP f rd rs1 rs2) = rtype (fst (rop_f f)) rs2 rs1 (snd (rop_f f)) rd 0x33"

subsection \<open>Meaning\<close>

definition flag :: "bool \<Rightarrow> u32" where
  "flag b = (if b then 1 else 0)"

definition shamt :: "u32 \<Rightarrow> nat" where
  "shamt v = unat v mod 32"

fun bop_sem :: "bop \<Rightarrow> u32 \<Rightarrow> u32 \<Rightarrow> bool" where
  "bop_sem BEQ a b \<longleftrightarrow> a = b"
| "bop_sem BNE a b \<longleftrightarrow> a \<noteq> b"
| "bop_sem BLT a b \<longleftrightarrow> sint a < sint b"
| "bop_sem BGE a b \<longleftrightarrow> sint b \<le> sint a"
| "bop_sem BLTU a b \<longleftrightarrow> uint a < uint b"
| "bop_sem BGEU a b \<longleftrightarrow> uint b \<le> uint a"

fun rop_sem :: "rop \<Rightarrow> u32 \<Rightarrow> u32 \<Rightarrow> u32" where
  "rop_sem ADD a b = word_of_int (uint a + uint b)"
| "rop_sem SUB a b = word_of_int (uint a - uint b)"
| "rop_sem SLL a b = word_of_int (uint a * 2 ^ shamt b)"
| "rop_sem SLT a b = flag (sint a < sint b)"
| "rop_sem SLTU a b = flag (uint a < uint b)"
| "rop_sem XOR_R a b = a XOR b"
| "rop_sem SRL a b = word_of_int (uint a div 2 ^ shamt b)"
| "rop_sem SRA a b = word_of_int (sint a div 2 ^ shamt b)"
| "rop_sem OR_R a b = a OR b"
| "rop_sem AND_R a b = a AND b"
| "rop_sem MUL a b = word_of_int (sint a * sint b)"
| "rop_sem MULH a b = word_of_int (sint a * sint b div 2 ^ 32)"
| "rop_sem MULHSU a b = word_of_int (sint a * uint b div 2 ^ 32)"
| "rop_sem MULHU a b = word_of_int (uint a * uint b div 2 ^ 32)"
| "rop_sem DIV_R a b = (if b = 0 then - 1 else word_of_int (c_div (sint a) (sint b)))"
| "rop_sem DIVU a b = (if b = 0 then - 1 else word_of_int (uint a div uint b))"
| "rop_sem REM_R a b = (if b = 0 then a else word_of_int (c_mod (sint a) (sint b)))"
| "rop_sem REMU a b = (if b = 0 then a else word_of_int (uint a mod uint b))"

fun iop_rop :: "iop \<Rightarrow> rop" where
  "iop_rop ADDI = ADD" | "iop_rop SLTI = SLT" | "iop_rop SLTIU = SLTU" | "iop_rop XORI = XOR_R"
| "iop_rop ORI = OR_R" | "iop_rop ANDI = AND_R"

fun shop_rop :: "shop \<Rightarrow> rop" where
  "shop_rop SLLI = SLL" | "shop_rop SRLI = SRL" | "shop_rop SRAI = SRA"

fun lop_width :: "lop \<Rightarrow> nat" where
  "lop_width LB = 1" | "lop_width LH = 2" | "lop_width LW = 4" | "lop_width LBU = 1" | "lop_width LHU = 2"

fun sop_width :: "sop \<Rightarrow> nat" where
  "sop_width SB = 1" | "sop_width SH = 2" | "sop_width SW = 4"

fun lop_sem :: "lop \<Rightarrow> u8 list \<Rightarrow> u32" where
  "lop_sem LB bs = scast (le_word bs :: u8)"
| "lop_sem LH bs = scast (le_word bs :: u16)"
| "lop_sem LW bs = le_word bs"
| "lop_sem LBU bs = ucast (le_word bs :: u8)"
| "lop_sem LHU bs = ucast (le_word bs :: u16)"

text \<open>Registers as the manual has them: register 0 reads as zero and ignores writes.\<close>

definition rv_get :: "'h vm \<Rightarrow> reg \<Rightarrow> u32" where
  "rv_get s r = (if r = 0 then 0 else vm_reg s (unat r))"

definition rv_set :: "reg \<Rightarrow> u32 \<Rightarrow> 'h vm \<Rightarrow> 'h vm" where
  "rv_set r v s = (if r = 0 then s else set_reg (unat r) v s)"

definition goto :: "u32 \<Rightarrow> 'h vm \<Rightarrow> 'h vm" where
  "goto a s = s\<lparr>vm_pc := a\<rparr>"

definition eff_addr :: "'h vm \<Rightarrow> reg \<Rightarrow> imm12 \<Rightarrow> u32" where
  "eff_addr s rs1 imm = rv_get s rs1 + scast imm"

fun isa :: "instr \<Rightarrow> 'h vm \<Rightarrow> 'h vm" where
  "isa (LUI rd imm) s = goto (vm_pc s + 4) (rv_set rd (ucast imm * 4096) s)"
| "isa (AUIPC rd imm) s = goto (vm_pc s + 4) (rv_set rd (vm_pc s + ucast imm * 4096) s)"
| "isa (JAL rd h) s = goto (vm_pc s + scast h * 2) (rv_set rd (vm_pc s + 4) s)"
| "isa (JALR rd rs1 imm) s = goto (eff_addr s rs1 imm AND NOT 1) (rv_set rd (vm_pc s + 4) s)"
| "isa (BRANCH b rs1 rs2 h) s =
     goto (if bop_sem b (rv_get s rs1) (rv_get s rs2) then vm_pc s + scast h * 2 else vm_pc s + 4) s"
| "isa (LOAD l rd rs1 imm) s =
     goto (vm_pc s + 4)
       (rv_set rd (lop_sem l (mem_read (vm_mem s) (unat (eff_addr s rs1 imm)) (lop_width l))) s)"
| "isa (STORE b rs2 rs1 imm) s =
     goto (vm_pc s + 4)
       (s\<lparr>vm_mem := mem_write (vm_mem s) (unat (eff_addr s rs1 imm)) (le_bytes (sop_width b) (rv_get s rs2))\<rparr>)"
| "isa (OPI f rd rs1 imm) s =
     goto (vm_pc s + 4) (rv_set rd (rop_sem (iop_rop f) (rv_get s rs1) (scast imm)) s)"
| "isa (SHI f rd rs1 sh) s =
     goto (vm_pc s + 4) (rv_set rd (rop_sem (shop_rop f) (rv_get s rs1) (ucast sh)) s)"
| "isa (OP f rd rs1 rs2) s =
     goto (vm_pc s + 4) (rv_set rd (rop_sem f (rv_get s rs1) (rv_get s rs2)) s)"

text \<open>An access of an instruction lies within the memory and carries no tag.\<close>

fun access_ok :: "instr \<Rightarrow> 'h vm \<Rightarrow> bool" where
  "access_ok (LOAD l rd rs1 imm) s \<longleftrightarrow> unat (eff_addr s rs1 imm) + lop_width l \<le> 0x4000"
| "access_ok (STORE b rs2 rs1 imm) s \<longleftrightarrow> unat (eff_addr s rs1 imm) + sop_width b \<le> 0x4000"
| "access_ok _ s \<longleftrightarrow> True"

subsection \<open>The fields of an encoded instruction\<close>

lemma and_low:
  "(x :: u32) AND 0x7F = take_bit 7 x" "x AND 0x1F = take_bit 5 x" "x AND 0x07 = take_bit 3 x"
  "x AND 1 = take_bit 1 x" "x AND 0x3F = take_bit 6 x" "x AND 0xF = take_bit 4 x"
  "x AND 0xFF = take_bit 8 x" "x AND 0x3FF = take_bit 10 x"
  by (simp_all add: take_bit_eq_mask mask_eq_decr_exp)

lemma bit_beyond:
  fixes w :: "'a::len word"
  shows "LENGTH('a) \<le> n \<Longrightarrow> bit w n = False"
  using bit_imp_le_length [of w n] by auto

lemma bit_rtype:
  "bit (rtype f7 rs2 rs1 f3 rd opc) n \<longleftrightarrow>
     (if n < 7 then bit opc n else if n < 12 then bit rd (n - 7) else if n < 15 then bit f3 (n - 12)
      else if n < 20 then bit rs1 (n - 15) else if n < 25 then bit rs2 (n - 20)
      else n < 32 \<and> bit f7 (n - 25))"
proof -
  consider "n < 7" | "7 \<le> n" "n < 12" | "12 \<le> n" "n < 15" | "15 \<le> n" "n < 20" | "20 \<le> n" "n < 25" |
    "25 \<le> n" "n < 32" | "32 \<le> n" by linarith
  then show ?thesis
    by cases (auto simp: rtype_def bit_or_iff bit_push_bit_iff bit_unsigned_iff bit_beyond)
qed

lemma bit_utype:
  "bit (utype imm rd opc) n \<longleftrightarrow>
     (if n < 7 then bit opc n else if n < 12 then bit rd (n - 7) else n < 32 \<and> bit imm (n - 12))"
proof -
  consider "n < 7" | "7 \<le> n" "n < 12" | "12 \<le> n" "n < 32" | "32 \<le> n" by linarith
  then show ?thesis
    by cases (auto simp: utype_def bit_or_iff bit_push_bit_iff bit_unsigned_iff bit_beyond)
qed

lemma unat_ucast32:
  fixes w :: "'a::len word"
  assumes "LENGTH('a) \<le> 32"
  shows "unat (ucast w :: u32) = unat w"
proof -
  have "(2::nat) ^ LENGTH('a) \<le> 2 ^ 32" using assms by (rule power_increasing) simp
  moreover have "unat w < 2 ^ LENGTH('a)" by (rule unsigned_less)
  ultimately have "unat w < 2 ^ 32" by linarith
  then show ?thesis by (simp add: unsigned_ucast_eq take_bit_nat_eq_self)
qed

lemma rtype_fields:
  "f_op (rtype f7 rs2 rs1 f3 rd opc) = ucast opc"
  "f_rd (rtype f7 rs2 rs1 f3 rd opc) = unat rd"
  "f_f3 (rtype f7 rs2 rs1 f3 rd opc) = ucast f3"
  "f_rs1 (rtype f7 rs2 rs1 f3 rd opc) = unat rs1"
  "f_rs2 (rtype f7 rs2 rs1 f3 rd opc) = unat rs2"
  "f_f7 (rtype f7 rs2 rs1 f3 rd opc) = ucast f7"
proof -
  let ?w = "rtype f7 rs2 rs1 f3 rd opc"
  show "f_op ?w = ucast opc" unfolding f_op_def and_low
    by (rule bit_word_eqI) (simp add: bit_take_bit_iff bit_drop_bit_eq bit_rtype bit_unsigned_iff bit_beyond)
  have "take_bit 5 (drop_bit 7 ?w) = ucast rd"
    by (rule bit_word_eqI) (simp add: bit_take_bit_iff bit_drop_bit_eq bit_rtype bit_unsigned_iff bit_beyond)
  then show "f_rd ?w = unat rd" unfolding f_rd_def and_low by (simp add: unat_ucast32)
  have "take_bit 5 (drop_bit 15 ?w) = ucast rs1"
    by (rule bit_word_eqI) (simp add: bit_take_bit_iff bit_drop_bit_eq bit_rtype bit_unsigned_iff bit_beyond)
  then show "f_rs1 ?w = unat rs1" unfolding f_rs1_def and_low by (simp add: unat_ucast32)
  have "take_bit 5 (drop_bit 20 ?w) = ucast rs2"
    by (rule bit_word_eqI) (simp add: bit_take_bit_iff bit_drop_bit_eq bit_rtype bit_unsigned_iff bit_beyond)
  then show "f_rs2 ?w = unat rs2" unfolding f_rs2_def and_low by (simp add: unat_ucast32)
  show "f_f3 ?w = ucast f3" unfolding f_f3_def and_low
    by (rule bit_word_eqI) (simp add: bit_take_bit_iff bit_drop_bit_eq bit_rtype bit_unsigned_iff bit_beyond)
  show "f_f7 ?w = ucast f7" unfolding f_f7_def and_low
    by (rule bit_word_eqI)
      (auto simp: bit_take_bit_iff bit_drop_bit_eq bit_rtype bit_unsigned_iff bit_beyond dest: bit_imp_le_length)
qed


lemma utype_fields:
  "f_op (utype imm rd opc) = ucast opc" "f_rd (utype imm rd opc) = unat rd"
  "imm_u (utype imm rd opc) = ucast imm * 4096"
proof -
  let ?w = "utype imm rd opc"
  show "f_op ?w = ucast opc" unfolding f_op_def and_low
    by (rule bit_word_eqI) (simp add: bit_take_bit_iff bit_drop_bit_eq bit_utype bit_unsigned_iff bit_beyond)
  have "take_bit 5 (drop_bit 7 ?w) = ucast rd"
    by (rule bit_word_eqI) (simp add: bit_take_bit_iff bit_drop_bit_eq bit_utype bit_unsigned_iff bit_beyond)
  then show "f_rd ?w = unat rd" unfolding f_rd_def and_low by (simp add: unat_ucast32)
  have m: "(0xFFFFF000 :: u32) = push_bit 12 (mask 20)" by (simp add: mask_eq_decr_exp push_bit_eq_mult)
  have "imm_u ?w = push_bit 12 (ucast imm)" unfolding imm_u_def m
    by (rule bit_word_eqI)
      (auto simp: bit_and_iff bit_push_bit_iff bit_mask_iff bit_utype bit_unsigned_iff dest: bit_imp_le_length)
  then show "imm_u ?w = ucast imm * 4096" by (simp add: push_bit_eq_mult)
qed

subsection \<open>Immediates\<close>

lemma sext_signed:
  assumes "n < 32"
  shows "bit (sext v n) k \<longleftrightarrow> k < 32 \<and> (if k \<le> n then bit v k else bit v n \<or> bit v k)"
proof -
  have m: "(push_bit n 1 - 1 :: u32) = mask n" by (simp add: mask_eq_decr_exp push_bit_eq_mult)
  have b: "(drop_bit n v AND 1 \<noteq> 0) = bit v n" by (simp add: bit_iff_odd_drop_bit and_one_eq odd_iff_mod_2_eq_one)
  show ?thesis unfolding sext_def m b
    using assms bit_imp_le_length [of v k]
    by (auto simp: bit_or_iff bit_not_iff bit_mask_iff le_less)
qed

lemma imm_i_itype: "imm_i (itype imm rs1 f3 rd opc) = scast imm"
  unfolding imm_i_def
  by (rule bit_word_eqI)
    (auto simp: sext_signed bit_drop_bit_eq itype_def bit_rtype bit_signed_iff bit_unsigned_iff min_def
      split: if_splits dest: bit_imp_le_length)


lemma imm_s_stype: "imm_s (stype imm rs2 rs1 f3 opc) = scast imm"
  unfolding imm_s_def and_low
  by (rule bit_word_eqI)
    (auto simp: sext_signed bit_or_iff bit_push_bit_iff bit_take_bit_iff bit_drop_bit_eq stype_def bit_rtype
      bit_signed_iff bit_unsigned_iff min_def not_less split: if_splits dest: bit_imp_le_length)

lemma bit_times2:
  fixes x :: "'a::len word"
  shows "bit (x * 2) n \<longleftrightarrow> 1 \<le> n \<and> n < LENGTH('a) \<and> bit x (n - 1)"
  using bit_push_bit_iff [of 1 x n] by (simp add: push_bit_eq_mult) 

lemma odd_bit:
  fixes x :: "'a::len word"
  shows "odd x = bit x 0"
  by (simp add: bit_0)

lemma bit_btype:
  "bit (btype h rs2 rs1 f3 opc) n \<longleftrightarrow>
     (if n < 7 then bit opc n else if n = 7 then bit h 10 else if n < 12 then bit h (n - 8)
      else if n < 15 then bit f3 (n - 12) else if n < 20 then bit rs1 (n - 15) else if n < 25 then bit rs2 (n - 20)
      else if n < 31 then bit h (n - 21) else n = 31 \<and> bit h 11)"
proof -
  consider "n < 7" | "n = 7" | "8 \<le> n" "n < 12" | "12 \<le> n" "n < 25" | "25 \<le> n" "n < 31" | "n = 31" | "32 \<le> n" by linarith
  then show ?thesis unfolding btype_def bit_rtype
    by cases (auto simp: bit_times2 odd_bit bit_or_iff bit_push_bit_iff bit_take_bit_iff bit_unsigned_iff bit_drop_bit_eq simp del: bit_0 dest: bit_imp_le_length)
qed

lemma imm_b_btype: "imm_b (btype h rs2 rs1 f3 opc) = scast h * 2"
proof -
  let ?w = "btype h rs2 rs1 f3 opc"
  have "imm_b ?w = push_bit 1 (scast h)"
    unfolding imm_b_def and_low
  proof (rule bit_word_eqI)
    fix n assume "n < LENGTH(32)"
    then have n: "n < 32" by simp
    consider "n = 0" | "1 \<le> n" "n < 5" | "5 \<le> n" "n < 11" | "n = 11" | "n = 12" | "13 \<le> n" by linarith
    then show "bit (sext
        (push_bit 12 (take_bit 1 (drop_bit 31 ?w)) OR push_bit 11 (take_bit 1 (drop_bit 7 ?w)) OR
         push_bit 5 (take_bit 6 (drop_bit 25 ?w)) OR push_bit 1 (take_bit 4 (drop_bit 8 ?w))) 12) n
       = bit (push_bit 1 (scast h) :: u32) n"
      by cases (use n in \<open>auto simp: bit_times2 odd_bit sext_signed bit_or_iff bit_push_bit_iff bit_take_bit_iff bit_drop_bit_eq
        bit_btype bit_signed_iff min_def simp del: bit_0 dest: bit_imp_le_length\<close>)
  qed
  then show ?thesis by (simp add: push_bit_eq_mult)
qed

lemma bit_jtype:
  "bit (jtype h rd opc) n \<longleftrightarrow>
     (if n < 7 then bit opc n else if n < 12 then bit rd (n - 7) else if n < 20 then bit h (n - 1)
      else if n = 20 then bit h 10 else if n < 31 then bit h (n - 21) else n = 31 \<and> bit h 19)"
proof -
  consider "n < 12" | "12 \<le> n" "n < 20" | "n = 20" | "21 \<le> n" "n < 31" | "n = 31" | "32 \<le> n" by linarith
  then show ?thesis unfolding jtype_def bit_utype
    by cases (auto simp: odd_bit bit_or_iff bit_push_bit_iff bit_take_bit_iff bit_unsigned_iff bit_drop_bit_eq
      simp del: bit_0 dest: bit_imp_le_length)
qed

lemma imm_j_jtype: "imm_j (jtype h rd opc) = scast h * 2"
proof -
  let ?w = "jtype h rd opc"
  have "imm_j ?w = push_bit 1 (scast h)"
    unfolding imm_j_def and_low
  proof (rule bit_word_eqI)
    fix n assume "n < LENGTH(32)"
    then have n: "n < 32" by simp
    consider "n = 0" | "1 \<le> n" "n < 11" | "n = 11" | "12 \<le> n" "n < 20" | "n = 20" | "21 \<le> n" by linarith
    then show "bit (sext
        (push_bit 20 (take_bit 1 (drop_bit 31 ?w)) OR push_bit 12 (take_bit 8 (drop_bit 12 ?w)) OR
         push_bit 11 (take_bit 1 (drop_bit 20 ?w)) OR push_bit 1 (take_bit 10 (drop_bit 21 ?w))) 20) n
       = bit (push_bit 1 (scast h) :: u32) n"
      by cases (use n in \<open>auto simp: bit_times2 odd_bit sext_signed bit_or_iff bit_push_bit_iff bit_take_bit_iff bit_drop_bit_eq
        bit_jtype bit_signed_iff min_def simp del: bit_0 dest: bit_imp_le_length\<close>)
  qed
  then show ?thesis by (simp add: push_bit_eq_mult)
qed

subsection \<open>Arithmetic\<close>

lemma shamt_mask: "unat (b AND 0x1F :: u32) = shamt b" "shamt b < 32"
  by (simp_all add: shamt_def and_low unsigned_take_bit_eq take_bit_eq_mod unat_mod)

lemma word_of_int_uint_div: "word_of_int (uint a div 2 ^ k) = (drop_bit k a :: u32)"
proof -
  have "uint a < 2 ^ LENGTH(32)" by (rule unsigned_less)
  then have "take_bit 32 (uint a) = uint a" by (simp add: take_bit_int_eq_self)
  then have "uint a div 2 ^ k = uint (drop_bit k a)" by (simp add: unsigned_drop_bit_eq flip: drop_bit_eq_div)
  then show ?thesis by simp
qed

lemma word_of_int_sint_div: "word_of_int (sint a div 2 ^ k) = (signed_drop_bit k a :: u32)"
  by (simp add: drop_bit_eq_div [symmetric] sint_signed_drop_bit_eq [symmetric])

lemma div_overflow: "word_of_int (c_div (sint (0x80000000 :: u32)) (sint (- 1 :: u32))) = (0x80000000 :: u32)"
  "word_of_int (c_mod (sint (0x80000000 :: u32)) (sint (- 1 :: u32))) = (0 :: u32)"
  by (simp_all add: c_div_def c_mod_def)

lemma alu_reg_sem: "alu_reg (ucast (snd (rop_f f))) (ucast (fst (rop_f f))) a b = rop_sem f a b"
proof (cases f)
  case DIV_R
  then show ?thesis using div_overflow(1) by (auto simp: alu_reg_def muldiv_def)
next
  case REM_R
  then show ?thesis using div_overflow(2) by (auto simp: alu_reg_def muldiv_def)
qed (simp_all add: alu_reg_def muldiv_def Let_def flag_def shamt_mask word_sless_alt word_less_def push_bit_eq_mult
    drop_bit_eq_div word_of_int_uint_div word_of_int_sint_div word_div_def word_mod_def)

lemma alu_imm_sem:
  "alu_imm (ucast (iop_f3 f)) g k a b = rop_sem (iop_rop f) a b"
  by (cases f) (simp_all add: alu_imm_def flag_def word_sless_alt word_less_def)

lemma shift_imm_sem:
  "alu_imm (ucast (snd (shop_f f))) (ucast (fst (shop_f f))) (unat sh) a b = rop_sem (shop_rop f) a (ucast (sh :: 5 word))"
proof -
  have "unat sh < 2 ^ LENGTH(5)" by (rule unsigned_less)
  then have "shamt (ucast sh) = unat sh" by (simp add: shamt_def unat_ucast32)
  then show ?thesis
    by (cases f) (simp_all add: alu_imm_def push_bit_eq_mult word_of_int_uint_div word_of_int_sint_div)
qed

lemma branch_sem: "branch_taken (ucast (bop_f3 b)) v w = bop_sem b v w"
  by (cases b) (simp_all add: branch_taken_def word_sless_alt word_sle_eq word_less_def word_le_def)


subsection \<open>Untagged accesses inside the memory\<close>

lemma low_addr:
  fixes a :: u32
  assumes "unat a < 0x4000"
  shows "a AND MTE_ADDR_MASK = a" "ptr_tag a = 0" "a < VM_MEM_SIZE"
proof -
  have t: "take_bit 24 a = a"
    by (rule iffD2 [OF word_unat_eq_iff]) (use assms in \<open>simp add: unsigned_take_bit_eq take_bit_nat_eq_self\<close>)
  have m: "(0x00FFFFFF :: u32) = mask 24" by (simp add: mask_eq_decr_exp)
  show "a AND MTE_ADDR_MASK = a" unfolding m using t by (simp flip: take_bit_eq_mask)
  have "drop_bit 24 a = 0"
    by (rule iffD2 [OF word_unat_eq_iff]) (use assms in \<open>simp add: drop_bit_eq_div unat_div\<close>)
  then show "ptr_tag a = 0" by (simp add: ptr_tag_def)
  show "a < VM_MEM_SIZE" using assms by (simp add: word_less_nat_alt)
qed

lemma low_plus:
  fixes a :: u32
  assumes "unat a + k < 0x4000"
  shows "unat (a + word_of_nat k) = unat a + k"
  using assms by (simp add: unat_word_ariths unat_of_nat take_bit_nat_eq_self)

lemma low_plus_num:
  fixes a :: u32
  shows "unat a + 1 < 0x4000 \<Longrightarrow> unat (a + 1) = unat a + 1"
    "unat a + 2 < 0x4000 \<Longrightarrow> unat (a + 2) = unat a + 2"
    "unat a + 3 < 0x4000 \<Longrightarrow> unat (a + 3) = unat a + 3"
  using low_plus [of a 1] low_plus [of a 2] low_plus [of a 3] by simp_all

lemma mem_read_unfold:
  "mem_read m a 1 = [m a]" "mem_read m a 2 = [m a, m (a + 1)]"
  "mem_read m a 4 = [m a, m (a + 1), m (a + 2), m (a + 3)]"
  by (simp_all add: mem_read_def upt_rec numeral_3_eq_3)

lemma vm_word_ok:
  assumes "unat a + 4 \<le> 0x4000"
  shows "vm_word a s = Some (le_word (mem_read (vm_mem s) (unat a) 4))"
proof -
  have b: "a < VM_MEM_SIZE" "a + 1 < VM_MEM_SIZE" "a + 2 < VM_MEM_SIZE" "a + 3 < VM_MEM_SIZE"
    using assms low_plus_num [of a] by (simp_all add: word_less_nat_alt)
  have "ucast b0 OR push_bit 8 (ucast b1) OR push_bit 16 (ucast b2) OR push_bit 24 (ucast b3) =
      (le_word [b0, b1, b2, b3] :: u32)" for b0 b1 b2 b3 :: u8
    by (simp add: push_bit_or)
  then show ?thesis using assms b low_plus_num [of a] by (simp add: vm_word_def vm_ld_def mem_read_unfold ac_simps)
qed

lemma mem_write_snoc:
  "mem_write (m(a := b)) (a + 1) bs = mem_write m a (b # bs)"
  by (rule ext) (auto simp: mem_write_def nth_Cons' not_le le_Suc_eq split: if_splits)

lemma vm_st_ok: "unat a < 0x4000 \<Longrightarrow> vm_st a b s = Some (s\<lparr>vm_mem := (vm_mem s)(unat a := b)\<rparr>)"
  by (simp add: vm_st_def word_less_nat_alt)

lemma sext_byte: "sext (ucast (b :: u8)) 7 = scast b" "sext (ucast (h :: u16)) 15 = scast h"
  by (rule bit_word_eqI; auto simp: sext_signed bit_unsigned_iff bit_signed_iff min_def dest: bit_imp_le_length)+

lemma mte_check_low: "unat a < 0x4000 \<Longrightarrow> mte_check a w s = Some (True, s)"
  by (simp add: mte_check_def low_addr)

lemma half_word: "ucast (b0 :: u8) OR push_bit 8 (ucast (b1 :: u8)) = (ucast (le_word [b0, b1] :: u16) :: u32)"
  by (rule bit_word_eqI)
    (auto simp: bit_or_iff bit_push_bit_iff bit_unsigned_iff dest: bit_imp_le_length)

lemma mr8_ok: "unat a + 1 \<le> 0x4000 \<Longrightarrow> mr8 a s = Some (ucast (vm_mem s (unat a)), s)"
  by (simp add: mr8_def mte_check_low low_addr vm_ld_def word_le_nat_alt)

lemma mr16_ok:
  assumes "unat a + 2 \<le> 0x4000"
  shows "mr16 a s = Some (ucast (le_word (mem_read (vm_mem s) (unat a) 2) :: u16), s)"
proof -
  have b: "a < VM_MEM_SIZE" "a + 1 < VM_MEM_SIZE" "unat (a + 1) = unat a + 1"
    using assms low_plus_num(1) [of a] by (simp_all add: word_less_nat_alt)
  have "mr16 a s = Some (ucast (vm_mem s (unat a)) OR push_bit 8 (ucast (vm_mem s (unat a + 1))), s)"
    using assms b by (simp add: mr16_def mte_check_low low_addr vm_ld_def word_le_nat_alt)
  then show ?thesis by (simp only: half_word mem_read_unfold)
qed

lemma mr32_ok:
  assumes "unat a + 4 \<le> 0x4000"
  shows "mr32 a s = Some (le_word (mem_read (vm_mem s) (unat a) 4), s)"
proof -
  have "\<not> VM_MEM_SIZE \<le> a + 3" using assms low_plus_num(3) [of a] by (simp add: word_less_nat_alt not_le)
  then show ?thesis using assms by (simp add: mr32_def mte_check_low low_addr vm_word_ok)
qed

lemma load_sem:
  assumes "unat a + lop_width l \<le> 0x4000"
  shows "vm_load (ucast (lop_f3 l)) a s = Some (Some (lop_sem l (mem_read (vm_mem s) (unat a) (lop_width l))), s)"
  using assms
  by (cases l) (simp_all add: vm_load_def mr8_ok mr16_ok mr32_ok sext_byte mem_read_unfold(1) [unfolded One_nat_def])

lemma mw16_ok:
  assumes "unat a + 2 \<le> 0x4000"
  shows "mw16 a v s = Some (s\<lparr>vm_mem := mem_write (vm_mem s) (unat a) (le_bytes 2 v)\<rparr>)"
proof -
  have b: "a + 1 < VM_MEM_SIZE" "unat (a + 1) = unat a + 1"
    using assms low_plus_num(1) [of a] by (simp_all add: word_less_nat_alt)
  then show ?thesis using assms
    by (simp add: mw16_def mte_check_low low_addr vm_st_ok mem_write_snoc [symmetric] numeral_2_eq_2)
qed

lemma vm_put_word_ok:
  assumes "unat a + 4 \<le> 0x4000"
  shows "vm_put_word a v s = Some (s\<lparr>vm_mem := mem_write (vm_mem s) (unat a) (le_bytes 4 v)\<rparr>)"
proof -
  have b: "unat (a + 1) = unat a + 1" "unat (a + 2) = unat a + 2" "unat (a + 3) = unat a + 3"
    using assms low_plus_num [of a] by simp_all
  have e: "mem_write m k (le_bytes 4 v) = m(k := ucast v, k + 1 := ucast (drop_bit 8 v), k + 2 := ucast (drop_bit 16 v),
      k + 3 := ucast (drop_bit 24 v))" for m k
    by (rule ext) (auto simp: mem_write_def nth_Cons' eval_nat_numeral)
  show ?thesis using assms b by (simp add: vm_put_word_def vm_st_ok e)
qed

lemma store_sem:
  assumes "unat a + sop_width b \<le> 0x4000"
  shows "vm_store (ucast (sop_f3 b)) a v s = Some (s\<lparr>vm_mem := mem_write (vm_mem s) (unat a) (le_bytes (sop_width b) v)\<rparr>)"
proof (cases b)
  case SB
  have "mem_write m k [x] = m(k := x)" for m k x by (rule ext) (auto simp: mem_write_def)
  then show ?thesis using assms SB
    by (simp add: vm_store_def mw8_def mte_check_low low_addr vm_st_ok)
next
  case SH
  then show ?thesis using assms by (simp add: vm_store_def mw16_ok)
next
  case SW
  have "a + 3 < VM_MEM_SIZE" using assms SW low_plus_num(3) [of a] by (simp add: word_less_nat_alt)
  then show ?thesis using assms SW
    by (simp add: vm_store_def mw32_def mte_check_low low_addr vm_put_word_ok)
qed

subsection \<open>The interpreter follows the instruction set\<close>

lemma finish_set:
  assumes "vm_reg s 0 = 0"
  shows "vm_finish (unat rd) (Some v) npc s = goto npc (rv_set rd v s)"
proof -
  have e: "(vm_reg s)(0 := 0) = vm_reg s" using assms by (simp add: fun_upd_idem)
  have "((vm_reg s)(unat rd := v))(0 := 0) = (vm_reg s)(unat rd := v)" if "rd \<noteq> 0"
    using that assms by (auto simp: unat_eq_0)
  then show ?thesis using e by (auto simp: vm_finish_def goto_def rv_set_def set_reg_def unat_eq_0)
qed

lemma finish_none: "vm_reg s 0 = 0 \<Longrightarrow> vm_finish rd None npc s = goto npc s"
  by (simp add: vm_finish_def goto_def fun_upd_idem)

lemma rv_get_reg: "vm_reg s 0 = 0 \<Longrightarrow> vm_reg s (unat r) = rv_get s r"
  by (auto simp: rv_get_def)

lemmas fmt = itype_def stype_def

lemma btype_fields:
  "f_op (btype h rs2 rs1 f3 opc) = ucast opc" "f_f3 (btype h rs2 rs1 f3 opc) = ucast f3"
  "f_rs1 (btype h rs2 rs1 f3 opc) = unat rs1" "f_rs2 (btype h rs2 rs1 f3 opc) = unat rs2"
  by (simp_all add: btype_def rtype_fields)

lemma jtype_fields:
  "f_op (jtype h rd opc) = ucast opc" "f_rd (jtype h rd opc) = unat rd"
  by (simp_all add: jtype_def utype_fields)

lemma itype_fields:
  "f_op (itype imm rs1 f3 rd opc) = ucast opc" "f_rd (itype imm rs1 f3 rd opc) = unat rd"
  "f_f3 (itype imm rs1 f3 rd opc) = ucast f3" "f_rs1 (itype imm rs1 f3 rd opc) = unat rs1"
  by (simp_all add: itype_def rtype_fields)

lemma stype_fields:
  "f_op (stype imm rs2 rs1 f3 opc) = ucast opc" "f_f3 (stype imm rs2 rs1 f3 opc) = ucast f3"
  "f_rs1 (stype imm rs2 rs1 f3 opc) = unat rs1" "f_rs2 (stype imm rs2 rs1 f3 opc) = unat rs2"
  by (simp_all add: stype_def rtype_fields)

lemmas fields = rtype_fields itype_fields stype_fields btype_fields utype_fields jtype_fields

lemma exec_isa:
  assumes z: "vm_reg s 0 = 0" and a: "access_ok i s"
  shows "vm_exec io (encode i) s = Some (isa i s)"
proof (cases i)
  case (LOAD l rd rs1 imm)
  then have "unat (rv_get s rs1 + scast imm) + lop_width l \<le> 0x4000" using a by (simp add: eff_addr_def)
  note l = load_sem [OF this, of s]
  show ?thesis unfolding LOAD
    by (simp add: vm_exec_def fields imm_i_itype rv_get_reg [OF z] l finish_set [OF z] eff_addr_def)
next
  case (STORE b rs2 rs1 imm)
  then have "unat (rv_get s rs1 + scast imm) + sop_width b \<le> 0x4000" using a by (simp add: eff_addr_def)
  note l = store_sem [OF this, of "rv_get s rs2" s]
  show ?thesis unfolding STORE
    by (simp add: vm_exec_def fields imm_s_stype rv_get_reg [OF z] l finish_none z eff_addr_def)
next
  case (BRANCH b rs1 rs2 h)
  show ?thesis unfolding BRANCH
    by (simp add: vm_exec_def fields imm_b_btype rv_get_reg [OF z] branch_sem finish_none [OF z])
next
  case (SHI f rd rs1 sh)
  show ?thesis unfolding SHI
    by (simp add: vm_exec_def fields rv_get_reg [OF z] shift_imm_sem finish_set [OF z])
next
  case (OP f rd rs1 rs2)
  show ?thesis unfolding OP
    by (simp add: vm_exec_def fields rv_get_reg [OF z] alu_reg_sem finish_set [OF z])
qed (simp_all add: vm_exec_def fields imm_i_itype imm_j_jtype rv_get_reg [OF z] finish_set [OF z] alu_imm_sem eff_addr_def)

definition fetches :: "'h vm \<Rightarrow> instr \<Rightarrow> bool" where
  "fetches s i \<longleftrightarrow>
     unat (vm_pc s) + 4 \<le> 0x4000 \<and> le_word (mem_read (vm_mem s) (unat (vm_pc s)) 4) = encode i"

lemma vm_step_isa:
  assumes "\<not> vm_halted s" "vm_reg s 0 = 0" "fetches s i" "access_ok i s"
  shows "vm_step io s = Some (isa i s)"
proof -
  have pc: "unat (vm_pc s) + 4 \<le> 0x4000" using assms by (simp add: fetches_def)
  then have "\<not> VM_MEM_SIZE \<le> vm_pc s + 3" using low_plus_num(3) [of "vm_pc s"] by (simp add: word_le_nat_alt)
  then have "vm_ifetch (vm_pc s) s = Some (encode i)"
    using pc assms by (simp add: vm_ifetch_def low_addr vm_word_ok fetches_def)
  then show ?thesis using assms exec_isa by (simp add: vm_step_def)
qed

lemma isa_keeps: "vm_halted (isa i s) = vm_halted s" "vm_reg s 0 = 0 \<Longrightarrow> vm_reg (isa i s) 0 = 0"
  by (cases i; auto simp: goto_def rv_set_def set_reg_def unat_eq_0)+

text \<open>\<open>n\<close> instructions of the manual, each fetched from where the program counter points.\<close>

inductive isa_steps :: "nat \<Rightarrow> 'h vm \<Rightarrow> 'h vm \<Rightarrow> bool" where
  refl: "isa_steps 0 s s"
| step: "fetches s i \<Longrightarrow> access_ok i s \<Longrightarrow> isa_steps n (isa i s) t \<Longrightarrow> isa_steps (Suc n) s t"

text \<open>
  C6. The interpreter runs RISC-V programs: whenever the manual's semantics takes \<open>n\<close> instructions
  from one state to another, with untagged accesses inside the memory, the main loop of the
  interpreter executes exactly these \<open>n\<close> instructions and ends in the same state.
\<close>
theorem vm_run_isa:
  assumes "isa_steps n s t" "\<not> vm_halted s" "vm_reg s 0 = 0"
  shows "vm_run io n s = Some (n, t)"
  using assms
proof (induction rule: isa_steps.induct)
  case (refl s)
  then show ?case by simp
next
  case (step s i n t)
  then show ?case using vm_step_isa [of s i io] by (simp add: isa_keeps)
qed


subsection \<open>A program in memory\<close>

definition assemble :: "instr list \<Rightarrow> u8 list" where
  "assemble is = concat (map (\<lambda>i. le_bytes 4 (encode i)) is)"

lemma length_assemble [simp]: "length (assemble is) = 4 * length is"
  by (induction "is") (auto simp: assemble_def)

lemma assemble_nth: "k < length is \<Longrightarrow> take 4 (drop (4 * k) (assemble is)) = le_bytes 4 (encode (is ! k))"
proof (induction "is" arbitrary: k)
  case Nil
  then show ?case by simp
next
  case (Cons i "is")
  then show ?case by (cases k) (simp_all add: assemble_def)
qed

lemma assemble_fetches:
  assumes m: "vm_mem s = mem_write m 0 (assemble is)" and k: "k < length is" "length is \<le> 0x1000"
    and pc: "vm_pc s = word_of_nat (4 * k)"
  shows "fetches s (is ! k)"
proof -
  have u: "unat (vm_pc s) = 4 * k" using k pc by (simp add: unat_of_nat take_bit_nat_eq_self del: of_nat_mult)
  have "mem_read (vm_mem s) (4 * k) 4 = le_bytes 4 (encode (is ! k))"
    using mem_read_write_inside [of "4 * k" 4 "assemble is" m 0] k assemble_nth [OF k(1)] m by simp
  then show ?thesis using k u by (simp add: fetches_def le_word_le_bytes)
qed

definition demo_prog :: "instr list" where
  "demo_prog = [OPI ADDI 10 0 5, OP ADD 11 10 10, JAL 0 (- 4)]"

text \<open>A host whose calls all fail.\<close>

definition demo_io :: "unit hostio" where
  "demo_io = \<lparr>ax_open = (\<lambda>_ _ h. (-1, h)), ax_fread = (\<lambda>_ _ h. (0, [], h)), ax_fwrite = (\<lambda>_ _ h. (0, h)),
     ax_close = (\<lambda>_ h. h), ax_readfile = (\<lambda>_ _ h. ([], h))\<rparr>"

definition demo_vm :: "unit vm" where
  "demo_vm = vm_init 0x10000 12 \<lparr>vm_mem = mem_write (\<lambda>_. 0) 0 (assemble demo_prog), vm_reg = (\<lambda>_. 0),
     vm_pc = 0, vm_halted = False, vm_tags = (\<lambda>_. 0), vm_alloc_ng = (\<lambda>_. 0), vm_heap_ptr = 0, mte_prng = 0,
     cap_regs = (\<lambda>_. \<lparr>cap_base = 0, cap_length = 0, cap_perms = 0, cap_tag = False, cap_sealed = False\<rparr>),
     vm_fd = (\<lambda>_. -1), vm_out = [], host = ()\<rparr>"

lemma demo_vm_simps [simp]:
  "vm_mem demo_vm = mem_write (\<lambda>_. 0) 0 (assemble demo_prog)" "vm_pc demo_vm = 0" "\<not> vm_halted demo_vm"
  "vm_reg demo_vm = (\<lambda>_. 0)(2 := 0x3FF0)"
  by (simp_all add: demo_vm_def vm_init_def Let_def)

lemma demo_steps:
  "\<exists>t. isa_steps 3 demo_vm t \<and> vm_reg t 11 = 10 \<and> vm_pc t = 0"
proof -
  define s1 where "s1 = isa (demo_prog ! 0) demo_vm"
  define s2 where "s2 = isa (demo_prog ! 1) s1"
  define s3 where "s3 = isa (demo_prog ! 2) s2"
  have 1: "vm_pc s1 = 4" "vm_mem s1 = mem_write (\<lambda>_. 0) 0 (assemble demo_prog)" "vm_reg s1 10 = 5"
    by (simp_all add: s1_def demo_prog_def goto_def rv_set_def set_reg_def rv_get_def)
  have 2: "vm_pc s2 = 8" "vm_mem s2 = mem_write (\<lambda>_. 0) 0 (assemble demo_prog)" "vm_reg s2 11 = 10"
    using 1 by (simp_all add: s2_def demo_prog_def goto_def rv_set_def set_reg_def rv_get_def)
  have 3: "vm_pc s3 = 0" "vm_reg s3 11 = 10"
    using 2 by (simp_all add: s3_def demo_prog_def goto_def rv_set_def)
  have "isa_steps (Suc (Suc (Suc 0))) demo_vm s3"
  proof (rule isa_steps.step [of _ "demo_prog ! 0"], goal_cases)
    case 1 show ?case by (rule assemble_fetches [of _ "\<lambda>_. 0"]) (simp_all add: demo_prog_def)
  next
    case 2 show ?case by (simp add: demo_prog_def)
  next
    case 3 show ?case unfolding s1_def [symmetric]
    proof (rule isa_steps.step [of _ "demo_prog ! 1"], goal_cases)
      case 1 show ?case by (rule assemble_fetches [of _ "\<lambda>_. 0"]) (simp_all add: 1 \<open>vm_pc s1 = 4\<close> \<open>vm_mem s1 = _\<close>, simp_all add: demo_prog_def)
    next
      case 2 show ?case by (simp add: demo_prog_def)
    next
      case 3 show ?case unfolding s2_def [symmetric]
      proof (rule isa_steps.step [of _ "demo_prog ! 2"], goal_cases)
        case 1 show ?case by (rule assemble_fetches [of _ "\<lambda>_. 0"]) (simp_all add: 2 \<open>vm_pc s2 = 8\<close> \<open>vm_mem s2 = _\<close>, simp_all add: demo_prog_def)
      next
        case 2 show ?case by (simp add: demo_prog_def)
      next
        case 3 show ?case unfolding s3_def [symmetric] by (rule isa_steps.refl)
      qed
    qed
  qed
  then show ?thesis using 3 by (auto simp: numeral_3_eq_3)
qed

theorem vm_run_isa_witness:
  "\<exists>t. vm_run demo_io 3 demo_vm = Some (3, t) \<and> vm_reg t 11 = 10 \<and> vm_pc t = 0"
proof -
  obtain t where t: "isa_steps 3 demo_vm t" "vm_reg t 11 = 10" "vm_pc t = 0" using demo_steps by blast
  have "vm_run demo_io 3 demo_vm = Some (3, t)" by (rule vm_run_isa [OF t(1)]) simp_all
  then show ?thesis using t by blast
qed

end
