(* ===== verification/Rv32Tags.thy ===== *)
theory Rv32Tags
  imports Rv32Step
begin

section \<open>The tag generator of the virtual machine\<close>

text \<open>
  \<^verbatim>\<open>mte_rand_tag_ne\<close> draws tags until one differs from the tag in use. The generator is linear over
  the bits of its state, so the differences of six successive tags determine the state: were all six
  equal, the state would be zero, which \<^verbatim>\<open>main\<close> rules out. The loop therefore ends after at most
  six draws.
\<close>

lemma xor_linear_eqI:
  fixes f :: "u32 \<Rightarrow> u32"
  assumes add: "\<And>x y. f (x XOR y) = f x XOR f y" and base: "\<forall>n < 32. f (push_bit n 1) = push_bit n 1"
  shows "f x = x"
proof -
  have z: "f 0 = 0" using add [of 0 0] by simp
  have "f (take_bit n x) = take_bit n x" if "n \<le> 32" for n
    using that
  proof (induction n)
    case 0
    then show ?case using z by simp
  next
    case (Suc n)
    have e: "take_bit (Suc n) x = take_bit n x XOR (if bit x n then push_bit n 1 else 0)"
      by (rule bit_word_eqI)
        (auto simp: bit_take_bit_iff bit_xor_iff bit_push_bit_iff bit_1_iff less_Suc_eq simp del: push_bit_of_1 split: if_splits)
    have "f (if bit x n then push_bit n 1 else 0) = (if bit x n then push_bit n 1 else 0)"
      using base Suc.prems z by simp
    then show ?case using Suc unfolding e by (simp add: add)
  qed
  moreover have "take_bit 32 x = x" by (rule bit_word_eqI) (simp add: bit_take_bit_iff)
  ultimately show ?thesis by (metis order_refl)
qed

lemma xorshift_linear: "xorshift32 (x XOR y) = xorshift32 x XOR xorshift32 y"
  by (simp add: xorshift32_def Let_def push_bit_xor drop_bit_xor ac_simps)

text \<open>What two successive tags of one state differ in, without the lowest bit, which the replacement of 0 by 1 may hide.\<close>

definition tag_diff :: "u32 \<Rightarrow> u32" where
  "tag_diff x = take_bit 7 (drop_bit 9 (x XOR xorshift32 x))"

lemma tag_diff_linear: "tag_diff (x XOR y) = tag_diff x XOR tag_diff y"
  by (simp add: tag_diff_def xorshift_linear take_bit_xor drop_bit_xor ac_simps)

text \<open>The bits of a word that select masks, combined.\<close>

primrec pick :: "u32 list \<Rightarrow> u32 \<Rightarrow> u32" where
  "pick [] w = 0"
| "pick (m # ms) w = (if bit w 0 then m else 0) XOR pick ms (drop_bit 1 w)"

lemma pick_linear: "pick ms (x XOR y) = pick ms x XOR pick ms y"
  by (induction ms arbitrary: x y) (auto simp: bit_xor_iff drop_bit_xor ac_simps simp del: bit_0)

definition rebuild :: "u32 \<Rightarrow> u32" where
  "rebuild x0 =
     (let x1 = xorshift32 x0; x2 = xorshift32 x1; x3 = xorshift32 x2; x4 = xorshift32 x3; x5 = xorshift32 x4 in
      pick [0xF769A364, 0xE789FCE6, 0xDBABB8BE, 0x7A8BAB57, 0x2A7ED803, 0xE1516095, 0x6DF73BB7] (tag_diff x1) XOR
      pick [0x04CCBACE, 0x9F85366E, 0xBE45B9F1, 0x824BC8D6, 0x9A7CC925, 0xF0FD68C7, 0x446CFAE6] (tag_diff x2) XOR
      pick [0x9406618A, 0x1584E9E9, 0xDC4D1CC0, 0x1BABB2A8, 0x85915C67, 0xF00182E9, 0x16A7EF52] (tag_diff x3) XOR
      pick [0xD044F717, 0x0D6A44B5, 0x5642C526, 0x282A5AF2, 0xDABF4D6C, 0x653A6DCF, 0xC69773E9] (tag_diff x4) XOR
      pick [0xF7D14217, 0xF3C8D847, 0xE18BB2F7, 0xD0C08E72, 0x00000000, 0x00000000, 0x00000000] (tag_diff x5))"

lemma rebuild_linear: "rebuild (x XOR y) = rebuild x XOR rebuild y"
  by (simp only: rebuild_def Let_def xorshift_linear tag_diff_linear pick_linear ac_simps)

lemma less_32_cases: "(\<forall>n < 32. P n) \<longleftrightarrow> list_all P [0..<32]"
  by (auto simp: list_all_iff)

lemma rebuild_unit:
  "rebuild 0x1 = 0x1"
  "rebuild 0x2 = 0x2"
  "rebuild 0x4 = 0x4"
  "rebuild 0x8 = 0x8"
  "rebuild 0x10 = 0x10"
  "rebuild 0x20 = 0x20"
  "rebuild 0x40 = 0x40"
  "rebuild 0x80 = 0x80"
  "rebuild 0x100 = 0x100"
  "rebuild 0x200 = 0x200"
  "rebuild 0x400 = 0x400"
  "rebuild 0x800 = 0x800"
  "rebuild 0x1000 = 0x1000"
  "rebuild 0x2000 = 0x2000"
  "rebuild 0x4000 = 0x4000"
  "rebuild 0x8000 = 0x8000"
  "rebuild 0x10000 = 0x10000"
  "rebuild 0x20000 = 0x20000"
  "rebuild 0x40000 = 0x40000"
  "rebuild 0x80000 = 0x80000"
  "rebuild 0x100000 = 0x100000"
  "rebuild 0x200000 = 0x200000"
  "rebuild 0x400000 = 0x400000"
  "rebuild 0x800000 = 0x800000"
  "rebuild 0x1000000 = 0x1000000"
  "rebuild 0x2000000 = 0x2000000"
  "rebuild 0x4000000 = 0x4000000"
  "rebuild 0x8000000 = 0x8000000"
  "rebuild 0x10000000 = 0x10000000"
  "rebuild 0x20000000 = 0x20000000"
  "rebuild 0x40000000 = 0x40000000"
  "rebuild 0x80000000 = 0x80000000"
  by (simp_all add: rebuild_def xorshift32_def tag_diff_def Let_def cong: let_weak_cong if_weak_cong)

lemma upt_32: "[0..<32] = [0, 1, 2, 3, 4, 5, 6, 7, 8, 9, 10, 11, 12, 13, 14, 15, 16, 17, 18, 19, 20, 21, 22, 23,
    24, 25, 26, 27, 28, 29, 30, 31]"
  by code_simp

lemma rebuild_base: "\<forall>n < 32. rebuild (push_bit n 1) = push_bit n 1"
  unfolding less_32_cases upt_32 by (simp add: rebuild_unit)

lemma rebuild_id: "rebuild x = x"
  by (rule xor_linear_eqI [OF rebuild_linear rebuild_base])

subsection \<open>Six draws\<close>

definition draw :: "u32 \<Rightarrow> u32" where
  "draw p = fst (mte_rand_tag p)"

lemma mte_rand_tag_eq: "mte_rand_tag p = (draw p, xorshift32 p)"
  by (simp add: mte_rand_tag_def draw_def Let_def)

lemma draw_upper: "drop_bit 1 (draw p) = take_bit 7 (drop_bit 9 (xorshift32 p))"
proof -
  have m: "(0xFF :: u32) = mask 8" by (simp add: mask_eq_decr_exp)
  let ?b = "take_bit 8 (drop_bit 8 (xorshift32 p))"
  have d: "draw p = (if ?b \<noteq> 0 then ?b else 1)"
    by (simp add: draw_def mte_rand_tag_def Let_def m take_bit_eq_mask)
  have b: "drop_bit 1 ?b = take_bit 7 (drop_bit 9 (xorshift32 p))"
    by (rule bit_word_eqI) (auto simp: bit_drop_bit_eq bit_take_bit_iff)
  show ?thesis
  proof (cases "?b = 0")
    case True
    have "take_bit 7 (drop_bit 9 (xorshift32 p)) = 0" using b True by (simp only: drop_bit_of_0)
    moreover have "draw p = 1" using d True by (simp only: refl if_False not_True_eq_False)
    ultimately show ?thesis by simp
  next
    case False
    then show ?thesis using d b by (simp only: if_True simp_thms)
  qed
qed

lemma same_draw: "draw p = draw (xorshift32 p) \<Longrightarrow> tag_diff (xorshift32 p) = 0"
  using draw_upper [of p] draw_upper [of "xorshift32 p"]
  by (simp add: tag_diff_def take_bit_xor drop_bit_xor)

lemma pick_0 [simp]: "pick ms 0 = 0"
  by (induction ms) auto

lemma draws_differ:
  assumes p: "p \<noteq> 0"
  shows "\<exists>n < 6. draw ((xorshift32 ^^ n) p) \<noteq> old"
proof (rule ccontr)
  assume "\<not> ?thesis"
  then have a: "draw ((xorshift32 ^^ n) p) = old" if "n < 6" for n using that by blast
  have "tag_diff ((xorshift32 ^^ Suc n) p) = 0" if "n < 5" for n
    using same_draw [of "(xorshift32 ^^ n) p"] a [of n] a [of "Suc n"] that by simp
  from this [of 0] this [of 1] this [of 2] this [of 3] this [of 4]
  have "rebuild p = 0" by (simp add: rebuild_def Let_def eval_nat_numeral)
  then show False using p rebuild_id [of p] by simp
qed

lemma xorshift_nonzero: "p \<noteq> 0 \<Longrightarrow> xorshift32 p \<noteq> 0"
proof
  assume p: "p \<noteq> 0" "xorshift32 p = 0"
  have z: "xorshift32 0 = 0" by (simp add: xorshift32_def)
  have "rebuild p = 0" using p(2) z by (simp add: rebuild_def Let_def tag_diff_def)
  then show False using p(1) rebuild_id [of p] by simp
qed

lemma rand_tag_ne_unfold:
  "mte_rand_tag_ne old p = (if draw p \<noteq> old then Some (draw p, xorshift32 p) else mte_rand_tag_ne old (xorshift32 p))"
  by (subst mte_rand_tag_ne.simps) (simp add: mte_rand_tag_eq Let_def)

lemma rand_tag_ne_after:
  assumes "draw ((xorshift32 ^^ n) p) \<noteq> old" "p \<noteq> 0"
  shows "\<exists>t p'. mte_rand_tag_ne old p = Some (t, p') \<and> t \<noteq> old \<and> (\<exists>q. t = draw q) \<and> p' \<noteq> 0"
  using assms
proof (induction n arbitrary: p)
  case 0
  then show ?case using xorshift_nonzero by (subst rand_tag_ne_unfold) auto
next
  case (Suc n)
  show ?case
  proof (cases "draw p = old")
    case True
    have "draw ((xorshift32 ^^ n) (xorshift32 p)) \<noteq> old" using Suc.prems(1) by (simp add: funpow_swap1)
    from Suc.IH [OF this] show ?thesis using True xorshift_nonzero Suc.prems(2)
      by (subst rand_tag_ne_unfold) auto
  next
    case False
    then show ?thesis using xorshift_nonzero Suc.prems by (subst rand_tag_ne_unfold) auto
  qed
qed

lemma draw_range: "draw p \<noteq> 0" "unat (draw p) < 256"
proof -
  have m: "(0xFF :: u32) = mask 8" by (simp add: mask_eq_decr_exp)
  let ?b = "take_bit 8 (drop_bit 8 (xorshift32 p))"
  have d: "draw p = (if ?b \<noteq> 0 then ?b else 1)"
    by (simp add: draw_def mte_rand_tag_def Let_def m take_bit_eq_mask)
  then show "draw p \<noteq> 0" by auto
  have "unat ?b < 256" by (simp add: take_bit_eq_mod unat_mod)
  then show "unat (draw p) < 256" using d by auto
qed

text \<open>
  Retagging a block on \<^verbatim>\<open>mte_free\<close> terminates for every generator state but zero: the loop
  \<^verbatim>\<open>mte_rand_tag_ne\<close> returns a tag of 8 bits that is neither zero nor the old one, and leaves
  the generator in a state that is not zero either.
\<close>
theorem rand_tag_ne_returns:
  assumes "p \<noteq> 0"
  shows "\<exists>t p'. mte_rand_tag_ne old p = Some (t, p') \<and> t \<noteq> old \<and> t \<noteq> 0 \<and> unat t < 256 \<and> p' \<noteq> 0"
proof -
  obtain n where "draw ((xorshift32 ^^ n) p) \<noteq> old" using draws_differ [OF assms] by blast
  from rand_tag_ne_after [OF this assms] show ?thesis using draw_range by blast
qed

theorem rand_tag_ne_returns_witness:
  "\<exists>t p'. mte_rand_tag_ne 7 0xDEADBEEF = Some (t, p') \<and> t \<noteq> 7 \<and> t \<noteq> 0 \<and> unat t < 256 \<and> p' \<noteq> 0"
  by (rule rand_tag_ne_returns) simp

end
