(* ===== verification/Rv32Mem.thy ===== *)
theory Rv32Mem
  imports Rv32Isa Rv32Tags
begin

section \<open>The virtual machine stays within its arrays\<close>

text \<open>
  No instruction but \<^verbatim>\<open>ECALL\<close> can make the interpreter leave its arrays, whatever the guest does. The
  system calls keep to them when the state is well formed (\<open>vm_wf\<close>) and the arguments are in range
  (\<open>call_args_ok\<close>); \<open>mte_malloc_overruns\<close> shows that the second condition is needed.
\<close>

definition cap_wf :: "cap \<Rightarrow> bool" where
  "cap_wf c \<longleftrightarrow> (cap_tag c \<longrightarrow> unat (cap_base c) + unat (cap_length c) \<le> 0x4000)"

definition vm_wf :: "'h vm \<Rightarrow> bool" where
  "vm_wf s \<longleftrightarrow>
     unat (vm_heap_ptr s) \<le> 0x4000 \<and> (\<forall>i < 1024. i + unat (vm_alloc_ng s i) \<le> 1024) \<and>
     mte_prng s \<noteq> 0 \<and> cap_wf (cap_regs s 10)"

text \<open>What a guest instruction other than a system call leaves alone.\<close>

definition same_shadow :: "'h vm \<Rightarrow> 'h vm \<Rightarrow> bool" where
  "same_shadow s s' \<longleftrightarrow>
     vm_tags s' = vm_tags s \<and> vm_alloc_ng s' = vm_alloc_ng s \<and> vm_heap_ptr s' = vm_heap_ptr s \<and>
     mte_prng s' = mte_prng s \<and> cap_regs s' = cap_regs s \<and> vm_fd s' = vm_fd s \<and> host s' = host s"

lemma shadow_refl [simp]: "same_shadow s s"
  by (simp add: same_shadow_def)

lemma shadow_trans: "same_shadow s t \<Longrightarrow> same_shadow t u \<Longrightarrow> same_shadow s u"
  by (simp add: same_shadow_def)

lemma shadow_simps [simp]:
  "same_shadow s (s'\<lparr>vm_mem := m\<rparr>) = same_shadow s s'"
  "same_shadow s (s'\<lparr>vm_reg := r\<rparr>) = same_shadow s s'"
  "same_shadow s (s'\<lparr>vm_pc := p\<rparr>) = same_shadow s s'"
  "same_shadow s (s'\<lparr>vm_halted := h\<rparr>) = same_shadow s s'"
  "same_shadow s (s'\<lparr>vm_out := out\<rparr>) = same_shadow s s'"
  by (simp_all add: same_shadow_def)

lemma print_simps [simp]:
  "same_shadow s (vm_print cs s') = same_shadow s s'" "vm_mem (vm_print cs s) = vm_mem s"
  "vm_reg (vm_print cs s) = vm_reg s" "vm_halted (vm_print cs s) = vm_halted s"
  "cap_regs (vm_print cs s) = cap_regs s" "vm_heap_ptr (vm_print cs s) = vm_heap_ptr s"
  "vm_alloc_ng (vm_print cs s) = vm_alloc_ng s" "mte_prng (vm_print cs s) = mte_prng s"
  "vm_tags (vm_print cs s) = vm_tags s"
  by (simp_all add: vm_print_def)

lemma shadow_finish [simp]: "same_shadow s (vm_finish rd r npc s') = same_shadow s s'"
  by (simp add: vm_finish_def Let_def)

lemma wf_shadow: "same_shadow s s' \<Longrightarrow> vm_wf s \<Longrightarrow> vm_wf s'"
  by (simp add: same_shadow_def vm_wf_def)

subsection \<open>Loads and stores\<close>

lemma granule_ok: "x < VM_MEM_SIZE \<Longrightarrow> x div MTE_GRANULE < (1024 :: u32)"
  by (simp add: word_less_nat_alt unat_div)

lemma masked_plus:
  fixes a :: u32
  shows "k \<le> 3 \<Longrightarrow> unat ((a AND MTE_ADDR_MASK) + word_of_nat k) = unat (a AND MTE_ADDR_MASK) + k"
proof -
  assume k: "k \<le> 3"
  have m: "(0x00FFFFFF :: u32) = mask 24" by (simp add: mask_eq_decr_exp)
  have "unat (a AND MTE_ADDR_MASK) < 2 ^ 24"
    unfolding m by (simp add: take_bit_eq_mask [symmetric] take_bit_eq_mod unat_mod)
  then show ?thesis using k by (simp add: unat_word_ariths unat_of_nat take_bit_nat_eq_self)
qed

lemma masked_plus_num:
  fixes a :: u32
  shows "unat ((a AND MTE_ADDR_MASK) + 1) = unat (a AND MTE_ADDR_MASK) + 1"
    "unat ((a AND MTE_ADDR_MASK) + 2) = unat (a AND MTE_ADDR_MASK) + 2"
    "unat ((a AND MTE_ADDR_MASK) + 3) = unat (a AND MTE_ADDR_MASK) + 3"
  using masked_plus [of 1 a] masked_plus [of 2 a] masked_plus [of 3 a] by simp_all

lemma fault_total:
  obtains s' where "vm_mte_fault p w s = Some s'" "vm_halted s'" "same_shadow s s'" "vm_mem s' = vm_mem s"
proof -
  let ?a = "p AND MTE_ADDR_MASK"
  obtain t where t: "(if ?a < VM_MEM_SIZE then tag_ld s (?a div MTE_GRANULE) else Some 0) = Some t"
    using granule_ok [of ?a] by (cases "?a < VM_MEM_SIZE") (simp_all add: tag_ld_def)
  have "\<exists>s'. vm_mte_fault p w s = Some s' \<and> vm_halted s' \<and> same_shadow s s' \<and> vm_mem s' = vm_mem s"
    by (simp add: vm_mte_fault_def Let_def t)
  then show thesis using that by blast
qed

lemma check_total:
  "\<exists>ok s'. mte_check p w s = Some (ok, s') \<and> same_shadow s s' \<and> vm_mem s' = vm_mem s \<and> (ok \<longrightarrow> s' = s)"
proof -
  obtain f where f: "vm_mte_fault p w s = Some f" "same_shadow s f" "vm_mem f = vm_mem s"
    by (rule fault_total)
  let ?a = "p AND MTE_ADDR_MASK"
  show ?thesis
  proof (cases "VM_MEM_SIZE \<le> ?a")
    case True
    then show ?thesis using f by (auto simp: mte_check_def)
  next
    case False
    then obtain t where "tag_ld s (?a div MTE_GRANULE) = Some t"
      using granule_ok [of ?a] by (auto simp: tag_ld_def not_le)
    then show ?thesis using f False by (auto simp: mte_check_def)
  qed
qed

lemma ld_ok: "unat a < 0x4000 \<Longrightarrow> vm_ld s a = Some (vm_mem s (unat a))"
  by (simp add: vm_ld_def word_less_nat_alt)

lemma word_total: "unat (a AND MTE_ADDR_MASK) + 3 < 0x4000 \<Longrightarrow> \<exists>w. vm_word (a AND MTE_ADDR_MASK) s = Some w"
  using masked_plus_num [of a] by (simp add: vm_word_def ld_ok)

lemma mr_total:
  "\<exists>v s'. mr8 a s = Some (v, s') \<and> same_shadow s s'"
  "\<exists>v s'. mr16 a s = Some (v, s') \<and> same_shadow s s'"
  "\<exists>v s'. mr32 a s = Some (v, s') \<and> same_shadow s s'"
proof -
  obtain ok t where c: "mte_check a False s = Some (ok, t)" "same_shadow s t" using check_total by blast
  show "\<exists>v s'. mr8 a s = Some (v, s') \<and> same_shadow s s'"
    using c by (auto simp: mr8_def Let_def ld_ok word_le_nat_alt not_le)
  show "\<exists>v s'. mr16 a s = Some (v, s') \<and> same_shadow s s'"
    using c masked_plus_num [of a] by (auto simp: mr16_def Let_def ld_ok word_le_nat_alt not_le)
  show "\<exists>v s'. mr32 a s = Some (v, s') \<and> same_shadow s s'"
    using c masked_plus_num [of a] word_total [of a t] by (auto simp: mr32_def Let_def word_le_nat_alt not_le)
qed

lemma st_ok: "unat a < 0x4000 \<Longrightarrow> vm_st a b s = Some (s\<lparr>vm_mem := (vm_mem s)(unat a := b)\<rparr>)"
  by (simp add: vm_st_def word_less_nat_alt)

lemma mw_total:
  "\<exists>s'. mw8 a v s = Some s' \<and> same_shadow s s'"
  "\<exists>s'. mw16 a v s = Some s' \<and> same_shadow s s'"
  "\<exists>s'. mw32 a v s = Some s' \<and> same_shadow s s'"
proof -
  obtain ok t where c: "mte_check a True s = Some (ok, t)" "same_shadow s t" using check_total by blast
  show "\<exists>s'. mw8 a v s = Some s' \<and> same_shadow s s'"
    using c by (auto simp: mw8_def Let_def st_ok word_less_nat_alt)
  show "\<exists>s'. mw16 a v s = Some s' \<and> same_shadow s s'"
    using c masked_plus_num [of a] by (auto simp: mw16_def Let_def st_ok word_less_nat_alt)
  show "\<exists>s'. mw32 a v s = Some s' \<and> same_shadow s s'"
    using c masked_plus_num [of a] by (auto simp: mw32_def Let_def vm_put_word_def st_ok word_less_nat_alt)
qed

lemma load_total: "\<exists>r s'. vm_load f3 a s = Some (r, s') \<and> same_shadow s s'"
  using mr_total [of a s] by (auto simp: vm_load_def)

lemma store_total: "\<exists>s'. vm_store f3 a v s = Some s' \<and> same_shadow s s'"
  using mw_total [of a v s] by (auto simp: vm_store_def)

lemma instr_shadow:
  assumes "f_op ins \<noteq> 0x73"
  shows "\<exists>s'. vm_exec io ins s = Some s' \<and> same_shadow s s'"
proof (cases "f_op ins = 0x03 \<or> f_op ins = 0x23")
  case False
  then show ?thesis using assms by (simp add: vm_exec_def Let_def)
next
  case True
  let ?v = "vm_reg s (f_rs1 ins)"
  obtain r s1 where "vm_load (f_f3 ins) (?v + imm_i ins) s = Some (r, s1)" "same_shadow s s1"
    using load_total by blast
  moreover obtain s2 where "vm_store (f_f3 ins) (?v + imm_s ins) (vm_reg s (f_rs2 ins)) s = Some s2" "same_shadow s s2"
    using store_total by blast
  ultimately show ?thesis using True by (auto simp: vm_exec_def Let_def)
qed

text \<open>
  An instruction other than a system call never makes the interpreter touch memory outside the
  16 KB of the guest or outside the tag array, whatever the word, the registers, the tags and the
  program counter; and it changes neither tags nor capabilities nor allocations nor open files.
\<close>
theorem instruction_confined:
  assumes "f_op ins \<noteq> 0x73"
  shows "\<exists>s'. vm_exec io ins s = Some s' \<and> same_shadow s s'"
  by (rule instr_shadow [OF assms])

theorem instruction_confined_witness:
  "\<exists>s'. vm_exec demo_io (encode (STORE SW 1 0 (- 4))) demo_vm = Some s' \<and> same_shadow demo_vm s'"
  by (rule instruction_confined) (simp add: fields)

lemma ifetch_total: "\<exists>w. vm_ifetch pc s = Some w"
  using word_total [of pc s] masked_plus_num [of pc]
  by (auto simp: vm_ifetch_def Let_def word_le_nat_alt not_le)


subsection \<open>System calls\<close>

lemma set_tags_eq:
  "unat g + n \<le> 1024 \<Longrightarrow>
     set_tags g n t s = Some (s\<lparr>vm_tags := (\<lambda>i. if unat g \<le> i \<and> i < unat g + n then t else vm_tags s i)\<rparr>)"
proof (induction n arbitrary: g s)
  case 0
  have "(\<lambda>i. if unat g \<le> i \<and> i < unat g then t else vm_tags s i) = vm_tags s" by (rule ext) auto
  then show ?case by simp
next
  case (Suc n)
  have g: "g < 1024" using Suc.prems by (simp add: word_less_nat_alt)
  then have u: "unat (g + 1) = unat g + 1" using Suc.prems by (simp add: unat_word_ariths)
  show ?case using Suc g u
    by (auto simp: tag_st_def le_Suc_eq intro!: arg_cong [where f = "\<lambda>x. s\<lparr>vm_tags := x\<rparr>"])
qed

text \<open>A tag range that leaves the array.\<close>

lemma set_tags_overrun:
  "unat g \<le> 1024 \<Longrightarrow> 1024 < unat g + n \<Longrightarrow> set_tags g n t s = None"
proof (induction n arbitrary: g s)
  case 0
  then show ?case by simp
next
  case (Suc n)
  show ?case
  proof (cases "unat g < 1024")
    case True
    then have u: "unat (g + 1) = unat g + 1" by (simp add: unat_word_ariths)
    then show ?thesis using Suc True by (simp add: tag_st_def word_less_nat_alt)
  next
    case False
    then show ?thesis by (simp add: tag_st_def word_less_nat_alt)
  qed
qed

lemma set_tags_upto_total: "\<exists>T. set_tags_upto g n t s = Some (s\<lparr>vm_tags := T\<rparr>)"
proof (induction n arbitrary: g s)
  case 0
  have "s = s\<lparr>vm_tags := vm_tags s\<rparr>" by simp
  then show ?case unfolding set_tags_upto.simps by blast
next
  case (Suc n)
  show ?case
  proof (cases "g < 1024")
    case True
    then show ?thesis using Suc [of "g + 1" "s\<lparr>vm_tags := (vm_tags s)(unat g := t)\<rparr>"] by (simp add: tag_st_def)
  next
    case False
    have "s = s\<lparr>vm_tags := vm_tags s\<rparr>" by simp
    then show ?thesis using False unfolding set_tags_upto.simps if_not_P [OF False] by blast
  qed
qed

lemma puts_total: "\<exists>s'. vm_puts p s = Some s' \<and> same_shadow s s'"
proof (induction p s rule: vm_puts.induct)
  case (1 p s)
  show ?case
  proof (cases "p < VM_MEM_SIZE \<and> vm_mem s (unat p) \<noteq> 0")
    case True
    then have l: "vm_ld s p = Some (vm_mem s (unat p))" by (simp add: vm_ld_def)
    from 1 [OF _ l] True obtain s' where "vm_puts (p + 1) (vm_print [vm_mem s (unat p)] s) = Some s'"
      "same_shadow (vm_print [vm_mem s (unat p)] s) s'" by blast
    then show ?thesis using True l by (subst vm_puts.simps) (simp add: same_shadow_def vm_print_def)
  next
    case False
    then show ?thesis by (subst vm_puts.simps) (auto simp: vm_ld_def)
  qed
qed

lemma screen_total: "\<exists>s'. vm_screen_write p n s = Some s' \<and> same_shadow s s'"
proof (induction n arbitrary: p s)
  case 0
  then show ?case by simp
next
  case (Suc n)
  show ?case using Suc [of "p + 1" "vm_print [vm_mem s (unat p)] s"]
    by (auto simp: vm_ld_def same_shadow_def vm_print_def)
qed

lemma copy_str_total: "\<exists>bs. vm_copy_str p n s = Some bs"
proof (induction n arbitrary: p)
  case 0
  then show ?case by simp
next
  case (Suc n)
  then obtain bs where "vm_copy_str (p + 1) n s = Some bs" by blast
  then show ?case by (simp add: vm_ld_def)
qed

definition call_args_ok :: "'h vm \<Rightarrow> bool" where
  "call_args_ok s \<longleftrightarrow>
     (let nr = vm_reg s 17; a0 = unat (vm_reg s 10); a1 = unat (vm_reg s 11); a2 = unat (vm_reg s 12);
          sp = unat (vm_reg s 2) in
      (nr = 20 \<or> nr = 30 \<longrightarrow> 64 \<le> sp \<and> sp \<le> 0x4000 \<and> a0 \<le> 0xFFFF0000) \<and>
      (nr = 63 \<or> nr = 64 \<longrightarrow> a1 + a2 < 2 ^ 32))"

text \<open>A read never delivers more than was asked for (the contract of \<^verbatim>\<open>ax_fread\<close>).\<close>

definition host_ok :: "'h hostio \<Rightarrow> bool" where
  "host_ok io \<longleftrightarrow> (\<forall>fd n h. length (fst (snd (ax_fread io fd n h))) \<le> n)"

lemma io_count_ok:
  assumes "a1 < VM_MEM_SIZE" "unat a1 + unat a2 < 2 ^ 32"
  shows "unat a1 + unat (io_count a1 a2) \<le> 0x4000"
proof -
  have s: "unat (a1 + a2) = unat a1 + unat a2" using assms(2) by (simp add: unat_word_ariths)
  have "unat (VM_MEM_SIZE - a1) = 0x4000 - unat a1" using assms(1) by (simp add: unat_sub word_less_nat_alt word_le_nat_alt)
  then show ?thesis using assms(1) s by (simp add: io_count_def word_less_nat_alt)
qed

lemma set_reg_simps [simp]:
  "same_shadow s (set_reg r v s') = same_shadow s s'" "vm_mem (set_reg r v s) = vm_mem s"
  "cap_regs (set_reg r v s) = cap_regs s" "vm_heap_ptr (set_reg r v s) = vm_heap_ptr s"
  "vm_alloc_ng (set_reg r v s) = vm_alloc_ng s" "mte_prng (set_reg r v s) = mte_prng s"
  "vm_tags (set_reg r v s) = vm_tags s"
  by (simp_all add: set_reg_def)

lemma wf_simps [simp]:
  "vm_wf (set_reg r v s) = vm_wf s" "vm_wf (vm_print cs s) = vm_wf s" "vm_wf (s\<lparr>vm_tags := T\<rparr>) = vm_wf s"
  "vm_wf (s\<lparr>vm_mem := M\<rparr>) = vm_wf s" "vm_wf (s\<lparr>host := h\<rparr>) = vm_wf s" "vm_wf (s\<lparr>vm_fd := F\<rparr>) = vm_wf s"
  "vm_wf (s\<lparr>vm_halted := b\<rparr>) = vm_wf s"
  by (simp_all add: vm_wf_def set_reg_def vm_print_def)


lemma masked_sp: "unat sp \<le> 0x4000 \<Longrightarrow> sp AND MTE_ADDR_MASK = (sp :: u32)"
proof -
  assume "unat sp \<le> 0x4000"
  then have "unat sp < 2 ^ 24" by simp
  moreover have m: "(0x00FFFFFF :: u32) = mask 24" by (simp add: mask_eq_decr_exp)
  ultimately show ?thesis unfolding m
    by (simp add: word_unat_eq_iff take_bit_eq_mask [symmetric] unsigned_take_bit_eq take_bit_nat_eq_self)
qed

text \<open>The arithmetic of \<^verbatim>\<open>mte_malloc\<close> when nothing wraps.\<close>

lemma malloc_sizes:
  fixes a0 hp sp :: u32
  defines "ng \<equiv> (a0 + MTE_GRANULE - 1) div MTE_GRANULE"
  assumes a: "unat a0 \<le> 0xFFFF0000" and h: "unat hp \<le> 0x4000" and sp: "64 \<le> unat sp" "unat sp \<le> 0x4000"
    and fit: "\<not> sp - 64 < hp + ng * MTE_GRANULE"
  shows "unat ng = (unat a0 + 15) div 16" "unat (hp + ng * MTE_GRANULE) = unat hp + 16 * unat ng"
    "unat hp + 16 * unat ng + 64 \<le> unat sp" "unat (hp div MTE_GRANULE) + unat ng \<le> 1024"
proof -
  have "unat (a0 + MTE_GRANULE - 1) = unat a0 + 15" using a by (simp add: unat_word_ariths)
  then show ng: "unat ng = (unat a0 + 15) div 16" by (simp add: ng_def unat_div)
  have "unat (ng * MTE_GRANULE) = 16 * unat ng" using ng a by (simp add: unat_word_ariths)
  then show b: "unat (hp + ng * MTE_GRANULE) = unat hp + 16 * unat ng"
    using ng a h by (simp add: unat_word_ariths)
  have "unat (sp - 64) = unat sp - 64" using sp(1) by (simp add: unat_sub word_le_nat_alt)
  then show c: "unat hp + 16 * unat ng + 64 \<le> unat sp"
    using fit b sp(1) by (simp add: word_less_nat_alt)
  then show "unat (hp div MTE_GRANULE) + unat ng \<le> 1024" using sp(2) by (simp add: unat_div)
qed

lemma mte_malloc_safe:
  assumes wf: "vm_wf s" and a: "unat a0 \<le> 0xFFFF0000" and sp: "64 \<le> unat (vm_reg s 2)" "unat (vm_reg s 2) \<le> 0x4000"
  shows "\<exists>s'. ecall_mte_malloc a0 s = Some s' \<and> vm_wf s'"
proof (cases "a0 = 0 \<or> vm_reg s 2 - 64 < vm_heap_ptr s + (a0 + MTE_GRANULE - 1) div MTE_GRANULE * MTE_GRANULE")
  case True
  then show ?thesis using wf masked_sp [OF sp(2)] by (auto simp: ecall_mte_malloc_def Let_def)
next
  case False
  let ?hp = "vm_heap_ptr s" and ?ng = "(a0 + MTE_GRANULE - 1) div MTE_GRANULE" and ?p = "mte_prng s"
  have h: "unat ?hp \<le> 0x4000" using wf by (simp add: vm_wf_def)
  note z = malloc_sizes [OF a h sp, folded]
  have f: "\<not> vm_reg s 2 - 64 < ?hp + ?ng * MTE_GRANULE" using False by simp
  note z = malloc_sizes [OF a h sp f]
  have g: "?hp div MTE_GRANULE < 1024" using z(3) sp(2) by (simp add: word_less_nat_alt unat_div)
  have p: "xorshift32 ?p \<noteq> 0" using wf xorshift_nonzero by (simp add: vm_wf_def)
  have le: "unat (?hp + ?ng * MTE_GRANULE) \<le> 0x4000" using z(2,3) sp(2) by linarith
  show ?thesis using False masked_sp [OF sp(2)] wf p g z(4) le
    by (simp add: ecall_mte_malloc_def Let_def mte_rand_tag_eq set_tags_eq ng_st_def vm_wf_def unat_div)
qed

lemma mte_free_safe:
  assumes wf: "vm_wf s"
  shows "\<exists>s'. ecall_mte_free a0 s = Some s' \<and> vm_wf s'"
proof -
  let ?a = "a0 AND MTE_ADDR_MASK" let ?gi = "?a div MTE_GRANULE"
  obtain t p where t: "mte_rand_tag_ne (ptr_tag a0) (mte_prng s) = Some (t, p)" "p \<noteq> 0"
    using draws_differ rand_tag_ne_after wf unfolding vm_wf_def by blast
  show ?thesis
  proof (cases "ptr_tag a0 = 0 \<or> VM_MEM_SIZE \<le> ?a")
    case True
    then show ?thesis using wf by (auto simp: ecall_mte_free_def Let_def)
  next
    case False
    then have g: "?gi < 1024" using granule_ok [of ?a] by (simp add: not_le)
    then have n: "unat ?gi + unat (vm_alloc_ng s (unat ?gi)) \<le> 1024"
      using wf by (simp add: vm_wf_def word_less_nat_alt)
    show ?thesis using False g n t wf
      by (simp add: ecall_mte_free_def Let_def ng_ld_def ng_st_def set_tags_eq vm_wf_def)
  qed
qed

lemma unat_align8:
  fixes x :: u32
  shows "unat (x AND NOT 7) = unat x div 8 * 8"
proof -
  have m: "(7 :: u32) = mask 3" by (simp add: mask_eq_decr_exp)
  have "x AND NOT 7 = push_bit 3 (drop_bit 3 x)" unfolding m
    by (rule bit_word_eqI) (auto simp: bit_and_iff bit_not_iff bit_mask_iff bit_push_bit_iff bit_drop_bit_eq)
  also have "\<dots> = x div 8 * 8" by (simp add: push_bit_eq_mult drop_bit_eq_div)
  finally have e: "x AND NOT 7 = x div 8 * 8" .
  have "unat x < 2 ^ LENGTH(32)" by (rule unsigned_less)
  then show ?thesis unfolding e by (simp add: unat_word_ariths unat_div)
qed

lemma cap_sizes:
  fixes a0 hp sp :: u32
  defines "al \<equiv> (a0 + 7) AND NOT 7"
  assumes a: "unat a0 \<le> 0xFFFF0000" and h: "unat hp \<le> 0x4000" and sp: "64 \<le> unat sp" "unat sp \<le> 0x4000"
    and fit: "\<not> sp - 64 < hp + al"
  shows "unat (hp + al) = unat hp + unat al" "unat a0 \<le> unat al" "unat hp + unat al + 64 \<le> unat sp"
proof -
  have "unat (a0 + 7) = unat a0 + 7" using a by (simp add: unat_word_ariths)
  then have al: "unat al = (unat a0 + 7) div 8 * 8" by (simp only: al_def unat_align8)
  then show "unat a0 \<le> unat al" by simp
  show b: "unat (hp + al) = unat hp + unat al" using al a h by (simp add: unat_word_ariths)
  have "unat (sp - 64) = unat sp - 64" using sp(1) by (simp add: unat_sub word_le_nat_alt)
  then show "unat hp + unat al + 64 \<le> unat sp" using fit b sp(1) by (simp add: word_less_nat_alt)
qed

lemma cap_malloc_safe:
  assumes wf: "vm_wf s" and a: "unat a0 \<le> 0xFFFF0000" and sp: "64 \<le> unat (vm_reg s 2)" "unat (vm_reg s 2) \<le> 0x4000"
  shows "vm_wf (ecall_cap_malloc a0 s)"
proof (cases "a0 = 0 \<or> vm_reg s 2 - 64 < vm_heap_ptr s + ((a0 + 7) AND NOT 7)")
  case True
  then show ?thesis using wf by (auto simp: ecall_cap_malloc_def Let_def set_cap_def vm_wf_def cap_wf_def)
next
  case False
  have h: "unat (vm_heap_ptr s) \<le> 0x4000" using wf by (simp add: vm_wf_def)
  have f: "\<not> vm_reg s 2 - 64 < vm_heap_ptr s + ((a0 + 7) AND NOT 7)" using False by simp
  note z = cap_sizes [OF a h sp f]
  have "unat (vm_heap_ptr s + ((a0 + 7) AND NOT 7)) \<le> 0x4000"
    "unat (vm_heap_ptr s) + unat a0 \<le> 0x4000" using z sp(2) by linarith+
  then show ?thesis using False wf
    by (simp add: ecall_cap_malloc_def Let_def set_cap_def vm_wf_def cap_wf_def)
qed


lemma wf_finish [simp]: "vm_wf (vm_finish rd r npc s) = vm_wf s"
  by (simp add: vm_finish_def vm_wf_def)

text \<open>What a granted capability access is allowed to do.\<close>

lemma fault_shadow [simp]:
  "same_shadow s (vm_cheri_fault k ea b l s)" "vm_mem (vm_cheri_fault k ea b l s) = vm_mem s"
  "vm_halted (vm_cheri_fault k ea b l s)" "cap_regs (vm_cheri_fault k ea b l s) = cap_regs s"
  by (simp_all add: vm_cheri_fault_def)

lemma cheri_granted:
  assumes "cheri_check c off len w s = (ok, s')"
  shows "same_shadow s s' \<and> vm_mem s' = vm_mem s \<and>
    (if ok then s' = s \<and> cap_tag c \<and> \<not> cap_sealed c \<and>
        cap_perms c AND (if w then CHERI_PERM_STORE else CHERI_PERM_LOAD) \<noteq> 0 \<and>
        unat off < unat (cap_length c) \<and> unat off + unat len \<le> unat (cap_length c)
     else vm_halted s')"
proof -
  have d: "off < cap_length c \<Longrightarrow> \<not> cap_length c - off < len \<Longrightarrow> unat off + unat len \<le> unat (cap_length c)"
    using unat_sub [of off "cap_length c"] by (simp add: word_less_nat_alt word_le_nat_alt)
  show ?thesis using assms d
    by (auto simp: cheri_check_def Let_def not_le word_less_nat_alt [symmetric] split: if_splits)
qed

lemma cap_addr:
  assumes "cap_wf c" "cap_tag c" "unat off + unat (len :: u32) \<le> unat (cap_length c)"
  shows "unat (cap_base c + off) = unat (cap_base c) + unat off" "unat (cap_base c) + unat off + unat len \<le> 0x4000"
proof -
  show "unat (cap_base c) + unat off + unat len \<le> 0x4000" using assms by (simp add: cap_wf_def)
  then show "unat (cap_base c + off) = unat (cap_base c) + unat off" by (simp add: unat_word_ariths)
qed

lemma cap_access_safe:
  assumes wf: "vm_wf s"
  shows "\<exists>s'. ecall_cap_load8 a0 s = Some s' \<and> vm_wf s'" "\<exists>s'. ecall_cap_store8 a0 a1 s = Some s' \<and> vm_wf s'"
    "\<exists>s'. ecall_cap_load32 a0 s = Some s' \<and> vm_wf s'" "\<exists>s'. ecall_cap_store32 a0 a1 s = Some s' \<and> vm_wf s'"
proof -
  let ?c = "cap_regs s 10"
  have c: "cap_wf ?c" using wf by (simp add: vm_wf_def)
  show "\<exists>s'. ecall_cap_load8 a0 s = Some s' \<and> vm_wf s'"
  proof (cases "cheri_check ?c a0 1 False s")
    case (Pair ok s')
    then show ?thesis using cheri_granted [OF Pair] wf wf_shadow [of s s']
      by (auto simp: ecall_cap_load8_def Let_def vm_ld_def)
  qed
  show "\<exists>s'. ecall_cap_store8 a0 a1 s = Some s' \<and> vm_wf s'"
  proof (cases "cheri_check ?c a0 1 True s")
    case (Pair ok s')
    then show ?thesis using cheri_granted [OF Pair] wf wf_shadow [of s s']
      by (auto simp: ecall_cap_store8_def Let_def vm_st_def)
  qed
  show "\<exists>s'. ecall_cap_load32 a0 s = Some s' \<and> vm_wf s'"
  proof (cases "cheri_check ?c a0 4 False s")
    case (Pair ok s')
    show ?thesis
    proof (cases ok)
      case True
      then have "unat (cap_base ?c + a0) + 4 \<le> 0x4000"
        using cheri_granted [OF Pair] cap_addr [OF c, of a0 4] by simp
      from vm_word_ok [OF this, of s] show ?thesis using Pair True wf
        by (auto simp: ecall_cap_load32_def Let_def)
    next
      case False
      then show ?thesis using Pair cheri_granted [OF Pair] wf wf_shadow [of s s']
        by (auto simp: ecall_cap_load32_def Let_def)
    qed
  qed
  show "\<exists>s'. ecall_cap_store32 a0 a1 s = Some s' \<and> vm_wf s'"
  proof (cases "cheri_check ?c a0 4 True s")
    case (Pair ok s')
    show ?thesis
    proof (cases ok)
      case True
      then have "unat (cap_base ?c + a0) + 4 \<le> 0x4000"
        using cheri_granted [OF Pair] cap_addr [OF c, of a0 4] by simp
      from vm_put_word_ok [OF this, of a1 s] show ?thesis using Pair True wf
        by (auto simp: ecall_cap_store32_def Let_def)
    next
      case False
      then show ?thesis using Pair cheri_granted [OF Pair] wf wf_shadow [of s s']
        by (auto simp: ecall_cap_store32_def Let_def)
    qed
  qed
qed

lemma io_safe:
  assumes wf: "vm_wf s" and h: "host_ok io" and a: "unat a1 + unat a2 < 2 ^ 32"
  shows "\<exists>s'. ecall_write io a0 a1 a2 s = Some s' \<and> vm_wf s'" "\<exists>s'. ecall_read io a0 a1 a2 s = Some s' \<and> vm_wf s'"
proof -
  obtain s1 where s1: "vm_screen_write a1 (unat (io_count a1 a2)) s = Some s1" "same_shadow s s1"
    using screen_total by blast
  then have w1: "vm_wf s1" using wf wf_shadow by blast
  show "\<exists>s'. ecall_write io a0 a1 a2 s = Some s' \<and> vm_wf s'"
    using io_count_ok [OF _ a] wf w1 s1(1)
    by (auto simp: ecall_write_def Let_def split: prod.split)
  obtain r bs g where r: "ax_fread io (vm_fd s (unat a0)) (unat (io_count a1 a2)) (host s) = (r, bs, g)"
    by (cases "ax_fread io (vm_fd s (unat a0)) (unat (io_count a1 a2)) (host s)") auto
  then have "length bs \<le> unat (io_count a1 a2)"
    using h unfolding host_ok_def by (metis fst_conv snd_conv)
  then have "a1 < VM_MEM_SIZE \<Longrightarrow> unat a1 + length bs \<le> 0x4000" using io_count_ok [OF _ a] by fastforce
  then show "\<exists>s'. ecall_read io a0 a1 a2 s = Some s' \<and> vm_wf s'"
    using wf r by (auto simp: ecall_read_def Let_def)
qed

lemma open_safe:
  assumes "vm_wf s"
  shows "\<exists>s'. ecall_open io a0 a1 s = Some s' \<and> vm_wf s'"
proof -
  obtain bs where "vm_copy_str a0 23 s = Some bs" using copy_str_total by blast
  then show ?thesis using assms
    by (auto simp: ecall_open_def Let_def split: option.split prod.split)
qed

lemma cap_ops_wf:
  "vm_wf s \<Longrightarrow> vm_wf (ecall_cap_free s)" "vm_wf s \<Longrightarrow> vm_wf (ecall_cap_restrict a s)"
  "vm_wf s \<Longrightarrow> vm_wf (ecall_cap_seal s)" "vm_wf s \<Longrightarrow> vm_wf (ecall_close io a s)"
  by (auto simp: ecall_cap_free_def ecall_cap_restrict_def ecall_cap_seal_def ecall_close_def set_cap_def Let_def
      vm_cheri_fault_def vm_wf_def cap_wf_def)

lemma ecall_safe:
  assumes wf: "vm_wf s" and h: "host_ok io" and a: "call_args_ok s"
  shows "\<exists>s'. vm_ecall io s = Some s' \<and> vm_wf s'"
proof -
  let ?nr = "vm_reg s 17" and ?a0 = "vm_reg s 10" and ?a1 = "vm_reg s 11" and ?a2 = "vm_reg s 12"
  have m: "unat ?a0 \<le> 0xFFFF0000" "64 \<le> unat (vm_reg s 2)" "unat (vm_reg s 2) \<le> 0x4000" if "?nr = 20 \<or> ?nr = 30"
    using a that by (auto simp: call_args_ok_def Let_def)
  have i: "unat ?a1 + unat ?a2 < 2 ^ 32" if "?nr = 63 \<or> ?nr = 64"
    using a that by (auto simp: call_args_ok_def Let_def)
  obtain s4 where s4: "vm_puts (?a0 AND MTE_ADDR_MASK) s = Some s4" "vm_wf s4"
    using puts_total wf wf_shadow by metis
  obtain T where T: "ecall_mte_tag ?a0 ?a1 ?a2 s = Some (s\<lparr>vm_tags := T\<rparr>)"
    using set_tags_upto_total unfolding ecall_mte_tag_def Let_def by blast
  have c: "?nr = 20 \<or> ?nr = 30 \<Longrightarrow> \<exists>s'. ecall_mte_malloc ?a0 s = Some s' \<and> vm_wf s'"
    "?nr = 20 \<or> ?nr = 30 \<Longrightarrow> vm_wf (ecall_cap_malloc ?a0 s)"
    using mte_malloc_safe [OF wf] cap_malloc_safe [OF wf] m by blast+
  have r: "?nr = 63 \<or> ?nr = 64 \<Longrightarrow> \<exists>s'. ecall_write io ?a0 ?a1 ?a2 s = Some s' \<and> vm_wf s'"
    "?nr = 63 \<or> ?nr = 64 \<Longrightarrow> \<exists>s'. ecall_read io ?a0 ?a1 ?a2 s = Some s' \<and> vm_wf s'"
    using io_safe [OF wf h] i by blast+
  show ?thesis unfolding vm_ecall_def Let_def
    using wf s4 T c r by (simp add: mte_free_safe open_safe cap_access_safe cap_ops_wf)
qed

text \<open>The instruction at the program counter, if it is a system call, has arguments in range.\<close>

definition next_call_ok :: "'h vm \<Rightarrow> bool" where
  "next_call_ok s \<longleftrightarrow> (\<forall>ins. vm_ifetch (vm_pc s) s = Some ins \<longrightarrow> f_op ins = 0x73 \<longrightarrow> call_args_ok s)"

text \<open>
  C20. A well-formed machine stays well formed, and a step never leaves the arrays of the
  interpreter, provided the host delivers at most what a read asks for and the next instruction, if it is a system call, has
  arguments in range: for \<^verbatim>\<open>mte_malloc\<close> and \<^verbatim>\<open>cap_malloc\<close> a stack pointer between 64 and 16 KB and a size of at most 0xFFFF0000, for
  \<^verbatim>\<open>read\<close> and \<^verbatim>\<open>write\<close> a buffer whose end does not wrap around (no other call has a condition). Then the heap pointer stays within the
  guest memory, recorded allocations stay within the tag array, a valid capability stays within the
  memory and the tag generator stays alive. That the condition on sizes is needed is shown by \<open>mte_malloc_overruns\<close>.
\<close>
theorem vm_step_safe:
  assumes "vm_wf s" "host_ok io" "next_call_ok s"
  shows "\<exists>s'. vm_step io s = Some s' \<and> vm_wf s'"
proof -
  obtain ins where f: "vm_ifetch (vm_pc s) s = Some ins" using ifetch_total by blast
  show ?thesis
  proof (cases "vm_halted s \<or> f_op ins \<noteq> 0x73")
    case True
    then show ?thesis using f assms(1) instr_shadow [of ins io s] wf_shadow
      by (auto simp: vm_step_def)
  next
    case False
    then obtain s' where "vm_ecall io s = Some s'" "vm_wf s'"
      using ecall_safe [OF assms(1,2)] assms(3) f by (auto simp: next_call_ok_def)
    then show ?thesis using f False by (auto simp: vm_step_def vm_exec_def Let_def)
  qed
qed

text \<open>A machine about to execute the system call \<open>nr\<close>.\<close>

definition demo_call :: "u32 \<Rightarrow> u32 \<Rightarrow> unit vm" where
  "demo_call nr a0 = demo_vm\<lparr>vm_mem := mem_write (\<lambda>_. 0) 0 (le_bytes 4 (0x73 :: u32)),
     vm_reg := (\<lambda>_. 0)(2 := 0x3FF0, 10 := a0, 17 := nr)\<rparr>"

lemma demo_call_simps [simp]:
  "vm_wf (demo_call nr a0)" "vm_heap_ptr (demo_call nr a0) = 0x200" "host_ok demo_io"
  "vm_reg (demo_call nr a0) = (\<lambda>_. 0)(2 := 0x3FF0, 10 := a0, 17 := nr)" "mte_prng (demo_call nr a0) \<noteq> 0"
  by (simp_all add: demo_call_def demo_vm_def vm_init_def Let_def vm_wf_def cap_wf_def host_ok_def demo_io_def)

theorem vm_step_safe_witness:
  "\<exists>s'. vm_step demo_io (demo_call 20 32) = Some s' \<and> vm_wf s'"
  by (rule vm_step_safe) (simp_all add: next_call_ok_def call_args_ok_def)

lemma minus_16: "- 16 = (0xFFFFFFF0 :: u32)"
  by simp

text \<open>
  The size computation of \<^verbatim>\<open>mte_malloc\<close> wraps: a request of 4 GB - 16 bytes passes the
  check against the stack pointer in a well-formed machine, and the interpreter then writes tags
  far behind the end of its tag array. A guest program can corrupt the memory of its interpreter.
\<close>
theorem mte_malloc_overruns:
  assumes "vm_reg s 17 = 20" "vm_reg s 10 = 0xFFFFFFF0" "16 \<le> unat (vm_heap_ptr s)"
    "unat (vm_heap_ptr s) + 48 \<le> unat (vm_reg s 2)" "unat (vm_reg s 2) \<le> 0x4000"
  shows "vm_ecall io s = None"
proof -
  let ?hp = "vm_heap_ptr s"
  have "unat (?hp - 16) = unat ?hp - 16" using assms(3) by (simp add: unat_sub word_le_nat_alt)
  then have "unat (?hp + 0xFFFFFFF0) = unat ?hp - 16" by (metis diff_conv_add_uminus minus_16)
  moreover have "unat (vm_reg s 2 - 64) = unat (vm_reg s 2) - 64"
    using assms(3,4) by (simp add: unat_sub word_le_nat_alt)
  ultimately have f: "\<not> vm_reg s 2 - 64 < ?hp + 0xFFFFFFF0" using assms(3,4) by (simp add: word_less_nat_alt)
  have "unat (?hp div MTE_GRANULE) \<le> 1024" using assms(4,5) by (simp add: unat_div)
  then have o: "set_tags (?hp div MTE_GRANULE) (unat (0x0FFFFFFF :: u32)) t u = None" for t and u :: "'a vm"
    by (rule set_tags_overrun) simp
  show ?thesis using assms(1,2) f o masked_sp [OF assms(5)]
    by (simp add: vm_ecall_def ecall_mte_malloc_def Let_def mte_rand_tag_eq)
qed

theorem mte_malloc_overruns_witness: "vm_ecall demo_io (demo_call 20 0xFFFFFFF0) = None"
  by (rule mte_malloc_overruns) simp_all

subsection \<open>Tagged pointers\<close>

lemma unat_fields:
  "unat (q AND MTE_ADDR_MASK) = unat q mod 2 ^ 24" "unat (ptr_tag q) = unat q div 2 ^ 24"
proof -
  have m: "(0x00FFFFFF :: u32) = mask 24" "(0xFF :: u32) = mask 8" by (simp_all add: mask_eq_decr_exp)
  show "unat (q AND MTE_ADDR_MASK) = unat q mod 2 ^ 24"
    unfolding m by (simp add: take_bit_eq_mask [symmetric] take_bit_eq_mod unat_mod)
  have "unat q < 2 ^ LENGTH(32)" by (rule unsigned_less)
  then show "unat (ptr_tag q) = unat q div 2 ^ 24"
    unfolding ptr_tag_def m by (simp add: take_bit_eq_mask [symmetric] take_bit_eq_mod unat_mod drop_bit_eq_div unat_div)
qed

lemma tagged_ptr:
  fixes tag rptr :: u32
  assumes "unat tag < 256" "unat rptr < 2 ^ 24"
  shows "unat ((push_bit 24 tag AND 0xFF000000) OR rptr) = unat tag * 2 ^ 24 + unat rptr"
proof -
  have m: "(0xFF000000 :: u32) = push_bit 24 (mask 8)" by (simp add: mask_eq_decr_exp push_bit_eq_mult)
  have t: "take_bit 8 tag = tag" using assms(1)
    by (simp add: word_unat_eq_iff take_bit_eq_mod unat_mod)
  have "push_bit 24 tag AND 0xFF000000 = push_bit 24 (take_bit 8 tag)"
    unfolding m by (simp add: take_bit_eq_mask push_bit_and)
  then have e: "push_bit 24 tag AND 0xFF000000 = push_bit 24 tag" by (simp add: t)
  have r: "take_bit 24 rptr = rptr" using assms(2)
    by (simp add: word_unat_eq_iff take_bit_eq_mod unat_mod)
  have "push_bit 24 tag AND rptr = push_bit 24 tag AND take_bit 24 rptr" by (simp only: r)
  also have "\<dots> = 0" by (rule bit_word_eqI) (auto simp: bit_and_iff bit_push_bit_iff bit_take_bit_iff)
  finally have "push_bit 24 tag OR rptr = push_bit 24 tag + rptr" by (rule disjunctive_add_eq_or [symmetric])
  then show ?thesis unfolding e using assms
    by (simp add: push_bit_eq_mult unat_word_ariths)
qed

end
