(* ===== verification/Rv32Props.thy ===== *)
theory Rv32Props
  imports Rv32Mem
begin

section \<open>Memory tags and capabilities do their job\<close>

text \<open>
  What the guest gets from the two protection mechanisms of the virtual machine: a fresh block is
  accessible through its tagged pointer and through no pointer after it was freed; a capability
  confines the accesses made through it and can only lose rights. Two theorems show where the
  mechanisms fail: block sizes that wrap and blocks that do not start at a granule.
\<close>

subsection \<open>A fresh block\<close>

lemma ucast_tag: "unat (t :: u32) < 256 \<Longrightarrow> ucast (ucast t :: u8) = t"
  by (simp add: word_unat_eq_iff unsigned_ucast_eq take_bit_eq_mod unat_mod)

text \<open>The arguments of a successful \<^verbatim>\<open>mte_malloc\<close>.\<close>

definition malloc_ok :: "u32 \<Rightarrow> 'h vm \<Rightarrow> bool" where
  "malloc_ok n s \<longleftrightarrow>
     vm_wf s \<and> unat n \<le> 0xFFFF0000 \<and> 64 \<le> unat (vm_reg s 2) \<and> unat (vm_reg s 2) \<le> 0x4000"

lemma mte_malloc_effect:
  assumes ok: "malloc_ok n s" and m: "ecall_mte_malloc n s = Some s1" and p: "vm_reg s1 10 \<noteq> 0"
  defines "hp \<equiv> unat (vm_heap_ptr s)" and "ng \<equiv> (unat n + 15) div 16" and "tag \<equiv> draw (mte_prng s)"
  shows "unat (vm_reg s1 10) = unat tag * 2 ^ 24 + hp" "hp + 16 * ng + 64 \<le> 0x4000" "0 < ng"
    "vm_tags s1 = (\<lambda>i. if hp div 16 \<le> i \<and> i < hp div 16 + ng then ucast tag else vm_tags s i)"
    "vm_alloc_ng s1 = (vm_alloc_ng s)(hp div 16 := (n + MTE_GRANULE - 1) div MTE_GRANULE)"
    "unat ((n + MTE_GRANULE - 1) div MTE_GRANULE) = ng" "mte_prng s1 \<noteq> 0"
proof -
  let ?ng = "(n + MTE_GRANULE - 1) div MTE_GRANULE"
  have wf: "vm_wf s" and a: "unat n \<le> 0xFFFF0000" and sp: "64 \<le> unat (vm_reg s 2)" "unat (vm_reg s 2) \<le> 0x4000"
    using ok by (auto simp: malloc_ok_def)
  have h: "unat (vm_heap_ptr s) \<le> 0x4000" using wf by (simp add: vm_wf_def)
  have n0: "n \<noteq> 0" using m p by (auto simp: ecall_mte_malloc_def set_reg_def)
  have f: "\<not> vm_reg s 2 - 64 < vm_heap_ptr s + ?ng * MTE_GRANULE"
  proof
    assume "vm_reg s 2 - 64 < vm_heap_ptr s + ?ng * MTE_GRANULE"
    then have "s1 = set_reg 10 0 s"
      using m n0 masked_sp [OF sp(2)] by (simp add: ecall_mte_malloc_def Let_def)
    then show False using p by (simp add: set_reg_def)
  qed
  note z = malloc_sizes [OF a h sp f]
  have g: "vm_heap_ptr s div MTE_GRANULE < 1024" using z(3) sp(2) by (simp add: word_less_nat_alt unat_div)
  let ?ptr = "(push_bit 24 tag AND 0xFF000000) OR vm_heap_ptr s"
  have s1: "s1 = set_reg 10 ?ptr (s\<lparr>vm_heap_ptr := vm_heap_ptr s + ?ng * MTE_GRANULE, mte_prng := xorshift32 (mte_prng s),
      vm_tags := (\<lambda>i. if hp div 16 \<le> i \<and> i < hp div 16 + unat ?ng then ucast tag else vm_tags s i),
      vm_alloc_ng := (vm_alloc_ng s)(hp div 16 := ?ng)\<rparr>)"
    using m n0 f masked_sp [OF sp(2)] z(4) g
    by (simp add: ecall_mte_malloc_def Let_def mte_rand_tag_eq set_tags_eq ng_st_def unat_div hp_def tag_def cong: if_cong)
  show "unat ?ng = ng" using z(1) by (simp add: ng_def)
  then show "vm_tags s1 = (\<lambda>i. if hp div 16 \<le> i \<and> i < hp div 16 + ng then ucast tag else vm_tags s i)"
    using s1 by simp
  show "vm_alloc_ng s1 = (vm_alloc_ng s)(hp div 16 := ?ng)" using s1 by simp
  show "mte_prng s1 \<noteq> 0" using s1 wf xorshift_nonzero by (simp add: vm_wf_def)
  show "hp + 16 * ng + 64 \<le> 0x4000" using z(1,3) sp(2) by (simp add: hp_def ng_def)
  have "0 < unat n" using n0 by (simp add: word_less_nat_alt [symmetric] word_neq_0_conv unat_gt_0)
  then show "0 < ng" by (simp add: ng_def)
  show "unat (vm_reg s1 10) = unat tag * 2 ^ 24 + hp"
    using tagged_ptr [of tag "vm_heap_ptr s"] draw_range(2) h s1 by (simp add: set_reg_def tag_def hp_def)
qed

text \<open>A pointer into the block: its tag, its address and its granule.\<close>

lemma inner_ptr:
  fixes p tag :: u32
  assumes p: "unat p = unat tag * 2 ^ 24 + hp" and t: "unat tag < 256" and k: "hp + k < 0x4000"
  shows "unat (ptr_tag (p + word_of_nat k)) = unat tag"
    "unat ((p + word_of_nat k) AND MTE_ADDR_MASK) = hp + k"
proof -
  have "unat (p + word_of_nat k) = unat tag * 2 ^ 24 + (hp + k)"
    using p t k by (simp add: unat_word_ariths unat_of_nat take_bit_nat_eq_self)
  then show "unat (ptr_tag (p + word_of_nat k)) = unat tag"
    "unat ((p + word_of_nat k) AND MTE_ADDR_MASK) = hp + k"
    using k by (simp_all add: unat_fields)
qed

lemma check_inner:
  fixes p tag :: u32
  assumes p: "unat p = unat tag * 2 ^ 24 + hp" and t: "tag \<noteq> 0" "unat tag < 256" and k: "hp + k < 0x4000"
  shows "mte_check (p + word_of_nat k) w s =
    (if ucast (vm_tags s ((hp + k) div 16)) = tag then Some (True, s)
     else map_option (\<lambda>t. (False, t)) (vm_mte_fault (p + word_of_nat k) w s))"
proof -
  let ?q = "p + word_of_nat k"
  note i = inner_ptr [OF p t(2) k]
  have tg: "ptr_tag ?q = tag" using i(1) by (simp add: word_unat_eq_iff)
  have a: "\<not> VM_MEM_SIZE \<le> ?q AND MTE_ADDR_MASK" using i(2) k by (simp add: word_le_nat_alt)
  have g: "tag_ld s ((?q AND MTE_ADDR_MASK) div MTE_GRANULE) = Some (vm_tags s ((hp + k) div 16))"
    using granule_ok [of "?q AND MTE_ADDR_MASK"] a i(2) by (simp add: tag_ld_def unat_div not_le)
  show ?thesis unfolding mte_check_def Let_def tg if_not_P [OF t(1)] if_not_P [OF a] g
    by (cases "vm_mte_fault ?q w s") simp_all
qed

lemma inner_bound:
  fixes n :: nat
  assumes "hp + 16 * ((n + 15) div 16) + 64 \<le> L" "k < n"
  shows "hp + k < L"
proof -
  have "n \<le> 16 * ((n + 15) div 16)" by presburger
  then show ?thesis using assms by linarith
qed

lemma granule_of:
  "hp mod 16 = 0 \<Longrightarrow> k < n \<Longrightarrow> hp div 16 \<le> (hp + k) div 16 \<and> (hp + k) div 16 < hp div 16 + (n + 15) div (16 :: nat)"
proof -
  assume h: "hp mod 16 = 0" and k: "k < n"
  then obtain q where q: "hp = 16 * q" by (auto simp: mod_eq_0_iff_dvd)
  have "(k + 16) div 16 \<le> (n + 15) div 16" using k by (intro div_le_mono) simp
  then show ?thesis using q by simp
qed

text \<open>
  A block that starts at a granule is accessible through the pointer that \<^verbatim>\<open>mte_malloc\<close>
  returned, in all of its bytes: the tag check of every load and store inside it succeeds.
\<close>
theorem mte_block_accessible:
  assumes "malloc_ok n s" "unat (vm_heap_ptr s) mod 16 = 0"
    and "ecall_mte_malloc n s = Some s1" "vm_reg s1 10 \<noteq> 0" "k < unat n"
  shows "mte_check (vm_reg s1 10 + word_of_nat k) w s1 = Some (True, s1)"
proof -
  let ?hp = "unat (vm_heap_ptr s)" and ?tag = "draw (mte_prng s)"
  note e = mte_malloc_effect [OF assms(1,3,4)]
  have k: "?hp + k < 0x4000" by (rule inner_bound [OF e(2) assms(5)])
  have "vm_tags s1 ((?hp + k) div 16) = ucast ?tag" using e(4) granule_of [OF assms(2,5)] by simp
  then show ?thesis using check_inner [OF e(1) draw_range k, of w s1] ucast_tag [OF draw_range(2)] by simp
qed

text \<open>
  C27. Use after free is always caught: after \<^verbatim>\<open>mte_free\<close> of a block, whatever instructions other
  than system calls the guest executed since it was allocated, every load or store through the old
  pointer stops the machine with a fault and leaves the memory unchanged. The new tag is drawn
  until it differs from the old one, so this does not depend on luck.
\<close>
theorem mte_use_after_free:
  assumes "malloc_ok n s" "unat (vm_heap_ptr s) mod 16 = 0"
    and "ecall_mte_malloc n s = Some s1" "vm_reg s1 10 \<noteq> 0" "same_shadow s1 s2"
    and "ecall_mte_free (vm_reg s1 10) s2 = Some s3" "k < unat n"
  shows "\<exists>t. mte_check (vm_reg s1 10 + word_of_nat k) w s3 = Some (False, t) \<and> vm_halted t \<and> vm_mem t = vm_mem s3"
proof -
  let ?hp = "unat (vm_heap_ptr s)" and ?tag = "draw (mte_prng s)" and ?p = "vm_reg s1 10"
  let ?ng = "(n + MTE_GRANULE - 1) div MTE_GRANULE"
  note e = mte_malloc_effect [OF assms(1,3,4)]
  have k: "?hp + k < 0x4000" by (rule inner_bound [OF e(2) assms(7)])
  have h: "?hp + 0 < 0x4000" using k by simp
  have tg: "ptr_tag ?p = ?tag" and a: "unat (?p AND MTE_ADDR_MASK) = ?hp"
    using inner_ptr [OF e(1) draw_range(2) h] by (simp_all add: word_unat_eq_iff)
  have sh: "vm_alloc_ng s2 = vm_alloc_ng s1" "mte_prng s2 = mte_prng s1"
    using assms(5) by (simp_all add: same_shadow_def)
  obtain t' q where new: "mte_rand_tag_ne ?tag (mte_prng s2) = Some (t', q)" "t' \<noteq> ?tag" "unat t' < 256"
    using draws_differ [OF e(7)] rand_tag_ne_after [OF _ e(7)] sh(2) draw_range(2) by metis
  have g: "unat ((?p AND MTE_ADDR_MASK) div MTE_GRANULE) = ?hp div 16" using a by (simp add: unat_div)
  then have g': "(?p AND MTE_ADDR_MASK) div MTE_GRANULE < 1024" using h by (simp add: word_less_nat_alt)
  have b: "\<not> VM_MEM_SIZE \<le> ?p AND MTE_ADDR_MASK" using a h by (simp add: word_le_nat_alt)
  have ng: "?ng \<noteq> 0" using e(3,6) by auto
  have r: "?hp div 16 + unat ?ng \<le> 1024" using e(2,6) by simp
  have "vm_tags s3 = (\<lambda>i. if ?hp div 16 \<le> i \<and> i < ?hp div 16 + unat ?ng then ucast t' else vm_tags s2 i)"
    using assms(6) tg draw_range(1) b g g' sh(1) e(5) ng new(1) r
    by (auto simp: ecall_mte_free_def Let_def ng_ld_def ng_st_def set_tags_eq)
  then have "vm_tags s3 ((?hp + k) div 16) = ucast t'"
    using granule_of [OF assms(2,7)] e(6) by simp
  then have "mte_check (?p + word_of_nat k) w s3 = map_option (\<lambda>t. (False, t)) (vm_mte_fault (?p + word_of_nat k) w s3)"
    using check_inner [OF e(1) draw_range k, of w s3] ucast_tag [OF new(3)] new(2) by simp
  moreover obtain t where "vm_mte_fault (?p + word_of_nat k) w s3 = Some t" "vm_halted t" "vm_mem t = vm_mem s3"
    by (rule fault_total)
  ultimately show ?thesis by simp
qed


lemma demo_malloc:
  obtains s1 s3 where "ecall_mte_malloc 32 (demo_call 20 32) = Some s1" "vm_reg s1 10 \<noteq> 0"
    "ecall_mte_free (vm_reg s1 10) s1 = Some s3" "malloc_ok 32 (demo_call 20 32)"
proof -
  let ?s = "demo_call 20 32"
  have ok: "malloc_ok 32 ?s" by (simp add: malloc_ok_def)
  obtain s1 where s1: "ecall_mte_malloc 32 ?s = Some s1" "vm_wf s1"
    using mte_malloc_safe [of ?s 32] by auto
  then obtain x where "vm_reg s1 10 = x OR 0x200"
    by (auto simp: ecall_mte_malloc_def Let_def mte_rand_tag_eq set_reg_def ng_st_def masked_sp split: bind_splits if_splits)
  moreover have "x OR 0x200 \<noteq> (0 :: u32)"
  proof
    assume "x OR 0x200 = (0 :: u32)"
    then have "bit (x OR 0x200) 9 = bit (0 :: u32) 9" by (simp only:)
    then show False by (simp add: bit_or_iff)
  qed
  moreover obtain s3 where "ecall_mte_free (vm_reg s1 10) s1 = Some s3" using mte_free_safe [OF s1(2)] by blast
  ultimately show thesis using that [OF s1(1)] ok by simp
qed

theorem mte_block_accessible_witness:
  "\<exists>s1. ecall_mte_malloc 32 (demo_call 20 32) = Some s1 \<and>
     mte_check (vm_reg s1 10 + word_of_nat 31) True s1 = Some (True, s1)"
proof -
  obtain s1 s3 where s: "ecall_mte_malloc 32 (demo_call 20 32) = Some s1" "vm_reg s1 10 \<noteq> 0"
    "malloc_ok 32 (demo_call 20 32)" by (rule demo_malloc)
  have "mte_check (vm_reg s1 10 + word_of_nat 31) True s1 = Some (True, s1)"
    by (rule mte_block_accessible [OF s(3) _ s(1,2)]) simp_all
  then show ?thesis using s(1) by blast
qed

theorem mte_use_after_free_witness:
  "\<exists>s1 s3 t. ecall_mte_malloc 32 (demo_call 20 32) = Some s1 \<and> ecall_mte_free (vm_reg s1 10) s1 = Some s3 \<and>
     mte_check (vm_reg s1 10 + word_of_nat 31) True s3 = Some (False, t) \<and> vm_halted t"
proof -
  obtain s1 s3 where s: "ecall_mte_malloc 32 (demo_call 20 32) = Some s1" "vm_reg s1 10 \<noteq> 0"
    "ecall_mte_free (vm_reg s1 10) s1 = Some s3" "malloc_ok 32 (demo_call 20 32)" by (rule demo_malloc)
  have "\<exists>t. mte_check (vm_reg s1 10 + word_of_nat 31) True s3 = Some (False, t) \<and> vm_halted t \<and> vm_mem t = vm_mem s3"
    by (rule mte_use_after_free [OF s(4) _ s(1,2) shadow_refl s(3)]) simp_all
  then show ?thesis using s(1,3) by blast
qed

text \<open>
  The two allocators of the guest share a heap pointer but not an alignment: when an earlier
  \<^verbatim>\<open>cap_malloc\<close> left the heap pointer in the middle of a granule, the last byte of the next tagged
  block lies in a granule that \<^verbatim>\<open>mte_malloc\<close> does not tag, and a correct program that uses its
  whole block is stopped with a fault.
\<close>
theorem mte_misaligned_block_faults:
  assumes "malloc_ok n s" "unat (vm_heap_ptr s) mod 16 = 8" "unat n mod 16 = 0"
    and "vm_tags s (unat (vm_heap_ptr s) div 16 + unat n div 16) = 0"
    and "ecall_mte_malloc n s = Some s1" "vm_reg s1 10 \<noteq> 0"
  shows "\<exists>t. mte_check (vm_reg s1 10 + word_of_nat (unat n - 1)) w s1 = Some (False, t) \<and> vm_halted t"
proof -
  let ?hp = "unat (vm_heap_ptr s)" and ?tag = "draw (mte_prng s)" and ?k = "unat n - 1"
  note e = mte_malloc_effect [OF assms(1,5,6)]
  have n: "0 < unat n" using e(3) by (cases "unat n = 0") simp_all
  have k: "?hp + ?k < 0x4000" by (rule inner_bound [OF e(2)]) (use n in simp)
  have ab: "?hp = 16 * (?hp div 16) + 8" "unat n = 16 * (unat n div 16)"
    using assms(2,3) div_mult_mod_eq [of ?hp 16] div_mult_mod_eq [of "unat n" 16] by simp_all
  have "x + (y - 1) = 7 + 16 * (a + b)" if "x = 16 * a + 8" "y = 16 * b" "0 < y" for x y a b :: nat
    using that by simp
  from this [OF ab n] have g: "(?hp + ?k) div 16 = ?hp div 16 + unat n div 16" by simp
  have "(y + 15) div 16 = y div 16" if "y = 16 * b" for y b :: nat using that by simp
  from this [OF ab(2)] have "(unat n + 15) div 16 = unat n div 16" .
  then have "vm_tags s1 ((?hp + ?k) div 16) = 0" unfolding g using e(4) assms(4) by simp
  then have "mte_check (vm_reg s1 10 + word_of_nat ?k) w s1 =
      map_option (\<lambda>t. (False, t)) (vm_mte_fault (vm_reg s1 10 + word_of_nat ?k) w s1)"
    using check_inner [OF e(1) draw_range k, of w s1] draw_range(1) [of "mte_prng s"] by simp
  moreover obtain t where "vm_mte_fault (vm_reg s1 10 + word_of_nat ?k) w s1 = Some t" "vm_halted t"
    by (rule fault_total)
  ultimately show ?thesis by simp
qed

definition demo_misaligned :: "unit vm" where
  "demo_misaligned = ecall_cap_malloc 8 (demo_call 20 32)"

theorem mte_misaligned_block_faults_witness:
  "\<exists>s1 t. ecall_mte_malloc 32 demo_misaligned = Some s1 \<and>
     mte_check (vm_reg s1 10 + word_of_nat (unat (32 :: u32) - 1)) True s1 = Some (False, t) \<and> vm_halted t"
proof -
  have d: "vm_wf demo_misaligned" "vm_heap_ptr demo_misaligned = 0x208" "vm_reg demo_misaligned 2 = 0x3FF0"
    "vm_tags demo_misaligned = (\<lambda>_. 0)"
    unfolding demo_misaligned_def
    by (rule cap_malloc_safe; simp)
      (simp_all add: ecall_cap_malloc_def Let_def set_cap_def demo_call_def demo_vm_def vm_init_def)
  have ok: "malloc_ok 32 demo_misaligned" using d by (simp add: malloc_ok_def)
  obtain s1 where s1: "ecall_mte_malloc 32 demo_misaligned = Some s1"
    using mte_malloc_safe [of demo_misaligned 32] d by auto
  then obtain x where "vm_reg s1 10 = x OR 0x208"
    using d by (auto simp: ecall_mte_malloc_def Let_def mte_rand_tag_eq set_reg_def ng_st_def masked_sp split: bind_splits if_splits)
  moreover have "x OR 0x208 \<noteq> (0 :: u32)"
  proof
    assume "x OR 0x208 = (0 :: u32)"
    then have "bit (x OR 0x208) 9 = bit (0 :: u32) 9" by (simp only:)
    then show False by (simp add: bit_or_iff)
  qed
  ultimately have "\<exists>t. mte_check (vm_reg s1 10 + word_of_nat (unat (32 :: u32) - 1)) True s1 = Some (False, t) \<and> vm_halted t"
    by (intro mte_misaligned_block_faults [OF ok _ _ _ s1]) (simp_all add: d)
  then show ?thesis using s1 by blast
qed


subsection \<open>Capabilities\<close>

lemma store8_change:
  assumes "cap_wf (cap_regs s 10)" "ecall_cap_store8 a0 a1 s = Some s'" "vm_mem s' x \<noteq> vm_mem s x"
  shows "\<exists>s''. cheri_check (cap_regs s 10) a0 1 True s = (True, s'') \<and> x = unat (cap_base (cap_regs s 10)) + unat a0"
proof (cases "cheri_check (cap_regs s 10) a0 1 True s")
  case (Pair ok t)
  note g = cheri_granted [OF Pair]
  show ?thesis
  proof (cases ok)
    case True
    then have "unat (cap_base (cap_regs s 10) + a0) = unat (cap_base (cap_regs s 10)) + unat a0"
      using g cap_addr(1) [OF assms(1), of a0 1] by simp
    then show ?thesis using Pair True assms(2,3) g
      by (auto simp: ecall_cap_store8_def Let_def vm_st_def split: if_splits)
  next
    case False
    then show ?thesis using Pair assms(2,3) g by (auto simp: ecall_cap_store8_def Let_def)
  qed
qed

lemma store32_change:
  assumes "cap_wf (cap_regs s 10)" "ecall_cap_store32 a0 a1 s = Some s'" "vm_mem s' x \<noteq> vm_mem s x"
  shows "\<exists>s''. cheri_check (cap_regs s 10) a0 4 True s = (True, s'') \<and>
    unat (cap_base (cap_regs s 10)) + unat a0 \<le> x \<and> x < unat (cap_base (cap_regs s 10)) + unat a0 + 4"
proof (cases "cheri_check (cap_regs s 10) a0 4 True s")
  case (Pair ok t)
  note g = cheri_granted [OF Pair]
  show ?thesis
  proof (cases ok)
    case True
    let ?b = "cap_base (cap_regs s 10)"
    have u: "unat (?b + a0) = unat ?b + unat a0" "unat (?b + a0) + 4 \<le> 0x4000"
      using True g cap_addr [OF assms(1), of a0 4] by simp_all
    have "s' = s\<lparr>vm_mem := mem_write (vm_mem s) (unat (?b + a0)) (le_bytes 4 a1)\<rparr> \<or> s' = s"
      using Pair True assms(2) vm_put_word_ok [OF u(2), of a1 s] g
      by (auto simp: ecall_cap_store32_def Let_def split: if_splits)
    then show ?thesis using Pair True assms(3) u(1) g by (auto simp: mem_write_def split: if_splits)
  next
    case False
    then show ?thesis using Pair assms(2,3) g by (auto simp: ecall_cap_store32_def Let_def)
  qed
qed

text \<open>
  C26. A store through the capability register changes a byte of the memory only if the capability
  is valid, not sealed, carries the store right and has the byte within its bounds.
\<close>
theorem cap_store_confined:
  assumes "cap_wf (cap_regs s 10)" "ecall_cap_store8 a0 a1 s = Some s' \<or> ecall_cap_store32 a0 a1 s = Some s'"
    and "vm_mem s' x \<noteq> vm_mem s x"
  shows "cap_tag (cap_regs s 10) \<and> \<not> cap_sealed (cap_regs s 10) \<and>
    cap_perms (cap_regs s 10) AND CHERI_PERM_STORE \<noteq> 0 \<and> unat (cap_base (cap_regs s 10)) \<le> x \<and>
    x < unat (cap_base (cap_regs s 10)) + unat (cap_length (cap_regs s 10))"
  using assms(2)
proof
  assume "ecall_cap_store8 a0 a1 s = Some s'"
  then obtain t where t: "cheri_check (cap_regs s 10) a0 1 True s = (True, t)"
    "x = unat (cap_base (cap_regs s 10)) + unat a0"
    using store8_change [OF assms(1) _ assms(3)] by blast
  show ?thesis using cheri_granted [OF t(1)] t(2) by simp
next
  assume "ecall_cap_store32 a0 a1 s = Some s'"
  then obtain t where t: "cheri_check (cap_regs s 10) a0 4 True s = (True, t)"
    "unat (cap_base (cap_regs s 10)) + unat a0 \<le> x" "x < unat (cap_base (cap_regs s 10)) + unat a0 + 4"
    using store32_change [OF assms(1) _ assms(3)] by blast
  show ?thesis using cheri_granted [OF t(1)] t(2,3) by simp
qed

definition demo_cap :: "unit vm" where
  "demo_cap = ecall_cap_malloc 16 (demo_call 39 16)"

lemma demo_cap_simps [simp]:
  "cap_regs demo_cap 10 = \<lparr>cap_base = 0x200, cap_length = 16, cap_perms = 3, cap_tag = True, cap_sealed = False\<rparr>"
  "vm_mem demo_cap = mem_write (\<lambda>_. 0) 0 (le_bytes 4 (0x73 :: u32))"
  by (simp_all add: demo_cap_def ecall_cap_malloc_def Let_def set_cap_def demo_call_def demo_vm_def vm_init_def)

theorem cap_store_confined_witness:
  "\<exists>s'. ecall_cap_store8 15 0xCD demo_cap = Some s' \<and> vm_mem s' 0x20F = 0xCD \<and> (0x200 :: nat) \<le> 0x20F"
proof -
  have e: "ecall_cap_store8 15 0xCD demo_cap = Some (demo_cap\<lparr>vm_mem := (vm_mem demo_cap)(0x20F := 0xCD)\<rparr>)"
    by (simp add: ecall_cap_store8_def cheri_check_def Let_def vm_st_def)
  have "cap_tag (cap_regs demo_cap 10) \<and> \<not> cap_sealed (cap_regs demo_cap 10) \<and>
    cap_perms (cap_regs demo_cap 10) AND CHERI_PERM_STORE \<noteq> 0 \<and> unat (cap_base (cap_regs demo_cap 10)) \<le> 0x20F \<and>
    0x20F < unat (cap_base (cap_regs demo_cap 10)) + unat (cap_length (cap_regs demo_cap 10))"
    by (rule cap_store_confined [OF _ disjI1 [OF e]]) (simp_all add: cap_wf_def mem_write_def)
  then show ?thesis using e by simp
qed

text \<open>A capability that grants no more than another: the order of monotonicity.\<close>

definition cap_le :: "cap \<Rightarrow> cap \<Rightarrow> bool" where
  "cap_le c' c \<longleftrightarrow>
     cap_base c' = cap_base c \<and> cap_length c' = cap_length c \<and> cap_perms c' AND NOT (cap_perms c) = 0 \<and>
     (cap_tag c' \<longrightarrow> cap_tag c) \<and> (cap_sealed c \<longrightarrow> cap_sealed c')"

lemma cap_le_refl [simp]: "cap_le c c"
  by (simp add: cap_le_def)

lemma cap_le_shadow: "same_shadow s s' \<Longrightarrow> cap_le (cap_regs s' 10) (cap_regs s 10)"
  by (simp add: same_shadow_def)

lemma restrict_le: "cap_le (cap_regs (ecall_cap_restrict a s) 10) (cap_regs s 10)"
proof -
  have "(p AND q) AND NOT p = 0" for p q :: u8
    by (rule bit_word_eqI) (simp add: bit_and_iff bit_not_iff)
  then show ?thesis by (auto simp: ecall_cap_restrict_def Let_def cap_le_def set_cap_def)
qed

lemma cap_regs_calls:
  "ecall_mte_malloc a0 s = Some s' \<Longrightarrow> cap_regs s' = cap_regs s"
  "ecall_mte_free a0 s = Some s' \<Longrightarrow> cap_regs s' = cap_regs s"
  "ecall_write io a0 a1 a2 s = Some s' \<Longrightarrow> cap_regs s' = cap_regs s"
  "ecall_read io a0 a1 a2 s = Some s' \<Longrightarrow> cap_regs s' = cap_regs s"
  "ecall_open io a0 a1 s = Some s' \<Longrightarrow> cap_regs s' = cap_regs s"
proof -
  have t: "set_tags g n t s = Some s' \<Longrightarrow> cap_regs s' = cap_regs s" for g n t and s s' :: "'a vm"
    by (induction n arbitrary: g s) (auto simp: tag_st_def split: bind_splits if_splits)
  show "ecall_mte_malloc a0 s = Some s' \<Longrightarrow> cap_regs s' = cap_regs s"
    by (auto simp: ecall_mte_malloc_def Let_def ng_st_def split: if_splits prod.splits bind_splits dest!: t)
  show "ecall_mte_free a0 s = Some s' \<Longrightarrow> cap_regs s' = cap_regs s"
    by (auto simp: ecall_mte_free_def Let_def ng_ld_def ng_st_def split: if_splits prod.splits bind_splits dest!: t)
  show "ecall_write io a0 a1 a2 s = Some s' \<Longrightarrow> cap_regs s' = cap_regs s"
    using screen_total [of a1 "unat (io_count a1 a2)" s]
    by (auto simp: ecall_write_def Let_def same_shadow_def split: if_splits prod.splits bind_splits)
  show "ecall_read io a0 a1 a2 s = Some s' \<Longrightarrow> cap_regs s' = cap_regs s"
    by (auto simp: ecall_read_def Let_def split: if_splits prod.splits)
  show "ecall_open io a0 a1 s = Some s' \<Longrightarrow> cap_regs s' = cap_regs s"
    by (auto simp: ecall_open_def Let_def split: option.splits prod.splits bind_splits if_splits)
qed

lemma cap_access_le:
  "ecall_cap_load8 a0 s = Some s' \<Longrightarrow> cap_regs s' = cap_regs s"
  "ecall_cap_store8 a0 a1 s = Some s' \<Longrightarrow> cap_regs s' = cap_regs s"
  "ecall_cap_load32 a0 s = Some s' \<Longrightarrow> cap_regs s' = cap_regs s"
  "ecall_cap_store32 a0 a1 s = Some s' \<Longrightarrow> cap_regs s' = cap_regs s"
proof -
  have c: "cheri_check c a n w s = (ok, t) \<Longrightarrow> cap_regs t = cap_regs s" for c a n w ok t
    using cheri_granted [of c a n w s ok t] by (simp add: same_shadow_def)
  show "ecall_cap_load8 a0 s = Some s' \<Longrightarrow> cap_regs s' = cap_regs s"
    "ecall_cap_store8 a0 a1 s = Some s' \<Longrightarrow> cap_regs s' = cap_regs s"
    "ecall_cap_load32 a0 s = Some s' \<Longrightarrow> cap_regs s' = cap_regs s"
    "ecall_cap_store32 a0 a1 s = Some s' \<Longrightarrow> cap_regs s' = cap_regs s"
    by (auto simp: ecall_cap_load8_def ecall_cap_store8_def ecall_cap_load32_def ecall_cap_store32_def vm_put_word_def
        vm_st_def Let_def split: if_splits prod.splits bind_splits dest: c)
qed

lemma ecall_cap_le:
  assumes "vm_ecall io s = Some s'" "vm_reg s 17 \<noteq> 30"
  shows "cap_le (cap_regs s' 10) (cap_regs s 10)"
proof -
  have p: "vm_puts p s = Some s' \<Longrightarrow> cap_regs s' = cap_regs s" for p
    using puts_total [of p s] by (auto simp: same_shadow_def)
  have t: "ecall_mte_tag a b c s = Some s' \<Longrightarrow> cap_regs s' = cap_regs s" for a b c
    using set_tags_upto_total unfolding ecall_mte_tag_def Let_def
    by (metis option.inject vm.select_convs(9) vm.surjective vm.update_convs(5))
  have o: "cap_le (cap_regs (ecall_cap_free s) 10) (cap_regs s 10)" "cap_le (cap_regs (ecall_cap_seal s) 10) (cap_regs s 10)"
    "cap_regs (ecall_close io a s) = cap_regs s" for a
    by (auto simp: ecall_cap_free_def ecall_cap_seal_def ecall_close_def cap_le_def set_cap_def Let_def)
  have "cap_regs s' = cap_regs s \<or> s' = ecall_cap_free s \<or> s' = ecall_cap_seal s \<or> (\<exists>a. s' = ecall_cap_restrict a s)"
    using assms(1) assms(2) unfolding vm_ecall_def Let_def
    by (auto split: if_splits dest: p t cap_regs_calls cap_access_le simp: o(3))
  then show ?thesis using o restrict_le by auto
qed

text \<open>
  Rights only shrink: no instruction and no system call but \<^verbatim>\<open>cap_malloc\<close> gives the guest a
  capability that reaches further, allows more, is valid where the old one was not or is unsealed
  where it was sealed.
\<close>
theorem cap_monotone:
  assumes "vm_exec io ins s = Some s'" "f_op ins = 0x73 \<longrightarrow> vm_reg s 17 \<noteq> 30"
  shows "cap_le (cap_regs s' 10) (cap_regs s 10)"
proof (cases "f_op ins = 0x73")
  case False
  then show ?thesis using instr_shadow [of ins io s] assms(1) cap_le_shadow by auto
next
  case True
  then obtain t where t: "vm_ecall io s = Some t" "s' = vm_finish (f_rd ins) None (vm_pc s + 4) t"
    using assms(1) by (auto simp: vm_exec_def Let_def split: bind_splits)
  then have "cap_regs s' = cap_regs t" by (simp add: vm_finish_def)
  then show ?thesis using ecall_cap_le [OF t(1)] assms(2) True by simp
qed


definition demo_restrict :: "unit vm" where
  "demo_restrict = ecall_cap_malloc 16 (demo_call 32 1)"

theorem cap_monotone_witness:
  "\<exists>s'. vm_exec demo_io 0x73 demo_restrict = Some s' \<and> cap_le (cap_regs s' 10) (cap_regs demo_restrict 10) \<and>
     cap_perms (cap_regs s' 10) = CHERI_PERM_LOAD"
proof -
  have d: "vm_reg demo_restrict = (\<lambda>_. 0)(2 := 0x3FF0, 10 := 1, 17 := 32)"
    "cap_regs demo_restrict 10 = \<lparr>cap_base = 0x200, cap_length = 16, cap_perms = 3, cap_tag = True, cap_sealed = False\<rparr>"
    by (simp_all add: demo_restrict_def ecall_cap_malloc_def Let_def set_cap_def demo_call_def demo_vm_def vm_init_def)
  let ?t = "vm_finish (f_rd 0x73) None (vm_pc demo_restrict + 4) (ecall_cap_restrict 1 demo_restrict)"
  have e: "vm_exec demo_io 0x73 demo_restrict = Some ?t"
    by (simp add: vm_exec_def f_op_def vm_ecall_def Let_def d)
  have "cap_le (cap_regs ?t 10) (cap_regs demo_restrict 10)"
    by (rule cap_monotone [OF e]) (simp add: d)
  moreover have "cap_perms (cap_regs ?t 10) = CHERI_PERM_LOAD"
    by (simp add: vm_finish_def ecall_cap_restrict_def Let_def set_cap_def d)
  ultimately show ?thesis using e by blast
qed

text \<open>
  The rounding of \<^verbatim>\<open>cap_malloc\<close> wraps: a request of 4 GB - 1 bytes costs nothing and yields
  a capability through which the guest reads every byte of its memory but the one below the base,
  code and foreign blocks included.
\<close>
theorem cap_malloc_unbounded:
  assumes "unat (vm_heap_ptr s) + 64 \<le> unat (vm_reg s 2)" "x < 0x4000" "x + 1 \<noteq> unat (vm_heap_ptr s)"
  defines "s1 \<equiv> ecall_cap_malloc 0xFFFFFFFF s"
  shows "ecall_cap_load8 (word_of_nat x - vm_heap_ptr s) s1 = Some (set_reg 10 (ucast (vm_mem s x)) s1)"
proof -
  let ?hp = "vm_heap_ptr s" and ?off = "word_of_nat x - vm_heap_ptr s"
  have "unat (vm_reg s 2 - 64) = unat (vm_reg s 2) - 64"
    using assms(1) by (simp add: unat_sub word_le_nat_alt)
  then have f: "\<not> vm_reg s 2 - 64 < ?hp" using assms(1) by (simp add: word_less_nat_alt)
  have z: "(4294967296 :: u32) = 0" by (simp add: word_unat_eq_iff)
  have y: "?hp + 4294967296 = ?hp" by (metis add.right_neutral z)
  have c: "cap_regs s1 10 = \<lparr>cap_base = ?hp, cap_length = 0xFFFFFFFF, cap_perms = 3, cap_tag = True, cap_sealed = False\<rparr>"
    "vm_mem s1 = vm_mem s"
    using f by (simp_all add: y s1_def ecall_cap_malloc_def Let_def set_cap_def)
  have u: "unat (word_of_nat x :: u32) = x" using assms(2) by (simp add: unat_of_nat take_bit_nat_eq_self)
  have "?off \<noteq> 0xFFFFFFFF"
  proof
    assume "?off = 0xFFFFFFFF"
    then have "word_of_nat x - ?hp + 1 = 0xFFFFFFFF + 1" by (simp only:)
    then have "word_of_nat x + 1 - ?hp = 0" by (simp add: z algebra_simps)
    then have "word_of_nat x + 1 = ?hp" by (simp only: right_minus_eq)
    then have "unat ?hp = x + 1" using assms(2) u by (simp add: unat_word_ariths flip: \<open>word_of_nat x + 1 = ?hp\<close>)
    then show False using assms(3) by simp
  qed
  moreover have "unat ?off < 2 ^ LENGTH(32)" by (rule unsigned_less)
  ultimately have o: "?off < 0xFFFFFFFF" by (auto simp: word_less_nat_alt word_unat_eq_iff)
  then have "\<not> (0xFFFFFFFF - ?off < 1)" by (simp add: word_less_1)
  then show ?thesis using c o u assms(2)
    by (simp add: ecall_cap_load8_def cheri_check_def Let_def vm_ld_def word_less_nat_alt word_le_nat_alt not_le)
qed

theorem cap_malloc_unbounded_witness:
  "ecall_cap_load8 (word_of_nat 0 - vm_heap_ptr (demo_call 30 0xFFFFFFFF)) (ecall_cap_malloc 0xFFFFFFFF (demo_call 30 0xFFFFFFFF)) =
     Some (set_reg 10 (ucast (vm_mem (demo_call 30 0xFFFFFFFF) 0)) (ecall_cap_malloc 0xFFFFFFFF (demo_call 30 0xFFFFFFFF)))"
  by (rule cap_malloc_unbounded) simp_all

end
