(* ===== verification/Rv32Plain.thy ===== *)
theory Rv32Plain
  imports Rv32Mem
begin

section \<open>The plain RV32I interpreter\<close>

text \<open>
  \<^verbatim>\<open>src/user/rv32i.c\<close>, the smaller sibling of \<^verbatim>\<open>rv32i_full.c\<close>: no tags, no capabilities, no M
  extension, three system calls. Its globals \<^verbatim>\<open>vm_mem\<close>, \<^verbatim>\<open>vm_reg\<close>, \<^verbatim>\<open>vm_pc\<close> and \<^verbatim>\<open>vm_halted\<close> are the fields
  of that name of the record \<open>vm\<close>; it never looks at the others. The decoding of immediates and the
  arithmetic of the base set are the same C text in both files and the same definitions here.
  \<open>plain_run_agrees\<close> relates the two interpreters.
\<close>

definition plain_mr8 :: "u32 \<Rightarrow> 'h vm \<Rightarrow> u32 option" where
  "plain_mr8 a s = (if VM_MEM_SIZE \<le> a then Some 0 else do { b \<leftarrow> vm_ld s a; Some (ucast b) })"

definition plain_mr16 :: "u32 \<Rightarrow> 'h vm \<Rightarrow> u32 option" where
  "plain_mr16 a s =
     (if VM_MEM_SIZE \<le> a + 1 then Some 0
      else do { b0 \<leftarrow> vm_ld s a; b1 \<leftarrow> vm_ld s (a + 1); Some (ucast b0 OR push_bit 8 (ucast b1)) })"

definition plain_mr32 :: "u32 \<Rightarrow> 'h vm \<Rightarrow> u32 option" where
  "plain_mr32 a s = (if VM_MEM_SIZE \<le> a + 3 then Some 0 else vm_word a s)"

definition plain_mw8 :: "u32 \<Rightarrow> u32 \<Rightarrow> 'h vm \<Rightarrow> 'h vm option" where
  "plain_mw8 a v s = (if a < VM_MEM_SIZE then vm_st a (ucast v) s else Some s)"

definition plain_mw16 :: "u32 \<Rightarrow> u32 \<Rightarrow> 'h vm \<Rightarrow> 'h vm option" where
  "plain_mw16 a v s =
     (if a + 1 < VM_MEM_SIZE
      then do { s \<leftarrow> vm_st a (ucast v) s; vm_st (a + 1) (ucast (drop_bit 8 v)) s } else Some s)"

definition plain_mw32 :: "u32 \<Rightarrow> u32 \<Rightarrow> 'h vm \<Rightarrow> 'h vm option" where
  "plain_mw32 a v s = (if a + 3 < VM_MEM_SIZE then vm_put_word a v s else Some s)"

definition plain_ecall :: "'h vm \<Rightarrow> 'h vm option" where
  "plain_ecall s =
     (let nr = vm_reg s 17; a0 = vm_reg s 10 in
      if nr = 1 then Some (vm_print [ucast (a0 AND 0xFF)] s)
      else if nr = 4 then vm_puts a0 s
      else if nr = 10 then Some (s\<lparr>vm_halted := True\<rparr>)
      else Some s)"

definition plain_load :: "u32 \<Rightarrow> u32 \<Rightarrow> 'h vm \<Rightarrow> u32 option option" where
  "plain_load f3 a s =
     (if f3 = 0 then do { v \<leftarrow> plain_mr8 a s; Some (Some (sext v 7)) }
      else if f3 = 1 then do { v \<leftarrow> plain_mr16 a s; Some (Some (sext v 15)) }
      else if f3 = 2 then do { v \<leftarrow> plain_mr32 a s; Some (Some v) }
      else if f3 = 4 then do { v \<leftarrow> plain_mr8 a s; Some (Some v) }
      else if f3 = 5 then do { v \<leftarrow> plain_mr16 a s; Some (Some v) }
      else Some None)"

definition plain_store :: "u32 \<Rightarrow> u32 \<Rightarrow> u32 \<Rightarrow> 'h vm \<Rightarrow> 'h vm option" where
  "plain_store f3 a v s =
     (if f3 = 0 then plain_mw8 a v s
      else if f3 = 1 then plain_mw16 a v s
      else if f3 = 2 then plain_mw32 a v s
      else Some s)"

definition plain_alu_reg :: "u32 \<Rightarrow> u32 \<Rightarrow> u32 \<Rightarrow> u32 \<Rightarrow> u32" where
  "plain_alu_reg f3 f7 v1 v2 =
     (let sh = unat (v2 AND 0x1F) in
      if f3 = 0 then (if f7 AND 0x20 \<noteq> 0 then v1 - v2 else v1 + v2)
      else if f3 = 1 then push_bit sh v1
      else if f3 = 2 then (if v1 <s v2 then 1 else 0)
      else if f3 = 3 then (if v1 < v2 then 1 else 0)
      else if f3 = 4 then v1 XOR v2
      else if f3 = 5 then (if f7 AND 0x20 \<noteq> 0 then signed_drop_bit sh v1 else drop_bit sh v1)
      else if f3 = 6 then v1 OR v2
      else v1 AND v2)"

definition plain_exec :: "u32 \<Rightarrow> 'h vm \<Rightarrow> 'h vm option" where
  "plain_exec ins s =
     (let op = f_op ins; rd = f_rd ins; f3 = f_f3 ins; f7 = f_f7 ins; npc = vm_pc s + 4;
          v1 = vm_reg s (f_rs1 ins); v2 = vm_reg s (f_rs2 ins) in
      if op = 0x37 then Some (vm_finish rd (Some (imm_u ins)) npc s)
      else if op = 0x17 then Some (vm_finish rd (Some (vm_pc s + imm_u ins)) npc s)
      else if op = 0x6F then Some (vm_finish rd (Some npc) (vm_pc s + imm_j ins) s)
      else if op = 0x67 then Some (vm_finish rd (Some npc) ((v1 + imm_i ins) AND NOT 1) s)
      else if op = 0x63 then
        Some (vm_finish rd None (if branch_taken f3 v1 v2 then vm_pc s + imm_b ins else npc) s)
      else if op = 0x03 then do { r \<leftarrow> plain_load f3 (v1 + imm_i ins) s; Some (vm_finish rd r npc s) }
      else if op = 0x23 then do { s \<leftarrow> plain_store f3 (v1 + imm_s ins) v2 s; Some (vm_finish rd None npc s) }
      else if op = 0x13 then Some (vm_finish rd (Some (alu_imm f3 f7 (f_rs2 ins) v1 (imm_i ins))) npc s)
      else if op = 0x33 then Some (vm_finish rd (Some (plain_alu_reg f3 f7 v1 v2)) npc s)
      else if op = 0x73 then do { s \<leftarrow> plain_ecall s; Some (vm_finish rd None npc s) }
      else Some (vm_finish rd None npc (s\<lparr>vm_halted := True\<rparr>)))"

text \<open>Outside the memory a step does nothing: it returns 1, and the main loop ignores that.\<close>

definition plain_step :: "'h vm \<Rightarrow> 'h vm option" where
  "plain_step s =
     (if VM_MEM_SIZE \<le> vm_pc s + 3 then Some s
      else do { ins \<leftarrow> plain_mr32 (vm_pc s) s; plain_exec ins s })"

fun plain_run :: "nat \<Rightarrow> 'h vm \<Rightarrow> (nat \<times> 'h vm) option" where
  "plain_run 0 s = Some (0, s)"
| "plain_run (Suc n) s =
     (if vm_halted s then Some (0, s)
      else do { s \<leftarrow> plain_step s; (k, s) \<leftarrow> plain_run n s; Some (Suc k, s) })"

definition plain_init :: "'h vm \<Rightarrow> 'h vm" where
  "plain_init s = s\<lparr>vm_reg := (\<lambda>i. 0)(2 := VM_MEM_SIZE - 16), vm_pc := 0, vm_halted := False\<rparr>"

definition plain_report :: "nat \<Rightarrow> 'h vm \<Rightarrow> 'h vm" where
  "plain_report cycles s =
     (if 2000000 \<le> cycles then
        vm_print (str ''[RV32I] timeout after '' @ print_hex32 (word_of_nat cycles) @ str '' cycles'' @ [0x0A]) s
      else
        vm_print (str ''[RV32I] halted at pc='' @ print_hex32 (vm_pc s) @ str '' after '' @
          print_hex32 (word_of_nat cycles) @ str '' cycles'' @ [0x0A]) s)"

definition plain_main :: "'h hostio \<Rightarrow> nat \<Rightarrow> u8 list list \<Rightarrow> 'h vm \<Rightarrow> (int \<times> 'h vm) option" where
  "plain_main io p args s =
     (if p = 0 then Some (1, vm_print (str ''rv32i: out of memory'' @ [0x0A]) s)
      else
        case args of
          [] \<Rightarrow> do {
            let s = vm_print (str ''[RV32I] running built-in hello'' @ [0x0A])
                      (s\<lparr>vm_mem := mem_write (vm_mem s) 0 builtin_hello\<rparr>);
            (cycles, s) \<leftarrow> plain_run 2000000 (plain_init s);
            Some (0, plain_report cycles s) }
        | a # _ \<Rightarrow>
            let (bs, h) = ax_readfile io a 0x4000 (host s);
                s = s\<lparr>host := h, vm_mem := mem_write (vm_mem s) 0 bs\<rparr> in
            if 0x4000 < length bs then None
            else if bs = [] then
              Some (1, vm_print (str ''rv32i: cannot load '' @ [0x27] @ a @ [0x27, 0x0A]) s)
            else do {
              let s = vm_print (str ''[RV32I] loaded '' @ a @ [0x0A]) s;
              (cycles, s) \<leftarrow> plain_run 2000000 (plain_init s);
              Some (0, plain_report cycles s) })"

subsection \<open>Agreement of the two interpreters\<close>

text \<open>The guest stays with what both interpreters offer: no M extension, the three common system
  calls, and addresses without a tag (below 16 MB).\<close>

definition untagged :: "u32 \<Rightarrow> bool" where
  "untagged a \<longleftrightarrow> unat a < 0x1000000"

definition common_ins :: "u32 \<Rightarrow> 'h vm \<Rightarrow> bool" where
  "common_ins ins s \<longleftrightarrow>
     (f_op ins = 0x33 \<longrightarrow> f_f7 ins \<noteq> 1) \<and>
     (f_op ins = 0x03 \<longrightarrow> untagged (vm_reg s (f_rs1 ins) + imm_i ins)) \<and>
     (f_op ins = 0x23 \<longrightarrow> untagged (vm_reg s (f_rs1 ins) + imm_s ins)) \<and>
     (f_op ins = 0x73 \<longrightarrow> vm_reg s 17 = 1 \<or> vm_reg s 17 = 4 \<and> untagged (vm_reg s 10) \<or> vm_reg s 17 = 10)"

lemma untagged_simps:
  assumes "untagged a"
  shows "a AND MTE_ADDR_MASK = a" "ptr_tag a = 0"
proof -
  have u: "unat a < 2 ^ 24" using assms by (simp add: untagged_def)
  show "a AND MTE_ADDR_MASK = a" using u by (simp add: word_unat_eq_iff unat_fields)
  show "ptr_tag a = 0" using u by (simp add: word_unat_eq_iff unat_fields)
qed

lemma untagged_mr:
  assumes "untagged a"
  shows "mr8 a s = map_option (\<lambda>r. (r, s)) (plain_mr8 a s)" "mr16 a s = map_option (\<lambda>r. (r, s)) (plain_mr16 a s)"
    "mr32 a s = map_option (\<lambda>r. (r, s)) (plain_mr32 a s)"
proof -
  have c: "mte_check a False s = Some (True, s)" using untagged_simps [OF assms] by (simp add: mte_check_def)
  show "mr8 a s = map_option (\<lambda>r. (r, s)) (plain_mr8 a s)"
    by (cases "vm_ld s a") (simp_all add: mr8_def c untagged_simps [OF assms] plain_mr8_def Let_def)
  show "mr16 a s = map_option (\<lambda>r. (r, s)) (plain_mr16 a s)"
    by (cases "vm_ld s a"; cases "vm_ld s (a + 1)") (simp_all add: mr16_def c untagged_simps [OF assms] plain_mr16_def Let_def)
  show "mr32 a s = map_option (\<lambda>r. (r, s)) (plain_mr32 a s)"
    by (cases "vm_word a s") (simp_all add: mr32_def c untagged_simps [OF assms] plain_mr32_def Let_def)
qed

lemma untagged_load:
  assumes "untagged a"
  shows "vm_load f3 a s = map_option (\<lambda>r. (r, s)) (plain_load f3 a s)"
proof -
  consider "f3 = 0 \<or> f3 = 4" | "f3 = 1 \<or> f3 = 5" | "f3 = 2" | "f3 \<notin> {0, 1, 2, 4, 5}" by auto
  then show ?thesis
  proof cases
    case 1
    then show ?thesis by (cases "plain_mr8 a s") (auto simp: vm_load_def plain_load_def untagged_mr [OF assms])
  next
    case 2
    then show ?thesis by (cases "plain_mr16 a s") (auto simp: vm_load_def plain_load_def untagged_mr [OF assms])
  next
    case 3
    then show ?thesis by (cases "plain_mr32 a s") (auto simp: vm_load_def plain_load_def untagged_mr [OF assms])
  next
    case 4
    then show ?thesis by (simp add: vm_load_def plain_load_def)
  qed
qed

lemma untagged_store:
  assumes "untagged a"
  shows "vm_store f3 a v s = plain_store f3 a v s"
proof -
  have c: "mte_check a True s = Some (True, s)" using untagged_simps [OF assms] by (simp add: mte_check_def)
  have "mw8 a v s = plain_mw8 a v s" "mw16 a v s = plain_mw16 a v s" "mw32 a v s = plain_mw32 a v s"
    by (simp_all only: mw8_def mw16_def mw32_def c plain_mw8_def plain_mw16_def plain_mw32_def untagged_simps [OF assms]
        Let_def bind.bind_lunit prod.case simp_thms)
  then show ?thesis by (simp only: vm_store_def plain_store_def)
qed

lemma common_ecall:
  assumes "vm_reg s 17 = 1 \<or> vm_reg s 17 = 4 \<and> untagged (vm_reg s 10) \<or> vm_reg s 17 = 10"
  shows "vm_ecall io s = plain_ecall s"
  using assms by (elim disjE conjE) (simp_all add: vm_ecall_def plain_ecall_def untagged_simps)

lemma common_alu: "f7 \<noteq> 1 \<Longrightarrow> alu_reg f3 f7 v1 v2 = plain_alu_reg f3 f7 v1 v2"
  by (simp add: alu_reg_def plain_alu_reg_def Let_def)

lemma exec_agrees:
  assumes "common_ins ins s"
  shows "plain_exec ins s = vm_exec io ins s"
proof -
  consider "f_op ins = 0x03" | "f_op ins = 0x23" | "f_op ins = 0x73" | "f_op ins = 0x33" |
    "f_op ins \<noteq> 0x03" "f_op ins \<noteq> 0x23" "f_op ins \<noteq> 0x73" "f_op ins \<noteq> 0x33" by blast
  then show ?thesis
  proof cases
    case 1
    then have "untagged (vm_reg s (f_rs1 ins) + imm_i ins)" using assms by (simp add: common_ins_def)
    from untagged_load [OF this, of "f_f3 ins" s] 1 show ?thesis
      by (cases "plain_load (f_f3 ins) (vm_reg s (f_rs1 ins) + imm_i ins) s")
        (simp_all add: plain_exec_def vm_exec_def Let_def)
  next
    case 2
    then show ?thesis using assms
      by (simp add: plain_exec_def vm_exec_def Let_def common_ins_def untagged_store)
  next
    case 3
    then have "vm_ecall io s = plain_ecall s" using assms by (intro common_ecall) (simp add: common_ins_def)
    then show ?thesis using 3 by (simp add: plain_exec_def vm_exec_def Let_def)
  next
    case 4
    then show ?thesis using assms by (simp add: plain_exec_def vm_exec_def Let_def common_ins_def common_alu)
  next
    case 5
    then show ?thesis by (simp add: plain_exec_def vm_exec_def Let_def)
  qed
qed


text \<open>The next instruction is a common one.\<close>

definition common_next :: "'h vm \<Rightarrow> bool" where
  "common_next s \<longleftrightarrow>
     unat (vm_pc s) + 4 \<le> 0x4000 \<and> (\<forall>ins. vm_ifetch (vm_pc s) s = Some ins \<longrightarrow> common_ins ins s)"

lemma step_agrees:
  assumes "\<not> vm_halted s" "common_next s"
  shows "plain_step s = vm_step io s"
proof -
  have pc: "unat (vm_pc s) + 4 \<le> 0x4000" using assms by (simp add: common_next_def)
  then have b: "\<not> VM_MEM_SIZE \<le> vm_pc s + 3" "vm_pc s AND MTE_ADDR_MASK = vm_pc s"
    using low_plus_num(3) [of "vm_pc s"] low_addr [of "vm_pc s"] by (simp_all add: word_le_nat_alt)
  have f: "vm_ifetch (vm_pc s) s = plain_mr32 (vm_pc s) s"
    using b by (simp add: vm_ifetch_def plain_mr32_def Let_def)
  obtain ins where ins: "vm_ifetch (vm_pc s) s = Some ins" using ifetch_total by blast
  have "plain_exec ins s = vm_exec io ins s"
    by (rule exec_agrees) (use assms ins in \<open>simp add: common_next_def\<close>)
  then show ?thesis using assms(1) b ins f by (simp add: plain_step_def vm_step_def)
qed

text \<open>The first \<open>n\<close> instructions are common ones (or the machine halts before).\<close>

fun common_run :: "nat \<Rightarrow> 'h vm \<Rightarrow> bool" where
  "common_run 0 s = True"
| "common_run (Suc n) s =
     (vm_halted s \<or> common_next s \<and> (case plain_step s of None \<Rightarrow> True | Some s' \<Rightarrow> common_run n s'))"

text \<open>
  C21. The two interpreters are equivalent on the common language: as long as a guest sticks to the
  base instruction set, untagged addresses and the system calls both offer, the run of the plain
  interpreter and the run of the one with tags and capabilities execute the same number of
  instructions and end in the same state with the same output.
\<close>
theorem plain_run_agrees:
  assumes "common_run n s"
  shows "plain_run n s = vm_run io n s"
  using assms
proof (induction n arbitrary: s)
  case 0
  then show ?case by simp
next
  case (Suc n)
  show ?case
  proof (cases "vm_halted s")
    case True
    then show ?thesis by simp
  next
    case False
    then have e: "plain_step s = vm_step io s" using Suc.prems step_agrees [of s io] by simp
    show ?thesis
    proof (cases "vm_step io s")
      case None
      then show ?thesis using False e by simp
    next
      case (Some t)
      then have "common_run n t" using Suc.prems False e by simp
      from Suc.IH [OF this] show ?thesis using False e Some by simp
    qed
  qed
qed

lemma demo_common: "common_run 3 demo_vm"
proof -
  have f: "vm_ifetch (vm_pc s) s = Some (encode i)" if "fetches s i" for s :: "unit vm" and i
  proof -
    have pc: "unat (vm_pc s) + 4 \<le> 0x4000" using that by (simp add: fetches_def)
    then have "\<not> VM_MEM_SIZE \<le> vm_pc s + 3" using low_plus_num(3) [of "vm_pc s"] by (simp add: word_le_nat_alt)
    then show ?thesis using pc that by (simp add: vm_ifetch_def low_addr vm_word_ok fetches_def)
  qed
  have c: "common_next s" if "fetches s i" "common_ins (encode i) s" for s :: "unit vm" and i
    using that f [OF that(1)] by (simp add: common_next_def fetches_def)
  have p: "plain_step s = Some (isa i s)"
    if "fetches s i" "common_ins (encode i) s" "access_ok i s" "\<not> vm_halted s" "vm_reg s 0 = 0" for s :: "unit vm" and i
    using step_agrees [OF that(4) c [OF that(1,2)], of demo_io] vm_step_isa [OF that(4,5,1,3)] by simp
  have ci: "common_ins (encode (OPI ADDI 10 0 5)) s" "common_ins (encode (OP ADD 11 10 10)) s"
    "common_ins (encode (JAL 0 (- 4))) s" for s :: "unit vm"
    by (simp_all add: common_ins_def fields)
  define s1 where "s1 = isa (OPI ADDI 10 0 5) demo_vm"
  define s2 where "s2 = isa (OP ADD 11 10 10) s1"
  have m1: "vm_pc s1 = 4" "vm_mem s1 = mem_write (\<lambda>_. 0) 0 (assemble demo_prog)" "\<not> vm_halted s1" "vm_reg s1 0 = 0"
    unfolding s1_def by (simp_all add: isa_keeps) (simp_all add: goto_def rv_set_def set_reg_def)
  have m2: "vm_pc s2 = 8" "vm_mem s2 = mem_write (\<lambda>_. 0) 0 (assemble demo_prog)" "\<not> vm_halted s2" "vm_reg s2 0 = 0"
    unfolding s2_def using m1 by (simp_all add: isa_keeps) (simp_all add: goto_def rv_set_def set_reg_def)
  have f0: "fetches demo_vm (OPI ADDI 10 0 5)"
    using assemble_fetches [of demo_vm "\<lambda>_. 0" demo_prog 0] by (simp add: demo_prog_def)
  have f1: "fetches s1 (OP ADD 11 10 10)"
    using assemble_fetches [of s1 "\<lambda>_. 0" demo_prog 1] m1 by (simp add: demo_prog_def)
  have f2: "fetches s2 (JAL 0 (- 4))"
    using assemble_fetches [of s2 "\<lambda>_. 0" demo_prog 2] m2 by (simp add: demo_prog_def)
  have "plain_step demo_vm = Some s1" unfolding s1_def using p [OF f0 ci(1)] by simp
  moreover have "plain_step s1 = Some s2" unfolding s2_def using p [OF f1 ci(2)] m1 by simp
  ultimately show ?thesis
    using c [OF f0 ci(1)] c [OF f1 ci(2)] c [OF f2 ci(3)] by (simp add: numeral_3_eq_3 split: option.split)
qed

theorem plain_run_agrees_witness: "plain_run 3 demo_vm = vm_run demo_io 3 demo_vm"
  by (rule plain_run_agrees [OF demo_common])

text \<open>
  The plain interpreter does not check the wrap-around of addresses: after a jump to the last
  halfword of the address space its fetch passes the range check and reads outside the guest memory.
\<close>
theorem plain_fetch_escapes:
  assumes "vm_pc s = 0xFFFFFFFE"
  shows "plain_step s = None"
proof -
  have "(0xFFFFFFFE :: u32) + 3 = 1" by (simp add: word_unat_eq_iff)
  then have "\<not> VM_MEM_SIZE \<le> vm_pc s + 3" using assms by (simp add: word_le_nat_alt)
  moreover have "vm_ld s (vm_pc s) = None" using assms by (simp add: vm_ld_def)
  ultimately show ?thesis by (simp add: plain_step_def plain_mr32_def vm_word_def)
qed

theorem plain_fetch_escapes_witness: "plain_step (demo_vm\<lparr>vm_pc := 0xFFFFFFFE\<rparr>) = None"
  by (rule plain_fetch_escapes) simp

end
