(* ===== verification/KAccess.thy ===== *)
theory KAccess
  imports KDemo
begin

section \<open>Properties of the access checks\<close>

text \<open>
  What the checks of the system calls protect: a pointer that passes \<open>validate_user_ptr\<close> denotes
  memory of the caller's own slot, the policy keeps isolated programs from the raw disk and the
  reset line, the seccomp gate ends a task before a forbidden handler runs, and the clipboard does
  not leak upwards. Two theorems show where the protection ends: a result address in a read-only
  code page stops the whole machine, and two disjoint seccomp masks cancel each other.
\<close>

subsection \<open>User pointers\<close>

text \<open>\<open>on_slot s slot\<close>: an isolated task runs, on tables that \<^verbatim>\<open>paging_create_user_directory\<close> built
  for the slot with the boundary \<open>w\<close>, shifted by \<open>d\<close>.\<close>

definition on_slot :: "kstate \<Rightarrow> nat \<Rightarrow> nat \<Rightarrow> nat \<Rightarrow> bool" where
  "on_slot s slot d w \<longleftrightarrow>
     task_current_is_isolated s \<and> slot < USER_PROGRAM_SLOTS \<and>
     (\<exists>p p'. paging_ok p \<and> paging_create_user_directory slot (slot_base slot) d w p = (cr3 s, p') \<and>
        (\<forall>va. USER_WINDOW_BASE \<le> va \<and> va < USER_WINDOW_BASE + USER_WINDOW_SIZE \<longrightarrow>
           mmu_walk (pte (pgt s)) (cr3 s) va = mmu_walk (pte p') (cr3 s) va))"

lemma slot_base_page:
  assumes "slot < USER_PROGRAM_SLOTS"
  shows "slot_base slot mod 4096 = 0" "slot_base slot + USER_WINDOW_SIZE < 2 ^ 32"
proof -
  have "slot_base slot = (512 + slot * 16) * 4096" by (simp add: slot_base_def)
  then show "slot_base slot mod 4096 = 0" by (simp only: mod_mult_self2_is_0)
  show "slot_base slot + USER_WINDOW_SIZE < 2 ^ 32" using assms by (simp add: slot_base_def)
qed

lemma on_slot_walk:
  assumes s: "on_slot s slot d w" and va: "USER_WINDOW_BASE \<le> va" "va < USER_WINDOW_BASE + USER_WINDOW_SIZE"
  shows "\<exists>x. mmu_walk (pte (pgt s)) (cr3 s) va = Some x \<and> pa x = slot_base slot + (va - USER_WINDOW_BASE) \<and>
    (write_ok x \<longleftrightarrow> w = 0 \<or> (va - USER_WINDOW_BASE) div 4096 = 15 \<or>
       wrap32 (d + w) \<le> (va - USER_WINDOW_BASE) div 4096 * 4096 + 4095)"
proof -
  obtain p p' where p: "paging_ok p" "slot < 4" "paging_create_user_directory slot (slot_base slot) d w p = (cr3 s, p')"
    "mmu_walk (pte (pgt s)) (cr3 s) va = mmu_walk (pte p') (cr3 s) va"
    using s va by (auto simp: on_slot_def)
  note b = slot_base_page [OF p(2)]
  obtain x where x: "mmu_walk (pte p') (cr3 s) va = Some x" "user_ok x"
    using window_walk [OF p(1-3) b va] by blast
  have "va < 2 ^ 48" using va by simp
  note u = user_walk [OF p(1-3) b this x]
  have "(va - USER_WINDOW_BASE) div 4096 * 4096 \<le> va - USER_WINDOW_BASE" by simp
  then have "slot_base slot + (va - USER_WINDOW_BASE) div 4096 * 4096 < 2 ^ 32" using b(2) va by linarith
  from window_entry_flags(4) [OF refl b(1) this, of "g_nx p" d w] show ?thesis
    using u x(1) p(4) by (simp add: Let_def)
qed

lemma validated_range:
  assumes "validate_user_ptr s a n" "task_current_is_isolated s" "a < 2 ^ 32" "n < 2 ^ 32"
  shows "USER_WINDOW_BASE \<le> a" "a + n \<le> USER_WINDOW_BASE + USER_WINDOW_SIZE"
proof -
  have v: "a \<le> wrap32 (a + n)" "USER_WINDOW_BASE \<le> a" "wrap32 (a + n) \<le> USER_WINDOW_BASE + USER_WINDOW_SIZE"
    using assms(1,2) by (auto simp: validate_user_ptr_def split: if_splits)
  show "USER_WINDOW_BASE \<le> a" by (rule v)
  have "a + n < 2 ^ 32"
  proof (rule ccontr)
    assume "\<not> a + n < 2 ^ 32"
    then have "wrap32 (a + n) + 2 ^ 32 = a + n" using assms(3,4) by (simp add: wrap32_def le_mod_geq)
    then show False using v(1) assms(4) by linarith
  qed
  then show "a + n \<le> USER_WINDOW_BASE + USER_WINDOW_SIZE" using v(3) by (simp add: wrap32_def)
qed

lemma uread_window:
  assumes "on_slot s slot d w" "off + n \<le> USER_WINDOW_SIZE"
  shows "uread s (USER_WINDOW_BASE + off) n = Some (mem_read (ram s) (slot_base slot + off) n)"
  using assms(2)
proof (induction n arbitrary: off)
  case (Suc n)
  obtain x where x: "mmu_walk (pte (pgt s)) (cr3 s) (USER_WINDOW_BASE + off) = Some x" "pa x = slot_base slot + off"
    using on_slot_walk [OF assms(1), of "USER_WINDOW_BASE + off"] Suc.prems by auto
  have "uread s (USER_WINDOW_BASE + (off + 1)) n = Some (mem_read (ram s) (slot_base slot + (off + 1)) n)"
    using Suc.prems by (intro Suc.IH) simp
  moreover have "mem_read m k (Suc n) = m k # mem_read m (k + 1) n" for m :: bmem and k
    using mem_read_append [of m k 1 n] by (simp add: mem_read_def)
  ultimately show ?case using x by (simp add: uload_def add.assoc)
qed simp

text \<open>
  A pointer and a length that pass \<^verbatim>\<open>validate_user_ptr\<close> cannot make the kernel fault or read
  anything but the caller: every byte of the range is mapped, and reading it yields the bytes of the
  caller's own slot. The check is not fooled by a range that wraps around at 4 GB.
\<close>
theorem validated_read:
  assumes "on_slot s slot d w" "validate_user_ptr s a n" "a < 2 ^ 32" "n < 2 ^ 32"
  shows "uread s a n = Some (mem_read (ram s) (slot_base slot + (a - USER_WINDOW_BASE)) n)"
proof -
  have "task_current_is_isolated s" using assms(1) by (simp add: on_slot_def)
  note r = validated_range [OF assms(2) this assms(3,4)]
  then have "USER_WINDOW_BASE + (a - USER_WINDOW_BASE) = a" "a - USER_WINDOW_BASE + n \<le> USER_WINDOW_SIZE" by simp_all
  then show ?thesis using uread_window [OF assms(1), of "a - USER_WINDOW_BASE" n] by simp
qed

text \<open>The demonstration kernel with the tables of the user program in slot 0.\<close>

definition demo_dir :: "nat \<Rightarrow> nat \<times> paging" where
  "demo_dir w = paging_create_user_directory 0 (slot_base 0) 0 w demo_paging"

definition demo_win :: "nat \<Rightarrow> kstate" where
  "demo_win w = (demo_k False)\<lparr>pgt := snd (demo_dir w), cr3 := fst (demo_dir w)\<rparr>"

lemma demo_win_simps [simp]:
  "current_task (demo_win w) = 0x600030" "tasks (demo_win w) = tasks (demo_k False)" "kmem (demo_win w) = kmem (demo_k e)"
  by (simp_all add: demo_win_def demo_k_def)

lemma demo_user_simps [simp]:
  "user_slot_index (demo_user e) = 0" "exiting (demo_user e) = e" "syscall_mask (demo_user e) = 0"
  "mls_level (demo_user e) = 0" "\<not> blocked (demo_user e)" "tnext (demo_user e) = 0x8000"
  "kernel_stack_top (demo_user e) = demo_kstack + KSTACK_SIZE"
  by (simp_all add: demo_user_def fresh_task_def blocked_def)

lemma demo_win_on_slot: "on_slot (demo_win w) 0 0 w"
proof -
  have "paging_ok demo_paging" by (simp add: demo_paging_def init_paging_ok)
  moreover have "paging_create_user_directory 0 (slot_base 0) 0 w demo_paging = (cr3 (demo_win w), snd (demo_dir w))"
    by (simp add: demo_win_def demo_dir_def)
  moreover have "pgt (demo_win w) = snd (demo_dir w)" by (simp add: demo_win_def)
  moreover have "task_current_is_isolated (demo_win w)" by (simp add: task_current_is_isolated_def cur_task_def)
  ultimately show ?thesis unfolding on_slot_def by (metis zero_less_numeral)
qed

lemma demo_validate: "USER_WINDOW_BASE \<le> a \<Longrightarrow> a + n \<le> USER_WINDOW_BASE + USER_WINDOW_SIZE \<Longrightarrow> validate_user_ptr s a n"
  by (simp add: validate_user_ptr_def wrap32_def)

theorem validated_read_witness:
  "uread (demo_win 0x3000) 0x10FFF0 16 = Some (mem_read (ram (demo_win 0x3000)) 0x20FFF0 16)"
  using validated_read [OF demo_win_on_slot, of "0x3000" "0x10FFF0" 16] by (simp add: demo_validate slot_base_def)

text \<open>
  C32. A pointer check is not enough for writing: when the result field of a call lies in one of
  the caller's read-only code pages, the check passes, the kernel itself takes the page fault, and
  \<^verbatim>\<open>page_fault_handler_main\<close> halts the machine. Any program with a data boundary can do this.
\<close>
theorem result_in_code_halts:
  assumes "on_slot s slot d w" "validate_user_ptr s a 4" "a < 2 ^ 32" "w \<noteq> 0"
    and "a < USER_WINDOW_BASE + 15 * PAGE_SIZE" "(a - USER_WINDOW_BASE) div 4096 * 4096 + 4095 < wrap32 (d + w)"
    and "\<not> task_current_is_exiting s" "task_syscall_allowed 0x0F s"
  shows "syscall_dispatch dv 0x0F a s = None"
proof -
  have "task_current_is_isolated s" using assms(1) by (simp add: on_slot_def)
  note r = validated_range [OF assms(2) this assms(3), simplified]
  obtain x where x: "mmu_walk (pte (pgt s)) (cr3 s) a = Some x" "\<not> write_ok x"
    using on_slot_walk [OF assms(1) r(1)] r assms(4-6) by (auto simp: div_less_iff_less_mult)
  have "uwrite32 a v s = None" for v
    using x by (simp add: uwrite32_def ustore_def le_bytes_def numeral_eq_Suc)
  then show ?thesis using assms(2,7,8) by (simp add: syscall_dispatch_def syscall_table_def sys_get_ticks_def)
qed

definition demo_devs :: devs where
  "demo_devs = \<lparr>cmos = (\<lambda>_. 0), mouse = (0, 0, 0), ide_model = None, pci_devices = [], net_ready = False,
     net_mac = [], net_send = (\<lambda>_. 0), net_recv = (\<lambda>_. []), beep = (\<lambda>_ _. Some)\<rparr>"

theorem result_in_code_halts_witness: "syscall_dispatch demo_devs 0x0F 0x100000 (demo_win 0x3000) = None"
  by (rule result_in_code_halts [OF demo_win_on_slot])
    (simp_all add: demo_validate wrap32_def task_current_is_exiting_def task_syscall_allowed_def cur_task_def)

subsection \<open>System call filters\<close>

lemma narrow_zero: "fold (\<lambda>m a. a AND m) ms 0 = (0 :: u64)"
  by (induction ms) simp_all

lemma narrow_bit:
  "bit (fold (\<lambda>m a. a AND m) ms a) i \<longleftrightarrow> bit (a :: u64) i \<and> (\<forall>m \<in> set ms. bit m i)"
  by (induction ms arbitrary: a) (auto simp: bit_simps)

lemma set_masks:
  assumes "cur_task s = Some t" "syscall_mask t \<noteq> 0" "fold (\<lambda>m a. a AND m) ms (syscall_mask t) \<noteq> 0"
  shows "\<exists>ts. fold task_set_syscall_mask ms s = s\<lparr>tasks := ts\<rparr> \<and>
    cur_task (s\<lparr>tasks := ts\<rparr>) = Some (t\<lparr>syscall_mask := fold (\<lambda>m a. a AND m) ms (syscall_mask t)\<rparr>)"
  using assms
proof (induction ms arbitrary: s t)
  case Nil
  then show ?case by (intro exI [of _ "tasks s"]) simp
next
  case (Cons m ms)
  let ?t = "t\<lparr>syscall_mask := syscall_mask t AND m\<rparr>"
  let ?s = "s\<lparr>tasks := (tasks s)(current_task s \<mapsto> ?t)\<rparr>"
  have "syscall_mask t AND m \<noteq> 0" using Cons.prems(3) by (auto simp: narrow_zero)
  moreover have "task_set_syscall_mask m s = ?s" "cur_task ?s = Some ?t"
    using Cons.prems(1,2) by (auto simp: task_set_syscall_mask_def cur_update_def cur_task_def split: if_splits)
  ultimately show ?case using Cons.IH [of ?s ?t] Cons.prems(3) by simp
qed

text \<open>
  C31. The seccomp gate holds: after any number of narrowings whose masks still share a call, an
  isolated task that makes a call missing from one of them is marked for its end before the handler
  runs; nothing else of the kernel changes but the log.
\<close>
theorem seccomp_enforced:
  assumes "task_current_is_isolated s" "cur_task s = Some t" "\<not> exiting t" "syscall_mask t \<noteq> 0"
    and "fold (\<lambda>m a. a AND m) ms (syscall_mask t) \<noteq> 0" "m \<in> insert (syscall_mask t) (set ms)"
    and "\<not> bit m (unat func)" "unat func < 64" "func \<noteq> 0x23"
  defines "s1 \<equiv> fold task_set_syscall_mask ms s"
  shows "\<exists>s2. syscall_dispatch dv func arg s1 = Some s2 \<and> task_current_is_exiting s2 \<and>
    s2 = s1\<lparr>tasks := tasks s2, klog := klog s2\<rparr>"
proof -
  let ?t = "t\<lparr>syscall_mask := fold (\<lambda>m a. a AND m) ms (syscall_mask t)\<rparr>"
  obtain ts where ts: "s1 = s\<lparr>tasks := ts\<rparr>" "cur_task s1 = Some ?t"
    using set_masks [OF assms(2,4,5)] by (auto simp: s1_def)
  have "\<not> bit (syscall_mask ?t) (unat func mod 64)" using assms(6-8) by (auto simp: narrow_bit)
  then have "\<not> task_syscall_allowed func s1" using ts(2) assms(5) by (simp add: task_syscall_allowed_def)
  moreover have "\<not> task_current_is_exiting s1" using ts(2) assms(3) by (simp add: task_current_is_exiting_def)
  ultimately have "syscall_dispatch dv func arg s1 = Some (seccomp_kill func s1)"
    using assms(9) by (simp add: syscall_dispatch_def)
  moreover have "0 \<le> user_slot_index t" using assms(1,2) by (simp add: task_current_is_isolated_def)
  then have "task_current_is_isolated s1" using ts(2) by (simp add: task_current_is_isolated_def)
  then have "task_current_is_exiting (seccomp_kill func s1)" "seccomp_kill func s1 =
      s1\<lparr>tasks := tasks (seccomp_kill func s1), klog := klog (seccomp_kill func s1)\<rparr>"
    using ts(2) by (auto simp: seccomp_kill_def task_mark_current_exiting_def cur_update_def cur_task_def kputs_def
        task_current_is_exiting_def split: if_splits)
  ultimately show ?thesis by blast
qed

theorem seccomp_enforced_witness:
  "\<exists>s2. syscall_dispatch demo_devs 0x1A 0 (fold task_set_syscall_mask [6, 3] ((demo_win 0)\<lparr>tasks := [0x600030 \<mapsto> (demo_user False)\<lparr>syscall_mask := 10\<rparr>]\<rparr>))
     = Some s2 \<and> task_current_is_exiting s2"
proof -
  let ?s = "(demo_win 0)\<lparr>tasks := [0x600030 \<mapsto> (demo_user False)\<lparr>syscall_mask := 10\<rparr>]\<rparr>"
  have t: "cur_task ?s = Some ((demo_user False)\<lparr>syscall_mask := 10\<rparr>)" by (simp add: cur_task_def)
  show ?thesis
    using seccomp_enforced [OF _ t, of "[6, 3]" 10 "0x1A" demo_devs 0] t by (auto simp: task_current_is_isolated_def bit_iff_odd)
qed

text \<open>
  Narrowing twice can lift the filter: two masks without a common call leave the mask 0, which
  \<^verbatim>\<open>task_syscall_allowed\<close> takes for "no filter", and every call is allowed again.
\<close>
theorem seccomp_disjoint_lifts:
  assumes "syscall_mask t AND m = 0" "cur_task s = Some t" "syscall_mask t \<noteq> 0"
  shows "task_syscall_allowed func (task_set_syscall_mask m s)"
  using assms by (auto simp: task_set_syscall_mask_def task_syscall_allowed_def cur_update_def cur_task_def split: if_splits)

theorem seccomp_disjoint_lifts_witness:
  "task_syscall_allowed 0x1A (task_set_syscall_mask 4 ((demo_win 0)\<lparr>tasks := [0x600030 \<mapsto> (demo_user False)\<lparr>syscall_mask := 2\<rparr>]\<rparr>))"
  by (rule seccomp_disjoint_lifts [where t = "(demo_user False)\<lparr>syscall_mask := 2\<rparr>"])
    (simp_all add: cur_task_def)

subsection \<open>Information a call does not see\<close>

lemma length_syscall_table [simp]: "length (syscall_table dv) = 42"
  by (simp add: syscall_table_def)

lemma table_entries:
  "syscall_table dv ! 15 = Some sys_get_ticks" "syscall_table dv ! 24 = Some (sys_disk_identify dv)"
  "syscall_table dv ! 25 = Some sys_disk_read_sector" "syscall_table dv ! 26 = Some sys_disk_write_sector"
  "syscall_table dv ! 28 = Some sys_reboot" "syscall_table dv ! 32 = Some sys_clipboard_get"
  "syscall_table dv ! 34 = Some (sys_pci_get_device dv)"
  by (simp_all add: syscall_table_def)

text \<open>
  A part of the state that the path from a call to its denial neither reads nor writes: \<open>F\<close> changes
  that part, and the operations the path uses commute with it.
\<close>

locale hidden =
  fixes F :: "kstate \<Rightarrow> kstate"
  assumes F_sel: "kmem (F s) = kmem s" "pgt (F s) = pgt s" "cr3 (F s) = cr3 s" "tasks (F s) = tasks s"
      "current_task (F s) = current_task s" "klog (F s) = klog s"
    and F_upd: "F (s\<lparr>kmem := h\<rparr>) = (F s)\<lparr>kmem := h\<rparr>" "F (s\<lparr>klog := l\<rparr>) = (F s)\<lparr>klog := l\<rparr>"
      "F (s\<lparr>tasks := ts\<rparr>) = (F s)\<lparr>tasks := ts\<rparr>"
begin

lemma cur_task [simp]: "cur_task (F s) = cur_task s"
  by (simp add: cur_task_def F_sel)

lemma views [simp]:
  "task_current_is_isolated (F s) = task_current_is_isolated s"
  "task_current_is_exiting (F s) = task_current_is_exiting s"
  "task_current_name (F s) = task_current_name s" "task_current_mls_level (F s) = task_current_mls_level s"
  "task_syscall_allowed n (F s) = task_syscall_allowed n s" "validate_user_ptr (F s) a k = validate_user_ptr s a k"
  "ax_current_domain (F s) = ax_current_domain s"
  by (simp_all add: task_current_is_isolated_def task_current_is_exiting_def task_current_name_def
      task_current_mls_level_def task_syscall_allowed_def validate_user_ptr_def ax_current_domain_def)

lemma kputs [simp]: "kputs l (F s) = F (kputs l s)"
  by (simp add: kputs_def F_sel F_upd)

lemma uload [simp]: "uload (F s) a = uload s a"
  by (auto simp: uload_def F_sel split: option.splits)

lemma uread [simp]: "uread (F s) a n = uread s a n"
  by (induction n arbitrary: a) (auto split: option.splits)

lemma uread32 [simp]: "uread32 (F s) a = uread32 s a"
  by (simp add: uread32_def)

lemma uwrite [simp]: "uwrite a bs (F s) = map_option F (uwrite a bs s)"
proof (induction bs arbitrary: a s)
  case (Cons b bs)
  have "ustore a b (F s) = map_option F (ustore a b s)"
    by (auto simp: ustore_def poke_def F_sel F_upd split: option.splits)
  then show ?case using Cons.IH by (cases "ustore a b s") simp_all
qed simp

lemma uwrite32 [simp]: "uwrite32 a v (F s) = map_option F (uwrite32 a v s)"
  by (simp add: uwrite32_def)

lemma seccomp_kill [simp]: "seccomp_kill n (F s) = F (seccomp_kill n s)"
proof -
  have "task_mark_current_exiting (F t) = F (task_mark_current_exiting t)" for t
    by (auto simp: task_mark_current_exiting_def cur_update_def F_sel F_upd split: option.splits)
  then show ?thesis by (simp add: seccomp_kill_def)
qed

text \<open>A denied access leaves only a line in the log.\<close>

lemma mac_denied:
  "\<not> ax_policy (ax_current_domain s) c \<Longrightarrow>
     ax_mac_check c (F s) = (False, F (snd (ax_mac_check c s))) \<and> \<not> fst (ax_mac_check c s)"
  by (simp add: ax_mac_check_def Let_def)

lemma dominates_denied:
  "task_current_is_isolated s \<Longrightarrow> task_current_mls_level s < l \<Longrightarrow>
     ax_mls_dominates l c (F s) = (False, F (snd (ax_mls_dominates l c s))) \<and> \<not> fst (ax_mls_dominates l c s)"
  by (simp add: ax_mls_dominates_def Let_def)

text \<open>The dispatcher around a handler that does not see the hidden part.\<close>

lemma dispatch:
  assumes "syscall_table dv ! unat func = Some h" "syscall_table dv' ! unat func = Some h'"
    and "h' arg (F s) = map_option F (h arg s)"
  shows "syscall_dispatch dv' func arg (F s) = map_option F (syscall_dispatch dv func arg s)"
  using assms by (auto simp: syscall_dispatch_def)

text \<open>The handlers, when the policy denies their class.\<close>

lemma denied_cases:
  assumes "\<not> ax_policy (ax_current_domain s) c"
  obtains s1 where "ax_mac_check c s = (False, s1)" "ax_mac_check c (F s) = (False, F s1)"
  using mac_denied [OF assms] by (metis prod.collapse)

lemma disk_write_denied:
  assumes "\<not> ax_policy (ax_current_domain s) AX_CLASS_DISK_RAW"
  shows "sys_disk_write_sector arg (F s) = map_option F (sys_disk_write_sector arg s)"
  by (rule denied_cases [OF assms], cases "uread32 s (arg + 4)") (simp_all add: sys_disk_write_sector_def)

lemma disk_read_denied:
  assumes "\<not> ax_policy (ax_current_domain s) AX_CLASS_DISK_RAW"
  shows "sys_disk_read_sector arg (F s) = map_option F (sys_disk_read_sector arg s)"
  by (rule denied_cases [OF assms], cases "uread32 s (arg + 4)") (simp_all add: sys_disk_read_sector_def)

lemma identify_denied:
  assumes "\<not> ax_policy (ax_current_domain s) AX_CLASS_DISK_RAW"
  shows "sys_disk_identify dv' arg (F s) = map_option F (sys_disk_identify dv arg s)"
  by (rule denied_cases [OF assms], cases "uread32 s arg") (simp_all add: sys_disk_identify_def)

lemma pci_denied:
  assumes "\<not> ax_policy (ax_current_domain s) AX_CLASS_PCI_RAW"
  shows "sys_pci_get_device dv' arg (F s) = map_option F (sys_pci_get_device dv arg s)"
  by (rule denied_cases [OF assms]) (simp add: sys_pci_get_device_def)

lemma reboot_denied:
  assumes "\<not> ax_policy (ax_current_domain s) AX_CLASS_REBOOT"
  shows "sys_reboot arg (F s) = map_option F (sys_reboot arg s)"
  by (rule denied_cases [OF assms]) (simp add: sys_reboot_def)

lemma clipboard_denied:
  assumes "clipboard_level (F s) = clipboard_level s" "task_current_is_isolated s"
    "task_current_mls_level s < clipboard_level s"
  shows "sys_clipboard_get arg (F s) = map_option F (sys_clipboard_get arg s)"
proof -
  obtain s1 where "ax_mls_dominates (clipboard_level s) (str ''clipboard'') s = (False, s1)"
    "ax_mls_dominates (clipboard_level s) (str ''clipboard'') (F s) = (False, F s1)"
    using dominates_denied [OF assms(2,3), of "str ''clipboard''"] by (auto simp: prod_eq_iff)
  then show ?thesis using assms(1) by (simp add: sys_clipboard_get_def)
qed

end

text \<open>The volume with its disk, and the contents of the clipboard.\<close>

interpretation hv: hidden "\<lambda>s. s\<lparr>vol := v\<rparr>" for v
  by unfold_locales simp_all

interpretation hc: hidden "\<lambda>s. s\<lparr>clipboard_buf := b, clipboard_len := n\<rparr>" for b n
  by unfold_locales simp_all

text \<open>
  C30. Mandatory access control separates isolated programs from the raw hardware: their calls to
  identify, read or write the disk, to list PCI devices and to reboot neither depend on the volume,
  its disk and the devices nor change them; whatever these hold, the result is the same.
\<close>
theorem user_domain_confined:
  assumes "task_current_is_isolated s" "unat func \<in> {24, 25, 26, 28, 34}"
  shows "syscall_dispatch dv' func arg (s\<lparr>vol := v\<rparr>) = map_option (\<lambda>t. t\<lparr>vol := v\<rparr>) (syscall_dispatch dv func arg s)"
proof -
  have d: "\<not> ax_policy (ax_current_domain s) AX_CLASS_DISK_RAW" "\<not> ax_policy (ax_current_domain s) AX_CLASS_PCI_RAW"
    "\<not> ax_policy (ax_current_domain s) AX_CLASS_REBOOT"
    using assms(1) by (simp_all add: ax_current_domain_def)
  from assms(2) consider "unat func = 24" | "unat func = 25" | "unat func = 26" | "unat func = 28" | "unat func = 34"
    by auto
  then show ?thesis
  proof cases
    case 1
    then show ?thesis
      by (intro hv.dispatch [where h = "sys_disk_identify dv" and h' = "sys_disk_identify dv'"] hv.identify_denied [OF d(1)])
        (simp_all only: table_entries)
  next
    case 2
    then show ?thesis
      by (intro hv.dispatch [where h = "sys_disk_read_sector" and h' = "sys_disk_read_sector"] hv.disk_read_denied [OF d(1)])
        (simp_all only: table_entries)
  next
    case 3
    then show ?thesis
      by (intro hv.dispatch [where h = "sys_disk_write_sector" and h' = "sys_disk_write_sector"] hv.disk_write_denied [OF d(1)])
        (simp_all only: table_entries)
  next
    case 4
    then show ?thesis
      by (intro hv.dispatch [where h = "sys_reboot" and h' = "sys_reboot"] hv.reboot_denied [OF d(3)])
        (simp_all only: table_entries)
  next
    case 5
    then show ?thesis
      by (intro hv.dispatch [where h = "sys_pci_get_device dv" and h' = "sys_pci_get_device dv'"] hv.pci_denied [OF d(2)])
        (simp_all only: table_entries)
  qed
qed

theorem user_domain_confined_witness:
  "syscall_dispatch demo_devs 26 0x10E000 ((demo_win 0)\<lparr>vol := demo_fs\<lparr>fat12_ready := False\<rparr>\<rparr>) =
     map_option (\<lambda>t. t\<lparr>vol := demo_fs\<lparr>fat12_ready := False\<rparr>\<rparr>) (syscall_dispatch demo_devs 26 0x10E000 (demo_win 0))"
  by (rule user_domain_confined) (simp_all add: task_current_is_isolated_def cur_task_def)

text \<open>
  No read up: for an isolated program below the level of the clipboard, the call that reads the
  clipboard behaves the same whatever the clipboard holds, and leaves it as it is.
\<close>
theorem clipboard_no_read_up:
  assumes "task_current_is_isolated s" "task_current_mls_level s < clipboard_level s"
  shows "syscall_dispatch dv 32 arg (s\<lparr>clipboard_buf := b, clipboard_len := n\<rparr>) =
    map_option (\<lambda>t. t\<lparr>clipboard_buf := b, clipboard_len := n\<rparr>) (syscall_dispatch dv 32 arg s)"
  by (rule hc.dispatch [where h = sys_clipboard_get and h' = sys_clipboard_get], simp_all add: table_entries)
    (rule hc.clipboard_denied [OF _ assms], simp)

theorem clipboard_no_read_up_witness:
  "syscall_dispatch demo_devs 32 0x10E000 ((demo_win 0)\<lparr>clipboard_level := 3, clipboard_buf := (\<lambda>_. 1), clipboard_len := 9\<rparr>) =
     map_option (\<lambda>t. t\<lparr>clipboard_buf := (\<lambda>_. 1), clipboard_len := 9\<rparr>)
       (syscall_dispatch demo_devs 32 0x10E000 ((demo_win 0)\<lparr>clipboard_level := 3\<rparr>))"
  using clipboard_no_read_up [where s = "(demo_win 0)\<lparr>clipboard_level := 3\<rparr>" and dv = demo_devs and arg = "0x10E000" and
      b = "\<lambda>_. 1" and n = 9]
  by (simp add: task_current_is_isolated_def task_current_mls_level_def cur_task_def)

end
