(* ===== verification/KOps.thy ===== *)
theory KOps
  imports KDemo
begin

section \<open>Operations that keep the kernel invariant\<close>

text \<open>
  How \<open>kinv_at\<close> depends on the parts of the state: on the heap only through \<open>mem_inv\<close>, on the page
  tables through \<open>paging_ok\<close>, and not at all on the log, the clocks and the bookkeeping of the
  consoles. The second part models \<^verbatim>\<open>page_fault_handler_main\<close> (\<^verbatim>\<open>src/src/kernel/paging.c\<close>) and shows
  that a fault of a program ends this program and nothing else.
\<close>

abbreviation owners :: "kstate \<Rightarrow> nat list \<Rightarrow> owner set" where
  "owners s xs \<equiv> task_owners s xs \<union> slot_owners s \<union> fd_owners s"

lemma kinv_at_kmem:
  assumes "kinv_at s cur xs" "mem_inv (s\<lparr>kmem := h\<rparr>) (owners s xs)"
  shows "kinv_at (s\<lparr>kmem := h\<rparr>) cur xs"
  using assms
  by (simp add: kinv_at_def ring_inv_def files_inv_def free_inv_def slot_ok_def task_ok_def
      task_owners_def slot_owners_def fd_owners_def Let_def)

lemma kinv_at_log: "kinv_at s cur xs \<Longrightarrow> kinv_at (kputs l s) cur xs"
proof -
  assume k: "kinv_at s cur xs"
  have B: "blk (kputs l s) b = blk s b" for b by (cases b) (auto simp: kputs_def)
  have "mem_inv (kputs l s) (owners s xs)"
    by (rule mem_inv_cong [of s]) (use k B in \<open>auto simp: kinv_at_def kputs_def\<close>)
  then show ?thesis using k
    by (simp add: kputs_def kinv_at_def ring_inv_def files_inv_def free_inv_def slot_ok_def task_ok_def
        task_owners_def slot_owners_def fd_owners_def Let_def)
qed

lemma kinv_at_pgt:
  "kinv_at s cur xs \<Longrightarrow> paging_ok p \<Longrightarrow> kinv_at (s\<lparr>pgt := p, next_id := i, aslr_prng_state := z\<rparr>) cur xs"
proof -
  let ?s = "s\<lparr>pgt := p, next_id := i, aslr_prng_state := z\<rparr>"
  assume k: "kinv_at s cur xs" and p: "paging_ok p"
  have B: "blk ?s b = blk s b" for b by (cases b) auto
  have "mem_inv ?s (owners s xs)"
    by (rule mem_inv_cong [of s]) (use k B in \<open>auto simp: kinv_at_def\<close>)
  then show ?thesis using k p
    by (simp add: kinv_at_def ring_inv_def files_inv_def free_inv_def slot_ok_def task_ok_def
        task_owners_def slot_owners_def fd_owners_def Let_def)
qed

lemma kinv_at_poke_low:
  assumes "kinv_at s cur xs" "a + length bs \<le> 0x600000"
  shows "kinv_at (poke a bs s) cur xs"
  using kinv_at_kmem [OF assms(1)] poke_low [of s "owners s xs" a bs] assms by (simp add: kinv_at_def poke_def)

lemma kinv_at_poke:
  assumes "kinv_at s cur xs" "b \<in> owners s xs" "off + length bs \<le> need b"
  shows "kinv_at (poke (blk s b + off) bs s) cur xs"
  using kinv_at_kmem [OF assms(1)] poke_owned [of s "owners s xs" b off bs] assms by (simp add: kinv_at_def poke_def)

text \<open>A store into the kernel stack of a task other than \<open>task0\<close>.\<close>

lemma kinv_at_poke_stack:
  assumes k: "kinv_at s cur xs" and c: "c \<in> set xs" "c \<noteq> task0_at s" "tasks s c = Some t"
    and a: "kernel_stack_top t - KSTACK_SIZE \<le> a" "a + length bs \<le> kernel_stack_top t"
  shows "kinv_at (poke a bs s) cur xs"
proof -
  have o: "StackBlk c \<in> owners s xs" using c by (auto simp: task_owners_def)
  have b: "blk s (StackBlk c) = kernel_stack_top t - KSTACK_SIZE" using c(3) by simp
  have "blk s (StackBlk c) + (a - blk s (StackBlk c)) = a" "a - blk s (StackBlk c) + length bs \<le> need (StackBlk c)"
    using a b by auto
  then show ?thesis using kinv_at_poke [OF k o] by metis
qed

lemma isolated_not_task0:
  assumes "kinv_at s cur xs" "tasks s c = Some t" "0 \<le> user_slot_index t"
  shows "c \<noteq> task0_at s"
  using assms by (auto simp: kinv_at_def ring_inv_def Let_def)

lemma kinv_at_task:
  assumes k: "kinv_at s cur xs" and c: "tasks s c = Some t" "c \<noteq> task0_at s" "task_like t t'"
  shows "kinv_at (s\<lparr>tasks := (tasks s)(c \<mapsto> t')\<rparr>) cur xs"
proof (rule kinv_at_tasks [OF k])
  show "\<exists>v. ((tasks s)(c \<mapsto> t')) x = Some v \<and> task_like (the (tasks s x)) v" if "x \<in> set xs" for x
    by (rule kinv_at_ring [OF k that]) (use c in \<open>auto simp: task_like_def task_ok_def\<close>)
qed (use k c(2) in \<open>auto simp: kinv_at_def ring_inv_def Let_def\<close>)

subsection \<open>Page faults\<close>

abbreviation USER_SPIN_ADDR :: nat where "USER_SPIN_ADDR \<equiv> USER_WINDOW_BASE + USER_WINDOW_SIZE - 2"
abbreviation PF_FRAME_ERR :: nat where "PF_FRAME_ERR \<equiv> 15"
abbreviation PF_FRAME_RIP :: nat where "PF_FRAME_RIP \<equiv> 16"
abbreviation PF_FRAME_CS :: nat where "PF_FRAME_CS \<equiv> 17"

definition frame_word :: "kstate \<Rightarrow> nat \<Rightarrow> nat \<Rightarrow> u64" where
  "frame_word s r i = le_word (mem_read (ram s) (r + 8 * i) 8)"

text \<open>A fault in ring 3 kills the program: its frame returns to the endless loop at the end of the
  window, until the next tick reaps it. Any other fault halts the machine.\<close>

definition page_fault_handler_main :: "nat \<Rightarrow> nat \<Rightarrow> kstate \<Rightarrow> kstate option" where
  "page_fault_handler_main faulting_address r s =
     (if frame_word s r PF_FRAME_CS AND 3 = 3 \<and> task_current_is_isolated s
      then let err = frame_word s r PF_FRAME_ERR;
               s1 = kputs ([0x0A] @ yellow @ str ''*** PAGE FAULT in '' @ [0x27] @ task_current_name s @ [0x27] @
                      str '' at 0x'' @ hex32 faulting_address @
                      (if bit err 4 then str '' [NX execute violation]''
                       else if bit err 1 then str '' [W^X write violation]'' else []) @
                      str '' - task killed ***'' @ normal @ [0x0A]) s;
               s2 = task_mark_current_exiting (task_set_current_exit_code (-1) s1)
           in Some (poke (r + 8 * PF_FRAME_RIP) (le_bytes 8 (word_of_nat USER_SPIN_ADDR :: u64)) s2)
      else None)"

text \<open>
  A page fault of a program is confined to it: the kernel stays in order, the task is marked
  for its end with exit code -1 and resumes at the spin address, every other task is untouched.
\<close>
theorem page_fault_confined:
  assumes "kinv s" "cur_task s = Some t" "0 \<le> user_slot_index t" "frame_word s r PF_FRAME_CS AND 3 = 3"
    and "kernel_stack_top t - KSTACK_SIZE \<le> r" "r + 168 \<le> kernel_stack_top t"
  shows "\<exists>s'. page_fault_handler_main a r s = Some s' \<and> kinv s' \<and>
    tasks s' = (tasks s)(current_task s \<mapsto> t\<lparr>exit_code := -1, exiting := True\<rparr>) \<and>
    frame_word s' r PF_FRAME_RIP = word_of_nat USER_SPIN_ADDR"
proof -
  let ?c = "current_task s"
  obtain xs where k: "kinv_at s ?c xs" using assms(1) by (auto simp: kinv_def)
  have t: "tasks s ?c = Some t" "?c \<noteq> 0" using assms(2) by (auto simp: cur_task_def split: if_splits)
  have c: "?c \<in> set xs" using kinv_current [OF k] by blast
  have z: "?c \<noteq> task0_at s" by (rule isolated_not_task0 [OF k t(1) assms(3)])
  obtain l where l: "page_fault_handler_main a r s = Some (poke (r + 128) (le_bytes 8 (word_of_nat USER_SPIN_ADDR :: u64))
      ((kputs l s)\<lparr>tasks := (tasks s)(?c \<mapsto> t\<lparr>exit_code := -1, exiting := True\<rparr>)\<rparr>))"
    using assms(2-4) t by (auto simp: page_fault_handler_main_def task_current_is_isolated_def Let_def
        task_mark_current_exiting_def task_set_current_exit_code_def cur_update_def cur_task_def kputs_def)
  let ?t = "t\<lparr>exit_code := -1, exiting := True\<rparr>"
  let ?s = "(kputs l s)\<lparr>tasks := (tasks s)(?c \<mapsto> ?t)\<rparr>"
  have "task_like t ?t" 
    by (rule kinv_at_ring [OF k c]) (use t in \<open>auto simp: task_like_def task_ok_def\<close>)
  then have k1: "kinv_at ?s ?c xs"
    using kinv_at_task [OF kinv_at_log [OF k, of l], where c = ?c and t = t and t' = ?t] t z by (simp add: kputs_def)
  have "kinv_at (poke (r + 128) (le_bytes 8 (word_of_nat USER_SPIN_ADDR :: u64)) ?s) ?c xs"
    by (rule kinv_at_poke_stack [OF k1 c, where t = ?t]) (use z assms(5,6) in \<open>simp_all add: kputs_def\<close>)
  then show ?thesis
    using l t(2) by (auto simp: kinv_def poke_def kputs_def frame_word_def mem_simps le_word_le_bytes)
qed

definition demo_fault :: kstate where
  "demo_fault = poke (demo_kstack + 4064) (le_bytes 8 (0x23 :: u64)) (demo_k False)"

theorem page_fault_confined_witness:
  "\<exists>s'. page_fault_handler_main 0xDEAD0000 (demo_kstack + 3928) demo_fault = Some s' \<and> kinv s' \<and>
     frame_word s' (demo_kstack + 3928) PF_FRAME_RIP = 0x10FFFE"
proof -
  have c: "current_task demo_fault = 0x600030" "tasks demo_fault = tasks (demo_k False)"
    by (simp_all add: demo_fault_def poke_def)
  have "kinv_at demo_fault 0x600030 [0x600030, 0x8000]"
    unfolding demo_fault_def
    by (rule kinv_at_poke_stack [OF demo_kinv, where c = "0x600030" and t = "demo_user False"])
      (simp_all add: demo_user_def fresh_task_def)
  then have k: "kinv demo_fault" using c by (auto simp: kinv_def)
  have "mem_read (ram demo_fault) (demo_kstack + 4064) 8 = le_bytes 8 (0x23 :: u64)"
    by (simp add: demo_fault_def poke_def mem_simps)
  then have w: "frame_word demo_fault (demo_kstack + 3928) PF_FRAME_CS = 0x23"
    by (simp add: frame_word_def le_word_le_bytes add.commute)
  have "\<exists>s'. page_fault_handler_main 0xDEAD0000 (demo_kstack + 3928) demo_fault = Some s' \<and> kinv s' \<and>
    tasks s' = (tasks demo_fault)(current_task demo_fault \<mapsto> (demo_user False)\<lparr>exit_code := -1, exiting := True\<rparr>) \<and>
    frame_word s' (demo_kstack + 3928) PF_FRAME_RIP = word_of_nat USER_SPIN_ADDR"
    by (rule page_fault_confined [OF k]) (use w in \<open>simp_all add: c cur_task_def demo_user_def fresh_task_def\<close>)
  then show ?thesis by auto
qed

end
