(* ===== verification/KFork.thy ===== *)
theory KFork
  imports KOps
begin

section \<open>Fork\<close>

text \<open>
  \<open>sys_fork_impl\<close> keeps the kernel invariant and makes an exact copy: the child's slot holds the
  parent's memory, its kernel stack the parent's frame with RAX cleared. \<open>shape h h'\<close> says that the
  heap \<open>h'\<close> still has every block of \<open>h\<close> at its size, which is all the invariant asks of a step that
  allocates or stores.
\<close>

definition shape :: "kheap \<Rightarrow> kheap \<Rightarrow> bool" where
  "shape h h' \<longleftrightarrow>
     kh_inv h' \<and> heap_base h' = heap_base h \<and> kh_live h \<subseteq> kh_live h' \<and>
     (\<forall>q\<in>kh_live h. kh_usable h' q = kh_usable h q)"

lemma shape_refl: "kh_inv h \<Longrightarrow> shape h h"
  by (simp add: shape_def)

lemma shape_trans: "shape h h' \<Longrightarrow> shape h' h'' \<Longrightarrow> shape h h''"
  by (auto simp: shape_def)

lemma kinv_at_kh: "kinv_at s c xs \<Longrightarrow> kh_inv (kmem s) \<and> 0x600000 \<le> heap_base (kmem s)"
  by (simp add: kinv_at_def mem_inv_def)

lemma kinv_at_shape:
  assumes "kinv_at s c xs" "shape (kmem s) h"
  shows "kinv_at (s\<lparr>kmem := h\<rparr>) c xs"
  by (rule kinv_at_kmem [OF assms(1)]) (use assms in \<open>auto simp: kinv_at_def mem_inv_def shape_def\<close>)

text \<open>Bytes that a step leaves alone: those of the old blocks and those below the arena.\<close>

definition keeps :: "kheap \<Rightarrow> kheap \<Rightarrow> bool" where
  "keeps h h' \<longleftrightarrow>
     shape h h' \<and> (\<forall>x < heap_base h. bytes h' x = bytes h x) \<and>
     (\<forall>q\<in>kh_live h. \<forall>i < kh_usable h q. bytes h' (q + i) = bytes h (q + i))"

lemma keepsD:
  assumes "keeps h h'"
  shows "shape h h'" "x < heap_base h \<Longrightarrow> bytes h' x = bytes h x"
    "q \<in> kh_live h \<Longrightarrow> i < kh_usable h q \<Longrightarrow> bytes h' (q + i) = bytes h (q + i)"
  using assms by (simp_all add: keeps_def)

lemma shapeD:
  assumes "shape h h'"
  shows "kh_inv h'" "heap_base h' = heap_base h" "q \<in> kh_live h \<Longrightarrow> q \<in> kh_live h'"
    "q \<in> kh_live h \<Longrightarrow> kh_usable h' q = kh_usable h q"
  using assms by (auto simp: shape_def)

lemma keeps_trans:
  assumes "keeps h h'" "keeps h' h''"
  shows "keeps h h''"
  unfolding keeps_def
proof (intro conjI allI ballI impI)
  note s = keepsD(1) [OF assms(1)] and s' = keepsD(1) [OF assms(2)]
  show "shape h h''" by (rule shape_trans [OF s s'])
  show "bytes h'' x = bytes h x" if "x < heap_base h" for x
    using keepsD(2) [OF assms(1) that] keepsD(2) [OF assms(2), of x] that shapeD(2) [OF s] by simp
  show "bytes h'' (q + i) = bytes h (q + i)" if "q \<in> kh_live h" "i < kh_usable h q" for q i
    using keepsD(3) [OF assms(1) that] keepsD(3) [OF assms(2) shapeD(3) [OF s that(1)], of i] that(2)
      shapeD(4) [OF s that(1)] by simp
qed

lemma keeps_malloc:
  assumes k: "kh_inv (kmem s)" and n: "n \<le> 4294967264"
  shows "\<exists>p h. k_malloc n s = Some (p, s\<lparr>kmem := h\<rparr>) \<and> keeps (kmem s) h \<and>
    (p \<noteq> 0 \<longrightarrow> p \<notin> kh_live (kmem s) \<and> p \<in> kh_live h \<and> n \<le> kh_usable h p)"
proof -
  from kh.alloc_returns [OF k n] obtain p h where a: "kmalloc n (kmem s) = Some (p, h)" by blast
  have "keeps (kmem s) h"
    using kh.alloc_inv [OF k n a] ks.low_alloc [OF k n a] kh.live_mono [OF k n a] ks.alloc_frame [OF k n a]
    by (auto simp: keeps_def shape_def)
  moreover have "p \<noteq> 0 \<longrightarrow> p \<notin> kh_live (kmem s) \<and> p \<in> kh_live h \<and> n \<le> kh_usable h p"
    using kh.alloc_fresh [OF k n a] ks.alloc_usable [OF k n a] by auto
  ultimately show ?thesis using a by (auto simp: k_malloc_def)
qed

text \<open>Giving a block back that was allocated in between.\<close>

lemma keeps_free:
  assumes "keeps (kmem s) h" "p \<in> kh_live h" "p \<notin> kh_live (kmem s)"
  shows "\<exists>h'. k_free p (s\<lparr>kmem := h\<rparr>) = Some (s\<lparr>kmem := h'\<rparr>) \<and> keeps (kmem s) h'"
proof -
  have i: "kh_inv h" using assms(1) by (simp add: keeps_def shape_def)
  from kh.dealloc_live [OF i assms(2)] obtain h' where
    h': "kfree p h = Some (Inr h')" "kh_inv h'" "kh_live h' = kh_live h - {p}" by blast
  note s = keepsD(1) [OF assms(1)]
  have q: "q \<in> kh_live h - {p}" if "q \<in> kh_live (kmem s)" for q
    using shapeD(3) [OF s that] assms(3) that by auto
  note low = ks.low_dealloc [OF i assms(2) h'(1)] and fr = ks.dealloc_frame [OF i assms(2) h'(1) q]
  have "shape (kmem s) h'"
    unfolding shape_def using h'(2,3) low shapeD(2) [OF s] q fr shapeD(4) [OF s] by auto
  moreover have "bytes h' x = bytes (kmem s) x" if "x < heap_base (kmem s)" for x
    using low keepsD(2) [OF assms(1) that] that shapeD(2) [OF s] by simp
  moreover have "bytes h' (r + j) = bytes (kmem s) (r + j)" if "r \<in> kh_live (kmem s)" "j < kh_usable (kmem s) r" for r j
    using fr [OF that(1)] keepsD(3) [OF assms(1) that] that(2) shapeD(4) [OF s that(1)] by simp
  ultimately have "keeps (kmem s) h'" by (simp add: keeps_def)
  then show ?thesis using h'(1) by (auto simp: k_free_def)
qed

lemma shape_store:
  assumes "kh_inv h" "p \<in> kh_live h" "off + length bs \<le> kh_usable h p"
  shows "shape h (kh_store (p + off) bs h)"
  using ks.store_inside [OF assms] by (simp add: shape_def)

lemma shape_store_low:
  assumes "kh_inv h" "a + length bs \<le> heap_base h"
  shows "shape h (kh_store a bs h)"
  using ks.store_below [OF assms] by (simp add: shape_def)

subsection \<open>A new member of the ring\<close>

lemma live_not_static:
  assumes "shape (kmem s) h" "kinv_at s c xs" "a \<in> kh_live h" "a \<notin> kh_live (kmem s)" "task0_at s < 0x600000"
  shows "a \<notin> set xs" "a \<noteq> 0"
proof -
  have l: "heap_base h \<le> a \<and> a \<noteq> 0" by (rule ks.live_low [OF shapeD(1) [OF assms(1)] assms(3)])
  then show "a \<noteq> 0" by simp
  have "a \<noteq> task0_at s" using l shapeD(2) [OF assms(1)] kinv_at_kh [OF assms(2)] assms(5) by simp
  moreover have "x \<in> kh_live (kmem s)" if "x \<in> set xs" "x \<noteq> task0_at s" for x
  proof -
    have "TaskBlk x \<in> owners s xs" using that by (auto simp: task_owners_def)
    then have "blk s (TaskBlk x) \<in> kh_live (kmem s)" using assms(2) unfolding kinv_at_def mem_inv_def by blast
    then show ?thesis by simp
  qed
  ultimately show "a \<notin> set xs" using assms(4) by blast
qed

text \<open>The state after a task \<open>u\<close> for slot \<open>i\<close> was created and linked behind the current one.\<close>

definition linked :: "nat \<Rightarrow> task \<Rightarrow> nat \<Rightarrow> task \<Rightarrow> nat \<Rightarrow> kheap \<Rightarrow> kstate \<Rightarrow> kstate" where
  "linked a u c t i h s =
     s\<lparr>kmem := h, tasks := (tasks s)(a \<mapsto> u\<lparr>tnext := tnext t\<rparr>, c \<mapsto> t\<lparr>tnext := a\<rparr>),
       slot_free := (slot_free s)(i := False)\<rparr>"

lemma linked_ok:
  assumes k: "kinv_at s c (c # ys)" and t: "tasks s c = Some t" and h: "shape (kmem s) h"
    and a: "a \<in> kh_live h" "a \<notin> kh_live (kmem s)" "SIZEOF_TASK \<le> kh_usable h a"
    and kst: "kst \<in> kh_live h" "kst \<notin> kh_live (kmem s)" "KSTACK_SIZE \<le> kh_usable h kst" "a \<noteq> kst"
    and u: "kernel_stack_top u = kst + KSTACK_SIZE" "user_slot_index u = int i" "i < USER_PROGRAM_SLOTS"
      "PRIORITY_MIN \<le> priority u" "priority u \<le> PRIORITY_MAX" "mls_level u \<le> MLS_LEVEL_MAX"
    and f: "slot_free s i" and z: "task0_at s < 0x600000"
  shows "kinv_at (linked a u c t i h s) c (c # a # ys)"
proof -
  let ?s = "linked a u c t i h s"
  have new: "a \<notin> set (c # ys)" "a \<noteq> 0" using live_not_static [OF h k a(1,2) z] by simp_all
  have r: "ring_inv s c (c # ys)" using k by (simp add: kinv_at_def)
  have sel [simp]: "kmem ?s = h" "task0_at ?s = task0_at s" "slot_redir_buf ?s = slot_redir_buf s"
    "slot_redir_pipe ?s = slot_redir_pipe s" "slot_redir_len ?s = slot_redir_len s" "fd_table ?s = fd_table s"
    "vol ?s = vol s" "pgt ?s = pgt s" "slot_free ?s = (slot_free s)(i := False)"
    "tasks ?s = (tasks s)(a \<mapsto> u\<lparr>tnext := tnext t\<rparr>, c \<mapsto> t\<lparr>tnext := a\<rparr>)"
    by (simp_all add: linked_def)
  have ring: "ring tnext (tasks ?s) c (c # a # ys)"
    by (rule ring_insert_after [where n = t and nb = "u\<lparr>tnext := tnext t\<rparr>" and na = "t\<lparr>tnext := a\<rparr>"])
      (use r t new in \<open>auto simp: ring_inv_def\<close>)
  have old: "the (tasks ?s x) = (if x = c then t\<lparr>tnext := a\<rparr> else the (tasks s x))" if "x \<in> set (c # ys)" for x
    using that new by auto
  have free: "user_slot_index (the (tasks s x)) \<noteq> int i" if "x \<in> set (c # ys)" for x
    using r that f unfolding ring_inv_def task_ok_def by fastforce
  have slot: "user_slot_index (the (tasks ?s x)) = (if x = a then int i else user_slot_index (the (tasks s x)))"
    if "x \<in> set (c # a # ys)" for x
    using that new t u(2) by auto
  have tok: "task_ok ?s (the (tasks ?s x))" if x: "x \<in> set (c # a # ys)" for x
  proof (cases "x = a")
    case True
    then show ?thesis using u new by (simp add: task_ok_def)
  next
    case False
    then have x': "x \<in> set (c # ys)" using x by auto
    then have "task_ok s (the (tasks s x))" using r by (auto simp: ring_inv_def)
    then show ?thesis using old [OF x'] t by (auto simp: task_ok_def)
  qed
  have uniq: "p = q" if pq: "p \<in> set (c # a # ys)" "q \<in> set (c # a # ys)" "0 \<le> user_slot_index (the (tasks ?s p))"
    "user_slot_index (the (tasks ?s p)) = user_slot_index (the (tasks ?s q))" for p q
  proof -
    note sl = slot [OF pq(1)] slot [OF pq(2)]
    consider "p = a" "q = a" | "p = a" "q \<in> set (c # ys)" "q \<noteq> a" | "q = a" "p \<in> set (c # ys)" "p \<noteq> a"
      | "p \<in> set (c # ys)" "q \<in> set (c # ys)" "p \<noteq> a" "q \<noteq> a"
      using pq(1,2) new(1) by auto
    then show ?thesis
    proof cases
      case 4
      then have "0 \<le> user_slot_index (the (tasks s p))" "user_slot_index (the (tasks s p)) = user_slot_index (the (tasks s q))"
        using pq(3,4) unfolding sl by (simp_all only: if_False)
      then show ?thesis using r 4(1,2) unfolding ring_inv_def by blast
    next
      case 2
      then show ?thesis using pq(4) free [OF 2(2)] unfolding sl by simp
    next
      case 3
      then show ?thesis using pq(4) free [OF 3(2)] unfolding sl by simp
    qed simp
  qed
  have z0: "task0_at s \<in> set (c # ys)" using r by (simp add: ring_inv_def)
  have "user_slot_index (the (tasks s (task0_at s))) = -1 \<and> \<not> exiting (the (tasks s (task0_at s))) \<and>
      \<not> blocked (the (tasks s (task0_at s)))"
    using r by (simp add: ring_inv_def Let_def)
  then have z1: "user_slot_index (the (tasks ?s (task0_at s))) = -1 \<and> \<not> exiting (the (tasks ?s (task0_at s))) \<and>
      \<not> blocked (the (tasks ?s (task0_at s)))"
    using t unfolding old [OF z0] by (auto simp: blocked_def)
  have "ring_inv ?s c (c # a # ys)"
    unfolding ring_inv_def Let_def sel(2)
  proof (intro conjI ballI impI)
    show "task0_at s \<in> set (c # a # ys)" using z0 by auto
  qed (use ring tok uniq z1 in blast)+
  moreover have "files_inv ?s" "free_inv ?s" "paging_ok (pgt ?s)"
    using k by (auto simp: kinv_at_def files_inv_def free_inv_def slot_ok_def)
  moreover have "mem_inv ?s (owners ?s (c # a # ys))"
  proof -
    let ?O = "owners s (c # ys)"
    have o: "owners ?s (c # a # ys) = insert (TaskBlk a) (insert (StackBlk a) ?O)"
      using new z kinv_at_kh [OF k] ks.live_low [OF shapeD(1) [OF h] a(1)] shapeD(2) [OF h]
      by (auto simp: task_owners_def slot_owners_def fd_owners_def)
    have b: "blk ?s x = blk s x" if "x \<in> ?O" for x
      using that new t by (cases x) (auto simp: task_owners_def slot_owners_def fd_owners_def)
    have live: "blk s x \<in> kh_live (kmem s)" "need x \<le> kh_usable (kmem s) (blk s x)" if "x \<in> ?O" for x
      using k that unfolding kinv_at_def mem_inv_def by blast+
    have ac: "a \<noteq> c" using new by simp
    have m0: "mem_inv ?s ?O"
      unfolding mem_inv_def
    proof (intro conjI ballI)
      show "inj_on (blk ?s) ?O" using k b unfolding kinv_at_def mem_inv_def by (meson inj_on_cong)
      show "blk ?s x \<in> kh_live (kmem ?s)" "need x \<le> kh_usable (kmem ?s) (blk ?s x)" if "x \<in> ?O" for x
        using live [OF that] b [OF that] shapeD(3,4) [OF h] by auto
    qed (use shapeD [OF h] kinv_at_kh [OF k] in simp_all)
    have m1: "mem_inv ?s (insert (StackBlk a) ?O)"
    proof (rule mem_inv_insert [OF m0])
      show "blk ?s (StackBlk a) \<notin> blk ?s ` ?O" using live(1) b kst(2) u(1) ac by force
    qed (use kst u(1) ac in simp_all)
    show ?thesis
      unfolding o
    proof (rule mem_inv_insert [OF m1])
      have "a \<noteq> blk ?s x" if "x \<in> ?O" for x using live(1) [OF that] b [OF that] a(2) by auto
      moreover have "a \<noteq> blk ?s (StackBlk a)" using kst(4) u(1) ac by simp
      ultimately show "blk ?s (TaskBlk a) \<notin> blk ?s ` insert (StackBlk a) ?O" by auto
    qed (use a in simp_all)
  qed
  ultimately show ?thesis by (simp add: kinv_at_def)
qed

subsection \<open>The child task\<close>

lemma keeps_store_fresh:
  assumes "keeps h0 h" "p \<in> kh_live h" "p \<notin> kh_live h0" "off + length bs \<le> kh_usable h p"
  shows "keeps h0 (kh_store (p + off) bs h)"
proof -
  note s = keepsD(1) [OF assms(1)] and i = shapeD(1) [OF keepsD(1) [OF assms(1)]]
  have "shape h0 (kh_store (p + off) bs h)"
    by (rule shape_trans [OF s shape_store [OF i assms(2,4)]])
  moreover have "bytes (kh_store (p + off) bs h) x = bytes h0 x" if "x < heap_base h0" for x
    using keepsD(2) [OF assms(1) that] ks.live_low [OF i assms(2)] shapeD(2) [OF s] that by (simp add: mem_write_def)
  moreover have "bytes (kh_store (p + off) bs h) (q + j) = bytes h0 (q + j)" if "q \<in> kh_live h0" "j < kh_usable h0 q" for q j
  proof -
    have "p \<noteq> q" using assms(3) that(1) by auto
    then have "bytes (kh_store (p + off) bs h) (q + j) = bytes h (q + j)"
      using ks.store_other [OF i assms(2) shapeD(3) [OF s that(1)] _ assms(4)] shapeD(4) [OF s that(1)] that(2) by simp
    then show ?thesis using keepsD(3) [OF assms(1) that] by simp
  qed
  ultimately show ?thesis by (simp add: keeps_def)
qed

lemma create_paging_ok: "paging_ok p \<Longrightarrow> paging_create_user_directory i b d w p = (dir, p') \<Longrightarrow> paging_ok p'"
  by (auto simp: paging_create_user_directory_def Let_def paging_ok_def)

text \<open>What a block held before it holds after: reading through \<open>keeps\<close>.\<close>

lemma keeps_read:
  assumes "keeps h h'" "q \<in> kh_live h" "q \<le> r" "r + n \<le> q + kh_usable h q"
  shows "mem_read (bytes h') r n = mem_read (bytes h) r n"
proof (rule mem_read_eqI)
  fix i assume "i < n"
  then have "bytes h' (q + (r - q + i)) = bytes h (q + (r - q + i))"
    using assms(3,4) by (intro keepsD(3) [OF assms(1,2)]) simp
  moreover have "q + (r - q + i) = r + i" using assms(3) by simp
  ultimately show "bytes h' (r + i) = bytes h (r + i)" by simp
qed

definition child_frame :: "kstate \<Rightarrow> nat \<Rightarrow> u8 list" where
  "child_frame s r = replicate 8 0 @ drop 8 (mem_read (ram s) r 160)"

text \<open>\<open>forked s r i c t h a u\<close>: the heap \<open>h\<close> and the child \<open>u\<close> at \<open>a\<close> after the fork of \<open>t\<close>.\<close>

definition forked :: "kstate \<Rightarrow> nat \<Rightarrow> nat \<Rightarrow> task \<Rightarrow> kheap \<Rightarrow> nat \<Rightarrow> task \<Rightarrow> bool" where
  "forked s r i t h a u \<longleftrightarrow>
     shape (kmem s) h \<and>
     (\<forall>x < heap_base (kmem s). x \<noteq> slot_base i + 65534 \<and> x \<noteq> slot_base i + 65535 \<longrightarrow> bytes h x = ram s x) \<and>
     (\<forall>q\<in>kh_live (kmem s). \<forall>j < kh_usable (kmem s) q. bytes h (q + j) = ram s (q + j)) \<and>
     a \<in> kh_live h \<and> a \<notin> kh_live (kmem s) \<and> SIZEOF_TASK \<le> kh_usable h a \<and>
     (\<exists>kst. kst \<in> kh_live h \<and> kst \<notin> kh_live (kmem s) \<and> KSTACK_SIZE \<le> kh_usable h kst \<and> a \<noteq> kst \<and>
        kernel_stack_top u = kst + KSTACK_SIZE \<and> rsp u = kst + 3936 \<and>
        mem_read (bytes h) (kst + 3936) 160 = child_frame s r) \<and>
     user_slot_index u = int i \<and> tid u = next_id s \<and> mls_level u = mls_level t \<and>
     syscall_mask u = syscall_mask t \<and> priority u = priority t \<and> slice_left u = priority t \<and> \<not> exiting u"

lemma write_spin_forked:
  assumes "forked s r i t h a u" "i < USER_PROGRAM_SLOTS" "0x600000 \<le> heap_base (kmem s)"
  shows "forked s r i t (kh_store (slot_base i + 65534) [0xEB, 0xFE] h) a u"
proof -
  let ?h = "kh_store (slot_base i + 65534) [0xEB, 0xFE] h"
  have sh: "shape (kmem s) h" using assms(1) by (simp add: forked_def)
  have low: "slot_base i + 65534 + length [0xEB, 0xFE :: u8] \<le> heap_base h"
    using assms(2,3) shapeD(2) [OF sh] by (simp add: slot_base_def)
  have s': "shape h ?h" by (rule shape_store_low [OF shapeD(1) [OF sh] low])
  have keep: "bytes ?h (q + j) = bytes h (q + j)" if "q \<in> kh_live h" "j < kh_usable h q" for q j
    by (rule ks.store_below_block [OF shapeD(1) [OF sh] that(1) low that(2)])
  obtain kst where kst: "kst \<in> kh_live h" "kst \<notin> kh_live (kmem s)" "KSTACK_SIZE \<le> kh_usable h kst" "a \<noteq> kst"
    "kernel_stack_top u = kst + KSTACK_SIZE" "rsp u = kst + 3936" "mem_read (bytes h) (kst + 3936) 160 = child_frame s r"
    using assms(1) by (auto simp: forked_def)
  have "mem_read (bytes ?h) (kst + 3936) 160 = mem_read (bytes h) (kst + 3936) 160"
  proof (rule mem_read_eqI)
    fix j assume "j < (160 :: nat)"
    then show "bytes ?h (kst + 3936 + j) = bytes h (kst + 3936 + j)"
      using keep [OF kst(1), of "3936 + j"] kst(3) by (simp add: add.assoc)
  qed
  then have e: "\<exists>kst. kst \<in> kh_live ?h \<and> kst \<notin> kh_live (kmem s) \<and> KSTACK_SIZE \<le> kh_usable ?h kst \<and> a \<noteq> kst \<and>
      kernel_stack_top u = kst + KSTACK_SIZE \<and> rsp u = kst + 3936 \<and> mem_read (bytes ?h) (kst + 3936) 160 = child_frame s r"
    using kst shapeD(3,4) [OF s'] by (intro exI [of _ kst]) simp
  have b: "bytes ?h x = bytes h x" if "x \<noteq> slot_base i + 65534" "x \<noteq> slot_base i + 65535" for x
    using that by (auto simp: mem_write_def)
  have o: "bytes ?h (q + j) = ram s (q + j)" if "q \<in> kh_live (kmem s)" "j < kh_usable (kmem s) q" for q j
    using keep [OF shapeD(3) [OF sh that(1)], of j] shapeD(4) [OF sh that(1)] that assms(1) by (simp add: forked_def)
  show ?thesis
    using assms(1) shape_trans [OF sh s'] e b o shapeD(3,4) [OF s'] unfolding forked_def by (simp del: kh_store_simps)
qed


lemma keeps_refl: "kh_inv h \<Longrightarrow> keeps h h"
  by (simp add: keeps_def shape_refl)

text \<open>The outcome of \<open>task_fork_current\<close>: nothing but a changed free list, or a linked child.\<close>

definition fork_failed :: "kstate \<Rightarrow> kstate \<Rightarrow> bool" where
  "fork_failed s s' \<longleftrightarrow> (\<exists>h. s' = s\<lparr>kmem := h\<rparr> \<and> keeps (kmem s) h)"

definition fork_linked :: "nat \<Rightarrow> nat \<Rightarrow> task \<Rightarrow> kstate \<Rightarrow> kstate \<Rightarrow> nat \<Rightarrow> task \<Rightarrow> bool" where
  "fork_linked r i t s s' a u \<longleftrightarrow>
     (\<exists>h p. s' = s\<lparr>next_id := next_id s + 1, pgt := p, kmem := h,
                   tasks := (tasks s)(a \<mapsto> u\<lparr>tnext := tnext t\<rparr>, current_task s \<mapsto> t\<lparr>tnext := a\<rparr>)\<rparr> \<and>
            paging_ok p \<and> forked s r i t h a u)"

lemma fresh_task_fields [simp]:
  "rsp (fresh_task sp kst dir i nm slot) = sp" "kernel_stack_top (fresh_task sp kst dir i nm slot) = kst"
  "tid (fresh_task sp kst dir i nm slot) = i" "user_slot_index (fresh_task sp kst dir i nm slot) = slot"
  "exiting (fresh_task sp kst dir i nm slot) = False" "exit_code (fresh_task sp kst dir i nm slot) = 0"
  by (simp_all add: fresh_task_def)

lemma forked_intro:
  assumes h: "keeps (kmem s) h" and a: "a \<in> kh_live h" "a \<notin> kh_live (kmem s)" "SIZEOF_TASK \<le> kh_usable h a"
    and kst: "kst \<in> kh_live h" "kst \<notin> kh_live (kmem s)" "KSTACK_SIZE \<le> kh_usable h kst" "a \<noteq> kst"
    and u: "kernel_stack_top u = kst + KSTACK_SIZE" "rsp u = kst + 3936" "user_slot_index u = int i"
      "tid u = next_id s" "mls_level u = mls_level t" "syscall_mask u = syscall_mask t" "priority u = priority t"
      "slice_left u = priority t" "\<not> exiting u"
  shows "forked s r i t (kh_store (kst + 3936) (child_frame s r) h) a u"
proof -
  let ?h = "kh_store (kst + 3936) (child_frame s r) h"
  have l: "length (child_frame s r) = 160" by (simp add: child_frame_def)
  have b: "3936 + length (child_frame s r) \<le> kh_usable h kst" using kst(3) l by simp
  have k: "keeps (kmem s) ?h" by (rule keeps_store_fresh [OF h kst(1,2) b])
  have s: "shape h ?h" by (rule shape_store [OF shapeD(1) [OF keepsD(1) [OF h]] kst(1) b])
  have "mem_read (bytes ?h) (kst + 3936) 160 = child_frame s r" using l by (simp add: mem_simps)
  then have e: "\<exists>kst. kst \<in> kh_live ?h \<and> kst \<notin> kh_live (kmem s) \<and> KSTACK_SIZE \<le> kh_usable ?h kst \<and> a \<noteq> kst \<and>
      kernel_stack_top u = kst + KSTACK_SIZE \<and> rsp u = kst + 3936 \<and> mem_read (bytes ?h) (kst + 3936) 160 = child_frame s r"
    using kst u(1,2) shapeD(3,4) [OF s] by (intro exI [of _ kst]) simp
  show ?thesis
    unfolding forked_def using e a u(3-) shapeD(3,4) [OF s] keepsD [OF k] by (simp del: kh_store_simps)
qed

lemma task_fork_ok:
  assumes k: "kinv_at s c (c # ys)" and c: "current_task s = c" "c \<noteq> 0" "tasks s c = Some t" "0 \<le> user_slot_index t"
    and i: "i < USER_PROGRAM_SLOTS" and z: "task0_at s < 0x600000"
    and r: "kernel_stack_top t - KSTACK_SIZE \<le> r" "r + 160 \<le> kernel_stack_top t"
  shows "\<exists>pid s'. task_fork_current r (slot_base i) i d w s = Some (pid, s') \<and>
    (pid = -1 \<and> fork_failed s s' \<or> pid = next_id s \<and> (\<exists>a u. fork_linked r i t s s' a u))"
proof -
  note kh = kinv_at_kh [OF k]
  obtain kst h1 where m1: "k_malloc KSTACK_SIZE s = Some (kst, s\<lparr>kmem := h1\<rparr>)" "keeps (kmem s) h1"
    "kst \<noteq> 0 \<Longrightarrow> kst \<notin> kh_live (kmem s) \<and> kst \<in> kh_live h1 \<and> KSTACK_SIZE \<le> kh_usable h1 kst"
    using keeps_malloc [of s KSTACK_SIZE] kh by auto
  have i1: "kh_inv (kmem (s\<lparr>kmem := h1\<rparr>))" using shapeD(1) [OF keepsD(1) [OF m1(2)]] by simp
  obtain a h2 where m2: "k_malloc SIZEOF_TASK (s\<lparr>kmem := h1\<rparr>) = Some (a, s\<lparr>kmem := h2\<rparr>)" "keeps h1 h2"
    "a \<noteq> 0 \<Longrightarrow> a \<notin> kh_live h1 \<and> a \<in> kh_live h2 \<and> SIZEOF_TASK \<le> kh_usable h2 a"
    using keeps_malloc [OF i1, of SIZEOF_TASK] by auto
  note k2 = keeps_trans [OF m1(2) m2(2)]
  consider "kst = 0" | "kst \<noteq> 0" "a = 0" | "kst \<noteq> 0" "a \<noteq> 0" by blast
  then show ?thesis
  proof cases
    case 1
    then show ?thesis using c m1 by (auto simp: task_fork_current_def fork_failed_def)
  next
    case 2
    have "kst \<in> kh_live h2" using m1(3) [OF 2(1)] shapeD(3) [OF keepsD(1) [OF m2(2)]] by blast
    then obtain h3 where "k_free kst (s\<lparr>kmem := h2\<rparr>) = Some (s\<lparr>kmem := h3\<rparr>)" "keeps (kmem s) h3"
      using keeps_free [OF k2, of kst] m1(3) [OF 2(1)] by blast
    then show ?thesis using c m1(1) m2(1) 2 by (auto simp: task_fork_current_def fork_failed_def)
  next
    case 3
    note n = m1(3) [OF 3(1)] m2(3) [OF 3(2)] and s2 = keepsD(1) [OF m2(2)]
    have kst: "kst \<in> kh_live h2" "kst \<notin> kh_live (kmem s)" "KSTACK_SIZE \<le> kh_usable h2 kst" "a \<noteq> kst"
      using n shapeD(3,4) [OF s2] by auto
    have a: "a \<in> kh_live h2" "a \<notin> kh_live (kmem s)" "SIZEOF_TASK \<le> kh_usable h2 a"
      using n shapeD(3) [OF keepsD(1) [OF m1(2)]] by auto
    have "c \<noteq> task0_at s" by (rule isolated_not_task0 [OF k c(3,4)])
    then have o: "StackBlk c \<in> owners s (c # ys)" by (auto simp: task_owners_def)
    have "blk s (StackBlk c) \<in> kh_live (kmem s)" "need (StackBlk c) \<le> kh_usable (kmem s) (blk s (StackBlk c))"
      using k o unfolding kinv_at_def mem_inv_def by blast+
    then have l: "kernel_stack_top t - KSTACK_SIZE \<in> kh_live (kmem s)"
      "KSTACK_SIZE \<le> kh_usable (kmem s) (kernel_stack_top t - KSTACK_SIZE)"
      using c(3) by simp_all
    have fr: "replicate 8 0 @ drop 8 (mem_read (bytes h2) r 160) = child_frame s r"
      using keeps_read [OF k2 l(1) r(1), of 160] r(2) l(2) by (simp add: child_frame_def)
    obtain dir p where d: "paging_create_user_directory i (slot_base i) d w (pgt s) = (dir, p)" by fastforce
    have p: "paging_ok p" by (rule create_paging_ok [OF _ d]) (use k in \<open>simp add: kinv_at_def\<close>)
    let ?u = "(fresh_task (kst + 3936) (kst + KSTACK_SIZE) dir (next_id s) (tname t) (int i))
      \<lparr>mls_level := mls_level t, syscall_mask := syscall_mask t, priority := priority t, slice_left := priority t\<rparr>"
    let ?h = "kh_store (slot_base i + 65534) [0xEB, 0xFE] (kh_store (kst + 3936) (child_frame s r) h2)"
    have "forked s r i t (kh_store (kst + 3936) (child_frame s r) h2) a ?u"
      by (rule forked_intro [OF k2 a kst]) simp_all
    then have f: "forked s r i t ?h a ?u" by (rule write_spin_forked [OF _ i]) (use kh in simp)
    have "task_fork_current r (slot_base i) i d w s = Some (next_id s, s\<lparr>next_id := next_id s + 1, pgt := p, kmem := ?h,
        tasks := (tasks s)(a \<mapsto> ?u\<lparr>tnext := tnext t\<rparr>, current_task s \<mapsto> t\<lparr>tnext := a\<rparr>)\<rparr>)"
      using c m1(1) m2(1) 3 d fr
      by (simp add: task_fork_current_def Let_def poke_def user_directory_def link_task_def write_spin_def add.commute)
    then show ?thesis using f p unfolding fork_linked_def by blast
  qed
qed

lemma fork_linked_kinv:
  assumes k: "kinv_at s c (c # ys)" and c: "current_task s = c" "tasks s c = Some t"
    and f: "fork_linked r i t s s' a u" and i: "slot_free s i" "i < USER_PROGRAM_SLOTS" and z: "task0_at s < 0x600000"
  shows "kinv_at (s'\<lparr>slot_free := (slot_free s')(i := False)\<rparr>) c (c # a # ys)"
proof -
  obtain h p where e: "s' = s\<lparr>next_id := next_id s + 1, pgt := p, kmem := h,
      tasks := (tasks s)(a \<mapsto> u\<lparr>tnext := tnext t\<rparr>, c \<mapsto> t\<lparr>tnext := a\<rparr>)\<rparr>" and p: "paging_ok p"
    and h: "forked s r i t h a u"
    using f c(1) by (auto simp: fork_linked_def)
  have "c \<in> set (c # ys)" by simp
  then have t: "task_ok s t" using k c(2) unfolding kinv_at_def ring_inv_def by fastforce
  obtain kst where kst: "kst \<in> kh_live h" "kst \<notin> kh_live (kmem s)" "KSTACK_SIZE \<le> kh_usable h kst" "a \<noteq> kst"
    "kernel_stack_top u = kst + KSTACK_SIZE"
    using h by (auto simp: forked_def)
  have l: "kinv_at (linked a u c t i h s) c (c # a # ys)"
    by (rule linked_ok [where kst = kst, OF k c(2)]) (use h kst t i z in \<open>auto simp: forked_def task_ok_def\<close>)
  have "s'\<lparr>slot_free := (slot_free s')(i := False)\<rparr> =
      (linked a u c t i h s)\<lparr>pgt := p, next_id := next_id s + 1, aslr_prng_state := aslr_prng_state s\<rparr>"
    unfolding e linked_def by (rule kstate.equality) simp_all
  then show ?thesis using kinv_at_pgt [OF l p] by simp
qed

lemma kinv_at_slot_data:
  "kinv_at s c xs \<Longrightarrow>
   kinv_at (s\<lparr>slot_exit_code := e, slot_heap_brk := b, slot_wx_delta := d, slot_wx_data_off := w, slot_tty := y\<rparr>) c xs"
proof -
  let ?s = "s\<lparr>slot_exit_code := e, slot_heap_brk := b, slot_wx_delta := d, slot_wx_data_off := w, slot_tty := y\<rparr>"
  assume k: "kinv_at s c xs"
  have B: "blk ?s x = blk s x" for x by (cases x) auto
  have "mem_inv ?s (owners s xs)"
    by (rule mem_inv_cong [of s]) (use k B in \<open>auto simp: kinv_at_def\<close>)
  then show ?thesis using k
    by (simp add: kinv_at_def ring_inv_def files_inv_def free_inv_def slot_ok_def task_ok_def
        task_owners_def slot_owners_def fd_owners_def Let_def)
qed

text \<open>A used slot without a redirection buffer gets a redirection.\<close>

lemma kinv_at_redir:
  assumes k: "kinv_at s c xs" and i: "\<not> slot_free s i" "i < USER_PROGRAM_SLOTS" "slot_redir_buf s i = 0"
    and s': "s' = s\<lparr>slot_redir_buf := (slot_redir_buf s)(i := b), slot_redir_len := (slot_redir_len s)(i := n),
      slot_redir_file := f, slot_redir_pipe := (slot_redir_pipe s)(i := p), slot_redir_pipe_is_own := w\<rparr>"
    and p: "-1 \<le> p" "p < int PIPE_MAX" "0 \<le> p \<longrightarrow> b = 0" "n \<le> REDIR_BUF_SIZE"
    and b: "b \<noteq> 0 \<Longrightarrow> b \<in> kh_live (kmem s) \<and> b \<notin> blk s ` owners s xs \<and> REDIR_BUF_SIZE \<le> kh_usable (kmem s) b"
  shows "kinv_at s' c xs"
proof -
  have sel [simp]: "kmem s' = kmem s" "tasks s' = tasks s" "task0_at s' = task0_at s" "fd_table s' = fd_table s"
    "vol s' = vol s" "pgt s' = pgt s" "slot_free s' = slot_free s" "slot_redir_buf s' = (slot_redir_buf s)(i := b)"
    "slot_redir_len s' = (slot_redir_len s)(i := n)" "slot_redir_pipe s' = (slot_redir_pipe s)(i := p)"
    by (simp_all add: s')
  have B: "blk s' x = blk s x" if "x \<noteq> RedirBlk i" for x using that by (cases x) auto
  have ni: "RedirBlk i \<notin> owners s xs" using i(3) by (auto simp: task_owners_def slot_owners_def fd_owners_def)
  have B': "blk s' x = blk s x" if "x \<in> owners s xs" for x using B that ni by metis
  have m: "mem_inv s' (owners s xs)"
    by (rule mem_inv_cong [OF _ _ B']) (use k in \<open>simp_all add: kinv_at_def\<close>)
  have "slot_owners s' = (if b = 0 then slot_owners s else insert (RedirBlk i) (slot_owners s))"
  proof (cases "b = 0")
    case True
    then have "(slot_redir_buf s)(i := b) = slot_redir_buf s" using i(3) by (simp add: fun_upd_idem)
    then show ?thesis using True by (simp add: slot_owners_def)
  qed (use i(2,3) in \<open>auto simp: slot_owners_def\<close>)
  then have o: "owners s' xs = (if b = 0 then owners s xs else insert (RedirBlk i) (owners s xs))"
    by (simp add: task_owners_def fd_owners_def)
  have "mem_inv s' (owners s' xs)"
  proof (cases "b = 0")
    case False
    have "blk s' ` owners s xs = blk s ` owners s xs" using B' by (intro image_cong) simp_all
    then have "mem_inv s' (insert (RedirBlk i) (owners s xs))"
      by (intro mem_inv_insert [OF m]) (use b [OF False] in auto)
    then show ?thesis unfolding o using False by simp
  qed (use m o in simp)
  moreover have "ring_inv s' c xs" using k by (simp add: kinv_at_def ring_inv_def task_ok_def Let_def)
  moreover have "files_inv s'" "free_inv s'" "paging_ok (pgt s')"
    using k i(1) p by (auto simp: kinv_at_def files_inv_def free_inv_def slot_ok_def)
  ultimately show ?thesis by (simp add: kinv_at_def)
qed

lemma fork_redirect_ok:
  assumes k: "kinv_at s c xs" and i: "\<not> slot_free s i" "i < USER_PROGRAM_SLOTS" "slot_redir_buf s i = 0"
    and j: "j < USER_PROGRAM_SLOTS" "j \<noteq> i"
  shows "\<exists>s'. fork_redirect j i s = Some s' \<and> kinv_at s' c xs \<and> tasks s' = tasks s \<and> current_task s' = current_task s \<and>
    keeps (kmem s) (kmem s')"
proof -
  note kh = kinv_at_kh [OF k]
  have so: "slot_ok s j" using k j(1) by (simp add: kinv_at_def files_inv_def)
  let ?s1 = "s\<lparr>slot_redir_pipe := (slot_redir_pipe s)(i := slot_redir_pipe s j),
    slot_redir_pipe_is_own := (slot_redir_pipe_is_own s)(i := False)\<rparr>"
  show ?thesis
  proof (cases "slot_redir_buf s j = 0")
    case True
    then have "fork_redirect j i s = Some (?s1\<lparr>slot_redir_buf := (slot_redir_buf s)(i := 0), slot_redir_len := (slot_redir_len s)(i := 0)\<rparr>)"
      by (simp add: fork_redirect_def)
    moreover have "kinv_at (?s1\<lparr>slot_redir_buf := (slot_redir_buf s)(i := 0), slot_redir_len := (slot_redir_len s)(i := 0)\<rparr>) c xs"
      by (rule kinv_at_redir [where f = "slot_redir_file s", OF k i]) (use so in \<open>auto simp: slot_ok_def intro: kstate.equality\<close>)
    ultimately show ?thesis using kh keeps_refl by auto
  next
    case False
    then have p: "slot_redir_pipe s j = -1" using so by (auto simp: slot_ok_def)
    obtain buf h where m: "k_malloc REDIR_BUF_SIZE ?s1 = Some (buf, ?s1\<lparr>kmem := h\<rparr>)" "keeps (kmem s) h"
      "buf \<noteq> 0 \<Longrightarrow> buf \<notin> kh_live (kmem s) \<and> buf \<in> kh_live h \<and> REDIR_BUF_SIZE \<le> kh_usable h buf"
      using keeps_malloc [of ?s1 REDIR_BUF_SIZE] kh by auto
    show ?thesis
    proof (cases "buf = 0")
      case True
      let ?s = "?s1\<lparr>kmem := h, slot_redir_buf := (slot_redir_buf s)(i := 0), slot_redir_len := (slot_redir_len s)(i := 0)\<rparr>"
      have "fork_redirect j i s = Some ?s" using True False m(1) j(2) by (simp add: fork_redirect_def)
      moreover have "kinv_at ?s c xs"
        by (rule kinv_at_redir [where f = "slot_redir_file s", OF kinv_at_shape [OF k keepsD(1) [OF m(2)]]])
          (use i p in \<open>auto intro: kstate.equality\<close>)
      ultimately show ?thesis using m(2) by auto
    next
      case nz: False
      let ?d = "mem_read (bytes h) (slot_redir_buf s j) (slot_redir_len s j)"
      let ?h = "kh_store buf ?d h"
      let ?s = "?s1\<lparr>kmem := ?h, slot_redir_buf := (slot_redir_buf s)(i := buf),
        slot_redir_len := (slot_redir_len s)(i := slot_redir_len s j),
        slot_redir_file := (slot_redir_file s)(i := take 12 (slot_redir_file s j))\<rparr>"
      have l: "slot_redir_len s j \<le> REDIR_BUF_SIZE" using so by (simp add: slot_ok_def)
      have kp: "keeps (kmem s) ?h"
        using keeps_store_fresh [OF m(2), of buf 0 ?d] m(3) [OF nz] l by simp
      have sh: "shape h ?h"
        using shape_store [OF shapeD(1) [OF keepsD(1) [OF m(2)]], of buf 0 ?d] m(3) [OF nz] l by simp
      have "fork_redirect j i s = Some ?s" using nz False m(1) j(2) by (simp add: fork_redirect_def poke_def)
      moreover have "kinv_at ?s c xs"
      proof (rule kinv_at_redir [where f = "(slot_redir_file s)(i := take 12 (slot_redir_file s j))",
            OF kinv_at_shape [OF k keepsD(1) [OF kp]]])
        have "buf \<notin> blk s ` owners s xs" using k m(3) [OF nz] by (auto simp: kinv_at_def mem_inv_def)
        then show "buf \<in> kh_live (kmem (s\<lparr>kmem := ?h\<rparr>)) \<and>
            buf \<notin> blk (s\<lparr>kmem := ?h\<rparr>) ` owners (s\<lparr>kmem := ?h\<rparr>) xs \<and>
            REDIR_BUF_SIZE \<le> kh_usable (kmem (s\<lparr>kmem := ?h\<rparr>)) buf"
          using m(3) [OF nz] shapeD(3,4) [OF sh]
          by (simp add: task_owners_def slot_owners_def fd_owners_def)
        show "?s = (s\<lparr>kmem := ?h\<rparr>)\<lparr>slot_redir_buf := (slot_redir_buf (s\<lparr>kmem := ?h\<rparr>))(i := buf),
            slot_redir_len := (slot_redir_len (s\<lparr>kmem := ?h\<rparr>))(i := slot_redir_len s j),
            slot_redir_file := (slot_redir_file s)(i := take 12 (slot_redir_file s j)),
            slot_redir_pipe := (slot_redir_pipe (s\<lparr>kmem := ?h\<rparr>))(i := slot_redir_pipe s j),
            slot_redir_pipe_is_own := (slot_redir_pipe_is_own s)(i := False)\<rparr>"
          by (rule kstate.equality) simp_all
      qed (use i p l in simp_all)
      ultimately show ?thesis using kp by auto
    qed
  qed
qed

subsection \<open>The system call\<close>

lemma keeps_store_low:
  assumes "kh_inv h" "a + length bs \<le> heap_base h"
  shows "shape h (kh_store a bs h)"
    "q \<in> kh_live h \<Longrightarrow> j < kh_usable h q \<Longrightarrow> bytes (kh_store a bs h) (q + j) = bytes h (q + j)"
  using shape_store_low [OF assms] ks.store_below_block [OF assms(1) _ assms(2)] by simp_all

text \<open>The kernel stack of the current program.\<close>

lemma stack_block:
  assumes "kinv_at s c xs" "c \<in> set xs" "tasks s c = Some t" "0 \<le> user_slot_index t"
  shows "kernel_stack_top t - KSTACK_SIZE \<in> kh_live (kmem s)"
    "KSTACK_SIZE \<le> kh_usable (kmem s) (kernel_stack_top t - KSTACK_SIZE)"
proof -
  have "StackBlk c \<in> owners s xs"
    using assms(2) isolated_not_task0 [OF assms(1,3,4)] by (auto simp: task_owners_def)
  then have "blk s (StackBlk c) \<in> kh_live (kmem s)" "need (StackBlk c) \<le> kh_usable (kmem s) (blk s (StackBlk c))"
    using assms(1) unfolding kinv_at_def mem_inv_def by blast+
  then show "kernel_stack_top t - KSTACK_SIZE \<in> kh_live (kmem s)"
    "KSTACK_SIZE \<le> kh_usable (kmem s) (kernel_stack_top t - KSTACK_SIZE)"
    using assms(3) by simp_all
qed

lemma frame_rax:
  assumes "kinv_at s c xs" "c \<in> set xs" "tasks s c = Some t" "0 \<le> user_slot_index t"
    and "kernel_stack_top t - KSTACK_SIZE \<le> r" "r + 160 \<le> kernel_stack_top t"
  shows "kinv_at (set_frame_rax r v s) c xs" "frame_word (set_frame_rax r v s) r 0 = word_of_int v"
    "tasks (set_frame_rax r v s) = tasks s" "current_task (set_frame_rax r v s) = current_task s"
    "x < heap_base (kmem s) \<Longrightarrow> ram (set_frame_rax r v s) x = ram s x"
    "q \<in> kh_live (kmem s) \<Longrightarrow> q \<noteq> kernel_stack_top t - KSTACK_SIZE \<Longrightarrow> j < kh_usable (kmem s) q \<Longrightarrow>
       ram (set_frame_rax r v s) (q + j) = ram s (q + j)"
proof -
  let ?b = "le_bytes 8 (word_of_int v :: u64)" and ?p = "kernel_stack_top t - KSTACK_SIZE"
  note kh = kinv_at_kh [OF assms(1)] and b = stack_block [OF assms(1-4)]
  have z: "c \<noteq> task0_at s" by (rule isolated_not_task0 [OF assms(1,3,4)])
  show "kinv_at (set_frame_rax r v s) c xs"
    unfolding set_frame_rax_def by (rule kinv_at_poke_stack [OF assms(1,2) z assms(3,5)]) (use assms(6) in simp)
  show "frame_word (set_frame_rax r v s) r 0 = word_of_int v"
    by (simp add: frame_word_def set_frame_rax_def poke_def mem_simps le_word_le_bytes)
  show "tasks (set_frame_rax r v s) = tasks s" "current_task (set_frame_rax r v s) = current_task s"
    by (simp_all add: set_frame_rax_def poke_def)
  show "ram (set_frame_rax r v s) x = ram s x" if "x < heap_base (kmem s)"
    using that ks.live_low [OF conjunct1 [OF kh] b(1)] assms(5) by (simp add: set_frame_rax_def poke_def mem_write_def)
  have e: "?p + (r - ?p) = r" "r - ?p + length ?b \<le> kh_usable (kmem s) ?p" using assms(5,6) b(2) by simp_all
  show "ram (set_frame_rax r v s) (q + j) = ram s (q + j)"
    if "q \<in> kh_live (kmem s)" "q \<noteq> ?p" "j < kh_usable (kmem s) q"
    using ks.store_other [OF conjunct1 [OF kh] b(1) that(1) that(2) [symmetric] e(2) that(3)] e(1)
    by (simp add: set_frame_rax_def poke_def)
qed

definition is_child :: "kstate \<Rightarrow> kstate \<Rightarrow> nat \<Rightarrow> nat \<Rightarrow> nat \<Rightarrow> task \<Rightarrow> task \<Rightarrow> bool" where
  "is_child s s' r j i t u \<longleftrightarrow>
     user_slot_index u = int i \<and> tid u = next_id s \<and> mls_level u = mls_level t \<and> syscall_mask u = syscall_mask t \<and>
     \<not> exiting u \<and> mem_read (ram s') (slot_base i) 65534 = mem_read (ram s) (slot_base j) 65534 \<and>
     mem_read (ram s') (rsp u) 160 = child_frame s r \<and> frame_word s' r 0 = word_of_int (next_id s)"

lemma copy_slot_facts:
  assumes k: "kinv_at s c xs" and i: "i < USER_PROGRAM_SLOTS"
  shows "kinv_at (copy_slot b (slot_base i) s) c xs" "tasks (copy_slot b (slot_base i) s) = tasks s"
    "shape (kmem s) (kmem (copy_slot b (slot_base i) s))"
    "x < 65536 \<Longrightarrow> ram (copy_slot b (slot_base i) s) (slot_base i + x) = ram s (b + x)"
    "q \<in> kh_live (kmem s) \<Longrightarrow> y < kh_usable (kmem s) q \<Longrightarrow> ram (copy_slot b (slot_base i) s) (q + y) = ram s (q + y)"
proof -
  have l: "slot_base i + 65536 \<le> 0x600000" using i by (simp add: slot_base_def)
  show "kinv_at (copy_slot b (slot_base i) s) c xs"
    unfolding copy_slot_def by (rule kinv_at_poke_low [OF k]) (use l in simp)
  show "tasks (copy_slot b (slot_base i) s) = tasks s" by (simp add: copy_slot_def poke_def)
  note st = keeps_store_low [OF conjunct1 [OF kinv_at_kh [OF k]], of "slot_base i" "mem_read (ram s) b USER_PROGRAM_SLOT_SIZE"]
  show "shape (kmem s) (kmem (copy_slot b (slot_base i) s))"
    using st(1) l kinv_at_kh [OF k] by (simp add: copy_slot_def poke_def del: kh_store_simps)
  show "ram (copy_slot b (slot_base i) s) (slot_base i + x) = ram s (b + x)" if "x < 65536"
    using that by (simp add: copy_slot_def poke_def mem_simps)
  show "ram (copy_slot b (slot_base i) s) (q + y) = ram s (q + y)" if "q \<in> kh_live (kmem s)" "y < kh_usable (kmem s) q"
    using st(2) [OF _ that] l kinv_at_kh [OF k] by (simp add: copy_slot_def poke_def)
qed

lemma forked_is_child:
  assumes k: "kinv_at s c xs" and c: "c \<in> set xs" "tasks s c = Some t" "0 \<le> user_slot_index t" and i: "i < USER_PROGRAM_SLOTS"
    and r: "kernel_stack_top t - KSTACK_SIZE \<le> r" "r + 160 \<le> kernel_stack_top t"
    and f: "forked (copy_slot (slot_base j) (slot_base i) s) r i t h a u" and h': "keeps h h'"
    and w: "frame_word s' r 0 = word_of_int (next_id s)"
    and low: "\<And>x. x < heap_base h' \<Longrightarrow> ram s' x = bytes h' x"
    and blk: "\<And>q y. q \<in> kh_live h' \<Longrightarrow> q \<noteq> kernel_stack_top t - KSTACK_SIZE \<Longrightarrow> y < kh_usable h' q \<Longrightarrow>
      ram s' (q + y) = bytes h' (q + y)"
  shows "is_child s s' r j i t u"
proof -
  let ?s0 = "copy_slot (slot_base j) (slot_base i) s" and ?P = "kernel_stack_top t - KSTACK_SIZE"
  have ni: "next_id ?s0 = next_id s" by (simp add: copy_slot_def poke_def)
  note cs = copy_slot_facts [OF k i] and P = stack_block [OF k c] and kh = kinv_at_kh [OF k]
  have sh0: "shape (kmem s) h" using f cs(3) shape_trans unfolding forked_def by blast
  have sh: "shape h h'" by (rule keepsD(1) [OF h'])
  have low': "x < 0x600000 \<Longrightarrow> x < heap_base h \<and> x < heap_base h' \<and> x < heap_base (kmem ?s0)" for x
    using shapeD(2) [OF sh] shapeD(2) [OF sh0] shapeD(2) [OF cs(3)] kh by simp
  have m: "mem_read (ram s') (slot_base i) 65534 = mem_read (ram s) (slot_base j) 65534"
  proof (rule nth_equalityI)
    fix x assume x: "x < length (mem_read (ram s') (slot_base i) 65534)"
    have "slot_base i + x < 0x600000" using x i by (simp add: slot_base_def)
    note l = low' [OF this]
    have "ram s' (slot_base i + x) = bytes h' (slot_base i + x)" by (rule low) (use l in blast)
    also have "\<dots> = bytes h (slot_base i + x)" by (rule keepsD(2) [OF h']) (use l in blast)
    also have "\<dots> = ram ?s0 (slot_base i + x)" using f l x unfolding forked_def by simp
    also have "\<dots> = ram s (slot_base j + x)" by (rule cs(4)) (use x in simp)
    finally show "mem_read (ram s') (slot_base i) 65534 ! x = mem_read (ram s) (slot_base j) 65534 ! x" using x by simp
  qed simp
  obtain kst where kst: "kst \<in> kh_live h" "kst \<notin> kh_live (kmem ?s0)" "KSTACK_SIZE \<le> kh_usable h kst" "rsp u = kst + 3936"
    "mem_read (bytes h) (kst + 3936) 160 = child_frame ?s0 r"
    using f unfolding forked_def by blast
  have "kst \<noteq> ?P" using kst(2) P(1) shapeD(3) [OF cs(3)] by blast
  then have "ram s' (kst + (3936 + y)) = bytes h (kst + (3936 + y))" if "y < 160" for y
    using blk [OF shapeD(3) [OF sh kst(1)], of "3936 + y"] keepsD(3) [OF h' kst(1), of "3936 + y"] kst(3) that
      shapeD(4) [OF sh kst(1)] by simp
  then have "mem_read (ram s') (rsp u) 160 = child_frame ?s0 r"
    unfolding kst(4) kst(5) [symmetric] by (intro mem_read_eqI) (simp add: add.assoc)
  moreover have "child_frame ?s0 r = child_frame s r"
  proof -
    have "ram ?s0 (?P + (r - ?P + y)) = ram s (?P + (r - ?P + y))" if "y < 160" for y
      by (rule cs(5) [OF P(1)]) (use that r P(2) in simp)
    then have "mem_read (ram ?s0) r 160 = mem_read (ram s) r 160" using r(1) by (intro mem_read_eqI) simp
    then show ?thesis by (simp add: child_frame_def)
  qed
  ultimately show ?thesis using f m w ni unfolding is_child_def forked_def by simp
qed

lemma fork_child_ok:
  assumes k: "kinv_at s c (c # ys)" and c: "current_task s = c" "tasks s c = Some t" "user_slot_index t = int j"
    and i: "slot_free s i" "i < USER_PROGRAM_SLOTS" and z: "task0_at s < 0x600000" and n: "0 \<le> next_id s"
    and r: "kernel_stack_top t - KSTACK_SIZE \<le> r" "r + 160 \<le> kernel_stack_top t"
  shows "\<exists>s'. fork_child r j i s = Some s' \<and> current_task s' = c \<and>
    (kinv_at s' c (c # ys) \<and> tasks s' = tasks s \<and> frame_word s' r 0 = -1 \<or>
     (\<exists>a u. kinv_at s' c (c # a # ys) \<and> is_child s s' r j i t u \<and> a \<notin> set (c # ys) \<and>
        tasks s' = (tasks s)(a \<mapsto> u\<lparr>tnext := tnext t\<rparr>, c \<mapsto> t\<lparr>tnext := a\<rparr>)))"
proof -
  let ?s0 = "copy_slot (slot_base j) (slot_base i) s"
  have s0: "kinv_at ?s0 c (c # ys)" by (rule copy_slot_facts(1) [OF k i(2)])
  have sel: "current_task ?s0 = c" "tasks ?s0 c = Some t" "slot_free ?s0 = slot_free s" "task0_at ?s0 = task0_at s"
    "next_id ?s0 = next_id s" "tasks ?s0 = tasks s" "slot_redir_buf ?s0 = slot_redir_buf s"
    using c by (simp_all add: copy_slot_def poke_def)
  have slot: "0 \<le> user_slot_index t" using c(3) by simp
  have cc: "c \<in> set (c # ys)" by simp
  have nz: "c \<noteq> 0" by (rule kinv_current [OF k])
  have "task_ok s t" by (rule kinv_current [OF k]) (use c in simp)
  then have j: "j < USER_PROGRAM_SLOTS" "\<not> slot_free s j" using c(3) by (simp_all add: task_ok_def)
  have ij: "j \<noteq> i" using j i by auto
  from task_fork_ok [OF s0 sel(1) nz sel(2) slot i(2) _ r, of "slot_wx_delta s j" "slot_wx_data_off s j"] z sel(4,5)
  obtain pid s1 where f: "task_fork_current r (slot_base i) i (slot_wx_delta s j) (slot_wx_data_off s j) ?s0 = Some (pid, s1)"
    "pid = -1 \<and> fork_failed ?s0 s1 \<or> pid = next_id s \<and> (\<exists>a u. fork_linked r i t ?s0 s1 a u)" by auto
  from f(2) show ?thesis
  proof (elim disjE conjE exE)
    assume p: "pid = -1" and ff: "fork_failed ?s0 s1"
    then obtain h where h: "s1 = ?s0\<lparr>kmem := h\<rparr>" "keeps (kmem ?s0) h" by (auto simp: fork_failed_def)
    have k1: "kinv_at s1 c (c # ys)" using kinv_at_shape [OF s0 keepsD(1) [OF h(2)]] h(1) by simp
    have t1: "tasks s1 c = Some t" "tasks s1 = tasks s" "current_task s1 = c" using h(1) sel c(1) by simp_all
    note fr = frame_rax [OF k1 cc t1(1) slot r, where v = "-1"]
    show ?thesis using f(1) p fr t1 by (simp add: fork_child_def)
  next
    fix a u
    assume p: "pid = next_id s" and fl: "fork_linked r i t ?s0 s1 a u"
    obtain h p' where e: "s1 = ?s0\<lparr>next_id := next_id ?s0 + 1, pgt := p', kmem := h,
        tasks := (tasks ?s0)(a \<mapsto> u\<lparr>tnext := tnext t\<rparr>, c \<mapsto> t\<lparr>tnext := a\<rparr>)\<rparr>" and fk: "forked ?s0 r i t h a u"
      using fl sel(1) by (auto simp: fork_linked_def)
    have k1: "kinv_at (s1\<lparr>slot_free := (slot_free s1)(i := False)\<rparr>) c (c # a # ys)"
      by (rule fork_linked_kinv [OF s0 sel(1,2) fl]) (use i z sel in simp_all)
    let ?s2 = "s1\<lparr>slot_free := (slot_free s1)(i := False), slot_exit_code := (slot_exit_code s1)(i := 0),
        slot_heap_brk := (slot_heap_brk s1)(i := slot_heap_brk s1 j), slot_wx_delta := (slot_wx_delta s1)(i := slot_wx_delta s1 j),
        slot_wx_data_off := (slot_wx_data_off s1)(i := slot_wx_data_off s1 j)\<rparr>"
    have k2: "kinv_at ?s2 c (c # a # ys)"
      using kinv_at_slot_data [OF k1, where y = "slot_tty s1"] by simp
    have "slot_redir_buf s i = 0" using k i by (auto simp: kinv_at_def free_inv_def)
    then have b2: "slot_redir_buf ?s2 i = 0" using e by (simp add: copy_slot_def poke_def)
    obtain s3 where s3: "fork_redirect j i ?s2 = Some s3" "kinv_at s3 c (c # a # ys)" "tasks s3 = tasks ?s2"
      "current_task s3 = current_task ?s2" "keeps (kmem ?s2) (kmem s3)"
      using fork_redirect_ok [OF k2 _ i(2) b2 j(1) ij] by auto
    let ?s4 = "s3\<lparr>slot_tty := (slot_tty s3)(i := slot_tty s3 j)\<rparr>"
    have k4: "kinv_at ?s4 c (c # a # ys)"
      using kinv_at_slot_data [OF s3(2), where e = "slot_exit_code s3" and b = "slot_heap_brk s3" and d = "slot_wx_delta s3"
          and w = "slot_wx_data_off s3"] by simp
    have t4: "tasks ?s4 = (tasks s)(a \<mapsto> u\<lparr>tnext := tnext t\<rparr>, c \<mapsto> t\<lparr>tnext := a\<rparr>)" "current_task ?s4 = c" "kmem ?s4 = kmem s3"
      using s3(3,4) e sel by simp_all
    have cur4: "tasks ?s4 c = Some (t\<lparr>tnext := a\<rparr>)" using t4(1) by simp
    have cc4: "c \<in> set (c # a # ys)" by simp
    note fr = frame_rax [OF k4 cc4 cur4, simplified, OF slot, simplified, OF r(1)[simplified] r(2), where v = pid]
    have new: "a \<notin> set (c # ys)"
      using live_not_static(1) [OF _ s0, of h a] fk z sel(4) by (simp add: forked_def)
    have m: "kmem ?s2 = h" using e by simp
    have "is_child s (set_frame_rax r pid ?s4) r j i t u"
    proof (rule forked_is_child [OF k cc c(2) slot i(2) r fk])
      show "keeps h (kmem s3)" using s3(5) m by simp
    qed (use fr(2,5,6) p t4(3) in simp_all)
    then show ?thesis using f(1) p n s3(1) fr t4 new
      by (intro exI [of _ "set_frame_rax r pid ?s4"]) (auto simp: fork_child_def)
  qed
qed


lemma exec_allowed: "ax_mac_check AX_CLASS_EXEC s = (True, s)"
  by (cases "ax_current_domain s") (simp_all add: ax_mac_check_def)

lemma seccomp_kill_kinv:
  assumes "kinv_at s c xs" "current_task s = c" "tasks s c = Some t" "0 \<le> user_slot_index t"
  shows "kinv_at (seccomp_kill n s) c xs" "current_task (seccomp_kill n s) = c"
proof -
  let ?t = "t\<lparr>exiting := True\<rparr>"
  have nz: "c \<noteq> 0" by (rule kinv_current [OF assms(1)])
  obtain l where l: "seccomp_kill n s = (kputs l s)\<lparr>tasks := (tasks s)(c \<mapsto> ?t)\<rparr>"
    using assms(2-4) nz
    by (auto simp: seccomp_kill_def task_current_is_isolated_def cur_task_def task_mark_current_exiting_def cur_update_def kputs_def)
  have c: "c \<in> set xs" by (rule kinv_current [OF assms(1)])
  have "task_like t ?t"
    by (rule kinv_at_ring [OF assms(1) c]) (use assms(3) in \<open>auto simp: task_like_def task_ok_def\<close>)
  then show "kinv_at (seccomp_kill n s) c xs"
    using kinv_at_task [OF kinv_at_log [OF assms(1), of l], where c = c and t = t and t' = ?t] assms(3)
      isolated_not_task0 [OF assms(1,3,4)] by (simp add: l kputs_def)
  show "current_task (seccomp_kill n s) = c" using l assms(2) by (simp add: kputs_def)
qed

lemma first_free: "first_free_slot s = Some i \<Longrightarrow> slot_free s i \<and> i < USER_PROGRAM_SLOTS"
  by (auto simp: first_free_slot_def find_Some_iff)

text \<open>
  C9. Fork keeps the kernel in order, on every path: for an isolated program that enters
  \<^verbatim>\<open>sys_fork_impl\<close> with its frame on its kernel stack, the call returns (no block is freed that is
  not live, no list of tasks loops), and the kernel invariant holds again, whether the call is
  filtered, finds no slot, runs out of memory with or without the stack allocated, or succeeds with
  or without room for a redirection buffer.
\<close>
theorem fork_keeps_kernel:
  assumes "kinv s" "cur_task s = Some t" "0 \<le> user_slot_index t" "0 \<le> next_id s" "task0_at s < 0x600000"
    and "kernel_stack_top t - KSTACK_SIZE \<le> r" "r + 160 \<le> kernel_stack_top t"
  shows "\<exists>s'. sys_fork_impl r s = Some s' \<and> kinv s'"
proof -
  let ?c = "current_task s"
  obtain xs where k: "kinv_at s ?c xs" using assms(1) by (auto simp: kinv_def)
  have t: "tasks s ?c = Some t" "?c \<noteq> 0" using assms(2) by (auto simp: cur_task_def split: if_splits)
  obtain ys where xs: "xs = ?c # ys" by (rule kinv_current [OF k])
  have c: "?c \<in> set xs" using xs by simp
  note fr = frame_rax [OF k c t(1) assms(3,6,7), where v = "-1"]
  have fail: "kinv (set_frame_rax r (-1) s)" using fr t(2) by (auto simp: kinv_def)
  have sl: "task_current_slot_index s = user_slot_index t" using assms(2) by (simp add: task_current_slot_index_def)
  consider "task_current_is_exiting s" | "\<not> task_current_is_exiting s" "\<not> task_syscall_allowed 0x2A s"
    | "\<not> task_current_is_exiting s" "task_syscall_allowed 0x2A s" "first_free_slot s = None"
    | i where "\<not> task_current_is_exiting s" "task_syscall_allowed 0x2A s" "first_free_slot s = Some i"
    by (cases "first_free_slot s") auto
  then show ?thesis
  proof cases
    case 2
    then show ?thesis using seccomp_kill_kinv [OF k refl t(1) assms(3)] t(2) by (auto simp: sys_fork_impl_def kinv_def)
  next
    case 4
    then have i: "slot_free s i" "i < USER_PROGRAM_SLOTS" using first_free by simp_all
    have j: "user_slot_index t = int (nat (user_slot_index t))" using assms(3) by simp
    from fork_child_ok [OF k[unfolded xs] refl t(1) j i assms(5,4,6,7)] obtain s' where
      "fork_child r (nat (user_slot_index t)) i s = Some s'" "current_task s' = ?c" "\<exists>zs. kinv_at s' ?c zs" by blast
    then show ?thesis using 4 sl assms(3) t(2) by (auto simp: sys_fork_impl_def exec_allowed kinv_def)
  qed (use assms(1,3) fail sl in \<open>simp_all add: sys_fork_impl_def exec_allowed\<close>)
qed

lemma demo_frame: "demo_kstack = kernel_stack_top (demo_user e) - KSTACK_SIZE"
  "kernel_stack_top (demo_user e) = demo_kstack + KSTACK_SIZE" "user_slot_index (demo_user e) = 0"
  by (simp_all add: demo_user_def fresh_task_def)

theorem fork_keeps_kernel_witness:
  "\<exists>s'. sys_fork_impl (demo_kstack + 3936) (demo_k False) = Some s' \<and> kinv s'"
  by (rule fork_keeps_kernel [OF demo_kinv_ex, where t = "demo_user False"])
    (simp_all add: cur_task_def demo_frame, simp_all add: demo_k_def)

text \<open>
  C10. Fork makes a faithful copy. When a slot is free the call either fails as a whole, with -1 in
  the caller's RAX and no task added, or it links one new task behind the caller: with the next task
  id, the caller's privileges (MLS level, seccomp mask), the caller's whole memory but the two bytes of the
  spin loop, and the caller's register frame with RAX cleared, while the caller's RAX is the id of the child.
\<close>
theorem fork_duplicates:
  assumes "kinv_at s c (c # ys)" "current_task s = c" "tasks s c = Some t" "user_slot_index t = int j"
    and "0 \<le> next_id s" "task0_at s < 0x600000"
    and "kernel_stack_top t - KSTACK_SIZE \<le> r" "r + 160 \<le> kernel_stack_top t"
    and "\<not> exiting t" "task_syscall_allowed 0x2A s" "first_free_slot s = Some i"
  shows "\<exists>s'. sys_fork_impl r s = Some s' \<and>
    (tasks s' = tasks s \<and> frame_word s' r 0 = -1 \<or>
     (\<exists>a u. kinv_at s' c (c # a # ys) \<and> a \<notin> set (c # ys) \<and>
        tasks s' = (tasks s)(a \<mapsto> u\<lparr>tnext := tnext t\<rparr>, c \<mapsto> t\<lparr>tnext := a\<rparr>) \<and>
        user_slot_index u = int i \<and> tid u = next_id s \<and> mls_level u = mls_level t \<and> syscall_mask u = syscall_mask t \<and>
        mem_read (ram s') (slot_base i) 65534 = mem_read (ram s) (slot_base j) 65534 \<and>
        mem_read (ram s') (rsp u) 160 = replicate 8 0 @ drop 8 (mem_read (ram s) r 160) \<and>
        frame_word s' r 0 = word_of_int (next_id s)))"
proof -
  have nz: "c \<noteq> 0" by (rule kinv_current [OF assms(1)])
  have ct: "cur_task s = Some t" using assms(2,3) nz by (simp add: cur_task_def)
  note i = first_free [OF assms(11)]
  from fork_child_ok [OF assms(1-4) _ _ assms(6,5,7,8), of i] i obtain s' where
    s': "fork_child r j i s = Some s'"
    "kinv_at s' c (c # ys) \<and> tasks s' = tasks s \<and> frame_word s' r 0 = -1 \<or>
     (\<exists>a u. kinv_at s' c (c # a # ys) \<and> is_child s s' r j i t u \<and> a \<notin> set (c # ys) \<and>
        tasks s' = (tasks s)(a \<mapsto> u\<lparr>tnext := tnext t\<rparr>, c \<mapsto> t\<lparr>tnext := a\<rparr>))" by blast
  have "sys_fork_impl r s = Some s'"
    using s'(1) assms(4,9-11) ct
    by (simp add: sys_fork_impl_def exec_allowed task_current_is_exiting_def task_current_slot_index_def)
  then show ?thesis using s'(2) unfolding is_child_def child_frame_def by blast
qed

theorem fork_duplicates_witness:
  "\<exists>s'. sys_fork_impl (demo_kstack + 3936) (demo_k False) = Some s' \<and>
    (tasks s' = tasks (demo_k False) \<and> frame_word s' (demo_kstack + 3936) 0 = -1 \<or>
     (\<exists>a u. tasks s' a = Some u \<and> mem_read (ram s') (slot_base 1) 65534 = mem_read (ram (demo_k False)) (slot_base 0) 65534 \<and>
        frame_word s' (demo_kstack + 3936) 0 = 2))"
proof -
  have f: "first_free_slot (demo_k False) = Some 1" by (simp add: first_free_slot_def demo_k_def upt_rec)
  have a: "task_syscall_allowed 0x2A (demo_k False)"
    by (simp add: task_syscall_allowed_def cur_task_def demo_user_def fresh_task_def)
  have n: "next_id (demo_k False) = 2" by (simp add: demo_k_def)
  have "\<exists>s'. sys_fork_impl (demo_kstack + 3936) (demo_k False) = Some s' \<and>
    (tasks s' = tasks (demo_k False) \<and> frame_word s' (demo_kstack + 3936) 0 = -1 \<or>
     (\<exists>a u. kinv_at s' 0x600030 (0x600030 # a # [0x8000]) \<and> a \<notin> set (0x600030 # [0x8000]) \<and>
        tasks s' = (tasks (demo_k False))(a \<mapsto> u\<lparr>tnext := tnext (demo_user False)\<rparr>, 0x600030 \<mapsto> (demo_user False)\<lparr>tnext := a\<rparr>) \<and>
        user_slot_index u = int 1 \<and> tid u = next_id (demo_k False) \<and> mls_level u = mls_level (demo_user False) \<and>
        syscall_mask u = syscall_mask (demo_user False) \<and>
        mem_read (ram s') (slot_base 1) 65534 = mem_read (ram (demo_k False)) (slot_base 0) 65534 \<and>
        mem_read (ram s') (rsp u) 160 = replicate 8 0 @ drop 8 (mem_read (ram (demo_k False)) (demo_kstack + 3936) 160) \<and>
        frame_word s' (demo_kstack + 3936) 0 = word_of_int (next_id (demo_k False))))"
    by (rule fork_duplicates [OF demo_kinv _ _ _ _ _ _ _ _ a f])
      (simp_all add: demo_frame(2,3) n, simp add: demo_user_def fresh_task_def)
  then obtain s' where s': "sys_fork_impl (demo_kstack + 3936) (demo_k False) = Some s'"
    "tasks s' = tasks (demo_k False) \<and> frame_word s' (demo_kstack + 3936) 0 = -1 \<or>
     (\<exists>a u. a \<noteq> 0x600030 \<and> tasks s' = (tasks (demo_k False))(a \<mapsto> u, 0x600030 \<mapsto> (demo_user False)\<lparr>tnext := a\<rparr>) \<and>
        mem_read (ram s') (slot_base 1) 65534 = mem_read (ram (demo_k False)) (slot_base 0) 65534 \<and>
        frame_word s' (demo_kstack + 3936) 0 = 2)"
    unfolding n by auto
  then show ?thesis by auto
qed

end
