(* ===== verification/Net.thy ===== *)
theory Net
  imports AxPrelude
begin

section \<open>The network library of user programs: frames, checksum and the network card\<close>

text \<open>
  The headers \<^verbatim>\<open>src/src/user/arp.h, icmp.h, udp.h, tcp.h, dns.h, dhcp.h\<close> are included into a program;
  their static variables are the record \<open>net\<close>. The kernel's calls \<^verbatim>\<open>ax_net_mac, ax_net_send,
  ax_net_recv, ax_get_ticks, ax_sleep_ms\<close> are answered by the environment: \<open>inbox\<close> holds what the
  successive receive calls will find (an empty list where no frame is waiting), \<open>sent\<close> the frames
  the card took, \<open>nic_ok\<close> which frames it takes, \<open>now\<close> the clock, which a sleep moves on.
  Ports, addresses and sequence numbers are words of their width; lengths, and the milliseconds a
  loop has waited, are naturals, which agrees with the 32-bit counters of the code for every timeout
  up to $2^{32} - 20$.
\<close>

record arp_entry =
  arp_ip :: u32
  arp_mac :: "u8 list"
  arp_valid :: bool

record net =
  g_my_ip :: u32
  g_subnet_mask :: u32
  g_router_ip :: u32
  arp_cache_tbl :: "arp_entry list"
  arp_my_mac :: "u8 list"
  arp_my_mac_ok :: bool
  arp_rx_buf :: "u8 list"
  icmp_rx :: "u8 list"
  udp_rx :: "u8 list"
  tcp_rx :: "u8 list"
  dns_rx :: "u8 list"
  dhcp_rx :: "u8 list"
  dhcp_subnet_mask :: u32
  dhcp_router_ip :: u32
  dhcp_dns_ip :: u32
  net_rand_state :: u64
  nic_mac :: "u8 list option"
  nic_ok :: "u8 list \<Rightarrow> bool"
  inbox :: "u8 list list"
  sent :: "u8 list list"
  now :: u32

subsection \<open>Big-endian fields\<close>

definition put16be :: "u16 \<Rightarrow> u8 list" where
  "put16be v = [ucast (drop_bit 8 v), ucast v]"

definition put32be :: "u32 \<Rightarrow> u8 list" where
  "put32be v = [ucast (drop_bit 24 v), ucast (drop_bit 16 v), ucast (drop_bit 8 v), ucast v]"

definition get16be :: "u8 list \<Rightarrow> nat \<Rightarrow> u16" where
  "get16be p i = push_bit 8 (ucast (p ! i)) OR ucast (p ! (i + 1))"

definition get32be :: "u8 list \<Rightarrow> nat \<Rightarrow> u32" where
  "get32be p i = push_bit 24 (ucast (p ! i)) OR push_bit 16 (ucast (p ! (i + 1))) OR
     push_bit 8 (ucast (p ! (i + 2))) OR ucast (p ! (i + 3))"

lemma length_put [simp]: "length (put16be v) = 2" "length (put32be w) = 4"
  by (simp_all add: put16be_def put32be_def)

lemma get16_put16:
  assumes "xs ! i = put16be v ! 0" "xs ! (i + 1) = put16be v ! 1"
  shows "get16be xs i = v"
  unfolding get16be_def assms by (rule bit_word_eqI) (auto simp: put16be_def bit_simps)

lemma get32_put32:
  assumes "xs ! i = put32be v ! 0" "xs ! (i + 1) = put32be v ! 1" "xs ! (i + 2) = put32be v ! 2" "xs ! (i + 3) = put32be v ! 3"
  shows "get32be xs i = v"
proof (rule bit_word_eqI)
  fix n :: nat assume n: "n < LENGTH(32)"
  consider "n < 8" | "8 \<le> n" "n < 16" | "16 \<le> n" "n < 24" | "24 \<le> n" by linarith
  then show "bit (get32be xs i) n = bit v n"
    unfolding get32be_def assms using n by cases (auto simp: put32be_def bit_simps)
qed

text \<open>A field at its place in a packet.\<close>

lemma get16_at: "length ps = i \<Longrightarrow> get16be (ps @ put16be v @ qs) i = v"
  by (rule get16_put16) (auto simp: nth_append put16be_def)

lemma get32_at: "length ps = i \<Longrightarrow> get32be (ps @ put32be v @ qs) i = v"
  by (rule get32_put32) (auto simp: nth_append put32be_def)

lemma unat_word_of_nat: "n < 2 ^ LENGTH('a) \<Longrightarrow> unat (word_of_nat n :: 'a::len word) = n"
  by (simp only: unsigned_of_nat take_bit_nat_eq_self of_nat_id)

lemma unat_get16: "unat (get16be xs i) = unat (xs ! i) * 256 + unat (xs ! (i + 1))"
proof -
  let ?a = "xs ! i" and ?b = "xs ! (i + 1)"
  have "get16be xs i = push_bit 8 (ucast ?a) + ucast ?b"
    unfolding get16be_def by (subst disjunctive_add) (auto simp: bit_simps dest: bit_imp_le_length)
  also have "\<dots> = word_of_nat (unat ?a * 256 + unat ?b)"
    by (simp add: push_bit_eq_mult mult.commute)
  finally have e: "get16be xs i = word_of_nat (unat ?a * 256 + unat ?b)" .
  show ?thesis
    unfolding e by (rule unat_word_of_nat) (use unat_byte [of ?a] unat_byte [of ?b] in simp)
qed

subsection \<open>The network card\<close>

definition ax_net_recv :: "u8 list \<Rightarrow> net \<Rightarrow> nat \<times> u8 list \<times> net" where
  "ax_net_recv buf s =
     (case inbox s of
        [] \<Rightarrow> (0, buf, s)
      | f # fs \<Rightarrow>
          let s1 = s\<lparr>inbox := fs\<rparr>
          in if length f \<le> length buf then (length f, f @ drop (length f) buf, s1) else (0, buf, s1))"

definition ax_net_send :: "u8 list \<Rightarrow> net \<Rightarrow> bool \<times> net" where
  "ax_net_send f s = (if nic_ok s f then (True, s\<lparr>sent := sent s @ [f]\<rparr>) else (False, s))"

definition ax_sleep_ms :: "nat \<Rightarrow> net \<Rightarrow> net" where
  "ax_sleep_ms ms s = s\<lparr>now := now s + word_of_nat (ms div 10)\<rparr>"

text \<open>
  \<^verbatim>\<open>while (waited < bound) { body; ax_sleep_ms(dt); waited += dt; }\<close>, left as soon as the body has a
  result. The milliseconds waited are returned as well.
\<close>

function poll_loop :: "nat \<Rightarrow> (net \<Rightarrow> 'r option \<times> net) \<Rightarrow> nat \<Rightarrow> nat \<Rightarrow> net \<Rightarrow> 'r option \<times> nat \<times> net" where
  "poll_loop dt body bound w s =
     (if w < bound \<and> 0 < dt
      then (case body s of
              (Some r, s1) \<Rightarrow> (Some r, w, s1)
            | (None, s1) \<Rightarrow> poll_loop dt body bound (w + dt) (ax_sleep_ms dt s1))
      else (None, w, s))"
  by auto
termination by (relation "measure (\<lambda>(dt, body, bound, w, s). bound - w)") auto

declare poll_loop.simps [simp del]

lemma poll_loop_waited:
  "poll_loop dt body bound w s = (None, w', s') \<Longrightarrow> 0 < dt \<Longrightarrow> bound \<le> w' \<and> w \<le> w'"
proof (induction dt body bound w s arbitrary: w' s' rule: poll_loop.induct)
  case (1 dt body bound w s)
  show ?case
  proof (cases "w < bound")
    case True
    obtain r s1 where b: "body s = (r, s1)" by fastforce
    with 1(2) 1(3) True have r: "r = None" "poll_loop dt body bound (w + dt) (ax_sleep_ms dt s1) = (None, w', s')"
      by (auto simp: poll_loop.simps [of dt body bound w s] split: option.splits)
    from 1(1) [OF _ b [symmetric] r] 1(3) True have "bound \<le> w' \<and> w + dt \<le> w'" by simp
    then show ?thesis by simp
  qed (use 1(2) in \<open>simp add: poll_loop.simps [of dt body bound w s]\<close>)
qed

text \<open>An invariant of the body that sleeping keeps holds after the loop.\<close>

lemma poll_loop_inv:
  assumes "I s" and "\<And>s r s'. I s \<Longrightarrow> body s = (r, s') \<Longrightarrow> (case r of None \<Rightarrow> I s' | Some x \<Rightarrow> R x s')"
    and "\<And>s. I s \<Longrightarrow> I (ax_sleep_ms dt s)"
    and "poll_loop dt body bound w s = (r, w', s')"
  shows "case r of None \<Rightarrow> I s' | Some x \<Rightarrow> R x s'"
  using assms(1,4)
proof (induction dt\<equiv>dt body\<equiv>body bound w s arbitrary: r w' s' rule: poll_loop.induct)
  case (1 bound w s)
  obtain r1 s1 where b: "body s = (r1, s1)" by fastforce
  show ?case
  proof (cases "w < bound \<and> 0 < dt")
    case True
    then show ?thesis
      using 1 b assms(2) [OF 1(2) b] assms(3)
      by (cases r1) (auto simp: poll_loop.simps [of dt body bound w s])
  qed (use 1 in \<open>auto simp: poll_loop.simps [of dt body bound w s]\<close>)
qed

subsection \<open>The Internet checksum\<close>

text \<open>\<^verbatim>\<open>sum\<close> is a natural: its 32 bits suffice for every packet up to 128 KB.\<close>

fun sum_words :: "nat \<Rightarrow> u8 list \<Rightarrow> nat" where
  "sum_words n (a # b # p) = sum_words (n + (unat a * 256 + unat b)) p"
| "sum_words n [a] = n + unat a * 256"
| "sum_words n [] = n"

function fold16 :: "nat \<Rightarrow> nat" where
  "fold16 n = (if n < 65536 then n else fold16 (n mod 65536 + n div 65536))"
  by auto
termination
proof (relation "measure id")
  fix n :: nat
  assume "\<not> n < 65536"
  then have "0 < n div 65536" by (simp add: div_greater_zero_iff)
  then have "n mod 65536 + n div 65536 < n"
    using div_mult_mod_eq [of n 65536] by linarith
  then show "(n mod 65536 + n div 65536, n) \<in> measure id" by simp
qed simp

declare fold16.simps [simp del]

definition ip_checksum :: "u8 list \<Rightarrow> u16" where
  "ip_checksum data = NOT (word_of_nat (fold16 (sum_words 0 data)))"

lemma sum_words_acc: "sum_words n xs = n + sum_words 0 xs"
proof (induction xs arbitrary: n rule: induct_list012)
  case (3 a b p)
  show ?case using 3(1) [of "n + (unat a * 256 + unat b)"] 3(1) [of "unat a * 256 + unat b"] by simp
qed simp_all

lemma sum_words_append: "even (length xs) \<Longrightarrow> sum_words n (xs @ ys) = sum_words (sum_words n xs) ys"
  by (induction n xs rule: sum_words.induct) auto


text \<open>Folding keeps the sum modulo $2^{16} - 1$, and only an empty sum folds to zero.\<close>

lemma fold16_less: "fold16 n < 65536"
  by (induction n rule: fold16.induct) (subst fold16.simps, simp)

lemma fold16_mod: "fold16 n mod 65535 = n mod 65535"
proof (induction n rule: fold16.induct)
  case (1 n)
  have "n = n mod 65536 + n div 65536 + 65535 * (n div 65536)"
    using div_mult_mod_eq [of n 65536] by simp
  then have "(n mod 65536 + n div 65536) mod 65535 = n mod 65535" by (metis mod_mult_self2)
  then show ?case using 1 by (subst fold16.simps) simp
qed

lemma fold16_pos: "0 < n \<Longrightarrow> 0 < fold16 n"
proof (induction n rule: fold16.induct)
  case (1 n)
  show ?case
  proof (cases "n < 65536")
    case False
    then have "0 < n div 65536" by (simp add: div_greater_zero_iff)
    then show ?thesis using 1 False by (subst fold16.simps) simp
  qed (use 1(2) in \<open>subst fold16.simps, simp\<close>)
qed

lemma fold16_full: "0 < n \<Longrightarrow> n mod 65535 = 0 \<Longrightarrow> fold16 n = 65535"
  using fold16_mod [of n] fold16_less [of n] fold16_pos [of n] by (auto simp: mod_eq_0_iff_dvd dvd_def)

lemma ip_checksum_zero: "0 < sum_words 0 xs \<Longrightarrow> sum_words 0 xs mod 65535 = 0 \<Longrightarrow> ip_checksum xs = 0"
  by (simp add: ip_checksum_def fold16_full)

lemma unat_ip_checksum: "unat (ip_checksum xs) = 65535 - fold16 (sum_words 0 xs)"
proof -
  have "unat (word_of_nat (fold16 (sum_words 0 xs)) :: u16) = fold16 (sum_words 0 xs)"
    using fold16_less by (intro unat_word_of_nat) simp
  moreover have "unat (NOT w) = 65535 - unat w" for w :: u16
  proof -
    have "NOT w = 0xFFFF - w" by (simp add: not_eq_complement)
    moreover have "unat w < 2 ^ LENGTH(16)" by (rule unsigned_less)
    then have "w \<le> 0xFFFF" by (simp add: word_le_nat_alt)
    ultimately show ?thesis by (simp add: unat_sub)
  qed
  ultimately show ?thesis by (simp add: ip_checksum_def)
qed

text \<open>The receiver's test: with the checksum put into its (even) place the packet sums to zero.\<close>

theorem checksum_verifies:
  assumes "even (length ps)"
  shows "ip_checksum (ps @ put16be (ip_checksum (ps @ [0, 0] @ qs)) @ qs) = 0"
proof -
  let ?z = "ps @ [0, 0] @ qs" and ?c = "ip_checksum (ps @ [0, 0] @ qs)"
  let ?S = "sum_words 0 (ps @ [0, 0] @ qs)"
  have c: "unat (put16be v ! 0) * 256 + unat (put16be v ! 1) = unat v" for v
  proof -
    have "get16be (put16be v) 0 = v" by (rule get16_put16) simp_all
    then show ?thesis using unat_get16 [of "put16be v" 0] by simp
  qed
  have "sum_words 0 (ps @ put16be v @ qs) = ?S + unat v" for v
  proof -
    have "put16be v = [put16be v ! 0, put16be v ! 1]" by (simp add: put16be_def)
    then have "sum_words 0 (ps @ put16be v @ qs) = sum_words (sum_words 0 ps + unat v) qs"
      using sum_words_append [OF assms, of 0] c [of v] by (metis append_Cons append_Nil sum_words.simps(1))
    moreover have "?S = sum_words (sum_words 0 ps) qs" using sum_words_append [OF assms, of 0] by simp
    ultimately show ?thesis using sum_words_acc [of "sum_words 0 ps + unat v"] sum_words_acc [of "sum_words 0 ps"] by simp
  qed
  then have e: "sum_words 0 (ps @ put16be ?c @ qs) = ?S + (65535 - fold16 ?S)" by (simp add: unat_ip_checksum)
  have f: "fold16 ?S \<le> 65535" using fold16_less [of ?S] by simp
  show ?thesis
  proof (rule ip_checksum_zero)
    show "0 < sum_words 0 (ps @ put16be ?c @ qs)"
    proof (cases "?S = 0")
      case True
      then show ?thesis unfolding e by (subst fold16.simps) simp
    next
      case False
      then show ?thesis unfolding e by simp
    qed
    have "(?S + (65535 - fold16 ?S)) mod 65535 = (fold16 ?S + (65535 - fold16 ?S)) mod 65535"
      by (rule mod_add_cong [OF fold16_mod [symmetric] refl])
    also have "fold16 ?S + (65535 - fold16 ?S) = 65535" using f by (rule le_add_diff_inverse)
    finally show "sum_words 0 (ps @ put16be ?c @ qs) mod 65535 = 0" unfolding e by (simp only: mod_self)
  qed
qed

end
