(* ===== verification/NetArp.thy ===== *)
theory NetArp
  imports Net
begin

section \<open>Address resolution\<close>

text \<open>
  \<^verbatim>\<open>src/src/user/arp.h\<close>: the cache of eight entries, the broadcast request, the two handlers of
  received frames, and the resolution of an address or of the next hop towards it. A packet is the
  list of its bytes; the static receive buffer keeps what earlier frames left behind the new one.
\<close>

abbreviation ARP_CACHE_SIZE :: nat where "ARP_CACHE_SIZE \<equiv> 8"

definition arp_lookup :: "u32 \<Rightarrow> net \<Rightarrow> nat option" where
  "arp_lookup ip s =
     find (\<lambda>i. arp_valid (arp_cache_tbl s ! i) \<and> arp_ip (arp_cache_tbl s ! i) = ip) [0..<ARP_CACHE_SIZE]"

definition arp_cache_put :: "u32 \<Rightarrow> u8 list \<Rightarrow> net \<Rightarrow> net" where
  "arp_cache_put ip mac s =
     (let slot = (case arp_lookup ip s of
                    Some i \<Rightarrow> i
                  | None \<Rightarrow> (case find (\<lambda>i. \<not> arp_valid (arp_cache_tbl s ! i)) [0..<ARP_CACHE_SIZE] of
                               Some i \<Rightarrow> i | None \<Rightarrow> 0))
      in s\<lparr>arp_cache_tbl := (arp_cache_tbl s)[slot := \<lparr>arp_ip = ip, arp_mac = mac, arp_valid = True\<rparr>]\<rparr>)"

definition arp_cache_get :: "u32 \<Rightarrow> net \<Rightarrow> u8 list option" where
  "arp_cache_get ip s = map_option (\<lambda>i. arp_mac (arp_cache_tbl s ! i)) (arp_lookup ip s)"

text \<open>\<^verbatim>\<open>if (!arp_my_mac_ok) arp_my_mac_ok = ax_net_mac(arp_my_mac);\<close>\<close>

definition arp_learn_mac :: "net \<Rightarrow> net" where
  "arp_learn_mac s =
     (if arp_my_mac_ok s then s
      else case nic_mac s of None \<Rightarrow> s | Some m \<Rightarrow> s\<lparr>arp_my_mac := m, arp_my_mac_ok := True\<rparr>)"

text \<open>Both frames the library builds; \<open>sha\<close> and \<open>spa\<close> are the sender's addresses.\<close>

definition arp_frame :: "u8 list \<Rightarrow> u16 \<Rightarrow> u8 list \<Rightarrow> u32 \<Rightarrow> u8 list \<Rightarrow> u8 list \<Rightarrow> u8 list" where
  "arp_frame dst oper sha spa tha tpa =
     dst @ sha @ put16be 0x0806 @ put16be 1 @ put16be 0x0800 @ [6, 4] @ put16be oper @
     sha @ put32be spa @ tha @ tpa"

definition arp_send_request :: "u32 \<Rightarrow> net \<Rightarrow> net" where
  "arp_send_request ip s =
     (let s1 = arp_learn_mac s
      in snd (ax_net_send (arp_frame (replicate 6 0xFF) 1 (arp_my_mac s1) (g_my_ip s1) (replicate 6 0) (put32be ip)) s1))"

definition arp_handle_frame :: "u8 list \<Rightarrow> nat \<Rightarrow> u32 \<Rightarrow> net \<Rightarrow> u8 list option \<times> net" where
  "arp_handle_frame rx n wanted_ip s =
     (if n < 42 then (None, s)
      else if rx ! 12 \<noteq> 0x08 \<or> rx ! 13 \<noteq> 0x06 then (None, s)
      else if rx ! 20 \<noteq> 0 \<or> rx ! 21 \<noteq> 2 then (None, s)
      else let sender_ip = get32be rx 28;
               mac = take 6 (drop 22 rx);
               s1 = arp_cache_put sender_ip mac s
           in (if sender_ip = wanted_ip then Some mac else None, s1))"

definition arp_maybe_respond :: "u8 list \<Rightarrow> nat \<Rightarrow> net \<Rightarrow> bool \<times> net" where
  "arp_maybe_respond rx n s =
     (if n < 42 then (False, s)
      else if rx ! 12 \<noteq> 0x08 \<or> rx ! 13 \<noteq> 0x06 then (False, s)
      else if rx ! 20 \<noteq> 0 \<or> rx ! 21 \<noteq> 1 then (False, s)
      else if get32be rx 38 \<noteq> g_my_ip s then (False, s)
      else let s1 = arp_learn_mac s;
               sha = take 6 (drop 22 rx)
           in (True, snd (ax_net_send (arp_frame sha 2 (arp_my_mac s1) (g_my_ip s1) sha (take 4 (drop 28 rx))) s1)))"

definition arp_receive :: "net \<Rightarrow> nat \<times> net" where
  "arp_receive s = (case ax_net_recv (arp_rx_buf s) s of (n, buf, s1) \<Rightarrow> (n, s1\<lparr>arp_rx_buf := buf\<rparr>))"

definition arp_wait_step :: "u32 \<Rightarrow> net \<Rightarrow> u8 list option \<times> net" where
  "arp_wait_step ip s =
     (case arp_receive s of
        (n, s1) \<Rightarrow>
          if 0 < n
          then (case arp_handle_frame (arp_rx_buf s1) n ip s1 of
                  (Some mac, s2) \<Rightarrow> (Some mac, s2)
                | (None, s2) \<Rightarrow> (None, snd (arp_maybe_respond (arp_rx_buf s2) n s2)))
          else (None, s1))"

definition arp_resolve :: "u32 \<Rightarrow> nat \<Rightarrow> net \<Rightarrow> u8 list option \<times> net" where
  "arp_resolve ip timeout_ms s =
     (case arp_cache_get ip s of
        Some mac \<Rightarrow> (Some mac, s)
      | None \<Rightarrow>
          (case poll_loop 20 (arp_wait_step ip) timeout_ms 0 (arp_send_request ip s) of
             (r, waited, s1) \<Rightarrow> (r, s1)))"

definition next_hop :: "u32 \<Rightarrow> net \<Rightarrow> u32" where
  "next_hop dst_ip s =
     (if dst_ip AND g_subnet_mask s = g_my_ip s AND g_subnet_mask s then dst_ip else g_router_ip s)"

definition arp_resolve_next_hop :: "u32 \<Rightarrow> nat \<Rightarrow> net \<Rightarrow> u8 list option \<times> net" where
  "arp_resolve_next_hop dst_ip timeout_ms s = arp_resolve (next_hop dst_ip s) timeout_ms s"

subsection \<open>The cache\<close>

text \<open>Eight entries, each with an address of six bytes, and no address twice among the valid ones.\<close>

definition arp_ok :: "net \<Rightarrow> bool" where
  "arp_ok s \<longleftrightarrow>
     length (arp_cache_tbl s) = ARP_CACHE_SIZE \<and> length (arp_rx_buf s) = 128 \<and> length (arp_my_mac s) = 6 \<and>
     (\<forall>m. nic_mac s = Some m \<longrightarrow> length m = 6) \<and>
     (\<forall>e\<in>set (arp_cache_tbl s). length (arp_mac e) = 6) \<and>
     (\<forall>i<ARP_CACHE_SIZE. \<forall>j<ARP_CACHE_SIZE.
        arp_valid (arp_cache_tbl s ! i) \<and> arp_valid (arp_cache_tbl s ! j) \<and>
        arp_ip (arp_cache_tbl s ! i) = arp_ip (arp_cache_tbl s ! j) \<longrightarrow> i = j)"

end
