(* ===== verification/NetIp.thy ===== *)
theory NetIp
  imports NetArp
begin

section \<open>IPv4: echo and datagrams\<close>

text \<open>
  \<^verbatim>\<open>src/src/user/icmp.h\<close> (echo request and reply) and \<^verbatim>\<open>src/src/user/udp.h\<close> (the random
  numbers of the library, sending and receiving datagrams). The Ethernet and IP headers all protocols
  write are \<open>eth_header\<close> and \<open>ip_header\<close>; headers have no options on the way out, on the way in the
  length field of the header is obeyed.
\<close>

abbreviation IP_PROTO_ICMP :: u8 where "IP_PROTO_ICMP \<equiv> 1"
abbreviation IP_PROTO_TCP :: u8 where "IP_PROTO_TCP \<equiv> 6"
abbreviation IP_PROTO_UDP :: u8 where "IP_PROTO_UDP \<equiv> 17"
abbreviation ICMP_ECHO_REQUEST :: u8 where "ICMP_ECHO_REQUEST \<equiv> 8"
abbreviation ICMP_ECHO_REPLY :: u8 where "ICMP_ECHO_REPLY \<equiv> 0"
abbreviation ICMP_ID :: u16 where "ICMP_ID \<equiv> 0x4158"
abbreviation PING_PAYLOAD_LEN :: nat where "PING_PAYLOAD_LEN \<equiv> 32"

definition eth_header :: "u8 list \<Rightarrow> u8 list \<Rightarrow> u8 list" where
  "eth_header dst src = dst @ src @ put16be 0x0800"

definition ip_head :: "nat \<Rightarrow> u16 \<Rightarrow> u8 \<Rightarrow> u8 list" where
  "ip_head tot ident proto =
     [0x45, 0] @ put16be (word_of_nat tot) @ put16be ident @ put16be 0 @ [64, proto]"

definition ip_header :: "nat \<Rightarrow> u16 \<Rightarrow> u8 \<Rightarrow> u32 \<Rightarrow> u32 \<Rightarrow> u8 list" where
  "ip_header tot ident proto src dst =
     (let h = ip_head tot ident proto; a = put32be src @ put32be dst
      in h @ put16be (ip_checksum (h @ [0, 0] @ a)) @ a)"

text \<open>\<^verbatim>\<open>(unsigned int)(ip[0] & 0x0F) * 4\<close> for the IP header behind the Ethernet header.\<close>

definition ihl :: "u8 list \<Rightarrow> nat" where
  "ihl rx = unat (rx ! 14 AND 0x0F) * 4"

subsection \<open>Echo\<close>

definition icmp_message :: "u8 \<Rightarrow> u8 list \<Rightarrow> u8 list" where
  "icmp_message type rest = [type, 0] @ put16be (ip_checksum ([type, 0] @ [0, 0] @ rest)) @ rest"

definition icmp_payload_len :: "u8 list \<Rightarrow> nat \<Rightarrow> nat" where
  "icmp_payload_len rx n =
     (let ip_total = unat (get16be rx 16);
          icmp_len = (if ihl rx < ip_total then ip_total - ihl rx else 0);
          payload_len = (if 8 < icmp_len then icmp_len - 8 else 0);
          avail = (if 14 + ihl rx + 8 < n then n - (14 + ihl rx + 8) else 0)
      in min (min payload_len PING_PAYLOAD_LEN) avail)"

definition icmp_maybe_respond :: "u8 list \<Rightarrow> nat \<Rightarrow> net \<Rightarrow> bool \<times> net" where
  "icmp_maybe_respond rx n s =
     (if n < 14 + 20 + 8 then (False, s)
      else if rx ! 12 \<noteq> 0x08 \<or> rx ! 13 \<noteq> 0x00 then (False, s)
      else if rx ! 23 \<noteq> IP_PROTO_ICMP then (False, s)
      else if n < 14 + ihl rx + 8 then (False, s)
      else if get32be rx 30 \<noteq> g_my_ip s then (False, s)
      else if rx ! (14 + ihl rx) \<noteq> ICMP_ECHO_REQUEST then (False, s)
      else case nic_mac s of
             None \<Rightarrow> (False, s)
           | Some my_mac \<Rightarrow>
               let payload_len = icmp_payload_len rx n;
                   rest = take (4 + payload_len) (drop (14 + ihl rx + 4) rx);
                   f = eth_header (take 6 (drop 6 rx)) my_mac @
                       ip_header (20 + (8 + payload_len)) 0 IP_PROTO_ICMP (g_my_ip s) (get32be rx 26) @
                       icmp_message ICMP_ECHO_REPLY rest
               in (True, snd (ax_net_send f s)))"

definition ping_payload :: "u8 list" where
  "ping_payload = map (\<lambda>i. 0x61 + word_of_nat (i mod 23)) [0..<PING_PAYLOAD_LEN]"

definition icmp_receive :: "net \<Rightarrow> nat \<times> net" where
  "icmp_receive s = (case ax_net_recv (icmp_rx s) s of (n, buf, s1) \<Rightarrow> (n, s1\<lparr>icmp_rx := buf\<rparr>))"

text \<open>Is this the reply to our request number \<open>seq\<close>? The code reads the ICMP header at a fixed place.\<close>

definition is_echo_reply :: "u8 list \<Rightarrow> u16 \<Rightarrow> bool" where
  "is_echo_reply rx seq =
     (rx ! 12 = 0x08 \<and> rx ! 13 = 0x00 \<and> rx ! 23 = IP_PROTO_ICMP \<and> rx ! 34 = ICMP_ECHO_REPLY \<and>
      get16be rx 38 = ICMP_ID \<and> get16be rx 40 = seq)"

definition ping_step :: "u16 \<Rightarrow> u32 \<Rightarrow> net \<Rightarrow> u32 option \<times> net" where
  "ping_step seq t0 s =
     (case icmp_receive s of
        (n, s1) \<Rightarrow>
          if 14 + 20 + 8 \<le> n
          then if is_echo_reply (icmp_rx s1) seq
               then (Some ((now s1 - t0) * 10), s1)
               else (None, snd (icmp_maybe_respond (icmp_rx s1) n s1))
          else (None, s1))"

definition icmp_ping :: "u32 \<Rightarrow> u16 \<Rightarrow> nat \<Rightarrow> net \<Rightarrow> u32 option \<times> net" where
  "icmp_ping dst_ip seq timeout_ms s =
     (case nic_mac s of
        None \<Rightarrow> (None, s)
      | Some my_mac \<Rightarrow>
          (case arp_resolve_next_hop dst_ip 2000 s of
             (None, s1) \<Rightarrow> (None, s1)
           | (Some dst_mac, s1) \<Rightarrow>
               let icmp_len = 8 + PING_PAYLOAD_LEN;
                   f = eth_header dst_mac my_mac @
                       ip_header (20 + icmp_len) seq IP_PROTO_ICMP (g_my_ip s1) dst_ip @
                       icmp_message ICMP_ECHO_REQUEST (put16be ICMP_ID @ put16be seq @ ping_payload);
                   t0 = now s1
               in (case poll_loop 10 (ping_step seq t0) timeout_ms 0 (snd (ax_net_send f s1)) of
                     (r, waited, s2) \<Rightarrow> (r, s2))))"

subsection \<open>Random numbers\<close>

definition net_rand32 :: "net \<Rightarrow> u32 \<times> net" where
  "net_rand32 s =
     (let x0 = (if net_rand_state s = 0
                then let y = ucast (now s) XOR 0x9E3779B97F4A7C15 in if y = 0 then 1 else y
                else net_rand_state s);
          x1 = x0 XOR push_bit 13 x0;
          x2 = x1 XOR drop_bit 7 x1;
          x3 = x2 XOR push_bit 17 x2
      in (ucast (drop_bit 32 x3), s\<lparr>net_rand_state := x3\<rparr>))"

subsection \<open>Datagrams\<close>

definition udp_send :: "u32 \<Rightarrow> u16 \<Rightarrow> u16 \<Rightarrow> u8 list \<Rightarrow> net \<Rightarrow> bool \<times> net" where
  "udp_send dst_ip dst_port src_port payload s =
     (if 512 < length payload then (False, s)
      else case nic_mac s of
             None \<Rightarrow> (False, s)
           | Some my_mac \<Rightarrow>
               (case arp_resolve_next_hop dst_ip 2000 s of
                  (None, s1) \<Rightarrow> (False, s1)
                | (Some dst_mac, s1) \<Rightarrow>
                    let udp_len = 8 + length payload;
                        f = eth_header dst_mac my_mac @
                            ip_header (20 + udp_len) 0 IP_PROTO_UDP (g_my_ip s1) dst_ip @
                            put16be src_port @ put16be dst_port @ put16be (word_of_nat udp_len) @ [0, 0] @ payload
                    in ax_net_send f s1))"

record datagram =
  dg_src_ip :: u32
  dg_src_port :: u16
  dg_dst_port :: u16
  dg_data :: "u8 list"

definition udp_parse :: "u8 list \<Rightarrow> nat \<Rightarrow> nat \<Rightarrow> datagram option" where
  "udp_parse rx n max_len =
     (if n < 14 + 20 + 8 then None
      else if rx ! 12 \<noteq> 0x08 \<or> rx ! 13 \<noteq> 0x00 then None
      else if rx ! 23 \<noteq> IP_PROTO_UDP then None
      else if n < 14 + ihl rx + 8 then None
      else let udp = 14 + ihl rx;
               udp_len = unat (get16be rx (udp + 4));
               data_len = (if 8 < udp_len then udp_len - 8 else 0);
               avail = (if udp + 8 < n then n - (udp + 8) else 0);
               len = min (min data_len max_len) avail
           in Some \<lparr>dg_src_ip = get32be rx 26, dg_src_port = get16be rx udp, dg_dst_port = get16be rx (udp + 2),
                    dg_data = take len (drop (udp + 8) rx)\<rparr>)"

definition udp_receive :: "net \<Rightarrow> nat \<times> net" where
  "udp_receive s = (case ax_net_recv (udp_rx s) s of (n, buf, s1) \<Rightarrow> (n, s1\<lparr>udp_rx := buf\<rparr>))"

definition udp_recv :: "nat \<Rightarrow> net \<Rightarrow> datagram option \<times> net" where
  "udp_recv max_len s = (case udp_receive s of (n, s1) \<Rightarrow> (udp_parse (udp_rx s1) n max_len, s1))"

end
