(* ===== verification/Tcp.thy ===== *)
theory Tcp
  imports NetIp
begin

section \<open>TCP, one connection\<close>

text \<open>
  \<^verbatim>\<open>src/src/user/tcp.h\<close>, lines 1 to 421: segments, the handshakes of client and server, sending with
  retransmission, receiving, closing. All the loops that wait are instances of \<open>poll_loop\<close>; the
  retransmission of a handshake is \<open>retry_loop\<close>, that of data and FIN a recursion over the attempts.
\<close>

definition TCP_FLAG_FIN :: u8 where "TCP_FLAG_FIN = 0x01"
definition TCP_FLAG_SYN :: u8 where "TCP_FLAG_SYN = 0x02"
definition TCP_FLAG_PSH :: u8 where "TCP_FLAG_PSH = 0x08"
definition TCP_FLAG_ACK :: u8 where "TCP_FLAG_ACK = 0x10"

lemmas tcp_flag_defs = TCP_FLAG_FIN_def TCP_FLAG_SYN_def TCP_FLAG_PSH_def TCP_FLAG_ACK_def

abbreviation TCP_LOCAL_PORT :: u16 where "TCP_LOCAL_PORT \<equiv> 40000"
abbreviation TCP_RTO_MS :: nat where "TCP_RTO_MS \<equiv> 300"
abbreviation TCP_RTO_MAX_MS :: nat where "TCP_RTO_MAX_MS \<equiv> 2000"
abbreviation TCP_MAX_RETRIES :: nat where "TCP_MAX_RETRIES \<equiv> 5"

record tcp_conn =
  remote_ip :: u32
  remote_port :: u16
  local_port :: u16
  remote_mac :: "u8 list"
  my_mac :: "u8 list"
  snd_nxt :: u32
  rcv_nxt :: u32
  connected :: bool
  peer_closed :: bool

record tcp_seg =
  seg_src_ip :: u32
  seg_src_port :: u16
  seg_dst_port :: u16
  seg_seq :: u32
  seg_ack :: u32
  seg_flags :: u8
  seg_data :: "u8 list"

definition has_flag :: "tcp_seg \<Rightarrow> u8 \<Rightarrow> bool" where
  "has_flag seg f \<longleftrightarrow> seg_flags seg AND f \<noteq> 0"

definition tcp_checksum :: "u32 \<Rightarrow> u32 \<Rightarrow> u8 list \<Rightarrow> u16" where
  "tcp_checksum src_ip dst_ip seg =
     ip_checksum (put32be src_ip @ put32be dst_ip @ [0, IP_PROTO_TCP] @ put16be (word_of_nat (length seg)) @ seg)"

text \<open>\<open>rx\<close> is the receive buffer, of which the first \<open>n\<close> bytes are the frame.\<close>

definition tcp_parse_segment :: "u8 list \<Rightarrow> nat \<Rightarrow> tcp_seg option" where
  "tcp_parse_segment rx n =
     (if n < 14 + 20 + 20 then None
      else if rx ! 12 \<noteq> 0x08 \<or> rx ! 13 \<noteq> 0x00 then None
      else if rx ! 23 \<noteq> IP_PROTO_TCP then None
      else if n < 14 + ihl rx + 20 then None
      else let tcph = 14 + ihl rx;
               tcp_hlen = unat (drop_bit 4 (rx ! (tcph + 12)) AND 0x0F) * 4
           in if n < tcph + tcp_hlen then None
              else let ip_total = unat (get16be rx 16);
                       seg_len = (if ihl rx < ip_total then ip_total - ihl rx else 0);
                       data_len = (if tcp_hlen < seg_len then seg_len - tcp_hlen else 0);
                       avail = (if tcph + tcp_hlen < n then n - (tcph + tcp_hlen) else 0);
                       len = min data_len avail
                   in Some \<lparr>seg_src_ip = get32be rx 26, seg_src_port = get16be rx tcph,
                            seg_dst_port = get16be rx (tcph + 2), seg_seq = get32be rx (tcph + 4),
                            seg_ack = get32be rx (tcph + 8), seg_flags = rx ! (tcph + 13),
                            seg_data = take len (drop (tcph + tcp_hlen) rx)\<rparr>)"

text \<open>The header in front of the checksum field; window 8192, no options.\<close>

definition tcp_head :: "tcp_conn \<Rightarrow> u8 \<Rightarrow> u8 list" where
  "tcp_head c flags =
     put16be (local_port c) @ put16be (remote_port c) @ put32be (snd_nxt c) @ put32be (rcv_nxt c) @
     [0x50, flags] @ put16be 8192"

definition tcp_segment :: "u32 \<Rightarrow> tcp_conn \<Rightarrow> u8 \<Rightarrow> u8 list \<Rightarrow> u8 list" where
  "tcp_segment ip c flags payload =
     (let h = tcp_head c flags; rest = [0, 0] @ payload
      in h @ put16be (tcp_checksum ip (remote_ip c) (h @ [0, 0] @ rest)) @ rest)"

definition tcp_frame :: "u32 \<Rightarrow> tcp_conn \<Rightarrow> u8 \<Rightarrow> u8 list \<Rightarrow> u8 list" where
  "tcp_frame ip c flags payload =
     eth_header (remote_mac c) (my_mac c) @
     ip_header (20 + (20 + length payload)) 0 IP_PROTO_TCP ip (remote_ip c) @
     tcp_segment ip c flags payload"

definition tcp_send_segment :: "tcp_conn \<Rightarrow> u8 \<Rightarrow> u8 list \<Rightarrow> net \<Rightarrow> net" where
  "tcp_send_segment c flags payload s = snd (ax_net_send (tcp_frame (g_my_ip s) c flags payload) s)"

definition tcp_receive :: "net \<Rightarrow> nat \<times> net" where
  "tcp_receive s = (case ax_net_recv (tcp_rx s) s of (n, buf, s1) \<Rightarrow> (n, s1\<lparr>tcp_rx := buf\<rparr>))"

text \<open>The next frame, if it is a segment from the peer of \<open>c\<close> to its port.\<close>

definition from_peer :: "tcp_conn \<Rightarrow> tcp_seg \<Rightarrow> bool" where
  "from_peer c seg \<longleftrightarrow>
     seg_src_ip seg = remote_ip c \<and> seg_src_port seg = remote_port c \<and> seg_dst_port seg = local_port c"

definition tcp_poll_peer :: "tcp_conn \<Rightarrow> net \<Rightarrow> tcp_seg option \<times> net" where
  "tcp_poll_peer c s =
     (case tcp_receive s of
        (n, s1) \<Rightarrow>
          (if 0 < n then (case tcp_parse_segment (tcp_rx s1) n of
                            Some seg \<Rightarrow> if from_peer c seg then Some seg else None
                          | None \<Rightarrow> None)
           else None, s1))"

subsection \<open>Opening\<close>

definition rto_next :: "nat \<Rightarrow> nat" where
  "rto_next rto = (if TCP_RTO_MAX_MS < rto * 2 then TCP_RTO_MAX_MS else rto * 2)"

text \<open>
  \<^verbatim>\<open>while (elapsed < timeout) { waited = 0; while (waited < rto && elapsed < timeout) { body; sleep 10 }
  if (elapsed < timeout) { resend; rto = min(2 * rto, max); } }\<close>; \<open>rto\<close> is never 0.
\<close>

function retry_loop ::
  "(net \<Rightarrow> 'r option \<times> net) \<Rightarrow> (net \<Rightarrow> net) \<Rightarrow> nat \<Rightarrow> nat \<Rightarrow> nat \<Rightarrow> net \<Rightarrow> 'r option \<times> net" where
  "retry_loop body resend timeout rto elapsed s =
     (if elapsed < timeout \<and> 0 < rto
      then (case poll_loop 10 body (min rto (timeout - elapsed)) 0 s of
              (Some r, waited, s1) \<Rightarrow> (Some r, s1)
            | (None, waited, s1) \<Rightarrow>
                if elapsed + waited < timeout
                then retry_loop body resend timeout (rto_next rto) (elapsed + waited) (resend s1)
                else (None, s1))
      else (None, s))"
  by auto
termination
proof (relation "measure (\<lambda>(body, resend, timeout, rto, elapsed, s). timeout - elapsed)")
  fix body :: "net \<Rightarrow> 'r option \<times> net" and resend s r p s1 and timeout rto elapsed waited :: nat
  assume e: "elapsed < timeout \<and> 0 < rto" and p: "(r, p) = poll_loop 10 body (min rto (timeout - elapsed)) 0 s"
    "r = None" "(waited, s1) = p"
  have "poll_loop 10 body (min rto (timeout - elapsed)) 0 s = (None, waited, s1)" using p by simp
  then have "min rto (timeout - elapsed) \<le> waited" using poll_loop_waited by fastforce
  moreover have "0 < min rto (timeout - elapsed)" using e by simp
  ultimately have "timeout - (elapsed + waited) < timeout - elapsed" using e by linarith
  then show "((body, resend, timeout, rto_next rto, elapsed + waited, resend s1),
      (body, resend, timeout, rto, elapsed, s)) \<in> measure (\<lambda>(body, resend, timeout, rto, elapsed, s). timeout - elapsed)"
    by simp
qed simp

declare retry_loop.simps [simp del]

definition connect_step :: "u32 \<Rightarrow> tcp_conn \<Rightarrow> net \<Rightarrow> tcp_conn option \<times> net" where
  "connect_step isn c s =
     (case tcp_poll_peer c s of
        (Some seg, s1) \<Rightarrow>
          if has_flag seg TCP_FLAG_SYN \<and> has_flag seg TCP_FLAG_ACK
          then let c1 = c\<lparr>rcv_nxt := seg_seq seg + 1, snd_nxt := isn + 1\<rparr>
               in (Some (c1\<lparr>connected := True\<rparr>), tcp_send_segment c1 TCP_FLAG_ACK [] s1)
          else (None, s1)
      | (None, s1) \<Rightarrow> (None, s1))"

definition tcp_connect :: "tcp_conn \<Rightarrow> u32 \<Rightarrow> u16 \<Rightarrow> nat \<Rightarrow> net \<Rightarrow> bool \<times> tcp_conn \<times> net" where
  "tcp_connect c ip port timeout_ms s =
     (case nic_mac s of
        None \<Rightarrow> (False, c, s)
      | Some m \<Rightarrow>
          let c0 = c\<lparr>my_mac := m\<rparr>
          in (case arp_resolve_next_hop ip 2000 s of
                (None, s1) \<Rightarrow> (False, c0, s1)
              | (Some rm, s1) \<Rightarrow>
                  let (isn, s2) = net_rand32 s1;
                      c1 = c0\<lparr>remote_mac := rm, remote_ip := ip, remote_port := port, local_port := TCP_LOCAL_PORT,
                              snd_nxt := isn, rcv_nxt := 0, connected := False, peer_closed := False\<rparr>;
                      syn = tcp_send_segment c1 TCP_FLAG_SYN []
                  in (case retry_loop (connect_step isn c1) syn timeout_ms TCP_RTO_MS 0 (syn s2) of
                        (Some c2, s3) \<Rightarrow> (True, c2, s3)
                      | (None, s3) \<Rightarrow> (False, c1, s3))))"

definition handshake_step :: "u32 \<Rightarrow> tcp_conn \<Rightarrow> net \<Rightarrow> tcp_conn option \<times> net" where
  "handshake_step isn c s =
     (case tcp_receive s of
        (n, s1) \<Rightarrow>
          if 0 < n
          then let s2 = snd (arp_maybe_respond (tcp_rx s1) n s1)
               in (case tcp_parse_segment (tcp_rx s2) n of
                     Some seg \<Rightarrow>
                       (if from_peer c seg \<and> has_flag seg TCP_FLAG_ACK \<and> seg_ack seg = isn + 1
                        then Some (c\<lparr>snd_nxt := isn + 1, connected := True\<rparr>) else None, s2)
                   | None \<Rightarrow> (None, s2))
          else (None, s1))"

text \<open>The result of the body is the end of \<^verbatim>\<open>tcp_accept\<close>: success or a handshake that was not finished.\<close>

definition accept_step :: "u16 \<Rightarrow> tcp_conn \<Rightarrow> net \<Rightarrow> (bool \<times> tcp_conn) option \<times> net" where
  "accept_step port c s =
     (case tcp_receive s of
        (n, s1) \<Rightarrow>
          if n = 0 then (None, s1)
          else let s2 = snd (arp_maybe_respond (tcp_rx s1) n s1)
               in (case tcp_parse_segment (tcp_rx s2) n of
                     Some seg \<Rightarrow>
                       if seg_dst_port seg = port \<and> has_flag seg TCP_FLAG_SYN \<and> \<not> has_flag seg TCP_FLAG_ACK
                       then let (isn, s3) = net_rand32 s2;
                                c1 = c\<lparr>remote_ip := seg_src_ip seg, remote_port := seg_src_port seg,
                                       remote_mac := take 6 (drop 6 (tcp_rx s2)), rcv_nxt := seg_seq seg + 1, snd_nxt := isn\<rparr>;
                                syn_ack = tcp_send_segment c1 (TCP_FLAG_SYN OR TCP_FLAG_ACK) []
                            in (case retry_loop (handshake_step isn c1) syn_ack 3000 TCP_RTO_MS 0 (syn_ack s3) of
                                  (Some c2, s4) \<Rightarrow> (Some (True, c2), s4)
                                | (None, s4) \<Rightarrow> (Some (False, c1), s4))
                       else (None, s2)
                   | None \<Rightarrow> (None, s2)))"

definition tcp_accept :: "tcp_conn \<Rightarrow> u16 \<Rightarrow> nat \<Rightarrow> net \<Rightarrow> bool \<times> tcp_conn \<times> net" where
  "tcp_accept c port timeout_ms s =
     (case nic_mac s of
        None \<Rightarrow> (False, c, s)
      | Some m \<Rightarrow>
          let c1 = c\<lparr>my_mac := m, local_port := port, connected := False, peer_closed := False\<rparr>
          in (case poll_loop 10 (accept_step port c1) timeout_ms 0 s of
                (Some (ok, c2), waited, s1) \<Rightarrow> (ok, c2, s1)
              | (None, waited, s1) \<Rightarrow> (False, c1, s1)))"

subsection \<open>Sending, receiving, closing\<close>

text \<open>\<^verbatim>\<open>(int)(ack - expect_ack) >= 0\<close>\<close>

definition ack_covers :: "u32 \<Rightarrow> u32 \<Rightarrow> bool" where
  "ack_covers a expect_ack \<longleftrightarrow> 0 \<le> sint (a - expect_ack)"

definition ack_step :: "tcp_conn \<Rightarrow> u32 \<Rightarrow> net \<Rightarrow> unit option \<times> net" where
  "ack_step c expect_ack s =
     (case tcp_poll_peer c s of
        (Some seg, s1) \<Rightarrow>
          (if has_flag seg TCP_FLAG_ACK \<and> ack_covers (seg_ack seg) expect_ack then Some () else None, s1)
      | (None, s1) \<Rightarrow> (None, s1))"

fun send_attempts :: "nat \<Rightarrow> tcp_conn \<Rightarrow> u8 list \<Rightarrow> u32 \<Rightarrow> nat \<Rightarrow> net \<Rightarrow> bool \<times> net" where
  "send_attempts 0 c data expect_ack rto s = (False, s)"
| "send_attempts (Suc k) c data expect_ack rto s =
     (case poll_loop 10 (ack_step c expect_ack) rto 0 (tcp_send_segment c (TCP_FLAG_PSH OR TCP_FLAG_ACK) data s) of
        (Some u, waited, s1) \<Rightarrow> (True, s1)
      | (None, waited, s1) \<Rightarrow> send_attempts k c data expect_ack (rto_next rto) s1)"

definition tcp_send :: "tcp_conn \<Rightarrow> u8 list \<Rightarrow> net \<Rightarrow> bool \<times> tcp_conn \<times> net" where
  "tcp_send c data s =
     (if \<not> connected c then (False, c, s)
      else if 512 < length data then (False, c, s)
      else let expect_ack = snd_nxt c + word_of_nat (length data)
           in (case send_attempts (TCP_MAX_RETRIES + 1) c data expect_ack TCP_RTO_MS s of
                 (ok, s1) \<Rightarrow> (ok, if ok then c\<lparr>snd_nxt := expect_ack\<rparr> else c, s1)))"

datatype recv_result = RecvData "u8 list" | RecvTimeout | RecvClosed

text \<open>What \<^verbatim>\<open>tcp_recv\<close> does with a segment that starts at \<^verbatim>\<open>rcv_nxt\<close>.\<close>

definition recv_segment :: "nat \<Rightarrow> tcp_conn \<Rightarrow> tcp_seg \<Rightarrow> net \<Rightarrow> (recv_result \<times> tcp_conn) option \<times> net" where
  "recv_segment max_len c seg s =
     (let data = take max_len (seg_data seg);
          fin = has_flag seg TCP_FLAG_FIN;
          c1 = c\<lparr>rcv_nxt := rcv_nxt c + word_of_nat (length data) + (if fin then 1 else 0),
                 peer_closed := peer_closed c \<or> fin\<rparr>;
          s1 = (if data \<noteq> [] \<or> fin then tcp_send_segment c1 TCP_FLAG_ACK [] s else s)
      in (if data \<noteq> [] then Some (RecvData data, c1)
          else if peer_closed c1 then Some (RecvClosed, c1) else None, s1))"

definition recv_step :: "nat \<Rightarrow> tcp_conn \<Rightarrow> net \<Rightarrow> (recv_result \<times> tcp_conn) option \<times> net" where
  "recv_step max_len c s =
     (case tcp_poll_peer c s of
        (Some seg, s1) \<Rightarrow> if seg_seq seg = rcv_nxt c then recv_segment max_len c seg s1 else (None, s1)
      | (None, s1) \<Rightarrow> (None, s1))"

text \<open>\<^verbatim>\<open>for (;;) { body; if (waited >= timeout) break; sleep 10; }\<close>; the body runs at least once.\<close>

function recv_loop :: "nat \<Rightarrow> tcp_conn \<Rightarrow> nat \<Rightarrow> nat \<Rightarrow> net \<Rightarrow> recv_result \<times> tcp_conn \<times> net" where
  "recv_loop max_len c timeout waited s =
     (case recv_step max_len c s of
        (Some (r, c1), s1) \<Rightarrow> (r, c1, s1)
      | (None, s1) \<Rightarrow>
          if timeout \<le> waited then (RecvTimeout, c, s1)
          else recv_loop max_len c timeout (waited + 10) (ax_sleep_ms 10 s1))"
  by pat_completeness auto
termination by (relation "measure (\<lambda>(max_len, c, timeout, waited, s). timeout - waited)") auto

declare recv_loop.simps [simp del]

definition tcp_recv :: "tcp_conn \<Rightarrow> nat \<Rightarrow> nat \<Rightarrow> net \<Rightarrow> recv_result \<times> tcp_conn \<times> net" where
  "tcp_recv c max_len timeout_ms s =
     (if peer_closed c then (RecvClosed, c, s)
      else if \<not> connected c then (RecvClosed, c, s)
      else recv_loop max_len c timeout_ms 0 s)"

fun close_attempts :: "nat \<Rightarrow> tcp_conn \<Rightarrow> u32 \<Rightarrow> nat \<Rightarrow> net \<Rightarrow> net" where
  "close_attempts 0 c expect_ack rto s = s"
| "close_attempts (Suc k) c expect_ack rto s =
     (case poll_loop 10 (ack_step c expect_ack) rto 0 s of
        (Some u, waited, s1) \<Rightarrow> s1
      | (None, waited, s1) \<Rightarrow>
          if 0 < k
          then close_attempts k c expect_ack (rto_next rto) (tcp_send_segment c (TCP_FLAG_FIN OR TCP_FLAG_ACK) [] s1)
          else s1)"

definition tcp_close :: "tcp_conn \<Rightarrow> net \<Rightarrow> tcp_conn \<times> net" where
  "tcp_close c s =
     (if \<not> connected c then (c, s)
      else let expect_ack = snd_nxt c + 1
           in (c\<lparr>snd_nxt := expect_ack, connected := False, peer_closed := False\<rparr>,
               close_attempts (TCP_MAX_RETRIES + 1) c expect_ack TCP_RTO_MS
                 (tcp_send_segment c (TCP_FLAG_FIN OR TCP_FLAG_ACK) [] s)))"

end
