(* ===== verification/TcpMux.thy ===== *)
theory TcpMux
  imports Tcp
begin

section \<open>TCP, the server with several connections\<close>

text \<open>
  \<^verbatim>\<open>src/src/user/tcp.h\<close>, \<^verbatim>\<open>tcp_mux_*\<close>: four slots, each a connection with a small state
  machine (SYN received, established, closing, free), a request buffer of 512 bytes and an outgoing
  queue of 256 bytes with its retransmission timer. The used parts of the two buffers are lists;
  their lengths are \<^verbatim>\<open>reqlen\<close> and \<^verbatim>\<open>out_len\<close>.
\<close>

abbreviation TCP_MAX_CONNS :: nat where "TCP_MAX_CONNS \<equiv> 4"
abbreviation REQ_BUF_SIZE :: nat where "REQ_BUF_SIZE \<equiv> 512"
abbreviation TCP_MUX_OUT_BUF_SIZE :: nat where "TCP_MUX_OUT_BUF_SIZE \<equiv> 256"

datatype slot_state = TCP_SLOT_FREE | TCP_SLOT_SYN_RCVD | TCP_SLOT_ESTABLISHED | TCP_SLOT_CLOSING

record tcp_slot =
  state :: slot_state
  conn :: tcp_conn
  reqbuf :: "u8 list"
  deadline :: u32
  outbuf :: "u8 list"
  out_acked :: nat
  out_inflight :: nat
  out_retries :: nat
  out_rto :: nat
  out_rto_deadline :: u32
  close_after :: bool

record mux =
  tcp_slots :: "tcp_slot list"
  tcp_mux_local_port :: u16

definition tcp_mux_listen :: "u16 \<Rightarrow> mux \<Rightarrow> mux" where
  "tcp_mux_listen port m =
     m\<lparr>tcp_mux_local_port := port, tcp_slots := map (\<lambda>s. s\<lparr>state := TCP_SLOT_FREE\<rparr>) (tcp_slots m)\<rparr>"

definition tcp_mux_find :: "u32 \<Rightarrow> u16 \<Rightarrow> mux \<Rightarrow> nat option" where
  "tcp_mux_find ip port m =
     find (\<lambda>i. let s = tcp_slots m ! i in
             state s \<noteq> TCP_SLOT_FREE \<and> remote_ip (conn s) = ip \<and> remote_port (conn s) = port) [0..<TCP_MAX_CONNS]"

definition tcp_mux_find_free :: "mux \<Rightarrow> nat option" where
  "tcp_mux_find_free m = find (\<lambda>i. state (tcp_slots m ! i) = TCP_SLOT_FREE) [0..<TCP_MAX_CONNS]"

text \<open>\<^verbatim>\<open>ax_get_ticks() + TCP_RTO_MS / 10\<close>\<close>

definition arm_timer :: "net \<Rightarrow> tcp_slot \<Rightarrow> tcp_slot" where
  "arm_timer n s =
     s\<lparr>out_retries := 0, out_rto := TCP_RTO_MS, out_rto_deadline := now n + word_of_nat (TCP_RTO_MS div 10)\<rparr>"

definition tcp_mux_start_closing :: "tcp_slot \<Rightarrow> net \<Rightarrow> tcp_slot \<times> net" where
  "tcp_mux_start_closing s n =
     (let n1 = tcp_send_segment (conn s) (TCP_FLAG_FIN OR TCP_FLAG_ACK) [] n
      in (arm_timer n1 (s\<lparr>state := TCP_SLOT_CLOSING\<rparr>), n1))"

definition tcp_mux_pump :: "tcp_slot \<Rightarrow> net \<Rightarrow> tcp_slot \<times> net" where
  "tcp_mux_pump s n =
     (if state s \<noteq> TCP_SLOT_ESTABLISHED then (s, n)
      else if 0 < out_inflight s then (s, n)
      else let remaining = length (outbuf s) - out_acked s
           in if remaining = 0
              then (if close_after s
                    then (case tcp_mux_start_closing s n of (s1, n1) \<Rightarrow> (s1\<lparr>close_after := False\<rparr>, n1))
                    else (s, n))
              else let chunk = min remaining 512;
                       n1 = tcp_send_segment (conn s) (TCP_FLAG_PSH OR TCP_FLAG_ACK)
                              (take chunk (drop (out_acked s) (outbuf s))) n
                   in (arm_timer n1 (s\<lparr>out_inflight := chunk\<rparr>), n1))"

subsection \<open>Timers\<close>

text \<open>Either the last retry was in vain and the slot is given up, or the segment is sent again.\<close>

definition retransmit :: "u8 \<Rightarrow> u8 list \<Rightarrow> u32 \<Rightarrow> tcp_slot \<Rightarrow> net \<Rightarrow> tcp_slot \<times> net" where
  "retransmit flags data nw s n =
     (if TCP_MAX_RETRIES \<le> out_retries s then (s\<lparr>state := TCP_SLOT_FREE\<rparr>, n)
      else let rto = rto_next (out_rto s)
           in (s\<lparr>out_retries := out_retries s + 1, out_rto := rto, out_rto_deadline := nw + word_of_nat (rto div 10)\<rparr>,
               tcp_send_segment (conn s) flags data n))"

definition slot_timers :: "u32 \<Rightarrow> tcp_slot \<Rightarrow> net \<Rightarrow> tcp_slot \<times> net" where
  "slot_timers nw s n =
     (let s1 = (if state s = TCP_SLOT_SYN_RCVD \<and> deadline s \<le> nw then s\<lparr>state := TCP_SLOT_FREE\<rparr> else s);
          (s2, n2) = (if state s1 = TCP_SLOT_CLOSING \<and> out_rto_deadline s1 \<le> nw
                      then retransmit (TCP_FLAG_FIN OR TCP_FLAG_ACK) [] nw s1 n else (s1, n))
      in if state s2 = TCP_SLOT_ESTABLISHED \<and> 0 < out_inflight s2 \<and> out_rto_deadline s2 \<le> nw
         then retransmit (TCP_FLAG_PSH OR TCP_FLAG_ACK) (take (out_inflight s2) (drop (out_acked s2) (outbuf s2))) nw s2 n2
         else (s2, n2))"

fun sweep :: "u32 \<Rightarrow> tcp_slot list \<Rightarrow> net \<Rightarrow> tcp_slot list \<times> net" where
  "sweep nw [] n = ([], n)"
| "sweep nw (s # ss) n =
     (case slot_timers nw s n of
        (s1, n1) \<Rightarrow> (case sweep nw ss n1 of (ss1, n2) \<Rightarrow> (s1 # ss1, n2)))"

subsection \<open>Received segments\<close>

text \<open>A SYN of a client that has no slot yet.\<close>

definition mux_new_client :: "tcp_seg \<Rightarrow> u32 \<Rightarrow> mux \<Rightarrow> net \<Rightarrow> mux \<times> net" where
  "mux_new_client seg nw m n =
     (if has_flag seg TCP_FLAG_SYN \<and> \<not> has_flag seg TCP_FLAG_ACK
      then (case tcp_mux_find_free m of
              None \<Rightarrow> (m, n)
            | Some fi \<Rightarrow>
                (case nic_mac n of
                   None \<Rightarrow> (m, n)
                 | Some mac \<Rightarrow>
                     let (isn, n1) = net_rand32 n;
                         s = tcp_slots m ! fi;
                         c = (conn s)\<lparr>my_mac := mac, remote_mac := take 6 (drop 6 (tcp_rx n)),
                               remote_ip := seg_src_ip seg, remote_port := seg_src_port seg,
                               local_port := tcp_mux_local_port m, rcv_nxt := seg_seq seg + 1, snd_nxt := isn,
                               connected := False, peer_closed := False\<rparr>;
                         s1 = s\<lparr>conn := c, reqbuf := [], outbuf := [], out_acked := 0, out_inflight := 0,
                                out_retries := 0, close_after := False, state := TCP_SLOT_SYN_RCVD,
                                deadline := nw + 300\<rparr>
                     in (m\<lparr>tcp_slots := (tcp_slots m)[fi := s1]\<rparr>,
                         tcp_send_segment c (TCP_FLAG_SYN OR TCP_FLAG_ACK) [] n1)))
      else (m, n))"

definition mux_syn_rcvd :: "tcp_seg \<Rightarrow> tcp_slot \<Rightarrow> net \<Rightarrow> tcp_slot \<times> net" where
  "mux_syn_rcvd seg s n =
     (let c = conn s
      in if has_flag seg TCP_FLAG_ACK \<and> seg_ack seg = snd_nxt c + 1
         then (s\<lparr>conn := c\<lparr>snd_nxt := snd_nxt c + 1, connected := True\<rparr>, state := TCP_SLOT_ESTABLISHED\<rparr>, n)
         else if has_flag seg TCP_FLAG_SYN \<and> \<not> has_flag seg TCP_FLAG_ACK
         then (s, tcp_send_segment c (TCP_FLAG_SYN OR TCP_FLAG_ACK) [] n)
         else (s, n))"

text \<open>The acknowledged bytes leave the queue, the rest moves to the front, the next chunk goes out.\<close>

definition mux_take_ack :: "tcp_seg \<Rightarrow> tcp_slot \<Rightarrow> net \<Rightarrow> tcp_slot \<times> net" where
  "mux_take_ack seg s n =
     (if 0 < out_inflight s \<and> has_flag seg TCP_FLAG_ACK \<and>
         ack_covers (seg_ack seg) (snd_nxt (conn s) + word_of_nat (out_inflight s))
      then tcp_mux_pump
             (s\<lparr>conn := (conn s)\<lparr>snd_nxt := snd_nxt (conn s) + word_of_nat (out_inflight s)\<rparr>,
                outbuf := drop (out_acked s + out_inflight s) (outbuf s), out_acked := 0, out_inflight := 0\<rparr>) n
      else (s, n))"

text \<open>Data in order; the flag tells that a request is ready.\<close>

definition mux_take_data :: "tcp_seg \<Rightarrow> tcp_slot \<Rightarrow> net \<Rightarrow> bool \<times> tcp_slot \<times> net" where
  "mux_take_data seg s n =
     (if seg_seq seg \<noteq> rcv_nxt (conn s) then (False, s, n)
      else let fin = has_flag seg TCP_FLAG_FIN;
               data = seg_data seg;
               c = (conn s)\<lparr>rcv_nxt := rcv_nxt (conn s) + word_of_nat (length data) + (if fin then 1 else 0)\<rparr>;
               s1 = s\<lparr>reqbuf := reqbuf s @ take (REQ_BUF_SIZE - length (reqbuf s)) data, conn := c\<rparr>
           in (data \<noteq> [], s1, if data \<noteq> [] \<or> fin then tcp_send_segment c TCP_FLAG_ACK [] n else n))"

definition mux_closing :: "tcp_seg \<Rightarrow> tcp_slot \<Rightarrow> net \<Rightarrow> tcp_slot \<times> net" where
  "mux_closing seg s n =
     (let fin = has_flag seg TCP_FLAG_FIN
      in if seg_data seg \<noteq> [] \<or> fin
         then let c = (conn s)\<lparr>rcv_nxt := rcv_nxt (conn s) + word_of_nat (length (seg_data seg)) + (if fin then 1 else 0)\<rparr>
              in (s\<lparr>conn := c, state := TCP_SLOT_FREE\<rparr>, tcp_send_segment c TCP_FLAG_ACK [] n)
         else (s\<lparr>state := TCP_SLOT_FREE\<rparr>, n))"

definition mux_slot_input :: "tcp_seg \<Rightarrow> tcp_slot \<Rightarrow> net \<Rightarrow> bool \<times> tcp_slot \<times> net" where
  "mux_slot_input seg s n =
     (case state s of
        TCP_SLOT_SYN_RCVD \<Rightarrow> (False, mux_syn_rcvd seg s n)
      | TCP_SLOT_ESTABLISHED \<Rightarrow> (case mux_take_ack seg s n of (s1, n1) \<Rightarrow> mux_take_data seg s1 n1)
      | TCP_SLOT_CLOSING \<Rightarrow> (False, mux_closing seg s n)
      | TCP_SLOT_FREE \<Rightarrow> (False, s, n))"

text \<open>The slot whose request is ready, if any.\<close>

definition mux_input :: "tcp_seg \<Rightarrow> u32 \<Rightarrow> mux \<Rightarrow> net \<Rightarrow> nat option \<times> mux \<times> net" where
  "mux_input seg nw m n =
     (case tcp_mux_find (seg_src_ip seg) (seg_src_port seg) m of
        None \<Rightarrow> (None, mux_new_client seg nw m n)
      | Some idx \<Rightarrow>
          (case mux_slot_input seg (tcp_slots m ! idx) n of
             (ready, s1, n1) \<Rightarrow>
               (if ready then Some idx else None, m\<lparr>tcp_slots := (tcp_slots m)[idx := s1]\<rparr>, n1)))"

definition tcp_mux_poll :: "mux \<Rightarrow> net \<Rightarrow> nat option \<times> mux \<times> net" where
  "tcp_mux_poll m n =
     (let nw = now n;
          (ss, n1) = sweep nw (tcp_slots m) n;
          m1 = m\<lparr>tcp_slots := ss\<rparr>;
          (k, n2) = tcp_receive n1
      in if k = 0 then (None, m1, n2)
         else let n3 = snd (arp_maybe_respond (tcp_rx n2) k n2)
              in (case tcp_parse_segment (tcp_rx n3) k of
                    None \<Rightarrow> (None, m1, n3)
                  | Some seg \<Rightarrow>
                      if seg_dst_port seg \<noteq> tcp_mux_local_port m1 then (None, m1, n3)
                      else mux_input seg nw m1 n3))"

definition tcp_mux_send :: "nat \<Rightarrow> u8 list \<Rightarrow> mux \<Rightarrow> net \<Rightarrow> bool \<times> mux \<times> net" where
  "tcp_mux_send idx data m n =
     (let s = tcp_slots m ! idx
      in if state s \<noteq> TCP_SLOT_ESTABLISHED then (False, m, n)
         else if TCP_MUX_OUT_BUF_SIZE < length (outbuf s) + length data then (False, m, n)
         else (case tcp_mux_pump (s\<lparr>outbuf := outbuf s @ data\<rparr>) n of
                 (s1, n1) \<Rightarrow> (True, m\<lparr>tcp_slots := (tcp_slots m)[idx := s1]\<rparr>, n1)))"

definition tcp_mux_close :: "nat \<Rightarrow> mux \<Rightarrow> net \<Rightarrow> mux \<times> net" where
  "tcp_mux_close idx m n =
     (let s = tcp_slots m ! idx
      in if state s \<noteq> TCP_SLOT_ESTABLISHED then (m, n)
         else if 0 < out_inflight s \<or> out_acked s < length (outbuf s)
         then (m\<lparr>tcp_slots := (tcp_slots m)[idx := s\<lparr>close_after := True\<rparr>]\<rparr>, n)
         else (case tcp_mux_start_closing s n of
                 (s1, n1) \<Rightarrow> (m\<lparr>tcp_slots := (tcp_slots m)[idx := s1]\<rparr>, n1)))"

end
