(* ===== verification/TcpWire.thy ===== *)
theory TcpWire
  imports TcpMux
begin

section \<open>Segments on the wire\<close>

text \<open>
  What the library writes it can read: \<open>tcp_parse_segment\<close> inverts \<open>tcp_frame\<close>, both checksums of
  a frame verify, and the parsers depend on the received bytes only, whatever older frames left in
  the static buffers.
\<close>

text \<open>Byte lists of a known length, taken apart.\<close>

lemma list6: "length xs = 6 \<Longrightarrow> \<exists>a b c d e f. xs = [a, b, c, d, e, f]"
  by (auto simp: numeral_eq_Suc length_Suc_conv)

lemma length_headers [simp]:
  "length (ip_head n i p) = 10" "length (ip_header n i p src dst) = 20" "length (tcp_head c f) = 16"
  "length (tcp_segment ip c f d) = 20 + length d"
  by (simp_all add: ip_head_def ip_header_def tcp_head_def tcp_segment_def Let_def)

lemma length_tcp_frame:
  "length (remote_mac c) = 6 \<Longrightarrow> length (my_mac c) = 6 \<Longrightarrow> length (tcp_frame ip c f d) = 54 + length d"
  by (simp add: tcp_frame_def eth_header_def)

lemma tcp_parse_frame:
  assumes m: "length (remote_mac c) = 6" "length (my_mac c) = 6" and d: "length d \<le> 512"
  shows "tcp_parse_segment (tcp_frame ip c f d @ rest) (54 + length d) =
    Some \<lparr>seg_src_ip = ip, seg_src_port = local_port c, seg_dst_port = remote_port c, seg_seq = snd_nxt c,
          seg_ack = rcv_nxt c, seg_flags = f, seg_data = d\<rparr>"
proof -
  let ?rx = "tcp_frame ip c f d @ rest"
  obtain c1 where c1: "?rx = eth_header (remote_mac c) (my_mac c) @ ip_header (40 + length d) 0 IP_PROTO_TCP ip (remote_ip c) @
      tcp_head c f @ put16be c1 @ [0, 0] @ d @ rest"
    by (simp add: tcp_frame_def tcp_segment_def Let_def)
  obtain c2 where c2: "ip_header (40 + length d) 0 IP_PROTO_TCP ip (remote_ip c) =
      ip_head (40 + length d) 0 IP_PROTO_TCP @ put16be c2 @ put32be ip @ put32be (remote_ip c)"
    by (simp add: ip_header_def Let_def)
  obtain a0 a1 a2 a3 a4 a5 b0 b1 b2 b3 b4 b5 where mac: "remote_mac c = [a0, a1, a2, a3, a4, a5]" "my_mac c = [b0, b1, b2, b3, b4, b5]"
    using list6 m by metis
  note rx = c1 [unfolded c2 eth_header_def mac ip_head_def tcp_head_def]
  have at: "?rx ! 12 = 0x08" "?rx ! 13 = 0" "?rx ! 14 = 0x45" "?rx ! 23 = IP_PROTO_TCP" "?rx ! 46 = 0x50" "?rx ! 47 = f"
    unfolding rx by (simp_all add: put16be_def put32be_def)
  have h: "ihl ?rx = 20" unfolding ihl_def at by simp
  have w: "get16be ?rx 16 = word_of_nat (40 + length d)" "get32be ?rx 26 = ip" "get16be ?rx 34 = local_port c"
    "get16be ?rx 36 = remote_port c" "get32be ?rx 38 = snd_nxt c" "get32be ?rx 42 = rcv_nxt c"
    unfolding rx by (rule get16_put16 get32_put32; simp add: put16be_def put32be_def)+
  have t: "unat (get16be ?rx 16) = 40 + length d" unfolding w by (rule unat_word_of_nat) (use d in simp)
  have dr: "drop 54 ?rx = d @ rest" unfolding rx by (simp add: put16be_def put32be_def)
  show ?thesis
    using at w h t dr by (simp add: tcp_parse_segment_def Let_def)
qed


text \<open>
  C12. What the library writes it can read, and so can any other stack: a segment of at most 512 bytes
  sent on a connection parses back, whatever follows it in the receive buffer, to exactly its ports,
  sequence and acknowledgment numbers, flags and data; its IP header and its TCP checksum (over the
  pseudo header) pass the test of RFC 1071.
\<close>
theorem tcp_frame_round_trip:
  assumes "length (remote_mac c) = 6" "length (my_mac c) = 6" "length d \<le> 512"
  shows "tcp_parse_segment (tcp_frame ip c f d @ rest) (length (tcp_frame ip c f d)) =
      Some \<lparr>seg_src_ip = ip, seg_src_port = local_port c, seg_dst_port = remote_port c, seg_seq = snd_nxt c,
            seg_ack = rcv_nxt c, seg_flags = f, seg_data = d\<rparr> \<and>
    ip_checksum (take 20 (drop 14 (tcp_frame ip c f d))) = 0 \<and>
    tcp_checksum ip (remote_ip c) (drop 34 (tcp_frame ip c f d)) = 0"
proof (intro conjI)
  show "tcp_parse_segment (tcp_frame ip c f d @ rest) (length (tcp_frame ip c f d)) =
      Some \<lparr>seg_src_ip = ip, seg_src_port = local_port c, seg_dst_port = remote_port c, seg_seq = snd_nxt c,
            seg_ack = rcv_nxt c, seg_flags = f, seg_data = d\<rparr>"
    using tcp_parse_frame [OF assms] length_tcp_frame [OF assms(1,2)] by simp
  let ?h = "ip_head (40 + length d) 0 IP_PROTO_TCP" and ?a = "put32be ip @ put32be (remote_ip c)"
  have e: "length (eth_header (remote_mac c) (my_mac c)) = 14" using assms(1,2) by (simp add: eth_header_def)
  have "take 20 (drop 14 (tcp_frame ip c f d)) = ip_header (40 + length d) 0 IP_PROTO_TCP ip (remote_ip c)"
    using e by (simp add: tcp_frame_def)
  also have "\<dots> = ?h @ put16be (ip_checksum (?h @ [0, 0] @ ?a)) @ ?a" by (simp only: ip_header_def Let_def)
  finally show "ip_checksum (take 20 (drop 14 (tcp_frame ip c f d))) = 0" by (simp only: checksum_verifies length_headers even_numeral)
  let ?p = "put32be ip @ put32be (remote_ip c) @ [0, IP_PROTO_TCP] @ put16be (word_of_nat (20 + length d)) @ tcp_head c f"
    and ?r = "[0, 0] @ d"
  have "drop 34 (tcp_frame ip c f d) = tcp_segment ip c f d" using e by (simp add: tcp_frame_def)
  then have "tcp_checksum ip (remote_ip c) (drop 34 (tcp_frame ip c f d)) =
      ip_checksum (?p @ put16be (ip_checksum (?p @ [0, 0] @ ?r)) @ ?r)"
    by (simp add: tcp_checksum_def tcp_segment_def Let_def)
  also have "\<dots> = 0" by (rule checksum_verifies) simp
  finally show "tcp_checksum ip (remote_ip c) (drop 34 (tcp_frame ip c f d)) = 0" .
qed

definition demo_conn :: tcp_conn where
  "demo_conn = \<lparr>remote_ip = 0x0A000202, remote_port = 80, local_port = TCP_LOCAL_PORT, remote_mac = replicate 6 2,
     my_mac = replicate 6 1, snd_nxt = 0xFFFFFFFE, rcv_nxt = 7, connected = True, peer_closed = False\<rparr>"

lemma demo_conn_simps [simp]:
  "remote_ip demo_conn = 0x0A000202" "remote_port demo_conn = 80" "local_port demo_conn = TCP_LOCAL_PORT"
  "length (remote_mac demo_conn) = 6" "length (my_mac demo_conn) = 6" "snd_nxt demo_conn = 0xFFFFFFFE"
  "rcv_nxt demo_conn = 7" "connected demo_conn" "\<not> peer_closed demo_conn"
  by (simp_all add: demo_conn_def)

theorem tcp_frame_round_trip_witness:
  "tcp_parse_segment (tcp_frame 0x0A00020F demo_conn TCP_FLAG_ACK [1, 2, 3] @ [9, 9]) (length (tcp_frame 0x0A00020F demo_conn TCP_FLAG_ACK [1, 2, 3])) =
     Some \<lparr>seg_src_ip = 0x0A00020F, seg_src_port = 40000, seg_dst_port = 80, seg_seq = 0xFFFFFFFE,
           seg_ack = 7, seg_flags = TCP_FLAG_ACK, seg_data = [1, 2, 3]\<rparr>"
  using tcp_frame_round_trip [of demo_conn "[1, 2, 3]" "0x0A00020F" TCP_FLAG_ACK "[9, 9]"] by simp


subsection \<open>Stale bytes\<close>

text \<open>\<open>same n rx rx'\<close>: two buffers agree on the \<open>n\<close> bytes of the frame they both hold.\<close>

definition same :: "nat \<Rightarrow> u8 list \<Rightarrow> u8 list \<Rightarrow> bool" where
  "same n rx rx' \<longleftrightarrow> n \<le> length rx \<and> n \<le> length rx' \<and> take n rx = take n rx'"

lemma same_nth: "same n rx rx' \<Longrightarrow> i < n \<Longrightarrow> rx ! i = rx' ! i"
  unfolding same_def by (metis nth_take)

lemma same_slice: "same n rx rx' \<Longrightarrow> k + m \<le> n \<Longrightarrow> take m (drop k rx) = take m (drop k rx')"
  by (rule nth_equalityI) (auto simp: same_def intro: same_nth [unfolded same_def])

lemma same_get:
  "same n rx rx' \<Longrightarrow> i + 1 < n \<Longrightarrow> get16be rx i = get16be rx' i"
  "same n rx rx' \<Longrightarrow> i + 3 < n \<Longrightarrow> get32be rx i = get32be rx' i"
  using same_nth [of n rx rx'] by (simp_all add: get16be_def get32be_def)

lemma same_ihl: "same n rx rx' \<Longrightarrow> 14 < n \<Longrightarrow> ihl rx = ihl rx'"
  using same_nth [of n rx rx' 14] by (simp add: ihl_def)

lemma same_tcp_parse:
  assumes s: "same n rx rx'"
  shows "tcp_parse_segment rx n = tcp_parse_segment rx' n"
proof (cases "n < 54 \<or> n < 14 + ihl rx + 20")
  case True
  then show ?thesis using same_ihl [OF s] same_nth [OF s] by (auto simp: tcp_parse_segment_def)
next
  case False
  then have n: "\<not> n < 14 + 20 + 20" "\<not> n < 14 + ihl rx + 20" by simp_all
  have h: "ihl rx' = ihl rx" by (rule same_ihl [OF s, symmetric]) (use n in simp)
  let ?t = "14 + ihl rx"
  have b: "rx' ! 12 = rx ! 12" "rx' ! 13 = rx ! 13" "rx' ! 23 = rx ! 23" "rx' ! (?t + 12) = rx ! (?t + 12)"
    "rx' ! (?t + 13) = rx ! (?t + 13)"
    by (rule same_nth [OF s, symmetric]; use n in simp)+
  have g: "get16be rx' 16 = get16be rx 16" "get16be rx' ?t = get16be rx ?t" "get16be rx' (?t + 2) = get16be rx (?t + 2)"
    by (rule same_get(1) [OF s, symmetric]; use n in simp)+
  have w: "get32be rx' 26 = get32be rx 26" "get32be rx' (?t + 4) = get32be rx (?t + 4)" "get32be rx' (?t + 8) = get32be rx (?t + 8)"
    by (rule same_get(2) [OF s, symmetric]; use n in simp)+
  have d: "take m (drop k rx') = take m (drop k rx)" if "k + m \<le> n" for k m
    by (rule same_slice [OF s that, symmetric])
  let ?l = "unat (drop_bit 4 (rx ! (?t + 12)) AND 0x0F) * 4"
  show ?thesis
  proof (cases "n < ?t + ?l")
    case True
    then show ?thesis using n by (simp only: tcp_parse_segment_def Let_def h b g w if_True if_False)
  next
    case False
    have "take (min m (n - (?t + ?l))) (drop (?t + ?l) rx') = take (min m (n - (?t + ?l))) (drop (?t + ?l) rx)" for m
      by (rule d) (use False in simp)
    moreover have "take (min m 0) (drop k rx') = take (min m 0) (drop k rx)" for m k by simp
    ultimately show ?thesis using n False
      unfolding tcp_parse_segment_def Let_def h b g w by (cases "?t + ?l < n") (simp_all only: if_True if_False)
  qed
qed

end
