(* ===== verification/Dns.thy ===== *)
theory Dns
  imports NetIp
begin

section \<open>Name resolution\<close>

text \<open>
  \<^verbatim>\<open>src/src/user/dns.h\<close>: the cache of eight names with their expiry times, the encoding of a name,
  the search of an answer for an address record, and the resolver with its retransmissions. Host
  names are C strings, given without their final zero.
\<close>

abbreviation DNS_PORT :: u16 where "DNS_PORT \<equiv> 53"
abbreviation DNS_RTO_MS :: nat where "DNS_RTO_MS \<equiv> 300"
abbreviation DNS_RTO_MAX_MS :: nat where "DNS_RTO_MAX_MS \<equiv> 2000"
abbreviation DNS_MAX_RETRIES :: nat where "DNS_MAX_RETRIES \<equiv> 5"
abbreviation DNS_CACHE_SIZE :: nat where "DNS_CACHE_SIZE \<equiv> 8"
abbreviation DNS_HOSTNAME_MAX :: nat where "DNS_HOSTNAME_MAX \<equiv> 64"
abbreviation DNS_CACHE_MAX_TTL_SEC :: u32 where "DNS_CACHE_MAX_TTL_SEC \<equiv> 3600"
abbreviation DNS_TICKS_PER_SEC :: u32 where "DNS_TICKS_PER_SEC \<equiv> 100"

record dns_cache_entry =
  hostname :: "u8 list"
  dns_ip :: u32
  expiry :: u32
  used :: bool

record dns =
  dns_cache :: "dns_cache_entry list"
  dns_cache_next :: nat

fun dns_streq :: "u8 list \<Rightarrow> u8 list \<Rightarrow> bool" where
  "dns_streq (a # as) (b # bs) = (a = b \<and> dns_streq as bs)"
| "dns_streq [] [] = True"
| "dns_streq _ _ = False"

definition dns_strcpy :: "u8 list \<Rightarrow> nat \<Rightarrow> u8 list" where
  "dns_strcpy src m = take (m - 1) src"

definition dns_find :: "u8 list \<Rightarrow> dns \<Rightarrow> nat option" where
  "dns_find name d =
     find (\<lambda>i. used (dns_cache d ! i) \<and> dns_streq (hostname (dns_cache d ! i)) name) [0..<DNS_CACHE_SIZE]"

text \<open>\<^verbatim>\<open>(int)(now - expiry) < 0\<close>; an entry that has expired is released.\<close>

definition dns_cache_lookup :: "u8 list \<Rightarrow> net \<Rightarrow> dns \<Rightarrow> u32 option \<times> dns" where
  "dns_cache_lookup name n d =
     (case dns_find name d of
        None \<Rightarrow> (None, d)
      | Some i \<Rightarrow>
          let e = dns_cache d ! i
          in if sint (now n - expiry e) < 0 then (Some (dns_ip e), d)
             else (None, d\<lparr>dns_cache := (dns_cache d)[i := e\<lparr>used := False\<rparr>]\<rparr>))"

definition dns_cache_slot :: "u8 list \<Rightarrow> dns \<Rightarrow> nat \<times> dns" where
  "dns_cache_slot name d =
     (case dns_find name d of
        Some i \<Rightarrow> (i, d)
      | None \<Rightarrow>
          (case find (\<lambda>i. \<not> used (dns_cache d ! i)) [0..<DNS_CACHE_SIZE] of
             Some i \<Rightarrow> (i, d)
           | None \<Rightarrow> (dns_cache_next d, d\<lparr>dns_cache_next := (dns_cache_next d + 1) mod DNS_CACHE_SIZE\<rparr>)))"

definition dns_cache_store :: "u8 list \<Rightarrow> u32 \<Rightarrow> u32 \<Rightarrow> net \<Rightarrow> dns \<Rightarrow> dns" where
  "dns_cache_store name ip ttl_sec n d =
     (if ttl_sec = 0 then d
      else let ttl = (if DNS_CACHE_MAX_TTL_SEC < ttl_sec then DNS_CACHE_MAX_TTL_SEC else ttl_sec);
               (slot, d1) = dns_cache_slot name d
           in d1\<lparr>dns_cache := (dns_cache d1)[slot :=
                  \<lparr>hostname = dns_strcpy name DNS_HOSTNAME_MAX, dns_ip = ip,
                   expiry = now n + ttl * DNS_TICKS_PER_SEC, used = True\<rparr>]\<rparr>)"

subsection \<open>Names\<close>

fun encode_labels :: "u8 list \<Rightarrow> u8 list \<Rightarrow> u8 list" where
  "encode_labels lab [] = word_of_nat (length lab) # lab"
| "encode_labels lab (c # cs) =
     (if c = 0x2E then word_of_nat (length lab) # lab @ encode_labels [] cs else encode_labels (lab @ [c]) cs)"

definition dns_encode_name :: "u8 list \<Rightarrow> u8 list" where
  "dns_encode_name name = encode_labels [] name @ [0]"

function skip_labels :: "u8 list \<Rightarrow> nat \<Rightarrow> nat \<Rightarrow> nat" where
  "skip_labels rx n p = (if p < n \<and> rx ! p \<noteq> 0 then skip_labels rx n (p + unat (rx ! p) + 1) else p)"
  by auto
termination by (relation "measure (\<lambda>(rx, n, p). n - p)") auto

declare skip_labels.simps [simp del]

definition skip_name :: "u8 list \<Rightarrow> nat \<Rightarrow> nat \<Rightarrow> nat" where
  "skip_name rx n p = (if rx ! p AND 0xC0 = 0xC0 then p + 2 else skip_labels rx n p + 1)"

subsection \<open>Answers\<close>

primrec skip_questions :: "nat \<Rightarrow> u8 list \<Rightarrow> nat \<Rightarrow> nat \<Rightarrow> nat" where
  "skip_questions 0 rx n p = p"
| "skip_questions (Suc q) rx n p = (if p < n then skip_questions q rx n (skip_name rx n p + 4) else p)"

text \<open>The first address record, with its time to live.\<close>

primrec find_answer :: "nat \<Rightarrow> u8 list \<Rightarrow> nat \<Rightarrow> nat \<Rightarrow> (u32 \<times> u32) option" where
  "find_answer 0 rx n p = None"
| "find_answer (Suc a) rx n p =
     (if n < p + 10 then None
      else let p1 = skip_name rx n p
           in if n < p1 + 10 then None
              else let rtype = get16be rx p1; ttl = get32be rx (p1 + 4); rdlen = unat (get16be rx (p1 + 8)); p2 = p1 + 10
                   in if rtype = 1 \<and> rdlen = 4 \<and> p2 + 4 \<le> n then Some (get32be rx p2, ttl)
                      else find_answer a rx n (p2 + rdlen))"

definition dns_parse :: "u16 \<Rightarrow> u8 list \<Rightarrow> nat \<Rightarrow> (u32 \<times> u32) option" where
  "dns_parse qid rx n =
     (if n < 12 then None
      else let ancount = unat (get16be rx 6)
           in if get16be rx 0 = qid \<and> 0 < ancount
              then find_answer ancount rx n (skip_questions (unat (get16be rx 4)) rx n 12)
              else None)"

definition dns_step :: "u16 \<Rightarrow> u16 \<Rightarrow> net \<Rightarrow> (u32 \<times> u32) option \<times> net" where
  "dns_step qid src_port n =
     (case udp_recv 512 n of
        (Some dg, n1) \<Rightarrow>
          let k = length (dg_data dg); n2 = n1\<lparr>dns_rx := dg_data dg @ drop k (dns_rx n1)\<rparr>
          in (if dg_dst_port dg = src_port then dns_parse qid (dns_rx n2) k else None, n2)
      | (None, n1) \<Rightarrow> (None, n1))"

definition dns_query :: "u16 \<Rightarrow> u8 list \<Rightarrow> u8 list" where
  "dns_query qid name =
     put16be qid @ [0x01, 0x00] @ [0, 1] @ [0, 0] @ [0, 0] @ [0, 0] @ dns_encode_name name @ [0, 1] @ [0, 1]"

fun dns_attempts :: "nat \<Rightarrow> (net \<Rightarrow> net) \<Rightarrow> u16 \<Rightarrow> u16 \<Rightarrow> nat \<Rightarrow> nat \<Rightarrow> nat \<Rightarrow> net \<Rightarrow> (u32 \<times> u32) option \<times> net" where
  "dns_attempts 0 resend qid src_port timeout rto elapsed n = (None, n)"
| "dns_attempts (Suc k) resend qid src_port timeout rto elapsed n =
     (case poll_loop 10 (dns_step qid src_port) (min rto (timeout - elapsed)) 0 n of
        (Some r, waited, n1) \<Rightarrow> (Some r, n1)
      | (None, waited, n1) \<Rightarrow>
          if timeout \<le> elapsed + waited then (None, n1)
          else dns_attempts k resend qid src_port timeout
                 (if DNS_RTO_MAX_MS < rto * 2 then DNS_RTO_MAX_MS else rto * 2) (elapsed + waited) (resend n1))"

definition dns_resolve_a :: "u8 list \<Rightarrow> u32 \<Rightarrow> nat \<Rightarrow> net \<Rightarrow> dns \<Rightarrow> u32 option \<times> net \<times> dns" where
  "dns_resolve_a name dns_server timeout_ms n d =
     (case dns_cache_lookup name n d of
        (Some ip, d1) \<Rightarrow> (Some ip, n, d1)
      | (None, d1) \<Rightarrow>
          let (r1, n1) = net_rand32 n;
              (r2, n2) = net_rand32 n1;
              qid = ucast r1 :: u16;
              src_port = word_of_nat (49152 + unat r2 mod 16384) :: u16;
              request = udp_send dns_server DNS_PORT src_port (dns_query qid name)
          in (case request n2 of
                (False, n3) \<Rightarrow> (None, n3, d1)
              | (True, n3) \<Rightarrow>
                  (case dns_attempts (DNS_MAX_RETRIES + 1) (snd \<circ> request) qid src_port timeout_ms DNS_RTO_MS 0 n3 of
                     (Some (ip, ttl), n4) \<Rightarrow> (Some ip, n4, dns_cache_store name ip ttl n4 d1)
                   | (None, n4) \<Rightarrow> (None, n4, d1))))"

end
