(* ===== verification/Dhcp.thy ===== *)
theory Dhcp
  imports NetIp
begin

section \<open>Address configuration\<close>

text \<open>
  \<^verbatim>\<open>src/src/user/dhcp.h\<close>: the two broadcast messages of the client, the parser of the options of a
  reply, and the exchange that ends in a new address.
\<close>

abbreviation DHCP_SERVER_PORT :: u16 where "DHCP_SERVER_PORT \<equiv> 67"
abbreviation DHCP_CLIENT_PORT :: u16 where "DHCP_CLIENT_PORT \<equiv> 68"
abbreviation DHCP_DISCOVER :: u8 where "DHCP_DISCOVER \<equiv> 1"
abbreviation DHCP_OFFER :: u8 where "DHCP_OFFER \<equiv> 2"
abbreviation DHCP_REQUEST :: u8 where "DHCP_REQUEST \<equiv> 3"
abbreviation DHCP_ACK :: u8 where "DHCP_ACK \<equiv> 5"
abbreviation DHCP_OPT_SUBNET :: u8 where "DHCP_OPT_SUBNET \<equiv> 1"
abbreviation DHCP_OPT_ROUTER :: u8 where "DHCP_OPT_ROUTER \<equiv> 3"
abbreviation DHCP_OPT_DNS :: u8 where "DHCP_OPT_DNS \<equiv> 6"
abbreviation DHCP_OPT_REQUESTED_IP :: u8 where "DHCP_OPT_REQUESTED_IP \<equiv> 50"
abbreviation DHCP_OPT_MSG_TYPE :: u8 where "DHCP_OPT_MSG_TYPE \<equiv> 53"
abbreviation DHCP_OPT_SERVER_ID :: u8 where "DHCP_OPT_SERVER_ID \<equiv> 54"
abbreviation DHCP_OPT_PARAM_LIST :: u8 where "DHCP_OPT_PARAM_LIST \<equiv> 55"
abbreviation DHCP_OPT_END :: u8 where "DHCP_OPT_END \<equiv> 255"

definition dhcp_options_out :: "u8 \<Rightarrow> u32 \<Rightarrow> u32 \<Rightarrow> u8 list" where
  "dhcp_options_out type requested_ip server_ip =
     [DHCP_OPT_MSG_TYPE, 1, type] @
     (if type = DHCP_REQUEST
      then [DHCP_OPT_REQUESTED_IP, 4] @ put32be requested_ip @ [DHCP_OPT_SERVER_ID, 4] @ put32be server_ip
      else []) @
     [DHCP_OPT_PARAM_LIST, 3, DHCP_OPT_SUBNET, DHCP_OPT_ROUTER, DHCP_OPT_DNS, DHCP_OPT_END]"

definition dhcp_message :: "u8 \<Rightarrow> u32 \<Rightarrow> u8 list \<Rightarrow> u32 \<Rightarrow> u32 \<Rightarrow> u8 list" where
  "dhcp_message type xid mac requested_ip server_ip =
     [1, 1, 6, 0] @ put32be xid @ [0, 0, 0x80, 0] @ replicate 16 0 @ mac @ replicate 202 0 @ [99, 130, 83, 99] @
     dhcp_options_out type requested_ip server_ip"

definition dhcp_send :: "u8 \<Rightarrow> u32 \<Rightarrow> u8 list \<Rightarrow> u32 \<Rightarrow> u32 \<Rightarrow> net \<Rightarrow> net" where
  "dhcp_send type xid mac requested_ip server_ip s =
     (let msg = dhcp_message type xid mac requested_ip server_ip; udp_len = 8 + length msg
      in snd (ax_net_send
           (eth_header (replicate 6 0xFF) mac @ ip_header (20 + udp_len) 0 IP_PROTO_UDP 0 0xFFFFFFFF @
            put16be DHCP_CLIENT_PORT @ put16be DHCP_SERVER_PORT @ put16be (word_of_nat udp_len) @ [0, 0] @ msg) s))"

text \<open>The message type and server id found so far; the other options go to the static variables.\<close>

definition dhcp_option :: "u8 \<Rightarrow> u8 list \<Rightarrow> u8 \<times> u32 \<Rightarrow> net \<Rightarrow> (u8 \<times> u32) \<times> net" where
  "dhcp_option code v acc s =
     (if code = DHCP_OPT_MSG_TYPE \<and> 1 \<le> length v then ((v ! 0, snd acc), s)
      else if code = DHCP_OPT_SERVER_ID \<and> 4 \<le> length v then ((fst acc, get32be v 0), s)
      else if code = DHCP_OPT_SUBNET \<and> 4 \<le> length v then (acc, s\<lparr>dhcp_subnet_mask := get32be v 0\<rparr>)
      else if code = DHCP_OPT_ROUTER \<and> 4 \<le> length v then (acc, s\<lparr>dhcp_router_ip := get32be v 0\<rparr>)
      else if code = DHCP_OPT_DNS \<and> 4 \<le> length v then (acc, s\<lparr>dhcp_dns_ip := get32be v 0\<rparr>)
      else (acc, s))"

function dhcp_options :: "u8 list \<Rightarrow> nat \<Rightarrow> u8 \<times> u32 \<Rightarrow> net \<Rightarrow> (u8 \<times> u32) \<times> net" where
  "dhcp_options msg i acc s =
     (if length msg \<le> i then (acc, s)
      else if msg ! i = 0 then dhcp_options msg (i + 1) acc s
      else if msg ! i = DHCP_OPT_END then (acc, s)
      else if length msg \<le> i + 1 then (acc, s)
      else let len = unat (msg ! (i + 1))
           in if length msg < i + 2 + len then (acc, s)
              else (case dhcp_option (msg ! i) (take len (drop (i + 2) msg)) acc s of
                      (acc1, s1) \<Rightarrow> dhcp_options msg (i + 2 + len) acc1 s1))"
  by auto
termination by (relation "measure (\<lambda>(msg, i, acc, s). length msg - i)") auto

declare dhcp_options.simps [simp del]

text \<open>Message type, offered address and server.\<close>

definition dhcp_parse :: "u8 list \<Rightarrow> u32 \<Rightarrow> net \<Rightarrow> (u8 \<times> u32 \<times> u32) option \<times> net" where
  "dhcp_parse msg xid s =
     (if length msg < 240 then (None, s)
      else if get32be msg 4 \<noteq> xid then (None, s)
      else if msg ! 236 \<noteq> 99 \<or> msg ! 237 \<noteq> 130 \<or> msg ! 238 \<noteq> 83 \<or> msg ! 239 \<noteq> 99 then (None, s)
      else (case dhcp_options msg 240 (0, 0) s of
              ((mtype, server_id), s1) \<Rightarrow> (Some (mtype, get32be msg 16, server_id), s1)))"

definition dhcp_receive :: "net \<Rightarrow> nat \<times> net" where
  "dhcp_receive s = (case ax_net_recv (dhcp_rx s) s of (n, buf, s1) \<Rightarrow> (n, s1\<lparr>dhcp_rx := buf\<rparr>))"

text \<open>The DHCP message inside the frame, if it is one for a client.\<close>

definition dhcp_payload :: "u8 list \<Rightarrow> nat \<Rightarrow> u8 list option" where
  "dhcp_payload rx n =
     (if 14 + 20 + 8 \<le> n \<and> rx ! 12 = 0x08 \<and> rx ! 13 = 0x00 \<and> rx ! 23 = IP_PROTO_UDP \<and>
         14 + ihl rx + 8 < n \<and> get16be rx (14 + ihl rx + 2) = DHCP_CLIENT_PORT
      then Some (take (n - (14 + ihl rx + 8)) (drop (14 + ihl rx + 8) rx)) else None)"

definition dhcp_wait_step :: "u8 \<Rightarrow> u32 \<Rightarrow> net \<Rightarrow> (u32 \<times> u32) option \<times> net" where
  "dhcp_wait_step want_type xid s =
     (case dhcp_receive s of
        (n, s1) \<Rightarrow>
          (case dhcp_payload (dhcp_rx s1) n of
             None \<Rightarrow> (None, s1)
           | Some msg \<Rightarrow>
               (case dhcp_parse msg xid s1 of
                  (Some (mtype, yiaddr, server_id), s2) \<Rightarrow>
                    (if mtype = want_type then Some (yiaddr, server_id) else None, s2)
                | (None, s2) \<Rightarrow> (None, s2))))"

definition dhcp_wait_for :: "u8 \<Rightarrow> u32 \<Rightarrow> nat \<Rightarrow> net \<Rightarrow> (u32 \<times> u32) option \<times> net" where
  "dhcp_wait_for want_type xid timeout_ms s =
     (case poll_loop 20 (dhcp_wait_step want_type xid) timeout_ms 0 s of (r, waited, s1) \<Rightarrow> (r, s1))"

definition dhcp_client :: "nat \<Rightarrow> net \<Rightarrow> bool \<times> net" where
  "dhcp_client timeout_ms s =
     (case nic_mac s of
        None \<Rightarrow> (False, s)
      | Some mac \<Rightarrow>
          let xid = 0x3903F326
          in (case dhcp_wait_for DHCP_OFFER xid timeout_ms (dhcp_send DHCP_DISCOVER xid mac 0 0 s) of
                (None, s1) \<Rightarrow> (False, s1)
              | (Some (offered_ip, server_id), s1) \<Rightarrow>
                  (case dhcp_wait_for DHCP_ACK xid timeout_ms (dhcp_send DHCP_REQUEST xid mac offered_ip server_id s1) of
                     (None, s2) \<Rightarrow> (False, s2)
                   | (Some (acked_ip, sid), s2) \<Rightarrow>
                       let s3 = s2\<lparr>g_my_ip := acked_ip\<rparr>;
                           s4 = (if dhcp_subnet_mask s3 \<noteq> 0 then s3\<lparr>g_subnet_mask := dhcp_subnet_mask s3\<rparr> else s3)
                       in (True, if dhcp_router_ip s4 \<noteq> 0 then s4\<lparr>g_router_ip := dhcp_router_ip s4\<rparr> else s4))))"

end
