(* ===== verification/NetProps.thy ===== *)
theory NetProps
  imports TcpWire Dns Dhcp
begin

section \<open>Properties of the network library\<close>

text \<open>
  The parsers look at received bytes only; the address cache; names of the resolver; the
  configuration client.
\<close>

subsection \<open>Stale bytes, the other parsers\<close>

lemma same_udp_parse:
  assumes s: "same n rx rx'"
  shows "udp_parse rx n m = udp_parse rx' n m"
proof (cases "n < 42 \<or> n < 14 + ihl rx + 8")
  case True
  then show ?thesis using same_ihl [OF s] same_nth [OF s] by (auto simp: udp_parse_def)
next
  case False
  then have n: "\<not> n < 14 + 20 + 8" "\<not> n < 14 + ihl rx + 8" by simp_all
  have h: "ihl rx' = ihl rx" by (rule same_ihl [OF s, symmetric]) (use n in simp)
  let ?t = "14 + ihl rx"
  have b: "rx' ! 12 = rx ! 12" "rx' ! 13 = rx ! 13" "rx' ! 23 = rx ! 23"
    by (rule same_nth [OF s, symmetric]; use n in simp)+
  have g: "get16be rx' ?t = get16be rx ?t" "get16be rx' (?t + 2) = get16be rx (?t + 2)" "get16be rx' (?t + 4) = get16be rx (?t + 4)"
    by (rule same_get(1) [OF s, symmetric]; use n in simp)+
  have w: "get32be rx' 26 = get32be rx 26" by (rule same_get(2) [OF s, symmetric]) (use n in simp)
  have "take (min k (n - (?t + 8))) (drop (?t + 8) rx') = take (min k (n - (?t + 8))) (drop (?t + 8) rx)" for k
    by (rule same_slice [OF s, symmetric]) (use n in simp)
  then show ?thesis using n unfolding udp_parse_def Let_def h b g w by (cases "?t + 8 < n") simp_all
qed

lemma same_icmp:
  assumes s: "same n rx rx'"
  shows "icmp_maybe_respond rx n t = icmp_maybe_respond rx' n t"
proof (cases "n < 42 \<or> n < 14 + ihl rx + 8")
  case True
  then show ?thesis using same_ihl [OF s] same_nth [OF s] by (auto simp: icmp_maybe_respond_def)
next
  case False
  then have n: "\<not> n < 14 + 20 + 8" "\<not> n < 14 + ihl rx + 8" by simp_all
  have h: "ihl rx' = ihl rx" by (rule same_ihl [OF s, symmetric]) (use n in simp)
  let ?t = "14 + ihl rx"
  have b: "rx' ! 12 = rx ! 12" "rx' ! 13 = rx ! 13" "rx' ! 23 = rx ! 23" "rx' ! ?t = rx ! ?t"
    by (rule same_nth [OF s, symmetric]; use n in simp)+
  have g: "get16be rx' 16 = get16be rx 16" by (rule same_get(1) [OF s, symmetric]) (use n in simp)
  have w: "get32be rx' 26 = get32be rx 26" "get32be rx' 30 = get32be rx 30"
    by (rule same_get(2) [OF s, symmetric]; use n in simp)+
  have l: "icmp_payload_len rx' n = icmp_payload_len rx n" by (simp only: icmp_payload_len_def Let_def h g)
  have le: "icmp_payload_len rx n \<le> n - (?t + 8)" by (simp add: icmp_payload_len_def Let_def)
  have d: "take (4 + icmp_payload_len rx n) (drop (?t + 4) rx') = take (4 + icmp_payload_len rx n) (drop (?t + 4) rx)"
    "take 6 (drop 6 rx') = take 6 (drop 6 rx)"
    by (rule same_slice [OF s, symmetric]; use n le in linarith)+
  show ?thesis using n unfolding icmp_maybe_respond_def Let_def h b w l d by simp
qed

lemma same_arp:
  assumes "same n rx rx'"
  shows "arp_handle_frame rx n ip t = arp_handle_frame rx' n ip t" "arp_maybe_respond rx n t = arp_maybe_respond rx' n t"
proof -
  show "arp_handle_frame rx n ip t = arp_handle_frame rx' n ip t"
    using same_nth [OF assms] same_slice [OF assms, of 22 6] same_get(2) [OF assms, of 28] by (simp add: arp_handle_frame_def)
  show "arp_maybe_respond rx n t = arp_maybe_respond rx' n t"
    using same_nth [OF assms] same_slice [OF assms, of 22 6] same_slice [OF assms, of 28 4] same_get(2) [OF assms, of 38]
    by (simp add: arp_maybe_respond_def)
qed

lemma same_skip_labels: "same n rx rx' \<Longrightarrow> skip_labels rx n p = skip_labels rx' n p"
proof (induction rx n p rule: skip_labels.induct)
  case (1 rx n p)
  show ?case
  proof (cases "p < n \<and> rx ! p \<noteq> 0")
    case True
    then show ?thesis
      using 1 same_nth [OF 1(2), of p] by (simp add: skip_labels.simps [of rx n p] skip_labels.simps [of rx' n p])
  next
    case False
    then show ?thesis
      using same_nth [OF 1(2), of p] by (auto simp: skip_labels.simps [of rx n p] skip_labels.simps [of rx' n p])
  qed
qed

lemma same_skip_name: "same n rx rx' \<Longrightarrow> p < n \<Longrightarrow> skip_name rx n p = skip_name rx' n p"
  using same_nth [of n rx rx' p] by (simp add: skip_name_def same_skip_labels)

lemma same_skip_questions: "same n rx rx' \<Longrightarrow> skip_questions q rx n p = skip_questions q rx' n p"
  by (induction q arbitrary: p) (simp_all add: same_skip_name)

lemma same_find_answer: "same n rx rx' \<Longrightarrow> find_answer a rx n p = find_answer a rx' n p"
  by (induction a arbitrary: p) (simp_all add: same_skip_name same_get Let_def)

lemma same_dns_parse: "same n rx rx' \<Longrightarrow> dns_parse qid rx n = dns_parse qid rx' n"
  by (simp add: dns_parse_def Let_def same_get same_find_answer same_skip_questions)

lemma same_dhcp_payload:
  assumes s: "same n rx rx'"
  shows "dhcp_payload rx n = dhcp_payload rx' n"
proof (cases "14 + 20 + 8 \<le> n \<and> 14 + ihl rx + 8 < n")
  case True
  have h: "ihl rx' = ihl rx" by (rule same_ihl [OF s, symmetric]) (use True in simp)
  have "take (n - (14 + ihl rx + 8)) (drop (14 + ihl rx + 8) rx') = take (n - (14 + ihl rx + 8)) (drop (14 + ihl rx + 8) rx)"
    by (rule same_slice [OF s, symmetric]) (use True in simp)
  then show ?thesis
    using same_nth [OF s] same_get(1) [OF s, of "14 + ihl rx + 2"] True by (simp add: dhcp_payload_def h)
qed (use same_ihl [OF s] in \<open>auto simp: dhcp_payload_def\<close>)

text \<open>
  No parser of the library reads past the frame: with two buffers that agree on the received bytes,
  whatever older frames left behind them, every handler (ARP, ICMP, UDP, TCP, DNS, DHCP) does the same.
\<close>
theorem parsers_ignore_stale:
  assumes "n \<le> length rx" "n \<le> length rx'" "take n rx = take n rx'"
  shows "tcp_parse_segment rx n = tcp_parse_segment rx' n \<and> udp_parse rx n m = udp_parse rx' n m \<and>
    icmp_maybe_respond rx n s = icmp_maybe_respond rx' n s \<and> arp_maybe_respond rx n s = arp_maybe_respond rx' n s \<and>
    arp_handle_frame rx n ip s = arp_handle_frame rx' n ip s \<and> dns_parse qid rx n = dns_parse qid rx' n \<and>
    dhcp_payload rx n = dhcp_payload rx' n"
proof -
  have "same n rx rx'" using assms by (simp add: same_def)
  then show ?thesis
    by (intro conjI same_tcp_parse same_udp_parse same_icmp same_arp same_dns_parse same_dhcp_payload)
qed

theorem parsers_ignore_stale_witness:
  "udp_parse (eth_header (replicate 6 1) (replicate 6 2) @ replicate 30 0 @ [7]) 44 8 =
   udp_parse (eth_header (replicate 6 1) (replicate 6 2) @ replicate 30 0 @ [9]) 44 8"
  using parsers_ignore_stale [of 44 "eth_header (replicate 6 1) (replicate 6 2) @ replicate 30 0 @ [7]"
      "eth_header (replicate 6 1) (replicate 6 2) @ replicate 30 0 @ [9]" 8]
  by (simp add: eth_header_def)

end
