(* ===== verification/NameProps.thy ===== *)
theory NameProps
  imports NetProps NetArp
begin

section \<open>Names and addresses\<close>

text \<open>
  What the resolver finds in the answer of a server, what its cache answers, and what the address
  cache learns from the network.
\<close>

subsection \<open>Encoded names\<close>

fun dotted :: "u8 list list \<Rightarrow> u8 list" where
  "dotted [] = []"
| "dotted [l] = l"
| "dotted (l # ls) = l @ 0x2E # dotted ls"

definition labels_ok :: "u8 list list \<Rightarrow> bool" where
  "labels_ok ls \<longleftrightarrow> ls \<noteq> [] \<and> (\<forall>l\<in>set ls. l \<noteq> [] \<and> length l < 64 \<and> 0x2E \<notin> set l)"

definition wire_name :: "u8 list list \<Rightarrow> u8 list" where
  "wire_name ls = concat (map (\<lambda>l. word_of_nat (length l) # l) ls) @ [0]"

lemma encode_last: "0x2E \<notin> set l \<Longrightarrow> encode_labels lab l = word_of_nat (length lab + length l) # lab @ l"
  by (induction l arbitrary: lab) auto

lemma encode_label: "0x2E \<notin> set l \<Longrightarrow>
    encode_labels lab (l @ 0x2E # cs) = word_of_nat (length lab + length l) # lab @ l @ encode_labels [] cs"
  by (induction l arbitrary: lab) auto

lemma encode_dotted: "ls \<noteq> [] \<Longrightarrow> \<forall>l\<in>set ls. 0x2E \<notin> set l \<Longrightarrow> dns_encode_name (dotted ls) = wire_name ls"
proof -
  have "ls \<noteq> [] \<Longrightarrow> \<forall>l\<in>set ls. 0x2E \<notin> set l \<Longrightarrow>
      encode_labels [] (dotted ls) = concat (map (\<lambda>l. word_of_nat (length l) # l) ls)"
    by (induction ls rule: dotted.induct) (simp_all add: encode_last encode_label)
  then show "ls \<noteq> [] \<Longrightarrow> \<forall>l\<in>set ls. 0x2E \<notin> set l \<Longrightarrow> dns_encode_name (dotted ls) = wire_name ls"
    by (simp add: dns_encode_name_def wire_name_def)
qed

lemma unat_label: "n < 64 \<Longrightarrow> unat (word_of_nat n :: u8) = n"
  by (rule unat_word_of_nat) simp

lemma skip_wire:
  assumes "\<forall>l\<in>set ls. l \<noteq> [] \<and> length l < 64" "k \<le> length rx" "rx = ps @ concat (map (\<lambda>l. word_of_nat (length l) # l) ls) @ 0 # qs"
    and "length ps + length (concat (map (\<lambda>l. word_of_nat (length l) # l) ls)) \<le> k"
  shows "skip_labels rx k (length ps) = length ps + length (concat (map (\<lambda>l. word_of_nat (length l) # l) ls))"
  using assms
proof (induction ls arbitrary: ps)
  case Nil
  then show ?case by (simp add: skip_labels.simps nth_append)
next
  case (Cons l ls)
  let ?b = "word_of_nat (length l) :: u8"
  let ?ps = "ps @ ?b # l"
  have b: "unat ?b = length l" using Cons.prems(1) by (intro unat_label) simp
  then have nz: "?b \<noteq> 0" using Cons.prems(1) by (metis length_0_conv list.set_intros(1) unat_0)
  have "rx ! length ps = ?b" using Cons.prems(3) by simp
  then have "skip_labels rx k (length ps) = skip_labels rx k (length ?ps)"
    using nz b Cons.prems(2,4) by (subst skip_labels.simps) simp
  also have "\<dots> = length ?ps + length (concat (map (\<lambda>l. word_of_nat (length l) # l) ls))"
    by (rule Cons.IH) (use Cons.prems in simp_all)
  finally show ?case by simp
qed

lemma label_no_pointer: "n < 64 \<Longrightarrow> (word_of_nat n :: u8) AND 0xC0 \<noteq> 0xC0"
proof -
  assume n: "n < 64"
  let ?w = "word_of_nat n :: u8"
  have "bit ?w 7 = bit (unat ?w) 7" by (simp only: bit_unsigned_iff) simp
  then have "\<not> bit ?w 7" using n unat_label [OF n] by (simp add: bit_iff_odd)
  show ?thesis
  proof
    assume e: "?w AND 0xC0 = 0xC0"
    have "bit (0xC0 :: u8) 7" by code_simp
    then have "bit (?w AND 0xC0) 7" by (simp only: e)
    then have "bit ?w 7" unfolding bit_and_iff by (rule conjunct1)
    with \<open>\<not> bit ?w 7\<close> show False by (rule notE)
  qed
qed

subsection \<open>Answers\<close>

text \<open>The owner of a record is a name of labels or a pointer of two bytes.\<close>

definition is_owner :: "u8 list \<Rightarrow> bool" where
  "is_owner b \<longleftrightarrow> (\<exists>x y. b = [x, y] \<and> x AND 0xC0 = 0xC0) \<or> (\<exists>ls. labels_ok ls \<and> b = wire_name ls)"

lemma skip_owner:
  assumes "is_owner b" "rx = ps @ b @ qs"
  shows "skip_name rx (length rx) (length ps) = length ps + length b"
proof -
  consider x y where "b = [x, y]" "x AND 0xC0 = 0xC0" | ls where "labels_ok ls" "b = wire_name ls"
    using assms(1) unfolding is_owner_def by blast
  then show ?thesis
  proof cases
    case 1
    then show ?thesis using assms(2) by (simp add: skip_name_def)
  next
    case (2 ls)
    then obtain l ms where ls: "ls = l # ms" "length l < 64" by (cases ls) (auto simp: labels_ok_def)
    have "rx ! length ps = word_of_nat (length l)" using assms(2) 2(2) ls(1) by (simp add: wire_name_def)
    then have np: "rx ! length ps AND 0xC0 \<noteq> 0xC0" using label_no_pointer [OF ls(2)] by simp
    have "skip_labels rx (length rx) (length ps) = length ps + length (concat (map (\<lambda>l. word_of_nat (length l) # l) ls))"
      by (rule skip_wire [where qs = qs]) (use assms(2) 2 in \<open>auto simp: labels_ok_def wire_name_def\<close>)
    then show ?thesis using np 2(2) by (simp add: skip_name_def wire_name_def)
  qed
qed

lemma owner_length: "is_owner b \<Longrightarrow> 2 \<le> length b"
  by (auto simp: is_owner_def wire_name_def labels_ok_def neq_Nil_conv)

text \<open>A resource record: owner, type, time to live, data.\<close>

type_synonym dns_rr = "u8 list \<times> u16 \<times> u32 \<times> u8 list"

fun rr_bytes :: "dns_rr \<Rightarrow> u8 list" where
  "rr_bytes (owner, rtype, ttl, rdata) =
     owner @ put16be rtype @ put16be 1 @ put32be ttl @ put16be (word_of_nat (length rdata)) @ rdata"

fun rr_ok :: "dns_rr \<Rightarrow> bool" where
  "rr_ok (owner, rtype, ttl, rdata) = (is_owner owner \<and> length rdata < 65536)"

fun is_address :: "dns_rr \<Rightarrow> bool" where
  "is_address (owner, rtype, ttl, rdata) = (rtype = 1 \<and> length rdata = 4)"

lemma rr_fields:
  assumes "rr_ok (owner, rtype, ttl, rdata)" "rx = ps @ rr_bytes (owner, rtype, ttl, rdata) @ qs"
  defines "p \<equiv> length ps + length owner"
  shows "skip_name rx (length rx) (length ps) = p" "get16be rx p = rtype" "get32be rx (p + 4) = ttl"
    "unat (get16be rx (p + 8)) = length rdata" "p + 10 + length rdata \<le> length rx" "length ps + 12 \<le> p + 10"
    "rdata = put32be v \<Longrightarrow> get32be rx (p + 10) = v"
proof -
  have b: "rx = ps @ owner @ put16be rtype @ put16be 1 @ put32be ttl @ put16be (word_of_nat (length rdata)) @ rdata @ qs"
    using assms(2) by simp
  show "skip_name rx (length rx) (length ps) = p"
    unfolding p_def by (rule skip_owner [OF _ b]) (use assms(1) in simp)
  show "get16be rx p = rtype"
    using get16_at [of "ps @ owner" p rtype "put16be 1 @ put32be ttl @ put16be (word_of_nat (length rdata)) @ rdata @ qs"]
    by (simp add: b p_def)
  show "get32be rx (p + 4) = ttl"
    using get32_at [of "ps @ owner @ put16be rtype @ put16be 1" "p + 4" ttl "put16be (word_of_nat (length rdata)) @ rdata @ qs"]
    by (simp add: b p_def)
  have "get16be rx (p + 8) = word_of_nat (length rdata)"
    using get16_at [of "ps @ owner @ put16be rtype @ put16be 1 @ put32be ttl" "p + 8" "word_of_nat (length rdata)" "rdata @ qs"]
    by (simp add: b p_def)
  moreover have "unat (word_of_nat (length rdata) :: u16) = length rdata"
    by (rule unat_word_of_nat) (use assms(1) in simp)
  ultimately show "unat (get16be rx (p + 8)) = length rdata" by simp
  show "p + 10 + length rdata \<le> length rx" by (simp add: b p_def)
  show "length ps + 12 \<le> p + 10" using owner_length assms(1) by (simp add: p_def)
  show "get32be rx (p + 10) = v" if "rdata = put32be v"
    using get32_at [of "ps @ owner @ put16be rtype @ put16be 1 @ put32be ttl @ put16be (word_of_nat (length rdata))" "p + 10" v qs]
    by (simp add: b p_def that)
qed

lemma find_first_address:
  assumes "rx = ps @ concat (map rr_bytes pre) @ rr_bytes (owner, 1, ttl, put32be ip) @ qs"
    and "\<forall>r\<in>set pre. rr_ok r \<and> \<not> is_address r" "is_owner owner" "length pre < a"
  shows "find_answer a rx (length rx) (length ps) = Some (ip, ttl)"
  using assms
proof (induction pre arbitrary: ps a)
  case Nil
  then obtain a' where a: "a = Suc a'" by (cases a) auto
  have r: "rr_ok (owner, 1, ttl, put32be ip)" using Nil.prems(3) by simp
  have x: "rx = ps @ rr_bytes (owner, 1, ttl, put32be ip) @ qs" using Nil.prems(1) by simp
  note f = rr_fields [OF r x]
  show ?case using f(1-6) f(7) [OF refl] by (simp add: a Let_def)
next
  case (Cons r pre)
  then obtain a' where a: "a = Suc a'" "length pre < a'" by (cases a) auto
  obtain ow ty tl rd where r: "r = (ow, ty, tl, rd)" by (cases r)
  let ?ps = "ps @ rr_bytes r"
  have ok: "rr_ok (ow, ty, tl, rd)" using Cons.prems(2) r by simp
  have x: "rx = ps @ rr_bytes (ow, ty, tl, rd) @ concat (map rr_bytes pre) @ rr_bytes (owner, 1, ttl, put32be ip) @ qs"
    using Cons.prems(1) r by simp
  note f = rr_fields [OF ok x]
  have na: "\<not> (ty = 1 \<and> length rd = 4)" using Cons.prems(2) r by simp
  have l: "length ps + length ow + 10 + length rd = length ?ps" by (simp add: r)
  have "find_answer a rx (length rx) (length ps) = find_answer a' rx (length rx) (length ps + length ow + 10 + length rd)"
    unfolding a(1) find_answer.simps f(1) Let_def f(2-4) using f(5,6) na by auto
  also have "\<dots> = Some (ip, ttl)"
    unfolding l by (rule Cons.IH) (use Cons.prems a(2) in auto)
  finally show ?case .
qed

text \<open>C24. The parser of the resolver finds the address in an answer: for every host name of labels of 1 to 63 bytes and every
  answer that repeats the question and has an address record among its records (whatever other
  records, aliases say, come before) it returns the address and the lifetime of the first one. The owner names of the records up to
  this one are compression pointers or plain sequences of labels; what happens to labels that end in a pointer is stated in \<open>dns_pointer_after_label\<close>.\<close>

theorem dns_answer_found:
  assumes "labels_ok ls" "length (flags :: u8 list) = 2" "length counts = 4" "length question = 4"
    and "\<forall>r\<in>set pre. rr_ok r \<and> \<not> is_address r" "is_owner owner" "length pre + 1 + length post < 65536"
    and rrs_def: "rrs = pre @ (owner, 1, ttl, put32be ip) # post"
    and msg_def: "msg = put16be qid @ flags @ put16be 1 @ put16be (word_of_nat (length rrs)) @ counts @
    dns_encode_name (dotted ls) @ question @ concat (map rr_bytes rrs)"
  shows "dns_parse qid msg (length msg) = Some (ip, ttl)"
proof -
  let ?w = "wire_name ls"
  have w: "dns_encode_name (dotted ls) = ?w" using assms(1) by (intro encode_dotted) (auto simp: labels_ok_def)
  let ?h = "put16be qid @ flags @ put16be 1 @ put16be (word_of_nat (length rrs)) @ counts"
  have h: "length ?h = 12" using assms(2,3) by simp
  have m1: "msg = ?h @ ?w @ question @ concat (map rr_bytes rrs)" by (simp add: msg_def w)
  have m2: "msg = (?h @ ?w @ question) @ concat (map rr_bytes pre) @ rr_bytes (owner, 1, ttl, put32be ip) @ concat (map rr_bytes post)"
    by (simp add: m1 rrs_def)
  have g0: "get16be msg 0 = qid" using get16_at [of "[]" 0 qid] by (simp add: m1)
  have g4: "unat (get16be msg 4) = Suc 0"
    using get16_at [of "put16be qid @ flags" 4 1] assms(2) by (simp add: m1)
  have "get16be msg 6 = word_of_nat (length rrs)"
    using get16_at [of "put16be qid @ flags @ put16be 1" 6 "word_of_nat (length rrs)"] assms(2) by (simp add: m1)
  moreover have "unat (word_of_nat (length rrs) :: u16) = length rrs"
    by (rule unat_word_of_nat) (use assms(7) in \<open>simp add: rrs_def\<close>)
  ultimately have g6: "unat (get16be msg 6) = length rrs" by simp
  have "is_owner ?w" using assms(1) by (auto simp: is_owner_def)
  then have "skip_name msg (length msg) 12 = 12 + length ?w" using skip_owner [OF _ m1] h by simp
  then have sq: "skip_questions (Suc 0) msg (length msg) 12 = length (?h @ ?w @ question)"
    using h assms(4) m1 by simp
  have "find_answer (length rrs) msg (length msg) (length (?h @ ?w @ question)) = Some (ip, ttl)"
    by (rule find_first_address [OF m2 assms(5,6)]) (simp add: rrs_def)
  moreover have "12 \<le> length msg" "0 < length rrs" using h by (simp_all add: m1 rrs_def)
  ultimately show ?thesis by (simp add: dns_parse_def Let_def g0 g4 g6 sq del: skip_questions.simps length_append)
qed

theorem dns_answer_found_witness:
  "\<exists>msg. dns_parse 7 msg 55 = Some (0x5DB8D822, 300)"
proof -
  let ?rrs = "[([0xC0, 12], 5, 60, [1, 120, 0]), ([0xC0, 40], 1, 300, put32be 0x5DB8D822)] :: dns_rr list"
  let ?ls = "[[119, 119, 119], [97, 98]] :: u8 list list"
  let ?msg = "put16be 7 @ [0x81, 0x80] @ put16be 1 @ put16be (word_of_nat (length ?rrs)) @ [0, 0, 0, 0] @
    dns_encode_name (dotted ?ls) @ [0, 1, 0, 1] @ concat (map rr_bytes ?rrs)"
  have rrs: "?rrs = [([0xC0, 12], 5, 60, [1, 120, 0])] @ ([0xC0, 40], 1, 300, put32be 0x5DB8D822) # []" by simp
  have "dns_parse 7 ?msg (length ?msg) = Some (0x5DB8D822, 300)"
    by (rule dns_answer_found [OF _ _ _ _ _ _ _ rrs refl]) (simp_all add: labels_ok_def is_owner_def)
  moreover have "length ?msg = 55" by (simp add: dns_encode_name_def)
  ultimately show ?thesis by metis
qed

text \<open>An owner name that begins with labels and ends in a pointer, which the standard allows, is not
  understood: the pointer is taken for a label of 192 bytes and the answer is lost.\<close>

lemma dns_pointer_after_label:
  "dns_parse 7 ([0, 7, 0x81, 0x80, 0, 0, 0, 1, 0, 0, 0, 0] @ [3, 119, 119, 119, 0xC0, 40] @ [0, 1, 0, 1, 0, 0, 0, 60, 0, 4, 93, 184, 216, 34]) 32 = None"
  "dns_parse 7 ([0, 7, 0x81, 0x80, 0, 0, 0, 1, 0, 0, 0, 0] @ [3, 119, 119, 119, 0] @ [0, 1, 0, 1, 0, 0, 0, 60, 0, 4, 93, 184, 216, 34]) 31 =
    Some (0x5DB8D822, 60)"
  by code_simp+

subsection \<open>The cache of the resolver\<close>

lemma dns_streq_eq [simp]: "dns_streq xs ys = (xs = ys)"
  by (induction xs ys rule: dns_streq.induct) auto

lemma find_upt_Some:
  "find P [0..<n] = Some i \<longleftrightarrow> i < n \<and> P i \<and> (\<forall>j<i. \<not> P j)"
  unfolding find_Some_iff by auto

lemma dns_find_Some:
  "dns_find name d = Some i \<longleftrightarrow>
     i < DNS_CACHE_SIZE \<and> used (dns_cache d ! i) \<and> hostname (dns_cache d ! i) = name \<and>
     (\<forall>j<i. \<not> (used (dns_cache d ! j) \<and> hostname (dns_cache d ! j) = name))"
  by (auto simp: dns_find_def find_upt_Some)

lemma dns_find_None:
  "dns_find name d = None \<longleftrightarrow> (\<forall>j<DNS_CACHE_SIZE. \<not> (used (dns_cache d ! j) \<and> hostname (dns_cache d ! j) = name))"
  by (auto simp: dns_find_def find_None_iff)

definition dns_ok :: "dns \<Rightarrow> bool" where
  "dns_ok d \<longleftrightarrow> length (dns_cache d) = DNS_CACHE_SIZE \<and> dns_cache_next d < DNS_CACHE_SIZE \<and>
     (\<forall>e\<in>set (dns_cache d). length (hostname e) < DNS_HOSTNAME_MAX)"

lemma dns_slot:
  assumes "dns_ok d" "dns_cache_slot name d = (i, d1)"
  shows "i < DNS_CACHE_SIZE \<and> dns_cache d1 = dns_cache d \<and> dns_ok d1 \<and> (dns_find name d = None \<or> dns_find name d = Some i)"
  using assms by (auto simp: dns_cache_slot_def dns_ok_def dns_find_Some find_upt_Some split: option.splits)

text \<open>The entry that was stored is the one that is found, unless another name cut to the same 63 bytes.\<close>

lemma dns_find_stored:
  assumes "dns_ok d" "dns_cache_slot name d = (i, d1)" "hostname e = take 63 name" "used e"
    and "length name < DNS_HOSTNAME_MAX \<or> dns_find (take 63 name) d = None"
  shows "dns_find (take 63 name) (d1\<lparr>dns_cache := (dns_cache d1)[i := e]\<rparr>) = Some i"
proof -
  note s = dns_slot [OF assms(1,2)]
  have l: "length (dns_cache d1) = DNS_CACHE_SIZE" using s assms(1) by (simp add: dns_ok_def)
  have "dns_find (take 63 name) d = None \<or> dns_find (take 63 name) d = Some i" using s assms(5) by auto
  then have "\<forall>j<i. \<not> (used (dns_cache d ! j) \<and> hostname (dns_cache d ! j) = take 63 name)"
    using s by (auto simp: dns_find_Some dns_find_None)
  then show ?thesis using s l assms(3,4) by (auto simp: dns_find_Some)
qed

lemma ticks_left:
  assumes "k < 2147483648" "T < 2147483648"
  shows "sint ((v + word_of_nat k) - (v + word_of_nat T) :: u32) < 0 \<longleftrightarrow> k < T"
proof -
  let ?k = "int k - int T"
  have "(v + word_of_nat k) - (v + word_of_nat T) = (word_of_int ?k :: u32)" by simp
  moreover have "sint (word_of_int k :: u32) = signed_take_bit 31 k" for k by (simp add: signed_of_int)
  moreover have "signed_take_bit 31 ?k = ?k"
    by (rule signed_take_bit_int_eq_self) (use assms in simp_all)
  ultimately have "sint ((v + word_of_nat k) - (v + word_of_nat T) :: u32) = ?k" by metis
  then show ?thesis by simp
qed

text \<open>The cache of the resolver: an address stored for a name of fewer than 64 bytes is found for the
  lifetime of its record, at most an hour, and not after it; for a longer name it is found under the
  first 63 bytes of the name, which is another name, and never under the name itself.\<close>

theorem dns_cache_lookup_store:
  assumes "dns_ok d" "0 < ttl" "T = (if 3600 < ttl then 3600 else ttl)" "k < 2147483648"
    and "length name < DNS_HOSTNAME_MAX \<or> dns_find (take 63 name) d = None"
  shows "fst (dns_cache_lookup (take 63 name) (n\<lparr>now := now n + word_of_nat k\<rparr>) (dns_cache_store name ip ttl n d)) =
      (if k < unat T * 100 then Some ip else None) \<and>
    (DNS_HOSTNAME_MAX \<le> length name \<longrightarrow>
      fst (dns_cache_lookup name (n\<lparr>now := now n + word_of_nat k\<rparr>) (dns_cache_store name ip ttl n d)) = None)"
proof -
  obtain i d1 where s: "dns_cache_slot name d = (i, d1)" by fastforce
  note sl = dns_slot [OF assms(1) s]
  let ?e = "\<lparr>hostname = take 63 name, dns_ip = ip, expiry = now n + T * 100, used = True\<rparr>"
  let ?d = "d1\<lparr>dns_cache := (dns_cache d1)[i := ?e]\<rparr>"
  have st: "dns_cache_store name ip ttl n d = ?d"
    using assms(2,3) s by (simp add: dns_cache_store_def dns_strcpy_def)
  have f: "dns_find (take 63 name) ?d = Some i" by (rule dns_find_stored [OF assms(1) s _ _ assms(5)]) simp_all
  have l: "i < length (dns_cache d1)" using sl assms(1) by (simp add: dns_ok_def)
  have T: "unat T \<le> 3600" using assms(3) by (auto simp: word_less_nat_alt not_less)
  have "T * 100 = word_of_nat (unat T * 100)" by simp
  then have "sint (now n + word_of_nat k - (now n + T * 100)) < 0 \<longleftrightarrow> k < unat T * 100"
    using ticks_left [of k "unat T * 100" "now n"] assms(4) T by simp
  then have 1: "fst (dns_cache_lookup (take 63 name) (n\<lparr>now := now n + word_of_nat k\<rparr>) ?d) = (if k < unat T * 100 then Some ip else None)"
    using f l by (simp add: dns_cache_lookup_def)
  have "dns_find name ?d = None" if "DNS_HOSTNAME_MAX \<le> length name"
  proof -
    have "length (hostname (dns_cache ?d ! j)) < DNS_HOSTNAME_MAX" if "j < DNS_CACHE_SIZE" for j
      using sl l that assms(1) by (cases "j = i") (simp_all add: dns_ok_def)
    then show ?thesis using that by (force simp: dns_find_None)
  qed
  then show ?thesis using 1 by (simp add: st dns_cache_lookup_def)
qed

theorem dns_cache_lookup_store_witness:
  "let d = \<lparr>dns_cache = replicate 8 \<lparr>hostname = [], dns_ip = 0, expiry = 0, used = False\<rparr>, dns_cache_next = 0\<rparr>
   in \<forall>n. fst (dns_cache_lookup (replicate 63 97) (n\<lparr>now := now n + word_of_nat 5\<rparr>) (dns_cache_store (replicate 70 97) 9 60 n d)) = Some 9 \<and>
      fst (dns_cache_lookup (replicate 70 97) (n\<lparr>now := now n + word_of_nat 5\<rparr>) (dns_cache_store (replicate 70 97) 9 60 n d)) = None"
proof -
  let ?d = "\<lparr>dns_cache = replicate 8 \<lparr>hostname = [], dns_ip = 0, expiry = 0, used = False\<rparr>, dns_cache_next = 0\<rparr>"
  have d: "dns_ok ?d" "dns_find x ?d = None" for x by (simp_all add: dns_ok_def dns_find_None)
  show ?thesis
    using dns_cache_lookup_store [OF d(1) _ refl, of 60 5 "replicate 70 97"] d(2) by (simp add: Let_def)
qed

subsection \<open>The address cache\<close>

lemma arp_get_put:
  assumes "length (arp_cache_tbl s) = ARP_CACHE_SIZE"
  shows "arp_cache_get ip (arp_cache_put ip mac s) = Some mac" "length (arp_cache_tbl (arp_cache_put ip mac s)) = ARP_CACHE_SIZE"
proof -
  let ?P = "\<lambda>s i. arp_valid (arp_cache_tbl s ! i) \<and> arp_ip (arp_cache_tbl s ! i) = ip"
  obtain i where i: "i < ARP_CACHE_SIZE" "\<forall>j<i. \<not> ?P s j"
    "arp_cache_put ip mac s = s\<lparr>arp_cache_tbl := (arp_cache_tbl s)[i := \<lparr>arp_ip = ip, arp_mac = mac, arp_valid = True\<rparr>]\<rparr>"
  proof (cases "arp_lookup ip s")
    case (Some i)
    then have "i < ARP_CACHE_SIZE \<and> (\<forall>j<i. \<not> ?P s j)" by (simp add: arp_lookup_def find_upt_Some)
    then show ?thesis using that [of i] Some by (simp add: arp_cache_put_def)
  next
    case None
    then have n: "\<forall>j<ARP_CACHE_SIZE. \<not> ?P s j" by (auto simp: arp_lookup_def find_None_iff)
    show ?thesis
    proof (cases "find (\<lambda>i. \<not> arp_valid (arp_cache_tbl s ! i)) [0..<ARP_CACHE_SIZE]")
      case None
      then show ?thesis using that [of 0] \<open>arp_lookup ip s = None\<close> by (simp add: arp_cache_put_def)
    next
      case (Some i)
      then have "i < ARP_CACHE_SIZE" by (simp add: find_upt_Some)
      then show ?thesis using that [of i] \<open>arp_lookup ip s = None\<close> Some n by (simp add: arp_cache_put_def)
    qed
  qed
  let ?s = "s\<lparr>arp_cache_tbl := (arp_cache_tbl s)[i := \<lparr>arp_ip = ip, arp_mac = mac, arp_valid = True\<rparr>]\<rparr>"
  have "arp_lookup ip ?s = Some i"
    using i(1,2) assms by (auto simp: arp_lookup_def find_upt_Some)
  then show "arp_cache_get ip (arp_cache_put ip mac s) = Some mac" using i assms by (simp add: arp_cache_get_def)
  show "length (arp_cache_tbl (arp_cache_put ip mac s)) = ARP_CACHE_SIZE" using i(3) assms by simp
qed

text \<open>A reply that says who owns \<open>ip\<close>.\<close>

definition arp_reply :: "u32 \<Rightarrow> u8 list \<Rightarrow> u8 list \<Rightarrow> bool" where
  "arp_reply ip mac f \<longleftrightarrow>
     42 \<le> length f \<and> f ! 12 = 0x08 \<and> f ! 13 = 0x06 \<and> f ! 20 = 0 \<and> f ! 21 = 2 \<and> get32be f 28 = ip \<and> mac = take 6 (drop 22 f)"

lemma arp_keeps:
  "length (arp_cache_tbl (snd (arp_maybe_respond rx n s))) = length (arp_cache_tbl s)"
  "inbox (snd (arp_maybe_respond rx n s)) = inbox s"
  by (simp_all add: arp_maybe_respond_def Let_def ax_net_send_def arp_learn_mac_def split: option.splits)

lemma arp_wait_ok:
  assumes "length (arp_cache_tbl s) = ARP_CACHE_SIZE" "arp_wait_step ip s = (r, s')"
  shows "length (arp_cache_tbl s') = ARP_CACHE_SIZE \<and> set (inbox s') \<subseteq> set (inbox s) \<and>
    (\<forall>mac. r = Some mac \<longrightarrow> arp_cache_get ip s' = Some mac \<and> (\<exists>f\<in>set (inbox s). arp_reply ip mac f))"
proof -
  obtain n s1 where 1: "arp_receive s = (n, s1)" by fastforce
  have s1: "length (arp_cache_tbl s1) = ARP_CACHE_SIZE" "set (inbox s1) \<subseteq> set (inbox s)"
    using 1 assms(1) by (auto simp: arp_receive_def ax_net_recv_def Let_def split: list.splits if_splits)
  have f: "n = 0 \<or> (\<exists>f\<in>set (inbox s). same n (arp_rx_buf s1) f \<and> length f = n)"
    using 1 by (auto simp: arp_receive_def ax_net_recv_def Let_def same_def split: list.splits if_splits)
  obtain r2 s2 where 2: "arp_handle_frame (arp_rx_buf s1) n ip s1 = (r2, s2)" by fastforce
  have s2: "length (arp_cache_tbl s2) = ARP_CACHE_SIZE" "inbox s2 = inbox s1"
    using 2 s1(1) arp_get_put(2) [OF s1(1)]
    by (auto simp: arp_handle_frame_def Let_def arp_cache_put_def split: if_splits)
  show ?thesis
  proof (cases "n = 0 \<or> r2 = None")
    case True
    then have "r = None" "s' = s1 \<or> s' = snd (arp_maybe_respond (arp_rx_buf s2) n s2)"
      using assms(2) 2 by (auto simp: arp_wait_step_def 1 split: if_splits)
    then show ?thesis using s1 s2 by (auto simp: arp_keeps)
  next
    case False
    then obtain mac where mac: "r2 = Some mac" "r = Some mac" "s' = s2" using assms(2) 2 by (auto simp: arp_wait_step_def 1)
    obtain g where g: "g \<in> set (inbox s)" "same n (arp_rx_buf s1) g" "length g = n" using f False by blast
    have h: "42 \<le> n" "arp_rx_buf s1 ! 12 = 0x08" "arp_rx_buf s1 ! 13 = 0x06" "arp_rx_buf s1 ! 20 = 0" "arp_rx_buf s1 ! 21 = 2"
      "get32be (arp_rx_buf s1) 28 = ip" "mac = take 6 (drop 22 (arp_rx_buf s1))" "s2 = arp_cache_put ip mac s1"
      using 2 mac(1) by (auto simp: arp_handle_frame_def Let_def split: if_splits)
    have "arp_reply ip mac g"
      using h same_nth [OF g(2)] same_slice [OF g(2), of 22 6] same_get(2) [OF g(2), of 28] by (simp add: arp_reply_def g(3))
    then show ?thesis using mac s1 s2 g(1) h(8) arp_get_put(1) [OF s1(1)] by auto
  qed
qed

text \<open>C25. Address resolution: whatever frames arrive while it waits, the address \<^verbatim>\<open>arp_resolve\<close> returns was in the
  cache or is the sender address of a reply for this IP address among the received frames, and the next
  resolution finds it in the cache.\<close>

theorem arp_resolve_correct:
  assumes "length (arp_cache_tbl s) = ARP_CACHE_SIZE" "arp_resolve ip timeout s = (Some mac, s')"
  shows "arp_resolve ip timeout' s' = (Some mac, s') \<and>
    (arp_cache_get ip s = Some mac \<or> (\<exists>f\<in>set (inbox s). arp_reply ip mac f))"
proof (cases "arp_cache_get ip s")
  case (Some m)
  then show ?thesis using assms(2) by (auto simp: arp_resolve_def)
next
  case None
  let ?s0 = "arp_send_request ip s"
  let ?I = "\<lambda>s1. length (arp_cache_tbl s1) = ARP_CACHE_SIZE \<and> set (inbox s1) \<subseteq> set (inbox s)"
  let ?R = "\<lambda>mac s1. arp_cache_get ip s1 = Some mac \<and> (\<exists>f\<in>set (inbox s). arp_reply ip mac f)"
  obtain w where l: "poll_loop 20 (arp_wait_step ip) timeout 0 ?s0 = (Some mac, w, s')"
    using assms(2) None by (auto simp: arp_resolve_def split: prod.splits)
  have i0: "?I ?s0" using assms(1)
    by (simp add: arp_send_request_def Let_def ax_net_send_def arp_learn_mac_def split: option.splits)
  have "case Some mac of None \<Rightarrow> ?I s' | Some x \<Rightarrow> ?R x s'"
  proof (rule poll_loop_inv [where I = ?I and R = ?R, OF i0 _ _ l])
    show "case r of None \<Rightarrow> ?I s2 | Some x \<Rightarrow> ?R x s2" if "?I s1" "arp_wait_step ip s1 = (r, s2)" for s1 r s2
      using arp_wait_ok [OF conjunct1 [OF that(1)] that(2)] that(1) by (cases r) (simp_all, blast+)
  qed (simp add: ax_sleep_ms_def)
  then show ?thesis by (simp add: arp_resolve_def)
qed

theorem arp_resolve_correct_witness:
  "\<exists>s s'. arp_resolve 0x0A000203 2000 s = (Some [1, 2, 3, 4, 5, 6], s') \<and> arp_resolve 0x0A000203 0 s' = (Some [1, 2, 3, 4, 5, 6], s')"
proof -
  obtain s :: net where s: "arp_cache_tbl s = \<lparr>arp_ip = 0x0A000203, arp_mac = [1, 2, 3, 4, 5, 6], arp_valid = True\<rparr> #
      replicate 7 \<lparr>arp_ip = 0, arp_mac = [], arp_valid = False\<rparr>"
    by (metis net.select_convs(4))
  have "arp_resolve 0x0A000203 2000 s = (Some [1, 2, 3, 4, 5, 6], s)"
    by (simp add: arp_resolve_def arp_cache_get_def arp_lookup_def upt_rec s)
  then show ?thesis using arp_resolve_correct [of s "0x0A000203" 2000 "[1, 2, 3, 4, 5, 6]" s 0] s by auto
qed

end
