(* ===== verification/TcpStream.thy ===== *)
theory TcpStream
  imports TcpWire
begin

section \<open>A byte stream over a network that loses, repeats and reorders frames\<close>

text \<open>
  The multiplexed server (\<^verbatim>\<open>tcp_mux_poll, tcp_mux_send, tcp_mux_close\<close>) against the client calls
  \<^verbatim>\<open>tcp_recv\<close> and \<^verbatim>\<open>tcp_send\<close>. A step is one call of one side; before the call the network puts any
  frames into its inbox that the other side sent at any time before (zero, one or many times, in any
  order), mixed with frames of anybody else that do not carry the addresses of the connection. The
  clock may jump. \<open>accepted\<close> are the bytes the server program handed to \<^verbatim>\<open>tcp_mux_send\<close> with success,
  \<open>delivered\<close> those the client program got from \<^verbatim>\<open>tcp_recv\<close>: the abstract specification is a stream
  with one writer and one reader.
\<close>

record session =
  cl_ip :: u32
  cl_port :: u16
  sv_ip :: u32
  sv_port :: u16
  slot_no :: nat
  start_seq :: u32

record chan =
  srv :: mux
  srv_net :: net
  cli :: tcp_conn
  cli_net :: net
  accepted :: "u8 list"
  delivered :: "u8 list"

definition mine :: "session \<Rightarrow> tcp_slot \<Rightarrow> bool" where
  "mine p s \<longleftrightarrow> state s \<noteq> TCP_SLOT_FREE \<and> remote_ip (conn s) = cl_ip p \<and> remote_port (conn s) = cl_port p"

definition the_slot :: "session \<Rightarrow> chan \<Rightarrow> tcp_slot" where
  "the_slot p ch = tcp_slots (srv ch) ! slot_no p"

text \<open>What the network may deliver to either side.\<close>

definition to_client :: "session \<Rightarrow> chan \<Rightarrow> u8 list \<Rightarrow> bool" where
  "to_client p ch f \<longleftrightarrow>
     f \<in> set (sent (srv_net ch)) \<and> get32be f 30 = cl_ip p \<or>
     (\<forall>seg. tcp_parse_segment f (length f) = Some seg \<longrightarrow> \<not> from_peer (cli ch) seg)"

definition to_server :: "session \<Rightarrow> chan \<Rightarrow> u8 list \<Rightarrow> bool" where
  "to_server p ch f \<longleftrightarrow>
     f \<in> set (sent (cli_net ch)) \<or>
     (\<forall>seg. tcp_parse_segment f (length f) = Some seg \<longrightarrow>
        \<not> (seg_src_ip seg = cl_ip p \<and> seg_src_port seg = cl_port p))"

definition got :: "recv_result \<Rightarrow> u8 list" where
  "got r = (case r of RecvData bs \<Rightarrow> bs | RecvTimeout \<Rightarrow> [] | RecvClosed \<Rightarrow> [])"

inductive stream_step :: "session \<Rightarrow> chan \<Rightarrow> chan \<Rightarrow> bool" for p where
  server_poll:
    "(\<forall>f\<in>set fs. to_server p ch f) \<Longrightarrow>
     tcp_mux_poll (srv ch) ((srv_net ch)\<lparr>inbox := fs, now := t\<rparr>) = (r, m, n) \<Longrightarrow>
     stream_step p ch (ch\<lparr>srv := m, srv_net := n\<rparr>)"
| server_send:
    "i < TCP_MAX_CONNS \<Longrightarrow> length (accepted ch) + length data < 2147483647 \<Longrightarrow>
     tcp_mux_send i data (srv ch) ((srv_net ch)\<lparr>now := t\<rparr>) = (ok, m, n) \<Longrightarrow>
     stream_step p ch (ch\<lparr>srv := m, srv_net := n,
       accepted := (if ok \<and> i = slot_no p \<and> mine p (the_slot p ch) then accepted ch @ data else accepted ch)\<rparr>)"
| server_close:
    "i < TCP_MAX_CONNS \<Longrightarrow> tcp_mux_close i (srv ch) ((srv_net ch)\<lparr>now := t\<rparr>) = (m, n) \<Longrightarrow>
     stream_step p ch (ch\<lparr>srv := m, srv_net := n\<rparr>)"
| client_recv:
    "(\<forall>f\<in>set fs. to_client p ch f) \<Longrightarrow>
     tcp_recv (cli ch) k timeout ((cli_net ch)\<lparr>inbox := fs, now := t\<rparr>) = (r, c, n) \<Longrightarrow>
     stream_step p ch (ch\<lparr>cli := c, cli_net := n, delivered := delivered ch @ got r\<rparr>)"
| client_send:
    "(\<forall>f\<in>set fs. to_client p ch f) \<Longrightarrow>
     tcp_send (cli ch) data ((cli_net ch)\<lparr>inbox := fs, now := t\<rparr>) = (ok, c, n) \<Longrightarrow>
     stream_step p ch (ch\<lparr>cli := c, cli_net := n\<rparr>)"

subsection \<open>Frames\<close>

definition macs_ok :: "tcp_conn \<Rightarrow> bool" where
  "macs_ok c \<longleftrightarrow> length (remote_mac c) = 6 \<and> length (my_mac c) = 6"

definition arp_type :: "u8 list \<Rightarrow> bool" where
  "arp_type f \<longleftrightarrow> 14 \<le> length f \<and> f ! 13 = 0x06"

text \<open>A segment of the stream \<open>D\<close>; a FIN comes at its end and only when \<open>fin\<close> allows it.\<close>

definition good :: "session \<Rightarrow> u8 list \<Rightarrow> bool \<Rightarrow> tcp_conn \<Rightarrow> u8 \<Rightarrow> u8 list \<Rightarrow> bool" where
  "good p D fin c fl d \<longleftrightarrow>
     (\<exists>off. snd_nxt c = start_seq p + word_of_nat off \<and> off + length d \<le> length D \<and>
        d = take (length d) (drop off D) \<and>
        (fl AND TCP_FLAG_FIN \<noteq> 0 \<longrightarrow> d = [] \<and> off = length D \<and> fin))"

definition srv_frame :: "session \<Rightarrow> u8 list \<Rightarrow> bool \<Rightarrow> u8 list \<Rightarrow> bool" where
  "srv_frame p D fin f \<longleftrightarrow> arp_type f \<or>
     (\<exists>c fl d. f = tcp_frame (sv_ip p) c fl d \<and> macs_ok c \<and> length d \<le> 512 \<and> local_port c = sv_port p \<and>
        (remote_ip c = cl_ip p \<and> remote_port c = cl_port p \<longrightarrow> good p D fin c fl d))"

lemma srv_frame_more: "srv_frame p D False f \<Longrightarrow> srv_frame p (D @ x) b f"
proof -
  have "good p D False c fl d \<Longrightarrow> good p (D @ x) b c fl d" for c fl d
    by (fastforce simp: good_def)
  then show "srv_frame p D False f \<Longrightarrow> srv_frame p (D @ x) b f" unfolding srv_frame_def by blast
qed

lemma srv_frame_fin: "srv_frame p D b f \<Longrightarrow> srv_frame p D True f"
proof -
  have "good p D b c fl d \<Longrightarrow> good p D True c fl d" for c fl d
    by (fastforce simp: good_def)
  then show "srv_frame p D b f \<Longrightarrow> srv_frame p D True f" unfolding srv_frame_def by blast
qed

definition cli_frame :: "session \<Rightarrow> nat \<Rightarrow> u8 list \<Rightarrow> bool" where
  "cli_frame p r f \<longleftrightarrow>
     (\<exists>c fl d q. f = tcp_frame (cl_ip p) c fl d \<and> macs_ok c \<and> length d \<le> 512 \<and> local_port c = cl_port p \<and>
        remote_port c = sv_port p \<and> fl AND TCP_FLAG_SYN = 0 \<and> rcv_nxt c = start_seq p + word_of_nat q \<and> q \<le> r)"

lemma cli_frame_mono: "cli_frame p r f \<Longrightarrow> r \<le> r' \<Longrightarrow> cli_frame p r' f"
  unfolding cli_frame_def by (blast intro: le_trans)

subsection \<open>What an operation sends\<close>

text \<open>\<open>emits P n n'\<close>: the frames sent between \<open>n\<close> and \<open>n'\<close> satisfy \<open>P\<close>; the rest of the machine that
  matters here is untouched.\<close>

definition emits :: "(u8 list \<Rightarrow> bool) \<Rightarrow> net \<Rightarrow> net \<Rightarrow> bool" where
  "emits P n n' \<longleftrightarrow>
     g_my_ip n' = g_my_ip n \<and> length (tcp_rx n') = length (tcp_rx n) \<and> nic_mac n' = nic_mac n \<and>
     length (arp_my_mac n') = length (arp_my_mac n) \<and>
     (\<exists>fs. sent n' = sent n @ fs \<and> (\<forall>f\<in>set fs. P f))"

lemma emits_refl [intro]: "emits P n n"
  by (auto simp: emits_def intro: exI [of _ "[]"])

lemma emits_trans: "emits P n n1 \<Longrightarrow> emits P n1 n2 \<Longrightarrow> emits P n n2"
  by (fastforce simp: emits_def)

lemma emits_mono: "emits P n n' \<Longrightarrow> (\<And>f. P f \<Longrightarrow> Q f) \<Longrightarrow> emits Q n n'"
  by (fastforce simp: emits_def)

lemma emits_send: "P f \<Longrightarrow> emits P n (snd (ax_net_send f n))"
  by (auto simp: ax_net_send_def emits_def)

lemma emits_segment: "P (tcp_frame (g_my_ip n) c fl d) \<Longrightarrow> emits P n (tcp_send_segment c fl d n)"
  unfolding tcp_send_segment_def by (rule emits_send)

lemma emits_sent: "emits P n n' \<Longrightarrow> \<forall>f\<in>set (sent n). P f \<Longrightarrow> \<forall>f\<in>set (sent n'). P f"
  by (auto simp: emits_def)

lemma emits_sleep: "emits P n (ax_sleep_ms k n)"
  by (auto simp: ax_sleep_ms_def emits_def)

lemma emits_rand: "net_rand32 n = (r, n') \<Longrightarrow> emits P n n'"
  by (auto simp: net_rand32_def Let_def emits_def)

definition macs_known :: "net \<Rightarrow> bool" where
  "macs_known n \<longleftrightarrow> length (arp_my_mac n) = 6 \<and> (\<forall>m. nic_mac n = Some m \<longrightarrow> length m = 6) \<and> length (tcp_rx n) = 1500"

lemma emits_macs: "emits P n n' \<Longrightarrow> macs_known n \<Longrightarrow> macs_known n'"
  by (auto simp: emits_def macs_known_def)

lemma arp_frame_type: "length dst = 6 \<Longrightarrow> length sha = 6 \<Longrightarrow> arp_type (arp_frame dst oper sha spa tha tpa)"
  by (auto simp: arp_type_def arp_frame_def put16be_def nth_append)

lemma emits_arp:
  assumes "macs_known n" "length rx = 1500"
  shows "emits arp_type n (snd (arp_maybe_respond rx k n))" "tcp_rx (snd (arp_maybe_respond rx k n)) = tcp_rx n"
    "now (snd (arp_maybe_respond rx k n)) = now n"
proof -
  have l: "emits arp_type n (arp_learn_mac n)" "length (arp_my_mac (arp_learn_mac n)) = 6"
    using assms(1) by (auto simp: arp_learn_mac_def macs_known_def emits_def split: option.splits)
  have t: "length (take 6 (drop 22 rx)) = 6" using assms(2) by simp
  have "emits arp_type n (snd (ax_net_send (arp_frame (take 6 (drop 22 rx)) op (arp_my_mac (arp_learn_mac n)) ip tha tpa) (arp_learn_mac n)))"
    for op ip tha tpa
    by (rule emits_trans [OF l(1)], rule emits_send, rule arp_frame_type [OF t l(2)])
  then show "emits arp_type n (snd (arp_maybe_respond rx k n))"
    by (auto simp: arp_maybe_respond_def Let_def)
  have "tcp_rx (arp_learn_mac n) = tcp_rx n" "now (arp_learn_mac n) = now n"
    by (simp_all add: arp_learn_mac_def split: option.splits)
  then show "tcp_rx (snd (arp_maybe_respond rx k n)) = tcp_rx n" "now (snd (arp_maybe_respond rx k n)) = now n"
    by (simp_all add: arp_maybe_respond_def Let_def ax_net_send_def)
qed

lemma segment_keeps [simp]:
  "now (tcp_send_segment c fl d n) = now n" "tcp_rx (tcp_send_segment c fl d n) = tcp_rx n"
  "inbox (tcp_send_segment c fl d n) = inbox n" "g_my_ip (tcp_send_segment c fl d n) = g_my_ip n"
  "nic_mac (tcp_send_segment c fl d n) = nic_mac n"
  by (simp_all add: tcp_send_segment_def ax_net_send_def)


text \<open>The next frame, as the parser sees it in the buffer.\<close>

lemma tcp_receive_spec:
  assumes "macs_known n" "tcp_receive n = (k, n')"
  shows "emits P n n'" "macs_known n'" "now n' = now n"
    "k = 0 \<or> (\<exists>f\<in>set (inbox n). k = length f \<and> tcp_parse_segment (tcp_rx n') k = tcp_parse_segment f k \<and>
       take k (tcp_rx n') = f \<and> k \<le> 1500)"
    "set (inbox n') \<subseteq> set (inbox n)"
proof -
  have "emits P n n' \<and> macs_known n' \<and> now n' = now n \<and> set (inbox n') \<subseteq> set (inbox n)"
    using assms by (auto simp: tcp_receive_def ax_net_recv_def Let_def emits_def macs_known_def split: list.splits if_splits)
  then show "emits P n n'" "macs_known n'" "now n' = now n" "set (inbox n') \<subseteq> set (inbox n)" by auto
  show "k = 0 \<or> (\<exists>f\<in>set (inbox n). k = length f \<and> tcp_parse_segment (tcp_rx n') k = tcp_parse_segment f k \<and>
      take k (tcp_rx n') = f \<and> k \<le> 1500)"
  proof (cases "inbox n")
    case (Cons f fs)
    show ?thesis
    proof (cases "length f \<le> length (tcp_rx n)")
      case True
      then have e: "k = length f" "tcp_rx n' = f @ drop k (tcp_rx n)"
        using assms(2) Cons by (auto simp: tcp_receive_def ax_net_recv_def Let_def)
      have "same k (tcp_rx n') f" by (simp add: same_def e)
      then have "tcp_parse_segment (tcp_rx n') k = tcp_parse_segment f k" by (rule same_tcp_parse)
      then show ?thesis using e Cons True assms(1) by (auto simp: macs_known_def)
    qed (use assms(2) Cons in \<open>auto simp: tcp_receive_def ax_net_recv_def Let_def\<close>)
  qed (use assms(2) in \<open>auto simp: tcp_receive_def ax_net_recv_def\<close>)
qed

text \<open>What the other side reads from a frame of the server, and of the client.\<close>

lemma parse_arp: "arp_type f \<Longrightarrow> tcp_parse_segment f n = None"
  by (auto simp: arp_type_def tcp_parse_segment_def)

lemma frame_dest:
  assumes "macs_ok c"
  shows "get32be (tcp_frame ip c fl d) 30 = remote_ip c"
proof -
  obtain c2 where c2: "ip_header (40 + length d) 0 IP_PROTO_TCP ip (remote_ip c) =
      ip_head (40 + length d) 0 IP_PROTO_TCP @ put16be c2 @ put32be ip @ put32be (remote_ip c)"
    by (simp add: ip_header_def Let_def)
  have "tcp_frame ip c fl d = (eth_header (remote_mac c) (my_mac c) @ ip_head (40 + length d) 0 IP_PROTO_TCP @ put16be c2 @ put32be ip) @
      put32be (remote_ip c) @ tcp_segment ip c fl d"
    using c2 by (simp add: tcp_frame_def)
  moreover have "length (eth_header (remote_mac c) (my_mac c) @ ip_head (40 + length d) 0 IP_PROTO_TCP @ put16be c2 @ put32be ip) = 30"
    using assms by (simp add: macs_ok_def eth_header_def)
  ultimately show ?thesis by (simp only: get32_at)
qed

lemma parse_frame:
  assumes "macs_ok c" "length d \<le> 512"
  shows "tcp_parse_segment (tcp_frame ip c fl d) (length (tcp_frame ip c fl d)) =
    Some \<lparr>seg_src_ip = ip, seg_src_port = local_port c, seg_dst_port = remote_port c, seg_seq = snd_nxt c,
          seg_ack = rcv_nxt c, seg_flags = fl, seg_data = d\<rparr>"
  using tcp_parse_frame [of c d ip fl "[]"] length_tcp_frame [of c ip fl d] assms by (simp add: macs_ok_def)

lemma client_reads:
  assumes "srv_frame p D b f" "get32be f 30 = cl_ip p" "tcp_parse_segment f (length f) = Some seg"
    and "from_peer c seg" "local_port c = cl_port p"
  shows "\<exists>cc. good p D b cc (seg_flags seg) (seg_data seg) \<and> snd_nxt cc = seg_seq seg"
proof -
  have "\<not> arp_type f" using assms(3) parse_arp by auto
  then obtain cc fl d where f: "f = tcp_frame (sv_ip p) cc fl d" "macs_ok cc" "length d \<le> 512"
    "remote_ip cc = cl_ip p \<and> remote_port cc = cl_port p \<longrightarrow> good p D b cc fl d"
    using assms(1) unfolding srv_frame_def by blast
  have seg: "seg = \<lparr>seg_src_ip = sv_ip p, seg_src_port = local_port cc, seg_dst_port = remote_port cc, seg_seq = snd_nxt cc,
      seg_ack = rcv_nxt cc, seg_flags = fl, seg_data = d\<rparr>"
    using parse_frame [OF f(2,3), of "sv_ip p" fl] assms(3) by (simp add: f(1))
  have "remote_ip cc = cl_ip p" using frame_dest [OF f(2)] assms(2) f(1) by simp
  moreover have "remote_port cc = cl_port p" using assms(4,5) seg by (simp add: from_peer_def)
  ultimately have "good p D b cc fl d" using f(4) by blast
  then show ?thesis using seg by auto
qed

lemma server_reads:
  assumes "cli_frame p r f" "tcp_parse_segment f (length f) = Some seg"
  shows "\<not> has_flag seg TCP_FLAG_SYN \<and> (\<exists>q\<le>r. seg_ack seg = start_seq p + word_of_nat q)"
proof -
  obtain c fl d q where f: "f = tcp_frame (cl_ip p) c fl d" "macs_ok c" "length d \<le> 512" "fl AND TCP_FLAG_SYN = 0"
    "rcv_nxt c = start_seq p + word_of_nat q" "q \<le> r"
    using assms(1) unfolding cli_frame_def by blast
  then show ?thesis using parse_frame [OF f(2,3), of "cl_ip p" fl] assms(2) by (auto simp: has_flag_def)
qed

text \<open>Sequence numbers of one stream of less than $2^{31}$ bytes compare like their offsets.\<close>

lemma seq_eq:
  assumes "m < 2147483648" "n < 2147483648"
  shows "S + word_of_nat m = S + (word_of_nat n :: u32) \<longleftrightarrow> m = n"
proof -
  have "unat (word_of_nat m :: u32) = m" "unat (word_of_nat n :: u32) = n"
    by (rule unat_word_of_nat, use assms in simp)+
  then show ?thesis by (metis add_left_cancel)
qed

lemma seq_covers:
  assumes "m < 2147483648" "n < 2147483648" "ack_covers (S + word_of_nat m) (S + word_of_nat n)"
  shows "n \<le> m"
proof -
  let ?k = "int m - int n"
  have "(S + word_of_nat m) - (S + word_of_nat n) = (word_of_int ?k :: u32)" by simp
  moreover have "sint (word_of_int k :: u32) = signed_take_bit 31 k" for k by (simp add: signed_of_int)
  moreover have "signed_take_bit 31 ?k = ?k"
    by (rule signed_take_bit_int_eq_self) (use assms(1,2) in simp_all)
  ultimately have "sint ((S + word_of_nat m) - (S + word_of_nat n)) = ?k" by metis
  then show ?thesis using assms(3) by (simp add: ack_covers_def)
qed

end
