(* ===== verification/TcpStreamInv.thy ===== *)
theory TcpStreamInv
  imports TcpStream
begin

section \<open>The invariant of the byte stream\<close>

text \<open>
  Every slot operation keeps \<open>mslot_ok\<close> (the buffers) and \<open>tracks\<close> (the slot of the connection: its
  queue holds the accepted bytes from the acknowledged offset on, and what is acknowledged has been
  delivered), and sends only frames of the stream. \<open>step_ok\<close> collects this; it composes.
\<close>

definition live :: "session \<Rightarrow> tcp_slot \<Rightarrow> bool" where
  "live p s \<longleftrightarrow> mine p s \<and> state s = TCP_SLOT_ESTABLISHED"

definition mslot_ok :: "session \<Rightarrow> tcp_slot \<Rightarrow> bool" where
  "mslot_ok p s \<longleftrightarrow>
     out_acked s = 0 \<and> out_inflight s \<le> length (outbuf s) \<and> length (outbuf s) \<le> TCP_MUX_OUT_BUF_SIZE \<and>
     length (reqbuf s) \<le> REQ_BUF_SIZE \<and> (state s \<noteq> TCP_SLOT_FREE \<longrightarrow> local_port (conn s) = sv_port p \<and> macs_ok (conn s))"

definition tracks :: "session \<Rightarrow> u8 list \<Rightarrow> nat \<Rightarrow> tcp_slot \<Rightarrow> bool" where
  "tracks p D r s \<longleftrightarrow>
     (mine p s \<longrightarrow>
        state s = TCP_SLOT_ESTABLISHED \<and>
          (\<exists>a. snd_nxt (conn s) = start_seq p + word_of_nat a \<and> a \<le> r \<and> outbuf s = drop a D) \<or>
        state s = TCP_SLOT_CLOSING \<and> snd_nxt (conn s) = start_seq p + word_of_nat (length D) \<and> r = length D \<and> outbuf s = [])"

definition step_ok :: "session \<Rightarrow> u8 list \<Rightarrow> nat \<Rightarrow> tcp_slot \<Rightarrow> net \<Rightarrow> tcp_slot \<Rightarrow> net \<Rightarrow> bool" where
  "step_ok p D r s n s' n' \<longleftrightarrow>
     mslot_ok p s' \<and> tracks p D r s' \<and> (mine p s' \<longrightarrow> mine p s) \<and> (live p s' \<longrightarrow> live p s) \<and>
     emits (srv_frame p D (mine p s \<and> \<not> live p s')) n n'"

lemma srv_frame_le: "srv_frame p D b f \<Longrightarrow> (b \<Longrightarrow> b') \<Longrightarrow> srv_frame p D b' f"
  using srv_frame_fin by (cases b; cases b') auto

lemma emits_le: "emits (srv_frame p D b) n n' \<Longrightarrow> (b \<Longrightarrow> b') \<Longrightarrow> emits (srv_frame p D b') n n'"
  using emits_mono srv_frame_le by metis

lemma step_ok_refl: "mslot_ok p s \<Longrightarrow> tracks p D r s \<Longrightarrow> step_ok p D r s n s n"
  by (auto simp: step_ok_def)

lemma step_ok_trans:
  assumes "step_ok p D r s n s1 n1" "step_ok p D r s1 n1 s2 n2"
  shows "step_ok p D r s n s2 n2"
proof -
  let ?b = "mine p s \<and> \<not> live p s2"
  have a: "emits (srv_frame p D (mine p s \<and> \<not> live p s1)) n n1" "emits (srv_frame p D (mine p s1 \<and> \<not> live p s2)) n1 n2"
    "live p s2 \<longrightarrow> live p s1" "mine p s1 \<longrightarrow> mine p s"
    using assms by (simp_all add: step_ok_def)
  have "emits (srv_frame p D ?b) n n1" by (rule emits_le [OF a(1)]) (use a(3) in blast)
  moreover have "emits (srv_frame p D ?b) n1 n2" by (rule emits_le [OF a(2)]) (use a(4) in blast)
  ultimately show ?thesis using assms by (auto simp: step_ok_def intro: emits_trans)
qed

lemma flags_fin [simp]:
  "(TCP_FLAG_PSH OR TCP_FLAG_ACK) AND TCP_FLAG_FIN = 0" "TCP_FLAG_ACK AND TCP_FLAG_FIN = 0"
  "(TCP_FLAG_SYN OR TCP_FLAG_ACK) AND TCP_FLAG_FIN = 0" "(TCP_FLAG_FIN OR TCP_FLAG_ACK) AND TCP_FLAG_FIN \<noteq> 0"
  "(TCP_FLAG_PSH OR TCP_FLAG_ACK) AND TCP_FLAG_SYN = 0" "TCP_FLAG_ACK AND TCP_FLAG_SYN = 0"
  by (simp_all add: tcp_flag_defs)

lemma arm_timer_simps [simp]:
  "state (arm_timer n s) = state s" "conn (arm_timer n s) = conn s" "outbuf (arm_timer n s) = outbuf s"
  "out_acked (arm_timer n s) = out_acked s" "out_inflight (arm_timer n s) = out_inflight s"
  "reqbuf (arm_timer n s) = reqbuf s" "close_after (arm_timer n s) = close_after s"
  by (simp_all add: arm_timer_def)

text \<open>The frame of a slot: anything goes to other clients, a segment of the stream to ours.\<close>

lemma slot_segment:
  assumes "g_my_ip n = sv_ip p" "local_port c = sv_port p" "macs_ok c" "length d \<le> 512"
    and "remote_ip c = cl_ip p \<Longrightarrow> remote_port c = cl_port p \<Longrightarrow> good p D b c fl d"
  shows "emits (srv_frame p D b) n (tcp_send_segment c fl d n)"
  by (rule emits_segment) (use assms in \<open>auto simp: srv_frame_def\<close>)

lemma start_closing_ok:
  assumes "mslot_ok p s" "tracks p D r s" "r \<le> length D" "state s = TCP_SLOT_ESTABLISHED" "outbuf s = []"
    and "g_my_ip n = sv_ip p" "tcp_mux_start_closing s n = (s', n')"
  shows "step_ok p D r s n s' n'" "state s' = TCP_SLOT_CLOSING" "g_my_ip n' = sv_ip p"
proof -
  let ?c = "conn s"
  have e: "n' = tcp_send_segment ?c (TCP_FLAG_FIN OR TCP_FLAG_ACK) [] n" "s' = arm_timer n' (s\<lparr>state := TCP_SLOT_CLOSING\<rparr>)"
    using assms(7) by (auto simp: tcp_mux_start_closing_def Let_def)
  have m: "mine p s' = mine p s" using assms(4) by (simp add: mine_def e(2))
  have a: "snd_nxt ?c = start_seq p + word_of_nat (length D) \<and> r = length D" if mi: "mine p s"
  proof -
    obtain a where "snd_nxt ?c = start_seq p + word_of_nat a" "a \<le> r" "[] = drop a D"
      using assms(2,4,5) mi by (auto simp: tracks_def)
    moreover from this have "a = length D" using assms(3) by simp
    ultimately show ?thesis using assms(3) by simp
  qed
  have "emits (srv_frame p D (mine p s)) n n'"
    unfolding e(1)
  proof (rule slot_segment [OF assms(6)])
    assume "remote_ip ?c = cl_ip p" "remote_port ?c = cl_port p"
    then have "mine p s" using assms(4) by (simp add: mine_def)
    then show "good p D (mine p s) ?c (TCP_FLAG_FIN OR TCP_FLAG_ACK) []"
      using a by (auto simp: good_def intro: exI [of _ "length D"])
  qed (use assms(1,4) in \<open>simp_all add: mslot_ok_def\<close>)
  then show "step_ok p D r s n s' n'"
    using assms(1,4,5) a m unfolding step_ok_def live_def tracks_def mslot_ok_def e(2) by simp
  show "state s' = TCP_SLOT_CLOSING" "g_my_ip n' = sv_ip p" using e assms(6) by simp_all
qed


lemma pump_ok:
  assumes "mslot_ok p s" "tracks p D r s" "r \<le> length D" "g_my_ip n = sv_ip p" "tcp_mux_pump s n = (s', n')"
  shows "step_ok p D r s n s' n'"
proof (cases "state s \<noteq> TCP_SLOT_ESTABLISHED \<or> 0 < out_inflight s \<or> outbuf s = [] \<and> \<not> close_after s")
  case True
  then have "s' = s" "n' = n" using assms(1,5) by (auto simp: tcp_mux_pump_def mslot_ok_def split: if_splits)
  then show ?thesis using assms step_ok_refl by simp
next
  case False
  show ?thesis
  proof (cases "outbuf s = []")
    case True
    obtain s1 where s1: "tcp_mux_start_closing s n = (s1, n')" "s' = s1\<lparr>close_after := False\<rparr>"
      using False True assms(5) by (auto simp: tcp_mux_pump_def split: prod.splits)
    have "step_ok p D r s n s1 n'"
      by (rule start_closing_ok(1) [OF assms(1-3) _ True assms(4) s1(1)]) (use False in simp)
    then show ?thesis
      unfolding step_ok_def s1(2) by (simp add: mslot_ok_def tracks_def mine_def live_def)
  next
    case ne: False
    let ?d = "take (min (length (outbuf s)) 512) (outbuf s)"
    let ?n = "tcp_send_segment (conn s) (TCP_FLAG_PSH OR TCP_FLAG_ACK) ?d n"
    have z: "out_acked s = 0" "local_port (conn s) = sv_port p" "macs_ok (conn s)" "length (outbuf s) \<le> 256"
      using assms(1) False by (simp_all add: mslot_ok_def)
    have e: "n' = ?n" "s' = arm_timer ?n (s\<lparr>out_inflight := min (length (outbuf s)) 512\<rparr>)"
      using False ne z(1) assms(5) by (auto simp: tcp_mux_pump_def Let_def split: if_splits)
    have "emits (srv_frame p D (mine p s \<and> \<not> live p s')) n n'"
      unfolding e(1)
    proof (rule slot_segment [OF assms(4) z(2,3)])
      assume "remote_ip (conn s) = cl_ip p" "remote_port (conn s) = cl_port p"
      then have "mine p s" using False by (simp add: mine_def)
      then obtain a where a: "snd_nxt (conn s) = start_seq p + word_of_nat a" "a \<le> r" "outbuf s = drop a D"
        using assms(2) False by (auto simp: tracks_def)
      then show "good p D (mine p s \<and> \<not> live p s') (conn s) (TCP_FLAG_PSH OR TCP_FLAG_ACK) ?d"
        using assms(3) unfolding good_def by (intro exI [of _ a]) auto
    qed (use z in simp)
    then show ?thesis
      using assms(1,2) z unfolding step_ok_def e(2) by (simp add: mslot_ok_def tracks_def mine_def live_def)
  qed
qed

lemma retransmit_ok:
  assumes "mslot_ok p s" "tracks p D r s" "r \<le> length D" "g_my_ip n = sv_ip p" "retransmit fl d nw s n = (s', n')"
    and "state s = TCP_SLOT_CLOSING \<and> fl = TCP_FLAG_FIN OR TCP_FLAG_ACK \<and> d = [] \<or>
      state s = TCP_SLOT_ESTABLISHED \<and> fl = TCP_FLAG_PSH OR TCP_FLAG_ACK \<and> d = take (out_inflight s) (outbuf s)"
  shows "step_ok p D r s n s' n'"
proof (cases "TCP_MAX_RETRIES \<le> out_retries s")
  case True
  then have "s' = s\<lparr>state := TCP_SLOT_FREE\<rparr>" "n' = n" using assms(5) by (auto simp: retransmit_def)
  then show ?thesis using assms(1) by (auto simp: step_ok_def mslot_ok_def tracks_def mine_def live_def)
next
  case False
  then have e: "n' = tcp_send_segment (conn s) fl d n" "state s' = state s" "conn s' = conn s" "outbuf s' = outbuf s"
    "out_acked s' = out_acked s" "out_inflight s' = out_inflight s" "reqbuf s' = reqbuf s"
    using assms(5) by (auto simp: retransmit_def Let_def)
  have nf: "state s \<noteq> TCP_SLOT_FREE" using assms(6) by auto
  have ob: "length (outbuf s) \<le> 256" "out_inflight s \<le> length (outbuf s)" using assms(1) by (simp_all add: mslot_ok_def)
  have "emits (srv_frame p D (mine p s \<and> \<not> live p s')) n n'"
    unfolding e(1)
  proof (rule slot_segment [OF assms(4)])
    assume "remote_ip (conn s) = cl_ip p" "remote_port (conn s) = cl_port p"
    then have m: "mine p s" using nf by (simp add: mine_def)
    from assms(6) show "good p D (mine p s \<and> \<not> live p s') (conn s) fl d"
    proof (elim disjE conjE)
      assume "state s = TCP_SLOT_CLOSING" "fl = TCP_FLAG_FIN OR TCP_FLAG_ACK" "d = []"
      then show ?thesis
        using m assms(2) e(2) unfolding good_def tracks_def live_def by (intro exI [of _ "length D"]) simp
    next
      assume h: "state s = TCP_SLOT_ESTABLISHED" "fl = TCP_FLAG_PSH OR TCP_FLAG_ACK" "d = take (out_inflight s) (outbuf s)"
      then obtain a where "snd_nxt (conn s) = start_seq p + word_of_nat a" "a \<le> r" "outbuf s = drop a D"
        using assms(2) m by (auto simp: tracks_def)
      then show ?thesis using assms(3) ob h unfolding good_def by (intro exI [of _ a]) auto
    qed
  qed (use assms(1,6) nf ob in \<open>auto simp: mslot_ok_def\<close>)
  then show ?thesis
    using assms(1,2) unfolding step_ok_def by (simp add: mslot_ok_def tracks_def mine_def live_def e(2-))
qed

lemma step_ip: "step_ok p D r s n s' n' \<Longrightarrow> g_my_ip n' = g_my_ip n"
  by (simp add: step_ok_def emits_def)

lemma slot_timers_ok:
  assumes "mslot_ok p s" "tracks p D r s" "r \<le> length D" "g_my_ip n = sv_ip p" "slot_timers nw s n = (s', n')"
  shows "step_ok p D r s n s' n'"
proof -
  define s1 where "s1 = (if state s = TCP_SLOT_SYN_RCVD \<and> deadline s \<le> nw then s\<lparr>state := TCP_SLOT_FREE\<rparr> else s)"
  have 1: "step_ok p D r s n s1 n"
    using assms(1,2) by (auto simp: s1_def step_ok_def mslot_ok_def tracks_def mine_def live_def)
  then have i1: "mslot_ok p s1" "tracks p D r s1" by (simp_all add: step_ok_def)
  obtain s2 n2 where 2: "(if state s1 = TCP_SLOT_CLOSING \<and> out_rto_deadline s1 \<le> nw
      then retransmit (TCP_FLAG_FIN OR TCP_FLAG_ACK) [] nw s1 n else (s1, n)) = (s2, n2)" by fastforce
  have s2: "step_ok p D r s1 n s2 n2"
  proof (cases "state s1 = TCP_SLOT_CLOSING \<and> out_rto_deadline s1 \<le> nw")
    case True
    then show ?thesis using retransmit_ok [OF i1 assms(3,4)] 2 by simp
  next
    case False
    then have "s2 = s1" "n2 = n" using 2 by (auto split: if_splits)
    then show ?thesis using i1 step_ok_refl by simp
  qed
  then have i2: "mslot_ok p s2" "tracks p D r s2" by (simp_all add: step_ok_def)
  have ip: "g_my_ip n2 = sv_ip p" using step_ip [OF s2] assms(4) by simp
  have z: "out_acked s2 = 0" using i2 by (simp add: mslot_ok_def)
  have 3: "(if state s2 = TCP_SLOT_ESTABLISHED \<and> 0 < out_inflight s2 \<and> out_rto_deadline s2 \<le> nw
      then retransmit (TCP_FLAG_PSH OR TCP_FLAG_ACK) (take (out_inflight s2) (outbuf s2)) nw s2 n2 else (s2, n2)) = (s', n')"
    using assms(5) 2 z by (auto simp: slot_timers_def Let_def simp flip: s1_def split: if_splits)
  have "step_ok p D r s2 n2 s' n'"
  proof (cases "state s2 = TCP_SLOT_ESTABLISHED \<and> 0 < out_inflight s2 \<and> out_rto_deadline s2 \<le> nw")
    case True
    then show ?thesis using retransmit_ok [OF i2 assms(3) ip] 3 by simp
  next
    case False
    then have "s' = s2" "n' = n2" using 3 by (auto split: if_splits)
    then show ?thesis using i2 step_ok_refl by simp
  qed
  then show ?thesis using 1 s2 step_ok_trans by blast
qed


subsection \<open>Received segments\<close>

text \<open>A segment the server may get: one of the client's carries no SYN and acknowledges what was delivered.\<close>

definition seg_ok :: "session \<Rightarrow> nat \<Rightarrow> tcp_seg \<Rightarrow> bool" where
  "seg_ok p r seg \<longleftrightarrow>
     (seg_src_ip seg = cl_ip p \<and> seg_src_port seg = cl_port p \<longrightarrow>
        \<not> has_flag seg TCP_FLAG_SYN \<and> (\<exists>q\<le>r. seg_ack seg = start_seq p + word_of_nat q))"

lemma take_ack_ok:
  assumes "mslot_ok p s" "tracks p D r s" "r \<le> length D" "length D < 2147483648" "g_my_ip n = sv_ip p"
    and "state s = TCP_SLOT_ESTABLISHED" "seg_ok p k seg" "seg_src_ip seg = remote_ip (conn s)" "seg_src_port seg = remote_port (conn s)"
    and "mux_take_ack seg s n = (s', n')" and k: "live p s \<Longrightarrow> k \<le> r"
  shows "step_ok p D r s n s' n'"
proof (cases "0 < out_inflight s \<and> has_flag seg TCP_FLAG_ACK \<and>
    ack_covers (seg_ack seg) (snd_nxt (conn s) + word_of_nat (out_inflight s))")
  case True
  define s1 where "s1 = s\<lparr>conn := (conn s)\<lparr>snd_nxt := snd_nxt (conn s) + word_of_nat (out_inflight s)\<rparr>,
    outbuf := drop (out_acked s + out_inflight s) (outbuf s), out_acked := 0, out_inflight := 0\<rparr>"
  have m: "mine p s1 = mine p s" "live p s1 = live p s" by (simp_all add: s1_def mine_def live_def)
  have ok: "mslot_ok p s1" using assms(1) by (auto simp: s1_def mslot_ok_def macs_ok_def)
  have tr: "tracks p D r s1"
  proof (cases "mine p s")
    case mi: True
    obtain a where a: "snd_nxt (conn s) = start_seq p + word_of_nat a" "a \<le> r" "outbuf s = drop a D"
      using assms(2,6) mi by (auto simp: tracks_def)
    obtain q where "q \<le> k" "seg_ack seg = start_seq p + word_of_nat q"
      using assms(7-9) mi by (auto simp: seg_ok_def mine_def)
    then have q: "q \<le> r" "seg_ack seg = start_seq p + word_of_nat q" using k mi assms(6) by (simp_all add: live_def)
    have le: "a + out_inflight s \<le> length D" using assms(1) a assms(3) by (auto simp: mslot_ok_def)
    have "snd_nxt (conn s) + word_of_nat (out_inflight s) = start_seq p + word_of_nat (a + out_inflight s)"
      by (simp add: a(1))
    then have "ack_covers (start_seq p + word_of_nat q) (start_seq p + word_of_nat (a + out_inflight s))"
      using True q(2) by metis
    then have "a + out_inflight s \<le> q"
      by (rule seq_covers [rotated 2]) (use q(1) le assms(3,4) in simp_all)
    then show ?thesis
      using a q(1) assms(1,6) unfolding tracks_def s1_def
      by (intro impI disjI1 conjI exI [of _ "a + out_inflight s"]) (simp_all add: mslot_ok_def add.commute)
  qed (use m in \<open>simp add: tracks_def\<close>)
  have "tcp_mux_pump s1 n = (s', n')" using True assms(10) by (simp add: mux_take_ack_def s1_def)
  then have "step_ok p D r s1 n s' n'" by (rule pump_ok [OF ok tr assms(3,5)])
  then show ?thesis unfolding step_ok_def m .
next
  case False
  then show ?thesis using assms step_ok_refl by (auto simp: mux_take_ack_def)
qed

text \<open>An acknowledgment or any other segment without data and FIN.\<close>

lemma plain_segment:
  assumes "mslot_ok p s" "tracks p D r s" "r \<le> length D" "g_my_ip n = sv_ip p" "state s \<noteq> TCP_SLOT_FREE"
    and "fl AND TCP_FLAG_FIN = 0"
    and "local_port c = local_port (conn s)" "remote_ip c = remote_ip (conn s)" "remote_port c = remote_port (conn s)"
      "snd_nxt c = snd_nxt (conn s)" "remote_mac c = remote_mac (conn s)" "my_mac c = my_mac (conn s)"
  shows "emits (srv_frame p D b) n (tcp_send_segment c fl [] n)"
proof (rule slot_segment [OF assms(4)])
  assume "remote_ip c = cl_ip p" "remote_port c = cl_port p"
  then have "mine p s" using assms(5,8,9) by (simp add: mine_def)
  then obtain a where "snd_nxt (conn s) = start_seq p + word_of_nat a" "a \<le> length D"
    using assms(2,3) by (auto simp: tracks_def)
  then show "good p D b c fl []" using assms(6,10) by (auto simp: good_def)
qed (use assms in \<open>auto simp: mslot_ok_def macs_ok_def\<close>)

lemma take_data_ok:
  assumes "mslot_ok p s" "tracks p D r s" "r \<le> length D" "g_my_ip n = sv_ip p" "state s \<noteq> TCP_SLOT_FREE"
    and "mux_take_data seg s n = (ready, s', n')"
  shows "step_ok p D r s n s' n'"
proof (cases "seg_seq seg = rcv_nxt (conn s)")
  case True
  let ?fin = "has_flag seg TCP_FLAG_FIN"
  define c where "c = (conn s)\<lparr>rcv_nxt := rcv_nxt (conn s) + word_of_nat (length (seg_data seg)) + (if ?fin then 1 else 0)\<rparr>"
  have e: "s' = s\<lparr>reqbuf := reqbuf s @ take (REQ_BUF_SIZE - length (reqbuf s)) (seg_data seg), conn := c\<rparr>"
    "n' = (if seg_data seg \<noteq> [] \<or> ?fin then tcp_send_segment c TCP_FLAG_ACK [] n else n)"
    using True assms(6) by (auto simp: mux_take_data_def Let_def c_def)
  have c: "local_port c = local_port (conn s)" "remote_ip c = remote_ip (conn s)" "remote_port c = remote_port (conn s)"
    "snd_nxt c = snd_nxt (conn s)" "remote_mac c = remote_mac (conn s)" "my_mac c = my_mac (conn s)"
    by (simp_all add: c_def)
  have "emits (srv_frame p D (mine p s \<and> \<not> live p s')) n n'"
    unfolding e(2) using plain_segment [OF assms(1-5) flags_fin(2) c] by auto
  moreover have "mslot_ok p s'" using assms(1) c unfolding e(1) by (auto simp: mslot_ok_def macs_ok_def)
  moreover have "tracks p D r s'" "mine p s' = mine p s" "live p s' = live p s"
    using assms(2) c unfolding e(1) by (simp_all add: tracks_def mine_def live_def)
  ultimately show ?thesis by (simp add: step_ok_def)
qed (use assms step_ok_refl in \<open>auto simp: mux_take_data_def\<close>)

lemma syn_rcvd_ok:
  assumes "mslot_ok p s" "tracks p D r s" "r \<le> length D" "g_my_ip n = sv_ip p" "state s = TCP_SLOT_SYN_RCVD"
    and "mux_syn_rcvd seg s n = (s', n')"
  shows "step_ok p D r s n s' n'"
proof -
  have nm: "\<not> mine p s" using assms(2,5) by (auto simp: tracks_def)
  have nf: "state s \<noteq> TCP_SLOT_FREE" using assms(5) by simp
  let ?c = "conn s"
  consider "has_flag seg TCP_FLAG_ACK \<and> seg_ack seg = snd_nxt ?c + 1"
    | "s' = s" "n' = tcp_send_segment ?c (TCP_FLAG_SYN OR TCP_FLAG_ACK) [] n" | "s' = s" "n' = n"
    using assms(6) by (auto simp: mux_syn_rcvd_def Let_def split: if_splits)
  then show ?thesis
  proof cases
    case 1
    then have e: "s' = s\<lparr>conn := ?c\<lparr>snd_nxt := snd_nxt ?c + 1, connected := True\<rparr>, state := TCP_SLOT_ESTABLISHED\<rparr>" "n' = n"
      using assms(6) by (auto simp: mux_syn_rcvd_def Let_def)
    then show ?thesis using assms(1) nm nf unfolding step_ok_def
      by (auto simp: mslot_ok_def tracks_def mine_def live_def macs_ok_def)
  next
    case 2
    have "emits (srv_frame p D (mine p s \<and> \<not> live p s')) n n'"
      unfolding 2(2) by (rule plain_segment [OF assms(1-4) nf]) simp_all
    then show ?thesis using assms(1,2) 2(1) by (simp add: step_ok_def)
  qed (use assms step_ok_refl in simp)
qed

lemma closing_ok:
  assumes "mslot_ok p s" "tracks p D r s" "r \<le> length D" "g_my_ip n = sv_ip p" "state s = TCP_SLOT_CLOSING"
    and "mux_closing seg s n = (s', n')"
  shows "step_ok p D r s n s' n'"
proof -
  have nf: "state s \<noteq> TCP_SLOT_FREE" using assms(5) by simp
  define c where "c = (conn s)\<lparr>rcv_nxt := rcv_nxt (conn s) + word_of_nat (length (seg_data seg)) + (if has_flag seg TCP_FLAG_FIN then 1 else 0)\<rparr>"
  have "s' = s\<lparr>conn := c, state := TCP_SLOT_FREE\<rparr> \<and> n' = tcp_send_segment c TCP_FLAG_ACK [] n \<or>
      s' = s\<lparr>state := TCP_SLOT_FREE\<rparr> \<and> n' = n"
    using assms(6) by (auto simp: mux_closing_def Let_def c_def split: if_splits)
  moreover have "emits (srv_frame p D b) n (tcp_send_segment c TCP_FLAG_ACK [] n)" for b
    by (rule plain_segment [OF assms(1-4) nf]) (simp_all add: c_def)
  ultimately show ?thesis
    using assms(1) unfolding step_ok_def by (auto simp: mslot_ok_def tracks_def mine_def live_def)
qed

lemma slot_input_ok:
  assumes "mslot_ok p s" "tracks p D r s" "r \<le> length D" "length D < 2147483648" "g_my_ip n = sv_ip p"
    and "state s \<noteq> TCP_SLOT_FREE" "seg_ok p k seg" "seg_src_ip seg = remote_ip (conn s)" "seg_src_port seg = remote_port (conn s)"
    and "mux_slot_input seg s n = (ready, s', n')" and k: "live p s \<Longrightarrow> k \<le> r"
  shows "step_ok p D r s n s' n'"
proof (cases "state s")
  case TCP_SLOT_ESTABLISHED
  obtain s1 n1 where 1: "mux_take_ack seg s n = (s1, n1)" by fastforce
  have a: "step_ok p D r s n s1 n1"
    by (rule take_ack_ok [OF assms(1-5) TCP_SLOT_ESTABLISHED assms(7-9) 1 k])
  then have i: "mslot_ok p s1" "tracks p D r s1" "g_my_ip n1 = sv_ip p" using step_ip [OF a] assms(5) by (simp_all add: step_ok_def)
  have 2: "mux_take_data seg s1 n1 = (ready, s', n')"
    using assms(10) 1 TCP_SLOT_ESTABLISHED by (simp add: mux_slot_input_def)
  have nf: "state s1 \<noteq> TCP_SLOT_FREE"
    using 1 TCP_SLOT_ESTABLISHED
    by (auto simp: mux_take_ack_def tcp_mux_pump_def tcp_mux_start_closing_def Let_def split: if_splits)
  show ?thesis using step_ok_trans [OF a take_data_ok [OF i(1,2) assms(3) i(3) nf 2]] .
next
  case TCP_SLOT_SYN_RCVD
  then show ?thesis using assms(10) by (intro syn_rcvd_ok [OF assms(1-3,5), where seg = seg]) (simp_all add: mux_slot_input_def)
next
  case TCP_SLOT_CLOSING
  then show ?thesis using assms(10) by (intro closing_ok [OF assms(1-3,5), where seg = seg]) (simp_all add: mux_slot_input_def)
qed (use assms(6) in simp)


subsection \<open>The server\<close>

definition minv :: "session \<Rightarrow> u8 list \<Rightarrow> nat \<Rightarrow> mux \<Rightarrow> bool" where
  "minv p D r m \<longleftrightarrow>
     length (tcp_slots m) = TCP_MAX_CONNS \<and> tcp_mux_local_port m = sv_port p \<and>
     (\<forall>i<TCP_MAX_CONNS. mslot_ok p (tcp_slots m ! i) \<and> tracks p D r (tcp_slots m ! i) \<and>
        (mine p (tcp_slots m ! i) \<longrightarrow> i = slot_no p))"

definition mux_ok :: "session \<Rightarrow> u8 list \<Rightarrow> nat \<Rightarrow> mux \<Rightarrow> net \<Rightarrow> mux \<Rightarrow> net \<Rightarrow> bool" where
  "mux_ok p D r m n m' n' \<longleftrightarrow>
     minv p D r m' \<and>
     (mine p (tcp_slots m' ! slot_no p) \<longrightarrow> mine p (tcp_slots m ! slot_no p)) \<and>
     (live p (tcp_slots m' ! slot_no p) \<longrightarrow> live p (tcp_slots m ! slot_no p)) \<and>
     emits (srv_frame p D (mine p (tcp_slots m ! slot_no p) \<and> \<not> live p (tcp_slots m' ! slot_no p))) n n'"

lemma mux_ok_refl: "minv p D r m \<Longrightarrow> emits (srv_frame p D False) n n' \<Longrightarrow> mux_ok p D r m n m n'"
  by (auto simp: mux_ok_def intro: emits_le)

lemma mux_ok_trans:
  assumes "mux_ok p D r m n m1 n1" "mux_ok p D r m1 n1 m2 n2"
  shows "mux_ok p D r m n m2 n2"
proof -
  let ?l = "\<lambda>m. live p (tcp_slots m ! slot_no p)" and ?m = "\<lambda>m. mine p (tcp_slots m ! slot_no p)"
  have a: "emits (srv_frame p D (?m m \<and> \<not> ?l m1)) n n1" "emits (srv_frame p D (?m m1 \<and> \<not> ?l m2)) n1 n2"
    "?l m2 \<longrightarrow> ?l m1" "?m m1 \<longrightarrow> ?m m"
    using assms by (simp_all add: mux_ok_def)
  have "emits (srv_frame p D (?m m \<and> \<not> ?l m2)) n n1" by (rule emits_le [OF a(1)]) (use a(3) in blast)
  moreover have "emits (srv_frame p D (?m m \<and> \<not> ?l m2)) n1 n2" by (rule emits_le [OF a(2)]) (use a(4) in blast)
  ultimately show ?thesis using assms by (auto simp: mux_ok_def intro: emits_trans)
qed

lemma arp_emits: "emits arp_type n n' \<Longrightarrow> emits (srv_frame p D b) n n'"
  by (erule emits_mono) (simp add: srv_frame_def)

lemma slot_update_ok:
  assumes "minv p D r m" "i < TCP_MAX_CONNS" "step_ok p D r (tcp_slots m ! i) n s' n'" "slot_no p < TCP_MAX_CONNS"
  shows "mux_ok p D r m n (m\<lparr>tcp_slots := (tcp_slots m)[i := s']\<rparr>) n'"
proof -
  have l: "length (tcp_slots m) = TCP_MAX_CONNS" using assms(1) by (simp add: minv_def)
  have i: "minv p D r (m\<lparr>tcp_slots := (tcp_slots m)[i := s']\<rparr>)"
    using assms(1-3) l by (auto simp: minv_def step_ok_def nth_list_update)
  show ?thesis
  proof (cases "i = slot_no p")
    case True
    then show ?thesis using i assms l by (simp add: mux_ok_def step_ok_def)
  next
    case False
    then have "\<not> mine p (tcp_slots m ! i)" using assms(1,2) by (auto simp: minv_def)
    then have "emits (srv_frame p D False) n n'" using assms(3) by (simp add: step_ok_def)
    then show ?thesis using i False by (auto simp: mux_ok_def intro: emits_le)
  qed
qed

lemma sweep_ok:
  "sweep nw ss n = (ss', n') \<Longrightarrow> \<forall>s\<in>set ss. mslot_ok p s \<and> tracks p D r s \<Longrightarrow> r \<le> length D \<Longrightarrow> g_my_ip n = sv_ip p \<Longrightarrow>
   length ss' = length ss \<and>
   (\<forall>i<length ss. mslot_ok p (ss' ! i) \<and> tracks p D r (ss' ! i) \<and> (mine p (ss' ! i) \<longrightarrow> mine p (ss ! i)) \<and>
      (live p (ss' ! i) \<longrightarrow> live p (ss ! i))) \<and>
   (\<forall>b. (\<forall>i<length ss. mine p (ss ! i) \<and> \<not> live p (ss' ! i) \<longrightarrow> b) \<longrightarrow> emits (srv_frame p D b) n n')"
proof (induction ss arbitrary: n ss' n')
  case (Cons s ss)
  obtain s1 n1 where 1: "slot_timers nw s n = (s1, n1)" by fastforce
  obtain ss1 where 2: "sweep nw ss n1 = (ss1, n')" "ss' = s1 # ss1" using Cons.prems(1) 1 by (auto split: prod.splits)
  have h: "step_ok p D r s n s1 n1" by (rule slot_timers_ok [OF _ _ _ _ 1]) (use Cons.prems in auto)
  have ip: "g_my_ip n1 = sv_ip p" using step_ip [OF h] Cons.prems(4) by simp
  note IH = Cons.IH [OF 2(1) _ Cons.prems(3) ip]
  have "emits (srv_frame p D b) n n'" if b: "\<forall>i<length (s # ss). mine p ((s # ss) ! i) \<and> \<not> live p (ss' ! i) \<longrightarrow> b" for b
  proof (rule emits_trans)
    show "emits (srv_frame p D b) n n1"
      by (rule emits_le [where b = "mine p s \<and> \<not> live p s1"]) (use h b 2(2) in \<open>auto simp: step_ok_def\<close>)
    have "\<forall>i<length ss. mine p (ss ! i) \<and> \<not> live p (ss1 ! i) \<longrightarrow> b"
      using b 2(2) by (auto dest: spec [of _ "Suc _"])
    then show "emits (srv_frame p D b) n1 n'" using IH Cons.prems(2) by simp
  qed
  moreover have "length ss' = length (s # ss)" using IH Cons.prems(2) 2(2) by simp
  moreover have "mslot_ok p (ss' ! i) \<and> tracks p D r (ss' ! i) \<and> (mine p (ss' ! i) \<longrightarrow> mine p ((s # ss) ! i)) \<and>
      (live p (ss' ! i) \<longrightarrow> live p ((s # ss) ! i))" if "i < length (s # ss)" for i
    using that IH Cons.prems(2) h 2(2) by (cases i) (auto simp: step_ok_def)
  ultimately show ?case by blast
qed (auto simp: emits_refl)

lemma mux_sweep_ok:
  assumes "minv p D r m" "r \<le> length D" "g_my_ip n = sv_ip p" "slot_no p < TCP_MAX_CONNS" "sweep nw (tcp_slots m) n = (ss, n')"
  shows "mux_ok p D r m n (m\<lparr>tcp_slots := ss\<rparr>) n'"
proof -
  have l: "length (tcp_slots m) = TCP_MAX_CONNS" using assms(1) by (simp add: minv_def)
  have "\<forall>s\<in>set (tcp_slots m). mslot_ok p s \<and> tracks p D r s"
    using assms(1) by (auto simp: minv_def in_set_conv_nth)
  note w = sweep_ok [OF assms(5) this assms(2,3)]
  let ?b = "mine p (tcp_slots m ! slot_no p) \<and> \<not> live p (ss ! slot_no p)"
  have "\<forall>i<length (tcp_slots m). mine p (tcp_slots m ! i) \<and> \<not> live p (ss ! i) \<longrightarrow> ?b"
    using assms(1) l by (auto simp: minv_def)
  then have "emits (srv_frame p D ?b) n n'" using w by blast
  moreover have "minv p D r (m\<lparr>tcp_slots := ss\<rparr>)" using w assms(1) l by (auto simp: minv_def)
  ultimately show ?thesis using w assms(4) l by (simp add: mux_ok_def)
qed

lemma new_client_ok:
  assumes "minv p D r m" "r \<le> length D" "g_my_ip n = sv_ip p" "slot_no p < TCP_MAX_CONNS" "macs_known n"
    and "seg_ok p k seg" "mux_new_client seg nw m n = (m', n')"
  shows "mux_ok p D r m n m' n'"
proof (cases "has_flag seg TCP_FLAG_SYN \<and> \<not> has_flag seg TCP_FLAG_ACK \<and> tcp_mux_find_free m \<noteq> None \<and> nic_mac n \<noteq> None")
  case False
  then have "m' = m" "n' = n" using assms(7) by (auto simp: mux_new_client_def split: if_splits option.splits)
  then show ?thesis using mux_ok_refl [OF assms(1)] by auto
next
  case True
  then obtain fi mac where fi: "tcp_mux_find_free m = Some fi" "nic_mac n = Some mac" by auto
  obtain isn n1 where rnd: "net_rand32 n = (isn, n1)" by fastforce
  let ?s = "tcp_slots m ! fi"
  define c where "c = (conn ?s)\<lparr>my_mac := mac, remote_mac := take 6 (drop 6 (tcp_rx n)), remote_ip := seg_src_ip seg,
    remote_port := seg_src_port seg, local_port := tcp_mux_local_port m, rcv_nxt := seg_seq seg + 1, snd_nxt := isn,
    connected := False, peer_closed := False\<rparr>"
  define s1 where "s1 = ?s\<lparr>conn := c, reqbuf := [], outbuf := [], out_acked := 0, out_inflight := 0,
    out_retries := 0, close_after := False, state := TCP_SLOT_SYN_RCVD, deadline := nw + 300\<rparr>"
  have e: "m' = m\<lparr>tcp_slots := (tcp_slots m)[fi := s1]\<rparr>" "n' = tcp_send_segment c (TCP_FLAG_SYN OR TCP_FLAG_ACK) [] n1"
    using assms(7) True fi rnd by (simp_all add: mux_new_client_def Let_def c_def s1_def)
  have f: "fi < TCP_MAX_CONNS" "state ?s = TCP_SLOT_FREE"
    using fi(1) by (auto simp: tcp_mux_find_free_def find_Some_iff)
  have nc: "\<not> (remote_ip c = cl_ip p \<and> remote_port c = cl_port p)"
    using True assms(6) by (auto simp: c_def seg_ok_def)
  have ok: "macs_ok c" "local_port c = sv_port p"
    using assms(1,5) fi(2) by (auto simp: c_def macs_ok_def macs_known_def minv_def)
  have nm: "\<not> mine p s1" "\<not> mine p ?s" using nc f(2) by (simp_all add: mine_def s1_def)
  have "emits (srv_frame p D False) n n1" by (rule emits_rand [OF rnd])
  moreover have "g_my_ip n1 = sv_ip p" using emits_rand [OF rnd, of "\<lambda>_. True"] assms(3) by (simp add: emits_def)
  then have "emits (srv_frame p D False) n1 n'"
    unfolding e(2) by (rule slot_segment [OF _ ok(2,1)]) (use nc in auto)
  ultimately have "emits (srv_frame p D False) n n'" by (rule emits_trans)
  then have "step_ok p D r ?s n s1 n'"
    using nm ok unfolding step_ok_def by (simp add: mslot_ok_def tracks_def live_def s1_def)
  then show ?thesis unfolding e(1) by (rule slot_update_ok [OF assms(1) f(1) _ assms(4)])
qed

lemma mux_input_ok:
  assumes "minv p D r m" "r \<le> length D" "length D < 2147483648" "g_my_ip n = sv_ip p" "slot_no p < TCP_MAX_CONNS" "macs_known n"
    and "seg_ok p k seg" "mux_input seg nw m n = (ready, m', n')" and k: "live p (tcp_slots m ! slot_no p) \<Longrightarrow> k \<le> r"
  shows "mux_ok p D r m n m' n'"
proof (cases "tcp_mux_find (seg_src_ip seg) (seg_src_port seg) m")
  case None
  then show ?thesis using new_client_ok [OF assms(1,2,4-7)] assms(8) by (auto simp: mux_input_def)
next
  case (Some idx)
  then have i: "idx < TCP_MAX_CONNS" "state (tcp_slots m ! idx) \<noteq> TCP_SLOT_FREE"
    "seg_src_ip seg = remote_ip (conn (tcp_slots m ! idx))" "seg_src_port seg = remote_port (conn (tcp_slots m ! idx))"
    by (auto simp: tcp_mux_find_def find_Some_iff Let_def)
  obtain rd s1 where 1: "mux_slot_input seg (tcp_slots m ! idx) n = (rd, s1, n')" "m' = m\<lparr>tcp_slots := (tcp_slots m)[idx := s1]\<rparr>"
    using assms(8) Some by (auto simp: mux_input_def split: prod.splits)
  have o: "mslot_ok p (tcp_slots m ! idx)" "tracks p D r (tcp_slots m ! idx)" using assms(1) i(1) by (simp_all add: minv_def)
  have l: "live p (tcp_slots m ! idx) \<Longrightarrow> k \<le> r" using k assms(1) i(1) by (auto simp: minv_def live_def)
  have "step_ok p D r (tcp_slots m ! idx) n s1 n'"
    by (rule slot_input_ok [OF o assms(2-4) i(2) assms(7) i(3,4) 1(1) l])
  then show ?thesis unfolding 1(2) by (rule slot_update_ok [OF assms(1) i(1) _ assms(5)])
qed


lemma retransmit_inbox: "retransmit fl d nw s n = (s', n') \<Longrightarrow> inbox n' = inbox n"
  by (auto simp: retransmit_def Let_def split: if_splits)

lemma slot_timers_inbox: "slot_timers nw s n = (s', n') \<Longrightarrow> inbox n' = inbox n"
  unfolding slot_timers_def Let_def by (auto split: if_splits prod.splits dest!: retransmit_inbox)

lemma sweep_inbox: "sweep nw ss n = (ss', n') \<Longrightarrow> inbox n' = inbox n"
proof (induction ss arbitrary: n ss' n')
  case (Cons s ss)
  then show ?case by (auto split: prod.splits dest!: slot_timers_inbox)
qed simp

lemma poll_ok:
  assumes "minv p D r m" "r \<le> length D" "length D < 2147483648" "g_my_ip n = sv_ip p" "slot_no p < TCP_MAX_CONNS" "macs_known n"
    and fs: "\<And>f seg. f \<in> set (inbox n) \<Longrightarrow> tcp_parse_segment f (length f) = Some seg \<Longrightarrow> seg_ok p k seg"
    and "tcp_mux_poll m n = (res, m', n')" and k: "live p (tcp_slots m ! slot_no p) \<Longrightarrow> k \<le> r"
  shows "mux_ok p D r m n m' n' \<and> macs_known n'"
proof -
  obtain ss n1 where 1: "sweep (now n) (tcp_slots m) n = (ss, n1)" by fastforce
  let ?m1 = "m\<lparr>tcp_slots := ss\<rparr>"
  have sw: "mux_ok p D r m n ?m1 n1" by (rule mux_sweep_ok [OF assms(1,2,4,5) 1])
  have em: "emits (\<lambda>_. True) n n1" using sw unfolding mux_ok_def by (auto elim: emits_mono)
  have k1: "macs_known n1" by (rule emits_macs [OF em assms(6)])
  have inb: "inbox n1 = inbox n" by (rule sweep_inbox [OF 1])
  obtain j n2 where 2: "tcp_receive n1 = (j, n2)" by fastforce
  note rc = tcp_receive_spec [OF k1 2]
  have m1: "minv p D r ?m1" using sw by (simp add: mux_ok_def)
  have t2: "mux_ok p D r m n ?m1 n2" by (rule mux_ok_trans [OF sw mux_ok_refl [OF m1 rc(1)]])
  show ?thesis
  proof (cases "j = 0")
    case True
    then show ?thesis using t2 rc(2) assms(8) 1 2 by (simp add: tcp_mux_poll_def Let_def)
  next
    case False
    let ?n3 = "snd (arp_maybe_respond (tcp_rx n2) j n2)"
    have l2: "length (tcp_rx n2) = 1500" using rc(2) by (simp add: macs_known_def)
    note ar = emits_arp [OF rc(2) l2, of j]
    have t3: "mux_ok p D r m n ?m1 ?n3" by (rule mux_ok_trans [OF t2 mux_ok_refl [OF m1 arp_emits [OF ar(1)]]])
    have k3: "macs_known ?n3" by (rule emits_macs [OF ar(1) rc(2)])
    have ip: "g_my_ip ?n3 = sv_ip p" using t3 assms(4) by (simp add: mux_ok_def emits_def)
    obtain f where f: "f \<in> set (inbox n)" "j = length f" "tcp_parse_segment (tcp_rx n2) j = tcp_parse_segment f j"
      using rc(4) False inb by auto
    have ps: "tcp_parse_segment (tcp_rx ?n3) j = tcp_parse_segment f (length f)" using f(2,3) ar(2) by simp
    show ?thesis
    proof (cases "tcp_parse_segment f (length f)")
      case None
      then show ?thesis using t3 k3 assms(8) 1 2 False ps by (simp add: tcp_mux_poll_def Let_def)
    next
      case (Some seg)
      show ?thesis
      proof (cases "seg_dst_port seg = tcp_mux_local_port ?m1")
        case True
        then have mi: "mux_input seg (now n) ?m1 ?n3 = (res, m', n')"
          using assms(8) 1 2 False ps Some by (simp add: tcp_mux_poll_def Let_def)
        have l1: "live p (tcp_slots ?m1 ! slot_no p) \<Longrightarrow> k \<le> r" using k sw unfolding mux_ok_def by blast
        have "mux_ok p D r ?m1 ?n3 m' n'"
          by (rule mux_input_ok [OF m1 assms(2,3) ip assms(5) k3 fs [OF f(1) Some] mi l1])
        moreover from this have "emits (\<lambda>_. True) ?n3 n'" unfolding mux_ok_def by (auto elim: emits_mono)
        ultimately show ?thesis using mux_ok_trans [OF t3] emits_macs k3 by blast
      next
        case F: False
        then show ?thesis using t3 k3 assms(8) 1 2 False ps Some by (simp add: tcp_mux_poll_def Let_def)
      qed
    qed
  qed
qed

text \<open>Accepted bytes join the queue of our slot, so the stream grows.\<close>

lemma send_ok:
  assumes "minv p D r m" "r \<le> length D" "g_my_ip n = sv_ip p" "slot_no p < TCP_MAX_CONNS" "i < TCP_MAX_CONNS"
    and "tcp_mux_send i data m n = (ok, m', n')"
    and D': "D' = (if ok \<and> i = slot_no p \<and> mine p (tcp_slots m ! i) then D @ data else D)"
  shows "minv p D' r m' \<and> (D' \<noteq> D \<longrightarrow> live p (tcp_slots m ! slot_no p)) \<and>
    (live p (tcp_slots m' ! slot_no p) \<longrightarrow> live p (tcp_slots m ! slot_no p)) \<and>
    emits (srv_frame p D' (\<not> live p (tcp_slots m' ! slot_no p))) n n'"
proof (cases ok)
  case False
  then have "m' = m" "n' = n" "D' = D" using assms(6,7) by (auto simp: tcp_mux_send_def Let_def split: if_splits prod.splits)
  then show ?thesis using assms(1) by auto
next
  case True
  let ?s = "tcp_slots m ! i"
  let ?sd = "?s\<lparr>outbuf := outbuf ?s @ data\<rparr>"
  obtain s1 where 1: "tcp_mux_pump ?sd n = (s1, n')" "m' = m\<lparr>tcp_slots := (tcp_slots m)[i := s1]\<rparr>"
    "state ?s = TCP_SLOT_ESTABLISHED"
    using assms(6) True by (auto simp: tcp_mux_send_def Let_def split: if_splits prod.splits)
  have le: "length (outbuf ?s) + length data \<le> 256"
    using assms(6) True by (auto simp: tcp_mux_send_def Let_def not_less split: if_splits)
  have l: "length (tcp_slots m) = TCP_MAX_CONNS" using assms(1) by (simp add: minv_def)
  have s: "mslot_ok p ?s" "tracks p D r ?s" "mine p ?s \<longrightarrow> i = slot_no p" using assms(1,5) by (simp_all add: minv_def)
  have m0: "mine p ?sd = mine p ?s" "live p ?sd = live p ?s" by (simp_all add: mine_def live_def)
  have ok0: "mslot_ok p ?sd" using s(1) le by (auto simp: mslot_ok_def)
  have tr0: "tracks p D' r ?sd"
    using s(2,3) 1(3) True assms(2) unfolding tracks_def m0 D' by auto
  have r': "r \<le> length D'" using assms(2) D' by simp
  let ?md = "m\<lparr>tcp_slots := (tcp_slots m)[i := ?sd]\<rparr>"
  have "tracks p D' r (tcp_slots m ! j)" if "j < TCP_MAX_CONNS" "j \<noteq> i" for j
  proof (cases "mine p (tcp_slots m ! j)")
    case True
    then have "j = slot_no p" "tracks p D r (tcp_slots m ! j)" using assms(1) that(1) by (auto simp: minv_def)
    then show ?thesis using that(2) D' by auto
  qed (simp add: tracks_def)
  then have i0: "minv p D' r ?md"
    using assms(1,5) l ok0 tr0 m0(1) s(3) by (auto simp: minv_def nth_list_update)
  have "step_ok p D' r (tcp_slots ?md ! i) n s1 n'"
    using pump_ok [OF ok0 tr0 r' assms(3) 1(1)] assms(5) l by simp
  then have mo: "mux_ok p D' r ?md n m' n'"
    using slot_update_ok [OF i0 assms(5) _ assms(4), of n s1 n'] 1(2) by simp
  have lv: "live p (tcp_slots ?md ! slot_no p) = live p (tcp_slots m ! slot_no p)"
    using m0(2) assms(5) l by (cases "i = slot_no p") simp_all
  have "D' \<noteq> D \<longrightarrow> live p (tcp_slots m ! slot_no p)" using D' 1(3) by (auto simp: live_def)
  moreover have "emits (srv_frame p D' (\<not> live p (tcp_slots m' ! slot_no p))) n n'"
    by (rule emits_le [OF mo [unfolded mux_ok_def, THEN conjunct2, THEN conjunct2, THEN conjunct2]]) (erule conjunct2)
  moreover have "minv p D' r m'" "live p (tcp_slots m' ! slot_no p) \<longrightarrow> live p (tcp_slots ?md ! slot_no p)"
    using mo by (simp_all add: mux_ok_def)
  ultimately show ?thesis using lv by simp
qed

lemma close_ok:
  assumes "minv p D r m" "r \<le> length D" "g_my_ip n = sv_ip p" "slot_no p < TCP_MAX_CONNS" "i < TCP_MAX_CONNS"
    and "tcp_mux_close i m n = (m', n')"
  shows "mux_ok p D r m n m' n'"
proof -
  let ?s = "tcp_slots m ! i"
  have s: "mslot_ok p ?s" "tracks p D r ?s" using assms(1,5) by (simp_all add: minv_def)
  consider "m' = m" "n' = n" | "m' = m\<lparr>tcp_slots := (tcp_slots m)[i := ?s\<lparr>close_after := True\<rparr>]\<rparr>" "n' = n"
    | s1 where "tcp_mux_start_closing ?s n = (s1, n')" "m' = m\<lparr>tcp_slots := (tcp_slots m)[i := s1]\<rparr>"
      "state ?s = TCP_SLOT_ESTABLISHED" "outbuf ?s = []"
    using assms(6) s(1) by (auto simp: tcp_mux_close_def Let_def mslot_ok_def split: if_splits prod.splits)
  then show ?thesis
  proof cases
    case 1
    then show ?thesis using mux_ok_refl [OF assms(1)] by auto
  next
    case 2
    have "step_ok p D r ?s n (?s\<lparr>close_after := True\<rparr>) n"
      using s by (auto simp: step_ok_def mslot_ok_def tracks_def mine_def live_def)
    then show ?thesis unfolding 2 by (rule slot_update_ok [OF assms(1,5) _ assms(4)])
  next
    case 3
    show ?thesis unfolding 3(2)
      by (rule slot_update_ok [OF assms(1,5) start_closing_ok(1) [OF s assms(2) 3(3,4) assms(3) 3(1)] assms(4)])
  qed
qed

end
