(* ===== verification/TcpStreamCli.thy ===== *)
theory TcpStreamCli
  imports TcpStreamInv
begin

section \<open>The client end of the byte stream\<close>

text \<open>
  \<^verbatim>\<open>tcp_recv\<close> advances over the stream exactly by the bytes it returns, and only past a FIN that ends
  it; \<^verbatim>\<open>tcp_recv\<close> and \<^verbatim>\<open>tcp_send\<close> acknowledge no more than was delivered. \<open>cli_at p q c\<close>: the
  connection \<open>c\<close> of the client expects the offset \<open>q\<close>.
\<close>

definition cli_at :: "session \<Rightarrow> nat \<Rightarrow> tcp_conn \<Rightarrow> bool" where
  "cli_at p q c \<longleftrightarrow>
     local_port c = cl_port p \<and> remote_ip c = sv_ip p \<and> remote_port c = sv_port p \<and> macs_ok c \<and>
     rcv_nxt c = start_seq p + word_of_nat q"

definition inbox_ok :: "session \<Rightarrow> u8 list \<Rightarrow> bool \<Rightarrow> tcp_conn \<Rightarrow> net \<Rightarrow> bool" where
  "inbox_ok p D b c n \<longleftrightarrow>
     (\<forall>f\<in>set (inbox n). \<forall>seg. tcp_parse_segment f (length f) = Some seg \<longrightarrow> from_peer c seg \<longrightarrow>
        (\<exists>cc. good p D b cc (seg_flags seg) (seg_data seg) \<and> snd_nxt cc = seg_seq seg))"

lemma inbox_ok_sub: "inbox_ok p D b c n \<Longrightarrow> set (inbox n') \<subseteq> set (inbox n) \<Longrightarrow> inbox_ok p D b c n'"
  unfolding inbox_ok_def by blast

text \<open>Every segment of the client acknowledges what it expects next.\<close>

lemma client_segment:
  assumes "cli_at p q c" "g_my_ip n = cl_ip p" "length d \<le> 512" "fl AND TCP_FLAG_SYN = 0"
  shows "emits (cli_frame p q) n (tcp_send_segment c fl d n)"
  by (rule emits_segment) (use assms in \<open>auto simp: cli_frame_def cli_at_def\<close>)

lemma poll_peer_spec:
  assumes "macs_known n" "inbox_ok p D b c n" "tcp_poll_peer c n = (res, n')"
  shows "emits P n n' \<and> macs_known n' \<and> set (inbox n') \<subseteq> set (inbox n)"
    and "res = Some seg \<Longrightarrow> \<exists>cc. good p D b cc (seg_flags seg) (seg_data seg) \<and> snd_nxt cc = seg_seq seg"
proof -
  obtain k n1 where 1: "tcp_receive n = (k, n1)" by fastforce
  note rc = tcp_receive_spec [OF assms(1) 1]
  have n': "n' = n1" using assms(3) by (simp add: tcp_poll_peer_def 1)
  show "emits P n n' \<and> macs_known n' \<and> set (inbox n') \<subseteq> set (inbox n)" unfolding n' using rc by blast
  assume "res = Some seg"
  then have "0 < k" "tcp_parse_segment (tcp_rx n1) k = Some seg" "from_peer c seg"
    using assms(3) by (auto simp: tcp_poll_peer_def 1 split: if_splits option.splits)
  with rc(4) assms(2) show "\<exists>cc. good p D b cc (seg_flags seg) (seg_data seg) \<and> snd_nxt cc = seg_seq seg"
    unfolding inbox_ok_def by (metis less_numeral_extra(3))
qed

subsection \<open>Receiving\<close>

definition recv_ok :: "session \<Rightarrow> u8 list \<Rightarrow> bool \<Rightarrow> nat \<Rightarrow> tcp_conn \<Rightarrow> net \<Rightarrow> u8 list \<Rightarrow> tcp_conn \<Rightarrow> net \<Rightarrow> bool" where
  "recv_ok p D b r c n d c' n' \<longleftrightarrow>
     (\<exists>fin. c' = c\<lparr>rcv_nxt := start_seq p + word_of_nat (r + length d + of_bool fin), peer_closed := fin\<rparr> \<and>
        d = take (length d) (drop r D) \<and> r + length d \<le> length D \<and> (fin \<longrightarrow> r + length d = length D \<and> b) \<and>
        emits (cli_frame p (r + length d + of_bool fin)) n n')"

lemma recv_ok_none: "cli_at p r c \<Longrightarrow> \<not> peer_closed c \<Longrightarrow> r \<le> length D \<Longrightarrow> emits (cli_frame p r) n n' \<Longrightarrow> recv_ok p D b r c n [] c n'"
  by (auto simp: recv_ok_def cli_at_def intro!: exI [of _ False])

lemma recv_ok_after: "emits (cli_frame p r) n n1 \<Longrightarrow> recv_ok p D b r c n1 d c' n' \<Longrightarrow> recv_ok p D b r c n d c' n'"
proof -
  assume 1: "emits (cli_frame p r) n n1" and "recv_ok p D b r c n1 d c' n'"
  then obtain fin where f: "c' = c\<lparr>rcv_nxt := start_seq p + word_of_nat (r + length d + of_bool fin), peer_closed := fin\<rparr>"
    "d = take (length d) (drop r D)" "r + length d \<le> length D" "fin \<longrightarrow> r + length d = length D \<and> b"
    "emits (cli_frame p (r + length d + of_bool fin)) n1 n'"
    unfolding recv_ok_def by blast
  have "emits (cli_frame p (r + length d + of_bool fin)) n n1" by (rule emits_mono [OF 1]) (erule cli_frame_mono, simp)
  then have "emits (cli_frame p (r + length d + of_bool fin)) n n'" using f(5) by (rule emits_trans)
  then show ?thesis unfolding recv_ok_def using f(1-4) by blast
qed

lemma recv_segment_ok:
  assumes c: "cli_at p r c" "\<not> peer_closed c" and D: "r \<le> length D" "length D < 2147483647"
    and n: "g_my_ip n = cl_ip p"
    and g: "good p D b cc (seg_flags seg) (seg_data seg)" "snd_nxt cc = seg_seq seg" "seg_seq seg = rcv_nxt c"
    and e: "recv_segment k c seg n = (res, n')"
  shows "res = None \<Longrightarrow> n' = n" "res = Some (x, c') \<Longrightarrow> recv_ok p D b r c n (got x) c' n'"
proof -
  let ?d = "take k (seg_data seg)" and ?fin = "has_flag seg TCP_FLAG_FIN"
  let ?c1 = "c\<lparr>rcv_nxt := rcv_nxt c + word_of_nat (length ?d) + (if ?fin then 1 else 0), peer_closed := peer_closed c \<or> ?fin\<rparr>"
  let ?q = "r + length ?d + of_bool ?fin"
  obtain off where off: "snd_nxt cc = start_seq p + word_of_nat off" "off + length (seg_data seg) \<le> length D"
    "seg_data seg = take (length (seg_data seg)) (drop off D)" "?fin \<longrightarrow> seg_data seg = [] \<and> off = length D \<and> b"
    using g(1) unfolding good_def has_flag_def by blast
  have "start_seq p + word_of_nat off = start_seq p + (word_of_nat r :: u32)"
    using off(1) g(2,3) c(1) by (simp add: cli_at_def)
  then have o: "off = r" using seq_eq [of off r "start_seq p"] off(2) D by simp
  have d: "?d = take (length ?d) (drop r D)" "r + length ?d \<le> length D"
    using off(2,3) by (metis o take_take length_take min.commute, simp add: o)
  have f: "?fin \<longrightarrow> r + length ?d = length D \<and> b" using off(4) o by auto
  have c1: "?c1 = c\<lparr>rcv_nxt := start_seq p + word_of_nat ?q, peer_closed := ?fin\<rparr>"
    using c by (simp add: cli_at_def algebra_simps)
  have at: "cli_at p ?q ?c1" using c(1) unfolding c1 by (simp add: cli_at_def macs_ok_def)
  have r1: "recv_ok p D b r c n ?d ?c1 n1" if "emits (cli_frame p ?q) n n1" for n1
    unfolding recv_ok_def using c1 d f that by blast
  have s: "recv_ok p D b r c n ?d ?c1 (tcp_send_segment ?c1 TCP_FLAG_ACK [] n)"
    by (rule r1, rule client_segment [OF at n]) simp_all
  show "res = None \<Longrightarrow> n' = n" using e by (auto simp: recv_segment_def Let_def split: if_splits)
  show "recv_ok p D b r c n (got x) c' n'" if "res = Some (x, c')"
  proof (cases "?d = []")
    case True
    then have "x = RecvClosed" "c' = ?c1" "n' = (if ?fin then tcp_send_segment ?c1 TCP_FLAG_ACK [] n else n)" "?fin"
      using e that c(2) by (auto simp: recv_segment_def Let_def split: if_splits)
    then show ?thesis using s True by (simp add: got_def)
  next
    case False
    then have "x = RecvData ?d" "c' = ?c1" "n' = tcp_send_segment ?c1 TCP_FLAG_ACK [] n"
      using e that by (auto simp: recv_segment_def Let_def)
    then show ?thesis using s by (simp add: got_def)
  qed
qed

lemma recv_step_ok:
  assumes "cli_at p r c" "\<not> peer_closed c" "r \<le> length D" "length D < 2147483647"
    and "g_my_ip n = cl_ip p" "macs_known n" "inbox_ok p D b c n" "recv_step k c n = (res, n')"
  shows "res = None \<Longrightarrow> emits (cli_frame p r) n n' \<and> macs_known n' \<and> inbox_ok p D b c n'"
    and "res = Some (x, c') \<Longrightarrow> recv_ok p D b r c n (got x) c' n'"
proof -
  obtain so n1 where 1: "tcp_poll_peer c n = (so, n1)" by fastforce
  note pp = poll_peer_spec [OF assms(6,7) 1]
  have n1: "emits (cli_frame p r) n n1" "macs_known n1" "inbox_ok p D b c n1" "g_my_ip n1 = cl_ip p"
    using pp(1) [of "cli_frame p r"] inbox_ok_sub [OF assms(7)] assms(5) by (auto simp: emits_def)
  have "(res = None \<longrightarrow> n' = n1) \<and> (\<forall>x c'. res = Some (x, c') \<longrightarrow> recv_ok p D b r c n1 (got x) c' n')"
  proof (cases so)
    case None
    then show ?thesis using assms(8) by (auto simp: recv_step_def 1)
  next
    case (Some seg)
    show ?thesis
    proof (cases "seg_seq seg = rcv_nxt c")
      case True
      have e: "recv_segment k c seg n1 = (res, n')" using assms(8) Some True by (simp add: recv_step_def 1)
      obtain cc where g: "good p D b cc (seg_flags seg) (seg_data seg)" "snd_nxt cc = seg_seq seg" using pp(2) [OF Some] by blast
      show ?thesis using recv_segment_ok [OF assms(1-4) n1(4) g True e] by blast
    qed (use assms(8) Some in \<open>auto simp: recv_step_def 1\<close>)
  qed
  then show "res = None \<Longrightarrow> emits (cli_frame p r) n n' \<and> macs_known n' \<and> inbox_ok p D b c n'"
    "res = Some (x, c') \<Longrightarrow> recv_ok p D b r c n (got x) c' n'"
    using n1 recv_ok_after [OF n1(1)] by blast+
qed

lemma recv_loop_ok:
  assumes "cli_at p r c" "\<not> peer_closed c" "r \<le> length D" "length D < 2147483647"
  shows "recv_loop k c timeout w n = (x, c', n') \<Longrightarrow> g_my_ip n = cl_ip p \<Longrightarrow> macs_known n \<Longrightarrow> inbox_ok p D b c n \<Longrightarrow>
    recv_ok p D b r c n (got x) c' n'"
proof (induction "timeout - w" arbitrary: w n rule: less_induct)
  case less
  obtain o1 n1 where 1: "recv_step k c n = (o1, n1)" by fastforce
  note st = recv_step_ok [OF assms less.prems(2-4) 1]
  show ?case
  proof (cases o1)
    case None
    then have e: "emits (cli_frame p r) n n1" "macs_known n1" "inbox_ok p D b c n1" using st(1) by blast+
    show ?thesis
    proof (cases "timeout \<le> w")
      case True
      then have "x = RecvTimeout" "c' = c" "n' = n1"
        using less.prems(1) None by (auto simp: recv_loop.simps [of k c timeout w] 1)
      then show ?thesis using recv_ok_none [OF assms(1-3) e(1)] by (simp add: got_def)
    next
      case False
      let ?n2 = "ax_sleep_ms 10 n1"
      have l: "recv_loop k c timeout (w + 10) ?n2 = (x, c', n')"
        using less.prems(1) None False by (simp add: recv_loop.simps [of k c timeout w] 1)
      have e2: "emits (cli_frame p r) n ?n2" by (rule emits_trans [OF e(1) emits_sleep])
      then have n2: "g_my_ip ?n2 = cl_ip p" using less.prems(2) by (simp add: emits_def)
      have i2: "inbox_ok p D b c ?n2" by (rule inbox_ok_sub [OF e(3)]) (simp add: ax_sleep_ms_def)
      show ?thesis
        by (rule recv_ok_after [OF e2 less.hyps [OF _ l n2 emits_macs [OF e2 less.prems(3)] i2]]) (use False in simp)
    qed
  next
    case (Some y)
    then show ?thesis using less.prems(1) st(2) by (auto simp: recv_loop.simps [of k c timeout w] 1 split: prod.splits)
  qed
qed

subsection \<open>Sending\<close>

lemma ack_loop_ok:
  assumes "poll_loop 10 (ack_step c e) t 0 n = (res, w, n')" "macs_known n"
  shows "emits P n n' \<and> macs_known n'"
proof -
  have st: "emits P s s1 \<and> macs_known s1" if "macs_known s" "ack_step c e s = (x, s1)" for s x s1
  proof -
    obtain k s2 where 1: "tcp_receive s = (k, s2)" by fastforce
    have "s1 = s2" using that(2) by (auto simp: ack_step_def tcp_poll_peer_def 1 split: option.splits if_splits)
    then show ?thesis using tcp_receive_spec(1,2) [OF that(1) 1] by simp
  qed
  have "case res of None \<Rightarrow> emits P n n' \<and> macs_known n' | Some x \<Rightarrow> emits P n n' \<and> macs_known n'"
  proof (rule poll_loop_inv [where I = "\<lambda>s. emits P n s \<and> macs_known s" and R = "\<lambda>x s. emits P n s \<and> macs_known s", OF _ _ _ assms(1)])
    show "emits P n n \<and> macs_known n" using assms(2) by auto
    show "case r of None \<Rightarrow> emits P n s' \<and> macs_known s' | Some x \<Rightarrow> emits P n s' \<and> macs_known s'"
      if "emits P n s \<and> macs_known s" "ack_step c e s = (r, s')" for s r s'
      using st [of s r s'] that emits_trans [of P n s s'] by (auto split: option.splits)
    show "emits P n (ax_sleep_ms 10 s) \<and> macs_known (ax_sleep_ms 10 s)" if "emits P n s \<and> macs_known s" for s
      using that emits_trans [OF _ emits_sleep] emits_macs [OF emits_sleep] by blast
  qed
  then show ?thesis by (cases res) auto
qed

lemma send_attempts_ok:
  "send_attempts k c data e rto n = (ok, n') \<Longrightarrow> cli_at p q c \<Longrightarrow> length data \<le> 512 \<Longrightarrow> g_my_ip n = cl_ip p \<Longrightarrow> macs_known n \<Longrightarrow>
    emits (cli_frame p q) n n'"
proof (induction k arbitrary: rto n)
  case (Suc k)
  let ?n1 = "tcp_send_segment c (TCP_FLAG_PSH OR TCP_FLAG_ACK) data n"
  obtain u w n2 where 1: "poll_loop 10 (ack_step c e) rto 0 ?n1 = (u, w, n2)" by (metis prod_cases3)
  have s: "emits (cli_frame p q) n ?n1" by (rule client_segment) (use Suc.prems in simp_all)
  have l: "emits (cli_frame p q) ?n1 n2" "macs_known n2"
    using ack_loop_ok [OF 1 emits_macs [OF s Suc.prems(5)]] by auto
  note e2 = emits_trans [OF s l(1)]
  then have ip: "g_my_ip n2 = cl_ip p" using Suc.prems(4) by (simp add: emits_def)
  show ?case
  proof (cases u)
    case None
    then have "send_attempts k c data e (rto_next rto) n2 = (ok, n')" using Suc.prems(1) by (simp add: 1)
    then show ?thesis using Suc.IH [OF _ Suc.prems(2,3) ip l(2)] emits_trans [OF e2] by blast
  next
    case (Some x)
    then show ?thesis using Suc.prems(1) e2 by (simp add: 1)
  qed
qed auto

lemma tcp_send_ok:
  assumes "tcp_send c data n = (ok, c', n')" "cli_at p q c" "g_my_ip n = cl_ip p" "macs_known n"
  shows "emits (cli_frame p q) n n' \<and> cli_at p q c' \<and> peer_closed c' = peer_closed c"
proof (cases "connected c \<and> length data \<le> 512")
  case True
  obtain ok1 n1 where 1: "send_attempts (TCP_MAX_RETRIES + 1) c data (snd_nxt c + word_of_nat (length data)) TCP_RTO_MS n = (ok1, n1)"
    by fastforce
  then have "n' = n1" "c' = c \<or> c' = c\<lparr>snd_nxt := snd_nxt c + word_of_nat (length data)\<rparr>"
    using assms(1) True by (auto simp: tcp_send_def Let_def split: if_splits)
  then show ?thesis
    using send_attempts_ok [OF 1 assms(2) _ assms(3,4)] True assms(2) by (auto simp: cli_at_def macs_ok_def)
qed (use assms in \<open>auto simp: tcp_send_def split: if_splits\<close>)

lemma tcp_recv_ok:
  assumes "tcp_recv c k timeout n = (x, c', n')" "cli_at p r c" "\<not> peer_closed c" "r \<le> length D" "length D < 2147483647"
    and "g_my_ip n = cl_ip p" "macs_known n" "inbox_ok p D b c n"
  shows "recv_ok p D b r c n (got x) c' n'"
proof (cases "connected c")
  case True
  then show ?thesis using assms(1,3) recv_loop_ok [OF assms(2-5) _ assms(6-8)] by (simp add: tcp_recv_def)
next
  case False
  then have "x = RecvClosed" "c' = c" "n' = n" using assms(1,3) by (simp_all add: tcp_recv_def)
  then show ?thesis using recv_ok_none [OF assms(2-4)] by (simp add: got_def emits_refl)
qed

end
