(* ===== verification/TcpStreamProps.thy ===== *)
theory TcpStreamProps
  imports TcpStreamCli "HOL-Library.Sublist"
begin

section \<open>The byte stream is reliable\<close>

text \<open>
  The invariant of the two ends together, kept by every step of \<open>stream_step\<close>, and the refinement:
  the program with its lossy network implements one ordered stream of bytes.
\<close>

definition stream_inv :: "session \<Rightarrow> chan \<Rightarrow> bool" where
  "stream_inv p ch \<longleftrightarrow>
     (let D = accepted ch; r = length (delivered ch); fin = peer_closed (cli ch); lv = live p (the_slot p ch) in
        slot_no p < TCP_MAX_CONNS \<and> minv p D r (srv ch) \<and> length D < 2147483647 \<and>
        delivered ch = take r D \<and> r \<le> length D \<and> (fin \<longrightarrow> r = length D \<and> \<not> lv) \<and>
        cli_at p (r + of_bool fin) (cli ch) \<and>
        (\<forall>f\<in>set (sent (srv_net ch)). srv_frame p D (\<not> lv) f) \<and>
        (\<forall>f\<in>set (sent (cli_net ch)). cli_frame p (r + of_bool fin) f) \<and>
        g_my_ip (srv_net ch) = sv_ip p \<and> macs_known (srv_net ch) \<and> g_my_ip (cli_net ch) = cl_ip p \<and> macs_known (cli_net ch))"

text \<open>A connection just after its handshake, with nothing sent on it yet.\<close>

definition established :: "session \<Rightarrow> chan \<Rightarrow> bool" where
  "established p ch \<longleftrightarrow>
     slot_no p < TCP_MAX_CONNS \<and> length (tcp_slots (srv ch)) = TCP_MAX_CONNS \<and> tcp_mux_local_port (srv ch) = sv_port p \<and>
     (\<forall>i<TCP_MAX_CONNS. mslot_ok p (tcp_slots (srv ch) ! i) \<and> (mine p (tcp_slots (srv ch) ! i) \<longleftrightarrow> i = slot_no p)) \<and>
     state (the_slot p ch) = TCP_SLOT_ESTABLISHED \<and> snd_nxt (conn (the_slot p ch)) = start_seq p \<and> outbuf (the_slot p ch) = [] \<and>
     cli_at p 0 (cli ch) \<and> \<not> peer_closed (cli ch) \<and> accepted ch = [] \<and> delivered ch = [] \<and>
     sent (srv_net ch) = [] \<and> sent (cli_net ch) = [] \<and>
     g_my_ip (srv_net ch) = sv_ip p \<and> macs_known (srv_net ch) \<and> g_my_ip (cli_net ch) = cl_ip p \<and> macs_known (cli_net ch)"

lemma established_inv: "established p ch \<Longrightarrow> stream_inv p ch"
  by (auto simp: established_def stream_inv_def Let_def minv_def tracks_def the_slot_def intro!: exI [of _ "0::nat"])

text \<open>A server call that keeps the accepted bytes, or adds to them.\<close>

lemma stream_inv_server:
  assumes "stream_inv p ch" "minv p D' (length (delivered ch)) m" "length D' < 2147483647"
    and D': "D' = accepted ch \<or> (\<exists>x. D' = accepted ch @ x) \<and> live p (the_slot p ch)"
    and lv: "live p (tcp_slots m ! slot_no p) \<longrightarrow> live p (the_slot p ch)"
    and em: "emits (srv_frame p D' (\<not> live p (tcp_slots m ! slot_no p))) (srv_net ch\<lparr>inbox := fs, now := t\<rparr>) n"
  shows "stream_inv p (ch\<lparr>srv := m, srv_net := n, accepted := D'\<rparr>)"
proof -
  let ?lv = "live p (the_slot p ch)" and ?lv' = "live p (tcp_slots m ! slot_no p)"
  have i: "\<forall>f\<in>set (sent (srv_net ch)). srv_frame p (accepted ch) (\<not> ?lv) f" "macs_known (srv_net ch)"
    "delivered ch = take (length (delivered ch)) (accepted ch)" "length (delivered ch) \<le> length (accepted ch)"
    "peer_closed (cli ch) \<longrightarrow> length (delivered ch) = length (accepted ch) \<and> \<not> ?lv"
    using assms(1) by (simp_all add: stream_inv_def Let_def)
  have "srv_frame p D' (\<not> ?lv') f" if "f \<in> set (sent (srv_net ch))" for f
  proof (cases "D' = accepted ch")
    case True
    show ?thesis using srv_frame_le [of p "accepted ch" "\<not> ?lv" f "\<not> ?lv'"] i(1) that lv True by blast
  next
    case False
    then obtain x where "D' = accepted ch @ x" "?lv" using D' by blast
    then show ?thesis using srv_frame_more i(1) that by simp
  qed
  then have s: "\<forall>f\<in>set (sent n). srv_frame p D' (\<not> ?lv') f"
    using emits_sent [OF em] by simp
  have k: "macs_known n" by (rule emits_macs [OF em]) (use i(2) in \<open>simp add: macs_known_def\<close>)
  have ip: "g_my_ip n = g_my_ip (srv_net ch)" using em by (simp add: emits_def)
  have d: "delivered ch = take (length (delivered ch)) D'" "length (delivered ch) \<le> length D'"
    using i(3,4) D' by auto
  have f: "peer_closed (cli ch) \<longrightarrow> length (delivered ch) = length D' \<and> \<not> ?lv'" using i(5) D' lv by auto
  show ?thesis
    using assms(1-3) s k ip d f unfolding stream_inv_def Let_def the_slot_def by simp
qed

text \<open>A client call.\<close>

lemma inbox_of_network:
  assumes "stream_inv p ch" "\<forall>f\<in>set fs. to_client p ch f"
  shows "inbox_ok p (accepted ch) (\<not> live p (the_slot p ch)) (cli ch) (cli_net ch\<lparr>inbox := fs, now := t\<rparr>)"
proof -
  have "\<exists>cc. good p (accepted ch) (\<not> live p (the_slot p ch)) cc (seg_flags seg) (seg_data seg) \<and> snd_nxt cc = seg_seq seg"
    if "f \<in> set fs" "tcp_parse_segment f (length f) = Some seg" "from_peer (cli ch) seg" for f seg
  proof -
    have "f \<in> set (sent (srv_net ch))" "get32be f 30 = cl_ip p" using assms(2) that unfolding to_client_def by blast+
    moreover from this have "srv_frame p (accepted ch) (\<not> live p (the_slot p ch)) f" "local_port (cli ch) = cl_port p"
      using assms(1) by (simp_all add: stream_inv_def Let_def cli_at_def)
    ultimately show ?thesis using client_reads that(2,3) by blast
  qed
  then show ?thesis by (simp add: inbox_ok_def)
qed

lemma tracks_more: "tracks p D r s \<Longrightarrow> r \<le> r' \<Longrightarrow> r' \<le> length D \<Longrightarrow> tracks p D r' s"
  by (fastforce simp: tracks_def)

lemma minv_more: "minv p D r m \<Longrightarrow> r \<le> r' \<Longrightarrow> r' \<le> length D \<Longrightarrow> minv p D r' m"
  by (auto simp: minv_def intro: tracks_more)

lemma client_net:
  assumes "stream_inv p ch" "emits (cli_frame p q) (cli_net ch\<lparr>inbox := fs, now := t\<rparr>) n"
    and "length (delivered ch) + of_bool (peer_closed (cli ch)) \<le> q"
  shows "\<forall>f\<in>set (sent n). cli_frame p q f" "g_my_ip n = cl_ip p" "macs_known n"
proof -
  have i: "macs_known (cli_net ch)" "g_my_ip (cli_net ch) = cl_ip p"
    "\<forall>f\<in>set (sent (cli_net ch)). cli_frame p (length (delivered ch) + of_bool (peer_closed (cli ch))) f"
    using assms(1) by (simp_all add: stream_inv_def Let_def)
  then have "\<forall>f\<in>set (sent (cli_net ch)). cli_frame p q f" using cli_frame_mono [OF _ assms(3)] by blast
  then show "\<forall>f\<in>set (sent n). cli_frame p q f" using emits_sent [OF assms(2)] by simp
  show "macs_known n" by (rule emits_macs [OF assms(2)]) (use i(1) in \<open>simp add: macs_known_def\<close>)
  show "g_my_ip n = cl_ip p" using assms(2) i(2) by (simp add: emits_def)
qed

lemma stream_inv_recv:
  assumes i: "stream_inv p ch" and fs: "\<forall>f\<in>set fs. to_client p ch f"
    and e: "tcp_recv (cli ch) k timeout (cli_net ch\<lparr>inbox := fs, now := t\<rparr>) = (x, c, n)"
  shows "stream_inv p (ch\<lparr>cli := c, cli_net := n, delivered := delivered ch @ got x\<rparr>)"
proof (cases "peer_closed (cli ch)")
  case True
  then have "x = RecvClosed" "c = cli ch" "n = cli_net ch\<lparr>inbox := fs, now := t\<rparr>"
    using e by (simp_all add: tcp_recv_def)
  then show ?thesis using i by (simp add: stream_inv_def Let_def the_slot_def got_def macs_known_def)
next
  case False
  let ?D = "accepted ch" and ?r = "length (delivered ch)" and ?d = "got x" and ?lv = "live p (the_slot p ch)"
  have j: "cli_at p ?r (cli ch)" "?r \<le> length ?D" "length ?D < 2147483647" "g_my_ip (cli_net ch) = cl_ip p"
    "macs_known (cli_net ch)" "delivered ch = take ?r ?D" "minv p ?D ?r (srv ch)"
    using i False by (simp_all add: stream_inv_def Let_def)
  have "recv_ok p ?D (\<not> ?lv) ?r (cli ch) (cli_net ch\<lparr>inbox := fs, now := t\<rparr>) ?d c n"
    by (rule tcp_recv_ok [OF e j(1) False j(2,3)])
      (use j(4,5) inbox_of_network [OF i fs] in \<open>simp_all add: macs_known_def\<close>)
  then obtain fin where f: "c = (cli ch)\<lparr>rcv_nxt := start_seq p + word_of_nat (?r + length ?d + of_bool fin), peer_closed := fin\<rparr>"
    "?d = take (length ?d) (drop ?r ?D)" "?r + length ?d \<le> length ?D" "fin \<longrightarrow> ?r + length ?d = length ?D \<and> \<not> ?lv"
    "emits (cli_frame p (?r + length ?d + of_bool fin)) (cli_net ch\<lparr>inbox := fs, now := t\<rparr>) n"
    unfolding recv_ok_def by blast
  have s: "\<forall>g\<in>set (sent n). cli_frame p (?r + length ?d + of_bool fin) g" "g_my_ip n = cl_ip p" "macs_known n"
    by (rule client_net [OF i f(5)], use False in simp)+
  have d: "delivered ch @ ?d = take (?r + length ?d) ?D"
    using j(6) f(2) by (metis take_add)
  have m: "minv p ?D (?r + length ?d) (srv ch)" by (rule minv_more [OF j(7) _ f(3)]) simp
  have c: "cli_at p (?r + length ?d + of_bool fin) c" "peer_closed c = fin"
    using j(1) by (simp_all add: f(1) cli_at_def macs_ok_def)
  show ?thesis
    using i s d m c f(3,4) unfolding stream_inv_def Let_def the_slot_def by simp
qed

lemma stream_inv_step: "stream_step p ch ch' \<Longrightarrow> stream_inv p ch \<Longrightarrow> stream_inv p ch'"
proof (induction rule: stream_step.induct)
  case (server_poll fs ch t r m n)
  let ?D = "accepted ch" and ?r = "length (delivered ch)" and ?lv = "live p (the_slot p ch)"
  let ?q = "?r + of_bool (peer_closed (cli ch))"
  have i: "minv p ?D ?r (srv ch)" "?r \<le> length ?D" "length ?D < 2147483647" "slot_no p < TCP_MAX_CONNS"
    "g_my_ip (srv_net ch) = sv_ip p" "macs_known (srv_net ch)" "peer_closed (cli ch) \<longrightarrow> \<not> ?lv"
    "\<forall>f\<in>set (sent (cli_net ch)). cli_frame p ?q f"
    using server_poll.prems by (simp_all add: stream_inv_def Let_def)
  have so: "seg_ok p ?q seg" if "f \<in> set fs" "tcp_parse_segment f (length f) = Some seg" for f seg
    using server_poll.hyps(1) that i(8) server_reads [of p ?q f seg] unfolding seg_ok_def to_server_def by blast
  have "mux_ok p ?D ?r (srv ch) (srv_net ch\<lparr>inbox := fs, now := t\<rparr>) m n"
    by (rule poll_ok [OF i(1,2) _ _ i(4) _ _ server_poll.hyps(2), THEN conjunct1])
      (use i so in \<open>auto simp: macs_known_def the_slot_def\<close>)
  then have "stream_inv p (ch\<lparr>srv := m, srv_net := n, accepted := ?D\<rparr>)"
    by (intro stream_inv_server [OF server_poll.prems, where fs = fs and t = t])
      (use i in \<open>auto simp: mux_ok_def the_slot_def elim: emits_le\<close>)
  then show ?case by simp
next
  case (server_send i ch data t ok m n)
  let ?r = "length (delivered ch)" and ?s = "the_slot p ch"
  let ?D' = "if ok \<and> i = slot_no p \<and> mine p ?s then accepted ch @ data else accepted ch"
  have j: "minv p (accepted ch) ?r (srv ch)" "?r \<le> length (accepted ch)" "slot_no p < TCP_MAX_CONNS"
    "g_my_ip (srv_net ch) = sv_ip p" "length (accepted ch) < 2147483647"
    using server_send.prems by (simp_all add: stream_inv_def Let_def)
  let ?n0 = "(srv_net ch)\<lparr>inbox := inbox (srv_net ch), now := t\<rparr>"
  have e: "tcp_mux_send i data (srv ch) ?n0 = (ok, m, n)" using server_send.hyps(3) by simp
  have "minv p ?D' ?r m \<and> (?D' \<noteq> accepted ch \<longrightarrow> live p (tcp_slots (srv ch) ! slot_no p)) \<and>
      (live p (tcp_slots m ! slot_no p) \<longrightarrow> live p (tcp_slots (srv ch) ! slot_no p)) \<and>
      emits (srv_frame p ?D' (\<not> live p (tcp_slots m ! slot_no p))) ?n0 n"
    by (rule send_ok [OF j(1,2) _ j(3) server_send.hyps(1) e]) (use j(4) in \<open>auto simp: the_slot_def\<close>)
  then show ?case
    using server_send.hyps(2) j(5)
    by (intro stream_inv_server [OF server_send.prems, where fs = "inbox (srv_net ch)" and t = t]) (auto simp: the_slot_def)
next
  case (server_close i ch t m n)
  let ?D = "accepted ch" and ?r = "length (delivered ch)"
  have j: "minv p ?D ?r (srv ch)" "?r \<le> length ?D" "slot_no p < TCP_MAX_CONNS" "g_my_ip (srv_net ch) = sv_ip p" "length ?D < 2147483647"
    using server_close.prems by (simp_all add: stream_inv_def Let_def)
  let ?n0 = "(srv_net ch)\<lparr>inbox := inbox (srv_net ch), now := t\<rparr>"
  have e: "tcp_mux_close i (srv ch) ?n0 = (m, n)" using server_close.hyps(2) by simp
  have "mux_ok p ?D ?r (srv ch) ?n0 m n" by (rule close_ok [OF j(1,2) _ j(3) server_close.hyps(1) e]) (use j(4) in simp)
  then have "stream_inv p (ch\<lparr>srv := m, srv_net := n, accepted := ?D\<rparr>)"
    by (intro stream_inv_server [OF server_close.prems, where fs = "inbox (srv_net ch)" and t = t])
      (use j in \<open>auto simp: mux_ok_def the_slot_def elim: emits_le\<close>)
  then show ?case by simp
next
  case (client_recv fs ch k timeout t r c n)
  then show ?case using stream_inv_recv by blast
next
  case (client_send fs ch data t ok c n)
  let ?q = "length (delivered ch) + of_bool (peer_closed (cli ch))"
  have j: "cli_at p ?q (cli ch)" "g_my_ip (cli_net ch) = cl_ip p" "macs_known (cli_net ch)"
    using client_send.prems by (simp_all add: stream_inv_def Let_def)
  have e: "emits (cli_frame p ?q) (cli_net ch\<lparr>inbox := fs, now := t\<rparr>) n" "cli_at p ?q c" "peer_closed c = peer_closed (cli ch)"
    using tcp_send_ok [OF client_send.hyps(2) j(1)] j(2,3) by (simp_all add: macs_known_def)
  show ?case
    using client_send.prems client_net [OF client_send.prems e(1)] e(2,3) by (simp add: stream_inv_def Let_def the_slot_def)
qed

subsection \<open>A concrete connection\<close>

definition demo_session :: session where
  "demo_session = \<lparr>cl_ip = 0x0A000202, cl_port = 40000, sv_ip = 0x0A000201, sv_port = 80, slot_no = 0, start_seq = 0xFFFFFFFF\<rparr>"

definition demo_net :: "u32 \<Rightarrow> net" where
  "demo_net ip = \<lparr>g_my_ip = ip, g_subnet_mask = 0xFFFFFF00, g_router_ip = 0x0A000203, arp_cache_tbl = [], arp_my_mac = replicate 6 1,
     arp_my_mac_ok = True, arp_rx_buf = [], icmp_rx = [], udp_rx = [], tcp_rx = replicate 1500 0, dns_rx = [], dhcp_rx = [],
     dhcp_subnet_mask = 0, dhcp_router_ip = 0, dhcp_dns_ip = 0, net_rand_state = 1, nic_mac = None, nic_ok = (\<lambda>f. True),
     inbox = [], sent = [], now = 0\<rparr>"

definition demo_slot :: "slot_state \<Rightarrow> tcp_slot" where
  "demo_slot st = \<lparr>state = st,
     conn = \<lparr>remote_ip = 0x0A000202, remote_port = 40000, local_port = 80, remote_mac = replicate 6 2, my_mac = replicate 6 1,
             snd_nxt = 0xFFFFFFFF, rcv_nxt = 7, connected = True, peer_closed = False\<rparr>,
     reqbuf = [], deadline = 0, outbuf = [], out_acked = 0, out_inflight = 0, out_retries = 0, out_rto = 0,
     out_rto_deadline = 0, close_after = False\<rparr>"

definition demo_cli :: tcp_conn where
  "demo_cli = \<lparr>remote_ip = 0x0A000201, remote_port = 80, local_port = 40000, remote_mac = replicate 6 1, my_mac = replicate 6 2,
     snd_nxt = 7, rcv_nxt = 0xFFFFFFFF, connected = True, peer_closed = False\<rparr>"

definition demo_mux :: mux where
  "demo_mux = \<lparr>tcp_slots = demo_slot TCP_SLOT_ESTABLISHED # replicate 3 (demo_slot TCP_SLOT_FREE), tcp_mux_local_port = 80\<rparr>"

definition demo_chan :: chan where
  "demo_chan = \<lparr>srv = demo_mux, srv_net = demo_net 0x0A000201, cli = demo_cli, cli_net = demo_net 0x0A000202,
     accepted = [], delivered = []\<rparr>"

lemma demo_established: "established demo_session demo_chan"
proof -
  have "(\<forall>i<4. P i) \<longleftrightarrow> P 0 \<and> P 1 \<and> P 2 \<and> P (3::nat)" for P
    by (auto simp: numeral_eq_Suc less_Suc_eq)
  then show ?thesis
    by (simp add: established_def demo_session_def demo_chan_def demo_mux_def demo_slot_def demo_cli_def demo_net_def
        mslot_ok_def mine_def macs_ok_def macs_known_def cli_at_def the_slot_def numeral_eq_Suc)
qed

definition demo_frame :: "u8 list" where
  "demo_frame = tcp_frame 0x0A000201 (conn (demo_slot TCP_SLOT_ESTABLISHED)) (TCP_FLAG_PSH OR TCP_FLAG_ACK) [104, 105]"

lemma demo_frame_simps: "length demo_frame = 56" "get32be demo_frame 30 = 0x0A000202"
  "tcp_parse_segment (demo_frame @ qs) 56 =
    Some \<lparr>seg_src_ip = 0x0A000201, seg_src_port = 80, seg_dst_port = 40000, seg_seq = 0xFFFFFFFF, seg_ack = 7,
      seg_flags = TCP_FLAG_PSH OR TCP_FLAG_ACK, seg_data = [104, 105]\<rparr>"
proof -
  let ?c = "conn (demo_slot TCP_SLOT_ESTABLISHED)"
  have c: "macs_ok ?c" by (simp add: macs_ok_def demo_slot_def)
  show l: "length demo_frame = 56" using c by (simp add: demo_frame_def length_tcp_frame macs_ok_def)
  show "get32be demo_frame 30 = 0x0A000202" using frame_dest [OF c] by (simp add: demo_frame_def demo_slot_def)
  show "tcp_parse_segment (demo_frame @ qs) 56 =
    Some \<lparr>seg_src_ip = 0x0A000201, seg_src_port = 80, seg_dst_port = 40000, seg_seq = 0xFFFFFFFF, seg_ack = 7,
      seg_flags = TCP_FLAG_PSH OR TCP_FLAG_ACK, seg_data = [104, 105]\<rparr>"
    using tcp_parse_frame [of ?c "[104, 105]" "0x0A000201" "TCP_FLAG_PSH OR TCP_FLAG_ACK" qs] c l
    by (simp add: demo_frame_def macs_ok_def demo_slot_def)
qed

text \<open>Two bytes go to the client, in a segment whose sequence numbers wrap around.\<close>

lemma demo_stream_steps:
  "\<exists>ch. (stream_step demo_session)\<^sup>*\<^sup>* demo_chan ch \<and> accepted ch = [104, 105] \<and> delivered ch = [104, 105]"
proof -
  let ?n = "demo_net 0x0A000201"
  have s: "\<exists>m n. tcp_mux_send 0 [104, 105] (srv demo_chan) ((srv_net demo_chan)\<lparr>now := 0\<rparr>) = (True, m, n) \<and> sent n = [demo_frame]"
    by (simp add: tcp_mux_send_def tcp_mux_pump_def tcp_send_segment_def ax_net_send_def demo_chan_def demo_mux_def
        demo_frame_def demo_net_def demo_slot_def Let_def)
  then obtain m n where s: "tcp_mux_send 0 [104, 105] (srv demo_chan) ((srv_net demo_chan)\<lparr>now := 0\<rparr>) = (True, m, n)" "sent n = [demo_frame]"
    by blast
  let ?ch1 = "demo_chan\<lparr>srv := m, srv_net := n, accepted := [104, 105]\<rparr>"
  have mi: "mine demo_session (the_slot demo_session demo_chan)" "slot_no demo_session = 0"
    by (simp_all add: mine_def the_slot_def demo_session_def demo_chan_def demo_mux_def demo_slot_def)
  have 1: "stream_step demo_session demo_chan ?ch1"
    using stream_step.server_send [of 0 demo_chan "[104, 105]" 0 True m n demo_session] s mi by (simp add: demo_chan_def)
  have "\<exists>c n2. tcp_recv demo_cli 64 0 ((demo_net 0x0A000202)\<lparr>inbox := [demo_frame], now := 0\<rparr>) = (RecvData [104, 105], c, n2)"
    by (simp add: tcp_recv_def recv_loop.simps [of 64 _ 0 0] recv_step_def tcp_poll_peer_def tcp_receive_def ax_net_recv_def
        demo_net_def demo_frame_simps from_peer_def demo_cli_def recv_segment_def Let_def)
  then obtain c n2 where r: "tcp_recv demo_cli 64 0 ((demo_net 0x0A000202)\<lparr>inbox := [demo_frame], now := 0\<rparr>) = (RecvData [104, 105], c, n2)"
    by blast
  let ?ch2 = "?ch1\<lparr>cli := c, cli_net := n2, delivered := [104, 105]\<rparr>"
  have "to_client demo_session ?ch1 demo_frame" using s(2) by (simp add: to_client_def demo_session_def demo_frame_simps)
  then have 2: "stream_step demo_session ?ch1 ?ch2"
    using stream_step.client_recv [of "[demo_frame]" demo_session ?ch1 64 0 0 "RecvData [104, 105]" c n2] r
    by (simp add: got_def demo_chan_def)
  have "(stream_step demo_session)\<^sup>*\<^sup>* demo_chan ?ch2" using 1 2 by (meson converse_rtranclp_into_rtranclp rtranclp.rtrancl_refl)
  then show ?thesis by (intro exI [of _ ?ch2]) simp
qed

text \<open>C3. The byte stream is reliable: whatever the network loses, repeats, reorders or adds from strangers,
  and however the calls of the two programs interleave, the bytes the client got from \<^verbatim>\<open>tcp_recv\<close> are a
  prefix of those the server gave to \<^verbatim>\<open>tcp_mux_send\<close>; while the slot is ESTABLISHED its queue holds
  everything the client has not acknowledged; and the client sees the end of the stream only when it has
  all of it. The abstract view is a stream with a writer and a reader position.\<close>

theorem stream_reliable:
  assumes "established p ch0" "(stream_step p)\<^sup>*\<^sup>* ch0 ch"
  shows "prefix (delivered ch) (accepted ch) \<and>
    (live p (the_slot p ch) \<longrightarrow>
       (\<exists>a \<le> length (delivered ch). outbuf (the_slot p ch) = drop a (accepted ch))) \<and>
    (mine p (the_slot p ch) \<and> state (the_slot p ch) = TCP_SLOT_CLOSING \<or> peer_closed (cli ch) \<longrightarrow>
       delivered ch = accepted ch)"
proof -
  have i: "stream_inv p ch"
    using assms(2) by (induction) (use established_inv [OF assms(1)] stream_inv_step in blast)+
  let ?r = "length (delivered ch)"
  have d: "delivered ch = take ?r (accepted ch)" "peer_closed (cli ch) \<longrightarrow> ?r = length (accepted ch)"
    and t: "tracks p (accepted ch) ?r (the_slot p ch)"
    using i by (simp_all add: stream_inv_def Let_def minv_def the_slot_def)
  have "prefix (delivered ch) (accepted ch)" by (subst d(1)) (rule take_is_prefix)
  moreover have "delivered ch = accepted ch" if "?r = length (accepted ch)" using d(1) that by simp
  ultimately show ?thesis using t d(2) by (auto simp: tracks_def live_def)
qed

theorem stream_reliable_witness:
  "\<exists>ch. accepted ch = [104, 105] \<and> delivered ch \<noteq> [] \<and> prefix (delivered ch) (accepted ch) \<and>
     (live demo_session (the_slot demo_session ch) \<longrightarrow>
        (\<exists>a \<le> length (delivered ch). outbuf (the_slot demo_session ch) = drop a (accepted ch)))"
proof -
  obtain ch where ch: "(stream_step demo_session)\<^sup>*\<^sup>* demo_chan ch" "accepted ch = [104, 105]" "delivered ch = [104, 105]"
    using demo_stream_steps by blast
  show ?thesis using stream_reliable [OF demo_established ch(1)] ch(2,3) by (intro exI [of _ ch]) simp
qed

end
