(* ===== verification/TcpProps.thy ===== *)
theory TcpProps
  imports TcpStreamProps
begin

section \<open>Handshake, lost acknowledgements, short reads, idle clients\<close>

text \<open>
  The handshake leads to the state from which the stream is reliable; then three behaviours of the
  code that a user of the library has to know: what a lost acknowledgement does, what a read into a
  buffer shorter than the segment does, and what clients do that stay silent.
\<close>

subsection \<open>Reading a frame that a peer built\<close>

lemma frame_type:
  assumes "tcp_parse_segment rx k = Some seg"
  shows "rx ! 13 = 0" "arp_maybe_respond rx k n = (False, n)"
  using assms by (auto simp: tcp_parse_segment_def arp_maybe_respond_def split: if_splits)

lemma frame_source:
  "macs_ok c \<Longrightarrow> take 6 (drop 6 (tcp_frame ip c fl d @ rest)) = my_mac c"
  by (simp add: tcp_frame_def eth_header_def macs_ok_def)

lemma receive_frame:
  assumes "macs_known n" "inbox n = tcp_frame ip c fl d # fs" "macs_ok c" "length d \<le> 512"
  shows "tcp_receive n = (54 + length d,
      n\<lparr>inbox := fs, tcp_rx := tcp_frame ip c fl d @ drop (54 + length d) (tcp_rx n)\<rparr>)"
  using assms length_tcp_frame [of c ip fl d]
  by (simp add: tcp_receive_def ax_net_recv_def Let_def macs_known_def macs_ok_def)

lemma poll_peer_frame:
  assumes "macs_known n" "inbox n = tcp_frame ip cc fl d # fs" "macs_ok cc" "length d \<le> 512"
    and "ip = remote_ip c" "local_port cc = remote_port c" "remote_port cc = local_port c"
  shows "tcp_poll_peer c n =
    (Some \<lparr>seg_src_ip = ip, seg_src_port = local_port cc, seg_dst_port = remote_port cc, seg_seq = snd_nxt cc,
       seg_ack = rcv_nxt cc, seg_flags = fl, seg_data = d\<rparr>,
     n\<lparr>inbox := fs, tcp_rx := tcp_frame ip cc fl d @ drop (54 + length d) (tcp_rx n)\<rparr>)"
  using receive_frame [OF assms(1-4)] assms tcp_parse_frame [of cc d ip fl]
  by (simp add: tcp_poll_peer_def from_peer_def macs_ok_def)

lemma mux_poll_frame:
  assumes "macs_known n" "inbox n = tcp_frame ip c fl d # fs" "macs_ok c" "length d \<le> 512"
    and "sweep (now n) (tcp_slots m) n = (tcp_slots m, n)" "remote_port c = tcp_mux_local_port m"
  shows "tcp_mux_poll m n =
    mux_input \<lparr>seg_src_ip = ip, seg_src_port = local_port c, seg_dst_port = remote_port c, seg_seq = snd_nxt c,
       seg_ack = rcv_nxt c, seg_flags = fl, seg_data = d\<rparr> (now n) m
      (n\<lparr>inbox := fs, tcp_rx := tcp_frame ip c fl d @ drop (54 + length d) (tcp_rx n)\<rparr>)"
proof -
  let ?rx = "tcp_frame ip c fl d @ drop (54 + length d) (tcp_rx n)"
  have p: "tcp_parse_segment ?rx (54 + length d) = Some \<lparr>seg_src_ip = ip, seg_src_port = local_port c,
      seg_dst_port = remote_port c, seg_seq = snd_nxt c, seg_ack = rcv_nxt c, seg_flags = fl, seg_data = d\<rparr>"
    by (rule tcp_parse_frame) (use assms(3,4) in \<open>simp_all add: macs_ok_def\<close>)
  show ?thesis
    using frame_type(2) [OF p] p assms(5,6) receive_frame [OF assms(1-4)] by (simp add: tcp_mux_poll_def)
qed

lemma sweep_still:
  "\<forall>s\<in>set ss. state s = TCP_SLOT_FREE \<or> state s = TCP_SLOT_SYN_RCVD \<and> \<not> deadline s \<le> nw \<or>
     state s = TCP_SLOT_ESTABLISHED \<and> out_inflight s = 0 \<Longrightarrow> sweep nw ss n = (ss, n)"
  by (induction ss) (auto simp: slot_timers_def)

lemma rand_keeps: "net_rand32 n = (r, n') \<Longrightarrow> n' = n\<lparr>net_rand_state := net_rand_state n'\<rparr>"
  by (auto simp: net_rand32_def Let_def)

subsection \<open>The handshake\<close>

lemma flags_syn [simp]:
  "TCP_FLAG_SYN \<noteq> 0" "TCP_FLAG_ACK \<noteq> 0" "TCP_FLAG_SYN AND TCP_FLAG_ACK = 0" 
  "(TCP_FLAG_SYN OR TCP_FLAG_ACK) AND TCP_FLAG_SYN \<noteq> 0" "(TCP_FLAG_SYN OR TCP_FLAG_ACK) AND TCP_FLAG_ACK \<noteq> 0"
  "(TCP_FLAG_PSH OR TCP_FLAG_ACK) AND TCP_FLAG_ACK \<noteq> 0"
  by (simp_all add: tcp_flag_defs)

definition fresh_slot :: "tcp_slot \<Rightarrow> bool" where
  "fresh_slot s \<longleftrightarrow>
     state s = TCP_SLOT_FREE \<and> out_acked s = 0 \<and> out_inflight s \<le> length (outbuf s) \<and>
     length (outbuf s) \<le> TCP_MUX_OUT_BUF_SIZE \<and> length (reqbuf s) \<le> REQ_BUF_SIZE"

lemma fresh_ok: "fresh_slot s \<Longrightarrow> mslot_ok p s \<and> \<not> mine p s"
  by (simp add: fresh_slot_def mslot_ok_def mine_def)

text \<open>A SYN at a server all of whose slots are free: the first slot answers.\<close>

lemma syn_received:
  assumes m: "length (tcp_slots m) = TCP_MAX_CONNS" "\<forall>s\<in>set (tcp_slots m). fresh_slot s"
    and n: "macs_known n" "nic_mac n = Some mac" "\<forall>f. nic_ok n f"
    and c: "macs_ok c" "remote_port c = tcp_mux_local_port m"
    and i: "inbox n = [tcp_frame ip c TCP_FLAG_SYN []]"
  obtains isn cs m1 n1 where "tcp_mux_poll m n = (None, m1, n1)"
    and "m1 = m\<lparr>tcp_slots := (tcp_slots m)[0 := (tcp_slots m ! 0)\<lparr>conn := cs, reqbuf := [], outbuf := [], out_acked := 0,
           out_inflight := 0, out_retries := 0, close_after := False, state := TCP_SLOT_SYN_RCVD, deadline := now n + 300\<rparr>]\<rparr>"
    and "cs = \<lparr>remote_ip = ip, remote_port = local_port c, local_port = tcp_mux_local_port m, remote_mac = my_mac c,
           my_mac = mac, snd_nxt = isn, rcv_nxt = snd_nxt c + 1, connected = False, peer_closed = False\<rparr>"
    and "sent n1 = sent n @ [tcp_frame (g_my_ip n) cs (TCP_FLAG_SYN OR TCP_FLAG_ACK) []]"
    and "macs_known n1" "g_my_ip n1 = g_my_ip n" "nic_ok n1 = nic_ok n"
proof -
  let ?seg = "\<lparr>seg_src_ip = ip, seg_src_port = local_port c, seg_dst_port = remote_port c, seg_seq = snd_nxt c,
       seg_ack = rcv_nxt c, seg_flags = TCP_FLAG_SYN, seg_data = []\<rparr>"
  have sw: "sweep (now n) (tcp_slots m) n = (tcp_slots m, n)"
    by (rule sweep_still) (use m(2) in \<open>auto simp: fresh_slot_def\<close>)
  define rx where "rx = tcp_frame ip c TCP_FLAG_SYN [] @ drop 54 (tcp_rx n)"
  let ?n1 = "n\<lparr>inbox := [], tcp_rx := rx\<rparr>"
  have p: "tcp_mux_poll m n = mux_input ?seg (now n) m ?n1"
    using mux_poll_frame [OF n(1) i c(1) _ sw c(2)] by (simp add: rx_def)
  have rx: "take 6 (drop 6 rx) = my_mac c" "length rx = 1500"
    unfolding rx_def using frame_source [OF c(1)] length_tcp_frame [of c ip TCP_FLAG_SYN "[]"] c(1) n(1)
    by (simp_all only: macs_ok_def macs_known_def length_append length_drop list.size)
  have fr: "state (tcp_slots m ! j) = TCP_SLOT_FREE" if "j < TCP_MAX_CONNS" for j
    using m that by (auto simp: fresh_slot_def)
  have f1: "tcp_mux_find ip (local_port c) m = None"
    using fr by (auto simp: tcp_mux_find_def find_None_iff Let_def)
  have "[0..<TCP_MAX_CONNS] = 0 # [1..<TCP_MAX_CONNS]" by (simp add: upt_rec)
  then have f2: "tcp_mux_find_free m = Some 0" using fr [of 0] by (simp add: tcp_mux_find_free_def)
  obtain isn n2 where r: "net_rand32 ?n1 = (isn, n2)" by fastforce
  note n2 = rand_keeps [OF r]
  let ?cs = "\<lparr>remote_ip = ip, remote_port = local_port c, local_port = tcp_mux_local_port m, remote_mac = my_mac c,
           my_mac = mac, snd_nxt = isn, rcv_nxt = snd_nxt c + 1, connected = False, peer_closed = False\<rparr>"
  have cs: "(conn (tcp_slots m ! 0))\<lparr>my_mac := mac, remote_mac := my_mac c, remote_ip := ip,
      remote_port := local_port c, local_port := tcp_mux_local_port m, rcv_nxt := snd_nxt c + 1, snd_nxt := isn,
      connected := False, peer_closed := False\<rparr> = ?cs"
    by (rule tcp_conn.equality) simp_all
  let ?m1 = "m\<lparr>tcp_slots := (tcp_slots m)[0 := (tcp_slots m ! 0)\<lparr>conn := ?cs, reqbuf := [], outbuf := [], out_acked := 0,
           out_inflight := 0, out_retries := 0, close_after := False, state := TCP_SLOT_SYN_RCVD, deadline := now n + 300\<rparr>]\<rparr>"
  let ?n3 = "tcp_send_segment ?cs (TCP_FLAG_SYN OR TCP_FLAG_ACK) [] n2"
  have 1: "tcp_mux_poll m n = (None, ?m1, ?n3)"
    unfolding p by (simp add: mux_input_def mux_new_client_def has_flag_def Let_def f1 f2 r n(2) rx(1) cs)
  have 2: "sent ?n3 = sent n @ [tcp_frame (g_my_ip n) ?cs (TCP_FLAG_SYN OR TCP_FLAG_ACK) []]" "nic_ok ?n3 = nic_ok n"
    "g_my_ip ?n3 = g_my_ip n"
    by (subst n2, use n(3) in \<open>simp add: tcp_send_segment_def ax_net_send_def\<close>)+
  have 3: "macs_known ?n3"
    using n(1) rx(2) by (subst n2) (simp add: tcp_send_segment_def ax_net_send_def macs_known_def)
  show ?thesis by (rule that [OF 1 refl refl 2(1) 3 2(3,2)])
qed

text \<open>The SYN+ACK at the client, whose answer completes the handshake.\<close>

lemma syn_ack_received:
  assumes n: "macs_known n" "\<forall>f. nic_ok n f" and c: "macs_ok cs" "inbox n = [tcp_frame ip cs (TCP_FLAG_SYN OR TCP_FLAG_ACK) []]"
    and a: "ip = remote_ip c" "local_port cs = remote_port c" "remote_port cs = local_port c"
  obtains c1 n1 where "connect_step isn c n = (Some (c1\<lparr>connected := True\<rparr>), n1)"
    and "c1 = c\<lparr>rcv_nxt := snd_nxt cs + 1, snd_nxt := isn + 1\<rparr>"
    and "sent n1 = sent n @ [tcp_frame (g_my_ip n) c1 TCP_FLAG_ACK []]" "macs_known n1" "g_my_ip n1 = g_my_ip n"
proof -
  define rx where "rx = tcp_frame ip cs (TCP_FLAG_SYN OR TCP_FLAG_ACK) [] @ drop 54 (tcp_rx n)"
  have rx: "length rx = 1500"
    unfolding rx_def using length_tcp_frame [of cs ip "TCP_FLAG_SYN OR TCP_FLAG_ACK" "[]"] c(1) n(1)
    by (simp only: macs_ok_def macs_known_def length_append length_drop list.size)
  let ?c1 = "c\<lparr>rcv_nxt := snd_nxt cs + 1, snd_nxt := isn + 1\<rparr>"
  let ?n1 = "tcp_send_segment ?c1 TCP_FLAG_ACK [] (n\<lparr>inbox := [], tcp_rx := rx\<rparr>)"
  have "connect_step isn c n = (Some (?c1\<lparr>connected := True\<rparr>), ?n1)"
    using poll_peer_frame [OF n(1) c(2,1) _ a] by (simp add: connect_step_def has_flag_def Let_def rx_def)
  moreover have "sent ?n1 = sent n @ [tcp_frame (g_my_ip n) ?c1 TCP_FLAG_ACK []]" "g_my_ip ?n1 = g_my_ip n" "macs_known ?n1"
    using n rx by (simp_all add: tcp_send_segment_def ax_net_send_def macs_known_def)
  ultimately show ?thesis using that by blast
qed

text \<open>The client's ACK at the server: the slot is established.\<close>

lemma ack_received:
  assumes n: "macs_known n" "inbox n = [tcp_frame ip c TCP_FLAG_ACK []]"
    and c: "macs_ok c" "remote_port c = tcp_mux_local_port m" "rcv_nxt c = snd_nxt (conn s) + 1"
    and s: "tcp_slots m = s # ss" "length (tcp_slots m) = TCP_MAX_CONNS" "state s = TCP_SLOT_SYN_RCVD" "\<not> deadline s \<le> now n"
      "\<forall>s\<in>set ss. state s = TCP_SLOT_FREE" "remote_ip (conn s) = ip" "remote_port (conn s) = local_port c"
  obtains n1 where "tcp_mux_poll m n = (None, m\<lparr>tcp_slots := s\<lparr>conn := (conn s)\<lparr>snd_nxt := snd_nxt (conn s) + 1, connected := True\<rparr>,
      state := TCP_SLOT_ESTABLISHED\<rparr> # ss\<rparr>, n1)" "macs_known n1" "g_my_ip n1 = g_my_ip n"
proof -
  define rx where "rx = tcp_frame ip c TCP_FLAG_ACK [] @ drop 54 (tcp_rx n)"
  have rx: "length rx = 1500"
    unfolding rx_def using length_tcp_frame [of c ip TCP_FLAG_ACK "[]"] c(1) n(1)
    by (simp only: macs_ok_def macs_known_def length_append length_drop list.size)
  let ?n1 = "n\<lparr>inbox := [], tcp_rx := rx\<rparr>"
  have sw: "sweep (now n) (tcp_slots m) n = (tcp_slots m, n)"
    by (rule sweep_still) (use s in auto)
  have "[0..<TCP_MAX_CONNS] = 0 # [1..<TCP_MAX_CONNS]" by (simp add: upt_rec)
  then have f: "tcp_mux_find ip (local_port c) m = Some 0" using s by (simp add: tcp_mux_find_def Let_def)
  have "tcp_mux_poll m n = (None, m\<lparr>tcp_slots := s\<lparr>conn := (conn s)\<lparr>snd_nxt := snd_nxt (conn s) + 1, connected := True\<rparr>,
      state := TCP_SLOT_ESTABLISHED\<rparr> # ss\<rparr>, ?n1)"
    using mux_poll_frame [OF n c(1) _ sw c(2)] f s(1,3) c(3)
    by (simp add: mux_input_def mux_slot_input_def mux_syn_rcvd_def has_flag_def Let_def rx_def)
  moreover have "macs_known ?n1" using n(1) rx by (simp add: macs_known_def)
  ultimately show ?thesis using that by simp
qed

text \<open>C11. The three messages of a handshake, delivered in time, leave both sides in step: the slot is
  ESTABLISHED, the client expects exactly the sequence number the slot sends next, and the state is one
  from which the byte stream is reliable.\<close>

theorem handshake_establishes:
  assumes m: "length (tcp_slots m) = TCP_MAX_CONNS" "\<forall>s\<in>set (tcp_slots m). fresh_slot s"
    and sn: "macs_known sn" "nic_mac sn = Some mac" "\<forall>f. nic_ok sn f" and cn: "macs_known cn" "\<forall>f. nic_ok cn f"
    and c: "macs_ok c" "remote_ip c = g_my_ip sn" "remote_port c = tcp_mux_local_port m" "\<not> peer_closed c"
    and s1: "tcp_mux_poll m (sn\<lparr>inbox := [tcp_frame (g_my_ip cn) c TCP_FLAG_SYN []]\<rparr>) = (r1, m1, sn1)"
    and s2: "connect_step (snd_nxt c) c (cn\<lparr>inbox := [last (sent sn1)]\<rparr>) = (r2, cn1)"
    and s3: "tcp_mux_poll m1 (sn1\<lparr>inbox := [last (sent cn1)], now := t\<rparr>) = (r3, m2, sn2)" "\<not> now sn + 300 \<le> t"
  shows "\<exists>p c2. r2 = Some c2 \<and> connected c2 \<and> cl_ip p = g_my_ip cn \<and> cl_port p = local_port c \<and>
    established p \<lparr>srv = m2, srv_net = sn2\<lparr>sent := []\<rparr>, cli = c2, cli_net = cn1\<lparr>sent := []\<rparr>, accepted = [], delivered = []\<rparr>"
proof -
  let ?sn0 = "sn\<lparr>inbox := [tcp_frame (g_my_ip cn) c TCP_FLAG_SYN []]\<rparr>"
  have k0: "macs_known ?sn0" "macs_known (cn\<lparr>inbox := x\<rparr>)" for x using sn(1) cn(1) by (simp_all add: macs_known_def)
  obtain isn cs where 1: "m1 = m\<lparr>tcp_slots := (tcp_slots m)[0 := (tcp_slots m ! 0)\<lparr>conn := cs, reqbuf := [], outbuf := [], out_acked := 0,
           out_inflight := 0, out_retries := 0, close_after := False, state := TCP_SLOT_SYN_RCVD, deadline := now sn + 300\<rparr>]\<rparr>"
    and cs: "cs = \<lparr>remote_ip = g_my_ip cn, remote_port = local_port c, local_port = tcp_mux_local_port m, remote_mac = my_mac c,
           my_mac = mac, snd_nxt = isn, rcv_nxt = snd_nxt c + 1, connected = False, peer_closed = False\<rparr>"
    and n1: "sent sn1 = sent sn @ [tcp_frame (g_my_ip sn) cs (TCP_FLAG_SYN OR TCP_FLAG_ACK) []]" "macs_known sn1" "g_my_ip sn1 = g_my_ip sn"
  proof (rule syn_received [OF m k0(1) _ _ c(1,3), of mac "g_my_ip cn"])
    show "nic_mac ?sn0 = Some mac" "\<forall>f. nic_ok ?sn0 f" "inbox ?sn0 = [tcp_frame (g_my_ip cn) c TCP_FLAG_SYN []]" using sn by simp_all
  qed (use s1 that in auto)
  have mac: "length mac = 6" using sn(1,2) by (simp add: macs_known_def)
  have ok: "macs_ok cs" using c(1) mac by (simp add: cs macs_ok_def)
  obtain c1 where 2: "r2 = Some (c1\<lparr>connected := True\<rparr>)" "c1 = c\<lparr>rcv_nxt := isn + 1, snd_nxt := snd_nxt c + 1\<rparr>"
    "sent cn1 = sent cn @ [tcp_frame (g_my_ip cn) c1 TCP_FLAG_ACK []]" "macs_known cn1" "g_my_ip cn1 = g_my_ip cn"
    by (rule syn_ack_received [OF k0(2) _ ok _ c(2) [symmetric], of "[last (sent sn1)]" "snd_nxt c"])
      (use s2 n1(1) cn(2) cs c(3) in auto)
  obtain s ss where ss: "tcp_slots m = s # ss" using m(1) by (cases "tcp_slots m") auto
  let ?s1 = "s\<lparr>conn := cs, reqbuf := [], outbuf := [], out_acked := 0,
      out_inflight := 0, out_retries := 0, close_after := False, state := TCP_SLOT_SYN_RCVD, deadline := now sn + 300\<rparr>"
  have m1: "m1 = m\<lparr>tcp_slots := ?s1 # ss\<rparr>" using 1 ss by simp
  have k1: "macs_known (sn1\<lparr>inbox := [last (sent cn1)], now := t\<rparr>)" using n1(2) by (simp add: macs_known_def)
  have ok1: "macs_ok c1" using c(1) by (simp add: 2(2) macs_ok_def)
  have 3: "m2 = m\<lparr>tcp_slots := ?s1\<lparr>conn := cs\<lparr>snd_nxt := isn + 1, connected := True\<rparr>, state := TCP_SLOT_ESTABLISHED\<rparr> # ss\<rparr>"
    "macs_known sn2" "g_my_ip sn2 = g_my_ip sn"
    using ack_received [OF k1 _ ok1, of "g_my_ip cn" m1 ?s1 ss] s3 m c(3) 2(2,3) n1(3) ss cs m1
    by (auto simp: fresh_slot_def)
  let ?p = "\<lparr>cl_ip = g_my_ip cn, cl_port = local_port c, sv_ip = g_my_ip sn, sv_port = tcp_mux_local_port m, slot_no = 0, start_seq = isn + 1\<rparr>"
  have fs: "\<forall>s\<in>set ss. mslot_ok ?p s \<and> \<not> mine ?p s" using m(2) fresh_ok by (simp add: ss)
  have l: "length ss = 3" using m(1) ss by simp
  have "established ?p \<lparr>srv = m2, srv_net = sn2\<lparr>sent := []\<rparr>, cli = c1\<lparr>connected := True\<rparr>, cli_net = cn1\<lparr>sent := []\<rparr>, accepted = [], delivered = []\<rparr>"
    using fs l ok ok1 3 2 n1 c cs
    by (auto simp: established_def the_slot_def nth_Cons mslot_ok_def mine_def macs_ok_def macs_known_def cli_at_def split: nat.splits)
  then show ?thesis using 2(1) by (intro exI [of _ ?p] exI [of _ "c1\<lparr>connected := True\<rparr>"]) simp
qed

theorem handshake_establishes_witness:
  "\<exists>p ch. established p ch \<and> cl_ip p = 0x0A000202 \<and> cl_port p = 40000 \<and> connected (cli ch)"
proof -
  let ?m = "demo_mux\<lparr>tcp_slots := replicate 4 (demo_slot TCP_SLOT_FREE)\<rparr>"
  let ?sn = "(demo_net 0x0A000201)\<lparr>nic_mac := Some (replicate 6 1)\<rparr>" and ?cn = "demo_net 0x0A000202"
  let ?c = "demo_cli\<lparr>connected := False\<rparr>"
  obtain r1 m1 sn1 where 1: "tcp_mux_poll ?m (?sn\<lparr>inbox := [tcp_frame (g_my_ip ?cn) ?c TCP_FLAG_SYN []]\<rparr>) = (r1, m1, sn1)"
    by (metis prod_cases3)
  obtain r2 cn1 where 2: "connect_step (snd_nxt ?c) ?c (?cn\<lparr>inbox := [last (sent sn1)]\<rparr>) = (r2, cn1)" by fastforce
  obtain r3 m2 sn2 where 3: "tcp_mux_poll m1 (sn1\<lparr>inbox := [last (sent cn1)], now := 10\<rparr>) = (r3, m2, sn2)"
    by (metis prod_cases3)
  have h: "length (tcp_slots ?m) = TCP_MAX_CONNS" "\<forall>s\<in>set (tcp_slots ?m). fresh_slot s" "macs_known ?sn" "macs_known ?cn"
    "nic_mac ?sn = Some (replicate 6 1)" "\<forall>f. nic_ok ?sn f" "\<forall>f. nic_ok ?cn f" "macs_ok ?c" "remote_ip ?c = g_my_ip ?sn"
    "remote_port ?c = tcp_mux_local_port ?m" "\<not> peer_closed ?c" "\<not> now ?sn + 300 \<le> 10"
    by (simp_all add: demo_mux_def demo_slot_def demo_net_def demo_cli_def fresh_slot_def macs_known_def macs_ok_def)
  have "\<exists>p c2. r2 = Some c2 \<and> connected c2 \<and> cl_ip p = g_my_ip ?cn \<and> cl_port p = local_port ?c \<and>
      established p \<lparr>srv = m2, srv_net = sn2\<lparr>sent := []\<rparr>, cli = c2, cli_net = cn1\<lparr>sent := []\<rparr>, accepted = [], delivered = []\<rparr>"
    by (rule handshake_establishes [OF h(1,2,3,5,6,4,7-11) 1 2 3 h(12)])
  then obtain p c2 where "connected c2" "cl_ip p = g_my_ip ?cn" "cl_port p = local_port ?c"
    "established p \<lparr>srv = m2, srv_net = sn2\<lparr>sent := []\<rparr>, cli = c2, cli_net = cn1\<lparr>sent := []\<rparr>, accepted = [], delivered = []\<rparr>"
    by blast
  then show ?thesis by (intro exI conjI) (auto simp: demo_net_def demo_cli_def)
qed

subsection \<open>A lost acknowledgement\<close>

text \<open>\<open>quiet n n'\<close>: between the two nothing was sent.\<close>

definition quiet :: "net \<Rightarrow> net \<Rightarrow> bool" where
  "quiet n n' \<longleftrightarrow> sent n' = sent n \<and> g_my_ip n' = g_my_ip n \<and> nic_ok n' = nic_ok n \<and> (macs_known n \<longrightarrow> macs_known n') \<and>
     set (inbox n') \<subseteq> set (inbox n)"

lemma quiet_refl: "quiet n n" and quiet_trans: "quiet n n1 \<Longrightarrow> quiet n1 n2 \<Longrightarrow> quiet n n2"
  by (auto simp: quiet_def)

lemma quiet_sleep: "quiet n (ax_sleep_ms k n)"
  by (simp add: quiet_def ax_sleep_ms_def macs_known_def)

lemma quiet_receive: "tcp_receive n = (k, n') \<Longrightarrow> quiet n n'"
  by (auto simp: tcp_receive_def ax_net_recv_def quiet_def macs_known_def Let_def split: list.splits if_splits)

text \<open>Segments that do not start where the reader stands are dropped, without an acknowledgement.\<close>

definition all_stale :: "tcp_conn \<Rightarrow> net \<Rightarrow> bool" where
  "all_stale c n \<longleftrightarrow>
     (\<forall>f\<in>set (inbox n). \<forall>seg. tcp_parse_segment f (length f) = Some seg \<longrightarrow> from_peer c seg \<longrightarrow> seg_seq seg \<noteq> rcv_nxt c)"

lemma stale_step:
  assumes "macs_known n" "all_stale c n" "recv_step k c n = (res, n')"
  shows "res = None \<and> quiet n n'"
proof -
  obtain j n1 where 1: "tcp_receive n = (j, n1)" by fastforce
  have "seg_seq seg \<noteq> rcv_nxt c" if "0 < j" "tcp_parse_segment (tcp_rx n1) j = Some seg" "from_peer c seg" for seg
    using tcp_receive_spec(4) [OF assms(1) 1] that assms(2) unfolding all_stale_def by (metis less_numeral_extra(3))
  then show ?thesis
    using assms(3) quiet_receive [OF 1] by (auto simp: recv_step_def tcp_poll_peer_def 1 split: option.splits if_splits)
qed

lemma stale_loop:
  "recv_loop k c timeout w n = (x, c', n') \<Longrightarrow> macs_known n \<Longrightarrow> all_stale c n \<Longrightarrow> x = RecvTimeout \<and> c' = c \<and> quiet n n'"
proof (induction "timeout - w" arbitrary: w n rule: less_induct)
  case less
  obtain o1 n1 where 1: "recv_step k c n = (o1, n1)" by fastforce
  note st = stale_step [OF less.prems(2,3) 1]
  show ?case
  proof (cases "timeout \<le> w")
    case True
    then show ?thesis using less.prems(1) st by (simp add: recv_loop.simps [of k c timeout w] 1)
  next
    case False
    let ?n2 = "ax_sleep_ms 10 n1"
    have q: "quiet n ?n2" using st quiet_sleep quiet_trans by blast
    have "recv_loop k c timeout (w + 10) ?n2 = (x, c', n')" using less.prems(1) st False by (simp add: recv_loop.simps [of k c timeout w] 1)
    moreover have "macs_known ?n2" "all_stale c ?n2" using q less.prems(2,3) unfolding quiet_def all_stale_def by blast+
    ultimately have "x = RecvTimeout \<and> c' = c \<and> quiet ?n2 n'" by (intro less.hyps [of "w + 10"]) (use False in auto)
    then show ?thesis using q quiet_trans by blast
  qed
qed

lemma stale_recv:
  assumes "tcp_recv c k timeout n = (x, c', n')" "connected c" "\<not> peer_closed c" "macs_known n" "all_stale c n"
  shows "x = RecvTimeout \<and> c' = c \<and> sent n' = sent n"
  using stale_loop [of k c timeout 0 n x c' n'] assms by (simp add: tcp_recv_def quiet_def)

text \<open>A sender that hears nothing sends its segment six times and gives up.\<close>

lemma silent_ack_loop:
  assumes "poll_loop 10 (ack_step c e) rto 0 n = (res, w, n')" "inbox n = []"
  shows "res = None \<and> quiet n n'"
proof -
  have "case res of None \<Rightarrow> quiet n n' | Some x \<Rightarrow> False"
  proof (rule poll_loop_inv [where I = "quiet n" and R = "\<lambda>x s. False", OF _ _ _ assms(1)])
    show "case r of None \<Rightarrow> quiet n s' | Some x \<Rightarrow> False" if q: "quiet n s" and e: "ack_step c e s = (r, s')" for s r s'
    proof -
      obtain s1 where 1: "tcp_receive s = (0, s1)" "quiet s s1"
        using q assms(2) quiet_receive [of s 0] by (auto simp: quiet_def tcp_receive_def ax_net_recv_def)
      then show ?thesis using e quiet_trans [OF q] by (auto simp: ack_step_def tcp_poll_peer_def)
    qed
  qed (auto intro: quiet_refl quiet_sleep quiet_trans)
  then show ?thesis by (cases res) auto
qed

lemma silent_attempts:
  "send_attempts k c d e rto n = (ok, n') \<Longrightarrow> inbox n = [] \<Longrightarrow> \<forall>f. nic_ok n f \<Longrightarrow>
    \<not> ok \<and> sent n' = sent n @ replicate k (tcp_frame (g_my_ip n) c (TCP_FLAG_PSH OR TCP_FLAG_ACK) d)"
proof (induction k arbitrary: rto n)
  case (Suc k)
  let ?f = "tcp_frame (g_my_ip n) c (TCP_FLAG_PSH OR TCP_FLAG_ACK) d"
  let ?n1 = "tcp_send_segment c (TCP_FLAG_PSH OR TCP_FLAG_ACK) d n"
  obtain u w n2 where 1: "poll_loop 10 (ack_step c e) rto 0 ?n1 = (u, w, n2)" by (metis prod_cases3)
  have 2: "u = None" "quiet ?n1 n2" using silent_ack_loop [OF 1] Suc.prems(2) by simp_all
  have 3: "sent n2 = sent n @ [?f]" "inbox n2 = []" "\<forall>f. nic_ok n2 f" "g_my_ip n2 = g_my_ip n"
    using 2(2) Suc.prems(2,3) by (simp_all add: quiet_def tcp_send_segment_def ax_net_send_def)
  have "send_attempts k c d e (rto_next rto) n2 = (ok, n')" using Suc.prems(1) 2(1) by (simp add: 1)
  from Suc.IH [OF this 3(2,3)] show ?case using 3(1,4) by simp
qed simp

text \<open>One call that reads a segment of the peer.\<close>

lemma poll_peer_any:
  assumes "macs_known n" "inbox n = f # fs" "length f \<le> 1500" "tcp_parse_segment f (length f) = Some seg" "from_peer c seg"
  shows "tcp_poll_peer c n = (Some seg, n\<lparr>inbox := fs, tcp_rx := f @ drop (length f) (tcp_rx n)\<rparr>)"
proof -
  have "same (length f) (f @ drop (length f) (tcp_rx n)) f" by (simp add: same_def)
  then have "tcp_parse_segment (f @ drop (length f) (tcp_rx n)) (length f) = Some seg"
    using same_tcp_parse assms(4) by metis
  moreover have "f \<noteq> []" using assms(4) by (auto simp: tcp_parse_segment_def)
  ultimately show ?thesis
    using assms by (simp add: tcp_poll_peer_def tcp_receive_def ax_net_recv_def Let_def macs_known_def)
qed

lemma read_segment:
  assumes "macs_known n" "inbox n = f # fs" "length f \<le> 1500" "tcp_parse_segment f (length f) = Some seg" "from_peer c seg"
    and "seg_seq seg = rcv_nxt c" "take k (seg_data seg) \<noteq> []" "\<not> has_flag seg TCP_FLAG_FIN" "connected c" "\<not> peer_closed c"
    and "tcp_recv c k timeout n = (x, c', n')"
  shows "x = RecvData (take k (seg_data seg))"
    "c' = c\<lparr>rcv_nxt := rcv_nxt c + word_of_nat (length (take k (seg_data seg))), peer_closed := False\<rparr>"
    "macs_known n'" "inbox n' = fs"
proof -
  let ?n1 = "n\<lparr>inbox := fs, tcp_rx := f @ drop (length f) (tcp_rx n)\<rparr>"
  let ?c1 = "c\<lparr>rcv_nxt := rcv_nxt c + word_of_nat (length (take k (seg_data seg))), peer_closed := False\<rparr>"
  have "recv_step k c n = (Some (RecvData (take k (seg_data seg)), ?c1), tcp_send_segment ?c1 TCP_FLAG_ACK [] ?n1)"
    unfolding recv_step_def poll_peer_any [OF assms(1-5)] recv_segment_def Let_def using assms(6-8,10)
    by (simp del: take_eq_Nil)
  then have 1: "x = RecvData (take k (seg_data seg))" "c' = ?c1" "n' = tcp_send_segment ?c1 TCP_FLAG_ACK [] ?n1"
    using assms(9-11) by (auto simp: tcp_recv_def recv_loop.simps [of k c timeout 0])
  have "macs_known ?n1" using assms(1,3) by (simp add: macs_known_def)
  then show "x = RecvData (take k (seg_data seg))" "c' = ?c1" "macs_known n'" "inbox n' = fs"
    unfolding 1 by (simp_all add: tcp_send_segment_def ax_net_send_def macs_known_def)
qed

text \<open>The same frame again, after some of it was read: nothing happens.\<close>

lemma read_again:
  assumes "macs_known n" "set (inbox n) \<subseteq> {f}" "tcp_parse_segment f (length f) = Some seg" "seg_seq seg = r"
    and "connected c" "\<not> peer_closed c" "rcv_nxt c = r + word_of_nat j" "0 < j" "j < 2147483648"
    and "tcp_recv c k timeout n = (x, c', n')"
  shows "x = RecvTimeout \<and> c' = c \<and> sent n' = sent n"
proof (rule stale_recv [OF assms(10,5,6,1)])
  have "r + word_of_nat 0 = r + (word_of_nat j :: u32) \<longleftrightarrow> 0 = j" by (rule seq_eq) (use assms(9) in simp_all)
  then show "all_stale c n" using assms(2,3,4,7,8) by (auto simp: all_stale_def)
qed

text \<open>C34. One lost acknowledgement is fatal: when the data arrives and its ACK does not, \<^verbatim>\<open>tcp_send\<close> repeats the
  segment five times, the receiver drops every copy without acknowledging it again, and \<^verbatim>\<open>tcp_send\<close>
  fails although the data was delivered.\<close>

theorem lost_ack_fails_send:
  assumes s: "connected cs" "macs_ok cs" "d \<noteq> []" "length d \<le> 512" "inbox ns = []" "\<forall>f. nic_ok ns f"
    and r: "connected cr" "\<not> peer_closed cr" "macs_known nr" "remote_ip cr = g_my_ip ns" "remote_port cr = local_port cs"
      "local_port cr = remote_port cs" "rcv_nxt cr = snd_nxt cs"
    and e: "tcp_send cs d ns = (ok, cs', ns')"
      "tcp_recv cr 512 t (nr\<lparr>inbox := drop (length (sent ns)) (sent ns')\<rparr>) = (x, cr', nr')"
      "tcp_recv cr' 512 t' nr' = (y, cr'', nr'')"
  shows "\<not> ok \<and> cs' = cs \<and> x = RecvData d \<and> y = RecvTimeout \<and> sent nr'' = sent nr'"
proof -
  let ?f = "tcp_frame (g_my_ip ns) cs (TCP_FLAG_PSH OR TCP_FLAG_ACK) d"
  let ?seg = "\<lparr>seg_src_ip = g_my_ip ns, seg_src_port = local_port cs, seg_dst_port = remote_port cs, seg_seq = snd_nxt cs,
      seg_ack = rcv_nxt cs, seg_flags = TCP_FLAG_PSH OR TCP_FLAG_ACK, seg_data = d\<rparr>"
  obtain b n1 where 1: "send_attempts (TCP_MAX_RETRIES + 1) cs d (snd_nxt cs + word_of_nat (length d)) TCP_RTO_MS ns = (b, n1)"
    by fastforce
  have 2: "\<not> b" "sent n1 = sent ns @ replicate 6 ?f" using silent_attempts [OF 1 s(5,6)] by simp_all
  then have snd: "\<not> ok" "cs' = cs" "drop (length (sent ns)) (sent ns') = ?f # replicate 5 ?f"
    using e(1) 1 s(1,4) by (auto simp: tcp_send_def numeral_eq_Suc)
  have p: "tcp_parse_segment ?f (length ?f) = Some ?seg" by (rule parse_frame [OF s(2,4)])
  have l: "length ?f \<le> 1500" using length_tcp_frame [of cs "g_my_ip ns" "TCP_FLAG_PSH OR TCP_FLAG_ACK" d] s(2,4) by (simp add: macs_ok_def)
  have k: "macs_known (nr\<lparr>inbox := ?f # replicate 5 ?f\<rparr>)" using r(3) by (simp add: macs_known_def)
  have fp: "from_peer cr ?seg" using r by (simp add: from_peer_def)
  have rd: "x = RecvData (take 512 (seg_data ?seg))"
    "cr' = cr\<lparr>rcv_nxt := rcv_nxt cr + word_of_nat (length (take 512 (seg_data ?seg))), peer_closed := False\<rparr>"
    "macs_known nr'" "inbox nr' = replicate 5 ?f"
    by (rule read_segment [OF k _ l p fp _ _ _ r(1,2) e(2) [unfolded snd(3)]]; use r s in \<open>simp add: has_flag_def\<close>)+
  have "y = RecvTimeout \<and> cr'' = cr' \<and> sent nr'' = sent nr'"
  proof (rule read_again [OF rd(3) _ p refl _ _ _ _ _ e(3), of "length d"])
    show "set (inbox nr') \<subseteq> {?f}" "rcv_nxt cr' = seg_seq ?seg + word_of_nat (length d)" "connected cr'" "\<not> peer_closed cr'"
      using rd(2,4) r(1,7) s(4) by simp_all
  qed (use s(3,4) in auto)
  then show ?thesis using snd rd(1) s(4) by simp
qed

theorem lost_ack_fails_send_witness:
  "\<exists>cs' ns' cr' nr' cr'' nr''.
     tcp_send (conn (demo_slot TCP_SLOT_ESTABLISHED)) [104, 105] (demo_net 0x0A000201) = (False, cs', ns') \<and>
     tcp_recv demo_cli 512 100 ((demo_net 0x0A000202)\<lparr>inbox := sent ns'\<rparr>) = (RecvData [104, 105], cr', nr') \<and>
     tcp_recv cr' 512 5000 nr' = (RecvTimeout, cr'', nr'') \<and> sent nr'' = sent nr'"
proof -
  let ?cs = "conn (demo_slot TCP_SLOT_ESTABLISHED)" and ?ns = "demo_net 0x0A000201" and ?nr = "demo_net 0x0A000202"
  obtain ok cs' ns' where 1: "tcp_send ?cs [104, 105] ?ns = (ok, cs', ns')" by (metis prod_cases3)
  obtain x cr' nr' where 2: "tcp_recv demo_cli 512 100 (?nr\<lparr>inbox := drop (length (sent ?ns)) (sent ns')\<rparr>) = (x, cr', nr')"
    by (metis prod_cases3)
  obtain y cr'' nr'' where 3: "tcp_recv cr' 512 5000 nr' = (y, cr'', nr'')" by (metis prod_cases3)
  have "\<not> ok \<and> cs' = ?cs \<and> x = RecvData [104, 105] \<and> y = RecvTimeout \<and> sent nr'' = sent nr'"
    by (rule lost_ack_fails_send [OF _ _ _ _ _ _ _ _ _ _ _ _ _ 1 2 3])
      (simp_all add: demo_slot_def demo_net_def demo_cli_def macs_ok_def macs_known_def)
  moreover have "sent ?ns = []" by (simp add: demo_net_def)
  ultimately show ?thesis using 1 2 3 by auto
qed

text \<open>A read into a buffer shorter than the segment loses the rest: \<^verbatim>\<open>tcp_recv\<close> acknowledges the part it
  copied, this does not cover the segment for the sender, and every repetition of the segment is
  dropped silently, so neither side ever gets further (\<^verbatim>\<open>httpget\<close> reads 1024 bytes at a time, a frame
  carries up to 1446).\<close>

theorem short_read_loses_rest:
  assumes n: "macs_known n" "length f \<le> 1500" "tcp_parse_segment f (length f) = Some seg" "from_peer c seg"
    and c: "seg_seq seg = rcv_nxt c" "connected c" "\<not> peer_closed c" "\<not> has_flag seg TCP_FLAG_FIN"
    and k: "0 < k" "k < length (seg_data seg)"
    and e: "tcp_recv c k t (n\<lparr>inbox := [f]\<rparr>) = (x, c1, n1)" "tcp_recv c1 k' t' (n1\<lparr>inbox := replicate j f\<rparr>) = (y, c2, n2)"
  shows "x = RecvData (take k (seg_data seg)) \<and> y = RecvTimeout \<and> c2 = c1 \<and> sent n2 = sent n1 \<and>
    \<not> ack_covers (rcv_nxt c1) (seg_seq seg + word_of_nat (length (seg_data seg)))"
proof -
  have "length (seg_data seg) \<le> length f" using n(3) by (auto simp: tcp_parse_segment_def Let_def split: if_splits)
  then have b: "length (seg_data seg) < 2147483648" using n(2) by simp
  have m: "macs_known (n\<lparr>inbox := [f]\<rparr>)" using n(1) by (simp add: macs_known_def)
  have rd: "x = RecvData (take k (seg_data seg))"
    "c1 = c\<lparr>rcv_nxt := rcv_nxt c + word_of_nat (length (take k (seg_data seg))), peer_closed := False\<rparr>" "macs_known n1"
    by (rule read_segment [OF m _ n(2-4) c(1) _ c(4,2,3) e(1)]; use k in auto)+
  then have c1: "rcv_nxt c1 = seg_seq seg + word_of_nat k" "connected c1" "\<not> peer_closed c1" using k c by simp_all
  have "macs_known (n1\<lparr>inbox := replicate j f\<rparr>)" using rd(3) by (simp add: macs_known_def)
  then have "y = RecvTimeout \<and> c2 = c1 \<and> sent n2 = sent (n1\<lparr>inbox := replicate j f\<rparr>)"
    by (rule read_again [OF _ _ n(3) refl c1(2,3,1) k(1) _ e(2)]) (use k(2) b in auto)
  moreover have "\<not> ack_covers (rcv_nxt c1) (seg_seq seg + word_of_nat (length (seg_data seg)))"
    using seq_covers [of k "length (seg_data seg)" "seg_seq seg"] k(2) b c1(1) by auto
  ultimately show ?thesis using rd(1) by simp
qed

theorem short_read_loses_rest_witness:
  "\<exists>c1 n1 c2 n2. tcp_recv demo_cli 1 0 ((demo_net 0x0A000202)\<lparr>inbox := [demo_frame]\<rparr>) = (RecvData [104], c1, n1) \<and>
     tcp_recv c1 512 3000 (n1\<lparr>inbox := replicate 5 demo_frame\<rparr>) = (RecvTimeout, c2, n2)"
proof -
  let ?n = "demo_net 0x0A000202"
  obtain x c1 n1 where 1: "tcp_recv demo_cli 1 0 (?n\<lparr>inbox := [demo_frame]\<rparr>) = (x, c1, n1)" by (metis prod_cases3)
  obtain y c2 n2 where 2: "tcp_recv c1 512 3000 (n1\<lparr>inbox := replicate 5 demo_frame\<rparr>) = (y, c2, n2)" by (metis prod_cases3)
  let ?seg = "\<lparr>seg_src_ip = 0x0A000201, seg_src_port = 80, seg_dst_port = 40000, seg_seq = 0xFFFFFFFF, seg_ack = 7,
      seg_flags = TCP_FLAG_PSH OR TCP_FLAG_ACK, seg_data = [104, 105]\<rparr>"
  have p: "tcp_parse_segment demo_frame (length demo_frame) = Some ?seg"
    using demo_frame_simps(3) [of "[]"] by (simp add: demo_frame_simps(1))
  have "x = RecvData (take 1 (seg_data ?seg)) \<and> y = RecvTimeout \<and> c2 = c1 \<and> sent n2 = sent n1 \<and>
    \<not> ack_covers (rcv_nxt c1) (seg_seq ?seg + word_of_nat (length (seg_data ?seg)))"
    by (rule short_read_loses_rest [OF _ _ p _ _ _ _ _ _ _ 1 2])
      (simp_all add: demo_net_def demo_cli_def macs_known_def demo_frame_simps(1) from_peer_def has_flag_def)
  then show ?thesis using 1 2 by auto
qed

subsection \<open>Silent clients\<close>

text \<open>A client that completes the handshake and then stays silent keeps its slot for ever: with all
  four slots held by idle clients, a poll at any time later changes no slot, and the SYN of a new
  client gets no answer.\<close>

theorem silent_clients_block:
  assumes "length (tcp_slots m) = TCP_MAX_CONNS" "\<forall>s\<in>set (tcp_slots m). state s = TCP_SLOT_ESTABLISHED \<and> out_inflight s = 0"
    and "\<forall>s\<in>set (tcp_slots m). remote_ip (conn s) \<noteq> ip" "macs_known n" "macs_ok c" "remote_port c = tcp_mux_local_port m"
    and "inb = [] \<or> inb = [tcp_frame ip c TCP_FLAG_SYN []]"
    and "tcp_mux_poll m (n\<lparr>inbox := inb, now := t\<rparr>) = (r, m', n')"
  shows "r = None \<and> m' = m \<and> sent n' = sent n"
proof -
  let ?n = "n\<lparr>inbox := inb, now := t\<rparr>"
  have k: "macs_known ?n" using assms(4) by (simp add: macs_known_def)
  have sw: "sweep (now ?n) (tcp_slots m) ?n = (tcp_slots m, ?n)" by (rule sweep_still) (use assms(2) in auto)
  from assms(7) show ?thesis
  proof
    assume "inb = []"
    then show ?thesis using assms(8) sw by (auto simp: tcp_mux_poll_def tcp_receive_def ax_net_recv_def)
  next
    assume i: "inb = [tcp_frame ip c TCP_FLAG_SYN []]"
    have "tcp_slots m ! j \<in> set (tcp_slots m)" if "j < TCP_MAX_CONNS" for j using that assms(1) by simp
    then have f: "tcp_mux_find ip (local_port c) m = None" "tcp_mux_find_free m = None"
      using assms(2,3) by (auto simp: tcp_mux_find_def tcp_mux_find_free_def find_None_iff Let_def)
    show ?thesis
      using mux_poll_frame [OF k _ assms(5) _ sw assms(6), of ip TCP_FLAG_SYN "[]" "[]"] i assms(8) f
      by (auto simp: mux_input_def mux_new_client_def has_flag_def)
  qed
qed

theorem silent_clients_block_witness:
  "\<exists>n'. tcp_mux_poll (demo_mux\<lparr>tcp_slots := replicate 4 (demo_slot TCP_SLOT_ESTABLISHED)\<rparr>)
     ((demo_net 0x0A000201)\<lparr>inbox := [tcp_frame 0x0A000207 demo_cli TCP_FLAG_SYN []], now := 0x0FFFFFFF\<rparr>) =
     (None, demo_mux\<lparr>tcp_slots := replicate 4 (demo_slot TCP_SLOT_ESTABLISHED)\<rparr>, n') \<and> sent n' = []"
proof -
  let ?m = "demo_mux\<lparr>tcp_slots := replicate 4 (demo_slot TCP_SLOT_ESTABLISHED)\<rparr>"
  let ?i = "[tcp_frame 0x0A000207 demo_cli TCP_FLAG_SYN []]"
  obtain r m' n' where 1: "tcp_mux_poll ?m ((demo_net 0x0A000201)\<lparr>inbox := ?i, now := 0x0FFFFFFF\<rparr>) = (r, m', n')"
    by (metis prod_cases3)
  have "r = None \<and> m' = ?m \<and> sent n' = sent (demo_net 0x0A000201)"
    by (rule silent_clients_block [OF _ _ _ _ _ _ _ 1])
      (simp_all add: demo_mux_def demo_slot_def demo_net_def demo_cli_def macs_known_def macs_ok_def)
  then show ?thesis using 1 by (simp add: demo_net_def)
qed

end
