(* ===== verification/Pci.thy ===== *)
theory Pci
  imports AxPrelude
begin

section \<open>The PCI bus\<close>

text \<open>
  \<^verbatim>\<open>src/src/drivers/pci.c\<close>: access to the configuration space and the scan of the buses. The
  configuration space is a function from the address word (port 0xCF8) to the data (port 0xCFC). The scan
  enters the bus behind a bridge recursively; the first argument of \<open>scan_bus\<close> is the depth the
  stack of the kernel allows, and \<open>None\<close> that it is exhausted.
\<close>

record pci_device =
  pci_bus :: u8
  pci_dev :: u8
  pci_fn :: u8
  vendor_id :: u16
  device_id :: u16
  pci_class :: u8
  pci_subclass :: u8

type_synonym pci_space = "u32 \<Rightarrow> u32"

definition pci_address :: "u8 \<Rightarrow> u8 \<Rightarrow> u8 \<Rightarrow> u8 \<Rightarrow> u32" where
  "pci_address bus device function offset =
     0x80000000 OR push_bit 16 (ucast bus) OR push_bit 11 (ucast device) OR push_bit 8 (ucast function) OR
     (ucast offset AND 0xFC)"

definition pci_config_read32 :: "pci_space \<Rightarrow> u8 \<Rightarrow> u8 \<Rightarrow> u8 \<Rightarrow> u8 \<Rightarrow> u32" where
  "pci_config_read32 cfg bus device function offset = cfg (pci_address bus device function offset)"

text \<open>The port writes of a configuration write.\<close>

definition pci_config_write32 :: "u8 \<Rightarrow> u8 \<Rightarrow> u8 \<Rightarrow> u8 \<Rightarrow> u32 \<Rightarrow> (u16 \<times> u32) list" where
  "pci_config_write32 bus device function offset value =
     [(0xCF8, pci_address bus device function offset), (0xCFC, value)]"

definition pci_config_read16 :: "pci_space \<Rightarrow> u8 \<Rightarrow> u8 \<Rightarrow> u8 \<Rightarrow> u8 \<Rightarrow> u16" where
  "pci_config_read16 cfg bus device function offset =
     ucast (drop_bit (unat (offset AND 2) * 8) (pci_config_read32 cfg bus device function (offset AND 0xFC)))"

definition pci_config_read8 :: "pci_space \<Rightarrow> u8 \<Rightarrow> u8 \<Rightarrow> u8 \<Rightarrow> u8 \<Rightarrow> u8" where
  "pci_config_read8 cfg bus device function offset =
     ucast (drop_bit (unat (offset AND 3) * 8) (pci_config_read32 cfg bus device function (offset AND 0xFC)))"

subsection \<open>The scan\<close>

primrec fold_opt :: "('a \<Rightarrow> 's \<Rightarrow> 's option) \<Rightarrow> 'a list \<Rightarrow> 's \<Rightarrow> 's option" where
  "fold_opt f [] s = Some s"
| "fold_opt f (x # xs) s = (case f x s of None \<Rightarrow> None | Some s1 \<Rightarrow> fold_opt f xs s1)"

definition pci_entry :: "pci_space \<Rightarrow> u8 \<Rightarrow> u8 \<Rightarrow> u8 \<Rightarrow> pci_device" where
  "pci_entry cfg bus device function =
     \<lparr>pci_bus = bus, pci_dev = device, pci_fn = function,
      vendor_id = pci_config_read16 cfg bus device function 0x00, device_id = pci_config_read16 cfg bus device function 0x02,
      pci_class = pci_config_read8 cfg bus device function 0x0B, pci_subclass = pci_config_read8 cfg bus device function 0x0A\<rparr>"

text \<open>The state of the scan: the entries of \<^verbatim>\<open>out\<close> filled so far and \<^verbatim>\<open>*count\<close>, which goes on beyond \<open>lim\<close>.\<close>

type_synonym pci_out = "pci_device list \<times> nat"

definition scan_function ::
  "pci_space \<Rightarrow> (u8 \<Rightarrow> pci_out \<Rightarrow> pci_out option) \<Rightarrow> nat \<Rightarrow> u8 \<Rightarrow> u8 \<Rightarrow> u8 \<Rightarrow> pci_out \<Rightarrow> pci_out option" where
  "scan_function cfg scan lim bus device function s =
     (if pci_config_read16 cfg bus device function 0x00 = 0xFFFF then Some s
      else let d = pci_entry cfg bus device function;
               s1 = (if snd s < lim then fst s @ [d] else fst s, snd s + 1)
           in if pci_class d = 0x06 \<and> pci_subclass d = 0x04
              then scan (pci_config_read8 cfg bus device function 0x19) s1 else Some s1)"

definition scan_device ::
  "pci_space \<Rightarrow> (u8 \<Rightarrow> pci_out \<Rightarrow> pci_out option) \<Rightarrow> nat \<Rightarrow> u8 \<Rightarrow> u8 \<Rightarrow> pci_out \<Rightarrow> pci_out option" where
  "scan_device cfg scan lim bus device s =
     (if pci_config_read16 cfg bus device 0 0x00 = 0xFFFF then Some s
      else let max_function = (if pci_config_read8 cfg bus device 0 0x0E AND 0x80 \<noteq> 0 then 8 else 1)
           in fold_opt (\<lambda>function. scan_function cfg scan lim bus device (word_of_nat function)) [0..<max_function] s)"

primrec scan_bus :: "nat \<Rightarrow> pci_space \<Rightarrow> nat \<Rightarrow> u8 \<Rightarrow> pci_out \<Rightarrow> pci_out option" where
  "scan_bus 0 cfg lim bus s = None"
| "scan_bus (Suc depth) cfg lim bus s =
     fold_opt (\<lambda>device. scan_device cfg (scan_bus depth cfg lim) lim bus (word_of_nat device)) [0..<32] s"

definition pci_scan :: "nat \<Rightarrow> pci_space \<Rightarrow> nat \<Rightarrow> pci_out option" where
  "pci_scan depth cfg lim = scan_bus depth cfg lim 0 ([], 0)"

subsection \<open>What is on the bus\<close>

definition present :: "pci_space \<Rightarrow> u8 \<Rightarrow> nat \<Rightarrow> nat \<Rightarrow> bool" where
  "present cfg bus d f \<longleftrightarrow>
     d < 32 \<and> pci_config_read16 cfg bus (word_of_nat d) 0 0 \<noteq> 0xFFFF \<and> pci_config_read16 cfg bus (word_of_nat d) (word_of_nat f) 0 \<noteq> 0xFFFF \<and>
     (f = 0 \<or> f < 8 \<and> pci_config_read8 cfg bus (word_of_nat d) 0 0x0E AND 0x80 \<noteq> 0)"

definition bridge :: "pci_space \<Rightarrow> u8 \<Rightarrow> nat \<Rightarrow> nat \<Rightarrow> bool" where
  "bridge cfg bus d f \<longleftrightarrow>
     present cfg bus d f \<and> pci_config_read8 cfg bus (word_of_nat d) (word_of_nat f) 0x0B = 0x06 \<and>
     pci_config_read8 cfg bus (word_of_nat d) (word_of_nat f) 0x0A = 0x04"

definition secondary :: "pci_space \<Rightarrow> u8 \<Rightarrow> nat \<Rightarrow> nat \<Rightarrow> u8" where
  "secondary cfg bus d f = pci_config_read8 cfg bus (word_of_nat d) (word_of_nat f) 0x19"

inductive bus_below :: "pci_space \<Rightarrow> u8 \<Rightarrow> u8 \<Rightarrow> bool" for cfg where
  self: "bus_below cfg b b"
| behind: "bridge cfg b d f \<Longrightarrow> bus_below cfg (secondary cfg b d f) c \<Longrightarrow> bus_below cfg b c"

text \<open>Buses form a tree when every bridge leads to a bus of a higher number and no two bridges lead to the same one.\<close>

definition bus_tree :: "pci_space \<Rightarrow> bool" where
  "bus_tree cfg \<longleftrightarrow> (\<forall>b d f. bridge cfg b d f \<longrightarrow> b < secondary cfg b d f) \<and>
     (\<forall>b d f b' d' f'. bridge cfg b d f \<and> bridge cfg b' d' f' \<and> secondary cfg b d f = secondary cfg b' d' f' \<longrightarrow>
        b = b' \<and> d = d' \<and> f = f')"

lemma bus_below_trans: "bus_below cfg a b \<Longrightarrow> bus_below cfg b c \<Longrightarrow> bus_below cfg a c"
  by (induction rule: bus_below.induct) (auto intro: bus_below.intros)

lemma bus_below_le: "bus_below cfg a b \<Longrightarrow> bus_tree cfg \<Longrightarrow> a \<le> b"
proof (induction rule: bus_below.induct)
  case (behind b d f c)
  then have "b < secondary cfg b d f" "secondary cfg b d f \<le> c" unfolding bus_tree_def by blast+
  then show ?case by simp
qed simp

lemma bus_below_last: "bus_below cfg a c \<Longrightarrow> a = c \<or> (\<exists>b d f. bus_below cfg a b \<and> bridge cfg b d f \<and> c = secondary cfg b d f)"
  by (induction rule: bus_below.induct) (blast intro: bus_below.intros)+

text \<open>Two buses above the same bus lie on one branch.\<close>

lemma bus_below_linear:
  assumes "bus_below cfg a c" "bus_below cfg a' c" "bus_tree cfg"
  shows "bus_below cfg a a' \<or> bus_below cfg a' a"
  using assms(1,2)
proof (induction "unat c" arbitrary: c rule: less_induct)
  case less
  show ?case
  proof (cases "a = c \<or> a' = c")
    case True
    then show ?thesis using less.prems by auto
  next
    case False
    obtain b d f where 1: "bus_below cfg a b" "bridge cfg b d f" "c = secondary cfg b d f" using bus_below_last [OF less.prems(1)] False by blast
    obtain b' d' f' where 2: "bus_below cfg a' b'" "bridge cfg b' d' f'" "c = secondary cfg b' d' f'" using bus_below_last [OF less.prems(2)] False by blast
    have "b < c" using 1(2) assms(3) unfolding 1(3) bus_tree_def by blast
    moreover have "b' = b" using 1(2) 2(2) assms(3) 1(3) 2(3) unfolding bus_tree_def by metis
    ultimately show ?thesis using less.hyps [of b] 1(1) 2(1) by (simp add: word_less_nat_alt)
  qed
qed

lemma behind_apart:
  assumes t: "bus_tree cfg" and b: "bridge cfg b d f" "bridge cfg b d' f'" "(d, f) \<noteq> (d', f')"
    and c: "bus_below cfg (secondary cfg b d f) c" "bus_below cfg (secondary cfg b d' f') c"
  shows False
proof -
  have no: False if p: "bridge cfg b x y" "bridge cfg b x' y'" "(x, y) \<noteq> (x', y')" "bus_below cfg (secondary cfg b x y) (secondary cfg b x' y')" for x y x' y'
  proof -
    have "secondary cfg b x y \<noteq> secondary cfg b x' y'" using t p(1-3) unfolding bus_tree_def by blast
    then obtain e u v where e: "bus_below cfg (secondary cfg b x y) e" "bridge cfg e u v" "secondary cfg b x' y' = secondary cfg e u v"
      using bus_below_last [OF p(4)] by blast
    then have "e = b" using t p(2) unfolding bus_tree_def by metis
    then have "secondary cfg b x y \<le> b" using bus_below_le [OF e(1) t] by simp
    moreover have "b < secondary cfg b x y" using t p(1) unfolding bus_tree_def by blast
    ultimately show False by simp
  qed
  show False using bus_below_linear [OF c t] no [OF b] no [OF b(2,1)] b(3) by auto
qed

text \<open>The functions on a bus and behind its bridges.\<close>

definition functions_below :: "pci_space \<Rightarrow> u8 \<Rightarrow> pci_device set" where
  "functions_below cfg b =
     {pci_entry cfg c (word_of_nat d) (word_of_nat f) | c d f. bus_below cfg b c \<and> present cfg c d f}"

text \<open>\<open>adds lim D s s'\<close>: the scan found the functions of the set \<open>D\<close>, each of them once.\<close>

definition adds :: "nat \<Rightarrow> pci_device set \<Rightarrow> pci_out \<Rightarrow> pci_out \<Rightarrow> bool" where
  "adds lim D s s' \<longleftrightarrow> (\<exists>ds. distinct ds \<and> set ds = D \<and> fst s' = take lim (fst s @ ds) \<and> snd s' = snd s + length ds)"

definition sized :: "nat \<Rightarrow> pci_out \<Rightarrow> bool" where
  "sized lim s \<longleftrightarrow> length (fst s) = min lim (snd s)"

lemma adds_sized: "sized lim s \<Longrightarrow> adds lim D s s' \<Longrightarrow> sized lim s'"
  by (auto simp: sized_def adds_def)

lemma adds_none: "sized lim s \<Longrightarrow> adds lim {} s s"
  by (auto simp: adds_def sized_def)

lemma adds_trans: "adds lim D s s1 \<Longrightarrow> adds lim E s1 s2 \<Longrightarrow> D \<inter> E = {} \<Longrightarrow> adds lim (D \<union> E) s s2"
proof -
  assume "adds lim D s s1" "adds lim E s1 s2" and disj: "D \<inter> E = {}"
  then obtain ds es where dist: "distinct ds" "distinct es" and 1: "set ds = D" "fst s1 = take lim (fst s @ ds)" "snd s1 = snd s + length ds"
    "set es = E" "fst s2 = take lim (fst s1 @ es)" "snd s2 = snd s1 + length es"
    unfolding adds_def by blast
  have "take lim (take lim xs @ es) = take lim (xs @ es)" for xs :: "pci_device list"
    by (simp add: min_def)
  from this [of "fst s @ ds"] have "fst s2 = take lim (fst s @ ds @ es)" unfolding 1(5) 1(2) by (simp only: append_assoc)
  moreover have "distinct (ds @ es)" "set (ds @ es) = D \<union> E" using dist disj 1 by simp_all
  moreover have "snd s2 = snd s + length (ds @ es)" using 1 by simp_all
  ultimately show ?thesis unfolding adds_def by blast
qed

lemma fold_adds:
  assumes "\<And>x s. x \<in> set xs \<Longrightarrow> sized lim s \<Longrightarrow> \<exists>s'. f x s = Some s' \<and> adds lim (D x) s s'"
    and "distinct xs" "\<And>x y. x \<in> set xs \<Longrightarrow> y \<in> set xs \<Longrightarrow> x \<noteq> y \<Longrightarrow> D x \<inter> D y = {}"
  shows "sized lim s \<Longrightarrow> \<exists>s'. fold_opt f xs s = Some s' \<and> adds lim (\<Union>x\<in>set xs. D x) s s'"
  using assms
proof (induction xs arbitrary: s)
  case Nil
  then show ?case by (simp add: adds_none)
next
  case (Cons x xs)
  obtain s1 where 1: "f x s = Some s1" "adds lim (D x) s s1" using Cons.prems(2) [of x s] Cons.prems(1) by auto
  obtain s2 where 2: "fold_opt f xs s1 = Some s2" "adds lim (\<Union>x\<in>set xs. D x) s1 s2"
    using Cons.IH [OF adds_sized [OF Cons.prems(1) 1(2)]] Cons.prems(2-4) by auto
  have "D x \<inter> D y = {}" if "y \<in> set xs" for y using Cons.prems(4) [of x y] Cons.prems(3) that by auto
  then have "D x \<inter> (\<Union>x\<in>set xs. D x) = {}" by blast
  then show ?case using 1(1) 2(1) adds_trans [OF 1(2) 2(2)] by auto
qed

definition found_at :: "pci_space \<Rightarrow> u8 \<Rightarrow> nat \<Rightarrow> nat \<Rightarrow> pci_device set" where
  "found_at cfg b d f =
     (if present cfg b d f then {pci_entry cfg b (word_of_nat d) (word_of_nat f)} else {}) \<union>
     (if bridge cfg b d f then functions_below cfg (secondary cfg b d f) else {})"

lemma functions_below_unfold:
  "functions_below cfg b = (\<Union>d\<in>{0..<32}. \<Union>f\<in>{0..<8}. found_at cfg b d f)"
proof (rule Set.set_eqI)
  fix x
  have "\<exists>d f. d < 32 \<and> f < 8 \<and> x \<in> found_at cfg b d f" if "x \<in> functions_below cfg b"
  proof -
    from that obtain c d f where x: "x = pci_entry cfg c (word_of_nat d) (word_of_nat f)" "bus_below cfg b c" "present cfg c d f"
      by (auto simp: functions_below_def)
    from x(2) show ?thesis
    proof cases
      case self
      then have "d < 32 \<and> f < 8" "x \<in> found_at cfg b d f" using x by (auto simp: found_at_def present_def)
      then show ?thesis by blast
    next
      case (behind d' f')
      then have "d' < 32 \<and> f' < 8" "x \<in> found_at cfg b d' f'"
        using x by (auto simp: found_at_def bridge_def present_def functions_below_def)
      then show ?thesis by blast
    qed
  qed
  moreover have "x \<in> functions_below cfg b" if "x \<in> found_at cfg b d f" for d f
    using that by (auto simp: found_at_def functions_below_def split: if_splits intro: self behind)
  ultimately show "x \<in> functions_below cfg b \<longleftrightarrow> x \<in> (\<Union>d\<in>{0..<32}. \<Union>f\<in>{0..<8}. found_at cfg b d f)"
    by (simp add: Bex_def) blast
qed

lemma functions_below_bus: "x \<in> functions_below cfg b \<Longrightarrow> bus_below cfg b (pci_bus x)"
  by (auto simp: functions_below_def pci_entry_def)

lemma entry_apart: "bus_tree cfg \<Longrightarrow> bridge cfg b d f \<Longrightarrow> pci_entry cfg b d' f' \<notin> functions_below cfg (secondary cfg b d f)"
proof
  assume t: "bus_tree cfg" "bridge cfg b d f" and "pci_entry cfg b d' f' \<in> functions_below cfg (secondary cfg b d f)"
  then have "bus_below cfg (secondary cfg b d f) b" using functions_below_bus by (fastforce simp: pci_entry_def)
  then have "secondary cfg b d f \<le> b" using bus_below_le t(1) by blast
  moreover have "b < secondary cfg b d f" using t unfolding bus_tree_def by blast
  ultimately show False by simp
qed

lemma found_apart:
  assumes t: "bus_tree cfg" and n: "(d, f) \<noteq> (d', f')"
  shows "found_at cfg b d f \<inter> found_at cfg b d' f' = {}"
proof -
  have e: "pci_entry cfg b (word_of_nat d) (word_of_nat f) \<noteq> pci_entry cfg b (word_of_nat d') (word_of_nat f')"
    if "present cfg b d f" "present cfg b d' f'"
  proof
    assume "pci_entry cfg b (word_of_nat d) (word_of_nat f) = pci_entry cfg b (word_of_nat d') (word_of_nat f')"
    then have "(word_of_nat d :: u8) = word_of_nat d'" "(word_of_nat f :: u8) = word_of_nat f'" by (simp_all add: pci_entry_def)
    then have "unat (word_of_nat d :: u8) = unat (word_of_nat d' :: u8)" "unat (word_of_nat f :: u8) = unat (word_of_nat f' :: u8)" by simp_all
    moreover have "d < 32 \<and> f < 8 \<and> d' < 32 \<and> f' < 8" using that by (auto simp: present_def)
    ultimately have "d = d' \<and> f = f'" by (simp add: unat_of_nat)
    then show False using n by simp
  qed
  have "False" if "bridge cfg b d f" "bridge cfg b d' f'" "x \<in> functions_below cfg (secondary cfg b d f)"
      "x \<in> functions_below cfg (secondary cfg b d' f')" for x
    using behind_apart [OF t that(1,2) n] functions_below_bus that(3,4) by blast
  then show ?thesis using e entry_apart [OF t] by (auto simp: found_at_def)
qed

lemma scan_function_ok:
  assumes t: "bus_tree cfg" and r: "\<And>s. bridge cfg b d f \<Longrightarrow> sized lim s \<Longrightarrow>
      \<exists>s'. scan (secondary cfg b d f) s = Some s' \<and> adds lim (functions_below cfg (secondary cfg b d f)) s s'"
    and f: "d < 32" "pci_config_read16 cfg b (word_of_nat d) 0 0 \<noteq> 0xFFFF"
      "f = 0 \<or> f < 8 \<and> pci_config_read8 cfg b (word_of_nat d) 0 0x0E AND 0x80 \<noteq> 0"
    and s: "sized lim s"
  shows "\<exists>s'. scan_function cfg scan lim b (word_of_nat d) (word_of_nat f) s = Some s' \<and> adds lim (found_at cfg b d f) s s'"
proof (cases "present cfg b d f")
  case False
  then show ?thesis
    using f s by (auto simp: scan_function_def present_def found_at_def bridge_def adds_none)
next
  case True
  let ?e = "pci_entry cfg b (word_of_nat d) (word_of_nat f)"
  let ?s1 = "(if snd s < lim then fst s @ [?e] else fst s, snd s + 1)"
  have v: "pci_config_read16 cfg b (word_of_nat d) (word_of_nat f) 0 \<noteq> 0xFFFF" using True by (simp add: present_def)
  have a1: "adds lim {?e} s ?s1"
    unfolding adds_def by (rule exI [of _ "[?e]"]) (use s in \<open>auto simp: sized_def\<close>)
  have br: "bridge cfg b d f \<longleftrightarrow> pci_class ?e = 0x06 \<and> pci_subclass ?e = 0x04"
    using True by (simp add: bridge_def pci_entry_def)
  show ?thesis
  proof (cases "bridge cfg b d f")
    case False
    then show ?thesis using v a1 br True by (auto simp: scan_function_def Let_def found_at_def)
  next
    case br1: True
    then obtain s2 where s2: "scan (secondary cfg b d f) ?s1 = Some s2" "adds lim (functions_below cfg (secondary cfg b d f)) ?s1 s2"
      using r [OF br1 adds_sized [OF s a1]] by blast
    have "scan_function cfg scan lim b (word_of_nat d) (word_of_nat f) s = Some s2"
      using v br br1 s2(1) unfolding scan_function_def Let_def secondary_def by (simp only: if_True if_False)
    then show ?thesis using adds_trans [OF a1 s2(2)] entry_apart [OF t br1] True br1 by (auto simp: found_at_def)
  qed
qed

lemma scan_device_ok:
  assumes t: "bus_tree cfg" and r: "\<And>f s. bridge cfg b d f \<Longrightarrow> sized lim s \<Longrightarrow>
      \<exists>s'. scan (secondary cfg b d f) s = Some s' \<and> adds lim (functions_below cfg (secondary cfg b d f)) s s'"
    and d: "d < 32" and s: "sized lim s"
  shows "\<exists>s'. scan_device cfg scan lim b (word_of_nat d) s = Some s' \<and> adds lim (\<Union>f\<in>{0..<8}. found_at cfg b d f) s s'"
proof (cases "pci_config_read16 cfg b (word_of_nat d) 0 0 = 0xFFFF")
  case True
  then have "\<not> present cfg b d f" for f by (simp add: present_def)
  then have "(\<Union>f\<in>{0..<8}. found_at cfg b d f) = {}" by (simp add: found_at_def bridge_def)
  then show ?thesis using True s by (simp add: scan_device_def adds_none)
next
  case v: False
  let ?m = "pci_config_read8 cfg b (word_of_nat d) 0 0x0E AND 0x80 \<noteq> 0"
  let ?fs = "[0..<(if ?m then 8 else 1)] :: nat list"
  have "\<exists>s'. fold_opt (\<lambda>f. scan_function cfg scan lim b (word_of_nat d) (word_of_nat f)) ?fs s = Some s' \<and>
      adds lim (\<Union>f\<in>set ?fs. found_at cfg b d f) s s'"
  proof (rule fold_adds [OF _ _ _ s])
    fix f f' :: nat assume "f \<noteq> f'"
    then show "found_at cfg b d f \<inter> found_at cfg b d f' = {}" by (intro found_apart [OF t]) simp
  next
    fix f s assume f: "f \<in> set ?fs" "sized lim s"
    show "\<exists>s'. scan_function cfg scan lim b (word_of_nat d) (word_of_nat f) s = Some s' \<and> adds lim (found_at cfg b d f) s s'"
    proof (rule scan_function_ok [OF t _ d v _ f(2)])
      show "f = 0 \<or> f < 8 \<and> ?m" using f(1) by (auto split: if_splits)
    qed (rule r)
  qed simp
  moreover have "(\<Union>f\<in>set ?fs. found_at cfg b d f) = (\<Union>f\<in>{0..<8}. found_at cfg b d f)"
    by (auto simp: found_at_def bridge_def present_def split: if_splits)
  ultimately show ?thesis using v by (simp add: scan_device_def)
qed

lemma scan_bus_ok:
  assumes t: "bus_tree cfg"
  shows "256 - unat b \<le> depth \<Longrightarrow> sized lim s \<Longrightarrow>
    \<exists>s'. scan_bus depth cfg lim b s = Some s' \<and> adds lim (functions_below cfg b) s s'"
proof (induction depth arbitrary: b s)
  case 0
  then show ?case using unat_byte [of b] by simp
next
  case (Suc depth)
  have "\<exists>s'. fold_opt (\<lambda>d. scan_device cfg (scan_bus depth cfg lim) lim b (word_of_nat d)) [0..<32] s = Some s' \<and>
      adds lim (\<Union>d\<in>set [0..<32]. \<Union>f\<in>{0..<8}. found_at cfg b d f) s s'"
  proof (rule fold_adds [OF _ _ _ Suc.prems(2)], rule scan_device_ok [OF t])
    fix d d' :: nat assume "d \<noteq> d'"
    then have "found_at cfg b d f \<inter> found_at cfg b d' f' = {}" for f f' by (intro found_apart [OF t]) simp
    then show "(\<Union>f\<in>{0..<8}. found_at cfg b d f) \<inter> (\<Union>f\<in>{0..<8}. found_at cfg b d' f) = {}" by blast
  next
    fix d f s assume "bridge cfg b d f" "sized lim s"
    then show "\<exists>s'. scan_bus depth cfg lim (secondary cfg b d f) s = Some s' \<and>
        adds lim (functions_below cfg (secondary cfg b d f)) s s'"
      using Suc.IH [of "secondary cfg b d f" s] t Suc.prems(1) by (fastforce simp: bus_tree_def word_less_nat_alt)
  qed auto
  then show ?case by (simp add: functions_below_unfold)
qed

text \<open>C28. When the firmware gave every bridge a secondary bus of its own with a higher number than that of the bus the
  bridge is on, the scan returns at a recursion depth of at most 256 and meets every function of every bus reachable from bus 0
  exactly once: the count is the number of these functions, and the table holds them without repetition as far as it has room.\<close>

theorem pci_scan_finds_all:
  assumes "bus_tree cfg"
  shows "\<exists>ds. distinct ds \<and> set ds = functions_below cfg 0 \<and> pci_scan 256 cfg lim = Some (take lim ds, card (functions_below cfg 0))"
proof -
  have "\<exists>s'. scan_bus 256 cfg lim 0 ([], 0) = Some s' \<and> adds lim (functions_below cfg 0) ([], 0) s'"
    by (rule scan_bus_ok [OF assms]) (simp_all add: sized_def)
  then obtain n t ds where "scan_bus 256 cfg lim 0 ([], 0) = Some (t, n)" "distinct ds" "set ds = functions_below cfg 0" "t = take lim ds" "n = length ds"
    unfolding adds_def by fastforce
  then show ?thesis by (metis pci_scan_def distinct_card)
qed

text \<open>A bus with a bridge in slot 1, whose secondary bus number is \<open>n\<close>, and a network card behind it on bus 1.\<close>

definition demo_pci :: "u8 \<Rightarrow> pci_space" where
  "demo_pci n a =
     (let off = a AND 0xFC
      in if drop_bit 8 a = 0x800008
         then (if off = 0 then 0x12348086 else if off = 8 then 0x06040000 else if off = 0x18 then push_bit 8 (ucast n) else 0)
         else if drop_bit 8 a = 0x800100
         then (if off = 0 then 0x10001AF4 else if off = 8 then 0x02000000 else 0)
         else 0xFFFFFFFF)"

lemma pci_address_parts:
  "drop_bit 8 (pci_address b d f off) = drop_bit 8 (pci_address b d f 0)"
  "pci_address b d f off AND 0xFC = ucast off AND 0xFC"
proof -
  have lo: "\<not> bit (ucast off AND (0xFC :: u32)) (8 + n)" for n
    using bit_imp_le_length [of off "8 + n"] by (auto simp: bit_and_iff bit_unsigned_iff)
  show "drop_bit 8 (pci_address b d f off) = drop_bit 8 (pci_address b d f 0)"
    by (rule bit_word_eqI) (use lo in \<open>auto simp: pci_address_def bit_drop_bit_eq bit_or_iff\<close>)
  have fc: "bit (0xFC :: u32) n \<Longrightarrow> n < 8" for n
  proof -
    have "(0xFC :: u32) = take_bit 8 0xFC" by simp
    then show "bit (0xFC :: u32) n \<Longrightarrow> n < 8" by (metis bit_take_bit_iff)
  qed
  have "\<not> bit (0x80000000 :: u32) n" if "n < 8" for n
  proof -
    have "(0x80000000 :: u32) = push_bit 31 1" by simp
    then show ?thesis using that by (simp only: bit_push_bit_iff) simp
  qed
  then have "bit (0xFC :: u32) n \<Longrightarrow> bit (pci_address b d f off) n = (bit (ucast off :: u32) n \<and> bit (0xFC :: u32) n)" for n
    using fc [of n] by (auto simp: pci_address_def bit_and_iff bit_or_iff bit_push_bit_iff)
  then show "pci_address b d f off AND 0xFC = ucast off AND 0xFC"
    by (intro bit_word_eqI) (auto simp: bit_and_iff)
qed

lemma demo_bridge:
  assumes "bridge (demo_pci n) b d f"
  shows "b = 0" "secondary (demo_pci n) b d f = n"
proof -
  let ?A = "pci_address b (word_of_nat d) (word_of_nat f) 0"
  have r: "demo_pci n (pci_address b (word_of_nat d) (word_of_nat f) off) =
      (if drop_bit 8 ?A = 0x800008
       then (if ucast off AND 0xFC = (0 :: u32) then 0x12348086 else if ucast off AND 0xFC = (8 :: u32) then 0x06040000
             else if ucast off AND 0xFC = (0x18 :: u32) then push_bit 8 (ucast n) else 0)
       else if drop_bit 8 ?A = 0x800100
       then (if ucast off AND 0xFC = (0 :: u32) then 0x10001AF4 else if ucast off AND 0xFC = (8 :: u32) then 0x02000000 else 0)
       else 0xFFFFFFFF)" for off
    unfolding demo_pci_def Let_def pci_address_parts(2) by (subst (1 2) pci_address_parts(1)) (rule refl)
  have k: "drop_bit 8 ?A = 0x800008"
    using assms unfolding bridge_def present_def pci_config_read16_def pci_config_read8_def pci_config_read32_def r
    by (auto split: if_splits)
  have "\<not> bit b i" for i
  proof
    assume i: "bit b i"
    then have "i < 8" using bit_imp_le_length by fastforce
    moreover from this i have "bit (drop_bit 8 ?A) (8 + i)"
      by (auto simp: pci_address_def bit_drop_bit_eq bit_or_iff bit_push_bit_iff bit_unsigned_iff)
    ultimately have "bit (drop_bit 8 (0x800008 :: u32)) i" unfolding k by (simp only: bit_drop_bit_eq comp_def)
    moreover have "drop_bit 8 (0x800008 :: u32) = push_bit 7 1 * 256" by simp
    moreover have "push_bit 7 1 * 256 = (push_bit 15 1 :: u32)" by simp
    ultimately have "i = 15" by (simp only: bit_push_bit_iff) (auto simp: bit_1_iff)
    then show False using \<open>i < 8\<close> by simp
  qed
  then show "b = 0" by (intro bit_word_eqI) simp
  have "ucast (drop_bit 8 (push_bit 8 (ucast n :: u32))) = n"
    by (rule bit_word_eqI) (auto simp: bit_simps)
  then show "secondary (demo_pci n) b d f = n"
    unfolding secondary_def pci_config_read8_def pci_config_read32_def r k by simp
qed

lemma demo_bridge_unique: "bridge (demo_pci 1) 0 d f \<Longrightarrow> d = 1 \<and> f = 0"
proof -
  assume b: "bridge (demo_pci 1) 0 d f"
  then have "d < 32" "f < 8" by (auto simp: bridge_def present_def)
  moreover have "list_all (\<lambda>d. list_all (\<lambda>f. bridge (demo_pci 1) 0 d f \<longrightarrow> d = 1 \<and> f = 0) [0..<8]) [0..<32]" by code_simp
  ultimately show ?thesis using b by (simp add: list_all_iff)
qed

lemma demo_tree: "bus_tree (demo_pci 1)"
  unfolding bus_tree_def
proof (intro conjI allI impI)
  fix b d f assume "bridge (demo_pci 1) b d f"
  from demo_bridge [OF this] show "b < secondary (demo_pci 1) b d f" by simp
next
  fix b d f b' d' f'
  assume b: "bridge (demo_pci 1) b d f \<and> bridge (demo_pci 1) b' d' f' \<and> secondary (demo_pci 1) b d f = secondary (demo_pci 1) b' d' f'"
  then have "b = 0" "b' = 0" using demo_bridge(1) by blast+
  then show "b = b'" "d = d'" "f = f'" using b demo_bridge_unique by blast+
qed

theorem pci_scan_finds_all_witness:
  "\<exists>ds. distinct ds \<and> pci_scan 256 (demo_pci 1) 32 = Some (take 32 ds, length ds) \<and> pci_entry (demo_pci 1) 1 0 0 \<in> set ds \<and>
     device_id (pci_entry (demo_pci 1) 1 0 0) = 0x1000"
proof -
  obtain ds where ds: "distinct ds" "set ds = functions_below (demo_pci 1) 0" "pci_scan 256 (demo_pci 1) 32 = Some (take 32 ds, length ds)"
    using pci_scan_finds_all [OF demo_tree, of 32] distinct_card by metis
  have b: "bridge (demo_pci 1) 0 1 0" "present (demo_pci 1) 1 0 0" "secondary (demo_pci 1) 0 1 0 = 1"
    "device_id (pci_entry (demo_pci 1) 1 0 0) = 0x1000"
    by code_simp+
  then have "pci_entry (demo_pci 1) 1 (word_of_nat 0) (word_of_nat 0) \<in> functions_below (demo_pci 1) 0"
    using bus_below.behind [OF b(1), of 1] bus_below.self [of "demo_pci 1" 1] unfolding functions_below_def b(3) by blast
  then show ?thesis using ds b(4) by auto
qed

text \<open>A bridge whose secondary bus number is that of its own bus (zero on bus 0, the state before the firmware
  assigns numbers) makes the scan call itself for ever: no depth of the stack is enough.\<close>

theorem pci_scan_bridge_loop:
  assumes "bridge cfg 0 d f" "secondary cfg 0 d f = 0"
  shows "pci_scan depth cfg lim = None"
proof -
  have f: "fold_opt g xs s = None" if "x \<in> set xs" "\<And>s. g x s = None" for g :: "nat \<Rightarrow> pci_out \<Rightarrow> pci_out option" and x xs s
    using that by (induction xs arbitrary: s) (auto split: option.splits)
  have p: "d < 32" "pci_config_read16 cfg 0 (word_of_nat d) 0 0 \<noteq> 0xFFFF" "pci_config_read16 cfg 0 (word_of_nat d) (word_of_nat f) 0 \<noteq> 0xFFFF"
    "f = 0 \<or> f < 8 \<and> pci_config_read8 cfg 0 (word_of_nat d) 0 0x0E AND 0x80 \<noteq> 0"
    "pci_config_read8 cfg 0 (word_of_nat d) (word_of_nat f) 0x0B = 0x06" "pci_config_read8 cfg 0 (word_of_nat d) (word_of_nat f) 0x0A = 0x04"
    using assms(1) by (auto simp: bridge_def present_def)
  have "scan_bus depth cfg lim 0 s = None" for s
  proof (induction depth arbitrary: s)
    case (Suc depth)
    have fn: "scan_function cfg (scan_bus depth cfg lim) lim 0 (word_of_nat d) (word_of_nat f) s = None" for s
      using p(3,5,6) Suc assms(2) by (simp add: scan_function_def Let_def pci_entry_def secondary_def)
    have "scan_device cfg (scan_bus depth cfg lim) lim 0 (word_of_nat d) s = None" for s
    proof -
      have "fold_opt (\<lambda>g. scan_function cfg (scan_bus depth cfg lim) lim 0 (word_of_nat d) (word_of_nat g))
          [0..<if pci_config_read8 cfg 0 (word_of_nat d) 0 0x0E AND 0x80 \<noteq> 0 then 8 else 1] s = None"
        by (rule f [of f]) (use p(4) fn in auto)
      then show ?thesis using p(2) by (simp add: scan_device_def)
    qed
    then have "fold_opt (\<lambda>d. scan_device cfg (scan_bus depth cfg lim) lim 0 (word_of_nat d)) [0..<32] s = None"
      by (intro f [of d]) (use p(1) in auto)
    then show ?case by simp
  qed simp
  then show ?thesis by (simp add: pci_scan_def)
qed

theorem pci_scan_bridge_loop_witness: "pci_scan 4096 (demo_pci 0) 32 = None"
proof -
  have "bridge (demo_pci 0) 0 1 0" "secondary (demo_pci 0) 0 1 0 = 0" by code_simp+
  then show ?thesis by (rule pci_scan_bridge_loop)
qed

end
