(* ===== verification/VirtioNet.thy ===== *)
theory VirtioNet
  imports Pci
begin

section \<open>The driver of the network card\<close>

text \<open>
  \<^verbatim>\<open>src/src/drivers/virtio_net.c\<close> and \<^verbatim>\<open>dma_pool.c\<close>: two queues in memory that driver and device share, eight
  receive buffers, one transmit buffer. The shared memory is \<open>dmem\<close>; \<open>dev_receive\<close> and \<open>dev_transmit\<close> are what the
  device does with it (take the next entry of the avail ring, use its buffer, append to the used
  ring), with its own position in the avail ring. Port writes go to \<open>outs\<close>, frames the device has sent to \<open>wire\<close>.
\<close>

abbreviation QUEUE_SIZE :: nat where "QUEUE_SIZE \<equiv> 256"
abbreviation NUM_ACTIVE :: nat where "NUM_ACTIVE \<equiv> 8"
abbreviation VPAGE_SIZE :: nat where "VPAGE_SIZE \<equiv> 4096"
abbreviation MAX_FRAME :: nat where "MAX_FRAME \<equiv> 1514"
abbreviation NET_HDR_SIZE :: nat where "NET_HDR_SIZE \<equiv> 10"
abbreviation BUF_SIZE :: nat where "BUF_SIZE \<equiv> NET_HDR_SIZE + MAX_FRAME"
abbreviation DMA_POOL_BASE :: nat where "DMA_POOL_BASE \<equiv> 0x180000"
abbreviation DMA_POOL_SIZE :: nat where "DMA_POOL_SIZE \<equiv> 0x20000"

record vqueue =
  qdesc :: nat
  qavail :: nat
  qused :: nat
  last_used :: u16

record vnet =
  dmem :: bmem
  dma_pool_offset :: nat
  io_base :: u32
  rxq :: vqueue
  txq :: vqueue
  rx_bufs :: "nat list"
  tx_scratch :: nat
  vmac :: "u8 list"
  vready :: bool
  outs :: "(u16 \<times> u32) list"
  timer_ticks :: nat
  host_qsize :: "u16 \<Rightarrow> u16"
  host_mac :: "u8 list"
  dev_rx :: u16
  dev_tx :: u16
  wire :: "u8 list list"

definition dma_alloc_pages :: "nat \<Rightarrow> vnet \<Rightarrow> nat \<times> vnet" where
  "dma_alloc_pages num_pages s =
     (let size = num_pages * VPAGE_SIZE
      in if DMA_POOL_SIZE < dma_pool_offset s + size then (0, s)
         else let p = DMA_POOL_BASE + dma_pool_offset s
              in (p, s\<lparr>dma_pool_offset := dma_pool_offset s + size, dmem := mem_write (dmem s) p (replicate size 0)\<rparr>))"

definition port_out :: "u32 \<Rightarrow> u32 \<Rightarrow> vnet \<Rightarrow> vnet" where
  "port_out off v s = s\<lparr>outs := outs s @ [(ucast (io_base s + off), v)]\<rparr>"

definition avail_put16 :: "nat \<Rightarrow> u16 \<Rightarrow> bmem \<Rightarrow> bmem" where
  "avail_put16 a v m = mem_write m a [ucast v, ucast (drop_bit 8 v)]"

definition avail_get16 :: "bmem \<Rightarrow> nat \<Rightarrow> u16" where
  "avail_get16 m a = ucast (m a) OR push_bit 8 (ucast (m (a + 1)))"

definition get32le :: "bmem \<Rightarrow> nat \<Rightarrow> u32" where
  "get32le m a = le_word (mem_read m a 4)"

definition setup_queue :: "u16 \<Rightarrow> vnet \<Rightarrow> vqueue option \<times> vnet" where
  "setup_queue idx s =
     (let s1 = port_out 0x0E (ucast idx) s
      in if host_qsize s idx \<noteq> 256 then (None, s1)
         else (case dma_alloc_pages 4 s1 of
                 (base, s2) \<Rightarrow>
                   if base = 0 then (None, s2)
                   else (Some \<lparr>qdesc = base, qavail = base + VPAGE_SIZE, qused = base + 2 * VPAGE_SIZE, last_used = 0\<rparr>,
                         port_out 0x08 (word_of_nat (base div VPAGE_SIZE)) s2)))"

text \<open>A descriptor: address, length, flags, next.\<close>

definition put_desc :: "nat \<Rightarrow> nat \<Rightarrow> nat \<Rightarrow> u16 \<Rightarrow> bmem \<Rightarrow> bmem" where
  "put_desc d addr len flags m =
     mem_write m d (le_bytes 8 (word_of_nat addr :: u64) @ le_bytes 4 (word_of_nat len :: u32) @ le_bytes 2 flags @ [0, 0])"

text \<open>The next entry of an avail ring; the index is published after the entry.\<close>

definition push_avail :: "vqueue \<Rightarrow> u16 \<Rightarrow> bmem \<Rightarrow> bmem" where
  "push_avail q i m =
     (let ai = avail_get16 m (qavail q + 2)
      in avail_put16 (qavail q + 2) (ai + 1) (avail_put16 (qavail q + (4 + unat ai mod QUEUE_SIZE * 2)) i m))"

definition rx_repost :: "nat \<Rightarrow> vnet \<Rightarrow> vnet" where
  "rx_repost i s =
     s\<lparr>dmem := push_avail (rxq s) (word_of_nat i) (put_desc (qdesc (rxq s) + i * 16) (rx_bufs s ! i) BUF_SIZE 2 (dmem s))\<rparr>"

text \<open>Buffers for reception, until the pool is exhausted.\<close>

fun alloc_bufs :: "nat \<Rightarrow> vnet \<Rightarrow> nat list option \<times> vnet" where
  "alloc_bufs 0 s = (Some [], s)"
| "alloc_bufs (Suc k) s =
     (case dma_alloc_pages 1 s of
        (p, s1) \<Rightarrow>
          if p = 0 then (None, s1)
          else (case alloc_bufs k s1 of (None, s2) \<Rightarrow> (None, s2) | (Some ps, s2) \<Rightarrow> (Some (p # ps), s2)))"

definition net_device :: "pci_device \<Rightarrow> bool" where
  "net_device d \<longleftrightarrow> vendor_id d = 0x1AF4 \<and> device_id d = 0x1000"

text \<open>From the reset of the device to the posting of the buffers.\<close>

definition virtio_net_start :: "vnet \<Rightarrow> bool \<times> vnet" where
  "virtio_net_start s =
     (let s1 = port_out 0x04 (push_bit 5 1) (port_out 0x12 3 (port_out 0x12 1 (port_out 0x12 0 s)))
      in (case setup_queue 0 s1 of
            (None, s2) \<Rightarrow> (False, s2)
          | (Some rq, s2) \<Rightarrow>
              (case setup_queue 1 (s2\<lparr>rxq := rq\<rparr>) of
                 (None, s3) \<Rightarrow> (False, s3)
               | (Some tq, s3) \<Rightarrow>
                   (case alloc_bufs NUM_ACTIVE ((port_out 0x12 7 (s3\<lparr>txq := tq\<rparr>))\<lparr>vmac := host_mac s3\<rparr>) of
                      (None, s4) \<Rightarrow> (False, s4)
                    | (Some bufs, s4) \<Rightarrow>
                        (case dma_alloc_pages 1 (s4\<lparr>rx_bufs := bufs\<rparr>) of
                           (p, s5) \<Rightarrow>
                             if p = 0 then (False, s5)
                             else let s6 = fold rx_repost [0..<NUM_ACTIVE] (s5\<lparr>tx_scratch := p\<rparr>)
                                  in (True, (port_out 0x10 0 s6)\<lparr>vready := True\<rparr>))))))"

text \<open>\<open>None\<close>: the scan of the bus does not end.\<close>

definition virtio_net_init :: "pci_space \<Rightarrow> vnet \<Rightarrow> (bool \<times> vnet) option" where
  "virtio_net_init cfg s =
     (case pci_scan 256 cfg 32 of
        None \<Rightarrow> None
      | Some (devs, count) \<Rightarrow>
          let s0 = s\<lparr>io_base := 0\<rparr>
          in (case find net_device devs of
                None \<Rightarrow> Some (False, s0)
              | Some d \<Rightarrow>
                  let rd = pci_config_read32 cfg (pci_bus d) (pci_dev d) (pci_fn d); bar0 = rd 0x10
                  in if bar0 AND 1 = 0 then Some (False, s0)
                     else let cmd = (rd 0x04 AND 0xFFFF) OR 1 OR 4;
                              s1 = s0\<lparr>io_base := bar0 AND 0xFFFFFFFC,
                                      outs := outs s0 @ pci_config_write32 (pci_bus d) (pci_dev d) (pci_fn d) 0x04 cmd\<rparr>
                          in Some (virtio_net_start s1)))"

subsection \<open>Sending and receiving\<close>

text \<open>
  What can wake the processor from \<^verbatim>\<open>hlt\<close>: the timer, or something the device does. What the
  device does is an argument \<open>dev\<close> of the waiting loop.
\<close>

datatype 'e wakeup = Tick | Dev 'e

definition wake :: "('e \<Rightarrow> vnet \<Rightarrow> vnet) \<Rightarrow> 'e wakeup \<Rightarrow> vnet \<Rightarrow> vnet" where
  "wake dev w s = (case w of Tick \<Rightarrow> s\<lparr>timer_ticks := timer_ticks s + 1\<rparr> | Dev e \<Rightarrow> dev e s)"

text \<open>The waiting loop; \<open>None\<close> when it is still waiting after the given events.\<close>

fun tx_wait :: "('e \<Rightarrow> vnet \<Rightarrow> vnet) \<Rightarrow> nat \<Rightarrow> 'e wakeup list \<Rightarrow> vnet \<Rightarrow> (bool \<times> vnet) option" where
  "tx_wait dev dl ws s =
     (if avail_get16 (dmem s) (qused (txq s) + 2) \<noteq> last_used (txq s) then Some (True, s)
      else if dl \<le> timer_ticks s then Some (False, s)
      else (case ws of [] \<Rightarrow> None | w # ws \<Rightarrow> tx_wait dev dl ws (wake dev w s)))"

declare tx_wait.simps [simp del]

definition virtio_net_send :: "('e \<Rightarrow> vnet \<Rightarrow> vnet) \<Rightarrow> u8 list \<Rightarrow> 'e wakeup list \<Rightarrow> vnet \<Rightarrow> (bool \<times> vnet) option" where
  "virtio_net_send dev frame ws s =
     (if \<not> vready s then Some (False, s)
      else if MAX_FRAME < length frame then Some (False, s)
      else let m1 = mem_write (dmem s) (tx_scratch s) (replicate NET_HDR_SIZE 0 @ frame);
               m2 = push_avail (txq s) 0 (put_desc (qdesc (txq s)) (tx_scratch s) (NET_HDR_SIZE + length frame) 0 m1);
               s1 = port_out 0x10 1 (s\<lparr>dmem := m2\<rparr>)
           in (case tx_wait dev (timer_ticks s1 + 500) ws s1 of
                 None \<Rightarrow> None
               | Some (False, s2) \<Rightarrow> Some (False, s2)
               | Some (True, s2) \<Rightarrow> Some (True, s2\<lparr>txq := (txq s2)\<lparr>last_used := last_used (txq s2) + 1\<rparr>\<rparr>)))"

definition virtio_net_recv :: "u8 list \<Rightarrow> vnet \<Rightarrow> nat \<times> u8 list \<times> vnet" where
  "virtio_net_recv buf s =
     (let q = rxq s; used_idx = avail_get16 (dmem s) (qused q + 2)
      in if \<not> vready s then (0, buf, s)
         else if used_idx = last_used q then (0, buf, s)
         else let e = qused q + (4 + unat (last_used q) mod QUEUE_SIZE * 8);
                  slot = unat (get32le (dmem s) e);
                  total = unat (get32le (dmem s) (e + 4));
                  s1 = s\<lparr>rxq := q\<lparr>last_used := last_used q + 1\<rparr>\<rparr>;
                  frame_len = (if NET_HDR_SIZE < total then total - NET_HDR_SIZE else 0);
                  ok = (0 < frame_len \<and> frame_len \<le> length buf \<and> slot < NUM_ACTIVE);
                  data = mem_read (dmem s) (rx_bufs s ! slot + NET_HDR_SIZE) frame_len
              in (if ok then frame_len else 0, if ok then data @ drop frame_len buf else buf,
                  if slot < NUM_ACTIVE then port_out 0x10 0 (rx_repost slot s1) else s1))"

subsection \<open>The device\<close>

text \<open>What the device takes next from an avail ring, if anything was made available since.\<close>

definition dev_next :: "vqueue \<Rightarrow> u16 \<Rightarrow> bmem \<Rightarrow> nat option" where
  "dev_next q pos m =
     (if pos = avail_get16 m (qavail q + 2) then None
      else Some (unat (avail_get16 m (qavail q + (4 + unat pos mod QUEUE_SIZE * 2)))))"

definition desc_addr :: "vqueue \<Rightarrow> nat \<Rightarrow> bmem \<Rightarrow> nat" where
  "desc_addr q i m = unat (le_word (mem_read m (qdesc q + i * 16) 8) :: u64)"

definition desc_len :: "vqueue \<Rightarrow> nat \<Rightarrow> bmem \<Rightarrow> nat" where
  "desc_len q i m = unat (get32le m (qdesc q + i * 16 + 8))"

definition push_used :: "vqueue \<Rightarrow> nat \<Rightarrow> nat \<Rightarrow> bmem \<Rightarrow> bmem" where
  "push_used q i len m =
     (let ui = avail_get16 m (qused q + 2)
      in avail_put16 (qused q + 2) (ui + 1)
           (mem_write m (qused q + (4 + unat ui mod QUEUE_SIZE * 8)) (le_bytes 4 (word_of_nat i :: u32) @ le_bytes 4 (word_of_nat len :: u32))))"

text \<open>A frame that arrives without a free buffer, or that is too long for it, is lost.\<close>

definition dev_receive :: "u8 list \<Rightarrow> vnet \<Rightarrow> vnet" where
  "dev_receive f s =
     (case dev_next (rxq s) (dev_rx s) (dmem s) of
        None \<Rightarrow> s
      | Some i \<Rightarrow>
          if NET_HDR_SIZE + length f \<le> desc_len (rxq s) i (dmem s)
          then s\<lparr>dmem := push_used (rxq s) i (NET_HDR_SIZE + length f)
                           (mem_write (dmem s) (desc_addr (rxq s) i (dmem s)) (replicate NET_HDR_SIZE 0 @ f)),
                 dev_rx := dev_rx s + 1\<rparr>
          else s)"

definition dev_transmit :: "vnet \<Rightarrow> vnet" where
  "dev_transmit s =
     (case dev_next (txq s) (dev_tx s) (dmem s) of
        None \<Rightarrow> s
      | Some i \<Rightarrow>
          let f = drop NET_HDR_SIZE (mem_read (dmem s) (desc_addr (txq s) i (dmem s)) (desc_len (txq s) i (dmem s)))
          in s\<lparr>wire := wire s @ [f], dmem := push_used (txq s) i 0 (dmem s), dev_tx := dev_tx s + 1\<rparr>)"

datatype card_act = TxDone | Rx "u8 list"

definition nic :: "card_act \<Rightarrow> vnet \<Rightarrow> vnet" where
  "nic e s = (case e of TxDone \<Rightarrow> dev_transmit s | Rx f \<Rightarrow> dev_receive f s)"

end
