(* ===== verification/VirtioProps.thy ===== *)
theory VirtioProps
  imports VirtioNet
begin

section \<open>The network card driver as a queue of frames\<close>

text \<open>
  The rings and buffers of the network card's driver against the card of the network library's model:
  the frames received and not yet fetched are a queue of at most eight frames. First the reads of the shared
  memory after the driver's and the device's writes, then the invariant of the two queues with its ghost
  state, then every operation as a step of the queue.
\<close>

subsection \<open>Reads and writes of the rings\<close>

named_theorems ring_simps \<open>reads of a ring after a write\<close>

lemma put16_eq: "avail_put16 a v m = mem_write m a (le_bytes 2 v)"
  by (simp add: avail_put16_def numeral_2_eq_2)

lemma get16_eq: "avail_get16 m a = le_word (mem_read m a 2)"
proof -
  have "mem_read m a 2 = [m a, m (a + 1)]" by (simp add: mem_read_def upt_rec)
  then show ?thesis by (simp add: avail_get16_def)
qed

lemma mem_read_write_prefix: "n \<le> length bs \<Longrightarrow> mem_read (mem_write m a bs) a n = take n bs"
  using mem_read_write_inside [of 0 n bs m a] by simp

definition avail_idx :: "vqueue \<Rightarrow> bmem \<Rightarrow> u16" where
  "avail_idx q m = avail_get16 m (qavail q + 2)"

definition used_idx :: "vqueue \<Rightarrow> bmem \<Rightarrow> u16" where
  "used_idx q m = avail_get16 m (qused q + 2)"

definition avail_at :: "vqueue \<Rightarrow> nat \<Rightarrow> bmem \<Rightarrow> u16" where
  "avail_at q k m = avail_get16 m (qavail q + (4 + k mod 256 * 2))"

definition used_id :: "vqueue \<Rightarrow> nat \<Rightarrow> bmem \<Rightarrow> nat" where
  "used_id q k m = unat (get32le m (qused q + (4 + k mod 256 * 8)))"

definition used_len :: "vqueue \<Rightarrow> nat \<Rightarrow> bmem \<Rightarrow> nat" where
  "used_len q k m = unat (get32le m (qused q + (4 + k mod 256 * 8) + 4))"

lemmas ring_defs = avail_idx_def used_idx_def avail_at_def used_id_def used_len_def desc_addr_def desc_len_def
  get16_eq put16_eq get32le_def

lemma unat_u16_mod: "unat (of_nat n :: u16) mod 256 = n mod 256"
proof -
  have "n mod 65536 mod 256 = n mod 256" by (rule mod_mod_cancel) simp
  then show ?thesis by (simp add: unat_of_nat)
qed

lemma ring_position_le: "j \<le> k \<Longrightarrow> k \<le> 8 \<Longrightarrow> (L + j) mod 256 = (L + k) mod 256 \<Longrightarrow> j = (k::nat)"
  using mod_eq_dvd_iff_nat [of "L + j" "L + k" 256] by (auto dest: dvd_imp_le)

lemma ring_position:
  assumes "j \<le> 8" "k \<le> 8"
  shows "((L + j) mod 256 = (L + k) mod 256) = (j = (k::nat))"
  using ring_position_le [of j k L] ring_position_le [of k j L] assms by (cases "j \<le> k") auto

lemma u16_eq_near: "j \<le> 8 \<Longrightarrow> k \<le> 8 \<Longrightarrow> ((of_nat (L + j) :: u16) = of_nat (L + k)) = (j = k)"
  by (simp add: word_of_nat_eq_iff take_bit_eq_mod)

lemma slots_apart: "x \<noteq> y \<Longrightarrow> Suc x * s \<le> y * s \<or> Suc y * s \<le> x * (s::nat)"
  by (auto simp: nat_neq_iff simp del: mult_Suc intro: mult_le_mono1)

lemma read_other_slot:
  fixes x y s :: nat
  assumes "x \<noteq> y" "length bs \<le> s" "n \<le> s"
  shows "mem_read (mem_write m (b + (c + x * s)) bs) (b + (c + y * s)) n = mem_read m (b + (c + y * s)) n"
proof -
  have "Suc x * s \<le> y * s \<or> Suc y * s \<le> x * s" by (rule slots_apart [OF assms(1)])
  then show ?thesis using assms(2,3) by (auto simp: mem_read_write_other)
qed

lemma read_elem_len:
  fixes x y b :: nat
  assumes "length xs = 4" "length ys = 4"
  shows "mem_read (mem_write m (b + (4 + x * 8)) (xs @ ys)) (b + (4 + y * 8) + 4) 4 =
    (if x = y then ys else mem_read m (b + (4 + y * 8) + 4) 4)"
proof (cases "x = y")
  case True
  then show ?thesis using assms mem_read_write_inside [of 4 4 "xs @ ys" m "b + (4 + y * 8)"] by simp
next
  case False
  have "Suc x * 8 \<le> y * 8 \<or> Suc y * 8 \<le> x * 8" by (rule slots_apart [OF False])
  then show ?thesis using assms False by (auto simp: mem_read_write_other)
qed

lemma push_avail_idx [ring_simps]: "avail_idx q (push_avail q i m) = avail_idx q m + 1"
  by (simp add: push_avail_def ring_defs Let_def mem_simps le_word_le_bytes)

lemma push_avail_at [ring_simps]:
  "avail_idx q m = of_nat n \<Longrightarrow> avail_at q k (push_avail q i m) = (if k mod 256 = n mod 256 then i else avail_at q k m)"
  by (auto simp: push_avail_def ring_defs Let_def mem_simps le_word_le_bytes unat_u16_mod read_other_slot)

lemma push_avail_out: "a + n \<le> qavail q + 2 \<or> qavail q + 516 \<le> a \<Longrightarrow> mem_read (push_avail q i m) a n = mem_read m a n"
proof -
  assume a: "a + n \<le> qavail q + 2 \<or> qavail q + 516 \<le> a"
  have "x mod 256 * 2 \<le> 510" for x :: nat
  proof -
    have "x mod 256 < 256" by simp
    then show ?thesis by linarith
  qed
  from this [of "unat (avail_get16 m (qavail q + 2))"] a show ?thesis
    by (auto simp: push_avail_def Let_def put16_eq mem_simps)
qed

lemma push_used_idx [ring_simps]: "used_idx q (push_used q i l m) = used_idx q m + 1"
  by (simp add: push_used_def ring_defs Let_def mem_simps le_word_le_bytes)

lemma push_used_out: "a + n \<le> qused q + 2 \<or> qused q + 2052 \<le> a \<Longrightarrow> mem_read (push_used q i l m) a n = mem_read m a n"
proof -
  assume a: "a + n \<le> qused q + 2 \<or> qused q + 2052 \<le> a"
  have "x mod 256 * 8 \<le> 2040" for x :: nat
  proof -
    have "x mod 256 < 256" by simp
    then show ?thesis by linarith
  qed
  from this [of "unat (avail_get16 m (qused q + 2))"] a show ?thesis
    by (auto simp: push_used_def Let_def put16_eq mem_simps)
qed

lemma push_used_at [ring_simps]:
  assumes "used_idx q m = of_nat n" "i < 2 ^ 32" "l < 2 ^ 32"
  shows "used_id q k (push_used q i l m) = (if k mod 256 = n mod 256 then i else used_id q k m)"
    and "used_len q k (push_used q i l m) = (if k mod 256 = n mod 256 then l else used_len q k m)"
proof -
  have *: "unat (word_of_nat i :: u32) = i" "unat (word_of_nat l :: u32) = l"
    using assms(2,3) by (simp_all add: unat_of_nat)
  show "used_id q k (push_used q i l m) = (if k mod 256 = n mod 256 then i else used_id q k m)"
    using assms(1) by (auto simp: push_used_def ring_defs Let_def mem_simps mem_read_write_prefix le_word_le_bytes unat_u16_mod read_other_slot *)
  show "used_len q k (push_used q i l m) = (if k mod 256 = n mod 256 then l else used_len q k m)"
  proof -
    have "mem_read (push_used q i l m) (qused q + (4 + k mod 256 * 8) + 4) 4 =
      mem_read (mem_write m (qused q + (4 + n mod 256 * 8)) (le_bytes 4 (word_of_nat i :: u32) @ le_bytes 4 (word_of_nat l :: u32)))
        (qused q + (4 + k mod 256 * 8) + 4) 4"
      using assms(1) by (simp add: push_used_def used_idx_def Let_def put16_eq mem_simps unat_u16_mod)
    then show ?thesis unfolding used_len_def get32le_def by (simp only: read_elem_len length_le_bytes) (auto simp: le_word_le_bytes *)
  qed
qed

lemma put_desc_out: "a + n \<le> d \<or> d + 16 \<le> a \<Longrightarrow> mem_read (put_desc d p l f m) a n = mem_read m a n"
  by (auto simp: put_desc_def mem_simps)

lemma put_desc_addr [ring_simps]:
  assumes "p < 2 ^ 64" "l < 2 ^ 32"
  shows "desc_addr q i (put_desc (qdesc q + i * 16) p l f m) = p" "desc_len q i (put_desc (qdesc q + i * 16) p l f m) = l"
proof -
  have *: "unat (word_of_nat p :: u64) = p" "unat (word_of_nat l :: u32) = l"
    using assms by (simp_all add: unat_of_nat)
  show "desc_addr q i (put_desc (qdesc q + i * 16) p l f m) = p"
    by (simp add: put_desc_def ring_defs mem_read_write_prefix le_word_le_bytes *)
  show "desc_len q i (put_desc (qdesc q + i * 16) p l f m) = l"
    by (simp add: put_desc_def ring_defs mem_simps le_word_le_bytes *)
qed

subsection \<open>The invariant\<close>

text \<open>Where \<open>virtio_net_init\<close> puts the queues and buffers.\<close>

definition laid_out :: "vnet \<Rightarrow> bool" where
  "laid_out s \<longleftrightarrow>
     qdesc (rxq s) = 0x180000 \<and> qavail (rxq s) = 0x181000 \<and> qused (rxq s) = 0x182000 \<and>
     qdesc (txq s) = 0x184000 \<and> qavail (txq s) = 0x185000 \<and> qused (txq s) = 0x186000 \<and>
     rx_bufs s = map (\<lambda>i. 0x188000 + i * 4096) [0..<8] \<and> tx_scratch s = 0x190000"

text \<open>
  \<open>L\<close> frames were fetched so far, \<open>ids\<close> are the buffers the card owns or owned since, the oldest first, and the
  first of them hold the frames \<open>fs\<close>.
\<close>

definition rx_inv :: "nat \<Rightarrow> nat list \<Rightarrow> u8 list list \<Rightarrow> vnet \<Rightarrow> bool" where
  "rx_inv L ids fs s \<longleftrightarrow>
     distinct ids \<and> set ids \<subseteq> {0..<8} \<and> length fs \<le> length ids \<and> (\<forall>f\<in>set fs. length f \<le> MAX_FRAME) \<and>
     last_used (rxq s) = of_nat L \<and> dev_rx s = of_nat (L + length fs) \<and>
     avail_idx (rxq s) (dmem s) = of_nat (L + length ids) \<and> used_idx (rxq s) (dmem s) = of_nat (L + length fs) \<and>
     (\<forall>k<length fs. used_id (rxq s) (L + k) (dmem s) = ids ! k \<and>
        used_len (rxq s) (L + k) (dmem s) = NET_HDR_SIZE + length (fs ! k) \<and>
        mem_read (dmem s) (rx_bufs s ! (ids ! k) + NET_HDR_SIZE) (length (fs ! k)) = fs ! k) \<and>
     (\<forall>k<length ids. length fs \<le> k \<longrightarrow> avail_at (rxq s) (L + k) (dmem s) = of_nat (ids ! k)) \<and>
     (\<forall>i\<in>set ids. desc_addr (rxq s) i (dmem s) = rx_bufs s ! i \<and> desc_len (rxq s) i (dmem s) = BUF_SIZE)"

lemma buf_at: "laid_out s \<Longrightarrow> i < 8 \<Longrightarrow> rx_bufs s ! i = 0x188000 + i * 4096"
  by (simp add: laid_out_def)

lemma rx_ids_bound: "rx_inv L ids fs s \<Longrightarrow> length ids \<le> 8"
  unfolding rx_inv_def by (metis card_atLeastLessThan card_mono diff_zero distinct_card finite_atLeastLessThan)

text \<open>The memory of the receive side.\<close>

definition rx_agree :: "bmem \<Rightarrow> bmem \<Rightarrow> bool" where
  "rx_agree m m' \<longleftrightarrow> (\<forall>a. 0x180000 \<le> a \<and> a < 0x184000 \<or> 0x188000 \<le> a \<and> a < 0x190000 \<longrightarrow> m' a = m a)"

lemma rx_agree_read:
  "rx_agree m m' \<Longrightarrow> 0x180000 \<le> a \<and> a + n \<le> 0x184000 \<or> 0x188000 \<le> a \<and> a + n \<le> 0x190000 \<Longrightarrow> mem_read m' a n = mem_read m a n"
  by (rule mem_read_eqI) (auto simp: rx_agree_def)

lemma mod_256_le: "(k::nat) mod 256 \<le> 255"
  using mod_less_divisor [of 256 k] by linarith

lemma rx_ring_agree:
  assumes "laid_out s" "rx_agree m m'"
  shows "avail_idx (rxq s) m' = avail_idx (rxq s) m" "used_idx (rxq s) m' = used_idx (rxq s) m"
    "avail_at (rxq s) k m' = avail_at (rxq s) k m" "used_id (rxq s) k m' = used_id (rxq s) k m"
    "used_len (rxq s) k m' = used_len (rxq s) k m"
    "i < 8 \<Longrightarrow> desc_addr (rxq s) i m' = desc_addr (rxq s) i m" "i < 8 \<Longrightarrow> desc_len (rxq s) i m' = desc_len (rxq s) i m"
    "i < 8 \<Longrightarrow> n \<le> MAX_FRAME \<Longrightarrow> mem_read m' (rx_bufs s ! i + NET_HDR_SIZE) n = mem_read m (rx_bufs s ! i + NET_HDR_SIZE) n"
  using assms(1) mod_256_le [of k] by (auto simp: ring_defs laid_out_def rx_agree_read [OF assms(2)])

lemma rx_inv_agree:
  assumes "rx_inv L ids fs s" "laid_out s" "rxq s' = rxq s" "rx_bufs s' = rx_bufs s" "dev_rx s' = dev_rx s"
    "rx_agree (dmem s) (dmem s')"
  shows "rx_inv L ids fs s'"
proof -
  have lt: "i < 8" if "i \<in> set ids" for i using assms(1) that unfolding rx_inv_def by auto
  have b: "mem_read (dmem s') (rx_bufs s ! (ids ! k) + NET_HDR_SIZE) (length (fs ! k)) =
      mem_read (dmem s) (rx_bufs s ! (ids ! k) + NET_HDR_SIZE) (length (fs ! k))" if "k < length fs" for k
  proof (rule rx_ring_agree(8) [OF assms(2,6)])
    show "ids ! k < 8" using assms(1) that by (intro lt nth_mem) (simp add: rx_inv_def)
    show "length (fs ! k) \<le> MAX_FRAME" using assms(1) that by (simp add: rx_inv_def)
  qed
  have d: "desc_addr (rxq s) i (dmem s') = desc_addr (rxq s) i (dmem s)" "desc_len (rxq s) i (dmem s') = desc_len (rxq s) i (dmem s)"
    if "i \<in> set ids" for i
    by (rule rx_ring_agree(6) [OF assms(2,6) lt [OF that]], rule rx_ring_agree(7) [OF assms(2,6) lt [OF that]])
  show ?thesis using assms(1)
    unfolding rx_inv_def assms(3-5) by (simp add: rx_ring_agree(1-5) [OF assms(2,6)] b d cong: ball_cong)
qed

lemma push_avail_rings:
  "avail_idx q' (push_avail q i m) = avail_idx q' m \<and> used_idx q' (push_avail q i m) = used_idx q' m"
  if "qavail q + 516 \<le> qavail q' \<or> qavail q' + 516 \<le> qavail q" "qavail q + 516 \<le> qused q' \<or> qused q' + 4 \<le> qavail q"
  using that by (auto simp: avail_idx_def used_idx_def get16_eq push_avail_out)

text \<open>A buffer given back to the card.\<close>

lemma rx_inv_repost:
  assumes "rx_inv L ids fs s" "laid_out s" "i < 8" "i \<notin> set ids"
  shows "rx_inv L (ids @ [i]) fs (rx_repost i s)"
proof -
  define m where "m = put_desc (qdesc (rxq s) + i * 16) (rx_bufs s ! i) BUF_SIZE 2 (dmem s)"
  define m' where "m' = push_avail (rxq s) (word_of_nat i) m"
  have lay: "qdesc (rxq s) = 0x180000" "qavail (rxq s) = 0x181000" "qused (rxq s) = 0x182000"
    "\<And>j. j < 8 \<Longrightarrow> rx_bufs s ! j = 0x188000 + j * 4096" using assms(2) by (simp_all add: laid_out_def)
  have out: "mem_read m' a n = mem_read (dmem s) a n" if "0x182000 \<le> a" for a n
    using that assms(3) by (simp add: m'_def m_def push_avail_out put_desc_out lay)
  have av: "avail_idx (rxq s) m = avail_idx (rxq s) (dmem s)" "\<And>k. avail_at (rxq s) k m = avail_at (rxq s) k (dmem s)"
    using assms(3) by (simp_all add: m_def avail_idx_def avail_at_def get16_eq put_desc_out lay)
  have len: "length ids \<le> 8" by (rule rx_ids_bound [OF assms(1)])
  have desc: "desc_addr (rxq s) j m' = desc_addr (rxq s) j m \<and> desc_len (rxq s) j m' = desc_len (rxq s) j m" if "j < 8" for j
    using that by (simp add: m'_def desc_addr_def desc_len_def get32le_def push_avail_out lay)
  have di: "desc_addr (rxq s) i m = rx_bufs s ! i" "desc_len (rxq s) i m = BUF_SIZE"
    unfolding m_def by (rule put_desc_addr; use assms(3) in \<open>simp add: lay\<close>)+
  have dj: "desc_addr (rxq s) j m = desc_addr (rxq s) j (dmem s) \<and> desc_len (rxq s) j m = desc_len (rxq s) j (dmem s)"
    if "j \<noteq> i" for j
  proof -
    have "Suc i * 16 \<le> j * 16 \<or> Suc j * 16 \<le> i * 16" by (rule slots_apart [OF that [symmetric]])
    then show ?thesis by (auto simp: m_def desc_addr_def desc_len_def get32le_def put_desc_out lay)
  qed
  have I: "avail_idx (rxq s) (dmem s) = of_nat (L + length ids)" using assms(1) by (simp add: rx_inv_def)
  have at: "avail_at (rxq s) (L + k) m' = (if k = length ids then of_nat i else avail_at (rxq s) (L + k) (dmem s))" if "k \<le> 8" for k
    using push_avail_at [of "rxq s" m "L + length ids" "L + k" "word_of_nat i"] ring_position [of k "length ids" L] that len
    by (simp add: m'_def av I)
  have used: "used_idx (rxq s) m' = used_idx (rxq s) (dmem s)" "\<And>k. used_id (rxq s) k m' = used_id (rxq s) k (dmem s)"
    "\<And>k. used_len (rxq s) k m' = used_len (rxq s) k (dmem s)"
    by (simp_all add: ring_defs out lay)
  have idx: "avail_idx (rxq s) m' = of_nat (L + length (ids @ [i]))" by (simp add: m'_def push_avail_idx av I)
  have buf: "\<And>j n. j < 8 \<Longrightarrow> mem_read m' (rx_bufs s ! j + NET_HDR_SIZE) n = mem_read (dmem s) (rx_bufs s ! j + NET_HDR_SIZE) n"
    by (simp add: out lay)
  have st: "rx_repost i s = s\<lparr>dmem := m'\<rparr>" by (simp add: rx_repost_def m'_def m_def)
  have lt: "j < 8 \<and> j \<noteq> i" if "j \<in> set ids" for j using assms(1,4) that unfolding rx_inv_def by auto
  have nth: "(ids @ [i]) ! k = ids ! k \<and> ids ! k < 8" if "k < length fs" for k
    using that assms(1) lt [OF nth_mem, of k] by (simp add: rx_inv_def nth_append)
  have avs: "\<forall>k<length (ids @ [i]). length fs \<le> k \<longrightarrow> avail_at (rxq s) (L + k) m' = of_nat ((ids @ [i]) ! k)"
    using assms(1) len by (auto simp: at nth_append less_Suc_eq rx_inv_def)
  have ds: "\<forall>j\<in>set (ids @ [i]). desc_addr (rxq s) j m' = rx_bufs s ! j \<and> desc_len (rxq s) j m' = BUF_SIZE"
    using assms(1,3) by (auto simp: desc dj di lt rx_inv_def)
  have dist: "distinct (ids @ [i]) \<and> set (ids @ [i]) \<subseteq> {0..<8}" using assms(1,3,4) by (simp add: rx_inv_def)
  show ?thesis
    using assms(1) dist avs ds unfolding st rx_inv_def
    by (simp add: used idx buf nth)
qed

text \<open>A frame that arrives.\<close>

lemma rx_dev_next:
  assumes "rx_inv L ids fs s"
  shows "dev_next (rxq s) (dev_rx s) (dmem s) = (if length fs < length ids then Some (ids ! length fs) else None)"
proof -
  have ids: "length ids \<le> 8" by (rule rx_ids_bound [OF assms])
  have le: "length fs \<le> length ids" and pos: "dev_rx s = of_nat (L + length fs)"
    and ix: "avail_get16 (dmem s) (qavail (rxq s) + 2) = of_nat (L + length ids)"
    and at: "length fs < length ids \<Longrightarrow> avail_at (rxq s) (L + length fs) (dmem s) = of_nat (ids ! length fs)"
    using assms unfolding rx_inv_def by (auto simp: avail_idx_def)
  have ne: "(dev_rx s = avail_get16 (dmem s) (qavail (rxq s) + 2)) = (length fs = length ids)"
    unfolding pos ix using ids le by (intro u16_eq_near) auto
  show ?thesis
  proof (cases "length fs < length ids")
    case True
    have "ids ! length fs < 8" using assms nth_mem [OF True] unfolding rx_inv_def by auto
    then have "unat (of_nat (ids ! length fs) :: u16) = ids ! length fs" by (simp add: unat_of_nat)
    moreover have "avail_get16 (dmem s) (qavail (rxq s) + (4 + unat (dev_rx s) mod QUEUE_SIZE * 2)) = of_nat (ids ! length fs)"
      using at [OF True] unfolding avail_at_def pos unat_u16_mod .
    ultimately show ?thesis using True ne by (simp add: dev_next_def)
  next
    case False
    then show ?thesis using ne le by (simp add: dev_next_def)
  qed
qed

lemma dev_receive_lost:
  assumes "rx_inv L ids fs s" "length fs = length ids \<or> MAX_FRAME < length f"
  shows "dev_receive f s = s"
proof (cases "length fs < length ids")
  case True
  then have "desc_len (rxq s) (ids ! length fs) (dmem s) = BUF_SIZE" using assms(1) unfolding rx_inv_def by auto
  then show ?thesis using assms True rx_dev_next [OF assms(1)] by (simp add: dev_receive_def)
next
  case False
  then show ?thesis using rx_dev_next [OF assms(1)] by (simp add: dev_receive_def)
qed

lemma rx_inv_receive:
  assumes "rx_inv L ids fs s" "laid_out s" "length fs < length ids" "length f \<le> MAX_FRAME"
  shows "rx_inv L ids (fs @ [f]) (dev_receive f s)"
proof -
  define i where "i = ids ! length fs"
  define m where "m = mem_write (dmem s) (rx_bufs s ! i) (replicate NET_HDR_SIZE 0 @ f)"
  define m' where "m' = push_used (rxq s) i (NET_HDR_SIZE + length f) m"
  have inv: "distinct ids" "used_idx (rxq s) (dmem s) = of_nat (L + length fs)"
    "\<And>j. j \<in> set ids \<Longrightarrow> j < 8 \<and> desc_addr (rxq s) j (dmem s) = rx_bufs s ! j \<and> desc_len (rxq s) j (dmem s) = BUF_SIZE"
    using assms(1) unfolding rx_inv_def by auto
  have i: "i \<in> set ids" "i < 8" using assms(3) inv(3) [of i] by (auto simp: i_def)
  have st: "dev_receive f s = s\<lparr>dmem := m', dev_rx := dev_rx s + 1\<rparr>"
    using assms(3,4) inv(3) [OF i(1)] rx_dev_next [OF assms(1)] by (simp add: dev_receive_def m'_def m_def i_def)
  have lay: "qdesc (rxq s) = 0x180000" "qavail (rxq s) = 0x181000" "qused (rxq s) = 0x182000"
    "\<And>j. j < 8 \<Longrightarrow> rx_bufs s ! j = 0x188000 + j * 4096" using assms(2) by (simp_all add: laid_out_def)
  have low: "mem_read m' a n = mem_read (dmem s) a n" if "a + n \<le> 0x182002" for a n
    using that i(2) by (simp add: m'_def m_def push_used_out mem_read_write_other lay)
  have used0: "used_idx (rxq s) m = used_idx (rxq s) (dmem s)" "used_id (rxq s) k m = used_id (rxq s) k (dmem s)"
    "used_len (rxq s) k m = used_len (rxq s) k (dmem s)" for k
    using mod_256_le [of k] i(2) by (auto simp: m_def ring_defs mem_read_write_other lay)
  have used: "used_idx (rxq s) m' = of_nat (L + length (fs @ [f]))" by (simp add: m'_def push_used_idx used0 inv(2))
  have n: "used_idx (rxq s) m = of_nat (L + length fs)" by (simp add: used0 inv(2))
  have len: "length ids \<le> 8" by (rule rx_ids_bound [OF assms(1)])
  have elem: "used_id (rxq s) (L + k) m' = (if k = length fs then i else used_id (rxq s) (L + k) (dmem s))"
    "used_len (rxq s) (L + k) m' = (if k = length fs then NET_HDR_SIZE + length f else used_len (rxq s) (L + k) (dmem s))"
    if "k \<le> length fs" for k
    using push_used_at [OF n, of i "NET_HDR_SIZE + length f" "L + k"] i(2) assms(3,4) that len ring_position [of k "length fs" L]
    by (simp_all add: m'_def used0)
  have up: "mem_read m' a n = mem_read m a n" if "0x188000 \<le> a" for a n
    using that by (simp add: m'_def push_used_out lay)
  have buf_i: "mem_read m' (rx_bufs s ! i + NET_HDR_SIZE) (length f) = f"
  proof -
    have "mem_read m (rx_bufs s ! i + NET_HDR_SIZE) (length f) = f" unfolding m_def by (subst mem_read_write_inside) simp_all
    then show ?thesis using up [of "rx_bufs s ! i + NET_HDR_SIZE" "length f"] i(2) by (simp add: lay)
  qed
  have buf: "mem_read m' (rx_bufs s ! j + NET_HDR_SIZE) n = mem_read (dmem s) (rx_bufs s ! j + NET_HDR_SIZE) n"
    if "j \<noteq> i" "j < 8" "n \<le> MAX_FRAME" for j n
  proof -
    have "Suc i * 4096 \<le> j * 4096 \<or> Suc j * 4096 \<le> i * 4096" by (rule slots_apart [OF that(1) [symmetric]])
    then have "mem_read m (rx_bufs s ! j + NET_HDR_SIZE) n = mem_read (dmem s) (rx_bufs s ! j + NET_HDR_SIZE) n"
      unfolding m_def lay(4) [OF that(2)] lay(4) [OF i(2)]
      by (intro mem_read_write_other) (use that assms(4) in \<open>simp; linarith\<close>)
    moreover have "0x188000 \<le> rx_bufs s ! j + NET_HDR_SIZE" using lay(4) [OF that(2)] by simp
    ultimately show ?thesis using up by simp
  qed
  have avail: "avail_idx (rxq s) m' = avail_idx (rxq s) (dmem s)" "avail_at (rxq s) k m' = avail_at (rxq s) k (dmem s)" for k
    using mod_256_le [of k] by (auto simp: ring_defs low lay)
  have desc: "desc_addr (rxq s) j m' = desc_addr (rxq s) j (dmem s) \<and> desc_len (rxq s) j m' = desc_len (rxq s) j (dmem s)"
    if "j \<in> set ids" for j
    using inv(3) [OF that] by (auto simp: desc_addr_def desc_len_def get32le_def low lay)
  have frames: "used_id (rxq s) (L + k) m' = ids ! k \<and> used_len (rxq s) (L + k) m' = NET_HDR_SIZE + length ((fs @ [f]) ! k) \<and>
      mem_read m' (rx_bufs s ! (ids ! k) + NET_HDR_SIZE) (length ((fs @ [f]) ! k)) = (fs @ [f]) ! k" if "k < length (fs @ [f])" for k
  proof (cases "k = length fs")
    case True
    then show ?thesis using elem [of k] buf_i by (simp add: i_def)
  next
    case False
    then have k: "k < length fs" using that by simp
    then have "ids ! k \<noteq> i" "ids ! k < 8" using inv(1) inv(3) [of "ids ! k"] assms(3) by (auto simp: i_def nth_eq_iff_index_eq)
    moreover have "length (fs ! k) \<le> MAX_FRAME" using assms(1) k by (simp add: rx_inv_def)
    ultimately show ?thesis using k elem [of k] buf [of "ids ! k" "length (fs ! k)"] assms(1)
      unfolding rx_inv_def by (simp add: nth_append)
  qed
  show ?thesis unfolding st rx_inv_def
    using assms(1,3,4) used frames unfolding rx_inv_def by (simp add: avail desc cong: ball_cong)
qed

text \<open>A frame fetched.\<close>

lemma rx_inv_popped:
  assumes "rx_inv L (i # ids) (f # fs) s"
  shows "rx_inv (Suc L) ids fs (s\<lparr>rxq := (rxq s)\<lparr>last_used := last_used (rxq s) + 1\<rparr>\<rparr>)" (is "rx_inv _ _ _ ?t")
proof -
  have q: "avail_idx (rxq ?t) = avail_idx (rxq s)" "used_idx (rxq ?t) = used_idx (rxq s)" "avail_at (rxq ?t) = avail_at (rxq s)"
    "used_id (rxq ?t) = used_id (rxq s)" "used_len (rxq ?t) = used_len (rxq s)"
    "desc_addr (rxq ?t) = desc_addr (rxq s)" "desc_len (rxq ?t) = desc_len (rxq s)"
    by (auto simp: avail_idx_def used_idx_def avail_at_def used_id_def used_len_def desc_addr_def desc_len_def intro!: ext)
  have A: "\<And>k. k < length (f # fs) \<Longrightarrow> used_id (rxq s) (L + k) (dmem s) = (i # ids) ! k \<and>
        used_len (rxq s) (L + k) (dmem s) = NET_HDR_SIZE + length ((f # fs) ! k) \<and>
        mem_read (dmem s) (rx_bufs s ! ((i # ids) ! k) + NET_HDR_SIZE) (length ((f # fs) ! k)) = (f # fs) ! k"
    and B: "\<And>k. k < length (i # ids) \<Longrightarrow> length (f # fs) \<le> k \<Longrightarrow> avail_at (rxq s) (L + k) (dmem s) = of_nat ((i # ids) ! k)"
    using assms unfolding rx_inv_def by blast+
  show ?thesis using assms A [of "Suc _"] B [of "Suc _"] unfolding rx_inv_def q by simp
qed

lemma rx_inv_head:
  assumes "rx_inv L ids (f # fs) s" "laid_out s"
  obtains i ids' where "ids = i # ids'" "i < 8" "i \<notin> set ids'" "used_id (rxq s) L (dmem s) = i"
    "used_len (rxq s) L (dmem s) = NET_HDR_SIZE + length f" "mem_read (dmem s) (rx_bufs s ! i + NET_HDR_SIZE) (length f) = f"
proof -
  obtain i ids' where ids: "ids = i # ids'" using assms(1) by (cases ids) (auto simp: rx_inv_def)
  have "used_id (rxq s) (L + 0) (dmem s) = ids ! 0 \<and> used_len (rxq s) (L + 0) (dmem s) = NET_HDR_SIZE + length ((f # fs) ! 0) \<and>
      mem_read (dmem s) (rx_bufs s ! (ids ! 0) + NET_HDR_SIZE) (length ((f # fs) ! 0)) = (f # fs) ! 0"
    using assms(1) unfolding rx_inv_def by blast
  moreover have "i < 8" "i \<notin> set ids'" using assms(1) by (auto simp: rx_inv_def ids)
  ultimately show ?thesis using that [OF ids] by (simp add: ids)
qed

lemma recv_empty:
  assumes "rx_inv L ids [] s"
  shows "virtio_net_recv buf s = (0, buf, s)"
  using assms by (simp add: virtio_net_recv_def rx_inv_def used_idx_def Let_def)

lemma laid_out_repost [simp]: "laid_out (rx_repost i s) = laid_out s"
  by (simp add: rx_repost_def laid_out_def)

lemma rx_inv_port [simp]: "rx_inv L ids fs (port_out p v s) = rx_inv L ids fs s"
  "laid_out (port_out p v s) = laid_out s" "vready (port_out p v s) = vready s"
  by (simp_all add: port_out_def rx_inv_def laid_out_def)

lemma recv_frame:
  assumes "rx_inv L ids (f # fs) s" "laid_out s" "vready s"
  obtains i ids' where "ids = i # ids'"
    "virtio_net_recv buf s =
      (if length f \<le> length buf then length f else 0, if length f \<le> length buf then f @ drop (length f) buf else buf,
       port_out 0x10 0 (rx_repost i (s\<lparr>rxq := (rxq s)\<lparr>last_used := last_used (rxq s) + 1\<rparr>\<rparr>)))"
    "rx_inv (Suc L) (ids' @ [i]) fs (port_out 0x10 0 (rx_repost i (s\<lparr>rxq := (rxq s)\<lparr>last_used := last_used (rxq s) + 1\<rparr>\<rparr>)))"
proof -
  obtain i ids' where i: "ids = i # ids'" "i < 8" "i \<notin> set ids'" "used_id (rxq s) L (dmem s) = i"
    "used_len (rxq s) L (dmem s) = NET_HDR_SIZE + length f" "mem_read (dmem s) (rx_bufs s ! i + NET_HDR_SIZE) (length f) = f"
    by (rule rx_inv_head [OF assms(1,2)])
  have lu: "last_used (rxq s) = of_nat L" using assms(1) by (simp add: rx_inv_def)
  have "length ids \<le> 8" "length (f # fs) \<le> length ids" using rx_ids_bound [OF assms(1)] assms(1) by (auto simp: rx_inv_def)
  then have "(of_nat (L + length (f # fs)) :: u16) \<noteq> of_nat (L + 0)" by (subst u16_eq_near) auto
  then have ne: "avail_get16 (dmem s) (qused (rxq s) + 2) \<noteq> last_used (rxq s)"
    using assms(1) unfolding rx_inv_def used_idx_def by simp
  have slot: "unat (get32le (dmem s) (qused (rxq s) + (4 + unat (last_used (rxq s)) mod QUEUE_SIZE * 8))) = i"
    using i(4) unfolding used_id_def lu unat_u16_mod .
  have total: "unat (get32le (dmem s) (qused (rxq s) + (4 + unat (last_used (rxq s)) mod QUEUE_SIZE * 8) + 4)) = NET_HDR_SIZE + length f"
    using i(5) unfolding used_len_def lu unat_u16_mod .
  let ?t = "s\<lparr>rxq := (rxq s)\<lparr>last_used := last_used (rxq s) + 1\<rparr>\<rparr>"
  have "rx_inv (Suc L) ids' fs ?t" using assms(1) unfolding i(1) by (rule rx_inv_popped)
  then have "rx_inv (Suc L) (ids' @ [i]) fs (rx_repost i ?t)"
    using i(2,3) assms(2) by (intro rx_inv_repost) (simp_all add: laid_out_def)
  moreover have "virtio_net_recv buf s =
      (if length f \<le> length buf then length f else 0, if length f \<le> length buf then f @ drop (length f) buf else buf,
       port_out 0x10 0 (rx_repost i ?t))"
    unfolding virtio_net_recv_def Let_def slot total using assms(3) ne i(2,6) by auto
  ultimately show ?thesis using that [OF i(1)] by simp
qed

end
