(* ===== verification/VirtioSend.thy ===== *)
theory VirtioSend
  imports VirtioProps
begin

section \<open>The transmit queue of the network card driver\<close>

text \<open>
  The transmit side: the positions of driver and card in the transmit rings, the posting of a frame, the wait for its
  completion, and that the two sides of the driver do not disturb each other.
\<close>

text \<open>\<open>l\<close>: completions the driver has seen, \<open>d\<close>: entries the card has taken and completed, \<open>a\<close>: entries made available.\<close>

definition tx_at :: "nat \<Rightarrow> nat \<Rightarrow> nat \<Rightarrow> vnet \<Rightarrow> bool" where
  "tx_at l d a s \<longleftrightarrow>
     last_used (txq s) = of_nat l \<and> dev_tx s = of_nat d \<and> used_idx (txq s) (dmem s) = of_nat d \<and>
     avail_idx (txq s) (dmem s) = of_nat a \<and> d \<le> a \<and> a \<le> d + 7 \<and> (\<forall>k. d \<le> k \<and> k < a \<longrightarrow> avail_at (txq s) k (dmem s) = 0)"

text \<open>The frame the only transmit buffer holds.\<close>

definition tx_holds :: "u8 list \<Rightarrow> vnet \<Rightarrow> bool" where
  "tx_holds f s \<longleftrightarrow>
     desc_addr (txq s) 0 (dmem s) = tx_scratch s \<and> desc_len (txq s) 0 (dmem s) = NET_HDR_SIZE + length f \<and>
     mem_read (dmem s) (tx_scratch s) (NET_HDR_SIZE + length f) = replicate NET_HDR_SIZE 0 @ f"

definition tx_post :: "u8 list \<Rightarrow> vnet \<Rightarrow> vnet" where
  "tx_post f s =
     port_out 0x10 1 (s\<lparr>dmem := push_avail (txq s) 0 (put_desc (qdesc (txq s)) (tx_scratch s) (NET_HDR_SIZE + length f) 0
       (mem_write (dmem s) (tx_scratch s) (replicate NET_HDR_SIZE 0 @ f)))\<rparr>)"

lemma send_eq:
  "vready s \<Longrightarrow> length f \<le> MAX_FRAME \<Longrightarrow> virtio_net_send dev f ws s =
     (case tx_wait dev (timer_ticks s + 500) ws (tx_post f s) of
        None \<Rightarrow> None
      | Some (False, s2) \<Rightarrow> Some (False, s2)
      | Some (True, s2) \<Rightarrow> Some (True, s2\<lparr>txq := (txq s2)\<lparr>last_used := last_used (txq s2) + 1\<rparr>\<rparr>))"
  by (simp add: virtio_net_send_def tx_post_def port_out_def Let_def)

lemma txq_ring_eq [simp]:
  "avail_idx (q\<lparr>last_used := n\<rparr>) = avail_idx q" "used_idx (q\<lparr>last_used := n\<rparr>) = used_idx q"
  "avail_at (q\<lparr>last_used := n\<rparr>) = avail_at q" "desc_addr (q\<lparr>last_used := n\<rparr>) = desc_addr q"
  "desc_len (q\<lparr>last_used := n\<rparr>) = desc_len q"
  by (auto simp: avail_idx_def used_idx_def avail_at_def desc_addr_def desc_len_def intro!: ext)

lemma tx_position: "d \<le> k \<Longrightarrow> k \<le> d + 8 \<Longrightarrow> d \<le> a \<Longrightarrow> a \<le> d + 8 \<Longrightarrow> (k mod 256 = a mod 256) = (k = (a::nat))"
  using ring_position [of "k - d" "a - d" d] by auto

lemma tx_u16: "d \<le> k \<Longrightarrow> k \<le> d + 8 \<Longrightarrow> d \<le> a \<Longrightarrow> a \<le> d + 8 \<Longrightarrow> ((of_nat k :: u16) = of_nat a) = (k = (a::nat))"
  using u16_eq_near [of "k - d" "a - d" d] by auto

lemma tx_post_at:
  assumes "tx_at l d a s" "laid_out s" "length f \<le> MAX_FRAME" "a < d + 7"
  shows "tx_at l d (Suc a) (tx_post f s)" "tx_holds f (tx_post f s)"
proof -
  define m1 where "m1 = mem_write (dmem s) (tx_scratch s) (replicate NET_HDR_SIZE 0 @ f)"
  define m2 where "m2 = put_desc (qdesc (txq s)) (tx_scratch s) (NET_HDR_SIZE + length f) 0 m1"
  define m where "m = push_avail (txq s) 0 m2"
  have lay: "qdesc (txq s) = 0x184000" "qavail (txq s) = 0x185000" "qused (txq s) = 0x186000" "tx_scratch s = 0x190000"
    using assms(2) by (simp_all add: laid_out_def)
  have st: "tx_post f s = port_out 0x10 1 (s\<lparr>dmem := m\<rparr>)" by (simp add: tx_post_def m_def m2_def m1_def)
  have ring: "mem_read m2 x n = mem_read (dmem s) x n" if "0x185000 \<le> x" "x + n \<le> 0x190000" for x n
    using that by (simp add: m2_def m1_def put_desc_out mem_read_write_other lay)
  have av: "avail_idx (txq s) m2 = of_nat a" "\<And>k. avail_at (txq s) k m2 = avail_at (txq s) k (dmem s)"
    using assms(1) mod_256_le by (auto simp: avail_idx_def avail_at_def get16_eq ring lay tx_at_def intro!: arg_cong [of _ _ le_word] ring)
  have used: "used_idx (txq s) m = of_nat d"
    using assms(1) by (simp add: m_def used_idx_def get16_eq push_avail_out ring lay tx_at_def)
  have idx: "avail_idx (txq s) m = of_nat (Suc a)" by (simp add: m_def push_avail_idx av)
  have at: "avail_at (txq s) k m = 0" if "d \<le> k" "k \<le> a" for k
    using assms(1,4) that push_avail_at [OF av(1), of k 0] av(2) [of k] tx_position [of d k a]
    by (auto simp: m_def tx_at_def)
  show "tx_at l d (Suc a) (tx_post f s)"
    using assms(1,4) used idx at unfolding st tx_at_def port_out_def by simp
  have "mem_read m x n = mem_read m2 x n" if "x + n \<le> 0x185002 \<or> 0x186000 \<le> x" for x n
    using that by (auto simp: m_def push_avail_out lay)
  moreover have "desc_addr (txq s) 0 m2 = 0x190000" "desc_len (txq s) 0 m2 = NET_HDR_SIZE + length f"
    using put_desc_addr [of "0x190000" "NET_HDR_SIZE + length f" "txq s" 0 0 m1] assms(3) by (simp_all add: m2_def lay)
  moreover have "mem_read m2 0x190000 (NET_HDR_SIZE + length f) = replicate NET_HDR_SIZE 0 @ f"
    unfolding m2_def m1_def lay by (subst put_desc_out, simp, rule mem_read_write_same, simp)
  ultimately show "tx_holds f (tx_post f s)"
    unfolding st tx_holds_def port_out_def by (simp add: desc_addr_def desc_len_def get32le_def lay)
qed

lemma transmit_at:
  assumes "tx_at l d a s" "laid_out s" "tx_holds f s" "length f \<le> MAX_FRAME" "d < a"
  shows "tx_at l (Suc d) a (dev_transmit s)" "tx_holds f (dev_transmit s)" "wire (dev_transmit s) = wire s @ [f]"
proof -
  define m where "m = push_used (txq s) 0 0 (dmem s)"
  have lay: "qdesc (txq s) = 0x184000" "qavail (txq s) = 0x185000" "qused (txq s) = 0x186000" "tx_scratch s = 0x190000"
    using assms(2) by (simp_all add: laid_out_def)
  have "(of_nat d :: u16) \<noteq> of_nat a" using assms(1,5) tx_u16 [of d d a] by (simp add: tx_at_def)
  moreover have "avail_at (txq s) d (dmem s) = 0" using assms(1,5) by (simp add: tx_at_def)
  ultimately have next_: "dev_next (txq s) (dev_tx s) (dmem s) = Some 0"
    using assms(1) unfolding tx_at_def dev_next_def avail_idx_def avail_at_def by (simp add: unat_u16_mod)
  have st: "dev_transmit s = s\<lparr>wire := wire s @ [f], dmem := m, dev_tx := dev_tx s + 1\<rparr>"
    using assms(3) next_ by (simp add: dev_transmit_def m_def tx_holds_def)
  then show "wire (dev_transmit s) = wire s @ [f]" by simp
  have out: "mem_read m x n = mem_read (dmem s) x n" if "x + n \<le> 0x186002 \<or> 0x186804 \<le> x" for x n
    using that by (simp add: m_def push_used_out lay)
  have "avail_idx (txq s) m = avail_idx (txq s) (dmem s)" "avail_at (txq s) k m = avail_at (txq s) k (dmem s)" for k
    using mod_256_le [of k] by (auto simp: avail_idx_def avail_at_def get16_eq out lay)
  moreover have "used_idx (txq s) m = of_nat (Suc d)" using assms(1) by (simp add: m_def push_used_idx tx_at_def)
  ultimately show "tx_at l (Suc d) a (dev_transmit s)" using assms(1,5) unfolding st tx_at_def by simp
  show "tx_holds f (dev_transmit s)"
    using assms(3,4) unfolding st tx_holds_def by (simp add: desc_addr_def desc_len_def get32le_def out lay)
qed

subsection \<open>The two sides\<close>

lemma read_1 [simp]: "mem_read m a (Suc 0) = [m a]"
  by (simp add: mem_read_def)

lemma push_avail_byte: "a < qavail q + 2 \<or> qavail q + 516 \<le> a \<Longrightarrow> push_avail q i m a = m a"
  using push_avail_out [of a 1 q i m] by auto

lemma push_used_byte: "a < qused q + 2 \<or> qused q + 2052 \<le> a \<Longrightarrow> push_used q i l m a = m a"
  using push_used_out [of a 1 q i l m] by auto

lemma put_desc_byte: "a < d \<or> d + 16 \<le> a \<Longrightarrow> put_desc d p l f m a = m a"
  using put_desc_out [of a 1 d p l f m] by auto

definition tx_agree :: "bmem \<Rightarrow> bmem \<Rightarrow> bool" where
  "tx_agree m m' \<longleftrightarrow> (\<forall>a. 0x184000 \<le> a \<and> a < 0x188000 \<or> 0x190000 \<le> a \<longrightarrow> m' a = m a)"

lemma tx_agree_read:
  "tx_agree m m' \<Longrightarrow> 0x184000 \<le> a \<and> a + n \<le> 0x188000 \<or> 0x190000 \<le> a \<Longrightarrow> mem_read m' a n = mem_read m a n"
  by (rule mem_read_eqI) (auto simp: tx_agree_def)

lemma tx_sides_agree:
  assumes "laid_out s" "txq s' = txq s" "dev_tx s' = dev_tx s" "tx_scratch s' = tx_scratch s" "tx_agree (dmem s) (dmem s')"
  shows "tx_at l d a s' = tx_at l d a s" "tx_holds f s' = tx_holds f s"
proof -
  have "avail_idx (txq s) (dmem s') = avail_idx (txq s) (dmem s)" "used_idx (txq s) (dmem s') = used_idx (txq s) (dmem s)"
    "avail_at (txq s) k (dmem s') = avail_at (txq s) k (dmem s)"
    "desc_addr (txq s) 0 (dmem s') = desc_addr (txq s) 0 (dmem s)" "desc_len (txq s) 0 (dmem s') = desc_len (txq s) 0 (dmem s)"
    "mem_read (dmem s') (tx_scratch s) n = mem_read (dmem s) (tx_scratch s) n" for k n
    using assms(1) mod_256_le [of k] by (auto simp: ring_defs laid_out_def tx_agree_read [OF assms(5)])
  then show "tx_at l d a s' = tx_at l d a s" "tx_holds f s' = tx_holds f s"
    unfolding tx_at_def tx_holds_def assms(2-4) by simp_all
qed

lemma laid_out_simps [simp]:
  "laid_out (dev_receive f s) = laid_out s" "laid_out (dev_transmit s) = laid_out s" "laid_out (tx_post f s) = laid_out s"
  "vready (dev_receive f s) = vready s" "vready (dev_transmit s) = vready s" "vready (tx_post f s) = vready s" "vready (rx_repost i s) = vready s"
  "wire (dev_receive f s) = wire s" "wire (rx_repost i s) = wire s" "wire (tx_post f s) = wire s" "wire (port_out p v s) = wire s"
  by (auto simp: dev_receive_def dev_transmit_def tx_post_def port_out_def rx_repost_def laid_out_def Let_def split: option.splits)

lemma receive_tx_side:
  assumes "rx_inv L ids fs s" "laid_out s"
  shows "tx_at l d a (dev_receive f s) = tx_at l d a s" "tx_holds g (dev_receive f s) = tx_holds g s"
proof -
  have *: "txq (dev_receive f s) = txq s" "dev_tx (dev_receive f s) = dev_tx s" "tx_scratch (dev_receive f s) = tx_scratch s"
    by (auto simp: dev_receive_def Let_def split: option.splits)
  have "tx_agree (dmem s) (dmem (dev_receive f s))"
  proof (cases "length fs < length ids \<and> length f \<le> MAX_FRAME")
    case True
    define i where "i = ids ! length fs"
    have "i \<in> set ids" using True by (simp add: i_def)
    then have i: "i < 8" "desc_addr (rxq s) i (dmem s) = 0x188000 + i * 4096" "desc_len (rxq s) i (dmem s) = BUF_SIZE"
      using assms by (auto simp: rx_inv_def buf_at)
    show ?thesis
      using True i rx_dev_next [OF assms(1)] assms(2)
      by (auto simp: dev_receive_def tx_agree_def push_used_byte mem_write_out laid_out_def i_def)
  next
    case False
    then have "dev_receive f s = s" using assms(1) by (intro dev_receive_lost [OF assms(1)]) (auto simp: rx_inv_def)
    then show ?thesis by (simp add: tx_agree_def)
  qed
  then show "tx_at l d a (dev_receive f s) = tx_at l d a s" "tx_holds g (dev_receive f s) = tx_holds g s"
    by (rule tx_sides_agree [OF assms(2) *])+
qed

lemma repost_tx_side:
  assumes "laid_out s" "i < 8"
  shows "tx_at l d a (rx_repost i s) = tx_at l d a s"
  by (rule tx_sides_agree(1)) (use assms in \<open>auto simp: rx_repost_def tx_agree_def push_avail_byte put_desc_byte laid_out_def\<close>)

lemma tx_rx_side:
  assumes "rx_inv L ids fs s" "laid_out s" "length f \<le> MAX_FRAME"
  shows "rx_inv L ids fs (tx_post f s)" "rx_inv L ids fs (dev_transmit s)"
proof -
  show "rx_inv L ids fs (tx_post f s)"
    by (rule rx_inv_agree [OF assms(1,2)])
      (use assms(2,3) in \<open>auto simp: tx_post_def port_out_def rx_agree_def push_avail_byte put_desc_byte mem_write_out laid_out_def\<close>)
  have "rx_agree (dmem s) (push_used (txq s) i 0 (dmem s))" for i
    using assms(2) by (auto simp: rx_agree_def push_used_byte laid_out_def)
  then show "rx_inv L ids fs (dev_transmit s)"
    by (intro rx_inv_agree [OF assms(1,2)]) (auto simp: dev_transmit_def Let_def rx_agree_def split: option.splits)
qed

end
