(* ===== verification/VirtioCard.thy ===== *)
theory VirtioCard
  imports VirtioSend Net
begin

section \<open>Driver and card as the network interface of the library\<close>

text \<open>
  What the network library assumes of \<^verbatim>\<open>ax_net_send\<close> and \<^verbatim>\<open>ax_net_recv\<close> (the fields \<open>inbox\<close> and \<open>sent\<close> of
  its state) is what the driver does with a card that keeps to the rings: frames come out in the order in
  which they arrived, complete, each once, and a frame that is sent reaches the wire.
\<close>

subsection \<open>The state of driver and card\<close>

definition card_state :: "nat \<Rightarrow> nat \<Rightarrow> u8 list list \<Rightarrow> vnet \<Rightarrow> bool" where
  "card_state l d fs s \<longleftrightarrow> laid_out s \<and> vready s \<and> (\<exists>L ids. length ids = 8 \<and> rx_inv L ids fs s) \<and> tx_at l d d s"

definition card_ok :: "u8 list list \<Rightarrow> vnet \<Rightarrow> bool" where
  "card_ok fs s \<longleftrightarrow> (\<exists>T. card_state T T fs s)"

text \<open>A frame that arrives is queued when one of the eight buffers is free, and dropped otherwise.\<close>

definition arrive :: "u8 list \<Rightarrow> u8 list list \<Rightarrow> u8 list list" where
  "arrive f fs = (if length fs < 8 \<and> length f \<le> MAX_FRAME then fs @ [f] else fs)"

fun arrivals :: "card_act wakeup list \<Rightarrow> u8 list list \<Rightarrow> u8 list list" where
  "arrivals [] fs = fs"
| "arrivals (Dev (Rx f) # ws) fs = arrivals ws (arrive f fs)"
| "arrivals (w # ws) fs = arrivals ws fs"

lemma rx_side_receive:
  assumes "\<exists>L ids. length ids = 8 \<and> rx_inv L ids fs s" "laid_out s"
  shows "\<exists>L ids. length ids = 8 \<and> rx_inv L ids (arrive f fs) (dev_receive f s)"
proof -
  obtain L ids where I: "length ids = 8" "rx_inv L ids fs s" using assms(1) by blast
  have "rx_inv L ids (arrive f fs) (dev_receive f s)"
  proof (cases "length fs < 8 \<and> length f \<le> MAX_FRAME")
    case True
    then show ?thesis using rx_inv_receive [OF I(2) assms(2)] I(1) by (simp add: arrive_def)
  next
    case False
    then have "dev_receive f s = s" using I by (intro dev_receive_lost [OF I(2)]) (auto simp: rx_inv_def)
    then show ?thesis using False I(2) by (auto simp: arrive_def)
  qed
  then show ?thesis using I(1) by blast
qed

lemma card_receive: "card_state l d fs s \<Longrightarrow> card_state l d (arrive f fs) (dev_receive f s)"
  using rx_side_receive receive_tx_side(1) unfolding card_state_def by (metis laid_out_simps(1,4))

subsection \<open>Fetching a frame\<close>

lemma card_recv_nil: "card_state l d [] s \<Longrightarrow> virtio_net_recv buf s = (0, buf, s)"
  using recv_empty unfolding card_state_def by blast

lemma card_recv_cons:
  assumes "card_state l d (f # fs) s"
  obtains s' where "virtio_net_recv buf s =
      (if length f \<le> length buf then length f else 0, if length f \<le> length buf then f @ drop (length f) buf else buf, s')"
    "card_state l d fs s'" "wire s' = wire s"
proof -
  obtain L ids where I: "length ids = 8" "rx_inv L ids (f # fs) s" "laid_out s" "vready s" "tx_at l d d s"
    using assms unfolding card_state_def by blast
  let ?t = "s\<lparr>rxq := (rxq s)\<lparr>last_used := last_used (rxq s) + 1\<rparr>\<rparr>"
  obtain i ids' where r: "ids = i # ids'"
    "virtio_net_recv buf s = (if length f \<le> length buf then length f else 0,
       if length f \<le> length buf then f @ drop (length f) buf else buf, port_out 0x10 0 (rx_repost i ?t))"
    "rx_inv (Suc L) (ids' @ [i]) fs (port_out 0x10 0 (rx_repost i ?t))"
    by (rule recv_frame [OF I(2-4)])
  have i: "i < 8" using I(2) by (simp add: r(1) rx_inv_def)
  have t: "laid_out ?t" "tx_at l d d ?t" using I(3,5) by (simp_all add: laid_out_def tx_at_def)
  have "tx_at l d d (port_out 0x10 0 (rx_repost i ?t))"
    using t(2) repost_tx_side [OF t(1) i, of l d d] by (simp add: port_out_def tx_at_def)
  then have "card_state l d fs (port_out 0x10 0 (rx_repost i ?t))"
    unfolding card_state_def using r(1,3) I(1,4) t(1) by (auto intro!: exI [of _ "Suc L"] exI [of _ "ids' @ [i]"])
  then show ?thesis using that r(2) by simp
qed

subsection \<open>Sending a frame\<close>

lemma wait_done: "last_used (txq s) \<noteq> used_idx (txq s) (dmem s) \<Longrightarrow> tx_wait dev dl ws s = Some (True, s)"
  by (subst tx_wait.simps) (simp add: used_idx_def)

lemma wait_on:
  "last_used (txq s) = used_idx (txq s) (dmem s) \<Longrightarrow> timer_ticks s < dl \<Longrightarrow> tx_wait dev dl (w # ws) s = tx_wait dev dl ws (wake dev w s)"
  by (subst tx_wait.simps) (simp add: used_idx_def)

lemma wait_timeout:
  "last_used (txq s) = used_idx (txq s) (dmem s) \<Longrightarrow> dl \<le> timer_ticks s \<Longrightarrow> tx_wait dev dl ws s = Some (False, s)"
  by (subst tx_wait.simps) (simp add: used_idx_def)

text \<open>The state while the driver waits for the completion of \<open>f\<close>.\<close>

definition waiting :: "nat \<Rightarrow> u8 list \<Rightarrow> u8 list list \<Rightarrow> vnet \<Rightarrow> bool" where
  "waiting T f fs s \<longleftrightarrow>
     laid_out s \<and> vready s \<and> (\<exists>L ids. length ids = 8 \<and> rx_inv L ids fs s) \<and> tx_at T T (Suc T) s \<and> tx_holds f s \<and>
     length f \<le> MAX_FRAME"

lemma waiting_post:
  assumes "card_state T T fs s" "length f \<le> MAX_FRAME"
  shows "waiting T f fs (tx_post f s)"
  using assms tx_post_at [of T T T s f] tx_rx_side(1) [of _ _ fs s f] unfolding card_state_def waiting_def by auto

lemma waiting_receive: "waiting T f fs s \<Longrightarrow> waiting T f (arrive g fs) (dev_receive g s)"
  using rx_side_receive receive_tx_side unfolding waiting_def by (metis laid_out_simps(1,4))

lemma waiting_tick: "waiting T f fs s \<Longrightarrow> waiting T f fs (s\<lparr>timer_ticks := n\<rparr>)"
proof -
  have "rx_inv L ids fs (s\<lparr>timer_ticks := n\<rparr>) = rx_inv L ids fs s" for L ids by (simp add: rx_inv_def)
  moreover have "laid_out (s\<lparr>timer_ticks := n\<rparr>) = laid_out s" by (simp add: laid_out_def)
  moreover assume "waiting T f fs s"
  ultimately show ?thesis by (simp add: waiting_def tx_at_def tx_holds_def)
qed

lemma wait_completes:
  assumes "waiting T f fs s" "Dev TxDone \<notin> set ws" "timer_ticks s + count_list ws Tick < dl"
  obtains s' where "tx_wait nic dl (ws @ [Dev TxDone]) s = Some (True, s')" "laid_out s'" "vready s'"
    "\<exists>L ids. length ids = 8 \<and> rx_inv L ids (arrivals ws fs) s'" "tx_at T (Suc T) (Suc T) s'" "wire s' = wire s @ [f]"
  using assms
proof (induction ws arbitrary: s fs thesis)
  case Nil
  then have w: "laid_out s" "vready s" "\<exists>L ids. length ids = 8 \<and> rx_inv L ids fs s" "tx_at T T (Suc T) s" "tx_holds f s" "length f \<le> MAX_FRAME"
    by (simp_all add: waiting_def)
  have "tx_wait nic dl ([] @ [Dev TxDone]) s = tx_wait nic dl [] (dev_transmit s)"
    using wait_on [of s dl nic "Dev TxDone" "[]"] w(4) Nil.prems(4) by (simp add: tx_at_def wake_def nic_def)
  moreover note at = transmit_at [OF w(4,1,5,6)]
  moreover have "last_used (txq (dev_transmit s)) \<noteq> used_idx (txq (dev_transmit s)) (dmem (dev_transmit s))"
    using at(1) tx_u16 [of T T "Suc T"] by (simp add: tx_at_def)
  ultimately have "tx_wait nic dl ([] @ [Dev TxDone]) s = Some (True, dev_transmit s)" by (simp add: wait_done)
  moreover have "\<exists>L ids. length ids = 8 \<and> rx_inv L ids (arrivals [] fs) (dev_transmit s)"
    using w(3) tx_rx_side(2) [OF _ w(1,6)] by (metis arrivals.simps(1))
  ultimately show ?case using Nil.prems(1) w(1,2) at by simp
next
  case (Cons w ws)
  have step: "tx_wait nic dl ((w # ws) @ [Dev TxDone]) s = tx_wait nic dl (ws @ [Dev TxDone]) (wake nic w s)"
    using wait_on [of s dl nic w "ws @ [Dev TxDone]"] Cons.prems(2,4) by (simp add: waiting_def tx_at_def)
  consider "w = Tick" | g where "w = Dev (Rx g)" using Cons.prems(3) by (metis card_act.exhaust list.set_intros(1) wakeup.exhaust)
  then have nxt: "\<exists>fs'. waiting T f fs' (wake nic w s) \<and> arrivals (w # ws) fs = arrivals ws fs' \<and>
      timer_ticks (wake nic w s) + count_list ws Tick < dl \<and> wire (wake nic w s) = wire s"
  proof cases
    case 1
    then show ?thesis using Cons.prems(2,4) waiting_tick by (auto simp: wake_def intro!: exI [of _ fs])
  next
    case 2
    have "timer_ticks (dev_receive g s) = timer_ticks s" by (auto simp: dev_receive_def Let_def split: option.splits)
    then show ?thesis using 2 Cons.prems(2,4) waiting_receive by (auto simp: wake_def nic_def intro!: exI [of _ "arrive g fs"])
  qed
  then obtain fs' where n: "waiting T f fs' (wake nic w s)" "arrivals (w # ws) fs = arrivals ws fs'"
      "timer_ticks (wake nic w s) + count_list ws Tick < dl" "wire (wake nic w s) = wire s" by blast
  have "Dev TxDone \<notin> set ws" using Cons.prems(3) by simp
  then show ?case
    using Cons.IH [OF _ n(1) _ n(3)] Cons.prems(1) unfolding step n(2,4) by blast
qed

lemma card_send:
  assumes "card_state T T fs s" "length f \<le> MAX_FRAME" "Dev TxDone \<notin> set ws" "count_list ws Tick < 500"
  obtains s' where "virtio_net_send nic f (ws @ [Dev TxDone]) s = Some (True, s')"
    "card_state (Suc T) (Suc T) (arrivals ws fs) s'" "wire s' = wire s @ [f]"
proof -
  have rdy: "vready s" using assms(1) by (simp add: card_state_def)
  have tt: "timer_ticks (tx_post f s) = timer_ticks s" by (simp add: tx_post_def port_out_def)
  obtain s' where w: "tx_wait nic (timer_ticks s + 500) (ws @ [Dev TxDone]) (tx_post f s) = Some (True, s')" "laid_out s'" "vready s'"
    "\<exists>L ids. length ids = 8 \<and> rx_inv L ids (arrivals ws fs) s'" "tx_at T (Suc T) (Suc T) s'" "wire s' = wire (tx_post f s) @ [f]"
    by (rule wait_completes [OF waiting_post [OF assms(1,2)] assms(3), of "timer_ticks s + 500"]) (use assms(4) tt in auto)
  let ?s = "s'\<lparr>txq := (txq s')\<lparr>last_used := last_used (txq s') + 1\<rparr>\<rparr>"
  have "rx_inv L ids fs ?s = rx_inv L ids fs s'" for L ids fs by (simp add: rx_inv_def)
  then have "card_state (Suc T) (Suc T) (arrivals ws fs) ?s"
    using w(2-5) by (auto simp: card_state_def laid_out_def tx_at_def)
  then show ?thesis using that w(1,6) by (simp add: send_eq [OF rdy assms(2)])
qed

subsection \<open>The initial state\<close>

lemma dma_alloc:
  "dma_pool_offset s + n * 4096 \<le> 0x20000 \<Longrightarrow> dma_alloc_pages n s =
     (0x180000 + dma_pool_offset s, s\<lparr>dma_pool_offset := dma_pool_offset s + n * 4096,
        dmem := mem_write (dmem s) (0x180000 + dma_pool_offset s) (replicate (n * 4096) 0)\<rparr>)"
  by (simp add: dma_alloc_pages_def Let_def)

lemma mem_write_zero: "b \<le> a \<Longrightarrow> a < b + n \<Longrightarrow> mem_write m b (replicate n 0) a = 0"
  by (simp add: mem_write_def)

lemma alloc_bufs_ok:
  "dma_pool_offset s + n * 4096 \<le> 0x20000 \<Longrightarrow> \<exists>m. alloc_bufs n s =
     (Some (map (\<lambda>i. 0x180000 + dma_pool_offset s + i * 4096) [0..<n]), s\<lparr>dma_pool_offset := dma_pool_offset s + n * 4096, dmem := m\<rparr>) \<and>
     (\<forall>a < 0x180000 + dma_pool_offset s. m a = dmem s a)"
proof (induction n arbitrary: s)
  case 0
  then show ?case by (auto intro: exI [of _ "dmem s"])
next
  case (Suc n)
  define s1 where "s1 = s\<lparr>dma_pool_offset := dma_pool_offset s + 1 * 4096,
      dmem := mem_write (dmem s) (0x180000 + dma_pool_offset s) (replicate (1 * 4096) 0)\<rparr>"
  have 1: "dma_alloc_pages 1 s = (0x180000 + dma_pool_offset s, s1)"
    unfolding s1_def by (rule dma_alloc) (use Suc.prems in simp)
  have off: "dma_pool_offset s1 = dma_pool_offset s + 4096" by (simp add: s1_def)
  obtain m where m: "alloc_bufs n s1 = (Some (map (\<lambda>i. 0x180000 + dma_pool_offset s1 + i * 4096) [0..<n]),
      s1\<lparr>dma_pool_offset := dma_pool_offset s1 + n * 4096, dmem := m\<rparr>)" "\<forall>a < 0x180000 + dma_pool_offset s1. m a = dmem s1 a"
    using Suc.IH [of s1] Suc.prems off by auto
  have "m a = dmem s a" if "a < 0x180000 + dma_pool_offset s" for a
    using m(2) that off by (simp add: s1_def mem_write_out)
  moreover have "map (\<lambda>i. 0x180000 + dma_pool_offset s + i * 4096) [0..<Suc n] =
      (0x180000 + dma_pool_offset s) # map (\<lambda>i. 0x180000 + dma_pool_offset s1 + i * 4096) [0..<n]"
    unfolding off by (simp add: map_upt_Suc del: upt_Suc)
  moreover have "s1\<lparr>dma_pool_offset := dma_pool_offset s1 + n * 4096, dmem := m\<rparr> =
      s\<lparr>dma_pool_offset := dma_pool_offset s + Suc n * 4096, dmem := m\<rparr>" by (simp add: s1_def)
  ultimately show ?case using m(1) by (auto simp: 1 [unfolded One_nat_def])
qed

lemma rx_inv_empty:
  assumes "laid_out s" "last_used (rxq s) = 0" "dev_rx s = 0" "\<forall>a. 0x181000 \<le> a \<and> a < 0x184000 \<longrightarrow> dmem s a = 0"
  shows "rx_inv 0 [] [] s"
proof -
  have "mem_read (dmem s) a 2 = [0, 0]" if "0x181000 \<le> a" "a + 2 \<le> 0x184000" for a
    using assms(4) that by (simp add: mem_read_def upt_rec)
  then show ?thesis using assms by (simp add: rx_inv_def avail_idx_def used_idx_def get16_eq laid_out_def)
qed

lemma tx_at_empty:
  assumes "laid_out s" "last_used (txq s) = 0" "dev_tx s = 0" "\<forall>a. 0x185000 \<le> a \<and> a < 0x188000 \<longrightarrow> dmem s a = 0"
  shows "tx_at 0 0 0 s"
proof -
  have "mem_read (dmem s) a 2 = [0, 0]" if "0x185000 \<le> a" "a + 2 \<le> 0x188000" for a
    using assms(4) that by (simp add: mem_read_def upt_rec)
  then show ?thesis using assms by (simp add: tx_at_def avail_idx_def used_idx_def get16_eq laid_out_def)
qed

lemma post_all:
  assumes "laid_out s" "rx_inv 0 [] [] s" "tx_at 0 0 0 s" "n \<le> 8"
  shows "laid_out (fold rx_repost [0..<n] s) \<and> rx_inv 0 [0..<n] [] (fold rx_repost [0..<n] s) \<and> tx_at 0 0 0 (fold rx_repost [0..<n] s) \<and>
    wire (fold rx_repost [0..<n] s) = wire s \<and> vmac (fold rx_repost [0..<n] s) = vmac s"
  using assms(4)
proof (induction n)
  case 0
  then show ?case using assms by simp
next
  case (Suc n)
  let ?s = "fold rx_repost [0..<n] s"
  have I: "laid_out ?s" "rx_inv 0 [0..<n] [] ?s" "tx_at 0 0 0 ?s" "wire ?s = wire s" "vmac ?s = vmac s" "n < 8"
    using Suc by simp_all
  have "rx_inv 0 ([0..<n] @ [n]) [] (rx_repost n ?s)" by (rule rx_inv_repost [OF I(2,1,6)]) simp
  moreover have "vmac (rx_repost n ?s) = vmac ?s" by (simp add: rx_repost_def)
  ultimately show ?case using I repost_tx_side [OF I(1,6), of 0 0 0] by simp
qed

lemma start_ok:
  assumes "dma_pool_offset s = 0" "host_qsize s 0 = 256" "host_qsize s 1 = 256" "dev_rx s = 0" "dev_tx s = 0"
  obtains s' where "virtio_net_start s = (True, s')" "card_state 0 0 [] s'" "wire s' = wire s" "vmac s' = host_mac s"
proof -
  define s1 where "s1 = port_out 0x04 (push_bit 5 1) (port_out 0x12 3 (port_out 0x12 1 (port_out 0x12 0 s)))"
  define rq where "rq = \<lparr>qdesc = 0x180000, qavail = 0x181000, qused = 0x182000, last_used = 0\<rparr>"
  define tq where "tq = \<lparr>qdesc = 0x184000, qavail = 0x185000, qused = 0x186000, last_used = 0\<rparr>"
  obtain s2 where 2: "setup_queue 0 s1 = (Some rq, s2)" "dma_pool_offset s2 = 0x4000" "host_qsize s2 = host_qsize s"
    "host_mac s2 = host_mac s" "wire s2 = wire s" "dev_rx s2 = 0" "dev_tx s2 = 0"
    "\<forall>a. 0x180000 \<le> a \<and> a < 0x184000 \<longrightarrow> dmem s2 a = 0"
    using assms by (auto simp: setup_queue_def s1_def port_out_def dma_alloc rq_def mem_write_zero)
  have "mem_write (dmem s2) 0x184000 (replicate 0x4000 0) a = 0" if "0x180000 \<le> a" "a < 0x188000" for a
    using 2(8) that by (cases "a < 0x184000") (simp_all add: mem_write_out mem_write_zero)
  then obtain s3 where 3: "setup_queue 1 (s2\<lparr>rxq := rq\<rparr>) = (Some tq, s3)" "dma_pool_offset s3 = 0x8000" "rxq s3 = rq"
    "host_mac s3 = host_mac s" "wire s3 = wire s" "dev_rx s3 = 0" "dev_tx s3 = 0"
    "\<forall>a. 0x180000 \<le> a \<and> a < 0x188000 \<longrightarrow> dmem s3 a = 0"
    using assms(3) 2(2-8) by (auto simp: setup_queue_def port_out_def dma_alloc tq_def)
  define s4 where "s4 = (port_out 0x12 7 (s3\<lparr>txq := tq\<rparr>))\<lparr>vmac := host_mac s3\<rparr>"
  have s4: "dma_pool_offset s4 = 0x8000" "dmem s4 = dmem s3" "rxq s4 = rq" "txq s4 = tq" "vmac s4 = host_mac s"
    "wire s4 = wire s" "dev_rx s4 = 0" "dev_tx s4 = 0" using 3 by (simp_all add: s4_def port_out_def)
  obtain m where m: "alloc_bufs 8 s4 = (Some (map (\<lambda>i. 0x188000 + i * 4096) [0..<8]), s4\<lparr>dma_pool_offset := 0x10000, dmem := m\<rparr>)"
    "\<forall>a < 0x188000. m a = dmem s3 a"
    using alloc_bufs_ok [of s4 8] s4(1,2) by auto
  define s5 where "s5 = s4\<lparr>dma_pool_offset := 0x11000, dmem := mem_write m 0x190000 (replicate 4096 0),
      rx_bufs := map (\<lambda>i. 0x188000 + i * 4096) [0..<8], tx_scratch := 0x190000\<rparr>"
  have pg: "dma_alloc_pages 1 (s4\<lparr>dma_pool_offset := 0x10000, dmem := m, rx_bufs := map (\<lambda>i. 0x188000 + i * 4096) [0..<8]\<rparr>) =
      (0x190000, s4\<lparr>dma_pool_offset := 0x11000, dmem := mem_write m 0x190000 (replicate 4096 0), rx_bufs := map (\<lambda>i. 0x188000 + i * 4096) [0..<8]\<rparr>)"
    by (subst dma_alloc) simp_all
  have lay: "laid_out s5" by (simp add: laid_out_def s5_def s4 rq_def tq_def)
  have zero: "\<forall>a. 0x180000 \<le> a \<and> a < 0x188000 \<longrightarrow> dmem s5 a = 0" using m(2) 3(8) by (simp add: s5_def mem_write_out)
  have inv: "rx_inv 0 [] [] s5" "tx_at 0 0 0 s5"
    using lay zero s4 by (auto intro!: rx_inv_empty tx_at_empty simp: s5_def rq_def tq_def)
  define s6 where "s6 = fold rx_repost [0..<8] s5"
  note all = post_all [OF lay inv, of 8, folded s6_def]
  have "virtio_net_start s = (True, (port_out 0x10 0 s6)\<lparr>vready := True\<rparr>)"
    using pg unfolding virtio_net_start_def s1_def [symmetric] Let_def 2(1) 3(1) prod.case option.case s4_def [symmetric] m(1)
    by (simp add: s6_def s5_def)
  moreover have "rx_inv 0 [0..<8] [] (s\<lparr>vready := True\<rparr>) = rx_inv 0 [0..<8] [] s" "laid_out (s\<lparr>vready := True\<rparr>) = laid_out s"
    "tx_at 0 0 0 (s\<lparr>vready := True\<rparr>) = tx_at 0 0 0 s" "tx_at 0 0 0 (port_out p v s) = tx_at 0 0 0 s" for s p v
    by (simp_all add: rx_inv_def laid_out_def tx_at_def port_out_def)
  then have "card_state 0 0 [] ((port_out 0x10 0 s6)\<lparr>vready := True\<rparr>)"
    using all unfolding card_state_def by (auto intro!: exI [of _ "0::nat"] exI [of _ "[0..<8]"])
  ultimately show ?thesis using that all s4(5,6) by (simp add: s5_def port_out_def)
qed

subsection \<open>The interface\<close>

text \<open>A source of frames: the frames it holds come out in order, each once; one that does not fit the buffer is lost.\<close>

locale frame_source =
  fixes recv :: "u8 list \<Rightarrow> 's \<Rightarrow> nat \<times> u8 list \<times> 's"
    and holds :: "u8 list list \<Rightarrow> 's \<Rightarrow> bool"
  assumes recv_none: "holds [] s \<Longrightarrow> recv buf s = (0, buf, s)"
    and recv_some: "holds (f # fs) s \<Longrightarrow> \<exists>s'. recv buf s =
      (if length f \<le> length buf then length f else 0, if length f \<le> length buf then f @ drop (length f) buf else buf, s') \<and> holds fs s'"
begin

lemma recv_step:
  "holds fs s \<Longrightarrow> \<exists>s'. recv buf s =
     (case fs of [] \<Rightarrow> 0 | f # _ \<Rightarrow> if length f \<le> length buf then length f else 0,
      case fs of [] \<Rightarrow> buf | f # _ \<Rightarrow> if length f \<le> length buf then f @ drop (length f) buf else buf, s') \<and> holds (tl fs) s'"
  by (cases fs) (use recv_none recv_some in \<open>force+\<close>)

end

locale same_source = a: frame_source recv1 holds1 + b: frame_source recv2 holds2
  for recv1 :: "u8 list \<Rightarrow> 's \<Rightarrow> nat \<times> u8 list \<times> 's" and holds1
    and recv2 :: "u8 list \<Rightarrow> 't \<Rightarrow> nat \<times> u8 list \<times> 't" and holds2
begin

lemma recv_same:
  assumes "holds1 fs s" "holds2 fs t"
  obtains n b s' t' where "recv1 buf s = (n, b, s')" "recv2 buf t = (n, b, t')" "holds1 (tl fs) s'" "holds2 (tl fs) t'"
  using a.recv_step [OF assms(1), of buf] b.recv_step [OF assms(2), of buf] by auto

end

definition net_holds :: "u8 list list \<Rightarrow> u8 list list \<Rightarrow> (u8 list \<Rightarrow> bool) \<Rightarrow> net \<Rightarrow> bool" where
  "net_holds w fs ok n \<longleftrightarrow> inbox n = fs \<and> sent n = w \<and> nic_ok n = ok"

definition card_holds :: "u8 list list \<Rightarrow> u8 list list \<Rightarrow> vnet \<Rightarrow> bool" where
  "card_holds w fs s \<longleftrightarrow> card_ok fs s \<and> wire s = w"

interpretation net_card: same_source ax_net_recv "\<lambda>fs. net_holds w fs ok" virtio_net_recv "card_holds w" for w ok
proof unfold_locales
  show "\<exists>s'. ax_net_recv buf s = (if length f \<le> length buf then length f else 0,
      if length f \<le> length buf then f @ drop (length f) buf else buf, s') \<and> net_holds w fs ok s'"
    if "net_holds w (f # fs) ok s" for f fs s buf
    using that by (auto simp: net_holds_def ax_net_recv_def Let_def)
  show "\<exists>s'. virtio_net_recv buf s = (if length f \<le> length buf then length f else 0,
      if length f \<le> length buf then f @ drop (length f) buf else buf, s') \<and> card_holds w fs s'"
    if "card_holds w (f # fs) s" for f fs s buf
    using that card_recv_cons unfolding card_holds_def card_ok_def by metis
qed (auto simp: net_holds_def ax_net_recv_def card_holds_def card_ok_def card_recv_nil)

text \<open>A run of the library's calls, with frames arriving in between and while a call waits.\<close>

datatype net_op = Arrive "u8 list" | Fetch "u8 list" | Transmit "u8 list" "card_act wakeup list"

datatype net_res = Arrived | Fetched nat "u8 list" | Sent bool

definition net_step :: "net_op \<Rightarrow> net \<Rightarrow> net_res \<times> net" where
  "net_step c n = (case c of
     Arrive f \<Rightarrow> (Arrived, n\<lparr>inbox := arrive f (inbox n)\<rparr>)
   | Fetch buf \<Rightarrow> (case ax_net_recv buf n of (k, b, n1) \<Rightarrow> (Fetched k b, n1))
   | Transmit f ws \<Rightarrow> (case ax_net_send f n of (ok, n1) \<Rightarrow> (Sent ok, if ok then n1\<lparr>inbox := arrivals ws (inbox n1)\<rparr> else n1)))"

definition card_step :: "net_op \<Rightarrow> vnet \<Rightarrow> (net_res \<times> vnet) option" where
  "card_step c s = (case c of
     Arrive f \<Rightarrow> Some (Arrived, dev_receive f s)
   | Fetch buf \<Rightarrow> (case virtio_net_recv buf s of (k, b, s1) \<Rightarrow> Some (Fetched k b, s1))
   | Transmit f ws \<Rightarrow> (case virtio_net_send nic f (ws @ [Dev TxDone]) s of None \<Rightarrow> None | Some (ok, s1) \<Rightarrow> Some (Sent ok, s1)))"

primrec net_run :: "net_op list \<Rightarrow> net \<Rightarrow> net_res list \<times> net" where
  "net_run [] n = ([], n)"
| "net_run (c # cs) n = (case net_step c n of (r, n1) \<Rightarrow> case net_run cs n1 of (rs, n2) \<Rightarrow> (r # rs, n2))"

primrec card_run :: "net_op list \<Rightarrow> vnet \<Rightarrow> (net_res list \<times> vnet) option" where
  "card_run [] s = Some ([], s)"
| "card_run (c # cs) s =
     (case card_step c s of None \<Rightarrow> None | Some (r, s1) \<Rightarrow> case card_run cs s1 of None \<Rightarrow> None | Some (rs, s2) \<Rightarrow> Some (r # rs, s2))"

text \<open>The card completes a frame within five seconds.\<close>

fun prompt :: "net_op \<Rightarrow> bool" where
  "prompt (Transmit f ws) \<longleftrightarrow> Dev TxDone \<notin> set ws \<and> count_list ws Tick < 500"
| "prompt c \<longleftrightarrow> True"

definition card_rel :: "net \<Rightarrow> vnet \<Rightarrow> bool" where
  "card_rel n s \<longleftrightarrow> net_holds (wire s) (inbox n) (\<lambda>f. length f \<le> MAX_FRAME) n \<and> card_ok (inbox n) s"

lemma card_step_refines:
  assumes "card_rel n s" "prompt c"
  shows "\<exists>s'. card_step c s = Some (fst (net_step c n), s') \<and> card_rel (snd (net_step c n)) s'"
proof (cases c)
  case (Arrive f)
  obtain T where "card_state T T (inbox n) s" using assms(1) by (auto simp: card_rel_def card_ok_def)
  from card_receive [OF this, of f] show ?thesis using assms(1) Arrive
    by (auto simp: card_rel_def card_ok_def net_step_def card_step_def net_holds_def)
next
  case (Fetch buf)
  have "net_holds (wire s) (inbox n) (\<lambda>f. length f \<le> MAX_FRAME) n" "card_holds (wire s) (inbox n) s"
    using assms(1) by (simp_all add: card_rel_def card_holds_def)
  then obtain k b n' s' where "ax_net_recv buf n = (k, b, n')" "virtio_net_recv buf s = (k, b, s')"
    "net_holds (wire s) (tl (inbox n)) (\<lambda>f. length f \<le> MAX_FRAME) n'" "card_holds (wire s) (tl (inbox n)) s'"
    by (rule net_card.recv_same)
  then show ?thesis using Fetch by (auto simp: net_step_def card_step_def card_rel_def card_holds_def net_holds_def)
next
  case (Transmit f ws)
  obtain T where T: "card_state T T (inbox n) s" using assms(1) by (auto simp: card_rel_def card_ok_def)
  show ?thesis
  proof (cases "length f \<le> MAX_FRAME")
    case True
    obtain s' where "virtio_net_send nic f (ws @ [Dev TxDone]) s = Some (True, s')"
      "card_state (Suc T) (Suc T) (arrivals ws (inbox n)) s'" "wire s' = wire s @ [f]"
      by (rule card_send [OF T True]) (use assms(2) Transmit in auto)
    then show ?thesis using assms(1) Transmit True
      by (auto simp: net_step_def card_step_def card_rel_def net_holds_def card_ok_def ax_net_send_def)
  next
    case False
    then show ?thesis using assms(1) Transmit T
      by (auto simp: net_step_def card_step_def card_rel_def net_holds_def ax_net_send_def virtio_net_send_def card_state_def)
  qed
qed

lemma card_run_refines:
  "card_rel n s \<Longrightarrow> list_all prompt cs \<Longrightarrow>
     \<exists>s'. card_run cs s = Some (fst (net_run cs n), s') \<and> card_rel (snd (net_run cs n)) s'"
proof (induction cs arbitrary: n s)
  case Nil
  then show ?case by simp
next
  case (Cons c cs)
  obtain s1 where "card_step c s = Some (fst (net_step c n), s1)" "card_rel (snd (net_step c n)) s1"
    using card_step_refines [OF Cons.prems(1)] Cons.prems(2) by auto
  then show ?case using Cons.IH [of "snd (net_step c n)" s1] Cons.prems(2) by (auto simp: split_beta)
qed

text \<open>C13. The network card implements the network of the library. When the scan of the bus finds a virtio card with an I/O
  base address and queues of 256 entries, and the pool of pages is fresh, \<open>virtio_net_init\<close> succeeds with the address of the card; from then on,
  whatever frames arrive and are sent in whatever order, the calls of the driver give the results of \<open>ax_net_recv\<close> and
  \<open>ax_net_send\<close> of the library's model: frames are delivered in the order of arrival, complete, each once, as long
  as at most eight wait, and every frame accepted for sending is on the wire when the call returns (for a card that completes a frame
  within five seconds).\<close>

theorem network_card_implements:
  assumes "pci_scan 256 cfg 32 = Some (devs, k)" "find net_device devs = Some d"
    "pci_config_read32 cfg (pci_bus d) (pci_dev d) (pci_fn d) 0x10 AND 1 \<noteq> 0"
    "host_qsize s 0 = 256" "host_qsize s 1 = 256" "dma_pool_offset s = 0" "dev_rx s = 0" "dev_tx s = 0"
    "inbox n = []" "sent n = wire s" "nic_ok n = (\<lambda>f. length f \<le> MAX_FRAME)" "list_all prompt cs"
  shows "\<exists>s1 s2. virtio_net_init cfg s = Some (True, s1) \<and> vmac s1 = host_mac s \<and>
     card_run cs s1 = Some (fst (net_run cs n), s2) \<and> wire s2 = sent (snd (net_run cs n))"
proof -
  let ?rd = "pci_config_read32 cfg (pci_bus d) (pci_dev d) (pci_fn d)"
  let ?s = "s\<lparr>io_base := ?rd 0x10 AND 0xFFFFFFFC,
      outs := outs s @ pci_config_write32 (pci_bus d) (pci_dev d) (pci_fn d) 0x04 ((?rd 0x04 AND 0xFFFF) OR 1 OR 4)\<rparr>"
  obtain s1 where s1: "virtio_net_start ?s = (True, s1)" "card_state 0 0 [] s1" "wire s1 = wire ?s" "vmac s1 = host_mac ?s"
    by (rule start_ok [of ?s]) (use assms(4-8) in simp_all)
  have "virtio_net_init cfg s = Some (True, s1)" using assms(1-3) s1(1) by (simp add: virtio_net_init_def Let_def)
  moreover have "card_rel n s1" using s1(2,3) assms(9-11) by (auto simp: card_rel_def net_holds_def card_ok_def)
  ultimately show ?thesis using card_run_refines [OF _ assms(12)] s1(4) by (fastforce simp: card_rel_def net_holds_def)
qed

text \<open>A card at the first place of bus 0 and the state before the driver starts.\<close>

definition demo_card :: pci_space where
  "demo_card a = (if a = 0x80000000 then 0x10001AF4 else if a = 0x80000008 then 0x02000000 else if a = 0x8000000C then 0
     else if a = 0x80000010 then 0xC001 else 0xFFFFFFFF)"

definition demo_vnet :: vnet where
  "demo_vnet = \<lparr>dmem = (\<lambda>_. 0xA5), dma_pool_offset = 0, io_base = 0, rxq = \<lparr>qdesc = 0, qavail = 0, qused = 0, last_used = 0\<rparr>,
     txq = \<lparr>qdesc = 0, qavail = 0, qused = 0, last_used = 0\<rparr>, rx_bufs = [], tx_scratch = 0, vmac = [], vready = False, outs = [],
     timer_ticks = 77, host_qsize = (\<lambda>_. 256), host_mac = [2, 0, 0, 0, 0, 1], dev_rx = 0, dev_tx = 0, wire = []\<rparr>"

theorem network_card_implements_witness:
  "\<exists>s1 s2. virtio_net_init demo_card demo_vnet = Some (True, s1) \<and>
     card_run [Arrive [1, 2], Transmit [9] [Tick, Dev (Rx [3])], Fetch [0, 0, 0], Fetch [0, 0, 0], Fetch [7]] s1 =
       Some ([Arrived, Sent True, Fetched 2 [1, 2, 0], Fetched 1 [3, 0, 0], Fetched 0 [7]], s2) \<and> wire s2 = [[9]]"
proof -
  obtain n :: net where n: "inbox n = []" "sent n = []" "nic_ok n = (\<lambda>f. length f \<le> MAX_FRAME)"
    using that [of "undefined\<lparr>inbox := [], sent := [], nic_ok := (\<lambda>f. length f \<le> MAX_FRAME)\<rparr>"] by simp
  let ?cs = "[Arrive [1, 2], Transmit [9] [Tick, Dev (Rx [3])], Fetch [0, 0, 0], Fetch [0, 0, 0], Fetch [7]]"
  have scan: "pci_scan 256 demo_card 32 = Some ([pci_entry demo_card 0 0 0], 1)"
    "find net_device [pci_entry demo_card 0 0 0] = Some (pci_entry demo_card 0 0 0)"
    "pci_config_read32 demo_card (pci_bus (pci_entry demo_card 0 0 0)) (pci_dev (pci_entry demo_card 0 0 0))
       (pci_fn (pci_entry demo_card 0 0 0)) 0x10 AND 1 \<noteq> 0"
    by code_simp+
  have run: "net_run ?cs n = ([Arrived, Sent True, Fetched 2 [1, 2, 0], Fetched 1 [3, 0, 0], Fetched 0 [7]], n\<lparr>sent := [[9]]\<rparr>)"
    using n by (cases n) (simp add: net_step_def ax_net_recv_def ax_net_send_def arrive_def Let_def)
  show ?thesis
    using network_card_implements [OF scan, of demo_vnet n ?cs] n unfolding run
    by (simp add: demo_vnet_def) blast
qed

lemma wait_ticks:
  "last_used (txq s) = used_idx (txq s) (dmem s) \<Longrightarrow> dl = timer_ticks s + n \<Longrightarrow>
     tx_wait nic dl (replicate n Tick) s = Some (False, s\<lparr>timer_ticks := dl\<rparr>)"
proof (induction n arbitrary: s)
  case 0
  then show ?case by (simp add: wait_timeout)
next
  case (Suc n)
  then show ?case by (simp add: wait_on wake_def)
qed

text \<open>C36. A frame that the card completes after the driver has given up puts the queue out of step. When the card
  needs five seconds for \<open>f1\<close>, the call fails, but its completion is never accounted for: the next call returns success before
  the card has looked at its frame \<open>f2\<close>, and the call after that overwrites the only buffer with \<open>f3\<close>: \<open>f2\<close> was
  reported as sent and never reaches the wire.\<close>

theorem late_completion_loses_frame:
  assumes "card_ok fs s" "length f1 \<le> MAX_FRAME" "length f2 \<le> MAX_FRAME" "length f3 \<le> MAX_FRAME"
  shows "\<exists>s1 s2 s3. virtio_net_send nic f1 (replicate 500 Tick) s = Some (False, s1) \<and>
     virtio_net_send nic f2 [] (nic TxDone s1) = Some (True, s2) \<and>
     virtio_net_send nic f3 [Dev TxDone] s2 = Some (True, s3) \<and> wire s3 = wire s @ [f1, f3]"
proof -
  obtain T where T: "laid_out s" "vready s" "tx_at T T T s" using assms(1) by (auto simp: card_ok_def card_state_def)
  define p1 where "p1 = tx_post f1 s"
  have p1: "laid_out p1" "vready p1" "tx_at T T (Suc T) p1" "tx_holds f1 p1" "wire p1 = wire s" "timer_ticks p1 = timer_ticks s"
    using T tx_post_at [OF T(3,1) assms(2)] by (simp_all add: p1_def tx_post_def port_out_def laid_out_def)
  define s1 where "s1 = p1\<lparr>timer_ticks := timer_ticks s + 500\<rparr>"
  have s1: "laid_out s1" "vready s1" "tx_at T T (Suc T) s1" "tx_holds f1 s1" "wire s1 = wire s"
    using p1 by (simp_all add: s1_def laid_out_def tx_at_def tx_holds_def)
  have "tx_wait nic (timer_ticks s + 500) (replicate 500 Tick) p1 = Some (False, s1)"
    using wait_ticks [of p1 "timer_ticks s + 500" 500] p1(3,6) by (simp add: tx_at_def s1_def)
  then have 1: "virtio_net_send nic f1 (replicate 500 Tick) s = Some (False, s1)" by (simp add: send_eq T(2) assms(2) p1_def)
  define t1 where "t1 = nic TxDone s1"
  have t1: "laid_out t1" "vready t1" "tx_at T (Suc T) (Suc T) t1" "wire t1 = wire s @ [f1]"
    using s1 transmit_at(1,3) [OF s1(3,1,4) assms(2)] by (simp_all add: t1_def nic_def)
  define p2 where "p2 = tx_post f2 t1"
  have p2: "laid_out p2" "vready p2" "tx_at T (Suc T) (Suc (Suc T)) p2" "tx_holds f2 p2" "wire p2 = wire s @ [f1]"
    using t1 tx_post_at [OF t1(3,1) assms(3)] by (simp_all add: p2_def)
  define s2 where "s2 = p2\<lparr>txq := (txq p2)\<lparr>last_used := last_used (txq p2) + 1\<rparr>\<rparr>"
  have s2: "laid_out s2" "vready s2" "tx_at (Suc T) (Suc T) (Suc (Suc T)) s2" "wire s2 = wire s @ [f1]"
    using p2 by (simp_all add: s2_def laid_out_def tx_at_def)
  have "last_used (txq p2) \<noteq> used_idx (txq p2) (dmem p2)" using p2(3) tx_u16 [of T T "Suc T"] by (simp add: tx_at_def)
  then have 2: "virtio_net_send nic f2 [] t1 = Some (True, s2)"
    using t1(2) assms(3) by (simp add: send_eq p2_def s2_def wait_done)
  define p3 where "p3 = tx_post f3 s2"
  have p3: "laid_out p3" "tx_at (Suc T) (Suc T) (Suc (Suc (Suc T))) p3" "tx_holds f3 p3" "wire p3 = wire s @ [f1]" "timer_ticks p3 = timer_ticks s2"
    using s2 tx_post_at [OF s2(3,1) assms(4)] by (simp_all add: p3_def tx_post_def port_out_def laid_out_def)
  define t3 where "t3 = dev_transmit p3"
  have t3: "tx_at (Suc T) (Suc (Suc T)) (Suc (Suc (Suc T))) t3" "wire t3 = wire s @ [f1, f3]"
    using transmit_at(1,3) [OF p3(2,1,3) assms(4)] p3(4) by (simp_all add: t3_def)
  have "last_used (txq t3) \<noteq> used_idx (txq t3) (dmem t3)" using t3(1) tx_u16 [of "Suc T" "Suc T" "Suc (Suc T)"] by (simp add: tx_at_def)
  moreover have "last_used (txq p3) = used_idx (txq p3) (dmem p3)" using p3(2) by (simp add: tx_at_def)
  ultimately have "tx_wait nic (timer_ticks s2 + 500) [Dev TxDone] p3 = Some (True, t3)"
    using p3(5) by (simp add: wait_on wait_done wake_def nic_def t3_def)
  then have 3: "virtio_net_send nic f3 [Dev TxDone] s2 = Some (True, t3\<lparr>txq := (txq t3)\<lparr>last_used := last_used (txq t3) + 1\<rparr>\<rparr>)"
    using s2(2) assms(4) by (simp add: send_eq p3_def)
  show ?thesis using 1 2 3 t3(2) unfolding t1_def by auto
qed

theorem late_completion_loses_frame_witness:
  "\<exists>s s1 s2 s3. fst (virtio_net_start demo_vnet) \<and> s = snd (virtio_net_start demo_vnet) \<and>
     virtio_net_send nic [1, 2] (replicate 500 Tick) s = Some (False, s1) \<and>
     virtio_net_send nic [3, 4, 5] [] (nic TxDone s1) = Some (True, s2) \<and>
     virtio_net_send nic [6] [Dev TxDone] s2 = Some (True, s3) \<and> wire s3 = [[1, 2], [6]]"
proof -
  obtain s where s: "virtio_net_start demo_vnet = (True, s)" "card_state 0 0 [] s" "wire s = wire demo_vnet"
    by (rule start_ok [of demo_vnet]) (simp_all add: demo_vnet_def)
  have "card_ok [] s" using s(2) by (auto simp: card_ok_def)
  from late_completion_loses_frame [OF this, of "[1, 2]" "[3, 4, 5]" "[6]"] show ?thesis
    using s(1,3) by (simp add: demo_vnet_def)
qed

end
