(* ===== verification/CalcHeap.thy ===== *)
theory CalcHeap
  imports AxPrelude
begin

section \<open>The heap of the calculator\<close>

text \<open>
  \<^verbatim>\<open>calc_heap_init, calc_malloc, calc_free\<close> of \<^verbatim>\<open>src/src/kernel/gfx_shell.c\<close>: a first-fit allocator over an arena of 1 MB. The
  state is the chain of block headers from \<^verbatim>\<open>calc_heap_head\<close> on: a list in the order of the \<^verbatim>\<open>next\<close> pointers, empty
  before the first allocation (\<^verbatim>\<open>calc_heap_head\<close> is 0). The shell is a 32-bit program, so the header has 12 bytes. Addresses count from the start of the arena, so a block starts 12
  bytes before the pointer handed out and 0 is the null pointer.
\<close>

abbreviation CALC_ARENA_SIZE :: nat where "CALC_ARENA_SIZE \<equiv> 1048576"
abbreviation CHDR :: nat where "CHDR \<equiv> 12"

record cblock =
  caddr :: nat
  csize :: nat
  cfree :: bool

type_synonym cheap = "cblock list"

definition calc_heap_init :: cheap where
  "calc_heap_init = [\<lparr>caddr = 0, csize = CALC_ARENA_SIZE - CHDR, cfree = True\<rparr>]"

text \<open>The first block that fits, split when the rest can hold a block.\<close>

fun first_fit :: "nat \<Rightarrow> cheap \<Rightarrow> (nat \<times> cheap) option" where
  "first_fit sz [] = None"
| "first_fit sz (b # bs) =
     (if cfree b \<and> sz \<le> csize b
      then if sz + CHDR + 4 \<le> csize b
        then Some (caddr b + CHDR, b\<lparr>csize := sz, cfree := False\<rparr> #
               \<lparr>caddr = caddr b + CHDR + sz, csize = csize b - sz - CHDR, cfree = True\<rparr> # bs)
        else Some (caddr b + CHDR, b\<lparr>cfree := False\<rparr> # bs)
      else map_option (\<lambda>(p, bs'). (p, b # bs')) (first_fit sz bs))"

definition calc_size :: "nat \<Rightarrow> nat" where
  "calc_size n = ((if n = 0 then 1 else n) + 3) div 4 * 4"

definition calc_malloc :: "nat \<Rightarrow> cheap \<Rightarrow> nat \<times> cheap" where
  "calc_malloc sz h =
     (let h1 = (if h = [] then calc_heap_init else h)
      in case first_fit (calc_size sz) h1 of None \<Rightarrow> (0, h1) | Some r \<Rightarrow> r)"

fun release_at :: "nat \<Rightarrow> cheap \<Rightarrow> cheap" where
  "release_at a [] = []"
| "release_at a (b # bs) =
     (if caddr b = a
      then (case bs of
              [] \<Rightarrow> [b\<lparr>cfree := True\<rparr>]
            | n # ns \<Rightarrow> if cfree n then b\<lparr>cfree := True, csize := csize b + CHDR + csize n\<rparr> # ns else b\<lparr>cfree := True\<rparr> # bs)
      else b # release_at a bs)"

definition calc_free :: "nat \<Rightarrow> cheap \<Rightarrow> cheap" where
  "calc_free p h = (if p = 0 then h else release_at (p - CHDR) h)"

subsection \<open>The invariant\<close>

text \<open>The blocks from address \<open>a\<close> to \<open>e\<close> follow each other without a gap.\<close>

fun ctiles :: "nat \<Rightarrow> cheap \<Rightarrow> nat \<Rightarrow> bool" where
  "ctiles a [] e \<longleftrightarrow> a = e"
| "ctiles a (b # bs) e \<longleftrightarrow> caddr b = a \<and> 4 \<le> csize b \<and> 4 dvd csize b \<and> ctiles (a + CHDR + csize b) bs e"

definition arena_ok :: "cheap \<Rightarrow> bool" where
  "arena_ok h \<longleftrightarrow> h = [] \<or> ctiles 0 h CALC_ARENA_SIZE"

definition in_use :: "cheap \<Rightarrow> nat set" where
  "in_use h = {caddr b + CHDR | b. b \<in> set h \<and> \<not> cfree b}"

lemma in_use_simps [simp]:
  "in_use [] = {}" "in_use (b # bs) = (if cfree b then in_use bs else insert (caddr b + CHDR) (in_use bs))"
  by (auto simp: in_use_def)

lemma calc_size_props: "4 \<le> calc_size n" "n \<le> calc_size n" "4 dvd calc_size n" "calc_size n \<le> n + 4"
  by (auto simp: calc_size_def)

lemma ctiles_low: "ctiles a bs e \<Longrightarrow> b \<in> set bs \<Longrightarrow> a \<le> caddr b \<and> caddr b + CHDR + csize b \<le> e"
proof (induction bs arbitrary: a)
  case Nil
  then show ?case by simp
next
  case (Cons c cs)
  have "a' \<le> e" if "ctiles a' cs e" for a' using that by (induction cs arbitrary: a') fastforce+
  then show ?case using Cons by fastforce
qed

lemma ctiles_in_use: "ctiles a bs e \<Longrightarrow> p \<in> in_use bs \<Longrightarrow> a + CHDR \<le> p \<and> p + 4 \<le> e"
proof -
  assume t: "ctiles a bs e" and p: "p \<in> in_use bs"
  have s: "4 \<le> csize b" if "b \<in> set bs" for b using t that by (induction bs arbitrary: a) auto
  obtain b where "b \<in> set bs" "p = caddr b + CHDR" using p by (auto simp: in_use_def)
  then show ?thesis using ctiles_low [OF t] s by fastforce
qed

lemma ctiles_distinct: "ctiles a bs e \<Longrightarrow> distinct (map caddr bs)"
proof (induction bs arbitrary: a)
  case Nil
  then show ?case by simp
next
  case (Cons b bs)
  have "caddr b \<noteq> caddr c" if "c \<in> set bs" for c using ctiles_low [of _ bs e c] Cons.prems that by fastforce
  then show ?case using Cons by auto
qed

lemma first_fit_ok:
  assumes "ctiles a bs e" "first_fit n bs = Some (p, bs')" "4 \<le> n" "4 dvd n"
  shows "ctiles a bs' e \<and> p \<notin> in_use bs \<and> in_use bs' = insert p (in_use bs) \<and> a + CHDR \<le> p \<and> p + n \<le> e \<and>
    (\<exists>b\<in>set bs'. caddr b + CHDR = p \<and> n \<le> csize b)"
  using assms(1,2)
proof (induction bs arbitrary: a bs')
  case Nil
  then show ?case by simp
next
  case (Cons b bs)
  have t: "ctiles (a + CHDR + csize b) bs e" "caddr b = a" "4 \<le> csize b" "4 dvd csize b" using Cons.prems(1) by auto
  have le: "a + CHDR + csize b \<le> e" using ctiles_low [OF Cons.prems(1), of b] t(2) by simp
  show ?case
  proof (cases "cfree b \<and> n \<le> csize b")
    case True
    have out: "a + CHDR \<notin> in_use bs" using ctiles_in_use [OF t(1)] t(3) by fastforce
    have "4 dvd csize b - n" using t(4) assms(4) by (rule dvd_diff_nat)
    moreover have "4 dvd csize b - n - CHDR" if "n + CHDR + 4 \<le> csize b"
      using dvd_diff_nat [OF \<open>4 dvd csize b - n\<close>, of CHDR] by simp
    ultimately show ?thesis using Cons.prems(2) True t out le assms(3,4)
      by (auto split: if_splits simp: add.assoc)
  next
    case False
    then obtain cs where cs: "first_fit n bs = Some (p, cs)" "bs' = b # cs" using Cons.prems(2) by auto
    have "p \<noteq> caddr b + CHDR" using Cons.IH [OF t(1) cs(1)] t(2,3) by auto
    then show ?thesis using Cons.IH [OF t(1) cs(1)] cs(2) t by auto
  qed
qed

lemma first_fit_None: "first_fit n bs = None \<longleftrightarrow> (\<forall>b\<in>set bs. cfree b \<longrightarrow> csize b < n)"
  by (induction bs) auto

lemma release_ok:
  assumes "ctiles a bs e" "p \<in> in_use bs"
  shows "ctiles a (release_at (p - CHDR) bs) e \<and> in_use (release_at (p - CHDR) bs) = in_use bs - {p}"
  using assms
proof (induction bs arbitrary: a)
  case Nil
  then show ?case by simp
next
  case (Cons b bs)
  have t: "ctiles (a + CHDR + csize b) bs e" "caddr b = a" "4 \<le> csize b" "4 dvd csize b" using Cons.prems(1) by auto
  have lo: "a + CHDR + csize b + CHDR \<le> q" if "q \<in> in_use bs" for q using ctiles_in_use [OF t(1) that] by simp
  have p16: "CHDR \<le> p" using ctiles_in_use [OF Cons.prems] by simp
  show ?case
  proof (cases "caddr b = p - CHDR")
    case True
    then have p: "p = a + CHDR" using p16 t(2) by simp
    then have np: "p \<notin> in_use bs" using lo t(3) by fastforce
    have b: "\<not> cfree b" using Cons.prems(2) np by (auto split: if_splits)
    show ?thesis
    proof (cases bs)
      case Nil
      then show ?thesis using True t b p by simp
    next
      case (Cons n ns)
      show ?thesis
      proof (cases "cfree n")
        case cf: True
        have "4 dvd csize b + CHDR + csize n" using t(1,4) Cons by simp
        moreover have "ctiles (a + CHDR + (csize b + CHDR + csize n)) ns e" using t(1) Cons by (simp add: ac_simps)
        moreover have "release_at (p - CHDR) (b # bs) = b\<lparr>cfree := True, csize := csize b + CHDR + csize n\<rparr> # ns"
          using True cf Cons by simp
        ultimately show ?thesis using True cf Cons t(2,3) b p np by simp
      next
        case False
        then have "release_at (p - CHDR) (b # bs) = b\<lparr>cfree := True\<rparr> # bs" using True Cons by simp
        then show ?thesis using t b p np by simp
      qed
    qed
  next
    case False
    then have ne: "p \<noteq> caddr b + CHDR" using p16 by simp
    then have "p \<in> in_use bs" using Cons.prems(2) by (simp split: if_splits)
    note IH = Cons.IH [OF t(1) this]
    have r: "release_at (p - CHDR) (b # bs) = b # release_at (p - CHDR) bs" using False by simp
    have "in_use (b # release_at (p - CHDR) bs) = in_use (b # bs) - {p}" using IH ne by (cases "cfree b") auto
    then show ?thesis unfolding r using IH t by simp
  qed
qed

subsection \<open>The laws of the allocator\<close>

lemma calc_malloc_ok:
  assumes "arena_ok h" "calc_malloc n h = (p, h')"
  shows "arena_ok h'" "p = 0 \<Longrightarrow> in_use h' = in_use h" "p \<noteq> 0 \<Longrightarrow> p \<notin> in_use h \<and> in_use h' = insert p (in_use h)"
proof -
  define h1 where "h1 = (if h = [] then calc_heap_init else h)"
  have h1: "ctiles 0 h1 CALC_ARENA_SIZE" "in_use h1 = in_use h"
    using assms(1) by (auto simp: h1_def arena_ok_def calc_heap_init_def)
  have r: "(case first_fit (calc_size n) h1 of None \<Rightarrow> (0, h1) | Some r \<Rightarrow> r) = (p, h')"
    using assms(2) unfolding calc_malloc_def Let_def h1_def .
  have *: "arena_ok h' \<and> (if p = 0 then in_use h' = in_use h else p \<notin> in_use h \<and> in_use h' = insert p (in_use h))"
  proof (cases "first_fit (calc_size n) h1")
    case None
    then show ?thesis using r h1 by (auto simp: arena_ok_def)
  next
    case (Some q)
    then have "first_fit (calc_size n) h1 = Some (p, h')" using r by simp
    from first_fit_ok [OF h1(1) this calc_size_props(1,3)] show ?thesis using h1(2) by (auto simp: arena_ok_def)
  qed
  then show "arena_ok h'" "p = 0 \<Longrightarrow> in_use h' = in_use h" "p \<noteq> 0 \<Longrightarrow> p \<notin> in_use h \<and> in_use h' = insert p (in_use h)"
    by (auto split: if_splits)
qed

lemma calc_free_ok:
  assumes "arena_ok h" "p \<in> in_use h"
  shows "arena_ok (calc_free p h)" "in_use (calc_free p h) = in_use h - {p}"
proof -
  have "ctiles 0 h CALC_ARENA_SIZE" using assms by (auto simp: arena_ok_def)
  moreover from this have "p \<noteq> 0" using ctiles_in_use [OF _ assms(2)] by fastforce
  ultimately show "arena_ok (calc_free p h)" "in_use (calc_free p h) = in_use h - {p}"
    using release_ok [OF _ assms(2)] by (auto simp: arena_ok_def calc_free_def)
qed

lemma in_use_not_null: "arena_ok h \<Longrightarrow> 0 \<notin> in_use h"
  using ctiles_in_use [of 0 h CALC_ARENA_SIZE 0] by (auto simp: arena_ok_def)

text \<open>A free block of at least \<open>S\<close> bytes.\<close>

definition roomy :: "nat \<Rightarrow> cheap \<Rightarrow> bool" where
  "roomy S h \<longleftrightarrow> (\<exists>b\<in>set (if h = [] then calc_heap_init else h). cfree b \<and> S \<le> csize b)"

lemma first_fit_room:
  assumes "b \<in> set bs" "cfree b" "S \<le> csize b" "n + 20 \<le> S"
  shows "\<exists>p bs'. first_fit n bs = Some (p, bs') \<and> (\<exists>c\<in>set bs'. cfree c \<and> S - (n + 16) \<le> csize c)"
  using assms(1)
proof (induction bs)
  case Nil
  then show ?case by simp
next
  case (Cons c cs)
  show ?case
  proof (cases "cfree c \<and> n \<le> csize c")
    case True
    show ?thesis
    proof (cases "b = c")
      case bc: True
      then show ?thesis using assms(2-4) by fastforce
    next
      case False
      then show ?thesis using Cons.prems True assms(2,3) by fastforce
    qed
  next
    case False
    then have "b \<in> set cs" using Cons.prems assms by auto
    then show ?thesis using Cons.IH False by fastforce
  qed
qed

lemma first_fit_not_Nil: "first_fit n bs = Some (p, bs') \<Longrightarrow> bs' \<noteq> []"
  by (cases bs) (auto split: if_splits)

lemma calc_malloc_room:
  assumes "arena_ok h" "roomy S h" "n + 24 \<le> S" "calc_malloc n h = (p, h')"
  shows "p \<noteq> 0" "roomy (S - (n + 20)) h'"
proof -
  define h1 where "h1 = (if h = [] then calc_heap_init else h)"
  have t: "ctiles 0 h1 CALC_ARENA_SIZE" using assms(1) by (auto simp: h1_def arena_ok_def calc_heap_init_def)
  obtain b where b: "b \<in> set h1" "cfree b" "S \<le> csize b" using assms(2) by (auto simp: roomy_def h1_def)
  have n: "calc_size n + 20 \<le> S" "calc_size n \<le> n + 4" using calc_size_props(4) [of n] assms(3) by linarith+
  obtain q bs where f: "first_fit (calc_size n) h1 = Some (q, bs)" "\<exists>c\<in>set bs. cfree c \<and> S - (calc_size n + 16) \<le> csize c"
    using first_fit_room [OF b n(1)] by blast
  then have e: "p = q" "h' = bs" using assms(4) unfolding calc_malloc_def Let_def h1_def [symmetric] by simp_all
  show "p \<noteq> 0" using first_fit_ok [OF t f(1) calc_size_props(1,3)] e by auto
  show "roomy (S - (n + 20)) h'" using f(2) n(2) first_fit_not_Nil [OF f(1)] unfolding e(2) roomy_def by (auto intro!: bexI)
qed

lemma release_room: "b \<in> set bs \<Longrightarrow> cfree b \<Longrightarrow> S \<le> csize b \<Longrightarrow> \<exists>c\<in>set (release_at a bs). cfree c \<and> S \<le> csize c"
proof (induction bs)
  case (Cons c cs)
  show ?case
  proof (cases "caddr c = a")
    case True
    then show ?thesis using Cons.prems by (auto split: list.splits)
  next
    case False
    then show ?thesis using Cons by auto
  qed
qed simp

lemma calc_free_room: "roomy S h \<Longrightarrow> roomy S (calc_free p h)"
proof (cases "h = []")
  case False
  assume "roomy S h"
  then obtain c where c: "c \<in> set (release_at (p - CHDR) h)" "cfree c" "S \<le> csize c"
    using False release_room [of _ h S "p - CHDR"] by (auto simp: roomy_def)
  then have "roomy S (release_at (p - CHDR) h)" by (auto simp: roomy_def)
  then show ?thesis using \<open>roomy S h\<close> by (simp add: calc_free_def)
qed (simp add: calc_free_def)

lemma roomy_mono: "roomy S h \<Longrightarrow> T \<le> S \<Longrightarrow> roomy T h"
  by (fastforce simp: roomy_def)

lemma calc_malloc_roomy:
  assumes "arena_ok h" "calc_malloc n h = (p, h')" "n \<le> T" "roomy S h" "T + 24 \<le> S"
  shows "p \<noteq> 0" "roomy (S - (T + 24)) h'"
proof -
  have n: "n + 24 \<le> S" "S - (T + 24) \<le> S - (n + 20)" using assms(3,5) by linarith+
  show "p \<noteq> 0" by (rule calc_malloc_room(1) [OF assms(1,4) n(1) assms(2)])
  show "roomy (S - (T + 24)) h'" by (rule roomy_mono [OF calc_malloc_room(2) [OF assms(1,4) n(1) assms(2)] n(2)])
qed

lemma released_block:
  assumes "ctiles a bs e" "p \<in> in_use bs"
  shows "\<exists>b\<in>set (release_at (p - CHDR) bs). cfree b \<and> 4 \<le> csize b"
  using assms
proof (induction bs arbitrary: a)
  case Nil
  then show ?case by simp
next
  case (Cons b bs)
  have t: "ctiles (a + CHDR + csize b) bs e" "4 \<le> csize b" using Cons.prems(1) by auto
  have p16: "CHDR \<le> p" using ctiles_in_use [OF Cons.prems] by simp
  show ?case
  proof (cases "caddr b = p - CHDR")
    case True
    then show ?thesis using t(2) by (auto split: list.splits)
  next
    case False
    then have "p \<noteq> caddr b + CHDR" using p16 by simp
    then have "p \<in> in_use bs" using Cons.prems(2) by (simp split: if_splits)
    then show ?thesis using Cons.IH [OF t(1)] False by auto
  qed
qed

end
