(* ===== verification/Calc.thy ===== *)
theory Calc
  imports CalcHeap "HOL-Library.Char_ord"
begin

section \<open>The calculator: decimal numbers of any length\<close>

text \<open>
  The calculator of the graphical shell (\<^verbatim>\<open>src/src/kernel/gfx_shell.c\<close>, from \<^verbatim>\<open>bignum_t\<close> to \<^verbatim>\<open>calc_press\<close>): signed
  decimal numbers with a scale, whose digits lie in the calculator's heap. A number here carries the pointer to its
  digits and the digits themselves, the most significant first; \<^verbatim>\<open>len\<close> is the length of the list. Every operation
  threads the heap: it allocates its result and its temporaries and frees the latter, and an allocation that fails
  is the error \<open>OOM\<close> with what was allocated before given back, as in the code.
\<close>

abbreviation FRAC_DIGITS :: nat where "FRAC_DIGITS \<equiv> 20"

record bignum =
  bptr :: nat
  bdigits :: "int list"
  bscale :: nat
  bneg :: bool

datatype calc_err = OOM | MATH

type_synonym 'a calc_res = "(calc_err + 'a) \<times> cheap"

definition bignum_from_digit :: "int \<Rightarrow> cheap \<Rightarrow> bignum \<times> cheap" where
  "bignum_from_digit d h = (case calc_malloc 1 h of (p, h1) \<Rightarrow> (\<lparr>bptr = p, bdigits = [d], bscale = 0, bneg = False\<rparr>, h1))"

definition bignum_free :: "bignum \<Rightarrow> cheap \<Rightarrow> cheap" where
  "bignum_free n h = calc_free (bptr n) h"

definition bignum_copy :: "bignum \<Rightarrow> cheap \<Rightarrow> bignum calc_res" where
  "bignum_copy src h =
     (case calc_malloc (length (bdigits src)) h of (p, h1) \<Rightarrow> if p = 0 then (Inl OOM, h1) else (Inr (src\<lparr>bptr := p\<rparr>), h1))"

definition bignum_is_zero :: "bignum \<Rightarrow> bool" where
  "bignum_is_zero n \<longleftrightarrow> list_all (\<lambda>d. d = 0) (bdigits n)"

text \<open>Leading zeros are dropped while more than \<open>k\<close> digits remain.\<close>

fun strip_to :: "nat \<Rightarrow> int list \<Rightarrow> int list" where
  "strip_to k [] = []"
| "strip_to k (d # ds) = (if d = 0 \<and> k \<le> length ds then strip_to k ds else d # ds)"

definition bignum_trim :: "bignum \<Rightarrow> bignum" where
  "bignum_trim n =
     (let n1 = n\<lparr>bdigits := strip_to (bscale n + 1) (bdigits n)\<rparr>
      in if bignum_is_zero n1 then n1\<lparr>bneg := False\<rparr> else n1)"

subsection \<open>Alignment, comparison, addition\<close>

definition aligned :: "nat \<Rightarrow> nat \<Rightarrow> bignum \<Rightarrow> int list" where
  "aligned int_len scale n =
     replicate (int_len - (length (bdigits n) - bscale n)) 0 @ bdigits n @ replicate (scale - bscale n) 0"

definition bignum_align :: "bignum \<Rightarrow> bignum \<Rightarrow> cheap \<Rightarrow> (bignum \<times> bignum) calc_res" where
  "bignum_align a b h =
     (let scale = max (bscale a) (bscale b);
          int_len = max (length (bdigits a) - bscale a) (length (bdigits b) - bscale b);
          total = int_len + scale
      in case calc_malloc total h of (p, h1) \<Rightarrow>
           if p = 0 then (Inl OOM, h1)
           else case calc_malloc total h1 of (q, h2) \<Rightarrow>
             if q = 0 then (Inl OOM, calc_free p h2)
             else (Inr (\<lparr>bptr = p, bdigits = aligned int_len scale a, bscale = scale, bneg = bneg a\<rparr>,
                        \<lparr>bptr = q, bdigits = aligned int_len scale b, bscale = scale, bneg = bneg b\<rparr>), h2))"

fun cmp_digits :: "int list \<Rightarrow> int list \<Rightarrow> int" where
  "cmp_digits (x # xs) (y # ys) = (if x \<noteq> y then (if y < x then 1 else - 1) else cmp_digits xs ys)"
| "cmp_digits _ _ = 0"

text \<open>Sum and difference of two lists of the same length, with the carry or borrow out of the first digit.\<close>

fun add_digits :: "int list \<Rightarrow> int list \<Rightarrow> int \<times> int list" where
  "add_digits (x # xs) (y # ys) =
     (case add_digits xs ys of (carry, zs) \<Rightarrow> let sum = x + y + carry in (sum div 10, sum mod 10 # zs))"
| "add_digits _ _ = (0, [])"

fun sub_digits :: "int list \<Rightarrow> int list \<Rightarrow> int \<times> int list" where
  "sub_digits (x # xs) (y # ys) =
     (case sub_digits xs ys of (borrow, zs) \<Rightarrow> let d = x - y - borrow in if d < 0 then (1, (d + 10) # zs) else (0, d # zs))"
| "sub_digits _ _ = (0, [])"

definition bignum_add_abs :: "bignum \<Rightarrow> bignum \<Rightarrow> cheap \<Rightarrow> bignum calc_res" where
  "bignum_add_abs a b h =
     (case calc_malloc (length (bdigits a) + 1) h of (p, h1) \<Rightarrow>
        if p = 0 then (Inl OOM, h1)
        else case add_digits (bdigits a) (bdigits b) of (carry, zs) \<Rightarrow>
          (Inr \<lparr>bptr = p, bdigits = carry # zs, bscale = bscale a, bneg = False\<rparr>, h1))"

definition bignum_sub_abs :: "bignum \<Rightarrow> bignum \<Rightarrow> cheap \<Rightarrow> bignum calc_res" where
  "bignum_sub_abs a b h =
     (case calc_malloc (length (bdigits a)) h of (p, h1) \<Rightarrow>
        if p = 0 then (Inl OOM, h1)
        else (Inr \<lparr>bptr = p, bdigits = snd (sub_digits (bdigits a) (bdigits b)), bscale = bscale a, bneg = False\<rparr>, h1))"

definition bignum_add :: "bignum \<Rightarrow> bignum \<Rightarrow> cheap \<Rightarrow> bignum calc_res" where
  "bignum_add a b h =
     (case bignum_align a b h of
        (Inl e, h1) \<Rightarrow> (Inl e, h1)
      | (Inr (pa, pb), h1) \<Rightarrow>
          let (r, sgn) =
            (if bneg a = bneg b then (bignum_add_abs pa pb h1, bneg a)
             else if 0 \<le> cmp_digits (bdigits pa) (bdigits pb) then (bignum_sub_abs pa pb h1, bneg a)
             else (bignum_sub_abs pb pa h1, bneg b));
              h3 = bignum_free pb (bignum_free pa (snd r))
          in case fst r of Inl e \<Rightarrow> (Inl e, h3) | Inr out \<Rightarrow> (Inr (bignum_trim (out\<lparr>bneg := sgn\<rparr>)), h3))"

definition bignum_sub :: "bignum \<Rightarrow> bignum \<Rightarrow> cheap \<Rightarrow> bignum calc_res" where
  "bignum_sub a b h = bignum_add a (b\<lparr>bneg := (if bignum_is_zero b then False else \<not> bneg b)\<rparr>) h"

subsection \<open>Multiplication\<close>

text \<open>One row: \<open>x\<close> times the digits of \<open>b\<close>, added to the digits of \<^verbatim>\<open>tmp\<close> below it; then the carry into the digits above.\<close>

fun mul_row :: "int \<Rightarrow> int list \<Rightarrow> int list \<Rightarrow> int \<times> int list" where
  "mul_row x (y # ys) (t # ts) =
     (case mul_row x ys ts of (carry, zs) \<Rightarrow> let prod = x * y + t + carry in (prod div 10, prod mod 10 # zs))"
| "mul_row x _ _ = (0, [])"

text \<open>The argument is the part of \<^verbatim>\<open>tmp\<close> up to \<^verbatim>\<open>pos\<close>, from right to left.\<close>

fun put_carry :: "int \<Rightarrow> int list \<Rightarrow> int list" where
  "put_carry carry [] = []"
| "put_carry carry (t # ts) = (if carry = 0 then t # ts else (t + carry) mod 10 # put_carry ((t + carry) div 10) ts)"

definition mul_step :: "int list \<Rightarrow> int list \<Rightarrow> nat \<Rightarrow> int list \<Rightarrow> int list" where
  "mul_step as bs i tmp =
     (case mul_row (as ! i) bs (take (length bs) (drop (i + 1) tmp)) of (carry, zs) \<Rightarrow>
        rev (put_carry carry (rev (take (i + 1) tmp))) @ zs @ drop (i + 1 + length bs) tmp)"

definition mul_digits :: "int list \<Rightarrow> int list \<Rightarrow> int list" where
  "mul_digits as bs = fold (mul_step as bs) (rev [0..<length as]) (replicate (length as + length bs) 0)"

definition bignum_mul :: "bignum \<Rightarrow> bignum \<Rightarrow> cheap \<Rightarrow> bignum calc_res" where
  "bignum_mul a b h =
     (case calc_malloc (length (bdigits a) + length (bdigits b)) h of (p, h1) \<Rightarrow>
        if p = 0 then (Inl OOM, h1)
        else let tmp = mul_digits (bdigits a) (bdigits b); scale = bscale a + bscale b;
                 out = \<lparr>bptr = p, bdigits = tmp, bscale = scale, bneg = (bneg a \<noteq> bneg b)\<rparr>;
                 out1 = (if FRAC_DIGITS < scale
                         then out\<lparr>bdigits := take (length tmp - (scale - FRAC_DIGITS)) tmp, bscale := FRAC_DIGITS\<rparr> else out)
             in (Inr (bignum_trim out1), h1))"

subsection \<open>Division\<close>

definition cmp_rem :: "int list \<Rightarrow> int list \<Rightarrow> int" where
  "cmp_rem rem pb = (if length rem \<noteq> length pb then (if length pb < length rem then 1 else - 1) else cmp_digits rem pb)"

definition sub_rem :: "int list \<Rightarrow> int list \<Rightarrow> int list" where
  "sub_rem rem pb = strip_to 1 (snd (sub_digits rem (replicate (length rem - length pb) 0 @ pb)))"

text \<open>One digit of the quotient by repeated subtraction.\<close>

partial_function (option) div_digit :: "int list \<Rightarrow> int list \<Rightarrow> int \<Rightarrow> (int \<times> int list) option" where
  "div_digit rem pb qd = (if cmp_rem rem pb < 0 then Some (qd, rem) else div_digit (sub_rem rem pb) pb (qd + 1))"

declare div_digit.simps [code]

definition bring_down :: "nat \<Rightarrow> int list \<Rightarrow> int \<Rightarrow> int list" where
  "bring_down rem_cap rem d = strip_to 1 (if length rem < rem_cap then rem @ [d] else tl rem @ [d])"

text \<open>The digits of the quotient, for the digits of the dividend followed by zeros.\<close>

fun div_digits :: "nat \<Rightarrow> int list \<Rightarrow> int list \<Rightarrow> int list \<Rightarrow> int list option" where
  "div_digits cap rem [] pb = Some []"
| "div_digits cap rem (d # ds) pb =
     (case div_digit (bring_down cap rem d) pb 0 of
        None \<Rightarrow> None
      | Some (qd, rem1) \<Rightarrow> (case div_digits cap rem1 ds pb of None \<Rightarrow> None | Some qs \<Rightarrow> Some (qd # qs)))"

text \<open>\<open>None\<close>: the subtraction does not end.\<close>

definition bignum_div :: "bignum \<Rightarrow> bignum \<Rightarrow> cheap \<Rightarrow> bignum calc_res option" where
  "bignum_div a b h =
     (if bignum_is_zero b then Some (Inl MATH, h)
      else case bignum_align a b h of
        (Inl e, h1) \<Rightarrow> Some (Inl e, h1)
      | (Inr (pa, pb), h1) \<Rightarrow>
          let pbd = strip_to 1 (bdigits pb); qlen = length (bdigits pa) + FRAC_DIGITS
          in case calc_malloc qlen h1 of (q, h2) \<Rightarrow>
               if q = 0 then Some (Inl OOM, bignum_free pb (bignum_free pa h2))
               else case calc_malloc (length pbd + 1) h2 of (rem, h3) \<Rightarrow>
                 if rem = 0 then Some (Inl OOM, bignum_free pb (bignum_free pa (calc_free q h3)))
                 else case div_digits (length pbd + 1) [] (bdigits pa @ replicate FRAC_DIGITS 0) pbd of
                   None \<Rightarrow> None
                 | Some qs \<Rightarrow>
                     Some (Inr (bignum_trim \<lparr>bptr = q, bdigits = qs, bscale = FRAC_DIGITS, bneg = (bneg a \<noteq> bneg b)\<rparr>),
                           bignum_free pb (bignum_free pa (calc_free rem h3))))"

definition bignum_div100 :: "bignum \<Rightarrow> cheap \<Rightarrow> bignum calc_res" where
  "bignum_div100 a h =
     (case calc_malloc (length (bdigits a) + 2) h of (p, h1) \<Rightarrow>
        if p = 0 then (Inl OOM, h1)
        else (Inr (bignum_trim \<lparr>bptr = p, bdigits = 0 # 0 # bdigits a, bscale = bscale a + 2, bneg = bneg a\<rparr>), h1))"

text \<open>\<^verbatim>\<open>calc_do_op\<close>; an operator other than the four is an error as well.\<close>

definition calc_do_op :: "bignum \<Rightarrow> char \<Rightarrow> bignum \<Rightarrow> cheap \<Rightarrow> bignum calc_res option" where
  "calc_do_op a c b h =
     (if c = CHR ''+'' then Some (bignum_add a b h)
      else if c = CHR ''-'' then Some (bignum_sub a b h)
      else if c = CHR ''*'' then Some (bignum_mul a b h)
      else if c = CHR ''/'' then bignum_div a b h
      else Some (Inl OOM, h))"

subsection \<open>Square root\<close>

primrec sqrt_loop :: "nat \<Rightarrow> bignum \<Rightarrow> bignum \<Rightarrow> bignum \<Rightarrow> cheap \<Rightarrow> bignum calc_res option" where
  "sqrt_loop 0 a two x h = Some (Inr x, bignum_free two h)"
| "sqrt_loop (Suc k) a two x h =
     (case bignum_div a x h of
        None \<Rightarrow> None
      | Some (Inl e, h1) \<Rightarrow> Some (Inl OOM, bignum_free two (bignum_free x h1))
      | Some (Inr q, h1) \<Rightarrow>
          (case bignum_add x q h1 of
             (Inl e, h2) \<Rightarrow> Some (Inl OOM, bignum_free two (bignum_free x (bignum_free q h2)))
           | (Inr s, h2) \<Rightarrow>
               (case bignum_div s two (bignum_free q h2) of
                  None \<Rightarrow> None
                | Some (Inl e, h3) \<Rightarrow> Some (Inl OOM, bignum_free two (bignum_free x (bignum_free s h3)))
                | Some (Inr nx, h3) \<Rightarrow> sqrt_loop k a two nx (bignum_free x (bignum_free s h3)))))"

definition calc_sqrt :: "bignum \<Rightarrow> cheap \<Rightarrow> bignum calc_res option" where
  "calc_sqrt a h =
     (if bneg a then Some (Inl MATH, h)
      else if bignum_is_zero a
      then (case bignum_from_digit 0 h of (n, h1) \<Rightarrow> Some (if bptr n \<noteq> 0 then Inr n else Inl OOM, h1))
      else case bignum_from_digit 1 h of (one, h1) \<Rightarrow>
        (case bignum_add a one h1 of
           (Inl e, h2) \<Rightarrow> Some (Inl OOM, bignum_free one h2)
         | (Inr x, h2) \<Rightarrow> (case bignum_from_digit 2 (bignum_free one h2) of (two, h3) \<Rightarrow> sqrt_loop 60 a two x h3)))"

subsection \<open>The keys\<close>

record calc =
  calc_heap :: cheap
  calc_acc :: bignum
  calc_cur :: bignum
  calc_memory :: bignum
  calc_has_digits :: bool
  calc_pending_op :: "char option"
  calc_error :: bool
  calc_inited :: bool

definition calc_init :: "calc \<Rightarrow> calc" where
  "calc_init s =
     (if calc_inited s then s
      else case bignum_from_digit 0 (calc_heap s) of (a, h1) \<Rightarrow> case bignum_from_digit 0 h1 of (c, h2) \<Rightarrow>
        case bignum_from_digit 0 h2 of (m, h3) \<Rightarrow>
          s\<lparr>calc_heap := h3, calc_acc := a, calc_cur := c, calc_memory := m, calc_inited := True\<rparr>)"

definition reset_cur :: "calc \<Rightarrow> calc" where
  "reset_cur s = (case bignum_from_digit 0 (bignum_free (calc_cur s) (calc_heap s)) of (n, h) \<Rightarrow> s\<lparr>calc_heap := h, calc_cur := n\<rparr>)"

definition reset_acc :: "calc \<Rightarrow> calc" where
  "reset_acc s = (case bignum_from_digit 0 (bignum_free (calc_acc s) (calc_heap s)) of (n, h) \<Rightarrow> s\<lparr>calc_heap := h, calc_acc := n\<rparr>)"

definition reset_memory :: "calc \<Rightarrow> calc" where
  "reset_memory s = (case bignum_from_digit 0 (bignum_free (calc_memory s) (calc_heap s)) of (n, h) \<Rightarrow> s\<lparr>calc_heap := h, calc_memory := n\<rparr>)"

text \<open>A result replaces a variable, or the error flag is set.\<close>

definition into_acc :: "bignum calc_res \<Rightarrow> calc \<Rightarrow> bool \<times> calc" where
  "into_acc r s = (case r of (Inl e, h) \<Rightarrow> (False, s\<lparr>calc_heap := h, calc_error := True\<rparr>)
     | (Inr n, h) \<Rightarrow> (True, s\<lparr>calc_heap := bignum_free (calc_acc s) h, calc_acc := n\<rparr>))"

definition into_cur :: "bignum calc_res \<Rightarrow> calc \<Rightarrow> bool \<times> calc" where
  "into_cur r s = (case r of (Inl e, h) \<Rightarrow> (False, s\<lparr>calc_heap := h, calc_error := True\<rparr>)
     | (Inr n, h) \<Rightarrow> (True, s\<lparr>calc_heap := bignum_free (calc_cur s) h, calc_cur := n\<rparr>))"

definition into_memory :: "bignum calc_res \<Rightarrow> calc \<Rightarrow> bool \<times> calc" where
  "into_memory r s = (case r of (Inl e, h) \<Rightarrow> (False, s\<lparr>calc_heap := h, calc_error := True\<rparr>)
     | (Inr n, h) \<Rightarrow> (True, s\<lparr>calc_heap := bignum_free (calc_memory s) h, calc_memory := n\<rparr>))"

definition calc_display :: "calc \<Rightarrow> bignum" where
  "calc_display s = (if calc_has_digits s then calc_cur s else calc_acc s)"

definition into_display :: "bignum calc_res \<Rightarrow> calc \<Rightarrow> calc" where
  "into_display r s = snd (if calc_has_digits s then into_cur r s else into_acc r s)"

definition press_digit :: "int \<Rightarrow> calc \<Rightarrow> calc" where
  "press_digit d s0 =
     (let s = (if calc_error s0 then (reset_cur (s0\<lparr>calc_error := False\<rparr>))\<lparr>calc_has_digits := False\<rparr> else s0);
          cur = calc_cur s
      in case calc_malloc (length (bdigits cur) + 1) (calc_heap s) of (p, h) \<Rightarrow>
           if p = 0 then s\<lparr>calc_heap := h, calc_error := True\<rparr>
           else let ds = bdigits cur @ [d];
                    ds1 = (if length ds = 2 \<and> hd ds = 0 then [d] else ds)
                in s\<lparr>calc_heap := calc_free (bptr cur) h, calc_cur := cur\<lparr>bptr := p, bdigits := ds1\<rparr>, calc_has_digits := True\<rparr>)"

definition press_percent :: "calc \<Rightarrow> calc" where
  "press_percent s =
     (if calc_pending_op s \<noteq> None \<and> calc_has_digits s
      then (case bignum_mul (calc_acc s) (calc_cur s) (calc_heap s) of
              (Inl e, h) \<Rightarrow> s\<lparr>calc_heap := h, calc_error := True\<rparr>
            | (Inr prd, h) \<Rightarrow> (case bignum_div100 prd h of (r, h1) \<Rightarrow> into_display (r, bignum_free prd h1) s))
      else into_display (bignum_div100 (calc_display s) (calc_heap s)) s)"

definition press_equals :: "calc \<Rightarrow> calc option" where
  "press_equals s =
     (case calc_pending_op s of
        None \<Rightarrow> Some s
      | Some c \<Rightarrow>
          (case calc_do_op (calc_acc s) c (calc_display s) (calc_heap s) of
             None \<Rightarrow> None
           | Some r \<Rightarrow> (case into_acc r s of (ok, s1) \<Rightarrow> Some (if ok then s1\<lparr>calc_pending_op := None, calc_has_digits := False\<rparr> else s1))))"

definition press_operator :: "char \<Rightarrow> calc \<Rightarrow> calc option" where
  "press_operator c s =
     (case (if \<not> calc_has_digits s then Some (True, s)
            else case calc_pending_op s of
              Some p \<Rightarrow> map_option (\<lambda>r. into_acc r s) (calc_do_op (calc_acc s) p (calc_cur s) (calc_heap s))
            | None \<Rightarrow> Some (into_acc (bignum_copy (calc_cur s) (calc_heap s)) s)) of
        None \<Rightarrow> None
      | Some (ok, s1) \<Rightarrow> Some (if ok then (reset_cur (s1\<lparr>calc_pending_op := Some c\<rparr>))\<lparr>calc_has_digits := False\<rparr> else s1))"

definition calc_press :: "char \<Rightarrow> calc \<Rightarrow> calc option" where
  "calc_press key s0 =
     (let s = calc_init s0
      in if CHR ''0'' \<le> key \<and> key \<le> CHR ''9'' then Some (press_digit (of_char key - 48) s)
         else if key = CHR ''C'' then
           Some ((reset_cur (reset_acc s))\<lparr>calc_has_digits := False, calc_pending_op := None, calc_error := False\<rparr>)
         else if calc_error s then Some s
         else if key = CHR ''p'' then Some (snd (into_memory (bignum_add (calc_memory s) (calc_display s) (calc_heap s)) s))
         else if key = CHR ''n'' then Some (snd (into_memory (bignum_sub (calc_memory s) (calc_display s) (calc_heap s)) s))
         else if key = CHR ''r'' then
           (case into_cur (bignum_copy (calc_memory s) (calc_heap s)) s of
              (ok, s1) \<Rightarrow> Some (if ok then s1\<lparr>calc_has_digits := True\<rparr> else s1))
         else if key = CHR ''k'' then Some (reset_memory s)
         else if key = CHR ''%'' then Some (press_percent s)
         else if key = CHR ''s'' then map_option (\<lambda>r. into_display r s) (calc_sqrt (calc_display s) (calc_heap s))
         else if key = CHR ''='' then press_equals s
         else press_operator key s)"

subsection \<open>The display\<close>

text \<open>At most \<open>cap - 1\<close> characters.\<close>

definition bignum_to_str :: "bignum \<Rightarrow> nat \<Rightarrow> string" where
  "bignum_to_str n cap =
     (let put = (\<lambda>cs buf. buf @ take (cap - 1 - length buf) cs);
          digit = (\<lambda>d. char_of (48 + d));
          int_len = length (bdigits n) - bscale n;
          s1 = put (if bneg n then ''-'' else []) [];
          s2 = put (if int_len = 0 then ''0'' else map digit (take int_len (bdigits n))) s1
      in if 0 < bscale n \<and> length s2 < cap - 1 then put (map digit (drop int_len (bdigits n))) (s2 @ ''.'') else s2)"

definition bignum_display_len :: "bignum \<Rightarrow> nat" where
  "bignum_display_len n =
     (let int_len = length (bdigits n) - bscale n
      in (if bneg n then 1 else 0) + (if int_len = 0 then 1 else int_len) + (if 0 < bscale n then 1 + bscale n else 0))"

end
