(* ===== verification/CalcArith.thy ===== *)
theory CalcArith
  imports Calc Complex_Main
begin

section \<open>The calculator: digit lists\<close>

text \<open>
  The value of a digit list, and what the loops of the calculator compute on it: sum, difference, product, comparison and
  quotient of the values. The loop of the division ends for every divisor that is not zero.
\<close>

definition digit_list :: "int list \<Rightarrow> bool" where
  "digit_list ds \<longleftrightarrow> (\<forall>d\<in>set ds. 0 \<le> d \<and> d \<le> 9)"

fun dval :: "int list \<Rightarrow> int" where
  "dval [] = 0"
| "dval (d # ds) = d * 10 ^ length ds + dval ds"

named_theorems digit_simps \<open>the shape of digit lists\<close>

lemma digit_list_simps [digit_simps, simp]:
  "digit_list []" "digit_list (d # ds) \<longleftrightarrow> 0 \<le> d \<and> d \<le> 9 \<and> digit_list ds"
  "digit_list (xs @ ys) \<longleftrightarrow> digit_list xs \<and> digit_list ys" "digit_list (replicate n 0)" "digit_list (rev xs) \<longleftrightarrow> digit_list xs"
  by (auto simp: digit_list_def)

lemma digit_list_take [intro]: "digit_list ds \<Longrightarrow> digit_list (take n ds)"
  and digit_list_drop [intro]: "digit_list ds \<Longrightarrow> digit_list (drop n ds)"
  by (auto simp: digit_list_def dest: in_set_takeD in_set_dropD)

lemma dval_append [simp]: "dval (xs @ ys) = dval xs * 10 ^ length ys + dval ys"
  by (induction xs) (simp_all add: algebra_simps power_add)

lemma dval_zeros [simp]: "dval (replicate n 0) = 0"
  by (induction n) simp_all

lemma dval_bounds: "digit_list ds \<Longrightarrow> 0 \<le> dval ds \<and> dval ds < 10 ^ length ds"
proof (induction ds)
  case Nil
  then show ?case by simp
next
  case (Cons d ds)
  then have I: "0 \<le> dval ds" "dval ds < 10 ^ length ds" "0 \<le> d" "d \<le> 9" by auto
  have "d * 10 ^ length ds \<le> 9 * 10 ^ length ds" using I(4) by (intro mult_right_mono) auto
  moreover have "0 \<le> d * 10 ^ length ds" using I(3) by simp
  ultimately have "0 \<le> d * 10 ^ length ds + dval ds \<and> d * 10 ^ length ds + dval ds < 10 * 10 ^ length ds" using I(1,2) by linarith
  then show ?case by simp
qed

lemma dval_nonneg [simp]: "digit_list ds \<Longrightarrow> 0 \<le> dval ds"
  using dval_bounds by blast

lemma dval_zero_iff: "digit_list ds \<Longrightarrow> dval ds = 0 \<longleftrightarrow> list_all (\<lambda>d. d = 0) ds"
proof (induction ds)
  case Nil
  then show ?case by simp
next
  case (Cons d ds)
  then have "0 \<le> d * 10 ^ length ds" "0 \<le> dval ds" by simp_all
  then show ?case using Cons by (auto simp: add_nonneg_eq_0_iff)
qed

lemma dval_strip [simp]: "dval (strip_to k ds) = dval ds"
  by (induction ds) auto

lemma digit_list_strip [intro]: "digit_list ds \<Longrightarrow> digit_list (strip_to k ds)"
  by (induction ds) auto

lemma strip_length: "length (strip_to k ds) \<le> length ds" "k \<le> length ds \<Longrightarrow> k \<le> length (strip_to k ds)"
proof (induction ds)
  case (Cons d ds)
  { case 1 then show ?case using Cons(1) by auto }
  { case 2 then show ?case using Cons(2) by auto }
qed simp_all

lemma dval_split: "dval ds = dval (take n ds) * 10 ^ (length ds - n) + dval (drop n ds)"
  using dval_append [of "take n ds" "drop n ds"] by simp

text \<open>The digits in front are the quotient by a power of ten.\<close>

lemma dval_take: "digit_list ds \<Longrightarrow> n \<le> length ds \<Longrightarrow> dval (take (length ds - n) ds) = dval ds div 10 ^ n"
proof -
  assume d: "digit_list ds" and n: "n \<le> length ds"
  let ?t = "dval (take (length ds - n) ds)" and ?r = "dval (drop (length ds - n) ds)"
  have "dval ds = ?t * 10 ^ n + ?r" using dval_split [of ds "length ds - n"] n by simp
  moreover have "0 \<le> ?r" "?r < 10 ^ n" using dval_bounds [OF digit_list_drop [OF d], of "length ds - n"] n by simp_all
  ultimately show ?thesis by simp
qed

subsection \<open>Sum and difference\<close>

lemma add_digits_ok:
  "length xs = length ys \<Longrightarrow> digit_list xs \<Longrightarrow> digit_list ys \<Longrightarrow> add_digits xs ys = (c, zs) \<Longrightarrow>
     c * 10 ^ length xs + dval zs = dval xs + dval ys \<and> digit_list zs \<and> length zs = length xs \<and> 0 \<le> c \<and> c \<le> 1"
proof (induction xs ys arbitrary: c zs rule: list_induct2')
  case (4 x xs y ys)
  obtain k ws where k: "add_digits xs ys = (k, ws)" by fastforce
  then have I: "k * 10 ^ length xs + dval ws = dval xs + dval ys" "digit_list ws" "length ws = length xs" "0 \<le> k" "k \<le> 1"
    using 4 by simp_all
  have z: "c = (x + y + k) div 10" "zs = ((x + y + k) mod 10) # ws" using 4(5) k by (auto simp: Let_def)
  have b: "0 \<le> x" "x \<le> 9" "0 \<le> y" "y \<le> 9" using 4(3,4) by simp_all
  have "c * (10 * 10 ^ length xs) + ((x + y + k) mod 10) * 10 ^ length xs = (x + y + k) * 10 ^ length xs"
    unfolding z(1) by (metis distrib_right div_mult_mod_eq mult.assoc)
  then have "c * 10 ^ length (x # xs) + dval zs = dval (x # xs) + dval (y # ys)"
    using I(1,3) 4(2) unfolding z(2) by (simp add: algebra_simps)
  moreover have "0 \<le> c" using b I(4) unfolding z(1) by (simp add: pos_imp_zdiv_nonneg_iff)
  moreover have "c \<le> 1" using zdiv_mono1 [of "x + y + k" 19 10] b I(5) unfolding z(1) by simp
  moreover have "0 \<le> (x + y + k) mod 10" "(x + y + k) mod 10 \<le> 9" using pos_mod_bound [of 10 "x + y + k"] by simp_all
  ultimately show ?case using I(2,3) z(2) by simp
qed simp_all

lemma sub_digits_ok:
  "length xs = length ys \<Longrightarrow> digit_list xs \<Longrightarrow> digit_list ys \<Longrightarrow> sub_digits xs ys = (c, zs) \<Longrightarrow>
     dval zs - c * 10 ^ length xs = dval xs - dval ys \<and> digit_list zs \<and> length zs = length xs \<and> 0 \<le> c \<and> c \<le> 1"
proof (induction xs ys arbitrary: c zs rule: list_induct2')
  case (4 x xs y ys)
  obtain k ws where k: "sub_digits xs ys = (k, ws)" by fastforce
  then have I: "dval ws - k * 10 ^ length xs = dval xs - dval ys" "digit_list ws" "length ws = length xs" "0 \<le> k" "k \<le> 1"
    using 4 by simp_all
  have b: "0 \<le> x" "x \<le> 9" "0 \<le> y" "y \<le> 9" using 4(3,4) by simp_all
  have e: "dval (x # xs) - dval (y # ys) = (x - y - k) * 10 ^ length xs + dval ws"
    using I(1) 4(2) by (simp add: algebra_simps)
  show ?case
  proof (cases "x - y - k < 0")
    case True
    then have z: "c = 1" "zs = (x - y - k + 10) # ws" using 4(5) k by (auto simp: Let_def)
    have "dval zs - c * 10 ^ length (x # xs) = dval (x # xs) - dval (y # ys)"
      unfolding e z using I(3) by (simp add: algebra_simps)
    moreover have "0 \<le> x - y - k + 10" "x - y - k + 10 \<le> 9" using b I(5) True by linarith+
    ultimately show ?thesis using I(2,3) z by simp
  next
    case False
    then have z: "c = 0" "zs = (x - y - k) # ws" using 4(5) k by (auto simp: Let_def)
    have "dval zs - c * 10 ^ length (x # xs) = dval (x # xs) - dval (y # ys)"
      unfolding e z using I(3) by simp
    moreover have "0 \<le> x - y - k" "x - y - k \<le> 9" using b I(4) False by linarith+
    ultimately show ?thesis using I(2,3) z by simp
  qed
qed simp_all

lemma sub_digits_exact:
  assumes "length xs = length ys" "digit_list xs" "digit_list ys" "dval ys \<le> dval xs"
  shows "dval (snd (sub_digits xs ys)) = dval xs - dval ys" "digit_list (snd (sub_digits xs ys))"
    "length (snd (sub_digits xs ys)) = length xs"
proof -
  obtain c zs where c: "sub_digits xs ys = (c, zs)" by fastforce
  note I = sub_digits_ok [OF assms(1-3) c]
  have "dval zs < 10 ^ length xs" using I dval_bounds [of zs] by auto
  moreover have "c = 0 \<or> c = 1" using I by auto
  ultimately have "c = 0" using I assms(4) by auto
  then show "dval (snd (sub_digits xs ys)) = dval xs - dval ys" "digit_list (snd (sub_digits xs ys))"
    "length (snd (sub_digits xs ys)) = length xs" using I c by auto
qed

lemma cmp_digits_ok:
  assumes "length xs = length ys" "digit_list xs" "digit_list ys"
  shows "cmp_digits xs ys = sgn (dval xs - dval ys)"
  using assms
proof (induction xs ys rule: list_induct2)
  case Nil
  then show ?case by simp
next
  case (Cons x xs y ys)
  have b: "0 \<le> dval xs" "dval xs < 10 ^ length xs" "0 \<le> dval ys" "dval ys < 10 ^ length xs"
    using dval_bounds [of xs] dval_bounds [of ys] Cons by auto
  have e: "dval (x # xs) - dval (y # ys) = (x - y) * 10 ^ length xs + (dval xs - dval ys)"
    using Cons.hyps by (simp add: algebra_simps)
  consider "x = y" | "y < x" | "x < y" by linarith
  then show ?case
  proof cases
    case 1
    then show ?thesis using Cons e by simp
  next
    case 2
    then have "1 * 10 ^ length xs \<le> (x - y) * 10 ^ length xs" by (intro mult_right_mono) auto
    then have "0 < dval (x # xs) - dval (y # ys)" using b unfolding e by linarith
    then show ?thesis using 2 by simp
  next
    case 3
    then have "1 * 10 ^ length xs \<le> (y - x) * 10 ^ length xs" by (intro mult_right_mono) auto
    moreover have "(x - y) * 10 ^ length xs = - ((y - x) * 10 ^ length xs)" by (simp add: algebra_simps)
    ultimately have "dval (x # xs) - dval (y # ys) < 0" using b unfolding e by linarith
    then show ?thesis using 3 by simp
  qed
qed

subsection \<open>Product\<close>

lemma mul_row_ok:
  "length ys = length ts \<Longrightarrow> digit_list ys \<Longrightarrow> digit_list ts \<Longrightarrow> 0 \<le> x \<Longrightarrow> x \<le> 9 \<Longrightarrow> mul_row x ys ts = (c, zs) \<Longrightarrow>
     c * 10 ^ length ys + dval zs = x * dval ys + dval ts \<and> digit_list zs \<and> length zs = length ys \<and> 0 \<le> c \<and> c \<le> 9"
proof (induction ys ts arbitrary: c zs rule: list_induct2')
  case (4 y ys t ts)
  obtain k ws where k: "mul_row x ys ts = (k, ws)" by fastforce
  have I: "k * 10 ^ length ys + dval ws = x * dval ys + dval ts" "digit_list ws" "length ws = length ys" "0 \<le> k" "k \<le> 9"
    using 4(1) [OF _ _ _ 4(5,6) k] 4(2-4) by simp_all
  let ?p = "x * y + t + k"
  have z: "c = ?p div 10" "zs = (?p mod 10) # ws" using 4(7) k by (auto simp: Let_def)
  have b: "0 \<le> y" "y \<le> 9" "0 \<le> t" "t \<le> 9" using 4(3,4) by simp_all
  have "0 \<le> x * y" "x * y \<le> 9 * 9" using b 4(5,6) by (simp, intro mult_mono) auto
  then have p: "0 \<le> ?p" "?p \<le> 99" using b I(4,5) by linarith+
  have "c * (10 * 10 ^ length ys) + (?p mod 10) * 10 ^ length ys = ?p * 10 ^ length ys"
    unfolding z(1) by (metis distrib_right div_mult_mod_eq mult.assoc)
  then have "c * 10 ^ length (y # ys) + dval zs = x * dval (y # ys) + dval (t # ts)"
    using I(1,3) 4(2) unfolding z(2) by (simp add: algebra_simps)
  moreover have "0 \<le> c" using p(1) unfolding z(1) by (simp add: pos_imp_zdiv_nonneg_iff)
  moreover have "c \<le> 9" using zdiv_mono1 [of ?p 99 10] p(2) unfolding z(1) by simp
  moreover have "0 \<le> ?p mod 10" "?p mod 10 \<le> 9" using pos_mod_bound [of 10 ?p] by simp_all
  ultimately show ?case using I(2,3) z(2) by simp
qed simp_all

lemma put_carry_ok:
  "digit_list ts \<Longrightarrow> 0 \<le> c \<Longrightarrow> c \<le> 9 \<Longrightarrow> \<exists>k\<ge>0. dval (rev (put_carry c ts)) + k * 10 ^ length ts = dval (rev ts) + c \<and>
     digit_list (put_carry c ts) \<and> length (put_carry c ts) = length ts"
proof (induction ts arbitrary: c)
  case Nil
  then show ?case by auto
next
  case (Cons t ts)
  show ?case
  proof (cases "c = 0")
    case True
    then show ?thesis using Cons by (auto intro!: exI [of _ 0])
  next
    case False
    have b: "0 \<le> t + c" "t + c \<le> 18" using Cons.prems by auto
    have c1: "0 \<le> (t + c) div 10" "(t + c) div 10 \<le> 9" using b(1) zdiv_mono1 [of "t + c" 18 10] b(2)
      by (simp_all add: pos_imp_zdiv_nonneg_iff)
    obtain k where k: "0 \<le> k" "dval (rev (put_carry ((t + c) div 10) ts)) + k * 10 ^ length ts = dval (rev ts) + (t + c) div 10"
      "digit_list (put_carry ((t + c) div 10) ts)" "length (put_carry ((t + c) div 10) ts) = length ts"
      using Cons.IH [OF _ c1] Cons.prems(1) by auto
    have "t + c = 10 * ((t + c) div 10) + (t + c) mod 10" by simp
    then have "dval (rev (put_carry ((t + c) div 10) ts)) * 10 + (t + c) mod 10 + 10 * (k * 10 ^ length ts) = dval (rev ts) * 10 + t + c"
      using k(2) by linarith
    then have "dval (rev (put_carry c (t # ts))) + k * 10 ^ length (t # ts) = dval (rev (t # ts)) + c"
      using False by (simp add: ac_simps)
    moreover have "0 \<le> (t + c) mod 10" "(t + c) mod 10 \<le> 9" using pos_mod_bound [of 10 "t + c"] by simp_all
    ultimately show ?thesis using k(1,3,4) False by auto
  qed
qed

lemma mul_step_ok:
  assumes d: "digit_list as" "digit_list bs" "digit_list tmp" and i: "i < length as" "length tmp = length as + length bs"
    and v: "dval tmp = dval (drop (Suc i) as) * dval bs"
  shows "dval (mul_step as bs i tmp) = dval (drop i as) * dval bs" "digit_list (mul_step as bs i tmp)"
    "length (mul_step as bs i tmp) = length tmp"
proof -
  define P where "P = take (i + 1) tmp"
  define R where "R = take (length bs) (drop (i + 1) tmp)"
  define S where "S = drop (i + 1 + length bs) tmp"
  have tmp: "tmp = P @ R @ S" unfolding P_def R_def S_def by (metis add.commute append_take_drop_id drop_drop)
  have len: "length P = i + 1" "length R = length bs" "length S = length as - 1 - i" using i by (simp_all add: P_def R_def S_def)
  have dg: "digit_list P" "digit_list R" "digit_list S" using d(3) unfolding tmp by simp_all
  obtain c zs where cz: "mul_row (as ! i) bs R = (c, zs)" by fastforce
  have x: "0 \<le> as ! i" "as ! i \<le> 9" using d(1) nth_mem [OF i(1)] by (auto simp: digit_list_def)
  have row: "c * 10 ^ length bs + dval zs = as ! i * dval bs + dval R" "digit_list zs" "length zs = length bs" "0 \<le> c" "c \<le> 9"
    using mul_row_ok [OF _ d(2) dg(2) x cz] len by simp_all
  obtain k where k: "0 \<le> k" "dval (rev (put_carry c (rev P))) + k * 10 ^ length P = dval P + c"
    "digit_list (put_carry c (rev P))" "length (put_carry c (rev P)) = length P"
    using put_carry_ok [of "rev P" c] row(4,5) dg(1) by auto
  have res: "mul_step as bs i tmp = rev (put_carry c (rev P)) @ zs @ S"
    unfolding mul_step_def P_def [symmetric] R_def [symmetric] S_def [symmetric] cz by simp
  then show "digit_list (mul_step as bs i tmp)" "length (mul_step as bs i tmp) = length tmp"
    using k(3,4) row(2,3) dg(3) len i by (simp_all add: tmp)
  let ?m = "length bs" and ?s = "length S"
  let ?t = "dval tmp + as ! i * dval bs * 10 ^ ?s"
  have pow: "(10 :: int) ^ (?m + ?s) = 10 ^ ?m * 10 ^ ?s" by (simp add: power_add)
  have new: "dval (mul_step as bs i tmp) = (dval P + c - k * 10 ^ (i + 1)) * 10 ^ (?m + ?s) + (as ! i * dval bs + dval R - c * 10 ^ ?m) * 10 ^ ?s + dval S"
  proof -
    have "dval (rev (put_carry c (rev P))) = dval P + c - k * 10 ^ (i + 1)" "dval zs = as ! i * dval bs + dval R - c * 10 ^ ?m"
      using k(2) row(1) len(1) by simp_all
    then show ?thesis unfolding res dval_append length_append row(3) by simp
  qed
  have old: "dval tmp = dval P * 10 ^ (?m + ?s) + dval R * 10 ^ ?s + dval S" unfolding tmp by (simp add: len)
  have "i + 1 + (?m + ?s) = length as + ?m" using i(1) len(3) by simp
  then have "(10 :: int) ^ (i + 1) * 10 ^ (?m + ?s) = 10 ^ (length as + ?m)" by (metis power_add)
  then have eq: "dval (mul_step as bs i tmp) = ?t - k * 10 ^ (length as + ?m)"
    unfolding new old pow by (simp add: algebra_simps)
  have drop_i: "drop i as = as ! i # drop (Suc i) as" using i(1) by (simp add: Cons_nth_drop_Suc)
  have t: "?t = dval (drop i as) * dval bs" unfolding drop_i v using len(3) i(1) by (simp add: algebra_simps)
  have "dval (drop i as) < 10 ^ length as"
  proof -
    have "dval (drop i as) < 10 ^ (length as - i)" using dval_bounds [OF digit_list_drop [OF d(1)], of i] by simp
    also have "\<dots> \<le> 10 ^ length as" by (rule power_increasing) simp_all
    finally show ?thesis .
  qed
  moreover have "0 \<le> dval (drop i as)" "0 \<le> dval bs" "dval bs < 10 ^ ?m" using dval_bounds [OF d(2)] d(1) by (auto intro: dval_nonneg)
  ultimately have "?t < 10 ^ length as * 10 ^ ?m" unfolding t by (intro mult_strict_mono') auto
  then have "?t < 10 ^ (length as + ?m)" by (simp add: power_add)
  moreover have "0 \<le> dval (mul_step as bs i tmp)" using \<open>digit_list (mul_step as bs i tmp)\<close> by simp
  ultimately have "k * 10 ^ (length as + ?m) < 1 * 10 ^ (length as + ?m)" unfolding eq by linarith
  then have "k = 0" using k(1) by simp
  then show "dval (mul_step as bs i tmp) = dval (drop i as) * dval bs" using eq t by simp
qed

lemma mul_digits_ok:
  assumes "digit_list as" "digit_list bs"
  shows "dval (mul_digits as bs) = dval as * dval bs" "digit_list (mul_digits as bs)"
    "length (mul_digits as bs) = length as + length bs"
proof -
  let ?f = "\<lambda>i. fold (mul_step as bs) (rev [i..<length as]) (replicate (length as + length bs) 0)"
  have "dval (?f i) = dval (drop i as) * dval bs \<and> digit_list (?f i) \<and> length (?f i) = length as + length bs" if "i \<le> length as" for i
    using that
  proof (induction i rule: inc_induct)
    case base
    then show ?case by simp
  next
    case (step i)
    have "?f i = mul_step as bs i (?f (Suc i))" using step.hyps by (simp add: upt_conv_Cons)
    then show ?case using mul_step_ok [of as bs "?f (Suc i)" i] step assms by simp
  qed
  from this [of 0] show "dval (mul_digits as bs) = dval as * dval bs" "digit_list (mul_digits as bs)"
    "length (mul_digits as bs) = length as + length bs" by (simp_all add: mul_digits_def)
qed

subsection \<open>Quotient\<close>

text \<open>No leading zero, except the number zero itself.\<close>

definition canon :: "int list \<Rightarrow> bool" where
  "canon ds \<longleftrightarrow> digit_list ds \<and> ds \<noteq> [] \<and> (length ds = 1 \<or> hd ds \<noteq> 0)"

lemma canon_strip: "digit_list ds \<Longrightarrow> ds \<noteq> [] \<Longrightarrow> canon (strip_to 1 ds)"
proof (induction ds)
  case (Cons d ds)
  then show ?case by (cases "ds = []") (auto simp: canon_def Suc_le_eq)
qed simp

lemma canon_low: "canon ds \<Longrightarrow> 1 < length ds \<Longrightarrow> 10 ^ (length ds - 1) \<le> dval ds"
proof -
  assume c: "canon ds" and l: "1 < length ds"
  obtain x xs where x: "ds = x # xs" "1 \<le> x" "digit_list xs" using c l by (cases ds) (auto simp: canon_def)
  have "1 * 10 ^ length xs \<le> x * 10 ^ length xs" using x(2) by (intro mult_right_mono) auto
  then have "10 ^ length xs \<le> x * 10 ^ length xs + dval xs" using dval_bounds [OF x(3)] by linarith
  then show ?thesis using x(1) by simp
qed

lemma canon_longer: "canon xs \<Longrightarrow> digit_list ys \<Longrightarrow> length ys < length xs \<Longrightarrow> ys \<noteq> [] \<Longrightarrow> dval ys < dval xs"
proof -
  assume a: "canon xs" "digit_list ys" "length ys < length xs" "ys \<noteq> []"
  have "dval ys < 10 ^ length ys" using dval_bounds [OF a(2)] by simp
  also have "\<dots> \<le> 10 ^ (length xs - 1)" using a(3) by (intro power_increasing) auto
  also have "\<dots> \<le> dval xs" using a(3,4) by (intro canon_low [OF a(1)]) (cases ys; simp)
  finally show ?thesis .
qed

lemma cmp_rem_ok: "canon xs \<Longrightarrow> canon ys \<Longrightarrow> cmp_rem xs ys = sgn (dval xs - dval ys)"
proof -
  assume a: "canon xs" "canon ys"
  then have d: "digit_list xs" "digit_list ys" "xs \<noteq> []" "ys \<noteq> []" by (auto simp: canon_def)
  consider "length xs = length ys" | "length ys < length xs" | "length xs < length ys" by linarith
  then show ?thesis
  proof cases
    case 1
    then show ?thesis using d by (simp add: cmp_rem_def cmp_digits_ok)
  next
    case 2
    then show ?thesis using canon_longer [OF a(1) d(2) 2 d(4)] by (simp add: cmp_rem_def)
  next
    case 3
    then show ?thesis using canon_longer [OF a(2) d(1) 3 d(3)] by (simp add: cmp_rem_def)
  qed
qed

lemma canon_le_length: "canon xs \<Longrightarrow> canon ys \<Longrightarrow> dval xs \<le> dval ys \<Longrightarrow> length xs \<le> length ys"
  using canon_longer [of xs ys] by (auto simp: canon_def not_less [symmetric])

lemma sub_rem_ok:
  assumes "canon xs" "canon ys" "dval ys \<le> dval xs"
  shows "dval (sub_rem xs ys) = dval xs - dval ys" "canon (sub_rem xs ys)"
proof -
  let ?y = "replicate (length xs - length ys) 0 @ ys"
  have l: "length ys \<le> length xs" by (rule canon_le_length [OF assms(2,1,3)])
  have d: "digit_list xs" "digit_list ?y" "xs \<noteq> []" "length xs = length ?y" "dval ?y \<le> dval xs"
    using assms l by (auto simp: canon_def)
  note e = sub_digits_exact [OF d(4,1,2,5)]
  show "dval (sub_rem xs ys) = dval xs - dval ys" using e(1) by (simp add: sub_rem_def)
  have "snd (sub_digits xs ?y) \<noteq> []" using e(3) d(3) by auto
  then show "canon (sub_rem xs ys)" unfolding sub_rem_def by (rule canon_strip [OF e(2)])
qed

text \<open>The subtractions end, with quotient and remainder.\<close>

lemma div_digit_ok:
  assumes "canon rem" "canon pb" "0 < dval pb"
  shows "\<exists>r. div_digit rem pb q = Some (q + dval rem div dval pb, r) \<and> canon r \<and> dval r = dval rem mod dval pb"
  using assms
proof (induction "nat (dval rem)" arbitrary: rem q rule: less_induct)
  case less
  have nn: "0 \<le> dval rem" using less.prems(1) by (simp add: canon_def)
  show ?case
  proof (cases "dval rem < dval pb")
    case True
    then have "div_digit rem pb q = Some (q, rem)"
      by (subst div_digit.simps) (simp add: cmp_rem_ok [OF less.prems(1,2)])
    then show ?thesis using True nn less.prems(1) by simp
  next
    case False
    note s = sub_rem_ok [OF less.prems(1,2)]
    have le: "dval pb \<le> dval rem" using False by simp
    have d: "div_digit rem pb q = div_digit (sub_rem rem pb) pb (q + 1)"
      using False by (subst div_digit.simps) (simp add: cmp_rem_ok [OF less.prems(1,2)] sgn_if)
    have "dval rem div dval pb = (dval rem - dval pb) div dval pb + 1" "dval rem mod dval pb = (dval rem - dval pb) mod dval pb"
      using less.prems(3) by (simp_all add: minus_div_mult_eq_mod [symmetric] div_pos_pos_trivial) (use div_add_self2 [of "dval pb" "dval rem - dval pb"] less.prems(3) in \<open>auto simp: algebra_simps\<close>)
    moreover have "\<exists>r. div_digit (sub_rem rem pb) pb (q + 1) = Some (q + 1 + dval (sub_rem rem pb) div dval pb, r) \<and>
        canon r \<and> dval r = dval (sub_rem rem pb) mod dval pb"
      using s(1) [OF le] le less.prems(2,3) by (intro less.hyps s(2)) auto
    ultimately show ?thesis unfolding d s(1) [OF le] by (auto simp: algebra_simps)
  qed
qed

lemma bring_down_ok:
  assumes "canon r \<or> r = []" "length r < cap" "0 \<le> d" "d \<le> 9"
  shows "canon (bring_down cap r d)" "dval (bring_down cap r d) = dval r * 10 + d"
proof -
  have d: "digit_list (r @ [d])" using assms by (auto simp: canon_def)
  have "bring_down cap r d = strip_to 1 (r @ [d])" using assms(2) by (simp add: bring_down_def)
  then show "canon (bring_down cap r d)" "dval (bring_down cap r d) = dval r * 10 + d"
    using canon_strip [OF d] by simp_all
qed

lemma quotient_step:
  fixes R d B :: int
  assumes "0 < B"
  shows "((R * 10 + d) div B) * K + (((R * 10 + d) mod B) * K + v) div B = (R * (10 * K) + d * K + v) div B"
proof -
  define q m where "q = (R * 10 + d) div B" and "m = (R * 10 + d) mod B"
  have "R * 10 + d = B * q + m" unfolding q_def m_def by simp
  then have d: "d = B * q + m - R * 10" by simp
  have "R * (10 * K) + d * K + v = B * (q * K) + (m * K + v)" unfolding d by (simp add: algebra_simps)
  moreover have "(B * (q * K) + (m * K + v)) div B = q * K + (m * K + v) div B" using assms by simp
  ultimately show ?thesis unfolding q_def [symmetric] m_def [symmetric] by (simp only:)
qed

lemma quotient_digit:
  fixes R d B :: int
  assumes "0 \<le> R" "R < B" "0 \<le> d" "d \<le> 9"
  shows "0 \<le> (R * 10 + d) div B" "(R * 10 + d) div B \<le> 9"
proof -
  have B: "0 < B" using assms by linarith
  then show "0 \<le> (R * 10 + d) div B" using assms by (simp add: pos_imp_zdiv_nonneg_iff)
  have "(R * 10 + d) div B * B \<le> R * 10 + d" using B by (metis add.commute add_increasing2 div_mult_mod_eq le_add_same_cancel1 mult.commute pos_mod_sign)
  also have "\<dots> < 10 * B" using assms by linarith
  finally show "(R * 10 + d) div B \<le> 9" using B by (simp add: mult_less_cancel_right_pos)
qed

lemma div_digits_ok:
  assumes "canon pb" "0 < dval pb"
  shows "canon r \<or> r = [] \<Longrightarrow> dval r < dval pb \<Longrightarrow> digit_list ds \<Longrightarrow> \<exists>qs. div_digits (length pb + 1) r ds pb = Some qs \<and>
    dval qs = (dval r * 10 ^ length ds + dval ds) div dval pb \<and> digit_list qs \<and> length qs = length ds"
proof (induction ds arbitrary: r)
  case Nil
  have "0 \<le> dval r" using Nil.prems(1) by (auto simp: canon_def)
  then show ?case using Nil by simp
next
  case (Cons d ds)
  let ?r = "bring_down (length pb + 1) r d" and ?B = "dval pb"
  have d: "0 \<le> d" "d \<le> 9" "digit_list ds" using Cons.prems(3) by simp_all
  have "length r \<le> length pb" using Cons.prems(1,2) canon_le_length [OF _ assms(1), of r] by auto
  then have r: "canon ?r" "dval ?r = dval r * 10 + d" using bring_down_ok [OF Cons.prems(1) _ d(1,2)] by simp_all
  obtain r1 where r1: "div_digit ?r pb 0 = Some (dval ?r div ?B, r1)" "canon r1" "dval r1 = dval ?r mod ?B"
    using div_digit_ok [OF r(1) assms, of 0] by auto
  obtain qs where qs: "div_digits (length pb + 1) r1 ds pb = Some qs" "dval qs = (dval r1 * 10 ^ length ds + dval ds) div ?B"
    "digit_list qs" "length qs = length ds"
    using Cons.IH [of r1] r1(2,3) d(3) assms(2) by auto
  have "0 \<le> dval r" using Cons.prems(1) by (auto simp: canon_def)
  then have "0 \<le> dval ?r div ?B" "dval ?r div ?B \<le> 9" unfolding r(2) by (rule quotient_digit [OF _ Cons.prems(2) d(1,2)])+
  then show ?case
    using r1(1) qs quotient_step [OF assms(2), of "dval r" d "10 ^ length ds" "dval ds"] r1(3) unfolding r(2) by (auto simp: algebra_simps)
qed

end
