(* ===== verification/CalcOps.thy ===== *)
theory CalcOps
  imports CalcArith
begin

section \<open>The calculator: the operations compute the rational numbers they stand for\<close>

text \<open>
  The number a digit record denotes, and for each operation: its result is the exact sum, difference, hundredth, or the product or
  quotient cut off after twenty decimals; the heap holds one block more, that of the result; the only errors are a
  division by zero and an allocation that finds no room, which cannot happen when one free block is large enough.
\<close>

definition bval :: "bignum \<Rightarrow> rat" where
  "bval n = (if bneg n then - 1 else 1) * of_int (dval (bdigits n)) / 10 ^ bscale n"

text \<open>Zero has no sign; there is a digit before the point.\<close>

definition num_ok :: "bignum \<Rightarrow> bool" where
  "num_ok n \<longleftrightarrow> digit_list (bdigits n) \<and> bscale n < length (bdigits n) \<and> (bneg n \<longrightarrow> dval (bdigits n) \<noteq> 0)"

definition trunc20 :: "rat \<Rightarrow> rat" where
  "trunc20 x = (if x < 0 then - 1 else 1) * of_int \<lfloor>\<bar>x\<bar> * 10 ^ 20\<rfloor> / 10 ^ 20"

text \<open>No zeros in front.\<close>

definition no_pad :: "bignum \<Rightarrow> bool" where
  "no_pad n \<longleftrightarrow> length (bdigits n) = bscale n + 1 \<or> hd (bdigits n) \<noteq> 0"

text \<open>
  A result: either no room for \<open>S\<close> bytes, or a number with property \<open>P\<close> in a new block; the largest free block loses at
  most \<open>S\<close> bytes.
\<close>

definition op_ok :: "nat \<Rightarrow> cheap \<Rightarrow> bignum calc_res \<Rightarrow> (bignum \<Rightarrow> bool) \<Rightarrow> bool" where
  "op_ok S h r P \<longleftrightarrow> arena_ok (snd r) \<and> (\<forall>R. S \<le> R \<and> roomy R h \<longrightarrow> roomy (R - S) (snd r)) \<and>
     (case fst r of
        Inl e \<Rightarrow> e = OOM \<and> \<not> roomy S h \<and> in_use (snd r) = in_use h
      | Inr n \<Rightarrow> num_ok n \<and> no_pad n \<and> P n \<and> bptr n \<noteq> 0 \<and> bptr n \<notin> in_use h \<and> in_use (snd r) = insert (bptr n) (in_use h))"

lemma zero_iff: "digit_list (bdigits n) \<Longrightarrow> bignum_is_zero n \<longleftrightarrow> dval (bdigits n) = 0"
  by (simp add: bignum_is_zero_def dval_zero_iff)

lemma bval_zero_iff: "num_ok n \<Longrightarrow> bval n = 0 \<longleftrightarrow> bignum_is_zero n"
  by (auto simp: bval_def num_ok_def zero_iff)

lemma strip_no_pad: "k \<le> length ds \<Longrightarrow> length (strip_to k ds) = k \<or> hd (strip_to k ds) \<noteq> 0"
  by (induction ds) auto

text \<open>A number without zeros in front has as many digits as its value needs.\<close>

lemma no_pad_length:
  assumes "num_ok n" "no_pad n" "\<bar>bval n\<bar> < 10 ^ k"
  shows "length (bdigits n) \<le> bscale n + max 1 k"
proof (cases "length (bdigits n) = bscale n + 1")
  case False
  obtain x xs where x: "bdigits n = x # xs" "1 \<le> x" "digit_list xs"
    using False assms(1,2) by (cases "bdigits n") (auto simp: num_ok_def no_pad_def)
  have "1 * 10 ^ length xs \<le> x * 10 ^ length xs" using x(2) by (intro mult_right_mono) auto
  then have low: "10 ^ length xs \<le> dval (bdigits n)" 
  proof -
    have "10 ^ length xs \<le> x * 10 ^ length xs + dval xs" using \<open>1 * 10 ^ length xs \<le> x * 10 ^ length xs\<close> dval_bounds [OF x(3)] by linarith
    then show ?thesis by (simp add: x(1))
  qed
  have "\<bar>bval n\<bar> = of_int (dval (bdigits n)) / 10 ^ bscale n" using assms(1) by (simp add: bval_def num_ok_def abs_mult)
  moreover have "\<bar>bval n\<bar> * 10 ^ bscale n < 10 ^ k * 10 ^ bscale n" using assms(3) by (intro mult_strict_right_mono) auto
  ultimately have "of_int (dval (bdigits n)) < (10 ^ k * 10 ^ bscale n :: rat)" by simp
  then have "(of_int (dval (bdigits n)) :: rat) < of_int (10 ^ (k + bscale n))" by (simp add: power_add)
  then have "dval (bdigits n) < 10 ^ (k + bscale n)" by (simp only: of_int_less_iff)
  then have "(10 :: int) ^ length xs < 10 ^ (k + bscale n)" using low by linarith
  then have "length xs < k + bscale n" by (rule power_less_imp_less_exp [rotated]) simp
  then show ?thesis by (simp add: x(1))
qed simp

lemma trim_ok:
  assumes "digit_list (bdigits n)" "bscale n < length (bdigits n)"
  shows "num_ok (bignum_trim n)" "bval (bignum_trim n) = bval n" "bptr (bignum_trim n) = bptr n" "bscale (bignum_trim n) = bscale n"
    "no_pad (bignum_trim n)" "length (bdigits (bignum_trim n)) \<le> length (bdigits n)"
proof -
  let ?n = "n\<lparr>bdigits := strip_to (bscale n + 1) (bdigits n)\<rparr>"
  have d: "digit_list (bdigits ?n)" using assms(1) by auto
  have l: "bscale n < length (bdigits ?n)" using strip_length(2) [of "bscale n + 1" "bdigits n"] assms(2) by simp
  have z: "bignum_is_zero ?n \<longleftrightarrow> dval (bdigits n) = 0" using zero_iff [OF d] by simp
  show "num_ok (bignum_trim n)" "bval (bignum_trim n) = bval n" "bptr (bignum_trim n) = bptr n" "bscale (bignum_trim n) = bscale n"
    "no_pad (bignum_trim n)" "length (bdigits (bignum_trim n)) \<le> length (bdigits n)"
    using d l z strip_length(1) [of "bscale n + 1" "bdigits n"] strip_no_pad [of "bscale n + 1" "bdigits n"] assms(2) by (auto simp: bignum_trim_def num_ok_def bval_def no_pad_def Let_def)
qed

lemma aligned_ok:
  assumes "num_ok n" "bscale n \<le> sc" "length (bdigits n) - bscale n \<le> il"
  shows "digit_list (aligned il sc n)" "length (aligned il sc n) = il + sc"
    "dval (aligned il sc n) = dval (bdigits n) * 10 ^ (sc - bscale n)"
  using assms by (auto simp: aligned_def num_ok_def)

lemma aligned_value: "bscale n \<le> sc \<Longrightarrow> (of_int (dval (bdigits n) * 10 ^ (sc - bscale n)) :: rat) / 10 ^ sc = of_int (dval (bdigits n)) / 10 ^ bscale n"
proof -
  assume "bscale n \<le> sc"
  then obtain k where "sc = bscale n + k" by (auto simp: le_iff_add)
  then show ?thesis by (simp add: power_add)
qed

lemma align_length:
  fixes la lb sa sb :: nat
  shows "sa < la \<Longrightarrow> sb < lb \<Longrightarrow> max (la - sa) (lb - sb) + max sa sb \<le> la + lb \<and> 0 < max (la - sa) (lb - sb)"
  by (cases "la - sa \<le> lb - sb"; cases "sa \<le> sb") (simp_all add: max_absorb1 max_absorb2)

subsection \<open>Allocation\<close>

text \<open>The magnitude of a number, and the two outcomes of the alignment.\<close>

definition mag :: "bignum \<Rightarrow> rat" where
  "mag n = of_int (dval (bdigits n)) / 10 ^ bscale n"

lemma bval_mag: "bval n = (if bneg n then - 1 else 1) * mag n"
  by (simp add: bval_def mag_def)

definition aligned_pair :: "bignum \<Rightarrow> bignum \<Rightarrow> nat \<Rightarrow> bignum \<Rightarrow> bignum \<Rightarrow> bool" where
  "aligned_pair a b T pa pb \<longleftrightarrow>
     digit_list (bdigits pa) \<and> digit_list (bdigits pb) \<and> length (bdigits pa) = length (bdigits pb) \<and> length (bdigits pa) \<le> T \<and>
     bscale pa < length (bdigits pa) \<and> bscale pb = bscale pa \<and> bscale pa = max (bscale a) (bscale b) \<and> bneg pa = bneg a \<and> bneg pb = bneg b \<and> mag pa = mag a \<and> mag pb = mag b"

lemma align_cases:
  assumes "num_ok a" "num_ok b" "arena_ok h" "T = length (bdigits a) + length (bdigits b)"
  obtains h1 where "bignum_align a b h = (Inl OOM, h1)" "arena_ok h1" "in_use h1 = in_use h" "\<not> roomy (2 * (T + 24)) h"
  | pa pb h1 where "bignum_align a b h = (Inr (pa, pb), h1)" "aligned_pair a b T pa pb" "arena_ok h1"
      "in_use h1 = insert (bptr pa) (insert (bptr pb) (in_use h))" "bptr pa \<notin> in_use h" "bptr pb \<notin> in_use h" "bptr pa \<noteq> bptr pb"
      "\<And>R. 2 * (T + 24) \<le> R \<Longrightarrow> roomy R h \<Longrightarrow> roomy (R - 2 * (T + 24)) h1"
proof -
  define sc where "sc = max (bscale a) (bscale b)"
  define il where "il = max (length (bdigits a) - bscale a) (length (bdigits b) - bscale b)"
  have len: "bscale a < length (bdigits a)" "bscale b < length (bdigits b)" using assms(1,2) by (simp_all add: num_ok_def)
  then have tot: "il + sc \<le> T" "0 < il" using align_length [OF len] unfolding assms(4) il_def sc_def by simp_all
  obtain p h1 where 1: "calc_malloc (il + sc) h = (p, h1)" by fastforce
  obtain q h2 where 2: "calc_malloc (il + sc) h1 = (q, h2)" by fastforce
  note A = calc_malloc_ok [OF assms(3) 1]
  note B = calc_malloc_ok [OF A(1) 2]
  note R1 = calc_malloc_roomy [OF assms(3) 1 tot(1)] and R2 = calc_malloc_roomy [OF A(1) 2 tot(1)]
  have R: "q \<noteq> 0 \<and> p \<noteq> 0 \<and> roomy (S - 2 * (T + 24)) h2" if "2 * (T + 24) \<le> S" "roomy S h" for S
  proof -
    have "T + 24 \<le> S" "T + 24 \<le> S - (T + 24)" "S - (T + 24) - (T + 24) = S - 2 * (T + 24)" using that(1) by simp_all
    then show ?thesis using R1 [OF that(2)] R2 [of "S - (T + 24)"] by simp
  qed
  let ?pa = "\<lparr>bptr = p, bdigits = aligned il sc a, bscale = sc, bneg = bneg a\<rparr>"
  let ?pb = "\<lparr>bptr = q, bdigits = aligned il sc b, bscale = sc, bneg = bneg b\<rparr>"
  have e: "bignum_align a b h = (if p = 0 then (Inl OOM, h1) else if q = 0 then (Inl OOM, calc_free p h2) else (Inr (?pa, ?pb), h2))"
    unfolding bignum_align_def Let_def sc_def [symmetric] il_def [symmetric] by (simp add: 1 2)
  have le: "bscale a \<le> sc" "bscale b \<le> sc" "length (bdigits a) - bscale a \<le> il" "length (bdigits b) - bscale b \<le> il"
    by (simp_all add: sc_def il_def)
  have pair: "aligned_pair a b T ?pa ?pb"
    using aligned_ok [OF assms(1) le(1,3)] aligned_ok [OF assms(2) le(2,4)] aligned_value [OF le(1)] aligned_value [OF le(2)] tot
    by (simp add: aligned_pair_def mag_def sc_def [symmetric])
  consider "p = 0" | "p \<noteq> 0" "q = 0" | "p \<noteq> 0" "q \<noteq> 0" by blast
  then show thesis
  proof cases
    case 1
    then show ?thesis using that(1) e A R [of "2 * (T + 24)"] by auto
  next
    case 2
    have "arena_ok (calc_free p h2)" "in_use (calc_free p h2) = in_use h"
      using calc_free_ok [OF B(1), of p] A(3) [OF 2(1)] B(2) [OF 2(2)] by auto
    then show ?thesis using that(1) e 2 R [of "2 * (T + 24)"] by auto
  next
    case 3
    then show ?thesis using that(2) [OF _ pair B(1)] e A(3) B(3) R by auto
  qed
qed

subsection \<open>Addition and subtraction\<close>

text \<open>One allocation whose block receives the digits of a number.\<close>

lemma result_ok:
  assumes "arena_ok h" "calc_malloc n h = (p, h1)" "n + 24 \<le> S"
    "p \<noteq> 0 \<Longrightarrow> num_ok x \<and> no_pad x \<and> P x \<and> bptr x = p"
  shows "op_ok S h (if p = 0 then (Inl OOM, h1) else (Inr x, h1)) P"
proof -
  have n: "n \<le> S - 24" "S - 24 + 24 = S" using assms(3) by linarith+
  have "p \<noteq> 0 \<and> roomy (R - S) h1" if "S \<le> R" "roomy R h" for R
    using calc_malloc_roomy [OF assms(1,2) n(1) that(2)] that(1) n(2) by simp
  then show ?thesis using calc_malloc_ok [OF assms(1,2)] assms(4) by (auto simp: op_ok_def)
qed

lemma op_fail: "arena_ok h' \<Longrightarrow> in_use h' = in_use h \<Longrightarrow> \<not> roomy S' h \<Longrightarrow> S' \<le> S \<Longrightarrow> op_ok S h (Inl OOM, h') P"
proof -
  assume a: "arena_ok h'" "in_use h' = in_use h" "\<not> roomy S' h" "S' \<le> S"
  have "\<not> roomy R h" if "S \<le> R" for R using roomy_mono [of R h S'] a(3,4) that by auto
  then show ?thesis using a(1,2) by (auto simp: op_ok_def)
qed

text \<open>Temporary blocks given back.\<close>

lemma op_ok_free:
  assumes "op_ok S h1 r P" "in_use h1 = insert p (insert q (in_use h))" "p \<notin> in_use h" "q \<notin> in_use h" "p \<noteq> q"
    "\<And>R. D \<le> R \<Longrightarrow> roomy R h \<Longrightarrow> roomy (R - D) h1" "S + D \<le> S'"
  shows "op_ok S' h (fst r, calc_free q (calc_free p (snd r))) P"
proof -
  have room: "roomy (R - S') (calc_free q (calc_free p (snd r)))" if "S' \<le> R" "roomy R h" for R
  proof -
    have le: "D \<le> R" "S \<le> R - D" "R - S' \<le> R - D - S" using that(1) assms(7) by linarith+
    have "roomy (R - D - S) (snd r)" using assms(1,6) le(1,2) that(2) by (auto simp: op_ok_def)
    then show ?thesis by (intro calc_free_room) (rule roomy_mono [OF _ le(3)])
  qed
  have room0: "roomy S h1" if "roomy S' h"
    using assms(6) [OF _ that] assms(7) roomy_mono [of "S' - D" h1 S] by auto
  define h2 where "h2 = snd r"
  have h2: "arena_ok h2" "p \<in> in_use h2" "q \<in> in_use h2 - {p}" using assms(1,2,5) by (auto simp: op_ok_def h2_def split: sum.splits)
  note F = calc_free_ok [OF h2(1,2)]
  note G = calc_free_ok [OF F(1), of q, unfolded F(2), OF h2(3)]
  show ?thesis using G assms(1-5) room room0 by (auto simp: op_ok_def h2_def split: sum.splits)
qed

text \<open>Sum and difference of the magnitudes, with a sign.\<close>

definition signed :: "bool \<Rightarrow> bignum calc_res \<Rightarrow> bignum calc_res" where
  "signed neg r = (map_sum id (\<lambda>n. bignum_trim (n\<lparr>bneg := neg\<rparr>)) (fst r), snd r)"

lemma add_abs_ok:
  assumes "aligned_pair a b T x y \<or> aligned_pair b a T y x" "arena_ok h"
  shows "op_ok (T + 25) h (signed neg (bignum_add_abs x y h)) (\<lambda>n. bval n = (if neg then - 1 else 1) * (mag x + mag y) \<and> bscale n = bscale x \<and> length (bdigits n) \<le> T + 1)"
proof -
  have d: "length (bdigits x) = length (bdigits y)" "digit_list (bdigits x)" "digit_list (bdigits y)" "length (bdigits x) \<le> T"
    "bscale y = bscale x" "bscale x < length (bdigits x)" using assms(1) by (auto simp: aligned_pair_def)
  obtain c zs where c: "add_digits (bdigits x) (bdigits y) = (c, zs)" by fastforce
  note z = add_digits_ok [OF d(1-3) c]
  obtain p h2 where p: "calc_malloc (length (bdigits x) + 1) h = (p, h2)" by fastforce
  let ?out = "\<lparr>bptr = p, bdigits = c # zs, bscale = bscale x, bneg = neg\<rparr>"
  have f: "signed neg (bignum_add_abs x y h) = (if p = 0 then (Inl OOM, h2) else (Inr (bignum_trim ?out), h2))"
    by (simp add: signed_def bignum_add_abs_def p [simplified] c)
  have "digit_list (bdigits ?out)" "bscale ?out < length (bdigits ?out)" using z d(6) by auto
  note t = trim_ok [OF this]
  have zl: "length zs \<le> T" using z d(4) by simp
  have "dval (c # zs) = dval (bdigits x) + dval (bdigits y)" using z by simp
  then have "mag ?out = mag x + mag y" by (simp add: mag_def d(5) add_divide_distrib)
  then show ?thesis unfolding f using t d(4) zl by (intro result_ok [OF assms(2) p]) (auto simp: bval_mag [of ?out])
qed

lemma sub_abs_ok:
  assumes "aligned_pair a b T x y \<or> aligned_pair b a T y x" "arena_ok h" "dval (bdigits y) \<le> dval (bdigits x)"
  shows "op_ok (T + 25) h (signed neg (bignum_sub_abs x y h)) (\<lambda>n. bval n = (if neg then - 1 else 1) * (mag x - mag y) \<and> bscale n = bscale x \<and> length (bdigits n) \<le> T + 1)"
proof -
  have d: "length (bdigits x) = length (bdigits y)" "digit_list (bdigits x)" "digit_list (bdigits y)" "length (bdigits x) \<le> T"
    "bscale y = bscale x" "bscale x < length (bdigits x)" using assms(1) by (auto simp: aligned_pair_def)
  note z = sub_digits_exact [OF d(1-3) assms(3)]
  obtain p h2 where p: "calc_malloc (length (bdigits x)) h = (p, h2)" by fastforce
  let ?out = "\<lparr>bptr = p, bdigits = snd (sub_digits (bdigits x) (bdigits y)), bscale = bscale x, bneg = neg\<rparr>"
  have f: "signed neg (bignum_sub_abs x y h) = (if p = 0 then (Inl OOM, h2) else (Inr (bignum_trim ?out), h2))"
    by (simp add: signed_def bignum_sub_abs_def p)
  have "digit_list (bdigits ?out)" "bscale ?out < length (bdigits ?out)" using z d by auto
  note t = trim_ok [OF this]
  have zl: "length (bdigits ?out) \<le> T" using z(3) d(4) by simp
  have "mag ?out = mag x - mag y" using z(1) by (simp add: mag_def d(5) diff_divide_distrib)
  then show ?thesis unfolding f using t d(4) zl by (intro result_ok [OF assms(2) p]) (auto simp: bval_mag [of ?out])
qed

lemma bignum_add_ok:
  assumes "num_ok a" "num_ok b" "arena_ok h" "T = length (bdigits a) + length (bdigits b)"
  shows "op_ok (3 * (T + 25)) h (bignum_add a b h) (\<lambda>n. bval n = bval a + bval b \<and> bscale n = max (bscale a) (bscale b) \<and> length (bdigits n) \<le> T + 1)"
proof (rule align_cases [OF assms])
  fix h1 assume "bignum_align a b h = (Inl OOM, h1)" "arena_ok h1" "in_use h1 = in_use h" "\<not> roomy (2 * (T + 24)) h"
  then show ?thesis using op_fail [of h1 h "2 * (T + 24)" "3 * (T + 25)"] by (simp add: bignum_add_def)
next
  fix pa pb h1
  assume r: "bignum_align a b h = (Inr (pa, pb), h1)" and pair: "aligned_pair a b T pa pb" and I: "arena_ok h1"
    "in_use h1 = insert (bptr pa) (insert (bptr pb) (in_use h))" "bptr pa \<notin> in_use h" "bptr pb \<notin> in_use h" "bptr pa \<noteq> bptr pb"
    "\<And>R. 2 * (T + 24) \<le> R \<Longrightarrow> roomy R h \<Longrightarrow> roomy (R - 2 * (T + 24)) h1"
  have v: "bval a = (if bneg a then - 1 else 1) * mag pa" "bval b = (if bneg b then - 1 else 1) * mag pb"
    using pair by (simp_all add: bval_mag aligned_pair_def)
  define res where "res = (if bneg a = bneg b then signed (bneg a) (bignum_add_abs pa pb h1)
      else if 0 \<le> cmp_digits (bdigits pa) (bdigits pb) then signed (bneg a) (bignum_sub_abs pa pb h1) else signed (bneg b) (bignum_sub_abs pb pa h1))"
  have e: "bignum_add a b h = (fst res, calc_free (bptr pb) (calc_free (bptr pa) (snd res)))"
    unfolding bignum_add_def r res_def bignum_free_def by (auto simp: Let_def signed_def split: sum.splits)
  have c: "cmp_digits (bdigits pa) (bdigits pb) = sgn (dval (bdigits pa) - dval (bdigits pb))"
    using pair by (intro cmp_digits_ok) (auto simp: aligned_pair_def)
  have sc: "bscale pa = max (bscale a) (bscale b)" "bscale pb = max (bscale a) (bscale b)" using pair by (simp_all add: aligned_pair_def)
  have "op_ok (T + 25) h1 res (\<lambda>n. bval n = bval a + bval b \<and> bscale n = max (bscale a) (bscale b) \<and> length (bdigits n) \<le> T + 1)"
  proof (cases "bneg a = bneg b")
    case True
    then show ?thesis using add_abs_ok [OF disjI1 [OF pair] I(1), of "bneg a"] by (cases "bneg b") (simp_all add: res_def v sc)
  next
    case False
    show ?thesis
    proof (cases "dval (bdigits pb) \<le> dval (bdigits pa)")
      case True
      then show ?thesis using sub_abs_ok [OF disjI1 [OF pair] I(1) True, of "bneg a"] False c
        by (cases "bneg b") (simp_all add: res_def v sgn_if sc)
    next
      case lt: False
      then have "dval (bdigits pa) \<le> dval (bdigits pb)" by simp
      from sub_abs_ok [OF disjI2 [OF pair] I(1) this, of "bneg b"] show ?thesis using lt False c
        by (cases "bneg b") (simp_all add: res_def v sgn_if sc)
    qed
  qed
  from op_ok_free [OF this I(2-6)] show ?thesis by (simp add: e)
qed

lemma negate_ok:
  assumes "num_ok b"
  shows "num_ok (b\<lparr>bneg := (if bignum_is_zero b then False else \<not> bneg b)\<rparr>)" "bval (b\<lparr>bneg := (if bignum_is_zero b then False else \<not> bneg b)\<rparr>) = - bval b"
  using assms by (auto simp: num_ok_def bval_def zero_iff)

lemma bignum_sub_ok:
  assumes "num_ok a" "num_ok b" "arena_ok h" "T = length (bdigits a) + length (bdigits b)"
  shows "op_ok (3 * (T + 25)) h (bignum_sub a b h) (\<lambda>n. bval n = bval a - bval b \<and> bscale n = max (bscale a) (bscale b) \<and> length (bdigits n) \<le> T + 1)"
  unfolding bignum_sub_def using bignum_add_ok [OF assms(1) negate_ok(1) [OF assms(2)] assms(3), of T] negate_ok(2) [OF assms(2)] assms(4)
  by simp

subsection \<open>Multiplication, division\<close>

lemma trunc20_sign:
  assumes "0 \<le> x"
  shows "trunc20 ((if neg then - 1 else 1) * x) = (if neg then - 1 else 1) * of_int \<lfloor>x * 10 ^ 20\<rfloor> / 10 ^ 20"
proof (cases "x = 0")
  case True
  then show ?thesis by (simp add: trunc20_def)
next
  case False
  then show ?thesis using assms by (auto simp: trunc20_def)
qed

lemma floor_int_div: "\<lfloor>of_int V / of_int K :: rat\<rfloor> = V div K"
  by (rule floor_divide_of_int_eq)

lemma sign_mult: "(if neg1 then - 1 else 1) * (if neg2 then - 1 else (1 :: rat)) = (if neg1 \<noteq> neg2 then - 1 else 1)"
  by simp

lemma bignum_mul_ok:
  assumes "num_ok a" "num_ok b" "arena_ok h" "T = length (bdigits a) + length (bdigits b)"
  shows "op_ok (T + 24) h (bignum_mul a b h) (\<lambda>n. bval n = trunc20 (bval a * bval b) \<and> length (bdigits n) \<le> T)"
proof -
  have d: "digit_list (bdigits a)" "digit_list (bdigits b)" "bscale a < length (bdigits a)" "bscale b < length (bdigits b)"
    using assms(1,2) by (simp_all add: num_ok_def)
  define tmp where "tmp = mul_digits (bdigits a) (bdigits b)"
  note m = mul_digits_ok [OF d(1,2), folded tmp_def]
  define sc where "sc = bscale a + bscale b"
  define neg where "neg = (bneg a \<noteq> bneg b)"
  obtain p h1 where p: "calc_malloc T h = (p, h1)" by fastforce
  define out where "out = (if FRAC_DIGITS < sc
      then \<lparr>bptr = p, bdigits = take (length tmp - (sc - FRAC_DIGITS)) tmp, bscale = FRAC_DIGITS, bneg = neg\<rparr>
      else \<lparr>bptr = p, bdigits = tmp, bscale = sc, bneg = neg\<rparr>)"
  have e: "bignum_mul a b h = (if p = 0 then (Inl OOM, h1) else (Inr (bignum_trim out), h1))"
    unfolding bignum_mul_def assms(4) [symmetric] p by (simp add: out_def tmp_def sc_def neg_def Let_def)
  have len: "length tmp = T" "sc + 2 \<le> T" using m(3) d(3,4) assms(4) by (simp_all add: sc_def)
  have "digit_list (bdigits out)" "bscale out < length (bdigits out)" using m(2) len by (auto simp: out_def)
  note t = trim_ok [OF this]
  let ?x = "of_int (dval tmp) / 10 ^ sc :: rat"
  have prod: "bval a * bval b = (if neg then - 1 else 1) * ?x"
    unfolding bval_def m(1) sc_def neg_def by (simp add: power_add)
  have x0: "0 \<le> ?x" using m(2) by simp
  have "bval out = (if neg then - 1 else 1) * of_int \<lfloor>?x * 10 ^ 20\<rfloor> / 10 ^ 20"
  proof (cases "FRAC_DIGITS < sc")
    case True
    then obtain k where k: "sc = 20 + k" by (metis less_imp_add_positive)
    have "\<lfloor>?x * 10 ^ 20\<rfloor> = \<lfloor>of_int (dval tmp) / of_int (10 ^ k) :: rat\<rfloor>" by (simp add: k power_add field_simps)
    also have "\<dots> = dval tmp div 10 ^ k" by (rule floor_int_div)
    also have "\<dots> = dval (take (length tmp - k) tmp)" using dval_take [OF m(2), of k] len k by simp
    finally show ?thesis using True k by (simp add: out_def bval_def)
  next
    case False
    then obtain k where k: "20 = sc + k" by (metis le_iff_add not_less)
    have "?x * 10 ^ 20 = of_int (dval tmp * 10 ^ k)" unfolding k power_add by simp
    then have "\<lfloor>?x * 10 ^ 20\<rfloor> = dval tmp * 10 ^ k" by (simp only: floor_of_int)
    then have f: "of_int \<lfloor>?x * 10 ^ 20\<rfloor> / 10 ^ 20 = ?x" unfolding k power_add by simp
    have "bval out = (if neg then - 1 else 1) * ?x" using False by (simp add: out_def bval_def)
    then show ?thesis by (simp only: times_divide_eq_right [symmetric] f)
  qed
  then have v: "bval out = trunc20 (bval a * bval b)" unfolding prod trunc20_sign [OF x0] .
  have "bptr out = p" "length (bdigits out) \<le> T" using len(1) by (auto simp: out_def)
  then show ?thesis unfolding e using t v by (intro result_ok [OF assms(3) p]) auto
qed

lemma bignum_div_zero: "num_ok b \<Longrightarrow> bval b = 0 \<Longrightarrow> bignum_div a b h = Some (Inl MATH, h)"
  by (simp add: bignum_div_def bval_zero_iff)

lemma bignum_div100_ok:
  assumes "num_ok a" "arena_ok h"
  shows "op_ok (length (bdigits a) + 26) h (bignum_div100 a h) (\<lambda>n. bval n = bval a / 100)"
proof -
  obtain p h1 where p: "calc_malloc (length (bdigits a) + 2) h = (p, h1)" by fastforce
  let ?out = "\<lparr>bptr = p, bdigits = 0 # 0 # bdigits a, bscale = bscale a + 2, bneg = bneg a\<rparr>"
  have e: "bignum_div100 a h = (if p = 0 then (Inl OOM, h1) else (Inr (bignum_trim ?out), h1))"
    unfolding bignum_div100_def p by simp
  have "digit_list (bdigits ?out)" "bscale ?out < length (bdigits ?out)" using assms(1) by (simp_all add: num_ok_def)
  note t = trim_ok [OF this]
  have "bval ?out = bval a / 100" by (simp add: bval_def)
  then show ?thesis unfolding e using t by (intro result_ok [OF assms(2) p]) auto
qed

text \<open>The digits of the quotient of two aligned numbers.\<close>

lemma quotient_ok:
  assumes "aligned_pair a b T pa pb" "mag b \<noteq> 0"
  obtains qs where "div_digits (length (strip_to 1 (bdigits pb)) + 1) [] (bdigits pa @ replicate FRAC_DIGITS 0) (strip_to 1 (bdigits pb)) = Some qs"
    "digit_list qs" "length qs = length (bdigits pa) + 20"
    "of_int (dval qs) / 10 ^ 20 = (of_int \<lfloor>mag a / mag b * 10 ^ 20\<rfloor> / 10 ^ 20 :: rat)"
proof -
  let ?da = "bdigits pa" and ?db = "bdigits pb"
  have D: "digit_list ?da" "digit_list ?db" "?db \<noteq> []" "mag a = mag pa" "mag b = mag pb" "bscale pb = bscale pa"
    using assms(1) by (auto simp: aligned_pair_def)
  have pbd: "canon (strip_to 1 ?db)" by (rule canon_strip [OF D(2,3)])
  have "dval ?db \<noteq> 0" using assms(2) D(5) by (auto simp: mag_def)
  then have pos: "0 < dval ?db" using dval_nonneg [OF D(2)] by simp
  have ds: "digit_list (?da @ replicate FRAC_DIGITS 0)" "dval (?da @ replicate FRAC_DIGITS 0) = dval ?da * 10 ^ 20" using D(1) by simp_all
  obtain qs where qs: "div_digits (length (strip_to 1 ?db) + 1) [] (?da @ replicate FRAC_DIGITS 0) (strip_to 1 ?db) = Some qs"
    "dval qs = dval (?da @ replicate FRAC_DIGITS 0) div dval ?db" "digit_list qs" "length qs = length (?da @ replicate FRAC_DIGITS 0)"
    using div_digits_ok [OF pbd _ _ _ ds(1), of "[]"] pos by auto
  have "mag a / mag b * 10 ^ 20 = of_int (dval (?da @ replicate FRAC_DIGITS 0)) / of_int (dval ?db)"
    unfolding ds(2) D(4,5) by (simp add: mag_def D(6))
  then have "\<lfloor>mag a / mag b * 10 ^ 20\<rfloor> = dval qs" unfolding qs(2) by (simp only: floor_int_div)
  then show thesis using that [OF qs(1,3)] qs(4) by simp
qed

text \<open>The allocations of quotient and remainder; the latter is given back.\<close>

lemma two_blocks:
  assumes "arena_ok h" "calc_malloc n h = (q, h1)" "calc_malloc m h1 = (rm, h2)" "n + 24 \<le> S" "m + 24 \<le> T"
    "q \<noteq> 0 \<Longrightarrow> num_ok x \<and> no_pad x \<and> P x \<and> bptr x = q"
  shows "op_ok (S + T) h (if q = 0 then (Inl OOM, h1) else if rm = 0 then (Inl OOM, calc_free q h2) else (Inr x, calc_free rm h2)) P"
proof -
  note B = calc_malloc_ok [OF assms(1,2)]
  note C = calc_malloc_ok [OF B(1) assms(3)]
  have room: "q \<noteq> 0 \<and> rm \<noteq> 0 \<and> roomy (R - (S + T)) h2" if "S + T \<le> R" "roomy R h" for R
  proof -
    have n: "n \<le> S - 24" "S - 24 + 24 = S" "m \<le> T - 24" "T - 24 + 24 = T" using assms(4,5) by linarith+
    have 1: "q \<noteq> 0" "roomy (R - S) h1" using calc_malloc_roomy [OF assms(1,2) n(1) that(2)] that(1) n(2) by simp_all
    have "rm \<noteq> 0" "roomy (R - S - T) h2" using calc_malloc_roomy [OF B(1) assms(3) n(3) 1(2)] that(1) n(4) by simp_all
    then show ?thesis using 1(1) by simp
  qed
  consider "q = 0" | "q \<noteq> 0" "rm = 0" | "q \<noteq> 0" "rm \<noteq> 0" by blast
  then show ?thesis
  proof cases
    case 1
    then show ?thesis using B room by (auto simp: op_ok_def)
  next
    case 2
    have u: "in_use h2 = insert q (in_use h)" "q \<notin> in_use h" using B(3) [OF 2(1)] C(2) [OF 2(2)] by simp_all
    show ?thesis using calc_free_ok [OF C(1), of q] u 2 room by (auto simp: op_ok_def)
  next
    case 3
    have u: "in_use h2 = insert rm (insert q (in_use h))" "q \<notin> in_use h" "rm \<notin> insert q (in_use h)"
      using B(3) [OF 3(1)] C(3) [OF 3(2)] by simp_all
    have "in_use (calc_free rm h2) = insert q (in_use h)" "arena_ok (calc_free rm h2)"
      using calc_free_ok [OF C(1), of rm] u by auto
    then show ?thesis using u 3 assms(6) room calc_free_room by (auto simp: op_ok_def)
  qed
qed

lemma bignum_div_ok:
  assumes "num_ok a" "num_ok b" "arena_ok h" "T = length (bdigits a) + length (bdigits b)" "bval b \<noteq> 0"
  shows "\<exists>r. bignum_div a b h = Some r \<and> op_ok (4 * (T + 48)) h r (\<lambda>n. bval n = trunc20 (bval a / bval b) \<and> bscale n = 20 \<and> length (bdigits n) \<le> T + 20)"
proof -
  have nz: "\<not> bignum_is_zero b" "mag b \<noteq> 0" using bval_zero_iff [OF assms(2)] assms(5) by (auto simp: bval_mag)
  show ?thesis
  proof (rule align_cases [OF assms(1-4)])
    fix h1 assume "bignum_align a b h = (Inl OOM, h1)" "arena_ok h1" "in_use h1 = in_use h" "\<not> roomy (2 * (T + 24)) h"
    then show ?thesis using op_fail [of h1 h "2 * (T + 24)" "4 * (T + 48)"] nz(1) by (simp add: bignum_div_def)
  next
    fix pa pb h1
    assume r: "bignum_align a b h = (Inr (pa, pb), h1)" and pair: "aligned_pair a b T pa pb" and I: "arena_ok h1"
      "in_use h1 = insert (bptr pa) (insert (bptr pb) (in_use h))" "bptr pa \<notin> in_use h" "bptr pb \<notin> in_use h" "bptr pa \<noteq> bptr pb"
      "\<And>R. 2 * (T + 24) \<le> R \<Longrightarrow> roomy R h \<Longrightarrow> roomy (R - 2 * (T + 24)) h1"
    define pbd where "pbd = strip_to 1 (bdigits pb)"
    have len: "length (bdigits pa) \<le> T" "length pbd \<le> T" "bscale pa < length (bdigits pa)"
      using pair strip_length(1) [of 1 "bdigits pb"] by (auto simp: aligned_pair_def pbd_def)
    obtain qs where qs: "div_digits (length pbd + 1) [] (bdigits pa @ replicate FRAC_DIGITS 0) pbd = Some qs"
      "digit_list qs" "length qs = length (bdigits pa) + 20"
      "of_int (dval qs) / 10 ^ 20 = (of_int \<lfloor>mag a / mag b * 10 ^ 20\<rfloor> / 10 ^ 20 :: rat)"
      unfolding pbd_def by (rule quotient_ok [OF pair nz(2)])
    obtain q h2 where q: "calc_malloc (length (bdigits pa) + FRAC_DIGITS) h1 = (q, h2)" by fastforce
    obtain rm h3 where rm: "calc_malloc (length pbd + 1) h2 = (rm, h3)" by fastforce
    let ?out = "\<lparr>bptr = q, bdigits = qs, bscale = FRAC_DIGITS, bneg = (bneg a \<noteq> bneg b)\<rparr>"
    define res where "res = (if q = 0 then (Inl OOM, h2) else if rm = 0 then (Inl OOM, calc_free q h3) else (Inr (bignum_trim ?out), calc_free rm h3))"
    have e: "bignum_div a b h = Some (fst res, calc_free (bptr pb) (calc_free (bptr pa) (snd res)))"
      unfolding bignum_div_def r res_def prod.case sum.case if_not_P [OF nz(1)] Let_def pbd_def [symmetric] q rm qs(1) option.case bignum_free_def
      by simp
    have "bval a / bval b = (if bneg a \<noteq> bneg b then - 1 else 1) * (mag a / mag b)" by (simp add: bval_mag)
    moreover have "0 \<le> mag a / mag b" using assms(1,2) by (simp add: mag_def num_ok_def)
    ultimately have v: "bval ?out = trunc20 (bval a / bval b)"
      using trunc20_sign [of "mag a / mag b" "bneg a \<noteq> bneg b"] qs(4) by (simp only: bval_def) simp
    have "digit_list (bdigits ?out)" "bscale ?out < length (bdigits ?out)" using qs(2,3) len(3) by auto
    note t = trim_ok [OF this]
    have "op_ok ((T + 44) + (T + 25)) h1 res (\<lambda>n. bval n = trunc20 (bval a / bval b) \<and> bscale n = 20 \<and> length (bdigits n) \<le> T + 20)"
      unfolding res_def using t v len qs(3) by (intro two_blocks [OF I(1) q rm]) auto
    from op_ok_free [OF this I(2-6), of "4 * (T + 48)"] show ?thesis by (simp add: e)
  qed
qed

text \<open>A temporary result used in a further operation and given back.\<close>

lemma op_then_free:
  assumes "op_ok S1 h (Inr q, h1) P" "op_ok S2 h1 r Q"
  shows "op_ok (S1 + S2) h (fst r, bignum_free q (snd r)) Q"
proof -
  have q: "in_use h1 = insert (bptr q) (in_use h)" "bptr q \<notin> in_use h" using assms(1) by (auto simp: op_ok_def)
  have h2: "arena_ok (snd r)" "bptr q \<in> in_use (snd r)" using assms(2) q(1) by (auto simp: op_ok_def split: sum.splits)
  note F = calc_free_ok [OF h2]
  have room: "roomy (R - S1) h1" if "S1 + S2 \<le> R" "roomy R h" for R using assms(1) that by (auto simp: op_ok_def)
  have room2: "roomy (R - (S1 + S2)) (snd r)" if "S1 + S2 \<le> R" "roomy R h" for R
  proof -
    have "S2 \<le> R - S1" "R - S1 - S2 = R - (S1 + S2)" using that(1) by simp_all
    then show ?thesis using assms(2) room [OF that] by (metis (no_types, lifting) op_ok_def)
  qed
  have "roomy S2 h1" if "roomy (S1 + S2) h" using room [OF le_refl that] by simp
  then show ?thesis using F q assms(2) room2 calc_free_room by (auto simp: op_ok_def bignum_free_def split: sum.splits)
qed

lemma op_error_free:
  assumes "op_ok S1 h (Inr q, h1) P" "op_ok S2 h1 (Inl e, h2) Q"
  shows "arena_ok (bignum_free q h2)" "in_use (bignum_free q h2) = in_use h"
  using op_then_free [OF assms] by (auto simp: op_ok_def)

end
