(* ===== verification/CalcKeys.thy ===== *)
theory CalcKeys
  imports CalcOps
begin

section \<open>The calculator: every key\<close>

text \<open>
  The invariant of the calculator: its three numbers are well-formed and own the only blocks of its heap in use. Every
  key returns and keeps it, so no key leaks a block or uses one after it was freed, and a failed operation leaves the
  numbers as they were.
\<close>

text \<open>
  An allocation of one byte that fails leaves no block free, so all later ones fail as well: the digit of a number whose
  allocation failed is never read.
\<close>

lemma malloc_fails_after:
  assumes "calc_malloc 1 h = (0, h1)" "arena_ok h"
  shows "calc_malloc n h1 = (0, h1)"
proof -
  define h0 where "h0 = (if h = [] then calc_heap_init else h)"
  have t: "ctiles 0 h0 CALC_ARENA_SIZE" using assms(2) by (auto simp: h0_def arena_ok_def calc_heap_init_def)
  have r: "(case first_fit (calc_size 1) h0 of None \<Rightarrow> (0, h0) | Some r \<Rightarrow> r) = (0, h1)"
    using assms(1) unfolding calc_malloc_def Let_def h0_def .
  have N: "first_fit (calc_size 1) h0 = None"
    using r first_fit_ok [OF t _ calc_size_props(1,3)] by (cases "first_fit (calc_size 1) h0") fastforce+
  have "h1 = h0" using r unfolding N by simp
  moreover have "\<forall>b\<in>set h0. cfree b \<longrightarrow> csize b < calc_size 1" using N by (simp only: first_fit_None)
  moreover have "h0 \<noteq> []" by (simp add: h0_def calc_heap_init_def)
  moreover have "calc_size 1 \<le> calc_size n"
  proof -
    have "calc_size 1 = 4" by (simp add: calc_size_def)
    then show ?thesis using calc_size_props(1) [of n] by simp
  qed
  ultimately have "first_fit (calc_size n) h1 = None" by (fastforce simp: first_fit_None)
  then show ?thesis using \<open>h1 = h0\<close> \<open>h0 \<noteq> []\<close> by (simp add: calc_malloc_def)
qed

lemma null_never_read:
  assumes "bignum_from_digit d h = (n, h1)" "bptr n = 0" "arena_ok h"
  shows "bignum_add a n h1 = (Inl OOM, h1)" "\<not> bignum_is_zero n \<Longrightarrow> bignum_div a n h1 = Some (Inl OOM, h1)"
proof -
  have "calc_malloc 1 h = (0, h1)" using assms(1,2) by (auto simp: bignum_from_digit_def split: prod.splits)
  then have "\<And>k. calc_malloc k h1 = (0, h1)" by (rule malloc_fails_after [OF _ assms(3)])
  then show "bignum_add a n h1 = (Inl OOM, h1)" "\<not> bignum_is_zero n \<Longrightarrow> bignum_div a n h1 = Some (Inl OOM, h1)"
    by (simp_all add: bignum_add_def bignum_div_def bignum_align_def Let_def)
qed

text \<open>After a block was given back, there is room for a digit.\<close>

lemma free_then_digit:
  assumes "arena_ok h" "p \<in> in_use h" "bignum_from_digit d (calc_free p h) = (n, h')" "0 \<le> d" "d \<le> 9"
  shows "arena_ok h'" "bptr n \<noteq> 0" "bptr n \<notin> in_use h - {p}" "in_use h' = insert (bptr n) (in_use h - {p})"
    "num_ok n" "bval n = of_int d"
proof -
  note F = calc_free_ok [OF assms(1,2)]
  obtain q h1 where m: "calc_malloc 1 (calc_free p h) = (q, h1)" by fastforce
  have n: "n = \<lparr>bptr = q, bdigits = [d], bscale = 0, bneg = False\<rparr>" "h' = h1" using assms(3) m by (simp_all add: bignum_from_digit_def)
  have "ctiles 0 h CALC_ARENA_SIZE" using assms(1,2) by (auto simp: arena_ok_def)
  then obtain b where b: "b \<in> set (release_at (p - CHDR) h)" "cfree b" "4 \<le> csize b"
    using released_block [OF _ assms(2)] by blast
  have p0: "p \<noteq> 0" using assms(1,2) in_use_not_null by metis
  have "q \<noteq> 0"
  proof
    assume "q = 0"
    define h0 where "h0 = calc_free p h"
    have h0: "h0 = release_at (p - CHDR) h" "h0 \<noteq> []" using p0 b(1) by (auto simp: h0_def calc_free_def)
    have "ctiles 0 h0 CALC_ARENA_SIZE" using F(1) h0(2) by (auto simp: arena_ok_def h0_def)
    then have "first_fit (calc_size 1) h0 = None"
      using m \<open>q = 0\<close> h0(2) first_fit_ok [OF _ _ calc_size_props(1,3), of 0 h0 CALC_ARENA_SIZE 1]
      by (cases "first_fit (calc_size 1) h0") (fastforce simp: calc_malloc_def h0_def [symmetric])+
    then show False using b h0(1) by (auto simp: first_fit_None calc_size_def)
  qed
  then show "arena_ok h'" "bptr n \<noteq> 0" "bptr n \<notin> in_use h - {p}" "in_use h' = insert (bptr n) (in_use h - {p})" "num_ok n" "bval n = of_int d"
    using calc_malloc_ok [OF F(1) m] F(2) assms(4,5) by (simp_all add: n num_ok_def bval_def)
qed

subsection \<open>Results of operations\<close>

text \<open>A result in a heap whose blocks in use were those of \<open>U\<close>: an error with the same blocks, or a number with one block more.\<close>

definition res_ok :: "nat set \<Rightarrow> bignum calc_res \<Rightarrow> (bignum \<Rightarrow> bool) \<Rightarrow> bool" where
  "res_ok U r P \<longleftrightarrow> arena_ok (snd r) \<and>
     (case fst r of Inl e \<Rightarrow> in_use (snd r) = U
      | Inr n \<Rightarrow> num_ok n \<and> P n \<and> bptr n \<noteq> 0 \<and> bptr n \<notin> U \<and> in_use (snd r) = insert (bptr n) U)"

lemma op_res: "op_ok S h r P \<Longrightarrow> res_ok (in_use h) r P"
  by (auto simp: op_ok_def res_ok_def split: sum.splits)

lemma res_weaken: "res_ok U r P \<Longrightarrow> (\<And>n. P n \<Longrightarrow> Q n) \<Longrightarrow> res_ok U r Q"
  by (auto simp: res_ok_def split: sum.splits)

lemma res_error: "arena_ok h \<Longrightarrow> in_use h = U \<Longrightarrow> res_ok U (Inl e, h) P"
  by (simp add: res_ok_def)

lemma copy_ok:
  assumes "num_ok a" "arena_ok h"
  shows "res_ok (in_use h) (bignum_copy a h) (\<lambda>n. bval n = bval a)"
proof -
  obtain p h1 where p: "calc_malloc (length (bdigits a)) h = (p, h1)" by fastforce
  have "bignum_copy a h = (if p = 0 then (Inl OOM, h1) else (Inr (a\<lparr>bptr := p\<rparr>), h1))" by (simp add: bignum_copy_def p)
  then show ?thesis using calc_malloc_ok [OF assms(2) p] assms(1) by (auto simp: res_ok_def num_ok_def bval_def)
qed

lemma div_res:
  assumes "num_ok a" "num_ok b" "arena_ok h"
  shows "\<exists>r. bignum_div a b h = Some r \<and> res_ok (in_use h) r (\<lambda>n. bval b \<noteq> 0 \<and> bval n = trunc20 (bval a / bval b))"
proof (cases "bval b = 0")
  case True
  then show ?thesis using bignum_div_zero [OF assms(2)] assms(3) by (simp add: res_error)
next
  case False
  then obtain r where r: "bignum_div a b h = Some r" and o: "op_ok (4 * (length (bdigits a) + length (bdigits b) + 48)) h r
      (\<lambda>n. bval n = trunc20 (bval a / bval b) \<and> bscale n = 20 \<and> length (bdigits n) \<le> length (bdigits a) + length (bdigits b) + 20)"
    using bignum_div_ok [OF assms refl] by blast
  have "res_ok (in_use h) r (\<lambda>n. bval b \<noteq> 0 \<and> bval n = trunc20 (bval a / bval b))"
    by (rule res_weaken [OF op_res [OF o]]) (use False in simp)
  then show ?thesis using r by blast
qed

text \<open>What the operator keys compute.\<close>

fun apply_op :: "char \<Rightarrow> rat \<Rightarrow> rat \<Rightarrow> rat" where
  "apply_op c x y = (if c = CHR ''+'' then x + y else if c = CHR ''-'' then x - y else if c = CHR ''*'' then trunc20 (x * y) else trunc20 (x / y))"

lemma do_op_ok:
  assumes "num_ok a" "num_ok b" "arena_ok h"
  shows "\<exists>r. calc_do_op a c b h = Some r \<and> res_ok (in_use h) r (\<lambda>n. (c = CHR ''/'' \<longrightarrow> bval b \<noteq> 0) \<and> bval n = apply_op c (bval a) (bval b))"
proof -
  note [simp] = calc_do_op_def
  consider "c = CHR ''+''" | "c = CHR ''-''" | "c = CHR ''*''" | "c = CHR ''/''" | "c \<notin> set ''+-*/''" by auto
  then show ?thesis
  proof cases
    case 1
    then show ?thesis using op_res [OF bignum_add_ok [OF assms refl]] by (auto intro: res_weaken)
  next
    case 2
    then show ?thesis using op_res [OF bignum_sub_ok [OF assms refl]] by (auto intro: res_weaken)
  next
    case 3
    then show ?thesis using op_res [OF bignum_mul_ok [OF assms refl]] by (auto intro: res_weaken)
  next
    case 4
    then show ?thesis using div_res [OF assms] by (auto intro: res_weaken)
  next
    case 5
    then show ?thesis using assms(3) by (auto simp: res_error)
  qed
qed

subsection \<open>Square root\<close>

text \<open>A temporary, whose allocation may have failed, given back.\<close>

lemma free_temp:
  assumes "arena_ok h" "in_use h = U \<union> ({p} - {0})" "p \<notin> U"
  shows "arena_ok (calc_free p h)" "in_use (calc_free p h) = U"
proof -
  have "arena_ok (calc_free p h) \<and> in_use (calc_free p h) = U"
  proof (cases "p = 0")
    case True
    then show ?thesis using assms by (simp add: calc_free_def)
  next
    case False
    then show ?thesis using calc_free_ok [of h p] assms by auto
  qed
  then show "arena_ok (calc_free p h)" "in_use (calc_free p h) = U" by simp_all
qed

lemma digit_ok:
  assumes "arena_ok h" "bignum_from_digit d h = (n, h1)" "0 \<le> d" "d \<le> 9"
  shows "arena_ok h1" "in_use h1 = in_use h \<union> ({bptr n} - {0})" "bptr n \<notin> in_use h" "num_ok n" "bval n = of_int d" "bdigits n = [d]" "bscale n = 0"
proof -
  obtain p h2 where m: "calc_malloc 1 h = (p, h2)" by fastforce
  have n: "n = \<lparr>bptr = p, bdigits = [d], bscale = 0, bneg = False\<rparr>" "h1 = h2" using assms(2) m by (simp_all add: bignum_from_digit_def)
  have "p \<notin> in_use h" using calc_malloc_ok(3) [OF assms(1) m] in_use_not_null [OF assms(1)] by (cases "p = 0") auto
  then show "arena_ok h1" "in_use h1 = in_use h \<union> ({bptr n} - {0})" "bptr n \<notin> in_use h" "num_ok n" "bval n = of_int d" "bdigits n = [d]" "bscale n = 0"
    using calc_malloc_ok [OF assms(1) m] assms(3,4) unfolding n by (cases "p = 0"; simp add: num_ok_def bval_def)+
qed

lemma digit_room:
  assumes "arena_ok h" "bignum_from_digit d h = (n, h1)" "roomy S h" "25 \<le> S"
  shows "bptr n \<noteq> 0" "roomy (S - 25) h1"
proof -
  obtain p h2 where m: "calc_malloc 1 h = (p, h2)" by fastforce
  then show "bptr n \<noteq> 0" "roomy (S - 25) h1"
    using calc_malloc_roomy [OF assms(1) m, of 1 S] assms(2-4) by (auto simp: bignum_from_digit_def)
qed

text \<open>One step of the iteration.\<close>

definition heron :: "rat \<Rightarrow> rat \<Rightarrow> rat" where
  "heron a x = trunc20 ((x + trunc20 (a / x)) / 2)"

definition sqrt_iter :: "bignum \<Rightarrow> bignum \<Rightarrow> bignum \<Rightarrow> cheap \<Rightarrow> bignum calc_res option" where
  "sqrt_iter a two x h =
     (case bignum_div a x h of
        None \<Rightarrow> None
      | Some (Inl e, h1) \<Rightarrow> Some (Inl e, h1)
      | Some (Inr q, h1) \<Rightarrow>
          (case bignum_add x q h1 of
             (Inl e, h2) \<Rightarrow> Some (Inl e, bignum_free q h2)
           | (Inr s, h2) \<Rightarrow> map_option (\<lambda>(r, h3). (r, bignum_free s h3)) (bignum_div s two (bignum_free q h2))))"

lemma sqrt_loop_iter:
  "sqrt_loop (Suc k) a two x h =
     (case sqrt_iter a two x h of
        None \<Rightarrow> None
      | Some (Inl e, h1) \<Rightarrow> Some (Inl OOM, bignum_free two (bignum_free x h1))
      | Some (Inr nx, h1) \<Rightarrow> sqrt_loop k a two nx (bignum_free x h1))"
  by (auto simp: sqrt_iter_def split: option.splits sum.splits prod.splits)

definition iter_cost :: "bignum \<Rightarrow> bignum \<Rightarrow> nat" where
  "iter_cost a x = 11 * length (bdigits a) + 18 * length (bdigits x) + 607"

lemma op_ok_mono: "op_ok S h r P \<Longrightarrow> S \<le> T \<Longrightarrow> (\<And>n. P n \<Longrightarrow> Q n) \<Longrightarrow> op_ok T h r Q"
proof -
  assume a: "op_ok S h r P" "S \<le> T" "\<And>n. P n \<Longrightarrow> Q n"
  have "roomy (R - T) (snd r)" if "T \<le> R" "roomy R h" for R
    using a(1,2) that roomy_mono [of "R - S" "snd r" "R - T"] by (auto simp: op_ok_def)
  moreover have "\<not> roomy S h \<Longrightarrow> \<not> roomy T h" using roomy_mono a(2) by blast
  ultimately show ?thesis using a(1,3) by (auto simp: op_ok_def split: sum.splits)
qed

lemma op_error_any: "op_ok S h (Inl e, h1) P \<Longrightarrow> S \<le> T \<Longrightarrow> op_ok T h (Inl e, h1) Q"
  by (rule op_ok_mono [of S h _ Q]) (simp_all add: op_ok_def)

lemma iter_ok:
  assumes "num_ok a" "num_ok two" "bval two = 2" "bdigits two = [2]" "num_ok x" "arena_ok h" "bval x \<noteq> 0"
  shows "\<exists>r. sqrt_iter a two x h = Some r \<and> op_ok (iter_cost a x) h r (\<lambda>n. bval n = heron (bval a) (bval x) \<and> bscale n = 20)"
proof -
  let ?la = "length (bdigits a)" and ?lx = "length (bdigits x)"
  obtain d1 h1 where 1: "bignum_div a x h = Some (d1, h1)"
    "op_ok (4 * (?la + ?lx + 48)) h (d1, h1) (\<lambda>n. bval n = trunc20 (bval a / bval x) \<and> bscale n = 20 \<and> length (bdigits n) \<le> ?la + ?lx + 20)"
    using bignum_div_ok [OF assms(1,5,6) refl assms(7)] by auto
  show ?thesis
  proof (cases d1)
    case (Inl e)
    then show ?thesis using 1 op_error_any [OF 1(2) [unfolded Inl], of "iter_cost a x"] by (auto simp: sqrt_iter_def iter_cost_def)
  next
    case (Inr q)
    have q: "num_ok q" "bval q = trunc20 (bval a / bval x)" "length (bdigits q) \<le> ?la + ?lx + 20" "arena_ok h1"
      using 1(2) Inr by (auto simp: op_ok_def)
    obtain d2 h2 where 2: "bignum_add x q h1 = (d2, h2)" by fastforce
    let ?T2 = "?lx + length (bdigits q)"
    have a2: "op_ok (3 * (?T2 + 25)) h1 (d2, h2) (\<lambda>n. bval n = bval x + bval q \<and> length (bdigits n) \<le> ?T2 + 1)"
      using bignum_add_ok [OF assms(5) q(1,4) refl] unfolding 2 by (rule op_ok_mono) auto
    note f2 = op_then_free [OF 1(2) [unfolded Inr] a2]
    show ?thesis
    proof (cases d2)
      case (Inl e)
      then show ?thesis using 1(1) \<open>d1 = Inr q\<close> 2 op_ok_mono [OF f2, of "iter_cost a x"] q(3)
        by (auto simp: sqrt_iter_def iter_cost_def op_ok_def)
    next
      case (Inr s)
      have s: "num_ok s" "bval s = bval x + bval q" "length (bdigits s) \<le> ?T2 + 1" "arena_ok (bignum_free q h2)"
        using f2 Inr by (auto simp: op_ok_def)
      have nz: "bval two \<noteq> 0" using assms(3) by simp
      obtain d3 h3 where 3: "bignum_div s two (bignum_free q h2) = Some (d3, h3)"
        "op_ok (4 * (length (bdigits s) + 1 + 48)) (bignum_free q h2) (d3, h3) (\<lambda>n. bval n = trunc20 (bval s / bval two) \<and> bscale n = 20)"
        using bignum_div_ok [OF s(1) assms(2) s(4) refl nz] assms(4) by (auto intro: op_ok_mono)
      have f2s: "op_ok (4 * (?la + ?lx + 48) + 3 * (?T2 + 25)) h (Inr s, bignum_free q h2) (\<lambda>n. bval n = bval x + bval q \<and> length (bdigits n) \<le> ?T2 + 1)"
        using f2 Inr by simp
      note f3 = op_then_free [OF f2s 3(2), unfolded fst_conv snd_conv]
      have "sqrt_iter a two x h = Some (d3, bignum_free s h3)"
        using 1(1) \<open>d1 = Inr q\<close> 2 Inr 3(1) by (simp add: sqrt_iter_def)
      moreover have "op_ok (iter_cost a x) h (d3, bignum_free s h3) (\<lambda>n. bval n = heron (bval a) (bval x) \<and> bscale n = 20)"
        by (rule op_ok_mono [OF f3])
          (use s(2,3) q(2,3) assms(3) in \<open>auto simp: iter_cost_def heron_def\<close>)
      ultimately show ?thesis by blast
    qed
  qed
qed

text \<open>Bounds on the iterates that keep their digits few.\<close>

definition iterates_small :: "nat \<Rightarrow> rat \<Rightarrow> rat \<Rightarrow> bool" where
  "iterates_small k a x \<longleftrightarrow> (\<forall>j<k. 0 < (heron a ^^ j) x \<and> (heron a ^^ Suc j) x < 10 ^ 60 \<and> 0 \<le> (heron a ^^ Suc j) x)"

lemma sqrt_loop_ok:
  assumes "num_ok a" "num_ok two" "bval two = 2" "bdigits two = [2]" "bptr two \<notin> U" "0 \<notin> U"
  shows "num_ok x \<Longrightarrow> arena_ok h \<Longrightarrow> in_use h = insert (bptr x) (U \<union> ({bptr two} - {0})) \<Longrightarrow> bptr x \<notin> U \<Longrightarrow> bptr x \<noteq> bptr two \<Longrightarrow>
    bptr x \<noteq> 0 \<Longrightarrow> \<exists>r. sqrt_loop k a two x h = Some r \<and> res_ok U r (\<lambda>n. bval n = (heron (bval a) ^^ k) (bval x)) \<and>
      (length (bdigits a) \<le> 100 \<and> length (bdigits x) \<le> 160 \<and> iterates_small k (bval a) (bval x) \<and> roomy (4600 * k) h \<longrightarrow> \<not> isl (fst r))"
proof (induction k arbitrary: x h)
  case 0
  have "in_use h = insert (bptr x) U \<union> ({bptr two} - {0})" using 0(3) by auto
  note f = free_temp [OF 0(2) this]
  show ?case using f 0 assms(5) by (auto simp: res_ok_def bignum_free_def)
next
  case (Suc k)
  let ?V = "U \<union> ({bptr two} - {0})"
  have free: "arena_ok (bignum_free two (bignum_free x g)) \<and> in_use (bignum_free two (bignum_free x g)) = U"
    if "arena_ok g" "in_use g = insert (bptr x) ?V" for g
  proof -
    have x: "arena_ok (calc_free (bptr x) g)" "in_use (calc_free (bptr x) g) = ?V"
      using calc_free_ok [OF that(1), of "bptr x"] that(2) Suc.prems(4-6) by auto
    show ?thesis using free_temp [OF x assms(5)] by (simp add: bignum_free_def)
  qed
  show ?case
  proof (cases "bval x = 0")
    case True
    have "bignum_div a x h = Some (Inl MATH, h)" by (rule bignum_div_zero [OF Suc.prems(1) True])
    then show ?thesis using free [OF Suc.prems(2,3)] True by (auto simp: res_ok_def iterates_small_def)
  next
    case False
    obtain d h1 where it: "sqrt_iter a two x h = Some (d, h1)"
      "op_ok (iter_cost a x) h (d, h1) (\<lambda>n. bval n = heron (bval a) (bval x) \<and> bscale n = 20)"
      using iter_ok [OF assms(1-4) Suc.prems(1,2) False] by auto
    have room: "roomy (4600 * k) h1 \<and> \<not> isl d" if "length (bdigits a) \<le> 100" "length (bdigits x) \<le> 160" "roomy (4600 * Suc k) h"
    proof -
      have c: "iter_cost a x \<le> 4600" using that(1,2) by (simp add: iter_cost_def)
      then have "roomy (4600 * Suc k - iter_cost a x) h1" using it(2) that(3) by (auto simp: op_ok_def)
      then have "roomy (4600 * k) h1" by (rule roomy_mono) (use c in simp)
      moreover have "roomy (iter_cost a x) h" by (rule roomy_mono [OF that(3)]) (use c in simp)
      then have "\<not> isl d" using it(2) by (cases d) (auto simp: op_ok_def)
      ultimately show ?thesis by simp
    qed
    show ?thesis
    proof (cases d)
      case (Inl e)
      then have "arena_ok h1" "in_use h1 = insert (bptr x) ?V" using it(2) Suc.prems(3) by (auto simp: op_ok_def)
      from free [OF this] show ?thesis using it(1) Inl room by (auto simp: sqrt_loop_iter res_ok_def simp del: sqrt_loop.simps)
    next
      case (Inr nx)
      have nx: "num_ok nx" "no_pad nx" "bval nx = heron (bval a) (bval x)" "bscale nx = 20" "bptr nx \<noteq> 0" "arena_ok h1"
        "in_use h1 = insert (bptr nx) (insert (bptr x) ?V)" "bptr nx \<notin> insert (bptr x) ?V"
        using it(2) Inr Suc.prems(3) by (auto simp: op_ok_def)
      have u: "arena_ok (bignum_free x h1)" "in_use (bignum_free x h1) = insert (bptr nx) ?V"
        using calc_free_ok [OF nx(6), of "bptr x"] nx(7,8) Suc.prems(4-6) by (auto simp: bignum_free_def)
      have "bptr nx \<notin> U" "bptr nx \<noteq> bptr two" using nx(5,8) by auto
      from Suc.IH [OF nx(1) u this nx(5)] obtain r where r: "sqrt_loop k a two nx (bignum_free x h1) = Some r"
        "res_ok U r (\<lambda>n. bval n = (heron (bval a) ^^ k) (bval nx))"
        "length (bdigits a) \<le> 100 \<and> length (bdigits nx) \<le> 160 \<and> iterates_small k (bval a) (bval nx) \<and> roomy (4600 * k) (bignum_free x h1) \<longrightarrow> \<not> isl (fst r)"
        by blast
      have len: "length (bdigits nx) \<le> 160 \<and> iterates_small k (bval a) (bval nx)" if "iterates_small (Suc k) (bval a) (bval x)"
      proof -
        have all: "\<And>j. j < Suc k \<Longrightarrow> 0 < (heron (bval a) ^^ j) (bval x) \<and> (heron (bval a) ^^ Suc j) (bval x) < 10 ^ 60 \<and> 0 \<le> (heron (bval a) ^^ Suc j) (bval x)"
          using that by (simp add: iterates_small_def)
        have "\<bar>bval nx\<bar> < 10 ^ 60" using all [of 0] nx(3) by simp
        then have "length (bdigits nx) \<le> 160" using no_pad_length [OF nx(1,2)] nx(4) by fastforce
        moreover have "iterates_small k (bval a) (bval nx)"
          unfolding iterates_small_def nx(3) using all [of "Suc _"] by (simp add: funpow_swap1)
        ultimately show ?thesis by simp
      qed
      have "sqrt_loop (Suc k) a two x h = Some r" using it(1) Inr r(1) by (simp add: sqrt_loop_iter del: sqrt_loop.simps)
      moreover have "res_ok U r (\<lambda>n. bval n = (heron (bval a) ^^ Suc k) (bval x))" using r(2) by (simp add: nx(3) funpow_swap1)
      ultimately show ?thesis using r(3) len room calc_free_room by (auto simp: bignum_free_def)
    qed
  qed
qed

lemma calc_sqrt_ok:
  assumes "num_ok a" "arena_ok h"
  shows "\<exists>r. calc_sqrt a h = Some r \<and> res_ok (in_use h) r (\<lambda>n. 0 \<le> bval a \<and> bval n = (if bval a = 0 then 0 else (heron (bval a) ^^ 60) (bval a + 1))) \<and>
    (0 < bval a \<and> length (bdigits a) \<le> 100 \<and> bval a < 10 ^ 59 \<and> iterates_small 60 (bval a) (bval a + 1) \<and> roomy 277000 h \<longrightarrow> \<not> isl (fst r))"
proof -
  have nn: "0 \<le> bval a" if "\<not> bneg a" using that assms(1) by (simp add: bval_def num_ok_def)
  consider "bneg a" | "\<not> bneg a" "bval a = 0" | "\<not> bneg a" "bval a \<noteq> 0" by blast
  then show ?thesis
  proof cases
    case 1
    moreover have "0 \<le> mag a" using assms(1) by (simp add: mag_def num_ok_def)
    ultimately have "\<not> 0 < bval a" by (simp add: bval_mag)
    then show ?thesis using 1 assms(2) by (simp add: calc_sqrt_def res_error)
  next
    case 2
    obtain n h1 where n: "bignum_from_digit 0 h = (n, h1)" by fastforce
    note d = digit_ok [OF assms(2) n]
    have "calc_sqrt a h = Some (if bptr n \<noteq> 0 then Inr n else Inl OOM, h1)" using 2 bval_zero_iff [OF assms(1)] n by (simp add: calc_sqrt_def)
    then show ?thesis using d 2 by (auto simp: res_ok_def)
  next
    case 3
    obtain one h1 where one: "bignum_from_digit 1 h = (one, h1)" by fastforce
    note d = digit_ok [OF assms(2) one]
    have r1: "roomy 276900 h1" if "roomy 277000 h"
      using digit_room(2) [OF assms(2) one that] roomy_mono [of _ h1 276900] by simp
    obtain d2 h2 where r: "bignum_add a one h1 = (d2, h2)" by fastforce
    have o2: "op_ok (3 * (length (bdigits a) + 1 + 25)) h1 (d2, h2) (\<lambda>n. bval n = bval a + 1 \<and> bscale n = bscale a)"
      using bignum_add_ok [OF assms(1) d(4) d(1) refl] d(5,6,7) unfolding r by (auto intro: op_ok_mono)
    have z: "\<not> bignum_is_zero a" using 3 bval_zero_iff [OF assms(1)] by simp
    have r2: "roomy 276500 h2 \<and> \<not> isl d2" if "length (bdigits a) \<le> 100" "roomy 277000 h"
    proof -
      define c where "c = 3 * (length (bdigits a) + 1 + 25)"
      have c: "c \<le> 400" using that(1) by (simp add: c_def)
      have "roomy (276900 - c) h2" using o2 r1 [OF that(2)] c unfolding c_def [symmetric] by (simp add: op_ok_def)
      then have "roomy 276500 h2" by (rule roomy_mono) (use c in simp)
      moreover have "roomy c h1" by (rule roomy_mono [OF r1 [OF that(2)]]) (use c in simp)
      then have "\<not> isl d2" using o2 unfolding c_def [symmetric] by (cases d2) (auto simp: op_ok_def)
      ultimately show ?thesis by simp
    qed
    show ?thesis
    proof (cases d2)
      case (Inl e)
      then have "arena_ok h2" "in_use h2 = in_use h \<union> ({bptr one} - {0})" using o2 d(2) by (auto simp: op_ok_def)
      from free_temp [OF this] show ?thesis using 3 z one r Inl d(3) r2 by (auto simp: calc_sqrt_def bignum_free_def res_ok_def)
    next
      case (Inr x)
      have x: "num_ok x" "no_pad x" "bval x = bval a + 1" "bscale x = bscale a" "bptr x \<noteq> 0" "bptr x \<notin> in_use h" "bptr x \<noteq> bptr one \<or> bptr one = 0" "arena_ok h2"
        "in_use h2 = insert (bptr x) (in_use h) \<union> ({bptr one} - {0})"
        using o2 d(2) Inr by (auto simp: op_ok_def)
      have f: "arena_ok (bignum_free one h2)" "in_use (bignum_free one h2) = insert (bptr x) (in_use h)"
        using free_temp [OF x(8,9)] x(5,7) d(3) by (auto simp: bignum_free_def)
      obtain two h3 where two: "bignum_from_digit 2 (bignum_free one h2) = (two, h3)" by fastforce
      note t = digit_ok [OF f(1) two]
      have r3: "roomy (4600 * 60) h3" if "roomy 276500 h2"
        using digit_room(2) [OF f(1) two, of 276500] calc_free_room [OF that] roomy_mono [of _ h3 "4600 * 60"] by (simp add: bignum_free_def)
      have lx: "length (bdigits x) \<le> 160" if "length (bdigits a) \<le> 100" "0 < bval a" "bval a < 10 ^ 59"
      proof -
        have "\<bar>bval x\<bar> < 10 ^ 60" using that(2,3) x(3) by simp
        then show ?thesis using no_pad_length [OF x(1,2), of 60] that(1) assms(1) by (simp add: num_ok_def x(4))
      qed
      have "\<exists>r. sqrt_loop 60 a two x h3 = Some r \<and> res_ok (in_use h) r (\<lambda>n. bval n = (heron (bval a) ^^ 60) (bval x)) \<and>
        (length (bdigits a) \<le> 100 \<and> length (bdigits x) \<le> 160 \<and> iterates_small 60 (bval a) (bval x) \<and> roomy (4600 * 60) h3 \<longrightarrow> \<not> isl (fst r))"
        using t f(2) x(1,5,6) in_use_not_null [OF assms(2)] assms(1) by (intro sqrt_loop_ok) auto
      then obtain r where R: "sqrt_loop 60 a two x h3 = Some r" "res_ok (in_use h) r (\<lambda>n. bval n = (heron (bval a) ^^ 60) (bval x))"
        "length (bdigits a) \<le> 100 \<and> length (bdigits x) \<le> 160 \<and> iterates_small 60 (bval a) (bval x) \<and> roomy (4600 * 60) h3 \<longrightarrow> \<not> isl (fst r)"
        by blast
      have "calc_sqrt a h = Some r" using 3 z one Inr two R(1) \<open>bignum_add a one h1 = (d2, h2)\<close> by (simp add: calc_sqrt_def)
      moreover have "res_ok (in_use h) r (\<lambda>n. 0 \<le> bval a \<and> bval n = (if bval a = 0 then 0 else (heron (bval a) ^^ 60) (bval a + 1)))"
        by (rule res_weaken [OF R(2)]) (use x(3) nn 3 in simp)
      ultimately show ?thesis using R(3) lx r2 r3 x(3) by auto
    qed
  qed
qed

subsection \<open>The invariant\<close>

definition calc_inv :: "calc \<Rightarrow> bool" where
  "calc_inv s \<longleftrightarrow> calc_inited s \<and> arena_ok (calc_heap s) \<and> num_ok (calc_acc s) \<and> num_ok (calc_cur s) \<and> num_ok (calc_memory s) \<and>
     distinct [bptr (calc_acc s), bptr (calc_cur s), bptr (calc_memory s)] \<and>
     in_use (calc_heap s) = {bptr (calc_acc s), bptr (calc_cur s), bptr (calc_memory s)}"

text \<open>The numbers the user sees: accumulator, entry, memory.\<close>

definition calc_values :: "calc \<Rightarrow> rat \<times> rat \<times> rat" where
  "calc_values s = (bval (calc_acc s), bval (calc_cur s), bval (calc_memory s))"

text \<open>The block of a result takes the place of the block of the variable it is assigned to.\<close>

lemma swap_block:
  assumes "res_ok U (Inr n, h) P" "U = insert p V" "p \<notin> V"
  shows "arena_ok (calc_free p h)" "in_use (calc_free p h) = insert (bptr n) V" "bptr n \<notin> V" "num_ok n" "P n"
proof -
  have h: "arena_ok h" "in_use h = insert (bptr n) (insert p V)" "bptr n \<notin> insert p V" "num_ok n" "P n"
    using assms by (auto simp: res_ok_def)
  have "p \<in> in_use h" using h(2) by simp
  note f = calc_free_ok [OF h(1) this]
  show "arena_ok (calc_free p h)" "in_use (calc_free p h) = insert (bptr n) V" "bptr n \<notin> V" "num_ok n" "P n"
    using f h assms(3) by auto
qed

lemma failed_inv: "calc_inv s \<Longrightarrow> res_ok (in_use (calc_heap s)) (Inl e, h) P \<Longrightarrow> calc_inv (s\<lparr>calc_heap := h, calc_error := True\<rparr>)"
  by (simp add: calc_inv_def res_ok_def)

lemma into_acc_ok:
  assumes "calc_inv s" "res_ok (in_use (calc_heap s)) r P"
  shows "calc_inv (snd (into_acc r s))"
    "fst (into_acc r s) \<Longrightarrow> P (calc_acc (snd (into_acc r s))) \<and> calc_values (snd (into_acc r s)) = (bval (calc_acc (snd (into_acc r s))), snd (calc_values s))"
    "\<not> fst (into_acc r s) \<Longrightarrow> calc_error (snd (into_acc r s)) \<and> calc_values (snd (into_acc r s)) = calc_values s"
proof (atomize (full), cases r)
  case (Pair d h)
  show "calc_inv (snd (into_acc r s)) \<and>
    (fst (into_acc r s) \<longrightarrow> P (calc_acc (snd (into_acc r s))) \<and> calc_values (snd (into_acc r s)) = (bval (calc_acc (snd (into_acc r s))), snd (calc_values s))) \<and>
    (\<not> fst (into_acc r s) \<longrightarrow> calc_error (snd (into_acc r s)) \<and> calc_values (snd (into_acc r s)) = calc_values s)"
  proof (cases d)
    case (Inl e)
    then show ?thesis using failed_inv [OF assms(1)] assms(2) Pair by (simp add: into_acc_def calc_values_def)
  next
    case (Inr n)
    have u: "in_use (calc_heap s) = insert (bptr (calc_acc s)) {bptr (calc_cur s), bptr (calc_memory s)}"
      "bptr (calc_acc s) \<notin> {bptr (calc_cur s), bptr (calc_memory s)}" using assms(1) by (auto simp: calc_inv_def)
    note w = swap_block [OF _ u, of n h P]
    show ?thesis using w assms Pair Inr by (simp add: into_acc_def calc_inv_def calc_values_def bignum_free_def)
  qed
qed

lemma into_cur_ok:
  assumes "calc_inv s" "res_ok (in_use (calc_heap s)) r P"
  shows "calc_inv (snd (into_cur r s))"
proof (cases r)
  case (Pair d h)
  show ?thesis
  proof (cases d)
    case (Inl e)
    then show ?thesis using failed_inv [OF assms(1)] assms(2) Pair by (simp add: into_cur_def)
  next
    case (Inr n)
    have u: "in_use (calc_heap s) = insert (bptr (calc_cur s)) {bptr (calc_acc s), bptr (calc_memory s)}"
      "bptr (calc_cur s) \<notin> {bptr (calc_acc s), bptr (calc_memory s)}" using assms(1) by (auto simp: calc_inv_def)
    note w = swap_block [OF _ u, of n h P]
    show ?thesis using w assms Pair Inr by (auto simp: into_cur_def calc_inv_def bignum_free_def)
  qed
qed

lemma into_memory_ok:
  assumes "calc_inv s" "res_ok (in_use (calc_heap s)) r P"
  shows "calc_inv (snd (into_memory r s))"
proof (cases r)
  case (Pair d h)
  show ?thesis
  proof (cases d)
    case (Inl e)
    then show ?thesis using failed_inv [OF assms(1)] assms(2) Pair by (simp add: into_memory_def)
  next
    case (Inr n)
    have u: "in_use (calc_heap s) = insert (bptr (calc_memory s)) {bptr (calc_acc s), bptr (calc_cur s)}"
      "bptr (calc_memory s) \<notin> {bptr (calc_acc s), bptr (calc_cur s)}" using assms(1) by (auto simp: calc_inv_def)
    note w = swap_block [OF _ u, of n h P]
    show ?thesis using w assms Pair Inr by (auto simp: into_memory_def calc_inv_def bignum_free_def)
  qed
qed

lemma into_display_ok: "calc_inv s \<Longrightarrow> res_ok (in_use (calc_heap s)) r P \<Longrightarrow> calc_inv (into_display r s)"
  using into_cur_ok into_acc_ok(1) by (simp add: into_display_def)

lemma display_ok: "calc_inv s \<Longrightarrow> num_ok (calc_display s)"
  by (simp add: calc_inv_def calc_display_def)

lemma reset_ok:
  assumes "calc_inv s"
  shows "calc_inv (reset_cur s)" "calc_inv (reset_acc s)" "calc_inv (reset_memory s)"
    "calc_values (reset_cur s) = (bval (calc_acc s), 0, bval (calc_memory s))"
proof -
  have a: "arena_ok (calc_heap s)" using assms by (simp add: calc_inv_def)
  have cur: "calc_inv (reset_cur s) \<and> calc_values (reset_cur s) = (bval (calc_acc s), 0, bval (calc_memory s))"
  proof -
    obtain n h where n: "bignum_from_digit 0 (calc_free (bptr (calc_cur s)) (calc_heap s)) = (n, h)" by fastforce
    have i: "bptr (calc_cur s) \<in> in_use (calc_heap s)" using assms by (simp add: calc_inv_def)
    show ?thesis using free_then_digit [OF a i n] assms n
      by (auto simp: reset_cur_def bignum_free_def calc_inv_def calc_values_def)
  qed
  then show "calc_inv (reset_cur s)" "calc_values (reset_cur s) = (bval (calc_acc s), 0, bval (calc_memory s))" by simp_all
  show "calc_inv (reset_acc s)"
  proof -
    obtain n h where n: "bignum_from_digit 0 (calc_free (bptr (calc_acc s)) (calc_heap s)) = (n, h)" by fastforce
    have i: "bptr (calc_acc s) \<in> in_use (calc_heap s)" using assms by (simp add: calc_inv_def)
    show ?thesis using free_then_digit [OF a i n] assms n by (auto simp: reset_acc_def bignum_free_def calc_inv_def)
  qed
  show "calc_inv (reset_memory s)"
  proof -
    obtain n h where n: "bignum_from_digit 0 (calc_free (bptr (calc_memory s)) (calc_heap s)) = (n, h)" by fastforce
    have i: "bptr (calc_memory s) \<in> in_use (calc_heap s)" using assms by (simp add: calc_inv_def)
    show ?thesis using free_then_digit [OF a i n] assms n by (auto simp: reset_memory_def bignum_free_def calc_inv_def)
  qed
qed

lemma calc_inv_flags [simp]:
  "calc_inv (s\<lparr>calc_has_digits := b\<rparr>) = calc_inv s" "calc_inv (s\<lparr>calc_pending_op := c\<rparr>) = calc_inv s"
  "calc_inv (s\<lparr>calc_error := e\<rparr>) = calc_inv s"
  by (simp_all add: calc_inv_def)

definition calc_ok :: "calc \<Rightarrow> bool" where
  "calc_ok s \<longleftrightarrow> (if calc_inited s then calc_inv s else calc_heap s = [] \<and> \<not> calc_error s)"

lemma calc_init_ok: "calc_ok s \<Longrightarrow> calc_inv (calc_init s)"
  by (auto simp: calc_ok_def calc_init_def calc_inv_def bignum_from_digit_def calc_malloc_def calc_heap_init_def calc_size_def
      num_ok_def arena_ok_def Let_def)

text \<open>Typing a digit appends it to the entry.\<close>

lemma press_digit_ok:
  assumes "calc_inv s" "0 \<le> d" "d \<le> 9"
  shows "calc_inv (press_digit d s)"
proof -
  define s1 where "s1 = (if calc_error s then (reset_cur (s\<lparr>calc_error := False\<rparr>))\<lparr>calc_has_digits := False\<rparr> else s)"
  have I: "calc_inv s1" using assms(1) reset_ok(1) by (simp add: s1_def)
  define cur where "cur = calc_cur s1"
  obtain p h where m: "calc_malloc (length (bdigits cur) + 1) (calc_heap s1) = (p, h)" by fastforce
  define ds where "ds = (if length (bdigits cur @ [d]) = 2 \<and> hd (bdigits cur @ [d]) = 0 then [d] else bdigits cur @ [d])"
  have e: "press_digit d s = (if p = 0 then s1\<lparr>calc_heap := h, calc_error := True\<rparr>
      else s1\<lparr>calc_heap := calc_free (bptr cur) h, calc_cur := cur\<lparr>bptr := p, bdigits := ds\<rparr>, calc_has_digits := True\<rparr>)"
    using m unfolding press_digit_def Let_def s1_def [symmetric] cur_def ds_def by simp
  note M = calc_malloc_ok [OF _ m]
  have c: "num_ok cur" using I by (simp add: calc_inv_def cur_def)
  have "num_ok (cur\<lparr>bptr := p, bdigits := ds\<rparr>)"
  proof (cases "length (bdigits cur @ [d]) = 2 \<and> hd (bdigits cur @ [d]) = 0")
    case True
    then have "bdigits cur = [0]" by (cases "bdigits cur") auto
    then show ?thesis using c assms(2,3) by (auto simp: num_ok_def ds_def)
  next
    case False
    have "bneg cur \<Longrightarrow> 0 < dval (bdigits cur)" using c by (simp add: num_ok_def less_le)
    then have "bneg cur \<Longrightarrow> dval (bdigits cur @ [d]) \<noteq> 0" using assms(2) by fastforce
    moreover have "ds = bdigits cur @ [d]" unfolding ds_def by (rule if_not_P [OF False])
    ultimately show ?thesis using c assms(2,3) by (simp add: num_ok_def)
  qed
  moreover have "p \<noteq> 0 \<Longrightarrow> arena_ok (calc_free (bptr cur) h) \<and>
      in_use (calc_free (bptr cur) h) = {p, bptr (calc_acc s1), bptr (calc_memory s1)} \<and> p \<notin> in_use (calc_heap s1)"
    using M I calc_free_ok [of h "bptr cur"] by (auto simp: calc_inv_def cur_def)
  ultimately show ?thesis unfolding e using I M by (auto simp: calc_inv_def)
qed

lemma press_percent_ok:
  assumes "calc_inv s"
  shows "calc_inv (press_percent s)"
proof -
  have a: "arena_ok (calc_heap s)" "num_ok (calc_acc s)" "num_ok (calc_cur s)" using assms by (simp_all add: calc_inv_def)
  show ?thesis
  proof (cases "calc_pending_op s \<noteq> None \<and> calc_has_digits s")
    case True
    obtain d h where r: "bignum_mul (calc_acc s) (calc_cur s) (calc_heap s) = (d, h)" by fastforce
    have m: "res_ok (in_use (calc_heap s)) (d, h) (\<lambda>n. True)"
      using op_res [OF bignum_mul_ok [OF a(2,3,1) refl]] unfolding r by (rule res_weaken) simp
    show ?thesis
    proof (cases d)
      case (Inl e)
      then show ?thesis using True r m assms by (simp add: press_percent_def res_ok_def calc_inv_def)
    next
      case (Inr prd)
      have p: "num_ok prd" "arena_ok h" "in_use h = insert (bptr prd) (in_use (calc_heap s))" "bptr prd \<notin> in_use (calc_heap s)"
        using m Inr by (auto simp: res_ok_def)
      obtain d2 h2 where r2: "bignum_div100 prd h = (d2, h2)" by fastforce
      have m2: "res_ok (in_use h) (d2, h2) (\<lambda>n. True)"
        using op_res [OF bignum_div100_ok [OF p(1,2)]] unfolding r2 by (rule res_weaken) simp
      then have "bptr prd \<in> in_use h2" "arena_ok h2" using p(3) by (auto simp: res_ok_def split: sum.splits)
      note f = calc_free_ok [OF this(2,1)]
      have "res_ok (in_use (calc_heap s)) (d2, bignum_free prd h2) (\<lambda>n. True)"
        using m2 f p(3,4) by (auto simp: res_ok_def bignum_free_def split: sum.splits)
      from into_display_ok [OF assms this] show ?thesis using True r Inr r2 by (simp add: press_percent_def)
    qed
  next
    case False
    have "res_ok (in_use (calc_heap s)) (bignum_div100 (calc_display s) (calc_heap s)) (\<lambda>n. bval n = bval (calc_display s) / 100)"
      by (rule op_res [OF bignum_div100_ok [OF display_ok [OF assms] a(1)]])
    moreover have "press_percent s = into_display (bignum_div100 (calc_display s) (calc_heap s)) s"
      unfolding press_percent_def by (rule if_not_P [OF False])
    ultimately show ?thesis using into_display_ok [OF assms] by simp
  qed
qed

lemma press_equals_ok:
  assumes "calc_inv s" "calc_pending_op s = Some c"
  shows "\<exists>s'. press_equals s = Some s' \<and> calc_inv s' \<and>
    (calc_error s' \<and> calc_values s' = calc_values s \<or>
     calc_values s' = (apply_op c (bval (calc_acc s)) (bval (calc_display s)), snd (calc_values s)) \<and>
       (c = CHR ''/'' \<longrightarrow> bval (calc_display s) \<noteq> 0) \<and> calc_pending_op s' = None \<and> \<not> calc_has_digits s')"
proof -
  have a: "arena_ok (calc_heap s)" "num_ok (calc_acc s)" using assms(1) by (simp_all add: calc_inv_def)
  obtain r where r: "calc_do_op (calc_acc s) c (calc_display s) (calc_heap s) = Some r"
    "res_ok (in_use (calc_heap s)) r (\<lambda>n. (c = CHR ''/'' \<longrightarrow> bval (calc_display s) \<noteq> 0) \<and> bval n = apply_op c (bval (calc_acc s)) (bval (calc_display s)))"
    using do_op_ok [OF a(2) display_ok [OF assms(1)] a(1)] by blast
  note I = into_acc_ok [OF assms(1) r(2)]
  obtain ok s1 where s1: "into_acc r s = (ok, s1)" by fastforce
  have "press_equals s = Some (if ok then s1\<lparr>calc_pending_op := None, calc_has_digits := False\<rparr> else s1)"
    using assms(2) r(1) s1 by (simp add: press_equals_def)
  moreover have "calc_values (s1\<lparr>calc_pending_op := None, calc_has_digits := False\<rparr>) = calc_values s1" by (simp add: calc_values_def)
  ultimately show ?thesis using I unfolding s1 by (cases ok) auto
qed

lemma press_operator_ok:
  assumes "calc_inv s"
  shows "\<exists>s'. press_operator c s = Some s' \<and> calc_inv s' \<and>
    (calc_error s' \<and> calc_values s' = calc_values s \<or>
     calc_pending_op s' = Some c \<and> \<not> calc_has_digits s' \<and> calc_values s' =
       (if calc_has_digits s then (case calc_pending_op s of None \<Rightarrow> bval (calc_cur s)
          | Some p \<Rightarrow> apply_op p (bval (calc_acc s)) (bval (calc_cur s))) else bval (calc_acc s), 0, bval (calc_memory s)))"
proof -
  have a: "arena_ok (calc_heap s)" "num_ok (calc_acc s)" "num_ok (calc_cur s)" using assms by (simp_all add: calc_inv_def)
  let ?v = "if calc_has_digits s then (case calc_pending_op s of None \<Rightarrow> bval (calc_cur s)
          | Some p \<Rightarrow> apply_op p (bval (calc_acc s)) (bval (calc_cur s))) else bval (calc_acc s)"
  obtain ok s1 where s1: "(if \<not> calc_has_digits s then Some (True, s)
            else case calc_pending_op s of
              Some p \<Rightarrow> map_option (\<lambda>r. into_acc r s) (calc_do_op (calc_acc s) p (calc_cur s) (calc_heap s))
            | None \<Rightarrow> Some (into_acc (bignum_copy (calc_cur s) (calc_heap s)) s)) = Some (ok, s1)"
    "calc_inv s1" "if ok then calc_values s1 = (?v, snd (calc_values s)) else calc_error s1 \<and> calc_values s1 = calc_values s"
  proof (cases "calc_has_digits s")
    case False
    then show thesis using that [of True s] assms by (simp add: calc_values_def)
  next
    case True
    show thesis
    proof (cases "calc_pending_op s")
      case None
      note I = into_acc_ok [OF assms copy_ok [OF a(3,1)]]
      show thesis
        by (rule that [of "fst (into_acc (bignum_copy (calc_cur s) (calc_heap s)) s)" "snd (into_acc (bignum_copy (calc_cur s) (calc_heap s)) s)"])
          (use True None I in auto)
    next
      case (Some p)
      obtain r where r: "calc_do_op (calc_acc s) p (calc_cur s) (calc_heap s) = Some r"
        "res_ok (in_use (calc_heap s)) r (\<lambda>n. (p = CHR ''/'' \<longrightarrow> bval (calc_cur s) \<noteq> 0) \<and> bval n = apply_op p (bval (calc_acc s)) (bval (calc_cur s)))"
        using do_op_ok [OF a(2,3,1)] by blast
      note I = into_acc_ok [OF assms r(2)]
      show thesis
        by (rule that [of "fst (into_acc r s)" "snd (into_acc r s)"]) (use True Some I r(1) in auto)
    qed
  qed
  have e: "press_operator c s = Some (if ok then (reset_cur (s1\<lparr>calc_pending_op := Some c\<rparr>))\<lparr>calc_has_digits := False\<rparr> else s1)"
    unfolding press_operator_def s1(1) by simp
  have R: "calc_inv (reset_cur (s1\<lparr>calc_pending_op := Some c\<rparr>))"
    "calc_values (reset_cur (s1\<lparr>calc_pending_op := Some c\<rparr>)) = (bval (calc_acc s1), 0, bval (calc_memory s1))"
    using reset_ok(1,4) [of "s1\<lparr>calc_pending_op := Some c\<rparr>"] s1(2) by simp_all
  have "calc_pending_op (reset_cur (s1\<lparr>calc_pending_op := Some c\<rparr>)) = Some c" by (simp add: reset_cur_def split: prod.splits)
  moreover have "calc_values (t\<lparr>calc_has_digits := False\<rparr>) = calc_values t" for t by (simp add: calc_values_def)
  ultimately show ?thesis unfolding e using R s1(2,3) by (cases ok) (auto simp: calc_values_def)
qed

lemma digit_key: "CHR ''0'' \<le> key \<and> key \<le> CHR ''9'' \<Longrightarrow> 0 \<le> (of_char key :: int) - 48 \<and> (of_char key :: int) - 48 \<le> 9"
proof -
  assume "CHR ''0'' \<le> key \<and> key \<le> CHR ''9''"
  then have "48 \<le> (of_char key :: nat)" "(of_char key :: nat) \<le> 57" by (simp_all add: less_eq_char_def)
  then have "48 \<le> int (of_char key)" "int (of_char key) \<le> 57" by linarith+
  then show ?thesis unfolding of_nat_of_char by simp
qed

lemma calc_press_ok:
  assumes "calc_ok s"
  shows "\<exists>s'. calc_press key s = Some s' \<and> calc_inv s'"
proof -
  define t where "t = calc_init s"
  have t: "calc_inv t" using calc_init_ok [OF assms] by (simp add: t_def)
  then have a: "arena_ok (calc_heap t)" "num_ok (calc_memory t)" by (simp_all add: calc_inv_def)
  note d = display_ok [OF t]
  have sq: "\<exists>s'. map_option (\<lambda>r. into_display r t) (calc_sqrt (calc_display t) (calc_heap t)) = Some s' \<and> calc_inv s'"
    using calc_sqrt_ok [OF d a(1)] into_display_ok [OF t] by auto
  have mr: "calc_inv (snd (into_cur (bignum_copy (calc_memory t) (calc_heap t)) t))" by (rule into_cur_ok [OF t copy_ok [OF a(2,1)]])
  have mp: "calc_inv (snd (into_memory (bignum_add (calc_memory t) (calc_display t) (calc_heap t)) t))"
    "calc_inv (snd (into_memory (bignum_sub (calc_memory t) (calc_display t) (calc_heap t)) t))"
    by (rule into_memory_ok [OF t op_res [OF bignum_add_ok [OF a(2) d a(1) refl]]], rule into_memory_ok [OF t op_res [OF bignum_sub_ok [OF a(2) d a(1) refl]]])
  have eq: "\<exists>s'. press_equals t = Some s' \<and> calc_inv s'"
    using press_equals_ok [OF t] t by (cases "calc_pending_op t") (auto simp: press_equals_def)
  have op: "\<exists>s'. press_operator key t = Some s' \<and> calc_inv s'" using press_operator_ok [OF t] by blast
  show ?thesis
    unfolding calc_press_def Let_def t_def [symmetric]
    using press_digit_ok [OF t] digit_key [of key] reset_ok [OF t] reset_ok [of "reset_acc t"] t sq mr mp eq op press_percent_ok [OF t]
    by (auto split: prod.splits)
qed

end
