(* ===== verification/CalcSqrt.thy ===== *)
theory CalcSqrt
  imports CalcKeys
begin

section \<open>The calculator: the square root\<close>

text \<open>
  The iteration of \<^verbatim>\<open>calc_sqrt\<close> on rational numbers, cut off after twenty decimals in every step: sixty steps are
  enough for numbers between $10^{-30}$ and $10^{30}$, and too few from $10^{38}$ on.
\<close>

lemma trunc20_bounds:
  assumes "0 \<le> x"
  shows "0 \<le> trunc20 x" "trunc20 x \<le> x" "x - 1 / 10 ^ 20 < trunc20 x"
proof -
  define f where "f = \<lfloor>x * 10 ^ 20\<rfloor>"
  have f: "0 \<le> f" "of_int f \<le> x * 10 ^ 20" "x * 10 ^ 20 < of_int f + 1"
    using assms by (simp_all add: f_def) linarith
  have t: "trunc20 x = of_int f / 10 ^ 20" using assms by (simp add: trunc20_def f_def)
  show "0 \<le> trunc20 x" "trunc20 x \<le> x" "x - 1 / 10 ^ 20 < trunc20 x"
    unfolding t using f by (simp_all add: field_simps)
qed

lemma heron_bounds:
  assumes "0 < a" "0 < x"
  shows "heron a x \<le> (x + a / x) / 2" "(x + a / x) / 2 - 3 / 2 * (1 / 10 ^ 20) < heron a x"
proof -
  define q where "q = trunc20 (a / x)"
  have q: "0 \<le> q" "q \<le> a / x" "a / x - 1 / 10 ^ 20 < q" using trunc20_bounds [of "a / x"] assms by (simp_all add: q_def)
  have h: "heron a x \<le> (x + q) / 2" "(x + q) / 2 - 1 / 10 ^ 20 < heron a x"
    using trunc20_bounds [of "(x + q) / 2"] assms(2) q(1) unfolding heron_def q_def [symmetric] by simp_all
  show "heron a x \<le> (x + a / x) / 2" using h(1) q(2) by simp
  show "(x + a / x) / 2 - 3 / 2 * (1 / 10 ^ 20) < heron a x"
  proof -
    have "(x + y) / 2 - 3 / 2 * w < H" if "(x + q) / 2 - w < H" "y - w < q" for H y w :: rat using that by (simp add: field_simps)
    from this [OF h(2) q(3)] show ?thesis .
  qed
qed

subsection \<open>Convergence\<close>

text \<open>Newton's iteration with an error of at most \<open>3/2 u\<close> below in every step.\<close>

definition newton :: "real \<Rightarrow> real \<Rightarrow> (nat \<Rightarrow> real) \<Rightarrow> bool" where
  "newton r u x \<longleftrightarrow> 0 < r \<and> 0 < u \<and> 3 * u \<le> r \<and> x 0 = r\<^sup>2 + 1 \<and>
     (\<forall>k. 0 < x k \<longrightarrow> (x k + r\<^sup>2 / x k) / 2 - 3 / 2 * u \<le> x (Suc k) \<and> x (Suc k) \<le> (x k + r\<^sup>2 / x k) / 2)"

lemma mean_error: "0 < (x :: real) \<Longrightarrow> (x + r\<^sup>2 / x) / 2 - r = (x - r)\<^sup>2 / (2 * x)"
  by (simp add: field_simps power2_eq_square)

lemma newton_low:
  assumes "newton r u x"
  shows "r - 3 / 2 * u \<le> x k"
proof (induction k)
  case 0
  have "0 \<le> (r - 1 / 2)\<^sup>2" by simp
  then have "r \<le> r\<^sup>2 + 1" by (simp add: power2_eq_square algebra_simps)
  then show ?case using assms by (simp add: newton_def)
next
  case (Suc k)
  have N: "0 < r" "0 < u" "3 * u \<le> r" using assms by (simp_all add: newton_def)
  then have x: "0 < x k" using Suc by linarith
  have "0 \<le> (x k - r)\<^sup>2 / (2 * x k)" using x by simp
  then have "r \<le> (x k + r\<^sup>2 / x k) / 2" using mean_error [OF x, of r] by linarith
  moreover have "(x k + r\<^sup>2 / x k) / 2 - 3 / 2 * u \<le> x (Suc k)" using assms x by (simp add: newton_def)
  ultimately show ?case by linarith
qed

lemma newton_pos: "newton r u x \<Longrightarrow> r / 2 \<le> x k \<and> 0 < x k"
  using newton_low [of r u x k] by (auto simp: newton_def)

text \<open>Above the root the error at least halves, and squares relative to the root; below it the next error is tiny.\<close>

lemma newton_step:
  assumes "newton r u x"
  shows "x k - r \<le> 0 \<Longrightarrow> x (Suc k) - r \<le> 9 / 4 * u\<^sup>2 / r"
    "0 < x k - r \<Longrightarrow> x (Suc k) - r \<le> (x k - r) / 2"
    "0 < x k - r \<Longrightarrow> x (Suc k) - r \<le> (x k - r)\<^sup>2 / (2 * r)"
proof -
  have N: "0 < r" "0 < u" using assms by (simp_all add: newton_def)
  have x: "0 < x k" "r / 2 \<le> x k" using newton_pos [OF assms] by simp_all
  define e where "e = x k - r"
  have s: "x (Suc k) - r \<le> e\<^sup>2 / (2 * x k)"
  proof -
    have "x (Suc k) \<le> (x k + r\<^sup>2 / x k) / 2" using assms x(1) by (simp add: newton_def)
    then show ?thesis using mean_error [OF x(1), of r] unfolding e_def by linarith
  qed
  show "x (Suc k) - r \<le> 9 / 4 * u\<^sup>2 / r" if "x k - r \<le> 0"
  proof -
    have "\<bar>e\<bar> \<le> 3 / 2 * u" using newton_low [OF assms, of k] that by (simp add: e_def)
    then have "e\<^sup>2 \<le> (3 / 2 * u)\<^sup>2" using N(2) by (metis abs_le_square_iff abs_of_nonneg divide_nonneg_pos less_eq_real_def mult_nonneg_nonneg zero_le_numeral zero_less_numeral)
    then have "e\<^sup>2 \<le> 9 / 4 * u\<^sup>2" by (simp add: power2_eq_square)
    then have "e\<^sup>2 / (2 * x k) \<le> (9 / 4 * u\<^sup>2) / r" using x N(1) by (intro frac_le) auto
    then show ?thesis using s by linarith
  qed
  show "x (Suc k) - r \<le> (x k - r) / 2" if "0 < x k - r"
  proof -
    have "e\<^sup>2 / (2 * x k) \<le> e\<^sup>2 / (2 * e)" using that N(1) by (intro divide_left_mono) (auto simp: e_def)
    also have "0 < e" using that by (simp add: e_def)
    then have "e\<^sup>2 / (2 * e) = e / 2" by (simp add: power2_eq_square)
    finally show ?thesis using s by (simp add: e_def)
  qed
  show "x (Suc k) - r \<le> (x k - r)\<^sup>2 / (2 * r)" if "0 < x k - r"
  proof -
    have "e\<^sup>2 / (2 * x k) \<le> e\<^sup>2 / (2 * r)" using that N(1) x by (intro divide_left_mono) (auto simp: e_def)
    then show ?thesis using s by (simp add: e_def)
  qed
qed

lemma newton_phase1:
  assumes "newton r u x"
  shows "x k - r \<le> max ((r\<^sup>2 + 1) / 2 ^ k) (9 / 4 * u\<^sup>2 / r)"
proof (induction k)
  case 0
  have "x 0 - r \<le> (r\<^sup>2 + 1) / 2 ^ 0" using assms by (simp add: newton_def)
  then show ?case by (rule max.coboundedI1)
next
  case (Suc k)
  let ?t = "9 / 4 * u\<^sup>2 / r"
  have t: "0 \<le> ?t" using assms by (simp add: newton_def)
  show ?case
  proof (cases "0 < x k - r")
    case True
    have "(r\<^sup>2 + 1) / 2 ^ Suc k = (r\<^sup>2 + 1) / 2 ^ k / 2" by simp
    moreover have "max A t / 2 \<le> max B t" if "B = A / 2" "0 \<le> t" for A B t :: real using that by (auto simp: max_def)
    ultimately have "max ((r\<^sup>2 + 1) / 2 ^ k) ?t / 2 \<le> max ((r\<^sup>2 + 1) / 2 ^ Suc k) ?t" using t by blast
    moreover have "(x k - r) / 2 \<le> max ((r\<^sup>2 + 1) / 2 ^ k) ?t / 2" using Suc by (rule divide_right_mono) simp
    ultimately show ?thesis using newton_step(2) [OF assms True] by (meson order_trans)
  next
    case False
    then show ?thesis using newton_step(1) [OF assms, of k] by linarith
  qed
qed

lemma newton_phase2:
  assumes "newton r u x" "x n - r \<le> max r (9 / 4 * u\<^sup>2 / r)"
  shows "x (n + j) - r \<le> max (2 * r / 2 ^ (2 ^ j)) (9 / 4 * u\<^sup>2 / r)"
proof (induction j)
  case 0
  then show ?case using assms(2) by simp
next
  case (Suc j)
  let ?t = "9 / 4 * u\<^sup>2 / r"
  have r: "0 < r" using assms(1) by (simp add: newton_def)
  have t: "0 \<le> ?t" using r by simp
  define e where "e = x (n + j) - r"
  consider "e \<le> 0" | "0 < e" "e \<le> ?t" | "0 < e" "e \<le> 2 * r / 2 ^ (2 ^ j)" using Suc unfolding e_def by linarith
  then show ?case
  proof cases
    case 1
    then show ?thesis using newton_step(1) [OF assms(1), of "n + j"] by (simp add: e_def)
  next
    case 2
    then have "x (Suc (n + j)) - r \<le> e / 2" using newton_step(2) [OF assms(1), of "n + j"] by (simp add: e_def)
    also have "\<dots> \<le> ?t" using 2 by linarith
    finally show ?thesis by simp
  next
    case 3
    have "x (Suc (n + j)) - r \<le> e\<^sup>2 / (2 * r)" using newton_step(3) [OF assms(1), of "n + j"] 3(1) by (simp add: e_def)
    also have "\<dots> \<le> (2 * r / 2 ^ (2 ^ j))\<^sup>2 / (2 * r)" using 3 r by (intro divide_right_mono power_mono) auto
    also have "\<dots> = 2 * r / 2 ^ (2 ^ Suc j)"
    proof -
      have "(2 :: real) ^ (2 ^ Suc j) = 2 ^ (2 ^ j) * 2 ^ (2 ^ j)" by (simp add: power_add [symmetric] mult_2)
      then show ?thesis using r by (simp add: power2_eq_square field_simps)
    qed
    finally show ?thesis by simp
  qed
qed

text \<open>Fifty-two halvings and eight squarings.\<close>

lemma newton_60:
  assumes "newton r u x" "r \<le> 2 ^ 51" "1 / 2 ^ 51 \<le> r" "1 / 2 ^ 200 \<le> u" "u \<le> 1 / 2 ^ 66"
  shows "r - 3 / 2 * u \<le> x 60" "x 60 \<le> r + u"
proof -
  have r: "0 < r" using assms(1) by (simp add: newton_def)
  show "r - 3 / 2 * u \<le> x 60" by (rule newton_low [OF assms(1)])
  have "r\<^sup>2 \<le> 2 ^ 51 * r" using assms(2) r by (simp add: power2_eq_square)
  moreover have "1 \<le> 2 ^ 51 * r" using assms(3) by (simp add: field_simps)
  ultimately have "(r\<^sup>2 + 1) / 2 ^ 52 \<le> r" by simp
  then have "x 52 - r \<le> max r (9 / 4 * u\<^sup>2 / r)" using newton_phase1 [OF assms(1), of 52] by linarith
  from newton_phase2 [OF assms(1) this, of 8] have m: "x 60 - r \<le> max (2 * r / 2 ^ 256) (9 / 4 * u\<^sup>2 / r)" by simp
  have "2 * r / 2 ^ 256 \<le> u"
  proof -
    have "2 * r / 2 ^ 256 \<le> 2 * 2 ^ 51 / (2 ^ 256 :: real)" using assms(2) by (intro divide_right_mono) auto
    also have "\<dots> \<le> 1 / 2 ^ 200" by simp
    finally show ?thesis using assms(4) by linarith
  qed
  moreover have "9 / 4 * u\<^sup>2 / r \<le> u"
  proof -
    have "0 < u" using assms(1) by (simp add: newton_def)
    have "9 / 4 * u \<le> 9 / 4 * (1 / 2 ^ 66)" using assms(5) by simp
    also have "\<dots> \<le> 1 / (2 ^ 51 :: real)" by simp
    also have "\<dots> \<le> r" by (rule assms(3))
    finally have "9 / 4 * u * u \<le> r * u" using \<open>0 < u\<close> by (intro mult_right_mono) auto
    then show ?thesis using r by (simp add: power2_eq_square field_simps)
  qed
  ultimately show "x 60 \<le> r + u" using m by linarith
qed

subsection \<open>The calculator's sequence\<close>

lemma sqrt_dyadic:
  fixes a :: rat
  assumes "1 / 10 ^ 30 \<le> a" "a \<le> 10 ^ 30"
  shows "1 / 2 ^ 51 \<le> sqrt (of_rat a)" "sqrt (of_rat a) \<le> 2 ^ 51"
proof -
  have "1 / 2 ^ 102 \<le> a" "a \<le> 2 ^ 102" using assms by (simp_all add: field_simps)
  then have a: "(of_rat (1 / 2 ^ 102) :: real) \<le> of_rat a" "(of_rat a :: real) \<le> of_rat (2 ^ 102)" by (simp_all only: of_rat_less_eq)
  have b: "(1 / 2 ^ 51)\<^sup>2 \<le> (of_rat a :: real)" "(of_rat a :: real) \<le> (2 ^ 51)\<^sup>2"
    using a by (simp_all add: of_rat_divide of_rat_power power2_eq_square)
  show "1 / 2 ^ 51 \<le> sqrt (of_rat a)" by (rule real_le_rsqrt [OF b(1)])
  show "sqrt (of_rat a) \<le> 2 ^ 51" by (rule real_le_lsqrt [OF _ b(2)]) simp_all
qed

lemma heron_newton:
  fixes a :: rat
  assumes "1 / 10 ^ 30 \<le> a"
  shows "newton (sqrt (of_rat a)) (1 / 10 ^ 20) (\<lambda>k. of_rat ((heron a ^^ k) (a + 1)))"
proof -
  define r where "r = sqrt (of_rat a)"
  have a0: "0 < a" using assms by (rule less_le_trans [rotated]) simp
  then have r0: "0 < r" "r\<^sup>2 = of_rat a" by (simp_all add: r_def)
  have "(3 * (1 / 10 ^ 20))\<^sup>2 \<le> (1 / 10 ^ 30 :: rat)" by (simp add: power2_eq_square)
  then have "(3 * (1 / 10 ^ 20))\<^sup>2 \<le> a" using assms by linarith
  then have "(of_rat ((3 * (1 / 10 ^ 20))\<^sup>2) :: real) \<le> of_rat a" by (simp only: of_rat_less_eq)
  then have "(3 * (1 / 10 ^ 20))\<^sup>2 \<le> (of_rat a :: real)" by (simp add: of_rat_power of_rat_mult of_rat_divide)
  then have small: "3 * (1 / 10 ^ 20) \<le> r" unfolding r_def by (rule real_le_rsqrt)
  have step: "(of_rat x + r\<^sup>2 / of_rat x) / 2 - 3 / 2 * (1 / 10 ^ 20) \<le> (of_rat (heron a x) :: real) \<and>
      (of_rat (heron a x) :: real) \<le> (of_rat x + r\<^sup>2 / of_rat x) / 2" if "0 < x" for x
  proof -
    have "(of_rat ((x + a / x) / 2 - 3 / 2 * (1 / 10 ^ 20)) :: real) \<le> of_rat (heron a x)" "(of_rat (heron a x) :: real) \<le> of_rat ((x + a / x) / 2)"
      using heron_bounds [OF a0 that] by (simp_all only: of_rat_less_eq less_imp_le)
    then show ?thesis by (simp add: r0(2) of_rat_add of_rat_diff of_rat_divide of_rat_mult)
  qed
  show ?thesis unfolding newton_def r_def [symmetric]
    using r0 small step by (simp add: of_rat_add)
qed

lemma sqrt_converges:
  assumes "1 / 10 ^ 30 \<le> a" "a \<le> 10 ^ 30"
  shows "\<bar>of_rat ((heron a ^^ 60) (a + 1)) - sqrt (of_rat a)\<bar> \<le> 2 / 10 ^ 20"
proof -
  have "(1 :: real) / 2 ^ 200 \<le> 1 / 10 ^ 20" "(1 :: real) / 10 ^ 20 \<le> 1 / 2 ^ 66" by simp_all
  note n = newton_60 [OF heron_newton [OF assms(1)] sqrt_dyadic(2,1) [OF assms] this]
  have "\<bar>y - r\<bar> \<le> 2 * u" if "r - 3 / 2 * u \<le> y" "y \<le> r + u" "0 \<le> u" for y r u :: real using that by (simp add: abs_le_iff)
  from this [OF n] show ?thesis by simp
qed

lemma iterates_small_ok:
  assumes "1 / 10 ^ 30 \<le> a" "a \<le> 10 ^ 30"
  shows "iterates_small 60 a (a + 1)"
proof -
  define r where "r = sqrt (of_rat a)"
  define x where "x k = (of_rat ((heron a ^^ k) (a + 1)) :: real)" for k
  have N: "newton r (1 / 10 ^ 20) x" using heron_newton [OF assms(1)] unfolding r_def x_def .
  have r: "1 / 2 ^ 51 \<le> r" "r \<le> 2 ^ 51" using sqrt_dyadic [OF assms] by (simp_all add: r_def)
  have "r\<^sup>2 \<le> (2 ^ 51)\<^sup>2" using r N by (intro power_mono) (auto simp: newton_def)
  then have r2: "r\<^sup>2 + 1 \<le> 10 ^ 31" by simp
  have t: "9 / 4 * (1 / 10 ^ 20)\<^sup>2 / r \<le> 1"
  proof -
    have "9 / 4 * (1 / 10 ^ 20)\<^sup>2 \<le> (1 / 2 ^ 51 :: real)" by (simp add: power2_eq_square)
    then have "9 / 4 * (1 / 10 ^ 20)\<^sup>2 \<le> r" using r(1) by (rule order_trans)
    then show ?thesis using N by (simp add: newton_def)
  qed
  have up: "x k < 10 ^ 60" for k
  proof -
    have q: "q / 2 ^ k \<le> q" if "0 \<le> q" for q :: real using that by (simp add: divide_le_eq mult_le_cancel_left1 not_less)
    have "(r\<^sup>2 + 1) / 2 ^ k \<le> r\<^sup>2 + 1" by (rule q) simp
    then have "max ((r\<^sup>2 + 1) / 2 ^ k) (9 / 4 * (1 / 10 ^ 20)\<^sup>2 / r) \<le> 10 ^ 31" using r2 t by simp
    then have "x k - r \<le> 10 ^ 31" using newton_phase1 [OF N, of k] by (rule order_trans [rotated])
    then have "x k \<le> 10 ^ 31 + 2 ^ 51" using r(2) by simp
    also have "\<dots> < (10 ^ 60 :: real)" by simp
    finally show ?thesis .
  qed
  have "(of_rat ((heron a ^^ k) (a + 1)) :: real) < of_rat (10 ^ 60)" "(of_rat 0 :: real) < of_rat ((heron a ^^ k) (a + 1))" for k
    using up [of k] newton_pos [OF N, of k] by (simp_all add: x_def of_rat_power)
  then have "(heron a ^^ k) (a + 1) < 10 ^ 60" "0 < (heron a ^^ k) (a + 1)" for k by (simp_all only: of_rat_less)
  then show ?thesis unfolding iterates_small_def by (meson less_imp_le)
qed

text \<open>From a large number every step at best halves, and never grows beyond the start.\<close>

lemma large_iterates:
  assumes "10 ^ 38 \<le> a" "k \<le> 60"
  shows "1 \<le> (heron a ^^ k) (a + 1)" "(a + 1) / 2 ^ k - 3 / 10 ^ 20 \<le> (heron a ^^ k) (a + 1)" "(heron a ^^ k) (a + 1) \<le> a + 1"
proof -
  have a0: "0 < a" using assms(1) by (rule less_le_trans [rotated]) simp
  have all: "1 \<le> (heron a ^^ k) (a + 1) \<and> (a + 1) / 2 ^ k - 3 / 10 ^ 20 \<le> (heron a ^^ k) (a + 1) \<and> (heron a ^^ k) (a + 1) \<le> a + 1"
    using assms(2)
  proof (induction k)
    case 0
    then show ?case using a0 by simp
  next
    case (Suc k)
    define x where "x = (heron a ^^ k) (a + 1)"
    have x: "1 \<le> x" "(a + 1) / 2 ^ k - 3 / 10 ^ 20 \<le> x" "x \<le> a + 1" using Suc by (simp_all add: x_def)
    have x0: "0 < x" using x(1) by simp
    have "x / 2 - 3 / 2 * (1 / 10 ^ 20) < heron a x"
    proof -
      have g: "x / 2 - w < H" if "(x + y) / 2 - w < H" "0 \<le> y" for y w H :: rat using that by (simp add: field_simps)
      show ?thesis by (rule g [OF heron_bounds(2) [OF a0 x0]]) (use a0 x0 in simp)
    qed
    moreover have "P / 2 - 3 * w \<le> H" if "x / 2 - 3 / 2 * w < H" "P - 3 * w \<le> x" "0 \<le> w" for P w H :: rat using that by (simp add: field_simps)
    ultimately have "(a + 1) / 2 ^ k / 2 - 3 * (1 / 10 ^ 20) \<le> heron a x" using x(2) by simp
    then have l: "(a + 1) / 2 ^ Suc k - 3 / 10 ^ 20 \<le> heron a x" by simp
    have "(2 :: rat) ^ Suc k \<le> 2 ^ 60" using Suc.prems by (intro power_increasing) auto
    then have "(a + 1) / 2 ^ 60 \<le> (a + 1) / 2 ^ Suc k" using a0 by (intro divide_left_mono) auto
    moreover have "2 \<le> (a + 1) / 2 ^ 60" using assms by simp
    ultimately have "2 \<le> (a + 1) / 2 ^ Suc k" by (rule order_trans [rotated])
    moreover have "1 \<le> H" if "2 \<le> P" "P - 3 / 10 ^ 20 \<le> H" for P H :: rat using that by simp
    ultimately have one: "1 \<le> heron a x" using l by blast
    have "a / x \<le> a" using x(1) a0 by (simp add: divide_le_eq)
    then have "(x + a / x) / 2 \<le> a + 1" using x(3) by simp
    then have "heron a x \<le> a + 1" using heron_bounds(1) [OF a0 x0] by (rule order_trans [rotated])
    then show ?case using l one by (simp add: x_def)
  qed
  then show "1 \<le> (heron a ^^ k) (a + 1)" "(a + 1) / 2 ^ k - 3 / 10 ^ 20 \<le> (heron a ^^ k) (a + 1)" "(heron a ^^ k) (a + 1) \<le> a + 1"
    by simp_all
qed

lemma sqrt_too_slow:
  assumes "10 ^ 38 \<le> a"
  shows "4 * a \<le> ((heron a ^^ 60) (a + 1))\<^sup>2"
proof -
  have a0: "0 < a" using assms by (rule less_le_trans [rotated]) simp
  let ?v = "(heron a ^^ 60) (a + 1)"
  have "(a + 1) / 2 ^ 60 - 3 / 10 ^ 20 \<le> ?v" using large_iterates(2) [OF assms, of 60] by simp
  moreover have "a / 2 ^ 60 \<le> (a + 1) / 2 ^ 60 - 3 / 10 ^ 20" by (simp add: field_simps)
  ultimately have "a / 2 ^ 60 \<le> ?v" by linarith
  then have "(a / 2 ^ 60)\<^sup>2 \<le> ?v\<^sup>2" using a0 by (intro power_mono) auto
  moreover have "4 * a \<le> (a / 2 ^ 60)\<^sup>2"
  proof -
    have "4 * 2 ^ 120 \<le> a" using assms by simp
    then have "4 * 2 ^ 120 * a \<le> a * a" using a0 by (intro mult_right_mono) auto
    then show ?thesis by (simp add: power2_eq_square field_simps)
  qed
  ultimately show ?thesis by linarith
qed

lemma large_iterates_small:
  assumes "10 ^ 38 \<le> a" "a < 10 ^ 59"
  shows "iterates_small 60 a (a + 1)"
proof -
  have "0 < (heron a ^^ k) (a + 1) \<and> (heron a ^^ k) (a + 1) < 10 ^ 60" if "k \<le> 60" for k
    using large_iterates(1,3) [OF assms(1) that] assms(2) by simp
  then show ?thesis unfolding iterates_small_def by (metis Suc_leI less_imp_le)
qed

end
