(* ===== verification/CalcExpr.thy ===== *)
theory CalcExpr
  imports CalcSqrt
begin

section \<open>The calculator: whole sequences of keys\<close>

text \<open>
  What a user types: a number, operators and numbers in turn, and the equals key. The calculator works from left to
  right without precedence. The room the heap must have is followed along: one key costs at most 9050 bytes of the
  largest free block as long as the numbers have at most 2200 digits, and a hundred keys fit in the arena.
\<close>

text \<open>The state before the first key, as the loader leaves it.\<close>

definition calc_fresh :: calc where
  "calc_fresh = (let none = \<lparr>bptr = 0, bdigits = [], bscale = 0, bneg = False\<rparr> in
     \<lparr>calc_heap = [], calc_acc = none, calc_cur = none, calc_memory = none, calc_has_digits = False, calc_pending_op = None,
      calc_error = False, calc_inited = False\<rparr>)"

primrec calc_keys :: "string \<Rightarrow> calc \<Rightarrow> calc option" where
  "calc_keys [] s = Some s"
| "calc_keys (k # ks) s = (case calc_press k s of None \<Rightarrow> None | Some t \<Rightarrow> calc_keys ks t)"

lemma calc_keys_append:
  "calc_keys (xs @ ys) s = (case calc_keys xs s of None \<Rightarrow> None | Some t \<Rightarrow> calc_keys ys t)"
  by (induction xs arbitrary: s) (auto split: option.splits)

lemma calc_fresh_ok: "calc_ok calc_fresh"
  by (simp add: calc_ok_def calc_fresh_def Let_def)

lemma calc_inv_inited: "calc_inv s \<Longrightarrow> calc_inited s"
  by (simp add: calc_inv_def)

lemma calc_inv_ok: "calc_inv s \<Longrightarrow> calc_ok s"
  by (simp add: calc_ok_def calc_inv_inited)

lemma calc_init_done [simp]: "calc_inited s \<Longrightarrow> calc_init s = s"
  by (simp add: calc_init_def)

subsection \<open>An operator with enough room\<close>

lemma op_room:
  assumes "num_ok a" "num_ok b" "arena_ok h" "T = length (bdigits a) + length (bdigits b)" "c \<in> set ''+-*/''"
    "c = CHR ''/'' \<Longrightarrow> bval b \<noteq> 0"
  shows "\<exists>r. calc_do_op a c b h = Some r \<and>
    op_ok (4 * (T + 48)) h r (\<lambda>n. bval n = apply_op c (bval a) (bval b) \<and> length (bdigits n) \<le> T + 20)"
proof -
  consider "c = CHR ''+''" | "c = CHR ''-''" | "c = CHR ''*''" | "c = CHR ''/''" using assms(5) by auto
  then show ?thesis
  proof cases
    case 1
    then show ?thesis using op_ok_mono [OF bignum_add_ok [OF assms(1-4)]] by (simp add: calc_do_op_def)
  next
    case 2
    then show ?thesis using op_ok_mono [OF bignum_sub_ok [OF assms(1-4)]] by (simp add: calc_do_op_def)
  next
    case 3
    then show ?thesis using op_ok_mono [OF bignum_mul_ok [OF assms(1-4)]] by (simp add: calc_do_op_def)
  next
    case 4
    obtain r where "bignum_div a b h = Some r" "op_ok (4 * (T + 48)) h r
        (\<lambda>n. bval n = trunc20 (bval a / bval b) \<and> bscale n = 20 \<and> length (bdigits n) \<le> T + 20)"
      using bignum_div_ok [OF assms(1-4) assms(6) [OF 4]] by blast
    then show ?thesis using 4 op_ok_mono [of _ h r _ "4 * (T + 48)"] by (auto simp: calc_do_op_def)
  qed
qed

text \<open>The same, with the result taken.\<close>

lemma op_succeeds:
  assumes "num_ok a" "num_ok b" "arena_ok h" "T = length (bdigits a) + length (bdigits b)" "c \<in> set ''+-*/''"
    "c = CHR ''/'' \<Longrightarrow> bval b \<noteq> 0" "roomy S h" "4 * (T + 48) \<le> S"
  obtains n h' where "calc_do_op a c b h = Some (Inr n, h')" "num_ok n" "bval n = apply_op c (bval a) (bval b)"
    "length (bdigits n) \<le> T + 20" "arena_ok h'" "bptr n \<noteq> 0" "bptr n \<notin> in_use h" "in_use h' = insert (bptr n) (in_use h)"
    "roomy (S - 4 * (T + 48)) h'"
proof -
  obtain r where r: "calc_do_op a c b h = Some r"
    "op_ok (4 * (T + 48)) h r (\<lambda>n. bval n = apply_op c (bval a) (bval b) \<and> length (bdigits n) \<le> T + 20)"
    using op_room [OF assms(1-6)] by blast
  have room: "roomy (4 * (T + 48)) h" using assms(7,8) by (rule roomy_mono)
  obtain d h' where p: "r = (d, h')" by (cases r)
  have "roomy (S - 4 * (T + 48)) h'" using r(2) assms(7,8) by (auto simp: op_ok_def p)
  then show thesis using r room that p by (cases d) (auto simp: op_ok_def)
qed

subsection \<open>Entering an expression\<close>

text \<open>After \<open>k\<close> keys: \<open>c\<close> is the pending operator, \<open>v\<close> the value so far and \<open>w\<close> the number being typed.\<close>

definition entering :: "nat \<Rightarrow> char option \<Rightarrow> rat \<Rightarrow> rat \<Rightarrow> calc \<Rightarrow> bool" where
  "entering k c v w s \<longleftrightarrow> calc_inv s \<and> \<not> calc_error s \<and> calc_pending_op s = c \<and> bval (calc_acc s) = v \<and> bval (calc_cur s) = w \<and>
     bscale (calc_cur s) = 0 \<and> \<not> bneg (calc_cur s) \<and> length (bdigits (calc_acc s)) + length (bdigits (calc_cur s)) \<le> 22 * k + 2 \<and>
     roomy (1048500 - 9050 * k) (calc_heap s)"

definition digit_char :: "int \<Rightarrow> char" where
  "digit_char d = char_of (48 + nat d)"

lemma digit_char_code: "0 \<le> d \<Longrightarrow> d \<le> 9 \<Longrightarrow> (of_char (digit_char d) :: nat) = 48 + nat d"
  by (simp add: digit_char_def)

lemma digit_char_key:
  assumes "0 \<le> d" "d \<le> 9"
  shows "CHR ''0'' \<le> digit_char d \<and> digit_char d \<le> CHR ''9''" "(of_char (digit_char d) :: int) - 48 = d"
proof -
  note c = digit_char_code [OF assms]
  show "CHR ''0'' \<le> digit_char d \<and> digit_char d \<le> CHR ''9''" using assms by (simp add: less_eq_char_def c)
  have "(of_char (digit_char d) :: int) = int (of_char (digit_char d))" by (simp only: of_nat_of_char)
  then show "(of_char (digit_char d) :: int) - 48 = d" using assms by (simp add: c)
qed

lemma digit_char_eq:
  "digit_char 0 = CHR ''0''" "digit_char 1 = CHR ''1''" "digit_char 2 = CHR ''2''" "digit_char 3 = CHR ''3''" "digit_char 4 = CHR ''4''"
  "digit_char 5 = CHR ''5''" "digit_char 6 = CHR ''6''" "digit_char 7 = CHR ''7''" "digit_char 8 = CHR ''8''" "digit_char 9 = CHR ''9''"
proof -
  have g: "(of_char c :: nat) = 48 + nat d \<Longrightarrow> digit_char d = c" for c d by (metis digit_char_def char_of_char)
  show "digit_char 0 = CHR ''0''" "digit_char 1 = CHR ''1''" "digit_char 2 = CHR ''2''" "digit_char 3 = CHR ''3''" "digit_char 4 = CHR ''4''"
    "digit_char 5 = CHR ''5''" "digit_char 6 = CHR ''6''" "digit_char 7 = CHR ''7''" "digit_char 8 = CHR ''8''" "digit_char 9 = CHR ''9''"
    by (rule g, simp)+
qed

lemma entering_start: "entering 0 None 0 0 (calc_init calc_fresh)"
proof -
  have "calc_inv (calc_init calc_fresh)" by (rule calc_init_ok [OF calc_fresh_ok])
  then show ?thesis
    by (simp add: entering_def calc_init_def calc_fresh_def bignum_from_digit_def calc_malloc_def calc_heap_init_def calc_size_def Let_def
        roomy_def bval_def)
qed

lemma entering_digit:
  assumes "entering k c v w s" "k < 100" "0 \<le> d" "d \<le> 9"
  shows "\<exists>s'. calc_press (digit_char d) s = Some s' \<and> entering (Suc k) c v (w * 10 + of_int d) s' \<and> calc_has_digits s'"
proof -
  let ?cur = "calc_cur s"
  have e: "calc_inv s" "\<not> calc_error s" "bscale ?cur = 0" "\<not> bneg ?cur" "arena_ok (calc_heap s)" "num_ok ?cur"
    "length (bdigits (calc_acc s)) + length (bdigits ?cur) \<le> 22 * k + 2" "roomy (1048500 - 9050 * k) (calc_heap s)"
    using assms(1) by (simp_all add: entering_def calc_inv_def)
  have press: "calc_press (digit_char d) s = Some (press_digit d s)"
    using digit_char_key [OF assms(3,4)] calc_inv_inited [OF e(1)] by (simp add: calc_press_def)
  obtain p h where m: "calc_malloc (length (bdigits ?cur) + 1) (calc_heap s) = (p, h)" by fastforce
  have le: "length (bdigits ?cur) + 1 \<le> 2203" "2203 + 24 \<le> 1048500 - 9050 * k" using e(7) assms(2) by linarith+
  note r = calc_malloc_roomy [OF e(5) m le(1) e(8) le(2)]
  have "roomy (1048500 - 9050 * Suc k) (calc_free (bptr ?cur) h)"
    by (rule roomy_mono [OF calc_free_room [OF r(2)]]) (use assms(2) in simp)
  moreover have "press_digit d s = s\<lparr>calc_heap := calc_free (bptr ?cur) h,
      calc_cur := ?cur\<lparr>bptr := p, bdigits := (if length (bdigits ?cur @ [d]) = 2 \<and> hd (bdigits ?cur @ [d]) = 0 then [d] else bdigits ?cur @ [d])\<rparr>,
      calc_has_digits := True\<rparr>"
    using e(2) m r(1) by (simp add: press_digit_def Let_def)
  moreover have "bval (?cur\<lparr>bptr := p, bdigits := (if length (bdigits ?cur @ [d]) = 2 \<and> hd (bdigits ?cur @ [d]) = 0 then [d] else bdigits ?cur @ [d])\<rparr>) = w * 10 + of_int d"
  proof -
    have w: "w = of_int (dval (bdigits ?cur))" using assms(1) by (auto simp: entering_def bval_def)
    show ?thesis unfolding w using e(3,4) by (cases "bdigits ?cur") (auto simp: bval_def)
  qed
  moreover have "calc_inv (press_digit d s)" by (rule press_digit_ok [OF e(1) assms(3,4)])
  ultimately show ?thesis unfolding press using assms(1) by (auto simp: entering_def)
qed

lemma entering_digits:
  assumes "digit_list ds" "k + length ds \<le> 100" "entering k c v w s"
  shows "\<exists>s'. calc_keys (map digit_char ds) s = Some s' \<and> entering (k + length ds) c v (w * 10 ^ length ds + of_int (dval ds)) s' \<and>
    (ds \<noteq> [] \<longrightarrow> calc_has_digits s')"
  using assms
proof (induction ds arbitrary: k w s)
  case (Cons d ds)
  obtain s1 where s1: "calc_press (digit_char d) s = Some s1" "entering (Suc k) c v (w * 10 + of_int d) s1" "calc_has_digits s1"
    using entering_digit [OF Cons.prems(3)] Cons.prems(1,2) by auto
  have "Suc k + length ds \<le> 100" "digit_list ds" using Cons.prems by simp_all
  from Cons.IH [OF this(2,1) s1(2)] obtain s2 where "calc_keys (map digit_char ds) s1 = Some s2"
    "entering (Suc k + length ds) c v ((w * 10 + of_int d) * 10 ^ length ds + of_int (dval ds)) s2" "ds \<noteq> [] \<longrightarrow> calc_has_digits s2" by blast
  then show ?case using s1 by (cases ds) (auto simp: algebra_simps)
qed simp

subsection \<open>Operators and the equals key\<close>

text \<open>The entry starts again at zero.\<close>

lemma reset_cur_entering:
  assumes "calc_inv s" "\<not> calc_error s" "roomy S (calc_heap s)" "25 \<le> S"
  shows "bdigits (calc_cur (reset_cur s)) = [0] \<and> bscale (calc_cur (reset_cur s)) = 0 \<and> \<not> bneg (calc_cur (reset_cur s)) \<and>
    calc_acc (reset_cur s) = calc_acc s \<and> calc_pending_op (reset_cur s) = calc_pending_op s \<and> \<not> calc_error (reset_cur s) \<and>
    calc_inv (reset_cur s) \<and> roomy (S - 25) (calc_heap (reset_cur s))"
proof -
  obtain n h where n: "bignum_from_digit 0 (bignum_free (calc_cur s) (calc_heap s)) = (n, h)" by fastforce
  have a: "arena_ok (bignum_free (calc_cur s) (calc_heap s))"
    using assms(1) calc_free_ok [of "calc_heap s" "bptr (calc_cur s)"] by (simp add: calc_inv_def bignum_free_def)
  have "roomy S (bignum_free (calc_cur s) (calc_heap s))" using calc_free_room [OF assms(3)] by (simp add: bignum_free_def)
  note r = digit_room [OF a n this assms(4)]
  have "n = \<lparr>bptr = bptr n, bdigits = [0], bscale = 0, bneg = False\<rparr>" using n by (auto simp: bignum_from_digit_def split: prod.splits)
  then have "bdigits n = [0] \<and> bscale n = 0 \<and> \<not> bneg n" by (metis bignum.select_convs(2-4))
  then show ?thesis using r(2) reset_ok(1) [OF assms(1)] assms(2) n by (simp add: reset_cur_def)
qed

lemma digits_not_operator:
  assumes "c \<in> set ''+-*/''" "calc_inited s" "\<not> calc_error s"
  shows "calc_press c s = press_operator c s"
proof -
  have "\<not> (CHR ''0'' \<le> c \<and> c \<le> CHR ''9'') \<and> c \<notin> set ''Cpnrk%s=''" using assms(1) by (auto simp: less_eq_char_def)
  then show ?thesis using assms(2,3) unfolding calc_press_def Let_def by (simp del: de_Morgan_conj)
qed

text \<open>The value an operator key moves into the accumulator.\<close>

definition next_acc :: "calc \<Rightarrow> bignum calc_res option" where
  "next_acc s = (case calc_pending_op s of
       None \<Rightarrow> Some (bignum_copy (calc_cur s) (calc_heap s))
     | Some p \<Rightarrow> calc_do_op (calc_acc s) p (calc_cur s) (calc_heap s))"

lemma next_acc_room:
  assumes "entering k c v w s" "k < 100" "\<And>p. c = Some p \<Longrightarrow> p \<in> set ''+-*/'' \<and> (p = CHR ''/'' \<longrightarrow> w \<noteq> 0)"
  obtains n h' where "next_acc s = Some (Inr n, h')" "bval n = (case c of None \<Rightarrow> w | Some p \<Rightarrow> apply_op p v w)"
    "length (bdigits n) \<le> 22 * k + 22" "roomy (1048500 - 9050 * k - 9000) h'" "res_ok (in_use (calc_heap s)) (Inr n, h') (\<lambda>n. True)"
proof -
  let ?acc = "calc_acc s" and ?cur = "calc_cur s"
  define T where "T = length (bdigits ?acc) + length (bdigits ?cur)"
  have e: "calc_pending_op s = c" "arena_ok (calc_heap s)" "num_ok ?cur" "num_ok ?acc" "T \<le> 22 * k + 2"
    "roomy (1048500 - 9050 * k) (calc_heap s)" "bval ?acc = v" "bval ?cur = w"
    using assms(1) by (simp_all add: entering_def calc_inv_def T_def)
  have cost: "4 * (T + 48) \<le> 9000" using e(5) assms(2) by simp
  have room: "4 * (T + 48) \<le> 1048500 - 9050 * k" using cost assms(2) by simp
  show thesis
  proof (cases c)
    case (Some p)
    have p: "p \<in> set ''+-*/''" "p = CHR ''/'' \<Longrightarrow> bval ?cur \<noteq> 0" using assms(3) [OF Some] e(8) by auto
    show thesis
    proof (rule op_succeeds [OF e(4,3,2) T_def p e(6) room])
      fix n h' assume n: "calc_do_op ?acc p ?cur (calc_heap s) = Some (Inr n, h')" "num_ok n" "bval n = apply_op p (bval ?acc) (bval ?cur)"
        "length (bdigits n) \<le> T + 20" "arena_ok h'" "bptr n \<noteq> 0" "bptr n \<notin> in_use (calc_heap s)"
        "in_use h' = insert (bptr n) (in_use (calc_heap s))" "roomy (1048500 - 9050 * k - 4 * (T + 48)) h'"
      have "roomy (1048500 - 9050 * k - 9000) h'" by (rule roomy_mono [OF n(9)]) (use cost in simp)
      moreover have "length (bdigits n) \<le> 22 * k + 22" using n(4) e(5) by simp
      ultimately show thesis using that [of n h'] Some e(1,7,8) n by (simp add: next_acc_def res_ok_def)
    qed
  next
    case None
    obtain p h where m: "calc_malloc (length (bdigits ?cur)) (calc_heap s) = (p, h)" by fastforce
    have le: "length (bdigits ?cur) \<le> 2202" "2202 + 24 \<le> 1048500 - 9050 * k" using e(5) assms(2) by (simp_all add: T_def)
    note r = calc_malloc_roomy [OF e(2) m le(1) e(6) le(2)]
    have "roomy (1048500 - 9050 * k - 9000) h" by (rule roomy_mono [OF r(2)]) simp
    moreover have c: "bignum_copy ?cur (calc_heap s) = (Inr (?cur\<lparr>bptr := p\<rparr>), h)" using m r(1) by (simp add: bignum_copy_def)
    moreover have "res_ok (in_use (calc_heap s)) (Inr (?cur\<lparr>bptr := p\<rparr>), h) (\<lambda>n. True)"
      using copy_ok [OF e(3,2)] unfolding c by (rule res_weaken) simp
    moreover have "length (bdigits ?cur) \<le> 22 * k + 22" using e(5) by (simp add: T_def)
    ultimately show thesis using that [of "?cur\<lparr>bptr := p\<rparr>" h] None e(1,8) by (simp add: next_acc_def bval_def)
  qed
qed

lemma entering_operator:
  assumes "entering k c v w s" "calc_has_digits s" "k < 100" "q \<in> set ''+-*/''"
    "\<And>p. c = Some p \<Longrightarrow> p \<in> set ''+-*/'' \<and> (p = CHR ''/'' \<longrightarrow> w \<noteq> 0)"
  shows "\<exists>s'. calc_press q s = Some s' \<and> entering (Suc k) (Some q) (case c of None \<Rightarrow> w | Some p \<Rightarrow> apply_op p v w) 0 s'"
proof -
  obtain n h' where n: "next_acc s = Some (Inr n, h')" "bval n = (case c of None \<Rightarrow> w | Some p \<Rightarrow> apply_op p v w)"
    "length (bdigits n) \<le> 22 * k + 22" "roomy (1048500 - 9050 * k - 9000) h'" "res_ok (in_use (calc_heap s)) (Inr n, h') (\<lambda>n. True)"
    by (rule next_acc_room [OF assms(1,3,5)])
  have e: "calc_inv s" "\<not> calc_error s" using assms(1) by (simp_all add: entering_def)
  define s1 where "s1 = s\<lparr>calc_heap := bignum_free (calc_acc s) h', calc_acc := n, calc_pending_op := Some q\<rparr>"
  have i: "into_acc (Inr n, h') s = (True, s\<lparr>calc_heap := bignum_free (calc_acc s) h', calc_acc := n\<rparr>)" by (simp add: into_acc_def)
  have s1: "calc_inv s1" "\<not> calc_error s1" using into_acc_ok(1) [OF e(1) n(5)] e(2) by (simp_all add: i s1_def)
  have "roomy (1048500 - 9050 * k - 9000) (calc_heap s1)" using calc_free_room [OF n(4)] by (simp add: s1_def bignum_free_def)
  moreover have "25 \<le> 1048500 - 9050 * k - 9000" using assms(3) by simp
  ultimately have R: "bdigits (calc_cur (reset_cur s1)) = [0] \<and> bscale (calc_cur (reset_cur s1)) = 0 \<and> \<not> bneg (calc_cur (reset_cur s1)) \<and>
    calc_acc (reset_cur s1) = calc_acc s1 \<and> calc_pending_op (reset_cur s1) = calc_pending_op s1 \<and> \<not> calc_error (reset_cur s1) \<and>
    calc_inv (reset_cur s1) \<and> roomy (1048500 - 9050 * k - 9000 - 25) (calc_heap (reset_cur s1))"
    by (rule reset_cur_entering [OF s1])
  have "press_operator q s = Some ((reset_cur s1)\<lparr>calc_has_digits := False\<rparr>)"
    using n(1) assms(2) i by (auto simp: press_operator_def next_acc_def s1_def split: option.splits)
  then have "calc_press q s = Some ((reset_cur s1)\<lparr>calc_has_digits := False\<rparr>)"
    using digits_not_operator [OF assms(4) calc_inv_inited [OF e(1)] e(2)] by simp
  moreover have "roomy (1048500 - 9050 * Suc k) (calc_heap (reset_cur s1))"
    by (rule roomy_mono [of "1048500 - 9050 * k - 9000 - 25"]) (use R in simp_all)
  moreover have "calc_acc s1 = n" "calc_pending_op s1 = Some q" by (simp_all add: s1_def)
  ultimately show ?thesis using R n(2,3) assms(3) by (simp add: entering_def bval_def)
qed

lemma entering_equals:
  assumes "entering k (Some p) v w s" "calc_has_digits s" "k < 100" "p \<in> set ''+-*/''" "p = CHR ''/'' \<Longrightarrow> w \<noteq> 0"
  shows "\<exists>s'. calc_press (CHR ''='') s = Some s' \<and> calc_inv s' \<and> \<not> calc_error s' \<and> bval (calc_display s') = apply_op p v w"
proof -
  have e: "calc_inv s" "\<not> calc_error s" "calc_pending_op s = Some p" using assms(1) by (simp_all add: entering_def)
  obtain n h' where n: "next_acc s = Some (Inr n, h')" "bval n = (case Some p of None \<Rightarrow> w | Some p \<Rightarrow> apply_op p v w)"
    "res_ok (in_use (calc_heap s)) (Inr n, h') (\<lambda>n. True)"
    by (rule next_acc_room [OF assms(1,3)]) (use assms(4,5) in auto)
  define s1 where "s1 = s\<lparr>calc_heap := bignum_free (calc_acc s) h', calc_acc := n\<rparr>"
  have i: "into_acc (Inr n, h') s = (True, s1)" by (simp add: into_acc_def s1_def)
  have s1: "calc_inv s1" using into_acc_ok(1) [OF e(1) n(3)] by (simp add: i)
  have "press_equals s = Some (s1\<lparr>calc_pending_op := None, calc_has_digits := False\<rparr>)"
    using n(1) assms(2) i e(3) by (simp add: press_equals_def next_acc_def calc_display_def)
  then have "calc_press (CHR ''='') s = Some (s1\<lparr>calc_pending_op := None, calc_has_digits := False\<rparr>)"
    using calc_inv_inited [OF e(1)] e(2) by (simp add: calc_press_def less_eq_char_def)
  then show ?thesis using s1 e(2) n(2) by (simp add: s1_def calc_display_def)
qed

subsection \<open>Expressions\<close>

definition expr_keys :: "int list \<Rightarrow> (char \<times> int list) list \<Rightarrow> string" where
  "expr_keys xs ops = map digit_char xs @ concat (map (\<lambda>(c, ys). c # map digit_char ys) ops) @ ''=''"

text \<open>From left to right, no operator before another.\<close>

definition left_to_right :: "rat \<Rightarrow> (char \<times> int list) list \<Rightarrow> rat" where
  "left_to_right v ops = foldl (\<lambda>x (c, ys). apply_op c x (of_int (dval ys))) v ops"

definition operand_ok :: "char \<times> int list \<Rightarrow> bool" where
  "operand_ok r = (case r of (c, ys) \<Rightarrow> c \<in> set ''+-*/'' \<and> ys \<noteq> [] \<and> digit_list ys \<and> (c = CHR ''/'' \<longrightarrow> dval ys \<noteq> 0))"

text \<open>The keys after the first operator, with the number before it still in the accumulator or the entry.\<close>

lemma rest_of_expr:
  assumes "list_all operand_ok ((p, ys) # ops)" "entering k (Some p) v 0 s"
    "k + length (map digit_char ys @ concat (map (\<lambda>(c, ys). c # map digit_char ys) ops)) < 100"
  shows "\<exists>s'. calc_keys (map digit_char ys @ concat (map (\<lambda>(c, ys). c # map digit_char ys) ops) @ ''='') s = Some s' \<and>
    calc_inv s' \<and> \<not> calc_error s' \<and> bval (calc_display s') = left_to_right v ((p, ys) # ops)"
  using assms
proof (induction ops arbitrary: p ys k v s)
  case Nil
  have o: "digit_list ys" "ys \<noteq> []" "p \<in> set ''+-*/''" "p = CHR ''/'' \<Longrightarrow> dval ys \<noteq> 0" "k + length ys \<le> 100" "k + length ys < 100"
    using Nil by (simp_all add: operand_ok_def)
  obtain s1 where s1: "calc_keys (map digit_char ys) s = Some s1" "entering (k + length ys) (Some p) v (of_int (dval ys)) s1" "calc_has_digits s1"
    using entering_digits [OF o(1,5) Nil(2)] o(2) by auto
  show ?case using entering_equals [OF s1(2,3) o(6,3)] o(4) s1(1) by (auto simp: calc_keys_append left_to_right_def)
next
  case (Cons r ops)
  obtain q zs where r: "r = (q, zs)" by fastforce
  have o: "digit_list ys" "ys \<noteq> []" "p \<in> set ''+-*/''" "p = CHR ''/'' \<Longrightarrow> dval ys \<noteq> 0" "k + length ys \<le> 100" "k + length ys < 100"
    "q \<in> set ''+-*/''"
    using Cons.prems by (simp_all add: operand_ok_def r)
  have rest: "list_all operand_ok ((q, zs) # ops)" using Cons.prems(1) by (simp add: r)
  obtain s1 where s1: "calc_keys (map digit_char ys) s = Some s1" "entering (k + length ys) (Some p) v (of_int (dval ys)) s1" "calc_has_digits s1"
    using entering_digits [OF o(1,5) Cons.prems(2)] o(2) by auto
  obtain s2 where s2: "calc_press q s1 = Some s2" "entering (Suc (k + length ys)) (Some q) (apply_op p v (of_int (dval ys))) 0 s2"
    using entering_operator [OF s1(2,3) o(6,7)] o(3,4) by auto
  have "Suc (k + length ys) + length (map digit_char zs @ concat (map (\<lambda>(c, ys). c # map digit_char ys) ops)) < 100"
    using Cons.prems(3) by (simp add: r)
  from Cons.IH [OF rest s2(2) this] show ?case using s1(1) s2(1) by (auto simp: calc_keys_append left_to_right_def r)
qed

lemma calc_press_init: "calc_press key s = calc_press key (calc_init s)"
  by (simp add: calc_press_def calc_init_def split: prod.splits)

lemma calc_keys_init: "ks \<noteq> [] \<Longrightarrow> calc_keys ks s = calc_keys ks (calc_init s)"
  using calc_press_init [of _ s] by (cases ks) simp_all

end
