(* ===== verification/CalcProps.thy ===== *)
theory CalcProps
  imports CalcExpr
begin

section \<open>The calculator: its properties\<close>

text \<open>
  The operations compute the exact or cut off result when there is room, every sequence of keys keeps the heap free of
  leaks, expressions are evaluated from left to right, the display shows the number; the square root is right to two
  units of its last digit for numbers of ordinary size and wrong for large ones.
\<close>

subsection \<open>Operations\<close>

text \<open>An operator on two numbers, in a heap with one free block of four times their digits and some, gives the exact sum or
  difference, or the product or quotient cut off after twenty decimals, in one new block, and gives back all its
  temporaries.\<close>

theorem calc_op_exact:
  assumes "num_ok a" "num_ok b" "arena_ok h" "c \<in> set ''+-*/''" "c = CHR ''/'' \<Longrightarrow> bval b \<noteq> 0"
    "roomy (4 * (length (bdigits a) + length (bdigits b) + 48)) h"
  shows "\<exists>n h'. calc_do_op a c b h = Some (Inr n, h') \<and> num_ok n \<and> bval n = apply_op c (bval a) (bval b) \<and>
    arena_ok h' \<and> bptr n \<notin> in_use h \<and> in_use h' = insert (bptr n) (in_use h)"
  by (rule op_succeeds [OF assms(1-3) refl assms(4,5,6) order_refl]) blast+

abbreviation number :: "int list \<Rightarrow> nat \<Rightarrow> bignum" where
  "number ds sc \<equiv> \<lparr>bptr = 0, bdigits = ds, bscale = sc, bneg = False\<rparr>"

lemma calc_op_exact_witness:
  "\<exists>n h'. calc_do_op (number [2] 0) (CHR ''/'') (number [0, 3] 1) [] = Some (Inr n, h') \<and> num_ok n \<and> bval n = 666666666666666666666 / 10 ^ 20 \<and>
    arena_ok h' \<and> bptr n \<notin> in_use [] \<and> in_use h' = insert (bptr n) (in_use [])"
proof -
  have "apply_op (CHR ''/'') (bval (number [2] 0)) (bval (number [0, 3] 1)) = 666666666666666666666 / 10 ^ 20"
    by (simp add: bval_def trunc20_def floor_eq_iff)
  moreover have "\<exists>n h'. calc_do_op (number [2] 0) (CHR ''/'') (number [0, 3] 1) [] = Some (Inr n, h') \<and> num_ok n \<and>
    bval n = apply_op (CHR ''/'') (bval (number [2] 0)) (bval (number [0, 3] 1)) \<and> arena_ok h' \<and> bptr n \<notin> in_use [] \<and> in_use h' = insert (bptr n) (in_use [])"
    by (rule calc_op_exact) (simp_all add: num_ok_def bval_def arena_ok_def roomy_def calc_heap_init_def)
  ultimately show ?thesis by (simp only:)
qed

subsection \<open>Sequences of keys\<close>

text \<open>C14. From the start, every sequence of keys is processed to its end: the three numbers stay well-formed, each owns one
  block of the heap, and no other block is in use.\<close>

theorem calc_keys_keep: "\<exists>s. calc_keys (k # ks) calc_fresh = Some s \<and> calc_inv s"
proof -
  have "\<exists>t. calc_keys js s = Some t \<and> calc_inv t" if "calc_inv s" for js s
    using that
  proof (induction js arbitrary: s)
    case (Cons j js)
    then show ?case using calc_press_ok [OF calc_inv_ok, of s j] by fastforce
  qed simp
  then show ?thesis using calc_press_ok [OF calc_fresh_ok, of k] by fastforce
qed

text \<open>C15. An expression of at most a hundred keys, without a division by zero, is evaluated from left to right: the equals key
  shows the value, and no operation runs out of memory.\<close>

theorem calc_expression:
  assumes "digit_list xs" "xs \<noteq> []" "list_all operand_ok ops" "ops \<noteq> []" "length (expr_keys xs ops) \<le> 100"
  shows "\<exists>s. calc_keys (expr_keys xs ops) calc_fresh = Some s \<and> \<not> calc_error s \<and>
    bval (calc_display s) = left_to_right (of_int (dval xs)) ops"
proof -
  obtain p ys rest where r: "ops = (p, ys) # rest" using assms(4) by (cases ops) auto
  let ?tl = "map digit_char ys @ concat (map (\<lambda>(c, ys). c # map digit_char ys) rest)"
  have len: "length xs + Suc (length ?tl) < 100" using assms(5) by (simp add: expr_keys_def r)
  have le: "0 + length xs \<le> 100" "length xs < 100" "Suc (length xs) + length ?tl < 100" using len by simp_all
  obtain s1 where s1: "calc_keys (map digit_char xs) (calc_init calc_fresh) = Some s1"
    "entering (length xs) None 0 (of_int (dval xs)) s1" "calc_has_digits s1"
    using entering_digits [OF assms(1) le(1) entering_start] assms(2) by auto
  have p: "p \<in> set ''+-*/''" using assms(3) by (simp add: r operand_ok_def)
  obtain s2 where s2: "calc_press p s1 = Some s2" "entering (Suc (length xs)) (Some p) (of_int (dval xs)) 0 s2"
    using entering_operator [OF s1(2,3) le(2) p] by auto
  have "expr_keys xs ops = map digit_char xs @ p # ?tl @ ''=''" by (simp add: expr_keys_def r)
  moreover have "calc_keys (expr_keys xs ops) calc_fresh = calc_keys (expr_keys xs ops) (calc_init calc_fresh)"
    by (rule calc_keys_init) (simp add: expr_keys_def)
  ultimately show ?thesis
    using rest_of_expr [OF assms(3) [unfolded r] s2(2) le(3)] s1(1) s2(1) by (auto simp: calc_keys_append r)
qed

lemma calc_expression_witness:
  "\<exists>s. calc_keys ''12+30*4/5='' calc_fresh = Some s \<and> \<not> calc_error s \<and> bval (calc_display s) = 336 / 10"
proof -
  let ?ops = "[(CHR ''+'', [3, 0]), (CHR ''*'', [4]), (CHR ''/'', [5])]"
  have "\<exists>s. calc_keys (expr_keys [1, 2] ?ops) calc_fresh = Some s \<and> \<not> calc_error s \<and>
    bval (calc_display s) = left_to_right (of_int (dval [1, 2])) ?ops"
    by (rule calc_expression) (simp_all add: operand_ok_def expr_keys_def)
  moreover have "expr_keys [1, 2] ?ops = ''12+30*4/5=''" by (simp add: expr_keys_def digit_char_eq)
  moreover have "left_to_right (of_int (dval [1, 2])) ?ops = 336 / 10" by (simp add: left_to_right_def trunc20_def)
  ultimately show ?thesis by (simp only:)
qed

text \<open>A digit after an error: the error is cleared and the entry starts again, with the operator still pending.\<close>

lemma digit_clears_error:
  assumes "entering k c v w s" "k < 99" "0 \<le> d" "d \<le> 9"
  shows "\<exists>s'. calc_press (digit_char d) (s\<lparr>calc_error := True\<rparr>) = Some s' \<and> entering (k + 2) c v (of_int d) s' \<and> calc_has_digits s'"
proof -
  have e: "calc_inv s" "\<not> calc_error s" "roomy (1048500 - 9050 * k) (calc_heap s)" using assms(1) by (simp_all add: entering_def)
  have "25 \<le> 1048500 - 9050 * k" using assms(2) by simp
  note R = reset_cur_entering [OF e this]
  define t where "t = (reset_cur s)\<lparr>calc_has_digits := False\<rparr>"
  have t: "calc_inv t" "\<not> calc_error t" using R by (simp_all add: t_def)
  have "roomy (1048500 - 9050 * Suc k) (calc_heap t)"
    by (rule roomy_mono [of "1048500 - 9050 * k - 25"]) (use R in \<open>simp_all add: t_def\<close>)
  moreover have "0 < length (bdigits (calc_cur s))" using e(1) by (auto simp: calc_inv_def num_ok_def)
  ultimately have "entering (Suc k) c v 0 t" using R assms(1) by (auto simp: entering_def t_def bval_def)
  from entering_digit [OF this _ assms(3,4)] obtain s' where s': "calc_press (digit_char d) t = Some s'"
    "entering (Suc (Suc k)) c v (of_int d) s'" "calc_has_digits s'" using assms(2) by auto
  define u where "u = s\<lparr>calc_error := True\<rparr>"
  have "calc_error u" "u\<lparr>calc_error := False\<rparr> = s" using e(2) by (cases s, simp add: u_def)+
  then have "press_digit d u = press_digit d t" using t(2) by (simp add: press_digit_def t_def)
  then have "calc_press (digit_char d) (s\<lparr>calc_error := True\<rparr>) = calc_press (digit_char d) t"
    using digit_char_key [OF assms(3,4)] calc_inv_inited [OF e(1)] calc_inv_inited [OF t(1)] by (simp add: calc_press_def u_def)
  then show ?thesis using s' by simp
qed

text \<open>A comment says that after an error all but C is ignored. A digit clears the error as well, and the operator that failed
  is still pending: a number divided by zero, an operator and a second number show the quotient of the two.\<close>

theorem error_forgotten:
  assumes "digit_list xs" "xs \<noteq> []" "digit_list (y # ys)" "dval (y # ys) \<noteq> 0" "c \<in> set ''+-*/''" "length xs + length ys < 90"
  shows "\<exists>s. calc_keys (map digit_char xs @ ''/0'' @ [c] @ map digit_char (y # ys) @ ''='') calc_fresh = Some s \<and> \<not> calc_error s \<and>
    bval (calc_display s) = trunc20 (of_int (dval xs) / of_int (dval (y # ys)))"
proof -
  let ?v = "of_int (dval xs) :: rat" and ?k = "length xs"
  have le: "0 + ?k \<le> 100" "?k < 100" "Suc ?k < 100" "Suc (Suc ?k) < 99" using assms(6) by simp_all
  obtain s1 where s1: "calc_keys (map digit_char xs) (calc_init calc_fresh) = Some s1" "entering ?k None 0 ?v s1" "calc_has_digits s1"
    using entering_digits [OF assms(1) le(1) entering_start] assms(2) by auto
  obtain s2 where s2: "calc_press (CHR ''/'') s1 = Some s2" "entering (Suc ?k) (Some (CHR ''/'')) ?v 0 s2"
    using entering_operator [OF s1(2,3) le(2), of "CHR ''/''"] by auto
  have zero: "digit_char 0 = CHR ''0''" by (simp add: digit_char_eq)
  obtain s3 where s3: "calc_press (CHR ''0'') s2 = Some s3" "entering (Suc (Suc ?k)) (Some (CHR ''/'')) ?v 0 s3" "calc_has_digits s3"
    using entering_digit [OF s2(2) le(3), of 0] by (auto simp: zero)
  have e: "calc_inv s3" "\<not> calc_error s3" "calc_pending_op s3 = Some (CHR ''/'')" "num_ok (calc_cur s3)" "bval (calc_cur s3) = 0"
    using s3(2) by (simp_all add: entering_def calc_inv_def)
  have s4: "calc_press c s3 = Some (s3\<lparr>calc_error := True\<rparr>)"
    using digits_not_operator [OF assms(5) calc_inv_inited [OF e(1)] e(2)] s3(3) e(3) bignum_div_zero [OF e(4,5)]
    by (simp add: press_operator_def calc_do_op_def into_acc_def)
  have y: "0 \<le> y" "y \<le> 9" "digit_list ys" using assms(3) by simp_all
  obtain s5 where s5: "calc_press (digit_char y) (s3\<lparr>calc_error := True\<rparr>) = Some s5" "entering (Suc (Suc ?k) + 2) (Some (CHR ''/'')) ?v (of_int y) s5" "calc_has_digits s5"
    using digit_clears_error [OF s3(2) le(4) y(1,2)] by blast
  have k: "Suc (Suc ?k) + 2 + length ys \<le> 100" "Suc (Suc ?k) + 2 + length ys < 100" using assms(6) by simp_all
  obtain s6 where s6: "calc_keys (map digit_char ys) s5 = Some s6"
    "entering (Suc (Suc ?k) + 2 + length ys) (Some (CHR ''/'')) ?v (of_int (dval (y # ys))) s6" "calc_has_digits s6"
    using entering_digits [OF y(3) k(1) s5(2)] s5(1,3) by (cases ys) auto
  have "(of_int (dval (y # ys)) :: rat) \<noteq> 0" using assms(4) by (simp only: of_int_eq_0_iff not_False_eq_True)
  then obtain s7 where s7: "calc_press (CHR ''='') s6 = Some s7" "\<not> calc_error s7" "bval (calc_display s7) = apply_op (CHR ''/'') ?v (of_int (dval (y # ys)))"
    using entering_equals [OF s6(2,3) k(2)] by auto
  have "calc_keys (map digit_char xs @ ''/0'' @ [c] @ map digit_char (y # ys) @ ''='') calc_fresh =
    calc_keys (map digit_char xs @ ''/0'' @ [c] @ map digit_char (y # ys) @ ''='') (calc_init calc_fresh)"
    by (rule calc_keys_init) simp
  also have "\<dots> = Some s7" using s1(1) s2(1) s3(1) s4 s5(1) s6(1) s7(1) by (simp add: calc_keys_append)
  finally show ?thesis using s7(2,3) by (simp del: dval.simps)
qed

lemma error_forgotten_witness: "\<exists>s. calc_keys ''1/0+5='' calc_fresh = Some s \<and> \<not> calc_error s \<and> bval (calc_display s) = 1 / 5"
proof -
  have "\<exists>s. calc_keys (map digit_char [1] @ ''/0'' @ ''+'' @ map digit_char [5] @ ''='') calc_fresh = Some s \<and> \<not> calc_error s \<and>
    bval (calc_display s) = trunc20 (of_int (dval [1]) / of_int (dval [5]))"
    by (rule error_forgotten) simp_all
  then show ?thesis by (simp add: digit_char_eq trunc20_def)
qed

subsection \<open>The square root\<close>

text \<open>C29. The square root of a number between ten to the minus 30 and ten to the 30 is right to two units of the last of the
  twenty decimals shown.\<close>

theorem sqrt_accurate:
  assumes "num_ok a" "arena_ok h" "1 / 10 ^ 30 \<le> bval a" "bval a \<le> 10 ^ 30" "length (bdigits a) \<le> 100" "roomy 277000 h"
  shows "\<exists>n h'. calc_sqrt a h = Some (Inr n, h') \<and> num_ok n \<and> in_use h' = insert (bptr n) (in_use h) \<and>
    \<bar>of_rat (bval n) - sqrt (of_rat (bval a))\<bar> \<le> 2 / 10 ^ 20"
proof -
  have a: "0 < bval a" using assms(3) by (rule less_le_trans [rotated]) simp
  have "bval a < 10 ^ 59" using assms(4) by (rule le_less_trans) simp
  with calc_sqrt_ok [OF assms(1,2)] a assms(5,6) iterates_small_ok [OF assms(3,4)]
  obtain r where r: "calc_sqrt a h = Some r" "res_ok (in_use h) r (\<lambda>n. 0 \<le> bval a \<and> bval n = (if bval a = 0 then 0 else (heron (bval a) ^^ 60) (bval a + 1)))"
    "\<not> isl (fst r)" by blast
  obtain n h' where n: "r = (Inr n, h')" using r(3) by (cases r; cases "fst r") auto
  then have "num_ok n" "in_use h' = insert (bptr n) (in_use h)" "bval n = (heron (bval a) ^^ 60) (bval a + 1)"
    using r(2) a by (simp_all add: res_ok_def)
  then show ?thesis using r(1) n sqrt_converges [OF assms(3,4)] by auto
qed

lemma sqrt_accurate_witness:
  "\<exists>n h'. calc_sqrt (number [2] 0) [] = Some (Inr n, h') \<and> num_ok n \<and> in_use h' = insert (bptr n) (in_use []) \<and>
    \<bar>of_rat (bval n) - sqrt 2\<bar> \<le> 2 / 10 ^ 20"
proof -
  have "bval (number [2] 0) = 2" by (simp add: bval_def)
  then show ?thesis using sqrt_accurate [of "number [2] 0" "[]"]
    by (simp add: num_ok_def arena_ok_def roomy_def calc_heap_init_def)
qed

text \<open>C35. The comment on the code says that the iteration converges whatever the size of the number. From ten to the 38 on the
  sixty steps are too few: the result is at least twice the square root.\<close>

theorem sqrt_large_wrong:
  assumes "num_ok a" "arena_ok h" "10 ^ 38 \<le> bval a" "bval a < 10 ^ 59" "length (bdigits a) \<le> 100" "roomy 277000 h"
  shows "\<exists>n h'. calc_sqrt a h = Some (Inr n, h') \<and> 2 * sqrt (of_rat (bval a)) \<le> of_rat (bval n)"
proof -
  have a: "0 < bval a" using assms(3) by (rule less_le_trans [rotated]) simp
  with calc_sqrt_ok [OF assms(1,2)] assms(4-6) large_iterates_small [OF assms(3,4)]
  obtain r where r: "calc_sqrt a h = Some r" "res_ok (in_use h) r (\<lambda>n. 0 \<le> bval a \<and> bval n = (if bval a = 0 then 0 else (heron (bval a) ^^ 60) (bval a + 1)))"
    "\<not> isl (fst r)" by blast
  obtain n h' where n: "r = (Inr n, h')" using r(3) by (cases r; cases "fst r") auto
  have v: "bval n = (heron (bval a) ^^ 60) (bval a + 1)" using r(2) a n by (simp add: res_ok_def)
  have "1 \<le> bval n" using large_iterates(1) [OF assms(3), of 60] v by simp
  then have "(of_rat 0 :: real) \<le> of_rat (bval n)" by (simp only: of_rat_less_eq)
  then have pos: "(0 :: real) \<le> of_rat (bval n)" by simp
  have "(of_rat (4 * bval a) :: real) \<le> of_rat ((bval n)\<^sup>2)" using sqrt_too_slow [OF assms(3)] unfolding v by (simp only: of_rat_less_eq)
  then have "4 * of_rat (bval a) \<le> (of_rat (bval n) :: real)\<^sup>2" by (simp add: of_rat_mult of_rat_power)
  then have "sqrt (4 * of_rat (bval a)) \<le> of_rat (bval n)" using pos by (simp add: real_le_lsqrt)
  then have "2 * sqrt (of_rat (bval a)) \<le> of_rat (bval n)" by (simp add: real_sqrt_mult)
  then show ?thesis using r(1) n by auto
qed

lemma sqrt_large_wrong_witness:
  "\<exists>n h'. calc_sqrt (number (1 # replicate 40 0) 0) [] = Some (Inr n, h') \<and> 2 * 10 ^ 20 \<le> (of_rat (bval n) :: real)"
proof -
  have v: "bval (number (1 # replicate 40 0) 0) = 10 ^ 40" by (simp add: bval_def)
  have "\<exists>n h'. calc_sqrt (number (1 # replicate 40 0) 0) [] = Some (Inr n, h') \<and>
    2 * sqrt (of_rat (bval (number (1 # replicate 40 0) 0))) \<le> of_rat (bval n)"
    by (rule sqrt_large_wrong) (unfold v, simp_all add: num_ok_def arena_ok_def roomy_def calc_heap_init_def)
  moreover have "sqrt (of_rat (10 ^ 40)) = (10 ^ 20 :: real)"
  proof -
    have "sqrt ((10 ^ 20)\<^sup>2) = (10 ^ 20 :: real)" by (rule real_sqrt_unique) simp_all
    moreover have "(of_rat (10 ^ 40) :: real) = (10 ^ 20)\<^sup>2" by (simp add: of_rat_power)
    ultimately show ?thesis by (simp only:)
  qed
  ultimately show ?thesis unfolding v by simp
qed

subsection \<open>The display\<close>

definition digit_of :: "char \<Rightarrow> int" where
  "digit_of c = of_char c - 48"

text \<open>The number a user reads.\<close>

definition read_decimal :: "string \<Rightarrow> rat" where
  "read_decimal s =
     (let neg = (s \<noteq> [] \<and> hd s = CHR ''-''); t = (if neg then tl s else s);
          ip = takeWhile (\<lambda>c. c \<noteq> CHR ''.'') t; fp = drop (length ip + 1) t
      in (if neg then - 1 else 1) * of_int (dval (map digit_of (ip @ fp))) / 10 ^ length fp)"

definition show_digit :: "int \<Rightarrow> char" where
  "show_digit d = char_of (48 + d)"

lemma shown_digit:
  assumes "0 \<le> d" "d \<le> 9"
  shows "digit_of (show_digit d) = d" "show_digit d \<noteq> CHR ''.''" "show_digit d \<noteq> CHR ''-''"
proof -
  have m: "(48 + d) mod 256 = 48 + d" using assms by simp
  have c: "(of_char (show_digit d) :: int) = 48 + d" by (simp add: show_digit_def of_char_of m)
  then show "digit_of (show_digit d) = d" by (simp add: digit_of_def)
  have "show_digit d = CHR ''.'' \<Longrightarrow> 48 + d = 46" "show_digit d = CHR ''-'' \<Longrightarrow> 48 + d = 45" using c by auto
  then show "show_digit d \<noteq> CHR ''.''" "show_digit d \<noteq> CHR ''-''" using assms by auto
qed

lemma shown_digits: "digit_list ds \<Longrightarrow> map digit_of (map show_digit ds) = ds"
  by (induction ds) (simp_all add: shown_digit)

lemma shown_no_point:
  "digit_list ds \<Longrightarrow> takeWhile (\<lambda>c. c \<noteq> CHR ''.'') (map show_digit ds @ CHR ''.'' # t) = map show_digit ds"
  "digit_list ds \<Longrightarrow> takeWhile (\<lambda>c. c \<noteq> CHR ''.'') (map show_digit ds) = map show_digit ds"
  by (induction ds) (simp_all add: shown_digit)

lemma to_str_fits:
  assumes "num_ok n" "bignum_display_len n < cap"
  shows "bignum_to_str n cap = (if bneg n then ''-'' else []) @ map show_digit (take (length (bdigits n) - bscale n) (bdigits n)) @
    (if 0 < bscale n then CHR ''.'' # map show_digit (drop (length (bdigits n) - bscale n) (bdigits n)) else [])"
proof -
  define ip where "ip = map show_digit (take (length (bdigits n) - bscale n) (bdigits n))"
  define fp where "fp = map show_digit (drop (length (bdigits n) - bscale n) (bdigits n))"
  have s: "(\<lambda>d. char_of (48 + d)) = show_digit" by (simp add: show_digit_def fun_eq_iff)
  have "bscale n < length (bdigits n)" using assms(1) by (simp add: num_ok_def)
  then have l: "length (bdigits n) - bscale n \<noteq> 0" "length ip = length (bdigits n) - bscale n" "length fp = bscale n"
    by (simp_all add: ip_def fp_def)
  have c: "(if bneg n then 1 else 0) + length ip + (if 0 < bscale n then 1 + bscale n else 0) < cap"
    using assms(2) l(1,2) by (simp add: bignum_display_len_def Let_def)
  show ?thesis
    unfolding bignum_to_str_def Let_def s if_not_P [OF l(1)] ip_def [symmetric] fp_def [symmetric]
    using c l(3) by (cases "bneg n"; cases "0 < bscale n") simp_all
qed

text \<open>A buffer longer than \<^verbatim>\<open>bignum_display_len\<close> receives that many characters, and they read as the number.\<close>

theorem display_reads_back:
  assumes "num_ok n" "bignum_display_len n < cap"
  shows "length (bignum_to_str n cap) = bignum_display_len n \<and> read_decimal (bignum_to_str n cap) = bval n"
proof -
  let ?show = "map show_digit" and ?il = "length (bdigits n) - bscale n"
  define ip where "ip = take ?il (bdigits n)"
  define fp where "fp = drop ?il (bdigits n)"
  have l: "bscale n < length (bdigits n)" and d: "digit_list ip" "digit_list fp"
    using assms(1) by (auto simp: num_ok_def ip_def fp_def)
  have b: "bdigits n = ip @ fp" "length fp = bscale n" "ip \<noteq> []" using l by (auto simp: ip_def fp_def)
  have str: "bignum_to_str n cap = (if bneg n then ''-'' else []) @ ?show ip @ (if 0 < bscale n then CHR ''.'' # ?show fp else [])"
    unfolding ip_def fp_def by (rule to_str_fits [OF assms])
  have "hd (?show ip) \<noteq> CHR ''-''" using b(3) d(1) by (cases ip) (auto simp: shown_digit)
  moreover have "0 < bscale n \<or> fp = []" using b(2) by (cases fp) auto
  ultimately have "read_decimal (bignum_to_str n cap) = (if bneg n then - 1 else 1) * of_int (dval (map digit_of (?show ip @ ?show fp))) / 10 ^ bscale n"
    unfolding str read_decimal_def using b(2,3) d by (auto simp: shown_no_point Let_def)
  also have "map digit_of (?show ip @ ?show fp) = bdigits n" using shown_digits d b(1) by simp
  finally show ?thesis using b l unfolding str by (auto simp: bval_def bignum_display_len_def)
qed

lemma display_reads_back_witness:
  "length (bignum_to_str (number [1, 2, 5] 1) 6) = 4 \<and> read_decimal (bignum_to_str (number [1, 2, 5] 1) 6) = 125 / 10"
  using display_reads_back [of "number [1, 2, 5] 1" 6] by (simp add: num_ok_def bignum_display_len_def bval_def)

end
