(* ===== verification/Fat12Map.thy ===== *)
theory Fat12Map
  imports Fat12Props
begin

section \<open>The volume as a finite map\<close>

text \<open>
  The abstract specification of the file system: a map from names to contents. A volume is good when no two entries
  share clusters or a name and nothing follows the end mark of the directory; the operations keep it good and act on
  the map. The interface is the locale \<open>file_store\<close>, whose clients are the programs that keep their data in files.
\<close>

type_synonym file_name = "u8 list \<times> u8 list"

definition clean_end :: "bmem \<Rightarrow> bool" where
  "clean_end m \<longleftrightarrow> (\<forall>e\<in>set (dropWhile (\<lambda>e. m e \<noteq> 0) (dir_entries m)). m e = 0)"

abbreviation ent_key :: "bmem \<Rightarrow> nat \<Rightarrow> file_name" where
  "ent_key m e \<equiv> (ent_name m e, ent_ext m e)"

definition vol_ok :: "bmem \<Rightarrow> bool" where
  "vol_ok m \<longleftrightarrow> files_ok m \<and> clean_end m \<and> inj_on (ent_key m) (set (used_entries m))"

definition files :: "bmem \<Rightarrow> file_name \<Rightarrow> u8 list option" where
  "files m k = (case fat12_find (fst k) (snd k) m of None \<Rightarrow> None | Some e \<Rightarrow> fat12_read_file e 4294967296 m)"

lemma set_takeWhile_all:
  assumes "\<forall>e\<in>set (dropWhile P xs). \<not> P e"
  shows "set (takeWhile P xs) = {e \<in> set xs. P e}"
proof -
  have "set xs = set (takeWhile P xs) \<union> set (dropWhile P xs)"
    by (simp only: set_append [symmetric] takeWhile_dropWhile_id)
  moreover have "\<forall>e\<in>set (takeWhile P xs). P e" by (blast dest: set_takeWhileD)
  ultimately show ?thesis using assms by blast
qed

lemma used_iff:
  assumes "clean_end m"
  shows "e \<in> set (used_entries m) \<longleftrightarrow> e \<in> set (dir_entries m) \<and> m e \<noteq> 0 \<and> m e \<noteq> 0xE5"
proof -
  have "set (takeWhile (\<lambda>e. m e \<noteq> 0) (dir_entries m)) = {e \<in> set (dir_entries m). m e \<noteq> 0}"
    by (rule set_takeWhile_all) (use assms in \<open>unfold clean_end_def, blast\<close>)
  then show ?thesis unfolding used_entries_def set_filter by simp
qed

lemma find_iff:
  assumes "inj_on (ent_key m) (set (used_entries m))"
  shows "fat12_find nm ext m = Some e \<longleftrightarrow> e \<in> set (used_entries m) \<and> ent_key m e = (nm, ext)"
proof
  assume f: "fat12_find nm ext m = Some e"
  show "e \<in> set (used_entries m) \<and> ent_key m e = (nm, ext)"
    unfolding used_name_storable(2,3) [OF f] using find_in_dir [OF f] by blast
next
  assume e: "e \<in> set (used_entries m) \<and> ent_key m e = (nm, ext)"
  then have "fat12_find nm ext m \<noteq> None" by (auto simp: fat12_find_def find_None_iff)
  then obtain d where d: "fat12_find nm ext m = Some d" by blast
  have "d \<in> set (used_entries m)" "ent_key m d = (nm, ext)" using find_in_dir [OF d] by (blast, simp only: used_name_storable(2,3) [OF d])
  then have "d = e" using assms e by (auto dest: inj_onD)
  then show "fat12_find nm ext m = Some e" using d by simp
qed

lemma find_none_iff: "fat12_find nm ext m = None \<longleftrightarrow> (\<forall>e\<in>set (used_entries m). ent_key m e \<noteq> (nm, ext))"
  by (auto simp: fat12_find_def find_None_iff)

text \<open>The chain of an entry is unique.\<close>

lemma chain_unique:
  assumes "chain f c cs z" "chain f c ds w" "\<forall>x\<in>set cs. is_cluster x" "\<forall>x\<in>set ds. is_cluster x" "\<not> is_cluster z" "\<not> is_cluster w"
  shows "cs = ds"
  using assms
proof (induction cs arbitrary: c ds)
  case Nil
  then show ?case by (cases ds) auto
next
  case (Cons x xs)
  then show ?case by (cases ds) auto
qed

lemma owns_unique: "fs_ok m \<Longrightarrow> owns m e cs \<Longrightarrow> owns m e ds \<Longrightarrow> cs = ds"
proof -
  assume ok: "fs_ok m" and o: "owns m e cs" "owns m e ds"
  have chain: "\<exists>z. chain (fat12_get_entry m) (ent_start m e) xs z \<and> \<not> is_cluster z" if "owns m e xs" for xs
    using that by (cases "xs = []") (auto simp: owns_def)
  show "cs = ds" using chain [OF o(1)] chain [OF o(2)] owns_clusters [OF o(1) ok] owns_clusters [OF o(2) ok] chain_unique by blast
qed

subsection \<open>Changing one entry\<close>

text \<open>
  \<open>updates m e m'\<close>: what is left of the volume when the entry \<open>e\<close> and clusters of no other entry were changed.
\<close>

definition updates :: "bmem \<Rightarrow> nat \<Rightarrow> bmem \<Rightarrow> bool" where
  "updates m e m' \<longleftrightarrow> bpb_same m m' \<and> e \<in> set (dir_entries m) \<and>
     (\<forall>d\<in>set (dir_entries m). d \<noteq> e \<longrightarrow> (\<forall>k<32. m' (d + k) = m (d + k))) \<and>
     (\<forall>d\<in>set (used_entries m). d \<noteq> e \<longrightarrow> (\<forall>ds. owns m d ds \<longrightarrow>
        (\<forall>c\<in>set ds. fat12_get_entry m' c = fat12_get_entry m c \<and> (\<forall>x\<in>region m c. m' x = m x))))"

lemma updates_entry:
  assumes "updates m e m'" "d \<in> set (dir_entries m)" "d \<noteq> e"
  shows "m' d = m d" "ent_key m' d = ent_key m d" "ent_start m' d = ent_start m d" "ent_size m' d = ent_size m d"
proof -
  have k: "m' (d + k) = m (d + k)" if "k < 32" for k using assms that by (auto simp: updates_def)
  from k [of 0] show "m' d = m d" by simp
  have "ent_name m' d = ent_name m d" by (rule mem_read_eqI) (simp add: k)
  moreover have "ent_ext m' d = ent_ext m d"
  proof (rule mem_read_eqI)
    fix i :: nat assume "i < 3"
    then show "m' (d + 8 + i) = m (d + 8 + i)" using k [of "8 + i"] by (simp add: add.assoc)
  qed
  ultimately show "ent_key m' d = ent_key m d" by simp
  show "ent_start m' d = ent_start m d" by (rule rd16_cong) (use k [of "26 + _"] in \<open>simp add: add.assoc\<close>)
  show "ent_size m' d = ent_size m d" by (rule rd32_cong) (use k [of "28 + _"] in \<open>simp add: add.assoc\<close>)
qed

lemma updates_owns:
  assumes "updates m e m'" "d \<in> set (used_entries m)" "d \<noteq> e" "owns m d ds"
  shows "owns m' d ds"
proof -
  have d: "d \<in> set (dir_entries m)" using assms(2) set_used_entries by blast
  have b: "bpb_same m m'" using assms(1) by (simp add: updates_def)
  have f: "fat12_get_entry m' c = fat12_get_entry m c" if "c \<in> set ds" for c using assms that by (auto simp: updates_def)
  have "chain (fat12_get_entry m') s ds z = chain (fat12_get_entry m) s ds z" for s z
    using f by (intro chain_cong) auto
  then show ?thesis using assms(4) updates_entry(3) [OF assms(1) d assms(3)] by (simp add: owns_def bpb_derived [OF b])
qed

lemma updates_read:
  assumes "updates m e m'" "d \<in> set (used_entries m)" "d \<noteq> e" "files_ok m"
  shows "fat12_read_file d n m' = fat12_read_file d n m"
proof -
  obtain ds where ds: "owns m d ds" using assms(2,4) by (auto simp: files_ok_def)
  have d: "d \<in> set (dir_entries m)" using assms(2) set_used_entries by blast
  have "fs_ok m" using assms(4) by (simp add: files_ok_def)
  then show ?thesis
    using assms(1-3) d ds by (intro owned_read_same [OF ds]) (auto simp: updates_def)
qed

lemma updates_clean:
  assumes "clean_end m" "updates m e m'" "m' e \<noteq> 0" "m e = 0 \<Longrightarrow> fat12_find_free_entry m = Some e"
  shows "clean_end m'"
proof -
  have dirs: "dir_entries m' = dir_entries m" using assms(2) bpb_derived(7) by (simp add: updates_def)
  have same: "m' d = m d" if "d \<in> set (dir_entries m)" "d \<noteq> e" for d using updates_entry(1) [OF assms(2) that] .
  have e: "e \<in> set (dir_entries m)" using assms(2) by (simp add: updates_def)
  show ?thesis
  proof (cases "m e = 0")
    case True
    obtain ys zs where d: "dir_entries m = ys @ e # zs" and ys: "\<forall>y\<in>set ys. m y \<noteq> 0 \<and> m y \<noteq> 0xE5"
      using assms(4) [OF True] unfolding fat12_find_free_entry_def by (auto dest: find_Some_split)
    have dist: "distinct (dir_entries m)" by (simp add: dir_entries_def distinct_map inj_on_def)
    have "dropWhile (\<lambda>e. m e \<noteq> 0) (ys @ e # zs) = e # zs" using ys True by (subst dropWhile_append2) auto
    then have z: "\<forall>x\<in>set zs. m x = 0" using assms(1) by (simp add: clean_end_def d)
    have "\<forall>x\<in>set zs. m' x = 0"
    proof
      fix x assume x: "x \<in> set zs"
      then have "m' x = m x" using d dist by (intro same) auto
      then show "m' x = 0" using z x by simp
    qed
    moreover have nz: "\<forall>y\<in>set ys. m' y \<noteq> 0"
    proof
      fix y assume y: "y \<in> set ys"
      then have "m' y = m y" using d dist by (intro same) auto
      then show "m' y \<noteq> 0" using ys y by simp
    qed
    have "dropWhile (\<lambda>e. m' e \<noteq> 0) (ys @ e # zs) = dropWhile (\<lambda>e. m' e \<noteq> 0) zs"
      using assms(3) nz by (subst dropWhile_append2) auto
    ultimately show ?thesis unfolding clean_end_def dirs d by (auto dest: set_dropWhileD)
  next
    case False
    have "dropWhile (\<lambda>e. m' e \<noteq> 0) (dir_entries m) = dropWhile (\<lambda>e. m e \<noteq> 0) (dir_entries m)"
      by (rule dropWhile_cong) (use same assms(3) False in metis)+
    then show ?thesis unfolding clean_end_def dirs
      using assms(1) same False unfolding clean_end_def by (metis set_dropWhileD)
  qed
qed

lemma updates_used:
  assumes "clean_end m" "clean_end m'" "updates m e m'" "m' e \<noteq> 0"
  shows "d \<in> set (used_entries m') \<longleftrightarrow> (if d = e then m' e \<noteq> 0xE5 else d \<in> set (used_entries m))"
proof -
  have "dir_entries m' = dir_entries m" "e \<in> set (dir_entries m)" using assms(3) bpb_derived(7) by (simp_all add: updates_def)
  then show ?thesis using updates_entry(1) [OF assms(3), of d] assms(4)
    by (auto simp: used_iff [OF assms(1)] used_iff [OF assms(2)])
qed

text \<open>A live entry that shares neither its clusters nor its name with another one.\<close>

definition own_entry :: "bmem \<Rightarrow> nat \<Rightarrow> bmem \<Rightarrow> bool" where
  "own_entry m e m' \<longleftrightarrow> (\<exists>cs. owns m' e cs \<and>
     (\<forall>d\<in>set (used_entries m). d \<noteq> e \<longrightarrow> (\<forall>ds. owns m d ds \<longrightarrow> set cs \<inter> set ds = {}) \<and> ent_key m d \<noteq> ent_key m' e))"

lemma updates_vol:
  assumes v: "vol_ok m" and u: "updates m e m'" and n: "m' e \<noteq> 0" "m e = 0 \<Longrightarrow> fat12_find_free_entry m = Some e"
    and l: "m' e \<noteq> 0xE5 \<Longrightarrow> own_entry m e m'"
  shows "vol_ok m'"
proof -
  have ok: "files_ok m" "clean_end m" "inj_on (ent_key m) (set (used_entries m))" using v by (simp_all add: vol_ok_def)
  have fo: "fs_ok m" using ok(1) by (simp add: files_ok_def)
  have b: "bpb_same m m'" using u by (simp add: updates_def)
  have fo': "fs_ok m'" using fs_ok_same [OF b] fo by simp
  have c: "clean_end m'" using updates_clean [OF ok(2) u n] .
  note used = updates_used [OF ok(2) c u n(1)]
  have dir: "d \<in> set (dir_entries m)" if "d \<in> set (used_entries m)" for d using that set_used_entries by blast
  have own: "\<exists>cs. owns m' d cs \<and> (d \<noteq> e \<longrightarrow> owns m d cs)" if "d \<in> set (used_entries m')" for d
  proof (cases "d = e")
    case True
    then show ?thesis using l that used [of e] by (auto simp: own_entry_def)
  next
    case False
    then have d: "d \<in> set (used_entries m)" using that used by simp
    then obtain cs where "owns m d cs" using ok(1) by (auto simp: files_ok_def)
    then show ?thesis using updates_owns [OF u d False] by blast
  qed
  have pair: "set cs \<inter> set ds = {}"
    if x: "d \<in> set (used_entries m')" "d' \<in> set (used_entries m')" "d \<noteq> d'" "owns m' d cs" "owns m' d' ds" "d \<noteq> e" for d d' cs ds
  proof -
    have d: "d \<in> set (used_entries m)" "d \<noteq> e" using used [of d] x by simp_all
    have cs: "owns m d cs" using own [OF x(1)] owns_unique [OF fo' x(4)] x(6) by blast
    show ?thesis
    proof (cases "d' = e")
      case True
      then have "m' e \<noteq> 0xE5" using x(2) used [of e] by simp
      then obtain xs where xs: "owns m' e xs" "\<forall>ds. owns m d ds \<longrightarrow> set xs \<inter> set ds = {}"
        using l d by (auto simp: own_entry_def)
      have "xs = ds" by (rule owns_unique [OF fo' xs(1) x(5) [unfolded True]])
      then show ?thesis using xs(2) cs by blast
    next
      case False
      then have d': "d' \<in> set (used_entries m)" using used [of d'] x(2) by simp
      obtain xs where xs: "owns m' d' xs" "owns m d' xs" using own [OF x(2)] False by blast
      have "xs = ds" by (rule owns_unique [OF fo' xs(1) x(5)])
      then have "owns m d' ds" using xs(2) by simp
      then show ?thesis using ok(1) d(1) d' cs x(3) unfolding files_ok_def by blast
    qed
  qed
  have "files_ok m'"
    unfolding files_ok_def
  proof (intro conjI ballI allI impI)
    show "fs_ok m'" by (rule fo')
    show "\<exists>cs. owns m' d cs" if "d \<in> set (used_entries m')" for d using own [OF that] by blast
    fix d d' cs ds assume "d \<in> set (used_entries m')" "d' \<in> set (used_entries m')" "d \<noteq> d' \<and> owns m' d cs \<and> owns m' d' ds"
    then show "set cs \<inter> set ds = {}" using pair [of d d' cs ds] pair [of d' d ds cs] by (cases "d = e") auto
  qed
  moreover have "inj_on (ent_key m') (set (used_entries m'))"
  proof (rule inj_onI)
    fix x y assume x: "x \<in> set (used_entries m')" and y: "y \<in> set (used_entries m')" and k: "ent_key m' x = ent_key m' y"
    have other: "d \<noteq> e \<Longrightarrow> d \<in> set (used_entries m') \<Longrightarrow> d \<in> set (used_entries m) \<and> ent_key m' d = ent_key m d" for d
      using used [of d] updates_entry(2) [OF u dir] by simp
    have clash: "ent_key m' d \<noteq> ent_key m' e" if "d \<noteq> e" "d \<in> set (used_entries m')" "e \<in> set (used_entries m')" for d
      using l other [OF that(1,2)] that(3) used [of e] that(1) by (auto simp: own_entry_def)
    show "x = y"
    proof (cases "x = e \<or> y = e")
      case True
      then show ?thesis using clash x y k by metis
    next
      case False
      then show ?thesis using other [of x] other [of y] x y k inj_onD [OF ok(3)] by metis
    qed
  qed
  ultimately show ?thesis using c by (simp add: vol_ok_def)
qed

lemma updates_files:
  assumes v: "vol_ok m" "vol_ok m'" and u: "updates m e m'" and n: "m' e \<noteq> 0"
  shows "files m' k = (if m' e \<noteq> 0xE5 \<and> k = ent_key m' e then fat12_read_file e 4294967296 m'
    else if e \<in> set (used_entries m) \<and> k = ent_key m e then None else files m k)"
proof -
  have ok: "files_ok m" "clean_end m" "clean_end m'" using v by (simp_all add: vol_ok_def)
  have i: "inj_on (ent_key m) (set (used_entries m))" "inj_on (ent_key m') (set (used_entries m'))" using v by (simp_all add: vol_ok_def)
  note used = updates_used [OF ok(2,3) u n]
  have key: "ent_key m' d = ent_key m d" if "d \<in> set (used_entries m)" "d \<noteq> e" for d
    using updates_entry(2) [OF u _ that(2)] that(1) set_used_entries by blast
  obtain nm ext where k: "k = (nm, ext)" by (cases k)
  show ?thesis
  proof (cases "m' e \<noteq> 0xE5 \<and> k = ent_key m' e")
    case True
    then have "fat12_find nm ext m' = Some e" using used [of e] k by (subst find_iff [OF i(2)]) simp
    then show ?thesis using True by (simp add: files_def k)
  next
    case no: False
    show ?thesis
    proof (cases "\<exists>d. d \<noteq> e \<and> fat12_find nm ext m = Some d")
      case True
      then obtain d where d: "d \<noteq> e" "fat12_find nm ext m = Some d" by blast
      then have du: "d \<in> set (used_entries m)" "ent_key m d = k" using find_iff [OF i(1)] k by simp_all
      then have "fat12_find nm ext m' = Some d" using used [of d] key [of d] d(1) k by (subst find_iff [OF i(2)]) simp
      then have "files m' k = files m k" using d(2) updates_read [OF u du(1) d(1) ok(1)] by (simp add: files_def k)
      moreover have ne: "\<not> (e \<in> set (used_entries m) \<and> k = ent_key m e)" using inj_onD [OF i(1), of d e] du d(1) by auto
      ultimately show ?thesis by (simp only: if_not_P [OF no] if_not_P [OF ne] if_False)
    next
      case False
      have "fat12_find nm ext m' = None"
        unfolding find_none_iff
      proof
        fix d assume d: "d \<in> set (used_entries m')"
        show "ent_key m' d \<noteq> (nm, ext)"
        proof (cases "d = e")
          case True
          then show ?thesis using no d used [of e] k by auto
        next
          case de: False
          then have "d \<in> set (used_entries m)" using d used by simp
          then show ?thesis using False key [of d] de find_iff [OF i(1), of nm ext d] by auto
        qed
      qed
      then have none: "files m' k = None" by (simp add: files_def k)
      show ?thesis
      proof (cases "fat12_find nm ext m")
        case None
        then have "files m k = None" by (simp add: files_def k)
        then show ?thesis using none unfolding if_not_P [OF no] by simp
      next
        case (Some d)
        then have "fat12_find nm ext m = Some e" using False by (cases "d = e") simp_all
        note f = iffD1 [OF find_iff [OF i(1)] this]
        have "e \<in> set (used_entries m) \<and> k = ent_key m e" unfolding k by (rule conjI [OF conjunct1 [OF f] conjunct2 [OF f, symmetric]])
        then show ?thesis using none unfolding if_not_P [OF no] by simp
      qed
    qed
  qed
qed

subsection \<open>The operations\<close>

text \<open>The steps of a write after the entry \<open>e\<close> was claimed change this entry and free clusters only.\<close>

lemma write_updates:
  assumes ok: "files_ok m" and c: "claim_entry nm ext m = Some (Some (e, m1))" and len: "length nm = 8" "length ext = 3"
    and b: "bpb_same m1 m4"
    and fat: "\<And>x. x < 4096 \<Longrightarrow> fat12_get_entry m1 x \<noteq> 0 \<Longrightarrow> fat12_get_entry m4 x = fat12_get_entry m1 x"
    and dat: "\<And>x. x \<notin> fat_bytes m1 \<Longrightarrow> x < e + 26 \<or> e + 32 \<le> x \<Longrightarrow>
      (\<And>c. is_cluster c \<Longrightarrow> fat12_get_entry m1 c = 0 \<Longrightarrow> x \<notin> region m1 c) \<Longrightarrow> m4 x = m1 x"
  shows "updates m e m4"
proof -
  have fo: "fs_ok m" using ok by (simp add: files_ok_def)
  have cd: "claimed m e m1" using claim_entry_claimed [OF fo len c] by blast
  note o1 = claimed_ok [OF cd fo] and der = bpb_derived [OF claimed_ok(1) [OF cd fo]]
  have e: "e \<in> set (dir_entries m)" using cd by (simp add: claimed_def)
  note re = dir_entry_range [OF fo e]
  have keep1: "m1 x = m x" if "x \<notin> fat_bytes m" "x < e \<or> e + 32 \<le> x" for x using cd that by (simp add: claimed_def)
  have fb: "fat_bytes m1 = fat_bytes m" by (simp add: fat_bytes_def der)
  have entry: "m4 (d + k) = m (d + k)" if d: "d \<in> set (dir_entries m)" "d \<noteq> e" "k < 32" for d k
  proof -
    note rd = dir_entry_range [OF fo d(1)]
    have out: "d + k < e \<or> e + 32 \<le> d + k" using dir_entry_apart [OF e d(1)] d(2,3) by auto
    have nf: "d + k \<notin> fat_bytes m" using rd(3) by (simp add: fat_bytes_def)
    have "m4 (d + k) = m1 (d + k)"
    proof (rule dat)
      show "d + k \<notin> fat_bytes m1" using nf fb by simp
      show "d + k < e + 26 \<or> e + 32 \<le> d + k" using out by auto
      show "d + k \<notin> region m1 c" for c using region_above [OF o1(2), of "d + k" c] rd(2) d(3) der(4) by auto
    qed
    then show ?thesis using keep1 [OF nf out] by simp
  qed
  have cluster: "fat12_get_entry m4 c = fat12_get_entry m c \<and> (\<forall>x\<in>region m c. m4 x = m x)"
    if d: "d \<in> set (used_entries m)" "d \<noteq> e" "owns m d ds" "c \<in> set ds" for d ds c
  proof -
    have own: "fat12_get_entry m1 c = fat12_get_entry m c" "fat12_get_entry m c \<noteq> 0" "is_cluster c"
      using claim_keeps_owned [OF ok c len d] owns_nonzero [OF d(3,4)] owns_clusters [OF d(3) fo] d(4) by auto
    have "m4 x = m x" if x: "x \<in> region m c" for x
    proof -
      have hi: "fat12_data_offset m \<le> x" using region_above [OF fo x] .
      have nf: "x \<notin> fat_bytes m" using hi fs_ok_layout(4,5) [OF fo] by (auto simp: fat_bytes_def)
      have "m4 x = m1 x"
      proof (rule dat)
        show "x \<notin> fat_bytes m1" using nf fb by simp
        show "x < e + 26 \<or> e + 32 \<le> x" using hi re by auto
        fix c' assume c': "is_cluster c'" "fat12_get_entry m1 c' = 0"
        then have "c \<noteq> c'" using own by auto
        then have "region m c \<inter> region m c' = {}" using region_disjoint [OF fo own(3) c'(1)] by blast
        then show "x \<notin> region m1 c'" using x by (auto simp: region_def der)
      qed
      then show ?thesis using keep1 [OF nf] hi re by auto
    qed
    then show ?thesis using own fat [of c] by auto
  qed
  have "bpb_same m m4" by (rule bpb_same_trans [OF o1(1) b])
  then show ?thesis unfolding updates_def using e entry cluster by blast
qed

text \<open>A claimed entry carries the name; another one with the name does not exist; it was free or had the name before.\<close>

lemma claim_name:
  assumes v: "vol_ok m" and c: "claim_entry nm ext m = Some (Some (e, m1))" and len: "length nm = 8" "length ext = 3"
    and h: "hd nm \<noteq> 0" "hd nm \<noteq> 0xE5"
  shows "ent_key m1 e = (nm, ext)" "m1 e = hd nm" "m e = 0 \<Longrightarrow> fat12_find_free_entry m = Some e"
    "\<And>d. d \<in> set (used_entries m) \<Longrightarrow> d \<noteq> e \<Longrightarrow> ent_key m d \<noteq> (nm, ext)"
    "e \<in> set (used_entries m) \<Longrightarrow> ent_key m e = (nm, ext)"
proof -
  have fo: "fs_ok m" and cl: "clean_end m" and i: "inj_on (ent_key m) (set (used_entries m))" using v by (simp_all add: vol_ok_def files_ok_def)
  have f1: "fat12_find nm ext m1 = Some e" using claim_entry_claimed [OF fo len c] h by blast
  then have n1: "ent_name m1 e = nm" "ent_ext m1 e = ext" using used_name_storable(2,3) by blast+
  then show "ent_key m1 e = (nm, ext)" by simp
  have "hd (ent_name m1 e) = m1 e" by (simp add: mem_read_def upt_rec [of 0])
  then show "m1 e = hd nm" using n1(1) by simp
  have "(fat12_find nm ext m = Some e) \<or> (fat12_find nm ext m = None \<and> fat12_find_free_entry m = Some e)"
  proof (cases "fat12_find nm ext m")
    case None
    then show ?thesis using c by (auto simp: claim_entry_def split: option.splits)
  next
    case (Some d)
    then show ?thesis using c claim_existing [OF fo Some] by auto
  qed
  then consider (old) "fat12_find nm ext m = Some e" | (new) "fat12_find nm ext m = None" "fat12_find_free_entry m = Some e"
    by (elim disjE conjE) simp_all
  note cases = this
  show "fat12_find_free_entry m = Some e" if "m e = 0"
    using cases
  proof cases
    case old
    then have "e \<in> set (used_entries m)" using find_in_dir by blast
    then show ?thesis using that used_iff [OF cl] by blast
  qed
  show "ent_key m d \<noteq> (nm, ext)" if "d \<in> set (used_entries m)" "d \<noteq> e" for d
    using cases
  proof cases
    case old
    show ?thesis
    proof
      assume "ent_key m d = (nm, ext)"
      then have "fat12_find nm ext m = Some d" using find_iff [OF i] that(1) by blast
      then show False using old that(2) by simp
    qed
  next
    case new
    then show ?thesis using that(1) unfolding find_none_iff by blast
  qed
  show "ent_key m e = (nm, ext)" if "e \<in> set (used_entries m)"
    using cases
  proof cases
    case old
    then show ?thesis using find_iff [OF i] by blast
  next
    case new
    then have "m e = 0 \<or> m e = 0xE5" unfolding fat12_find_free_entry_def by (auto dest: find_Some_split)
    then show ?thesis using that used_iff [OF cl] by blast
  qed
qed

text \<open>An entry without clusters, and one whose clusters were free, share nothing.\<close>

lemma own_free:
  assumes v: "vol_ok m" and c: "claim_entry nm ext m = Some (Some (e, m1))" and len: "length nm = 8" "length ext = 3"
    and h: "hd nm \<noteq> 0" "hd nm \<noteq> 0xE5" and n: "names_same m1 m4" and o: "owns m4 e cs" and f: "set cs \<subseteq> free_clusters m1"
  shows "own_entry m e m4" "m4 e \<noteq> 0" "m4 e \<noteq> 0xE5" "ent_key m4 e = (nm, ext)"
proof -
  have fo: "fs_ok m" and ok: "files_ok m" using v by (simp_all add: vol_ok_def files_ok_def)
  have cd: "claimed m e m1" using claim_entry_claimed [OF fo len c] by blast
  have e: "e \<in> set (dir_entries m1)" using claimed_ok(3) [OF cd fo] .
  note k = claim_name [OF v c len h]
  have same: "m4 (e + i) = m1 (e + i)" if "i < 11" for i using n e that by (simp add: names_same_def)
  have "ent_name m4 e = ent_name m1 e" by (rule mem_read_eqI) (simp add: same)
  moreover have "ent_ext m4 e = ent_ext m1 e"
    by (rule mem_read_eqI) (use same [of "8 + _"] in \<open>simp add: add.assoc\<close>)
  ultimately show key: "ent_key m4 e = (nm, ext)" using k(1) by simp
  have "m4 e = hd nm" using same [of 0] k(2) by simp
  then show "m4 e \<noteq> 0" "m4 e \<noteq> 0xE5" using h by simp_all
  have "set cs \<inter> set ds = {}" if "d \<in> set (used_entries m)" "d \<noteq> e" "owns m d ds" for d ds
  proof -
    have "fat12_get_entry m1 x \<noteq> 0" if "x \<in> set ds" for x
      using claim_keeps_owned [OF ok c len \<open>d \<in> set (used_entries m)\<close> \<open>d \<noteq> e\<close> \<open>owns m d ds\<close> that] owns_nonzero [OF \<open>owns m d ds\<close> that] by simp
    moreover have "fat12_get_entry m1 x = 0" if "x \<in> set cs" for x using f that by (auto simp: free_clusters_def)
    ultimately show ?thesis by blast
  qed
  then show "own_entry m e m4" unfolding own_entry_def using o k(4) key by blast
qed

definition vol_good :: "fat12 \<Rightarrow> bool" where
  "vol_good s \<longleftrightarrow> vol_ok (img s) \<and> fat12_ready s \<and> \<not> fat12_locked s"

lemma empty_entry_read: "ent_size m e = 0 \<Longrightarrow> fat12_read_file e n m = Some []"
  unfolding fat12_read_file_def by (subst read_chain.simps) simp

text \<open>The map after the entry of a name was claimed and its contents replaced.\<close>

lemma claimed_map:
  assumes v: "vol_ok m" and c: "claim_entry nm ext m = Some (Some (e, m1))" and len: "length nm = 8" "length ext = 3"
    and h: "hd nm \<noteq> 0" "hd nm \<noteq> 0xE5" and n: "names_same m1 m4" and o: "owns m4 e cs" and f: "set cs \<subseteq> free_clusters m1"
    and u: "updates m e m4" and r: "fat12_read_file e 4294967296 m4 = Some data"
  shows "vol_ok m4" "files m4 = (files m)((nm, ext) \<mapsto> data)"
proof -
  note k = claim_name [OF v c len h] and w = own_free [OF v c len h n o f]
  show v4: "vol_ok m4" by (rule updates_vol [OF v u w(2) k(3) w(1)])
  show "files m4 = (files m)((nm, ext) \<mapsto> data)"
  proof
    fix key
    show "files m4 key = ((files m)((nm, ext) \<mapsto> data)) key"
      unfolding updates_files [OF v v4 u w(2)] w(4) r using w(3) k(5) by simp
  qed
qed

lemma write_map:
  assumes g: "vol_good s" and st: "storable f" and len: "length data \<le> 4294836736"
  shows "\<exists>r s'. fat12_write f data s = Some (r, s') \<and> vol_good s' \<and>
    (r = 1 \<and> files (img s') = (files (img s))(parse_83 f \<mapsto> data) \<or>
     r = 0 \<and> (files (img s') = files (img s) \<or> files (img s') = (files (img s))(parse_83 f \<mapsto> [])))"
proof -
  have v: "vol_ok (img s)" and rdy: "fat12_ready s" "\<not> fat12_locked s" using g by (simp_all add: vol_good_def)
  have ok: "files_ok (img s)" and fo: "fs_ok (img s)" using v by (simp_all add: vol_ok_def files_ok_def)
  obtain nm ext where p: "parse_83 f = (nm, ext)" by fastforce
  have l: "length nm = 8" "length ext = 3" using length_parse_83 [OF p] by auto
  have h: "hd nm \<noteq> 0" "hd nm \<noteq> 0xE5" using st p by (simp_all add: storable_def)
  have room: "length data + cluster_bytes (img s) \<le> 4294967296" using len cluster_bytes_bound [OF fo] by simp
  have flush: "vol_good (fat12_flush (s\<lparr>img := m\<rparr>)) = vol_ok m" "img (fat12_flush (s\<lparr>img := m\<rparr>)) = m" for m
    using rdy by (simp_all add: vol_good_def fat12_flush_def)
  show ?thesis
  proof (cases rule: fat12_write_cases [OF fo rdy p room, case_names full empty nospace stored])
    case full
    then show ?thesis using g by simp
  next
    case (empty e m1)
    have "owns m1 e []" "ent_size m1 e = 0" using empty(2) by (auto simp: owns_def claimed_def)
    moreover have "updates (img s) e m1" by (rule write_updates [OF ok empty(1) l]) simp_all
    moreover have "names_same m1 m1" by (simp add: names_same_def)
    ultimately have "vol_ok m1" "files m1 = (files (img s))((nm, ext) \<mapsto> [])"
      using claimed_map [OF v empty(1) l h, of m1 "[]" "[]"] empty_entry_read by simp_all
    then show ?thesis using empty(3,4) flush p by simp
  next
    case (nospace e m1 m2)
    note ok1 = claimed_ok(2) [OF nospace(2) fo] and o = only_fat_facts [OF nospace(4) claimed_ok(2) [OF nospace(2) fo]]
    have e: "e \<in> set (dir_entries m1)" using claimed_ok(3) [OF nospace(2) fo] .
    have "ent_start m2 e = ent_start m1 e" by (rule rd16_cong) (use o(4) [OF e, of "26 + _"] in \<open>simp add: add.assoc\<close>)
    moreover have "ent_size m2 e = ent_size m1 e" by (rule rd32_cong) (use o(4) [OF e, of "28 + _"] in \<open>simp add: add.assoc\<close>)
    ultimately have "owns m2 e []" "ent_size m2 e = 0" using nospace(2) by (auto simp: owns_def claimed_def)
    moreover have "updates (img s) e m2"
      by (rule write_updates [OF ok nospace(1) l o(1)]) (use nospace(4,5) in \<open>simp_all add: only_fat_def\<close>)
    ultimately have m2: "vol_ok m2" "files m2 = (files (img s))((nm, ext) \<mapsto> [])"
      using claimed_map [OF v nospace(1) l h o(3), of "[]" "[]"] empty_entry_read by simp_all
    then have "vol_good (s\<lparr>img := m2\<rparr>)" using rdy by (simp add: vol_good_def)
    then show ?thesis using nospace(7) m2(2) p by simp
  next
    case (stored e m1 cs m4)
    note ok1 = claimed_ok(2) [OF stored(2) fo]
    have s: "set cs \<subseteq> free_clusters m1" "distinct cs" "bpb_same m1 m4" "names_same m1 m4"
      "chain (fat12_get_entry m4) (ent_start m4 e) cs 0xFFF" "take (length data) (chain_data m4 cs) = data"
      "\<And>x. x < 4096 \<Longrightarrow> x \<notin> set cs \<Longrightarrow> fat12_get_entry m4 x = fat12_get_entry m1 x"
      "\<And>x. x \<notin> fat_bytes m1 \<Longrightarrow> x < e + 26 \<or> e + 32 \<le> x \<Longrightarrow> \<forall>c\<in>set cs. x \<notin> region m1 c \<Longrightarrow> m4 x = m1 x"
      using stored(4) by (auto simp: stored_def)
    have cs: "is_cluster c \<and> fat12_get_entry m1 c = 0" if "c \<in> set cs" for c using free_is_cluster [OF ok1] s(1) that by blast
    have "cs \<noteq> []" using s(6) stored(3) by auto
    then have o: "owns m4 e cs"
      using s(1,2,5) bpb_derived(5) [OF s(3)] by (auto simp: owns_def free_clusters_def intro!: exI [of _ "0xFFF"])
    have "updates (img s) e m4"
    proof (rule write_updates [OF ok stored(1) l s(3)])
      show "fat12_get_entry m4 x = fat12_get_entry m1 x" if "x < 4096" "fat12_get_entry m1 x \<noteq> 0" for x
        using s(7) [OF that(1)] cs [of x] that(2) by auto
      show "m4 x = m1 x" if "x \<notin> fat_bytes m1" "x < e + 26 \<or> e + 32 \<le> x"
        "\<And>c. is_cluster c \<Longrightarrow> fat12_get_entry m1 c = 0 \<Longrightarrow> x \<notin> region m1 c" for x
        by (rule s(8) [OF that(1,2)]) (use cs that(3) in blast)
    qed
    moreover have "fat12_read_file e 4294967296 m4 = Some data"
    proof -
      have "fat12_find nm ext m1 = Some e" using claim_entry_claimed [OF fo l stored(1)] h by blast
      moreover have "file_at m4 f data" by (rule stored_file_at [OF stored(4) ok1]) (simp add: p calculation)
      moreover have "fs_ok m4" using fs_ok_same [OF s(3)] ok1 by simp
      moreover have "fat12_find nm ext m4 = Some e" using find_same [OF s(4)] calculation(1) by simp
      ultimately show ?thesis using file_at_read [of m4 f data 4294967296 e] len p by simp
    qed
    ultimately have "vol_ok m4" "files m4 = (files (img s))((nm, ext) \<mapsto> data)"
      using claimed_map [OF v stored(1) l h s(4) o s(1)] by simp_all
    then show ?thesis using stored(5) flush p by simp
  qed
qed

lemma load_map:
  assumes "vol_good s"
  shows "fat12_load f n s = Some (take n (case files (img s) (parse_83 f) of None \<Rightarrow> [] | Some d \<Rightarrow> d))"
proof -
  have v: "vol_ok (img s)" and rdy: "fat12_ready s" using assms by (simp_all add: vol_good_def)
  have ok: "files_ok (img s)" and fo: "fs_ok (img s)" using v by (simp_all add: vol_ok_def files_ok_def)
  obtain nm ext where p: "parse_83 f = (nm, ext)" by fastforce
  show ?thesis
  proof (cases "fat12_find nm ext (img s)")
    case None
    then show ?thesis using rdy p by (simp add: fat12_load_def files_def)
  next
    case (Some e)
    then have "e \<in> set (used_entries (img s))" using find_in_dir by blast
    then obtain cs where cs: "owns (img s) e cs" using ok by (auto simp: files_ok_def)
    obtain z where z: "chain (fat12_get_entry (img s)) (ent_start (img s) e) cs z" "\<not> is_cluster z"
      using cs by (cases "cs = []") (auto simp: owns_def)
    have "ent_size (img s) e < 4294967296" using unsigned_less [of "le_word (mem_read (img s) (e + 28) 4) :: u32"] by (simp add: rd32_def)
    then have "fat12_read_file e k (img s) = Some (take (min (ent_size (img s) e) k) (chain_data (img s) cs))" for k
      using read_chain_spec [OF z(1) owns_clusters [OF cs fo] z(2)] by (simp add: fat12_read_file_def)
    then show ?thesis using Some p rdy \<open>ent_size (img s) e < 4294967296\<close> by (simp add: fat12_load_def files_def min.commute Let_def)
  qed
qed

lemma delete_map:
  assumes g: "vol_good s"
  shows "\<exists>s'. fat12_delete f s = Some (if files (img s) (parse_83 f) = None then -1 else 1, s') \<and> vol_good s' \<and>
    files (img s') = (files (img s))(parse_83 f := None)"
proof -
  have v: "vol_ok (img s)" and rdy: "fat12_ready s" "\<not> fat12_locked s" using g by (simp_all add: vol_good_def)
  have ok: "files_ok (img s)" and fo: "fs_ok (img s)" and i: "inj_on (ent_key (img s)) (set (used_entries (img s)))"
    and cl: "clean_end (img s)" using v by (simp_all add: vol_ok_def files_ok_def)
  obtain nm ext where p: "parse_83 f = (nm, ext)" by fastforce
  show ?thesis
  proof (cases "fat12_find nm ext (img s)")
    case None
    then have "files (img s) (nm, ext) = None" by (simp add: files_def)
    then show ?thesis using None rdy p g by (simp add: fat12_delete_def fun_upd_idem)
  next
    case (Some e)
    let ?m = "img s"
    have e: "e \<in> set (used_entries ?m)" "e \<in> set (dir_entries ?m)" using find_in_dir [OF Some] by blast+
    have key: "ent_key ?m e = (nm, ext)" using find_iff [OF i] Some by blast
    have live: "?m e \<noteq> 0" using e(1) used_iff [OF cl] by blast
    obtain cs where cs: "owns ?m e cs" using ok e(1) by (auto simp: files_ok_def)
    obtain m0 where m0: "(if ent_start ?m e \<noteq> 0 then fat12_free_chain (ent_start ?m e) ?m else Some ?m) = Some m0"
      "only_fat ?m m0" "\<forall>x. x \<notin> set cs \<longrightarrow> fat12_get_entry m0 x = fat12_get_entry ?m x"
    proof (cases "ent_start ?m e = 0")
      case True
      then show thesis using that [of ?m] by simp
    next
      case False
      then have "cs \<noteq> []" using cs by (auto simp: owns_def)
      then obtain z where z: "chain (fat12_get_entry ?m) (ent_start ?m e) cs z" "\<not> is_cluster z" using cs by (auto simp: owns_def)
      have "distinct cs" using cs by (simp add: owns_def)
      from free_chain_chain [OF z(1) this owns_clusters [OF cs fo] z(2) fs_ok_layout(2) [OF fo]] obtain m0 where
        "fat12_free_chain (ent_start ?m e) ?m = Some m0" "only_fat ?m m0"
        "\<forall>x. fat12_get_entry m0 x = (if x \<in> set cs then 0 else fat12_get_entry ?m x)" by blast
      then show thesis using that [of m0] False by simp
    qed
    let ?m1 = "m0(e := 0xE5)"
    note o = only_fat_facts [OF m0(2) fo]
    have e0: "e \<in> set (dir_entries m0)" using e(2) by (simp add: bpb_derived(7) [OF o(1)])
    have out: "?m1 x = m0 x" if "x < e \<or> e + 32 \<le> x" for x using that by auto
    have b: "bpb_same ?m ?m1" using bpb_same_trans [OF o(1) entry_write_keeps(1) [OF o(2) e0 out]] .
    have u: "updates ?m e ?m1"
      unfolding updates_def
    proof (intro conjI ballI allI impI b e(2))
      fix d k assume "d \<in> set (dir_entries ?m)" "d \<noteq> e" "(k :: nat) < 32"
      then show "?m1 (d + k) = ?m (d + k)" using o(4) [of d k] dir_entry_apart [OF e(2), of d] by auto
    next
      fix d ds c assume d: "d \<in> set (used_entries ?m)" "d \<noteq> e" "owns ?m d ds" "c \<in> set ds"
      have "set ds \<inter> set cs = {}" using ok d(1-3) e(1) cs unfolding files_ok_def by blast
      then have "fat12_get_entry m0 c = fat12_get_entry ?m c" using m0(3) d(4) by blast
      moreover have "c < 4096" using owns_clusters [OF d(3) fo] d(4) by auto
      ultimately show "fat12_get_entry ?m1 c = fat12_get_entry ?m c" using entry_write_keeps(2) [OF o(2) e0 out] by (simp add: fun_upd_def)
      fix x assume x: "x \<in> region ?m c"
      have hi: "fat12_data_offset ?m \<le> x" using region_above [OF fo x] .
      have "x \<notin> fat_bytes ?m" using hi fs_ok_layout(4,5) [OF fo] by (auto simp: fat_bytes_def)
      moreover have "x \<noteq> e" using dir_entry_range [OF fo e(2)] hi by auto
      ultimately show "?m1 x = ?m x" using m0(2) by (simp add: only_fat_def)
    qed
    have v1: "vol_ok ?m1" by (rule updates_vol [OF v u]) (use live in simp_all)
    have "files ?m1 = (files ?m)((nm, ext) := None)"
    proof
      fix k show "files ?m1 k = ((files ?m)((nm, ext) := None)) k"
        by (subst updates_files [OF v v1 u]) (use e(1) key in auto)
    qed
    moreover have "files ?m (nm, ext) \<noteq> None"
    proof -
      obtain bs where "read_chain ?m (ent_start ?m e) (ent_size ?m e) 4294967296 [] = Some bs"
        using read_chain_returns [OF fs_ok_layout(8) [OF fo], of "ent_start ?m e" "ent_size ?m e" 4294967296 "[]"] by blast
      then show ?thesis by (simp add: files_def fat12_read_file_def Some)
    qed
    moreover have "fat12_delete f s = Some (1, fat12_flush (s\<lparr>img := ?m1\<rparr>))" using rdy p Some m0(1) by (simp add: fat12_delete_def)
    ultimately show ?thesis using v1 rdy p by (auto simp: vol_good_def fat12_flush_def)
  qed
qed

subsection \<open>The interface\<close>

text \<open>A store of named contents: what the programs rely on.\<close>

locale file_store =
  fixes good :: "'s \<Rightarrow> bool" and contents :: "'s \<Rightarrow> 'k \<Rightarrow> u8 list option" and key :: "u8 list \<Rightarrow> 'k"
    and named :: "u8 list \<Rightarrow> bool" and limit :: nat
    and save :: "u8 list \<Rightarrow> u8 list \<Rightarrow> 's \<Rightarrow> (nat \<times> 's) option"
    and load :: "u8 list \<Rightarrow> nat \<Rightarrow> 's \<Rightarrow> u8 list option"
    and erase :: "u8 list \<Rightarrow> 's \<Rightarrow> (int \<times> 's) option"
  assumes save_law: "good s \<Longrightarrow> named f \<Longrightarrow> length data \<le> limit \<Longrightarrow> \<exists>r s'. save f data s = Some (r, s') \<and> good s' \<and>
      (r = 1 \<and> contents s' = (contents s)(key f \<mapsto> data) \<or>
       r = 0 \<and> (contents s' = contents s \<or> contents s' = (contents s)(key f \<mapsto> [])))"
    and load_law: "good s \<Longrightarrow> load f n s = Some (take n (case contents s (key f) of None \<Rightarrow> [] | Some d \<Rightarrow> d))"
    and erase_law: "good s \<Longrightarrow> \<exists>s'. erase f s = Some (if contents s (key f) = None then -1 else 1, s') \<and> good s' \<and>
      contents s' = (contents s)(key f := None)"
begin

lemma save_cases:
  assumes "good s" "named f" "length data \<le> limit"
  obtains (saved) s' where "save f data s = Some (1, s')" "good s'" "contents s' = (contents s)(key f \<mapsto> data)"
  | (unchanged) s' where "save f data s = Some (0, s')" "good s'" "contents s' = contents s"
  | (emptied) s' where "save f data s = Some (0, s')" "good s'" "contents s' = (contents s)(key f \<mapsto> [])"
  using save_law [OF assms] by auto

lemma load_saved: "good s \<Longrightarrow> contents s (key f) = Some d \<Longrightarrow> length d \<le> n \<Longrightarrow> load f n s = Some d"
  using load_law [of s f n] by simp

lemma load_absent: "good s \<Longrightarrow> contents s (key f) = None \<Longrightarrow> load f n s = Some []"
  using load_law [of s f n] by simp

lemma save_load:
  "good s \<Longrightarrow> named f \<Longrightarrow> length data \<le> limit \<Longrightarrow> length data \<le> n \<Longrightarrow> save f data s = Some (1, s') \<Longrightarrow>
     good s' \<and> load f n s' = Some data"
  using save_law [of s f data] load_saved [of s' f data n] by auto

lemma save_keeps:
  assumes "good s" "named f" "length data \<le> limit" "save f data s = Some (r, s')" "key g \<noteq> key f"
  shows "contents s' (key g) = contents s (key g)"
  using save_law [OF assms(1-3)] assms(4,5) by auto

end

interpretation vol: file_store vol_good "\<lambda>s. files (img s)" parse_83 storable 4294836736 fat12_write fat12_load fat12_delete
  by unfold_locales (rule write_map load_map delete_map; assumption)+

text \<open>A volume has room for \<open>n\<close> bytes under a name when the name has an entry or the directory a free one, and the free clusters hold
  \<open>n\<close> bytes. Then a write succeeds.\<close>

definition has_room :: "u8 list \<Rightarrow> nat \<Rightarrow> fat12 \<Rightarrow> bool" where
  "has_room f n s \<longleftrightarrow>
     (fat12_find (fst (parse_83 f)) (snd (parse_83 f)) (img s) \<noteq> None \<or> fat12_find_free_entry (img s) \<noteq> None) \<and>
     n \<le> card (free_clusters (img s)) * cluster_bytes (img s)"

lemma save_with_room:
  assumes "vol_good s" "storable f" "has_room f n s" "length data \<le> n" "length data \<le> 4294836736"
  shows "\<exists>s'. fat12_write f data s = Some (1, s') \<and> vol_good s' \<and> files (img s') = (files (img s))(parse_83 f \<mapsto> data)"
proof -
  have ok: "fs_ok (img s)" "fat12_ready s" "\<not> fat12_locked s" using assms(1) by (simp_all add: vol_good_def vol_ok_def files_ok_def)
  have "length data \<le> card (free_clusters (img s)) * cluster_bytes (img s)" using assms(3,4) by (simp add: has_room_def)
  then obtain s' where w: "fat12_write f data s = Some (1, s')"
    using fat12_write_succeeds [OF ok prod.collapse [symmetric]] assms(3) unfolding has_room_def by blast
  from vol.save_law [OF assms(1,2,5)] w show ?thesis by auto
qed

subsection \<open>Refinement\<close>

datatype file_op = Save "u8 list" "u8 list" | Load "u8 list" nat | Erase "u8 list"

datatype file_res = Saved nat | Loaded "u8 list" | Erased int

text \<open>The specification: a save may fail, and then the file is as it was or empty.\<close>

inductive map_step :: "file_op \<Rightarrow> file_res \<Rightarrow> (file_name \<Rightarrow> u8 list option) \<Rightarrow> (file_name \<Rightarrow> u8 list option) \<Rightarrow> bool" where
  save: "map_step (Save f d) (Saved 1) m (m(parse_83 f \<mapsto> d))"
| refused: "map_step (Save f d) (Saved 0) m m"
| lost: "map_step (Save f d) (Saved 0) m (m(parse_83 f \<mapsto> []))"
| load: "map_step (Load f n) (Loaded (take n (case m (parse_83 f) of None \<Rightarrow> [] | Some d \<Rightarrow> d))) m m"
| erase: "m (parse_83 f) \<noteq> None \<Longrightarrow> map_step (Erase f) (Erased 1) m (m(parse_83 f := None))"
| absent: "m (parse_83 f) = None \<Longrightarrow> map_step (Erase f) (Erased (- 1)) m m"

inductive map_run :: "file_op list \<Rightarrow> file_res list \<Rightarrow> (file_name \<Rightarrow> u8 list option) \<Rightarrow> (file_name \<Rightarrow> u8 list option) \<Rightarrow> bool" where
  halt: "map_run [] [] m m"
| step: "map_step op r m m1 \<Longrightarrow> map_run ops rs m1 m2 \<Longrightarrow> map_run (op # ops) (r # rs) m m2"

definition fat12_op :: "file_op \<Rightarrow> fat12 \<Rightarrow> (file_res \<times> fat12) option" where
  "fat12_op op s = (case op of
      Save f d \<Rightarrow> map_option (\<lambda>(r, s1). (Saved r, s1)) (fat12_write f d s)
    | Load f n \<Rightarrow> map_option (\<lambda>d. (Loaded d, s)) (fat12_load f n s)
    | Erase f \<Rightarrow> map_option (\<lambda>(r, s1). (Erased r, s1)) (fat12_delete f s))"

primrec fat12_run :: "file_op list \<Rightarrow> fat12 \<Rightarrow> (file_res list \<times> fat12) option" where
  "fat12_run [] s = Some ([], s)"
| "fat12_run (op # ops) s =
     (case fat12_op op s of None \<Rightarrow> None | Some (r, s1) \<Rightarrow> map_option (\<lambda>(rs, s2). (r # rs, s2)) (fat12_run ops s1))"

fun op_named :: "file_op \<Rightarrow> bool" where
  "op_named (Save f d) \<longleftrightarrow> storable f \<and> length d \<le> 4294836736"
| "op_named _ \<longleftrightarrow> True"

lemma fat12_op_refines:
  assumes "vol_good s" "op_named op"
  shows "\<exists>r s1. fat12_op op s = Some (r, s1) \<and> vol_good s1 \<and> map_step op r (files (img s)) (files (img s1))"
proof (cases op)
  case (Save f d)
  have n: "storable f" "length d \<le> 4294836736" using assms(2) Save by simp_all
  show ?thesis
  proof (rule vol.save_cases [OF assms(1) n])
    fix s1 assume "fat12_write f d s = Some (1, s1)" "vol_good s1" "files (img s1) = (files (img s))(parse_83 f \<mapsto> d)"
    then show ?thesis using Save map_step.save by (auto simp: fat12_op_def)
  next
    fix s1 assume "fat12_write f d s = Some (0, s1)" "vol_good s1" "files (img s1) = files (img s)"
    then show ?thesis using Save map_step.refused by (auto simp: fat12_op_def)
  next
    fix s1 assume "fat12_write f d s = Some (0, s1)" "vol_good s1" "files (img s1) = (files (img s))(parse_83 f \<mapsto> [])"
    then show ?thesis using Save map_step.lost by (auto simp: fat12_op_def)
  qed
next
  case (Load f n)
  show ?thesis using Load vol.load_law [OF assms(1), of f n] map_step.load assms(1) by (auto simp: fat12_op_def)
next
  case (Erase f)
  obtain s1 where e: "fat12_delete f s = Some (if files (img s) (parse_83 f) = None then -1 else 1, s1)" "vol_good s1"
    "files (img s1) = (files (img s))(parse_83 f := None)" using vol.erase_law [OF assms(1)] by blast
  have "map_step (Erase f) (Erased (if files (img s) (parse_83 f) = None then -1 else 1)) (files (img s)) (files (img s1))"
    using map_step.erase [of "files (img s)" f] map_step.absent [of "files (img s)" f] e(3) by (simp add: fun_upd_idem)
  then show ?thesis using Erase e by (auto simp: fat12_op_def)
qed

text \<open>C7. The FAT12 volume implements the map. From a good volume every sequence of writes, reads and deletions returns, keeps the
  volume good, and gives results that the map gives: a write that reports success replaces exactly the file of this name, a
  refused one leaves the map or empties this file, a read yields the contents, a deletion removes the name; no other
  file changes.\<close>

theorem fat12_implements_map:
  assumes "vol_good s" "list_all op_named ops"
  shows "\<exists>rs s'. fat12_run ops s = Some (rs, s') \<and> vol_good s' \<and> map_run ops rs (files (img s)) (files (img s'))"
  using assms
proof (induction ops arbitrary: s)
  case Nil
  then show ?case using map_run.halt by simp
next
  case (Cons op ops)
  obtain r s1 where 1: "fat12_op op s = Some (r, s1)" "vol_good s1" "map_step op r (files (img s)) (files (img s1))"
    using fat12_op_refines [OF Cons.prems(1), of op] Cons.prems(2) by fastforce
  have "list_all op_named ops" using Cons.prems(2) by simp
  from Cons.IH [OF 1(2) this] obtain rs s' where "fat12_run ops s1 = Some (rs, s')" "vol_good s'" "map_run ops rs (files (img s1)) (files (img s'))"
    by blast
  then show ?case using 1 map_run.step [OF 1(3)] by auto
qed

lemma file_clean_end: "clean_end file_img"
proof -
  have "[0..<64] = 0 # [1..<64::nat]" by (subst upt_conv_Cons) simp_all
  then have d: "dir_entries file_img = 6656 # map (\<lambda>i. 6656 + 32 * i) [1..<64]"
    by (simp add: bpb_derived(7) [OF file_bpb] demo_dir del: upt_rec_numeral upt_conv_Cons)
  have "file_img (6656 + 32 * i) = 0" if "1 \<le> i" "i < 64" for i using that by (simp add: file_img_def mem_write_def demo_zero)
  then have z: "file_img e = 0" if "e \<in> set (map (\<lambda>i. 6656 + 32 * i) [1..<64])" for e using that by auto
  moreover have "file_img 6656 \<noteq> 0" by (simp add: file_img_def mem_write_def)
  ultimately show ?thesis unfolding clean_end_def d by (simp del: set_map)
qed

lemma file_vol_good: "vol_good file_fs"
  by (simp add: vol_good_def vol_ok_def file_fs_def demo_fs_def file_files_ok file_used file_clean_end)

lemma file_contents: "files (img file_fs) (parse_83 demo_name) = Some [7, 8, 9]"
proof -
  have "take 100 (case files (img file_fs) (parse_83 demo_name) of None \<Rightarrow> [] | Some d \<Rightarrow> d) = [7, 8, 9]"
    using vol.load_law [OF file_vol_good, of demo_name 100] file_load by simp
  moreover have "d = [7, 8, 9]" if "take 100 d = [7, 8, 9 :: u8]" for d
  proof -
    have "length (take 100 d) = 3" unfolding that by simp
    then have "length d \<le> 100" by simp
    then show ?thesis using that by simp
  qed
  ultimately show ?thesis by (auto split: option.splits)
qed

lemma file_room: "n \<le> 512 \<Longrightarrow> has_room f n file_fs"
  using mult_le_mono1 [OF file_space(1), of 512] file_free_entry by (simp add: has_room_def file_fs_def file_space(2))

lemma fat12_implements_map_witness:
  "\<exists>rs s'. fat12_run [Save demo_name [1, 2], Load demo_name 9, Erase demo_name] file_fs = Some (rs, s') \<and> vol_good s' \<and>
     map_run [Save demo_name [1, 2], Load demo_name 9, Erase demo_name] rs (files (img file_fs)) (files (img s'))"
  by (rule fat12_implements_map) (simp_all add: file_vol_good demo_name_ok)

end
