(* ===== verification/ShellWin.thy ===== *)
theory ShellWin
  imports AxPrelude
begin

section \<open>Mouse and windows of the graphical shell\<close>

text \<open>
  The packets of the PS/2 mouse (\<^verbatim>\<open>mouse.c\<close>) and the window manager of \<^verbatim>\<open>gfx_shell.c\<close>: eight windows with a
  stacking order, hit tests, dragging and resizing. Coordinates are small enough for the integers not to wrap.
  A \<open>None\<close> from \<open>win_raise\<close> is the write before the array that the loop does for a window which is not in the order.
\<close>

subsection \<open>Mouse packets\<close>

record mouse =
  mouse_packet :: "u8 list"
  mouse_x :: int
  mouse_y :: int
  mouse_buttons :: u8

definition mouse_start :: mouse where
  "mouse_start = \<lparr>mouse_packet = [], mouse_x = 40, mouse_y = 12, mouse_buttons = 0\<rparr>"

definition clamp :: "int \<Rightarrow> int \<Rightarrow> int \<Rightarrow> int" where
  "clamp lo hi v = (if v < lo then lo else if v > hi then hi else v)"

definition mouse_irq_handler_main :: "u8 \<Rightarrow> mouse \<Rightarrow> mouse" where
  "mouse_irq_handler_main data m =
     (if mouse_packet m = [] \<and> data AND 0x08 = 0 then m
      else let p = mouse_packet m @ [data]
           in if length p < 3 then m\<lparr>mouse_packet := p\<rparr>
              else let flags = p ! 0;
                       dx = uint (p ! 1) - (if flags AND 0x10 \<noteq> 0 then 256 else 0);
                       dy = uint (p ! 2) - (if flags AND 0x20 \<noteq> 0 then 256 else 0)
                   in m\<lparr>mouse_packet := [], mouse_x := clamp 0 79 (mouse_x m + dx),
                        mouse_y := clamp 0 24 (mouse_y m - dy), mouse_buttons := flags AND 0x07\<rparr>)"

abbreviation mouse_feed :: "u8 list \<Rightarrow> mouse \<Rightarrow> mouse" where
  "mouse_feed bs m \<equiv> fold mouse_irq_handler_main bs m"

definition mouse_ok :: "mouse \<Rightarrow> bool" where
  "mouse_ok m \<longleftrightarrow> length (mouse_packet m) < 3 \<and> 0 \<le> mouse_x m \<and> mouse_x m \<le> 79 \<and> 0 \<le> mouse_y m \<and> mouse_y m \<le> 24"

lemma clamp_range: "lo \<le> hi \<Longrightarrow> lo \<le> clamp lo hi v \<and> clamp lo hi v \<le> hi"
  by (simp add: clamp_def)

lemma mouse_start_ok: "mouse_ok mouse_start"
  by (simp add: mouse_ok_def mouse_start_def)

lemma mouse_irq_ok: "mouse_ok m \<Longrightarrow> mouse_ok (mouse_irq_handler_main b m)"
  by (auto simp: mouse_irq_handler_main_def mouse_ok_def Let_def clamp_def)

lemma mouse_feed_ok: "mouse_ok m \<Longrightarrow> mouse_ok (mouse_feed bs m)"
  by (induction bs arbitrary: m) (simp_all add: mouse_irq_ok)

text \<open>A packet read from its start.\<close>

lemma mouse_packet_read:
  assumes "mouse_packet m = []" "f AND 0x08 \<noteq> 0"
  shows "mouse_feed [f, dx, dy] m =
    m\<lparr>mouse_packet := [], mouse_x := clamp 0 79 (mouse_x m + (uint dx - (if f AND 0x10 \<noteq> 0 then 256 else 0))),
      mouse_y := clamp 0 24 (mouse_y m - (uint dy - (if f AND 0x20 \<noteq> 0 then 256 else 0))), mouse_buttons := f AND 0x07\<rparr>"
  using assms by (simp add: mouse_irq_handler_main_def Let_def)

lemma mouse_skips: "mouse_packet m = [] \<Longrightarrow> b AND 0x08 = 0 \<Longrightarrow> mouse_irq_handler_main b m = m"
  by (simp add: mouse_irq_handler_main_def)

text \<open>Two packets whose movement bytes have bit 3 clear bring the reader back to a packet boundary.\<close>

lemma mouse_resync:
  assumes m: "mouse_ok m" and bits: "f1 AND 0x08 \<noteq> 0" "f2 AND 0x08 \<noteq> 0" "x1 AND 0x08 = 0" "y1 AND 0x08 = 0" "x2 AND 0x08 = 0" "y2 AND 0x08 = 0"
  shows "mouse_packet (mouse_feed [f1, x1, y1, f2, x2, y2] m) = []"
proof -
  consider "mouse_packet m = []" | a where "mouse_packet m = [a]" | a b where "mouse_packet m = [a, b]"
    using m by (cases "mouse_packet m" rule: list.exhaust; cases "tl (mouse_packet m)") (auto simp: mouse_ok_def)
  then show ?thesis
    by cases (simp_all add: mouse_irq_handler_main_def Let_def bits)
qed

subsection \<open>Windows\<close>

record win =
  wx :: int
  wy :: int
  ww :: int
  wh :: int
  min_w :: int
  min_h :: int
  shown :: bool

record wm =
  windows :: "win list"
  win_order :: "nat list"
  dragging_win :: "nat option"
  drag_off_x :: int
  drag_off_y :: int
  resizing_win :: "nat option"

abbreviation (input) WIN_TERM :: nat where "WIN_TERM \<equiv> 0"
abbreviation (input) WIN_ABOUT :: nat where "WIN_ABOUT \<equiv> 1"
abbreviation (input) WIN_FILES :: nat where "WIN_FILES \<equiv> 2"
abbreviation (input) WIN_CALC :: nat where "WIN_CALC \<equiv> 3"
abbreviation (input) WIN_NOTEPAD :: nat where "WIN_NOTEPAD \<equiv> 4"
abbreviation (input) WIN_SNAKE :: nat where "WIN_SNAKE \<equiv> 5"
abbreviation (input) WIN_CLOCK :: nat where "WIN_CLOCK \<equiv> 6"
abbreviation (input) WIN_TODO :: nat where "WIN_TODO \<equiv> 7"

abbreviation (input) CHAR_W :: int where "CHAR_W \<equiv> 16"
abbreviation (input) SW :: int where "SW \<equiv> 800"
abbreviation (input) AREA_Y :: int where "AREA_Y \<equiv> 24"
abbreviation (input) BBAR_Y :: int where "BBAR_Y \<equiv> 576"
abbreviation (input) WIN_TITLE_H :: int where "WIN_TITLE_H \<equiv> 28"
abbreviation (input) WIN_CLOSE_SZ :: int where "WIN_CLOSE_SZ \<equiv> 16"
abbreviation (input) WIN_RESIZE_SZ :: int where "WIN_RESIZE_SZ \<equiv> 32"

definition win_at :: "int \<Rightarrow> int \<Rightarrow> int \<Rightarrow> int \<Rightarrow> int \<Rightarrow> int \<Rightarrow> win" where
  "win_at x y w h mw mh = \<lparr>wx = x, wy = y, ww = w, wh = h, min_w = mw, min_h = mh, shown = False\<rparr>"

definition wm_start :: wm where
  "wm_start = \<lparr>windows =
      [win_at 70 170 660 340 650 330, win_at 230 180 560 380 480 330, win_at 120 165 620 380 460 200,
       win_at 380 60 260 520 260 520, win_at 90 175 660 380 300 200, win_at 230 195 340 294 336 290,
       win_at 430 230 350 300 335 230, win_at 260 60 480 420 480 410],
    win_order = [WIN_TERM, WIN_ABOUT, WIN_FILES, WIN_CALC, WIN_NOTEPAD, WIN_SNAKE, WIN_CLOCK, WIN_TODO],
    dragging_win = None, drag_off_x = 0, drag_off_y = 0, resizing_win = None\<rparr>"

definition win_hit_titlebar :: "nat \<Rightarrow> int \<Rightarrow> int \<Rightarrow> wm \<Rightarrow> bool" where
  "win_hit_titlebar idx mx my s = (let w = windows s ! idx in
     if my < wy w \<or> my \<ge> wy w + WIN_TITLE_H then False
     else if mx < wx w \<or> mx \<ge> wx w + ww w then False
     else if mx \<ge> wx w + ww w - WIN_CLOSE_SZ - 8 then False
     else True)"

definition win_hit_close :: "nat \<Rightarrow> int \<Rightarrow> int \<Rightarrow> wm \<Rightarrow> bool" where
  "win_hit_close idx mx my s = (let w = windows s ! idx;
     bx = wx w + ww w - WIN_CLOSE_SZ - 6;
     by = wy w + (WIN_TITLE_H - WIN_CLOSE_SZ) div 2
     in mx \<ge> bx \<and> mx < bx + WIN_CLOSE_SZ \<and> my \<ge> by \<and> my < by + WIN_CLOSE_SZ)"

definition win_hit_resize :: "nat \<Rightarrow> int \<Rightarrow> int \<Rightarrow> wm \<Rightarrow> bool" where
  "win_hit_resize idx mx my s = (let w = windows s ! idx;
     rx = wx w + ww w - WIN_RESIZE_SZ;
     ry = wy w + wh w - WIN_RESIZE_SZ
     in mx \<ge> rx \<and> mx < wx w + ww w \<and> my \<ge> ry \<and> my < wy w + wh w)"

definition win_inside :: "win \<Rightarrow> int \<Rightarrow> int \<Rightarrow> bool" where
  "win_inside w mx my \<longleftrightarrow> mx \<ge> wx w \<and> mx < wx w + ww w \<and> my \<ge> wy w \<and> my < wy w + wh w"

definition win_topmost_at :: "int \<Rightarrow> int \<Rightarrow> wm \<Rightarrow> nat option" where
  "win_topmost_at mx my s =
     find (\<lambda>idx. shown (windows s ! idx) \<and> win_inside (windows s ! idx) mx my) (rev (win_order s))"

definition win_raise :: "nat \<Rightarrow> wm \<Rightarrow> wm option" where
  "win_raise idx s =
     (if idx \<in> set (win_order s)
      then let before = takeWhile (\<lambda>i. i \<noteq> idx) (win_order s);
               behind = tl (dropWhile (\<lambda>i. i \<noteq> idx) (win_order s))
           in Some (s\<lparr>win_order := before @ behind @ [idx]\<rparr>)
      else None)"

definition set_win :: "nat \<Rightarrow> (win \<Rightarrow> win) \<Rightarrow> wm \<Rightarrow> wm" where
  "set_win idx f s = s\<lparr>windows := (windows s)[idx := f (windows s ! idx)]\<rparr>"

definition win_open :: "nat \<Rightarrow> wm \<Rightarrow> wm option" where
  "win_open idx s = win_raise idx (set_win idx (\<lambda>w. w\<lparr>shown := True\<rparr>) s)"

definition win_close :: "nat \<Rightarrow> wm \<Rightarrow> wm" where
  "win_close idx s = (let s1 = set_win idx (\<lambda>w. w\<lparr>shown := False\<rparr>) s
     in if dragging_win s1 = Some idx then s1\<lparr>dragging_win := None\<rparr> else s1)"

definition win_focused :: "wm \<Rightarrow> nat option" where
  "win_focused s = find (\<lambda>idx. shown (windows s ! idx)) (rev (win_order s))"

definition win_content_rect :: "nat \<Rightarrow> wm \<Rightarrow> int \<times> int \<times> int \<times> int" where
  "win_content_rect idx s = (let w = windows s ! idx
     in (wx w + 2, wy w + 2 + WIN_TITLE_H, ww w - 4, wh w - 4 - WIN_TITLE_H))"

text \<open>\<^verbatim>\<open>handle_window_drag\<close> and \<^verbatim>\<open>handle_window_resize\<close>; the first argument says that the desktop is on the
  screen, the second that the left button is down.\<close>

definition win_moved :: "int \<Rightarrow> int \<Rightarrow> win \<Rightarrow> win" where
  "win_moved nx ny w =
     (let nx = (if nx < 0 then 0 else nx);
          nx = (if nx + ww w > SW then SW - ww w else nx);
          ny = (if ny < AREA_Y then AREA_Y else ny);
          ny = (if ny + wh w > BBAR_Y then BBAR_Y - wh w else ny)
      in w\<lparr>wx := nx, wy := ny\<rparr>)"

definition handle_window_drag :: "bool \<Rightarrow> bool \<Rightarrow> int \<Rightarrow> int \<Rightarrow> wm \<Rightarrow> wm" where
  "handle_window_drag desktop btn mx my s =
     (case dragging_win s of
        None \<Rightarrow> s
      | Some d \<Rightarrow>
          if \<not> desktop then s
          else if \<not> btn then s\<lparr>dragging_win := None\<rparr>
          else set_win d (win_moved (mx - drag_off_x s) (my - drag_off_y s)) s)"

definition win_resized :: "int \<Rightarrow> int \<Rightarrow> win \<Rightarrow> win" where
  "win_resized mx my w =
     (let nw = (if mx > wx w + WIN_RESIZE_SZ then mx - wx w else min_w w);
          nh = (if my > wy w + WIN_RESIZE_SZ then my - wy w else min_h w);
          nw = (if nw < min_w w then min_w w else nw);
          nh = (if nh < min_h w then min_h w else nh);
          nw = (if wx w + nw > SW then SW - wx w else nw);
          nh = (if wy w + nh > BBAR_Y then BBAR_Y - wy w else nh)
      in w\<lparr>ww := nw, wh := nh\<rparr>)"

definition handle_window_resize :: "bool \<Rightarrow> bool \<Rightarrow> int \<Rightarrow> int \<Rightarrow> wm \<Rightarrow> wm" where
  "handle_window_resize desktop btn mx my s =
     (case resizing_win s of
        None \<Rightarrow> s
      | Some d \<Rightarrow>
          if \<not> desktop then s
          else if \<not> btn then s\<lparr>resizing_win := None\<rparr>
          else set_win d (win_resized mx my) s)"

subsection \<open>The invariant\<close>

text \<open>A window lies between the title bar and the task bar, except that the calculator opens four pixels too low; it
  is at least as large as its minimum, up to those four pixels.\<close>

definition win_ok :: "win \<Rightarrow> bool" where
  "win_ok w \<longleftrightarrow> 0 \<le> wx w \<and> wx w + ww w \<le> SW \<and> AREA_Y \<le> wy w \<and>
     (wy w + wh w \<le> BBAR_Y \<or> wy w = 60 \<and> wh w = 520) \<and> 260 \<le> min_w w \<and> min_w w \<le> ww w \<and>
     200 \<le> min_h w \<and> min_h w \<le> 520 \<and> min_h w - 4 \<le> wh w"

definition wm_ok :: "wm \<Rightarrow> bool" where
  "wm_ok s \<longleftrightarrow> length (windows s) = 8 \<and> (\<forall>w\<in>set (windows s). win_ok w) \<and>
     distinct (win_order s) \<and> set (win_order s) = {..<8} \<and>
     (\<forall>d. dragging_win s = Some d \<longrightarrow> d < 8) \<and> (\<forall>d. resizing_win s = Some d \<longrightarrow> d < 8)"

lemma wm_start_ok: "wm_ok wm_start"
proof -
  have "set [WIN_TERM, WIN_ABOUT, WIN_FILES, WIN_CALC, WIN_NOTEPAD, WIN_SNAKE, WIN_CLOCK, WIN_TODO] = {..<8}" by auto
  then show ?thesis by (simp add: wm_ok_def wm_start_def win_at_def win_ok_def)
qed

lemma wm_okD:
  assumes "wm_ok s"
  shows "length (windows s) = 8" "idx < 8 \<Longrightarrow> win_ok (windows s ! idx)" "distinct (win_order s)" "set (win_order s) = {..<8}"
  using assms by (auto simp: wm_ok_def)

lemma set_win_ok: "wm_ok s \<Longrightarrow> idx < 8 \<Longrightarrow> (win_ok (windows s ! idx) \<Longrightarrow> win_ok (f (windows s ! idx))) \<Longrightarrow> wm_ok (set_win idx f s)"
  by (auto simp: wm_ok_def set_win_def dest!: set_update_subset_insert [THEN subsetD])

lemma moved_in_order: "idx \<in> set xs \<Longrightarrow> distinct xs \<Longrightarrow>
    takeWhile (\<lambda>i. i \<noteq> idx) xs @ tl (dropWhile (\<lambda>i. i \<noteq> idx) xs) = filter (\<lambda>i. i \<noteq> idx) xs"
  by (induction xs) (auto intro!: filter_True [symmetric])

lemma win_raise_order:
  assumes "wm_ok s" "idx < 8"
  shows "win_raise idx s = Some (s\<lparr>win_order := filter (\<lambda>i. i \<noteq> idx) (win_order s) @ [idx]\<rparr>)"
  using moved_in_order [of idx "win_order s"] wm_okD(3,4) [OF assms(1)] assms(2)
  by (simp add: win_raise_def Let_def)

lemma win_raise_ok:
  assumes "wm_ok s" "idx < 8"
  shows "\<exists>s'. win_raise idx s = Some s' \<and> wm_ok s' \<and> windows s' = windows s"
  using assms(1) by (auto simp: win_raise_order [OF assms] wm_ok_def assms(2))

lemma win_open_ok:
  assumes "wm_ok s" "idx < 8"
  shows "\<exists>s'. win_open idx s = Some s' \<and> wm_ok s'"
proof -
  have "wm_ok (set_win idx (\<lambda>w. w\<lparr>shown := True\<rparr>) s)" by (rule set_win_ok [OF assms]) (simp add: win_ok_def)
  then show ?thesis using win_raise_ok [OF _ assms(2)] by (auto simp: win_open_def)
qed

lemma win_close_ok: "wm_ok s \<Longrightarrow> idx < 8 \<Longrightarrow> wm_ok (win_close idx s)"
proof -
  assume "wm_ok s" "idx < 8"
  then have "wm_ok (set_win idx (\<lambda>w. w\<lparr>shown := False\<rparr>) s)" by (rule set_win_ok) (simp add: win_ok_def)
  then show ?thesis by (simp add: win_close_def Let_def wm_ok_def)
qed

lemma win_topmost_some:
  assumes "wm_ok s" "win_topmost_at mx my s = Some idx"
  shows "idx < 8" "shown (windows s ! idx)" "win_inside (windows s ! idx) mx my"
  using assms(2) wm_okD(4) [OF assms(1)] by (auto simp: win_topmost_at_def find_Some_iff) (metis in_set_conv_nth length_rev lessThan_iff set_rev)

lemma win_focused_some: "wm_ok s \<Longrightarrow> win_focused s = Some idx \<Longrightarrow> idx < 8 \<and> shown (windows s ! idx)"
  using wm_okD(4) [of s] by (auto simp: win_focused_def find_Some_iff) (metis in_set_conv_nth length_rev lessThan_iff set_rev)

lemma win_moved_ok: "win_ok w \<Longrightarrow> win_ok (win_moved nx ny w)"
  by (auto simp: win_ok_def win_moved_def Let_def)

lemma win_resized_ok: "win_ok w \<Longrightarrow> win_ok (win_resized mx my w)"
  by (auto simp: win_ok_def win_resized_def Let_def)

lemma window_drag_ok: "wm_ok s \<Longrightarrow> wm_ok (handle_window_drag desktop btn mx my s)"
  by (auto simp: handle_window_drag_def split: option.splits intro!: set_win_ok win_moved_ok) (auto simp: wm_ok_def)

lemma window_resize_ok: "wm_ok s \<Longrightarrow> wm_ok (handle_window_resize desktop btn mx my s)"
  by (auto simp: handle_window_resize_def split: option.splits intro!: set_win_ok win_resized_ok) (auto simp: wm_ok_def)

text \<open>The calculator in its first position: every resize, also to its present size, leaves it lower than its minimum.\<close>

lemma calc_window_shrinks:
  "wy w = 60 \<Longrightarrow> wh w = 520 \<Longrightarrow> min_h w = 520 \<Longrightarrow> my \<le> BBAR_Y \<Longrightarrow> wh (win_resized mx my w) = 516 \<and> wh (win_resized mx my w) < min_h w"
  by (simp add: win_resized_def Let_def)

lemma clicked_is_shown:
  "wm_ok s \<Longrightarrow> win_topmost_at mx my s = Some idx \<Longrightarrow> win_raise idx s = Some s' \<Longrightarrow> win_focused s' = Some idx"
  using win_topmost_some [of s mx my idx] win_raise_order [of s idx] by (auto simp: win_focused_def)

end
