(* ===== verification/ShellFiles.thy ===== *)
theory ShellFiles
  imports Fat12Map ShellWin
begin

section \<open>The file manager of the graphical shell\<close>

text \<open>
  \<^verbatim>\<open>AxFiles\<close> in \<^verbatim>\<open>gfx_shell.c\<close>: the list of the root directory, the preview, and the dialogs that create, rename and
  delete a file. Names are the bytes of the C strings, a click handler gets the content rectangle of its window. The
  lemmas rest on the interface \<open>file_store\<close> of the volume.
\<close>

abbreviation (input) FILES_PAD :: int where "FILES_PAD \<equiv> 10"
abbreviation (input) FILES_ROW_H :: int where "FILES_ROW_H \<equiv> CHAR_W"
abbreviation (input) FILES_BTN_W :: int where "FILES_BTN_W \<equiv> 3 * CHAR_W"
abbreviation (input) FILES_MAX :: nat where "FILES_MAX \<equiv> 64"
abbreviation (input) FILES_PREVIEW_MAX :: nat where "FILES_PREVIEW_MAX \<equiv> 4096"
abbreviation (input) FILES_RENAME_MAX :: nat where "FILES_RENAME_MAX \<equiv> 65536"
abbreviation (input) TCOLS :: int where "TCOLS \<equiv> 38"

text \<open>\<open>files_names\<close> and \<open>files_sizes\<close> hold the first \<^verbatim>\<open>files_count\<close> cells of the arrays, \<open>files_input_buf\<close> the
  \<^verbatim>\<open>files_input_len\<close> characters of the dialog.\<close>

record files_app =
  fat12_ok :: bool
  files_names :: "u8 list list"
  files_sizes :: "nat list"
  files_scroll :: int
  files_preview_mode :: bool
  files_confirm_delete :: bool
  files_input_mode :: nat
  files_input_buf :: "u8 list"
  files_rename_from :: "u8 list"
  files_preview_name :: "u8 list"
  files_preview_buf :: "u8 list"
  files_preview_truncated :: bool
  files_preview_scroll :: nat

abbreviation files_count :: "files_app \<Rightarrow> nat" where
  "files_count a \<equiv> length (files_names a)"

primrec scan_from :: "nat \<Rightarrow> nat \<Rightarrow> fat12 \<Rightarrow> (u8 list \<times> nat) list" where
  "scan_from 0 i s = []"
| "scan_from (Suc n) i s =
     (case fat12_readdir i s of None \<Rightarrow> [] | Some (nm, sz, is_dir) \<Rightarrow> (nm, sz) # scan_from n (Suc i) s)"

definition files_scan :: "fat12 \<Rightarrow> files_app \<Rightarrow> files_app" where
  "files_scan s a = (let found = scan_from FILES_MAX 0 s in a\<lparr>files_names := map fst found, files_sizes := map snd found\<rparr>)"

definition files_open_preview :: "nat \<Rightarrow> fat12 \<Rightarrow> files_app \<Rightarrow> files_app option" where
  "files_open_preview idx s a =
     map_option (\<lambda>bs. a\<lparr>files_preview_name := take 12 (files_names a ! idx), files_preview_buf := bs,
         files_preview_truncated := length bs < files_sizes a ! idx, files_preview_scroll := 0, files_preview_mode := True\<rparr>)
       (fat12_load (files_names a ! idx) FILES_PREVIEW_MAX s)"

text \<open>The rename reads the old file, writes the new one and deletes the old one, without looking at a result.\<close>

definition files_input_confirm :: "files_app \<Rightarrow> fat12 \<Rightarrow> (files_app \<times> fat12) option" where
  "files_input_confirm a s =
     (case (if files_input_mode a = 1 then map_option (\<lambda>(r, s1). (a, s1)) (fat12_write (files_input_buf a) [] s)
            else if files_input_mode a = 2
            then (case fat12_load (files_rename_from a) FILES_RENAME_MAX s of
                    None \<Rightarrow> None
                  | Some bs \<Rightarrow>
                      (case fat12_write (files_input_buf a) bs s of
                         None \<Rightarrow> None
                       | Some (r, s1) \<Rightarrow> map_option (\<lambda>(d, s2). (a\<lparr>files_preview_mode := False\<rparr>, s2)) (fat12_delete (files_rename_from a) s1)))
            else Some (a, s)) of
        None \<Rightarrow> None
      | Some (a1, s1) \<Rightarrow> Some ((files_scan s1 a1)\<lparr>files_input_mode := 0\<rparr>, s1))"

definition files_input_press :: "u8 \<Rightarrow> files_app \<Rightarrow> fat12 \<Rightarrow> (files_app \<times> fat12) option" where
  "files_input_press c a s =
     (if c = 0 then Some (a, s)
      else if c = 10 then (if files_input_buf a \<noteq> [] then files_input_confirm a s else Some (a, s))
      else if c = 8 then Some (a\<lparr>files_input_buf := butlast (files_input_buf a)\<rparr>, s)
      else if length (files_input_buf a) < 12 then Some (a\<lparr>files_input_buf := files_input_buf a @ [c]\<rparr>, s)
      else Some (a, s))"

subsection \<open>Layout and clicks\<close>

text \<open>The result is \<open>(list_y0, visible_rows, up_x, down_x, btn_y, size_right, new_x)\<close>; a negative number of rows is set to zero, so
  the direction in which the division rounds does not matter.\<close>

definition files_layout :: "int \<times> int \<times> int \<times> int \<Rightarrow> int \<times> int \<times> int \<times> int \<times> int \<times> int \<times> int" where
  "files_layout rect = (case rect of (cx0, cy0, cw, ch) \<Rightarrow>
     let header_y = cy0 + FILES_PAD;
         down_x = cx0 + cw - FILES_PAD - FILES_BTN_W;
         up_x = down_x - FILES_BTN_W - 8;
         size_right = up_x - 16;
         list_y0 = header_y + FILES_ROW_H + 6;
         visible_rows = (cy0 + ch - FILES_PAD - list_y0) div FILES_ROW_H;
         visible_rows = (if visible_rows < 0 then 0 else visible_rows);
         new_x = cx0 + FILES_PAD + 6 * CHAR_W
     in (list_y0, visible_rows, up_x, down_x, header_y, size_right, new_x))"

text \<open>\<open>(back_x, back_y, text_y0, visible_rows, max_cols, rename_x)\<close>\<close>

definition files_preview_layout :: "int \<times> int \<times> int \<times> int \<Rightarrow> int \<times> int \<times> int \<times> int \<times> int \<times> int" where
  "files_preview_layout rect = (case rect of (cx0, cy0, cw, ch) \<Rightarrow>
     let back_x = cx0 + FILES_PAD;
         back_y = cy0 + FILES_PAD;
         text_y0 = back_y + FILES_ROW_H + 6;
         visible_rows = (cy0 + ch - FILES_PAD - text_y0) div FILES_ROW_H;
         visible_rows = (if visible_rows < 0 then 0 else visible_rows);
         max_cols = (cw - 2 * FILES_PAD) div CHAR_W;
         max_cols = (if max_cols > TCOLS then TCOLS else max_cols);
         max_cols = (if max_cols < 1 then 1 else max_cols)
     in (back_x, back_y, text_y0, visible_rows, max_cols, (cx0 + cw - FILES_PAD - 8 * CHAR_W) - 9 * CHAR_W))"

definition files_confirm_layout :: "int \<times> int \<times> int \<times> int \<Rightarrow> int \<times> int \<times> int" where
  "files_confirm_layout rect = (case rect of (cx0, cy0, cw, ch) \<Rightarrow>
     let yes_x = cx0 + FILES_PAD in (yes_x, yes_x + 6 * CHAR_W + 16, cy0 + FILES_PAD + FILES_ROW_H + 10))"

definition spans :: "int \<Rightarrow> int \<Rightarrow> int \<Rightarrow> bool" where
  "spans v lo len \<longleftrightarrow> v \<ge> lo \<and> v < lo + len"

definition click_input :: "int \<Rightarrow> int \<Rightarrow> int \<times> int \<times> int \<times> int \<Rightarrow> files_app \<Rightarrow> fat12 \<Rightarrow> (files_app \<times> fat12) option" where
  "click_input mx my rect a s = (case rect of (cx0, cy0, cw, ch) \<Rightarrow>
     let x = cx0 + FILES_PAD;
         input_y = cy0 + FILES_PAD + 2 * FILES_ROW_H;
         btn_y = input_y + 2 * FILES_ROW_H
     in if \<not> spans my btn_y FILES_ROW_H then Some (a, s)
        else if spans mx x (4 * CHAR_W) then (if files_input_buf a \<noteq> [] then files_input_confirm a s else Some (a, s))
        else if spans mx (x + 5 * CHAR_W) (8 * CHAR_W) then Some (a\<lparr>files_input_mode := 0\<rparr>, s)
        else Some (a, s))"

definition click_confirm_delete :: "int \<Rightarrow> int \<Rightarrow> int \<times> int \<times> int \<times> int \<Rightarrow> files_app \<Rightarrow> fat12 \<Rightarrow> (files_app \<times> fat12) option" where
  "click_confirm_delete mx my rect a s = (case files_confirm_layout rect of (yes_x, no_x, btn_y) \<Rightarrow>
     if \<not> spans my btn_y FILES_ROW_H then Some (a, s)
     else if spans mx yes_x (5 * CHAR_W)
     then map_option (\<lambda>(r, s1). ((files_scan s1 a)\<lparr>files_confirm_delete := False, files_preview_mode := False\<rparr>, s1))
            (fat12_delete (files_preview_name a) s)
     else if spans mx no_x (4 * CHAR_W) then Some (a\<lparr>files_confirm_delete := False\<rparr>, s)
     else Some (a, s))"

definition click_preview :: "int \<Rightarrow> int \<Rightarrow> int \<times> int \<times> int \<times> int \<Rightarrow> files_app \<Rightarrow> files_app" where
  "click_preview mx my rect a = (case rect of (cx0, cy0, cw, ch) \<Rightarrow>
     case files_preview_layout rect of (back_x, back_y, text_y0, visible_rows, max_cols, rename_x) \<Rightarrow>
     if spans mx back_x (8 * CHAR_W) \<and> spans my back_y FILES_ROW_H then a\<lparr>files_preview_mode := False\<rparr>
     else if spans mx (cx0 + cw - FILES_PAD - 8 * CHAR_W) (8 * CHAR_W) \<and> spans my back_y FILES_ROW_H
     then a\<lparr>files_confirm_delete := True\<rparr>
     else if spans mx rename_x (8 * CHAR_W) \<and> spans my back_y FILES_ROW_H
     then a\<lparr>files_rename_from := take 12 (files_preview_name a), files_input_mode := 2, files_input_buf := []\<rparr>
     else a)"

definition click_row :: "int \<Rightarrow> int \<times> int \<times> int \<times> int \<Rightarrow> files_app \<Rightarrow> fat12 \<Rightarrow> files_app option" where
  "click_row my rect a s = (case files_layout rect of (list_y0, visible_rows, _) \<Rightarrow>
     let row = (my - list_y0) div FILES_ROW_H; idx = files_scroll a + row
     in if files_count a \<noteq> 0 \<and> my \<ge> list_y0 \<and> row < visible_rows \<and> idx < int (files_count a)
        then files_open_preview (nat idx) s a else Some a)"

definition click_list :: "int \<Rightarrow> int \<Rightarrow> int \<times> int \<times> int \<times> int \<Rightarrow> files_app \<Rightarrow> fat12 \<Rightarrow> files_app option" where
  "click_list mx my rect a s =
     (case files_layout rect of (list_y0, visible_rows, up_x, down_x, btn_y, size_right, new_x) \<Rightarrow>
        if spans my btn_y FILES_ROW_H \<and> spans mx new_x (5 * CHAR_W)
        then Some (a\<lparr>files_input_mode := 1, files_input_buf := []\<rparr>)
        else if spans my btn_y FILES_ROW_H \<and> files_count a > 0 \<and> spans mx up_x FILES_BTN_W
        then Some (a\<lparr>files_scroll := max 0 (files_scroll a - visible_rows)\<rparr>)
        else if spans my btn_y FILES_ROW_H \<and> files_count a > 0 \<and> spans mx down_x FILES_BTN_W
        then Some (a\<lparr>files_scroll := files_scroll a + visible_rows\<rparr>)
        else click_row my rect a s)"

definition handle_files_content_click ::
  "int \<Rightarrow> int \<Rightarrow> int \<times> int \<times> int \<times> int \<Rightarrow> files_app \<Rightarrow> fat12 \<Rightarrow> (files_app \<times> fat12) option" where
  "handle_files_content_click mx my rect a s =
     (if files_input_mode a \<noteq> 0 then click_input mx my rect a s
      else if files_confirm_delete a then click_confirm_delete mx my rect a s
      else if files_preview_mode a then Some (click_preview mx my rect a, s)
      else if \<not> fat12_ok a then Some (a, s)
      else map_option (\<lambda>a1. (a1, s)) (click_list mx my rect a s))"

text \<open>What drawing the list changes: the scroll position is put into range.\<close>

definition render_files_list :: "int \<times> int \<times> int \<times> int \<Rightarrow> files_app \<Rightarrow> files_app" where
  "render_files_list rect a =
     (if \<not> fat12_ok a \<or> files_count a = 0 then a
      else case files_layout rect of (list_y0, visible_rows, _) \<Rightarrow>
        let max_scroll = int (files_count a) - visible_rows;
            max_scroll = (if max_scroll < 0 then 0 else max_scroll);
            sc = files_scroll a;
            sc = (if sc > max_scroll then max_scroll else sc);
            sc = (if sc < 0 then 0 else sc)
        in a\<lparr>files_scroll := sc\<rparr>)"

definition render_files :: "int \<times> int \<times> int \<times> int \<Rightarrow> files_app \<Rightarrow> files_app" where
  "render_files rect a =
     (if files_input_mode a \<noteq> 0 \<or> files_confirm_delete a \<or> files_preview_mode a then a else render_files_list rect a)"

text \<open>The lines of the preview: a break at every newline and after \<open>cols\<close> characters. \<open>render_files_preview\<close> draws those
  in the window.\<close>

function preview_lines :: "nat \<Rightarrow> u8 list \<Rightarrow> u8 list \<Rightarrow> u8 list list" where
  "preview_lines cols line [] = [line]"
| "preview_lines cols line (c # cs) =
     (if c = 10 then line # preview_lines cols [] cs
      else if length line \<ge> cols \<and> line \<noteq> [] then line # preview_lines cols [] (c # cs)
      else preview_lines cols (line @ [c]) cs)"
  by pat_completeness auto
termination
  by (relation "measures [\<lambda>(cols, line, cs). length cs, \<lambda>(cols, line, cs). length line]") auto

definition render_files_preview :: "int \<times> int \<times> int \<times> int \<Rightarrow> files_app \<Rightarrow> u8 list list" where
  "render_files_preview rect a =
     (case files_preview_layout rect of (back_x, back_y, text_y0, visible_rows, max_cols, rename_x) \<Rightarrow>
        take (nat visible_rows) (drop (files_preview_scroll a) (preview_lines (nat max_cols) [] (files_preview_buf a))))"

subsection \<open>The list shows the volume\<close>

definition dir_listing :: "fat12 \<Rightarrow> (u8 list \<times> nat) list" where
  "dir_listing s = (if fat12_ready s
     then map (\<lambda>e. (show_83 (img s) e, ent_size (img s) e)) (filter (\<lambda>e. ent_attr (img s) e AND 0x08 = 0) (used_entries (img s)))
     else [])"

lemma readdir_listing:
  "map_option (\<lambda>(nm, sz, d). (nm, sz)) (fat12_readdir i s) = (if i < length (dir_listing s) then Some (dir_listing s ! i) else None)"
  by (simp add: fat12_readdir_def dir_listing_def Let_def)

lemma scan_from_listing: "scan_from n i s = take n (drop i (dir_listing s))"
proof (induction n arbitrary: i)
  case 0
  then show ?case by simp
next
  case (Suc n)
  show ?case
  proof (cases "fat12_readdir i s")
    case None
    then have "\<not> i < length (dir_listing s)" using readdir_listing [of i s] by (auto split: if_splits)
    then show ?thesis using None by simp
  next
    case (Some r)
    obtain nm sz d where r: "r = (nm, sz, d)" by (cases r) auto
    have "i < length (dir_listing s)" "dir_listing s ! i = (nm, sz)"
      using readdir_listing [of i s] Some r by (auto split: if_splits)
    then show ?thesis using Some r Suc.IH by (simp add: Cons_nth_drop_Suc [symmetric])
  qed
qed

lemma files_scan_shows: "zip (files_names (files_scan s a)) (files_sizes (files_scan s a)) = take 64 (dir_listing s)"
  by (simp add: files_scan_def Let_def scan_from_listing zip_map_fst_snd)

lemma takeWhile_len: "length xs \<le> n \<Longrightarrow> length (takeWhile P xs) \<le> n"
  using length_takeWhile_le [of P xs] by linarith

lemma show_83_len: "length (show_83 m e) \<le> 12"
proof -
  have "length (takeWhile (\<lambda>c. c \<noteq> 0x20) (ent_name m e)) \<le> 8" "length (takeWhile (\<lambda>c. c \<noteq> 0x20) (ent_ext m e)) \<le> 3"
    by (rule takeWhile_len, simp)+
  then show ?thesis by (simp add: show_83_def)
qed

lemma files_scan_ok:
  "length (files_names (files_scan s a)) \<le> 64" "length (files_sizes (files_scan s a)) = length (files_names (files_scan s a))"
  "\<forall>nm\<in>set (files_names (files_scan s a)). length nm \<le> 12"
  by (auto simp: files_scan_def Let_def scan_from_listing dir_listing_def show_83_len dest!: set_take_subset [THEN subsetD] split: if_splits)

subsection \<open>The preview shows every character\<close>

lemma preview_lines_all: "concat (preview_lines cols line cs) = line @ filter (\<lambda>c. c \<noteq> 10) cs"
  by (induction cols line cs rule: preview_lines.induct) auto

lemma preview_lines_fit:
  "0 < cols \<Longrightarrow> length line \<le> cols \<Longrightarrow> l \<in> set (preview_lines cols line cs) \<Longrightarrow> length l \<le> cols"
  by (induction cols line cs rule: preview_lines.induct) (auto split: if_splits)

subsection \<open>Names typed at the keyboard\<close>

definition typed :: "u8 \<Rightarrow> bool" where
  "typed c \<longleftrightarrow> uint c < 128 \<and> c \<noteq> 0 \<and> c \<noteq> 8 \<and> c \<noteq> 10"

lemma typed_char: "typed c \<Longrightarrow> c \<noteq> 0 \<and> c \<noteq> 10 \<and> c \<noteq> 0xE5 \<and> upper8 c \<noteq> 0xE5"
proof -
  assume t: "typed c"
  then have "uint (upper8 c) < 128" by (auto simp: typed_def upper8_def word_le_def uint_sub_if')
  then show ?thesis using t by (auto simp: typed_def)
qed

lemma typed_storable: "list_all typed f \<Longrightarrow> storable f"
proof -
  assume t: "list_all typed f"
  have "0 \<notin> set f" using t typed_char by (auto simp: list_all_iff)
  moreover have "hd (fst (parse_83 f)) \<noteq> 0xE5"
  proof (cases f)
    case Nil
    then show ?thesis by (simp add: parse_83_def pad_to_def)
  next
    case (Cons c cs)
    then show ?thesis using t typed_char [of c]
      by (cases "c = 0x2E") (simp_all add: parse_83_def pad_to_def split_beta Let_def)
  qed
  ultimately show ?thesis by (simp add: storable_def parse_hd_nonzero)
qed

subsection \<open>The invariant of the file manager\<close>

definition fm_ok :: "files_app \<Rightarrow> bool" where
  "fm_ok a \<longleftrightarrow> files_count a \<le> 64 \<and> length (files_sizes a) = files_count a \<and> (\<forall>nm\<in>set (files_names a). length nm \<le> 12) \<and>
     0 \<le> files_scroll a \<and> files_input_mode a \<le> 2 \<and> length (files_input_buf a) \<le> 12 \<and> list_all typed (files_input_buf a) \<and>
     length (files_preview_buf a) \<le> 4096 \<and> length (files_rename_from a) \<le> 12 \<and> length (files_preview_name a) \<le> 12"

lemma fm_ok_scan: "fm_ok a \<Longrightarrow> fm_ok (files_scan s a)"
  using files_scan_ok [of s a] by (simp add: fm_ok_def files_scan_def Let_def)

lemma fm_ok_flags [simp]:
  "fm_ok (a\<lparr>files_preview_mode := b\<rparr>) = fm_ok a" "fm_ok (a\<lparr>files_confirm_delete := b\<rparr>) = fm_ok a"
  "n \<le> 2 \<Longrightarrow> fm_ok a \<Longrightarrow> fm_ok (a\<lparr>files_input_mode := n\<rparr>)"
  "0 \<le> i \<Longrightarrow> fm_ok a \<Longrightarrow> fm_ok (a\<lparr>files_scroll := i\<rparr>)"
  "fm_ok a \<Longrightarrow> length bs \<le> 12 \<Longrightarrow> list_all typed bs \<Longrightarrow> fm_ok (a\<lparr>files_input_buf := bs\<rparr>)"
  "fm_ok a \<Longrightarrow> length bs \<le> 12 \<Longrightarrow> fm_ok (a\<lparr>files_rename_from := bs\<rparr>)"
  by (simp_all add: fm_ok_def)

lemma fm_ok_storable: "fm_ok a \<Longrightarrow> storable (files_input_buf a)"
  by (simp add: fm_ok_def typed_storable)

text \<open>What a rename leaves on the volume: the old name is gone in every case.\<close>

lemma rename_outcomes:
  assumes g: "vol_good s" and m: "files_input_mode a = 2" and st: "storable (files_input_buf a)"
  defines "new \<equiv> parse_83 (files_input_buf a)" and "old \<equiv> parse_83 (files_rename_from a)"
    and "bs \<equiv> take FILES_RENAME_MAX (case files (img s) (parse_83 (files_rename_from a)) of None \<Rightarrow> [] | Some d \<Rightarrow> d)"
  shows "\<exists>a' s' r s1 M. files_input_confirm a s = Some (a', s') \<and> vol_good s' \<and> files (img s') = M(old := None) \<and>
    fat12_write (files_input_buf a) bs s = Some (r, s1) \<and>
    (r = 1 \<and> M = (files (img s))(new \<mapsto> bs) \<or> r = 0 \<and> (M = files (img s) \<or> M = (files (img s))(new \<mapsto> []))) \<and>
    a' = (files_scan s' (a\<lparr>files_preview_mode := False\<rparr>))\<lparr>files_input_mode := 0\<rparr>"
proof -
  have l: "fat12_load (files_rename_from a) FILES_RENAME_MAX s = Some bs"
    unfolding bs_def by (rule vol.load_law [OF g])
  have len: "length bs \<le> 4294836736" unfolding bs_def by simp
  obtain r s1 where w: "fat12_write (files_input_buf a) bs s = Some (r, s1)" "vol_good s1"
    "r = 1 \<and> files (img s1) = (files (img s))(new \<mapsto> bs) \<or>
     r = 0 \<and> (files (img s1) = files (img s) \<or> files (img s1) = (files (img s))(new \<mapsto> []))"
    using vol.save_law [OF g st len] unfolding new_def by auto
  obtain d s2 where e: "fat12_delete (files_rename_from a) s1 = Some (d, s2)" "vol_good s2" "files (img s2) = (files (img s1))(old := None)"
    using vol.erase_law [OF w(2), of "files_rename_from a"] unfolding old_def by auto
  have "files_input_confirm a s = Some ((files_scan s2 (a\<lparr>files_preview_mode := False\<rparr>))\<lparr>files_input_mode := 0\<rparr>, s2)"
    by (simp add: files_input_confirm_def m l w(1) e(1))
  then show ?thesis using e(2,3) w(1,3) by blast
qed

lemma files_input_confirm_ok:
  assumes g: "vol_good s" and ok: "fm_ok a"
  shows "\<exists>a' s'. files_input_confirm a s = Some (a', s') \<and> vol_good s' \<and> fm_ok a'"
proof (cases "files_input_mode a = 2")
  case True
  from rename_outcomes [OF g True fm_ok_storable [OF ok]] show ?thesis
    using ok by (auto simp: fm_ok_scan)
next
  case False
  show ?thesis
  proof (cases "files_input_mode a = 1")
    case True
    obtain r s1 where "fat12_write (files_input_buf a) [] s = Some (r, s1)" "vol_good s1"
      using vol.save_law [OF g fm_ok_storable [OF ok], of "[]"] by auto
    then show ?thesis using True ok by (simp add: files_input_confirm_def fm_ok_scan)
  next
    case False
    then show ?thesis using \<open>files_input_mode a \<noteq> 2\<close> g ok by (simp add: files_input_confirm_def fm_ok_scan)
  qed
qed

lemma files_input_press_ok:
  assumes g: "vol_good s" and ok: "fm_ok a" and c: "uint c < 128"
  shows "\<exists>a' s'. files_input_press c a s = Some (a', s') \<and> vol_good s' \<and> fm_ok a'"
proof -
  have b: "length (files_input_buf a) \<le> 12" "list_all typed (files_input_buf a)" using ok by (simp_all add: fm_ok_def)
  have "list_all typed (butlast (files_input_buf a))" using b(2) by (auto simp: list_all_iff dest: in_set_butlastD)
  moreover have "typed c" if "c \<noteq> 0" "c \<noteq> 8" "c \<noteq> 10" using that c by (simp add: typed_def)
  ultimately show ?thesis using files_input_confirm_ok [OF g ok] g ok b by (simp add: files_input_press_def)
qed

lemma files_open_preview_ok:
  assumes g: "vol_good s" and ok: "fm_ok a" and idx: "idx < files_count a"
  shows "\<exists>a'. files_open_preview idx s a = Some a' \<and> fm_ok a'"
proof -
  have "length (files_names a ! idx) \<le> 12" using ok idx by (simp add: fm_ok_def)
  then show ?thesis using vol.load_law [OF g, of "files_names a ! idx" FILES_PREVIEW_MAX] ok
    by (simp add: files_open_preview_def fm_ok_def)
qed

lemma files_layout_rows: "files_layout rect = (ly, vr, ux, dx, byy, sr, nx) \<Longrightarrow> 0 \<le> vr"
  by (auto simp: files_layout_def Let_def split: prod.splits if_splits)

lemma click_list_ok:
  assumes g: "vol_good s" and ok: "fm_ok a"
  shows "\<exists>a'. click_list mx my rect a s = Some a' \<and> fm_ok a'"
proof -
  obtain ly vr ux dx byy sr nx where l: "files_layout rect = (ly, vr, ux, dx, byy, sr, nx)" by (metis prod_cases7)
  have sc: "0 \<le> files_scroll a" using ok by (simp add: fm_ok_def)
  have vr: "0 \<le> vr" using files_layout_rows [OF l] .
  have "\<exists>a'. click_row my rect a s = Some a' \<and> fm_ok a'"
  proof (cases "files_count a \<noteq> 0 \<and> my \<ge> ly \<and> (my - ly) div FILES_ROW_H < vr \<and> files_scroll a + (my - ly) div FILES_ROW_H < int (files_count a)")
    case True
    then have "nat (files_scroll a + (my - ly) div FILES_ROW_H) < files_count a" using sc by auto
    from files_open_preview_ok [OF g ok this] show ?thesis using True by (simp add: click_row_def l Let_def)
  next
    case False
    then have "click_row my rect a s = Some a" unfolding click_row_def l Let_def prod.case by (simp only: if_False)
    then show ?thesis using ok by simp
  qed
  then show ?thesis using ok sc vr by (simp add: click_list_def l)
qed

lemma files_click_ok:
  assumes g: "vol_good s" and ok: "fm_ok a"
  shows "\<exists>a' s'. handle_files_content_click mx my rect a s = Some (a', s') \<and> vol_good s' \<and> fm_ok a'"
proof -
  have 1: "\<exists>a' s'. click_input mx my rect a s = Some (a', s') \<and> vol_good s' \<and> fm_ok a'"
    using files_input_confirm_ok [OF g ok] g ok by (auto simp: click_input_def Let_def split: prod.splits)
  obtain r s1 where "fat12_delete (files_preview_name a) s = Some (r, s1)" "vol_good s1"
    using vol.erase_law [OF g, of "files_preview_name a"] by blast
  then have 2: "\<exists>a' s'. click_confirm_delete mx my rect a s = Some (a', s') \<and> vol_good s' \<and> fm_ok a'"
    using g ok by (auto simp: click_confirm_delete_def fm_ok_scan split: prod.splits)
  have "length (take 12 (files_preview_name a)) \<le> 12" by simp
  then have 3: "fm_ok (click_preview mx my rect a)" using ok by (auto simp: click_preview_def fm_ok_def split: prod.splits)
  show ?thesis using 1 2 3 click_list_ok [OF g ok] g ok by (auto simp: handle_files_content_click_def)
qed

lemma render_files_ok: "fm_ok a \<Longrightarrow> fm_ok (render_files rect a)"
  by (auto simp: render_files_def render_files_list_def Let_def fm_ok_def split: prod.splits)

end
