(* ===== verification/ShellNotes.thy ===== *)
theory ShellNotes
  imports ShellFiles
begin

section \<open>Notepad and task list of the graphical shell\<close>

text \<open>
  \<^verbatim>\<open>AxNotepad\<close> and \<^verbatim>\<open>AxTodo\<close> in \<^verbatim>\<open>gfx_shell.c\<close>. A text is a list of rows, a row the list of its first \<^verbatim>\<open>np_len\<close>
  bytes; a task is its text and its mark. Both keep their data in a file of the volume.
\<close>

subsection \<open>Notepad\<close>

abbreviation (input) NP_MAX_ROWS :: nat where "NP_MAX_ROWS \<equiv> 24"
abbreviation (input) NP_MAX_COLS :: nat where "NP_MAX_COLS \<equiv> 48"
abbreviation (input) NP_PAD :: int where "NP_PAD \<equiv> 8"

definition NOTES_TXT :: "u8 list" where
  "NOTES_TXT = [0x4E, 0x4F, 0x54, 0x45, 0x53, 0x2E, 0x54, 0x58, 0x54]"

datatype np_note = NoNote | Saved_notes | Save_failed | No_saved_file | Loaded_notes

record np_app =
  np_lines :: "u8 list list"
  np_row :: nat
  np_col :: nat
  np_status :: np_note
  np_status_timer :: nat

definition np_start :: np_app where
  "np_start = \<lparr>np_lines = replicate NP_MAX_ROWS [], np_row = 0, np_col = 0, np_status = NoNote, np_status_timer = 0\<rparr>"

definition np_status_set :: "np_note \<Rightarrow> np_app \<Rightarrow> np_app" where
  "np_status_set n a = a\<lparr>np_status := n, np_status_timer := 90\<rparr>"

text \<open>\<open>(text_x0, text_y0, visible_rows, visible_cols, save_x, load_x, btn_y)\<close>\<close>

definition np_layout :: "int \<times> int \<times> int \<times> int \<Rightarrow> int \<times> int \<times> nat \<times> nat \<times> int \<times> int \<times> int" where
  "np_layout rect = (case rect of (cx0, cy0, cw, ch) \<Rightarrow>
     let btn_y = cy0 + NP_PAD;
         save_x = cx0 + NP_PAD;
         load_x = save_x + 7 * CHAR_W;
         text_y0 = cy0 + NP_PAD + CHAR_W + 6;
         rows = (cy0 + ch - NP_PAD - text_y0) div CHAR_W;
         rows = (if rows > int NP_MAX_ROWS then int NP_MAX_ROWS else rows);
         rows = (if rows < 1 then 1 else rows);
         cols = (cw - 2 * NP_PAD) div CHAR_W;
         cols = (if cols > int NP_MAX_COLS then int NP_MAX_COLS else cols);
         cols = (if cols < 1 then 1 else cols)
     in (cx0 + NP_PAD, text_y0, nat rows, nat cols, save_x, load_x, btn_y))"

definition np_size :: "int \<times> int \<times> int \<times> int \<Rightarrow> nat \<times> nat" where
  "np_size rect = (case np_layout rect of (tx0, ty0, vrows, vcols, sx, lx, byy) \<Rightarrow> (vrows, vcols))"

definition np_press :: "u8 \<Rightarrow> int \<times> int \<times> int \<times> int \<Rightarrow> np_app \<Rightarrow> np_app" where
  "np_press c rect a =
     (case np_size rect of (vrows, vcols) \<Rightarrow>
        if c = 0 then a
        else if c = 10 then
          (if np_row a + 1 < vrows
           then a\<lparr>np_lines := (np_lines a)[np_row a + 1 := []], np_row := np_row a + 1, np_col := 0\<rparr> else a)
        else if c = 8 then
          (if np_col a > 0
           then a\<lparr>np_lines := (np_lines a)[np_row a := take (np_col a - 1) (np_lines a ! np_row a)], np_col := np_col a - 1\<rparr>
           else if np_row a > 0
           then a\<lparr>np_row := np_row a - 1, np_col := length (np_lines a ! (np_row a - 1))\<rparr>
           else a)
        else if np_col a + 1 < vcols
        then a\<lparr>np_lines := (np_lines a)[np_row a := take (np_col a) (np_lines a ! np_row a) @ [c]], np_col := np_col a + 1\<rparr>
        else a)"

fun join_rows :: "u8 list list \<Rightarrow> u8 list" where
  "join_rows [] = []"
| "join_rows [r] = r"
| "join_rows (r # rs) = r @ 10 # join_rows rs"

definition np_text :: "np_app \<Rightarrow> u8 list" where
  "np_text a = join_rows (take (np_row a + 1) (np_lines a))"

definition np_save :: "np_app \<Rightarrow> fat12 \<Rightarrow> (np_app \<times> fat12) option" where
  "np_save a s = map_option (\<lambda>(ok, s1). (np_status_set (if ok \<noteq> 0 then Saved_notes else Save_failed) a, s1)) (fat12_write NOTES_TXT (np_text a) s)"

text \<open>The loop of \<^verbatim>\<open>np_load\<close>: the row and the characters it has collected for it, and the rows that are complete.\<close>

fun np_fill :: "nat \<Rightarrow> nat \<Rightarrow> u8 list \<Rightarrow> nat \<Rightarrow> u8 list \<Rightarrow> u8 list list \<Rightarrow> nat \<times> u8 list \<times> u8 list list" where
  "np_fill vrows vcols [] r cur rows = (r, cur, rows)"
| "np_fill vrows vcols (b # bs) r cur rows =
     (if \<not> r < vrows then (r, cur, rows)
      else if b = 10 then np_fill vrows vcols bs (r + 1) [] (rows[r := cur])
      else np_fill vrows vcols bs r (if length cur + 1 < vcols then cur @ [b] else cur) rows)"

definition np_load :: "int \<times> int \<times> int \<times> int \<Rightarrow> np_app \<Rightarrow> fat12 \<Rightarrow> np_app option" where
  "np_load rect a s =
     (case fat12_load NOTES_TXT (NP_MAX_ROWS * (NP_MAX_COLS + 1) + 1) s of
        None \<Rightarrow> None
      | Some bs \<Rightarrow>
          if bs = [] then Some (np_status_set No_saved_file a)
          else (case np_size rect of (vrows, vcols) \<Rightarrow>
            case np_fill vrows vcols bs 0 [] (replicate NP_MAX_ROWS []) of (r, cur, rows) \<Rightarrow>
              Some (np_status_set Loaded_notes
                (if r < vrows then a\<lparr>np_lines := rows[r := cur], np_row := r, np_col := length cur\<rparr>
                 else a\<lparr>np_lines := rows, np_row := vrows - 1, np_col := length (rows ! (vrows - 1))\<rparr>))))"

definition handle_notepad_content_click ::
  "int \<Rightarrow> int \<Rightarrow> int \<times> int \<times> int \<times> int \<Rightarrow> np_app \<Rightarrow> fat12 \<Rightarrow> (np_app \<times> fat12) option" where
  "handle_notepad_content_click mx my rect a s =
     (case np_layout rect of (tx0, ty0, vrows, vcols, sx, lx, byy) \<Rightarrow>
        if \<not> spans my byy CHAR_W then Some (a, s)
        else if spans mx sx (6 * CHAR_W) then np_save a s
        else if spans mx lx (6 * CHAR_W) then map_option (\<lambda>a1. (a1, s)) (np_load rect a s)
        else Some (a, s))"

definition render_notepad :: "np_app \<Rightarrow> np_app" where
  "render_notepad a = a\<lparr>np_status_timer := np_status_timer a - 1\<rparr>"

subsection \<open>Task list\<close>

abbreviation (input) TODO_MAX :: nat where "TODO_MAX \<equiv> 10"
abbreviation (input) TODO_TEXT_MAX :: nat where "TODO_TEXT_MAX \<equiv> 27"
abbreviation (input) TODO_BUF_MAX :: nat where "TODO_BUF_MAX \<equiv> 512"
abbreviation (input) TODO_PAD :: int where "TODO_PAD \<equiv> 10"
abbreviation (input) TODO_ROW_H :: int where "TODO_ROW_H \<equiv> 32"

definition TODO_FILE :: "u8 list" where
  "TODO_FILE = [0x54, 0x4F, 0x44, 0x4F, 0x2E, 0x54, 0x58, 0x54]"

type_synonym todo_item = "u8 list \<times> bool"

record todo_app =
  todos :: "todo_item list"
  todo_inited :: bool
  todo_input_mode :: bool
  todo_input_buf :: "u8 list"

definition todo_start :: todo_app where
  "todo_start = \<lparr>todos = [], todo_inited = False, todo_input_mode = False, todo_input_buf = []\<rparr>"

definition c_str :: "u8 list \<Rightarrow> u8 list" where
  "c_str t = takeWhile (\<lambda>c. c \<noteq> 0) t"

definition todo_line :: "todo_item \<Rightarrow> u8 list" where
  "todo_line i = [if snd i then 0x31 else 0x30, 0x20] @ take TODO_TEXT_MAX (c_str (fst i)) @ [10]"

fun todo_bytes :: "nat \<Rightarrow> todo_item list \<Rightarrow> u8 list" where
  "todo_bytes p [] = []"
| "todo_bytes p (i # is) =
     (if p + TODO_TEXT_MAX + 3 < TODO_BUF_MAX then todo_line i @ todo_bytes (p + length (todo_line i)) is else [])"

definition todo_save :: "todo_app \<Rightarrow> fat12 \<Rightarrow> fat12 option" where
  "todo_save a s = map_option snd (fat12_write TODO_FILE (todo_bytes 0 (todos a)) s)"

text \<open>The loop of \<^verbatim>\<open>todo_load\<close>; the number is that of the free places.\<close>

fun todo_parse :: "nat \<Rightarrow> u8 list \<Rightarrow> todo_item list" where
  "todo_parse 0 bs = []"
| "todo_parse (Suc n) bs =
     (if length bs < 2 then []
      else let line = takeWhile (\<lambda>c. c \<noteq> 10) (drop 2 bs); rest = dropWhile (\<lambda>c. c \<noteq> 10) (drop 2 bs)
           in (take TODO_TEXT_MAX line, bs ! 0 = 0x31) # todo_parse n (tl rest))"

definition todo_load :: "todo_app \<Rightarrow> fat12 \<Rightarrow> todo_app option" where
  "todo_load a s = map_option (\<lambda>bs. a\<lparr>todos := todo_parse TODO_MAX bs\<rparr>) (fat12_load TODO_FILE TODO_BUF_MAX s)"

definition todo_input_confirm :: "todo_app \<Rightarrow> fat12 \<Rightarrow> (todo_app \<times> fat12) option" where
  "todo_input_confirm a s =
     (if todo_input_buf a \<noteq> [] \<and> length (todos a) < TODO_MAX
      then let a1 = a\<lparr>todos := todos a @ [(todo_input_buf a, False)]\<rparr>
           in map_option (\<lambda>s1. (a1\<lparr>todo_input_mode := False\<rparr>, s1)) (todo_save a1 s)
      else Some (a\<lparr>todo_input_mode := False\<rparr>, s))"

definition todo_input_press :: "u8 \<Rightarrow> todo_app \<Rightarrow> fat12 \<Rightarrow> (todo_app \<times> fat12) option" where
  "todo_input_press c a s =
     (if c = 0 then Some (a, s)
      else if c = 10 then todo_input_confirm a s
      else if c = 8 then Some (a\<lparr>todo_input_buf := butlast (todo_input_buf a)\<rparr>, s)
      else if length (todo_input_buf a) < TODO_TEXT_MAX then Some (a\<lparr>todo_input_buf := todo_input_buf a @ [c]\<rparr>, s)
      else Some (a, s))"

text \<open>\<open>(list_y0, del_x, add_y)\<close>\<close>

definition todo_layout :: "int \<times> int \<times> int \<times> int \<Rightarrow> int \<times> int \<times> int" where
  "todo_layout rect = (case rect of (cx0, cy0, cw, ch) \<Rightarrow>
     (cy0 + TODO_PAD, cx0 + cw - TODO_PAD - 3 * CHAR_W, cy0 + TODO_PAD + int TODO_MAX * TODO_ROW_H + 10))"

definition todo_delete :: "nat \<Rightarrow> todo_app \<Rightarrow> todo_app" where
  "todo_delete row a = a\<lparr>todos := take row (todos a) @ map (\<lambda>(t, d). (take TODO_TEXT_MAX (c_str t), d)) (drop (row + 1) (todos a))\<rparr>"

definition todo_toggle :: "nat \<Rightarrow> todo_app \<Rightarrow> todo_app" where
  "todo_toggle row a = a\<lparr>todos := (todos a)[row := (fst (todos a ! row), \<not> snd (todos a ! row))]\<rparr>"

definition click_todo_input :: "int \<Rightarrow> int \<Rightarrow> int \<times> int \<times> int \<times> int \<Rightarrow> todo_app \<Rightarrow> fat12 \<Rightarrow> (todo_app \<times> fat12) option" where
  "click_todo_input mx my rect a s = (case rect of (cx0, cy0, cw, ch) \<Rightarrow>
     let x = cx0 + TODO_PAD;
         input_y = cy0 + TODO_PAD + 2 * TODO_ROW_H;
         btn_y = input_y + 2 * TODO_ROW_H
     in if spans my btn_y TODO_ROW_H \<and> spans mx x (4 * CHAR_W) then todo_input_confirm a s
        else if spans my btn_y TODO_ROW_H \<and> spans mx (x + 5 * CHAR_W) (8 * CHAR_W) then Some (a\<lparr>todo_input_mode := False\<rparr>, s)
        else Some (a, s))"

definition handle_todo_content_click ::
  "int \<Rightarrow> int \<Rightarrow> int \<times> int \<times> int \<times> int \<Rightarrow> todo_app \<Rightarrow> fat12 \<Rightarrow> (todo_app \<times> fat12) option" where
  "handle_todo_content_click mx my rect a s =
     (if todo_input_mode a then click_todo_input mx my rect a s
      else case rect of (cx0, cy0, cw, ch) \<Rightarrow> case todo_layout rect of (list_y0, del_x, add_y) \<Rightarrow>
        if spans my add_y TODO_ROW_H \<and> spans mx (cx0 + TODO_PAD) (7 * CHAR_W)
        then Some (a\<lparr>todo_input_mode := True, todo_input_buf := []\<rparr>, s)
        else if spans my list_y0 (int (length (todos a)) * TODO_ROW_H)
        then let row = nat ((my - list_y0) div TODO_ROW_H)
             in if row \<ge> length (todos a) then Some (a, s)
                else if spans mx del_x (3 * CHAR_W)
                then let a1 = todo_delete row a in map_option (\<lambda>s1. (a1, s1)) (todo_save a1 s)
                else if mx \<ge> cx0 + TODO_PAD \<and> mx < del_x
                then let a1 = todo_toggle row a in map_option (\<lambda>s1. (a1, s1)) (todo_save a1 s)
                else Some (a, s)
        else Some (a, s))"

text \<open>The first drawing of the window reads the file.\<close>

definition render_todo :: "todo_app \<Rightarrow> fat12 \<Rightarrow> todo_app option" where
  "render_todo a s = (if todo_inited a then Some a else map_option (\<lambda>a1. a1\<lparr>todo_inited := True\<rparr>) (todo_load a s))"

subsection \<open>The notepad keeps its bounds\<close>

definition np_ok :: "np_app \<Rightarrow> bool" where
  "np_ok a \<longleftrightarrow> length (np_lines a) = NP_MAX_ROWS \<and> np_row a < NP_MAX_ROWS \<and> np_col a = length (np_lines a ! np_row a) \<and>
     (\<forall>l\<in>set (np_lines a). length l < NP_MAX_COLS \<and> 10 \<notin> set l)"

lemma np_size_bounds:
  assumes "np_size rect = (vrows, vcols)"
  shows "1 \<le> vrows" "vrows \<le> NP_MAX_ROWS" "1 \<le> vcols" "vcols \<le> NP_MAX_COLS"
  using assms by (auto simp: np_size_def np_layout_def Let_def nat_le_iff split: prod.splits if_splits)

lemma np_start_ok: "np_ok np_start"
  by (simp add: np_ok_def np_start_def)

lemma np_ok_status [simp]: "np_ok (np_status_set n a) = np_ok a" "np_ok (render_notepad a) = np_ok a"
  by (simp_all add: np_ok_def np_status_set_def render_notepad_def)

lemma np_ok_line: "np_ok a \<Longrightarrow> r < NP_MAX_ROWS \<Longrightarrow> length (np_lines a ! r) < NP_MAX_COLS \<and> 10 \<notin> set (np_lines a ! r)"
  by (simp add: np_ok_def)

text \<open>Replacing one row and moving the cursor behind it.\<close>

lemma np_ok_put:
  assumes "np_ok a" "r < NP_MAX_ROWS" "length l < NP_MAX_COLS" "10 \<notin> set l"
  shows "np_ok (a\<lparr>np_lines := (np_lines a)[r := l], np_row := r, np_col := length l\<rparr>)"
  using assms by (auto simp: np_ok_def dest!: set_update_subset_insert [THEN subsetD])

lemma np_press_ok:
  assumes ok: "np_ok a"
  shows "np_ok (np_press c rect a)"
proof -
  obtain vrows vcols where v: "np_size rect = (vrows, vcols)" by fastforce
  note b = np_size_bounds [OF v]
  have row: "np_row a < NP_MAX_ROWS" "np_col a = length (np_lines a ! np_row a)" using ok by (simp_all add: np_ok_def)
  note l = np_ok_line [OF ok row(1)]
  have 1: "np_ok (a\<lparr>np_lines := (np_lines a)[np_row a + 1 := []], np_row := np_row a + 1, np_col := 0\<rparr>)" if "np_row a + 1 < vrows"
    using np_ok_put [OF ok, of "np_row a + 1" "[]"] that b by simp
  have 2: "np_ok (a\<lparr>np_lines := (np_lines a)[np_row a := take (np_col a - 1) (np_lines a ! np_row a)], np_col := np_col a - 1\<rparr>)"
  proof -
    have n: "10 \<notin> set (take (np_col a - 1) (np_lines a ! np_row a))" using l in_set_takeD by fast
    have "length (take (np_col a - 1) (np_lines a ! np_row a)) < NP_MAX_COLS"
      by (rule le_less_trans [OF _ conjunct1 [OF l]]) simp
    from np_ok_put [OF ok row(1) this n] show ?thesis using row by simp
  qed
  have 3: "np_ok (a\<lparr>np_row := np_row a - 1, np_col := length (np_lines a ! (np_row a - 1))\<rparr>)"
    using ok row(1) by (simp add: np_ok_def)
  have 4: "np_ok (a\<lparr>np_lines := (np_lines a)[np_row a := take (np_col a) (np_lines a ! np_row a) @ [c]], np_col := np_col a + 1\<rparr>)"
    if "np_col a + 1 < vcols" "c \<noteq> 10"
    using np_ok_put [OF ok row(1), of "np_lines a ! np_row a @ [c]"] l row(2) that b by simp
  show ?thesis unfolding np_press_def v prod.case using 1 2 3 4 ok by (simp only: split: if_split) blast
qed

subsection \<open>Saved notes\<close>

lemma np_fill_row:
  "10 \<notin> set l \<Longrightarrow> r < vrows \<Longrightarrow> length cur < vcols \<Longrightarrow>
     np_fill vrows vcols (l @ bs) r cur rows = np_fill vrows vcols bs r (take (vcols - 1) (cur @ l)) rows"
proof (induction l arbitrary: cur)
  case Nil
  then show ?case by simp
next
  case (Cons b l)
  show ?case
  proof (cases "length cur + 1 < vcols")
    case True
    then show ?thesis using Cons.IH [of "cur @ [b]"] Cons.prems by (simp add: take_Cons')
  next
    case False
    then have "length cur = vcols - 1" using Cons.prems(3) by simp
    then show ?thesis using Cons by simp
  qed
qed

definition np_crop :: "nat \<Rightarrow> u8 list \<Rightarrow> u8 list" where
  "np_crop vcols l = take (vcols - 1) l"

definition np_final :: "nat \<Rightarrow> nat \<times> u8 list \<times> u8 list list \<Rightarrow> nat \<times> u8 list list" where
  "np_final vrows t = (case t of (r, cur, rows) \<Rightarrow> if r < vrows then (r, rows[r := cur]) else (vrows - 1, rows))"

lemma np_fill_join:
  assumes "\<forall>l\<in>set rs. 10 \<notin> set l" "rs \<noteq> []" "length pre < vrows" "1 \<le> vcols" "vrows \<le> length pre + k"
  shows "np_final vrows (np_fill vrows vcols (join_rows rs) (length pre) [] (pre @ replicate k [])) =
    (min (length pre + length rs - 1) (vrows - 1),
     pre @ map (np_crop vcols) (take (vrows - length pre) rs) @ replicate (k - min (vrows - length pre) (length rs)) [])"
  using assms
proof (induction rs arbitrary: pre k rule: join_rows.induct)
  case 1
  then show ?case by simp
next
  case (2 l)
  have "np_fill vrows vcols (join_rows [l]) (length pre) [] (pre @ replicate k []) = (length pre, np_crop vcols l, pre @ replicate k [])"
    using np_fill_row [of l "length pre" vrows "[]" vcols "[]"] 2 by (simp add: np_crop_def)
  moreover obtain k1 where "k = Suc k1" using 2 by (cases k) auto
  ultimately show ?case using 2 by (simp add: np_final_def list_update_append)
next
  case (3 l l2 rs)
  obtain k1 where k: "k = Suc k1" using 3 by (cases k) auto
  have step: "np_fill vrows vcols (join_rows (l # l2 # rs)) (length pre) [] (pre @ replicate k []) =
      np_fill vrows vcols (join_rows (l2 # rs)) (length pre + 1) [] (pre @ np_crop vcols l # replicate k1 [])"
    using np_fill_row [of l "length pre" vrows "[]" vcols "10 # join_rows (l2 # rs)"] 3(2,4,5)
    by (simp add: np_crop_def k list_update_append)
  show ?case
  proof (cases "length pre + 1 < vrows")
    case True
    have m: "min (vrows - length pre) (length (l # l2 # rs)) = Suc (min (vrows - Suc (length pre)) (length (l2 # rs)))"
      using True by simp
    have t: "take (vrows - length pre) (l # l2 # rs) = l # take (vrows - Suc (length pre)) (l2 # rs)"
      using True by (simp add: take_Cons')
    show ?thesis
      using 3(1) [of "pre @ [np_crop vcols l]" k1] 3(2-6) True unfolding step m t by (simp add: k)
  next
    case False
    then have v: "vrows = length pre + 1" using 3(4) by simp
    have "np_fill vrows vcols (join_rows (l2 # rs)) (length pre + 1) [] rows = (length pre + 1, [], rows)" for rows
      using v by (cases "join_rows (l2 # rs)") auto
    then show ?thesis unfolding step by (simp add: np_final_def v k)
  qed
qed

lemma join_rows_length: "\<forall>l\<in>set rs. length l < n \<Longrightarrow> length (join_rows rs) \<le> length rs * n"
proof (induction rs rule: join_rows.induct)
  case (3 r r2 rs)
  then have "length (join_rows (r2 # rs)) \<le> length (r2 # rs) * n" "length r < n" by simp_all
  then show ?case by simp
qed simp_all

lemma np_text_length: "np_ok a \<Longrightarrow> length (np_text a) \<le> 1152"
proof -
  assume ok: "np_ok a"
  have "length (np_text a) \<le> length (take (np_row a + 1) (np_lines a)) * NP_MAX_COLS"
    unfolding np_text_def by (rule join_rows_length) (use ok in \<open>auto simp: np_ok_def dest: in_set_takeD\<close>)
  also have "\<dots> \<le> 1152" using ok by (simp add: np_ok_def)
  finally show ?thesis .
qed

lemma notes_name: "storable NOTES_TXT"
  by (rule typed_storable) (simp add: NOTES_TXT_def typed_def)

text \<open>What a window of the given size shows of a text.\<close>

definition np_view :: "nat \<Rightarrow> nat \<Rightarrow> u8 list list \<Rightarrow> u8 list list" where
  "np_view vrows vcols rs = map (np_crop vcols) (take vrows rs) @ replicate (NP_MAX_ROWS - min vrows (length rs)) []"

lemma np_load_text:
  assumes g: "vol_good s" and v: "np_size rect = (vrows, vcols)" and rs: "rs \<noteq> []" "\<forall>l\<in>set rs. 10 \<notin> set l"
    and f: "files (img s) (parse_83 NOTES_TXT) = Some (join_rows rs)" and len: "length (join_rows rs) \<le> 1177" and ne: "join_rows rs \<noteq> []"
  shows "\<exists>b'. np_load rect b s = Some b' \<and> np_lines b' = np_view vrows vcols rs \<and>
    np_row b' = min (length rs - 1) (vrows - 1) \<and> np_col b' = length (np_lines b' ! np_row b') \<and> np_status b' = Loaded_notes"
proof -
  note bd = np_size_bounds [OF v]
  have l: "fat12_load NOTES_TXT 1177 s = Some (join_rows rs)" by (rule vol.load_saved [OF g f len])
  obtain r cur rows where t: "np_fill vrows vcols (join_rows rs) 0 [] (replicate NP_MAX_ROWS []) = (r, cur, rows)" by (metis prod_cases3)
  have fin: "np_final vrows (r, cur, rows) = (min (length rs - 1) (vrows - 1), np_view vrows vcols rs)"
    using np_fill_join [OF rs(2,1), of "[]" vrows vcols NP_MAX_ROWS] bd t by (simp add: np_view_def)
  have rows: "length (np_view vrows vcols rs) = NP_MAX_ROWS" using bd by (simp add: np_view_def min_def)
  show ?thesis
  proof (cases "r < vrows")
    case True
    then have e: "r = min (length rs - 1) (vrows - 1)" "rows[r := cur] = np_view vrows vcols rs"
      using fin unfolding np_final_def prod.case if_P [OF True] prod.inject by blast+
    have "r < length rows" using e(2) rows True bd by (metis length_list_update order_less_le_trans)
    then have "np_view vrows vcols rs ! r = cur" unfolding e(2) [symmetric] by simp
    moreover have "np_load rect b s = Some (np_status_set Loaded_notes (b\<lparr>np_lines := rows[r := cur], np_row := r, np_col := length cur\<rparr>))"
      by (simp add: np_load_def l ne v t True)
    ultimately show ?thesis unfolding e(2) using e(1) by (simp add: np_status_set_def)
  next
    case False
    then show ?thesis using fin by (simp add: np_load_def l ne v t np_status_set_def np_final_def)
  qed
qed

lemma np_save_ok:
  assumes "vol_good s" "np_ok a"
  shows "\<exists>a' s'. np_save a s = Some (a', s') \<and> vol_good s' \<and> np_ok a' \<and> np_lines a' = np_lines a \<and> np_row a' = np_row a \<and>
    (np_status a' = Saved_notes \<longrightarrow> files (img s') = (files (img s))(parse_83 NOTES_TXT \<mapsto> np_text a))"
proof -
  have "length (np_text a) \<le> 4294836736" using np_text_length [OF assms(2)] by simp
  from vol.save_law [OF assms(1) notes_name this] obtain r s' where w: "fat12_write NOTES_TXT (np_text a) s = Some (r, s')" "vol_good s'"
    "r = 1 \<and> files (img s') = (files (img s))(parse_83 NOTES_TXT \<mapsto> np_text a) \<or> r = 0" by blast
  have "np_save a s = Some (np_status_set (if r \<noteq> 0 then Saved_notes else Save_failed) a, s')" by (simp add: np_save_def w(1))
  then show ?thesis using w assms(2) by (auto simp: np_status_set_def np_ok_def)
qed

definition np_mid :: "u8 list \<Rightarrow> u8 list list \<Rightarrow> bool" where
  "np_mid cur rows \<longleftrightarrow> length cur < NP_MAX_COLS \<and> 10 \<notin> set cur \<and> length rows = NP_MAX_ROWS \<and>
     (\<forall>l\<in>set rows. length l < NP_MAX_COLS \<and> 10 \<notin> set l)"

lemma np_mid_line: "np_mid cur rows \<Longrightarrow> np_mid [] (rows[r := cur])"
  by (auto simp: np_mid_def dest!: set_update_subset_insert [THEN subsetD])

lemma np_mid_char: "np_mid cur rows \<Longrightarrow> b \<noteq> 10 \<Longrightarrow> length cur + 1 < NP_MAX_COLS \<Longrightarrow> np_mid (cur @ [b]) rows"
  by (simp add: np_mid_def)

lemma np_fill_ok:
  assumes "vcols \<le> NP_MAX_COLS"
  shows "np_mid cur rows \<Longrightarrow> r \<le> vrows \<Longrightarrow> case np_fill vrows vcols bs r cur rows of (r', cur', rows') \<Rightarrow> np_mid cur' rows' \<and> r' \<le> vrows"
  using assms
proof (induction vrows vcols bs r cur rows rule: np_fill.induct)
  case (1 vrows vcols r cur rows)
  then show ?case by simp
next
  case (2 vrows vcols b bs r cur rows)
  show ?case
  proof (cases "r < vrows")
    case False
    then show ?thesis using "2.prems" by simp
  next
    case r: True
    show ?thesis
    proof (cases "b = 10")
      case True
      then show ?thesis using "2.IH"(1) r "2.prems" np_mid_line by simp
    next
      case False
      have "np_mid (if length cur + 1 < vcols then cur @ [b] else cur) rows"
        using "2.prems"(1,3) False np_mid_char [of cur rows b] by simp
      from "2.IH"(2) [OF _ False this] show ?thesis using r False "2.prems"(2,3) by simp
    qed
  qed
qed

lemma np_load_ok:
  assumes g: "vol_good s" and ok: "np_ok a"
  shows "\<exists>a'. np_load rect a s = Some a' \<and> np_ok a'"
proof -
  obtain bs where l: "fat12_load NOTES_TXT 1177 s = Some bs" using vol.load_law [OF g] by blast
  obtain vrows vcols where v: "np_size rect = (vrows, vcols)" by fastforce
  note bd = np_size_bounds [OF v]
  obtain r cur rows where t: "np_fill vrows vcols bs 0 [] (replicate NP_MAX_ROWS []) = (r, cur, rows)" by (metis prod_cases3)
  have "np_mid [] (replicate NP_MAX_ROWS [])" by (simp add: np_mid_def)
  from np_fill_ok [OF bd(4) this, of 0 vrows bs] have f: "length cur < NP_MAX_COLS" "10 \<notin> set cur" "length rows = NP_MAX_ROWS"
    "\<forall>l\<in>set rows. length l < NP_MAX_COLS \<and> 10 \<notin> set l" by (simp_all add: t np_mid_def)
  have 1: "np_ok (a\<lparr>np_lines := rows, np_row := vrows - 1, np_col := length (rows ! (vrows - 1))\<rparr>)"
    using f bd by (simp add: np_ok_def)
  have 2: "np_ok (a\<lparr>np_lines := rows[r := cur], np_row := r, np_col := length cur\<rparr>)" if "r < vrows"
    using f bd that by (auto simp: np_ok_def dest!: set_update_subset_insert [THEN subsetD])
  show ?thesis using 1 2 ok by (simp add: np_load_def l v t)
qed

lemma notes_click_ok:
  assumes g: "vol_good s" and ok: "np_ok a"
  shows "\<exists>a' s'. handle_notepad_content_click mx my rect a s = Some (a', s') \<and> vol_good s' \<and> np_ok a'"
proof -
  obtain a1 s1 where 1: "np_save a s = Some (a1, s1)" "vol_good s1" "np_ok a1" using np_save_ok [OF g ok] by blast
  obtain a2 where 2: "np_load rect a s = Some a2" "np_ok a2" using np_load_ok [OF g ok] by blast
  show ?thesis using 1(2,3) 2(2) g ok
    by (simp add: handle_notepad_content_click_def 1(1) 2(1) split: prod.splits)
qed

subsection \<open>Saved tasks\<close>

definition todo_ok :: "todo_app \<Rightarrow> bool" where
  "todo_ok a \<longleftrightarrow> length (todos a) \<le> TODO_MAX \<and> (\<forall>i\<in>set (todos a). length (fst i) \<le> TODO_TEXT_MAX \<and> 10 \<notin> set (fst i)) \<and>
     length (todo_input_buf a) \<le> TODO_TEXT_MAX \<and> list_all typed (todo_input_buf a)"

lemma todo_start_ok: "todo_ok todo_start"
  by (simp add: todo_ok_def todo_start_def)

lemma c_str_facts: "length (c_str t) \<le> length t" "set (c_str t) \<subseteq> set t" "c_str (c_str t) = c_str t"
  by (auto simp: c_str_def length_takeWhile_le dest: set_takeWhileD)

lemma todo_line_length: "length (todo_line i) \<le> 30"
  by (simp add: todo_line_def)

lemma todo_bytes_length: "length (todo_bytes p is) \<le> 30 * length is"
proof (induction p "is" rule: todo_bytes.induct)
  case (2 p i "is")
  then show ?case using todo_line_length [of i] by (cases "p + TODO_TEXT_MAX + 3 < TODO_BUF_MAX") simp_all
qed simp

lemma todo_bytes_concat: "p + 30 * length is < 512 \<Longrightarrow> todo_bytes p is = concat (map todo_line is)"
proof (induction p "is" rule: todo_bytes.induct)
  case (2 p i "is")
  then show ?case using todo_line_length [of i] by simp
qed simp

definition stored_item :: "todo_item \<Rightarrow> todo_item" where
  "stored_item i = (c_str (fst i), snd i)"

lemma todo_parse_lines:
  "length is \<le> n \<Longrightarrow> \<forall>i\<in>set is. length (fst i) \<le> TODO_TEXT_MAX \<and> 10 \<notin> set (fst i) \<Longrightarrow>
     todo_parse n (concat (map todo_line is)) = map stored_item is"
proof (induction "is" arbitrary: n)
  case Nil
  then show ?case by (cases n) simp_all
next
  case (Cons i "is")
  obtain m where n: "n = Suc m" using Cons.prems(1) by (cases n) auto
  have l: "length (c_str (fst i)) \<le> TODO_TEXT_MAX" "10 \<notin> set (c_str (fst i))"
    using Cons.prems(2) c_str_facts(1,2) [of "fst i"] by (auto intro: order_trans)
  then have "\<forall>c\<in>set (c_str (fst i)). c \<noteq> 10" by auto
  then show ?case using Cons l by (simp add: n todo_line_def stored_item_def)
qed

lemma todo_file_name: "storable TODO_FILE"
  by (rule typed_storable) (simp add: TODO_FILE_def typed_def)

lemma todo_saved_loads:
  assumes g: "vol_good s" and ok: "todo_ok a" and f: "files (img s) (parse_83 TODO_FILE) = Some (todo_bytes 0 (todos a))"
  shows "todo_load b s = Some (b\<lparr>todos := map stored_item (todos a)\<rparr>)"
proof -
  have n: "length (todos a) \<le> 10" using ok by (simp add: todo_ok_def)
  then have "length (todo_bytes 0 (todos a)) \<le> TODO_BUF_MAX" using todo_bytes_length [of 0 "todos a"] by linarith
  from vol.load_saved [OF g f this] have "fat12_load TODO_FILE TODO_BUF_MAX s = Some (concat (map todo_line (todos a)))"
    using todo_bytes_concat [of 0 "todos a"] n by simp
  then show ?thesis using todo_parse_lines [of "todos a" TODO_MAX] ok n by (simp add: todo_load_def todo_ok_def)
qed

text \<open>The outcome of saving a list.\<close>

definition todo_kept :: "todo_app \<Rightarrow> fat12 \<Rightarrow> fat12 \<Rightarrow> bool" where
  "todo_kept a s s' \<longleftrightarrow> (\<exists>r. fat12_write TODO_FILE (todo_bytes 0 (todos a)) s = Some (r, s') \<and>
     (r = 1 \<longrightarrow> (\<forall>b. todo_load b s' = Some (b\<lparr>todos := map stored_item (todos a)\<rparr>))))"

lemma todo_save_ok:
  assumes g: "vol_good s" and ok: "todo_ok a"
  shows "\<exists>s'. todo_save a s = Some s' \<and> vol_good s' \<and> todo_kept a s s'"
proof -
  have "length (todo_bytes 0 (todos a)) \<le> 4294836736" using todo_bytes_length [of 0 "todos a"] ok by (simp add: todo_ok_def)
  from vol.save_law [OF g todo_file_name this] obtain r s' where w: "fat12_write TODO_FILE (todo_bytes 0 (todos a)) s = Some (r, s')" "vol_good s'"
    "r = 1 \<and> files (img s') = (files (img s))(parse_83 TODO_FILE \<mapsto> todo_bytes 0 (todos a)) \<or> r = 0" by blast
  have "todo_kept a s s'" unfolding todo_kept_def using w todo_saved_loads [OF w(2) ok] by auto
  then show ?thesis using w(1,2) by (simp add: todo_save_def)
qed

lemma todo_ok_flags [simp]:
  "todo_ok (a\<lparr>todo_input_mode := b\<rparr>) = todo_ok a" "todo_ok (a\<lparr>todo_inited := b\<rparr>) = todo_ok a"
  "todo_ok a \<Longrightarrow> length bs \<le> TODO_TEXT_MAX \<Longrightarrow> list_all typed bs \<Longrightarrow> todo_ok (a\<lparr>todo_input_buf := bs\<rparr>)"
  by (simp_all add: todo_ok_def)

lemma todo_kept_flags [simp]: "todo_kept (a\<lparr>todo_input_mode := b\<rparr>) s s' = todo_kept a s s'"
  by (simp add: todo_kept_def)

text \<open>Every handler returns; if it changes the list, it writes the new list.\<close>

definition todo_step :: "todo_app \<Rightarrow> fat12 \<Rightarrow> (todo_app \<times> fat12) option \<Rightarrow> bool" where
  "todo_step a s r \<longleftrightarrow> (\<exists>a' s'. r = Some (a', s') \<and> vol_good s' \<and> todo_ok a' \<and> (todos a' = todos a \<and> s' = s \<or> todo_kept a' s s'))"

lemma todo_changed: "vol_good s \<Longrightarrow> todo_ok a1 \<Longrightarrow> todo_step a s (map_option (\<lambda>s1. (a1, s1)) (todo_save a1 s))"
  using todo_save_ok [of s a1] by (auto simp: todo_step_def)

lemma todo_same: "vol_good s \<Longrightarrow> todo_ok a1 \<Longrightarrow> todos a1 = todos a \<Longrightarrow> todo_step a s (Some (a1, s))"
  by (simp add: todo_step_def)

lemma todo_input_confirm_ok:
  assumes g: "vol_good s" and ok: "todo_ok a"
  shows "todo_step a s (todo_input_confirm a s)"
proof (cases "todo_input_buf a \<noteq> [] \<and> length (todos a) < TODO_MAX")
  case True
  let ?a = "a\<lparr>todos := todos a @ [(todo_input_buf a, False)]\<rparr>"
  have "10 \<notin> set (todo_input_buf a)" using ok typed_char by (auto simp: todo_ok_def list_all_iff)
  then have "todo_ok ?a" using True ok by (auto simp: todo_ok_def)
  from todo_save_ok [OF g this] this show ?thesis
    using True by (auto simp: todo_input_confirm_def todo_step_def Let_def)
next
  case False
  show ?thesis unfolding todo_input_confirm_def if_not_P [OF False] by (rule todo_same [OF g]) (simp_all add: ok)
qed

lemma todo_input_press_ok:
  assumes g: "vol_good s" and ok: "todo_ok a" and c: "uint c < 128"
  shows "todo_step a s (todo_input_press c a s)"
proof -
  have b: "length (todo_input_buf a) \<le> TODO_TEXT_MAX" "list_all typed (todo_input_buf a)" using ok by (simp_all add: todo_ok_def)
  have "list_all typed (butlast (todo_input_buf a))" using b(2) by (auto simp: list_all_iff dest: in_set_butlastD)
  moreover have "typed c" if "c \<noteq> 0" "c \<noteq> 8" "c \<noteq> 10" using that c by (simp add: typed_def)
  ultimately show ?thesis using todo_input_confirm_ok [OF g ok] todo_same [OF g] ok b by (simp add: todo_input_press_def)
qed

lemma todo_delete_ok: "todo_ok a \<Longrightarrow> todo_ok (todo_delete row a)"
proof -
  assume ok: "todo_ok a"
  have "length (take TODO_TEXT_MAX (c_str t)) \<le> TODO_TEXT_MAX \<and> 10 \<notin> set (take TODO_TEXT_MAX (c_str t))" if "(t, d) \<in> set (todos a)" for t d
  proof -
    have "10 \<notin> set t" using ok that by (fastforce simp: todo_ok_def)
    then show ?thesis by (auto dest!: in_set_takeD subsetD [OF c_str_facts(2)])
  qed
  then show ?thesis using ok by (auto simp: todo_ok_def todo_delete_def dest: in_set_takeD in_set_dropD)
qed

lemma todo_toggle_ok: "todo_ok a \<Longrightarrow> row < length (todos a) \<Longrightarrow> todo_ok (todo_toggle row a)"
  by (auto simp: todo_ok_def todo_toggle_def dest!: set_update_subset_insert [THEN subsetD])

lemma todo_click_ok:
  assumes g: "vol_good s" and ok: "todo_ok a"
  shows "todo_step a s (handle_todo_content_click mx my rect a s)"
proof -
  obtain cx0 cy0 cw ch where r: "rect = (cx0, cy0, cw, ch)" by (cases rect) auto
  have 1: "todo_step a s (click_todo_input mx my rect a s)"
    using todo_input_confirm_ok [OF g ok] todo_same [OF g] ok by (simp add: click_todo_input_def r Let_def)
  show ?thesis
    by (simp add: handle_todo_content_click_def r todo_layout_def Let_def 1 [unfolded r] ok todo_same [OF g] todo_changed [OF g]
        todo_delete_ok [OF ok] todo_toggle_ok [OF ok])
qed

lemma todo_parse_ok: "length (todo_parse n bs) \<le> n \<and> (\<forall>i\<in>set (todo_parse n bs). length (fst i) \<le> TODO_TEXT_MAX \<and> 10 \<notin> set (fst i))"
proof (induction n bs rule: todo_parse.induct)
  case (2 n bs)
  then show ?case by (auto simp: Let_def dest!: in_set_takeD dest: set_takeWhileD)
qed simp

lemma render_todo_ok:
  assumes g: "vol_good s" and ok: "todo_ok a"
  shows "\<exists>a'. render_todo a s = Some a' \<and> todo_ok a'"
proof -
  obtain bs where "fat12_load TODO_FILE TODO_BUF_MAX s = Some bs" using vol.load_law [OF g] by blast
  moreover have "todo_ok (a\<lparr>todos := todo_parse TODO_MAX bs\<rparr>)" using ok todo_parse_ok [of TODO_MAX bs] by (simp add: todo_ok_def)
  ultimately show ?thesis using ok by (simp add: render_todo_def todo_load_def)
qed

end
