(* ===== verification/ShellGames.thy ===== *)
theory ShellGames
  imports ShellFiles
begin

section \<open>Snake, clock and terminal of the graphical shell\<close>

text \<open>
  \<^verbatim>\<open>AxSnake\<close>, \<^verbatim>\<open>AxClock\<close> and \<^verbatim>\<open>AxTerminal\<close> in \<^verbatim>\<open>gfx_shell.c\<close>. The body of the snake is the list of its cells from the head
  on. The file is built for 32 bits, so \<^verbatim>\<open>unsigned long\<close> is a word of 32 bits. The real time clock is an argument.
\<close>

subsection \<open>Snake\<close>

abbreviation (input) GRID_W :: int where "GRID_W \<equiv> 20"
abbreviation (input) GRID_H :: int where "GRID_H \<equiv> 13"
abbreviation (input) SNAKE_MAX :: nat where "SNAKE_MAX \<equiv> 260"
abbreviation (input) SNAKE_TICK_N :: u32 where "SNAKE_TICK_N \<equiv> 10"

definition HISCORE_FILE :: "u8 list" where
  "HISCORE_FILE = [0x53, 0x4E, 0x41, 0x4B, 0x45, 0x2E, 0x48, 0x49]"

record snake =
  snake_cells :: "(int \<times> int) list"
  snake_dx :: int
  snake_dy :: int
  food :: "int \<times> int"
  score :: nat
  high_score :: u32
  game_over :: bool
  snake_tick :: u32
  snake_seed :: u32

definition snake_start :: snake where
  "snake_start = \<lparr>snake_cells = [], snake_dx = 0, snake_dy = 0, food = (0, 0), score = 0, high_score = 0, game_over = False,
     snake_tick = 0, snake_seed = 12345\<rparr>"

fun decimal :: "nat \<Rightarrow> u8 list" where
  "decimal v = (if v < 10 then [0x30 + word_of_nat v] else decimal (v div 10) @ [0x30 + word_of_nat (v mod 10)])"

declare decimal.simps [simp del]

definition snake_save_highscore :: "snake \<Rightarrow> fat12 \<Rightarrow> fat12 option" where
  "snake_save_highscore s fs = map_option snd (fat12_write HISCORE_FILE (decimal (unat (high_score s))) fs)"

fun read_score :: "u8 list \<Rightarrow> u32 \<Rightarrow> u32" where
  "read_score [] v = v"
| "read_score (b # bs) v = (if b < 0x30 \<or> b > 0x39 then v else read_score bs (v * 10 + ucast (b - 0x30)))"

definition snake_load_highscore :: "fat12 \<Rightarrow> snake \<Rightarrow> snake option" where
  "snake_load_highscore fs s = map_option (\<lambda>bs. s\<lparr>high_score := read_score bs 0\<rparr>) (fat12_load HISCORE_FILE 12 fs)"

definition snake_rand :: "u32 \<Rightarrow> u32 \<times> u32" where
  "snake_rand seed = (let seed = seed * 1103515245 + 12345 in (drop_bit 16 seed AND 0x7FFF, seed))"

definition snake_occupied :: "int \<times> int \<Rightarrow> snake \<Rightarrow> bool" where
  "snake_occupied c s = list_ex (\<lambda>d. d = c) (snake_cells s)"

definition grid_cells :: "(int \<times> int) list" where
  "grid_cells = concat (map (\<lambda>y. map (\<lambda>x. (x, y)) [0..GRID_W - 1]) [0..GRID_H - 1])"

text \<open>The loop of \<^verbatim>\<open>snake_spawn_food\<close> with the attempts that are left, and the scan after the last one.\<close>

primrec spawn_try :: "nat \<Rightarrow> snake \<Rightarrow> snake" where
  "spawn_try 0 s = (case find (\<lambda>c. \<not> snake_occupied c s) grid_cells of None \<Rightarrow> s | Some c \<Rightarrow> s\<lparr>food := c\<rparr>)"
| "spawn_try (Suc n) s =
     (let (r1, seed1) = snake_rand (snake_seed s); (r2, seed2) = snake_rand seed1;
          c = (int (unat r1 mod 20), int (unat r2 mod 13)); s1 = s\<lparr>snake_seed := seed2\<rparr>
      in if \<not> snake_occupied c s1 then s1\<lparr>food := c\<rparr> else spawn_try n s1)"

definition snake_spawn_food :: "snake \<Rightarrow> snake" where
  "snake_spawn_food s = spawn_try 100 s"

definition snake_reset :: "snake \<Rightarrow> snake" where
  "snake_reset s = snake_spawn_food (s\<lparr>snake_cells := [(10, 6), (9, 6), (8, 6)], snake_dx := 1, snake_dy := 0, score := 0, game_over := False\<rparr>)"

definition snake_set_dir :: "int \<Rightarrow> int \<Rightarrow> snake \<Rightarrow> snake" where
  "snake_set_dir dx dy s =
     (if game_over s then snake_reset s
      else if dx = - snake_dx s \<and> dy = - snake_dy s then s
      else s\<lparr>snake_dx := dx, snake_dy := dy\<rparr>)"

text \<open>The move of the head to a free cell.\<close>

definition snake_move :: "int \<times> int \<Rightarrow> snake \<Rightarrow> fat12 \<Rightarrow> (snake \<times> fat12) option" where
  "snake_move c s fs =
     (let grow = (c = food s);
          tail = (if grow \<and> length (snake_cells s) < SNAKE_MAX then snake_cells s else butlast (snake_cells s));
          s1 = s\<lparr>snake_cells := c # tail\<rparr>
      in if \<not> grow then Some (s1, fs)
         else let s2 = s1\<lparr>score := score s1 + 1\<rparr>
              in if int (score s2) > sint (high_score s2)
                 then let s3 = s2\<lparr>high_score := word_of_nat (score s2)\<rparr>
                      in map_option (\<lambda>fs1. (snake_spawn_food s3, fs1)) (snake_save_highscore s3 fs)
                 else Some (snake_spawn_food s2, fs))"

definition snake_advance :: "snake \<Rightarrow> fat12 \<Rightarrow> (snake \<times> fat12) option" where
  "snake_advance s fs =
     (if game_over s then Some (s, fs)
      else let newx = fst (hd (snake_cells s)) + snake_dx s; newy = snd (hd (snake_cells s)) + snake_dy s
           in if newx < 0 \<or> newx \<ge> GRID_W \<or> newy < 0 \<or> newy \<ge> GRID_H then Some (s\<lparr>game_over := True\<rparr>, fs)
              else if snake_occupied (newx, newy) s then Some (s\<lparr>game_over := True\<rparr>, fs)
              else snake_move (newx, newy) s fs)"

text \<open>What drawing the window does to the game.\<close>

definition render_snake :: "snake \<Rightarrow> fat12 \<Rightarrow> (snake \<times> fat12) option" where
  "render_snake s fs = (let s1 = s\<lparr>snake_tick := snake_tick s + 1\<rparr>
     in if snake_tick s1 mod SNAKE_TICK_N = 0 then snake_advance s1 fs else Some (s1, fs))"

subsection \<open>Clock\<close>

record clock =
  clock_alarm_h :: int
  clock_alarm_m :: int
  clock_armed :: bool
  clock_fired :: bool
  speaker :: bool

definition clock_start :: clock where
  "clock_start = \<lparr>clock_alarm_h = 0, clock_alarm_m = 0, clock_armed = False, clock_fired = False, speaker = False\<rparr>"

definition bcd :: "u8 \<Rightarrow> u8" where
  "bcd b = drop_bit 4 b * 10 + (b AND 0xF)"

text \<open>Hour, minute and second from the three registers of the clock chip.\<close>

definition rtc_time :: "u8 \<times> u8 \<times> u8 \<Rightarrow> int \<times> int \<times> int" where
  "rtc_time regs = (case regs of (h, m, s) \<Rightarrow> ((uint (bcd h) + 5) mod 24, uint (bcd m), uint (bcd s)))"

definition clock_check_alarm :: "int \<times> int \<times> int \<Rightarrow> clock \<Rightarrow> clock" where
  "clock_check_alarm t c = (case t of (h, m, s) \<Rightarrow>
     if \<not> clock_armed c \<or> clock_fired c then c
     else if h > clock_alarm_h c \<or> h = clock_alarm_h c \<and> m \<ge> clock_alarm_m c then c\<lparr>clock_fired := True, speaker := True\<rparr>
     else c)"

abbreviation (input) CLOCK_SPIN_SZ :: int where "CLOCK_SPIN_SZ \<equiv> 48"
abbreviation (input) CLOCK_PAD :: int where "CLOCK_PAD \<equiv> 8"
abbreviation (input) CLOCK_BTN_H :: int where "CLOCK_BTN_H \<equiv> 40"
abbreviation (input) CLOCK_SPIN_Y_OFF :: int where "CLOCK_SPIN_Y_OFF \<equiv> CLOCK_PAD + CHAR_W + 4 + CHAR_W + 14 + CHAR_W + 8"
abbreviation (input) CLOCK_BTN_Y_OFF :: int where "CLOCK_BTN_Y_OFF \<equiv> CLOCK_SPIN_Y_OFF + CLOCK_SPIN_SZ + 14"
abbreviation (input) CLOCK_HPLUS_X_OFF :: int where "CLOCK_HPLUS_X_OFF \<equiv> CLOCK_PAD + CLOCK_SPIN_SZ + 6 + 3 * CHAR_W"
abbreviation (input) CLOCK_MMINUS_X_OFF :: int where "CLOCK_MMINUS_X_OFF \<equiv> CLOCK_HPLUS_X_OFF + CLOCK_SPIN_SZ + 20"
abbreviation (input) CLOCK_MPLUS_X_OFF :: int where "CLOCK_MPLUS_X_OFF \<equiv> CLOCK_MMINUS_X_OFF + CLOCK_SPIN_SZ + 6 + 3 * CHAR_W"

definition handle_clock_content_click :: "int \<Rightarrow> int \<Rightarrow> int \<times> int \<times> int \<times> int \<Rightarrow> clock \<Rightarrow> clock" where
  "handle_clock_content_click mx my rect c = (case rect of (cx0, cy0, cw, ch) \<Rightarrow>
     let spin = spans my (cy0 + CLOCK_SPIN_Y_OFF) CLOCK_SPIN_SZ
     in if spin \<and> spans mx (cx0 + CLOCK_PAD) CLOCK_SPIN_SZ then c\<lparr>clock_alarm_h := (clock_alarm_h c + 23) mod 24\<rparr>
        else if spin \<and> spans mx (cx0 + CLOCK_HPLUS_X_OFF) CLOCK_SPIN_SZ then c\<lparr>clock_alarm_h := (clock_alarm_h c + 1) mod 24\<rparr>
        else if spin \<and> spans mx (cx0 + CLOCK_MMINUS_X_OFF) CLOCK_SPIN_SZ then c\<lparr>clock_alarm_m := (clock_alarm_m c + 59) mod 60\<rparr>
        else if spin \<and> spans mx (cx0 + CLOCK_MPLUS_X_OFF) CLOCK_SPIN_SZ then c\<lparr>clock_alarm_m := (clock_alarm_m c + 1) mod 60\<rparr>
        else if spans my (cy0 + CLOCK_BTN_Y_OFF) CLOCK_BTN_H \<and> spans mx (cx0 + CLOCK_PAD) (cw - 2 * CLOCK_PAD)
        then (if clock_fired c then c\<lparr>clock_fired := False, clock_armed := False, speaker := False\<rparr>
              else if clock_armed c then c\<lparr>clock_armed := False\<rparr>
              else c\<lparr>clock_armed := True, clock_fired := False\<rparr>)
        else c)"

definition clock_ok :: "clock \<Rightarrow> bool" where
  "clock_ok c \<longleftrightarrow> 0 \<le> clock_alarm_h c \<and> clock_alarm_h c < 24 \<and> 0 \<le> clock_alarm_m c \<and> clock_alarm_m c < 60 \<and> speaker c = clock_fired c"

lemma clock_start_ok: "clock_ok clock_start"
  by (simp add: clock_ok_def clock_start_def)

lemma clock_click_ok: "clock_ok c \<Longrightarrow> clock_ok (handle_clock_content_click mx my rect c)"
  by (auto simp: clock_ok_def handle_clock_content_click_def Let_def split: prod.splits)

lemma clock_check_ok: "clock_ok c \<Longrightarrow> clock_ok (clock_check_alarm t c)"
  by (auto simp: clock_ok_def clock_check_alarm_def split: prod.splits)

subsection \<open>Terminal\<close>

abbreviation (input) TROWS :: nat where "TROWS \<equiv> 16"

record term_app =
  tlines :: "u8 list list"
  trow :: nat
  tinput :: "u8 list"

definition term_start :: term_app where
  "term_start = \<lparr>tlines = replicate TROWS [], trow = 0, tinput = []\<rparr>"

definition str :: "string \<Rightarrow> u8 list" where
  "str s = map of_char s"

definition tscroll :: "term_app \<Rightarrow> term_app" where
  "tscroll t = t\<lparr>tlines := tl (tlines t) @ [[]], trow := TROWS - 1\<rparr>"

definition tputs :: "u8 list \<Rightarrow> term_app \<Rightarrow> term_app" where
  "tputs s t = (let t1 = (if trow t \<ge> TROWS then tscroll t else t)
     in t1\<lparr>tlines := (tlines t1)[trow t1 := take 38 s], trow := trow t1 + 1\<rparr>)"

definition two_digits :: "int \<Rightarrow> u8 list" where
  "two_digits n = [0x30 + word_of_int (n div 10), 0x30 + word_of_int (n mod 10)]"

text \<open>The result says whether the window is to be closed.\<close>

definition trun :: "int \<times> int \<times> int \<Rightarrow> term_app \<Rightarrow> term_app \<times> bool" where
  "trun time t =
     (let t1 = tputs (take 38 (str ''> '' @ tinput t)) t; cmd = tinput t;
          (t2, closes) =
            (if cmd = [] then (t1, False)
             else if cmd = str ''help'' then (tputs (str ''Commands: help  date  ver  cls  exit'') t1, False)
             else if cmd = str ''cls'' \<or> cmd = str ''clear'' then (t1\<lparr>tlines := replicate TROWS [], trow := 0\<rparr>, False)
             else if cmd = str ''date'' then
               (case time of (h, m, s) \<Rightarrow> (tputs (str ''Time: '' @ two_digits h @ str '':'' @ two_digits m @ str '':'' @ two_digits s) t1, False))
             else if cmd = str ''ver'' then
               (tputs (str ''Graphical Shell v2.0 - VBE truecolor'') (tputs (str ''AxOS v0.1  x86 Protected Mode'') t1), False)
             else if cmd = str ''exit'' then (t1, True)
             else (tputs (str ''Unknown. Try: help'') t1, False))
      in (t2\<lparr>tinput := []\<rparr>, closes))"

definition term_press :: "u8 \<Rightarrow> int \<times> int \<times> int \<Rightarrow> term_app \<Rightarrow> term_app \<times> bool" where
  "term_press ch time t =
     (if ch = 10 then trun time t
      else if ch = 8 then (t\<lparr>tinput := butlast (tinput t)\<rparr>, False)
      else if length (tinput t) < 37 then (t\<lparr>tinput := tinput t @ [ch]\<rparr>, False)
      else (t, False))"

definition term_ok :: "term_app \<Rightarrow> bool" where
  "term_ok t \<longleftrightarrow> length (tlines t) = TROWS \<and> (\<forall>l\<in>set (tlines t). length l \<le> 38) \<and> trow t \<le> TROWS \<and> length (tinput t) \<le> 37"

lemma term_start_ok: "term_ok term_start"
  by (simp add: term_ok_def term_start_def)

lemma tscroll_ok: "term_ok t \<Longrightarrow> term_ok (tscroll t)"
  by (cases "tlines t") (auto simp: term_ok_def tscroll_def)

lemma tputs_ok:
  assumes "term_ok t"
  shows "term_ok (tputs s t)"
proof -
  have "term_ok (t1\<lparr>tlines := (tlines t1)[trow t1 := take 38 s], trow := trow t1 + 1\<rparr>)" if "term_ok t1" "trow t1 < TROWS" for t1
    using that by (auto simp: term_ok_def dest!: set_update_subset_insert [THEN subsetD])
  from this [of t] this [of "tscroll t"] show ?thesis
    using assms tscroll_ok [OF assms] by (simp add: tputs_def tscroll_def)
qed

lemma trun_ok: "term_ok t \<Longrightarrow> term_ok (fst (trun time t))"
proof -
  assume ok: "term_ok t"
  have c: "term_ok (t1\<lparr>tinput := []\<rparr>)" if "term_ok t1" for t1 using that by (simp add: term_ok_def)
  have cls: "term_ok (t1\<lparr>tlines := replicate TROWS [], trow := 0\<rparr>)" if "term_ok t1" for t1 using that by (simp add: term_ok_def)
  show ?thesis using ok by (auto simp: trun_def Let_def c cls tputs_ok split: prod.splits if_splits)
qed

lemma term_press_ok: "term_ok t \<Longrightarrow> term_ok (fst (term_press ch time t))"
  using trun_ok [of t time] by (simp add: term_press_def) (auto simp: term_ok_def)

subsection \<open>The invariant of the game\<close>

definition in_grid :: "int \<times> int \<Rightarrow> bool" where
  "in_grid c \<longleftrightarrow> 0 \<le> fst c \<and> fst c < GRID_W \<and> 0 \<le> snd c \<and> snd c < GRID_H"

definition next_to :: "int \<times> int \<Rightarrow> int \<times> int \<Rightarrow> bool" where
  "next_to c d \<longleftrightarrow> \<bar>fst c - fst d\<bar> + \<bar>snd c - snd d\<bar> = 1"

text \<open>The cells are in the grid, distinct and connected; the food lies beside the snake, unless it fills the grid.\<close>

definition snake_ok :: "snake \<Rightarrow> bool" where
  "snake_ok s \<longleftrightarrow> length (snake_cells s) = score s + 3 \<and> distinct (snake_cells s) \<and> (\<forall>c\<in>set (snake_cells s). in_grid c) \<and>
     successively next_to (snake_cells s) \<and> \<bar>snake_dx s\<bar> + \<bar>snake_dy s\<bar> = 1 \<and>
     (in_grid (food s) \<and> food s \<notin> set (snake_cells s) \<or> set (snake_cells s) = Collect in_grid)"

lemma snake_occupied_set: "snake_occupied c s \<longleftrightarrow> c \<in> set (snake_cells s)"
  by (auto simp: snake_occupied_def list_ex_iff)

lemma grid_cells_set: "c \<in> set grid_cells \<longleftrightarrow> in_grid c"
  by (cases c) (auto simp: grid_cells_def in_grid_def image_iff)

lemma grid_cells_card: "card (Collect in_grid) = SNAKE_MAX"
proof -
  have "Collect in_grid = {0..<20} \<times> {0..<13}" by (auto simp: in_grid_def)
  then show ?thesis by (simp add: card_cartesian_product)
qed

lemma grid_finite: "finite (Collect in_grid)"
  using grid_cells_card card.infinite by force

lemma cells_bound: "distinct cs \<Longrightarrow> \<forall>c\<in>set cs. in_grid c \<Longrightarrow> length cs \<le> SNAKE_MAX"
  using card_mono [OF grid_finite, of "set cs"] distinct_card [of cs] by (auto simp: grid_cells_card)

lemma spawn_try_keeps:
  "snake_cells (spawn_try n s) = snake_cells s" "snake_dx (spawn_try n s) = snake_dx s" "snake_dy (spawn_try n s) = snake_dy s"
  "score (spawn_try n s) = score s" "high_score (spawn_try n s) = high_score s" "game_over (spawn_try n s) = game_over s"
  "snake_tick (spawn_try n s) = snake_tick s"
  by (induction n arbitrary: s) (simp_all add: snake_rand_def Let_def split: option.splits)

lemma spawn_try_food:
  assumes "\<forall>c\<in>set (snake_cells s). in_grid c"
  shows "in_grid (food (spawn_try n s)) \<and> food (spawn_try n s) \<notin> set (snake_cells s) \<or> set (snake_cells s) = Collect in_grid"
  using assms
proof (induction n arbitrary: s)
  case 0
  show ?case
  proof (cases "find (\<lambda>c. \<not> snake_occupied c s) grid_cells")
    case None
    then have "Collect in_grid \<subseteq> set (snake_cells s)" by (auto simp: find_None_iff snake_occupied_set grid_cells_set)
    then show ?thesis using 0 by auto
  next
    case (Some c)
    then have "in_grid c \<and> c \<notin> set (snake_cells s)"
      by (auto simp: find_Some_iff snake_occupied_set grid_cells_set [symmetric])
    then show ?thesis using Some by simp
  qed
next
  case (Suc n)
  obtain r1 seed1 where 1: "snake_rand (snake_seed s) = (r1, seed1)" by fastforce
  obtain r2 seed2 where 2: "snake_rand seed1 = (r2, seed2)" by fastforce
  let ?c = "(int (unat r1 mod 20), int (unat r2 mod 13))"
  have "in_grid ?c" by (simp add: in_grid_def)
  then show ?case using Suc.IH [of "s\<lparr>snake_seed := seed2\<rparr>"] Suc.prems by (simp add: 1 2 Let_def snake_occupied_set)
qed

lemma spawn_ok:
  assumes "length (snake_cells s) = score s + 3" "distinct (snake_cells s)" "\<forall>c\<in>set (snake_cells s). in_grid c"
    "successively next_to (snake_cells s)" "\<bar>snake_dx s\<bar> + \<bar>snake_dy s\<bar> = 1"
  shows "snake_ok (snake_spawn_food s)"
  using assms spawn_try_food [of s 100] by (auto simp: snake_ok_def snake_spawn_food_def spawn_try_keeps)

lemma snake_reset_ok: "snake_ok (snake_reset s)"
  unfolding snake_reset_def by (rule spawn_ok) (simp_all add: in_grid_def next_to_def)

lemma snake_set_dir_ok: "snake_ok s \<Longrightarrow> \<bar>dx\<bar> + \<bar>dy\<bar> = 1 \<Longrightarrow> snake_ok (snake_set_dir dx dy s)"
  using snake_reset_ok by (auto simp: snake_set_dir_def snake_ok_def)

lemma snake_ok_flags [simp]: "snake_ok (s\<lparr>game_over := b\<rparr>) = snake_ok s" "snake_ok (s\<lparr>snake_tick := t\<rparr>) = snake_ok s"
  "snake_ok (s\<lparr>high_score := h\<rparr>) = snake_ok s"
  by (simp_all add: snake_ok_def)

lemma length_decimal: "n < 10 ^ k \<Longrightarrow> 0 < k \<Longrightarrow> length (decimal n) \<le> k"
proof (induction n arbitrary: k rule: decimal.induct)
  case (1 v)
  show ?case
  proof (cases "v < 10")
    case False
    obtain j where k: "k = Suc j" using "1.prems"(2) by (cases k) auto
    have "v div 10 < 10 ^ j" using "1.prems"(1) k by (simp add: div_less_iff_less_mult mult.commute)
    moreover from this have "0 < j" using False by (cases j) auto
    ultimately show ?thesis using "1.IH" [OF False] False k by (simp add: decimal.simps [of v])
  qed (use "1.prems" in \<open>simp add: decimal.simps [of v]\<close>)
qed

lemma decimal_word_length: "length (decimal (unat (w :: u32))) \<le> 10"
  by (rule length_decimal) (use unsigned_less [of w, where ?'a = nat] in simp_all)

lemma digit_byte:
  assumes "d < 10"
  shows "\<not> (0x30 + word_of_nat d :: u8) < 0x30" "\<not> (0x39 :: u8) < 0x30 + word_of_nat d" "(ucast (word_of_nat d :: u8) :: u32) = word_of_nat d"
proof -
  have "d \<in> {0, 1, 2, 3, 4, 5, 6, 7, 8, 9}" using assms by auto
  then show "\<not> (0x30 + word_of_nat d :: u8) < 0x30" "\<not> (0x39 :: u8) < 0x30 + word_of_nat d" "(ucast (word_of_nat d :: u8) :: u32) = word_of_nat d"
    by auto
qed

lemma read_score_append:
  "\<forall>b\<in>set bs. \<not> b < 0x30 \<and> \<not> 0x39 < b \<Longrightarrow> read_score (bs @ cs) v = read_score cs (read_score bs v)"
  by (induction bs arbitrary: v) auto

lemma decimal_digits: "b \<in> set (decimal n) \<Longrightarrow> \<not> b < 0x30 \<and> \<not> 0x39 < b"
proof (induction n rule: decimal.induct)
  case (1 v)
  show ?case
  proof (cases "v < 10")
    case False
    then have "b \<in> set (decimal (v div 10)) \<or> b = 0x30 + word_of_nat (v mod 10)" using "1.prems" decimal.simps [of v] by auto
    then show ?thesis using "1.IH" [OF False] digit_byte(1,2) [of "v mod 10"] by auto
  qed (use "1.prems" digit_byte(1,2) [of v] in \<open>simp add: decimal.simps [of v]\<close>)
qed

lemma read_decimal_score: "read_score (decimal n) 0 = word_of_nat n"
proof (induction n rule: decimal.induct)
  case (1 v)
  show ?case
  proof (cases "v < 10")
    case False
    have "read_score (decimal v) 0 = read_score [0x30 + word_of_nat (v mod 10)] (word_of_nat (v div 10))"
      using False "1.IH" [OF False] read_score_append [of "decimal (v div 10)"] decimal_digits by (simp add: decimal.simps [of v])
    also have "\<dots> = word_of_nat (v div 10) * 10 + word_of_nat (v mod 10)" using digit_byte [of "v mod 10"] by simp
    also have "\<dots> = word_of_nat (v div 10 * 10 + v mod 10)" by (simp only: of_nat_add of_nat_mult of_nat_numeral)
    finally show ?thesis by simp
  qed (use digit_byte [of v] in \<open>simp add: decimal.simps [of v]\<close>)
qed

lemma hiscore_name: "storable HISCORE_FILE"
  by (rule typed_storable) (simp add: HISCORE_FILE_def typed_def)

lemma save_highscore_ok:
  assumes g: "vol_good fs"
  shows "\<exists>r fs'. snake_save_highscore s fs = Some fs' \<and> vol_good fs' \<and>
    fat12_write HISCORE_FILE (decimal (unat (high_score s))) fs = Some (r, fs') \<and>
    (r = 1 \<longrightarrow> (\<forall>t. snake_load_highscore fs' t = Some (t\<lparr>high_score := high_score s\<rparr>)))"
proof -
  have n: "length (decimal (unat (high_score s))) \<le> 10" by (rule decimal_word_length)
  then have "length (decimal (unat (high_score s))) \<le> 4294836736" by simp
  from vol.save_law [OF g hiscore_name this] obtain r fs' where w: "fat12_write HISCORE_FILE (decimal (unat (high_score s))) fs = Some (r, fs')"
    "vol_good fs'" "r = 1 \<and> files (img fs') = (files (img fs))(parse_83 HISCORE_FILE \<mapsto> decimal (unat (high_score s))) \<or> r = 0" by blast
  have "fat12_load HISCORE_FILE 12 fs' = Some (decimal (unat (high_score s)))" if "r = 1"
    by (rule vol.load_saved [OF w(2)]) (use w(3) that n in simp_all)
  then have "\<forall>t. snake_load_highscore fs' t = Some (t\<lparr>high_score := high_score s\<rparr>)" if "r = 1"
    using that by (simp add: snake_load_highscore_def read_decimal_score)
  then show ?thesis using w by (auto simp: snake_save_highscore_def)
qed

text \<open>The body after a move.\<close>

lemma successively_butlast: "successively P xs \<Longrightarrow> successively P (butlast xs)"
  by (induction xs rule: induct_list012) (auto simp: successively_Cons)

lemma snake_moved:
  assumes ok: "snake_ok s" and c: "c = (fst (hd (snake_cells s)) + snake_dx s, snd (hd (snake_cells s)) + snake_dy s)"
    and free: "in_grid c" "c \<notin> set (snake_cells s)"
  shows "length (snake_cells s) < SNAKE_MAX" "successively next_to (c # snake_cells s)" "successively next_to (c # butlast (snake_cells s))"
proof -
  have "length (c # snake_cells s) \<le> SNAKE_MAX" by (rule cells_bound) (use ok free in \<open>simp_all add: snake_ok_def\<close>)
  then show "length (snake_cells s) < SNAKE_MAX" by simp
  have n: "next_to c (hd (snake_cells s))" using ok c by (simp add: snake_ok_def next_to_def)
  have su: "successively next_to (snake_cells s)" and len: "3 \<le> length (snake_cells s)" using ok by (simp_all add: snake_ok_def)
  show "successively next_to (c # snake_cells s)" using n su by (simp add: successively_Cons)
  have "hd (butlast (snake_cells s)) = hd (snake_cells s)" using len by (cases "snake_cells s"; cases "tl (snake_cells s)") auto
  then show "successively next_to (c # butlast (snake_cells s))"
    using n successively_butlast [OF su] by (simp add: successively_Cons)
qed

lemma snake_advance_ok:
  assumes ok: "snake_ok s" and g: "vol_good fs"
  shows "\<exists>s' fs'. snake_advance s fs = Some (s', fs') \<and> vol_good fs' \<and> snake_ok s'"
proof -
  define c where "c = (fst (hd (snake_cells s)) + snake_dx s, snd (hd (snake_cells s)) + snake_dy s)"
  have over: "\<exists>s' fs'. snake_advance s fs = Some (s', fs') \<and> vol_good fs' \<and> snake_ok s'"
    if "game_over s \<or> \<not> in_grid c \<or> c \<in> set (snake_cells s)"
    using that ok g by (auto simp: snake_advance_def Let_def in_grid_def c_def snake_occupied_set)
  show ?thesis
  proof (cases "game_over s \<or> \<not> in_grid c \<or> c \<in> set (snake_cells s)")
    case False
    then have go: "\<not> game_over s" and free: "in_grid c" "c \<notin> set (snake_cells s)" by blast+
    note m = snake_moved [OF ok c_def free]
    have adv: "snake_advance s fs = snake_move c s fs"
      using go free by (simp add: snake_advance_def Let_def c_def in_grid_def snake_occupied_set)
    define body where "body = c # (if c = food s then snake_cells s else butlast (snake_cells s))"
    show ?thesis
    proof (cases "c = food s")
      case True
      then have "snake_ok (snake_spawn_food (s\<lparr>snake_cells := body, score := score s + 1, high_score := h\<rparr>))" for h
        by (intro spawn_ok) (use ok free m(2) in \<open>simp_all add: snake_ok_def body_def\<close>)
      from this this [of "high_score s"] show ?thesis
        using save_highscore_ok [OF g, of "s\<lparr>snake_cells := body, score := score s + 1, high_score := word_of_nat (score s + 1)\<rparr>"] g True
        by (auto simp: adv snake_move_def body_def m(1) Let_def)
    next
      case False
      have "set (snake_cells s) \<noteq> Collect in_grid" using free by blast
      then have "snake_ok (s\<lparr>snake_cells := body\<rparr>)"
        using ok free m(3) False by (auto simp: snake_ok_def body_def distinct_butlast dest: in_set_butlastD)
      then show ?thesis using False g by (simp add: adv snake_move_def body_def Let_def)
    qed
  qed (rule over)
qed

lemma render_snake_ok:
  assumes "snake_ok s" "vol_good fs"
  shows "\<exists>s' fs'. render_snake s fs = Some (s', fs') \<and> vol_good fs' \<and> snake_ok s'"
  using snake_advance_ok [of "s\<lparr>snake_tick := snake_tick s + 1\<rparr>" fs] assms by (simp add: render_snake_def Let_def)

end
