(* ===== verification/ShellPaint.thy ===== *)
theory ShellPaint
  imports ShellFiles
begin

section \<open>The paint program of the graphical shell\<close>

text \<open>
  \<^verbatim>\<open>AxPaint\<close> in \<^verbatim>\<open>gfx_shell.c\<close>: a canvas of 800 by 516 pixels, brush strokes, and saving and loading a picture of one
  pixel in five as a BMP file. A \<open>None\<close> of \<open>paint_load\<close> is a read outside \<^verbatim>\<open>save_buf\<close>.
\<close>

abbreviation (input) PAINT_CANVAS_H :: int where "PAINT_CANVAS_H \<equiv> 516"
abbreviation (input) PAINT_BRUSH :: int where "PAINT_BRUSH \<equiv> 6"
abbreviation (input) PAINT_TOOLBAR_H :: int where "PAINT_TOOLBAR_H \<equiv> 36"
abbreviation (input) SAVE_THUMB_W :: nat where "SAVE_THUMB_W \<equiv> 160"
abbreviation (input) SAVE_THUMB_H :: nat where "SAVE_THUMB_H \<equiv> 103"
abbreviation (input) SAVE_BUF_SIZE :: nat where "SAVE_BUF_SIZE \<equiv> 49494"

text \<open>The canvas is a function of column and row.\<close>

type_synonym canvas = "int \<Rightarrow> int \<Rightarrow> u32"

datatype paint_note = No_note | Slot_is nat | Saved_to nat | Save_refused | No_picture | Bad_file | Loaded_from nat

record paint =
  canvas :: canvas
  paint_ready :: bool
  paint_color :: u32
  paint_sel :: nat
  paint_prev :: "(int \<times> int) option"
  paint_slot :: nat
  paint_status :: paint_note
  paint_status_timer :: nat
  save_buf :: "u8 list"

definition paint_palette :: "u32 list" where
  "paint_palette = [0x000000, 0xFF5555, 0xFFFF55, 0x55FF55, 0x5555FF, 0xFFFFFF]"

definition paint_start :: paint where
  "paint_start = \<lparr>canvas = (\<lambda>x y. 0), paint_ready = False, paint_color = 0xFF5555, paint_sel = 1, paint_prev = None,
     paint_slot = 1, paint_status = No_note, paint_status_timer = 0, save_buf = replicate SAVE_BUF_SIZE 0\<rparr>"

definition on_canvas :: "int \<Rightarrow> int \<Rightarrow> bool" where
  "on_canvas x y \<longleftrightarrow> 0 \<le> x \<and> x < SW \<and> 0 \<le> y \<and> y < PAINT_CANVAS_H"

definition canvas_clear :: "canvas \<Rightarrow> canvas" where
  "canvas_clear c = (\<lambda>x y. if on_canvas x y then 0xFFFFFF else c x y)"

text \<open>Writing a square of the canvas; the source tests every pixel against the borders.\<close>

definition put_block :: "int \<Rightarrow> int \<Rightarrow> int \<Rightarrow> u32 \<Rightarrow> canvas \<Rightarrow> canvas" where
  "put_block x0 y0 n col c = (\<lambda>x y. if spans x x0 n \<and> spans y y0 n \<and> on_canvas x y then col else c x y)"

definition canvas_dot :: "int \<Rightarrow> int \<Rightarrow> u32 \<Rightarrow> canvas \<Rightarrow> canvas" where
  "canvas_dot cx cy col c = put_block (cx - PAINT_BRUSH div 2) (cy - PAINT_BRUSH div 2) PAINT_BRUSH col c"

text \<open>Division in C rounds towards zero.\<close>

definition cdiv :: "int \<Rightarrow> int \<Rightarrow> int" where
  "cdiv a b = sgn a * sgn b * (\<bar>a\<bar> div \<bar>b\<bar>)"

definition canvas_paint_line :: "int \<Rightarrow> int \<Rightarrow> int \<Rightarrow> int \<Rightarrow> u32 \<Rightarrow> canvas \<Rightarrow> canvas" where
  "canvas_paint_line x0 y0 x1 y1 col c =
     (let dx = x1 - x0; dy = y1 - y0;
          dist = (if \<bar>dy\<bar> > \<bar>dx\<bar> then \<bar>dy\<bar> else \<bar>dx\<bar>);
          steps = dist div (PAINT_BRUSH div 2);
          steps = (if steps < 1 then 1 else steps)
      in fold (\<lambda>i. canvas_dot (x0 + cdiv (dx * i) steps) (y0 + cdiv (dy * i) steps) col) [0..steps] c)"

subsection \<open>Files\<close>

definition paint_status_set :: "paint_note \<Rightarrow> paint \<Rightarrow> paint" where
  "paint_status_set n p = p\<lparr>paint_status := n, paint_status_timer := 90\<rparr>"

definition paint_slot_filename :: "nat \<Rightarrow> u8 list" where
  "paint_slot_filename n = [0x50, 0x41, 0x49, 0x4E, 0x54, 0x30 + word_of_nat n, 0x2E, 0x42, 0x4D, 0x50]"

definition bmp_wr32 :: "u32 \<Rightarrow> u8 list" where
  "bmp_wr32 v = [ucast v, ucast (drop_bit 8 v), ucast (drop_bit 16 v), ucast (drop_bit 24 v)]"

definition bmp_wr16 :: "u16 \<Rightarrow> u8 list" where
  "bmp_wr16 v = [ucast v, ucast (drop_bit 8 v)]"

definition bmp_rd32 :: "nat \<Rightarrow> u8 list \<Rightarrow> u32" where
  "bmp_rd32 i b = ucast (b ! i) OR push_bit 8 (ucast (b ! (i + 1))) OR push_bit 16 (ucast (b ! (i + 2))) OR push_bit 24 (ucast (b ! (i + 3)))"

definition bmp_rd16 :: "nat \<Rightarrow> u8 list \<Rightarrow> u16" where
  "bmp_rd16 i b = ucast (ucast (b ! i) OR push_bit 8 (ucast (b ! (i + 1)) :: u32))"

definition bmp_header :: "u8 list" where
  "bmp_header = [0x42, 0x4D] @ bmp_wr32 49494 @ bmp_wr32 0 @ bmp_wr32 54 @ bmp_wr32 40 @ bmp_wr32 160 @ bmp_wr32 103 @
     bmp_wr16 1 @ bmp_wr16 24 @ bmp_wr32 0 @ bmp_wr32 49440 @ bmp_wr32 0 @ bmp_wr32 0 @ bmp_wr32 0 @ bmp_wr32 0"

definition bgr :: "u32 \<Rightarrow> u8 list" where
  "bgr c = [ucast (c AND 0xFF), ucast (drop_bit 8 c AND 0xFF), ucast (drop_bit 16 c AND 0xFF)]"

text \<open>The rows of the file from the bottom of the picture up; a row of 160 pixels needs no padding.\<close>

definition bmp_pixels :: "canvas \<Rightarrow> u8 list" where
  "bmp_pixels c = concat (map (\<lambda>ty. concat (map (\<lambda>tx. bgr (c (int tx * 5) (int ty * 5))) [0..<SAVE_THUMB_W])) (rev [0..<SAVE_THUMB_H]))"

definition paint_save :: "paint \<Rightarrow> fat12 \<Rightarrow> (paint \<times> fat12) option" where
  "paint_save p s =
     (let b = bmp_header @ bmp_pixels (canvas p); p1 = p\<lparr>save_buf := b\<rparr>
      in map_option (\<lambda>(ok, s1). (paint_status_set (if ok \<noteq> 0 then Saved_to (paint_slot p) else Save_refused) p1, s1))
           (fat12_write (paint_slot_filename (paint_slot p)) b s))"

text \<open>One pixel of the file at an offset that has the type \<^verbatim>\<open>unsigned int\<close>.\<close>

definition bmp_pixel :: "u32 \<Rightarrow> u8 list \<Rightarrow> u32 option" where
  "bmp_pixel off b =
     (if unat off < length b \<and> unat (off + 1) < length b \<and> unat (off + 2) < length b
      then Some (push_bit 16 (ucast (b ! unat (off + 2))) OR push_bit 8 (ucast (b ! unat (off + 1))) OR ucast (b ! unat off))
      else None)"

text \<open>A product that may wrap.\<close>

definition scaled :: "int \<Rightarrow> int" where
  "scaled k = sint (word_of_int (k * 5) :: u32)"

text \<open>The loop over the pixels of a row, and the loop over the rows with their number and the number that is left.\<close>

primrec load_row :: "nat \<Rightarrow> nat \<Rightarrow> u32 \<Rightarrow> int \<Rightarrow> u8 list \<Rightarrow> canvas \<Rightarrow> canvas option" where
  "load_row 0 x pos dst_row b c = Some c"
| "load_row (Suc n) x pos dst_row b c =
     (case bmp_pixel (pos + word_of_nat x * 3) b of
        None \<Rightarrow> None
      | Some col \<Rightarrow> load_row n (x + 1) pos dst_row b (put_block (int x * 5) (scaled dst_row) 5 col c))"

primrec load_rows :: "nat \<Rightarrow> nat \<Rightarrow> u32 \<Rightarrow> u32 \<Rightarrow> u32 \<Rightarrow> u8 list \<Rightarrow> canvas \<Rightarrow> canvas option" where
  "load_rows 0 width row_bytes n pos b c = Some c"
| "load_rows (Suc left) width row_bytes n pos b c =
     (if pos + row_bytes > n then Some c
      else case load_row width 0 pos (int left) b c of
             None \<Rightarrow> None
           | Some c1 \<Rightarrow> load_rows left width row_bytes n (pos + row_bytes) b c1)"

definition paint_load :: "paint \<Rightarrow> fat12 \<Rightarrow> paint option" where
  "paint_load p s =
     (case fat12_load (paint_slot_filename (paint_slot p)) SAVE_BUF_SIZE s of
        None \<Rightarrow> None
      | Some bs \<Rightarrow>
          let n = length bs; b = bs @ drop n (save_buf p); p1 = p\<lparr>save_buf := b\<rparr>
          in if n < 54 \<or> b ! 0 \<noteq> 0x42 \<or> b ! 1 \<noteq> 0x4D then Some (paint_status_set No_picture p1)
             else let data_off = bmp_rd32 10 b; dib_size = bmp_rd32 14 b; width = bmp_rd32 18 b; height = bmp_rd32 22 b;
                      bpp = bmp_rd16 28 b; compression = bmp_rd32 30 b
                  in if dib_size < 40 \<or> compression \<noteq> 0 \<or> bpp \<noteq> 24 \<or> sint width \<le> 0 \<or> sint height \<le> 0 \<or>
                        data_off < 54 \<or> unat data_off > n
                     then Some (paint_status_set Bad_file p1)
                     else map_option (\<lambda>c. paint_status_set (Loaded_from (paint_slot p)) (p1\<lparr>canvas := c\<rparr>))
                            (load_rows (unat height) (unat width) ((width * 3 + 3) AND NOT 3) (word_of_nat n) data_off b (canvas p)))"

subsection \<open>Clicks and strokes\<close>

definition swatch_x :: "nat \<Rightarrow> int" where
  "swatch_x i = 16 + int i * 28"

definition pick_swatch :: "int \<Rightarrow> int \<Rightarrow> paint \<Rightarrow> paint" where
  "pick_swatch mx my p =
     fold (\<lambda>i p. if spans mx (swatch_x i) 24 \<and> spans my 30 24 then p\<lparr>paint_sel := i, paint_color := paint_palette ! i\<rparr> else p) [0..<6] p"

text \<open>The buttons CLEAR, SLOT, SAVE and LOAD, left ends 704, 432, 544 and 624.\<close>

definition paint_click :: "int \<Rightarrow> int \<Rightarrow> paint \<Rightarrow> fat12 \<Rightarrow> (paint \<times> fat12) option" where
  "paint_click mx my p s =
     (let row = spans my 34 CHAR_W;
          p1 = pick_swatch mx my p;
          p2 = (if row \<and> spans mx 704 80 then p1\<lparr>canvas := canvas_clear (canvas p1)\<rparr> else p1);
          p3 = (if row \<and> spans mx 432 96
                then let sl = paint_slot p2 mod 8 + 1 in paint_status_set (Slot_is sl) (p2\<lparr>paint_slot := sl\<rparr>) else p2)
      in case (if row \<and> spans mx 544 64 then paint_save p3 s else Some (p3, s)) of
           None \<Rightarrow> None
         | Some (p4, s1) \<Rightarrow> if row \<and> spans mx 624 64 then map_option (\<lambda>p5. (p5, s1)) (paint_load p4 s1) else Some (p4, s1))"

text \<open>\<open>left\<close> and \<open>right\<close> are the mouse buttons, \<open>painting\<close> says that the program is on the screen.\<close>

definition handle_paint_drag :: "bool \<Rightarrow> bool \<Rightarrow> bool \<Rightarrow> int \<Rightarrow> int \<Rightarrow> paint \<Rightarrow> paint" where
  "handle_paint_drag painting left right mx my p =
     (if \<not> painting then p\<lparr>paint_prev := None\<rparr>
      else let in_canvas = (my \<ge> AREA_Y + PAINT_TOOLBAR_H \<and> my < BBAR_Y); cx = mx; cy = my - (AREA_Y + PAINT_TOOLBAR_H)
           in if right \<and> in_canvas then p\<lparr>canvas := canvas_clear (canvas p), paint_prev := None\<rparr>
              else if left \<and> in_canvas
              then (case paint_prev p of
                      Some (px, py) \<Rightarrow> p\<lparr>canvas := canvas_paint_line px py cx cy (paint_color p) (canvas p), paint_prev := Some (cx, cy)\<rparr>
                    | None \<Rightarrow> p\<lparr>canvas := canvas_dot cx cy (paint_color p) (canvas p), paint_prev := Some (cx, cy)\<rparr>)
              else p\<lparr>paint_prev := None\<rparr>)"

definition render_paint :: "paint \<Rightarrow> paint" where
  "render_paint p =
     (let p1 = (if paint_ready p then p else p\<lparr>canvas := canvas_clear (canvas p), paint_ready := True\<rparr>)
      in p1\<lparr>paint_status_timer := paint_status_timer p1 - 1\<rparr>)"

subsection \<open>Strokes stay on the canvas\<close>

lemma put_block_frame: "\<not> on_canvas x y \<Longrightarrow> put_block x0 y0 n col c x y = c x y"
  by (simp add: put_block_def)

lemma dots_frame: "\<not> on_canvas x y \<Longrightarrow> fold (\<lambda>i. canvas_dot (f i) (g i) col) is c x y = c x y"
  by (induction "is" arbitrary: c) (simp_all add: canvas_dot_def put_block_def)

lemma paint_line_frame: "\<not> on_canvas x y \<Longrightarrow> canvas_paint_line x0 y0 x1 y1 col c x y = c x y"
  by (simp add: canvas_paint_line_def Let_def dots_frame)

subsection \<open>A saved picture\<close>

lemma nth_concat_rows:
  assumes "\<forall>i<n. length (f i) = m" "i < n" "k < m"
  shows "concat (map f [0..<n]) ! (i * m + k) = f i ! k" "length (concat (map f [0..<n])) = n * m"
proof -
  have len: "length (concat (map f [0..<j])) = j * m" if "j \<le> n" for j
    using that assms(1) by (induction j) auto
  show "length (concat (map f [0..<n])) = n * m" by (rule len) simp
  have split: "[0..<n] = [0..<i] @ i # [Suc i..<n]"
    using assms(2) upt_add_eq_append [of 0 i "n - i"] upt_conv_Cons [of i n] by simp
  have "length (concat (map f [0..<i])) = i * m" using assms(2) by (intro len) simp
  then show "concat (map f [0..<n]) ! (i * m + k) = f i ! k"
    unfolding split using assms by (simp add: nth_append)
qed

definition saved_row :: "canvas \<Rightarrow> nat \<Rightarrow> u8 list" where
  "saved_row c ty = concat (map (\<lambda>tx. bgr (c (int tx * 5) (int ty * 5))) [0..<160])"

lemma bgr_length [simp]: "length (bgr v) = 3"
  by (simp add: bgr_def)

lemma saved_row_nth: "tx < 160 \<Longrightarrow> k < 3 \<Longrightarrow> saved_row c ty ! (tx * 3 + k) = bgr (c (int tx * 5) (int ty * 5)) ! k"
  unfolding saved_row_def by (rule nth_concat_rows(1)) simp_all

lemma saved_row_length [simp]: "length (saved_row c ty) = 480"
  unfolding saved_row_def using nth_concat_rows(2) [of 160 "\<lambda>tx. bgr (c (int tx * 5) (int ty * 5))" 3 0 0] by simp

lemma bmp_pixels_rows: "bmp_pixels c = concat (map (\<lambda>i. saved_row c (102 - i)) [0..<103])"
proof -
  have "rev [0..<103] = map (\<lambda>i. 102 - i) [0..<103]" by (rule nth_equalityI) (simp_all add: rev_nth del: upt_rec_numeral)
  then have "bmp_pixels c = concat (map (saved_row c) (map (\<lambda>i. 102 - i) [0..<103]))"
    unfolding bmp_pixels_def saved_row_def by (simp only:)
  then show ?thesis by (simp only: map_map comp_def)
qed

lemma bmp_pixels_length: "length (bmp_pixels c) = 49440"
  unfolding bmp_pixels_rows using nth_concat_rows(2) [of 103 "\<lambda>i. saved_row c (102 - i)" 480 0 0] by simp

lemma bmp_pixels_nth:
  assumes "ty < 103" "tx < 160" "k < 3"
  shows "bmp_pixels c ! ((102 - ty) * 480 + tx * 3 + k) = bgr (c (int tx * 5) (int ty * 5)) ! k"
proof -
  have "bmp_pixels c ! ((102 - ty) * 480 + (tx * 3 + k)) = saved_row c (102 - (102 - ty)) ! (tx * 3 + k)"
    unfolding bmp_pixels_rows by (rule nth_concat_rows(1)) (use assms in simp_all)
  then show ?thesis using assms saved_row_nth [OF assms(2,3), of c ty] by (simp add: add.assoc)
qed

lemma bmp_header_length: "length bmp_header = 54"
  by (simp add: bmp_header_def bmp_wr32_def bmp_wr16_def)

lemma bmp_file_length: "length (bmp_header @ bmp_pixels c) = SAVE_BUF_SIZE"
  by (simp add: bmp_header_length bmp_pixels_length)

lemma bgr_back:
  "push_bit 16 (ucast (bgr v ! 2)) OR push_bit 8 (ucast (bgr v ! 1)) OR ucast (bgr v ! 0) = (v AND 0xFFFFFF :: u32)"
proof (rule bit_word_eqI)
  fix n assume "n < LENGTH(32)"
  moreover have "bit (0xFFFFFF :: u32) n \<longleftrightarrow> n < 24" if "n < 32" for n
    using that bit_mask_iff [of 24 n, where 'a = u32] by (simp add: mask_eq_exp_minus_1 possible_bit_def)
  moreover have "bit (0xFF :: u32) n \<longleftrightarrow> n < 8" if "n < 32" for n
    using that bit_mask_iff [of 8 n, where 'a = u32] by (simp add: mask_eq_exp_minus_1 possible_bit_def)
  ultimately show "bit (push_bit 16 (ucast (bgr v ! 2)) OR push_bit 8 (ucast (bgr v ! 1)) OR ucast (bgr v ! 0) :: u32) n = bit (v AND 0xFFFFFF) n"
    by (cases "n < 8"; cases "n < 16") (auto simp: bgr_def bit_simps)
qed

lemma bmp_pixel_nat:
  "P + 2 < length b \<Longrightarrow> length b \<le> SAVE_BUF_SIZE \<Longrightarrow>
     bmp_pixel (word_of_nat P) b = Some (push_bit 16 (ucast (b ! (P + 2))) OR push_bit 8 (ucast (b ! (P + 1))) OR ucast (b ! P))"
proof -
  assume P: "P + 2 < length b" "length b \<le> SAVE_BUF_SIZE"
  have u: "unat (word_of_nat (P + k) :: u32) = P + k" if "k \<le> 2" for k
    unfolding unat_of_nat using P that by simp
  have w: "(word_of_nat P + 1 :: u32) = word_of_nat (P + 1)" "(word_of_nat P + 2 :: u32) = word_of_nat (P + 2)" by simp_all
  have "P < length b" "P + 1 < length b" using P by simp_all
  then show ?thesis unfolding bmp_pixel_def w using u [of 0] u [of 1] u [of 2] P(1) by (simp only: add_0_right if_True simp_thms order.refl)
qed

lemma scaled_small: "0 \<le> d \<Longrightarrow> d < 1000 \<Longrightarrow> scaled d = d * 5"
  unfolding scaled_def signed_of_int by (simp add: signed_take_bit_int_eq_self)

lemma within_block: "spans X (i * 5) 5 \<longleftrightarrow> X div 5 = i"
  by (auto simp: spans_def)

text \<open>What the loops draw, when every pixel they need is in the buffer.\<close>

lemma load_row_draws:
  assumes "\<forall>i<x + n. bmp_pixel (pos + word_of_nat i * 3) b = Some (col i)" "0 \<le> d" "d < 1000"
  shows "load_row n x pos d b c = Some (\<lambda>X Y. if int x \<le> X div 5 \<and> X div 5 < int (x + n) \<and> Y div 5 = d \<and> on_canvas X Y
    then col (nat (X div 5)) else c X Y)"
  using assms(1)
proof (induction n arbitrary: x c)
  case 0
  have "\<not> (int x \<le> X div 5 \<and> X div 5 < int (x + 0) \<and> Y div 5 = d \<and> on_canvas X Y)" for X Y by simp
  then show ?case by (simp only: load_row.simps if_False)
next
  case (Suc n)
  have p: "bmp_pixel (pos + word_of_nat x * 3) b = Some (col x)" using Suc.prems by simp
  have ih: "load_row n (x + 1) pos d b c1 = Some (\<lambda>X Y. if int (x + 1) \<le> X div 5 \<and> X div 5 < int (x + 1 + n) \<and> Y div 5 = d \<and> on_canvas X Y
    then col (nat (X div 5)) else c1 X Y)" for c1 by (rule Suc.IH) (use Suc.prems in simp)
  show ?case unfolding load_row.simps p option.case ih option.inject
    by (rule ext)+ (auto simp: put_block_def scaled_small [OF assms(2,3)] within_block)
qed

lemma load_rows_draws:
  assumes "left \<le> 103"
    and "\<forall>ty<103. \<forall>tx<160. bmp_pixel (word_of_nat (54 + (102 - ty) * 480) + word_of_nat tx * 3) b = Some (col tx ty)"
  shows "load_rows left 160 480 49494 (word_of_nat (54 + (103 - left) * 480)) b c =
    Some (\<lambda>X Y. if X div 5 < 160 \<and> Y div 5 < int left \<and> on_canvas X Y then col (nat (X div 5)) (nat (Y div 5)) else c X Y)"
  using assms(1)
proof (induction left arbitrary: c)
  case 0
  have "\<not> (Y div 5 < 0 \<and> on_canvas X Y)" for X Y :: int by (auto simp: on_canvas_def)
  then show ?case by (auto simp: fun_eq_iff)
next
  case (Suc l)
  have pos: "103 - Suc l = 102 - l" using Suc.prems by simp
  have le: "\<not> word_of_nat (54 + (102 - l) * 480) + 480 > (49494 :: u32)"
  proof -
    have "(word_of_nat (54 + (102 - l) * 480) + 480 :: u32) = word_of_nat (54 + (102 - l) * 480 + 480)" by (simp only: of_nat_add of_nat_numeral)
    moreover have "unat (word_of_nat (54 + (102 - l) * 480 + 480) :: u32) \<le> 49494" unfolding unat_of_nat using Suc.prems by simp
    ultimately show ?thesis by (simp only: not_less word_le_nat_alt) simp
  qed
  have next_pos: "(word_of_nat (54 + (102 - l) * 480) + 480 :: u32) = word_of_nat (54 + (103 - l) * 480)"
  proof -
    have "54 + (103 - l) * 480 = 54 + (102 - l) * 480 + 480" using Suc.prems by simp
    then show ?thesis by (simp only: of_nat_add of_nat_numeral)
  qed
  have row: "load_row 160 0 (word_of_nat (54 + (102 - l) * 480)) (int l) b c = Some (\<lambda>X Y. if int 0 \<le> X div 5 \<and> X div 5 < int (0 + 160) \<and> Y div 5 = int l \<and> on_canvas X Y
      then col (nat (X div 5)) l else c X Y)"
    by (rule load_row_draws) (use assms(2) Suc.prems in auto)
  have ih: "load_rows l 160 480 49494 (word_of_nat (54 + (103 - l) * 480)) b c1 =
    Some (\<lambda>X Y. if X div 5 < 160 \<and> Y div 5 < int l \<and> on_canvas X Y then col (nat (X div 5)) (nat (Y div 5)) else c1 X Y)" for c1
    by (rule Suc.IH) (use Suc.prems in simp)
  show ?case
    unfolding load_rows.simps pos next_pos if_not_P [OF le [unfolded next_pos]] row option.case ih option.inject
    by (rule ext)+ (auto simp: on_canvas_def)
qed

lemma saved_pixel:
  assumes "ty < 103" "tx < 160"
  shows "bmp_pixel (word_of_nat (54 + (102 - ty) * 480) + word_of_nat tx * 3) (bmp_header @ bmp_pixels c) = Some (c (int tx * 5) (int ty * 5) AND 0xFFFFFF)"
proof -
  let ?P = "54 + ((102 - ty) * 480 + tx * 3)" and ?b = "bmp_header @ bmp_pixels c"
  have w: "(word_of_nat (54 + (102 - ty) * 480) + word_of_nat tx * 3 :: u32) = word_of_nat ?P" by simp
  have P: "?P + 2 < length ?b" "length ?b \<le> SAVE_BUF_SIZE" using assms by (simp_all only: bmp_file_length)
  have at: "?b ! (?P + k) = bgr (c (int tx * 5) (int ty * 5)) ! k" if "k < 3" for k
    using bmp_pixels_nth [OF assms that, of c] by (simp add: nth_append bmp_header_length add.assoc)
  show ?thesis unfolding w bmp_pixel_nat [OF P] using at [of 0] at [of 1] at [of 2] bgr_back by simp
qed

subsection \<open>Loading\<close>

definition paint_ok :: "paint \<Rightarrow> bool" where
  "paint_ok p \<longleftrightarrow> length (save_buf p) = SAVE_BUF_SIZE \<and> 1 \<le> paint_slot p \<and> paint_slot p \<le> 8 \<and> paint_sel p < 6"

lemma slot_name: "1 \<le> n \<Longrightarrow> n \<le> 8 \<Longrightarrow> storable (paint_slot_filename n)"
proof -
  assume "1 \<le> n" "n \<le> 8"
  then have "n \<in> {1, 2, 3, 4, 5, 6, 7, 8}" by auto
  then show ?thesis by (intro typed_storable) (auto simp: paint_slot_filename_def typed_def)
qed

text \<open>The fields of the header as the loader reads them.\<close>

lemma header_bytes: "bmp_header = [0x42, 0x4D, 0x56, 0xC1, 0, 0, 0, 0, 0, 0, 54, 0, 0, 0, 40, 0, 0, 0, 160, 0, 0, 0, 103, 0, 0, 0, 1, 0, 24, 0,
    0, 0, 0, 0, 0x20, 0xC1, 0, 0, 0, 0, 0, 0, 0, 0, 0, 0, 0, 0, 0, 0, 0, 0, 0, 0]"
  by (simp add: bmp_header_def bmp_wr32_def bmp_wr16_def drop_bit_eq_div)

lemma header_fields:
  "(bmp_header @ r) ! 0 = 0x42" "(bmp_header @ r) ! 1 = 0x4D" "bmp_rd32 10 (bmp_header @ r) = 54" "bmp_rd32 14 (bmp_header @ r) = 40"
  "bmp_rd32 18 (bmp_header @ r) = 160" "bmp_rd32 22 (bmp_header @ r) = 103" "bmp_rd16 28 (bmp_header @ r) = 24" "bmp_rd32 30 (bmp_header @ r) = 0"
  by (simp_all add: header_bytes bmp_rd32_def bmp_rd16_def)

lemma paint_save_ok:
  assumes g: "vol_good s" and ok: "paint_ok p"
  shows "\<exists>p' s'. paint_save p s = Some (p', s') \<and> vol_good s' \<and> paint_ok p' \<and> paint_slot p' = paint_slot p \<and> canvas p' = canvas p \<and>
    (\<forall>n. paint_status p' = Saved_to n \<longrightarrow>
       files (img s') = (files (img s))(parse_83 (paint_slot_filename (paint_slot p)) \<mapsto> bmp_header @ bmp_pixels (canvas p)))"
proof -
  let ?b = "bmp_header @ bmp_pixels (canvas p)"
  have sl: "1 \<le> paint_slot p" "paint_slot p \<le> 8" using ok by (simp_all add: paint_ok_def)
  have "length ?b \<le> 4294836736" unfolding bmp_file_length by simp
  from vol.save_law [OF g slot_name [OF sl] this] obtain r s' where w: "fat12_write (paint_slot_filename (paint_slot p)) ?b s = Some (r, s')" "vol_good s'"
    "r = 1 \<and> files (img s') = (files (img s))(parse_83 (paint_slot_filename (paint_slot p)) \<mapsto> ?b) \<or> r = 0" by blast
  have "paint_save p s = Some (paint_status_set (if r \<noteq> 0 then Saved_to (paint_slot p) else Save_refused) (p\<lparr>save_buf := ?b\<rparr>), s')"
    by (simp add: paint_save_def w(1))
  then show ?thesis using w ok by (auto simp: paint_ok_def paint_status_set_def bmp_header_length bmp_pixels_length)
qed

definition thumbnail :: "canvas \<Rightarrow> canvas \<Rightarrow> canvas" where
  "thumbnail c q = (\<lambda>X Y. if on_canvas X Y \<and> Y < 515 then c (X div 5 * 5) (Y div 5 * 5) AND 0xFFFFFF else q X Y)"

lemma paint_load_saved:
  assumes g: "vol_good s" and q: "length (save_buf q) = SAVE_BUF_SIZE"
    and f: "files (img s) (parse_83 (paint_slot_filename (paint_slot q))) = Some (bmp_header @ bmp_pixels c)"
  shows "\<exists>q'. paint_load q s = Some q' \<and> canvas q' = thumbnail c (canvas q) \<and> paint_status q' = Loaded_from (paint_slot q)"
proof -
  let ?b = "bmp_header @ bmp_pixels c"
  have l: "fat12_load (paint_slot_filename (paint_slot q)) SAVE_BUF_SIZE s = Some ?b"
    by (rule vol.load_saved [OF g f]) (simp only: bmp_file_length)
  have b: "?b @ drop 49494 (save_buf q) = ?b" using q by simp
  have "load_rows 103 160 480 49494 (word_of_nat (54 + (103 - 103) * 480)) ?b (canvas q) =
      Some (\<lambda>X Y. if X div 5 < 160 \<and> Y div 5 < int 103 \<and> on_canvas X Y then (\<lambda>tx ty. c (int tx * 5) (int ty * 5) AND 0xFFFFFF) (nat (X div 5)) (nat (Y div 5)) else canvas q X Y)"
    by (rule load_rows_draws) (use saved_pixel in auto)
  also have "(\<lambda>X Y. if X div 5 < 160 \<and> Y div 5 < int 103 \<and> on_canvas X Y then (\<lambda>tx ty. c (int tx * 5) (int ty * 5) AND 0xFFFFFF) (nat (X div 5)) (nat (Y div 5)) else canvas q X Y)
      = thumbnail c (canvas q)"
    by (rule ext)+ (auto simp: thumbnail_def on_canvas_def)
  finally have r: "load_rows 103 160 480 49494 54 ?b (canvas q) = Some (thumbnail c (canvas q))" by simp
  have rb: "(160 * 3 + 3 :: u32) AND NOT 3 = 480" by simp
  show ?thesis
    unfolding paint_load_def l option.case Let_def bmp_file_length b header_fields
    using r by (simp add: paint_status_set_def rb)
qed

subsection \<open>Pictures too wide\<close>

lemma load_row_outside:
  "(\<exists>j<n. bmp_pixel (pos + word_of_nat (x + j) * 3) b = None) \<Longrightarrow> load_row n x pos d b c = None"
proof (induction n arbitrary: x c)
  case (Suc n)
  then obtain j where j: "j < Suc n" "bmp_pixel (pos + word_of_nat (x + j) * 3) b = None" by blast
  show ?case
  proof (cases j)
    case 0
    then show ?thesis using j(2) by simp
  next
    case (Suc i)
    then have "\<exists>j<n. bmp_pixel (pos + word_of_nat (x + 1 + j) * 3) b = None" using j by (intro exI [of _ i]) simp
    then have "load_row n (x + 1) pos d b c1 = None" for c1 by (rule Suc.IH)
    then show ?thesis by (simp split: option.splits)
  qed
qed simp

lemma unat_align4: "unat ((x :: u32) AND NOT 3) = unat x div 4 * 4"
proof -
  have m: "(3 :: u32) = mask 2" by (simp add: mask_eq_decr_exp)
  have s: "Suc (Suc (n - 2)) = n" if "2 \<le> n" for n using that by simp
  have "x AND NOT 3 = push_bit 2 (drop_bit 2 x)" unfolding m
    by (rule bit_word_eqI) (auto simp: bit_and_iff bit_not_iff bit_mask_iff bit_push_bit_iff bit_drop_bit_eq s)
  also have "\<dots> = x div 4 * 4" by (simp add: push_bit_eq_mult drop_bit_eq_div)
  finally have e: "x AND NOT 3 = x div 4 * 4" .
  have "unat x < 2 ^ LENGTH(32)" by (rule unsigned_less)
  then show ?thesis unfolding e by (simp add: unat_word_ariths unat_div)
qed

lemma load_row_inside:
  assumes "unat pos + 3 * (x + n) \<le> length b" "length b \<le> SAVE_BUF_SIZE"
  shows "\<exists>c'. load_row n x pos d b c = Some c'"
  using assms(1)
proof (induction n arbitrary: x c)
  case (Suc n)
  have e: "pos + word_of_nat x * 3 = word_of_nat (unat pos + x * 3)" by simp
  have "unat pos + x * 3 + 2 < length b" using Suc.prems by simp
  from bmp_pixel_nat [OF this assms(2)] obtain col where "bmp_pixel (pos + word_of_nat x * 3) b = Some col" unfolding e by blast
  then show ?case using Suc.IH [of "x + 1"] Suc.prems by simp
qed simp

lemma load_rows_inside:
  assumes "width \<le> 2 ^ 30" "unat row_bytes \<ge> 3 * width" "unat row_bytes \<le> 3 * width + 3" "length b = SAVE_BUF_SIZE" "unat n \<le> SAVE_BUF_SIZE"
  shows "unat pos \<le> unat n \<Longrightarrow> \<exists>c'. load_rows left width row_bytes n pos b c = Some c'"
proof (induction left arbitrary: pos c)
  case (Suc left)
  have u: "unat (pos + row_bytes) = unat pos + unat row_bytes" using assms Suc.prems by (simp add: unat_word_ariths)
  show ?case
  proof (cases "pos + row_bytes > n")
    case False
    then have le: "unat pos + unat row_bytes \<le> unat n" using u by (simp add: word_less_nat_alt)
    obtain c1 where "load_row width 0 pos (int left) b c = Some c1"
      using load_row_inside [of pos 0 width b "int left" c] le assms by auto
    then show ?thesis using False Suc.IH [of "pos + row_bytes" c1] u le by simp
  qed simp
qed simp

text \<open>The width a picture may have without the loader leaving its buffer.\<close>

definition picture_fits :: "u8 list \<Rightarrow> bool" where
  "picture_fits bs \<longleftrightarrow> (54 \<le> length bs \<longrightarrow> unat (bmp_rd32 18 bs) \<le> 2 ^ 30)"

lemma rd32_append: "i + 3 < length bs \<Longrightarrow> bmp_rd32 i (bs @ r) = bmp_rd32 i bs"
  by (simp add: bmp_rd32_def nth_append)

lemma paint_load_ok:
  assumes g: "vol_good s" and ok: "paint_ok p"
    and fit: "\<forall>bs. files (img s) (parse_83 (paint_slot_filename (paint_slot p))) = Some bs \<longrightarrow> picture_fits (take SAVE_BUF_SIZE bs)"
  shows "\<exists>p'. paint_load p s = Some p' \<and> paint_ok p'"
proof -
  obtain bs where l: "fat12_load (paint_slot_filename (paint_slot p)) SAVE_BUF_SIZE s = Some bs" and len: "length bs \<le> SAVE_BUF_SIZE" and pf: "picture_fits bs"
    using vol.load_law [OF g, of "paint_slot_filename (paint_slot p)" SAVE_BUF_SIZE] fit by (auto simp: picture_fits_def split: option.splits)
  let ?b = "bs @ drop (length bs) (save_buf p)"
  have b: "length ?b = SAVE_BUF_SIZE" using len ok by (simp add: paint_ok_def)
  have draws: "\<exists>c'. load_rows (unat (bmp_rd32 22 ?b)) (unat (bmp_rd32 18 ?b)) ((bmp_rd32 18 ?b * 3 + 3) AND NOT 3) (word_of_nat (length bs)) (bmp_rd32 10 ?b) ?b (canvas p) = Some c'"
    if "54 \<le> length bs" "unat (bmp_rd32 10 ?b) \<le> length bs"
  proof (rule load_rows_inside)
    have w: "unat (bmp_rd32 18 ?b) \<le> 2 ^ 30" using pf that(1) rd32_append [of 18 bs] by (simp add: picture_fits_def)
    then show "unat (bmp_rd32 18 ?b) \<le> 2 ^ 30" .
    have "unat (bmp_rd32 18 ?b * 3 + 3) = 3 * unat (bmp_rd32 18 ?b) + 3" using w by (simp add: unat_word_ariths)
    then have r: "unat ((bmp_rd32 18 ?b * 3 + 3) AND NOT 3) = (3 * unat (bmp_rd32 18 ?b) + 3) div 4 * 4" by (simp only: unat_align4)
    show "3 * unat (bmp_rd32 18 ?b) \<le> unat ((bmp_rd32 18 ?b * 3 + 3) AND NOT 3)" unfolding r by linarith
    show "unat ((bmp_rd32 18 ?b * 3 + 3) AND NOT 3) \<le> 3 * unat (bmp_rd32 18 ?b) + 3" unfolding r by linarith
    show "length ?b = SAVE_BUF_SIZE" by (rule b)
    have n: "unat (word_of_nat (length bs) :: u32) = length bs" unfolding unat_of_nat using len by simp
    show "unat (word_of_nat (length bs) :: u32) \<le> SAVE_BUF_SIZE" unfolding n by (rule len)
    show "unat (bmp_rd32 10 ?b) \<le> unat (word_of_nat (length bs) :: u32)" unfolding n by (rule that(2))
  qed
  have keep: "paint_ok (paint_status_set nn (p\<lparr>save_buf := ?b\<rparr>))" "paint_ok (paint_status_set nn (p\<lparr>save_buf := ?b, canvas := c\<rparr>))" for nn c
    using ok b by (simp_all add: paint_ok_def paint_status_set_def)
  show ?thesis unfolding paint_load_def l option.case Let_def
    using draws keep by (auto simp del: length_append)
qed

end
