(* ===== verification/ShellDesk.thy ===== *)
theory ShellDesk
  imports ShellNotes ShellGames ShellPaint CalcExpr
begin

section \<open>The desktop: input, windows and applications together\<close>

text \<open>
  The main loop of \<^verbatim>\<open>gfx_shell.c\<close>: keys and clicks are given to the window they belong to, windows are dragged and
  resized, and drawing a window moves its application on. A frame gets the scan codes that have arrived, the state of the
  mouse and the registers of the clock chip; a \<open>None\<close> is an access outside an array or a loop in the file system that does not end.
\<close>

datatype Screen = SCR_DESKTOP | SCR_TERMINAL | SCR_ABOUT | SCR_PAINT | SCR_FILES | SCR_CALC | SCR_NOTEPAD | SCR_SNAKE | SCR_CLOCK | SCR_TODO

record desk =
  scr :: Screen
  wins :: wm
  terminal :: term_app
  fman :: files_app
  calculator :: calc
  notepad_app :: np_app
  game :: snake
  alarm :: clock
  tasks_app :: todo_app
  picture :: paint
  volume :: fat12
  prev_btn :: bool
  esc_down :: bool
  pending :: "u8 list"

record frame_input =
  new_codes :: "u8 list"
  pointer :: mouse
  clock_regs :: "u8 \<times> u8 \<times> u8"

subsection \<open>Keys\<close>

definition sc2asc :: "u8 list" where
  "sc2asc = [0, 0] @ str ''1234567890-='' @ [8, 9] @ str ''qwertyuiop[]'' @ [10, 0] @ str ''asdfghjkl;'' @ [39] @ str ''`'' @
     [0, 92] @ str ''zxcvbnm,./'' @ [0] @ str ''*'' @ [0, 32, 0] @ replicate 12 0 @ str ''789-456+1230.''"

definition sc_to_char :: "u8 \<Rightarrow> u8" where
  "sc_to_char sc = (if sc AND 0x80 \<noteq> 0 then 0 else if unat sc < length sc2asc then sc2asc ! unat sc else 0)"

definition files_to :: "(files_app \<times> fat12) option \<Rightarrow> desk \<Rightarrow> desk option" where
  "files_to r d = map_option (\<lambda>(a, s). d\<lparr>fman := a, volume := s\<rparr>) r"

definition notes_to :: "(np_app \<times> fat12) option \<Rightarrow> desk \<Rightarrow> desk option" where
  "notes_to r d = map_option (\<lambda>(a, s). d\<lparr>notepad_app := a, volume := s\<rparr>) r"

definition todo_to :: "(todo_app \<times> fat12) option \<Rightarrow> desk \<Rightarrow> desk option" where
  "todo_to r d = map_option (\<lambda>(a, s). d\<lparr>tasks_app := a, volume := s\<rparr>) r"

definition snake_to :: "(snake \<times> fat12) option \<Rightarrow> desk \<Rightarrow> desk option" where
  "snake_to r d = map_option (\<lambda>(a, s). d\<lparr>game := a, volume := s\<rparr>) r"

definition paint_to :: "(paint \<times> fat12) option \<Rightarrow> desk \<Rightarrow> desk option" where
  "paint_to r d = map_option (\<lambda>(a, s). d\<lparr>picture := a, volume := s\<rparr>) r"

text \<open>The keys that the calculator accepts from the keyboard.\<close>

definition calc_key :: "u8 \<Rightarrow> char option" where
  "calc_key ch =
     (let key = (if ch = 10 then CHR ''='' else if ch = 0x63 then CHR ''C'' else char_of (unat ch))
      in if key \<in> set ''0123456789+-*/=C'' then Some key else None)"

definition snake_key :: "u8 \<Rightarrow> snake \<Rightarrow> snake" where
  "snake_key ch s =
     (if ch = 0x77 then snake_set_dir 0 (- 1) s
      else if ch = 0x73 then snake_set_dir 0 1 s
      else if ch = 0x61 then snake_set_dir (- 1) 0 s
      else if ch = 0x64 then snake_set_dir 1 0 s
      else s)"

text \<open>A character for the window in front.\<close>

definition key_press :: "int \<times> int \<times> int \<Rightarrow> u8 \<Rightarrow> desk \<Rightarrow> desk option" where
  "key_press time ch d =
     (case (if scr d = SCR_DESKTOP then win_focused (wins d) else None) of
        None \<Rightarrow> Some d
      | Some w \<Rightarrow>
          if ch = 0 then Some d
          else if w = WIN_NOTEPAD then Some (d\<lparr>notepad_app := np_press ch (win_content_rect WIN_NOTEPAD (wins d)) (notepad_app d)\<rparr>)
          else if w = WIN_FILES then
            (if files_input_mode (fman d) \<noteq> 0 then files_to (files_input_press ch (fman d) (volume d)) d else Some d)
          else if w = WIN_TODO then
            (if todo_input_mode (tasks_app d) then todo_to (todo_input_press ch (tasks_app d) (volume d)) d else Some d)
          else if w = WIN_SNAKE then Some (d\<lparr>game := snake_key ch (game d)\<rparr>)
          else if w = WIN_CALC then
            (case calc_key ch of None \<Rightarrow> Some d | Some k \<Rightarrow> map_option (\<lambda>c. d\<lparr>calculator := c\<rparr>) (calc_press k (calculator d)))
          else if w = WIN_TERM then
            (case term_press ch time (terminal d) of (t, closes) \<Rightarrow>
               let d1 = d\<lparr>terminal := t\<rparr> in Some (if closes then d1\<lparr>wins := win_close WIN_TERM (wins d1)\<rparr> else d1))
          else Some d)"

definition esc_press :: "desk \<Rightarrow> desk" where
  "esc_press d =
     (if esc_down d then d
      else let d1 = d\<lparr>esc_down := True\<rparr>
           in if scr d = SCR_PAINT then d1\<lparr>scr := SCR_DESKTOP\<rparr>
              else if scr d = SCR_DESKTOP then
                (let top = win_focused (wins d)
                 in if top = Some WIN_FILES \<and> files_input_mode (fman d) \<noteq> 0 then d1\<lparr>fman := (fman d)\<lparr>files_input_mode := 0\<rparr>\<rparr>
                    else if top = Some WIN_FILES \<and> files_preview_mode (fman d) then d1\<lparr>fman := (fman d)\<lparr>files_preview_mode := False\<rparr>\<rparr>
                    else if top = Some WIN_TODO \<and> todo_input_mode (tasks_app d) then d1\<lparr>tasks_app := (tasks_app d)\<lparr>todo_input_mode := False\<rparr>\<rparr>
                    else case top of None \<Rightarrow> d1 | Some w \<Rightarrow> d1\<lparr>wins := win_close w (wins d)\<rparr>)
              else d1)"

text \<open>The codes that are left when an escape code ends the loop wait for the next frame.\<close>

fun handle_keys :: "int \<times> int \<times> int \<Rightarrow> u8 list \<Rightarrow> desk \<Rightarrow> desk option" where
  "handle_keys time [] d = Some (d\<lparr>pending := []\<rparr>)"
| "handle_keys time (sc # scs) d =
     (if sc = 0x01 then Some ((esc_press d)\<lparr>pending := scs\<rparr>)
      else if sc = 0x81 then Some (d\<lparr>esc_down := False, pending := scs\<rparr>)
      else case key_press time (sc_to_char sc) d of None \<Rightarrow> None | Some d1 \<Rightarrow> handle_keys time scs d1)"

subsection \<open>Clicks\<close>

definition calc_btn_keys :: "char option list" where
  "calc_btn_keys = map Some ''%srk789/456*123-C0=+'' @ [None, Some (CHR ''p''), Some (CHR ''n''), None]"

text \<open>\<open>(grid_x0, grid_y0, btn_sz)\<close>; the sizes are positive for every window that is as large as its minimum.\<close>

definition calc_layout :: "int \<times> int \<times> int \<times> int \<Rightarrow> int \<times> int \<times> int" where
  "calc_layout rect = (case rect of (cx0, cy0, cw, ch) \<Rightarrow>
     let avail_w = cw - 2 * 8;
         grid_y0 = cy0 + 8 + 6 * CHAR_W + 6;
         avail_h = (cy0 + ch) - grid_y0 - 8;
         sz = cdiv avail_w 4;
         sz_h = cdiv avail_h 6;
         sz = (if sz_h < sz then sz_h else sz);
         sz = (if sz < 8 then 8 else sz)
     in (cx0 + 8, grid_y0, sz))"

definition handle_calc_content_click :: "int \<Rightarrow> int \<Rightarrow> int \<times> int \<times> int \<times> int \<Rightarrow> calc \<Rightarrow> calc option" where
  "handle_calc_content_click mx my rect c =
     (case calc_layout rect of (grid_x0, grid_y0, sz) \<Rightarrow>
        if mx < grid_x0 \<or> my < grid_y0 then Some c
        else let col = (mx - grid_x0) div sz; row = (my - grid_y0) div sz
             in if col < 0 \<or> col \<ge> 4 \<or> row < 0 \<or> row \<ge> 6 then Some c
                else case calc_btn_keys ! nat (row * 4 + col) of None \<Rightarrow> Some c | Some k \<Rightarrow> calc_press k c)"

definition icons :: "(int \<times> Screen) list" where
  "icons = [(22, SCR_TERMINAL), (107, SCR_ABOUT), (192, SCR_PAINT), (277, SCR_FILES), (362, SCR_CALC), (447, SCR_NOTEPAD),
     (532, SCR_SNAKE), (617, SCR_CLOCK), (702, SCR_TODO)]"

definition open_window :: "nat \<Rightarrow> desk \<Rightarrow> desk option" where
  "open_window idx d = map_option (\<lambda>w. d\<lparr>wins := w\<rparr>) (win_open idx (wins d))"

definition was_open :: "nat \<Rightarrow> desk \<Rightarrow> bool" where
  "was_open idx d = shown (windows (wins d) ! idx)"

definition open_icon :: "Screen \<Rightarrow> desk \<Rightarrow> desk option" where
  "open_icon dst d = (case dst of
      SCR_TERMINAL \<Rightarrow> open_window WIN_TERM (if was_open WIN_TERM d then d
        else d\<lparr>terminal := tputs [] (tputs (str ''Type 'help' for commands.'') (tputs (str ''AxOS Terminal v1.0'') (terminal d)))\<rparr>)
    | SCR_ABOUT \<Rightarrow> open_window WIN_ABOUT d
    | SCR_PAINT \<Rightarrow> Some (d\<lparr>scr := SCR_PAINT\<rparr>)
    | SCR_FILES \<Rightarrow> open_window WIN_FILES (if was_open WIN_FILES d then d
        else d\<lparr>fman := (fman d)\<lparr>files_preview_mode := False, files_scroll := 0\<rparr>\<rparr>)
    | SCR_CALC \<Rightarrow> open_window WIN_CALC d
    | SCR_NOTEPAD \<Rightarrow> open_window WIN_NOTEPAD d
    | SCR_SNAKE \<Rightarrow>
        if was_open WIN_SNAKE d then open_window WIN_SNAKE d
        else (case snake_load_highscore (volume d) (game d) of
                None \<Rightarrow> None | Some g \<Rightarrow> open_window WIN_SNAKE (d\<lparr>game := snake_reset g\<rparr>))
    | SCR_CLOCK \<Rightarrow> open_window WIN_CLOCK d
    | SCR_TODO \<Rightarrow> open_window WIN_TODO d
    | SCR_DESKTOP \<Rightarrow> Some d)"

definition click_icon :: "int \<Rightarrow> int \<Rightarrow> int \<times> Screen \<Rightarrow> desk \<Rightarrow> desk option" where
  "click_icon mx my ic d = (if spans mx (fst ic) 76 \<and> spans my 60 76 then open_icon (snd ic) d else Some d)"

definition seq_all :: "('i \<Rightarrow> desk \<Rightarrow> desk option) \<Rightarrow> 'i list \<Rightarrow> desk \<Rightarrow> desk option" where
  "seq_all f is d = fold (\<lambda>i r. Option.bind r (f i)) is (Some d)"

definition click_icons :: "int \<Rightarrow> int \<Rightarrow> desk \<Rightarrow> desk option" where
  "click_icons mx my d = seq_all (click_icon mx my) icons d"

definition click_content :: "nat \<Rightarrow> int \<Rightarrow> int \<Rightarrow> desk \<Rightarrow> desk option" where
  "click_content hit mx my d =
     (let rect = win_content_rect hit (wins d)
      in if hit = WIN_FILES then files_to (handle_files_content_click mx my rect (fman d) (volume d)) d
         else if hit = WIN_CALC then map_option (\<lambda>c. d\<lparr>calculator := c\<rparr>) (handle_calc_content_click mx my rect (calculator d))
         else if hit = WIN_NOTEPAD then notes_to (handle_notepad_content_click mx my rect (notepad_app d) (volume d)) d
         else if hit = WIN_CLOCK then Some (d\<lparr>alarm := handle_clock_content_click mx my rect (alarm d)\<rparr>)
         else if hit = WIN_TODO then todo_to (handle_todo_content_click mx my rect (tasks_app d) (volume d)) d
         else Some d)"

definition click_window :: "nat \<Rightarrow> int \<Rightarrow> int \<Rightarrow> desk \<Rightarrow> desk option" where
  "click_window hit mx my d =
     (case win_raise hit (wins d) of
        None \<Rightarrow> None
      | Some w \<Rightarrow>
          let d1 = d\<lparr>wins := w\<rparr>
          in if win_hit_close hit mx my w then
               (let d2 = (if hit = WIN_CLOCK \<and> clock_fired (alarm d1)
                          then d1\<lparr>alarm := (alarm d1)\<lparr>clock_fired := False, clock_armed := False, speaker := False\<rparr>\<rparr> else d1)
                in Some (d2\<lparr>wins := win_close hit (wins d2)\<rparr>))
             else if win_hit_resize hit mx my w then Some (d1\<lparr>wins := w\<lparr>resizing_win := Some hit\<rparr>\<rparr>)
             else if win_hit_titlebar hit mx my w then
               Some (d1\<lparr>wins := w\<lparr>dragging_win := Some hit, drag_off_x := mx - wx (windows w ! hit), drag_off_y := my - wy (windows w ! hit)\<rparr>\<rparr>)
             else click_content hit mx my d1)"

definition handle_click :: "bool \<Rightarrow> int \<Rightarrow> int \<Rightarrow> desk \<Rightarrow> desk option" where
  "handle_click btn mx my d =
     map_option (\<lambda>d1. d1\<lparr>prev_btn := btn\<rparr>)
       (if btn \<and> \<not> prev_btn d
        then (if scr d = SCR_DESKTOP then (case win_topmost_at mx my (wins d) of Some hit \<Rightarrow> click_window hit mx my d | None \<Rightarrow> click_icons mx my d)
              else if scr d = SCR_PAINT then paint_to (paint_click mx my (picture d) (volume d)) d
              else Some d)
        else Some d)"

subsection \<open>A frame\<close>

definition render_window :: "int \<times> int \<times> int \<Rightarrow> nat \<Rightarrow> desk \<Rightarrow> desk option" where
  "render_window time idx d =
     (if \<not> shown (windows (wins d) ! idx) then Some d
      else if idx = WIN_FILES then Some (d\<lparr>fman := render_files (win_content_rect idx (wins d)) (fman d)\<rparr>)
      else if idx = WIN_NOTEPAD then Some (d\<lparr>notepad_app := render_notepad (notepad_app d)\<rparr>)
      else if idx = WIN_SNAKE then snake_to (render_snake (game d) (volume d)) d
      else if idx = WIN_CLOCK then Some (d\<lparr>alarm := clock_check_alarm time (alarm d)\<rparr>)
      else if idx = WIN_TODO then map_option (\<lambda>a. d\<lparr>tasks_app := a\<rparr>) (render_todo (tasks_app d) (volume d))
      else Some d)"

definition render_windows :: "int \<times> int \<times> int \<Rightarrow> desk \<Rightarrow> desk option" where
  "render_windows time d = seq_all (render_window time) (win_order (wins d)) d"

definition render :: "int \<times> int \<times> int \<Rightarrow> desk \<Rightarrow> desk option" where
  "render time d =
     (if scr d = SCR_DESKTOP then render_windows time d
      else if scr d = SCR_PAINT then Some (d\<lparr>picture := render_paint (picture d)\<rparr>)
      else Some d)"

definition gfx_frame :: "frame_input \<Rightarrow> desk \<Rightarrow> desk option" where
  "gfx_frame i d =
     (let mx = mouse_x (pointer i) * 10; my = mouse_y (pointer i) * 24; time = rtc_time (clock_regs i);
          left = (mouse_buttons (pointer i) AND 0x01 \<noteq> 0); right = (mouse_buttons (pointer i) AND 0x02 \<noteq> 0)
      in case handle_keys time (pending d @ new_codes i) d of
           None \<Rightarrow> None
         | Some d1 \<Rightarrow>
             (case handle_click left mx my d1 of
                None \<Rightarrow> None
              | Some d2 \<Rightarrow>
                  let d3 = d2\<lparr>picture := handle_paint_drag (scr d2 = SCR_PAINT) left right mx my (picture d2)\<rparr>;
                      d4 = d3\<lparr>wins := handle_window_drag (scr d3 = SCR_DESKTOP) left mx my (wins d3)\<rparr>;
                      d5 = d4\<lparr>wins := handle_window_resize (scr d4 = SCR_DESKTOP) left mx my (wins d4)\<rparr>
                  in render time d5))"

primrec gfx_main_loop :: "frame_input list \<Rightarrow> desk \<Rightarrow> desk option" where
  "gfx_main_loop [] d = Some d"
| "gfx_main_loop (i # is) d = (case gfx_frame i d of None \<Rightarrow> None | Some d1 \<Rightarrow> gfx_main_loop is d1)"

text \<open>The start: the volume is mounted and unlocked, the directory is read.\<close>

definition files_start :: files_app where
  "files_start = \<lparr>fat12_ok = False, files_names = [], files_sizes = [], files_scroll = 0, files_preview_mode = False,
     files_confirm_delete = False, files_input_mode = 0, files_input_buf = [], files_rename_from = [], files_preview_name = [],
     files_preview_buf = [], files_preview_truncated = False, files_preview_scroll = 0\<rparr>"

definition gfx_start :: "fat12 \<Rightarrow> desk" where
  "gfx_start s0 =
     (let (ok, s1) = fat12_init s0; s2 = fat12_set_locked False s1
      in \<lparr>scr = SCR_DESKTOP, wins = wm_start, terminal = term_start, fman = files_scan s2 (files_start\<lparr>fat12_ok := (ok \<noteq> 0)\<rparr>),
          calculator = calc_fresh, notepad_app = np_start, game = snake_start, alarm = clock_start, tasks_app = todo_start,
          picture = paint_start, volume = s2, prev_btn = False, esc_down = False, pending = []\<rparr>)"

end
