(* ===== verification/ShellInv.thy ===== *)
theory ShellInv
  imports ShellDesk
begin

section \<open>The desktop keeps its invariant\<close>

text \<open>Every frame of the main loop returns and keeps the invariant of the windows, of all applications and of the volume, except
  when the paint program loads a picture that is too wide.\<close>

definition pictures_fit :: "fat12 \<Rightarrow> bool" where
  "pictures_fit s \<longleftrightarrow> (\<forall>k bs. 1 \<le> k \<and> k \<le> 8 \<and> files (img s) (parse_83 (paint_slot_filename k)) = Some bs \<longrightarrow> picture_fits (take SAVE_BUF_SIZE bs))"

definition desk_ok :: "desk \<Rightarrow> bool" where
  "desk_ok d \<longleftrightarrow> (scr d = SCR_DESKTOP \<or> scr d = SCR_PAINT) \<and> wm_ok (wins d) \<and> term_ok (terminal d) \<and> fm_ok (fman d) \<and>
     calc_ok (calculator d) \<and> np_ok (notepad_app d) \<and> (was_open WIN_SNAKE d \<longrightarrow> snake_ok (game d)) \<and> clock_ok (alarm d) \<and>
     todo_ok (tasks_app d) \<and> paint_ok (picture d) \<and> vol_good (volume d)"

definition good :: "desk option \<Rightarrow> bool" where
  "good r \<longleftrightarrow> (\<exists>d. r = Some d \<and> desk_ok d)"

lemma good_Some [simp]: "good (Some d) = desk_ok d"
  by (simp add: good_def)

lemma good_bind: "good r \<Longrightarrow> (\<And>d. desk_ok d \<Longrightarrow> good (f d)) \<Longrightarrow> good (Option.bind r f)"
  by (auto simp: good_def)

lemma good_seq: "desk_ok d \<Longrightarrow> (\<And>i d. i \<in> set is \<Longrightarrow> desk_ok d \<Longrightarrow> good (f i d)) \<Longrightarrow> good (seq_all f is d)"
proof -
  assume d: "desk_ok d" and f: "\<And>i d. i \<in> set is \<Longrightarrow> desk_ok d \<Longrightarrow> good (f i d)"
  have "good (fold (\<lambda>i r. Option.bind r (f i)) js r)" if "set js \<subseteq> set is" "good r" for js r
    using that
  proof (induction js arbitrary: r)
    case (Cons j js)
    then have "good (Option.bind r (f j))" using f by (auto intro: good_bind)
    then show ?case using Cons by simp
  qed simp
  then show ?thesis using d by (simp add: seq_all_def)
qed

lemma desk_parts:
  assumes "desk_ok d"
  shows "wm_ok (wins d)" "term_ok (terminal d)" "fm_ok (fman d)" "calc_ok (calculator d)" "np_ok (notepad_app d)" "clock_ok (alarm d)"
    "todo_ok (tasks_app d)" "paint_ok (picture d)" "vol_good (volume d)" "was_open WIN_SNAKE d \<Longrightarrow> snake_ok (game d)"
  using assms by (simp_all add: desk_ok_def)

lemma desk_updates [simp]:
  "desk_ok d \<Longrightarrow> term_ok t \<Longrightarrow> desk_ok (d\<lparr>terminal := t\<rparr>)"
  "desk_ok d \<Longrightarrow> fm_ok a \<Longrightarrow> desk_ok (d\<lparr>fman := a\<rparr>)"
  "desk_ok d \<Longrightarrow> fm_ok a \<Longrightarrow> vol_good s \<Longrightarrow> desk_ok (d\<lparr>fman := a, volume := s\<rparr>)"
  "desk_ok d \<Longrightarrow> calc_ok c \<Longrightarrow> desk_ok (d\<lparr>calculator := c\<rparr>)"
  "desk_ok d \<Longrightarrow> np_ok n \<Longrightarrow> desk_ok (d\<lparr>notepad_app := n\<rparr>)"
  "desk_ok d \<Longrightarrow> np_ok n \<Longrightarrow> vol_good s \<Longrightarrow> desk_ok (d\<lparr>notepad_app := n, volume := s\<rparr>)"
  "desk_ok d \<Longrightarrow> (was_open WIN_SNAKE d \<Longrightarrow> snake_ok g) \<Longrightarrow> desk_ok (d\<lparr>game := g\<rparr>)"
  "desk_ok d \<Longrightarrow> (was_open WIN_SNAKE d \<Longrightarrow> snake_ok g) \<Longrightarrow> vol_good s \<Longrightarrow> desk_ok (d\<lparr>game := g, volume := s\<rparr>)"
  "desk_ok d \<Longrightarrow> clock_ok cl \<Longrightarrow> desk_ok (d\<lparr>alarm := cl\<rparr>)"
  "desk_ok d \<Longrightarrow> todo_ok ta \<Longrightarrow> desk_ok (d\<lparr>tasks_app := ta\<rparr>)"
  "desk_ok d \<Longrightarrow> todo_ok ta \<Longrightarrow> vol_good s \<Longrightarrow> desk_ok (d\<lparr>tasks_app := ta, volume := s\<rparr>)"
  "desk_ok d \<Longrightarrow> paint_ok p \<Longrightarrow> desk_ok (d\<lparr>picture := p\<rparr>)"
  "desk_ok d \<Longrightarrow> paint_ok p \<Longrightarrow> vol_good s \<Longrightarrow> desk_ok (d\<lparr>picture := p, volume := s\<rparr>)"
  "desk_ok (d\<lparr>esc_down := b\<rparr>) = desk_ok d" "desk_ok (d\<lparr>prev_btn := b\<rparr>) = desk_ok d" "desk_ok (d\<lparr>pending := q\<rparr>) = desk_ok d"
  "desk_ok d \<Longrightarrow> desk_ok (d\<lparr>scr := SCR_PAINT\<rparr>)" "desk_ok d \<Longrightarrow> desk_ok (d\<lparr>scr := SCR_DESKTOP\<rparr>)"
  by (simp_all add: desk_ok_def was_open_def)

lemma wins_desk: "desk_ok d \<Longrightarrow> wm_ok w \<Longrightarrow> (shown (windows w ! WIN_SNAKE) \<Longrightarrow> was_open WIN_SNAKE d \<or> snake_ok (game d)) \<Longrightarrow> desk_ok (d\<lparr>wins := w\<rparr>)"
  by (auto simp: desk_ok_def was_open_def)

subsection \<open>Which windows are open\<close>

lemma set_win_shown: "length (windows s) = 8 \<Longrightarrow> j < 8 \<Longrightarrow> shown (windows (set_win idx f s) ! j) = (if j = idx then shown (f (windows s ! j)) else shown (windows s ! j))"
  by (simp add: set_win_def nth_list_update)

lemma close_shown: "wm_ok s \<Longrightarrow> j < 8 \<Longrightarrow> shown (windows (win_close idx s) ! j) = (j \<noteq> idx \<and> shown (windows s ! j))"
proof -
  assume "wm_ok s" "j < 8"
  then have "shown (windows (set_win idx (\<lambda>w. w\<lparr>shown := False\<rparr>) s) ! j) = (j \<noteq> idx \<and> shown (windows s ! j))"
    using set_win_shown [of s j idx] wm_okD(1) by auto
  moreover have "windows (win_close idx s) = windows (set_win idx (\<lambda>w. w\<lparr>shown := False\<rparr>) s)" by (simp add: win_close_def Let_def)
  ultimately show ?thesis by simp
qed

lemma open_shown:
  assumes ok: "wm_ok s" "idx < 8"
  shows "\<exists>s'. win_open idx s = Some s' \<and> wm_ok s' \<and> (\<forall>j<8. shown (windows s' ! j) = (j = idx \<or> shown (windows s ! j)))"
proof -
  let ?s = "set_win idx (\<lambda>w. w\<lparr>shown := True\<rparr>) s"
  have "wm_ok ?s" by (rule set_win_ok [OF ok]) (simp add: win_ok_def)
  from win_raise_ok [OF this ok(2)] show ?thesis
    using set_win_shown [of s _ idx "\<lambda>w. w\<lparr>shown := True\<rparr>"] wm_okD(1) [OF ok(1)] by (auto simp: win_open_def)
qed

lemma drag_shown: "wm_ok s \<Longrightarrow> j < 8 \<Longrightarrow> shown (windows (handle_window_drag desktop btn mx my s) ! j) = shown (windows s ! j)"
  using wm_okD(1) by (auto simp: handle_window_drag_def set_win_shown win_moved_def Let_def split: option.splits)

lemma resize_shown: "wm_ok s \<Longrightarrow> j < 8 \<Longrightarrow> shown (windows (handle_window_resize desktop btn mx my s) ! j) = shown (windows s ! j)"
  using wm_okD(1) by (auto simp: handle_window_resize_def set_win_shown win_resized_def Let_def split: option.splits)

lemma close_desk:
  assumes "desk_ok d" "idx < 8"
  shows "desk_ok (d\<lparr>wins := win_close idx (wins d)\<rparr>)"
  by (rule wins_desk [OF assms(1) win_close_ok [OF desk_parts(1) [OF assms(1)] assms(2)]])
    (simp add: close_shown [OF desk_parts(1) [OF assms(1)]] was_open_def)

lemma open_desk:
  assumes ok: "desk_ok d" "idx < 8" and sn: "idx = WIN_SNAKE \<Longrightarrow> snake_ok (game d)"
  shows "good (open_window idx d)"
proof -
  obtain w where w: "win_open idx (wins d) = Some w" "wm_ok w" "\<forall>j<8. shown (windows w ! j) = (j = idx \<or> shown (windows (wins d) ! j))"
    using open_shown [OF desk_parts(1) [OF ok(1)] ok(2)] by blast
  have "desk_ok (d\<lparr>wins := w\<rparr>)" by (rule wins_desk [OF ok(1) w(2)]) (use w(3) sn in \<open>auto simp: was_open_def\<close>)
  then show ?thesis by (simp add: open_window_def w(1))
qed

subsection \<open>Keys\<close>

lemma sc2asc_ascii: "list_all (\<lambda>c. uint c < 128) sc2asc"
  by code_simp

lemma sc_to_char_ascii: "uint (sc_to_char sc) < 128"
  using sc2asc_ascii by (simp add: sc_to_char_def list_all_length)

lemma snake_key_ok: "snake_ok s \<Longrightarrow> snake_ok (snake_key ch s)"
  by (simp add: snake_key_def snake_set_dir_ok)

lemma files_to_ok: "desk_ok d \<Longrightarrow> \<exists>a s. r = Some (a, s) \<and> vol_good s \<and> fm_ok a \<Longrightarrow> good (files_to r d)"
  by (auto simp: files_to_def)

lemma notes_to_ok: "desk_ok d \<Longrightarrow> \<exists>a s. r = Some (a, s) \<and> vol_good s \<and> np_ok a \<Longrightarrow> good (notes_to r d)"
  by (auto simp: notes_to_def)

lemma todo_to_ok: "desk_ok d \<Longrightarrow> todo_step a0 s0 r \<Longrightarrow> good (todo_to r d)"
  by (auto simp: todo_to_def todo_step_def)

lemma calc_to_ok: "desk_ok d \<Longrightarrow> good (map_option (\<lambda>c. d\<lparr>calculator := c\<rparr>) (calc_press k (calculator d)))"
  using calc_press_ok [OF desk_parts(4), of d k] by (auto simp: calc_ok_def calc_inv_def)

lemma key_press_ok:
  assumes ok: "desk_ok d" and c: "uint ch < 128"
  shows "good (key_press time ch d)"
proof -
  note p = desk_parts [OF ok]
  have 1: "good (files_to (files_input_press ch (fman d) (volume d)) d)" by (rule files_to_ok [OF ok files_input_press_ok [OF p(9,3) c]])
  have 2: "good (todo_to (todo_input_press ch (tasks_app d) (volume d)) d)" by (rule todo_to_ok [OF ok todo_input_press_ok [OF p(9,7) c]])
  have 3: "desk_ok (d\<lparr>game := snake_key ch (game d)\<rparr>)" using ok p(10) snake_key_ok by simp
  obtain t closes where t: "term_press ch time (terminal d) = (t, closes)" by fastforce
  have "desk_ok (d\<lparr>terminal := t\<rparr>)" using ok term_press_ok [OF p(2), of ch time] t by simp
  then have 4: "desk_ok (d\<lparr>terminal := t\<rparr>)" "desk_ok (d\<lparr>terminal := t, wins := win_close WIN_TERM (wins d)\<rparr>)"
    using close_desk [of "d\<lparr>terminal := t\<rparr>" WIN_TERM] by simp_all
  have 5: "desk_ok (d\<lparr>notepad_app := np_press ch (win_content_rect WIN_NOTEPAD (wins d)) (notepad_app d)\<rparr>)" using ok np_press_ok [OF p(5)] by simp
  show ?thesis
    using 1 2 3 4 5 ok calc_to_ok [OF ok] by (simp add: key_press_def t Let_def split: option.split)
qed

lemma esc_press_ok:
  assumes ok: "desk_ok d"
  shows "desk_ok (esc_press d)"
proof -
  note p = desk_parts [OF ok]
  have f: "desk_ok (d\<lparr>esc_down := True\<rparr>)" using ok by simp
  have c: "desk_ok (d\<lparr>esc_down := True, wins := win_close w (wins d)\<rparr>)" if "win_focused (wins d) = Some w" for w
    using close_desk [OF f, of w] win_focused_some [OF p(1) that] by simp
  show ?thesis using f c p by (auto simp: esc_press_def Let_def split: option.split)
qed

lemma handle_keys_ok: "desk_ok d \<Longrightarrow> good (handle_keys time q d)"
proof (induction time q d rule: handle_keys.induct)
  case (2 time sc scs d)
  have "good (key_press time (sc_to_char sc) d)" by (rule key_press_ok [OF 2(2) sc_to_char_ascii])
  then obtain d1 where d1: "key_press time (sc_to_char sc) d = Some d1" "desk_ok d1" by (auto simp: good_def)
  show ?case using 2(1) [OF _ _ d1] 2(2) d1(1) esc_press_ok [OF 2(2)] by simp
qed simp

subsection \<open>Clicks\<close>

lemma snake_load_ok: "vol_good s \<Longrightarrow> \<exists>g'. snake_load_highscore s g = Some g'"
  using vol.load_law [of s HISCORE_FILE 12] by (simp add: snake_load_highscore_def)

lemma open_icon_ok:
  assumes ok: "desk_ok d"
  shows "good (open_icon dst d)"
proof -
  note p = desk_parts [OF ok]
  have t: "desk_ok (d\<lparr>terminal := tputs [] (tputs a (tputs b (terminal d)))\<rparr>)" for a b using ok tputs_ok p(2) by simp
  have f: "desk_ok (d\<lparr>fman := (fman d)\<lparr>files_preview_mode := False, files_scroll := 0\<rparr>\<rparr>)" using ok p(3) by simp
  obtain g where g: "snake_load_highscore (volume d) (game d) = Some g" using snake_load_ok [OF p(9)] by blast
  have "desk_ok (d\<lparr>game := snake_reset g\<rparr>)" using ok snake_reset_ok by simp
  then have s: "good (open_window WIN_SNAKE (d\<lparr>game := snake_reset g\<rparr>))" using snake_reset_ok by (intro open_desk) simp_all
  have o: "good (open_window idx d)" if "idx < 8" "idx \<noteq> WIN_SNAKE" for idx using open_desk [OF ok that(1)] that(2) by simp
  have so: "good (open_window WIN_SNAKE d)" if "was_open WIN_SNAKE d" using open_desk [OF ok, of WIN_SNAKE] p(10) [OF that] by simp
  have t1: "good (open_window WIN_TERM (d\<lparr>terminal := tputs [] (tputs a (tputs b (terminal d)))\<rparr>))" for a b by (rule open_desk [OF t]) simp_all
  have f1: "good (open_window WIN_FILES (d\<lparr>fman := (fman d)\<lparr>files_preview_mode := False, files_scroll := 0\<rparr>\<rparr>))" by (rule open_desk [OF f]) simp_all
  show ?thesis
    using o [of WIN_TERM] o [of WIN_ABOUT] o [of WIN_FILES] o [of WIN_CALC] o [of WIN_NOTEPAD] o [of WIN_CLOCK] o [of WIN_TODO] so s t1 f1 ok
    by (cases dst) (simp_all add: open_icon_def g)
qed

lemma click_icons_ok: "desk_ok d \<Longrightarrow> good (click_icons mx my d)"
  unfolding click_icons_def by (rule good_seq) (simp_all add: click_icon_def open_icon_ok)

lemma calc_click_ok:
  assumes ok: "desk_ok d"
  shows "good (map_option (\<lambda>c. d\<lparr>calculator := c\<rparr>) (handle_calc_content_click mx my rect (calculator d)))"
  using calc_to_ok [OF ok] ok desk_parts(4) [OF ok] by (simp add: handle_calc_content_click_def Let_def split: prod.split option.split)

lemma click_content_ok:
  assumes ok: "desk_ok d"
  shows "good (click_content hit mx my d)"
proof -
  note p = desk_parts [OF ok]
  have 1: "good (files_to (handle_files_content_click mx my rect (fman d) (volume d)) d)" for rect
    by (rule files_to_ok [OF ok files_click_ok [OF p(9,3)]])
  have 2: "good (notes_to (handle_notepad_content_click mx my rect (notepad_app d) (volume d)) d)" for rect
    by (rule notes_to_ok [OF ok notes_click_ok [OF p(9,5)]])
  have 3: "good (todo_to (handle_todo_content_click mx my rect (tasks_app d) (volume d)) d)" for rect
    by (rule todo_to_ok [OF ok todo_click_ok [OF p(9,7)]])
  show ?thesis using 1 2 3 calc_click_ok [OF ok] clock_click_ok [OF p(6)] ok by (simp add: click_content_def Let_def)
qed

lemma click_window_ok:
  assumes ok: "desk_ok d" and h: "hit < 8"
  shows "good (click_window hit mx my d)"
proof -
  note p = desk_parts [OF ok]
  obtain w where w: "win_raise hit (wins d) = Some w" "wm_ok w" "windows w = windows (wins d)" using win_raise_ok [OF p(1) h] by blast
  have d: "desk_ok (d\<lparr>wins := w'\<rparr>)" if "wm_ok w'" "windows w' = windows w" for w'
    by (rule wins_desk [OF ok that(1)]) (simp add: that(2) w(3) was_open_def)
  have r: "wm_ok (w\<lparr>resizing_win := Some hit\<rparr>)" "wm_ok (w\<lparr>dragging_win := Some hit, drag_off_x := a, drag_off_y := b\<rparr>)" for a b
    using w(2) h by (simp_all add: wm_ok_def)
  have d1: "desk_ok (d\<lparr>wins := w\<rparr>)" using d w(2) by simp
  have "desk_ok (d\<lparr>wins := w, alarm := (alarm d)\<lparr>clock_fired := False, clock_armed := False, speaker := False\<rparr>\<rparr>)"
    by (rule desk_updates(9) [OF d1]) (use p(6) in \<open>simp add: clock_ok_def\<close>)
  note c = close_desk [OF this h] close_desk [OF d1 h]
  show ?thesis unfolding click_window_def w(1) option.case Let_def
    using c d [OF r(1)] d [OF r(2)] click_content_ok [OF d1] by auto
qed

lemma fold_keeps: "P q \<Longrightarrow> (\<And>i q. i \<in> set is \<Longrightarrow> P q \<Longrightarrow> P (f i q)) \<Longrightarrow> P (fold f is q)"
  by (induction "is" arbitrary: q) auto

lemma pick_swatch_ok: "paint_ok p \<Longrightarrow> paint_ok (pick_swatch mx my p)"
  unfolding pick_swatch_def by (rule fold_keeps [where P = paint_ok]) (auto simp: paint_ok_def)

lemma paint_click_ok:
  assumes g: "vol_good s" and ok: "paint_ok p" and fit: "pictures_fit s"
  shows "\<exists>p' s'. paint_click mx my p s = Some (p', s') \<and> vol_good s' \<and> paint_ok p'"
proof -
  define row where "row = spans my 34 CHAR_W"
  define p1 where "p1 = pick_swatch mx my p"
  define p2 where "p2 = (if row \<and> spans mx 704 80 then p1\<lparr>canvas := canvas_clear (canvas p1)\<rparr> else p1)"
  define p3 where "p3 = (if row \<and> spans mx 432 96
    then let sl = paint_slot p2 mod 8 + 1 in paint_status_set (Slot_is sl) (p2\<lparr>paint_slot := sl\<rparr>) else p2)"
  have "paint_ok p1" using pick_swatch_ok [OF ok] by (simp add: p1_def)
  then have "paint_ok p2" by (simp add: p2_def paint_ok_def)
  moreover have "paint_slot p2 mod 8 < 8" by simp
  then have "paint_slot p2 mod 8 \<le> 7" by linarith
  ultimately have p3: "paint_ok p3" by (simp add: p3_def paint_ok_def paint_status_set_def Let_def)
  obtain q s1 where q: "paint_save p3 s = Some (q, s1)" "vol_good s1" "paint_ok q" using paint_save_ok [OF g p3] by blast
  have "\<forall>bs. files (img s) (parse_83 (paint_slot_filename (paint_slot p3))) = Some bs \<longrightarrow> picture_fits (take SAVE_BUF_SIZE bs)"
    using fit p3 unfolding pictures_fit_def paint_ok_def by blast
  from paint_load_ok [OF g p3 this] obtain r where r: "paint_load p3 s = Some r" "paint_ok r" by blast
  have apart: "\<not> (spans mx 544 64 \<and> spans mx 624 64)" by (simp add: spans_def)
  have e: "paint_click mx my p s =
    (case (if row \<and> spans mx 544 64 then paint_save p3 s else Some (p3, s)) of
       None \<Rightarrow> None
     | Some (p4, s1) \<Rightarrow> if row \<and> spans mx 624 64 then map_option (\<lambda>p5. (p5, s1)) (paint_load p4 s1) else Some (p4, s1))"
    unfolding paint_click_def Let_def row_def [symmetric] p1_def [symmetric] p2_def [symmetric] p3_def [unfolded Let_def, symmetric] ..
  show ?thesis using apart q r p3 g unfolding e by (cases "row \<and> spans mx 544 64") auto
qed

lemma handle_click_ok:
  assumes ok: "desk_ok d" and fit: "scr d = SCR_PAINT \<longrightarrow> pictures_fit (volume d)"
  shows "good (handle_click btn mx my d)"
proof -
  note p = desk_parts [OF ok]
  have 1: "good (case win_topmost_at mx my (wins d) of Some hit \<Rightarrow> click_window hit mx my d | None \<Rightarrow> click_icons mx my d)"
    using click_icons_ok [OF ok] click_window_ok [OF ok] win_topmost_some(1) [OF p(1)] by (auto split: option.split)
  have 2: "good (paint_to (paint_click mx my (picture d) (volume d)) d)" if "scr d = SCR_PAINT"
    using paint_click_ok [OF p(9,8), of mx my] fit that ok by (auto simp: paint_to_def)
  have g: "good (map_option (\<lambda>d1. d1\<lparr>prev_btn := btn\<rparr>) r)" if "good r" for r using that by (auto simp: good_def)
  show ?thesis unfolding handle_click_def by (rule g) (use 1 2 ok in simp)
qed

subsection \<open>Frames\<close>

lemma paint_drag_ok: "paint_ok p \<Longrightarrow> paint_ok (handle_paint_drag painting left right mx my p)"
  by (simp add: handle_paint_drag_def paint_ok_def Let_def split: option.split prod.split)

lemma render_window_ok:
  assumes ok: "desk_ok d" and i: "idx < 8"
  shows "good (render_window time idx d)"
proof -
  note p = desk_parts [OF ok]
  have 1: "good (snake_to (render_snake (game d) (volume d)) d)" if "was_open WIN_SNAKE d"
    using render_snake_ok [OF p(10) [OF that] p(9)] ok by (auto simp: snake_to_def)
  have 2: "good (map_option (\<lambda>a. d\<lparr>tasks_app := a\<rparr>) (render_todo (tasks_app d) (volume d)))"
    using render_todo_ok [OF p(9,7)] ok by auto
  show ?thesis using 1 2 ok p render_files_ok [OF p(3)] clock_check_ok [OF p(6)] by (simp add: render_window_def was_open_def)
qed

lemma render_ok: "desk_ok d \<Longrightarrow> good (render time d)"
proof -
  assume ok: "desk_ok d"
  have "good (render_windows time d)" unfolding render_windows_def
    by (rule good_seq [OF ok], rule render_window_ok) (use wm_okD(4) [OF desk_parts(1) [OF ok]] in auto)
  moreover have "paint_ok (render_paint (picture d))" using desk_parts(8) [OF ok] by (simp add: render_paint_def paint_ok_def Let_def)
  ultimately show ?thesis using ok by (simp add: render_def)
qed

text \<open>Keys leave the screen and, in the paint program, the volume alone.\<close>

lemma keys_in_paint: "scr d = SCR_PAINT \<Longrightarrow> handle_keys time q d = Some d' \<Longrightarrow> volume d' = volume d"
proof (induction time q d rule: handle_keys.induct)
  case (2 time sc scs d)
  have "key_press time (sc_to_char sc) d = Some d" using 2(2) by (simp add: key_press_def)
  moreover have "volume (esc_press d) = volume d" using 2(2) by (simp add: esc_press_def Let_def)
  ultimately show ?case using 2 by (auto split: if_splits)
qed auto

lemma to_app_scr:
  "files_to r1 d = Some d1 \<Longrightarrow> scr d1 = scr d" "todo_to r2 d = Some d1 \<Longrightarrow> scr d1 = scr d"
  by (auto simp: files_to_def todo_to_def)

lemma key_press_scr: "key_press time ch d = Some d1 \<Longrightarrow> scr d1 = scr d"
  unfolding key_press_def Let_def
  by (auto dest: to_app_scr split: option.split_asm if_split_asm prod.split_asm)

lemma esc_press_scr: "scr (esc_press d) = SCR_PAINT \<Longrightarrow> scr d = SCR_PAINT"
  unfolding esc_press_def Let_def by (simp split: if_split_asm option.split_asm)

lemma keys_scr: "handle_keys time q d = Some d' \<Longrightarrow> scr d' = SCR_PAINT \<Longrightarrow> scr d = SCR_PAINT"
proof (induction time q d rule: handle_keys.induct)
  case (2 time sc scs d)
  consider "sc = 0x01" | "sc \<noteq> 0x01" "sc = 0x81" | "sc \<noteq> 0x01" "sc \<noteq> 0x81" by blast
  then show ?case
  proof cases
    case 1
    then have "scr (esc_press d) = SCR_PAINT" using "2.prems" by auto
    then show ?thesis by (rule esc_press_scr)
  next
    case 2
    then show ?thesis using "2.prems" by auto
  next
    case 3
    then obtain d1 where d1: "key_press time (sc_to_char sc) d = Some d1" "handle_keys time scs d1 = Some d'"
      using "2.prems"(1) by (auto split: option.split_asm)
    show ?thesis using "2.IH" [OF 3 d1] "2.prems"(2) key_press_scr [OF d1(1)] by simp
  qed
qed auto

lemma gfx_frame_ok:
  assumes ok: "desk_ok d" and fit: "scr d = SCR_PAINT \<longrightarrow> pictures_fit (volume d)"
  shows "good (gfx_frame i d)"
proof -
  define mx where "mx = mouse_x (pointer i) * 10"
  define my where "my = mouse_y (pointer i) * 24"
  define time where "time = rtc_time (clock_regs i)"
  define left where "left = (mouse_buttons (pointer i) AND 0x01 \<noteq> 0)"
  define right where "right = (mouse_buttons (pointer i) AND 0x02 \<noteq> 0)"
  obtain d1 where d1: "handle_keys time (pending d @ new_codes i) d = Some d1" "desk_ok d1"
    using handle_keys_ok [OF ok, of time "pending d @ new_codes i"] unfolding good_def by blast
  have "scr d1 = SCR_PAINT \<longrightarrow> pictures_fit (volume d1)" using keys_scr [OF d1(1)] keys_in_paint [OF _ d1(1)] fit by auto
  from handle_click_ok [OF d1(2) this, of left mx my] obtain d2 where d2: "handle_click left mx my d1 = Some d2" "desk_ok d2"
    unfolding good_def by blast
  define d3 where "d3 = d2\<lparr>picture := handle_paint_drag (scr d2 = SCR_PAINT) left right mx my (picture d2)\<rparr>"
  have d3: "desk_ok d3" unfolding d3_def by (rule desk_updates(12) [OF d2(2) paint_drag_ok [OF desk_parts(8) [OF d2(2)]]])
  define d4 where "d4 = d3\<lparr>wins := handle_window_drag (scr d3 = SCR_DESKTOP) left mx my (wins d3)\<rparr>"
  have w3: "wm_ok (wins d3)" by (rule desk_parts(1) [OF d3])
  have d4: "desk_ok d4" unfolding d4_def by (rule wins_desk [OF d3 window_drag_ok [OF w3]]) (simp add: drag_shown [OF w3] was_open_def)
  define d5 where "d5 = d4\<lparr>wins := handle_window_resize (scr d4 = SCR_DESKTOP) left mx my (wins d4)\<rparr>"
  have w4: "wm_ok (wins d4)" by (rule desk_parts(1) [OF d4])
  have d5: "desk_ok d5" unfolding d5_def by (rule wins_desk [OF d4 window_resize_ok [OF w4]]) (simp add: resize_shown [OF w4] was_open_def)
  have "gfx_frame i d = render time d5"
    unfolding gfx_frame_def Let_def mx_def [symmetric] my_def [symmetric] time_def [symmetric] left_def [symmetric] right_def [symmetric] d1(1) option.case d2(1)
    by (simp only: d3_def [symmetric] d4_def [symmetric] d5_def [symmetric])
  then show ?thesis using render_ok [OF d5] by simp
qed

subsection \<open>The start\<close>

lemma gfx_start_ok:
  assumes "fat12_init s0 = (1, s1)" "vol_ok (img s1)"
  shows "desk_ok (gfx_start s0)"
proof -
  have r: "fat12_ready s1" using assms(1) by (auto simp: fat12_init_def Let_def split: option.splits if_splits)
  then have v: "vol_good (fat12_set_locked False s1)" using assms(2) by (simp add: vol_good_def fat12_set_locked_def)
  have "fm_ok (files_start\<lparr>fat12_ok := True\<rparr>)" by (simp add: fm_ok_def files_start_def)
  then have f: "fm_ok (files_scan (fat12_set_locked False s1) (files_start\<lparr>fat12_ok := True\<rparr>))" by (rule fm_ok_scan)
  have p: "paint_ok paint_start" by (simp add: paint_ok_def paint_start_def)
  have w: "\<not> shown (windows wm_start ! 5)" by (simp add: wm_start_def win_at_def)
  show ?thesis using v f p w calc_fresh_ok wm_start_ok term_start_ok np_start_ok clock_start_ok todo_start_ok
    by (simp add: gfx_start_def assms(1) Let_def desk_ok_def was_open_def)
qed

end
