(* ===== verification/ShellProps.thy ===== *)
theory ShellProps
  imports ShellInv
begin

section \<open>Properties of the graphical shell\<close>

text \<open>The theorems about the desktop and its applications, with a freshly formatted volume for their witnesses.\<close>

subsection \<open>A volume without files\<close>

lemma demo_used: "used_entries demo_img = []"
proof -
  have "[0..<64] = 0 # [1..<64::nat]" by (subst upt_conv_Cons) simp_all
  then show ?thesis by (simp add: used_entries_def demo_dir demo_zero del: upt_rec_numeral upt_conv_Cons)
qed

lemma demo_vol_good: "vol_good demo_fs"
proof -
  have "set (dropWhile (\<lambda>e. demo_img e \<noteq> 0) (dir_entries demo_img)) \<subseteq> set (dir_entries demo_img)" by (auto dest: set_dropWhileD)
  then have "clean_end demo_img" by (auto simp: clean_end_def demo_dir demo_zero)
  then show ?thesis by (simp add: vol_good_def vol_ok_def demo_fs_def files_ok_def demo_ok demo_used)
qed

lemma demo_files: "files (img demo_fs) k = None"
  by (simp add: files_def demo_fs_def fat12_find_def demo_used)

lemma demo_write:
  assumes "storable f" "length data \<le> 2088448"
  shows "\<exists>s'. fat12_write f data demo_fs = Some (1, s') \<and> vol_good s' \<and> files (img s') = (files (img demo_fs))(parse_83 f \<mapsto> data)"
proof -
  obtain s' where w: "fat12_write f data demo_fs = Some (1, s')"
    using fat12_write_load [of demo_fs f data "length data"] assms by (auto simp: demo_fs_def demo_ok demo_find demo_fits)
  have "length data \<le> 4294836736" using assms(2) by simp
  from vol.save_law [OF demo_vol_good assms(1) this] show ?thesis using w by auto
qed

lemma demo_init: "fat12_init demo_fs = (1, demo_fs)"
proof -
  have "find (\<lambda>lba. \<not> ide_ok demo_fs lba) [0..<FAT12_TOTAL_SECTORS] = None" by (simp add: find_None_iff demo_fs_def)
  moreover have "(\<lambda>x. if x < FAT12_TOTAL_SECTORS * IDE_SECTOR_SIZE then disk demo_fs x else img demo_fs x) = demo_img"
    by (rule ext) (simp add: demo_fs_def)
  moreover have "demo_fs\<lparr>fat12_ready := True, img := demo_img\<rparr> = demo_fs" by (simp add: demo_fs_def)
  ultimately show ?thesis by (simp add: fat12_init_def Let_def demo_bpb)
qed

subsection \<open>The desktop\<close>

text \<open>C8. From the start on a good volume, whatever the keyboard, the mouse and the clock deliver, every frame of the main loop returns: windows
  stay on the screen and their order stays a permutation, the applications keep their bounds, the snake stays a
  connected path in its grid, the calculator leaks nothing, the volume stays good. The only way out is the paint program on a
  volume with a picture that is too wide for its loader.\<close>

theorem desktop_keeps:
  assumes "fat12_init s0 = (1, s1)" "vol_ok (img s1)"
  shows "(\<exists>d. gfx_main_loop inputs (gfx_start s0) = Some d \<and> desk_ok d) \<or>
    (\<exists>pre post d. inputs = pre @ post \<and> gfx_main_loop pre (gfx_start s0) = Some d \<and> scr d = SCR_PAINT \<and> \<not> pictures_fit (volume d))"
proof -
  have "(\<exists>e. gfx_main_loop is d = Some e \<and> desk_ok e) \<or>
      (\<exists>pre post e. is = pre @ post \<and> gfx_main_loop pre d = Some e \<and> scr e = SCR_PAINT \<and> \<not> pictures_fit (volume e))"
    if "desk_ok d" for d "is"
    using that
  proof (induction "is" arbitrary: d)
    case (Cons i "is")
    show ?case
    proof (cases "scr d = SCR_PAINT \<and> \<not> pictures_fit (volume d)")
      case True
      then have "i # is = [] @ (i # is) \<and> gfx_main_loop [] d = Some d \<and> scr d = SCR_PAINT \<and> \<not> pictures_fit (volume d)" by simp
      then show ?thesis by blast
    next
      case False
      then obtain d1 where d1: "gfx_frame i d = Some d1" "desk_ok d1" using gfx_frame_ok [OF Cons.prems] unfolding good_def by blast
      from Cons.IH [OF d1(2)] show ?thesis
      proof (elim disjE exE conjE)
        fix pre post e assume "is = pre @ post" "gfx_main_loop pre d1 = Some e" "scr e = SCR_PAINT" "\<not> pictures_fit (volume e)"
        then have "i # is = (i # pre) @ post \<and> gfx_main_loop (i # pre) d = Some e \<and> scr e = SCR_PAINT \<and> \<not> pictures_fit (volume e)"
          using d1(1) by simp
        then show ?thesis by blast
      qed (use d1(1) in simp)
    qed
  qed simp
  then show ?thesis using gfx_start_ok [OF assms] by blast
qed

lemma desktop_keeps_witness:
  fixes i :: frame_input
  defines "i \<equiv> \<lparr>new_codes = [0x1E, 0x01], pointer = mouse_start, clock_regs = (0, 0, 0)\<rparr>"
  shows "(\<exists>d. gfx_main_loop [i, i] (gfx_start demo_fs) = Some d \<and> desk_ok d) \<or>
    (\<exists>pre post d. [i, i] = pre @ post \<and> gfx_main_loop pre (gfx_start demo_fs) = Some d \<and> scr d = SCR_PAINT \<and> \<not> pictures_fit (volume d))"
  by (rule desktop_keeps [OF demo_init]) (use demo_vol_good in \<open>simp add: vol_good_def\<close>)

subsection \<open>Saved work\<close>

text \<open>C16. A note that was saved and is loaded into a window of \<open>vrows\<close> rows and \<open>vcols\<close> columns shows its first \<open>vrows\<close> rows, each up
  to column \<open>vcols - 1\<close>, with the cursor at the end of the last row shown; the rest of the text is gone from the editor.\<close>

theorem notes_save_load:
  assumes "vol_good s" "np_ok a" "np_save a s = Some (a1, s1)" "np_status a1 = Saved_notes" "np_text a \<noteq> []" "np_size rect = (vrows, vcols)"
  shows "\<exists>b'. np_load rect b s1 = Some b' \<and> np_status b' = Loaded_notes \<and>
    np_lines b' = map (take (vcols - 1)) (take vrows (take (np_row a + 1) (np_lines a))) @ replicate (24 - min vrows (np_row a + 1)) [] \<and>
    np_row b' = min (np_row a) (vrows - 1) \<and> np_col b' = length (np_lines b' ! np_row b')"
proof -
  let ?rs = "take (np_row a + 1) (np_lines a)"
  have sv: "vol_good s1" "files (img s1) (parse_83 NOTES_TXT) = Some (join_rows ?rs)"
    using np_save_ok [OF assms(1,2)] assms(3,4) by (auto simp: np_text_def)
  have n: "length ?rs = np_row a + 1" "?rs \<noteq> []" using assms(2) by (auto simp: np_ok_def)
  have l: "\<forall>l\<in>set ?rs. 10 \<notin> set l" using assms(2) by (auto simp: np_ok_def dest: in_set_takeD)
  have "length (join_rows ?rs) \<le> 1177" using np_text_length [OF assms(2)] by (simp add: np_text_def)
  from np_load_text [OF sv(1) assms(6) n(2) l sv(2) this, of b] assms(5) show ?thesis
    by (simp only: np_text_def n(1) np_view_def np_crop_def [abs_def]) auto
qed

lemma notes_save_load_witness:
  "\<exists>a1 s1 b'. np_save (np_press 0x61 (92, 205, 656, 348) np_start) demo_fs = Some (a1, s1) \<and> np_load (92, 205, 656, 348) np_start s1 = Some b' \<and>
     np_lines b' = [0x61] # replicate 23 []"
proof -
  let ?r = "(92, 205, 656, 348) :: int \<times> int \<times> int \<times> int" let ?a = "np_press 0x61 ?r np_start"
  have sz: "np_size ?r = (19, 40)" by (simp add: np_size_def np_layout_def Let_def)
  have r: "replicate 24 ([] :: u8 list) = [] # replicate 23 []" by (simp add: numeral_eq_Suc)
  have a: "np_row ?a = 0" "np_lines ?a = [0x61] # replicate 23 []" unfolding np_press_def sz np_start_def r by simp_all
  have t: "np_text ?a = [0x61]" by (simp add: np_text_def a)
  obtain s1 where w: "fat12_write NOTES_TXT [0x61] demo_fs = Some (1, s1)" using demo_write [OF notes_name, of "[0x61]"] by auto
  then have sv: "np_save ?a demo_fs = Some (np_status_set Saved_notes ?a, s1)" by (simp add: np_save_def t)
  have st: "np_status (np_status_set Saved_notes ?a) = Saved_notes" by (simp add: np_status_set_def)
  have ne: "np_text ?a \<noteq> []" using t by simp
  obtain b' where "np_load ?r np_start s1 = Some b'" and l: "np_lines b' = map (take (40 - 1)) (take 19 (take (np_row ?a + 1) (np_lines ?a))) @ replicate (24 - min 19 (np_row ?a + 1)) []"
    using notes_save_load [OF demo_vol_good np_press_ok [OF np_start_ok] sv st ne sz, of np_start] by blast
  moreover have "np_lines b' = [0x61] # replicate 23 []" using l by (simp add: a)
  ultimately show ?thesis using sv by blast
qed

text \<open>The tasks as the window shows them: a text ends at a zero byte.\<close>

definition shown_tasks :: "todo_app \<Rightarrow> (u8 list \<times> bool) list" where
  "shown_tasks a = map (\<lambda>(t, d). (takeWhile (\<lambda>c. c \<noteq> 0) t, d)) (todos a)"

lemma shown_stored: "shown_tasks a = map stored_item (todos a)"
  by (auto simp: shown_tasks_def stored_item_def c_str_def)

lemma shown_toggle:
  "r < length (todos a) \<Longrightarrow> shown_tasks (todo_toggle r a) = (shown_tasks a)[r := (fst (shown_tasks a ! r), \<not> snd (shown_tasks a ! r))]"
  by (simp add: shown_stored todo_toggle_def map_update stored_item_def)

lemma shown_delete: "todo_ok a \<Longrightarrow> shown_tasks (todo_delete r a) = take r (shown_tasks a) @ drop (r + 1) (shown_tasks a)"
proof -
  assume ok: "todo_ok a"
  have "stored_item (take TODO_TEXT_MAX (c_str t), d) = stored_item (t, d)" if "(t, d) \<in> set (drop (r + 1) (todos a))" for t d
  proof -
    have "length t \<le> TODO_TEXT_MAX" using in_set_dropD [OF that] ok by (fastforce simp: todo_ok_def)
    then have "take TODO_TEXT_MAX (c_str t) = c_str t" using c_str_facts(1) [of t] by simp
    then show ?thesis by (simp add: stored_item_def c_str_facts(3))
  qed
  then have "map (\<lambda>i. stored_item (case i of (t, d) \<Rightarrow> (take TODO_TEXT_MAX (c_str t), d))) (drop (r + 1) (todos a)) = map stored_item (drop (r + 1) (todos a))"
    by (intro map_cong) auto
  then show ?thesis by (simp add: shown_stored todo_delete_def take_map drop_map comp_def)
qed

text \<open>Saving a list on a volume with room.\<close>

lemma todo_saved:
  assumes "vol_good s" "todo_ok a" "has_room TODO_FILE 300 s"
  shows "\<exists>s'. todo_save a s = Some s' \<and> vol_good s' \<and> files (img s') = (files (img s))(parse_83 TODO_FILE \<mapsto> todo_bytes 0 (todos a)) \<and>
    (\<forall>b. todo_load b s' = Some (b\<lparr>todos := shown_tasks a\<rparr>))"
proof -
  have "length (todo_bytes 0 (todos a)) \<le> 300" using todo_bytes_length [of 0 "todos a"] assms(2) by (simp add: todo_ok_def)
  then obtain s' where w: "fat12_write TODO_FILE (todo_bytes 0 (todos a)) s = Some (1, s')" "vol_good s'"
    "files (img s') = (files (img s))(parse_83 TODO_FILE \<mapsto> todo_bytes 0 (todos a))"
    using save_with_room [OF assms(1) todo_file_name assms(3), of "todo_bytes 0 (todos a)"] by auto
  then show ?thesis using todo_saved_loads [OF w(2) assms(2)] by (auto simp: todo_save_def shown_stored)
qed

text \<open>C17. A click into the row of a task reverses its mark, or removes the task when it hits the cross at the end of the row, and does nothing else to the list. On a volume
  with room for a full list (300 bytes) the list is then in its file, a restart loads the tasks as they are shown, and no other file has changed.\<close>

theorem todo_click_saves:
  assumes "vol_good s" "todo_ok a" "\<not> todo_input_mode a" "has_room TODO_FILE 300 s" "r < length (todos a)"
    and "cy0 + 10 + 32 * int r \<le> my" "my < cy0 + 42 + 32 * int r" "cx0 + 10 \<le> mx" "mx < cx0 + cw - 10"
  shows "\<exists>a' s'. handle_todo_content_click mx my (cx0, cy0, cw, ch) a s = Some (a', s') \<and> vol_good s' \<and> todo_ok a' \<and>
    shown_tasks a' = (if mx < cx0 + cw - 58 then (shown_tasks a)[r := (fst (shown_tasks a ! r), \<not> snd (shown_tasks a ! r))]
      else take r (shown_tasks a) @ drop (r + 1) (shown_tasks a)) \<and>
    files (img s') = (files (img s))(parse_83 TODO_FILE \<mapsto> todo_bytes 0 (todos a')) \<and>
    (\<forall>b. todo_load b s' = Some (b\<lparr>todos := shown_tasks a'\<rparr>))"
proof -
  define a1 where "a1 = (if mx < cx0 + cw - 58 then todo_toggle r a else todo_delete r a)"
  have ok: "todo_ok a1" using todo_toggle_ok [OF assms(2,5)] todo_delete_ok [OF assms(2)] by (simp add: a1_def)
  have n: "int (length (todos a)) \<le> 10" using assms(2) by (simp add: todo_ok_def)
  have row: "nat ((my - (cy0 + 10)) div 32) = r"
  proof -
    have "(my - (cy0 + 10)) div 32 = int r" by (rule int_div_pos_eq [where r = "my - cy0 - 10 - 32 * int r"]) (use assms(6,7) in auto)
    then show ?thesis by simp
  qed
  have "handle_todo_content_click mx my (cx0, cy0, cw, ch) a s = map_option (\<lambda>s1. (a1, s1)) (todo_save a1 s)"
    using assms(3,5-9) n row by (simp add: handle_todo_content_click_def todo_layout_def spans_def Let_def a1_def)
  moreover have "shown_tasks a1 = (if mx < cx0 + cw - 58 then (shown_tasks a)[r := (fst (shown_tasks a ! r), \<not> snd (shown_tasks a ! r))]
      else take r (shown_tasks a) @ drop (r + 1) (shown_tasks a))"
    using shown_toggle [OF assms(5)] shown_delete [OF assms(2)] by (simp add: a1_def)
  ultimately show ?thesis using todo_saved [OF assms(1) ok assms(4)] ok by auto
qed

lemma todo_click_saves_witness:
  "\<exists>a' s'. handle_todo_content_click 300 110 (262, 90, 476, 388) (todo_start\<lparr>todos := [([0x61], False)]\<rparr>) demo_fs = Some (a', s') \<and>
     shown_tasks a' = [([0x61], True)] \<and> todo_load todo_start s' = Some (todo_start\<lparr>todos := [([0x61], True)]\<rparr>)"
proof -
  let ?a = "todo_start\<lparr>todos := [([0x61], False)]\<rparr>"
  have ok: "todo_ok ?a" "\<not> todo_input_mode ?a" "0 < length (todos ?a)" by (simp_all add: todo_ok_def todo_start_def)
  have sh: "shown_tasks ?a = [([0x61], False)]" by (simp add: shown_tasks_def)
  have "has_room TODO_FILE 300 demo_fs" using demo_fits [of 300] by (simp add: has_room_def demo_fs_def demo_find)
  from todo_click_saves [OF demo_vol_good ok(1,2) this ok(3), of 90 110 262 300 476 388] show ?thesis unfolding sh by fastforce
qed

text \<open>C18. A picture that was saved is shown again by every later load of its slot, in blocks of five by five pixels; the last row of the
  canvas and the unused byte of a pixel are not part of the file.\<close>

theorem paint_save_load:
  assumes "vol_good s" "paint_ok p" "paint_save p s = Some (p1, s1)" "paint_status p1 = Saved_to k" "paint_ok q" "paint_slot q = paint_slot p"
  shows "\<exists>q'. paint_load q s1 = Some q' \<and> paint_status q' = Loaded_from (paint_slot p) \<and>
    (\<forall>x y. canvas q' x y = (if on_canvas x y \<and> y < 515 then canvas p (x div 5 * 5) (y div 5 * 5) AND 0xFFFFFF else canvas q x y))"
proof -
  have sv: "vol_good s1" "files (img s1) (parse_83 (paint_slot_filename (paint_slot p))) = Some (bmp_header @ bmp_pixels (canvas p))"
    using paint_save_ok [OF assms(1,2)] assms(3,4) by auto
  have "length (save_buf q) = SAVE_BUF_SIZE" using assms(5) by (simp add: paint_ok_def)
  from paint_load_saved [OF sv(1) this, of "canvas p"] sv(2) show ?thesis by (auto simp: assms(6) thumbnail_def)
qed

lemma paint_save_load_witness:
  "\<exists>p1 s1 q'. paint_save (paint_start\<lparr>canvas := \<lambda>x y. 0xFF5555\<rparr>) demo_fs = Some (p1, s1) \<and> paint_load paint_start s1 = Some q' \<and> canvas q' 799 514 = 0xFF5555"
proof -
  let ?p = "paint_start\<lparr>canvas := \<lambda>x y. 0xFF5555\<rparr>" and ?b = "bmp_header @ bmp_pixels (\<lambda>x y. 0xFF5555)"
  have ok: "paint_ok ?p" "paint_ok paint_start" by (simp_all add: paint_ok_def paint_start_def)
  have "length ?b \<le> 2088448" unfolding bmp_file_length by simp
  then obtain s1 where w: "fat12_write (paint_slot_filename 1) ?b demo_fs = Some (1, s1)" using demo_write [OF slot_name, of 1 ?b] by auto
  have sv: "paint_save ?p demo_fs = Some (paint_status_set (Saved_to 1) (?p\<lparr>save_buf := ?b\<rparr>), s1)"
    using w by (simp add: paint_save_def paint_start_def)
  have st: "paint_status (paint_status_set (Saved_to 1) (?p\<lparr>save_buf := ?b\<rparr>)) = Saved_to 1" by (simp add: paint_status_set_def)
  obtain q' where q: "paint_load paint_start s1 = Some q'"
    "\<forall>x y. canvas q' x y = (if on_canvas x y \<and> y < 515 then canvas ?p (x div 5 * 5) (y div 5 * 5) AND 0xFFFFFF else canvas paint_start x y)"
    using paint_save_load [OF demo_vol_good ok(1) sv st ok(2)] by (auto simp: paint_start_def)
  have "canvas q' 799 514 = 0xFF5555" using q(2) by (simp add: on_canvas_def)
  then show ?thesis using sv q(1) by blast
qed

subsection \<open>Renaming\<close>

text \<open>C19. On a volume with room for a second copy a rename in the file manager moves the contents of a file of at most 64 KB to the new name, replacing a file that has it already: the old
  name is gone, every other file is as it was, and the list on the screen is that of the directory. (Without room the
  contents are lost, see \<open>rename_outcomes\<close>.)\<close>

theorem files_rename:
  assumes "vol_good s" "fm_ok a" "files_input_mode a = 2" "files (img s) (parse_83 (files_rename_from a)) = Some c"
    and "parse_83 (files_input_buf a) \<noteq> parse_83 (files_rename_from a)" "length c \<le> 65536" "has_room (files_input_buf a) (length c) s"
  shows "\<exists>a' s'. files_input_confirm a s = Some (a', s') \<and> vol_good s' \<and> fm_ok a' \<and> files_input_mode a' = 0 \<and>
    files (img s') = (files (img s))(parse_83 (files_rename_from a) := None, parse_83 (files_input_buf a) \<mapsto> c) \<and>
    zip (files_names a') (files_sizes a') = take 64 (dir_listing s')"
proof -
  obtain a' s' r s1 M where o: "files_input_confirm a s = Some (a', s')" "vol_good s'" "files (img s') = M(parse_83 (files_rename_from a) := None)"
    "fat12_write (files_input_buf a) (take 65536 c) s = Some (r, s1)"
    "r = 1 \<and> M = (files (img s))(parse_83 (files_input_buf a) \<mapsto> take 65536 c) \<or> r = 0"
    "a' = (files_scan s' (a\<lparr>files_preview_mode := False\<rparr>))\<lparr>files_input_mode := 0\<rparr>"
    using rename_outcomes [OF assms(1,3) fm_ok_storable [OF assms(2)]] unfolding assms(4) option.case by blast
  have "r = 1" using save_with_room [OF assms(1) fm_ok_storable [OF assms(2)] assms(7), of c] o(4) assms(6) by auto
  then have "files (img s') = (files (img s))(parse_83 (files_rename_from a) := None, parse_83 (files_input_buf a) \<mapsto> c)"
    using o(3,5) assms(5,6) by (simp add: fun_upd_twist)
  moreover have "fm_ok a'" "files_input_mode a' = 0" using assms(2) by (simp_all add: o(6) fm_ok_scan)
  moreover have "zip (files_names a') (files_sizes a') = take 64 (dir_listing s')" using files_scan_shows by (simp add: o(6))
  ultimately show ?thesis using o(1,2) by blast
qed

definition rename_demo :: "u8 list \<Rightarrow> files_app" where
  "rename_demo new = files_start\<lparr>files_input_mode := 2, files_input_buf := new, files_rename_from := [0x61, 0x2E, 0x74]\<rparr>"

lemma rename_demo_ok: "list_all typed new \<Longrightarrow> length new \<le> 12 \<Longrightarrow> fm_ok (rename_demo new)"
  by (simp add: rename_demo_def fm_ok_def files_start_def)

lemma rename_demo_fields: "files_input_mode (rename_demo new) = 2" "files_input_buf (rename_demo new) = new" "files_rename_from (rename_demo new) = demo_name"
  by (simp_all add: rename_demo_def demo_name_def)

lemma named_volume: "\<exists>s. vol_good s \<and> files (img s) (parse_83 demo_name) = Some [1, 2]"
  using demo_write [OF demo_name_ok(1), of "[1, 2]"] by auto

lemma files_rename_witness:
  "\<exists>a' s'. files_input_confirm (rename_demo [0x62]) file_fs = Some (a', s') \<and> files (img s') (parse_83 [0x62]) = Some [7, 8, 9] \<and>
     files (img s') (parse_83 demo_name) = None"
proof -
  have ok: "fm_ok (rename_demo [0x62])" by (rule rename_demo_ok) (simp_all add: typed_def)
  have d: "parse_83 [0x62] \<noteq> parse_83 demo_name" by code_simp
  have r: "has_room [0x62] (length [7, 8, 9 :: u8]) file_fs" by (rule file_room) simp
  obtain a' s' where "files_input_confirm (rename_demo [0x62]) file_fs = Some (a', s')"
    "files (img s') = (files (img file_fs))(parse_83 demo_name := None, parse_83 [0x62] \<mapsto> [7, 8, 9])"
    using files_rename [OF file_vol_good ok, unfolded rename_demo_fields, OF refl file_contents d _ r] by auto
  then show ?thesis using d by auto
qed

text \<open>C37. A rename to the same name, also in other letters or with an extension of more than three, deletes the file: nothing
  but the one file changes, and it is gone.\<close>

theorem rename_to_itself_deletes:
  assumes "vol_good s" "fm_ok a" "files_input_mode a = 2" "parse_83 (files_input_buf a) = parse_83 (files_rename_from a)"
  shows "\<exists>a' s'. files_input_confirm a s = Some (a', s') \<and> vol_good s' \<and> files (img s') = (files (img s))(parse_83 (files_rename_from a) := None)"
  using rename_outcomes [OF assms(1,3) fm_ok_storable [OF assms(2)]] unfolding assms(4) by (auto simp: fun_upd_upd)

lemma rename_to_itself_deletes_witness:
  "\<exists>s a' s'. files (img s) (parse_83 demo_name) = Some [1, 2] \<and> files_input_confirm (rename_demo [0x41, 0x2E, 0x54]) s = Some (a', s') \<and> files (img s') (parse_83 demo_name) = None"
proof -
  obtain s where s: "vol_good s" "files (img s) (parse_83 demo_name) = Some [1, 2]" using named_volume by blast
  have ok: "fm_ok (rename_demo [0x41, 0x2E, 0x54])" by (rule rename_demo_ok) (simp_all add: typed_def)
  have same: "parse_83 [0x41, 0x2E, 0x54] = parse_83 demo_name" by code_simp
  from rename_to_itself_deletes [OF s(1) ok] s(2) same show ?thesis by (auto simp: rename_demo_fields)
qed

subsection \<open>A picture that is too wide\<close>

text \<open>A BMP file whose three bytes per pixel wrap around to a row of four bytes.\<close>

definition wide_bmp :: "u8 list" where
  "wide_bmp = [0x42, 0x4D, 58, 0, 0, 0, 0, 0, 0, 0, 54, 0, 0, 0, 40, 0, 0, 0, 0x56, 0x55, 0x55, 0x55, 1, 0, 0, 0, 1, 0, 24, 0] @ replicate 28 0"

lemma wide_bmp_eq: "wide_bmp = [0x42, 0x4D, 58, 0, 0, 0, 0, 0, 0, 0, 54, 0, 0, 0, 40, 0, 0, 0, 0x56, 0x55, 0x55, 0x55, 1, 0, 0, 0, 1, 0, 24, 0,
    0, 0, 0, 0, 0, 0, 0, 0, 0, 0, 0, 0, 0, 0, 0, 0, 0, 0, 0, 0, 0, 0, 0, 0, 0, 0, 0, 0]"
  by code_simp

lemma wide_fields:
  "(wide_bmp @ r) ! 0 = 0x42" "(wide_bmp @ r) ! 1 = 0x4D" "bmp_rd32 10 (wide_bmp @ r) = 54" "bmp_rd32 14 (wide_bmp @ r) = 40"
  "bmp_rd32 18 (wide_bmp @ r) = 0x55555556" "bmp_rd32 22 (wide_bmp @ r) = 1" "bmp_rd16 28 (wide_bmp @ r) = 24" "bmp_rd32 30 (wide_bmp @ r) = 0"
  "length wide_bmp = 58"
  by (simp_all add: wide_bmp_eq bmp_rd32_def bmp_rd16_def)

text \<open>C38. Loading a file of 58 bytes makes the paint program read behind its buffer of 49494 bytes.\<close>

theorem wide_picture_escapes:
  assumes "vol_good s" "paint_ok p" "files (img s) (parse_83 (paint_slot_filename (paint_slot p))) = Some wide_bmp"
  shows "paint_load p s = None"
proof -
  let ?b = "wide_bmp @ drop 58 (save_buf p)"
  have l: "fat12_load (paint_slot_filename (paint_slot p)) SAVE_BUF_SIZE s = Some wide_bmp"
    by (rule vol.load_saved [OF assms(1,3)]) (simp add: wide_fields(9))
  have b: "length ?b = SAVE_BUF_SIZE" using assms(2) by (simp add: paint_ok_def wide_fields(9))
  have "bmp_pixel (54 + word_of_nat (0 + 16480) * 3) ?b = None" unfolding bmp_pixel_def b by simp
  then have "load_row 1431655766 0 54 0 ?b c = None" for c by (intro load_row_outside exI [of _ 16480]) simp
  then have r: "load_rows 1 1431655766 4 58 54 ?b c = None" for c by simp
  have w: "((0x55555556 :: u32) * 3 + 3) AND NOT 3 = 4" "unat (0x55555556 :: u32) = 1431655766" "\<not> sint (0x55555556 :: u32) \<le> 0" by simp_all
  show ?thesis
    unfolding paint_load_def l option.case Let_def wide_fields w using r by simp
qed

lemma wide_picture_escapes_witness:
  "\<exists>s. files (img s) (parse_83 (paint_slot_filename 1)) = Some wide_bmp \<and> paint_load paint_start s = None"
proof -
  obtain s where s: "vol_good s" "files (img s) (parse_83 (paint_slot_filename 1)) = Some wide_bmp"
    using demo_write [OF slot_name, of 1 wide_bmp] by (auto simp: wide_fields(9))
  have "paint_ok paint_start" by (simp add: paint_ok_def paint_start_def)
  from wide_picture_escapes [OF s(1) this] s(2) show ?thesis by (auto simp: paint_start_def)
qed

subsection \<open>The alarm\<close>

definition idle :: "frame_input \<Rightarrow> bool" where
  "idle i \<longleftrightarrow> new_codes i = [] \<and> mouse_buttons (pointer i) = 0"

text \<open>Drawing does not change the alarm while its window is closed.\<close>

lemma render_alarm:
  "render_window time idx d = Some d' \<Longrightarrow> \<not> was_open WIN_CLOCK d \<Longrightarrow> alarm d' = alarm d \<and> wins d' = wins d"
  by (auto simp: render_window_def was_open_def snake_to_def split: if_splits)

lemma seq_none: "fold (\<lambda>i r. Option.bind r (f i)) is None = None"
  by (induction "is") simp_all

lemma render_all_alarm:
  "fold (\<lambda>i r. Option.bind r (render_window time i)) is (Some d) = Some d' \<Longrightarrow> \<not> was_open WIN_CLOCK d \<Longrightarrow> alarm d' = alarm d \<and> wins d' = wins d"
proof (induction "is" arbitrary: d)
  case (Cons i "is")
  show ?case
  proof (cases "render_window time i d")
    case None
    then show ?thesis using Cons.prems(1) by (simp add: seq_none)
  next
    case (Some d1)
    have "alarm d1 = alarm d" "wins d1 = wins d" using render_alarm [OF Some Cons.prems(2)] by simp_all
    then show ?thesis using Cons.IH [of d1] Cons.prems Some by (simp add: was_open_def)
  qed
qed simp

lemma idle_frame:
  assumes ok: "desk_ok d" and i: "idle i" and w: "\<not> was_open WIN_CLOCK d" and d: "scr d = SCR_DESKTOP" "pending d = []"
  shows "\<exists>d'. gfx_frame i d = Some d' \<and> desk_ok d' \<and> alarm d' = alarm d \<and> \<not> was_open WIN_CLOCK d' \<and> scr d' = SCR_DESKTOP \<and> pending d' = []"
proof -
  obtain d' where d': "gfx_frame i d = Some d'" "desk_ok d'" using gfx_frame_ok [OF ok, of i] d(1) unfolding good_def by auto
  define mx where "mx = mouse_x (pointer i) * 10"
  define my where "my = mouse_y (pointer i) * 24"
  define w1 where "w1 = handle_window_drag True False mx my (wins d)"
  define w2 where "w2 = handle_window_resize True False mx my w1"
  define e where "e = d\<lparr>pending := [], prev_btn := False, picture := handle_paint_drag False False False mx my (picture d), wins := w2\<rparr>"
  have ok1: "wm_ok (wins d)" using desk_parts(1) [OF ok] .
  then have ok2: "wm_ok w1" unfolding w1_def by (rule window_drag_ok)
  have "shown (windows w2 ! WIN_CLOCK) = shown (windows (wins d) ! WIN_CLOCK)"
    unfolding w2_def w1_def using resize_shown [OF ok2, unfolded w1_def, of WIN_CLOCK] drag_shown [OF ok1, of WIN_CLOCK] by simp
  then have ne: "\<not> was_open WIN_CLOCK e" using w by (simp add: e_def was_open_def)
  have k: "mouse_buttons (pointer i) = 0" "new_codes i = []" using i by (simp_all add: idle_def)
  have e1: "gfx_frame i d = render_windows (rtc_time (clock_regs i)) e"
    by (simp add: gfx_frame_def Let_def k d handle_click_def e_def w1_def w2_def mx_def my_def render_def)
  then have "fold (\<lambda>j r. Option.bind r (render_window (rtc_time (clock_regs i)) j)) (win_order (wins e)) (Some e) = Some d'"
    using d'(1) by (simp add: render_windows_def seq_all_def)
  from render_all_alarm [OF this ne] have a: "alarm d' = alarm d" "\<not> was_open WIN_CLOCK d'" using ne by (simp_all add: e_def was_open_def)
  have keep: "scr x' = scr x \<and> pending x' = pending x" if "render_window t j x = Some x'" for t j x x'
    using that by (auto simp: render_window_def snake_to_def split: if_splits)
  have "scr x' = scr x \<and> pending x' = pending x" if "fold (\<lambda>j r. Option.bind r (render_window t j)) js (Some x) = Some x'" for t js x x'
    using that
  proof (induction js arbitrary: x)
    case (Cons j js)
    then obtain x1 where "render_window t j x = Some x1" by (cases "render_window t j x") (simp_all add: seq_none)
    then show ?case using Cons keep [of t j x x1] by simp
  qed simp
  from this [OF \<open>fold _ _ _ = _\<close>] have "scr d' = SCR_DESKTOP" "pending d' = []" using d by (simp_all add: e_def)
  then show ?thesis using d' a by blast
qed

text \<open>C39. The escape key closes the window of a ringing clock without silencing it: the speaker sounds on through every frame without
  input, with no window to stop it. The close button of the same window stops it, and a comment says that the key does
  what the button does.\<close>

theorem alarm_rings_on:
  assumes "desk_ok d" "scr d = SCR_DESKTOP" "\<not> esc_down d" "win_focused (wins d) = Some WIN_CLOCK" "clock_fired (alarm d)" "pending d = []"
    and "list_all idle inputs"
  shows "(\<exists>d'. gfx_main_loop inputs (esc_press d) = Some d' \<and> speaker (alarm d') \<and> \<not> was_open WIN_CLOCK d') \<and>
    (\<exists>d'. click_window WIN_CLOCK (wx (windows (wins d) ! WIN_CLOCK) + ww (windows (wins d) ! WIN_CLOCK) - 22) (wy (windows (wins d) ! WIN_CLOCK) + 6) d = Some d' \<and>
       \<not> speaker (alarm d') \<and> \<not> was_open WIN_CLOCK d')"
proof (rule conjI)
  note p = desk_parts [OF assms(1)]
  have sp: "speaker (alarm d)" using p(6) assms(5) by (simp add: clock_ok_def)
  have e: "esc_press d = d\<lparr>esc_down := True, wins := win_close WIN_CLOCK (wins d)\<rparr>"
    using assms(2-4) by (simp add: esc_press_def Let_def)
  have "desk_ok (esc_press d) \<and> \<not> was_open WIN_CLOCK (esc_press d) \<and> scr (esc_press d) = SCR_DESKTOP \<and> pending (esc_press d) = [] \<and> speaker (alarm (esc_press d))"
    using esc_press_ok [OF assms(1)] close_shown [OF p(1), of WIN_CLOCK WIN_CLOCK] assms(2,6) sp by (simp add: e was_open_def)
  moreover have "\<exists>d'. gfx_main_loop is b = Some d' \<and> speaker (alarm d') \<and> \<not> was_open WIN_CLOCK d'"
    if "list_all idle is" "desk_ok b \<and> \<not> was_open WIN_CLOCK b \<and> scr b = SCR_DESKTOP \<and> pending b = [] \<and> speaker (alarm b)" for b "is"
    using that
  proof (induction "is" arbitrary: b)
    case (Cons i "is")
    then obtain b1 where "gfx_frame i b = Some b1" "desk_ok b1 \<and> \<not> was_open WIN_CLOCK b1 \<and> scr b1 = SCR_DESKTOP \<and> pending b1 = [] \<and> speaker (alarm b1)"
      using idle_frame [of b i] by auto
    then show ?case using Cons by simp
  qed simp
  ultimately show "\<exists>d'. gfx_main_loop inputs (esc_press d) = Some d' \<and> speaker (alarm d') \<and> \<not> was_open WIN_CLOCK d'" using assms(7) by blast
  obtain w where w: "win_raise WIN_CLOCK (wins d) = Some w" "wm_ok w" "windows w = windows (wins d)" using win_raise_ok [OF p(1), of WIN_CLOCK] by auto
  have "win_hit_close WIN_CLOCK (wx (windows (wins d) ! WIN_CLOCK) + ww (windows (wins d) ! WIN_CLOCK) - 22) (wy (windows (wins d) ! WIN_CLOCK) + 6) w"
    by (simp add: win_hit_close_def w(3) Let_def)
  then show "\<exists>d'. click_window WIN_CLOCK (wx (windows (wins d) ! WIN_CLOCK) + ww (windows (wins d) ! WIN_CLOCK) - 22) (wy (windows (wins d) ! WIN_CLOCK) + 6) d = Some d' \<and>
       \<not> speaker (alarm d') \<and> \<not> was_open WIN_CLOCK d'"
    using assms(5) close_shown [OF w(2), of WIN_CLOCK WIN_CLOCK] by (simp add: click_window_def w(1) Let_def was_open_def)
qed

definition ringing :: "wm \<Rightarrow> desk" where
  "ringing w = (gfx_start demo_fs)\<lparr>wins := w, alarm := clock_start\<lparr>clock_armed := True, clock_fired := True, speaker := True\<rparr>\<rparr>"

lemma opened_focused:
  assumes "wm_ok s" "idx < 8" "win_open idx s = Some w"
  shows "win_focused w = Some idx"
proof -
  let ?s = "set_win idx (\<lambda>w. w\<lparr>shown := True\<rparr>) s"
  have "wm_ok ?s" by (rule set_win_ok [OF assms(1,2)]) (simp add: win_ok_def)
  from win_raise_order [OF this assms(2)] assms(3) have "w = ?s\<lparr>win_order := filter (\<lambda>i. i \<noteq> idx) (win_order ?s) @ [idx]\<rparr>"
    by (simp add: win_open_def)
  moreover have "shown (windows ?s ! idx)" using assms(2) wm_okD(1) [OF assms(1)] by (simp add: set_win_def)
  ultimately show ?thesis by (simp add: win_focused_def)
qed

lemma alarm_rings_on_witness:
  "\<exists>w d'. win_open WIN_CLOCK wm_start = Some w \<and> gfx_main_loop [\<lparr>new_codes = [], pointer = mouse_start, clock_regs = (0, 0, 0)\<rparr>] (esc_press (ringing w)) = Some d' \<and>
     speaker (alarm d') \<and> \<not> was_open WIN_CLOCK d'"
proof -
  obtain w where w: "win_open WIN_CLOCK wm_start = Some w" "wm_ok w" "\<forall>j<8. shown (windows w ! j) = (j = WIN_CLOCK \<or> shown (windows wm_start ! j))"
    using open_shown [OF wm_start_ok, of WIN_CLOCK] by auto
  have st: "desk_ok (gfx_start demo_fs)" by (rule gfx_start_ok [OF demo_init]) (use demo_vol_good in \<open>simp add: vol_good_def\<close>)
  have "\<not> shown (windows w ! 5)" using w(3) by (simp add: wm_start_def win_at_def)
  then have "desk_ok ((gfx_start demo_fs)\<lparr>wins := w\<rparr>)" by (intro wins_desk [OF st w(2)]) simp
  then have ok: "desk_ok (ringing w)" unfolding ringing_def by (rule desk_updates(9)) (simp add: clock_ok_def clock_start_def)
  have f: "win_focused (wins (ringing w)) = Some WIN_CLOCK" using opened_focused [OF wm_start_ok _ w(1)] by (simp add: ringing_def)
  have r: "scr (ringing w) = SCR_DESKTOP" "\<not> esc_down (ringing w)" "clock_fired (alarm (ringing w))" "pending (ringing w) = []"
    by (simp_all add: ringing_def gfx_start_def demo_init Let_def)
  have i: "list_all idle [\<lparr>new_codes = [], pointer = mouse_start, clock_regs = (0, 0, 0)\<rparr>]" by (simp add: idle_def mouse_start_def)
  show ?thesis using alarm_rings_on [OF ok r(1,2) f r(3,4) i] w(1) by blast
qed

subsection \<open>Smaller surprises\<close>

text \<open>Two direction keys between two moves turn the snake round, although a comment rules this out, and end the game.\<close>

lemma quick_turn_ends_game:
  assumes "snake_ok s" "\<not> game_over s" "snake_cells s ! 1 = (fst (hd (snake_cells s)) - snake_dx s, snd (hd (snake_cells s)) - snake_dy s)"
  shows "\<exists>s'. snake_advance (snake_set_dir (- snake_dx s) (- snake_dy s) (snake_set_dir (snake_dy s) (snake_dx s) s)) fs = Some (s', fs) \<and> game_over s'"
proof -
  have d: "\<bar>snake_dx s\<bar> + \<bar>snake_dy s\<bar> = 1" "3 \<le> length (snake_cells s)" "\<forall>c\<in>set (snake_cells s). in_grid c" using assms(1) by (simp_all add: snake_ok_def)
  have "snake_cells s ! 1 \<in> set (snake_cells s)" using d(2) by simp
  then have n: "(fst (hd (snake_cells s)) - snake_dx s, snd (hd (snake_cells s)) - snake_dy s) \<in> set (snake_cells s)" using assms(3) by simp
  have "snake_set_dir (- snake_dx s) (- snake_dy s) (snake_set_dir (snake_dy s) (snake_dx s) s) = s\<lparr>snake_dx := - snake_dx s, snake_dy := - snake_dy s\<rparr>"
  proof -
    have n1: "\<not> (snake_dy s = - snake_dx s \<and> snake_dx s = - snake_dy s)" and n2: "\<not> (- snake_dx s = - snake_dy s \<and> - snake_dy s = - snake_dx s)"
      using d(1) by arith+
    have "snake_set_dir (snake_dy s) (snake_dx s) s = s\<lparr>snake_dx := snake_dy s, snake_dy := snake_dx s\<rparr>"
      unfolding snake_set_dir_def if_not_P [OF assms(2)] if_not_P [OF n1] ..
    moreover have "snake_set_dir (- snake_dx s) (- snake_dy s) (s\<lparr>snake_dx := snake_dy s, snake_dy := snake_dx s\<rparr>) = s\<lparr>snake_dx := - snake_dx s, snake_dy := - snake_dy s\<rparr>"
      using assms(2) n2 by (simp add: snake_set_dir_def)
    ultimately show ?thesis by simp
  qed
  then show ?thesis using assms(2) n by (simp add: snake_advance_def Let_def snake_occupied_set)
qed

text \<open>The click that opens the paint program also paints: the icon lies over the canvas.\<close>

lemma icon_click_paints:
  assumes "scr d = SCR_DESKTOP" "\<not> prev_btn d" "win_topmost_at mx my (wins d) = None" "spans mx 192 76" "spans my 60 76" "paint_prev (picture d) = None"
  shows "\<exists>d2. handle_click True mx my d = Some d2 \<and> scr d2 = SCR_PAINT \<and>
    canvas (handle_paint_drag (scr d2 = SCR_PAINT) True False mx my (picture d2)) mx (my - 60) = paint_color (picture d)"
proof -
  have "click_icons mx my d = Some (d\<lparr>scr := SCR_PAINT\<rparr>)"
    using assms(4,5) by (simp add: click_icons_def seq_all_def icons_def click_icon_def spans_def open_icon_def)
  then have h: "handle_click True mx my d = Some (d\<lparr>scr := SCR_PAINT, prev_btn := True\<rparr>)" using assms(1-3) by (simp add: handle_click_def)
  have "60 \<le> my" "my < 136" "192 \<le> mx" "mx < 268" using assms(4,5) by (simp_all add: spans_def)
  then have "canvas (handle_paint_drag True True False mx my (picture d)) mx (my - 60) = paint_color (picture d)"
    using assms(6) by (simp add: handle_paint_drag_def Let_def canvas_dot_def put_block_def spans_def on_canvas_def)
  then show ?thesis using h by simp
qed

text \<open>The reader of mouse packets does not always find the packet boundary again, as a comment claims: if the first byte of a steady movement to
  the right is lost, the pointer moves up instead for as long as the movement goes on.\<close>

lemma lost_byte_misread:
  assumes "mouse_ok m" "mouse_packet m = []"
  shows "let m' = mouse_feed (concat (replicate n [0x08, 0x00, 0x08])) m
    in mouse_packet m' = [] \<and> mouse_x m' = mouse_x m \<and> mouse_y m' = max 0 (mouse_y m - 8 * int n)"
  using assms
proof (induction n arbitrary: m)
  case 0
  then show ?case by (simp add: mouse_ok_def)
next
  case (Suc n)
  let ?m = "mouse_feed [0x08, 0x00, 0x08] m"
  have x: "clamp 0 79 (mouse_x m) = mouse_x m" and y: "clamp 0 24 (mouse_y m - 8) = max 0 (mouse_y m - 8)"
    using Suc.prems(1) by (simp_all add: mouse_ok_def clamp_def)
  have "mouse_packet ?m = []" "mouse_x ?m = mouse_x m" "mouse_y ?m = max 0 (mouse_y m - 8)"
    using mouse_packet_read [OF Suc.prems(2), of 8 0 8] x y by simp_all
  moreover have "mouse_ok ?m" by (rule mouse_feed_ok [OF Suc.prems(1)])
  ultimately show ?case using Suc.IH [of ?m] by (simp add: Let_def)
qed

end
