(* ===== verification/Spec2Isabelle.thy ===== *)
theory Spec2Isabelle
  imports KProps Rv32Props Rv32Plain KAccess KFork NetProps NameProps TcpProps VirtioCard CalcProps ShellProps
begin

text \<open>
  A verification library for AxOS, a 64-bit kernel for PCs written in C with its user programs.

  \<^bold>\<open>The program.\<close> The kernel (\<^verbatim>\<open>src/src/kernel\<close>, \<^verbatim>\<open>src/src/fs\<close>) has one heap with redzones and a quarantine
  (\<^verbatim>\<open>heap.c\<close>), a ring of tasks with a preemptive scheduler (\<^verbatim>\<open>tasking.c\<close>), page tables that give every
  program one window of 2 MB (\<^verbatim>\<open>paging.c\<close>), a loader for position independent ELF files (\<^verbatim>\<open>elf.c\<close>), a FAT12 volume
  held in RAM and written back to the disk (\<^verbatim>\<open>fat12.c, vfs.c\<close>), and the system calls with their
  checks (\<^verbatim>\<open>kernel.c\<close>). User programs (\<^verbatim>\<open>src/src/user\<close>) include a network library as header files
  (\<^verbatim>\<open>arp.h, icmp.h, udp.h, tcp.h, dns.h, dhcp.h\<close>) and there are two interpreters of RISC-V programs
  (\<^verbatim>\<open>rv32i.c, rv32i_full.c\<close>). The network calls of the kernel end in a driver for a virtio card found on the PCI bus
  (\<^verbatim>\<open>src/src/drivers/virtio_net.c, pci.c, dma_pool.c\<close>); the graphical shell (\<^verbatim>\<open>gfx_shell.c\<close>, with
  the packets of \<^verbatim>\<open>mouse.c\<close>) is one loop that reads keyboard and mouse, hands keys and clicks to windows and draws them: a terminal,
  a file manager, a calculator with decimal numbers of any length and a heap of its own, a notepad, a task list, a game, an alarm clock and a
  paint program, most of which keep their work in files of the same FAT12 code. The system calls go through the dispatcher to descriptors, pipes, tasks and the
  volume; these allocate from the heap; the timer interrupt enters the scheduler, which at the end of a task releases
  its descriptors (and may write a file) before it frees its memory.

  \<^bold>\<open>Theories and sources.\<close> \<open>AxPrelude\<close>: machine types, byte encodings, fact collections. \<open>PtrLists\<close>: stores of
  linked objects, lists and rings. \<open>Tag144, KHeap\<close>: \<^verbatim>\<open>heap.c\<close>; \<open>AllocSpec, HeapStore\<close>: the interfaces of the heap
  as locales, interpreted on \<open>kmalloc\<close> and \<open>kfree\<close> in \<open>KHeapInv, HeapStore\<close>. \<open>Fat12, Fat12Inv, Fat12Files,
  Fat12Props\<close>: \<^verbatim>\<open>fat12.c, vfs.c\<close>; \<open>Fat12Map\<close>: the interface \<open>file_store\<close> of a volume that is used as a map from names to contents,
  interpreted on \<open>fat12_write, fat12_load, fat12_delete\<close>. \<open>Paging\<close>: \<^verbatim>\<open>paging.c, paging.h, memmap.h\<close>. \<open>KState\<close>: the globals of the kernel in one
  record; \<open>Slots, Files, Syscalls, Security\<close>: \<^verbatim>\<open>kernel.c\<close>; \<open>Tasking\<close>: \<^verbatim>\<open>tasking.c\<close>; \<open>Elf\<close>: \<^verbatim>\<open>elf.c\<close>. \<open>TaskRing, KInv, KSched,
  KOps\<close>: the kernel invariant and what keeps it; \<open>KProps, KAccess, KFork\<close>: the properties of scheduler, access
  control and fork; \<open>KDemo\<close>: a concrete kernel state for the witnesses. \<open>Rv32, Rv32Step\<close>: \<^verbatim>\<open>rv32i_full.c\<close>, with
  \<open>Rv32Isa\<close> (an independent specification of the instruction set), \<open>Rv32Tags, Rv32Mem, Rv32Props\<close>; \<open>Rv32Plain\<close>:
  \<^verbatim>\<open>rv32i.c\<close>. \<open>Net\<close>: byte order, the network card, the waiting loop, the checksum; \<open>NetArp\<close>: \<^verbatim>\<open>arp.h\<close>; \<open>NetIp\<close>: \<^verbatim>\<open>icmp.h, udp.h\<close>;
  \<open>Tcp, TcpMux\<close>: \<^verbatim>\<open>tcp.h\<close>; \<open>Dns\<close>: \<^verbatim>\<open>dns.h\<close>; \<open>Dhcp\<close>: \<^verbatim>\<open>dhcp.h\<close>; \<open>TcpWire, NetProps, NameProps\<close>: frames, parsers, names
  and addresses; \<open>TcpStream, TcpStreamInv, TcpStreamCli, TcpStreamProps, TcpProps\<close>: the byte stream.
  \<open>Pci\<close>: \<^verbatim>\<open>pci.c\<close>; \<open>VirtioNet\<close>: \<^verbatim>\<open>virtio_net.c, dma_pool.c\<close> and the card as its specification describes it; \<open>VirtioProps, VirtioSend\<close>: the
  two rings; \<open>VirtioCard\<close>: the interface between driver and network library. \<open>CalcHeap, Calc\<close>: the calculator of \<^verbatim>\<open>gfx_shell.c\<close>
  (from \<^verbatim>\<open>calc_heap_init\<close> to \<^verbatim>\<open>bignum_display_len\<close>); \<open>CalcArith, CalcOps\<close>: lists of digits and the operations on numbers; \<open>CalcKeys,
  CalcExpr\<close>: keys and sequences of keys; \<open>CalcSqrt\<close>: the iteration for the square root over the reals; \<open>CalcProps\<close>. The rest of \<^verbatim>\<open>gfx_shell.c\<close>:
  \<open>ShellWin\<close>: \<^verbatim>\<open>mouse_irq_handler_main\<close> and the functions \<^verbatim>\<open>win_...\<close>; \<open>ShellFiles\<close>: \<^verbatim>\<open>files_...\<close>; \<open>ShellNotes\<close>: \<^verbatim>\<open>np_...\<close> and
  \<^verbatim>\<open>todo_...\<close>; \<open>ShellGames\<close>: \<^verbatim>\<open>snake_..., clock_...\<close>, the terminal (\<^verbatim>\<open>trun\<close>); \<open>ShellPaint\<close>: \<^verbatim>\<open>canvas_..., paint_...\<close>; \<open>ShellDesk\<close>: the record
  \<open>desk\<close> of all the globals, \<^verbatim>\<open>handle_keys, handle_click\<close> and the loop of \<^verbatim>\<open>gfx_main\<close>, one \<open>gfx_frame\<close> per turn; \<open>ShellInv, ShellProps\<close>.

  \<^bold>\<open>What the lemmas show.\<close> Heap: \<open>kh_inv\<close> (the blocks tile the arena, redzones and canaries match) is kept by
  \<open>kmalloc\<close> and \<open>kfree\<close>, blocks are fresh and disjoint, damage and double frees are reported. Volume: what is written
  reads back, also after a restart; other files are untouched; every operation returns on every table. Page
  tables: ring 3 reaches its window and nothing else. Kernel: \<open>kinv\<close> says which task, slot, descriptor and pipe
  owns which heap block; the scheduler, fork and the page fault handler return and keep it; a runnable task runs within a
  bound; a dying task is reaped; the checks of the system calls confine what a program reads, calls and learns.
  Interpreters: the run over a program refines the instruction set, stays inside the guest's arrays, and the two
  interpreters agree; capabilities and memory tags confine accesses. Network: a frame that was sent parses back; no parser reads past
  the received bytes; the handshake leads to a state from which the calls of client and server implement one
  ordered byte stream over a network that loses, repeats and reorders frames; the resolver finds the address in an
  answer. The driver and its card implement the network record of the library (\<open>inbox\<close> and \<open>sent\<close>) for every order of arrivals,
  fetches and transmissions. Calculator: every key returns and leaks nothing, expressions are evaluated exactly or cut
  off after twenty decimals, the square root is right to two units of the last one in the range stated. Volume as a map: every sequence of writes, reads and
  deletions behaves as a finite map from names to contents. Graphical shell: \<open>desk_ok\<close> (windows on the screen, bounds of all applications, a connected snake, a
  good volume) is kept by every frame for every input; notes, tasks and pictures load as they were saved. Error theorems record where the
  code does not do this: a write without space, a timer tick
  in the wrong place, a lost acknowledgement, a read into a short buffer, clients that stay silent, a frame that
  completes too late, a bridge that points at its own bus, the square root of a large number, a digit after an error, a
  rename to the same name, a picture that is too wide, the escape key on a ringing clock.

  \<^bold>\<open>Conventions.\<close> Machine integers are words of their width where the code depends on it; lengths and counters that
  cannot wrap are naturals, and the theorem or the theory says under which bound. A loop that may not end, or a machine that
  halts, gives \<open>None\<close>: \<open>schedule\<close>, the system calls and the chains of the volume return \<open>Some\<close> in all
  properties that say so. Fuel is used in one place, the cycle limit of the interpreters, which is the code's own
  (2000000 steps), and for the recursion through PCI bridges, where 256 levels are enough because there are 256 bus
  numbers. The waiting loops of the network library end by the milliseconds they have waited. The disk, the
  network card, the clock and the console are fields of the state (\<open>ide_ok\<close> and \<open>disk\<close>; \<open>inbox\<close>, \<open>sent\<close>, \<open>nic_ok\<close>,
  \<open>now\<close>; \<open>klog\<close>); a theorem that holds for all their values holds whatever they do. In the graphical shell
  the input of a frame (\<open>frame_input\<close>: scan codes, pointer, clock registers) is an argument, an access outside an array is \<open>None\<close>, a
  status line is a constructor instead of its text, arrays with a counter are lists, and \<^verbatim>\<open>unsigned long\<close> has 32 bits because this
  program is compiled for the 32-bit mode of the processor.

  \<^bold>\<open>Not modelled.\<close> The port to RISC-V (\<^verbatim>\<open>src/src/arch/riscv64\<close>, \<^verbatim>\<open>src/src/user/rv64\<close>), a separate and smaller kernel with copies of
  the same programs; what the graphical shell and the demos draw (\<^verbatim>\<open>gfx_shell.c, gfx_demo.c\<close>: pixels, fonts, icons, cursor) and the set-up of their interrupts; the drivers
  of disk and speaker and the start-up of the mouse (\<^verbatim>\<open>src/src/drivers\<close>), whose behaviour is that of the device; text output and scan codes; boot code and
  interrupt stubs in assembly; the remaining user programs; the kernel shell, the keyboard decoder and the boot
  sequence of \<^verbatim>\<open>kernel.c\<close>; the hardware descriptions and tools.
\<close>

end
